(* ===== verification/Cusco_Prelude.thy ===== *)
theory Cusco_Prelude
  imports Main "HOL-Library.Word" "HOL-Library.List_Lexorder" "HOL-Library.Multiset"
begin

text \<open>
  Shared vocabulary of the development: the outcome of a Rust call, machine integer
  helpers, hash maps as association lists, the generic reachability rule for the state
  machines, and the lemma collections the component theories use.

  All integers of the code (\<open>usize\<close>, \<open>u64\<close>) are 64 bits wide. They are modelled as
  natural numbers; every place where the code relies on \<open>checked_add\<close>,
  \<open>saturating_sub\<close> or a wrap-around is written out with the functions below. The
  binary is built with the release profile, where an unchecked \<open>-=\<close> wraps.
\<close>

declare split_paired_All [simp del] split_paired_Ex [simp del]

named_theorems hm_simps \<open>rewrite rules for hash maps\<close>
named_theorems outcome_simps \<open>rewrite rules for outcomes\<close>

section \<open>Outcomes\<close>

text \<open>
  A call returns \<open>Ok\<close>, returns \<open>Err\<close>, or does not return: \<open>Abort\<close> stands for a panic
  (a failed \<open>unwrap\<close>, \<open>expect\<close> or map index) and for a loop that never ends.
\<close>

datatype ('e, 'a) outcome = Ok 'a | Err 'e | Abort

definition ok_or :: "'e \<Rightarrow> 'a option \<Rightarrow> ('e, 'a) outcome" where
  "ok_or e x = (case x of None \<Rightarrow> Err e | Some v \<Rightarrow> Ok v)"

text \<open>
  Sequencing of calls that change a state: \<open>?\<close> on an error and unwinding on a panic keep the
  state reached so far.
\<close>

definition and_then :: "'s \<times> ('e, 'a) outcome \<Rightarrow> ('a \<Rightarrow> 's \<Rightarrow> 's \<times> ('e, 'b) outcome) \<Rightarrow> 's \<times> ('e, 'b) outcome" where
  "and_then r f = (case snd r of Ok a \<Rightarrow> f a (fst r) | Err e \<Rightarrow> (fst r, Err e) | Abort \<Rightarrow> (fst r, Abort))"

lemma and_then_code [code_unfold]:
  "and_then r f = (case r of (s, x) \<Rightarrow> (case x of Ok a \<Rightarrow> f a s | Err e \<Rightarrow> (s, Err e) | Abort \<Rightarrow> (s, Abort)))"
  by (simp add: and_then_def split: prod.split outcome.split)

text \<open>
  A call returns and establishes \<open>Q\<close> on success and \<open>E\<close> on an error; it may panic only
  where \<open>b\<close> allows it. With \<open>b = False\<close> this is total correctness.
\<close>

definition runs :: "bool \<Rightarrow> 's \<times> ('e, 'a) outcome \<Rightarrow> ('a \<Rightarrow> 's \<Rightarrow> bool) \<Rightarrow> ('e \<Rightarrow> 's \<Rightarrow> bool) \<Rightarrow> bool" where
  "runs b r Q E = (case snd r of Ok a \<Rightarrow> Q a (fst r) | Err e \<Rightarrow> E e (fst r) | Abort \<Rightarrow> b)"

lemma runs_simps [simp]:
  "runs b (s, Ok a) Q E = Q a s" "runs b (s, Err e) Q E = E e s" "runs b (s, Abort) Q E = b"
  by (simp_all add: runs_def)

lemma runs_and_then:
  assumes "runs b r Q E" and f: "\<And>a s. Q a s \<Longrightarrow> runs b (f a s) Q' E"
  shows "runs b (and_then r f) Q' E"
proof (cases "snd r")
  case (Ok a)
  with assms(1) have "Q a (fst r)" by (simp add: runs_def)
  from f[OF this] Ok show ?thesis by (simp add: and_then_def)
qed (use assms(1) in \<open>simp_all add: runs_def and_then_def\<close>)

lemma runs_mono:
  "runs b r Q E \<Longrightarrow> (\<And>a s. Q a s \<Longrightarrow> Q' a s) \<Longrightarrow> (\<And>e s. E e s \<Longrightarrow> E' e s) \<Longrightarrow> runs b r Q' E'"
  by (auto simp: runs_def split: outcome.splits)

lemma runs_not_Abort: "runs False r Q E \<Longrightarrow> snd r \<noteq> Abort"
  by (auto simp: runs_def split: outcome.splits)

lemma runs_Ok: "runs b r Q E \<Longrightarrow> snd r = Ok a \<Longrightarrow> Q a (fst r)"
  by (simp add: runs_def)

lemma runs_Err: "runs b r Q E \<Longrightarrow> snd r = Err e \<Longrightarrow> E e (fst r)"
  by (simp add: runs_def)

lemma runs_any: "runs b r (\<lambda>_. P) (\<lambda>_. P) \<Longrightarrow> snd r \<noteq> Abort \<Longrightarrow> P (fst r)"
  by (auto simp: runs_def split: outcome.splits)

lemma and_then_Ok [simp]: "and_then (s, Ok a) f = f a s"
  by (simp add: and_then_def)

lemma and_then_Err [simp]: "and_then (s, Err e) f = (s, Err e)"
  by (simp add: and_then_def)

section \<open>Machine integers\<close>

definition u64_max :: nat where
  "u64_max = 2 ^ 64 - 1"

definition checked_add :: "nat \<Rightarrow> nat \<Rightarrow> nat option" where
  "checked_add a b = (if a + b \<le> u64_max then Some (a + b) else None)"

definition saturating_add :: "nat \<Rightarrow> nat \<Rightarrow> nat" where
  "saturating_add a b = min (a + b) u64_max"

definition wrapping_add :: "nat \<Rightarrow> nat \<Rightarrow> nat" where
  "wrapping_add a b = (a + b) mod 2 ^ 64"

text \<open>Code equations over binary integers, so that closed examples evaluate.\<close>

lemma fits_u64: "a + b \<le> u64_max \<longleftrightarrow> int a + int b \<le> 18446744073709551615"
proof -
  have "a + b \<le> u64_max \<longleftrightarrow> int (a + b) \<le> int u64_max" by linarith
  then show ?thesis by (simp add: u64_max_def)
qed

lemma checked_add_code [code]:
  "checked_add a b = (if int a + int b \<le> 18446744073709551615 then Some (a + b) else None)"
  by (simp add: checked_add_def fits_u64)

lemma saturating_add_code [code]:
  "saturating_add a b = (if int a + int b \<le> 18446744073709551615 then a + b else u64_max)"
  by (simp add: saturating_add_def fits_u64[symmetric] min_def)

lemma wrapping_add_code [code]:
  "wrapping_add a b = (if int a + int b \<le> 18446744073709551615 then a + b
     else nat ((int a + int b) mod 18446744073709551616))"
proof (cases "a + b \<le> u64_max")
  case True
  then have "a + b < 2 ^ 64" by (simp add: u64_max_def)
  with True show ?thesis by (simp add: wrapping_add_def fits_u64[symmetric])
next
  case False
  then show ?thesis
    by (simp add: wrapping_add_def fits_u64[symmetric] nat_mod_distrib nat_add_distrib)
qed

lemma wrapping_add_exact [simp]: "a + b < 2 ^ 64 \<Longrightarrow> wrapping_add a b = a + b"
  by (simp add: wrapping_add_def)

text \<open>\<open>Iterator::sum\<close> over \<open>usize\<close>, without overflow checks.\<close>

definition wrapping_sum :: "nat list \<Rightarrow> nat" where
  "wrapping_sum xs = foldl wrapping_add 0 xs"

lemma foldl_wrapping_add: "foldl wrapping_add a xs mod 2 ^ 64 = (a + sum_list xs) mod 2 ^ 64"
proof (induction xs arbitrary: a)
  case Nil
  then show ?case by simp
next
  case (Cons x xs)
  have "foldl wrapping_add a (x # xs) mod 2 ^ 64 = (wrapping_add a x + sum_list xs) mod 2 ^ 64"
    by (simp only: foldl_Cons Cons.IH)
  also have "\<dots> = (a + x + sum_list xs) mod 2 ^ 64"
    by (simp only: wrapping_add_def mod_add_left_eq)
  finally show ?case by (simp add: add.assoc)
qed

lemma wrapping_sum_bound: "wrapping_sum xs < 2 ^ 64"
  unfolding wrapping_sum_def by (induction xs rule: rev_induct) (simp_all add: wrapping_add_def)

lemma wrapping_sum_mod: "wrapping_sum xs = sum_list xs mod 2 ^ 64"
  using foldl_wrapping_add[of 0 xs] wrapping_sum_bound[of xs] by (simp add: wrapping_sum_def)

lemma wrapping_sum_exact: "sum_list xs < 2 ^ 64 \<Longrightarrow> wrapping_sum xs = sum_list xs"
  by (simp add: wrapping_sum_mod)

text \<open>An unchecked decrement in the release profile: it wraps below zero.\<close>

definition wrapping_dec :: "nat \<Rightarrow> nat" where
  "wrapping_dec a = (if a = 0 then u64_max else a - 1)"

lemma wrapping_dec_pos [simp]: "0 < a \<Longrightarrow> wrapping_dec a = a - 1"
  by (simp add: wrapping_dec_def)

lemma checked_add_Some_iff:
  "checked_add a b = Some c \<longleftrightarrow> a + b \<le> u64_max \<and> c = a + b"
  by (auto simp: checked_add_def)

lemma saturating_add_le: "saturating_add a b \<le> a + b"
  by (simp add: saturating_add_def)

lemma saturating_add_exact: "saturating_add a b \<le> n \<Longrightarrow> n < u64_max \<Longrightarrow> saturating_add a b = a + b"
  by (auto simp: saturating_add_def min_def split: if_splits)

section \<open>First minimum\<close>

text \<open>\<open>Iterator::min_by_key\<close>: the first element among those with the least key.\<close>

fun min_by_key :: "('a \<Rightarrow> 'b::linorder) \<Rightarrow> 'a list \<Rightarrow> 'a option" where
  "min_by_key f [] = None"
| "min_by_key f (x # xs) =
     (case min_by_key f xs of
        None \<Rightarrow> Some x
      | Some y \<Rightarrow> if f x \<le> f y then Some x else Some y)"

lemma min_by_key_None [simp]: "min_by_key f xs = None \<longleftrightarrow> xs = []"
  by (cases xs) (auto split: option.splits)

lemma min_by_key_in: "min_by_key f xs = Some x \<Longrightarrow> x \<in> set xs"
  by (induction xs arbitrary: x) (auto split: option.splits if_splits)

lemma min_by_key_le: "min_by_key f xs = Some x \<Longrightarrow> y \<in> set xs \<Longrightarrow> f x \<le> f y"
proof (induction xs arbitrary: x)
  case Nil
  then show ?case by simp
next
  case (Cons z zs)
  show ?case
  proof (cases "min_by_key f zs")
    case None
    with Cons.prems show ?thesis by simp
  next
    case (Some w)
    with Cons.IH[OF Some] Cons.prems show ?thesis
      by (fastforce split: if_splits)
  qed
qed

lemma min_by_key_exists: "xs \<noteq> [] \<Longrightarrow> \<exists>x. min_by_key f xs = Some x"
  by (cases "min_by_key f xs") auto

section \<open>Hash maps\<close>

text \<open>
  \<open>std::collections::HashMap\<close> as an association list with distinct keys: \<open>map_of\<close> is
  \<open>get\<close>, \<open>hm_put\<close> is \<open>insert\<close>, \<open>hm_del\<close> is \<open>remove\<close>. The iteration order of a hash map
  is unspecified; the code only sums over it, takes minima with a total key, or tests for
  existence, and all theorems hold for every order of the list.
\<close>

type_synonym ('k, 'v) hm = "('k \<times> 'v) list"

primrec hm_put :: "'k \<Rightarrow> 'v \<Rightarrow> ('k, 'v) hm \<Rightarrow> ('k, 'v) hm" where
  "hm_put k v [] = [(k, v)]"
| "hm_put k v (p # ps) = (if fst p = k then (k, v) # ps else p # hm_put k v ps)"

definition hm_del :: "'k \<Rightarrow> ('k, 'v) hm \<Rightarrow> ('k, 'v) hm" where
  "hm_del k m = filter (\<lambda>p. fst p \<noteq> k) m"

abbreviation hm_values :: "('k, 'v) hm \<Rightarrow> 'v list" where
  "hm_values m \<equiv> map snd m"

definition hm_has :: "('k, 'v) hm \<Rightarrow> 'k \<Rightarrow> bool" where
  "hm_has m k = (map_of m k \<noteq> None)"

definition hm_ok :: "('k, 'v) hm \<Rightarrow> bool" where
  "hm_ok m = distinct (map fst m)"

definition hm_sum :: "('v \<Rightarrow> nat) \<Rightarrow> ('k, 'v) hm \<Rightarrow> nat" where
  "hm_sum f m = sum_list (map f (hm_values m))"

lemma hm_ok_Nil [simp]: "hm_ok []"
  by (simp add: hm_ok_def)

lemma hm_ok_single [simp]: "hm_ok [(k, v)]"
  by (simp add: hm_ok_def)

lemma hm_get_put [simp]: "map_of (hm_put k v m) = (map_of m)(k \<mapsto> v)"
  by (induction m) (auto simp: fun_eq_iff)

lemma hm_get_del [simp]: "map_of (hm_del k m) = (map_of m)(k := None)"
  by (induction m) (auto simp: fun_eq_iff hm_del_def)

lemma hm_keys_put: "fst ` set (hm_put k v m) = insert k (fst ` set m)"
  by (induction m) (auto simp: image_iff)

lemma hm_keys_del: "fst ` set (hm_del k m) = fst ` set m - {k}"
  by (auto simp: hm_del_def)

lemma hm_ok_put [simp]: "hm_ok m \<Longrightarrow> hm_ok (hm_put k v m)"
  by (induction m) (auto simp: hm_ok_def hm_keys_put)

lemma hm_ok_del [simp]: "hm_ok m \<Longrightarrow> hm_ok (hm_del k m)"
  by (induction m) (auto simp: hm_ok_def hm_del_def)

lemma hm_del_absent: "map_of m k = None \<Longrightarrow> hm_del k m = m"
  by (induction m) (auto simp: hm_del_def split: if_splits)

lemma hm_get_in_iff: "hm_ok m \<Longrightarrow> map_of m k = Some v \<longleftrightarrow> (k, v) \<in> set m"
  by (simp add: hm_ok_def)

lemma hm_values_iff: "hm_ok m \<Longrightarrow> v \<in> set (hm_values m) \<longleftrightarrow> (\<exists>k. map_of m k = Some v)"
  by (force simp: hm_get_in_iff)

lemma hm_length_del: "map_of m k = Some v \<Longrightarrow> length (hm_del k m) < length m"
  by (induction m) (auto simp: hm_del_def split: if_splits intro: le_imp_less_Suc length_filter_le)

lemma hm_sum_Nil [simp]: "hm_sum f [] = 0"
  by (simp add: hm_sum_def)

lemma hm_sum_del:
  "hm_ok m \<Longrightarrow> map_of m k = Some v \<Longrightarrow> hm_sum f m = f v + hm_sum f (hm_del k m)"
proof (induction m)
  case Nil
  then show ?case by simp
next
  case (Cons p m)
  show ?case
  proof (cases "fst p = k")
    case True
    with Cons.prems have "map_of m k = None"
      by (auto simp: hm_ok_def map_of_eq_None_iff)
    then have "hm_del k (p # m) = m"
      using True by (simp add: hm_del_def hm_del_absent[unfolded hm_del_def])
    with True Cons.prems show ?thesis by (auto simp: hm_sum_def split: if_splits)
  next
    case False
    with Cons show ?thesis by (cases p) (auto simp: hm_sum_def hm_ok_def hm_del_def)
  qed
qed

lemma hm_sum_put: "hm_ok m \<Longrightarrow> hm_sum f (hm_put k v m) = f v + hm_sum f (hm_del k m)"
proof -
  assume ok: "hm_ok m"
  have "hm_sum f (hm_put k v m) = f v + hm_sum f (hm_del k (hm_put k v m))"
    using ok by (intro hm_sum_del) auto
  moreover have "hm_del k (hm_put k v m) = hm_del k m"
    by (induction m) (auto simp: hm_del_def)
  ultimately show ?thesis by simp
qed

lemma hm_sum_put_new:
  "hm_ok m \<Longrightarrow> map_of m k = None \<Longrightarrow> hm_sum f (hm_put k v m) = f v + hm_sum f m"
  by (simp add: hm_sum_put hm_del_absent)

lemma hm_sum_put_old:
  "hm_ok m \<Longrightarrow> map_of m k = Some w \<Longrightarrow> hm_sum f (hm_put k v m) + f w = hm_sum f m + f v"
  by (simp add: hm_sum_put hm_sum_del[where f = f and m = m and k = k])

lemma hm_sum_put_same:
  "hm_ok m \<Longrightarrow> map_of m k = Some w \<Longrightarrow> f v = f w \<Longrightarrow> hm_sum f (hm_put k v m) = hm_sum f m"
  by (simp add: hm_sum_put hm_sum_del[where f = f and m = m and k = k])

lemma hm_sum_member: "hm_ok m \<Longrightarrow> map_of m k = Some v \<Longrightarrow> f v \<le> hm_sum f m"
  by (simp add: hm_sum_del)

lemma hm_sum_zero_iff: "hm_ok m \<Longrightarrow> hm_sum f m = 0 \<longleftrightarrow> (\<forall>k v. map_of m k = Some v \<longrightarrow> f v = 0)"
  by (auto simp: hm_sum_def hm_get_in_iff)

lemma hm_sum_mono: "(\<And>v. f v \<le> g v) \<Longrightarrow> hm_sum f m \<le> hm_sum g m"
  by (induction m) (auto simp: hm_sum_def add_mono)

lemma hm_sum_cong: "(\<And>v. v \<in> set (hm_values m) \<Longrightarrow> f v = g v) \<Longrightarrow> hm_sum f m = hm_sum g m"
  by (induction m) (auto simp: hm_sum_def)

lemma hm_sum_filter: "sum_list (map f (filter P (hm_values m))) = hm_sum (\<lambda>v. if P v then f v else 0) m"
  by (induction m) (auto simp: hm_sum_def)

lemma hm_sum_pos_iff:
  "hm_ok m \<Longrightarrow> 0 < hm_sum f m \<longleftrightarrow> (\<exists>k v. map_of m k = Some v \<and> 0 < f v)"
  by (simp add: hm_sum_zero_iff flip: neq0_conv)

lemma fold_hm_del:
  "map_of (fold hm_del ks m) k = (if k \<in> set ks then None else map_of m k)"
  "hm_ok m \<Longrightarrow> hm_ok (fold hm_del ks m)"
  by (induction ks arbitrary: m) auto

lemma hm_sum_dom: "hm_ok m \<Longrightarrow> hm_sum f m = (\<Sum>k\<in>dom (map_of m). f (the (map_of m k)))"
proof (induction m)
  case Nil
  then show ?case by simp
next
  case (Cons p m)
  obtain k v where p: "p = (k, v)" by (cases p)
  from Cons.prems p have k: "k \<notin> dom (map_of m)" and ok: "hm_ok m"
    by (auto simp: hm_ok_def domIff map_of_eq_None_iff)
  have 1: "(\<Sum>j\<in>dom (map_of m). f (the (map_of (p # m) j))) = (\<Sum>j\<in>dom (map_of m). f (the (map_of m j)))"
    by (rule sum.cong) (use p k in auto)
  have "dom (map_of (p # m)) = insert k (dom (map_of m))" using p by auto
  then have "(\<Sum>j\<in>dom (map_of (p # m)). f (the (map_of (p # m) j)))
      = f (the (map_of (p # m) k)) + (\<Sum>j\<in>dom (map_of m). f (the (map_of (p # m) j)))"
    using k by (simp only: sum.insert finite_dom_map_of not_False_eq_True)
  moreover have "f (the (map_of (p # m) k)) = f v" "hm_sum f (p # m) = f v + hm_sum f m"
    by (simp_all add: p hm_sum_def)
  ultimately show ?case using Cons.IH[OF ok] by (simp only: 1)
qed

lemma hm_length: "length m = hm_sum (\<lambda>_. 1) m"
  by (induction m) (simp_all add: hm_sum_def)

lemma hm_length_del_Suc: "hm_ok m \<Longrightarrow> map_of m k = Some v \<Longrightarrow> length m = Suc (length (hm_del k m))"
  unfolding hm_length by (simp add: hm_sum_del)

lemma hm_length_put_old: "hm_ok m \<Longrightarrow> map_of m k = Some w \<Longrightarrow> length (hm_put k v m) = length m"
  unfolding hm_length by (simp add: hm_sum_put_same)

lemma hm_length_put_new: "hm_ok m \<Longrightarrow> map_of m k = None \<Longrightarrow> length (hm_put k v m) = Suc (length m)"
  unfolding hm_length by (simp add: hm_sum_put_new)

text \<open>Two maps whose values are related agree on every sum that respects the relation.\<close>

lemma hm_sum_rel:
  assumes "hm_ok m" "hm_ok m'" and rel: "\<forall>k. rel_option R (map_of m k) (map_of m' k)"
    and f: "\<And>v v'. R v v' \<Longrightarrow> f v = f v'"
  shows "hm_sum f m = hm_sum f m'"
proof -
  have dom: "dom (map_of m) = dom (map_of m')"
    using rel by (auto simp: dom_def) (metis option.rel_distinct not_None_eq)+
  have "f (the (map_of m k)) = f (the (map_of m' k))" if "k \<in> dom (map_of m)" for k
  proof -
    from that obtain v where "map_of m k = Some v" by auto
    with rel[rule_format, of k] f show ?thesis by (auto simp: option_rel_Some1)
  qed
  then show ?thesis unfolding hm_sum_dom[OF assms(1)] hm_sum_dom[OF assms(2)] dom by (intro sum.cong) (auto simp: dom)
qed

text \<open>The laws a client of a hash map relies on, as an interface.\<close>

locale hash_map =
  fixes get :: "'m \<Rightarrow> 'k \<Rightarrow> 'v option"
    and put :: "'k \<Rightarrow> 'v \<Rightarrow> 'm \<Rightarrow> 'm"
    and del :: "'k \<Rightarrow> 'm \<Rightarrow> 'm"
    and ok :: "'m \<Rightarrow> bool"
    and total :: "('v \<Rightarrow> nat) \<Rightarrow> 'm \<Rightarrow> nat"
  assumes get_put: "get (put k v m) = (get m)(k \<mapsto> v)"
    and get_del: "get (del k m) = (get m)(k := None)"
    and ok_put: "ok m \<Longrightarrow> ok (put k v m)"
    and ok_del: "ok m \<Longrightarrow> ok (del k m)"
    and total_del: "ok m \<Longrightarrow> get m k = Some v \<Longrightarrow> total f m = f v + total f (del k m)"
    and total_put: "ok m \<Longrightarrow> total f (put k v m) = f v + total f (del k m)"
begin

text \<open>Replacing one value shifts a total by the difference of the two values.\<close>

lemma total_replace:
  "ok m \<Longrightarrow> get m k = Some w \<Longrightarrow> total f (put k v m) + f w = total f m + f v"
  by (simp add: total_put total_del[of m k w f])

lemma total_replace_mono:
  "ok m \<Longrightarrow> get m k = Some w \<Longrightarrow> f v \<le> f w \<Longrightarrow> total f (put k v m) \<le> total f m"
  using total_replace[of m k w f v] by linarith

lemma total_drop_mono: "ok m \<Longrightarrow> get m k = Some w \<Longrightarrow> total f (del k m) \<le> total f m"
  by (simp add: total_del[of m k w f])

end

interpretation hm: hash_map map_of hm_put hm_del hm_ok hm_sum
  by unfold_locales (simp_all add: hm_sum_put hm_sum_del)

section \<open>Reachability and invariants\<close>

inductive reach :: "('s \<Rightarrow> bool) \<Rightarrow> ('s \<Rightarrow> 's \<Rightarrow> bool) \<Rightarrow> 's \<Rightarrow> bool"
  for init :: "'s \<Rightarrow> bool" and step :: "'s \<Rightarrow> 's \<Rightarrow> bool" where
  reach_init: "init s \<Longrightarrow> reach init step s"
| reach_step: "reach init step s \<Longrightarrow> step s t \<Longrightarrow> reach init step t"

text \<open>A machine with an inductive invariant: the invariant holds in every reachable state.\<close>

locale safe_machine =
  fixes init :: "'s \<Rightarrow> bool" and step :: "'s \<Rightarrow> 's \<Rightarrow> bool" and inv :: "'s \<Rightarrow> bool"
  assumes init_inv: "init s \<Longrightarrow> inv s"
    and step_inv: "step s t \<Longrightarrow> inv s \<Longrightarrow> inv t"
begin

lemma reach_inv: "reach init step s \<Longrightarrow> inv s"
  by (induction rule: reach.induct) (auto intro: init_inv step_inv)

lemma reach_rtranclp_inv: "step\<^sup>*\<^sup>* s t \<Longrightarrow> inv s \<Longrightarrow> inv t"
  by (induction rule: rtranclp_induct) (auto intro: step_inv)

end

end
