(* ===== verification/Token_Sequence.thy ===== *)
theory Token_Sequence
  imports Cusco_Prelude
begin

text \<open>
  The persistent token sequence of \<open>crates/context-store/src/lib.rs\<close>: an immutable chain
  of chunks of at most \<open>LOGICAL_CHUNK_TOKENS\<close> tokens, shared between branches, with a
  content address computed by streaming SHA-256.

  \<open>sha2\<close> is a third-party crate: its digest function is the parameter \<open>sha\<close> of the
  definitions that use it. A running hasher is the list of bytes it has absorbed
  (\<open>update\<close> appends, \<open>finalize\<close> applies \<open>sha\<close>). Shared ownership (\<open>Arc\<close>) of immutable
  chunks is plain value sharing; pointer comparison is a parameter of equality.
\<close>

type_synonym token = "32 word"
type_synonym byte = "8 word"
type_synonym digest = "byte list"
type_synonym BranchId = digest
type_synonym Sha256 = "byte list"

definition LOGICAL_CHUNK_TOKENS :: nat where
  "LOGICAL_CHUNK_TOKENS = 256"

datatype SequenceTail = SequenceTail (tail_chunk: SequenceChunk) (visible: nat)
  and SequenceChunk = SequenceChunk (parent: "SequenceTail option") (start_len: nat)
    (chunk_tokens: "token list") (start_hash: Sha256) (end_hash: BranchId)

record PersistentTokenSequence =
  tail :: "SequenceTail option"

definition seq_default :: PersistentTokenSequence where
  "seq_default = \<lparr>tail = None\<rparr>"

section \<open>Hashing helpers\<close>

definition le_bytes32 :: "token \<Rightarrow> byte list" where
  "le_bytes32 t = map (\<lambda>i. ucast (drop_bit (8 * i) t)) [0, 1, 2, 3]"

definition string_bytes :: "string \<Rightarrow> byte list" where
  "string_bytes s = map (\<lambda>c. word_of_nat (of_char c)) s"

definition empty_sequence_hash :: Sha256 where
  "empty_sequence_hash = string_bytes ''cusco-sequence-v2''"

definition hash_tokens :: "Sha256 \<Rightarrow> token list \<Rightarrow> Sha256" where
  "hash_tokens h ts = fold (\<lambda>t acc. acc @ le_bytes32 t) ts h"

definition empty_branch_id :: "(byte list \<Rightarrow> digest) \<Rightarrow> BranchId" where
  "empty_branch_id sha = sha empty_sequence_hash"

section \<open>Operations\<close>

definition seq_len :: "PersistentTokenSequence \<Rightarrow> nat" where
  "seq_len s = (case tail s of None \<Rightarrow> 0 | Some t \<Rightarrow> start_len (tail_chunk t) + visible t)"

definition seq_is_empty :: "PersistentTokenSequence \<Rightarrow> bool" where
  "seq_is_empty s = (tail s = None)"

definition seq_id :: "(byte list \<Rightarrow> digest) \<Rightarrow> PersistentTokenSequence \<Rightarrow> BranchId" where
  "seq_id sha s = (case tail s of
     None \<Rightarrow> empty_branch_id sha
   | Some t \<Rightarrow>
       if visible t = length (chunk_tokens (tail_chunk t)) then end_hash (tail_chunk t)
       else sha (hash_tokens (start_hash (tail_chunk t)) (take (visible t) (chunk_tokens (tail_chunk t)))))"

definition hash_state :: "PersistentTokenSequence \<Rightarrow> Sha256" where
  "hash_state s = (case tail s of
     None \<Rightarrow> empty_sequence_hash
   | Some t \<Rightarrow> hash_tokens (start_hash (tail_chunk t)) (take (visible t) (chunk_tokens (tail_chunk t))))"

text \<open>\<open>slice::chunks\<close>: consecutive pieces of at most \<open>n\<close> elements.\<close>

function slice_chunks :: "nat \<Rightarrow> 'a list \<Rightarrow> 'a list list" where
  "slice_chunks n xs =
     (if n = 0 \<or> xs = [] then [] else take n xs # slice_chunks n (drop n xs))"
  by pat_completeness auto
termination
  by (relation "measure (\<lambda>(n, xs). length xs)") auto

declare slice_chunks.simps [simp del]

text \<open>The loop body of \<open>append\<close>; the state is the sequence built so far and the hasher.\<close>

definition append_chunk ::
  "(byte list \<Rightarrow> digest) \<Rightarrow> token list \<Rightarrow> PersistentTokenSequence \<times> Sha256
    \<Rightarrow> PersistentTokenSequence \<times> Sha256" where
  "append_chunk sha ts st =
     (let s = fst st; h = snd st; h' = hash_tokens h ts;
          c = SequenceChunk (tail s) (seq_len s) ts h (sha h')
      in (\<lparr>tail = Some (SequenceTail c (length ts))\<rparr>, h'))"

definition seq_append ::
  "(byte list \<Rightarrow> digest) \<Rightarrow> PersistentTokenSequence \<Rightarrow> token list \<Rightarrow> PersistentTokenSequence" where
  "seq_append sha s ts =
     fst (fold (append_chunk sha) (slice_chunks LOGICAL_CHUNK_TOKENS ts) (s, hash_state s))"

text \<open>The loop of \<open>prefix\<close>, walking towards the root.\<close>

fun prefix_loop :: "nat \<Rightarrow> SequenceTail option \<Rightarrow> PersistentTokenSequence" where
  "prefix_loop n None = seq_default"
| "prefix_loop n (Some (SequenceTail (SequenceChunk p sl ts sh eh) v)) =
     (if n > sl
      then \<lparr>tail = Some (SequenceTail (SequenceChunk p sl ts sh eh) (n - sl))\<rparr>
      else prefix_loop n p)"

definition seq_prefix :: "PersistentTokenSequence \<Rightarrow> nat \<Rightarrow> PersistentTokenSequence option" where
  "seq_prefix s n = (if n > seq_len s then None else Some (prefix_loop n (tail s)))"

text \<open>The reverse iterator: its state is the current tail and the offset in it.\<close>

record ReverseTokens =
  rt_tail :: "SequenceTail option"
  rt_offset :: nat

definition tail_visible :: "SequenceTail option \<Rightarrow> nat" where
  "tail_visible t = (case t of None \<Rightarrow> 0 | Some p \<Rightarrow> visible p)"

fun rt_next :: "SequenceTail option \<Rightarrow> nat \<Rightarrow> (token \<times> ReverseTokens) option" where
  "rt_next None off = None"
| "rt_next (Some (SequenceTail (SequenceChunk p sl ts sh eh) v)) off =
     (if off > 0
      then Some (ts ! (off - 1),
        \<lparr>rt_tail = Some (SequenceTail (SequenceChunk p sl ts sh eh) v), rt_offset = off - 1\<rparr>)
      else rt_next p (tail_visible p))"

definition iter_rev :: "PersistentTokenSequence \<Rightarrow> ReverseTokens" where
  "iter_rev s = \<lparr>rt_tail = tail s, rt_offset = tail_visible (tail s)\<rparr>"

fun tail_depth :: "SequenceTail option \<Rightarrow> nat" where
  "tail_depth None = 0"
| "tail_depth (Some (SequenceTail (SequenceChunk p sl ts sh eh) v)) = Suc (tail_depth p)"

lemma rt_next_decreases:
  "rt_next t off = Some (x, r) \<Longrightarrow>
     tail_depth (rt_tail r) < tail_depth t \<or> tail_depth (rt_tail r) = tail_depth t \<and> rt_offset r < off"
proof (induction t off arbitrary: x r rule: rt_next.induct)
  case (1 off)
  then show ?case by simp
next
  case (2 p sl ts sh eh v off)
  show ?case
  proof (cases "off > 0")
    case True
    with "2.prems" show ?thesis by auto
  next
    case False
    with "2.IH"[of x r] "2.prems" show ?thesis by auto
  qed
qed

text \<open>\<open>collect\<close>: run the iterator to its end.\<close>

function rt_collect :: "ReverseTokens \<Rightarrow> token list" where
  "rt_collect r = (case rt_next (rt_tail r) (rt_offset r) of
     None \<Rightarrow> [] | Some (x, r') \<Rightarrow> x # rt_collect r')"
  by pat_completeness auto
termination
  by (relation "measures [\<lambda>r. tail_depth (rt_tail r), rt_offset]") (auto dest: rt_next_decreases)

declare rt_collect.simps [simp del]

definition seq_tokens :: "PersistentTokenSequence \<Rightarrow> token list" where
  "seq_tokens s = rev (rt_collect (iter_rev s))"

text \<open>
  \<open>PartialEq\<close>: a length test, then pointer equality of the last chunks as a shortcut, then
  a comparison of the iterators. \<open>ptr_eq\<close> stands for \<open>Arc::ptr_eq\<close>.
\<close>

definition seq_eq_with ::
  "(SequenceChunk \<Rightarrow> SequenceChunk \<Rightarrow> bool) \<Rightarrow> PersistentTokenSequence \<Rightarrow> PersistentTokenSequence \<Rightarrow> bool" where
  "seq_eq_with ptr_eq a b =
     (if seq_len a \<noteq> seq_len b then False
      else case (tail a, tail b) of
        (None, None) \<Rightarrow> True
      | (Some l, Some r) \<Rightarrow>
          if visible l = visible r \<and> ptr_eq (tail_chunk l) (tail_chunk r) then True
          else rt_collect (iter_rev a) = rt_collect (iter_rev b)
      | _ \<Rightarrow> rt_collect (iter_rev a) = rt_collect (iter_rev b))"

text \<open>The comparison with the shortcut never taken; the shortcut does not change the answer.\<close>

definition seq_eq :: "PersistentTokenSequence \<Rightarrow> PersistentTokenSequence \<Rightarrow> bool" where
  "seq_eq = seq_eq_with (\<lambda>_ _. False)"

section \<open>Abstraction and well-formedness\<close>

text \<open>
  The tokens a tail denotes, read root first, and the invariant every sequence built by
  \<open>append\<close> and \<open>prefix\<close> has: each chunk holds between 1 and \<open>LOGICAL_CHUNK_TOKENS\<close>
  tokens, of which at least one is visible, its \<open>start_len\<close> and \<open>start_hash\<close> describe its
  parent and its \<open>end_hash\<close> is the digest of everything up to its end.
\<close>

fun tail_list :: "SequenceTail option \<Rightarrow> token list" where
  "tail_list None = []"
| "tail_list (Some (SequenceTail (SequenceChunk p sl ts sh eh) v)) = tail_list p @ take v ts"

definition absorbed :: "token list \<Rightarrow> byte list" where
  "absorbed ts = empty_sequence_hash @ concat (map le_bytes32 ts)"

fun tail_wf :: "(byte list \<Rightarrow> digest) \<Rightarrow> SequenceTail option \<Rightarrow> bool" where
  "tail_wf sha None = True"
| "tail_wf sha (Some (SequenceTail (SequenceChunk p sl ts sh eh) v)) =
     (tail_wf sha p \<and> 0 < v \<and> v \<le> length ts \<and> length ts \<le> LOGICAL_CHUNK_TOKENS \<and>
      sl = length (tail_list p) \<and> sh = absorbed (tail_list p) \<and>
      eh = sha (absorbed (tail_list p @ ts)))"

definition seq_wf :: "(byte list \<Rightarrow> digest) \<Rightarrow> PersistentTokenSequence \<Rightarrow> bool" where
  "seq_wf sha s = tail_wf sha (tail s)"

definition seq_list :: "PersistentTokenSequence \<Rightarrow> token list" where
  "seq_list s = tail_list (tail s)"

lemma hash_tokens_eq: "hash_tokens h ts = h @ concat (map le_bytes32 ts)"
  by (induction ts arbitrary: h) (auto simp: hash_tokens_def)

lemma absorbed_append: "hash_tokens (absorbed xs) ys = absorbed (xs @ ys)"
  by (simp add: hash_tokens_eq absorbed_def)

lemma tail_cases:
  obtains "t = None" | p sl ts sh eh v where "t = Some (SequenceTail (SequenceChunk p sl ts sh eh) v)"
  by (metis SequenceChunk.exhaust SequenceTail.exhaust option.exhaust)

lemma seq_wf_default [simp]: "seq_wf sha seq_default"
  by (simp add: seq_wf_def seq_default_def)

lemma seq_list_default [simp]: "seq_list seq_default = []"
  by (simp add: seq_list_def seq_default_def)

lemma seq_len_list: "seq_wf sha s \<Longrightarrow> seq_len s = length (seq_list s)"
  by (cases "tail s" rule: tail_cases) (auto simp: seq_wf_def seq_len_def seq_list_def)

lemma hash_state_absorbed: "seq_wf sha s \<Longrightarrow> hash_state s = absorbed (seq_list s)"
  by (cases "tail s" rule: tail_cases)
     (auto simp: seq_wf_def hash_state_def seq_list_def absorbed_append, simp add: absorbed_def)

lemma seq_is_empty_iff: "seq_wf sha s \<Longrightarrow> seq_is_empty s \<longleftrightarrow> seq_list s = []"
  by (cases "tail s" rule: tail_cases) (auto simp: seq_wf_def seq_is_empty_def seq_list_def)

lemma seq_id_content: "seq_wf sha s \<Longrightarrow> seq_id sha s = sha (absorbed (seq_list s))"
  by (cases "tail s" rule: tail_cases)
     (auto simp: seq_wf_def seq_id_def seq_list_def absorbed_append empty_branch_id_def,
      simp add: absorbed_def)

section \<open>Append\<close>

lemma concat_slice_chunks: "0 < n \<Longrightarrow> concat (slice_chunks n xs) = xs"
proof (induction n xs rule: slice_chunks.induct)
  case (1 n xs)
  then show ?case by (subst slice_chunks.simps) auto
qed

lemma slice_chunks_size:
  "0 < n \<Longrightarrow> c \<in> set (slice_chunks n xs) \<Longrightarrow> 0 < length c \<and> length c \<le> n"
proof (induction n xs rule: slice_chunks.induct)
  case (1 n xs)
  show ?case
  proof (cases "xs = []")
    case True
    with "1.prems" show ?thesis by (simp add: slice_chunks.simps)
  next
    case False
    with "1.prems" have "c = take n xs \<or> c \<in> set (slice_chunks n (drop n xs))"
      by (simp add: slice_chunks.simps[of n xs])
    with 1 False show ?thesis by auto
  qed
qed

lemma append_chunk_step:
  assumes "seq_wf sha s" "0 < length ts" "length ts \<le> LOGICAL_CHUNK_TOKENS"
  shows "seq_wf sha (fst (append_chunk sha ts (s, absorbed (seq_list s))))"
    and "seq_list (fst (append_chunk sha ts (s, absorbed (seq_list s)))) = seq_list s @ ts"
    and "snd (append_chunk sha ts (s, absorbed (seq_list s))) = absorbed (seq_list s @ ts)"
  using assms seq_len_list[OF assms(1)]
  by (auto simp: append_chunk_def Let_def absorbed_append seq_wf_def seq_list_def)

lemma append_fold:
  assumes "seq_wf sha s"
    and "\<And>c. c \<in> set cs \<Longrightarrow> 0 < length c \<and> length c \<le> LOGICAL_CHUNK_TOKENS"
  shows "seq_wf sha (fst (fold (append_chunk sha) cs (s, absorbed (seq_list s)))) \<and>
         seq_list (fst (fold (append_chunk sha) cs (s, absorbed (seq_list s)))) = seq_list s @ concat cs"
  using assms
proof (induction cs arbitrary: s)
  case Nil
  then show ?case by simp
next
  case (Cons c cs)
  let ?s' = "fst (append_chunk sha c (s, absorbed (seq_list s)))"
  have size: "0 < length c" "length c \<le> LOGICAL_CHUNK_TOKENS"
    using Cons.prems(2) by auto
  note step = append_chunk_step[OF Cons.prems(1) size]
  have "append_chunk sha c (s, absorbed (seq_list s)) = (?s', absorbed (seq_list ?s'))"
    using step by (simp add: prod_eq_iff)
  with Cons.IH[OF step(1)] Cons.prems(2) step(2) show ?case by simp
qed

lemma chunk_tokens_pos [simp]: "0 < LOGICAL_CHUNK_TOKENS"
  by (simp add: LOGICAL_CHUNK_TOKENS_def)

lemma seq_append_correct:
  assumes "seq_wf sha s"
  shows "seq_wf sha (seq_append sha s ts)" and "seq_list (seq_append sha s ts) = seq_list s @ ts"
  using append_fold[OF assms, of "slice_chunks LOGICAL_CHUNK_TOKENS ts"]
    slice_chunks_size[OF chunk_tokens_pos] hash_state_absorbed[OF assms]
  by (auto simp: seq_append_def concat_slice_chunks)

section \<open>Prefix\<close>

lemma prefix_loop_correct:
  "tail_wf sha t \<Longrightarrow> n \<le> length (tail_list t) \<Longrightarrow>
     seq_wf sha (prefix_loop n t) \<and> seq_list (prefix_loop n t) = take n (tail_list t)"
  by (induction n t rule: prefix_loop.induct)
     (auto simp: seq_wf_def seq_list_def seq_default_def min_def split: if_splits)

lemma seq_prefix_None_iff: "seq_prefix s n = None \<longleftrightarrow> seq_len s < n"
  by (simp add: seq_prefix_def)

lemma seq_prefix_correct:
  assumes "seq_wf sha s" "seq_prefix s n = Some p"
  shows "seq_wf sha p" and "seq_list p = take n (seq_list s)" and "n \<le> length (seq_list s)"
  using assms prefix_loop_correct[of sha "tail s" n] seq_len_list[OF assms(1)]
  by (auto simp: seq_prefix_def seq_wf_def seq_list_def split: if_splits)

section \<open>Iteration and equality\<close>

fun rt_denotes :: "SequenceTail option \<Rightarrow> nat \<Rightarrow> token list" where
  "rt_denotes None off = []"
| "rt_denotes (Some (SequenceTail (SequenceChunk p sl ts sh eh) v)) off = tail_list p @ take off ts"

definition rt_in_range :: "SequenceTail option \<Rightarrow> nat \<Rightarrow> bool" where
  "rt_in_range t off = (case t of None \<Rightarrow> True | Some c \<Rightarrow> off \<le> length (chunk_tokens (tail_chunk c)))"

lemma rt_denotes_visible: "rt_denotes t (tail_visible t) = tail_list t"
  by (cases t rule: tail_cases) (auto simp: tail_visible_def)

lemma rt_in_range_visible: "tail_wf sha t \<Longrightarrow> rt_in_range t (tail_visible t)"
  by (cases t rule: tail_cases) (auto simp: tail_visible_def rt_in_range_def)

lemma rt_next_spec:
  "tail_wf sha t \<Longrightarrow> rt_in_range t off \<Longrightarrow>
     (case rt_next t off of
        None \<Rightarrow> rt_denotes t off = []
      | Some (x, r) \<Rightarrow> tail_wf sha (rt_tail r) \<and> rt_in_range (rt_tail r) (rt_offset r) \<and>
          rt_denotes t off = rt_denotes (rt_tail r) (rt_offset r) @ [x])"
proof (induction t off rule: rt_next.induct)
  case (1 off)
  then show ?case by simp
next
  case (2 p sl ts sh eh v off)
  show ?case
  proof (cases "off > 0")
    case True
    moreover from this obtain k where "off = Suc k" by (cases off) auto
    ultimately show ?thesis
      using "2.prems" by (auto simp: rt_in_range_def take_Suc_conv_app_nth)
  next
    case False
    with 2 show ?thesis
      by (simp add: rt_denotes_visible rt_in_range_visible split: option.splits)
  qed
qed

lemma rt_collect_spec:
  "tail_wf sha (rt_tail r) \<Longrightarrow> rt_in_range (rt_tail r) (rt_offset r) \<Longrightarrow>
     rt_collect r = rev (rt_denotes (rt_tail r) (rt_offset r))"
proof (induction r rule: rt_collect.induct)
  case (1 r)
  then show ?case
    using rt_next_spec[OF "1.prems"]
    by (subst rt_collect.simps) (auto split: option.splits)
qed

lemma seq_collect: "seq_wf sha s \<Longrightarrow> rt_collect (iter_rev s) = rev (seq_list s)"
  by (simp add: rt_collect_spec[where sha = sha] iter_rev_def seq_wf_def seq_list_def
      rt_denotes_visible rt_in_range_visible)

lemma seq_tokens_list: "seq_wf sha s \<Longrightarrow> seq_tokens s = seq_list s"
  by (simp add: seq_tokens_def seq_collect)

lemma seq_eq_with_iff:
  assumes "seq_wf sha a" "seq_wf sha b" and ptr: "\<And>x y. ptr_eq x y \<Longrightarrow> x = y"
  shows "seq_eq_with ptr_eq a b \<longleftrightarrow> seq_list a = seq_list b"
proof -
  have same: "rt_collect (iter_rev a) = rt_collect (iter_rev b) \<longleftrightarrow> seq_list a = seq_list b"
    by (simp add: seq_collect[OF assms(1)] seq_collect[OF assms(2)])
  have short: "visible l = visible r \<Longrightarrow> ptr_eq (tail_chunk l) (tail_chunk r) \<Longrightarrow> l = r" for l r
    by (simp add: ptr SequenceTail.expand)
  show ?thesis
    using same short seq_len_list[OF assms(1)] seq_len_list[OF assms(2)]
    by (auto simp: seq_eq_with_def seq_list_def split: option.splits)
qed

lemma seq_eq_iff: "seq_wf sha a \<Longrightarrow> seq_wf sha b \<Longrightarrow> seq_eq a b \<longleftrightarrow> seq_list a = seq_list b"
  by (simp add: seq_eq_def seq_eq_with_iff)

section \<open>Content addressing\<close>

lemma length_le_bytes32 [simp]: "length (le_bytes32 t) = 4"
  by (simp add: le_bytes32_def)

lemma le_bytes32_inj: "le_bytes32 a = le_bytes32 b \<Longrightarrow> a = b"
proof (rule bit_word_eqI)
  fix n
  assume eq: "le_bytes32 a = le_bytes32 b" and n: "n < LENGTH(32)"
  have all: "\<forall>i \<in> set [0, 1, 2, 3]. (ucast (drop_bit (8 * i) a) :: byte) = ucast (drop_bit (8 * i) b)"
    using eq by (simp only: le_bytes32_def map_eq_conv)
  from n have "n < 32" by simp
  then have "n div 8 = 0 \<or> n div 8 = 1 \<or> n div 8 = 2 \<or> n div 8 = 3" by presburger
  then have "n div 8 \<in> set [0, 1, 2, 3]" by (simp only: set_simps insert_iff empty_iff simp_thms)
  with all have "(ucast (drop_bit (8 * (n div 8)) a) :: byte) = ucast (drop_bit (8 * (n div 8)) b)"
    by (rule bspec)
  then have "bit (ucast (drop_bit (8 * (n div 8)) a) :: byte) (n mod 8) =
      bit (ucast (drop_bit (8 * (n div 8)) b) :: byte) (n mod 8)"
    by simp
  then show "bit a n = bit b n"
    by (simp add: bit_ucast_iff bit_drop_bit_eq)
qed

lemma concat_le_bytes32_inj:
  "concat (map le_bytes32 xs) = concat (map le_bytes32 ys) \<Longrightarrow> xs = ys"
proof (induction xs arbitrary: ys)
  case Nil
  then show ?case by (cases ys) (simp_all add: le_bytes32_def)
next
  case (Cons x xs)
  have "concat (map le_bytes32 (x # xs)) \<noteq> []"
    by (simp add: le_bytes32_def)
  with Cons.prems obtain y ys' where ys: "ys = y # ys'"
    by (cases ys) (simp_all only: list.map concat.simps)
  with Cons.prems have "le_bytes32 x @ concat (map le_bytes32 xs) = le_bytes32 y @ concat (map le_bytes32 ys')"
    by simp
  then have "le_bytes32 x = le_bytes32 y \<and> concat (map le_bytes32 xs) = concat (map le_bytes32 ys')"
    by (subst (asm) append_eq_append_conv) simp_all
  with Cons.IH ys show ?case by (auto dest: le_bytes32_inj)
qed

lemma absorbed_inj: "absorbed xs = absorbed ys \<longleftrightarrow> xs = ys"
  by (auto simp: absorbed_def dest: concat_le_bytes32_inj)

section \<open>The interface of a token log\<close>

text \<open>
  What the context store relies on: a log denotes a list of tokens, appending extends the
  list, a prefix cuts it, and comparison decides equality of the lists.
\<close>

locale token_log =
  fixes ok :: "'l \<Rightarrow> bool" and toks :: "'l \<Rightarrow> token list" and len :: "'l \<Rightarrow> nat"
    and app :: "'l \<Rightarrow> token list \<Rightarrow> 'l" and pre :: "'l \<Rightarrow> nat \<Rightarrow> 'l option"
    and same :: "'l \<Rightarrow> 'l \<Rightarrow> bool"
  assumes len_toks: "ok l \<Longrightarrow> len l = length (toks l)"
    and app_ok: "ok l \<Longrightarrow> ok (app l ts)"
    and app_toks: "ok l \<Longrightarrow> toks (app l ts) = toks l @ ts"
    and pre_None: "pre l n = None \<longleftrightarrow> len l < n"
    and pre_ok: "ok l \<Longrightarrow> pre l n = Some p \<Longrightarrow> ok p"
    and pre_toks: "ok l \<Longrightarrow> pre l n = Some p \<Longrightarrow> toks p = take n (toks l)"
    and same_iff: "ok a \<Longrightarrow> ok b \<Longrightarrow> same a b \<longleftrightarrow> toks a = toks b"
begin

lemma pre_total: "n \<le> len l \<Longrightarrow> \<exists>p. pre l n = Some p"
  using pre_None[of l n] by (cases "pre l n") auto

lemma pre_length: "ok l \<Longrightarrow> pre l n = Some p \<Longrightarrow> n \<le> length (toks l) \<and> len p = n"
proof -
  assume ok: "ok l" and p: "pre l n = Some p"
  have "n \<le> length (toks l)"
    using pre_None[of l n] p len_toks[OF ok] by auto
  with pre_toks[OF ok p] len_toks[OF pre_ok[OF ok p]] show ?thesis by simp
qed

text \<open>A prefix survives an append: the same positions still hold the same tokens.\<close>

lemma pre_app_stable:
  assumes "ok l" "pre l n = Some p"
  shows "\<exists>q. pre (app l ts) n = Some q \<and> same q p"
proof -
  have n: "n \<le> length (toks l)" using pre_length[OF assms] by simp
  have ok': "ok (app l ts)" using assms(1) by (rule app_ok)
  with n obtain q where q: "pre (app l ts) n = Some q"
    using pre_total[of n "app l ts"] len_toks[OF ok'] app_toks[OF assms(1)] by auto
  have "toks q = toks p"
    using pre_toks[OF ok' q] pre_toks[OF assms] app_toks[OF assms(1)] n by simp
  with q same_iff[OF pre_ok[OF ok' q] pre_ok[OF assms]] show ?thesis by auto
qed

text \<open>A prefix of a prefix is the shorter prefix.\<close>

lemma pre_pre:
  assumes "ok l" "pre l n = Some p" "m \<le> n" "pre l m = Some q"
  shows "\<exists>r. pre p m = Some r \<and> same r q"
proof -
  have okp: "ok p" using assms(1,2) by (rule pre_ok)
  have len: "m \<le> len p" using pre_length[OF assms(1,2)] assms(3) by simp
  then obtain r where r: "pre p m = Some r" using pre_total by blast
  have "toks r = toks q"
    using pre_toks[OF okp r] pre_toks[OF assms(1,2)] pre_toks[OF assms(1,4)] assms(3)
    by (simp add: min_absorb1)
  with r same_iff[OF pre_ok[OF okp r] pre_ok[OF assms(1,4)]] show ?thesis by auto
qed

end

interpretation seq: token_log "seq_wf sha" seq_list seq_len "seq_append sha" seq_prefix seq_eq
  for sha
  by unfold_locales
     (auto simp: seq_len_list seq_append_correct seq_prefix_None_iff seq_prefix_correct seq_eq_iff
       dest: seq_prefix_correct)

section \<open>Properties\<close>

text \<open>\<open>append\<close> extends the sequence by exactly the given tokens, whatever chunks it cuts
  them into, and the result is well-formed: chunks of at most 256 tokens whose recorded
  offsets and hashes describe the tokens before them.\<close>

theorem append_concatenates:
  assumes "seq_wf sha s"
  shows "seq_wf sha (seq_append sha s ts) \<and> seq_tokens (seq_append sha s ts) = seq_tokens s @ ts \<and>
    seq_len (seq_append sha s ts) = seq_len s + length ts"
proof -
  have ok: "seq_wf sha (seq_append sha s ts)" by (rule seq.app_ok[OF assms])
  show ?thesis
    using ok seq.app_toks[OF assms] seq.len_toks[OF assms] seq.len_toks[OF ok]
    by (simp add: seq_tokens_list[OF ok] seq_tokens_list[OF assms])
qed

theorem append_concatenates_witness:
  "seq_tokens (seq_append (\<lambda>b. b) (seq_append (\<lambda>b. b) seq_default [1, 2]) [3]) = [1, 2, 3]"
proof -
  have w: "seq_wf (\<lambda>b. b) (seq_append (\<lambda>b. b) seq_default [1, 2])"
    by (rule seq.app_ok) simp
  have "seq_tokens (seq_append (\<lambda>b. b) seq_default [1, 2]) = [1, 2]"
    by (simp add: seq_tokens_list[OF w] seq.app_toks)
  with append_concatenates[OF w, of "[3]"] show ?thesis by simp
qed

text \<open>\<open>prefix\<close> succeeds exactly up to the length of the sequence and then yields a
  well-formed sequence of the first tokens; beyond the length it yields nothing.\<close>

theorem prefix_takes:
  assumes "seq_wf sha s"
  shows "if n \<le> seq_len s
    then \<exists>p. seq_prefix s n = Some p \<and> seq_wf sha p \<and> seq_tokens p = take n (seq_tokens s) \<and> seq_len p = n
    else seq_prefix s n = None"
proof (cases "n \<le> seq_len s")
  case True
  then obtain p where p: "seq_prefix s n = Some p" using seq.pre_total by blast
  with seq.pre_ok[OF assms p] seq.pre_toks[OF assms p] seq.pre_length[OF assms p] True assms
  show ?thesis by (auto simp: seq_tokens_list)
next
  case False
  then show ?thesis by (simp add: seq_prefix_None_iff)
qed

theorem prefix_takes_witness:
  "\<exists>p. seq_prefix (seq_append (\<lambda>b. b) seq_default [7, 8, 9]) 2 = Some p \<and> seq_tokens p = [7, 8]"
proof -
  have w: "seq_wf (\<lambda>b. b) (seq_append (\<lambda>b. b) seq_default [7, 8, 9])"
    by (rule seq.app_ok) simp
  have "seq_list (seq_append (\<lambda>b. b) seq_default [7, 8, 9]) = [7, 8, 9]"
    by (simp add: seq.app_toks)
  with prefix_takes[OF w, of 2] show ?thesis
    by (auto simp: seq_len_list[OF w] seq_tokens_list[OF w])
qed

text \<open>C11: the identity of a sequence is a content address: it is the digest of the domain
  tag followed by the little-endian tokens, however the sequence was chunked or cut, and
  two sequences feed the digest the same bytes only when they hold the same tokens.\<close>

theorem id_is_content_address:
  assumes "seq_wf sha a" "seq_wf sha b"
  shows "seq_id sha a = sha (absorbed (seq_tokens a)) \<and>
    (absorbed (seq_tokens a) = absorbed (seq_tokens b) \<longleftrightarrow> seq_tokens a = seq_tokens b)"
  using assms by (simp add: seq_id_content seq_tokens_list absorbed_inj)

theorem id_is_content_address_witness:
  "seq_id (\<lambda>b. b) (seq_append (\<lambda>b. b) (seq_append (\<lambda>b. b) seq_default [1]) [2]) =
   seq_id (\<lambda>b. b) (seq_append (\<lambda>b. b) seq_default [1, 2])"
proof -
  have w: "seq_wf (\<lambda>b. b) (seq_append (\<lambda>b. b) seq_default ts)" for ts
    by (rule seq.app_ok) simp
  have w2: "seq_wf (\<lambda>b. b) (seq_append (\<lambda>b. b) (seq_append (\<lambda>b. b) seq_default [1]) [2])"
    by (rule seq.app_ok[OF w])
  have "seq_tokens (seq_append (\<lambda>b. b) (seq_append (\<lambda>b. b) seq_default [1]) [2]) = [1, 2]"
    "seq_tokens (seq_append (\<lambda>b. b) seq_default [1, 2]) = [1, 2]"
    by (simp_all add: seq_tokens_list[OF w] seq_tokens_list[OF w2] seq.app_toks w)
  with id_is_content_address[OF w2 w, of "[1, 2]"] id_is_content_address[OF w w2, of "[1, 2]"]
  show ?thesis by simp
qed

text \<open>Equality of sequences decides equality of their tokens, and the pointer shortcut
  never changes the answer: any pointer test that only identifies one and the same chunk
  gives the result of the full comparison.\<close>

theorem equality_decides_tokens:
  assumes "seq_wf sha a" "seq_wf sha b" "\<And>x y. ptr_eq x y \<Longrightarrow> x = y"
  shows "seq_eq_with ptr_eq a b \<longleftrightarrow> seq_tokens a = seq_tokens b"
  using assms seq_eq_with_iff[OF assms] by (simp add: seq_tokens_list)

theorem equality_decides_tokens_witness:
  "seq_eq_with (=) (seq_append (\<lambda>b. b) seq_default [5]) (seq_append (\<lambda>b. b) seq_default [5])"
proof -
  have w: "seq_wf (\<lambda>b. b) (seq_append (\<lambda>b. b) seq_default [5])"
    by (rule seq.app_ok) simp
  show ?thesis using equality_decides_tokens[OF w w, of "(=)"] by simp
qed

end
