(* ===== verification/Context_Store.thy ===== *)
theory Context_Store
  imports Token_Sequence
begin

text \<open>
  The context store of \<open>crates/context-store/src/lib.rs\<close>: logical contexts (mutable
  branches over persistent token sequences) and evaluated prefixes (immutable catalogued
  results with reference counts), the prepare / validate / commit protocol that publishes
  a prefix for a context, the index that finds the longest valid prefix, and the cascade
  that reclaims unreferenced prefixes. This theory holds the data and the operations; the
  invariants and their proofs are in \<open>Context_Store_Inv\<close>.

  A mutating method returns the new store with its outcome; a method taking \<open>&self\<close>
  returns only its outcome.
\<close>

type_synonym EvaluatedPrefixId = digest
type_synonym DependencyHash = digest
type_synonym LogicalContextId = nat
type_synonym ModelEpoch = nat
type_synonym AdapterEpoch = nat
type_synonym ComponentMask = "8 word"

unbundle bit_operations_syntax

section \<open>Data\<close>

definition mask_EMPTY :: ComponentMask where "mask_EMPTY = 0"
definition mask_GLOBAL_KV :: ComponentMask where "mask_GLOBAL_KV = 1"
definition mask_SWA :: ComponentMask where "mask_SWA = 2"
definition mask_RECURRENT :: ComponentMask where "mask_RECURRENT = 4"

definition mask_union :: "ComponentMask \<Rightarrow> ComponentMask \<Rightarrow> ComponentMask" where
  "mask_union a b = a OR b"

definition mask_contains :: "ComponentMask \<Rightarrow> ComponentMask \<Rightarrow> bool" where
  "mask_contains a required = (a AND required = required)"

record EvaluatedPrefix =
  ep_id :: EvaluatedPrefixId
  ep_branch :: BranchId
  ep_end :: nat
  ep_model_epoch :: ModelEpoch
  ep_adapter_epoch :: AdapterEpoch
  ep_parent :: "EvaluatedPrefixId option"
  ep_lineage :: DependencyHash
  ep_required :: ComponentMask
  ep_complete :: ComponentMask
  ep_parameters :: digest
  ep_sequence :: PersistentTokenSequence

record LogicalContext =
  ctx_id :: LogicalContextId
  ctx_tokens :: PersistentTokenSequence
  ctx_model_epoch :: ModelEpoch
  ctx_adapter_epoch :: AdapterEpoch
  ctx_evaluated :: "EvaluatedPrefixId option"
  ctx_revision :: nat

record ReferenceCounts =
  rc_catalog :: nat
  rc_contexts :: nat
  rc_dependents :: nat

record MappingEntry =
  me_mapping :: EvaluatedPrefix
  me_references :: ReferenceCounts

type_synonym MappingEpochKey = "ModelEpoch \<times> AdapterEpoch"

record PreparedPublication =
  pp_context :: LogicalContextId
  pp_expected_revision :: nat
  pp_expected_current :: "EvaluatedPrefixId option"
  pp_mapping :: EvaluatedPrefix

datatype cs_error =
    ContextNotFound
  | PrefixOutOfBounds
  | IncompatibleEpoch
  | IncompleteComponents
  | InvalidDependency
  | PublicationConflict
  | MappingNotFound
  | IdentityConflict

record ContextStore =
  next_context :: nat
  contexts :: "(LogicalContextId, LogicalContext) hm"
  mappings :: "(EvaluatedPrefixId, MappingEntry) hm"
  prefix_index :: "(MappingEpochKey, (nat, EvaluatedPrefixId list) hm) hm"

definition cs_default :: ContextStore where
  "cs_default = \<lparr>next_context = 0, contexts = [], mappings = [], prefix_index = []\<rparr>"

text \<open>Derived equality of prefixes: every field, the sequences by token comparison.\<close>

definition prefix_eq :: "EvaluatedPrefix \<Rightarrow> EvaluatedPrefix \<Rightarrow> bool" where
  "prefix_eq a b \<longleftrightarrow>
     ep_id a = ep_id b \<and> ep_branch a = ep_branch b \<and> ep_end a = ep_end b \<and>
     ep_model_epoch a = ep_model_epoch b \<and> ep_adapter_epoch a = ep_adapter_epoch b \<and>
     ep_parent a = ep_parent b \<and> ep_lineage a = ep_lineage b \<and>
     ep_required a = ep_required b \<and> ep_complete a = ep_complete b \<and>
     ep_parameters a = ep_parameters b \<and> seq_eq (ep_sequence a) (ep_sequence b)"

section \<open>Identities\<close>

definition le_bytes64 :: "nat \<Rightarrow> byte list" where
  "le_bytes64 n = map (\<lambda>i. word_of_nat (n div 256 ^ i)) [0..<8]"

lemma le_bytes64_code [code]:
  "le_bytes64 n = map (\<lambda>i. word_of_int (int n div 256 ^ i)) [0..<8]"
proof -
  have "(word_of_nat (n div 256 ^ i) :: byte) = word_of_int (int n div 256 ^ i)" for i
    by (metis of_int_of_nat_eq of_nat_numeral of_nat_power zdiv_int)
  then show ?thesis by (simp only: le_bytes64_def)
qed

definition zero_digest :: digest where
  "zero_digest = replicate 32 0"

definition dependency_hash ::
  "(byte list \<Rightarrow> digest) \<Rightarrow> DependencyHash \<Rightarrow> BranchId \<Rightarrow> nat \<Rightarrow> DependencyHash" where
  "dependency_hash sha p b e =
     sha (string_bytes ''cusco-dependency-v2'' @ p @ b @ le_bytes64 e)"

definition mapping_id ::
  "(byte list \<Rightarrow> digest) \<Rightarrow> ModelEpoch \<Rightarrow> AdapterEpoch \<Rightarrow> EvaluatedPrefixId option \<Rightarrow> BranchId \<Rightarrow> nat
    \<Rightarrow> ComponentMask \<Rightarrow> digest \<Rightarrow> DependencyHash \<Rightarrow> EvaluatedPrefixId" where
  "mapping_id sha m a p b e comps params lineage =
     sha (string_bytes ''cusco-evaluated-prefix-v2'' @ le_bytes64 m @ le_bytes64 a @
       (case p of None \<Rightarrow> zero_digest | Some i \<Rightarrow> i) @ b @ le_bytes64 e @ [comps] @ params @ lineage)"

section \<open>Contexts\<close>

definition cs_create ::
  "PersistentTokenSequence \<Rightarrow> ModelEpoch \<Rightarrow> AdapterEpoch \<Rightarrow> ContextStore \<Rightarrow> ContextStore \<times> LogicalContextId" where
  "cs_create tokens m a s =
     (let i = next_context s in
      (s\<lparr>next_context := wrapping_add i 1,
         contexts := hm_put i \<lparr>ctx_id = i, ctx_tokens = tokens, ctx_model_epoch = m,
           ctx_adapter_epoch = a, ctx_evaluated = None, ctx_revision = 0\<rparr> (contexts s)\<rparr>, i))"

definition cs_branch ::
  "LogicalContextId \<Rightarrow> nat \<Rightarrow> ContextStore \<Rightarrow> ContextStore \<times> (cs_error, LogicalContextId) outcome" where
  "cs_branch source at_len s =
     (case map_of (contexts s) source of
        None \<Rightarrow> (s, Err ContextNotFound)
      | Some c \<Rightarrow>
          (case seq_prefix (ctx_tokens c) at_len of
             None \<Rightarrow> (s, Err PrefixOutOfBounds)
           | Some t \<Rightarrow>
               (let r = cs_create t (ctx_model_epoch c) (ctx_adapter_epoch c) s
                in (fst r, Ok (snd r)))))"

definition cs_append ::
  "(byte list \<Rightarrow> digest) \<Rightarrow> LogicalContextId \<Rightarrow> token list \<Rightarrow> ContextStore \<Rightarrow> ContextStore \<times> (cs_error, unit) outcome" where
  "cs_append sha ctx ts s =
     (case map_of (contexts s) ctx of
        None \<Rightarrow> (s, Err ContextNotFound)
      | Some c \<Rightarrow>
          if ts = [] then (s, Ok ())
          else
            (let c1 = c\<lparr>ctx_tokens := seq_append sha (ctx_tokens c) ts\<rparr> in
             case checked_add (ctx_revision c) 1 of
               None \<Rightarrow> (s\<lparr>contexts := hm_put ctx c1 (contexts s)\<rparr>, Abort)
             | Some r \<Rightarrow> (s\<lparr>contexts := hm_put ctx (c1\<lparr>ctx_revision := r\<rparr>) (contexts s)\<rparr>, Ok ())))"

section \<open>Reference counts and reclamation\<close>

definition unreferenced :: "ReferenceCounts \<Rightarrow> bool" where
  "unreferenced r \<longleftrightarrow> rc_catalog r = 0 \<and> rc_contexts r = 0 \<and> rc_dependents r = 0"

definition index_remove ::
  "MappingEpochKey \<Rightarrow> nat \<Rightarrow> EvaluatedPrefixId
    \<Rightarrow> (MappingEpochKey, (nat, EvaluatedPrefixId list) hm) hm
    \<Rightarrow> (MappingEpochKey, (nat, EvaluatedPrefixId list) hm) hm" where
  "index_remove key e i idx =
     (case map_of idx key of
        None \<Rightarrow> idx
      | Some lengths \<Rightarrow>
          (let lengths' =
             (case map_of lengths e of
                None \<Rightarrow> lengths
              | Some ids \<Rightarrow>
                  (let ids' = filter (\<lambda>c. c \<noteq> i) ids
                   in if ids' = [] then hm_del e lengths else hm_put e ids' lengths))
           in if lengths' = [] then hm_del key idx else hm_put key lengths' idx))"

definition index_insert ::
  "MappingEpochKey \<Rightarrow> nat \<Rightarrow> EvaluatedPrefixId
    \<Rightarrow> (MappingEpochKey, (nat, EvaluatedPrefixId list) hm) hm
    \<Rightarrow> (MappingEpochKey, (nat, EvaluatedPrefixId list) hm) hm" where
  "index_insert key e i idx =
     (let lengths = (case map_of idx key of None \<Rightarrow> [] | Some l \<Rightarrow> l);
          ids = (case map_of lengths e of None \<Rightarrow> [] | Some l \<Rightarrow> l)
      in hm_put key (hm_put e (ids @ [i]) lengths) idx)"

definition release_dependent :: "EvaluatedPrefixId option \<Rightarrow> (EvaluatedPrefixId, MappingEntry) hm
    \<Rightarrow> (EvaluatedPrefixId, MappingEntry) hm" where
  "release_dependent p ms =
     (case p of
        None \<Rightarrow> ms
      | Some q \<Rightarrow>
          (case map_of ms q of
             None \<Rightarrow> ms
           | Some e \<Rightarrow> hm_put q (e\<lparr>me_references := (me_references e)
               \<lparr>rc_dependents := rc_dependents (me_references e) - 1\<rparr>\<rparr>) ms))"

lemma length_hm_put_old: "map_of m k = Some w \<Longrightarrow> length (hm_put k v m) = length m"
  by (induction m) (auto split: if_splits)

lemma length_release_dependent [simp]: "length (release_dependent p ms) = length ms"
  by (auto simp: release_dependent_def length_hm_put_old split: option.splits)

text \<open>One turn of the loop of \<open>reclaim\<close> removes one entry, so the loop ends.\<close>

function reclaim_loop :: "EvaluatedPrefixId option \<Rightarrow> ContextStore \<Rightarrow> ContextStore" where
  "reclaim_loop cand s =
     (case cand of
        None \<Rightarrow> s
      | Some i \<Rightarrow>
          (case map_of (mappings s) i of
             None \<Rightarrow> s
           | Some e \<Rightarrow>
               if unreferenced (me_references e) then
                 (let m = me_mapping e in
                  reclaim_loop (ep_parent m)
                    (s\<lparr>mappings := release_dependent (ep_parent m) (hm_del i (mappings s)),
                       prefix_index := index_remove (ep_model_epoch m, ep_adapter_epoch m)
                         (ep_end m) i (prefix_index s)\<rparr>))
               else s))"
  by pat_completeness auto
termination
  by (relation "measure (\<lambda>(c, s). length (mappings s))") (auto simp: hm_length_del)

declare reclaim_loop.simps [simp del]

definition reclaim :: "EvaluatedPrefixId \<Rightarrow> ContextStore \<Rightarrow> ContextStore" where
  "reclaim i s = reclaim_loop (Some i) s"

definition adjust_context_refs :: "EvaluatedPrefixId \<Rightarrow> bool \<Rightarrow> ContextStore \<Rightarrow> ContextStore" where
  "adjust_context_refs i increment s =
     (case map_of (mappings s) i of
        None \<Rightarrow> s
      | Some e \<Rightarrow>
          if increment
          then s\<lparr>mappings := hm_put i (e\<lparr>me_references := (me_references e)
            \<lparr>rc_contexts := rc_contexts (me_references e) + 1\<rparr>\<rparr>) (mappings s)\<rparr>
          else reclaim i (s\<lparr>mappings := hm_put i (e\<lparr>me_references := (me_references e)
            \<lparr>rc_contexts := rc_contexts (me_references e) - 1\<rparr>\<rparr>) (mappings s)\<rparr>))"

definition adjust_old :: "EvaluatedPrefixId option \<Rightarrow> ContextStore \<Rightarrow> ContextStore" where
  "adjust_old old s = (case old of None \<Rightarrow> s | Some i \<Rightarrow> adjust_context_refs i False s)"

definition cs_remove_context ::
  "LogicalContextId \<Rightarrow> ContextStore \<Rightarrow> ContextStore \<times> (cs_error, unit) outcome" where
  "cs_remove_context i s =
     (case map_of (contexts s) i of
        None \<Rightarrow> (s, Err ContextNotFound)
      | Some c \<Rightarrow> (adjust_old (ctx_evaluated c) (s\<lparr>contexts := hm_del i (contexts s)\<rparr>), Ok ()))"

definition cs_set_epochs ::
  "LogicalContextId \<Rightarrow> ModelEpoch \<Rightarrow> AdapterEpoch \<Rightarrow> ContextStore \<Rightarrow> ContextStore \<times> (cs_error, unit) outcome" where
  "cs_set_epochs i m a s =
     (case map_of (contexts s) i of
        None \<Rightarrow> (s, Err ContextNotFound)
      | Some c \<Rightarrow>
          if ctx_model_epoch c = m \<and> ctx_adapter_epoch c = a then (s, Ok ())
          else
            (let c1 = c\<lparr>ctx_evaluated := None, ctx_model_epoch := m, ctx_adapter_epoch := a\<rparr> in
             case checked_add (ctx_revision c) 1 of
               None \<Rightarrow> (s\<lparr>contexts := hm_put i c1 (contexts s)\<rparr>, Abort)
             | Some r \<Rightarrow>
                 (adjust_old (ctx_evaluated c)
                    (s\<lparr>contexts := hm_put i (c1\<lparr>ctx_revision := r\<rparr>) (contexts s)\<rparr>), Ok ())))"

definition cs_release_mapping ::
  "EvaluatedPrefixId \<Rightarrow> ContextStore \<Rightarrow> ContextStore \<times> (cs_error, unit) outcome" where
  "cs_release_mapping i s =
     (case map_of (mappings s) i of
        None \<Rightarrow> (s, Err MappingNotFound)
      | Some e \<Rightarrow>
          (reclaim i (s\<lparr>mappings := hm_put i (e\<lparr>me_references := (me_references e)
             \<lparr>rc_catalog := rc_catalog (me_references e) - 1\<rparr>\<rparr>) (mappings s)\<rparr>), Ok ()))"

section \<open>Validity of a prefix for a context\<close>

text \<open>The walk over the parents of a prefix; each parent must end strictly earlier.\<close>

function chain_valid :: "(EvaluatedPrefixId, MappingEntry) hm \<Rightarrow> EvaluatedPrefix \<Rightarrow> bool" where
  "chain_valid ms child =
     (case ep_parent child of
        None \<Rightarrow> True
      | Some p \<Rightarrow>
          (case map_of ms p of
             None \<Rightarrow> False
           | Some e \<Rightarrow>
               if ep_end (me_mapping e) \<ge> ep_end child \<or>
                  ep_model_epoch (me_mapping e) \<noteq> ep_model_epoch child \<or>
                  ep_adapter_epoch (me_mapping e) \<noteq> ep_adapter_epoch child \<or>
                  \<not> mask_contains (ep_complete (me_mapping e)) (ep_required (me_mapping e))
               then False
               else chain_valid ms (me_mapping e)))"
  by pat_completeness auto
termination
  by (relation "measure (\<lambda>(ms, c). ep_end c)") auto

declare chain_valid.simps [simp del]

definition prefix_matches :: "PersistentTokenSequence \<Rightarrow> nat \<Rightarrow> PersistentTokenSequence \<Rightarrow> bool" where
  "prefix_matches tokens n expected =
     (case seq_prefix tokens n of None \<Rightarrow> False | Some p \<Rightarrow> seq_eq p expected)"

definition mapping_valid_for_context ::
  "ContextStore \<Rightarrow> EvaluatedPrefix \<Rightarrow> LogicalContext \<Rightarrow> nat option \<Rightarrow> bool" where
  "mapping_valid_for_context s m c child_end =
     (if ep_model_epoch m \<noteq> ctx_model_epoch c \<or> ep_adapter_epoch m \<noteq> ctx_adapter_epoch c \<or>
         \<not> mask_contains (ep_complete m) (ep_required m) \<or>
         ep_end m > seq_len (ctx_tokens c) \<or>
         (case child_end of None \<Rightarrow> False | Some e \<Rightarrow> ep_end m > e) \<or>
         \<not> prefix_matches (ctx_tokens c) (ep_end m) (ep_sequence m)
      then False
      else chain_valid (mappings s) m)"

section \<open>Publication\<close>

definition parent_lineage_of ::
  "ContextStore \<Rightarrow> LogicalContext \<Rightarrow> nat \<Rightarrow> EvaluatedPrefixId option \<Rightarrow> (cs_error, DependencyHash) outcome" where
  "parent_lineage_of s c e p =
     (case p of
        None \<Rightarrow> Ok zero_digest
      | Some i \<Rightarrow>
          (case map_of (mappings s) i of
             None \<Rightarrow> Err InvalidDependency
           | Some entry \<Rightarrow>
               if ep_end (me_mapping entry) \<ge> e \<or>
                  \<not> mapping_valid_for_context s (me_mapping entry) c (Some e)
               then Err InvalidDependency
               else Ok (ep_lineage (me_mapping entry))))"

definition prepare_publication ::
  "(byte list \<Rightarrow> digest) \<Rightarrow> ContextStore \<Rightarrow> LogicalContextId \<Rightarrow> nat \<Rightarrow> EvaluatedPrefixId option
    \<Rightarrow> ComponentMask \<Rightarrow> ComponentMask \<Rightarrow> digest \<Rightarrow> (cs_error, PreparedPublication) outcome" where
  "prepare_publication sha s i e p required complete params =
     (case map_of (contexts s) i of
        None \<Rightarrow> Err ContextNotFound
      | Some c \<Rightarrow>
          if e > seq_len (ctx_tokens c) then Err PrefixOutOfBounds
          else if \<not> mask_contains complete required then Err IncompleteComponents
          else
            (case seq_prefix (ctx_tokens c) e of
               None \<Rightarrow> Abort
             | Some prefix \<Rightarrow>
                 (case parent_lineage_of s c e p of
                    Err x \<Rightarrow> Err x
                  | Abort \<Rightarrow> Abort
                  | Ok pl \<Rightarrow>
                      (let lineage = dependency_hash sha pl (seq_id sha prefix) e;
                           mid = mapping_id sha (ctx_model_epoch c) (ctx_adapter_epoch c) p
                             (seq_id sha prefix) e required params lineage
                       in Ok \<lparr>pp_context = i, pp_expected_revision = ctx_revision c,
                            pp_expected_current = ctx_evaluated c,
                            pp_mapping = \<lparr>ep_id = mid, ep_branch = seq_id sha prefix, ep_end = e,
                              ep_model_epoch = ctx_model_epoch c, ep_adapter_epoch = ctx_adapter_epoch c,
                              ep_parent = p, ep_lineage = lineage, ep_required = required,
                              ep_complete = complete, ep_parameters = params,
                              ep_sequence = prefix\<rparr>\<rparr>))))"

definition validate_publication :: "ContextStore \<Rightarrow> PreparedPublication \<Rightarrow> (cs_error, unit) outcome" where
  "validate_publication s pp =
     (case map_of (contexts s) (pp_context pp) of
        None \<Rightarrow> Err ContextNotFound
      | Some c \<Rightarrow>
          if ctx_evaluated c \<noteq> pp_expected_current pp \<or> ctx_revision c \<noteq> pp_expected_revision pp
          then Err PublicationConflict
          else if ctx_model_epoch c \<noteq> ep_model_epoch (pp_mapping pp) \<or>
                  ctx_adapter_epoch c \<noteq> ep_adapter_epoch (pp_mapping pp)
          then Err IncompatibleEpoch
          else if \<not> prefix_matches (ctx_tokens c) (ep_end (pp_mapping pp)) (ep_sequence (pp_mapping pp))
          then Err PublicationConflict
          else
            (case map_of (mappings s) (ep_id (pp_mapping pp)) of
               Some existing \<Rightarrow>
                 if prefix_eq (me_mapping existing) (pp_mapping pp) then Ok () else Err IdentityConflict
             | None \<Rightarrow>
                 (case ep_parent (pp_mapping pp) of
                    None \<Rightarrow> Ok ()
                  | Some p \<Rightarrow> if hm_has (mappings s) p then Ok () else Err InvalidDependency)))"

text \<open>The part of \<open>commit_publication\<close> that inserts a prefix that is not catalogued yet.\<close>

definition retain_dependent :: "EvaluatedPrefixId option \<Rightarrow> (EvaluatedPrefixId, MappingEntry) hm
    \<Rightarrow> (EvaluatedPrefixId, MappingEntry) hm" where
  "retain_dependent p ms =
     (case p of
        None \<Rightarrow> ms
      | Some q \<Rightarrow>
          (case map_of ms q of
             None \<Rightarrow> ms
           | Some e \<Rightarrow> hm_put q (e\<lparr>me_references := (me_references e)
               \<lparr>rc_dependents := rc_dependents (me_references e) + 1\<rparr>\<rparr>) ms))"

definition catalog_insert :: "EvaluatedPrefix \<Rightarrow> ContextStore \<Rightarrow> ContextStore" where
  "catalog_insert m s =
     s\<lparr>mappings := hm_put (ep_id m)
         \<lparr>me_mapping = m, me_references = \<lparr>rc_catalog = 1, rc_contexts = 0, rc_dependents = 0\<rparr>\<rparr>
         (retain_dependent (ep_parent m) (mappings s)),
       prefix_index := index_insert (ep_model_epoch m, ep_adapter_epoch m) (ep_end m) (ep_id m)
         (prefix_index s)\<rparr>"

definition commit_publication ::
  "PreparedPublication \<Rightarrow> ContextStore \<Rightarrow> ContextStore \<times> (cs_error, EvaluatedPrefix) outcome" where
  "commit_publication pp s =
     (case validate_publication s pp of
        Err x \<Rightarrow> (s, Err x)
      | Abort \<Rightarrow> (s, Abort)
      | Ok _ \<Rightarrow>
          (case map_of (contexts s) (pp_context pp) of
             None \<Rightarrow> (s, Abort)
           | Some c \<Rightarrow>
               (let i = ep_id (pp_mapping pp); current = ctx_evaluated c;
                    parent_missing = (case ep_parent (pp_mapping pp) of
                      None \<Rightarrow> False | Some p \<Rightarrow> \<not> hm_has (mappings s) p)
                in
                if \<not> hm_has (mappings s) i \<and> parent_missing then (s, Err InvalidDependency)
                else
                  (let s1 = (if hm_has (mappings s) i then s else catalog_insert (pp_mapping pp) s) in
                   if current = Some i then
                     (s1, case map_of (mappings s1) i of None \<Rightarrow> Abort | Some e \<Rightarrow> Ok (me_mapping e))
                   else
                     (let s2 = adjust_context_refs i True (adjust_old current s1);
                          c1 = c\<lparr>ctx_evaluated := Some i\<rparr>
                      in case checked_add (ctx_revision c) 1 of
                           None \<Rightarrow> (s2\<lparr>contexts := hm_put (pp_context pp) c1 (contexts s2)\<rparr>, Abort)
                         | Some r \<Rightarrow>
                             (let s3 = s2\<lparr>contexts := hm_put (pp_context pp) (c1\<lparr>ctx_revision := r\<rparr>)
                                (contexts s2)\<rparr>
                              in (s3, case map_of (mappings s3) i of
                                   None \<Rightarrow> Abort | Some e \<Rightarrow> Ok (me_mapping e))))))))"

section \<open>Lookup\<close>

definition valid_mapping_from_ids ::
  "ContextStore \<Rightarrow> LogicalContext \<Rightarrow> EvaluatedPrefixId list \<Rightarrow> EvaluatedPrefix option" where
  "valid_mapping_from_ids s c ids =
     min_by_key ep_id
       (map me_mapping
         (filter (\<lambda>e. mapping_valid_for_context s (me_mapping e) c None)
           (List.map_filter (map_of (mappings s)) ids)))"

text \<open>\<open>Iterator::find_map\<close>.\<close>

fun find_map :: "('a \<Rightarrow> 'b option) \<Rightarrow> 'a list \<Rightarrow> 'b option" where
  "find_map f [] = None"
| "find_map f (x # xs) = (case f x of None \<Rightarrow> find_map f xs | Some y \<Rightarrow> Some y)"

text \<open>\<open>BTreeMap::range(..=n).rev()\<close>: the entries up to \<open>n\<close>, largest key first.\<close>

definition range_rev :: "nat \<Rightarrow> (nat, 'v) hm \<Rightarrow> (nat \<times> 'v) list" where
  "range_rev n m = rev (sort_key fst (filter (\<lambda>p. fst p \<le> n) m))"

definition longest_valid_prefix ::
  "ContextStore \<Rightarrow> LogicalContextId \<Rightarrow> (cs_error, EvaluatedPrefix option) outcome" where
  "longest_valid_prefix s i =
     (case map_of (contexts s) i of
        None \<Rightarrow> Err ContextNotFound
      | Some c \<Rightarrow>
          (case map_of (prefix_index s) (ctx_model_epoch c, ctx_adapter_epoch c) of
             None \<Rightarrow> Ok None
           | Some lengths \<Rightarrow>
               Ok (find_map (\<lambda>p. valid_mapping_from_ids s c (snd p))
                 (range_rev (seq_len (ctx_tokens c)) lengths))))"

definition cs_context :: "ContextStore \<Rightarrow> LogicalContextId \<Rightarrow> LogicalContext option" where
  "cs_context s i = map_of (contexts s) i"

definition cs_mapping :: "ContextStore \<Rightarrow> EvaluatedPrefixId \<Rightarrow> EvaluatedPrefix option" where
  "cs_mapping s i = map_option me_mapping (map_of (mappings s) i)"

definition cs_references :: "ContextStore \<Rightarrow> EvaluatedPrefixId \<Rightarrow> ReferenceCounts option" where
  "cs_references s i = map_option me_references (map_of (mappings s) i)"

end
