(* ===== verification/Context_Store_Inv.thy ===== *)
theory Context_Store_Inv
  imports Context_Store
begin

text \<open>
  Invariants of the context store: exact reference counts, no dangling parents or
  evaluated prefixes, an index that lists exactly the catalogued prefixes, and no
  unreferenced entry left behind. Every operation preserves them.
\<close>

section \<open>The invariant\<close>

definition cat :: "(EvaluatedPrefixId, MappingEntry) hm \<Rightarrow> EvaluatedPrefixId \<Rightarrow> EvaluatedPrefix option" where
  "cat ms i = map_option me_mapping (map_of ms i)"

definition dep_count :: "EvaluatedPrefixId \<Rightarrow> (EvaluatedPrefixId, MappingEntry) hm \<Rightarrow> nat" where
  "dep_count i ms = hm_sum (\<lambda>e. if ep_parent (me_mapping e) = Some i then 1 else 0) ms"

definition ctx_count :: "EvaluatedPrefixId \<Rightarrow> (LogicalContextId, LogicalContext) hm \<Rightarrow> nat" where
  "ctx_count i cs = hm_sum (\<lambda>c. if ctx_evaluated c = Some i then 1 else 0) cs"

definition ep_key :: "EvaluatedPrefix \<Rightarrow> MappingEpochKey" where
  "ep_key m = (ep_model_epoch m, ep_adapter_epoch m)"

definition contexts_wf :: "(byte list \<Rightarrow> digest) \<Rightarrow> ContextStore \<Rightarrow> bool" where
  "contexts_wf sha s \<longleftrightarrow> hm_ok (contexts s) \<and>
     (\<forall>i c. map_of (contexts s) i = Some c \<longrightarrow>
        ctx_id c = i \<and> i < next_context s \<and> seq_wf sha (ctx_tokens c))"

definition prefix_wf :: "(byte list \<Rightarrow> digest) \<Rightarrow> EvaluatedPrefix \<Rightarrow> bool" where
  "prefix_wf sha m \<longleftrightarrow> seq_wf sha (ep_sequence m) \<and> length (seq_list (ep_sequence m)) = ep_end m \<and>
     mask_contains (ep_complete m) (ep_required m)"

definition mappings_wf :: "(byte list \<Rightarrow> digest) \<Rightarrow> (EvaluatedPrefixId, MappingEntry) hm \<Rightarrow> bool" where
  "mappings_wf sha ms \<longleftrightarrow> hm_ok ms \<and>
     (\<forall>i m. cat ms i = Some m \<longrightarrow> ep_id m = i \<and> prefix_wf sha m \<and>
        (\<forall>p. ep_parent m = Some p \<longrightarrow> cat ms p \<noteq> None))"

definition refs_ok :: "(LogicalContextId, LogicalContext) hm \<Rightarrow> (EvaluatedPrefixId, MappingEntry) hm \<Rightarrow> bool" where
  "refs_ok cs ms \<longleftrightarrow> (\<forall>i e. map_of ms i = Some e \<longrightarrow>
     rc_contexts (me_references e) = ctx_count i cs \<and>
     rc_dependents (me_references e) = dep_count i ms)"

definition evaluated_ok :: "LogicalContext \<Rightarrow> EvaluatedPrefix \<Rightarrow> bool" where
  "evaluated_ok c m \<longleftrightarrow> ep_model_epoch m = ctx_model_epoch c \<and> ep_adapter_epoch m = ctx_adapter_epoch c \<and>
     seq_list (ep_sequence m) = take (ep_end m) (seq_list (ctx_tokens c))"

definition eval_ok :: "(LogicalContextId, LogicalContext) hm \<Rightarrow> (EvaluatedPrefixId \<Rightarrow> EvaluatedPrefix option) \<Rightarrow> bool" where
  "eval_ok cs ct \<longleftrightarrow> (\<forall>k c i. map_of cs k = Some c \<longrightarrow> ctx_evaluated c = Some i \<longrightarrow>
     (\<exists>m. ct i = Some m \<and> evaluated_ok c m))"

definition index_get :: "(MappingEpochKey, (nat, EvaluatedPrefixId list) hm) hm \<Rightarrow> MappingEpochKey \<Rightarrow> nat
    \<Rightarrow> EvaluatedPrefixId list" where
  "index_get idx k e = (case map_of idx k of None \<Rightarrow> [] | Some l \<Rightarrow>
     (case map_of l e of None \<Rightarrow> [] | Some ids \<Rightarrow> ids))"

definition bucket_ok :: "(nat, EvaluatedPrefixId list) hm \<Rightarrow> bool" where
  "bucket_ok l \<longleftrightarrow> l \<noteq> [] \<and> hm_ok l \<and> (\<forall>e ids. map_of l e = Some ids \<longrightarrow> ids \<noteq> [] \<and> distinct ids)"

definition index_shape :: "(MappingEpochKey, (nat, EvaluatedPrefixId list) hm) hm \<Rightarrow> bool" where
  "index_shape idx \<longleftrightarrow> hm_ok idx \<and> (\<forall>k l. map_of idx k = Some l \<longrightarrow> bucket_ok l)"

definition index_ok :: "(MappingEpochKey, (nat, EvaluatedPrefixId list) hm) hm
    \<Rightarrow> (EvaluatedPrefixId \<Rightarrow> EvaluatedPrefix option) \<Rightarrow> bool" where
  "index_ok idx ct \<longleftrightarrow> index_shape idx \<and>
     (\<forall>k e i. i \<in> set (index_get idx k e) \<longleftrightarrow> (\<exists>m. ct i = Some m \<and> ep_key m = k \<and> ep_end m = e))"

text \<open>Everything but the absence of garbage, which reclamation restores.\<close>

definition store_core :: "(byte list \<Rightarrow> digest) \<Rightarrow> ContextStore \<Rightarrow> bool" where
  "store_core sha s \<longleftrightarrow> contexts_wf sha s \<and> mappings_wf sha (mappings s) \<and>
     refs_ok (contexts s) (mappings s) \<and> eval_ok (contexts s) (cat (mappings s)) \<and>
     index_ok (prefix_index s) (cat (mappings s))"

definition garbage_only :: "EvaluatedPrefixId option \<Rightarrow> (EvaluatedPrefixId, MappingEntry) hm \<Rightarrow> bool" where
  "garbage_only cand ms \<longleftrightarrow> (\<forall>i e. map_of ms i = Some e \<longrightarrow> unreferenced (me_references e) \<longrightarrow> cand = Some i)"

definition store_inv :: "(byte list \<Rightarrow> digest) \<Rightarrow> ContextStore \<Rightarrow> bool" where
  "store_inv sha s \<longleftrightarrow> store_core sha s \<and> garbage_only None (mappings s)"

lemmas store_core_defs = store_core_def contexts_wf_def mappings_wf_def

section \<open>Catalogue and counts under updates\<close>

lemma cat_put: "cat (hm_put k e ms) = (cat ms)(k \<mapsto> me_mapping e)"
  by (auto simp: cat_def fun_eq_iff)

lemma cat_del: "cat (hm_del k ms) = (cat ms)(k := None)"
  by (auto simp: cat_def fun_eq_iff)

lemma cat_put_refs [simp]:
  "map_of ms k = Some e \<Longrightarrow> cat (hm_put k (me_references_update f e) ms) = cat ms"
  by (auto simp: cat_def fun_eq_iff)

lemma dep_count_put_refs [simp]:
  "hm_ok ms \<Longrightarrow> map_of ms k = Some e \<Longrightarrow> dep_count i (hm_put k (me_references_update f e) ms) = dep_count i ms"
  by (simp add: dep_count_def hm_sum_put_same)

lemma dep_count_del:
  "hm_ok ms \<Longrightarrow> map_of ms k = Some e \<Longrightarrow>
     dep_count i ms = (if ep_parent (me_mapping e) = Some i then 1 else 0) + dep_count i (hm_del k ms)"
  by (simp add: dep_count_def hm_sum_del)

lemma dep_count_put_new:
  "hm_ok ms \<Longrightarrow> map_of ms k = None \<Longrightarrow>
     dep_count i (hm_put k e ms) = (if ep_parent (me_mapping e) = Some i then 1 else 0) + dep_count i ms"
  by (simp add: dep_count_def hm_sum_put_new)

lemma dep_count_0: "hm_ok ms \<Longrightarrow> dep_count i ms = 0 \<longleftrightarrow> (\<forall>k m. cat ms k = Some m \<longrightarrow> ep_parent m \<noteq> Some i)"
  by (auto simp: dep_count_def hm_sum_zero_iff cat_def)

lemma ctx_count_0: "hm_ok cs \<Longrightarrow> ctx_count i cs = 0 \<longleftrightarrow> (\<forall>k c. map_of cs k = Some c \<longrightarrow> ctx_evaluated c \<noteq> Some i)"
  by (auto simp: ctx_count_def hm_sum_zero_iff)

lemma ctx_count_put:
  "hm_ok cs \<Longrightarrow> map_of cs k = Some c \<Longrightarrow>
     ctx_count i (hm_put k c' cs) + (if ctx_evaluated c = Some i then 1 else 0) =
     ctx_count i cs + (if ctx_evaluated c' = Some i then 1 else 0)"
  using hm.total_replace[of cs k c "\<lambda>c. if ctx_evaluated c = Some i then 1 else 0" c']
  by (simp add: ctx_count_def)

lemma ctx_count_put_same:
  "hm_ok cs \<Longrightarrow> map_of cs k = Some c \<Longrightarrow> ctx_evaluated c' = ctx_evaluated c \<Longrightarrow>
     ctx_count i (hm_put k c' cs) = ctx_count i cs"
  using ctx_count_put[of cs k c i c'] by simp

lemma ctx_count_put_new:
  "hm_ok cs \<Longrightarrow> map_of cs k = None \<Longrightarrow>
     ctx_count i (hm_put k c cs) = (if ctx_evaluated c = Some i then 1 else 0) + ctx_count i cs"
  by (simp add: ctx_count_def hm_sum_put_new)

lemma ctx_count_del:
  "hm_ok cs \<Longrightarrow> map_of cs k = Some c \<Longrightarrow>
     ctx_count i cs = (if ctx_evaluated c = Some i then 1 else 0) + ctx_count i (hm_del k cs)"
  by (simp add: ctx_count_def hm_sum_del)

section \<open>The index\<close>

lemma index_get_insert:
  "index_get (index_insert k e i idx) k' e' =
     index_get idx k' e' @ (if k' = k \<and> e' = e then [i] else [])"
  by (auto simp: index_get_def index_insert_def Let_def split: option.splits)

definition bucket_get :: "(nat, EvaluatedPrefixId list) hm \<Rightarrow> nat \<Rightarrow> EvaluatedPrefixId list" where
  "bucket_get l e = (case map_of l e of None \<Rightarrow> [] | Some ids \<Rightarrow> ids)"

definition bucket_remove :: "nat \<Rightarrow> EvaluatedPrefixId \<Rightarrow> (nat, EvaluatedPrefixId list) hm
    \<Rightarrow> (nat, EvaluatedPrefixId list) hm" where
  "bucket_remove e i l = (case map_of l e of None \<Rightarrow> l | Some ids \<Rightarrow>
     (let ids' = filter (\<lambda>c. c \<noteq> i) ids in if ids' = [] then hm_del e l else hm_put e ids' l))"

lemma bucket_get_Nil [simp]: "bucket_get [] e = []"
  by (simp add: bucket_get_def)

lemma bucket_get_remove:
  "bucket_get (bucket_remove e i l) e' =
     (if e' = e then filter (\<lambda>c. c \<noteq> i) (bucket_get l e') else bucket_get l e')"
  by (auto simp: bucket_get_def bucket_remove_def Let_def split: option.splits)

lemma index_get_bucket:
  "index_get idx k e = (case map_of idx k of None \<Rightarrow> [] | Some l \<Rightarrow> bucket_get l e)"
  by (simp add: index_get_def bucket_get_def split: option.split)

lemma index_remove_bucket:
  "index_remove k e i idx = (case map_of idx k of None \<Rightarrow> idx | Some l \<Rightarrow>
     if bucket_remove e i l = [] then hm_del k idx else hm_put k (bucket_remove e i l) idx)"
  by (simp add: index_remove_def bucket_remove_def Let_def split: option.split)

lemma index_get_remove:
  "index_get (index_remove k e i idx) k' e' =
     (if k' = k \<and> e' = e then filter (\<lambda>c. c \<noteq> i) (index_get idx k' e') else index_get idx k' e')"
proof (cases "map_of idx k")
  case None
  then show ?thesis by (simp add: index_get_bucket index_remove_bucket)
next
  case (Some l)
  have get: "index_get (index_remove k e i idx) k' e' =
      (if k' = k then bucket_get (bucket_remove e i l) e' else index_get idx k' e')"
    using Some by (simp add: index_get_bucket index_remove_bucket)
  show ?thesis
    unfolding get using Some by (simp add: bucket_get_remove index_get_bucket)
qed

lemma hm_put_nonempty [simp]: "hm_put k v m \<noteq> []"
  by (cases m) auto

lemma hm_del_nonempty: "map_of m e = Some v \<Longrightarrow> hm_del k m = [] \<Longrightarrow> e = k"
  using hm_get_del[of k m] by (auto simp: fun_eq_iff split: if_splits)

lemma bucket_ok_insert:
  assumes "bucket_ok l" "map_of l e = Some ids" "i \<notin> set ids"
  shows "bucket_ok (hm_put e (ids @ [i]) l)"
  using assms by (auto simp: bucket_ok_def)

lemma index_shape_insert:
  assumes "index_shape idx" "i \<notin> set (index_get idx k e)"
  shows "index_shape (index_insert k e i idx)"
proof -
  have "bucket_ok (hm_put e ((case map_of l e of None \<Rightarrow> [] | Some ids \<Rightarrow> ids) @ [i]) l)"
    if "l = [] \<or> bucket_ok l" "i \<notin> set (case map_of l e of None \<Rightarrow> [] | Some ids \<Rightarrow> ids)" for l
    using that by (auto simp: bucket_ok_def split: option.splits)
  with assms show ?thesis
    by (auto simp: index_shape_def index_insert_def index_get_def Let_def split: option.splits)
qed

lemma bucket_ok_remove:
  assumes "bucket_ok l" "map_of l e = Some ids" "filter (\<lambda>c. c \<noteq> i) ids \<noteq> []"
  shows "bucket_ok (hm_put e (filter (\<lambda>c. c \<noteq> i) ids) l)"
  using assms by (auto simp: bucket_ok_def)

lemma bucket_ok_drop: "bucket_ok l \<Longrightarrow> hm_del e l \<noteq> [] \<Longrightarrow> bucket_ok (hm_del e l)"
  by (auto simp: bucket_ok_def)

lemma index_shape_remove: "index_shape idx \<Longrightarrow> index_shape (index_remove k e i idx)"
  by (auto simp: index_shape_def index_remove_def Let_def bucket_ok_remove bucket_ok_drop
      split: option.splits)

lemma index_ok_insert:
  assumes "index_ok idx ct" "ct i = None" "ep_key m = k" "ep_end m = e"
  shows "index_ok (index_insert k e i idx) (ct(i \<mapsto> m))"
proof -
  have "i \<notin> set (index_get idx k e)"
    using assms(1,2) by (auto simp: index_ok_def)
  with assms show ?thesis
    by (auto simp: index_ok_def index_get_insert index_shape_insert)
qed

lemma index_ok_remove:
  assumes "index_ok idx ct" "ct i = Some m" "ep_key m = k" "ep_end m = e"
  shows "index_ok (index_remove k e i idx) (ct(i := None))"
  using assms by (auto simp: index_ok_def index_get_remove index_shape_remove)

section \<open>Reclamation\<close>

lemma store_core_hm_ok:
  assumes "store_core sha s"
  shows "hm_ok (contexts s)" and "hm_ok (mappings s)"
  using assms by (auto simp: store_core_defs)

lemma cat_release_dependent [simp]: "cat (release_dependent p ms) = cat ms"
  by (auto simp: release_dependent_def split: option.splits)

lemma hm_ok_release_dependent [simp]: "hm_ok ms \<Longrightarrow> hm_ok (release_dependent p ms)"
  by (auto simp: release_dependent_def split: option.splits)

lemma dep_count_release_dependent [simp]: "hm_ok ms \<Longrightarrow> dep_count i (release_dependent p ms) = dep_count i ms"
  by (auto simp: release_dependent_def split: option.splits)

lemma get_release_dependent:
  "map_of (release_dependent p ms) i = Some e \<Longrightarrow>
     \<exists>e0. map_of ms i = Some e0 \<and> me_mapping e = me_mapping e0 \<and>
       rc_catalog (me_references e) = rc_catalog (me_references e0) \<and>
       rc_contexts (me_references e) = rc_contexts (me_references e0) \<and>
       rc_dependents (me_references e) = rc_dependents (me_references e0) - (if p = Some i then 1 else 0)"
  by (auto simp: release_dependent_def split: option.splits if_splits)

lemma refs_ok_removed:
  assumes refs: "refs_ok cs ms" and ok: "hm_ok ms" and e: "map_of ms i = Some e"
  shows "refs_ok cs (release_dependent (ep_parent (me_mapping e)) (hm_del i ms))"
proof -
  let ?p = "ep_parent (me_mapping e)"
  have "rc_contexts (me_references e') = ctx_count j cs \<and>
      rc_dependents (me_references e') = dep_count j (release_dependent ?p (hm_del i ms))"
    if j: "map_of (release_dependent ?p (hm_del i ms)) j = Some e'" for j e'
  proof -
    from get_release_dependent[OF j] obtain e0 where
      e0: "map_of ms j = Some e0" "rc_contexts (me_references e') = rc_contexts (me_references e0)"
      "rc_dependents (me_references e') = rc_dependents (me_references e0) - (if ?p = Some j then 1 else 0)"
      by (auto split: if_splits)
    with refs have "rc_contexts (me_references e0) = ctx_count j cs"
      "rc_dependents (me_references e0) = dep_count j ms"
      by (auto simp: refs_ok_def)
    with e0 dep_count_del[OF ok e, of j] show ?thesis using ok by simp
  qed
  then show ?thesis by (simp add: refs_ok_def)
qed

text \<open>Removing an unreferenced entry keeps the core; only its parent can become garbage.\<close>

lemma reclaim_step_core:
  assumes core: "store_core sha s" and e: "map_of (mappings s) i = Some e"
    and u: "unreferenced (me_references e)"
  defines "m \<equiv> me_mapping e"
  defines "s' \<equiv> s\<lparr>mappings := release_dependent (ep_parent m) (hm_del i (mappings s)),
      prefix_index := index_remove (ep_model_epoch m, ep_adapter_epoch m) (ep_end m) i (prefix_index s)\<rparr>"
  shows "store_core sha s'"
proof -
  note ok = store_core_hm_ok[OF core]
  have refs: "refs_ok (contexts s) (mappings s)" using core by (simp add: store_core_def)
  have ct: "cat (mappings s) i = Some m" using e by (simp add: cat_def m_def)
  have cat': "cat (mappings s') = (cat (mappings s))(i := None)"
    by (simp add: s'_def cat_del)
  have "dep_count i (mappings s) = 0" and "ctx_count i (contexts s) = 0"
    using refs e u by (auto simp: refs_ok_def unreferenced_def)
  then have nodep: "cat (mappings s) k = Some n \<Longrightarrow> ep_parent n \<noteq> Some i"
    and noctx: "map_of (contexts s) k' = Some c \<Longrightarrow> ctx_evaluated c \<noteq> Some i" for k n k' c
    using ok by (auto simp: dep_count_0 ctx_count_0)
  have "mappings_wf sha (mappings s')"
    using core nodep ok unfolding mappings_wf_def cat' store_core_def
    by (auto simp: s'_def split: if_splits)
  moreover have "refs_ok (contexts s') (mappings s')"
    using refs_ok_removed[OF refs ok(2) e] by (simp add: s'_def m_def)
  moreover have "eval_ok (contexts s') (cat (mappings s'))"
    using core noctx unfolding cat' store_core_def eval_ok_def by (fastforce simp: s'_def)
  moreover have "index_ok (prefix_index s') (cat (mappings s'))"
    using core ct index_ok_remove[of "prefix_index s" "cat (mappings s)" i m]
    unfolding cat' store_core_def by (simp add: s'_def ep_key_def)
  ultimately show ?thesis
    using core by (simp add: store_core_def s'_def contexts_wf_def)
qed

lemma garbage_removed:
  assumes "garbage_only (Some i) ms"
  shows "garbage_only p (release_dependent p (hm_del i ms))"
  unfolding garbage_only_def
proof (intro allI impI)
  fix j e
  assume j: "map_of (release_dependent p (hm_del i ms)) j = Some e" and u: "unreferenced (me_references e)"
  from get_release_dependent[OF j] u assms show "p = Some j"
    by (auto simp: garbage_only_def unreferenced_def split: if_splits)
qed

lemma reclaim_loop_inv:
  "store_core sha s \<Longrightarrow> garbage_only cand (mappings s) \<Longrightarrow>
     store_inv sha (reclaim_loop cand s) \<and> contexts (reclaim_loop cand s) = contexts s \<and>
     next_context (reclaim_loop cand s) = next_context s"
proof (induction cand s rule: reclaim_loop.induct)
  case (1 cand s)
  show ?case
  proof (cases "\<exists>i e. cand = Some i \<and> map_of (mappings s) i = Some e \<and> unreferenced (me_references e)")
    case True
    then obtain i e where i: "cand = Some i" "map_of (mappings s) i = Some e" "unreferenced (me_references e)"
      by blast
    let ?m = "me_mapping e"
    let ?s' = "s\<lparr>mappings := release_dependent (ep_parent ?m) (hm_del i (mappings s)),
      prefix_index := index_remove (ep_model_epoch ?m, ep_adapter_epoch ?m) (ep_end ?m) i (prefix_index s)\<rparr>"
    have eq: "reclaim_loop cand s = reclaim_loop (ep_parent ?m) ?s'"
      using i by (subst reclaim_loop.simps) (simp only: option.case if_True Let_def)
    have g: "garbage_only (ep_parent ?m) (mappings ?s')"
      using garbage_removed "1.prems"(2) i(1) by simp
    from "1.IH"[OF i refl reclaim_step_core[OF "1.prems"(1) i(2,3)] g]
    show ?thesis unfolding eq by simp
  next
    case False
    then have "reclaim_loop cand s = s"
      by (subst reclaim_loop.simps) (auto split: option.splits)
    moreover have "garbage_only None (mappings s)"
      using False "1.prems"(2) unfolding garbage_only_def by blast
    ultimately show ?thesis using "1.prems"(1) by (simp add: store_inv_def)
  qed
qed

section \<open>Releasing and retaining a context reference\<close>

lemma contexts_commute:
  "s\<lparr>contexts := cs, mappings := ms\<rparr> = s\<lparr>mappings := ms\<rparr>\<lparr>contexts := cs\<rparr>"
  "s\<lparr>contexts := cs, prefix_index := idx\<rparr> = s\<lparr>prefix_index := idx\<rparr>\<lparr>contexts := cs\<rparr>"
  by (cases s, simp)+

lemma reclaim_loop_contexts:
  "reclaim_loop cand (s\<lparr>contexts := cs\<rparr>) = (reclaim_loop cand s)\<lparr>contexts := cs\<rparr>"
proof (induction cand s rule: reclaim_loop.induct)
  case (1 cand s)
  show ?case
  proof (cases "\<exists>i e. cand = Some i \<and> map_of (mappings s) i = Some e \<and> unreferenced (me_references e)")
    case True
    then obtain i e where i: "cand = Some i" "map_of (mappings s) i = Some e" "unreferenced (me_references e)"
      by blast
    from "1.IH"[OF i refl] i show ?thesis
      by (subst (1 2) reclaim_loop.simps) (simp add: Let_def contexts_commute)
  next
    case False
    then show ?thesis
      by (subst (1 2) reclaim_loop.simps) (auto split: option.splits)
  qed
qed

lemma adjust_old_contexts: "adjust_old old (s\<lparr>contexts := cs\<rparr>) = (adjust_old old s)\<lparr>contexts := cs\<rparr>"
  by (auto simp: adjust_old_def adjust_context_refs_def reclaim_def reclaim_loop_contexts
      contexts_commute split: option.splits)

text \<open>
  One context stops evaluating \<open>old\<close>: the new context table counts one reference less, and
  dropping that reference restores the invariant.
\<close>

lemma adjust_old_inv:
  assumes inv: "store_inv sha s"
    and wf: "contexts_wf sha (s\<lparr>contexts := cs\<rparr>)" and ev: "eval_ok cs (cat (mappings s))"
    and count: "\<And>j. ctx_count j (contexts s) = ctx_count j cs + (if old = Some j then 1 else 0)"
    and present: "\<And>i. old = Some i \<Longrightarrow> cat (mappings s) i \<noteq> None"
  shows "store_inv sha (adjust_old old (s\<lparr>contexts := cs\<rparr>)) \<and>
    contexts (adjust_old old (s\<lparr>contexts := cs\<rparr>)) = cs \<and>
    next_context (adjust_old old (s\<lparr>contexts := cs\<rparr>)) = next_context s"
proof (cases old)
  case None
  with assms show ?thesis
    by (auto simp: adjust_old_def store_inv_def store_core_def refs_ok_def)
next
  case (Some i)
  with present obtain e where e: "map_of (mappings s) i = Some e"
    by (auto simp: cat_def)
  have core: "store_core sha s" and g: "garbage_only None (mappings s)"
    using inv by (auto simp: store_inv_def)
  note ok = store_core_hm_ok[OF core]
  let ?ms = "hm_put i (e\<lparr>me_references := (me_references e)
    \<lparr>rc_contexts := rc_contexts (me_references e) - 1\<rparr>\<rparr>) (mappings s)"
  let ?s = "s\<lparr>contexts := cs, mappings := ?ms\<rparr>"
  have "refs_ok (contexts s) (mappings s)" using core by (simp add: store_core_def)
  then have refs: "refs_ok cs ?ms"
    using count Some e ok by (auto simp: refs_ok_def)
  have "store_core sha ?s"
    using core wf ev refs e ok by (auto simp: store_core_def contexts_wf_def mappings_wf_def)
  moreover have "garbage_only (Some i) (mappings ?s)"
    using g by (auto simp: garbage_only_def)
  ultimately show ?thesis
    using reclaim_loop_inv[of sha ?s "Some i"] Some e
    by (simp add: adjust_old_def adjust_context_refs_def reclaim_def)
qed

text \<open>One context starts evaluating a catalogued prefix.\<close>

lemma retain_inv:
  assumes inv: "store_inv sha s" and e: "map_of (mappings s) i = Some e"
    and wf: "contexts_wf sha (s\<lparr>contexts := cs\<rparr>)" and ev: "eval_ok cs (cat (mappings s))"
    and count: "\<And>j. ctx_count j cs = ctx_count j (contexts s) + (if j = i then 1 else 0)"
  shows "store_inv sha (adjust_context_refs i True (s\<lparr>contexts := cs\<rparr>))"
proof -
  have core: "store_core sha s" and g: "garbage_only None (mappings s)"
    using inv by (auto simp: store_inv_def)
  note ok = store_core_hm_ok[OF core]
  let ?s = "adjust_context_refs i True (s\<lparr>contexts := cs\<rparr>)"
  have "refs_ok (contexts s) (mappings s)" using core by (simp add: store_core_def)
  then have "refs_ok (contexts ?s) (mappings ?s)"
    using count e ok by (auto simp: refs_ok_def adjust_context_refs_def)
  moreover have "garbage_only None (mappings ?s)"
    using g e by (auto simp: garbage_only_def adjust_context_refs_def unreferenced_def)
  ultimately show ?thesis
    using core wf ev e ok
    by (auto simp: store_inv_def store_core_def contexts_wf_def mappings_wf_def adjust_context_refs_def)
qed

section \<open>Operations preserve the invariant\<close>

lemma store_inv_default: "store_inv sha cs_default"
  by (auto simp: store_inv_def store_core_def cs_default_def contexts_wf_def mappings_wf_def cat_def
      refs_ok_def eval_ok_def index_ok_def index_shape_def index_get_def garbage_only_def)

lemma store_inv_context:
  assumes "store_inv sha s" "map_of (contexts s) k = Some c"
  shows "ctx_id c = k" "k < next_context s" "seq_wf sha (ctx_tokens c)"
    "\<And>i. ctx_evaluated c = Some i \<Longrightarrow> \<exists>m. cat (mappings s) i = Some m \<and> evaluated_ok c m"
  using assms by (auto simp: store_inv_def store_core_def contexts_wf_def eval_ok_def)

lemma store_inv_mapping:
  assumes "store_inv sha s" "cat (mappings s) i = Some m"
  shows "ep_id m = i" "prefix_wf sha m" "\<And>p. ep_parent m = Some p \<Longrightarrow> cat (mappings s) p \<noteq> None"
  using assms by (auto simp: store_inv_def store_core_def mappings_wf_def)

lemma create_inv:
  assumes inv: "store_inv sha s" and t: "seq_wf sha t" and room: "next_context s + 1 < 2 ^ 64"
  shows "store_inv sha (fst (cs_create t m a s))"
proof -
  have core: "store_core sha s" using inv by (simp add: store_inv_def)
  note ok = store_core_hm_ok[OF core]
  have fresh: "map_of (contexts s) (next_context s) = None"
    using store_inv_context(2)[OF inv] by (cases "map_of (contexts s) (next_context s)") auto
  let ?c = "\<lparr>ctx_id = next_context s, ctx_tokens = t, ctx_model_epoch = m,
    ctx_adapter_epoch = a, ctx_evaluated = None, ctx_revision = 0\<rparr>"
  have "ctx_count j (hm_put (next_context s) ?c (contexts s)) = ctx_count j (contexts s)" for j
    using ctx_count_put_new[OF ok(1) fresh] by simp
  with inv t ok room show ?thesis
    by (auto simp: cs_create_def Let_def store_inv_def store_core_def contexts_wf_def refs_ok_def eval_ok_def
        intro: less_SucI)
qed

lemma evaluated_ok_append:
  assumes "seq_wf sha (ctx_tokens c)" "evaluated_ok c m" "prefix_wf sha m"
  shows "evaluated_ok (c\<lparr>ctx_tokens := seq_append sha (ctx_tokens c) ts, ctx_revision := r\<rparr>) m"
proof -
  have "length (take (ep_end m) (seq_list (ctx_tokens c))) = ep_end m"
    using assms(2,3) by (metis evaluated_ok_def prefix_wf_def)
  then have "ep_end m \<le> length (seq_list (ctx_tokens c))" by simp
  with assms show ?thesis by (simp add: evaluated_ok_def seq.app_toks)
qed

lemma replace_context_inv:
  assumes inv: "store_inv sha s" and c: "map_of (contexts s) k = Some c"
    and c': "ctx_id c' = k" "seq_wf sha (ctx_tokens c')" "ctx_evaluated c' = ctx_evaluated c"
    and ev: "\<And>i m. ctx_evaluated c = Some i \<Longrightarrow> cat (mappings s) i = Some m \<Longrightarrow> evaluated_ok c m
      \<Longrightarrow> evaluated_ok c' m"
  shows "store_inv sha (s\<lparr>contexts := hm_put k c' (contexts s)\<rparr>)"
proof -
  have core: "store_core sha s" using inv by (simp add: store_inv_def)
  note ok = store_core_hm_ok[OF core]
  have "ctx_count j (hm_put k c' (contexts s)) = ctx_count j (contexts s)" for j
    using ctx_count_put_same[OF ok(1) c c'(3)] .
  moreover have "eval_ok (hm_put k c' (contexts s)) (cat (mappings s))"
    unfolding eval_ok_def
  proof (intro allI impI)
    fix k2 c2 i
    assume "map_of (hm_put k c' (contexts s)) k2 = Some c2" "ctx_evaluated c2 = Some i"
    then show "\<exists>m. cat (mappings s) i = Some m \<and> evaluated_ok c2 m"
      using store_inv_context(4)[OF inv] c c'(3) ev by (cases "k2 = k") (auto, metis)
  qed
  ultimately show ?thesis
    using inv c c' ok store_inv_context(2)[OF inv c]
    by (auto simp: store_inv_def store_core_def contexts_wf_def refs_ok_def)
qed

lemma append_inv:
  assumes inv: "store_inv sha s" and nabort: "snd (cs_append sha k ts s) \<noteq> Abort"
  shows "store_inv sha (fst (cs_append sha k ts s))"
proof (cases "map_of (contexts s) k")
  case None
  with inv show ?thesis by (simp add: cs_append_def)
next
  case (Some c)
  note wf = store_inv_context[OF inv Some]
  have "store_inv sha (s\<lparr>contexts := hm_put k
      (c\<lparr>ctx_tokens := seq_append sha (ctx_tokens c) ts, ctx_revision := r\<rparr>) (contexts s)\<rparr>)" for r
  proof (rule replace_context_inv[OF inv Some])
    fix i m
    assume "ctx_evaluated c = Some i" "cat (mappings s) i = Some m" "evaluated_ok c m"
    then show "evaluated_ok (c\<lparr>ctx_tokens := seq_append sha (ctx_tokens c) ts, ctx_revision := r\<rparr>) m"
      using evaluated_ok_append[OF wf(3)] store_inv_mapping(2)[OF inv] by blast
  qed (use wf seq.app_ok in auto)
  with Some inv nabort show ?thesis
    by (auto simp: cs_append_def Let_def split: option.splits if_splits)
qed

lemma prefix_matches_iff:
  assumes "seq_wf sha t" "seq_wf sha p" "length (seq_list p) = n"
  shows "prefix_matches t n p \<longleftrightarrow> seq_list p = take n (seq_list t)"
proof (cases "seq_prefix t n")
  case None
  with assms seq_prefix_None_iff[of t n] seq_len_list[of sha t] show ?thesis
    by (auto simp: prefix_matches_def dest!: arg_cong[where f = length])
next
  case (Some q)
  with assms seq_prefix_correct[OF assms(1) Some] show ?thesis
    by (auto simp: prefix_matches_def seq_eq_iff)
qed

lemma remove_context_inv:
  assumes inv: "store_inv sha s"
  shows "store_inv sha (fst (cs_remove_context k s))"
proof (cases "map_of (contexts s) k")
  case None
  with inv show ?thesis by (simp add: cs_remove_context_def)
next
  case (Some c)
  have core: "store_core sha s" using inv by (simp add: store_inv_def)
  note ok = store_core_hm_ok[OF core]
  have "store_inv sha (adjust_old (ctx_evaluated c) (s\<lparr>contexts := hm_del k (contexts s)\<rparr>))"
  proof (rule adjust_old_inv[OF inv, THEN conjunct1])
    show "contexts_wf sha (s\<lparr>contexts := hm_del k (contexts s)\<rparr>)"
      using core by (auto simp: store_core_defs)
    show "eval_ok (hm_del k (contexts s)) (cat (mappings s))"
      using core by (auto simp: store_core_def eval_ok_def)
    show "ctx_count j (contexts s) = ctx_count j (hm_del k (contexts s)) + (if ctx_evaluated c = Some j then 1 else 0)" for j
      using ctx_count_del[OF ok(1) Some] by simp
    show "ctx_evaluated c = Some i \<Longrightarrow> cat (mappings s) i \<noteq> None" for i
      using store_inv_context(4)[OF inv Some] by auto
  qed
  with Some show ?thesis by (simp add: cs_remove_context_def)
qed

text \<open>A context that drops its evaluated prefix, whatever else changes in it.\<close>

lemma clear_evaluated_inv:
  assumes inv: "store_inv sha s" and c: "map_of (contexts s) k = Some c"
    and c': "ctx_id c' = k" "seq_wf sha (ctx_tokens c')" "ctx_evaluated c' = None"
  shows "store_inv sha (adjust_old (ctx_evaluated c) (s\<lparr>contexts := hm_put k c' (contexts s)\<rparr>)) \<and>
    contexts (adjust_old (ctx_evaluated c) (s\<lparr>contexts := hm_put k c' (contexts s)\<rparr>)) = hm_put k c' (contexts s) \<and>
    next_context (adjust_old (ctx_evaluated c) (s\<lparr>contexts := hm_put k c' (contexts s)\<rparr>)) = next_context s"
proof (rule adjust_old_inv[OF inv])
  have core: "store_core sha s" using inv by (simp add: store_inv_def)
  note ok = store_core_hm_ok[OF core]
  show "contexts_wf sha (s\<lparr>contexts := hm_put k c' (contexts s)\<rparr>)"
    using core c' store_inv_context(2)[OF inv c] by (auto simp: store_core_defs)
  show "eval_ok (hm_put k c' (contexts s)) (cat (mappings s))"
    using core c'(3) by (auto simp: store_core_def eval_ok_def)
  show "ctx_count j (contexts s) = ctx_count j (hm_put k c' (contexts s)) + (if ctx_evaluated c = Some j then 1 else 0)" for j
    using ctx_count_put[OF ok(1) c, of j c'] c'(3) by simp
  show "ctx_evaluated c = Some i \<Longrightarrow> cat (mappings s) i \<noteq> None" for i
    using store_inv_context(4)[OF inv c] by auto
qed

lemma set_epochs_inv:
  assumes inv: "store_inv sha s" and nabort: "snd (cs_set_epochs k m a s) \<noteq> Abort"
  shows "store_inv sha (fst (cs_set_epochs k m a s))"
proof (cases "map_of (contexts s) k")
  case None
  with inv show ?thesis by (simp add: cs_set_epochs_def)
next
  case (Some c)
  note wf = store_inv_context[OF inv Some]
  from clear_evaluated_inv[OF inv Some] wf Some inv nabort show ?thesis
    by (auto simp: cs_set_epochs_def Let_def split: option.splits)
qed

lemma release_mapping_inv:
  assumes inv: "store_inv sha s"
  shows "store_inv sha (fst (cs_release_mapping i s))"
proof (cases "map_of (mappings s) i")
  case None
  with inv show ?thesis by (simp add: cs_release_mapping_def)
next
  case (Some e)
  have core: "store_core sha s" and g: "garbage_only None (mappings s)"
    using inv by (auto simp: store_inv_def)
  note ok = store_core_hm_ok[OF core]
  let ?s = "s\<lparr>mappings := hm_put i (e\<lparr>me_references := (me_references e)
    \<lparr>rc_catalog := rc_catalog (me_references e) - 1\<rparr>\<rparr>) (mappings s)\<rparr>"
  have "store_core sha ?s"
    using core Some ok by (auto simp: store_core_def contexts_wf_def mappings_wf_def refs_ok_def)
  moreover have "garbage_only (Some i) (mappings ?s)"
    using g by (auto simp: garbage_only_def)
  ultimately show ?thesis
    using reclaim_loop_inv[of sha ?s "Some i"] Some
    by (simp add: cs_release_mapping_def reclaim_def)
qed

section \<open>Publication preserves the invariant\<close>

lemma cat_retain_dependent [simp]: "cat (retain_dependent p ms) = cat ms"
  by (auto simp: retain_dependent_def split: option.splits)

lemma hm_ok_retain_dependent [simp]: "hm_ok ms \<Longrightarrow> hm_ok (retain_dependent p ms)"
  by (auto simp: retain_dependent_def split: option.splits)

lemma dep_count_retain_dependent [simp]: "hm_ok ms \<Longrightarrow> dep_count i (retain_dependent p ms) = dep_count i ms"
  by (auto simp: retain_dependent_def split: option.splits)

lemma get_retain_dependent:
  "map_of (retain_dependent p ms) i = Some e \<Longrightarrow>
     \<exists>e0. map_of ms i = Some e0 \<and> me_mapping e = me_mapping e0 \<and>
       rc_catalog (me_references e) = rc_catalog (me_references e0) \<and>
       rc_contexts (me_references e) = rc_contexts (me_references e0) \<and>
       rc_dependents (me_references e) = rc_dependents (me_references e0) + (if p = Some i then 1 else 0)"
  by (auto simp: retain_dependent_def split: option.splits if_splits)

lemma get_retain_dependent_None [simp]: "map_of (retain_dependent p ms) i = None \<longleftrightarrow> map_of ms i = None"
  by (auto simp: retain_dependent_def split: option.splits)

lemma catalog_insert_fields:
  "contexts (catalog_insert m s) = contexts s" "next_context (catalog_insert m s) = next_context s"
  "cat (mappings (catalog_insert m s)) = (cat (mappings s))(ep_id m \<mapsto> m)"
  by (auto simp: catalog_insert_def cat_put)

lemma catalog_insert_refs:
  assumes inv: "store_inv sha s" and new: "map_of (mappings s) (ep_id m) = None"
    and par: "\<And>p. ep_parent m = Some p \<Longrightarrow> hm_has (mappings s) p"
  shows "refs_ok (contexts s) (mappings (catalog_insert m s))"
  unfolding refs_ok_def
proof (intro allI impI)
  fix j e
  let ?i = "ep_id m" and ?ms = "mappings (catalog_insert m s)"
  assume j: "map_of ?ms j = Some e"
  have core: "store_core sha s" using inv by (simp add: store_inv_def)
  note ok = store_core_hm_ok[OF core]
  have refs: "refs_ok (contexts s) (mappings s)" using core by (simp add: store_core_def)
  have dep: "dep_count x ?ms = (if ep_parent m = Some x then 1 else 0) + dep_count x (mappings s)" for x
    using ok new by (simp add: catalog_insert_def dep_count_put_new)
  have absent: "cat (mappings s) ?i = None" using new by (simp add: cat_def)
  then have "cat (mappings s) k = Some n \<Longrightarrow> ep_parent n \<noteq> Some ?i" for k n
    using store_inv_mapping(3)[OF inv] by blast
  then have dep0: "dep_count ?i (mappings s) = 0" by (simp add: dep_count_0[OF ok(2)])
  have "map_of (contexts s) k = Some c \<Longrightarrow> ctx_evaluated c \<noteq> Some ?i" for k c
    using store_inv_context(4)[OF inv] absent by fastforce
  then have ctx0: "ctx_count ?i (contexts s) = 0" by (simp add: ctx_count_0[OF ok(1)])
  show "rc_contexts (me_references e) = ctx_count j (contexts s) \<and> rc_dependents (me_references e) = dep_count j ?ms"
  proof (cases "j = ?i")
    case True
    moreover have "ep_parent m \<noteq> Some ?i" using par new by (auto simp: hm_has_def)
    ultimately show ?thesis using j dep dep0 ctx0 by (auto simp: catalog_insert_def)
  next
    case False
    then have "map_of (retain_dependent (ep_parent m) (mappings s)) j = Some e"
      using j by (simp add: catalog_insert_def)
    from get_retain_dependent[OF this] refs dep[of j] show ?thesis
      by (auto simp: refs_ok_def)
  qed
qed

lemma catalog_insert_inv:
  assumes inv: "store_inv sha s" and new: "map_of (mappings s) (ep_id m) = None"
    and wf: "prefix_wf sha m" and par: "\<And>p. ep_parent m = Some p \<Longrightarrow> hm_has (mappings s) p"
  shows "store_inv sha (catalog_insert m s)"
proof -
  have core: "store_core sha s" and g: "garbage_only None (mappings s)"
    using inv by (auto simp: store_inv_def)
  have c0: "cat (mappings s) (ep_id m) = None" using new by (simp add: cat_def)
  have cwf: "contexts_wf sha (catalog_insert m s)"
    using core by (simp add: store_core_def contexts_wf_def catalog_insert_fields)
  have "hm_ok (mappings (catalog_insert m s))"
    using store_core_hm_ok[OF core] by (simp add: catalog_insert_def)
  moreover have "ep_id n = i \<and> prefix_wf sha n \<and>
      (\<forall>p. ep_parent n = Some p \<longrightarrow> cat (mappings (catalog_insert m s)) p \<noteq> None)"
    if n: "cat (mappings (catalog_insert m s)) i = Some n" for i n
  proof (cases "i = ep_id m")
    case True
    with n wf par show ?thesis by (simp add: catalog_insert_fields) (simp add: hm_has_def cat_def)
  next
    case False
    with n have "cat (mappings s) i = Some n" by (simp add: catalog_insert_fields)
    from store_inv_mapping[OF inv this] show ?thesis by (simp add: catalog_insert_fields)
  qed
  ultimately have "mappings_wf sha (mappings (catalog_insert m s))"
    by (simp add: mappings_wf_def)
  moreover have "eval_ok (contexts s) (cat (mappings (catalog_insert m s)))"
    using core c0 unfolding eval_ok_def catalog_insert_fields store_core_def
    by (metis fun_upd_other option.distinct(1))
  moreover have "index_ok (prefix_index (catalog_insert m s)) (cat (mappings (catalog_insert m s)))"
    using core c0 index_ok_insert[of "prefix_index s" "cat (mappings s)" "ep_id m" m]
    unfolding catalog_insert_fields store_core_def by (simp add: catalog_insert_def ep_key_def)
  moreover have "garbage_only None (mappings (catalog_insert m s))"
    unfolding garbage_only_def
  proof (intro allI impI)
    fix j e
    assume j: "map_of (mappings (catalog_insert m s)) j = Some e" and u: "unreferenced (me_references e)"
    then have "j \<noteq> ep_id m" by (auto simp: catalog_insert_def unreferenced_def)
    then have "map_of (retain_dependent (ep_parent m) (mappings s)) j = Some e"
      using j by (simp add: catalog_insert_def)
    from get_retain_dependent[OF this] u obtain e0 where
      "map_of (mappings s) j = Some e0" "unreferenced (me_references e0)"
      by (auto simp: unreferenced_def)
    with g show "None = Some j" unfolding garbage_only_def by blast
  qed
  ultimately show ?thesis
    using catalog_insert_refs[OF inv new par] cwf by (simp add: store_inv_def store_core_def catalog_insert_fields)
qed

lemma hm_put_put [simp]: "hm_put k v (hm_put k w m) = hm_put k v m"
  by (induction m) auto

lemma validate_publication_OkD:
  assumes inv: "store_inv sha s" and wf: "prefix_wf sha (pp_mapping pp)"
    and v: "validate_publication s pp = Ok u"
  obtains c where "map_of (contexts s) (pp_context pp) = Some c"
    "ctx_evaluated c = pp_expected_current pp" "ctx_revision c = pp_expected_revision pp"
    "evaluated_ok c (pp_mapping pp)"
    "\<And>e. map_of (mappings s) (ep_id (pp_mapping pp)) = Some e \<Longrightarrow> prefix_eq (me_mapping e) (pp_mapping pp)"
    "\<And>p. map_of (mappings s) (ep_id (pp_mapping pp)) = None \<Longrightarrow> ep_parent (pp_mapping pp) = Some p
       \<Longrightarrow> hm_has (mappings s) p"
proof -
  from v obtain c where c: "map_of (contexts s) (pp_context pp) = Some c"
    by (auto simp: validate_publication_def split: option.splits)
  have m: "seq_wf sha (ep_sequence (pp_mapping pp))"
    "length (seq_list (ep_sequence (pp_mapping pp))) = ep_end (pp_mapping pp)"
    using wf by (auto simp: prefix_wf_def)
  have "prefix_matches (ctx_tokens c) (ep_end (pp_mapping pp)) (ep_sequence (pp_mapping pp))"
    using v c by (auto simp: validate_publication_def split: if_splits)
  then have "evaluated_ok c (pp_mapping pp)"
    using v c prefix_matches_iff[OF store_inv_context(3)[OF inv c] m]
    by (auto simp: validate_publication_def evaluated_ok_def split: if_splits)
  moreover have "map_of (mappings s) (ep_id (pp_mapping pp)) = Some e \<Longrightarrow> prefix_eq (me_mapping e) (pp_mapping pp)" for e
    using v c by (auto simp: validate_publication_def split: if_splits)
  moreover have "map_of (mappings s) (ep_id (pp_mapping pp)) = None \<Longrightarrow> ep_parent (pp_mapping pp) = Some p
       \<Longrightarrow> hm_has (mappings s) p" for p
    using v c by (auto simp: validate_publication_def split: if_splits)
  ultimately show ?thesis
    using v c that[of c] by (auto simp: validate_publication_def split: if_splits)
qed

text \<open>The catalogue a commit works on: the prefix is inserted unless it is there already.\<close>

definition catalogued :: "EvaluatedPrefix \<Rightarrow> ContextStore \<Rightarrow> ContextStore" where
  "catalogued m s = (if hm_has (mappings s) (ep_id m) then s else catalog_insert m s)"

lemma catalogued_inv:
  assumes inv: "store_inv sha s" and wf: "prefix_wf sha (pp_mapping pp)"
    and v: "validate_publication s pp = Ok u" and c: "map_of (contexts s) (pp_context pp) = Some c"
  shows "store_inv sha (catalogued (pp_mapping pp) s)" "contexts (catalogued (pp_mapping pp) s) = contexts s"
    and "\<exists>m. cat (mappings (catalogued (pp_mapping pp) s)) (ep_id (pp_mapping pp)) = Some m \<and> evaluated_ok c m"
proof -
  let ?m = "pp_mapping pp"
  from validate_publication_OkD[OF inv wf v] c have ev: "evaluated_ok c ?m"
    and same: "\<And>e. map_of (mappings s) (ep_id ?m) = Some e \<Longrightarrow> prefix_eq (me_mapping e) ?m"
    and par: "\<And>p. map_of (mappings s) (ep_id ?m) = None \<Longrightarrow> ep_parent ?m = Some p \<Longrightarrow> hm_has (mappings s) p"
    by auto
  show "store_inv sha (catalogued ?m s)"
    using catalog_insert_inv[OF inv _ wf par] inv by (auto simp: catalogued_def hm_has_def)
  show "contexts (catalogued ?m s) = contexts s"
    by (simp add: catalogued_def catalog_insert_fields)
  show "\<exists>m. cat (mappings (catalogued ?m s)) (ep_id ?m) = Some m \<and> evaluated_ok c m"
  proof (cases "map_of (mappings s) (ep_id ?m)")
    case None
    with ev show ?thesis by (simp add: catalogued_def hm_has_def catalog_insert_fields)
  next
    case (Some e)
    then have ct: "cat (mappings s) (ep_id ?m) = Some (me_mapping e)" by (simp add: cat_def)
    from store_inv_mapping(2)[OF inv ct] wf same[OF Some] ev have "evaluated_ok c (me_mapping e)"
      by (auto simp: prefix_eq_def evaluated_ok_def prefix_wf_def seq_eq_iff)
    with Some ct show ?thesis by (simp add: catalogued_def hm_has_def)
  qed
qed

lemma adjust_True_contexts:
  "(adjust_context_refs i True s)\<lparr>contexts := cs\<rparr> = adjust_context_refs i True (s\<lparr>contexts := cs\<rparr>)"
  by (auto simp: adjust_context_refs_def contexts_commute split: option.splits)

lemma adjust_True_get: "map_of (mappings (adjust_context_refs i True s)) i = None \<longleftrightarrow> map_of (mappings s) i = None"
  by (auto simp: adjust_context_refs_def split: option.splits)

lemma adjust_True_mapping:
  "map_option me_mapping (map_of (mappings (adjust_context_refs i True s)) j) = map_option me_mapping (map_of (mappings s) j)"
  by (auto simp: adjust_context_refs_def split: option.splits)

lemma adjust_True_same [simp]:
  "contexts (adjust_context_refs i True s) = contexts s" "next_context (adjust_context_refs i True s) = next_context s"
  by (auto simp: adjust_context_refs_def split: option.splits)

lemma adjust_old_fields: "contexts (adjust_old old s) = contexts s"
proof -
  have "adjust_old old s = (adjust_old old s)\<lparr>contexts := contexts s\<rparr>"
    using adjust_old_contexts[of old "contexts s" s] by simp
  from arg_cong[OF this, of contexts] show ?thesis by simp
qed

text \<open>Reclamation only removes catalogue entries, it never changes one.\<close>

lemma reclaim_loop_cat:
  "cat (mappings (reclaim_loop cand s)) i = Some m \<Longrightarrow> cat (mappings s) i = Some m"
proof (induction cand s rule: reclaim_loop.induct)
  case (1 cand s)
  show ?case
  proof (cases "\<exists>i e. cand = Some i \<and> map_of (mappings s) i = Some e \<and> unreferenced (me_references e)")
    case True
    then obtain j e where j: "cand = Some j" "map_of (mappings s) j = Some e" "unreferenced (me_references e)"
      by blast
    from "1.prems" j have "cat (mappings (reclaim_loop (ep_parent (me_mapping e))
        (s\<lparr>mappings := release_dependent (ep_parent (me_mapping e)) (hm_del j (mappings s)),
          prefix_index := index_remove (ep_model_epoch (me_mapping e), ep_adapter_epoch (me_mapping e))
            (ep_end (me_mapping e)) j (prefix_index s)\<rparr>))) i = Some m"
      by (subst (asm) reclaim_loop.simps) (simp add: Let_def)
    from "1.IH"[OF j refl this] show ?thesis by (simp add: cat_del split: if_splits)
  next
    case False
    then have "reclaim_loop cand s = s"
      by (subst reclaim_loop.simps) (auto split: option.splits)
    with "1.prems" show ?thesis by simp
  qed
qed

lemma adjust_old_cat: "cat (mappings (adjust_old old s)) i = Some m \<Longrightarrow> cat (mappings s) i = Some m"
  by (auto simp: adjust_old_def adjust_context_refs_def reclaim_def dest: reclaim_loop_cat split: option.splits)

lemma eval_ok_put:
  assumes "eval_ok (hm_put k c cs) ct"
    and "\<And>i. ctx_evaluated c' = Some i \<Longrightarrow> \<exists>m. ct i = Some m \<and> evaluated_ok c' m"
  shows "eval_ok (hm_put k c' cs) ct"
  unfolding eval_ok_def
proof (intro allI impI)
  fix j d i
  assume j: "map_of (hm_put k c' cs) j = Some d" and d: "ctx_evaluated d = Some i"
  show "\<exists>m. ct i = Some m \<and> evaluated_ok d m"
  proof (cases "j = k")
    case True
    with j d assms(2) show ?thesis by simp
  next
    case False
    with j have "map_of (hm_put k c cs) j = Some d" by simp
    with assms(1) d show ?thesis unfolding eval_ok_def by blast
  qed
qed

text \<open>The state a successful commit leaves when the context switches to another prefix.\<close>

definition switched :: "PreparedPublication \<Rightarrow> LogicalContext \<Rightarrow> nat \<Rightarrow> ContextStore \<Rightarrow> ContextStore" where
  "switched pp c r s =
     (let i = ep_id (pp_mapping pp);
          s2 = adjust_context_refs i True (adjust_old (ctx_evaluated c) (catalogued (pp_mapping pp) s))
      in s2\<lparr>contexts := hm_put (pp_context pp) (c\<lparr>ctx_evaluated := Some i, ctx_revision := r\<rparr>) (contexts s2)\<rparr>)"

lemma switched_inv:
  assumes inv: "store_inv sha s" and wf: "prefix_wf sha (pp_mapping pp)"
    and v: "validate_publication s pp = Ok u" and c: "map_of (contexts s) (pp_context pp) = Some c"
    and present: "map_of (mappings (switched pp c r s)) (ep_id (pp_mapping pp)) = Some e"
  shows "store_inv sha (switched pp c r s)"
proof -
  let ?i = "ep_id (pp_mapping pp)" and ?k = "pp_context pp"
  let ?s1 = "catalogued (pp_mapping pp) s"
  note s1 = catalogued_inv[OF inv wf v c]
  have c1: "map_of (contexts ?s1) ?k = Some c" using c s1(2) by simp
  note cwf = store_inv_context[OF s1(1) c1]
  let ?cA = "c\<lparr>ctx_evaluated := None\<rparr>" and ?cB = "c\<lparr>ctx_evaluated := Some ?i, ctx_revision := r\<rparr>"
  let ?csA = "hm_put ?k ?cA (contexts ?s1)" and ?csB = "hm_put ?k ?cB (contexts ?s1)"
  let ?sA = "adjust_old (ctx_evaluated c) (?s1\<lparr>contexts := ?csA\<rparr>)"
  have A: "store_inv sha ?sA" "contexts ?sA = ?csA" "next_context ?sA = next_context ?s1"
    using clear_evaluated_inv[OF s1(1) c1, of ?cA] cwf by auto
  have ctxs: "contexts (adjust_old (ctx_evaluated c) ?s1) = contexts ?s1"
    by (rule adjust_old_fields)
  have eq: "switched pp c r s = adjust_context_refs ?i True (?sA\<lparr>contexts := ?csB\<rparr>)"
    by (simp add: switched_def Let_def adjust_True_contexts adjust_old_contexts ctxs)
  have "map_of (mappings (adjust_context_refs ?i True (?sA\<lparr>contexts := ?csB\<rparr>))) ?i \<noteq> None"
    using present unfolding eq by simp
  then have "map_of (mappings ?sA) ?i \<noteq> None" by (simp add: adjust_True_get)
  then obtain eA where eA: "map_of (mappings ?sA) ?i = Some eA" by auto
  then have "cat (mappings ?sA) ?i = Some (me_mapping eA)" by (simp add: cat_def)
  from adjust_old_cat[OF this] s1(3) have evm: "evaluated_ok c (me_mapping eA)" by auto
  have okA: "hm_ok (contexts ?s1)"
    using s1(1) by (simp add: store_inv_def store_core_def contexts_wf_def)
  show ?thesis
    unfolding eq
  proof (rule retain_inv[OF A(1) eA])
    show "contexts_wf sha (?sA\<lparr>contexts := ?csB\<rparr>)"
      using s1(1) cwf A(3) by (auto simp: store_inv_def store_core_def contexts_wf_def)
    show "ctx_count j ?csB = ctx_count j (contexts ?sA) + (if j = ?i then 1 else 0)" for j
      using ctx_count_put[OF okA c1, of j ?cA] ctx_count_put[OF okA c1, of j ?cB] A(2) by auto
    have "eval_ok ?csA (cat (mappings ?sA))"
      using A by (simp add: store_inv_def store_core_def)
    then show "eval_ok ?csB (cat (mappings ?sA))"
      by (rule eval_ok_put) (use eA evm in \<open>simp add: cat_def evaluated_ok_def\<close>)
  qed
qed

lemma commit_cases:
  assumes v: "validate_publication s pp = Ok u" and c: "map_of (contexts s) (pp_context pp) = Some c"
    and par: "\<forall>p. map_of (mappings s) (ep_id (pp_mapping pp)) = None \<longrightarrow> ep_parent (pp_mapping pp) = Some p
       \<longrightarrow> hm_has (mappings s) p"
  shows "ctx_evaluated c = Some (ep_id (pp_mapping pp)) \<Longrightarrow>
      fst (commit_publication pp s) = catalogued (pp_mapping pp) s"
    and "ctx_evaluated c \<noteq> Some (ep_id (pp_mapping pp)) \<Longrightarrow> checked_add (ctx_revision c) 1 = Some r \<Longrightarrow>
      commit_publication pp s = (switched pp c r s,
        case map_of (mappings (switched pp c r s)) (ep_id (pp_mapping pp)) of None \<Rightarrow> Abort | Some e \<Rightarrow> Ok (me_mapping e))"
    and "ctx_evaluated c \<noteq> Some (ep_id (pp_mapping pp)) \<Longrightarrow> checked_add (ctx_revision c) 1 = None \<Longrightarrow>
      snd (commit_publication pp s) = Abort"
  using assms
  by (auto simp: commit_publication_def Let_def catalogued_def switched_def hm_has_def split: option.splits)

lemma commit_inv:
  assumes inv: "store_inv sha s" and wf: "prefix_wf sha (pp_mapping pp)"
    and nabort: "snd (commit_publication pp s) \<noteq> Abort"
  shows "store_inv sha (fst (commit_publication pp s))"
proof (cases "validate_publication s pp")
  case (Ok u)
  from validate_publication_OkD[OF inv wf Ok] obtain c where
    c: "map_of (contexts s) (pp_context pp) = Some c"
    and par: "\<forall>p. map_of (mappings s) (ep_id (pp_mapping pp)) = None \<longrightarrow> ep_parent (pp_mapping pp) = Some p
       \<longrightarrow> hm_has (mappings s) p" by metis
  note cases = commit_cases[OF Ok c par]
  show ?thesis
  proof (cases "ctx_evaluated c = Some (ep_id (pp_mapping pp))")
    case True
    with cases(1) catalogued_inv(1)[OF inv wf Ok c] show ?thesis by simp
  next
    case False
    with cases(3) nabort obtain r where r: "checked_add (ctx_revision c) 1 = Some r" by fastforce
    with cases(2)[OF False r] nabort obtain e where
      "map_of (mappings (switched pp c r s)) (ep_id (pp_mapping pp)) = Some e"
      by (auto split: option.splits)
    with cases(2)[OF False r] switched_inv[OF inv wf Ok c] show ?thesis by simp
  qed
next
  case (Err x)
  with inv show ?thesis by (simp add: commit_publication_def)
next
  case Abort
  with inv show ?thesis by (simp add: commit_publication_def)
qed


end
