(* ===== verification/Context_Store_Props.thy ===== *)
theory Context_Store_Props
  imports Context_Store_Inv
begin

text \<open>
  The context store as a state machine, its reachable states, and the properties of its
  operations: the longest-prefix index, the publication protocol, and reclamation.
\<close>

section \<open>The machine\<close>

text \<open>
  A state is a store with the prepared publications that callers still hold.
  \<open>PreparedPublication\<close> has private fields, so one only comes from \<open>prepare_publication\<close>;
  a token sequence only comes from \<open>append\<close> and \<open>prefix\<close>. A call that panics ends the run.
  Fewer than \<open>2^64\<close> contexts are ever created.
\<close>

type_synonym cs_state = "ContextStore \<times> PreparedPublication list"

inductive cs_step :: "(byte list \<Rightarrow> digest) \<Rightarrow> cs_state \<Rightarrow> cs_state \<Rightarrow> bool" for sha where
  step_create: "seq_wf sha t \<Longrightarrow> next_context s + 1 < 2 ^ 64 \<Longrightarrow>
     cs_step sha (s, pps) (fst (cs_create t m a s), pps)"
| step_branch: "next_context s + 1 < 2 ^ 64 \<Longrightarrow> cs_step sha (s, pps) (fst (cs_branch k n s), pps)"
| step_append: "snd (cs_append sha k ts s) \<noteq> Abort \<Longrightarrow> cs_step sha (s, pps) (fst (cs_append sha k ts s), pps)"
| step_remove: "cs_step sha (s, pps) (fst (cs_remove_context k s), pps)"
| step_epochs: "snd (cs_set_epochs k m a s) \<noteq> Abort \<Longrightarrow> cs_step sha (s, pps) (fst (cs_set_epochs k m a s), pps)"
| step_release: "cs_step sha (s, pps) (fst (cs_release_mapping i s), pps)"
| step_prepare: "prepare_publication sha s k e p req compl params = Ok pp \<Longrightarrow> cs_step sha (s, pps) (s, pp # pps)"
| step_commit: "pp \<in> set pps \<Longrightarrow> snd (commit_publication pp s) \<noteq> Abort \<Longrightarrow>
     cs_step sha (s, pps) (fst (commit_publication pp s), remove1 pp pps)"
| step_discard: "cs_step sha (s, pps) (s, remove1 pp pps)"

inductive_cases cs_stepE: "cs_step sha (s, pps) t"

definition cs_init :: "cs_state \<Rightarrow> bool" where
  "cs_init st \<longleftrightarrow> st = (cs_default, [])"

definition cs_inv :: "(byte list \<Rightarrow> digest) \<Rightarrow> cs_state \<Rightarrow> bool" where
  "cs_inv sha st \<longleftrightarrow> store_inv sha (fst st) \<and> (\<forall>pp \<in> set (snd st). prefix_wf sha (pp_mapping pp))"

lemma branch_inv:
  assumes inv: "store_inv sha s" and room: "next_context s + 1 < 2 ^ 64"
  shows "store_inv sha (fst (cs_branch k n s))"
  using assms create_inv[OF inv _ room] seq.pre_ok[OF store_inv_context(3)[OF inv]]
  by (auto simp: cs_branch_def Let_def split: option.splits)

lemma prepare_prefix_wf:
  assumes inv: "store_inv sha s" and p: "prepare_publication sha s k e p req compl params = Ok pp"
  shows "prefix_wf sha (pp_mapping pp)"
proof -
  from p obtain c q where c: "map_of (contexts s) k = Some c" and q: "seq_prefix (ctx_tokens c) e = Some q"
    and "mask_contains compl req" "ep_sequence (pp_mapping pp) = q" "ep_end (pp_mapping pp) = e"
      "ep_complete (pp_mapping pp) = compl" "ep_required (pp_mapping pp) = req"
    by (auto simp: prepare_publication_def Let_def split: option.splits if_splits outcome.splits)
  with seq_prefix_correct[OF store_inv_context(3)[OF inv c] q] show ?thesis
    by (simp add: prefix_wf_def)
qed

lemma cs_step_inv: "cs_step sha s t \<Longrightarrow> cs_inv sha s \<Longrightarrow> cs_inv sha t"
proof (induction rule: cs_step.induct)
  case (step_commit pp pps s)
  then show ?case using commit_inv[of sha s pp] set_remove1_subset[of pp pps] by (auto simp: cs_inv_def)
next
  case (step_discard s pps pp)
  then show ?case using set_remove1_subset[of pp pps] by (auto simp: cs_inv_def)
qed (auto simp: cs_inv_def create_inv branch_inv append_inv remove_context_inv set_epochs_inv
    release_mapping_inv dest: prepare_prefix_wf)

interpretation cs: safe_machine cs_init "cs_step sha" "cs_inv sha" for sha
proof unfold_locales
  show "cs_init s \<Longrightarrow> cs_inv sha s" for s
    by (simp add: cs_init_def cs_inv_def store_inv_default)
  show "cs_step sha s t \<Longrightarrow> cs_inv sha s \<Longrightarrow> cs_inv sha t" for s t
    by (rule cs_step_inv)
qed

section \<open>The longest valid prefix\<close>

lemma find_map_None: "find_map f xs = None \<longleftrightarrow> (\<forall>x \<in> set xs. f x = None)"
  by (induction xs) (auto split: option.splits)

lemma find_map_Some:
  "find_map f xs = Some y \<Longrightarrow> \<exists>ys x zs. xs = ys @ x # zs \<and> f x = Some y \<and> (\<forall>u \<in> set ys. f u = None)"
proof (induction xs)
  case Nil
  then show ?case by simp
next
  case (Cons a xs)
  show ?case
  proof (cases "f a")
    case None
    with Cons obtain ys x zs where "xs = ys @ x # zs" "f x = Some y" "\<forall>u \<in> set ys. f u = None"
      by auto
    with None have "a # xs = (a # ys) @ x # zs" "\<forall>u \<in> set (a # ys). f u = None" by auto
    with \<open>f x = Some y\<close> show ?thesis by blast
  next
    case (Some z)
    with Cons.prems have "a # xs = [] @ a # xs" "f a = Some y" by auto
    then show ?thesis by fastforce
  qed
qed

lemma set_range_rev: "set (range_rev n m) = {p \<in> set m. fst p \<le> n}"
  by (auto simp: range_rev_def)

lemma range_rev_desc: "sorted_wrt (\<lambda>a b. fst b \<le> fst a) (range_rev n m)"
proof -
  have "sorted (map fst (sort_key fst (filter (\<lambda>p. fst p \<le> n) m)))"
    by simp
  then show ?thesis by (simp add: range_rev_def sorted_wrt_rev sorted_map)
qed

lemma set_map_filter: "set (List.map_filter f xs) = {y. \<exists>x \<in> set xs. f x = Some y}"
  by (induction xs) (auto simp: List.map_filter_simps split: option.splits)

lemma index_get_in:
  "i \<in> set (index_get idx k e) \<longleftrightarrow>
     (\<exists>l ids. map_of idx k = Some l \<and> map_of l e = Some ids \<and> i \<in> set ids)"
proof (cases "map_of idx k")
  case (Some l)
  then show ?thesis by (cases "map_of l e") (simp_all add: index_get_def)
qed (simp add: index_get_def)

lemma valid_from_ids_in:
  "valid_mapping_from_ids s c ids = Some m \<Longrightarrow>
     \<exists>i \<in> set ids. cat (mappings s) i = Some m \<and> mapping_valid_for_context s m c None"
  unfolding valid_mapping_from_ids_def
  by (drule min_by_key_in) (auto simp: set_map_filter cat_def)

lemma valid_from_ids_le:
  assumes "valid_mapping_from_ids s c ids = r" "i \<in> set ids" "cat (mappings s) i = Some m"
    "mapping_valid_for_context s m c None"
  shows "\<exists>m0. r = Some m0 \<and> ep_id m0 \<le> ep_id m"
proof -
  let ?xs = "map me_mapping (filter (\<lambda>e. mapping_valid_for_context s (me_mapping e) c None)
         (List.map_filter (map_of (mappings s)) ids))"
  have m: "m \<in> set ?xs"
    using assms by (auto simp: set_map_filter cat_def image_iff)
  then have "?xs \<noteq> []" by force
  from min_by_key_exists[OF this, of ep_id] obtain m0 where m0: "min_by_key ep_id ?xs = Some m0"
    by (rule exE)
  then have "r = Some m0" using assms(1) by (simp only: valid_mapping_from_ids_def)
  with min_by_key_le[OF m0 m] show ?thesis by blast
qed

lemma valid_imp_listed:
  assumes inv: "store_inv sha s" and m: "cat (mappings s) i = Some m"
    and v: "mapping_valid_for_context s m c None"
  shows "\<exists>l ids. map_of (prefix_index s) (ctx_model_epoch c, ctx_adapter_epoch c) = Some l \<and>
     (ep_end m, ids) \<in> set (range_rev (seq_len (ctx_tokens c)) l) \<and> i \<in> set ids"
proof -
  have idx: "index_ok (prefix_index s) (cat (mappings s))"
    using inv by (simp add: store_inv_def store_core_def)
  have key: "ep_key m = (ctx_model_epoch c, ctx_adapter_epoch c)" "ep_end m \<le> seq_len (ctx_tokens c)"
    using v by (auto simp: mapping_valid_for_context_def ep_key_def split: if_splits)
  with idx m have "i \<in> set (index_get (prefix_index s) (ctx_model_epoch c, ctx_adapter_epoch c) (ep_end m))"
    by (auto simp: index_ok_def)
  then obtain l ids where "map_of (prefix_index s) (ctx_model_epoch c, ctx_adapter_epoch c) = Some l"
      "map_of l (ep_end m) = Some ids" "i \<in> set ids"
    unfolding index_get_in by blast
  then show ?thesis using key by (auto simp: set_range_rev dest: map_of_SomeD)
qed

lemma listed_imp_end:
  assumes inv: "store_inv sha s" and l: "map_of (prefix_index s) k = Some l"
    and p: "(e, ids) \<in> set (range_rev n l)" and i: "i \<in> set ids" "cat (mappings s) i = Some m"
  shows "ep_end m = e"
proof -
  have idx: "index_ok (prefix_index s) (cat (mappings s))"
    using inv by (simp add: store_inv_def store_core_def)
  then have "hm_ok l" using l by (auto simp: index_ok_def index_shape_def bucket_ok_def)
  then have "map_of l e = Some ids" using p by (simp add: set_range_rev hm_get_in_iff)
  with l i(1) have "i \<in> set (index_get (prefix_index s) k e)" by (simp add: index_get_def)
  with idx i(2) show ?thesis by (auto simp: index_ok_def)
qed


lemma distinct_range_rev: "hm_ok l \<Longrightarrow> distinct (map fst (range_rev n l))"
proof -
  assume "hm_ok l"
  then have "distinct (map fst (filter (\<lambda>p. fst p \<le> n) l))"
    by (simp add: hm_ok_def distinct_map inj_on_def)
  moreover have "mset (map fst (sort_key fst (filter (\<lambda>p. fst p \<le> n) l))) = mset (map fst (filter (\<lambda>p. fst p \<le> n) l))"
    by simp
  ultimately show ?thesis
    unfolding range_rev_def rev_map[symmetric] distinct_rev by (metis mset_eq_imp_distinct_iff)
qed

lemma longest_characterisation:
  assumes inv: "store_inv sha s" and c: "map_of (contexts s) k = Some c"
  obtains r where "longest_valid_prefix s k = Ok r"
    and "r = None \<Longrightarrow> \<forall>i m. cat (mappings s) i = Some m \<longrightarrow> \<not> mapping_valid_for_context s m c None"
    and "\<And>m. r = Some m \<Longrightarrow> cat (mappings s) (ep_id m) = Some m \<and> mapping_valid_for_context s m c None \<and>
      (\<forall>i m'. cat (mappings s) i = Some m' \<longrightarrow> mapping_valid_for_context s m' c None \<longrightarrow>
         ep_end m' < ep_end m \<or> ep_end m' = ep_end m \<and> ep_id m \<le> ep_id m')"
proof (cases "map_of (prefix_index s) (ctx_model_epoch c, ctx_adapter_epoch c)")
  case None
  then have "longest_valid_prefix s k = Ok None" using c by (simp add: longest_valid_prefix_def)
  moreover have "\<forall>i m. cat (mappings s) i = Some m \<longrightarrow> \<not> mapping_valid_for_context s m c None"
    using valid_imp_listed[OF inv] None by fastforce
  ultimately show ?thesis using that[of None] by simp
next
  case l: (Some l)
  let ?f = "\<lambda>p. valid_mapping_from_ids s c (snd p)"
  let ?xs = "range_rev (seq_len (ctx_tokens c)) l"
  have res: "longest_valid_prefix s k = Ok (find_map ?f ?xs)"
    using c l by (simp add: longest_valid_prefix_def)
  have listed: "\<exists>ids. (ep_end m, ids) \<in> set ?xs \<and> i \<in> set ids"
    if "cat (mappings s) i = Some m" "mapping_valid_for_context s m c None" for i m
    using valid_imp_listed[OF inv that] l by auto
  show ?thesis
  proof (cases "find_map ?f ?xs")
    case None
    have "\<not> mapping_valid_for_context s m c None" if m: "cat (mappings s) i = Some m" for i m
    proof
      assume v: "mapping_valid_for_context s m c None"
      from listed[OF m v] obtain ids where "(ep_end m, ids) \<in> set ?xs" "i \<in> set ids" by blast
      with valid_from_ids_le[OF refl _ m v, of ids] None show False
        by (auto simp: find_map_None)
    qed
    with that[of None] res None show ?thesis by simp
  next
    case (Some m)
    from find_map_Some[OF Some] obtain ys x zs where xs: "?xs = ys @ x # zs" and fx: "?f x = Some m"
      and before: "\<forall>u \<in> set ys. ?f u = None"
      by blast
    from valid_from_ids_in[OF fx] obtain i where i: "i \<in> set (snd x)" "cat (mappings s) i = Some m"
      and v: "mapping_valid_for_context s m c None" by blast
    have idm: "ep_id m = i" by (rule store_inv_mapping(1)[OF inv i(2)])
    have "(fst x, snd x) \<in> set ?xs" unfolding xs by simp
    then have endm: "ep_end m = fst x"
      by (rule listed_imp_end[OF inv l _ i])
    have best: "ep_end m' < ep_end m \<or> ep_end m' = ep_end m \<and> ep_id m \<le> ep_id m'"
      if m': "cat (mappings s) j = Some m'" and v': "mapping_valid_for_context s m' c None" for j m'
    proof -
      from listed[OF m' v'] obtain ids where p: "(ep_end m', ids) \<in> set ?xs" and j: "j \<in> set ids" by blast
      from valid_from_ids_le[OF refl j m' v'] obtain m0 where
        m0: "valid_mapping_from_ids s c ids = Some m0" "ep_id m0 \<le> ep_id m'" by blast
      from p m0(1) before xs have "(ep_end m', ids) = x \<or> (ep_end m', ids) \<in> set zs" by auto
      then show ?thesis
      proof
        assume "(ep_end m', ids) = x"
        with fx m0 endm show ?thesis by force
      next
        assume z: "(ep_end m', ids) \<in> set zs"
        with range_rev_desc[of "seq_len (ctx_tokens c)" l] xs have le: "ep_end m' \<le> fst x"
          by (auto simp: sorted_wrt_append)
        moreover have "ep_end m' \<noteq> fst x"
        proof
          assume eq: "ep_end m' = fst x"
          have "hm_ok l" using inv l
            by (simp add: store_inv_def store_core_def index_ok_def index_shape_def bucket_ok_def)
          then have "distinct (map fst ?xs)" by (rule distinct_range_rev)
          then have "fst x \<notin> fst ` set zs" unfolding xs by simp
          moreover from z have "fst (ep_end m', ids) \<in> fst ` set zs" by (rule imageI)
          ultimately show False using eq by simp
        qed
        ultimately show ?thesis using endm by simp
      qed
    qed
    with that[of "Some m"] res Some idm i(2) v show ?thesis by auto
  qed
qed

section \<open>Revisions\<close>

lemma reclaim_loop_frame:
  "contexts (reclaim_loop cand s) = contexts s" "next_context (reclaim_loop cand s) = next_context s"
proof -
  have "reclaim_loop cand s = (reclaim_loop cand s)\<lparr>contexts := contexts s\<rparr>"
    using reclaim_loop_contexts[of cand "contexts s" s] by simp
  from arg_cong[OF this, of contexts] show "contexts (reclaim_loop cand s) = contexts s" by simp
  show "next_context (reclaim_loop cand s) = next_context s"
  proof (induction cand s rule: reclaim_loop.induct)
    case (1 cand s)
    then show ?case by (subst reclaim_loop.simps) (simp add: Let_def split: option.split)
  qed
qed

lemma adjust_frame:
  "contexts (adjust_context_refs i b s) = contexts s" "next_context (adjust_context_refs i b s) = next_context s"
  "contexts (adjust_old old s) = contexts s" "next_context (adjust_old old s) = next_context s"
  by (auto simp: adjust_context_refs_def adjust_old_def reclaim_def reclaim_loop_frame split: option.splits)

lemma commit_frame:
  "next_context (fst (commit_publication pp s)) = next_context s"
  "\<lbrakk>snd (commit_publication pp s) \<noteq> Abort; map_of (contexts (fst (commit_publication pp s))) k = Some c'\<rbrakk> \<Longrightarrow>
     \<exists>c. map_of (contexts s) k = Some c \<and> (c' = c \<or> ctx_revision c < ctx_revision c')"
  by (auto simp: commit_publication_def Let_def adjust_frame catalog_insert_fields checked_add_Some_iff
      split: outcome.splits option.splits if_splits)

text \<open>A context only changes with a larger revision, and identifiers are not reused.\<close>

definition ctx_evolves :: "nat \<Rightarrow> ContextStore \<Rightarrow> ContextStore \<Rightarrow> bool" where
  "ctx_evolves k s t \<longleftrightarrow> next_context s \<le> next_context t \<and>
    (\<forall>c'. map_of (contexts t) k = Some c' \<longrightarrow>
      (\<exists>c. map_of (contexts s) k = Some c \<and> (c' = c \<or> ctx_revision c < ctx_revision c')))"

lemma ctx_evolves_same: "next_context t = next_context s \<Longrightarrow> contexts t = contexts s \<Longrightarrow> ctx_evolves k s t"
  by (simp add: ctx_evolves_def)

lemma ctx_evolves_trans:
  assumes "ctx_evolves k s t" "ctx_evolves k t u"
  shows "ctx_evolves k s u"
  unfolding ctx_evolves_def
proof (intro conjI allI impI)
  show "next_context s \<le> next_context u" using assms by (simp add: ctx_evolves_def)
  fix c2
  assume "map_of (contexts u) k = Some c2"
  then obtain c1 where c1: "map_of (contexts t) k = Some c1" "c2 = c1 \<or> ctx_revision c1 < ctx_revision c2"
    using assms(2) unfolding ctx_evolves_def by blast
  then obtain c where "map_of (contexts s) k = Some c" "c1 = c \<or> ctx_revision c < ctx_revision c1"
    using assms(1) unfolding ctx_evolves_def by blast
  with c1(2) show "\<exists>c. map_of (contexts s) k = Some c \<and> (c2 = c \<or> ctx_revision c < ctx_revision c2)"
    by (intro exI[of _ c]) auto
qed

lemma ctx_evolves_del:
  "next_context t = next_context s \<Longrightarrow> contexts t = hm_del j (contexts s) \<Longrightarrow> ctx_evolves k s t"
  by (simp add: ctx_evolves_def)

lemma ctx_evolves_put:
  "next_context t = next_context s \<Longrightarrow> contexts t = hm_put j c' (contexts s) \<Longrightarrow>
     map_of (contexts s) j = Some c \<Longrightarrow> ctx_revision c < ctx_revision c' \<Longrightarrow> ctx_evolves k s t"
  by (simp add: ctx_evolves_def)

lemma ctx_evolves_create: "k < next_context s \<Longrightarrow> next_context s + 1 < 2 ^ 64 \<Longrightarrow> ctx_evolves k s (fst (cs_create t m a s))"
  by (simp add: ctx_evolves_def cs_create_def Let_def)

lemma ctx_evolves_append: "snd (cs_append sha j ts s) \<noteq> Abort \<Longrightarrow> ctx_evolves k s (fst (cs_append sha j ts s))"
proof (cases "map_of (contexts s) j")
  case (Some c)
  assume "snd (cs_append sha j ts s) \<noteq> Abort"
  with Some show ?thesis
    by (auto simp: cs_append_def Let_def checked_add_def intro: ctx_evolves_same ctx_evolves_put split: if_splits)
qed (simp add: cs_append_def ctx_evolves_same)

lemma ctx_evolves_epochs: "snd (cs_set_epochs j m a s) \<noteq> Abort \<Longrightarrow> ctx_evolves k s (fst (cs_set_epochs j m a s))"
proof (cases "map_of (contexts s) j")
  case (Some c)
  assume "snd (cs_set_epochs j m a s) \<noteq> Abort"
  with Some show ?thesis
    by (auto simp: cs_set_epochs_def Let_def checked_add_def adjust_frame
        intro: ctx_evolves_same ctx_evolves_put split: if_splits)
qed (simp add: cs_set_epochs_def ctx_evolves_same)

text \<open>A context only changes with a larger revision, and identifiers are not reused.\<close>

lemma step_revision: "cs_step sha st tt \<Longrightarrow> k < next_context (fst st) \<Longrightarrow> ctx_evolves k (fst st) (fst tt)"
proof (induction rule: cs_step.induct)
  case (step_branch s pps j n)
  then show ?case
    by (auto simp: cs_branch_def Let_def ctx_evolves_same ctx_evolves_create split: option.splits)
next
  case (step_remove s pps j)
  then show ?case
    by (auto simp: cs_remove_context_def adjust_frame split: option.splits intro: ctx_evolves_same ctx_evolves_del)
next
  case (step_release s pps i)
  then show ?case
    by (auto simp: cs_release_mapping_def reclaim_def reclaim_loop_frame split: option.splits intro: ctx_evolves_same)
next
  case (step_commit pp pps s)
  then show ?case using commit_frame[of pp s] by (simp add: ctx_evolves_def)
qed (simp_all add: ctx_evolves_create ctx_evolves_append ctx_evolves_epochs ctx_evolves_same)

lemma run_revision:
  assumes "(cs_step sha)\<^sup>*\<^sup>* st tt" "k < next_context (fst st)"
  shows "ctx_evolves k (fst st) (fst tt)"
  using assms(1)
proof (induction rule: rtranclp_induct)
  case base
  then show ?case by (simp add: ctx_evolves_same)
next
  case (step u v)
  then have "k < next_context (fst u)" using assms(2) by (auto simp: ctx_evolves_def)
  from step_revision[OF step.hyps(2) this] step.IH show ?case
    by (blast intro: ctx_evolves_trans)
qed

lemma prepare_fields:
  "prepare_publication sha s k e p req compl params = Ok pp \<Longrightarrow>
     \<exists>c. map_of (contexts s) k = Some c \<and> pp_context pp = k \<and> pp_expected_revision pp = ctx_revision c \<and>
       pp_expected_current pp = ctx_evaluated c"
  by (auto simp: prepare_publication_def Let_def split: option.splits if_splits outcome.splits)

lemma commit_Ok_validated:
  "commit_publication pp s = (s', Ok m) \<Longrightarrow> validate_publication s pp = Ok ()"
  by (auto simp: commit_publication_def split: outcome.splits)

section \<open>A concrete run\<close>

text \<open>A small digest for closed examples.\<close>

definition demo_sha :: "byte list \<Rightarrow> digest" where
  "demo_sha bs = [foldl (\<lambda>a b. 3 * a + b) 7 bs]"

definition demo_s1 :: ContextStore where
  "demo_s1 = fst (cs_create (seq_append demo_sha seq_default [1, 2]) 1 0 cs_default)"

definition demo_prepare :: "nat \<Rightarrow> EvaluatedPrefixId option \<Rightarrow> ContextStore \<Rightarrow> (cs_error, PreparedPublication) outcome" where
  "demo_prepare e p s = prepare_publication demo_sha s 0 e p mask_GLOBAL_KV mask_GLOBAL_KV zero_digest"

definition demo_publish :: "nat \<Rightarrow> EvaluatedPrefixId option \<Rightarrow> ContextStore \<Rightarrow> ContextStore" where
  "demo_publish e p s = (case demo_prepare e p s of Ok pp \<Rightarrow> fst (commit_publication pp s) | _ \<Rightarrow> s)"

definition demo_commits :: "nat \<Rightarrow> EvaluatedPrefixId option \<Rightarrow> ContextStore \<Rightarrow> bool" where
  "demo_commits e p s = (case demo_prepare e p s of
     Ok pp \<Rightarrow> (case snd (commit_publication pp s) of Ok _ \<Rightarrow> True | _ \<Rightarrow> False) | _ \<Rightarrow> False)"

definition demo_current :: "ContextStore \<Rightarrow> EvaluatedPrefixId" where
  "demo_current s = (case map_of (contexts s) 0 of Some c \<Rightarrow>
     (case ctx_evaluated c of Some i \<Rightarrow> i | None \<Rightarrow> []) | None \<Rightarrow> [])"

definition demo_s2 :: ContextStore where "demo_s2 = demo_publish 1 None demo_s1"
definition demo_s3 :: ContextStore where "demo_s3 = demo_publish 2 (Some (demo_current demo_s2)) demo_s2"
definition demo_s4 :: ContextStore where "demo_s4 = fst (cs_release_mapping (demo_current demo_s2) demo_s3)"
definition demo_s5 :: ContextStore where "demo_s5 = fst (cs_release_mapping (demo_current demo_s3) demo_s4)"

text \<open>The last preparation of the run: the shorter prefix, which the store still holds.\<close>

definition demo_pp :: PreparedPublication where
  "demo_pp = (case demo_prepare 1 None demo_s5 of Ok pp \<Rightarrow> pp)"

lemma demo_publish_run:
  assumes "demo_commits e p s"
  shows "(cs_step demo_sha)\<^sup>*\<^sup>* (s, []) (demo_publish e p s, [])"
proof -
  from assms obtain pp where pp: "demo_prepare e p s = Ok pp" and ok: "snd (commit_publication pp s) \<noteq> Abort"
    by (auto simp: demo_commits_def split: outcome.splits)
  have "cs_step demo_sha (s, []) (s, [pp])"
    using pp by (auto simp: demo_prepare_def intro: cs_step.step_prepare)
  moreover have "cs_step demo_sha (s, [pp]) (fst (commit_publication pp s), remove1 pp [pp])"
    using ok by (intro cs_step.step_commit) auto
  ultimately show ?thesis using pp by (simp add: demo_publish_def)
qed

lemma demo_s1_run: "(cs_step demo_sha)\<^sup>*\<^sup>* (cs_default, []) (demo_s1, [])"
proof -
  have "seq_wf demo_sha (seq_append demo_sha seq_default [1, 2])" by (rule seq.app_ok) simp
  then have "cs_step demo_sha (cs_default, []) (demo_s1, [])"
    unfolding demo_s1_def by (intro cs_step.step_create) (simp_all add: cs_default_def)
  then show ?thesis by blast
qed

lemma demo_commits_1: "demo_commits 1 None demo_s1" by code_simp
lemma demo_commits_2: "demo_commits 2 (Some (demo_current demo_s2)) demo_s2" by code_simp

lemma demo_s2_run: "(cs_step demo_sha)\<^sup>*\<^sup>* (cs_default, []) (demo_s2, [])"
  using demo_s1_run demo_publish_run[OF demo_commits_1] by (simp add: demo_s2_def)

lemma demo_s3_run: "(cs_step demo_sha)\<^sup>*\<^sup>* (cs_default, []) (demo_s3, [])"
  using demo_s2_run demo_publish_run[OF demo_commits_2] by (simp add: demo_s3_def)

lemma demo_s5_run: "(cs_step demo_sha)\<^sup>*\<^sup>* (cs_default, []) (demo_s5, [])"
proof -
  have "cs_step demo_sha (demo_s3, []) (demo_s4, [])" "cs_step demo_sha (demo_s4, []) (demo_s5, [])"
    unfolding demo_s4_def demo_s5_def by (rule cs_step.step_release)+
  with demo_s3_run show ?thesis by (meson rtranclp.rtrancl_into_rtrancl)
qed

lemma demo_prepare_pp: "demo_prepare 1 None demo_s5 = Ok demo_pp"
proof -
  have "\<exists>pp. demo_prepare 1 None demo_s5 = Ok pp"
  proof (cases "demo_prepare 1 None demo_s5")
    case (Err e)
    moreover have "(case demo_prepare 1 None demo_s5 of Ok _ \<Rightarrow> True | _ \<Rightarrow> False)" by code_simp
    ultimately show ?thesis by simp
  next
    case Abort
    moreover have "(case demo_prepare 1 None demo_s5 of Ok _ \<Rightarrow> True | _ \<Rightarrow> False)" by code_simp
    ultimately show ?thesis by simp
  qed auto
  then show ?thesis by (auto simp: demo_pp_def)
qed

lemma cat_adjust_True: "cat (mappings (adjust_context_refs i True s)) = cat (mappings s)"
  by (simp add: cat_def adjust_True_mapping fun_eq_iff)

lemma run_reach: "(cs_step sha)\<^sup>*\<^sup>* (cs_default, []) st \<Longrightarrow> reach cs_init (cs_step sha) st"
  by (induction rule: rtranclp_induct) (auto intro: reach.intros simp: cs_init_def)

section \<open>Entries the catalogue still owns survive reclamation\<close>

lemma reclaim_loop_keeps:
  "map_of (mappings s) i = Some e \<Longrightarrow> 0 < rc_catalog (me_references e) \<Longrightarrow>
     \<exists>e'. map_of (mappings (reclaim_loop cand s)) i = Some e' \<and> 0 < rc_catalog (me_references e')"
proof (induction cand s arbitrary: e rule: reclaim_loop.induct)
  case (1 cand s)
  show ?case
  proof (cases "\<exists>j d. cand = Some j \<and> map_of (mappings s) j = Some d \<and> unreferenced (me_references d)")
    case True
    then obtain j d where j: "cand = Some j" "map_of (mappings s) j = Some d" "unreferenced (me_references d)"
      by blast
    let ?m = "me_mapping d"
    let ?s' = "s\<lparr>mappings := release_dependent (ep_parent ?m) (hm_del j (mappings s)),
      prefix_index := index_remove (ep_model_epoch ?m, ep_adapter_epoch ?m) (ep_end ?m) j (prefix_index s)\<rparr>"
    have "i \<noteq> j" using j "1.prems" by (auto simp: unreferenced_def)
    then have "\<exists>e'. map_of (mappings ?s') i = Some e' \<and> 0 < rc_catalog (me_references e')"
      using "1.prems" by (auto simp: release_dependent_def split: option.splits)
    then obtain e' where e': "map_of (mappings ?s') i = Some e'" "0 < rc_catalog (me_references e')" by blast
    have eq: "reclaim_loop cand s = reclaim_loop (ep_parent ?m) ?s'"
      using j by (subst reclaim_loop.simps) (simp only: option.case if_True Let_def)
    show ?thesis unfolding eq by (rule "1.IH"[OF j refl e'])
  next
    case False
    then have "reclaim_loop cand s = s"
      by (subst reclaim_loop.simps) (auto split: option.splits)
    with "1.prems" show ?thesis by auto
  qed
qed

lemma adjust_old_keeps:
  assumes "map_of (mappings s) i = Some e" "0 < rc_catalog (me_references e)"
  shows "\<exists>e'. map_of (mappings (adjust_old old s)) i = Some e' \<and> 0 < rc_catalog (me_references e')"
proof (cases "\<exists>j d. old = Some j \<and> map_of (mappings s) j = Some d")
  case True
  then obtain j d where j: "old = Some j" "map_of (mappings s) j = Some d" by blast
  let ?s = "s\<lparr>mappings := hm_put j (d\<lparr>me_references := (me_references d)
    \<lparr>rc_contexts := rc_contexts (me_references d) - 1\<rparr>\<rparr>) (mappings s)\<rparr>"
  have "\<exists>e1. map_of (mappings ?s) i = Some e1 \<and> 0 < rc_catalog (me_references e1)"
    using assms j by auto
  then obtain e1 where "map_of (mappings ?s) i = Some e1" "0 < rc_catalog (me_references e1)" by blast
  from reclaim_loop_keeps[OF this] j show ?thesis
    by (simp add: adjust_old_def adjust_context_refs_def reclaim_def)
next
  case False
  then have "adjust_old old s = s"
    by (auto simp: adjust_old_def adjust_context_refs_def split: option.splits)
  with assms show ?thesis by auto
qed

section \<open>Properties\<close>

text \<open>C8: in every reachable store, a context that records an evaluated prefix records one
  that the catalogue holds, that was made under the context's model and adapter epochs, and
  whose tokens are a prefix of the context's current tokens.\<close>

theorem evaluated_prefix_sound:
  assumes "reach cs_init (cs_step sha) (s, pps)" "cs_context s k = Some c" "ctx_evaluated c = Some i"
  shows "\<exists>m. cs_mapping s i = Some m \<and> ep_id m = i \<and> ep_model_epoch m = ctx_model_epoch c \<and>
    ep_adapter_epoch m = ctx_adapter_epoch c \<and>
    seq_tokens (ep_sequence m) = take (ep_end m) (seq_tokens (ctx_tokens c))"
proof -
  have inv: "store_inv sha s" using cs.reach_inv[OF assms(1)] by (simp add: cs_inv_def)
  have c: "map_of (contexts s) k = Some c" using assms(2) by (simp add: cs_context_def)
  from store_inv_context(3,4)[OF inv c] assms(3) obtain m where
    m: "cat (mappings s) i = Some m" "evaluated_ok c m" and wf: "seq_wf sha (ctx_tokens c)" by blast
  with store_inv_mapping[OF inv m(1)] show ?thesis
    by (auto simp: cs_mapping_def cat_def evaluated_ok_def prefix_wf_def seq_tokens_list)
qed

theorem evaluated_prefix_sound_witness:
  "\<exists>m. cs_mapping demo_s3 (demo_current demo_s3) = Some m \<and> ep_id m = demo_current demo_s3"
proof -
  have "\<exists>c. cs_context demo_s3 0 = Some c \<and> ctx_evaluated c = Some (demo_current demo_s3)"
  proof (cases "cs_context demo_s3 0")
    case None
    moreover have "cs_context demo_s3 0 \<noteq> None" by code_simp
    ultimately show ?thesis by simp
  next
    case (Some c)
    moreover have "map_option (\<lambda>c. ctx_evaluated c \<noteq> None) (cs_context demo_s3 0) = Some True" by code_simp
    ultimately show ?thesis by (auto simp: demo_current_def cs_context_def)
  qed
  then show ?thesis
    using evaluated_prefix_sound[OF run_reach[OF demo_s3_run], of 0] by blast
qed

text \<open>C9: reference counts are exact in every reachable store: a catalogued prefix counts
  the contexts that evaluate it and the prefixes that depend on it, its parent is
  catalogued, and an entry with no reference at all is never left in the store.\<close>

theorem reference_counts_exact:
  assumes "reach cs_init (cs_step sha) (s, pps)" "cs_references s i = Some r" "cs_mapping s i = Some m"
  shows "rc_contexts r = length (filter (\<lambda>c. ctx_evaluated c = Some i) (hm_values (contexts s))) \<and>
    rc_dependents r = length (filter (\<lambda>e. ep_parent (me_mapping e) = Some i) (hm_values (mappings s))) \<and>
    \<not> unreferenced r \<and> (\<forall>p. ep_parent m = Some p \<longrightarrow> cs_mapping s p \<noteq> None)"
proof -
  have inv: "store_inv sha s" using cs.reach_inv[OF assms(1)] by (simp add: cs_inv_def)
  from assms obtain e where e: "map_of (mappings s) i = Some e" "me_references e = r" "me_mapping e = m"
    by (auto simp: cs_references_def cs_mapping_def)
  have len: "sum_list (map (\<lambda>x. if P x then 1 else 0) xs) = length (filter P xs)" for P and xs :: "'z list"
    by (induction xs) auto
  show ?thesis
    using inv e store_inv_mapping(3)[OF inv, of i m]
    by (auto simp: store_inv_def store_core_def refs_ok_def garbage_only_def ctx_count_def dep_count_def
        hm_sum_def len cs_mapping_def cat_def comp_def)
qed

theorem reference_counts_exact_witness:
  "\<exists>r. cs_references demo_s3 (demo_current demo_s2) = Some r \<and> \<not> unreferenced r \<and> rc_dependents r = 1"
proof -
  have some: "map_of (mappings demo_s3) (demo_current demo_s2) \<noteq> None" by code_simp
  have one: "length (filter (\<lambda>e. ep_parent (me_mapping e) = Some (demo_current demo_s2)) (hm_values (mappings demo_s3))) = 1"
    by code_simp
  from some obtain e where e: "map_of (mappings demo_s3) (demo_current demo_s2) = Some e" by auto
  then have "cs_references demo_s3 (demo_current demo_s2) = Some (me_references e)"
    "cs_mapping demo_s3 (demo_current demo_s2) = Some (me_mapping e)"
    by (simp_all add: cs_references_def cs_mapping_def)
  from this(1) reference_counts_exact[OF run_reach[OF demo_s3_run] this] one show ?thesis by auto
qed

text \<open>C10: \<open>longest_valid_prefix\<close> agrees with a scan of the whole catalogue: it returns a
  catalogued prefix that is valid for the context and has the greatest end among all valid
  ones, the least identifier among those; it returns nothing exactly when none is valid.\<close>

theorem longest_valid_prefix_correct:
  assumes "reach cs_init (cs_step sha) (s, pps)" "cs_context s k = Some c"
  shows "\<exists>r. longest_valid_prefix s k = Ok r \<and>
    (case r of
       None \<Rightarrow> \<forall>i m. cs_mapping s i = Some m \<longrightarrow> \<not> mapping_valid_for_context s m c None
     | Some m \<Rightarrow> cs_mapping s (ep_id m) = Some m \<and> mapping_valid_for_context s m c None \<and>
         (\<forall>i m'. cs_mapping s i = Some m' \<longrightarrow> mapping_valid_for_context s m' c None \<longrightarrow>
            ep_end m' < ep_end m \<or> ep_end m' = ep_end m \<and> ep_id m \<le> ep_id m'))"
proof -
  have inv: "store_inv sha s" using cs.reach_inv[OF assms(1)] by (simp add: cs_inv_def)
  have c: "map_of (contexts s) k = Some c" using assms(2) by (simp add: cs_context_def)
  have cm: "cs_mapping s = cat (mappings s)" by (auto simp: cs_mapping_def cat_def)
  show ?thesis
    unfolding cm
  proof (rule longest_characterisation[OF inv c], goal_cases)
    case (1 r)
    then show ?case by (intro exI[of _ r] conjI) (cases r; simp)+
  qed
qed

theorem longest_valid_prefix_correct_witness:
  "\<exists>m. longest_valid_prefix demo_s3 0 = Ok (Some m) \<and> cs_mapping demo_s3 (ep_id m) = Some m"
proof -
  have "(case longest_valid_prefix demo_s3 0 of Ok (Some _) \<Rightarrow> True | _ \<Rightarrow> False)" by code_simp
  then obtain m where m: "longest_valid_prefix demo_s3 0 = Ok (Some m)"
    by (auto split: outcome.splits option.splits)
  have "cs_context demo_s3 0 \<noteq> None" by code_simp
  then obtain c where "cs_context demo_s3 0 = Some c" by auto
  from longest_valid_prefix_correct[OF run_reach[OF demo_s3_run] this] m show ?thesis by auto
qed

text \<open>Publication is optimistic: a prepared publication that commits, after any other
  calls in between, finds its context exactly as it was when it was prepared.\<close>

theorem commit_sees_prepared_context:
  assumes "reach cs_init (cs_step sha) (s, pps)"
    and "prepare_publication sha s k e p req compl params = Ok pp"
    and "(cs_step sha)\<^sup>*\<^sup>* (s, pp # pps) (s', pps')"
    and "commit_publication pp s' = (s'', Ok m)"
  shows "cs_context s' k = cs_context s k"
proof -
  have inv: "store_inv sha s" using cs.reach_inv[OF assms(1)] by (simp add: cs_inv_def)
  from prepare_fields[OF assms(2)] obtain c where c: "map_of (contexts s) k = Some c"
    and pp: "pp_context pp = k" "pp_expected_revision pp = ctx_revision c" by blast
  from commit_Ok_validated[OF assms(4)] pp obtain c' where c': "map_of (contexts s') k = Some c'"
    "ctx_revision c' = ctx_revision c"
    by (auto simp: validate_publication_def split: option.splits if_splits)
  have "k < next_context (fst (s, pp # pps))" using store_inv_context(2)[OF inv c] by simp
  from run_revision[OF assms(3) this] c' c have "c' = c"
    by (fastforce simp: ctx_evolves_def)
  with c c' show ?thesis by (simp add: cs_context_def)
qed

theorem commit_sees_prepared_context_witness:
  "\<exists>pp. demo_prepare 1 None demo_s1 = Ok pp \<and> cs_context demo_s1 0 = cs_context demo_s1 0 \<and>
     (\<exists>m. snd (commit_publication pp demo_s1) = Ok m)"
proof -
  from demo_commits_1 obtain pp m where pp: "demo_prepare 1 None demo_s1 = Ok pp"
    and m: "snd (commit_publication pp demo_s1) = Ok m"
    by (auto simp: demo_commits_def split: outcome.splits)
  have "cs_context demo_s1 0 = cs_context demo_s1 0"
    by (rule commit_sees_prepared_context[OF run_reach[OF demo_s1_run] pp[unfolded demo_prepare_def] rtranclp.rtrancl_refl])
       (use m in \<open>simp add: prod_eq_iff\<close>)
  with pp m show ?thesis by blast
qed

text \<open>A commit that reports an error leaves the store unchanged, and a commit that
  succeeds catalogues the prefix, makes it the context's evaluated prefix, raises the
  revision by one unless the context evaluated it already, and changes no other context.\<close>

theorem commit_effect:
  assumes "store_inv sha s" "prefix_wf sha (pp_mapping pp)" "map_of (contexts s) (pp_context pp) = Some c"
    and "commit_publication pp s = (s', r)"
  shows "(\<forall>x. r = Err x \<longrightarrow> s' = s) \<and>
    (\<forall>m. r = Ok m \<longrightarrow> prefix_eq m (pp_mapping pp) \<and> cs_mapping s' (ep_id (pp_mapping pp)) = Some m \<and>
       contexts s' = (if ctx_evaluated c = Some (ep_id (pp_mapping pp)) then contexts s
         else hm_put (pp_context pp) (c\<lparr>ctx_evaluated := Some (ep_id (pp_mapping pp)),
           ctx_revision := ctx_revision c + 1\<rparr>) (contexts s)))"
proof (cases "validate_publication s pp")
  case (Ok u)
  let ?i = "ep_id (pp_mapping pp)"
  from validate_publication_OkD[OF assms(1,2) Ok] assms(3) have
    same: "\<And>e. map_of (mappings s) ?i = Some e \<Longrightarrow> prefix_eq (me_mapping e) (pp_mapping pp)"
    and par: "\<forall>p. map_of (mappings s) ?i = None \<longrightarrow> ep_parent (pp_mapping pp) = Some p \<longrightarrow> hm_has (mappings s) p"
    by metis+
  note cases = commit_cases[OF Ok assms(3) par] and ct = catalogued_inv[OF assms(1,2) Ok assms(3)]
  have "prefix_eq (pp_mapping pp) (pp_mapping pp)"
    using assms(2) by (auto simp: prefix_eq_def prefix_wf_def seq_eq_iff)
  then have listed: "cat (mappings (catalogued (pp_mapping pp) s)) ?i = Some m \<Longrightarrow> prefix_eq m (pp_mapping pp)" for m
    using same
    by (cases "map_of (mappings s) ?i") (auto simp: catalogued_def hm_has_def catalog_insert_fields, simp add: cat_def)
  show ?thesis
  proof (cases "ctx_evaluated c = Some ?i")
    case True
    have "map_of (mappings s') ?i = Some e \<Longrightarrow> r = Ok (me_mapping e)" "map_of (mappings s') ?i = None \<Longrightarrow> r = Abort" for e
      using True Ok assms(3,4) par
      by (auto simp: commit_publication_def Let_def hm_has_def split: if_splits option.splits)
    with True cases(1) assms(4) ct(2) listed show ?thesis
      by (cases "map_of (mappings s') ?i") (auto simp: cs_mapping_def cat_def)
  next
    case False
    show ?thesis
    proof (cases "checked_add (ctx_revision c) 1")
      case None
      with cases(3)[OF False] assms(4) show ?thesis by simp
    next
      case (Some v)
      have sw: "contexts (switched pp c v s) = hm_put (pp_context pp)
          (c\<lparr>ctx_evaluated := Some ?i, ctx_revision := v\<rparr>) (contexts s)"
        by (simp add: switched_def Let_def adjust_frame ct(2))
      have "cat (mappings (switched pp c v s)) ?i = Some m \<Longrightarrow>
          cat (mappings (catalogued (pp_mapping pp) s)) ?i = Some m" for m
        by (rule adjust_old_cat[of "ctx_evaluated c"]) (simp add: switched_def Let_def cat_adjust_True)
      then have keep: "cat (mappings (switched pp c v s)) ?i = Some m \<Longrightarrow> prefix_eq m (pp_mapping pp)" for m
        using listed by blast
      have s': "s' = switched pp c v s" and r: "r = (case map_of (mappings s') ?i of
          None \<Rightarrow> Abort | Some e \<Rightarrow> Ok (me_mapping e))"
        using cases(2)[OF False Some] assms(4) by simp_all
      have v: "v = ctx_revision c + 1" using Some by (simp add: checked_add_Some_iff)
      show ?thesis
      proof (cases "map_of (mappings s') ?i")
        case None
        with r show ?thesis by simp
      next
        case (Some e)
        then have ce: "cat (mappings s') ?i = Some (me_mapping e)" by (simp add: cat_def)
        then have "prefix_eq (me_mapping e) (pp_mapping pp)" using keep unfolding s' by blast
        moreover have "r = Ok (me_mapping e)" using r Some by simp
        moreover have "cs_mapping s' ?i = Some (me_mapping e)" using Some by (simp add: cs_mapping_def)
        moreover have "contexts s' = hm_put (pp_context pp)
          (c\<lparr>ctx_evaluated := Some ?i, ctx_revision := ctx_revision c + 1\<rparr>) (contexts s)"
          using sw v s' by simp
        ultimately show ?thesis using False by simp
      qed
    qed
  qed
qed (use assms in \<open>auto simp: commit_publication_def\<close>)

theorem commit_effect_witness:
  "\<exists>pp. demo_prepare 1 None demo_s1 = Ok pp \<and>
     (\<exists>m. snd (commit_publication pp demo_s1) = Ok m \<and> prefix_eq m (pp_mapping pp))"
proof -
  have inv: "store_inv demo_sha demo_s1" using cs.reach_inv[OF run_reach[OF demo_s1_run]] by (simp add: cs_inv_def)
  from demo_commits_1 obtain pp m where pp: "demo_prepare 1 None demo_s1 = Ok pp"
    and m: "snd (commit_publication pp demo_s1) = Ok m"
    by (auto simp: demo_commits_def split: outcome.splits)
  have wf: "prefix_wf demo_sha (pp_mapping pp)"
    using prepare_prefix_wf[OF inv] pp by (auto simp: demo_prepare_def)
  have "\<exists>c. map_of (contexts demo_s1) (pp_context pp) = Some c"
    using prepare_fields pp by (fastforce simp: demo_prepare_def)
  with commit_effect[OF inv wf _ surjective_pairing] pp m show ?thesis by blast
qed

text \<open>A commit never panics when the catalogue still owns the prefix it publishes (or
  does not hold it yet) and the revision counter has room.\<close>

theorem commit_returns:
  assumes "store_inv sha s" "prefix_wf sha (pp_mapping pp)"
    and "\<forall>r. cs_references s (ep_id (pp_mapping pp)) = Some r \<longrightarrow> 0 < rc_catalog r"
    and "\<forall>c. map_of (contexts s) (pp_context pp) = Some c \<longrightarrow> ctx_revision c < u64_max"
  shows "snd (commit_publication pp s) \<noteq> Abort"
proof (cases "validate_publication s pp")
  case (Ok u)
  let ?i = "ep_id (pp_mapping pp)" and ?s1 = "catalogued (pp_mapping pp) s"
  from validate_publication_OkD[OF assms(1,2) Ok] obtain c where
    c: "map_of (contexts s) (pp_context pp) = Some c"
    and par: "\<forall>p. map_of (mappings s) ?i = None \<longrightarrow> ep_parent (pp_mapping pp) = Some p \<longrightarrow> hm_has (mappings s) p"
    by metis
  note cases = commit_cases[OF Ok c par]
  have "\<exists>e. map_of (mappings ?s1) ?i = Some e \<and> 0 < rc_catalog (me_references e)"
    using assms(3) by (auto simp: catalogued_def catalog_insert_def hm_has_def cs_references_def)
  then obtain e where e: "map_of (mappings ?s1) ?i = Some e" "0 < rc_catalog (me_references e)" by blast
  show ?thesis
  proof (cases "ctx_evaluated c = Some ?i")
    case True
    with Ok c par e show ?thesis
      by (auto simp: commit_publication_def Let_def catalogued_def hm_has_def split: option.splits if_splits)
  next
    case False
    from adjust_old_keeps[OF e, of "ctx_evaluated c"] have "map_of (mappings (switched pp c r s)) ?i \<noteq> None" for r
      by (auto simp: switched_def Let_def adjust_True_get)
    moreover obtain r where "checked_add (ctx_revision c) 1 = Some r"
      using assms(4) c by (auto simp: checked_add_def)
    ultimately show ?thesis using cases(2)[OF False] by (auto split: option.splits)
  qed
next
  case Abort
  then show ?thesis by (auto simp: validate_publication_def split: option.splits if_splits)
qed (simp add: commit_publication_def)

theorem commit_returns_witness:
  "\<exists>pp. demo_prepare 1 None demo_s1 = Ok pp \<and> snd (commit_publication pp demo_s1) \<noteq> Abort"
proof -
  have inv: "store_inv demo_sha demo_s1" using cs.reach_inv[OF run_reach[OF demo_s1_run]] by (simp add: cs_inv_def)
  from demo_commits_1 obtain pp where pp: "demo_prepare 1 None demo_s1 = Ok pp"
    by (auto simp: demo_commits_def split: outcome.splits)
  have wf: "prefix_wf demo_sha (pp_mapping pp)"
    using prepare_prefix_wf[OF inv] pp by (auto simp: demo_prepare_def)
  have "mappings demo_s1 = []" by (simp add: demo_s1_def cs_create_def cs_default_def Let_def)
  moreover have "map_of (contexts demo_s1) k = Some c \<Longrightarrow> ctx_revision c < u64_max" for k c
    by (auto simp: demo_s1_def cs_create_def cs_default_def Let_def u64_max_def split: if_splits)
  ultimately have "snd (commit_publication pp demo_s1) \<noteq> Abort"
    by (intro commit_returns[OF inv wf]) (auto simp: cs_references_def)
  with pp show ?thesis by blast
qed

text \<open>Without that ownership a commit can panic. Context 0 evaluates a prefix of length 2
  whose parent is its prefix of length 1; both catalogue references are released; the
  length-1 prefix is prepared again and committed. The commit first drops the context's
  reference to the longer prefix, which reclaims it and, by cascade, the very prefix being
  published; the final index into the mapping table then panics.\<close>

theorem commit_can_panic:
  "reach cs_init (cs_step demo_sha) (demo_s5, [demo_pp]) \<and>
   validate_publication demo_s5 demo_pp = Ok () \<and> snd (commit_publication demo_pp demo_s5) = Abort"
proof (intro conjI)
  have "cs_step demo_sha (demo_s5, []) (demo_s5, [demo_pp])"
    using demo_prepare_pp by (auto simp: demo_prepare_def intro: cs_step.step_prepare)
  then show "reach cs_init (cs_step demo_sha) (demo_s5, [demo_pp])"
    using run_reach[OF demo_s5_run] by (rule reach.reach_step[rotated])
  show "validate_publication demo_s5 demo_pp = Ok ()" by code_simp
  show "snd (commit_publication demo_pp demo_s5) = Abort" by code_simp
qed

end
