(* ===== verification/Physical_Manager.thy ===== *)
theory Physical_Manager
  imports Context_Store
begin

text \<open>
  The physical manager of \<open>crates/physical-manager/src/lib.rs\<close>: physical copies of
  evaluated prefixes in device, host and storage tiers, active bindings of contexts to
  them, prepared transitions with their transfers, growth reservations, device block
  tables, eviction, and the metrics. This theory holds the data and the operations; the
  invariants are in \<open>Physical_Manager_Inv\<close>.

  Byte counts are \<open>usize\<close>: guarded additions are \<open>checked_add\<close>, sums over a table are
  \<open>wrapping_sum\<close>, decrements of reference counts are \<open>wrapping_dec\<close>. Indexing a hash map with
  a missing key and \<open>unwrap\<close> are \<open>Abort\<close>. The statistics counters are natural numbers.
\<close>

section \<open>Data\<close>

type_synonym PhysicalRepresentationId = nat
type_synonym ActiveBindingId = nat
type_synonym PreparedTransitionId = nat
type_synonym TransferId = nat
type_synonym GrowthReservationId = nat
type_synonym DeviceBlockTableId = nat

datatype Component = GlobalKv | SlidingWindow | Recurrent

fun component_mask :: "Component \<Rightarrow> ComponentMask" where
  "component_mask GlobalKv = mask_GLOBAL_KV"
| "component_mask SlidingWindow = mask_SWA"
| "component_mask Recurrent = mask_RECURRENT"

datatype Tier = Device | Host | Storage

datatype TransitionClass = ReferenceOnly | NonDestructive | Quiesced | Recompute

record PmReferenceCounts =
  rc_logical :: nat
  rc_active :: nat
  rc_reservations :: nat
  rc_transfers :: nat

definition protected :: "PmReferenceCounts \<Rightarrow> bool" where
  "protected r \<longleftrightarrow> rc_active r \<noteq> 0 \<or> rc_reservations r \<noteq> 0 \<or> rc_transfers r \<noteq> 0"

record PhysicalRepresentation =
  rep_id :: PhysicalRepresentationId
  rep_mapping :: EvaluatedPrefixId
  rep_component :: Component
  rep_end :: nat
  rep_bytes :: nat
  rep_device :: bool
  rep_host :: bool
  rep_storage :: bool
  rep_refs :: PmReferenceCounts
  rep_last_used :: nat
  rep_reuse_value :: nat

record DeviceBlock =
  db_representation :: PhysicalRepresentationId
  db_component :: Component
  db_bytes :: nat

record DeviceBlockTable =
  dt_id :: DeviceBlockTableId
  dt_binding :: ActiveBindingId
  dt_mapping :: EvaluatedPrefixId
  dt_executor_mapping :: nat
  dt_blocks :: "DeviceBlock list"

record Capacity =
  cap_device_bytes :: nat
  cap_host_bytes :: nat

record Metrics =
  device_total :: nat
  device_active :: nat
  device_growth_reserved :: nat
  device_transition_reserved :: nat
  device_detached_transfer_reserved :: nat
  device_warm :: nat
  host_total :: nat
  metric_host_used :: nat
  transfer_bytes :: nat
  promotions :: nat
  demotions :: nat
  evictions :: nat
  metric_prepared :: nat
  committed :: nat
  aborted :: nat
  recomputed :: nat
  mapped_publications :: nat
  reference_switches :: nat

datatype TraceEvent =
    Registered PhysicalRepresentationId Tier nat
  | Prepared PreparedTransitionId TransitionClass nat
  | TransferCompleted TransferId nat bool
  | Committed PreparedTransitionId ActiveBindingId
  | Aborted PreparedTransitionId
  | Promoted PhysicalRepresentationId nat
  | Demoted PhysicalRepresentationId nat
  | Evicted PhysicalRepresentationId Tier nat

record ActiveBinding =
  ab_id :: ActiveBindingId
  ab_mapping :: EvaluatedPrefixId
  ab_representations :: "PhysicalRepresentationId list"

record PreparedTransition =
  pt_context :: LogicalContextId
  pt_revision :: nat
  pt_mapping :: EvaluatedPrefixId
  pt_representations :: "PhysicalRepresentationId list"
  pt_transfers :: "TransferId list"
  pt_reserved_bytes :: nat
  pt_class :: TransitionClass

record Transfer =
  xf_representation :: PhysicalRepresentationId
  xf_bytes :: nat
  xf_completed :: bool
  xf_success :: bool
  xf_detached :: bool

datatype pm_error =
    RepresentationNotFound
  | BindingNotFound
  | TransitionNotFound
  | TransferNotFound
  | GrowthReservationNotFound
  | DeviceCapacity
  | HostCapacity
  | InvalidComposite
  | NoPromotionSource
  | TransferPending
  | TransferFailed
  | StaleRevision
  | ProtectedByOwner

record PhysicalManager =
  pm_capacity :: Capacity
  pm_next_id :: nat
  pm_clock :: nat
  pm_representations :: "(PhysicalRepresentationId, PhysicalRepresentation) hm"
  pm_bindings :: "(LogicalContextId, ActiveBinding) hm"
  pm_transitions :: "(PreparedTransitionId, PreparedTransition) hm"
  pm_transfers :: "(TransferId, Transfer) hm"
  pm_growth :: "(GrowthReservationId, nat) hm"
  pm_block_tables :: "(LogicalContextId, DeviceBlockTable) hm"
  pm_metrics :: Metrics
  pm_events :: "TraceEvent list"

definition pm_new :: "Capacity \<Rightarrow> PhysicalManager" where
  "pm_new cap = \<lparr>pm_capacity = cap, pm_next_id = 1, pm_clock = 0, pm_representations = [],
     pm_bindings = [], pm_transitions = [], pm_transfers = [], pm_growth = [], pm_block_tables = [],
     pm_metrics = \<lparr>device_total = cap_device_bytes cap, device_active = 0, device_growth_reserved = 0,
       device_transition_reserved = 0, device_detached_transfer_reserved = 0, device_warm = 0,
       host_total = cap_host_bytes cap, metric_host_used = 0, transfer_bytes = 0, promotions = 0,
       demotions = 0, evictions = 0, metric_prepared = 0, committed = 0, aborted = 0, recomputed = 0,
       mapped_publications = 0, reference_switches = 0\<rparr>,
     pm_events = []\<rparr>"

section \<open>Counters and sums\<close>

definition pm_take_id :: "PhysicalManager \<Rightarrow> PhysicalManager \<times> (pm_error, nat) outcome" where
  "pm_take_id s = (case checked_add (pm_next_id s) 1 of
     None \<Rightarrow> (s, Abort) | Some n \<Rightarrow> (s\<lparr>pm_next_id := n\<rparr>, Ok (pm_next_id s)))"

definition pm_tick :: "PhysicalManager \<Rightarrow> PhysicalManager \<times> (pm_error, nat) outcome" where
  "pm_tick s = (case checked_add (pm_clock s) 1 of
     None \<Rightarrow> (s, Abort) | Some n \<Rightarrow> (s\<lparr>pm_clock := n\<rparr>, Ok n))"

definition device_used :: "PhysicalManager \<Rightarrow> nat" where
  "device_used s = wrapping_sum (map rep_bytes (filter rep_device (hm_values (pm_representations s))))"

definition host_used :: "PhysicalManager \<Rightarrow> nat" where
  "host_used s = wrapping_sum (map rep_bytes (filter rep_host (hm_values (pm_representations s))))"

definition protected_device_bytes :: "PhysicalManager \<Rightarrow> nat" where
  "protected_device_bytes s = wrapping_sum (map rep_bytes
     (filter (\<lambda>r. rep_device r \<and> rc_active (rep_refs r) \<noteq> 0) (hm_values (pm_representations s))))"

definition detached_transfer_reserved_bytes :: "PhysicalManager \<Rightarrow> nat" where
  "detached_transfer_reserved_bytes s = wrapping_sum (map xf_bytes
     (filter (\<lambda>x. xf_detached x \<and> \<not> xf_completed x) (hm_values (pm_transfers s))))"

definition growth_bytes :: "PhysicalManager \<Rightarrow> nat" where
  "growth_bytes s = wrapping_sum (hm_values (pm_growth s))"

definition transition_bytes :: "PhysicalManager \<Rightarrow> nat" where
  "transition_bytes s = wrapping_sum (map pt_reserved_bytes (hm_values (pm_transitions s)))"

definition warm_bytes :: "PhysicalManager \<Rightarrow> nat" where
  "warm_bytes s = wrapping_sum (map rep_bytes
     (filter (\<lambda>r. rep_device r \<and> \<not> protected (rep_refs r)) (hm_values (pm_representations s))))"

definition refresh_capacity_metrics :: "PhysicalManager \<Rightarrow> PhysicalManager" where
  "refresh_capacity_metrics s = s\<lparr>pm_metrics := (pm_metrics s)
     \<lparr>device_active := protected_device_bytes s,
      device_growth_reserved := growth_bytes s,
      device_transition_reserved := transition_bytes s,
      device_detached_transfer_reserved := detached_transfer_reserved_bytes s,
      device_warm := warm_bytes s,
      metric_host_used := host_used s\<rparr>\<rparr>"

definition push_event :: "TraceEvent \<Rightarrow> PhysicalManager \<Rightarrow> PhysicalManager" where
  "push_event e s = s\<lparr>pm_events := pm_events s @ [e]\<rparr>"

definition put_rep :: "PhysicalRepresentationId \<Rightarrow> PhysicalRepresentation \<Rightarrow> PhysicalManager \<Rightarrow> PhysicalManager" where
  "put_rep i r s = s\<lparr>pm_representations := hm_put i r (pm_representations s)\<rparr>"

section \<open>Eviction and capacity\<close>

definition evict :: "PhysicalRepresentationId \<Rightarrow> Tier \<Rightarrow> PhysicalManager \<Rightarrow> PhysicalManager \<times> (pm_error, unit) outcome" where
  "evict i tier s =
     (case map_of (pm_representations s) i of
        None \<Rightarrow> (s, Err RepresentationNotFound)
      | Some r \<Rightarrow>
          if protected (rep_refs r) then (s, Err ProtectedByOwner)
          else
            (case (case tier of
                 Device \<Rightarrow> if rep_device r then Some (r\<lparr>rep_device := False\<rparr>) else None
               | Host \<Rightarrow> if rep_host r then Some (r\<lparr>rep_host := False\<rparr>) else None
               | Storage \<Rightarrow> if rep_storage r then Some (r\<lparr>rep_storage := False\<rparr>) else None) of
               None \<Rightarrow> (s, Ok ())
             | Some r' \<Rightarrow>
                 (let s1 = put_rep i r' s;
                      s2 = s1\<lparr>pm_metrics := (pm_metrics s1)\<lparr>evictions := evictions (pm_metrics s1) + 1\<rparr>\<rparr>
                  in (refresh_capacity_metrics (push_event (Evicted i tier (rep_bytes r)) s2), Ok ()))))"

definition eviction_key :: "PhysicalRepresentation \<Rightarrow> nat list" where
  "eviction_key r = [rep_reuse_value r, rep_last_used r, rep_id r]"

definition eviction_candidate :: "PhysicalManager \<Rightarrow> PhysicalRepresentationId option" where
  "eviction_candidate s = map_option rep_id
     (min_by_key eviction_key
       (filter (\<lambda>r. rep_device r \<and> \<not> protected (rep_refs r)) (hm_values (pm_representations s))))"

definition device_copies :: "PhysicalManager \<Rightarrow> nat" where
  "device_copies s = length (filter rep_device (hm_values (pm_representations s)))"

text \<open>
  The loop of \<open>ensure_device_space\<close>. A turn that evicts removes one device copy; a turn that
  returned without removing one would find the same state again and never end.
\<close>

definition device_fits :: "nat \<Rightarrow> PhysicalManager \<Rightarrow> bool" where
  "device_fits additional s = (case checked_add (device_used s) additional of
     None \<Rightarrow> False | Some used \<Rightarrow> used \<le> cap_device_bytes (pm_capacity s))"

function ensure_device_space :: "nat \<Rightarrow> PhysicalManager \<Rightarrow> PhysicalManager \<times> (pm_error, unit) outcome" where
  "ensure_device_space additional s =
     (if device_fits additional s then (s, Ok ())
      else
        (case eviction_candidate s of
           None \<Rightarrow> (s, Err DeviceCapacity)
         | Some c \<Rightarrow>
             (let r = evict c Device s in
              case snd r of
                Err e \<Rightarrow> (fst r, Err e)
              | Abort \<Rightarrow> (fst r, Abort)
              | Ok _ \<Rightarrow>
                  if device_copies (fst r) < device_copies s then ensure_device_space additional (fst r)
                  else (fst r, Abort))))"
  by pat_completeness auto
termination
  by (relation "measure (\<lambda>(n, s). device_copies s)") auto

declare ensure_device_space.simps [simp del]

definition ensure_device_capacity :: "nat \<Rightarrow> PhysicalManager \<Rightarrow> PhysicalManager \<times> (pm_error, unit) outcome" where
  "ensure_device_capacity additional s =
     (let reservations = wrapping_add (wrapping_add (growth_bytes s) (transition_bytes s))
            (detached_transfer_reserved_bytes s)
      in case Option.bind (checked_add (protected_device_bytes s) reservations) (\<lambda>v. checked_add v additional) of
           None \<Rightarrow> (s, Err DeviceCapacity)
         | Some required \<Rightarrow>
             if required > cap_device_bytes (pm_capacity s) then (s, Err DeviceCapacity)
             else ensure_device_space additional s)"

definition ensure_host_capacity :: "nat \<Rightarrow> PhysicalManager \<Rightarrow> PhysicalManager \<times> (pm_error, unit) outcome" where
  "ensure_host_capacity additional s =
     (case checked_add (host_used s) additional of
        None \<Rightarrow> (s, Err HostCapacity)
      | Some used \<Rightarrow> if used \<le> cap_host_bytes (pm_capacity s) then (s, Ok ()) else (s, Err HostCapacity))"

section \<open>Registration, references and growth\<close>

definition new_representation ::
  "PhysicalRepresentationId \<Rightarrow> EvaluatedPrefixId \<Rightarrow> Component \<Rightarrow> nat \<Rightarrow> nat \<Rightarrow> Tier \<Rightarrow> nat \<Rightarrow> nat \<Rightarrow> PhysicalRepresentation" where
  "new_representation i m component e bytes tier t reuse =
     \<lparr>rep_id = i, rep_mapping = m, rep_component = component, rep_end = e, rep_bytes = bytes,
      rep_device = (tier = Device), rep_host = (tier = Host), rep_storage = (tier = Storage),
      rep_refs = \<lparr>rc_logical = 1, rc_active = 0, rc_reservations = 0, rc_transfers = 0\<rparr>,
      rep_last_used = t, rep_reuse_value = reuse\<rparr>"

definition pm_register ::
  "EvaluatedPrefixId \<Rightarrow> Component \<Rightarrow> nat \<Rightarrow> nat \<Rightarrow> Tier \<Rightarrow> nat \<Rightarrow> PhysicalManager
    \<Rightarrow> PhysicalManager \<times> (pm_error, PhysicalRepresentationId) outcome" where
  "pm_register m component e bytes tier reuse s =
     and_then (case tier of Device \<Rightarrow> ensure_device_capacity bytes s
               | Host \<Rightarrow> ensure_host_capacity bytes s | Storage \<Rightarrow> (s, Ok ()))
       (\<lambda>_ s. and_then (pm_take_id s) (\<lambda>i s. and_then (pm_tick s) (\<lambda>t s.
          (refresh_capacity_metrics (push_event (Registered i tier bytes)
             (put_rep i (new_representation i m component e bytes tier t reuse) s)), Ok i))))"

definition pm_representation :: "PhysicalManager \<Rightarrow> PhysicalRepresentationId \<Rightarrow> PhysicalRepresentation option" where
  "pm_representation s i = map_of (pm_representations s) i"

definition pm_active_binding :: "PhysicalManager \<Rightarrow> LogicalContextId \<Rightarrow> (ActiveBindingId \<times> EvaluatedPrefixId) option" where
  "pm_active_binding s c = map_option (\<lambda>b. (ab_id b, ab_mapping b)) (map_of (pm_bindings s) c)"

definition release_logical_reference ::
  "PhysicalRepresentationId \<Rightarrow> PhysicalManager \<Rightarrow> PhysicalManager \<times> (pm_error, unit) outcome" where
  "release_logical_reference i s =
     (case map_of (pm_representations s) i of
        None \<Rightarrow> (s, Err RepresentationNotFound)
      | Some r \<Rightarrow>
          (let r' = r\<lparr>rep_refs := (rep_refs r)\<lparr>rc_logical := rc_logical (rep_refs r) - 1\<rparr>\<rparr>;
               s1 = (if rc_logical (rep_refs r') = 0 \<and> \<not> protected (rep_refs r')
                 then s\<lparr>pm_representations := hm_del i (pm_representations s)\<rparr>
                 else put_rep i r' s)
           in (refresh_capacity_metrics s1, Ok ())))"

definition reserve_growth :: "nat \<Rightarrow> PhysicalManager \<Rightarrow> PhysicalManager \<times> (pm_error, GrowthReservationId) outcome" where
  "reserve_growth bytes s =
     and_then (ensure_device_capacity bytes s) (\<lambda>_ s. and_then (pm_take_id s) (\<lambda>i s.
       (refresh_capacity_metrics (s\<lparr>pm_growth := hm_put i bytes (pm_growth s)\<rparr>), Ok i)))"

definition release_growth :: "GrowthReservationId \<Rightarrow> PhysicalManager \<Rightarrow> PhysicalManager \<times> (pm_error, unit) outcome" where
  "release_growth i s =
     (if hm_has (pm_growth s) i
      then (refresh_capacity_metrics (s\<lparr>pm_growth := hm_del i (pm_growth s)\<rparr>), Ok ())
      else (s, Err GrowthReservationNotFound))"

text \<open>\<open>get_mut(id).unwrap()\<close> over a list of representations; a missing one panics.\<close>

fun update_all ::
  "(PhysicalRepresentation \<Rightarrow> PhysicalRepresentation) \<Rightarrow> PhysicalRepresentationId list
    \<Rightarrow> (PhysicalRepresentationId, PhysicalRepresentation) hm
    \<Rightarrow> (PhysicalRepresentationId, PhysicalRepresentation) hm option" where
  "update_all g [] m = Some m"
| "update_all g (i # is) m =
     (case map_of m i of None \<Rightarrow> None | Some r \<Rightarrow> update_all g is (hm_put i (g r) m))"

definition for_reps ::
  "(PhysicalRepresentation \<Rightarrow> PhysicalRepresentation) \<Rightarrow> PhysicalRepresentationId list \<Rightarrow> PhysicalManager
    \<Rightarrow> PhysicalManager \<times> (pm_error, unit) outcome" where
  "for_reps g ids s = (case update_all g ids (pm_representations s) of
     None \<Rightarrow> (s, Abort) | Some m \<Rightarrow> (s\<lparr>pm_representations := m\<rparr>, Ok ()))"

definition dec_active :: "PhysicalRepresentation \<Rightarrow> PhysicalRepresentation" where
  "dec_active r = r\<lparr>rep_refs := (rep_refs r)\<lparr>rc_active := wrapping_dec (rc_active (rep_refs r))\<rparr>\<rparr>"

definition dec_reservations :: "PhysicalRepresentation \<Rightarrow> PhysicalRepresentation" where
  "dec_reservations r = r\<lparr>rep_refs := (rep_refs r)\<lparr>rc_reservations := wrapping_dec (rc_reservations (rep_refs r))\<rparr>\<rparr>"

definition dec_transfers :: "PhysicalRepresentation \<Rightarrow> PhysicalRepresentation" where
  "dec_transfers r = r\<lparr>rep_refs := (rep_refs r)\<lparr>rc_transfers := wrapping_dec (rc_transfers (rep_refs r))\<rparr>\<rparr>"

definition release_transition_refs ::
  "PreparedTransition \<Rightarrow> PhysicalManager \<Rightarrow> PhysicalManager \<times> (pm_error, unit) outcome" where
  "release_transition_refs t s = for_reps dec_reservations (pt_representations t) s"

section \<open>Bindings and block tables\<close>

text \<open>The blocks of a list of representations; \<open>err\<close> is reported for one not on the device.\<close>

fun blocks_of ::
  "(PhysicalRepresentationId, PhysicalRepresentation) hm \<Rightarrow> pm_error \<Rightarrow> PhysicalRepresentationId list
    \<Rightarrow> (pm_error, DeviceBlock list) outcome" where
  "blocks_of m err [] = Ok []"
| "blocks_of m err (i # is) =
     (case map_of m i of
        None \<Rightarrow> Abort
      | Some r \<Rightarrow>
          if \<not> rep_device r then Err err
          else (case blocks_of m err is of
                  Ok bs \<Rightarrow> Ok (\<lparr>db_representation = i, db_component = rep_component r, db_bytes = rep_bytes r\<rparr> # bs)
                | Err e \<Rightarrow> Err e | Abort \<Rightarrow> Abort))"

definition publish_device_block_table ::
  "LogicalContextId \<Rightarrow> ActiveBindingId \<Rightarrow> nat \<Rightarrow> PhysicalManager
    \<Rightarrow> PhysicalManager \<times> (pm_error, DeviceBlockTableId) outcome" where
  "publish_device_block_table ctx binding executor s =
     (case map_of (pm_bindings s) ctx of
        None \<Rightarrow> (s, Err BindingNotFound)
      | Some active \<Rightarrow>
          if ab_id active \<noteq> binding then (s, Err BindingNotFound)
          else and_then (s, blocks_of (pm_representations s) InvalidComposite (ab_representations active))
            (\<lambda>blocks s. and_then (pm_take_id s) (\<lambda>i s.
               (s\<lparr>pm_block_tables := hm_put ctx \<lparr>dt_id = i, dt_binding = binding, dt_mapping = ab_mapping active,
                    dt_executor_mapping = executor, dt_blocks = blocks\<rparr> (pm_block_tables s),
                  pm_metrics := (pm_metrics s)\<lparr>mapped_publications := mapped_publications (pm_metrics s) + 1\<rparr>\<rparr>,
                Ok i))))"

definition device_block_table :: "PhysicalManager \<Rightarrow> LogicalContextId \<Rightarrow> DeviceBlockTable option" where
  "device_block_table s ctx = map_of (pm_block_tables s) ctx"

text \<open>\<open>unbind\<close> and \<open>release_binding\<close> have the same body.\<close>

definition unbind :: "LogicalContextId \<Rightarrow> PhysicalManager \<Rightarrow> PhysicalManager \<times> (pm_error, unit) outcome" where
  "unbind ctx s =
     (case map_of (pm_bindings s) ctx of
        None \<Rightarrow> (s, Err BindingNotFound)
      | Some b \<Rightarrow>
          and_then (for_reps dec_active (ab_representations b)
              (s\<lparr>pm_bindings := hm_del ctx (pm_bindings s), pm_block_tables := hm_del ctx (pm_block_tables s)\<rparr>))
            (\<lambda>_ s. (refresh_capacity_metrics s, Ok ())))"

definition release_binding :: "LogicalContextId \<Rightarrow> PhysicalManager \<Rightarrow> PhysicalManager \<times> (pm_error, unit) outcome" where
  "release_binding ctx s =
     (case map_of (pm_bindings s) ctx of
        None \<Rightarrow> (s, Err BindingNotFound)
      | Some b \<Rightarrow>
          and_then (for_reps dec_active (ab_representations b)
              (s\<lparr>pm_bindings := hm_del ctx (pm_bindings s), pm_block_tables := hm_del ctx (pm_block_tables s)\<rparr>))
            (\<lambda>_ s. (refresh_capacity_metrics s, Ok ())))"

section \<open>Transitions\<close>

fun check_members ::
  "(PhysicalRepresentationId, PhysicalRepresentation) hm \<Rightarrow> EvaluatedPrefixId \<Rightarrow> nat \<Rightarrow> Component list
    \<Rightarrow> PhysicalRepresentationId list \<Rightarrow> (pm_error, Component list) outcome" where
  "check_members m mapping e present [] = Ok present"
| "check_members m mapping e present (i # is) =
     (case map_of m i of
        None \<Rightarrow> Err RepresentationNotFound
      | Some r \<Rightarrow>
          if rep_mapping r \<noteq> mapping \<or> rep_end r \<noteq> e \<or> rep_component r \<in> set present
          then Err InvalidComposite
          else check_members m mapping e (present @ [rep_component r]) is)"

definition validate_composite ::
  "PhysicalManager \<Rightarrow> EvaluatedPrefixId \<Rightarrow> nat \<Rightarrow> ComponentMask \<Rightarrow> PhysicalRepresentationId list
    \<Rightarrow> (pm_error, unit) outcome" where
  "validate_composite s mapping e required ids =
     (case check_members (pm_representations s) mapping e [] ids of
        Err x \<Rightarrow> Err x
      | Abort \<Rightarrow> Abort
      | Ok present \<Rightarrow>
          if list_all (\<lambda>c. mask_contains required (component_mask c) \<longleftrightarrow> c \<in> set present)
               [GlobalKv, SlidingWindow, Recurrent]
          then Ok () else Err InvalidComposite)"

text \<open>The first loop of \<open>prepare_transition\<close>: bytes that must reach the device, and whether
  any of them has to be recomputed.\<close>

fun missing_of ::
  "(PhysicalRepresentationId, PhysicalRepresentation) hm \<Rightarrow> bool \<Rightarrow> nat \<Rightarrow> bool \<Rightarrow> PhysicalRepresentationId list
    \<Rightarrow> (pm_error, nat \<times> bool) outcome" where
  "missing_of m allow bytes rec [] = Ok (bytes, rec)"
| "missing_of m allow bytes rec (i # is) =
     (case map_of m i of
        None \<Rightarrow> Abort
      | Some r \<Rightarrow>
          if rep_device r then missing_of m allow bytes rec is
          else if rep_host r \<or> rep_storage r then
            (case checked_add bytes (rep_bytes r) of
               None \<Rightarrow> Err DeviceCapacity | Some b \<Rightarrow> missing_of m allow b rec is)
          else if allow then
            (case checked_add bytes (rep_bytes r) of
               None \<Rightarrow> Err DeviceCapacity | Some b \<Rightarrow> missing_of m allow b True is)
          else Err NoPromotionSource)"

text \<open>The second loop: reserve each representation and open a transfer where one is needed.\<close>

fun reserve_reps ::
  "PhysicalRepresentationId list \<Rightarrow> TransferId list \<Rightarrow> PhysicalManager
    \<Rightarrow> PhysicalManager \<times> (pm_error, TransferId list) outcome" where
  "reserve_reps [] acc s = (s, Ok acc)"
| "reserve_reps (i # is) acc s =
     (case map_of (pm_representations s) i of
        None \<Rightarrow> (s, Abort)
      | Some r \<Rightarrow>
          (let needs_transfer = (\<not> rep_device r \<and> (rep_host r \<or> rep_storage r));
               r1 = r\<lparr>rep_refs := (rep_refs r)\<lparr>rc_reservations := rc_reservations (rep_refs r) + 1\<rparr>\<rparr>;
               s1 = put_rep i r1 s
           in if needs_transfer then
                and_then (pm_take_id s1) (\<lambda>t s2.
                  (let r2 = r1\<lparr>rep_refs := (rep_refs r1)\<lparr>rc_transfers := rc_transfers (rep_refs r1) + 1\<rparr>\<rparr>;
                       s3 = put_rep i r2 s2;
                       s4 = s3\<lparr>pm_transfers := hm_put t \<lparr>xf_representation = i, xf_bytes = rep_bytes r,
                              xf_completed = False, xf_success = False, xf_detached = False\<rparr> (pm_transfers s3)\<rparr>
                   in reserve_reps is (acc @ [t]) s4))
              else reserve_reps is acc s1))"

definition transition_class_of :: "bool \<Rightarrow> nat \<Rightarrow> bool \<Rightarrow> TransitionClass" where
  "transition_class_of recompute missing bound =
     (if recompute then Recompute else if missing = 0 then ReferenceOnly
      else if bound then NonDestructive else Quiesced)"

definition prepare_transition ::
  "LogicalContextId \<Rightarrow> nat \<Rightarrow> EvaluatedPrefixId \<Rightarrow> nat \<Rightarrow> ComponentMask \<Rightarrow> PhysicalRepresentationId list \<Rightarrow> bool
    \<Rightarrow> PhysicalManager
    \<Rightarrow> PhysicalManager \<times> (pm_error, PreparedTransitionId \<times> TransitionClass \<times> TransferId list) outcome" where
  "prepare_transition ctx revision mapping e required ids allow s =
     and_then (s, validate_composite s mapping e required ids) (\<lambda>_ s.
     and_then (s, missing_of (pm_representations s) allow 0 False ids) (\<lambda>(missing, recompute) s.
     and_then (ensure_device_capacity missing s) (\<lambda>_ s.
       (let class = transition_class_of recompute missing (hm_has (pm_bindings s) ctx) in
        and_then (pm_take_id s) (\<lambda>tid s.
        and_then (reserve_reps ids [] s) (\<lambda>transfers s.
          (let s1 = s\<lparr>pm_transitions := hm_put tid \<lparr>pt_context = ctx, pt_revision = revision,
                     pt_mapping = mapping, pt_representations = ids, pt_transfers = transfers,
                     pt_reserved_bytes = missing, pt_class = class\<rparr> (pm_transitions s),
                   pm_metrics := (pm_metrics s)\<lparr>metric_prepared := metric_prepared (pm_metrics s) + 1\<rparr>\<rparr>
           in (refresh_capacity_metrics (push_event (Prepared tid class missing) s1),
               Ok (tid, class, transfers)))))))))"

definition transition_class :: "PhysicalManager \<Rightarrow> PreparedTransitionId \<Rightarrow> TransitionClass option" where
  "transition_class s i = map_option pt_class (map_of (pm_transitions s) i)"

definition complete_transfer ::
  "TransferId \<Rightarrow> bool \<Rightarrow> PhysicalManager \<Rightarrow> PhysicalManager \<times> (pm_error, unit) outcome" where
  "complete_transfer i success s =
     (case map_of (pm_transfers s) i of
        None \<Rightarrow> (s, Err TransferNotFound)
      | Some x \<Rightarrow>
          if xf_completed x then (s, Ok ())
          else
            and_then
              (if success then
                 (case map_of (pm_representations s) (xf_representation x) of
                    None \<Rightarrow> (s, Abort)
                  | Some r \<Rightarrow>
                      and_then
                        (if \<not> rep_device r then
                           and_then (ensure_device_space (xf_bytes x) s) (\<lambda>_ s.
                             (case map_of (pm_representations s) (xf_representation x) of
                                None \<Rightarrow> (s, Abort)
                              | Some r \<Rightarrow>
                                  (let s1 = put_rep (xf_representation x) (r\<lparr>rep_device := True\<rparr>) s;
                                       s2 = s1\<lparr>pm_metrics := (pm_metrics s1)\<lparr>promotions := promotions (pm_metrics s1) + 1\<rparr>\<rparr>
                                   in (push_event (Promoted (xf_representation x) (xf_bytes x)) s2, Ok ()))))
                         else (s, Ok ()))
                        (\<lambda>_ s. (s\<lparr>pm_metrics := (pm_metrics s)
                           \<lparr>transfer_bytes := transfer_bytes (pm_metrics s) + xf_bytes x\<rparr>\<rparr>, Ok ())))
               else (s, Ok ()))
              (\<lambda>_ s.
                (let s1 = s\<lparr>pm_transfers := hm_put i (x\<lparr>xf_completed := True, xf_success := success\<rparr>) (pm_transfers s)\<rparr> in
                 and_then (for_reps dec_transfers [xf_representation x] s1) (\<lambda>_ s.
                   (let s2 = refresh_capacity_metrics (push_event (TransferCompleted i (xf_bytes x) success) s)
                    in (if xf_detached x then s2\<lparr>pm_transfers := hm_del i (pm_transfers s2)\<rparr> else s2, Ok ()))))))"

definition complete_recompute ::
  "PreparedTransitionId \<Rightarrow> PhysicalRepresentationId \<Rightarrow> PhysicalManager \<Rightarrow> PhysicalManager \<times> (pm_error, unit) outcome" where
  "complete_recompute tid i s =
     (case map_of (pm_transitions s) tid of
        None \<Rightarrow> (s, Err TransitionNotFound)
      | Some t \<Rightarrow>
          if pt_class t \<noteq> Recompute \<or> i \<notin> set (pt_representations t) then (s, Err InvalidComposite)
          else
            (case map_of (pm_representations s) i of
               None \<Rightarrow> (s, Abort)
             | Some r \<Rightarrow>
                 and_then
                   (if \<not> rep_device r then
                      and_then (ensure_device_space (rep_bytes r) s) (\<lambda>_ s.
                        (case map_of (pm_representations s) i of
                           None \<Rightarrow> (s, Abort)
                         | Some r \<Rightarrow>
                             (let s1 = put_rep i (r\<lparr>rep_device := True\<rparr>) s
                              in (s1\<lparr>pm_metrics := (pm_metrics s1)\<lparr>recomputed := recomputed (pm_metrics s1) + 1\<rparr>\<rparr>, Ok ()))))
                    else (s, Ok ()))
                   (\<lambda>_ s. (refresh_capacity_metrics s, Ok ()))))"

text \<open>The guards shared by both commits: every transfer completed with success.\<close>

fun check_transfers :: "(TransferId, Transfer) hm \<Rightarrow> TransferId list \<Rightarrow> (pm_error, unit) outcome" where
  "check_transfers m [] = Ok ()"
| "check_transfers m (i # is) =
     (case map_of m i of
        None \<Rightarrow> Abort
      | Some x \<Rightarrow>
          if \<not> xf_completed x then Err TransferPending
          else if \<not> xf_success x then Err TransferFailed
          else check_transfers m is)"

fun check_on_device ::
  "(PhysicalRepresentationId, PhysicalRepresentation) hm \<Rightarrow> PhysicalRepresentationId list \<Rightarrow> (pm_error, unit) outcome" where
  "check_on_device m [] = Ok ()"
| "check_on_device m (i # is) =
     (case map_of m i of
        None \<Rightarrow> Abort
      | Some r \<Rightarrow> if \<not> rep_device r then Err TransferPending else check_on_device m is)"

definition activate :: "nat \<Rightarrow> PhysicalRepresentation \<Rightarrow> PhysicalRepresentation" where
  "activate clock r = r\<lparr>rep_refs := (rep_refs r)\<lparr>rc_active := rc_active (rep_refs r) + 1\<rparr>, rep_last_used := clock\<rparr>"

definition remove_transfers :: "TransferId list \<Rightarrow> PhysicalManager \<Rightarrow> PhysicalManager" where
  "remove_transfers ts s = s\<lparr>pm_transfers := fold hm_del ts (pm_transfers s)\<rparr>"

definition commit_transition ::
  "PreparedTransitionId \<Rightarrow> nat \<Rightarrow> PhysicalManager \<Rightarrow> PhysicalManager \<times> (pm_error, ActiveBindingId) outcome" where
  "commit_transition tid current_revision s =
     (case map_of (pm_transitions s) tid of
        None \<Rightarrow> (s, Err TransitionNotFound)
      | Some t \<Rightarrow>
          if pt_revision t \<noteq> current_revision then (s, Err StaleRevision)
          else
            and_then (s, check_transfers (pm_transfers s) (pt_transfers t)) (\<lambda>_ s.
            and_then (s, check_on_device (pm_representations s) (pt_representations t)) (\<lambda>_ s.
            and_then (release_transition_refs t (s\<lparr>pm_transitions := hm_del tid (pm_transitions s)\<rparr>)) (\<lambda>_ s.
              (let s1 = s\<lparr>pm_block_tables := hm_del (pt_context t) (pm_block_tables s)\<rparr>;
                   s2 = (if pt_class t = ReferenceOnly \<and> hm_has (pm_bindings s1) (pt_context t)
                     then s1\<lparr>pm_metrics := (pm_metrics s1)\<lparr>reference_switches := reference_switches (pm_metrics s1) + 1\<rparr>\<rparr>
                     else s1)
               in
               and_then
                 (case map_of (pm_bindings s2) (pt_context t) of
                    None \<Rightarrow> (s2, Ok ())
                  | Some old \<Rightarrow> for_reps dec_active (ab_representations old)
                      (s2\<lparr>pm_bindings := hm_del (pt_context t) (pm_bindings s2)\<rparr>)) (\<lambda>_ s.
               and_then (for_reps (activate (pm_clock s)) (pt_representations t) s) (\<lambda>_ s.
               and_then (pm_take_id s) (\<lambda>binding s.
                 (let s3 = s\<lparr>pm_bindings := hm_put (pt_context t) \<lparr>ab_id = binding, ab_mapping = pt_mapping t,
                            ab_representations = pt_representations t\<rparr> (pm_bindings s),
                          pm_metrics := (pm_metrics s)\<lparr>committed := committed (pm_metrics s) + 1\<rparr>\<rparr>;
                      s4 = push_event (Committed tid binding) (remove_transfers (pt_transfers t) s3)
                  in (refresh_capacity_metrics s4, Ok binding))))))))))"

definition commit_mapped_transition ::
  "PreparedTransitionId \<Rightarrow> nat \<Rightarrow> nat \<Rightarrow> PhysicalManager
    \<Rightarrow> PhysicalManager \<times> (pm_error, ActiveBindingId \<times> DeviceBlockTableId) outcome" where
  "commit_mapped_transition tid current_revision executor s =
     (case map_of (pm_transitions s) tid of
        None \<Rightarrow> (s, Err TransitionNotFound)
      | Some t \<Rightarrow>
          if pt_revision t \<noteq> current_revision then (s, Err StaleRevision)
          else
            and_then (s, check_transfers (pm_transfers s) (pt_transfers t)) (\<lambda>_ s.
            and_then (s, blocks_of (pm_representations s) TransferPending (pt_representations t)) (\<lambda>blocks s.
            and_then (pm_take_id s) (\<lambda>table s.
            and_then (commit_transition tid current_revision s) (\<lambda>binding s.
              (s\<lparr>pm_block_tables := hm_put (pt_context t) \<lparr>dt_id = table, dt_binding = binding,
                   dt_mapping = pt_mapping t, dt_executor_mapping = executor, dt_blocks = blocks\<rparr> (pm_block_tables s),
                 pm_metrics := (pm_metrics s)\<lparr>mapped_publications := mapped_publications (pm_metrics s) + 1\<rparr>\<rparr>,
               Ok (binding, table)))))))"

text \<open>The loop of \<open>abort_transition\<close>: drop completed transfers, detach the others.\<close>

fun detach_transfers :: "TransferId list \<Rightarrow> (TransferId, Transfer) hm \<Rightarrow> (TransferId, Transfer) hm option" where
  "detach_transfers [] m = Some m"
| "detach_transfers (i # is) m =
     (case map_of m i of
        None \<Rightarrow> None
      | Some x \<Rightarrow>
          if xf_completed x then detach_transfers is (hm_del i m)
          else detach_transfers is (hm_put i (x\<lparr>xf_detached := True\<rparr>) m))"

definition abort_transition ::
  "PreparedTransitionId \<Rightarrow> PhysicalManager \<Rightarrow> PhysicalManager \<times> (pm_error, unit) outcome" where
  "abort_transition tid s =
     (case map_of (pm_transitions s) tid of
        None \<Rightarrow> (s, Err TransitionNotFound)
      | Some t \<Rightarrow>
          (let s1 = s\<lparr>pm_transitions := hm_del tid (pm_transitions s)\<rparr> in
           case detach_transfers (pt_transfers t) (pm_transfers s1) of
             None \<Rightarrow> (s1, Abort)
           | Some m \<Rightarrow>
               and_then (release_transition_refs (t\<lparr>pt_transfers := []\<rparr>) (s1\<lparr>pm_transfers := m\<rparr>)) (\<lambda>_ s.
                 (let s2 = s\<lparr>pm_metrics := (pm_metrics s)\<lparr>aborted := aborted (pm_metrics s) + 1\<rparr>\<rparr>
                  in (refresh_capacity_metrics (push_event (Aborted tid) s2), Ok ())))))"

section \<open>Demotion\<close>

definition demote_to_host ::
  "PhysicalRepresentationId \<Rightarrow> PhysicalManager \<Rightarrow> PhysicalManager \<times> (pm_error, unit) outcome" where
  "demote_to_host i s =
     (case map_of (pm_representations s) i of
        None \<Rightarrow> (s, Err RepresentationNotFound)
      | Some r \<Rightarrow>
          if protected (rep_refs r) then (s, Err ProtectedByOwner)
          else
            and_then (if \<not> rep_host r then ensure_host_capacity (rep_bytes r) s else (s, Ok ())) (\<lambda>_ s.
              (let s1 = put_rep i (r\<lparr>rep_host := True, rep_device := False\<rparr>) s;
                   s2 = (if rep_device r
                     then push_event (Demoted i (rep_bytes r))
                       (s1\<lparr>pm_metrics := (pm_metrics s1)\<lparr>demotions := demotions (pm_metrics s1) + 1\<rparr>\<rparr>)
                     else s1)
               in (refresh_capacity_metrics s2, Ok ()))))"

definition demote_to_storage ::
  "PhysicalRepresentationId \<Rightarrow> PhysicalManager \<Rightarrow> PhysicalManager \<times> (pm_error, unit) outcome" where
  "demote_to_storage i s =
     (case map_of (pm_representations s) i of
        None \<Rightarrow> (s, Err RepresentationNotFound)
      | Some r \<Rightarrow>
          if protected (rep_refs r) then (s, Err ProtectedByOwner)
          else
            (let s1 = put_rep i (r\<lparr>rep_storage := True, rep_host := False, rep_device := False\<rparr>) s;
                 s2 = (if rep_device r
                   then push_event (Demoted i (rep_bytes r))
                     (s1\<lparr>pm_metrics := (pm_metrics s1)\<lparr>demotions := demotions (pm_metrics s1) + 1\<rparr>\<rparr>)
                   else s1)
             in (refresh_capacity_metrics s2, Ok ())))"

end
