(* ===== verification/Physical_Manager_Inv.thy ===== *)
theory Physical_Manager_Inv
  imports Physical_Manager
begin

text \<open>
  The invariant of the physical manager and its preservation by every operation.

  Reference counts are exact: each counter of a representation equals the number of its
  owners (active bindings, prepared transitions, incomplete transfers). In the middle of an
  operation a counter may differ from its owners; the predicates therefore carry the
  difference as an explicit debt, which the start and the end of an operation set to zero.
\<close>

section \<open>Owners\<close>

definition bound_count :: "(LogicalContextId, ActiveBinding) hm \<Rightarrow> PhysicalRepresentationId \<Rightarrow> nat" where
  "bound_count bs i = hm_sum (\<lambda>b. count_list (ab_representations b) i) bs"

definition reserved_count :: "(PreparedTransitionId, PreparedTransition) hm \<Rightarrow> PhysicalRepresentationId \<Rightarrow> nat" where
  "reserved_count ts i = hm_sum (\<lambda>t. count_list (pt_representations t) i) ts"

definition transfer_count :: "(TransferId, Transfer) hm \<Rightarrow> PhysicalRepresentationId \<Rightarrow> nat" where
  "transfer_count xs i = hm_sum (\<lambda>x. if xf_representation x = i \<and> \<not> xf_completed x then 1 else 0) xs"

definition owner_count :: "(PreparedTransitionId, PreparedTransition) hm \<Rightarrow> TransferId \<Rightarrow> nat" where
  "owner_count ts x = hm_sum (\<lambda>t. count_list (pt_transfers t) x) ts"

type_synonym rep_map = "(PhysicalRepresentationId, PhysicalRepresentation) hm"

text \<open>\<open>A\<close>, \<open>R\<close> and \<open>X\<close> are the references counted but not (or not yet) owned by a table entry.\<close>

definition refs_ok ::
  "rep_map \<Rightarrow> (LogicalContextId, ActiveBinding) hm \<Rightarrow> (PreparedTransitionId, PreparedTransition) hm
    \<Rightarrow> (TransferId, Transfer) hm \<Rightarrow> (nat \<Rightarrow> nat) \<Rightarrow> (nat \<Rightarrow> nat) \<Rightarrow> (nat \<Rightarrow> nat) \<Rightarrow> bool" where
  "refs_ok rs bs ts xs A R X \<longleftrightarrow> (\<forall>i. case map_of rs i of
       None \<Rightarrow> bound_count bs i + A i = 0 \<and> reserved_count ts i + R i = 0 \<and> transfer_count xs i + X i = 0
     | Some r \<Rightarrow> rc_active (rep_refs r) = bound_count bs i + A i
         \<and> rc_reservations (rep_refs r) = reserved_count ts i + R i
         \<and> rc_transfers (rep_refs r) = transfer_count xs i + X i)"

abbreviation no_debt :: "nat \<Rightarrow> nat" where
  "no_debt \<equiv> (\<lambda>_. 0)"

text \<open>Every transfer has exactly one owner among the transitions, or none once detached.\<close>

definition owners_ok ::
  "(PreparedTransitionId, PreparedTransition) hm \<Rightarrow> (TransferId, Transfer) hm \<Rightarrow> (nat \<Rightarrow> nat) \<Rightarrow> bool" where
  "owners_ok ts xs D \<longleftrightarrow> (\<forall>x. owner_count ts x + D x =
       (case map_of xs x of None \<Rightarrow> 0 | Some y \<Rightarrow> if xf_detached y then 0 else 1))"

definition detached_ok :: "(TransferId, Transfer) hm \<Rightarrow> bool" where
  "detached_ok xs \<longleftrightarrow> (\<forall>x y. map_of xs x = Some y \<longrightarrow> xf_detached y \<longrightarrow> \<not> xf_completed y)"

section \<open>Well-formed tables\<close>

definition reps_ok :: "nat \<Rightarrow> rep_map \<Rightarrow> bool" where
  "reps_ok n rs \<longleftrightarrow> hm_ok rs \<and> (\<forall>i r. map_of rs i = Some r \<longrightarrow>
     rep_id r = i \<and> i < n \<and> (0 < rc_active (rep_refs r) \<longrightarrow> rep_device r))"

definition bytes_ok :: "rep_map \<Rightarrow> (TransferId, Transfer) hm \<Rightarrow> bool" where
  "bytes_ok rs xs \<longleftrightarrow> (\<forall>x y r. map_of xs x = Some y \<longrightarrow> \<not> xf_completed y \<longrightarrow>
     map_of rs (xf_representation y) = Some r \<longrightarrow> xf_bytes y = rep_bytes r)"

text \<open>A composite: copies of one prefix with one end and pairwise different components.\<close>

definition composite :: "rep_map \<Rightarrow> EvaluatedPrefixId \<Rightarrow> PhysicalRepresentationId list \<Rightarrow> bool" where
  "composite rs m ids \<longleftrightarrow> (\<exists>e. \<forall>i\<in>set ids. \<exists>r. map_of rs i = Some r \<and> rep_mapping r = m \<and> rep_end r = e)
     \<and> distinct (map (\<lambda>i. map_option rep_component (map_of rs i)) ids)"

definition composites_ok ::
  "rep_map \<Rightarrow> (LogicalContextId, ActiveBinding) hm \<Rightarrow> (PreparedTransitionId, PreparedTransition) hm \<Rightarrow> bool" where
  "composites_ok rs bs ts \<longleftrightarrow>
     (\<forall>c b. map_of bs c = Some b \<longrightarrow> composite rs (ab_mapping b) (ab_representations b))
   \<and> (\<forall>i t. map_of ts i = Some t \<longrightarrow> composite rs (pt_mapping t) (pt_representations t))"

definition block_of :: "rep_map \<Rightarrow> PhysicalRepresentationId \<Rightarrow> DeviceBlock option" where
  "block_of rs i = map_option (\<lambda>r. \<lparr>db_representation = i, db_component = rep_component r, db_bytes = rep_bytes r\<rparr>)
     (map_of rs i)"

definition table_matches :: "rep_map \<Rightarrow> ActiveBinding \<Rightarrow> DeviceBlockTable \<Rightarrow> bool" where
  "table_matches rs b tb \<longleftrightarrow> dt_binding tb = ab_id b \<and> dt_mapping tb = ab_mapping b
     \<and> list_all2 (\<lambda>i blk. block_of rs i = Some blk) (ab_representations b) (dt_blocks tb)"

definition tables_ok ::
  "rep_map \<Rightarrow> (LogicalContextId, ActiveBinding) hm \<Rightarrow> (LogicalContextId, DeviceBlockTable) hm \<Rightarrow> bool" where
  "tables_ok rs bs tabs \<longleftrightarrow> (\<forall>c tb. map_of tabs c = Some tb \<longrightarrow> (\<exists>b. map_of bs c = Some b \<and> table_matches rs b tb))"

definition ids_below ::
  "nat \<Rightarrow> (PreparedTransitionId, PreparedTransition) hm \<Rightarrow> (TransferId, Transfer) hm \<Rightarrow> (GrowthReservationId, nat) hm \<Rightarrow> bool" where
  "ids_below n ts xs gs \<longleftrightarrow> hm_ok ts \<and> hm_ok xs \<and> hm_ok gs
     \<and> (\<forall>i. n \<le> i \<longrightarrow> map_of ts i = None \<and> map_of xs i = None \<and> map_of gs i = None)"

definition device_bytes :: "rep_map \<Rightarrow> nat" where
  "device_bytes rs = hm_sum (\<lambda>r. if rep_device r then rep_bytes r else 0) rs"

definition host_bytes :: "rep_map \<Rightarrow> nat" where
  "host_bytes rs = hm_sum (\<lambda>r. if rep_host r then rep_bytes r else 0) rs"

definition capacity_ok :: "Capacity \<Rightarrow> rep_map \<Rightarrow> bool" where
  "capacity_ok cap rs \<longleftrightarrow> device_bytes rs \<le> cap_device_bytes cap \<and> host_bytes rs \<le> cap_host_bytes cap
     \<and> cap_device_bytes cap \<le> u64_max \<and> cap_host_bytes cap \<le> u64_max"

definition metrics_synced :: "PhysicalManager \<Rightarrow> bool" where
  "metrics_synced s \<longleftrightarrow> refresh_capacity_metrics s = s"

text \<open>The invariant with debts, without the metrics, and the invariant between operations.\<close>

definition pm_core ::
  "PhysicalManager \<Rightarrow> (nat \<Rightarrow> nat) \<Rightarrow> (nat \<Rightarrow> nat) \<Rightarrow> (nat \<Rightarrow> nat) \<Rightarrow> (nat \<Rightarrow> nat) \<Rightarrow> bool" where
  "pm_core s A R X D \<longleftrightarrow>
     reps_ok (pm_next_id s) (pm_representations s)
   \<and> refs_ok (pm_representations s) (pm_bindings s) (pm_transitions s) (pm_transfers s) A R X
   \<and> owners_ok (pm_transitions s) (pm_transfers s) D
   \<and> bytes_ok (pm_representations s) (pm_transfers s)
   \<and> composites_ok (pm_representations s) (pm_bindings s) (pm_transitions s)
   \<and> tables_ok (pm_representations s) (pm_bindings s) (pm_block_tables s)
   \<and> hm_ok (pm_bindings s)
   \<and> ids_below (pm_next_id s) (pm_transitions s) (pm_transfers s) (pm_growth s)
   \<and> capacity_ok (pm_capacity s) (pm_representations s)"

definition pm_inv :: "PhysicalManager \<Rightarrow> bool" where
  "pm_inv s \<longleftrightarrow> pm_core s no_debt no_debt no_debt no_debt \<and> detached_ok (pm_transfers s) \<and> metrics_synced s"

section \<open>Frame lemmas\<close>

text \<open>What never changes in a representation once it is registered.\<close>

definition same_shape :: "PhysicalRepresentation \<Rightarrow> PhysicalRepresentation \<Rightarrow> bool" where
  "same_shape r r' \<longleftrightarrow> rep_id r' = rep_id r \<and> rep_mapping r' = rep_mapping r \<and> rep_component r' = rep_component r
     \<and> rep_end r' = rep_end r \<and> rep_bytes r' = rep_bytes r"

text \<open>\<open>rs'\<close> keeps the shape of every representation of \<open>rs\<close>, and may hold more.\<close>

definition shapes_kept :: "rep_map \<Rightarrow> rep_map \<Rightarrow> bool" where
  "shapes_kept rs rs' \<longleftrightarrow> (\<forall>i r. map_of rs i = Some r \<longrightarrow> (\<exists>r'. map_of rs' i = Some r' \<and> same_shape r r'))"

lemma same_shape_refl [simp]: "same_shape r r"
  by (simp add: same_shape_def)

lemma shapes_kept_refl [simp]: "shapes_kept rs rs"
  by (simp add: shapes_kept_def)

lemma composite_kept:
  assumes "shapes_kept rs rs'" and "composite rs m ids"
  shows "composite rs' m ids"
proof -
  from assms(2) obtain e where e: "\<forall>i\<in>set ids. \<exists>r. map_of rs i = Some r \<and> rep_mapping r = m \<and> rep_end r = e"
    and d: "distinct (map (\<lambda>i. map_option rep_component (map_of rs i)) ids)"
    by (auto simp: composite_def)
  have 1: "\<exists>r'. map_of rs' i = Some r' \<and> rep_mapping r' = m \<and> rep_end r' = e
      \<and> map_option rep_component (map_of rs i) = Some (rep_component r')" if "i \<in> set ids" for i
  proof -
    from e that obtain r where r: "map_of rs i = Some r" "rep_mapping r = m" "rep_end r = e" by blast
    with assms(1) obtain r' where "map_of rs' i = Some r'" "same_shape r r'" by (auto simp: shapes_kept_def)
    with r show ?thesis by (auto simp: same_shape_def)
  qed
  have "map (\<lambda>i. map_option rep_component (map_of rs' i)) ids
      = map (\<lambda>i. map_option rep_component (map_of rs i)) ids"
    by (intro map_cong refl) (use 1 in fastforce)
  with d have "distinct (map (\<lambda>i. map_option rep_component (map_of rs' i)) ids)" by (simp only:)
  moreover have "\<exists>e. \<forall>i\<in>set ids. \<exists>r. map_of rs' i = Some r \<and> rep_mapping r = m \<and> rep_end r = e"
    using 1 by blast
  ultimately show ?thesis by (simp add: composite_def)
qed

lemma block_of_kept: "shapes_kept rs rs' \<Longrightarrow> block_of rs i = Some b \<Longrightarrow> block_of rs' i = Some b"
  by (fastforce simp: shapes_kept_def block_of_def same_shape_def)

lemma table_matches_kept: "shapes_kept rs rs' \<Longrightarrow> table_matches rs b tb \<Longrightarrow> table_matches rs' b tb"
  unfolding table_matches_def using block_of_kept by (blast intro: list_all2_mono)

lemma composites_ok_kept: "shapes_kept rs rs' \<Longrightarrow> composites_ok rs bs ts \<Longrightarrow> composites_ok rs' bs ts"
  unfolding composites_ok_def using composite_kept by blast

lemma tables_ok_kept: "shapes_kept rs rs' \<Longrightarrow> tables_ok rs bs tabs \<Longrightarrow> tables_ok rs' bs tabs"
  unfolding tables_ok_def using table_matches_kept by blast

section \<open>Updating a list of representations\<close>

lemma update_all_effect:
  assumes "\<forall>i\<in>set ids. map_of m i \<noteq> None" and "hm_ok m"
  shows "\<exists>m'. update_all g ids m = Some m' \<and> hm_ok m'
     \<and> (\<forall>i. map_of m' i = map_option (g ^^ count_list ids i) (map_of m i))
     \<and> (\<forall>f. (\<forall>r. f (g r) = f r) \<longrightarrow> hm_sum f m' = hm_sum f m)"
  using assms
proof (induction ids arbitrary: m)
  case Nil
  then show ?case by (simp add: option.map_id0[unfolded id_def] option.map_ident)
next
  case (Cons j ids)
  from Cons.prems(1) obtain r where r: "map_of m j = Some r" by auto
  let ?m = "hm_put j (g r) m"
  have "\<forall>i\<in>set ids. map_of ?m i \<noteq> None" "hm_ok ?m" using Cons.prems by auto
  from Cons.IH[OF this] obtain m' where m': "update_all g ids ?m = Some m'" "hm_ok m'"
    and get: "\<forall>i. map_of m' i = map_option (g ^^ count_list ids i) (map_of ?m i)"
    and sum: "\<forall>f. (\<forall>r. f (g r) = f r) \<longrightarrow> hm_sum f m' = hm_sum f ?m"
    by blast
  have "map_of m' i = map_option (g ^^ count_list (j # ids) i) (map_of m i)" for i
    using get[rule_format, of i] r by (cases "i = j") (auto simp: funpow_swap1)
  moreover have "hm_sum f m' = hm_sum f m" if "\<forall>r. f (g r) = f r" for f
    using sum[rule_format, of f] that hm_sum_put_same[OF Cons.prems(2) r, of f "g r"] by simp
  ultimately show ?case using r m' by auto
qed

lemma same_shape_trans: "same_shape a b \<Longrightarrow> same_shape b c \<Longrightarrow> same_shape a c"
  by (simp add: same_shape_def)

lemma funpow_frame:
  assumes "\<forall>r. same_shape r (g r) \<and> rep_device (g r) = rep_device r \<and> rep_host (g r) = rep_host r"
  shows "same_shape r ((g ^^ n) r) \<and> rep_device ((g ^^ n) r) = rep_device r \<and> rep_host ((g ^^ n) r) = rep_host r"
  by (induction n) (use assms same_shape_trans in \<open>auto simp: same_shape_def\<close>)

text \<open>
  A loop over representations that keeps shapes and tiers: only the counters have to be
  accounted for.
\<close>

lemma for_reps_core:
  assumes core: "pm_core s A R X D"
    and frame: "\<forall>r. same_shape r (g r) \<and> rep_device (g r) = rep_device r \<and> rep_host (g r) = rep_host r"
    and ids: "\<forall>i\<in>set ids. map_of (pm_representations s) i \<noteq> None"
    and some: "\<And>i r. map_of (pm_representations s) i = Some r \<Longrightarrow>
        rc_active (rep_refs ((g ^^ count_list ids i) r)) = bound_count (pm_bindings s) i + A' i
      \<and> rc_reservations (rep_refs ((g ^^ count_list ids i) r)) = reserved_count (pm_transitions s) i + R' i
      \<and> rc_transfers (rep_refs ((g ^^ count_list ids i) r)) = transfer_count (pm_transfers s) i + X' i
      \<and> (0 < rc_active (rep_refs ((g ^^ count_list ids i) r)) \<longrightarrow> rep_device r)"
    and none: "\<And>i. map_of (pm_representations s) i = None \<Longrightarrow> A' i = A i \<and> R' i = R i \<and> X' i = X i"
  obtains rs where "for_reps g ids s = (s\<lparr>pm_representations := rs\<rparr>, Ok ())"
    and "pm_core (s\<lparr>pm_representations := rs\<rparr>) A' R' X' D"
    and "\<forall>i. map_of rs i = map_option (g ^^ count_list ids i) (map_of (pm_representations s) i)"
proof -
  let ?rs0 = "pm_representations s"
  from core have ok: "hm_ok ?rs0" by (simp add: pm_core_def reps_ok_def)
  from update_all_effect[OF ids ok, of g] obtain rs where
    rs: "update_all g ids ?rs0 = Some rs" "hm_ok rs"
    and get: "\<forall>i. map_of rs i = map_option (g ^^ count_list ids i) (map_of ?rs0 i)"
    and sum: "\<forall>f. (\<forall>r. f (g r) = f r) \<longrightarrow> hm_sum f rs = hm_sum f ?rs0"
    by blast
  have fr: "same_shape r ((g ^^ n) r) \<and> rep_device ((g ^^ n) r) = rep_device r \<and> rep_host ((g ^^ n) r) = rep_host r"
    for r n using funpow_frame[OF frame] .
  have kept: "shapes_kept ?rs0 rs" using get fr by (auto simp: shapes_kept_def)
  have "device_bytes rs = device_bytes ?rs0" "host_bytes rs = host_bytes ?rs0"
    unfolding device_bytes_def host_bytes_def
    using sum[rule_format, of "\<lambda>r. if rep_device r then rep_bytes r else 0"]
      sum[rule_format, of "\<lambda>r. if rep_host r then rep_bytes r else 0"] frame
    by (simp_all add: same_shape_def)
  then have cap: "capacity_ok (pm_capacity s) rs" using core by (simp add: pm_core_def capacity_ok_def)
  have refs: "refs_ok rs (pm_bindings s) (pm_transitions s) (pm_transfers s) A' R' X'"
    unfolding refs_ok_def
  proof
    fix i
    show "case map_of rs i of
       None \<Rightarrow> bound_count (pm_bindings s) i + A' i = 0 \<and> reserved_count (pm_transitions s) i + R' i = 0
         \<and> transfer_count (pm_transfers s) i + X' i = 0
     | Some r \<Rightarrow> rc_active (rep_refs r) = bound_count (pm_bindings s) i + A' i
         \<and> rc_reservations (rep_refs r) = reserved_count (pm_transitions s) i + R' i
         \<and> rc_transfers (rep_refs r) = transfer_count (pm_transfers s) i + X' i"
    proof (cases "map_of ?rs0 i")
      case None
      then have "map_of rs i = None" using get by simp
      moreover from core have "refs_ok ?rs0 (pm_bindings s) (pm_transitions s) (pm_transfers s) A R X"
        by (simp add: pm_core_def)
      ultimately show ?thesis using None none[OF None] by (auto simp: refs_ok_def dest: spec[of _ i])
    next
      case (Some r)
      then show ?thesis using get some[OF Some] by simp
    qed
  qed
  have reps: "reps_ok (pm_next_id s) rs"
    unfolding reps_ok_def
  proof (intro conjI allI impI)
    fix i r' assume "map_of rs i = Some r'"
    then obtain r where r: "map_of ?rs0 i = Some r" and r': "r' = (g ^^ count_list ids i) r"
      using get by (auto simp: map_option_case split: option.splits)
    from core r have "rep_id r = i \<and> i < pm_next_id s" by (simp add: pm_core_def reps_ok_def)
    then show "rep_id r' = i" "i < pm_next_id s"
      using fr[where r = r and n = "count_list ids i"] by (simp_all add: r' same_shape_def)
    assume "0 < rc_active (rep_refs r')"
    then show "rep_device r'" using some[OF r] fr[where r = r and n = "count_list ids i"] by (simp add: r')
  qed (rule rs(2))
  have bytes: "bytes_ok rs (pm_transfers s)"
    unfolding bytes_ok_def
  proof (intro allI impI)
    fix x y r' assume y: "map_of (pm_transfers s) x = Some y" "\<not> xf_completed y"
      and "map_of rs (xf_representation y) = Some r'"
    then obtain r n where r: "map_of ?rs0 (xf_representation y) = Some r" and r': "r' = (g ^^ n) r"
      using get by (auto simp: map_option_case split: option.splits)
    from core y r have "xf_bytes y = rep_bytes r" by (auto simp: pm_core_def bytes_ok_def)
    then show "xf_bytes y = rep_bytes r'" using fr[where r = r and n = n] by (simp add: r' same_shape_def)
  qed
  have "pm_core (s\<lparr>pm_representations := rs\<rparr>) A' R' X' D"
    using core reps refs bytes cap composites_ok_kept[OF kept] tables_ok_kept[OF kept]
    by (simp add: pm_core_def)
  with rs(1) get show ?thesis by (intro that[of rs]) (simp_all add: for_reps_def)
qed

text \<open>The four loops of the code: after them a debt is paid, or a new one taken up.\<close>

lemma core_refs:
  "pm_core s A R X D \<Longrightarrow> map_of (pm_representations s) i = Some r \<Longrightarrow>
     rc_active (rep_refs r) = bound_count (pm_bindings s) i + A i
   \<and> rc_reservations (rep_refs r) = reserved_count (pm_transitions s) i + R i
   \<and> rc_transfers (rep_refs r) = transfer_count (pm_transfers s) i + X i
   \<and> rep_id r = i \<and> i < pm_next_id s \<and> (0 < rc_active (rep_refs r) \<longrightarrow> rep_device r)"
  unfolding pm_core_def refs_ok_def reps_ok_def by (auto dest: spec[of _ i])

lemma core_refs_none:
  "pm_core s A R X D \<Longrightarrow> map_of (pm_representations s) i = None \<Longrightarrow>
     bound_count (pm_bindings s) i = 0 \<and> A i = 0 \<and> reserved_count (pm_transitions s) i = 0 \<and> R i = 0
   \<and> transfer_count (pm_transfers s) i = 0 \<and> X i = 0"
  unfolding pm_core_def refs_ok_def by (auto dest: spec[of _ i])

lemma dec_active_pow:
  "n \<le> rc_active (rep_refs r) \<Longrightarrow>
     (dec_active ^^ n) r = r\<lparr>rep_refs := (rep_refs r)\<lparr>rc_active := rc_active (rep_refs r) - n\<rparr>\<rparr>"
  by (induction n) (simp_all add: dec_active_def)

lemma dec_reservations_pow:
  "n \<le> rc_reservations (rep_refs r) \<Longrightarrow>
     (dec_reservations ^^ n) r = r\<lparr>rep_refs := (rep_refs r)\<lparr>rc_reservations := rc_reservations (rep_refs r) - n\<rparr>\<rparr>"
  by (induction n) (simp_all add: dec_reservations_def)

lemma dec_transfers_pow:
  "n \<le> rc_transfers (rep_refs r) \<Longrightarrow>
     (dec_transfers ^^ n) r = r\<lparr>rep_refs := (rep_refs r)\<lparr>rc_transfers := rc_transfers (rep_refs r) - n\<rparr>\<rparr>"
  by (induction n) (simp_all add: dec_transfers_def)

lemma activate_pow:
  "rep_refs ((activate c ^^ n) r) = (rep_refs r)\<lparr>rc_active := rc_active (rep_refs r) + n\<rparr>"
  by (induction n) (simp_all add: activate_def)

lemma frame_loops:
  "same_shape r (dec_active r) \<and> rep_device (dec_active r) = rep_device r \<and> rep_host (dec_active r) = rep_host r"
  "same_shape r (dec_reservations r) \<and> rep_device (dec_reservations r) = rep_device r \<and> rep_host (dec_reservations r) = rep_host r"
  "same_shape r (dec_transfers r) \<and> rep_device (dec_transfers r) = rep_device r \<and> rep_host (dec_transfers r) = rep_host r"
  "same_shape r (activate c r) \<and> rep_device (activate c r) = rep_device r \<and> rep_host (activate c r) = rep_host r"
  by (simp_all add: same_shape_def dec_active_def dec_reservations_def dec_transfers_def activate_def)

lemma count_list_pos: "count_list xs x \<noteq> 0 \<longleftrightarrow> x \<in> set xs"
  by (simp add: count_list_0_iff)

lemma debt_exists:
  assumes "pm_core s A R X D" and "\<forall>i\<in>set ids. 0 < A i + R i + X i"
  shows "\<forall>i\<in>set ids. map_of (pm_representations s) i \<noteq> None"
  using core_refs_none[OF assms(1)] assms(2) by fastforce

lemma pay_active:
  assumes core: "pm_core s (count_list ids) R X D"
  obtains rs where "for_reps dec_active ids s = (s\<lparr>pm_representations := rs\<rparr>, Ok ())"
    and "pm_core (s\<lparr>pm_representations := rs\<rparr>) no_debt R X D"
    and "\<forall>i. map_of rs i = map_option (dec_active ^^ count_list ids i) (map_of (pm_representations s) i)"
proof (rule for_reps_core[OF core, of dec_active ids no_debt R X])
  show "\<forall>i\<in>set ids. map_of (pm_representations s) i \<noteq> None"
    by (rule debt_exists[OF core]) (simp add: count_list_pos[unfolded neq0_conv])
next
  fix i r assume "map_of (pm_representations s) i = Some r"
  from core_refs[OF core this] show "rc_active (rep_refs ((dec_active ^^ count_list ids i) r)) = bound_count (pm_bindings s) i + 0
      \<and> rc_reservations (rep_refs ((dec_active ^^ count_list ids i) r)) = reserved_count (pm_transitions s) i + R i
      \<and> rc_transfers (rep_refs ((dec_active ^^ count_list ids i) r)) = transfer_count (pm_transfers s) i + X i
      \<and> (0 < rc_active (rep_refs ((dec_active ^^ count_list ids i) r)) \<longrightarrow> rep_device r)"
    by (auto simp: dec_active_pow)
next
  fix i assume "map_of (pm_representations s) i = None"
  from core_refs_none[OF core this] show "0 = count_list ids i \<and> R i = R i \<and> X i = X i" by simp
qed (use frame_loops(1) that in auto)

lemma pay_reservations:
  assumes core: "pm_core s A (count_list ids) X D"
  obtains rs where "for_reps dec_reservations ids s = (s\<lparr>pm_representations := rs\<rparr>, Ok ())"
    and "pm_core (s\<lparr>pm_representations := rs\<rparr>) A no_debt X D"
    and "\<forall>i. map_of rs i = map_option (dec_reservations ^^ count_list ids i) (map_of (pm_representations s) i)"
proof (rule for_reps_core[OF core, of dec_reservations ids A no_debt X])
  show "\<forall>i\<in>set ids. map_of (pm_representations s) i \<noteq> None"
    by (rule debt_exists[OF core]) (simp add: count_list_pos[unfolded neq0_conv])
next
  fix i r assume "map_of (pm_representations s) i = Some r"
  from core_refs[OF core this]
  show "rc_active (rep_refs ((dec_reservations ^^ count_list ids i) r)) = bound_count (pm_bindings s) i + A i
      \<and> rc_reservations (rep_refs ((dec_reservations ^^ count_list ids i) r)) = reserved_count (pm_transitions s) i + 0
      \<and> rc_transfers (rep_refs ((dec_reservations ^^ count_list ids i) r)) = transfer_count (pm_transfers s) i + X i
      \<and> (0 < rc_active (rep_refs ((dec_reservations ^^ count_list ids i) r)) \<longrightarrow> rep_device r)"
    by (auto simp: dec_reservations_pow)
next
  fix i assume "map_of (pm_representations s) i = None"
  from core_refs_none[OF core this] show "A i = A i \<and> 0 = count_list ids i \<and> X i = X i" by simp
qed (use frame_loops(2) that in auto)

lemma pay_transfers:
  assumes core: "pm_core s A R (count_list ids) D"
  obtains rs where "for_reps dec_transfers ids s = (s\<lparr>pm_representations := rs\<rparr>, Ok ())"
    and "pm_core (s\<lparr>pm_representations := rs\<rparr>) A R no_debt D"
    and "\<forall>i. map_of rs i = map_option (dec_transfers ^^ count_list ids i) (map_of (pm_representations s) i)"
proof (rule for_reps_core[OF core, of dec_transfers ids A R no_debt])
  show "\<forall>i\<in>set ids. map_of (pm_representations s) i \<noteq> None"
    by (rule debt_exists[OF core]) (simp add: count_list_pos[unfolded neq0_conv])
next
  fix i r assume "map_of (pm_representations s) i = Some r"
  from core_refs[OF core this]
  show "rc_active (rep_refs ((dec_transfers ^^ count_list ids i) r)) = bound_count (pm_bindings s) i + A i
      \<and> rc_reservations (rep_refs ((dec_transfers ^^ count_list ids i) r)) = reserved_count (pm_transitions s) i + R i
      \<and> rc_transfers (rep_refs ((dec_transfers ^^ count_list ids i) r)) = transfer_count (pm_transfers s) i + 0
      \<and> (0 < rc_active (rep_refs ((dec_transfers ^^ count_list ids i) r)) \<longrightarrow> rep_device r)"
    by (auto simp: dec_transfers_pow)
next
  fix i assume "map_of (pm_representations s) i = None"
  from core_refs_none[OF core this] show "A i = A i \<and> R i = R i \<and> 0 = count_list ids i" by simp
qed (use frame_loops(3) that in auto)

lemma take_active:
  assumes core: "pm_core s no_debt R X D"
    and dev: "\<forall>i\<in>set ids. \<exists>r. map_of (pm_representations s) i = Some r \<and> rep_device r"
  obtains rs where "for_reps (activate c) ids s = (s\<lparr>pm_representations := rs\<rparr>, Ok ())"
    and "pm_core (s\<lparr>pm_representations := rs\<rparr>) (count_list ids) R X D"
    and "\<forall>i. map_of rs i = map_option (activate c ^^ count_list ids i) (map_of (pm_representations s) i)"
proof (rule for_reps_core[OF core, of "activate c" ids "count_list ids" R X])
  show "\<forall>i\<in>set ids. map_of (pm_representations s) i \<noteq> None" using dev by fastforce
next
  fix i r assume r: "map_of (pm_representations s) i = Some r"
  have "rep_device r" if "0 < count_list ids i"
  proof -
    from that have "i \<in> set ids" using count_list_pos[of ids i] by simp
    with dev r show ?thesis by auto
  qed
  with core_refs[OF core r]
  show "rc_active (rep_refs ((activate c ^^ count_list ids i) r)) = bound_count (pm_bindings s) i + count_list ids i
      \<and> rc_reservations (rep_refs ((activate c ^^ count_list ids i) r)) = reserved_count (pm_transitions s) i + R i
      \<and> rc_transfers (rep_refs ((activate c ^^ count_list ids i) r)) = transfer_count (pm_transfers s) i + X i
      \<and> (0 < rc_active (rep_refs ((activate c ^^ count_list ids i) r)) \<longrightarrow> rep_device r)"
    by (auto simp: activate_pow)
next
  fix i assume "map_of (pm_representations s) i = None"
  then have "i \<notin> set ids" using dev by fastforce
  then show "count_list ids i = 0 \<and> R i = R i \<and> X i = X i" by simp
qed (use frame_loops(4) that in auto)

section \<open>Updating the tables\<close>

text \<open>Moving owners between a table and a debt.\<close>

lemma refs_ok_swap:
  assumes "refs_ok rs bs ts xs A R X"
    and "\<And>i. bound_count bs' i + A' i = bound_count bs i + A i \<and> reserved_count ts' i + R' i = reserved_count ts i + R i
      \<and> transfer_count xs' i + X' i = transfer_count xs i + X i"
  shows "refs_ok rs bs' ts' xs' A' R' X'"
  using assms(1) unfolding refs_ok_def assms(2)[THEN conjunct1] assms(2)[THEN conjunct2, THEN conjunct1]
    assms(2)[THEN conjunct2, THEN conjunct2] .

definition tier_step :: "PhysicalRepresentation \<Rightarrow> PhysicalRepresentation \<Rightarrow> bool" where
  "tier_step r r' \<longleftrightarrow> same_shape r r' \<and> rc_active (rep_refs r') = rc_active (rep_refs r)
     \<and> rc_reservations (rep_refs r') = rc_reservations (rep_refs r)
     \<and> rc_transfers (rep_refs r') = rc_transfers (rep_refs r)
     \<and> (0 < rc_active (rep_refs r) \<longrightarrow> rep_device r \<longrightarrow> rep_device r')"

lemma core_reps:
  assumes core: "pm_core s A R X D" and ok: "hm_ok rs" and cap: "capacity_ok (pm_capacity s) rs"
    and rel: "\<And>i. rel_option tier_step (map_of (pm_representations s) i) (map_of rs i)"
  shows "pm_core (s\<lparr>pm_representations := rs\<rparr>) A R X D"
proof -
  let ?rs0 = "pm_representations s"
  have fwd: "\<exists>r'. map_of rs i = Some r' \<and> tier_step r r'" if "map_of ?rs0 i = Some r" for i r
    using rel[of i] that by (auto simp: option_rel_Some1)
  have bwd: "\<exists>r. map_of ?rs0 i = Some r \<and> tier_step r r'" if "map_of rs i = Some r'" for i r'
    using rel[of i] that by (auto simp: option_rel_Some2)
  have kept: "shapes_kept ?rs0 rs" using fwd by (fastforce simp: shapes_kept_def tier_step_def)
  have "reps_ok (pm_next_id s) rs"
    unfolding reps_ok_def
  proof (intro conjI allI impI)
    fix i r' assume "map_of rs i = Some r'"
    then obtain r where "map_of ?rs0 i = Some r" "tier_step r r'" using bwd by blast
    with core_refs[OF core this(1)] show "rep_id r' = i" "i < pm_next_id s"
      "0 < rc_active (rep_refs r') \<Longrightarrow> rep_device r'"
      by (auto simp: tier_step_def same_shape_def)
  qed (rule ok)
  moreover have "refs_ok rs (pm_bindings s) (pm_transitions s) (pm_transfers s) A R X"
    unfolding refs_ok_def
  proof
    fix i
    from core have *: "refs_ok ?rs0 (pm_bindings s) (pm_transitions s) (pm_transfers s) A R X" by (simp add: pm_core_def)
    show "case map_of rs i of
       None \<Rightarrow> bound_count (pm_bindings s) i + A i = 0 \<and> reserved_count (pm_transitions s) i + R i = 0
         \<and> transfer_count (pm_transfers s) i + X i = 0
     | Some r \<Rightarrow> rc_active (rep_refs r) = bound_count (pm_bindings s) i + A i
         \<and> rc_reservations (rep_refs r) = reserved_count (pm_transitions s) i + R i
         \<and> rc_transfers (rep_refs r) = transfer_count (pm_transfers s) i + X i"
      using *[unfolded refs_ok_def, rule_format, of i] rel[of i]
      by (cases "map_of ?rs0 i"; cases "map_of rs i") (simp_all add: tier_step_def)
  qed
  moreover have "bytes_ok rs (pm_transfers s)"
    unfolding bytes_ok_def
  proof (intro allI impI)
    fix x y r' assume y: "map_of (pm_transfers s) x = Some y" "\<not> xf_completed y"
      and "map_of rs (xf_representation y) = Some r'"
    then obtain r where "map_of ?rs0 (xf_representation y) = Some r" "tier_step r r'" using bwd by blast
    with core y show "xf_bytes y = rep_bytes r'"
      by (auto simp: pm_core_def bytes_ok_def tier_step_def same_shape_def)
  qed
  ultimately show ?thesis
    using core cap composites_ok_kept[OF kept] tables_ok_kept[OF kept] by (simp add: pm_core_def)
qed

lemma core_other [simp]:
  "pm_core (s\<lparr>pm_metrics := m\<rparr>) A R X D = pm_core s A R X D"
  "pm_core (s\<lparr>pm_events := e\<rparr>) A R X D = pm_core s A R X D"
  "pm_core (s\<lparr>pm_clock := c\<rparr>) A R X D = pm_core s A R X D"
  "pm_core (refresh_capacity_metrics s) A R X D = pm_core s A R X D"
  "pm_core (push_event v s) A R X D = pm_core s A R X D"
  by (simp_all add: pm_core_def refresh_capacity_metrics_def push_event_def)

lemma core_next_id: "pm_core s A R X D \<Longrightarrow> pm_next_id s \<le> n \<Longrightarrow> pm_core (s\<lparr>pm_next_id := n\<rparr>) A R X D"
  unfolding pm_core_def by (auto simp: reps_ok_def ids_below_def) (metis le_trans less_le_trans)+

lemma core_drop_table: "pm_core s A R X D \<Longrightarrow> pm_core (s\<lparr>pm_block_tables := hm_del c (pm_block_tables s)\<rparr>) A R X D"
  unfolding pm_core_def by (simp add: tables_ok_def)

lemma core_drop_binding:
  assumes core: "pm_core s no_debt R X D" and b: "map_of (pm_bindings s) c = Some b"
    and tab: "map_of (pm_block_tables s) c = None"
  shows "pm_core (s\<lparr>pm_bindings := hm_del c (pm_bindings s)\<rparr>) (count_list (ab_representations b)) R X D"
proof -
  from core have ok: "hm_ok (pm_bindings s)" by (simp add: pm_core_def)
  have cnt: "bound_count (pm_bindings s) i = count_list (ab_representations b) i + bound_count (hm_del c (pm_bindings s)) i" for i
    using hm_sum_del[OF ok b] by (simp add: bound_count_def)
  from core have "refs_ok (pm_representations s) (hm_del c (pm_bindings s)) (pm_transitions s) (pm_transfers s)
      (count_list (ab_representations b)) R X"
    by (simp add: pm_core_def refs_ok_def cnt add.commute cong: option.case_cong)
  moreover from core tab have "tables_ok (pm_representations s) (hm_del c (pm_bindings s)) (pm_block_tables s)"
    by (auto simp: pm_core_def tables_ok_def)
  moreover from core have "composites_ok (pm_representations s) (hm_del c (pm_bindings s)) (pm_transitions s)"
    by (simp add: pm_core_def composites_ok_def)
  ultimately show ?thesis using core ok by (simp add: pm_core_def)
qed

lemma core_put_binding:
  assumes core: "pm_core s (count_list (ab_representations b)) R X D" and c: "map_of (pm_bindings s) c = None"
    and comp: "composite (pm_representations s) (ab_mapping b) (ab_representations b)"
  shows "pm_core (s\<lparr>pm_bindings := hm_put c b (pm_bindings s)\<rparr>) no_debt R X D"
proof -
  from core have ok: "hm_ok (pm_bindings s)" by (simp add: pm_core_def)
  have cnt: "bound_count (hm_put c b (pm_bindings s)) i = bound_count (pm_bindings s) i + count_list (ab_representations b) i" for i
    using hm_sum_put_new[OF ok c] by (simp add: bound_count_def)
  from core have "refs_ok (pm_representations s) (hm_put c b (pm_bindings s)) (pm_transitions s) (pm_transfers s) no_debt R X"
    by (simp add: pm_core_def refs_ok_def cnt cong: option.case_cong)
  moreover from core c have "tables_ok (pm_representations s) (hm_put c b (pm_bindings s)) (pm_block_tables s)"
    by (auto simp: pm_core_def tables_ok_def) (metis option.distinct(1))
  moreover from core comp have "composites_ok (pm_representations s) (hm_put c b (pm_bindings s)) (pm_transitions s)"
    by (simp add: pm_core_def composites_ok_def)
  ultimately show ?thesis using core ok by (simp add: pm_core_def)
qed

lemma core_drop_transition:
  assumes core: "pm_core s A no_debt X no_debt" and t: "map_of (pm_transitions s) k = Some t"
  shows "pm_core (s\<lparr>pm_transitions := hm_del k (pm_transitions s)\<rparr>) A (count_list (pt_representations t)) X
    (count_list (pt_transfers t))"
proof -
  from core have ok: "hm_ok (pm_transitions s)" by (simp add: pm_core_def ids_below_def)
  have cnt: "reserved_count (pm_transitions s) i = reserved_count (hm_del k (pm_transitions s)) i + count_list (pt_representations t) i"
    "owner_count (pm_transitions s) i = owner_count (hm_del k (pm_transitions s)) i + count_list (pt_transfers t) i" for i
    using hm_sum_del[OF ok t] by (simp_all add: reserved_count_def owner_count_def)
  from core have "refs_ok (pm_representations s) (pm_bindings s) (hm_del k (pm_transitions s)) (pm_transfers s)
      A (count_list (pt_representations t)) X"
    by (simp add: pm_core_def refs_ok_def cnt cong: option.case_cong)
  moreover from core have "owners_ok (hm_del k (pm_transitions s)) (pm_transfers s) (count_list (pt_transfers t))"
    by (simp add: pm_core_def owners_ok_def cnt)
  moreover from core have "composites_ok (pm_representations s) (pm_bindings s) (hm_del k (pm_transitions s))"
    by (simp add: pm_core_def composites_ok_def)
  ultimately show ?thesis using core ok by (simp add: pm_core_def ids_below_def)
qed

lemma core_put_transition:
  assumes core: "pm_core s A (count_list (pt_representations t)) X (count_list (pt_transfers t))"
    and k: "map_of (pm_transitions s) k = None" "k < pm_next_id s"
    and comp: "composite (pm_representations s) (pt_mapping t) (pt_representations t)"
  shows "pm_core (s\<lparr>pm_transitions := hm_put k t (pm_transitions s)\<rparr>) A no_debt X no_debt"
proof -
  from core have ok: "hm_ok (pm_transitions s)" by (simp add: pm_core_def ids_below_def)
  have cnt: "reserved_count (hm_put k t (pm_transitions s)) i = reserved_count (pm_transitions s) i + count_list (pt_representations t) i"
    "owner_count (hm_put k t (pm_transitions s)) i = owner_count (pm_transitions s) i + count_list (pt_transfers t) i" for i
    using hm_sum_put_new[OF ok k(1)] by (simp_all add: reserved_count_def owner_count_def)
  from core have "refs_ok (pm_representations s) (pm_bindings s) (hm_put k t (pm_transitions s)) (pm_transfers s) A no_debt X"
    by (simp add: pm_core_def refs_ok_def cnt cong: option.case_cong)
  moreover from core have "owners_ok (hm_put k t (pm_transitions s)) (pm_transfers s) no_debt"
    by (simp add: pm_core_def owners_ok_def cnt)
  moreover from core comp have "composites_ok (pm_representations s) (pm_bindings s) (hm_put k t (pm_transitions s))"
    by (simp add: pm_core_def composites_ok_def)
  moreover from core k have "ids_below (pm_next_id s) (hm_put k t (pm_transitions s)) (pm_transfers s) (pm_growth s)"
    by (auto simp: pm_core_def ids_below_def)
  ultimately show ?thesis using core ok by (simp add: pm_core_def)
qed

lemma hm_sum_fold_del:
  "hm_ok m \<Longrightarrow> \<forall>k\<in>set ks. \<forall>v. map_of m k = Some v \<longrightarrow> f v = 0 \<Longrightarrow> hm_sum f (fold hm_del ks m) = hm_sum f m"
proof (induction ks arbitrary: m)
  case Nil
  then show ?case by simp
next
  case (Cons k ks)
  have "hm_sum f (hm_del k m) = hm_sum f m"
    using Cons.prems by (cases "map_of m k") (auto simp: hm_del_absent hm_sum_del[of m k _ f])
  moreover have "hm_sum f (fold hm_del ks (hm_del k m)) = hm_sum f (hm_del k m)"
    using Cons.prems by (intro Cons.IH) auto
  ultimately show ?case by simp
qed

lemma core_owner:
  assumes "pm_core s A R X D" and "0 < owner_count (pm_transitions s) x + D x"
  shows "\<exists>y. map_of (pm_transfers s) x = Some y \<and> \<not> xf_detached y \<and> owner_count (pm_transitions s) x + D x = 1"
proof -
  from assms(1) have "owner_count (pm_transitions s) x + D x =
      (case map_of (pm_transfers s) x of None \<Rightarrow> 0 | Some y \<Rightarrow> if xf_detached y then 0 else 1)"
    by (simp add: pm_core_def owners_ok_def)
  with assms(2) show ?thesis by (auto split: option.splits if_splits)
qed

lemma core_remove_transfers:
  assumes core: "pm_core s A R X (count_list ts)"
    and comp: "\<forall>x\<in>set ts. \<forall>y. map_of (pm_transfers s) x = Some y \<longrightarrow> xf_completed y"
  shows "pm_core (remove_transfers ts s) A R X no_debt"
proof -
  let ?xs = "pm_transfers s" and ?xs' = "fold hm_del ts (pm_transfers s)"
  from core have ok: "hm_ok ?xs" by (simp add: pm_core_def ids_below_def)
  have cnt: "transfer_count ?xs' i = transfer_count ?xs i" for i
    unfolding transfer_count_def using comp by (intro hm_sum_fold_del[OF ok]) auto
  have own: "owner_count (pm_transitions s) x + 0 =
       (case map_of ?xs' x of None \<Rightarrow> 0 | Some y \<Rightarrow> if xf_detached y then 0 else 1)" for x
  proof (cases "x \<in> set ts")
    case True
    then have "0 < count_list ts x" using count_list_pos[of ts x] by simp
    with core_owner[OF core, of x] have "owner_count (pm_transitions s) x = 0" by auto
    with True show ?thesis by (simp add: fold_hm_del)
  next
    case False
    moreover from core have "owner_count (pm_transitions s) x + count_list ts x =
      (case map_of ?xs x of None \<Rightarrow> 0 | Some y \<Rightarrow> if xf_detached y then 0 else 1)"
      by (simp add: pm_core_def owners_ok_def)
    ultimately show ?thesis by (simp add: fold_hm_del)
  qed
  have "owners_ok (pm_transitions s) ?xs' no_debt"
    unfolding owners_ok_def using own core by (auto simp: fold_hm_del pm_core_def owners_ok_def)
  moreover have "refs_ok (pm_representations s) (pm_bindings s) (pm_transitions s) ?xs' A R X"
    using core by (simp add: pm_core_def refs_ok_def cnt cong: option.case_cong)
  moreover have "bytes_ok (pm_representations s) ?xs'"
    using core by (auto simp: pm_core_def bytes_ok_def fold_hm_del)
  moreover have "ids_below (pm_next_id s) (pm_transitions s) ?xs' (pm_growth s)"
    using core by (simp add: pm_core_def ids_below_def fold_hm_del)
  ultimately show ?thesis using core by (simp add: pm_core_def remove_transfers_def)
qed

text \<open>Dropping or detaching one transfer of an aborted transition.\<close>

lemma core_drop_transfer:
  assumes core: "pm_core s A R X D" and x: "map_of (pm_transfers s) k = Some y" "xf_completed y"
    and D: "\<forall>z. D z = D' z + (if z = k \<and> \<not> xf_detached y then 1 else 0)"
  shows "pm_core (s\<lparr>pm_transfers := hm_del k (pm_transfers s)\<rparr>) A R X D'"
proof -
  let ?xs = "pm_transfers s" and ?xs' = "hm_del k (pm_transfers s)"
  from core have ok: "hm_ok ?xs" by (simp add: pm_core_def ids_below_def)
  have cnt: "transfer_count ?xs' i = transfer_count ?xs i" for i
    using hm_sum_del[OF ok x(1)] x(2) by (simp add: transfer_count_def)
  have own0: "owner_count (pm_transitions s) z + D z =
      (case map_of ?xs z of None \<Rightarrow> 0 | Some y \<Rightarrow> if xf_detached y then 0 else 1)" for z
    using core by (simp add: pm_core_def owners_ok_def)
  have own: "owner_count (pm_transitions s) z + D' z =
       (case map_of ?xs' z of None \<Rightarrow> 0 | Some y \<Rightarrow> if xf_detached y then 0 else 1)" for z
    using own0[of z] D x(1) by (cases "z = k") (auto split: if_splits)
  have "owners_ok (pm_transitions s) ?xs' D'"
    unfolding owners_ok_def using own core by (auto simp: pm_core_def owners_ok_def)
  moreover have "refs_ok (pm_representations s) (pm_bindings s) (pm_transitions s) ?xs' A R X"
    using core by (simp add: pm_core_def refs_ok_def cnt cong: option.case_cong)
  moreover have "bytes_ok (pm_representations s) ?xs'" using core by (auto simp: pm_core_def bytes_ok_def)
  moreover have "ids_below (pm_next_id s) (pm_transitions s) ?xs' (pm_growth s)"
    using core by (simp add: pm_core_def ids_below_def)
  ultimately show ?thesis using core by (simp add: pm_core_def)
qed

lemma core_detach_transfer:
  assumes core: "pm_core s A R X D" and x: "map_of (pm_transfers s) k = Some y" "\<not> xf_completed y"
    and D: "\<forall>z. D z = D' z + (if z = k then 1 else 0)"
  shows "pm_core (s\<lparr>pm_transfers := hm_put k (y\<lparr>xf_detached := True\<rparr>) (pm_transfers s)\<rparr>) A R X D'"
proof -
  let ?xs = "pm_transfers s" and ?xs' = "hm_put k (y\<lparr>xf_detached := True\<rparr>) (pm_transfers s)"
  from core have ok: "hm_ok ?xs" and below: "k < pm_next_id s"
    using x(1) by (auto simp: pm_core_def ids_below_def not_le[symmetric])
  have cnt: "transfer_count ?xs' i = transfer_count ?xs i" for i
    unfolding transfer_count_def by (rule hm_sum_put_same[OF ok x(1)]) simp
  have own0: "owner_count (pm_transitions s) z + D z =
      (case map_of ?xs z of None \<Rightarrow> 0 | Some y \<Rightarrow> if xf_detached y then 0 else 1)" for z
    using core by (simp add: pm_core_def owners_ok_def)
  have own: "owner_count (pm_transitions s) z + D' z =
       (case map_of ?xs' z of None \<Rightarrow> 0 | Some y \<Rightarrow> if xf_detached y then 0 else 1)" for z
    using own0[of z] D x(1) by (cases "z = k") (auto split: if_splits)
  have "owners_ok (pm_transitions s) ?xs' D'"
    unfolding owners_ok_def using own core x(2) by (auto simp: pm_core_def owners_ok_def)
  moreover have "refs_ok (pm_representations s) (pm_bindings s) (pm_transitions s) ?xs' A R X"
    using core by (simp add: pm_core_def refs_ok_def cnt cong: option.case_cong)
  moreover have "bytes_ok (pm_representations s) ?xs'" using core x by (auto simp: pm_core_def bytes_ok_def)
  moreover have "ids_below (pm_next_id s) (pm_transitions s) ?xs' (pm_growth s)"
    using core below by (auto simp: pm_core_def ids_below_def)
  ultimately show ?thesis using core by (simp add: pm_core_def)
qed

lemma core_detach_transfers:
  "pm_core s A R X (count_list ts) \<Longrightarrow>
     \<exists>m. detach_transfers ts (pm_transfers s) = Some m \<and> pm_core (s\<lparr>pm_transfers := m\<rparr>) A R X no_debt"
proof (induction ts arbitrary: s)
  case Nil
  then have "pm_core s A R X no_debt" by (simp add: pm_core_def)
  moreover have "s\<lparr>pm_transfers := pm_transfers s\<rparr> = s" by simp
  ultimately show ?case by (metis detach_transfers.simps(1))
next
  case (Cons k ts)
  have "0 < owner_count (pm_transitions s) k + count_list (k # ts) k" by simp
  from core_owner[OF Cons.prems this] obtain y where y: "map_of (pm_transfers s) k = Some y" and "\<not> xf_detached y" by blast
  then have D: "\<forall>z. count_list (k # ts) z = count_list ts z + (if z = k then 1 else 0)"
    "\<forall>z. count_list (k # ts) z = count_list ts z + (if z = k \<and> \<not> xf_detached y then 1 else 0)" by simp_all
  show ?case
  proof (cases "xf_completed y")
    case True
    from Cons.IH[OF core_drop_transfer[OF Cons.prems y True D(2)]] y True show ?thesis by simp
  next
    case False
    from Cons.IH[OF core_detach_transfer[OF Cons.prems y False D(1)]] y False show ?thesis by simp
  qed
qed

text \<open>A new transfer, and the end of one.\<close>

lemma core_put_transfer:
  assumes core: "pm_core s A R X D" and k: "map_of (pm_transfers s) k = None" "k < pm_next_id s"
    and x: "\<not> xf_completed y" "\<not> xf_detached y"
    and bytes: "\<forall>r. map_of (pm_representations s) (xf_representation y) = Some r \<longrightarrow> xf_bytes y = rep_bytes r"
    and X: "\<forall>z. X z = X' z + (if z = xf_representation y then 1 else 0)"
    and D: "\<forall>z. D' z = D z + (if z = k then 1 else 0)"
  shows "pm_core (s\<lparr>pm_transfers := hm_put k y (pm_transfers s)\<rparr>) A R X' D'"
proof -
  let ?xs = "pm_transfers s" and ?xs' = "hm_put k y (pm_transfers s)"
  from core have ok: "hm_ok ?xs" by (simp add: pm_core_def ids_below_def)
  have cnt: "transfer_count ?xs' i = transfer_count ?xs i + (if i = xf_representation y then 1 else 0)" for i
    using hm_sum_put_new[OF ok k(1)] x(1) by (auto simp: transfer_count_def)
  have own0: "owner_count (pm_transitions s) z + D z =
      (case map_of ?xs z of None \<Rightarrow> 0 | Some y \<Rightarrow> if xf_detached y then 0 else 1)" for z
    using core by (simp add: pm_core_def owners_ok_def)
  have own: "owner_count (pm_transitions s) z + D' z =
       (case map_of ?xs' z of None \<Rightarrow> 0 | Some y \<Rightarrow> if xf_detached y then 0 else 1)" for z
    using own0[of z] D k(1) x(2) by (cases "z = k") auto
  have "owners_ok (pm_transitions s) ?xs' D'"
    unfolding owners_ok_def using own core x by (auto simp: pm_core_def owners_ok_def)
  moreover have "refs_ok (pm_representations s) (pm_bindings s) (pm_transitions s) ?xs' A R X'"
    by (rule refs_ok_swap[where xs = ?xs and A = A and R = R and X = X]) (use core X in \<open>auto simp: pm_core_def cnt\<close>)
  moreover have "bytes_ok (pm_representations s) ?xs'" using core bytes by (auto simp: pm_core_def bytes_ok_def)
  moreover have "ids_below (pm_next_id s) (pm_transitions s) ?xs' (pm_growth s)"
    using core k by (auto simp: pm_core_def ids_below_def)
  ultimately show ?thesis using core by (simp add: pm_core_def)
qed

lemma core_finish_transfer:
  assumes core: "pm_core s A R no_debt D" and k: "map_of (pm_transfers s) k = Some y" "\<not> xf_completed y"
  shows "pm_core (s\<lparr>pm_transfers := hm_put k (y\<lparr>xf_completed := True, xf_success := b\<rparr>) (pm_transfers s)\<rparr>) A R
    (count_list [xf_representation y]) D"
proof -
  let ?xs = "pm_transfers s" and ?y = "y\<lparr>xf_completed := True, xf_success := b\<rparr>"
  let ?xs' = "hm_put k ?y ?xs"
  from core have ok: "hm_ok ?xs" and below: "k < pm_next_id s"
    using k(1) by (auto simp: pm_core_def ids_below_def not_le[symmetric])
  have cnt: "transfer_count ?xs i = transfer_count ?xs' i + count_list [xf_representation y] i" for i
    using hm_sum_put_old[OF ok k(1), of "\<lambda>x. if xf_representation x = i \<and> \<not> xf_completed x then 1 else 0" ?y] k(2)
    by (auto simp: transfer_count_def)
  have "owners_ok (pm_transitions s) ?xs' D"
    using core k by (auto simp: pm_core_def owners_ok_def split: option.splits)
  moreover have "refs_ok (pm_representations s) (pm_bindings s) (pm_transitions s) ?xs' A R (count_list [xf_representation y])"
    by (rule refs_ok_swap[where xs = ?xs and A = A and R = R and X = no_debt]) (use core in \<open>auto simp: pm_core_def cnt\<close>)
  moreover have "bytes_ok (pm_representations s) ?xs'" using core by (auto simp: pm_core_def bytes_ok_def)
  moreover have "ids_below (pm_next_id s) (pm_transitions s) ?xs' (pm_growth s)"
    using core below by (auto simp: pm_core_def ids_below_def)
  ultimately show ?thesis using core by (simp add: pm_core_def)
qed

section \<open>Eviction\<close>

text \<open>What making room on the device may do: drop device copies nobody protects.\<close>

definition evict_step :: "PhysicalRepresentation \<Rightarrow> PhysicalRepresentation \<Rightarrow> bool" where
  "evict_step r r' \<longleftrightarrow> r' = r \<or> (\<not> protected (rep_refs r) \<and> r' = r\<lparr>rep_device := False\<rparr>)"

definition made_room :: "PhysicalManager \<Rightarrow> PhysicalManager \<Rightarrow> bool" where
  "made_room s s' \<longleftrightarrow> (\<exists>rs m e. s' = s\<lparr>pm_representations := rs, pm_metrics := m, pm_events := e\<rparr>)
     \<and> (\<forall>i. rel_option evict_step (map_of (pm_representations s) i) (map_of (pm_representations s') i))
     \<and> (hm_ok (pm_representations s) \<longrightarrow> hm_ok (pm_representations s'))
     \<and> device_bytes (pm_representations s') \<le> device_bytes (pm_representations s)
     \<and> host_bytes (pm_representations s') \<le> host_bytes (pm_representations s)
     \<and> (metrics_synced s \<longrightarrow> metrics_synced s')"

lemma evict_step_refl [simp]: "evict_step r r"
  by (simp add: evict_step_def)

lemma evict_step_trans: "evict_step a b \<Longrightarrow> evict_step b c \<Longrightarrow> evict_step a c"
  by (auto simp: evict_step_def)

lemma rel_option_evict_trans:
  "rel_option evict_step a b \<Longrightarrow> rel_option evict_step b c \<Longrightarrow> rel_option evict_step a c"
  by (cases a; cases b; cases c) (auto intro: evict_step_trans)

lemma made_room_refl [simp]: "made_room s s"
proof -
  have "s = s\<lparr>pm_representations := pm_representations s, pm_metrics := pm_metrics s, pm_events := pm_events s\<rparr>" by simp
  moreover have "rel_option evict_step x x" for x by (cases x) auto
  ultimately show ?thesis unfolding made_room_def by blast
qed

lemma made_room_fields:
  "made_room s s' \<Longrightarrow> pm_next_id s' = pm_next_id s \<and> pm_clock s' = pm_clock s \<and> pm_bindings s' = pm_bindings s
     \<and> pm_transitions s' = pm_transitions s \<and> pm_transfers s' = pm_transfers s \<and> pm_growth s' = pm_growth s
     \<and> pm_block_tables s' = pm_block_tables s \<and> pm_capacity s' = pm_capacity s"
  by (auto simp: made_room_def)

lemma made_room_trans: "made_room a b \<Longrightarrow> made_room b c \<Longrightarrow> made_room a c"
proof -
  assume ab: "made_room a b" and bc: "made_room b c"
  have "\<exists>rs m e. c = a\<lparr>pm_representations := rs, pm_metrics := m, pm_events := e\<rparr>"
  proof -
    from ab obtain rs m e where "b = a\<lparr>pm_representations := rs, pm_metrics := m, pm_events := e\<rparr>"
      by (auto simp: made_room_def)
    moreover from bc obtain rs' m' e' where "c = b\<lparr>pm_representations := rs', pm_metrics := m', pm_events := e'\<rparr>"
      by (auto simp: made_room_def)
    ultimately have "c = a\<lparr>pm_representations := rs', pm_metrics := m', pm_events := e'\<rparr>" by simp
    then show ?thesis by blast
  qed
  moreover have "rel_option evict_step (map_of (pm_representations a) i) (map_of (pm_representations c) i)" for i
    using ab bc rel_option_evict_trans unfolding made_room_def by blast
  moreover have *: "(hm_ok (pm_representations x) \<longrightarrow> hm_ok (pm_representations y))
      \<and> device_bytes (pm_representations y) \<le> device_bytes (pm_representations x)
      \<and> host_bytes (pm_representations y) \<le> host_bytes (pm_representations x)
      \<and> (metrics_synced x \<longrightarrow> metrics_synced y)" if "made_room x y" for x y
    using that unfolding made_room_def by blast
  ultimately show ?thesis using *[OF ab] *[OF bc] le_trans unfolding made_room_def by blast
qed

lemma metrics_refresh [simp]: "metrics_synced (refresh_capacity_metrics s)"
  by (simp add: metrics_synced_def refresh_capacity_metrics_def protected_device_bytes_def growth_bytes_def
      transition_bytes_def detached_transfer_reserved_bytes_def warm_bytes_def host_used_def)

lemma made_room_core:
  assumes core: "pm_core s A R X D" and room: "made_room s s'"
  shows "pm_core s' A R X D"
proof -
  from room obtain rs m e where s': "s' = s\<lparr>pm_representations := rs, pm_metrics := m, pm_events := e\<rparr>"
    by (auto simp: made_room_def)
  from core have ok: "hm_ok (pm_representations s)" and cap: "capacity_ok (pm_capacity s) (pm_representations s)"
    by (simp_all add: pm_core_def reps_ok_def)
  have rel: "rel_option tier_step (map_of (pm_representations s) i) (map_of rs i)" for i
  proof -
    from room have "rel_option evict_step (map_of (pm_representations s) i) (map_of rs i)"
      by (simp add: made_room_def s')
    moreover have "evict_step r r' \<Longrightarrow> tier_step r r'" for r r'
      by (auto simp: evict_step_def tier_step_def same_shape_def protected_def)
    ultimately show ?thesis by (metis option.rel_mono_strong)
  qed
  from room ok cap have "hm_ok rs" "capacity_ok (pm_capacity s) rs"
    by (auto simp: made_room_def s' capacity_ok_def)
  from core_reps[OF core this rel] have "pm_core (s\<lparr>pm_representations := rs\<rparr>) A R X D" .
  then show ?thesis unfolding s' by simp
qed

lemma capacity_exact:
  "capacity_ok cap (pm_representations s) \<Longrightarrow> device_used s = device_bytes (pm_representations s)"
  "capacity_ok cap (pm_representations s) \<Longrightarrow> host_used s = host_bytes (pm_representations s)"
  unfolding device_used_def host_used_def device_bytes_def host_bytes_def capacity_ok_def
  by (subst wrapping_sum_exact; auto simp: hm_sum_filter u64_max_def)+

text \<open>The candidate is the least unprotected device copy in the eviction order.\<close>

lemma eviction_candidate_spec:
  assumes ok: "reps_ok n (pm_representations s)" and c: "eviction_candidate s = Some c"
  shows "\<exists>r. map_of (pm_representations s) c = Some r \<and> rep_device r \<and> \<not> protected (rep_refs r)
     \<and> (\<forall>j r'. map_of (pm_representations s) j = Some r' \<longrightarrow> rep_device r' \<longrightarrow> \<not> protected (rep_refs r')
          \<longrightarrow> eviction_key r \<le> eviction_key r')"
proof -
  let ?rs = "pm_representations s" and ?P = "\<lambda>r. rep_device r \<and> \<not> protected (rep_refs r)"
  from ok have hm: "hm_ok ?rs" by (simp add: reps_ok_def)
  from c obtain r where r: "min_by_key eviction_key (filter ?P (hm_values ?rs)) = Some r" "rep_id r = c"
    by (auto simp: eviction_candidate_def)
  from min_by_key_in[OF r(1)] have "r \<in> set (hm_values ?rs)" "?P r" by auto
  then obtain k where "map_of ?rs k = Some r" using hm_values_iff[OF hm] by blast
  with ok r(2) have get: "map_of ?rs c = Some r" by (auto simp: reps_ok_def)
  have "eviction_key r \<le> eviction_key r'" if "map_of ?rs j = Some r'" "?P r'" for j r'
  proof (rule min_by_key_le[OF r(1)])
    have "r' \<in> set (hm_values ?rs)" using that(1) hm_values_iff[OF hm] by blast
    with that(2) show "r' \<in> set (filter ?P (hm_values ?rs))" by simp
  qed
  with get \<open>?P r\<close> show ?thesis by blast
qed

lemma no_candidate:
  assumes "hm_ok (pm_representations s)"
  shows "eviction_candidate s = None \<longleftrightarrow>
    (\<forall>i r. map_of (pm_representations s) i = Some r \<longrightarrow> rep_device r \<longrightarrow> protected (rep_refs r))"
  unfolding eviction_candidate_def by (force simp: filter_empty_conv hm_get_in_iff[OF assms])

lemma evict_device_effect:
  assumes ok: "hm_ok (pm_representations s)" and r: "map_of (pm_representations s) i = Some r" "rep_device r"
    and free: "\<not> protected (rep_refs r)"
  shows "snd (evict i Device s) = Ok ()" and "made_room s (fst (evict i Device s))"
    and "device_copies (fst (evict i Device s)) < device_copies s"
    and "map_of (pm_representations (fst (evict i Device s))) = (map_of (pm_representations s))(i \<mapsto> r\<lparr>rep_device := False\<rparr>)"
proof -
  let ?r = "r\<lparr>rep_device := False\<rparr>" and ?rs = "pm_representations s"
  have ev: "evict i Device s = (refresh_capacity_metrics (push_event (Evicted i Device (rep_bytes r))
      ((put_rep i ?r s)\<lparr>pm_metrics := (pm_metrics s)\<lparr>evictions := evictions (pm_metrics s) + 1\<rparr>\<rparr>)), Ok ())"
    using r free by (simp add: evict_def put_rep_def Let_def)
  then show "snd (evict i Device s) = Ok ()" by simp
  have rs': "pm_representations (fst (evict i Device s)) = hm_put i ?r ?rs"
    by (simp add: ev refresh_capacity_metrics_def push_event_def put_rep_def)
  then show "map_of (pm_representations (fst (evict i Device s))) = (map_of ?rs)(i \<mapsto> ?r)" by simp
  have cnt: "device_copies s' = hm_sum (\<lambda>r. if rep_device r then 1 else 0) (pm_representations s')" for s'
    unfolding device_copies_def using hm_sum_filter[of "\<lambda>_. 1" rep_device "pm_representations s'"]
    by (simp add: sum_list_triv)
  from hm_sum_put_old[OF ok r(1), of "\<lambda>r. if rep_device r then 1 else 0" ?r] r(2)
  show "device_copies (fst (evict i Device s)) < device_copies s" by (simp add: cnt rs')
  have "device_bytes (hm_put i ?r ?rs) \<le> device_bytes ?rs" "host_bytes (hm_put i ?r ?rs) \<le> host_bytes ?rs"
    unfolding device_bytes_def host_bytes_def by (rule hm.total_replace_mono[OF ok r(1)]; simp)+
  moreover have "rel_option evict_step (map_of ?rs j) (map_of (hm_put i ?r ?rs) j)" for j
    using r free by (cases "map_of ?rs j") (auto simp: evict_step_def)
  moreover have "fst (evict i Device s) = s\<lparr>pm_representations := hm_put i ?r ?rs,
      pm_metrics := pm_metrics (fst (evict i Device s)), pm_events := pm_events (fst (evict i Device s))\<rparr>"
    by (simp add: ev refresh_capacity_metrics_def push_event_def put_rep_def)
  moreover have "metrics_synced (fst (evict i Device s))" by (simp add: ev)
  ultimately show "made_room s (fst (evict i Device s))"
    unfolding made_room_def rs' using ok by (metis hm_ok_put)
qed

text \<open>Making room ends, changes nothing else, and fails only when no unprotected copy is left.\<close>

lemma ensure_device_space_spec:
  "pm_core s A R X D \<Longrightarrow> runs False (ensure_device_space n s)
     (\<lambda>_ s'. made_room s s' \<and> device_fits n s')
     (\<lambda>e s'. made_room s s' \<and> \<not> device_fits n s' \<and> eviction_candidate s' = None \<and> e = DeviceCapacity)"
proof (induction n s rule: ensure_device_space.induct)
  case (1 n s)
  from "1.prems" have ok: "reps_ok (pm_next_id s) (pm_representations s)" by (simp add: pm_core_def)
  show ?case
  proof (cases "device_fits n s")
    case True
    then show ?thesis by (simp add: ensure_device_space.simps[of n s])
  next
    case fits: False
    show ?thesis
    proof (cases "eviction_candidate s")
      case None
      with fits show ?thesis by (simp add: ensure_device_space.simps[of n s])
    next
      case (Some c)
      from eviction_candidate_spec[OF ok Some] obtain r where r: "map_of (pm_representations s) c = Some r"
        "rep_device r" "\<not> protected (rep_refs r)" by blast
      from ok have "hm_ok (pm_representations s)" by (simp add: reps_ok_def)
      note ev = evict_device_effect[OF this r]
      let ?s = "fst (evict c Device s)"
      from "1.IH"[OF fits Some refl ev(1) ev(3) made_room_core[OF "1.prems" ev(2)]]
      have "runs False (ensure_device_space n ?s) (\<lambda>_ s'. made_room ?s s' \<and> device_fits n s')
         (\<lambda>e s'. made_room ?s s' \<and> \<not> device_fits n s' \<and> eviction_candidate s' = None \<and> e = DeviceCapacity)" .
      then have "runs False (ensure_device_space n ?s) (\<lambda>_ s'. made_room s s' \<and> device_fits n s')
         (\<lambda>e s'. made_room s s' \<and> \<not> device_fits n s' \<and> eviction_candidate s' = None \<and> e = DeviceCapacity)"
        by (rule runs_mono) (use made_room_trans[OF ev(2)] in blast)+
      then show ?thesis using fits Some ev(1) ev(3) by (simp add: ensure_device_space.simps[of n s] Let_def)
    qed
  qed
qed

section \<open>The operations preserve the invariant\<close>

lemma metrics_synced_iff:
  "metrics_synced s \<longleftrightarrow> device_active (pm_metrics s) = protected_device_bytes s
     \<and> device_growth_reserved (pm_metrics s) = growth_bytes s
     \<and> device_transition_reserved (pm_metrics s) = transition_bytes s
     \<and> device_detached_transfer_reserved (pm_metrics s) = detached_transfer_reserved_bytes s
     \<and> device_warm (pm_metrics s) = warm_bytes s \<and> metric_host_used (pm_metrics s) = host_used s"
proof
  assume "metrics_synced s"
  then have "pm_metrics (refresh_capacity_metrics s) = pm_metrics s" by (simp add: metrics_synced_def)
  then show "device_active (pm_metrics s) = protected_device_bytes s
     \<and> device_growth_reserved (pm_metrics s) = growth_bytes s
     \<and> device_transition_reserved (pm_metrics s) = transition_bytes s
     \<and> device_detached_transfer_reserved (pm_metrics s) = detached_transfer_reserved_bytes s
     \<and> device_warm (pm_metrics s) = warm_bytes s \<and> metric_host_used (pm_metrics s) = host_used s"
    unfolding refresh_capacity_metrics_def by (cases "pm_metrics s") simp
next
  assume "device_active (pm_metrics s) = protected_device_bytes s
     \<and> device_growth_reserved (pm_metrics s) = growth_bytes s
     \<and> device_transition_reserved (pm_metrics s) = transition_bytes s
     \<and> device_detached_transfer_reserved (pm_metrics s) = detached_transfer_reserved_bytes s
     \<and> device_warm (pm_metrics s) = warm_bytes s \<and> metric_host_used (pm_metrics s) = host_used s"
  then show "metrics_synced s"
    by (simp add: metrics_synced_def refresh_capacity_metrics_def)
qed

lemma synced_other [simp]:
  "metrics_synced (s\<lparr>pm_next_id := n\<rparr>) = metrics_synced s"
  "metrics_synced (s\<lparr>pm_clock := n\<rparr>) = metrics_synced s"
  "metrics_synced (s\<lparr>pm_block_tables := b\<rparr>) = metrics_synced s"
  "metrics_synced (s\<lparr>pm_bindings := bs\<rparr>) = metrics_synced s"
  "metrics_synced (s\<lparr>pm_events := es\<rparr>) = metrics_synced s"
  "metrics_synced (s\<lparr>pm_metrics := m\<lparr>mapped_publications := p\<rparr>\<rparr>) = metrics_synced (s\<lparr>pm_metrics := m\<rparr>)"
  by (simp_all add: metrics_synced_iff device_used_def host_used_def protected_device_bytes_def growth_bytes_def
      transition_bytes_def detached_transfer_reserved_bytes_def warm_bytes_def)

lemma refresh_fields [simp]:
  "pm_representations (refresh_capacity_metrics s) = pm_representations s"
  "pm_bindings (refresh_capacity_metrics s) = pm_bindings s"
  "pm_transitions (refresh_capacity_metrics s) = pm_transitions s"
  "pm_transfers (refresh_capacity_metrics s) = pm_transfers s"
  "pm_growth (refresh_capacity_metrics s) = pm_growth s"
  "pm_block_tables (refresh_capacity_metrics s) = pm_block_tables s"
  "pm_next_id (refresh_capacity_metrics s) = pm_next_id s"
  "pm_clock (refresh_capacity_metrics s) = pm_clock s"
  "pm_capacity (refresh_capacity_metrics s) = pm_capacity s"
  "pm_events (refresh_capacity_metrics s) = pm_events s"
  by (simp_all add: refresh_capacity_metrics_def)

lemma push_event_fields [simp]:
  "pm_representations (push_event e s) = pm_representations s"
  "pm_bindings (push_event e s) = pm_bindings s"
  "pm_transitions (push_event e s) = pm_transitions s"
  "pm_transfers (push_event e s) = pm_transfers s"
  "pm_growth (push_event e s) = pm_growth s"
  "pm_block_tables (push_event e s) = pm_block_tables s"
  "pm_next_id (push_event e s) = pm_next_id s"
  "pm_clock (push_event e s) = pm_clock s"
  "pm_capacity (push_event e s) = pm_capacity s"
  "pm_metrics (push_event e s) = pm_metrics s"
  by (simp_all add: push_event_def)

lemma pm_inv_core: "pm_inv s \<Longrightarrow> pm_core s no_debt no_debt no_debt no_debt"
  by (simp add: pm_inv_def)

lemma pm_inv_refresh:
  "pm_core s no_debt no_debt no_debt no_debt \<Longrightarrow> detached_ok (pm_transfers s) \<Longrightarrow> pm_inv (refresh_capacity_metrics s)"
  by (simp add: pm_inv_def)

lemma made_room_inv: "pm_inv s \<Longrightarrow> made_room s s' \<Longrightarrow> pm_inv s'"
  unfolding pm_inv_def using made_room_core made_room_fields unfolding made_room_def by metis

lemma pm_inv_next_id: "pm_inv s \<Longrightarrow> pm_next_id s \<le> n \<Longrightarrow> pm_inv (s\<lparr>pm_next_id := n\<rparr>)"
  by (simp add: pm_inv_def core_next_id)

lemma take_id_bind:
  "(u64_max < pm_next_id s + 1 \<longrightarrow> b) \<Longrightarrow>
   (pm_next_id s + 1 \<le> u64_max \<Longrightarrow> runs b (f (pm_next_id s) (s\<lparr>pm_next_id := pm_next_id s + 1\<rparr>)) Q E) \<Longrightarrow>
     runs b (and_then (pm_take_id s) f) Q E"
  by (auto simp: pm_take_id_def checked_add_def and_then_def)

lemma tick_bind:
  "(u64_max < pm_clock s + 1 \<longrightarrow> b) \<Longrightarrow>
   (pm_clock s + 1 \<le> u64_max \<Longrightarrow> runs b (f (pm_clock s + 1) (s\<lparr>pm_clock := pm_clock s + 1\<rparr>)) Q E) \<Longrightarrow>
     runs b (and_then (pm_tick s) f) Q E"
  by (auto simp: pm_tick_def checked_add_def and_then_def)

lemma runs_weaken: "runs False r Q E \<Longrightarrow> runs b r Q E"
  by (auto simp: runs_def split: outcome.splits)

lemma ensure_device_capacity_spec:
  assumes inv: "pm_inv s"
  shows "runs False (ensure_device_capacity n s)
     (\<lambda>_ s'. made_room s s' \<and> pm_inv s' \<and> device_fits n s') (\<lambda>_ s'. made_room s s' \<and> pm_inv s')"
proof -
  have "runs False (ensure_device_space n s)
     (\<lambda>_ s'. made_room s s' \<and> pm_inv s' \<and> device_fits n s') (\<lambda>_ s'. made_room s s' \<and> pm_inv s')"
    by (rule runs_mono[OF ensure_device_space_spec[OF pm_inv_core[OF inv]]])
      (use made_room_inv[OF inv] in blast)+
  then show ?thesis using inv
    by (simp add: ensure_device_capacity_def Let_def split: option.split)
qed

lemma device_fits_bytes:
  assumes "capacity_ok (pm_capacity s) (pm_representations s)" and "device_fits n s"
  shows "device_bytes (pm_representations s) + n \<le> cap_device_bytes (pm_capacity s)"
  using assms(2) capacity_exact(1)[OF assms(1)]
  by (auto simp: device_fits_def checked_add_def split: option.splits if_splits)

lemma core_capacity: "pm_core s A R X D \<Longrightarrow> capacity_ok (pm_capacity s) (pm_representations s)"
  by (simp add: pm_core_def)

text \<open>A new representation under a fresh id.\<close>

lemma core_new_rep:
  assumes core: "pm_core s A R X D" and i: "i < n" "pm_next_id s \<le> i" and id: "rep_id r = i"
    and refs: "rc_active (rep_refs r) = 0" "rc_reservations (rep_refs r) = 0" "rc_transfers (rep_refs r) = 0"
    and dev: "rep_device r \<longrightarrow> device_bytes (pm_representations s) + rep_bytes r \<le> cap_device_bytes (pm_capacity s)"
    and host: "rep_host r \<longrightarrow> host_bytes (pm_representations s) + rep_bytes r \<le> cap_host_bytes (pm_capacity s)"
  shows "pm_core (put_rep i r (s\<lparr>pm_next_id := n\<rparr>)) A R X D"
proof -
  let ?rs = "pm_representations s" and ?rs' = "hm_put i r (pm_representations s)"
  from core have ok: "hm_ok ?rs" by (simp add: pm_core_def reps_ok_def)
  have new: "map_of ?rs i = None" using core_refs[OF core] i(2) by (metis not_le option.exhaust)
  note none = core_refs_none[OF core new]
  have kept: "shapes_kept ?rs ?rs'" using new by (auto simp: shapes_kept_def)
  have "capacity_ok (pm_capacity s) ?rs'"
    using core_capacity[OF core] dev host
    by (auto simp: capacity_ok_def device_bytes_def host_bytes_def hm_sum_put_new[OF ok new] add.commute)
  moreover have "reps_ok n ?rs'"
    unfolding reps_ok_def
  proof (intro conjI allI impI)
    fix j q assume q: "map_of ?rs' j = Some q"
    from i core_refs[OF core, of j q] q id show "rep_id q = j" "j < n"
      by (auto split: if_splits)
    assume "0 < rc_active (rep_refs q)"
    with core_refs[OF core, of j q] q refs show "rep_device q" by (auto split: if_splits)
  qed (simp add: ok)
  moreover have "refs_ok ?rs' (pm_bindings s) (pm_transitions s) (pm_transfers s) A R X"
    using core none refs by (simp add: pm_core_def refs_ok_def)
  moreover have "bytes_ok ?rs' (pm_transfers s)"
  proof -
    have "xf_representation y \<noteq> i" if y: "map_of (pm_transfers s) x = Some y" "\<not> xf_completed y" for x y
    proof
      assume "xf_representation y = i"
      moreover from core have xs: "hm_ok (pm_transfers s)" by (simp add: pm_core_def ids_below_def)
      ultimately have "0 < transfer_count (pm_transfers s) i"
        unfolding transfer_count_def hm_sum_pos_iff[OF xs] using y by auto
      with none show False by simp
    qed
    with core show ?thesis by (auto simp: pm_core_def bytes_ok_def)
  qed
  ultimately show ?thesis
    using core i composites_ok_kept[OF kept] tables_ok_kept[OF kept]
    by (auto simp: pm_core_def put_rep_def ids_below_def)
qed

lemma host_fits:
  assumes inv: "pm_inv s"
  shows "runs False (ensure_host_capacity n s)
     (\<lambda>_ s'. s' = s \<and> host_bytes (pm_representations s) + n \<le> cap_host_bytes (pm_capacity s)) (\<lambda>_ s'. s' = s)"
  using capacity_exact(2)[OF core_capacity[OF pm_inv_core[OF inv]]]
  by (auto simp: ensure_host_capacity_def checked_add_def)

lemma device_room_bytes:
  assumes "pm_inv s" and "device_fits n s"
  shows "device_bytes (pm_representations s) + n \<le> cap_device_bytes (pm_capacity s)"
  using device_fits_bytes[OF core_capacity[OF pm_inv_core[OF assms(1)]] assms(2)] .

lemma pm_register_spec:
  assumes inv: "pm_inv s" and b: "u64_max < pm_next_id s + 1 \<or> u64_max < pm_clock s + 1 \<longrightarrow> b"
  shows "runs b (pm_register m c e n tier u s) (\<lambda>_. pm_inv) (\<lambda>_. pm_inv)"
  unfolding pm_register_def
proof (rule runs_and_then)
  let ?G = "\<lambda>s'. pm_inv s' \<and> pm_next_id s' = pm_next_id s \<and> pm_clock s' = pm_clock s
    \<and> (tier = Device \<longrightarrow> device_bytes (pm_representations s') + n \<le> cap_device_bytes (pm_capacity s'))
    \<and> (tier = Host \<longrightarrow> host_bytes (pm_representations s') + n \<le> cap_host_bytes (pm_capacity s'))"
  show "runs b (case tier of Device \<Rightarrow> ensure_device_capacity n s | Host \<Rightarrow> ensure_host_capacity n s
      | Storage \<Rightarrow> (s, Ok ())) (\<lambda>_. ?G) (\<lambda>_. pm_inv)"
  proof (cases tier)
    case Device
    have "runs False (ensure_device_capacity n s) (\<lambda>_. ?G) (\<lambda>_. pm_inv)"
      by (rule runs_mono[OF ensure_device_capacity_spec[OF inv]])
        (simp_all add: Device made_room_fields device_room_bytes del: One_nat_def)
    with Device show ?thesis by (simp add: runs_weaken)
  next
    case Host
    have "runs False (ensure_host_capacity n s) (\<lambda>_. ?G) (\<lambda>_. pm_inv)"
      by (rule runs_mono[OF host_fits[OF inv]]) (use Host inv in auto)
    with Host show ?thesis by (simp add: runs_weaken)
  next
    case Storage
    with inv show ?thesis by simp
  qed
  fix a s1 assume s1: "?G s1"
  show "runs b (and_then (pm_take_id s1) (\<lambda>i s. and_then (pm_tick s) (\<lambda>t s.
      (refresh_capacity_metrics (push_event (Registered i tier n)
        (put_rep i (new_representation i m c e n tier t u) s)), Ok i)))) (\<lambda>_. pm_inv) (\<lambda>_. pm_inv)"
  proof (intro take_id_bind tick_bind)
    let ?i = "pm_next_id s1"
    let ?s = "s1\<lparr>pm_next_id := ?i + 1\<rparr>"
    let ?r = "\<lambda>t. new_representation ?i m c e n tier t u"
    have "pm_core (put_rep ?i (?r t) ?s) no_debt no_debt no_debt no_debt" for t
      by (rule core_new_rep[OF pm_inv_core]) (use s1 in \<open>auto simp: new_representation_def\<close>)
    moreover have "put_rep ?i (?r t) (?s\<lparr>pm_clock := k\<rparr>) = (put_rep ?i (?r t) ?s)\<lparr>pm_clock := k\<rparr>" for t k
      by (simp add: put_rep_def)
    ultimately have "pm_core (put_rep ?i (?r t) (?s\<lparr>pm_clock := k\<rparr>)) no_debt no_debt no_debt no_debt" for t k
      by (simp only: core_other)
    moreover have "detached_ok (pm_transfers (put_rep ?i (?r t) (?s\<lparr>pm_clock := k\<rparr>)))" for t k
      using s1 by (simp add: pm_inv_def put_rep_def)
    ultimately show "runs b (refresh_capacity_metrics (push_event (Registered ?i tier n)
        (put_rep ?i (?r (pm_clock ?s + 1)) (?s\<lparr>pm_clock := pm_clock ?s + 1\<rparr>))), Ok ?i) (\<lambda>_. pm_inv) (\<lambda>_. pm_inv)"
      by (simp only: runs_simps) (rule pm_inv_refresh; simp only: core_other push_event_fields)
  qed (use b s1 in auto)
qed

text \<open>Moving one representation between tiers.\<close>

lemma core_put_rep:
  assumes core: "pm_core s A R X D" and r: "map_of (pm_representations s) i = Some r" and step: "tier_step r r'"
    and dev: "rep_device r' \<Longrightarrow> \<not> rep_device r \<Longrightarrow>
      device_bytes (pm_representations s) + rep_bytes r \<le> cap_device_bytes (pm_capacity s)"
    and host: "rep_host r' \<Longrightarrow> \<not> rep_host r \<Longrightarrow>
      host_bytes (pm_representations s) + rep_bytes r \<le> cap_host_bytes (pm_capacity s)"
  shows "pm_core (put_rep i r' s) A R X D"
proof -
  let ?rs = "pm_representations s"
  from core have ok: "hm_ok ?rs" by (simp add: pm_core_def reps_ok_def)
  have bytes: "rep_bytes r' = rep_bytes r" using step by (simp add: tier_step_def same_shape_def)
  have cap: "capacity_ok (pm_capacity s) (hm_put i r' ?rs)"
    using core_capacity[OF core] dev host bytes
      hm_sum_put_old[OF ok r, of "\<lambda>r. if rep_device r then rep_bytes r else 0" r']
      hm_sum_put_old[OF ok r, of "\<lambda>r. if rep_host r then rep_bytes r else 0" r']
    by (auto simp: capacity_ok_def device_bytes_def host_bytes_def split: if_splits)
  have "tier_step x x" for x by (simp add: tier_step_def)
  then have "rel_option tier_step (map_of ?rs j) (map_of (hm_put i r' ?rs) j)" for j
    using r step by (cases "map_of ?rs j") auto
  from core_reps[OF core _ cap this] ok show ?thesis by (simp add: put_rep_def)
qed

lemma composite_del:
  assumes "composite rs m ids" and "i \<notin> set ids"
  shows "composite (hm_del i rs) m ids"
proof -
  have *: "map_of (hm_del i rs) j = map_of rs j" if "j \<in> set ids" for j using that assms(2) by auto
  have "map (\<lambda>j. map_option rep_component (map_of (hm_del i rs) j)) ids
      = map (\<lambda>j. map_option rep_component (map_of rs j)) ids"
    by (intro map_cong refl) (simp only: *)
  moreover have "(\<forall>j\<in>set ids. \<exists>r. map_of (hm_del i rs) j = Some r \<and> rep_mapping r = m \<and> rep_end r = e)
      \<longleftrightarrow> (\<forall>j\<in>set ids. \<exists>r. map_of rs j = Some r \<and> rep_mapping r = m \<and> rep_end r = e)" for e
    by (intro ball_cong refl) (simp only: *)
  ultimately show ?thesis using assms(1) unfolding composite_def by (simp only:)
qed

lemma core_drop_rep:
  assumes core: "pm_core s no_debt no_debt no_debt D" and r: "map_of (pm_representations s) i = Some r"
    and free: "\<not> protected (rep_refs r)"
  shows "pm_core (s\<lparr>pm_representations := hm_del i (pm_representations s)\<rparr>) no_debt no_debt no_debt D"
proof -
  let ?rs = "pm_representations s" and ?rs' = "hm_del i (pm_representations s)"
  from core have ok: "hm_ok ?rs" "hm_ok (pm_bindings s)" "hm_ok (pm_transitions s)"
    by (simp_all add: pm_core_def reps_ok_def ids_below_def)
  from core_refs[OF core r] free have zero: "bound_count (pm_bindings s) i = 0"
    "reserved_count (pm_transitions s) i = 0" "transfer_count (pm_transfers s) i = 0"
    by (simp_all add: protected_def)
  have nb: "i \<notin> set (ab_representations b)" if "map_of (pm_bindings s) c = Some b" for c b
    using zero(1) that unfolding bound_count_def hm_sum_zero_iff[OF ok(2)] by (auto simp: count_list_0_iff)
  have nt: "i \<notin> set (pt_representations t)" if "map_of (pm_transitions s) c = Some t" for c t
    using zero(2) that unfolding reserved_count_def hm_sum_zero_iff[OF ok(3)] by (auto simp: count_list_0_iff)
  have "composites_ok ?rs' (pm_bindings s) (pm_transitions s)"
    using core composite_del nb nt unfolding pm_core_def composites_ok_def by blast
  moreover have "tables_ok ?rs' (pm_bindings s) (pm_block_tables s)"
    unfolding tables_ok_def
  proof (intro allI impI)
    fix c tb assume "map_of (pm_block_tables s) c = Some tb"
    with core obtain b where b: "map_of (pm_bindings s) c = Some b" "table_matches ?rs b tb"
      by (auto simp: pm_core_def tables_ok_def)
    from b(2) have all2: "list_all2 (\<lambda>i blk. block_of ?rs i = Some blk) (ab_representations b) (dt_blocks tb)"
      by (simp add: table_matches_def)
    have "list_all2 (\<lambda>i blk. block_of ?rs' i = Some blk) (ab_representations b) (dt_blocks tb)"
    proof (rule list.rel_mono_strong[OF all2])
      fix j blk assume "j \<in> set (ab_representations b)" "block_of ?rs j = Some blk"
      moreover from this nb[OF b(1)] have "j \<noteq> i" by blast
      ultimately show "block_of ?rs' j = Some blk" by (simp add: block_of_def)
    qed
    with b show "\<exists>b. map_of (pm_bindings s) c = Some b \<and> table_matches ?rs' b tb"
      by (auto simp: table_matches_def)
  qed
  moreover have "capacity_ok (pm_capacity s) ?rs'"
    using core_capacity[OF core] hm.total_drop_mono[OF ok(1) r, of "\<lambda>r. if rep_device r then rep_bytes r else 0"]
      hm.total_drop_mono[OF ok(1) r, of "\<lambda>r. if rep_host r then rep_bytes r else 0"]
    by (auto simp: capacity_ok_def device_bytes_def host_bytes_def)
  moreover have "refs_ok ?rs' (pm_bindings s) (pm_transitions s) (pm_transfers s) no_debt no_debt no_debt"
    using core zero by (simp add: pm_core_def refs_ok_def)
  moreover have "reps_ok (pm_next_id s) ?rs'" using core by (auto simp: pm_core_def reps_ok_def)
  moreover have "bytes_ok ?rs' (pm_transfers s)" using core by (auto simp: pm_core_def bytes_ok_def)
  ultimately show ?thesis using core by (simp add: pm_core_def)
qed

lemma release_logical_reference_spec:
  assumes inv: "pm_inv s"
  shows "runs False (release_logical_reference i s) (\<lambda>_. pm_inv) (\<lambda>_. pm_inv)"
proof (cases "map_of (pm_representations s) i")
  case None
  with inv show ?thesis by (simp add: release_logical_reference_def)
next
  case (Some r)
  note core = pm_inv_core[OF inv]
  let ?r = "r\<lparr>rep_refs := (rep_refs r)\<lparr>rc_logical := rc_logical (rep_refs r) - 1\<rparr>\<rparr>"
  have prot: "protected (rep_refs ?r) = protected (rep_refs r)" by (simp add: protected_def)
  have "pm_core (put_rep i ?r s) no_debt no_debt no_debt no_debt"
    by (rule core_put_rep[OF core Some]) (simp_all add: tier_step_def same_shape_def)
  moreover have "detached_ok (pm_transfers s)" using inv by (simp add: pm_inv_def)
  ultimately show ?thesis
    using Some core_drop_rep[OF core Some] prot
    by (simp add: release_logical_reference_def Let_def pm_inv_refresh put_rep_def)
qed

lemma reserve_growth_spec:
  assumes inv: "pm_inv s" and b: "u64_max < pm_next_id s + 1 \<longrightarrow> b"
  shows "runs b (reserve_growth n s) (\<lambda>_. pm_inv) (\<lambda>_. pm_inv)"
  unfolding reserve_growth_def
proof (rule runs_and_then[OF runs_weaken[OF runs_mono[OF ensure_device_capacity_spec[OF inv]]]])
  fix a s1 assume "made_room s s1 \<and> pm_inv s1 \<and> device_fits n s1"
  then have s1: "pm_inv s1" "pm_next_id s1 = pm_next_id s" by (simp_all add: made_room_fields)
  show "runs b (and_then (pm_take_id s1) (\<lambda>i s. (refresh_capacity_metrics (s\<lparr>pm_growth := hm_put i n (pm_growth s)\<rparr>), Ok i)))
     (\<lambda>_. pm_inv) (\<lambda>_. pm_inv)"
  proof (rule take_id_bind)
    show "u64_max < pm_next_id s1 + 1 \<longrightarrow> b" using s1 b by simp
    from core_next_id[OF pm_inv_core[OF s1(1)], of "pm_next_id s1 + 1"]
    have "pm_core (s1\<lparr>pm_next_id := pm_next_id s1 + 1, pm_growth := hm_put (pm_next_id s1) n (pm_growth s1)\<rparr>)
      no_debt no_debt no_debt no_debt"
      by (auto simp: pm_core_def ids_below_def)
    then show "runs b (refresh_capacity_metrics
        (s1\<lparr>pm_next_id := pm_next_id s1 + 1, pm_growth := hm_put (pm_next_id s1) n (pm_growth (s1\<lparr>pm_next_id := pm_next_id s1 + 1\<rparr>))\<rparr>),
        Ok (pm_next_id s1)) (\<lambda>_. pm_inv) (\<lambda>_. pm_inv)"
      using s1(1) by (simp add: pm_inv_refresh pm_inv_def[of s1])
  qed
qed simp_all

lemma release_growth_spec:
  assumes inv: "pm_inv s"
  shows "runs False (release_growth i s) (\<lambda>_. pm_inv) (\<lambda>_. pm_inv)"
proof -
  have "pm_core (s\<lparr>pm_growth := hm_del i (pm_growth s)\<rparr>) no_debt no_debt no_debt no_debt"
    using pm_inv_core[OF inv] by (simp add: pm_core_def ids_below_def)
  with inv show ?thesis by (simp add: release_growth_def pm_inv_refresh pm_inv_def[of s])
qed

lemma evict_spec:
  assumes inv: "pm_inv s"
  shows "runs False (evict i tier s) (\<lambda>_. pm_inv) (\<lambda>_. pm_inv)"
proof (cases "map_of (pm_representations s) i")
  case None
  with inv show ?thesis by (simp add: evict_def)
next
  case (Some r)
  note core = pm_inv_core[OF inv]
  have det: "detached_ok (pm_transfers s)" using inv by (simp add: pm_inv_def)
  have drop: "pm_inv (refresh_capacity_metrics (push_event e ((put_rep i r' s)\<lparr>pm_metrics := m\<rparr>)))"
    if "\<not> protected (rep_refs r)" "tier_step r r'" "rep_device r' \<longrightarrow> rep_device r" "rep_host r' \<longrightarrow> rep_host r" for r' e m
  proof (rule pm_inv_refresh)
    from that have "pm_core (put_rep i r' s) no_debt no_debt no_debt no_debt"
      by (intro core_put_rep[OF core Some]) auto
    then show "pm_core (push_event e ((put_rep i r' s)\<lparr>pm_metrics := m\<rparr>)) no_debt no_debt no_debt no_debt" by simp
    show "detached_ok (pm_transfers (push_event e ((put_rep i r' s)\<lparr>pm_metrics := m\<rparr>)))"
      using det by (simp add: put_rep_def)
  qed
  have steps: "tier_step r (r\<lparr>rep_device := False\<rparr>)" "tier_step r (r\<lparr>rep_host := False\<rparr>)"
    "tier_step r (r\<lparr>rep_storage := False\<rparr>)" if "\<not> protected (rep_refs r)"
    using that by (simp_all add: tier_step_def same_shape_def protected_def)
  show ?thesis
    using Some inv drop steps
    by (cases tier) (simp_all add: evict_def Let_def put_rep_def)
qed

lemma demote_to_host_spec:
  assumes inv: "pm_inv s"
  shows "runs False (demote_to_host i s) (\<lambda>_. pm_inv) (\<lambda>_. pm_inv)"
proof (cases "map_of (pm_representations s) i")
  case None
  with inv show ?thesis by (simp add: demote_to_host_def)
next
  case (Some r)
  note core = pm_inv_core[OF inv]
  let ?r = "r\<lparr>rep_host := True, rep_device := False\<rparr>"
  show ?thesis
  proof (cases "protected (rep_refs r)")
    case True
    with Some inv show ?thesis by (simp add: demote_to_host_def)
  next
    case free: False
    let ?fits = "\<lambda>s'. s' = s \<and> (\<not> rep_host r \<longrightarrow>
      host_bytes (pm_representations s) + rep_bytes r \<le> cap_host_bytes (pm_capacity s))"
    have pre: "runs False (if \<not> rep_host r then ensure_host_capacity (rep_bytes r) s else (s, Ok ())) (\<lambda>_. ?fits) (\<lambda>_. pm_inv)"
    proof (cases "rep_host r")
      case False
      have "runs False (ensure_host_capacity (rep_bytes r) s) (\<lambda>_. ?fits) (\<lambda>_. pm_inv)"
        by (rule runs_mono[OF host_fits[OF inv]]) (use inv in auto)
      with False show ?thesis by simp
    qed (use inv in simp)
    have core': "pm_core (put_rep i ?r s) no_debt no_debt no_debt no_debt" if "?fits s"
      by (rule core_put_rep[OF core Some]) (use that free in \<open>auto simp: tier_step_def same_shape_def protected_def\<close>)
    have "pm_inv (refresh_capacity_metrics (push_event e ((put_rep i ?r s)\<lparr>pm_metrics := m\<rparr>)))"
      "pm_inv (refresh_capacity_metrics (put_rep i ?r s))" if "?fits s" for e m
      using core'[OF that] inv by (simp_all add: pm_inv_refresh put_rep_def pm_inv_def[of s])
    then show ?thesis
      unfolding demote_to_host_def Some option.case if_not_P[OF free]
      by (intro runs_and_then[OF pre]) (auto simp: Let_def put_rep_def)
  qed
qed

lemma demote_to_storage_spec:
  assumes inv: "pm_inv s"
  shows "runs False (demote_to_storage i s) (\<lambda>_. pm_inv) (\<lambda>_. pm_inv)"
proof (cases "map_of (pm_representations s) i")
  case None
  with inv show ?thesis by (simp add: demote_to_storage_def)
next
  case (Some r)
  let ?r = "r\<lparr>rep_storage := True, rep_host := False, rep_device := False\<rparr>"
  show ?thesis
  proof (cases "protected (rep_refs r)")
    case True
    with Some inv show ?thesis by (simp add: demote_to_storage_def)
  next
    case free: False
    have "pm_core (put_rep i ?r s) no_debt no_debt no_debt no_debt"
      by (rule core_put_rep[OF pm_inv_core[OF inv] Some])
        (use free in \<open>auto simp: tier_step_def same_shape_def protected_def\<close>)
    then have "pm_inv (refresh_capacity_metrics (push_event e ((put_rep i ?r s)\<lparr>pm_metrics := m\<rparr>)))"
      "pm_inv (refresh_capacity_metrics (put_rep i ?r s))" for e m
      using inv by (simp_all add: pm_inv_refresh put_rep_def pm_inv_def[of s])
    then show ?thesis using Some free by (simp add: demote_to_storage_def Let_def put_rep_def)
  qed
qed

subsection \<open>Bindings and block tables\<close>

lemma unbind_spec:
  assumes inv: "pm_inv s"
  shows "runs False (unbind c s) (\<lambda>_. pm_inv) (\<lambda>_. pm_inv)"
proof (cases "map_of (pm_bindings s) c")
  case None
  with inv show ?thesis by (simp add: unbind_def)
next
  case (Some b)
  let ?s = "s\<lparr>pm_block_tables := hm_del c (pm_block_tables s)\<rparr>"
  have "pm_core (?s\<lparr>pm_bindings := hm_del c (pm_bindings ?s)\<rparr>) (count_list (ab_representations b)) no_debt no_debt no_debt"
    by (rule core_drop_binding[OF core_drop_table[OF pm_inv_core[OF inv]]]) (simp_all add: Some)
  moreover have "?s\<lparr>pm_bindings := hm_del c (pm_bindings ?s)\<rparr>
      = s\<lparr>pm_bindings := hm_del c (pm_bindings s), pm_block_tables := hm_del c (pm_block_tables s)\<rparr>"
    by simp
  ultimately have "pm_core (s\<lparr>pm_bindings := hm_del c (pm_bindings s), pm_block_tables := hm_del c (pm_block_tables s)\<rparr>)
      (count_list (ab_representations b)) no_debt no_debt no_debt"
    by (simp only:)
  from pay_active[OF this] obtain rs where "for_reps dec_active (ab_representations b)
        (s\<lparr>pm_bindings := hm_del c (pm_bindings s), pm_block_tables := hm_del c (pm_block_tables s)\<rparr>)
      = (s\<lparr>pm_bindings := hm_del c (pm_bindings s), pm_block_tables := hm_del c (pm_block_tables s), pm_representations := rs\<rparr>, Ok ())"
    "pm_core (s\<lparr>pm_bindings := hm_del c (pm_bindings s), pm_block_tables := hm_del c (pm_block_tables s), pm_representations := rs\<rparr>)
      no_debt no_debt no_debt no_debt"
    by blast
  with Some inv show ?thesis by (simp add: unbind_def pm_inv_refresh pm_inv_def[of s])
qed

lemma release_binding_eq: "release_binding c s = unbind c s"
  by (simp add: release_binding_def unbind_def)

lemma blocks_of_Ok:
  "blocks_of rs err ids = Ok bs \<Longrightarrow> list_all2 (\<lambda>i blk. block_of rs i = Some blk) ids bs
     \<and> (\<forall>i\<in>set ids. \<exists>r. map_of rs i = Some r \<and> rep_device r)"
  by (induction ids arbitrary: bs) (auto simp: block_of_def split: option.splits if_splits outcome.splits)

lemma blocks_of_defined: "\<forall>i\<in>set ids. map_of rs i \<noteq> None \<Longrightarrow> blocks_of rs err ids \<noteq> Abort"
  by (induction ids) (auto split: outcome.splits if_splits)

lemma blocks_of_Err: "blocks_of rs err ids = Err e \<Longrightarrow> e = err"
  by (induction ids) (auto split: option.splits if_splits outcome.splits)

lemma core_put_table:
  assumes "pm_core s A R X D" and "map_of (pm_bindings s) c = Some b" and "table_matches (pm_representations s) b tb"
  shows "pm_core (s\<lparr>pm_block_tables := hm_put c tb (pm_block_tables s)\<rparr>) A R X D"
  using assms by (auto simp: pm_core_def tables_ok_def)

lemma core_composites:
  assumes "pm_core s A R X D"
  shows "map_of (pm_bindings s) c = Some b \<Longrightarrow> composite (pm_representations s) (ab_mapping b) (ab_representations b)"
    and "map_of (pm_transitions s) k = Some t \<Longrightarrow> composite (pm_representations s) (pt_mapping t) (pt_representations t)"
  using assms by (auto simp: pm_core_def composites_ok_def)

lemma composite_exists: "composite rs m ids \<Longrightarrow> \<forall>i\<in>set ids. map_of rs i \<noteq> None"
  by (fastforce simp: composite_def)

lemma publish_spec:
  assumes inv: "pm_inv s" and b: "u64_max < pm_next_id s + 1 \<longrightarrow> b"
  shows "runs b (publish_device_block_table c k x s) (\<lambda>_. pm_inv) (\<lambda>_. pm_inv)"
proof (cases "map_of (pm_bindings s) c")
  case None
  with inv show ?thesis by (simp add: publish_device_block_table_def)
next
  case (Some active)
  note core = pm_inv_core[OF inv]
  let ?rs = "pm_representations s"
  show ?thesis
  proof (cases "blocks_of ?rs InvalidComposite (ab_representations active)")
    case (Err e)
    with Some inv show ?thesis by (simp add: publish_device_block_table_def)
  next
    case Abort
    with blocks_of_defined[OF composite_exists[OF core_composites(1)[OF core Some]]] show ?thesis by blast
  next
    case (Ok blocks)
    let ?tb = "\<lparr>dt_id = pm_next_id s, dt_binding = k, dt_mapping = ab_mapping active,
      dt_executor_mapping = x, dt_blocks = blocks\<rparr>"
    let ?s = "s\<lparr>pm_next_id := pm_next_id s + 1\<rparr>"
    have "pm_core (?s\<lparr>pm_block_tables := hm_put c ?tb (pm_block_tables ?s)\<rparr>) no_debt no_debt no_debt no_debt"
      if "ab_id active = k"
      by (rule core_put_table[OF core_next_id[OF core]])
        (use Some that blocks_of_Ok[OF Ok] in \<open>auto simp: table_matches_def\<close>)
    then have "pm_inv (s\<lparr>pm_next_id := pm_next_id s + 1, pm_block_tables := hm_put c ?tb (pm_block_tables s),
        pm_metrics := (pm_metrics s)\<lparr>mapped_publications := p\<rparr>\<rparr>)" if "ab_id active = k" for p
      using that inv by (simp add: pm_inv_def metrics_synced_iff device_used_def host_used_def protected_device_bytes_def
          growth_bytes_def transition_bytes_def detached_transfer_reserved_bytes_def warm_bytes_def)
    with Some Ok inv b show ?thesis
      by (auto simp: publish_device_block_table_def intro!: take_id_bind)
  qed
qed

subsection \<open>Transfers and recomputation\<close>

lemma made_room_get:
  assumes "made_room s s'" and "map_of (pm_representations s) i = Some r"
  shows "\<exists>r'. map_of (pm_representations s') i = Some r' \<and> evict_step r r'"
proof -
  from assms(1) have "rel_option evict_step (map_of (pm_representations s) i) (map_of (pm_representations s') i)"
    by (simp add: made_room_def)
  with assms(2) show ?thesis by (auto simp: option_rel_Some1)
qed

lemma made_room_shapes: "made_room s s' \<Longrightarrow> shapes_kept (pm_representations s) (pm_representations s')"
  unfolding shapes_kept_def using made_room_get by (fastforce simp: evict_step_def same_shape_def)

text \<open>Bringing a protected representation to the device.\<close>

lemma promote_spec:
  assumes inv: "pm_inv s" and r: "map_of (pm_representations s) i = Some r" and prot: "protected (rep_refs r)"
  shows "runs False (ensure_device_space (rep_bytes r) s)
     (\<lambda>_ s'. made_room s s' \<and> map_of (pm_representations s') i = Some r
        \<and> pm_core (put_rep i (r\<lparr>rep_device := True\<rparr>) s') no_debt no_debt no_debt no_debt)
     (\<lambda>_. pm_inv)"
proof (rule runs_mono[OF ensure_device_space_spec[OF pm_inv_core[OF inv]]])
  fix s' assume s': "made_room s s' \<and> device_fits (rep_bytes r) s'"
  then have inv': "pm_inv s'" using made_room_inv[OF inv] by blast
  from made_room_get[OF conjunct1[OF s'] r] prot have r': "map_of (pm_representations s') i = Some r"
    by (auto simp: evict_step_def)
  have "pm_core (put_rep i (r\<lparr>rep_device := True\<rparr>) s') no_debt no_debt no_debt no_debt"
    by (rule core_put_rep[OF pm_inv_core[OF inv'] r'])
      (use device_room_bytes[OF inv'] s' in \<open>auto simp: tier_step_def same_shape_def\<close>)
  with s' r' show "made_room s s' \<and> map_of (pm_representations s') i = Some r
     \<and> pm_core (put_rep i (r\<lparr>rep_device := True\<rparr>) s') no_debt no_debt no_debt no_debt" by blast
qed (use made_room_inv[OF inv] in blast)

lemma live_transfer:
  assumes inv: "pm_inv s" and x: "map_of (pm_transfers s) k = Some x" "\<not> xf_completed x"
  shows "\<exists>r. map_of (pm_representations s) (xf_representation x) = Some r \<and> xf_bytes x = rep_bytes r
     \<and> protected (rep_refs r)"
proof -
  note core = pm_inv_core[OF inv]
  from core have ok: "hm_ok (pm_transfers s)" by (simp add: pm_core_def ids_below_def)
  have pos: "0 < transfer_count (pm_transfers s) (xf_representation x)"
    unfolding transfer_count_def hm_sum_pos_iff[OF ok] using x by auto
  then obtain r where r: "map_of (pm_representations s) (xf_representation x) = Some r"
    using core_refs_none[OF core] by fastforce
  moreover from core x r have "xf_bytes x = rep_bytes r" by (auto simp: pm_core_def bytes_ok_def)
  moreover from core_refs[OF core r] pos have "protected (rep_refs r)" by (simp add: protected_def)
  ultimately show ?thesis by blast
qed

lemma finish_transfer_spec:
  assumes core: "pm_core s no_debt no_debt no_debt no_debt" and det: "detached_ok (pm_transfers s)"
    and x: "map_of (pm_transfers s) k = Some x" "\<not> xf_completed x"
  shows "runs False
     (let s1 = s\<lparr>pm_transfers := hm_put k (x\<lparr>xf_completed := True, xf_success := ok\<rparr>) (pm_transfers s)\<rparr> in
      and_then (for_reps dec_transfers [xf_representation x] s1) (\<lambda>_ s.
       (let s2 = refresh_capacity_metrics (push_event (TransferCompleted k (xf_bytes x) ok) s)
        in (if xf_detached x then s2\<lparr>pm_transfers := hm_del k (pm_transfers s2)\<rparr> else s2, Ok ()))))
     (\<lambda>_. pm_inv) (\<lambda>_. pm_inv)"
proof -
  let ?x = "x\<lparr>xf_completed := True, xf_success := ok\<rparr>"
  let ?s1 = "s\<lparr>pm_transfers := hm_put k ?x (pm_transfers s)\<rparr>"
  from pay_transfers[OF core_finish_transfer[OF core x]] obtain rs where
    loop: "for_reps dec_transfers [xf_representation x] ?s1 = (?s1\<lparr>pm_representations := rs\<rparr>, Ok ())"
    and core2: "pm_core (?s1\<lparr>pm_representations := rs\<rparr>) no_debt no_debt no_debt no_debt" by blast
  let ?s2 = "?s1\<lparr>pm_representations := rs\<rparr>"
  have fin: "pm_inv (refresh_capacity_metrics (push_event e ?s2))" if "\<not> xf_detached x" for e
    by (rule pm_inv_refresh) (use core2 det that in \<open>auto simp: detached_ok_def\<close>)
  have gone: "pm_inv (s3\<lparr>pm_transfers := hm_del k (pm_transfers s3)\<rparr>)"
    if d: "xf_detached x" and s3: "s3 = refresh_capacity_metrics (push_event e ?s2)" for e s3
  proof -
    have "pm_core s3 no_debt no_debt no_debt no_debt" "map_of (pm_transfers s3) k = Some ?x"
      using core2 by (simp_all add: s3)
    from core_drop_transfer[OF this, of no_debt] d
    have c: "pm_core (s3\<lparr>pm_transfers := hm_del k (pm_transfers s3)\<rparr>) no_debt no_debt no_debt no_debt" by simp
    have ok: "hm_ok (pm_transfers s3)" using core2 by (simp add: s3 pm_core_def ids_below_def)
    have "detached_transfer_reserved_bytes (s3\<lparr>pm_transfers := hm_del k (pm_transfers s3)\<rparr>)
        = detached_transfer_reserved_bytes s3"
      using hm_sum_del[OF ok, of k ?x "\<lambda>x. if xf_detached x \<and> \<not> xf_completed x then xf_bytes x else 0"]
        \<open>map_of (pm_transfers s3) k = Some ?x\<close>
      by (simp add: detached_transfer_reserved_bytes_def wrapping_sum_mod hm_sum_filter)
    moreover have "metrics_synced s3" by (simp add: s3)
    ultimately have "metrics_synced (s3\<lparr>pm_transfers := hm_del k (pm_transfers s3)\<rparr>)"
      unfolding metrics_synced_iff by (simp add: device_used_def host_used_def protected_device_bytes_def
          growth_bytes_def transition_bytes_def warm_bytes_def)
    moreover have "detached_ok (pm_transfers (s3\<lparr>pm_transfers := hm_del k (pm_transfers s3)\<rparr>))"
      using det by (auto simp: s3 detached_ok_def)
    ultimately show ?thesis using c by (simp add: pm_inv_def)
  qed
  show ?thesis using loop fin gone[OF _ refl] by (simp add: Let_def)
qed

lemma complete_transfer_spec:
  assumes inv: "pm_inv s"
  shows "runs False (complete_transfer k ok s) (\<lambda>_. pm_inv) (\<lambda>_. pm_inv)"
proof (cases "map_of (pm_transfers s) k")
  case None
  with inv show ?thesis by (simp add: complete_transfer_def)
next
  case x: (Some x)
  show ?thesis
  proof (cases "xf_completed x")
    case True
    with x inv show ?thesis by (simp add: complete_transfer_def)
  next
    case live: False
    from live_transfer[OF inv x live] obtain r where r: "map_of (pm_representations s) (xf_representation x) = Some r"
      and bytes: "xf_bytes x = rep_bytes r" and prot: "protected (rep_refs r)" by blast
    let ?i = "xf_representation x"
    let ?G = "\<lambda>s'. pm_core s' no_debt no_debt no_debt no_debt \<and> pm_transfers s' = pm_transfers s"
    have G: "?G s" using pm_inv_core[OF inv] by simp
    have last: "runs False
       (let s1 = s'\<lparr>pm_transfers := hm_put k (x\<lparr>xf_completed := True, xf_success := ok\<rparr>) (pm_transfers s')\<rparr> in
        and_then (for_reps dec_transfers [?i] s1) (\<lambda>_ s.
         (let s2 = refresh_capacity_metrics (push_event (TransferCompleted k (xf_bytes x) ok) s)
          in (if xf_detached x then s2\<lparr>pm_transfers := hm_del k (pm_transfers s2)\<rparr> else s2, Ok ()))))
       (\<lambda>_. pm_inv) (\<lambda>_. pm_inv)" if "?G s'" for s'
      by (rule finish_transfer_spec) (use that inv x live in \<open>auto simp: pm_inv_def\<close>)
    have promote: "runs False (and_then (ensure_device_space (xf_bytes x) s) (\<lambda>_ s.
         (case map_of (pm_representations s) ?i of
            None \<Rightarrow> (s, Abort)
          | Some r \<Rightarrow>
              (let s1 = put_rep ?i (r\<lparr>rep_device := True\<rparr>) s;
                   s2 = s1\<lparr>pm_metrics := (pm_metrics s1)\<lparr>promotions := promotions (pm_metrics s1) + 1\<rparr>\<rparr>
               in (push_event (Promoted ?i (xf_bytes x)) s2, Ok ()))))) (\<lambda>_. ?G) (\<lambda>_. pm_inv)"
      unfolding bytes
      by (rule runs_and_then[OF promote_spec[OF inv r prot]])
        (auto simp: Let_def put_rep_def made_room_fields)
    show ?thesis
      unfolding complete_transfer_def x option.case if_not_P[OF live]
    proof (rule runs_and_then[OF _ last])
      show "runs False (if ok then (case map_of (pm_representations s) ?i of
            None \<Rightarrow> (s, Abort)
          | Some r \<Rightarrow> and_then
              (if \<not> rep_device r then and_then (ensure_device_space (xf_bytes x) s) (\<lambda>_ s.
                 (case map_of (pm_representations s) ?i of
                    None \<Rightarrow> (s, Abort)
                  | Some r \<Rightarrow>
                      (let s1 = put_rep ?i (r\<lparr>rep_device := True\<rparr>) s;
                           s2 = s1\<lparr>pm_metrics := (pm_metrics s1)\<lparr>promotions := promotions (pm_metrics s1) + 1\<rparr>\<rparr>
                       in (push_event (Promoted ?i (xf_bytes x)) s2, Ok ()))))
               else (s, Ok ()))
              (\<lambda>_ s. (s\<lparr>pm_metrics := (pm_metrics s)
                 \<lparr>transfer_bytes := transfer_bytes (pm_metrics s) + xf_bytes x\<rparr>\<rparr>, Ok ())))
          else (s, Ok ())) (\<lambda>_. ?G) (\<lambda>_. pm_inv)"
      proof (cases "ok \<and> \<not> rep_device r")
        case True
        then show ?thesis unfolding r
          by simp (rule runs_and_then[OF promote], simp)
      next
        case False
        with r G show ?thesis by auto
      qed
    qed
  qed
qed

lemma complete_recompute_spec:
  assumes inv: "pm_inv s"
  shows "runs False (complete_recompute k i s) (\<lambda>_. pm_inv) (\<lambda>_. pm_inv)"
proof (cases "map_of (pm_transitions s) k")
  case None
  with inv show ?thesis by (simp add: complete_recompute_def)
next
  case t: (Some t)
  show ?thesis
  proof (cases "pt_class t \<noteq> Recompute \<or> i \<notin> set (pt_representations t)")
    case True
    with t inv show ?thesis by (simp add: complete_recompute_def)
  next
    case guard: False
    note core = pm_inv_core[OF inv]
    from core have ok: "hm_ok (pm_transitions s)" by (simp add: pm_core_def ids_below_def)
    from guard t have "0 < reserved_count (pm_transitions s) i"
      unfolding reserved_count_def hm_sum_pos_iff[OF ok] by (metis count_list_pos neq0_conv)
    moreover from this obtain r where r: "map_of (pm_representations s) i = Some r"
      using core_refs_none[OF core, of i] by fastforce
    ultimately have prot: "protected (rep_refs r)" using core_refs[OF core r] by (simp add: protected_def)
    let ?G = "\<lambda>s'. pm_core s' no_debt no_debt no_debt no_debt \<and> detached_ok (pm_transfers s')"
    have det: "detached_ok (pm_transfers s)" using inv by (simp add: pm_inv_def)
    have "runs False (and_then (ensure_device_space (rep_bytes r) s) (\<lambda>_ s.
        (case map_of (pm_representations s) i of
           None \<Rightarrow> (s, Abort)
         | Some r \<Rightarrow>
             (let s1 = put_rep i (r\<lparr>rep_device := True\<rparr>) s
              in (s1\<lparr>pm_metrics := (pm_metrics s1)\<lparr>recomputed := recomputed (pm_metrics s1) + 1\<rparr>\<rparr>, Ok ())))))
        (\<lambda>_. ?G) (\<lambda>_. pm_inv)"
      by (rule runs_and_then[OF promote_spec[OF inv r prot]])
        (use det in \<open>auto simp: Let_def put_rep_def made_room_fields\<close>)
    then have "runs False (if \<not> rep_device r then and_then (ensure_device_space (rep_bytes r) s) (\<lambda>_ s.
        (case map_of (pm_representations s) i of
           None \<Rightarrow> (s, Abort)
         | Some r \<Rightarrow>
             (let s1 = put_rep i (r\<lparr>rep_device := True\<rparr>) s
              in (s1\<lparr>pm_metrics := (pm_metrics s1)\<lparr>recomputed := recomputed (pm_metrics s1) + 1\<rparr>\<rparr>, Ok ()))))
        else (s, Ok ())) (\<lambda>_. ?G) (\<lambda>_. pm_inv)"
      using core det by simp
    then show ?thesis
      unfolding complete_recompute_def t option.case if_not_P[OF guard] r
      by (rule runs_and_then) (simp add: pm_inv_refresh)
  qed
qed

subsection \<open>Transitions\<close>

text \<open>What reserving, releasing and activating leave alone in a representation.\<close>

definition same_copy :: "PhysicalRepresentation \<Rightarrow> PhysicalRepresentation \<Rightarrow> bool" where
  "same_copy r r' \<longleftrightarrow> same_shape r r' \<and> rep_device r' = rep_device r \<and> rep_host r' = rep_host r
     \<and> rep_storage r' = rep_storage r \<and> rc_logical (rep_refs r') = rc_logical (rep_refs r)"

definition copies_kept :: "rep_map \<Rightarrow> rep_map \<Rightarrow> bool" where
  "copies_kept rs rs' \<longleftrightarrow> (\<forall>i. rel_option same_copy (map_of rs i) (map_of rs' i))"

lemma copies_kept_refl [simp]: "copies_kept rs rs"
proof -
  have "rel_option same_copy x x" for x by (cases x) (auto simp: same_copy_def)
  then show ?thesis by (simp add: copies_kept_def)
qed

lemma same_copy_trans: "same_copy a b \<Longrightarrow> same_copy b c \<Longrightarrow> same_copy a c"
  by (auto simp: same_copy_def same_shape_def)

lemma copies_kept_trans: "copies_kept a b \<Longrightarrow> copies_kept b c \<Longrightarrow> copies_kept a c"
proof -
  have "rel_option same_copy x z" if "rel_option same_copy x y" "rel_option same_copy y z" for x y z
    using that by (cases x; cases y; cases z) (auto intro: same_copy_trans)
  then show "copies_kept a b \<Longrightarrow> copies_kept b c \<Longrightarrow> copies_kept a c" unfolding copies_kept_def by blast
qed

lemma copies_kept_shapes: "copies_kept rs rs' \<Longrightarrow> shapes_kept rs rs'"
proof -
  assume k: "copies_kept rs rs'"
  show ?thesis unfolding shapes_kept_def
  proof (intro allI impI)
    fix i r assume "map_of rs i = Some r"
    with k[unfolded copies_kept_def, rule_format, of i]
    show "\<exists>r'. map_of rs' i = Some r' \<and> same_shape r r'" by (auto simp: option_rel_Some1 same_copy_def)
  qed
qed

lemma copies_kept_get:
  "copies_kept rs rs' \<Longrightarrow> map_of rs i = Some r \<Longrightarrow> \<exists>r'. map_of rs' i = Some r' \<and> same_copy r r'"
  unfolding copies_kept_def by (drule spec[of _ i]) (auto simp: option_rel_Some1)

lemma copies_kept_loop:
  assumes "\<forall>r. same_copy r (g r)" and "\<forall>i. map_of rs' i = map_option (g ^^ n i) (map_of rs i)"
  shows "copies_kept rs rs'"
proof -
  have "same_copy r ((g ^^ k) r)" for r k
  proof (induction k)
    case (Suc k)
    then show ?case using assms(1) same_copy_trans by fastforce
  qed (simp add: same_copy_def)
  then have "rel_option same_copy x (map_option (g ^^ k) x)" for x k by (cases x) auto
  with assms(2) show ?thesis by (simp add: copies_kept_def)
qed

lemma loops_same_copy:
  "\<forall>r. same_copy r (dec_active r)" "\<forall>r. same_copy r (dec_reservations r)" "\<forall>r. same_copy r (activate c r)"
  by (simp_all add: same_copy_def same_shape_def dec_active_def dec_reservations_def activate_def)

text \<open>Counting one more reservation or transfer.\<close>

lemma for_reps_single:
  "map_of (pm_representations s) i = Some r \<Longrightarrow> for_reps g [i] s = (put_rep i (g r) s, Ok ())"
  by (simp add: for_reps_def put_rep_def)

lemma core_reserve:
  assumes core: "pm_core s A R X D" and r: "map_of (pm_representations s) i = Some r"
  shows "pm_core (put_rep i (r\<lparr>rep_refs := (rep_refs r)\<lparr>rc_reservations := rc_reservations (rep_refs r) + 1\<rparr>\<rparr>) s)
    A (\<lambda>z. R z + (if z = i then 1 else 0)) X D"
proof -
  let ?g = "\<lambda>r. r\<lparr>rep_refs := (rep_refs r)\<lparr>rc_reservations := rc_reservations (rep_refs r) + 1\<rparr>\<rparr>"
  obtain rs where "for_reps ?g [i] s = (s\<lparr>pm_representations := rs\<rparr>, Ok ())"
    and "pm_core (s\<lparr>pm_representations := rs\<rparr>) A (\<lambda>z. R z + (if z = i then 1 else 0)) X D"
    by (rule for_reps_core[OF core, of ?g "[i]" A "\<lambda>z. R z + (if z = i then 1 else 0)" X])
      (use r core_refs[OF core] in \<open>auto simp: same_shape_def\<close>)
  with for_reps_single[OF r, of ?g] show ?thesis by simp
qed

lemma core_count_transfer:
  assumes core: "pm_core s A R X D" and r: "map_of (pm_representations s) i = Some r"
  shows "pm_core (put_rep i (r\<lparr>rep_refs := (rep_refs r)\<lparr>rc_transfers := rc_transfers (rep_refs r) + 1\<rparr>\<rparr>) s)
    A R (\<lambda>z. X z + (if z = i then 1 else 0)) D"
proof -
  let ?g = "\<lambda>r. r\<lparr>rep_refs := (rep_refs r)\<lparr>rc_transfers := rc_transfers (rep_refs r) + 1\<rparr>\<rparr>"
  obtain rs where "for_reps ?g [i] s = (s\<lparr>pm_representations := rs\<rparr>, Ok ())"
    and "pm_core (s\<lparr>pm_representations := rs\<rparr>) A R (\<lambda>z. X z + (if z = i then 1 else 0)) D"
    by (rule for_reps_core[OF core, of ?g "[i]" A R "\<lambda>z. X z + (if z = i then 1 else 0)"])
      (use r core_refs[OF core] in \<open>auto simp: same_shape_def\<close>)
  with for_reps_single[OF r, of ?g] show ?thesis by simp
qed

lemma copies_kept_put:
  "map_of rs i = Some r \<Longrightarrow> same_copy r r' \<Longrightarrow> copies_kept rs (hm_put i r' rs)"
proof -
  assume r: "map_of rs i = Some r" and c: "same_copy r r'"
  have "rel_option same_copy x x" for x by (cases x) (auto simp: same_copy_def)
  with r c show ?thesis by (simp add: copies_kept_def)
qed

text \<open>The part of a state that the second loop of \<open>prepare_transition\<close> leaves alone.\<close>

definition reserving :: "PhysicalManager \<Rightarrow> PhysicalManager \<Rightarrow> bool" where
  "reserving s s' \<longleftrightarrow> copies_kept (pm_representations s) (pm_representations s')
     \<and> pm_bindings s' = pm_bindings s \<and> pm_transitions s' = pm_transitions s \<and> pm_block_tables s' = pm_block_tables s
     \<and> pm_capacity s' = pm_capacity s \<and> pm_next_id s \<le> pm_next_id s'"

lemma reserving_trans: "reserving a b \<Longrightarrow> reserving b c \<Longrightarrow> reserving a c"
  unfolding reserving_def using copies_kept_trans by (metis le_trans)

lemma core_fresh:
  assumes "pm_core s A R X D" and "pm_next_id s \<le> k"
  shows "map_of (pm_transitions s) k = None" "map_of (pm_transfers s) k = None" "map_of (pm_growth s) k = None"
  using assms by (auto simp: pm_core_def ids_below_def)

definition reserve_bump :: "PhysicalRepresentation \<Rightarrow> PhysicalRepresentation" where
  "reserve_bump r = r\<lparr>rep_refs := (rep_refs r)\<lparr>rc_reservations := rc_reservations (rep_refs r) + 1\<rparr>\<rparr>"

definition transfer_bump :: "PhysicalRepresentation \<Rightarrow> PhysicalRepresentation" where
  "transfer_bump r = r\<lparr>rep_refs := (rep_refs r)\<lparr>rc_transfers := rc_transfers (rep_refs r) + 1\<rparr>\<rparr>"

lemma same_copy_bump [simp]: "same_copy r (reserve_bump r)" "same_copy r (transfer_bump (reserve_bump r))"
  by (simp_all add: same_copy_def same_shape_def reserve_bump_def transfer_bump_def)

lemma reserve_reps_Cons:
  assumes "map_of (pm_representations s) i = Some r"
  shows "reserve_reps (i # is) acc s =
    (if \<not> rep_device r \<and> (rep_host r \<or> rep_storage r)
     then and_then (pm_take_id (put_rep i (reserve_bump r) s)) (\<lambda>t s2.
       (let s3 = put_rep i (transfer_bump (reserve_bump r)) s2 in
        reserve_reps is (acc @ [t]) (s3\<lparr>pm_transfers := hm_put t \<lparr>xf_representation = i, xf_bytes = rep_bytes r,
                              xf_completed = False, xf_success = False, xf_detached = False\<rparr> (pm_transfers s3)\<rparr>)))
     else reserve_reps is acc (put_rep i (reserve_bump r) s))"
  using assms by (simp add: Let_def reserve_bump_def transfer_bump_def)

text \<open>Opening the transfer of one representation, after its reservation.\<close>

lemma core_open_transfer:
  assumes core: "pm_core s A R no_debt (count_list acc)" and r: "map_of (pm_representations s) i = Some r"
  shows "pm_core ((put_rep i (transfer_bump r) (s\<lparr>pm_next_id := pm_next_id s + 1\<rparr>))
      \<lparr>pm_transfers := hm_put (pm_next_id s) \<lparr>xf_representation = i, xf_bytes = rep_bytes r, xf_completed = False,
         xf_success = False, xf_detached = False\<rparr> (pm_transfers s)\<rparr>) A R no_debt (count_list (acc @ [pm_next_id s]))"
proof -
  let ?t = "pm_next_id s" and ?s = "s\<lparr>pm_next_id := pm_next_id s + 1\<rparr>"
  let ?x = "\<lparr>xf_representation = i, xf_bytes = rep_bytes r, xf_completed = False, xf_success = False, xf_detached = False\<rparr>"
  let ?s3 = "put_rep i (transfer_bump r) ?s"
  have "pm_core ?s A R no_debt (count_list acc)" by (rule core_next_id[OF core]) simp
  from core_count_transfer[OF this, of i r] r
  have c: "pm_core ?s3 A R (\<lambda>z. 0 + (if z = i then 1 else 0)) (count_list acc)"
    by (simp add: transfer_bump_def)
  have "pm_core (?s3\<lparr>pm_transfers := hm_put ?t ?x (pm_transfers ?s3)\<rparr>) A R no_debt (count_list (acc @ [?t]))"
    by (rule core_put_transfer[OF c]) (use core_fresh(2)[OF core, of ?t] in \<open>auto simp: put_rep_def transfer_bump_def\<close>)
  then show ?thesis by (simp add: put_rep_def)
qed

lemma count_list_Nil: "count_list [] = no_debt"
  by (rule ext) simp

lemma count_list_snoc: "(\<lambda>z. count_list pre z + (if z = i then 1 else 0)) = count_list (pre @ [i])"
  by auto

lemma reserving_put: "map_of (pm_representations s) i = Some r \<Longrightarrow> same_copy r r' \<Longrightarrow> reserving s (put_rep i r' s)"
  by (simp add: reserving_def put_rep_def copies_kept_put)

lemma reserve_reps_spec:
  "pm_core s no_debt (count_list pre) no_debt (count_list acc) \<Longrightarrow> detached_ok (pm_transfers s) \<Longrightarrow>
   \<forall>i\<in>set ids. map_of (pm_representations s) i \<noteq> None \<Longrightarrow> (u64_max < pm_next_id s + length ids \<longrightarrow> b) \<Longrightarrow>
   runs b (reserve_reps ids acc s)
     (\<lambda>acc' s'. pm_core s' no_debt (count_list (pre @ ids)) no_debt (count_list acc') \<and> reserving s s'
        \<and> detached_ok (pm_transfers s')) E"
proof (induction ids arbitrary: pre acc s)
  case Nil
  then show ?case by (simp add: reserving_def)
next
  case (Cons i ids)
  from Cons.prems(3) obtain r where r: "map_of (pm_representations s) i = Some r" by auto
  let ?s1 = "put_rep i (reserve_bump r) s"
  have r1: "map_of (pm_representations ?s1) i = Some (reserve_bump r)" by (simp add: put_rep_def)
  have c1: "pm_core ?s1 no_debt (count_list (pre @ [i])) no_debt (count_list acc)"
    using core_reserve[OF Cons.prems(1) r] by (simp add: reserve_bump_def count_list_snoc[of pre i, simplified] del: count_list_append)
  have step: "runs b (reserve_reps ids acc' s')
     (\<lambda>acc' s'. pm_core s' no_debt (count_list (pre @ i # ids)) no_debt (count_list acc') \<and> reserving s s'
        \<and> detached_ok (pm_transfers s')) E"
    if c: "pm_core s' no_debt (count_list (pre @ [i])) no_debt (count_list acc')" and d: "detached_ok (pm_transfers s')"
      and res: "reserving s s'" and n: "pm_next_id s' \<le> pm_next_id s + 1" for s' acc'
  proof -
    have "\<forall>j\<in>set ids. map_of (pm_representations s') j \<noteq> None"
    proof
      fix j assume "j \<in> set ids"
      with Cons.prems(3) obtain q where "map_of (pm_representations s) j = Some q" by auto
      with res show "map_of (pm_representations s') j \<noteq> None"
        unfolding reserving_def using copies_kept_get by fastforce
    qed
    moreover have "u64_max < pm_next_id s' + length ids \<longrightarrow> b" using Cons.prems(4) n by auto
    ultimately have "runs b (reserve_reps ids acc' s')
     (\<lambda>acc'' s''. pm_core s'' no_debt (count_list ((pre @ [i]) @ ids)) no_debt (count_list acc'') \<and> reserving s' s''
        \<and> detached_ok (pm_transfers s'')) E" by (rule Cons.IH[OF c d])
    moreover have "(pre @ [i]) @ ids = pre @ i # ids" by simp
    ultimately show ?thesis by (elim runs_mono) (use reserving_trans[OF res] in \<open>simp_all\<close>)
  qed
  show ?case
  proof (cases "\<not> rep_device r \<and> (rep_host r \<or> rep_storage r)")
    case False
    have "runs b (reserve_reps ids acc ?s1)
     (\<lambda>acc' s'. pm_core s' no_debt (count_list (pre @ i # ids)) no_debt (count_list acc') \<and> reserving s s'
        \<and> detached_ok (pm_transfers s')) E"
      by (rule step[OF c1]) (use Cons.prems(2) reserving_put[OF r] in \<open>simp_all add: put_rep_def\<close>)
    then show ?thesis unfolding reserve_reps_Cons[OF r] if_not_P[OF False] .
  next
    case True
    show ?thesis unfolding reserve_reps_Cons[OF r] if_P[OF True]
    proof (rule take_id_bind)
      show "u64_max < pm_next_id ?s1 + 1 \<longrightarrow> b" using Cons.prems(4) by (simp add: put_rep_def)
      let ?t = "pm_next_id ?s1" and ?s2 = "?s1\<lparr>pm_next_id := pm_next_id ?s1 + 1\<rparr>"
      let ?s3 = "put_rep i (transfer_bump (reserve_bump r)) ?s2"
      let ?x = "\<lparr>xf_representation = i, xf_bytes = rep_bytes r, xf_completed = False, xf_success = False, xf_detached = False\<rparr>"
      let ?s4 = "?s3\<lparr>pm_transfers := hm_put ?t ?x (pm_transfers ?s3)\<rparr>"
      have bytes: "rep_bytes (reserve_bump r) = rep_bytes r" by (simp add: reserve_bump_def)
      from core_open_transfer[OF c1 r1] have "pm_core ?s4 no_debt (count_list (pre @ [i])) no_debt (count_list (acc @ [?t]))"
        unfolding bytes by (simp add: put_rep_def)
      moreover have "detached_ok (pm_transfers ?s4)" using Cons.prems(2) by (auto simp: detached_ok_def put_rep_def)
      moreover have "reserving s ?s4"
      proof -
        have "same_copy (reserve_bump r) (transfer_bump (reserve_bump r))"
          by (simp add: same_copy_def same_shape_def transfer_bump_def)
        from reserving_put[OF r1 this] reserving_put[OF r, of "reserve_bump r"]
        have "reserving s (put_rep i (transfer_bump (reserve_bump r)) ?s1)" using reserving_trans by simp
        then show ?thesis by (simp add: reserving_def put_rep_def)
      qed
      ultimately have "runs b (reserve_reps ids (acc @ [?t]) ?s4)
       (\<lambda>acc' s'. pm_core s' no_debt (count_list (pre @ i # ids)) no_debt (count_list acc') \<and> reserving s s'
          \<and> detached_ok (pm_transfers s')) E"
        by (rule step) (simp add: put_rep_def)
      then show "runs b (let s3 = ?s3 in reserve_reps ids (acc @ [?t]) (s3\<lparr>pm_transfers := hm_put ?t ?x (pm_transfers s3)\<rparr>))
       (\<lambda>acc' s'. pm_core s' no_debt (count_list (pre @ i # ids)) no_debt (count_list acc') \<and> reserving s s'
          \<and> detached_ok (pm_transfers s')) E" by (simp only: Let_def)
    qed
  qed
qed

text \<open>A validated list is a composite.\<close>

lemma check_members_Ok:
  "check_members rs m e present ids = Ok present' \<Longrightarrow>
     (\<forall>i\<in>set ids. \<exists>r. map_of rs i = Some r \<and> rep_mapping r = m \<and> rep_end r = e)
   \<and> map Some present' = map Some present @ map (\<lambda>i. map_option rep_component (map_of rs i)) ids
   \<and> (distinct present \<longrightarrow> distinct present')"
  by (induction ids arbitrary: present) (auto split: option.splits if_splits)

lemma check_members_no_Abort: "check_members rs m e present ids \<noteq> Abort"
  by (induction ids arbitrary: present) (auto split: option.splits)

lemma validate_composite_Ok:
  assumes "validate_composite s m e req ids = Ok ()"
  shows "composite (pm_representations s) m ids"
proof -
  from assms obtain present where p: "check_members (pm_representations s) m e [] ids = Ok present"
    by (auto simp: validate_composite_def split: outcome.splits if_splits)
  from check_members_Ok[OF p]
  have eq: "map Some present = map (\<lambda>i. map_option rep_component (map_of (pm_representations s) i)) ids" by simp
  from check_members_Ok[OF p] have "distinct present" by simp
  then have "distinct (map Some present)" by (simp add: distinct_map)
  with check_members_Ok[OF p] show ?thesis unfolding composite_def eq by blast
qed

lemma validate_composite_no_Abort: "validate_composite s m e req ids \<noteq> Abort"
  using check_members_no_Abort by (auto simp: validate_composite_def split: outcome.splits)

lemma missing_of_no_Abort:
  "\<forall>i\<in>set ids. map_of rs i \<noteq> None \<Longrightarrow> missing_of rs allow n r ids \<noteq> Abort"
  by (induction ids arbitrary: n r) (auto split: option.splits)

lemma prepare_transition_spec:
  assumes inv: "pm_inv s" and b: "u64_max < pm_next_id s + 1 + length ids \<longrightarrow> b"
  shows "runs b (prepare_transition c v m e req ids allow s) (\<lambda>_. pm_inv) (\<lambda>_. pm_inv)"
proof (cases "validate_composite s m e req ids")
  case (Err x)
  with inv show ?thesis by (simp add: prepare_transition_def)
next
  case Abort
  with validate_composite_no_Abort show ?thesis by blast
next
  case valid: (Ok u)
  have comp: "composite (pm_representations s) m ids" using validate_composite_Ok valid by simp
  show ?thesis
  proof (cases "missing_of (pm_representations s) allow 0 False ids")
    case (Err x)
    with valid inv show ?thesis by (simp add: prepare_transition_def)
  next
    case Abort
    with missing_of_no_Abort[OF composite_exists[OF comp]] show ?thesis by blast
  next
    case missing: (Ok mr)
    obtain miss rc where mr: "mr = (miss, rc)" by (cases mr)
    show ?thesis
      unfolding prepare_transition_def valid missing mr and_then_Ok prod.case
    proof (rule runs_and_then[OF runs_weaken[OF runs_mono[OF ensure_device_capacity_spec[OF inv, of miss]]]],
        unfold Let_def)
      fix a s1 assume "made_room s s1 \<and> pm_inv s1 \<and> device_fits miss s1"
      then have inv1: "pm_inv s1" and fields: "pm_next_id s1 = pm_next_id s"
        and comp1: "composite (pm_representations s1) m ids"
        using made_room_fields composite_kept[OF made_room_shapes comp] by auto
      let ?cl = "transition_class_of rc miss (hm_has (pm_bindings s1) c)"
      show "runs b (and_then (pm_take_id s1) (\<lambda>tid s. and_then (reserve_reps ids [] s) (\<lambda>transfers s.
          (refresh_capacity_metrics (push_event (Prepared tid ?cl miss)
             (s\<lparr>pm_transitions := hm_put tid \<lparr>pt_context = c, pt_revision = v,
                     pt_mapping = m, pt_representations = ids, pt_transfers = transfers,
                     pt_reserved_bytes = miss, pt_class = ?cl\<rparr> (pm_transitions s),
                   pm_metrics := (pm_metrics s)\<lparr>metric_prepared := metric_prepared (pm_metrics s) + 1\<rparr>\<rparr>)),
           Ok (tid, ?cl, transfers))))) (\<lambda>_. pm_inv) (\<lambda>_. pm_inv)"
      proof (rule take_id_bind)
        show "u64_max < pm_next_id s1 + 1 \<longrightarrow> b" using b fields by auto
        let ?s2 = "s1\<lparr>pm_next_id := pm_next_id s1 + 1\<rparr>" and ?tid = "pm_next_id s1"
        have core2: "pm_core ?s2 no_debt (count_list []) no_debt (count_list [])"
          unfolding count_list_Nil by (rule core_next_id[OF pm_inv_core[OF inv1]]) simp
        have det2: "detached_ok (pm_transfers ?s2)" using inv1 by (simp add: pm_inv_def)
        have ex2: "\<forall>i\<in>set ids. map_of (pm_representations ?s2) i \<noteq> None" using composite_exists[OF comp1] by simp
        have b2: "u64_max < pm_next_id ?s2 + length ids \<longrightarrow> b" using b fields by auto
        show "runs b (and_then (reserve_reps ids [] ?s2) (\<lambda>transfers s.
          (refresh_capacity_metrics (push_event (Prepared ?tid ?cl miss)
             (s\<lparr>pm_transitions := hm_put ?tid \<lparr>pt_context = c, pt_revision = v,
                     pt_mapping = m, pt_representations = ids, pt_transfers = transfers,
                     pt_reserved_bytes = miss, pt_class = ?cl\<rparr> (pm_transitions s),
                   pm_metrics := (pm_metrics s)\<lparr>metric_prepared := metric_prepared (pm_metrics s) + 1\<rparr>\<rparr>)),
           Ok (?tid, ?cl, transfers)))) (\<lambda>_. pm_inv) (\<lambda>_. pm_inv)"
        proof (rule runs_and_then[OF reserve_reps_spec[OF core2 det2 ex2 b2]], elim conjE)
          fix ts s3 assume core3: "pm_core s3 no_debt (count_list ([] @ ids)) no_debt (count_list ts)"
            and res: "reserving ?s2 s3" and det3: "detached_ok (pm_transfers s3)"
          let ?t = "\<lparr>pt_context = c, pt_revision = v, pt_mapping = m, pt_representations = ids,
            pt_transfers = ts, pt_reserved_bytes = miss, pt_class = ?cl\<rparr>"
          have "pm_core (s3\<lparr>pm_transitions := hm_put ?tid ?t (pm_transitions s3)\<rparr>) no_debt no_debt no_debt no_debt"
          proof (rule core_put_transition)
            show "pm_core s3 no_debt (count_list (pt_representations ?t)) no_debt (count_list (pt_transfers ?t))"
              using core3 by (simp only: append_Nil PreparedTransition.simps)
            show "map_of (pm_transitions s3) ?tid = None" "?tid < pm_next_id s3"
              using res core_fresh(1)[OF pm_inv_core[OF inv1], of ?tid] by (simp_all add: reserving_def)
            from res have "shapes_kept (pm_representations s1) (pm_representations s3)"
              using copies_kept_shapes by (simp add: reserving_def)
            from composite_kept[OF this comp1]
            show "composite (pm_representations s3) (pt_mapping ?t) (pt_representations ?t)" by simp
          qed
          then show "runs b (refresh_capacity_metrics (push_event (Prepared ?tid ?cl miss)
             (s3\<lparr>pm_transitions := hm_put ?tid ?t (pm_transitions s3),
                   pm_metrics := (pm_metrics s3)\<lparr>metric_prepared := metric_prepared (pm_metrics s3) + 1\<rparr>\<rparr>)),
             Ok (?tid, ?cl, ts)) (\<lambda>_. pm_inv) (\<lambda>_. pm_inv)"
            using det3 by (simp add: pm_inv_refresh)
        qed
      qed
    qed simp_all
  qed
qed

text \<open>The guards of a commit.\<close>

lemma check_transfers_Ok:
  "check_transfers xs ts = Ok u \<Longrightarrow> \<forall>k\<in>set ts. \<exists>x. map_of xs k = Some x \<and> xf_completed x \<and> xf_success x"
  by (induction ts) (auto split: option.splits if_splits)

lemma check_transfers_no_Abort: "\<forall>k\<in>set ts. map_of xs k \<noteq> None \<Longrightarrow> check_transfers xs ts \<noteq> Abort"
  by (induction ts) (auto split: if_splits)

lemma check_on_device_Ok:
  "check_on_device rs ids = Ok u \<Longrightarrow> \<forall>i\<in>set ids. \<exists>r. map_of rs i = Some r \<and> rep_device r"
  by (induction ids) (auto split: option.splits if_splits)

lemma check_on_device_no_Abort: "\<forall>i\<in>set ids. map_of rs i \<noteq> None \<Longrightarrow> check_on_device rs ids \<noteq> Abort"
  by (induction ids) (auto split: if_splits)

lemma core_transition_transfers:
  assumes core: "pm_core s A R X no_debt" and t: "map_of (pm_transitions s) k = Some t"
  shows "\<forall>x\<in>set (pt_transfers t). \<exists>y. map_of (pm_transfers s) x = Some y \<and> \<not> xf_detached y"
proof
  fix x assume x: "x \<in> set (pt_transfers t)"
  from core have ok: "hm_ok (pm_transitions s)" by (simp add: pm_core_def ids_below_def)
  have "0 < owner_count (pm_transitions s) x"
    unfolding owner_count_def hm_sum_pos_iff[OF ok] using t x by (metis count_list_pos neq0_conv)
  with core_owner[OF core, of x] show "\<exists>y. map_of (pm_transfers s) x = Some y \<and> \<not> xf_detached y" by auto
qed

text \<open>What a successful commit of transition \<open>k\<close> does to the tables.\<close>

definition committed_to :: "PhysicalManager \<Rightarrow> PreparedTransitionId \<Rightarrow> PreparedTransition \<Rightarrow> ActiveBindingId \<Rightarrow> PhysicalManager \<Rightarrow> bool" where
  "committed_to s k t i s' \<longleftrightarrow> i = pm_next_id s \<and> pm_next_id s' = pm_next_id s + 1
     \<and> map_of (pm_bindings s') = (map_of (pm_bindings s))(pt_context t \<mapsto>
         \<lparr>ab_id = i, ab_mapping = pt_mapping t, ab_representations = pt_representations t\<rparr>)
     \<and> map_of (pm_transitions s') = (map_of (pm_transitions s))(k := None)
     \<and> map_of (pm_block_tables s') = (map_of (pm_block_tables s))(pt_context t := None)
     \<and> map_of (pm_transfers s') = (\<lambda>x. if x \<in> set (pt_transfers t) then None else map_of (pm_transfers s) x)
     \<and> copies_kept (pm_representations s) (pm_representations s')
     \<and> (\<forall>j\<in>set (pt_representations t). \<exists>r. map_of (pm_representations s') j = Some r \<and> rep_device r)"

lemma and_then_fst_Err: "snd r = Err e \<Longrightarrow> and_then r f = (fst r, Err e)"
  by (simp add: and_then_def)

lemma commit_guards:
  assumes inv: "pm_inv s" and t: "map_of (pm_transitions s) k = Some t"
  shows "check_transfers (pm_transfers s) (pt_transfers t) \<noteq> Abort"
    and "check_on_device (pm_representations s) (pt_representations t) \<noteq> Abort"
    and "blocks_of (pm_representations s) e (pt_representations t) \<noteq> Abort"
proof -
  note core = pm_inv_core[OF inv]
  show "check_transfers (pm_transfers s) (pt_transfers t) \<noteq> Abort"
    by (rule check_transfers_no_Abort) (use core_transition_transfers[OF core t] in fastforce)
  note ex = composite_exists[OF core_composites(2)[OF core t]]
  show "check_on_device (pm_representations s) (pt_representations t) \<noteq> Abort"
    by (rule check_on_device_no_Abort[OF ex])
  show "blocks_of (pm_representations s) e (pt_representations t) \<noteq> Abort"
    by (rule blocks_of_defined[OF ex])
qed

text \<open>Taking the old binding of the context away.\<close>

lemma drop_old_binding:
  assumes core: "pm_core s no_debt R X D" and tab: "map_of (pm_block_tables s) c = None"
  obtains s' where "(case map_of (pm_bindings s) c of
       None \<Rightarrow> (s, Ok ())
     | Some old \<Rightarrow> for_reps dec_active (ab_representations old) (s\<lparr>pm_bindings := hm_del c (pm_bindings s)\<rparr>)) = (s', Ok ())"
    and "pm_core s' no_debt R X D" and "map_of (pm_bindings s') = (map_of (pm_bindings s))(c := None)"
    and "copies_kept (pm_representations s) (pm_representations s')"
    and "\<exists>rs bs. s' = s\<lparr>pm_representations := rs, pm_bindings := bs\<rparr>"
proof (cases "map_of (pm_bindings s) c")
  case None
  have "s = s\<lparr>pm_representations := pm_representations s, pm_bindings := pm_bindings s\<rparr>" by simp
  moreover have "map_of (pm_bindings s) = (map_of (pm_bindings s))(c := None)" using None by (simp add: fun_upd_idem)
  ultimately show ?thesis using None core by (intro that[of s]) (simp, blast+, simp, blast)
next
  case (Some old)
  let ?s = "s\<lparr>pm_bindings := hm_del c (pm_bindings s)\<rparr>"
  from pay_active[OF core_drop_binding[OF core Some tab]] obtain rs where
    loop: "for_reps dec_active (ab_representations old) ?s = (?s\<lparr>pm_representations := rs\<rparr>, Ok ())"
    and c: "pm_core (?s\<lparr>pm_representations := rs\<rparr>) no_debt R X D"
    and get: "\<forall>i. map_of rs i = map_option (dec_active ^^ count_list (ab_representations old) i) (map_of (pm_representations ?s) i)"
    by blast
  have kept: "copies_kept (pm_representations s) rs"
    by (rule copies_kept_loop[OF loops_same_copy(1), where n = "count_list (ab_representations old)"]) (use get in simp)
  have "?s\<lparr>pm_representations := rs\<rparr> = s\<lparr>pm_representations := rs, pm_bindings := hm_del c (pm_bindings s)\<rparr>" by simp
  then show ?thesis using loop c Some kept
    by (intro that[of "?s\<lparr>pm_representations := rs\<rparr>"]) (simp, simp only:, simp, simp, blast)
qed

text \<open>The body of a commit, after the guards.\<close>

definition commit_body ::
  "PreparedTransitionId \<Rightarrow> PreparedTransition \<Rightarrow> PhysicalManager \<Rightarrow> PhysicalManager \<times> (pm_error, ActiveBindingId) outcome" where
  "commit_body tid t s =
     and_then (release_transition_refs t (s\<lparr>pm_transitions := hm_del tid (pm_transitions s)\<rparr>)) (\<lambda>_ s.
       (let s1 = s\<lparr>pm_block_tables := hm_del (pt_context t) (pm_block_tables s)\<rparr>;
            s2 = (if pt_class t = ReferenceOnly \<and> hm_has (pm_bindings s1) (pt_context t)
              then s1\<lparr>pm_metrics := (pm_metrics s1)\<lparr>reference_switches := reference_switches (pm_metrics s1) + 1\<rparr>\<rparr>
              else s1)
        in
        and_then
          (case map_of (pm_bindings s2) (pt_context t) of
             None \<Rightarrow> (s2, Ok ())
           | Some old \<Rightarrow> for_reps dec_active (ab_representations old)
               (s2\<lparr>pm_bindings := hm_del (pt_context t) (pm_bindings s2)\<rparr>)) (\<lambda>_ s.
        and_then (for_reps (activate (pm_clock s)) (pt_representations t) s) (\<lambda>_ s.
        and_then (pm_take_id s) (\<lambda>binding s.
          (let s3 = s\<lparr>pm_bindings := hm_put (pt_context t) \<lparr>ab_id = binding, ab_mapping = pt_mapping t,
                     ab_representations = pt_representations t\<rparr> (pm_bindings s),
                   pm_metrics := (pm_metrics s)\<lparr>committed := committed (pm_metrics s) + 1\<rparr>\<rparr>;
               s4 = push_event (Committed tid binding) (remove_transfers (pt_transfers t) s3)
           in (refresh_capacity_metrics s4, Ok binding)))))))"

lemma commit_transition_body:
  "commit_transition tid v s =
     (case map_of (pm_transitions s) tid of
        None \<Rightarrow> (s, Err TransitionNotFound)
      | Some t \<Rightarrow>
          if pt_revision t \<noteq> v then (s, Err StaleRevision)
          else
            and_then (s, check_transfers (pm_transfers s) (pt_transfers t)) (\<lambda>_ s.
            and_then (s, check_on_device (pm_representations s) (pt_representations t)) (\<lambda>_ s. commit_body tid t s)))"
  unfolding commit_transition_def commit_body_def ..

lemma commit_body_spec:
  assumes inv: "pm_inv s" and t: "map_of (pm_transitions s) k = Some t"
    and moved: "\<forall>x\<in>set (pt_transfers t). \<forall>y. map_of (pm_transfers s) x = Some y \<longrightarrow> xf_completed y"
    and dev: "\<forall>i\<in>set (pt_representations t). \<exists>r. map_of (pm_representations s) i = Some r \<and> rep_device r"
    and b: "u64_max < pm_next_id s + 1 \<longrightarrow> b"
  shows "runs b (commit_body k t s) (\<lambda>i s'. pm_inv s' \<and> committed_to s k t i s') E"
proof -
  note core = pm_inv_core[OF inv]
  let ?ids = "pt_representations t" and ?c = "pt_context t" and ?D = "count_list (pt_transfers t)"
  let ?s0 = "s\<lparr>pm_transitions := hm_del k (pm_transitions s)\<rparr>"
  from pay_reservations[OF core_drop_transition[OF core t]] obtain rs1 where
    loop1: "for_reps dec_reservations ?ids ?s0 = (?s0\<lparr>pm_representations := rs1\<rparr>, Ok ())"
    and c1: "pm_core (?s0\<lparr>pm_representations := rs1\<rparr>) no_debt no_debt no_debt ?D"
    and get1: "\<forall>i. map_of rs1 i = map_option (dec_reservations ^^ count_list ?ids i) (map_of (pm_representations ?s0) i)"
    by blast
  have kept1: "copies_kept (pm_representations s) rs1"
    by (rule copies_kept_loop[OF loops_same_copy(2), where n = "count_list ?ids"]) (use get1 in simp)
  let ?s1 = "?s0\<lparr>pm_representations := rs1\<rparr>"
  let ?s1' = "?s1\<lparr>pm_block_tables := hm_del ?c (pm_block_tables ?s1)\<rparr>"
  obtain m where m: "(if pt_class t = ReferenceOnly \<and> hm_has (pm_bindings ?s1') ?c
      then ?s1'\<lparr>pm_metrics := (pm_metrics ?s1')\<lparr>reference_switches := reference_switches (pm_metrics ?s1') + 1\<rparr>\<rparr>
      else ?s1') = ?s1'\<lparr>pm_metrics := m\<rparr>"
    by (cases "pt_class t = ReferenceOnly \<and> hm_has (pm_bindings ?s1') ?c") (auto intro: that[of "pm_metrics s"])
  let ?s2 = "?s1'\<lparr>pm_metrics := m\<rparr>"
  have c2: "pm_core ?s2 no_debt no_debt no_debt ?D" using core_drop_table[OF c1] by simp
  have tab2: "map_of (pm_block_tables ?s2) ?c = None" by simp
  from drop_old_binding[OF c2 tab2] obtain s3 where
    loop3: "(case map_of (pm_bindings ?s2) ?c of None \<Rightarrow> (?s2, Ok ())
       | Some old \<Rightarrow> for_reps dec_active (ab_representations old) (?s2\<lparr>pm_bindings := hm_del ?c (pm_bindings ?s2)\<rparr>)) = (s3, Ok ())"
    and c3: "pm_core s3 no_debt no_debt no_debt ?D"
    and b3: "map_of (pm_bindings s3) = (map_of (pm_bindings ?s2))(?c := None)"
    and kept3: "copies_kept (pm_representations ?s2) (pm_representations s3)"
    and s3: "\<exists>rs bs. s3 = ?s2\<lparr>pm_representations := rs, pm_bindings := bs\<rparr>" by blast
  from s3 have f3: "pm_transfers s3 = pm_transfers s" "pm_transitions s3 = hm_del k (pm_transitions s)"
    "pm_block_tables s3 = hm_del ?c (pm_block_tables s)" "pm_next_id s3 = pm_next_id s" by auto
  have kept13: "copies_kept (pm_representations s) (pm_representations s3)"
    using copies_kept_trans[OF kept1] kept3 by simp
  have dev3: "\<forall>i\<in>set ?ids. \<exists>r. map_of (pm_representations s3) i = Some r \<and> rep_device r"
    using dev copies_kept_get[OF kept13] by (fastforce simp: same_copy_def)
  from take_active[OF c3 dev3] obtain rs4 where
    loop4: "for_reps (activate (pm_clock s3)) ?ids s3 = (s3\<lparr>pm_representations := rs4\<rparr>, Ok ())"
    and c4: "pm_core (s3\<lparr>pm_representations := rs4\<rparr>) (count_list ?ids) no_debt no_debt ?D"
    and get4: "\<forall>i. map_of rs4 i = map_option (activate (pm_clock s3) ^^ count_list ?ids i) (map_of (pm_representations s3) i)"
    by blast
  have kept4: "copies_kept (pm_representations s) rs4"
    using copies_kept_trans[OF kept13] copies_kept_loop[OF loops_same_copy(3) get4] by blast
  let ?s4 = "s3\<lparr>pm_representations := rs4\<rparr>"
  let ?i = "pm_next_id s"
  let ?b = "\<lparr>ab_id = ?i, ab_mapping = pt_mapping t, ab_representations = ?ids\<rparr>"
  let ?s5 = "?s4\<lparr>pm_next_id := ?i + 1\<rparr>"
  have c5: "pm_core ?s5 (count_list (ab_representations ?b)) no_debt no_debt ?D"
    using core_next_id[OF c4, of "?i + 1"] f3 by simp
  have comp5: "composite (pm_representations ?s5) (ab_mapping ?b) (ab_representations ?b)"
    using composite_kept[OF copies_kept_shapes[OF kept4] core_composites(2)[OF core t]] by simp
  have fresh5: "map_of (pm_bindings ?s5) ?c = None" using b3 by simp
  let ?s6 = "?s5\<lparr>pm_bindings := hm_put ?c ?b (pm_bindings ?s5)\<rparr>"
  have c6: "pm_core ?s6 no_debt no_debt no_debt ?D" by (rule core_put_binding[OF c5 fresh5 comp5])
  let ?s7 = "\<lambda>m. remove_transfers (pt_transfers t) (?s6\<lparr>pm_metrics := m\<rparr>)"
  have "pm_core (?s6\<lparr>pm_metrics := m\<rparr>) no_debt no_debt no_debt ?D" for m using c6 by simp
  then have c7: "pm_core (?s7 m) no_debt no_debt no_debt no_debt" for m
    by (rule core_remove_transfers) (use moved f3 in simp)
  have det: "detached_ok (pm_transfers (?s7 m))" for m
    using inv f3 by (auto simp: pm_inv_def detached_ok_def remove_transfers_def fold_hm_del split: if_splits)
  have inv7: "pm_inv (refresh_capacity_metrics (push_event e (?s7 m)))" for e m
    by (rule pm_inv_refresh) (use c7 det in simp_all)
  have "\<forall>j\<in>set ?ids. \<exists>r. map_of rs4 j = Some r \<and> rep_device r"
    using dev copies_kept_get[OF kept4] by (fastforce simp: same_copy_def)
  then have eff: "committed_to s k t ?i (refresh_capacity_metrics (push_event e (?s7 m)))" for e m
    unfolding committed_to_def
    using f3 b3 kept4 by (simp add: remove_transfers_def fold_hm_del fun_eq_iff)
  show ?thesis
    unfolding commit_body_def release_transition_refs_def loop1 and_then_Ok Let_def m loop3 loop4
  proof (rule take_id_bind)
    show "u64_max < pm_next_id ?s4 + 1 \<longrightarrow> b" using b f3 by simp
    show "runs b (refresh_capacity_metrics (push_event (Committed k (pm_next_id ?s4))
       (remove_transfers (pt_transfers t) ((?s4\<lparr>pm_next_id := pm_next_id ?s4 + 1\<rparr>)
         \<lparr>pm_bindings := hm_put ?c \<lparr>ab_id = pm_next_id ?s4, ab_mapping = pt_mapping t, ab_representations = ?ids\<rparr>
            (pm_bindings (?s4\<lparr>pm_next_id := pm_next_id ?s4 + 1\<rparr>)),
          pm_metrics := (pm_metrics (?s4\<lparr>pm_next_id := pm_next_id ?s4 + 1\<rparr>))
            \<lparr>committed := committed (pm_metrics (?s4\<lparr>pm_next_id := pm_next_id ?s4 + 1\<rparr>)) + 1\<rparr>\<rparr>))),
       Ok (pm_next_id ?s4)) (\<lambda>i s'. pm_inv s' \<and> committed_to s k t i s') E"
      using inv7 eff f3(4) by simp
  qed
qed

lemma commit_transition_spec:
  assumes inv: "pm_inv s" and b: "u64_max < pm_next_id s + 1 \<longrightarrow> b"
  shows "runs b (commit_transition k v s)
     (\<lambda>i s'. pm_inv s' \<and> (\<exists>t. map_of (pm_transitions s) k = Some t \<and> pt_revision t = v \<and> committed_to s k t i s'))
     (\<lambda>_ s'. s' = s)"
proof (cases "map_of (pm_transitions s) k")
  case None
  then show ?thesis by (simp add: commit_transition_def)
next
  case (Some t)
  note guards = commit_guards[OF inv Some]
  show ?thesis
  proof (cases "pt_revision t = v \<and> check_transfers (pm_transfers s) (pt_transfers t) = Ok ()
      \<and> check_on_device (pm_representations s) (pt_representations t) = Ok ()")
    case True
    have "runs b (commit_body k t s) (\<lambda>i s'. pm_inv s' \<and> committed_to s k t i s') (\<lambda>_ s'. s' = s)"
    proof (rule commit_body_spec[OF inv Some _ _ b])
      show "\<forall>x\<in>set (pt_transfers t). \<forall>y. map_of (pm_transfers s) x = Some y \<longrightarrow> xf_completed y"
        using check_transfers_Ok[of "pm_transfers s" "pt_transfers t"] True by fastforce
      show "\<forall>i\<in>set (pt_representations t). \<exists>r. map_of (pm_representations s) i = Some r \<and> rep_device r"
        using check_on_device_Ok True by blast
    qed
    with True Some show ?thesis by (simp add: commit_transition_body)
  next
    case False
    with Some guards(1,2) show ?thesis
      by (cases "check_transfers (pm_transfers s) (pt_transfers t)";
          cases "check_on_device (pm_representations s) (pt_representations t)")
        (auto simp: commit_transition_body)
  qed
qed

lemma check_on_device_all:
  "\<forall>i\<in>set ids. \<exists>r. map_of rs i = Some r \<and> rep_device r \<Longrightarrow> check_on_device rs ids = Ok ()"
  by (induction ids) auto

lemma pm_inv_put_table:
  assumes inv: "pm_inv s" and "map_of (pm_bindings s) c = Some b" and "table_matches (pm_representations s) b tb"
  shows "pm_inv (s\<lparr>pm_block_tables := hm_put c tb (pm_block_tables s),
     pm_metrics := (pm_metrics s)\<lparr>mapped_publications := p\<rparr>\<rparr>)"
  using core_put_table[OF pm_inv_core[OF inv] assms(2,3)] inv
  by (simp add: pm_inv_def metrics_synced_iff device_used_def host_used_def protected_device_bytes_def
      growth_bytes_def transition_bytes_def detached_transfer_reserved_bytes_def warm_bytes_def)

definition published ::
  "PhysicalManager \<Rightarrow> PreparedTransitionId \<Rightarrow> nat \<Rightarrow> ActiveBindingId \<times> DeviceBlockTableId \<Rightarrow> PhysicalManager \<Rightarrow> bool" where
  "published s k x it s' \<longleftrightarrow> (\<exists>t b tb. map_of (pm_transitions s) k = Some t
     \<and> map_of (pm_bindings s') (pt_context t) = Some b \<and> ab_id b = fst it
     \<and> ab_mapping b = pt_mapping t \<and> ab_representations b = pt_representations t
     \<and> map_of (pm_block_tables s') (pt_context t) = Some tb \<and> dt_id tb = snd it \<and> dt_executor_mapping tb = x
     \<and> table_matches (pm_representations s') b tb)"

lemma commit_mapped_transition_spec:
  assumes inv: "pm_inv s" and b: "u64_max < pm_next_id s + 2 \<longrightarrow> b"
  shows "runs b (commit_mapped_transition k v x s) (\<lambda>it s'. pm_inv s' \<and> published s k x it s') (\<lambda>_ s'. s' = s)"
proof (cases "map_of (pm_transitions s) k")
  case None
  then show ?thesis by (simp add: commit_mapped_transition_def)
next
  case t: (Some t)
  note guards = commit_guards[OF inv t]
  let ?ids = "pt_representations t"
  show ?thesis
  proof (cases "pt_revision t = v \<and> check_transfers (pm_transfers s) (pt_transfers t) = Ok ()")
    case False
    with t guards(1) show ?thesis
      by (cases "check_transfers (pm_transfers s) (pt_transfers t)") (auto simp: commit_mapped_transition_def)
  next
    case ok: True
    show ?thesis
    proof (cases "blocks_of (pm_representations s) TransferPending ?ids")
      case (Err e)
      with t ok show ?thesis by (simp add: commit_mapped_transition_def)
    next
      case Abort
      with guards(3) show ?thesis by blast
    next
      case blocks: (Ok bs)
      note dev = blocks_of_Ok[OF blocks]
      let ?s = "s\<lparr>pm_next_id := pm_next_id s + 1\<rparr>"
      have inv1: "pm_inv ?s" by (rule pm_inv_next_id[OF inv]) simp
      have t1: "map_of (pm_transitions ?s) k = Some t" using t by simp
      have moved: "\<forall>x\<in>set (pt_transfers t). \<forall>y. map_of (pm_transfers ?s) x = Some y \<longrightarrow> xf_completed y"
        using check_transfers_Ok[of "pm_transfers s" "pt_transfers t"] ok by fastforce
      have dev1: "\<forall>i\<in>set ?ids. \<exists>r. map_of (pm_representations ?s) i = Some r \<and> rep_device r" using dev by simp
      have b1: "u64_max < pm_next_id ?s + 1 \<longrightarrow> b" using b by simp
      have eq: "commit_transition k v ?s = commit_body k t ?s"
        using t ok check_on_device_all[OF dev1] by (simp add: commit_transition_body)
      show ?thesis
        unfolding commit_mapped_transition_def t option.case
        using ok
      proof (simp add: blocks, intro take_id_bind)
        show "u64_max < pm_next_id s + 1 \<longrightarrow> b" using b by auto
        show "runs b (and_then (commit_transition k v ?s) (\<lambda>binding s'.
             (s'\<lparr>pm_block_tables := hm_put (pt_context t) \<lparr>dt_id = pm_next_id s, dt_binding = binding,
                   dt_mapping = pt_mapping t, dt_executor_mapping = x, dt_blocks = bs\<rparr> (pm_block_tables s'),
                 pm_metrics := (pm_metrics s')\<lparr>mapped_publications := Suc (mapped_publications (pm_metrics s'))\<rparr>\<rparr>,
               Ok (binding, pm_next_id s)))) (\<lambda>it s'. pm_inv s' \<and> published s k x it s') (\<lambda>_ s'. s' = s)"
          unfolding eq
        proof (rule runs_and_then[OF commit_body_spec[OF inv1 t1 moved dev1 b1]], elim conjE)
          fix i s' assume inv': "pm_inv s'" and com: "committed_to ?s k t i s'"
          let ?b = "\<lparr>ab_id = i, ab_mapping = pt_mapping t, ab_representations = ?ids\<rparr>"
          let ?tb = "\<lparr>dt_id = pm_next_id s, dt_binding = i, dt_mapping = pt_mapping t, dt_executor_mapping = x, dt_blocks = bs\<rparr>"
          from com have bind: "map_of (pm_bindings s') (pt_context t) = Some ?b" by (simp add: committed_to_def)
          have "table_matches (pm_representations s) ?b ?tb" using dev by (simp add: table_matches_def)
          moreover have "shapes_kept (pm_representations s) (pm_representations s')"
            using com copies_kept_shapes by (simp add: committed_to_def)
          ultimately have match: "table_matches (pm_representations s') ?b ?tb" using table_matches_kept by blast
          from pm_inv_put_table[OF inv' bind match] bind match t
          show "runs b (s'\<lparr>pm_block_tables := hm_put (pt_context t) ?tb (pm_block_tables s'),
                 pm_metrics := (pm_metrics s')\<lparr>mapped_publications := Suc (mapped_publications (pm_metrics s'))\<rparr>\<rparr>,
               Ok (i, pm_next_id s)) (\<lambda>it s'. pm_inv s' \<and> published s k x it s') (\<lambda>_ s'. s' = s)"
            by (auto simp: published_def)
        qed
      qed
    qed
  qed
qed

lemma abort_transition_spec:
  assumes inv: "pm_inv s"
  shows "runs False (abort_transition k s) (\<lambda>_. pm_inv) (\<lambda>_. pm_inv)"
proof (cases "map_of (pm_transitions s) k")
  case None
  with inv show ?thesis by (simp add: abort_transition_def)
next
  case (Some t)
  let ?s1 = "s\<lparr>pm_transitions := hm_del k (pm_transitions s)\<rparr>"
  have det_m: "detached_ok xs \<Longrightarrow> detach_transfers ts xs = Some m \<Longrightarrow> detached_ok m" for ts xs m
  proof (induction ts arbitrary: xs)
    case (Cons a ts)
    from Cons.prems(2) obtain y where y: "map_of xs a = Some y" by (auto split: option.splits)
    from Cons.prems(1) have "detached_ok (hm_del a xs)" by (auto simp: detached_ok_def)
    moreover from Cons.prems(1) have "detached_ok (hm_put a (y\<lparr>xf_detached := True\<rparr>) xs)" if "\<not> xf_completed y"
      using that by (auto simp: detached_ok_def)
    ultimately show ?case using Cons.IH Cons.prems(2) y by (auto split: if_splits)
  qed simp
  from core_detach_transfers[OF core_drop_transition[OF pm_inv_core[OF inv] Some]]
  obtain m where m: "detach_transfers (pt_transfers t) (pm_transfers ?s1) = Some m"
    and c: "pm_core (?s1\<lparr>pm_transfers := m\<rparr>) no_debt (count_list (pt_representations t)) no_debt no_debt" by blast
  from pay_reservations[OF c] obtain rs where
    loop: "for_reps dec_reservations (pt_representations t) (?s1\<lparr>pm_transfers := m\<rparr>)
        = (?s1\<lparr>pm_transfers := m, pm_representations := rs\<rparr>, Ok ())"
    and c2: "pm_core (?s1\<lparr>pm_transfers := m, pm_representations := rs\<rparr>) no_debt no_debt no_debt no_debt" by blast
  have "detached_ok m" using det_m[OF _ m] inv by (simp add: pm_inv_def)
  then show ?thesis
    using Some m loop c2
    by (simp add: abort_transition_def Let_def release_transition_refs_def pm_inv_refresh)
qed

end
