(* ===== verification/Physical_Manager_Props.thy ===== *)
theory Physical_Manager_Props
  imports Physical_Manager_Inv
begin

text \<open>
  The physical manager as a state machine, and its properties: capacity, exact ownership, no
  panics, block tables, commit and abort, eviction, metrics, and three behaviours of the code
  that its callers have to live with (a preparation that evicts its own member, growth
  reservations that are overcommitted, and records that are never removed).
\<close>

section \<open>The machine\<close>

datatype pm_op =
    PmRegister EvaluatedPrefixId Component nat nat Tier nat
  | PmReleaseLogical PhysicalRepresentationId
  | PmReserveGrowth nat
  | PmReleaseGrowth GrowthReservationId
  | PmPrepare LogicalContextId nat EvaluatedPrefixId nat ComponentMask "PhysicalRepresentationId list" bool
  | PmCompleteTransfer TransferId bool
  | PmCompleteRecompute PreparedTransitionId PhysicalRepresentationId
  | PmCommit PreparedTransitionId nat
  | PmCommitMapped PreparedTransitionId nat nat
  | PmAbort PreparedTransitionId
  | PmPublish LogicalContextId ActiveBindingId nat
  | PmUnbind LogicalContextId
  | PmReleaseBinding LogicalContextId
  | PmDemoteHost PhysicalRepresentationId
  | PmDemoteStorage PhysicalRepresentationId
  | PmEvict PhysicalRepresentationId Tier

definition forget :: "'s \<times> ('e, 'a) outcome \<Rightarrow> 's \<times> ('e, unit) outcome" where
  "forget r = and_then r (\<lambda>_ s. (s, Ok ()))"

fun pm_run :: "pm_op \<Rightarrow> PhysicalManager \<Rightarrow> PhysicalManager \<times> (pm_error, unit) outcome" where
  "pm_run (PmRegister m c e n t u) s = forget (pm_register m c e n t u s)"
| "pm_run (PmReleaseLogical i) s = release_logical_reference i s"
| "pm_run (PmReserveGrowth n) s = forget (reserve_growth n s)"
| "pm_run (PmReleaseGrowth i) s = release_growth i s"
| "pm_run (PmPrepare c v m e req ids allow) s = forget (prepare_transition c v m e req ids allow s)"
| "pm_run (PmCompleteTransfer i ok) s = complete_transfer i ok s"
| "pm_run (PmCompleteRecompute k i) s = complete_recompute k i s"
| "pm_run (PmCommit k v) s = forget (commit_transition k v s)"
| "pm_run (PmCommitMapped k v x) s = forget (commit_mapped_transition k v x s)"
| "pm_run (PmAbort k) s = abort_transition k s"
| "pm_run (PmPublish c b x) s = forget (publish_device_block_table c b x s)"
| "pm_run (PmUnbind c) s = unbind c s"
| "pm_run (PmReleaseBinding c) s = release_binding c s"
| "pm_run (PmDemoteHost i) s = demote_to_host i s"
| "pm_run (PmDemoteStorage i) s = demote_to_storage i s"
| "pm_run (PmEvict i t) s = evict i t s"

text \<open>How many fresh ids an operation may draw; the counter panics when it is used up.\<close>

fun pm_draws :: "pm_op \<Rightarrow> nat" where
  "pm_draws (PmPrepare c v m e req ids allow) = 1 + length ids"
| "pm_draws (PmCommitMapped k v x) = 2"
| "pm_draws (PmRegister m c e n t u) = 1"
| "pm_draws (PmReserveGrowth n) = 1"
| "pm_draws (PmCommit k v) = 1"
| "pm_draws (PmPublish c b x) = 1"
| "pm_draws _ = 0"

definition pm_init :: "PhysicalManager \<Rightarrow> bool" where
  "pm_init s \<longleftrightarrow> (\<exists>cap. cap_device_bytes cap \<le> u64_max \<and> cap_host_bytes cap \<le> u64_max \<and> s = pm_new cap)"

inductive pm_step :: "PhysicalManager \<Rightarrow> PhysicalManager \<Rightarrow> bool" where
  pm_stepI: "snd (pm_run op s) \<noteq> Abort \<Longrightarrow> pm_step s (fst (pm_run op s))"

inductive_cases pm_stepE: "pm_step s t"

lemma runs_forget: "runs b (forget r) (\<lambda>_. P) E = runs b r (\<lambda>_. P) E"
  by (simp add: runs_def forget_def and_then_def split: outcome.split)

lemma pm_run_spec:
  assumes inv: "pm_inv s" and b: "u64_max < pm_next_id s + pm_draws op \<or> u64_max < pm_clock s + 1 \<longrightarrow> b"
  shows "runs b (pm_run op s) (\<lambda>_. pm_inv) (\<lambda>_. pm_inv)"
proof (cases op)
  case (PmRegister m c e n t u)
  with pm_register_spec[OF inv] b show ?thesis by (simp add: runs_forget)
next
  case (PmReserveGrowth n)
  with reserve_growth_spec[OF inv] b show ?thesis by (simp add: runs_forget)
next
  case (PmPrepare c v m e req ids allow)
  with prepare_transition_spec[OF inv] b show ?thesis by (simp add: runs_forget add.assoc)
next
  case (PmCommit k v)
  have "runs b (commit_transition k v s) (\<lambda>_. pm_inv) (\<lambda>_. pm_inv)"
    by (rule runs_mono[OF commit_transition_spec[OF inv]]) (use b PmCommit inv in auto)
  with PmCommit show ?thesis by (simp add: runs_forget)
next
  case (PmCommitMapped k v x)
  have "runs b (commit_mapped_transition k v x s) (\<lambda>_. pm_inv) (\<lambda>_. pm_inv)"
    by (rule runs_mono[OF commit_mapped_transition_spec[OF inv]]) (use b PmCommitMapped inv in auto)
  with PmCommitMapped show ?thesis by (simp add: runs_forget)
next
  case (PmPublish c k x)
  with publish_spec[OF inv] b show ?thesis by (simp add: runs_forget)
qed (use release_logical_reference_spec[OF inv] release_growth_spec[OF inv] complete_transfer_spec[OF inv]
    complete_recompute_spec[OF inv] abort_transition_spec[OF inv] unbind_spec[OF inv] release_binding_eq
    demote_to_host_spec[OF inv] demote_to_storage_spec[OF inv] evict_spec[OF inv] in \<open>auto intro: runs_weaken\<close>)

lemma pm_new_inv: "pm_init s \<Longrightarrow> pm_inv s"
  by (auto simp: pm_init_def pm_new_def pm_inv_def pm_core_def reps_ok_def refs_ok_def owners_ok_def bytes_ok_def
      composites_ok_def tables_ok_def ids_below_def capacity_ok_def detached_ok_def bound_count_def reserved_count_def
      transfer_count_def owner_count_def device_bytes_def host_bytes_def metrics_synced_iff wrapping_sum_def
      device_used_def host_used_def protected_device_bytes_def growth_bytes_def transition_bytes_def
      detached_transfer_reserved_bytes_def warm_bytes_def)

lemma pm_step_inv:
  assumes "pm_step s t" and inv: "pm_inv s"
  shows "pm_inv t"
  using assms(1) by (rule pm_stepE) (use runs_any[OF pm_run_spec[OF inv, where b = True]] in blast)

interpretation pm: safe_machine pm_init pm_step pm_inv
  by unfold_locales (auto intro: pm_new_inv pm_step_inv)

text \<open>Running a script of operations; used for the concrete examples.\<close>

definition pm_exec :: "pm_op list \<Rightarrow> PhysicalManager \<Rightarrow> PhysicalManager" where
  "pm_exec ops s = foldl (\<lambda>s op. fst (pm_run op s)) s ops"

fun pm_clean :: "pm_op list \<Rightarrow> PhysicalManager \<Rightarrow> bool" where
  "pm_clean [] s = True"
| "pm_clean (op # ops) s = (case snd (pm_run op s) of Abort \<Rightarrow> False | _ \<Rightarrow> pm_clean ops (fst (pm_run op s)))"

lemma pm_exec_reach:
  "reach pm_init pm_step s \<Longrightarrow> pm_clean ops s \<Longrightarrow> reach pm_init pm_step (pm_exec ops s)"
proof (induction ops arbitrary: s)
  case Nil
  then show ?case by (simp add: pm_exec_def)
next
  case (Cons op ops)
  from Cons.prems have "snd (pm_run op s) \<noteq> Abort" "pm_clean ops (fst (pm_run op s))"
    by (auto split: outcome.splits)
  with Cons show ?case by (auto simp: pm_exec_def intro: reach_step pm_stepI)
qed

definition small_cap :: Capacity where
  "small_cap = \<lparr>cap_device_bytes = 100, cap_host_bytes = 100\<rparr>"

lemma small_cap_init: "pm_init (pm_new small_cap)"
  unfolding pm_init_def by (rule exI[of _ small_cap]) (simp add: small_cap_def u64_max_def)

lemma small_cap_reach: "reach pm_init pm_step (pm_new small_cap)"
  by (rule reach_init) (rule small_cap_init)

text \<open>A cold context whose global cache is on the host, brought to the device and committed.\<close>

definition demo_load :: "pm_op list" where
  "demo_load = [PmRegister [7] GlobalKv 4 60 Host 1, PmRegister [9] GlobalKv 2 50 Device 0,
     PmPrepare 5 0 [7] 4 mask_GLOBAL_KV [1] False, PmCompleteTransfer 4 True]"

definition demo_loaded :: PhysicalManager where
  "demo_loaded = pm_exec demo_load (pm_new small_cap)"

definition demo_bound :: PhysicalManager where
  "demo_bound = pm_exec (demo_load @ [PmCommitMapped 3 0 77]) (pm_new small_cap)"

lemma demo_loaded_reach: "reach pm_init pm_step demo_loaded"
  unfolding demo_loaded_def
  by (rule pm_exec_reach[OF small_cap_reach]) code_simp

lemma demo_bound_reach: "reach pm_init pm_step demo_bound"
  unfolding demo_bound_def
  by (rule pm_exec_reach[OF small_cap_reach]) code_simp

section \<open>Properties\<close>

lemma list_all2_set2: "list_all2 P xs ys \<Longrightarrow> y \<in> set ys \<Longrightarrow> \<exists>x\<in>set xs. P x y"
  by (induction rule: list_all2_induct) auto

lemma owned_pos:
  assumes "hm_ok m" and "map_of m k = Some v" and "x \<in> set (g v)"
  shows "0 < hm_sum (\<lambda>v. count_list (g v) x) m"
proof -
  have "0 < count_list (g v) x" using assms(3) count_list_pos[of "g v" x] by simp
  with hm_sum_member[OF assms(1,2), of "\<lambda>v. count_list (g v) x"] show ?thesis by linarith
qed

text \<open>C12: In every reachable state the device and the host copies fit their tiers, and the sums the
  code computes over its tables, which wrap on overflow, are exact.\<close>

theorem pm_capacity_respected:
  assumes "reach pm_init pm_step s"
  shows "device_bytes (pm_representations s) \<le> cap_device_bytes (pm_capacity s)
     \<and> host_bytes (pm_representations s) \<le> cap_host_bytes (pm_capacity s)
     \<and> device_used s = device_bytes (pm_representations s) \<and> host_used s = host_bytes (pm_representations s)"
  using core_capacity[OF pm_inv_core[OF pm.reach_inv[OF assms]]] capacity_exact by (auto simp: capacity_ok_def)

theorem pm_capacity_respected_witness:
  "device_bytes (pm_representations demo_loaded) \<le> cap_device_bytes (pm_capacity demo_loaded)
     \<and> device_bytes (pm_representations demo_loaded) = 60"
  using pm_capacity_respected[OF demo_loaded_reach]
  by (auto simp: atomize_not) code_simp

text \<open>C13: The reference counts of a representation are exactly the number of its occurrences in active
  bindings, in prepared transitions and among incomplete transfers; a representation that is bound is on
  the device; what is bound, reserved or in transfer exists.\<close>

theorem pm_ownership_exact:
  assumes "reach pm_init pm_step s"
  shows "(case map_of (pm_representations s) i of
       None \<Rightarrow> bound_count (pm_bindings s) i = 0 \<and> reserved_count (pm_transitions s) i = 0
         \<and> transfer_count (pm_transfers s) i = 0
     | Some r \<Rightarrow> rep_id r = i \<and> rc_active (rep_refs r) = bound_count (pm_bindings s) i
         \<and> rc_reservations (rep_refs r) = reserved_count (pm_transitions s) i
         \<and> rc_transfers (rep_refs r) = transfer_count (pm_transfers s) i
         \<and> (0 < bound_count (pm_bindings s) i \<longrightarrow> rep_device r))"
  using core_refs[OF pm_inv_core[OF pm.reach_inv[OF assms]], of i]
    core_refs_none[OF pm_inv_core[OF pm.reach_inv[OF assms]], of i]
  by (auto split: option.split)

theorem pm_ownership_exact_witness:
  "(case map_of (pm_representations demo_bound) 1 of
       None \<Rightarrow> False
     | Some r \<Rightarrow> rc_active (rep_refs r) = bound_count (pm_bindings demo_bound) 1 \<and> rep_device r)
   \<and> bound_count (pm_bindings demo_bound) 1 = 1"
proof -
  have 1: "bound_count (pm_bindings demo_bound) 1 = 1" by code_simp
  have 2: "map_of (pm_representations demo_bound) 1 \<noteq> None" by code_simp
  from pm_ownership_exact[OF demo_bound_reach, of 1] 1 2 show ?thesis by (auto split: option.splits)
qed

text \<open>C14: No operation panics in a reachable state, as long as the id counter and the clock have not used
  up their 64 bits: every index into a table, every \<open>unwrap\<close> and every \<open>expect\<close> succeeds, and the loop
  that makes room ends.\<close>

theorem pm_never_panics:
  assumes "reach pm_init pm_step s" and "pm_next_id s + pm_draws op \<le> u64_max" and "pm_clock s < u64_max"
  shows "snd (pm_run op s) \<noteq> Abort"
  by (rule runs_not_Abort[OF pm_run_spec[OF pm.reach_inv[OF assms(1)]]]) (use assms(2,3) in linarith)

theorem pm_never_panics_witness:
  "snd (pm_run (PmCommitMapped 3 0 77) demo_loaded) \<noteq> Abort"
proof (rule pm_never_panics[OF demo_loaded_reach])
  have "pm_next_id demo_loaded = 5" "pm_clock demo_loaded = 2" by code_simp+
  then show "pm_next_id demo_loaded + pm_draws (PmCommitMapped 3 0 77) \<le> u64_max" "pm_clock demo_loaded < u64_max"
    by (simp_all add: u64_max_def)
qed

text \<open>A published device block table always describes the current binding of its context: it carries
  the binding's id and prefix, and its blocks are, in order, the bound representations with their
  component and size; each of them exists, is on the device and is a copy of that prefix.\<close>

theorem pm_block_tables_current:
  assumes "reach pm_init pm_step s" and "device_block_table s c = Some tb"
  shows "\<exists>b. map_of (pm_bindings s) c = Some b \<and> dt_binding tb = ab_id b \<and> dt_mapping tb = ab_mapping b
     \<and> map db_representation (dt_blocks tb) = ab_representations b
     \<and> (\<forall>blk\<in>set (dt_blocks tb). \<exists>r. map_of (pm_representations s) (db_representation blk) = Some r
          \<and> rep_device r \<and> rep_mapping r = dt_mapping tb \<and> rep_component r = db_component blk
          \<and> rep_bytes r = db_bytes blk)"
proof -
  note core = pm_inv_core[OF pm.reach_inv[OF assms(1)]]
  from core assms(2) obtain b where b: "map_of (pm_bindings s) c = Some b" "table_matches (pm_representations s) b tb"
    by (auto simp: pm_core_def tables_ok_def device_block_table_def)
  from b(2) have all2: "list_all2 (\<lambda>i blk. block_of (pm_representations s) i = Some blk) (ab_representations b) (dt_blocks tb)"
    by (simp add: table_matches_def)
  then have "map db_representation (dt_blocks tb) = ab_representations b"
    by (induction rule: list_all2_induct) (auto simp: block_of_def)
  moreover have "\<exists>r. map_of (pm_representations s) (db_representation blk) = Some r
          \<and> rep_device r \<and> rep_mapping r = dt_mapping tb \<and> rep_component r = db_component blk
          \<and> rep_bytes r = db_bytes blk" if "blk \<in> set (dt_blocks tb)" for blk
  proof -
    from list_all2_set2[OF all2 that] obtain i where
      i: "i \<in> set (ab_representations b)" "block_of (pm_representations s) i = Some blk" by blast
    then obtain r where r: "map_of (pm_representations s) i = Some r" "db_representation blk = i"
      "db_component blk = rep_component r" "db_bytes blk = rep_bytes r" by (auto simp: block_of_def)
    from core have ok: "hm_ok (pm_bindings s)" by (simp add: pm_core_def)
    have "0 < bound_count (pm_bindings s) i"
      using owned_pos[OF ok b(1), of i ab_representations] i(1) by (simp add: bound_count_def)
    with core_refs[OF core r(1)] have "rep_device r" by simp
    moreover from core_composites(1)[OF core b(1)] i(1) r(1) have "rep_mapping r = ab_mapping b"
      by (fastforce simp: composite_def)
    ultimately show ?thesis using r b(2) by (simp add: table_matches_def)
  qed
  ultimately show ?thesis using b by (auto simp: table_matches_def)
qed

theorem pm_block_tables_current_witness:
  "(case device_block_table demo_bound 5 of None \<Rightarrow> False | Some tb \<Rightarrow>
      map db_representation (dt_blocks tb) = [1] \<and> (\<exists>b. map_of (pm_bindings demo_bound) 5 = Some b \<and> dt_binding tb = ab_id b))"
proof -
  have "device_block_table demo_bound 5 \<noteq> None" by code_simp
  then obtain tb where tb: "device_block_table demo_bound 5 = Some tb" by auto
  have "map_option (\<lambda>tb. map db_representation (dt_blocks tb)) (device_block_table demo_bound 5) = Some [1]" by code_simp
  with tb pm_block_tables_current[OF demo_bound_reach tb] show ?thesis by auto
qed

text \<open>A successful commit binds the context of the transition, and no other, to exactly the prepared
  representations, all of them on the device; the transition, its transfers and the stale block table of the
  context are gone; no copy of any representation is gained or lost.\<close>

theorem pm_commit_installs_binding:
  assumes "reach pm_init pm_step s" and "commit_transition k v s = (s', Ok i)"
  shows "\<exists>t. map_of (pm_transitions s) k = Some t \<and> pt_revision t = v
     \<and> map_of (pm_bindings s') = (map_of (pm_bindings s))(pt_context t \<mapsto>
         \<lparr>ab_id = i, ab_mapping = pt_mapping t, ab_representations = pt_representations t\<rparr>)
     \<and> map_of (pm_transitions s') = (map_of (pm_transitions s))(k := None)
     \<and> map_of (pm_block_tables s') = (map_of (pm_block_tables s))(pt_context t := None)
     \<and> (\<forall>x\<in>set (pt_transfers t). map_of (pm_transfers s') x = None)
     \<and> (\<forall>j\<in>set (pt_representations t). \<exists>r. map_of (pm_representations s') j = Some r \<and> rep_device r)
     \<and> copies_kept (pm_representations s) (pm_representations s')"
proof -
  have "runs True (commit_transition k v s)
     (\<lambda>i s'. pm_inv s' \<and> (\<exists>t. map_of (pm_transitions s) k = Some t \<and> pt_revision t = v \<and> committed_to s k t i s'))
     (\<lambda>_ s'. s' = s)"
    by (rule commit_transition_spec[OF pm.reach_inv[OF assms(1)]]) simp
  from runs_Ok[OF this, of i] assms(2) obtain t where "map_of (pm_transitions s) k = Some t" "pt_revision t = v"
    "committed_to s k t i s'" by auto
  then show ?thesis unfolding committed_to_def by (intro exI[of _ t]) (simp del: fun_upd_apply)
qed

theorem pm_commit_installs_binding_witness:
  "map_of (pm_bindings (fst (commit_transition 3 0 demo_loaded))) 5
     = Some \<lparr>ab_id = 5, ab_mapping = [7], ab_representations = [1]\<rparr>"
proof -
  have ok: "snd (commit_transition 3 0 demo_loaded) = Ok 5" by code_simp
  obtain t where t: "map_of (pm_transitions demo_loaded) 3 = Some t" and
    f: "pt_context t = 5" "pt_mapping t = [7]" "pt_representations t = [1]"
  proof -
    have "map_option (\<lambda>t. (pt_context t, pt_mapping t, pt_representations t)) (map_of (pm_transitions demo_loaded) 3)
       = Some (5, [7], [1])" by code_simp
    then show ?thesis using that by auto
  qed
  from ok have "commit_transition 3 0 demo_loaded = (fst (commit_transition 3 0 demo_loaded), Ok 5)"
    by (metis prod.collapse)
  from pm_commit_installs_binding[OF demo_loaded_reach this] t f show ?thesis by auto
qed

text \<open>A commit that reports an error, mapped or not, changes nothing at all.\<close>

theorem pm_failed_commit_changes_nothing:
  assumes "reach pm_init pm_step s"
  shows "(snd (commit_transition k v s) = Err e \<longrightarrow> fst (commit_transition k v s) = s)
     \<and> (snd (commit_mapped_transition k v x s) = Err e \<longrightarrow> fst (commit_mapped_transition k v x s) = s)"
proof -
  note inv = pm.reach_inv[OF assms]
  have "runs True (commit_transition k v s)
     (\<lambda>i s'. pm_inv s' \<and> (\<exists>t. map_of (pm_transitions s) k = Some t \<and> pt_revision t = v \<and> committed_to s k t i s'))
     (\<lambda>_ s'. s' = s)"
    by (rule commit_transition_spec[OF inv]) simp
  moreover have "runs True (commit_mapped_transition k v x s) (\<lambda>it s'. pm_inv s' \<and> published s k x it s') (\<lambda>_ s'. s' = s)"
    by (rule commit_mapped_transition_spec[OF inv]) simp
  ultimately show ?thesis by (auto dest: runs_Err)
qed

definition demo_pending :: PhysicalManager where
  "demo_pending = pm_exec (take 3 demo_load) (pm_new small_cap)"

lemma demo_pending_reach: "reach pm_init pm_step demo_pending"
  unfolding demo_pending_def by (rule pm_exec_reach[OF small_cap_reach]) code_simp

theorem pm_failed_commit_changes_nothing_witness:
  "snd (commit_mapped_transition 3 0 77 demo_pending) = Err TransferPending
     \<and> fst (commit_mapped_transition 3 0 77 demo_pending) = demo_pending"
proof -
  have e: "snd (commit_mapped_transition 3 0 77 demo_pending) = Err TransferPending" by code_simp
  from pm_failed_commit_changes_nothing[OF demo_pending_reach, of 3 0 TransferPending 77] e show ?thesis by blast
qed

lemma detach_transfers_effect:
  "detach_transfers ts xs = Some m \<Longrightarrow> distinct ts \<Longrightarrow>
     map_of m x = (if x \<in> set ts
        then Option.bind (map_of xs x) (\<lambda>y. if xf_completed y then None else Some (y\<lparr>xf_detached := True\<rparr>))
        else map_of xs x)"
proof (induction ts arbitrary: xs)
  case (Cons a ts)
  from Cons.prems(1) obtain y where y: "map_of xs a = Some y" by (auto split: option.splits)
  from Cons.prems(2) have a: "a \<notin> set ts" "distinct ts" by simp_all
  show ?case
  proof (cases "xf_completed y")
    case True
    with Cons.prems(1) y have "detach_transfers ts (hm_del a xs) = Some m" by simp
    from Cons.IH[OF this a(2)] y True a(1) show ?thesis by auto
  next
    case False
    with Cons.prems(1) y have "detach_transfers ts (hm_put a (y\<lparr>xf_detached := True\<rparr>) xs) = Some m" by simp
    from Cons.IH[OF this a(2)] y False a(1) show ?thesis by auto
  qed
qed simp

lemma distinct_if_count_le_1: "(\<And>x. count_list xs x \<le> 1) \<Longrightarrow> distinct xs"
proof (induction xs)
  case (Cons a xs)
  have "count_list xs x \<le> 1" for x using Cons.prems[of x] by (auto split: if_splits)
  moreover have "count_list xs a = 0" using Cons.prems[of a] by simp
  ultimately show ?case using Cons.IH by (simp add: count_list_0_iff)
qed simp

lemma transition_transfers_distinct:
  assumes core: "pm_core s A R X no_debt" and t: "map_of (pm_transitions s) k = Some t"
  shows "distinct (pt_transfers t)"
proof -
  from core have ok: "hm_ok (pm_transitions s)" by (simp add: pm_core_def ids_below_def)
  have "count_list (pt_transfers t) x \<le> 1" for x
  proof -
    have "count_list (pt_transfers t) x \<le> owner_count (pm_transitions s) x"
      using hm_sum_member[OF ok t, of "\<lambda>t. count_list (pt_transfers t) x"] by (simp add: owner_count_def)
    moreover have "owner_count (pm_transitions s) x \<le> 1"
      using core_owner[OF core, of x] by (cases "owner_count (pm_transitions s) x") auto
    ultimately show ?thesis by linarith
  qed
  then show ?thesis by (rule distinct_if_count_le_1)
qed

text \<open>Aborting a transition leaves every binding and block table alone; completed transfers are dropped,
  the others stay, detached, and no representation gains or loses a copy.\<close>

theorem pm_abort_effect:
  assumes "reach pm_init pm_step s" and "abort_transition k s = (s', Ok u)"
  shows "\<exists>t. map_of (pm_transitions s) k = Some t
     \<and> map_of (pm_transitions s') = (map_of (pm_transitions s))(k := None)
     \<and> pm_bindings s' = pm_bindings s \<and> pm_block_tables s' = pm_block_tables s
     \<and> copies_kept (pm_representations s) (pm_representations s')
     \<and> (\<forall>x\<in>set (pt_transfers t). map_of (pm_transfers s') x = Option.bind (map_of (pm_transfers s) x)
          (\<lambda>y. if xf_completed y then None else Some (y\<lparr>xf_detached := True\<rparr>)))
     \<and> (\<forall>x. x \<notin> set (pt_transfers t) \<longrightarrow> map_of (pm_transfers s') x = map_of (pm_transfers s) x)"
proof -
  note core = pm_inv_core[OF pm.reach_inv[OF assms(1)]]
  from assms(2) obtain t where t: "map_of (pm_transitions s) k = Some t"
    by (auto simp: abort_transition_def split: option.splits)
  let ?s1 = "s\<lparr>pm_transitions := hm_del k (pm_transitions s)\<rparr>"
  from core_detach_transfers[OF core_drop_transition[OF core t]]
  obtain m where m: "detach_transfers (pt_transfers t) (pm_transfers ?s1) = Some m"
    and c: "pm_core (?s1\<lparr>pm_transfers := m\<rparr>) no_debt (count_list (pt_representations t)) no_debt no_debt" by blast
  from pay_reservations[OF c] obtain rs where
    loop: "for_reps dec_reservations (pt_representations t) (?s1\<lparr>pm_transfers := m\<rparr>)
        = (?s1\<lparr>pm_transfers := m, pm_representations := rs\<rparr>, Ok ())"
    and get: "\<forall>i. map_of rs i = map_option (dec_reservations ^^ count_list (pt_representations t) i)
        (map_of (pm_representations (?s1\<lparr>pm_transfers := m\<rparr>)) i)" by blast
  have kept: "copies_kept (pm_representations s) rs"
    by (rule copies_kept_loop[OF loops_same_copy(2), where n = "count_list (pt_representations t)"]) (use get in simp)
  from assms(2) have s': "s' = fst (abort_transition k s)" by simp
  have f: "pm_transitions s' = hm_del k (pm_transitions s)" "pm_bindings s' = pm_bindings s"
    "pm_block_tables s' = pm_block_tables s" "pm_representations s' = rs" "pm_transfers s' = m"
    unfolding s' using t m loop by (simp_all add: abort_transition_def Let_def release_transition_refs_def)
  from m have m': "detach_transfers (pt_transfers t) (pm_transfers s) = Some m" by simp
  note eff = detach_transfers_effect[OF m' transition_transfers_distinct[OF core t]]
  show ?thesis using t f kept eff by (intro exI[of _ t]) simp
qed

theorem pm_abort_effect_witness:
  "map_option xf_detached (map_of (pm_transfers (fst (abort_transition 3 demo_pending))) 4) = Some True"
proof -
  have ok: "snd (abort_transition 3 demo_pending) = Ok ()" by code_simp
  have x: "map_option xf_completed (map_of (pm_transfers demo_pending) 4) = Some False" by code_simp
  have ts: "map_option pt_transfers (map_of (pm_transitions demo_pending) 3) = Some [4]" by code_simp
  from ok have "abort_transition 3 demo_pending = (fst (abort_transition 3 demo_pending), Ok ())"
    by (metis prod.collapse)
  from pm_abort_effect[OF demo_pending_reach this] ts x show ?thesis by auto
qed

section \<open>Eviction and metrics\<close>

text \<open>Making room on the device never touches a protected representation, and takes nothing but device
  copies away: every other field of the manager's tables stays as it is.\<close>

theorem pm_making_room_spares_protected:
  assumes "reach pm_init pm_step s" and "ensure_device_space n s = (s', res)"
  shows "(\<forall>i. case map_of (pm_representations s) i of
            None \<Rightarrow> map_of (pm_representations s') i = None
          | Some r \<Rightarrow> map_of (pm_representations s') i = Some r
              \<or> (\<not> protected (rep_refs r) \<and> map_of (pm_representations s') i = Some (r\<lparr>rep_device := False\<rparr>)))
     \<and> pm_bindings s' = pm_bindings s \<and> pm_transitions s' = pm_transitions s \<and> pm_transfers s' = pm_transfers s
     \<and> pm_growth s' = pm_growth s \<and> pm_block_tables s' = pm_block_tables s"
proof -
  have "runs False (ensure_device_space n s) (\<lambda>_. made_room s) (\<lambda>_. made_room s)"
    by (rule runs_mono[OF ensure_device_space_spec[OF pm_inv_core[OF pm.reach_inv[OF assms(1)]]]]) simp_all
  then have room: "made_room s s'" using assms(2) by (cases res) auto
  have "case map_of (pm_representations s) i of
            None \<Rightarrow> map_of (pm_representations s') i = None
          | Some r \<Rightarrow> map_of (pm_representations s') i = Some r
              \<or> (\<not> protected (rep_refs r) \<and> map_of (pm_representations s') i = Some (r\<lparr>rep_device := False\<rparr>))" for i
  proof -
    from room have "rel_option evict_step (map_of (pm_representations s) i) (map_of (pm_representations s') i)"
      by (simp add: made_room_def)
    then show ?thesis
      by (cases "map_of (pm_representations s) i"; cases "map_of (pm_representations s') i") (auto simp: evict_step_def)
  qed
  with made_room_fields[OF room] show ?thesis by blast
qed

theorem pm_making_room_spares_protected_witness:
  "map_of (pm_representations (fst (ensure_device_space 60 demo_bound))) 1 = map_of (pm_representations demo_bound) 1"
proof -
  have p: "map_option (\<lambda>r. protected (rep_refs r)) (map_of (pm_representations demo_bound) 1) = Some True" by code_simp
  then obtain r where r: "map_of (pm_representations demo_bound) 1 = Some r" "protected (rep_refs r)" by auto
  from pm_making_room_spares_protected[OF demo_bound_reach prod.collapse[symmetric], of 60] r
  show ?thesis by (auto dest!: conjunct1 spec[of _ 1])
qed

text \<open>Making room fails only when it must: even with every unprotected device copy evicted the request
  does not fit beside the protected ones.\<close>

theorem pm_making_room_complete:
  assumes "reach pm_init pm_step s" and "snd (ensure_device_space n s) = Err e"
  shows "e = DeviceCapacity
     \<and> cap_device_bytes (pm_capacity s)
        < hm_sum (\<lambda>r. if rep_device r \<and> protected (rep_refs r) then rep_bytes r else 0) (pm_representations s) + n"
proof -
  note core = pm_inv_core[OF pm.reach_inv[OF assms(1)]]
  let ?s = "fst (ensure_device_space n s)"
  let ?f = "\<lambda>r. if rep_device r \<and> protected (rep_refs r) then rep_bytes r else 0"
  from runs_Err[OF ensure_device_space_spec[OF core] assms(2)]
  have room: "made_room s ?s" and full: "\<not> device_fits n ?s" and none: "eviction_candidate ?s = None"
    and e: "e = DeviceCapacity" by auto
  note core' = made_room_core[OF core room]
  have ok: "hm_ok (pm_representations s)" "hm_ok (pm_representations ?s)"
    using core core' by (simp_all add: pm_core_def reps_ok_def)
  have "device_bytes (pm_representations ?s) = hm_sum ?f (pm_representations ?s)"
    unfolding device_bytes_def
  proof (rule hm_sum_cong)
    fix r assume "r \<in> set (hm_values (pm_representations ?s))"
    then show "(if rep_device r then rep_bytes r else 0) = ?f r"
      using none no_candidate[OF ok(2)] hm_values_iff[OF ok(2)] by auto
  qed
  also have "\<dots> = hm_sum ?f (pm_representations s)"
  proof (rule hm_sum_rel[OF ok(2) ok(1), where R = "\<lambda>a b. evict_step b a"])
    from room have rel: "\<forall>i. rel_option evict_step (map_of (pm_representations s) i) (map_of (pm_representations ?s) i)"
      by (simp add: made_room_def)
    show "\<forall>i. rel_option (\<lambda>a b. evict_step b a) (map_of (pm_representations ?s) i) (map_of (pm_representations s) i)"
    proof
      fix i
      show "rel_option (\<lambda>a b. evict_step b a) (map_of (pm_representations ?s) i) (map_of (pm_representations s) i)"
        using rel[rule_format, of i]
        by (cases "map_of (pm_representations s) i"; cases "map_of (pm_representations ?s) i") auto
    qed
  qed (auto simp: evict_step_def)
  finally have bytes: "device_bytes (pm_representations ?s) = hm_sum ?f (pm_representations s)" .
  have used: "device_used ?s = device_bytes (pm_representations ?s)" by (rule capacity_exact(1)[OF core_capacity[OF core']])
  have cap: "cap_device_bytes (pm_capacity s) \<le> u64_max" "pm_capacity ?s = pm_capacity s"
    using core_capacity[OF core] made_room_fields[OF room] by (simp_all add: capacity_ok_def)
  from full used cap have "cap_device_bytes (pm_capacity s) < device_bytes (pm_representations ?s) + n"
    by (auto simp: device_fits_def checked_add_def split: if_splits)
  with bytes e show ?thesis by simp
qed

theorem pm_making_room_complete_witness:
  "cap_device_bytes (pm_capacity demo_bound)
     < hm_sum (\<lambda>r. if rep_device r \<and> protected (rep_refs r) then rep_bytes r else 0) (pm_representations demo_bound) + 41"
proof -
  have "snd (ensure_device_space 41 demo_bound) = Err DeviceCapacity" by code_simp
  from pm_making_room_complete[OF demo_bound_reach this] show ?thesis by simp
qed

text \<open>The victim of an eviction is an unprotected device copy with the least reuse value, among those the
  least recently used, and among those the one registered first, whatever the order of the hash map.\<close>

theorem pm_eviction_order:
  assumes "reach pm_init pm_step s" and "eviction_candidate s = Some c"
  shows "\<exists>r. map_of (pm_representations s) c = Some r \<and> rep_device r \<and> \<not> protected (rep_refs r)
     \<and> (\<forall>j q. map_of (pm_representations s) j = Some q \<longrightarrow> rep_device q \<longrightarrow> \<not> protected (rep_refs q) \<longrightarrow>
          rep_reuse_value r < rep_reuse_value q
        \<or> rep_reuse_value r = rep_reuse_value q \<and> (rep_last_used r < rep_last_used q
        \<or> rep_last_used r = rep_last_used q \<and> c \<le> j))"
proof -
  note core = pm_inv_core[OF pm.reach_inv[OF assms(1)]]
  from core have ok: "reps_ok (pm_next_id s) (pm_representations s)" by (simp add: pm_core_def)
  from eviction_candidate_spec[OF ok assms(2)] obtain r where r: "map_of (pm_representations s) c = Some r" "rep_device r"
    "\<not> protected (rep_refs r)" and least: "\<forall>j q. map_of (pm_representations s) j = Some q \<longrightarrow> rep_device q \<longrightarrow>
       \<not> protected (rep_refs q) \<longrightarrow> eviction_key r \<le> eviction_key q" by blast
  have "rep_reuse_value r < rep_reuse_value q \<or> rep_reuse_value r = rep_reuse_value q \<and> (rep_last_used r < rep_last_used q
        \<or> rep_last_used r = rep_last_used q \<and> c \<le> j)"
    if "map_of (pm_representations s) j = Some q" "rep_device q" "\<not> protected (rep_refs q)" for j q
  proof -
    from least that have "eviction_key r \<le> eviction_key q" by blast
    moreover have "rep_id q = j" "rep_id r = c" using core_refs[OF core that(1)] core_refs[OF core r(1)] by simp_all
    ultimately show ?thesis by (auto simp: eviction_key_def list_le_def)
  qed
  with r show ?thesis by blast
qed

definition demo_warm :: PhysicalManager where
  "demo_warm = pm_exec [PmRegister [1] GlobalKv 1 40 Device 2, PmRegister [2] GlobalKv 1 40 Device 1] (pm_new small_cap)"

lemma demo_warm_reach: "reach pm_init pm_step demo_warm"
  unfolding demo_warm_def by (rule pm_exec_reach[OF small_cap_reach]) code_simp

theorem pm_eviction_order_witness:
  "eviction_candidate demo_warm = Some 2 \<and> (\<exists>r. map_of (pm_representations demo_warm) 2 = Some r \<and> \<not> protected (rep_refs r))"
proof -
  have c: "eviction_candidate demo_warm = Some 2" by code_simp
  from pm_eviction_order[OF demo_warm_reach c] c show ?thesis by blast
qed

text \<open>The capacity metrics are always up to date: after every operation each gauge equals the quantity
  recomputed from the tables.\<close>

theorem pm_metrics_current:
  assumes "reach pm_init pm_step s"
  shows "device_active (pm_metrics s) = protected_device_bytes s
     \<and> device_growth_reserved (pm_metrics s) = growth_bytes s
     \<and> device_transition_reserved (pm_metrics s) = transition_bytes s
     \<and> device_detached_transfer_reserved (pm_metrics s) = detached_transfer_reserved_bytes s
     \<and> device_warm (pm_metrics s) = warm_bytes s
     \<and> metric_host_used (pm_metrics s) = host_bytes (pm_representations s)"
  using pm.reach_inv[OF assms] capacity_exact(2)[OF core_capacity[OF pm_inv_core[OF pm.reach_inv[OF assms]]]]
  by (auto simp: pm_inv_def metrics_synced_iff)

theorem pm_metrics_current_witness:
  "device_active (pm_metrics demo_bound) = protected_device_bytes demo_bound \<and> protected_device_bytes demo_bound = 60"
  using pm_metrics_current[OF demo_bound_reach] by (intro conjI) (blast, code_simp)

section \<open>Behaviours to know about\<close>

text \<open>Preparing a transition may evict a member of the very transition it prepares: the members get their
  reservations only after room has been made. The warm copy of representation 1 is lost although the
  transition names it; the preparation still succeeds, plans no transfer for it, and is not classified as a
  recomputation, so the transition can be neither committed nor repaired, only aborted.\<close>

theorem pm_prepare_can_evict_its_own_member:
  "(let s0 = pm_exec [PmRegister [7] GlobalKv 4 60 Device 1, PmRegister [7] SlidingWindow 4 60 Host 1] (pm_new small_cap);
        r = prepare_transition 5 0 [7] 4 (mask_union mask_GLOBAL_KV mask_SWA) [1, 2] False s0;
        s = fst (complete_transfer 4 True (fst r))
    in snd r = Ok (3, Quiesced, [4])
     \<and> map_option (\<lambda>q. rep_device q \<or> rep_host q \<or> rep_storage q) (pm_representation s0 1) = Some True
     \<and> map_option (\<lambda>q. rep_device q \<or> rep_host q \<or> rep_storage q) (pm_representation s 1) = Some False
     \<and> snd (commit_transition 3 0 s) = Err TransferPending
     \<and> snd (complete_recompute 3 1 s) = Err InvalidComposite)"
  by code_simp

text \<open>Growth reservations do not hold room against warm copies that are bound later: 60 warm bytes and
  two growth reservations of 40 are all accepted on a device of 100, and binding the warm copy leaves 140
  bytes promised.\<close>

theorem pm_growth_can_be_overcommitted:
  "(let s = pm_exec [PmRegister [7] GlobalKv 4 60 Device 1, PmReserveGrowth 40, PmReserveGrowth 40,
        PmPrepare 5 0 [7] 4 mask_GLOBAL_KV [1] False, PmCommit 4 0] (pm_new small_cap)
    in device_total (pm_metrics s) = 100 \<and> device_active (pm_metrics s) = 60
     \<and> device_growth_reserved (pm_metrics s) = 80)"
  by code_simp

text \<open>A representation whose last logical reference is released while it is bound is never removed: after the
  binding ends it stays in the table with no owner of any kind.\<close>

theorem pm_released_representation_can_leak:
  "(let s = pm_exec [PmRegister [7] GlobalKv 4 60 Device 1, PmPrepare 5 0 [7] 4 mask_GLOBAL_KV [1] False,
        PmCommit 2 0, PmReleaseLogical 1, PmUnbind 5] (pm_new small_cap)
    in map_option rep_refs (pm_representation s 1)
        = Some \<lparr>rc_logical = 0, rc_active = 0, rc_reservations = 0, rc_transfers = 0\<rparr>
     \<and> map_option rep_device (pm_representation s 1) = Some True)"
  by code_simp

end
