(* ===== verification/Server_Types.thy ===== *)
theory Server_Types
  imports Cusco_Prelude
begin

text \<open>
  Types shared by the components of the server crate (\<open>crates/server/src/lib.rs\<close>): errors with
  their wire codes and HTTP status, scheduling metadata and policy configuration, engine
  outputs, session steps, and signed 64-bit arithmetic.
\<close>

section \<open>Signed 64-bit integers\<close>

definition i64_min :: int where "i64_min = - (2 ^ 63)"
definition i64_max :: int where "i64_max = 2 ^ 63 - 1"

definition sat64 :: "int \<Rightarrow> int" where
  "sat64 x = max i64_min (min i64_max x)"

definition wrap64 :: "int \<Rightarrow> int" where
  "wrap64 x = (x + 2 ^ 63) mod 2 ^ 64 - 2 ^ 63"

lemma sat64_id: "i64_min \<le> x \<Longrightarrow> x \<le> i64_max \<Longrightarrow> sat64 x = x"
  by (simp add: sat64_def)

lemma wrap64_id: "i64_min \<le> x \<Longrightarrow> x \<le> i64_max \<Longrightarrow> wrap64 x = x"
  by (simp add: wrap64_def i64_min_def i64_max_def)

lemma wrap64_range: "i64_min \<le> wrap64 x \<and> wrap64 x \<le> i64_max"
proof -
  have "0 \<le> (x + 2 ^ 63) mod 2 ^ 64 \<and> (x + 2 ^ 63) mod 2 ^ 64 < (2 ^ 64 :: int)" by simp
  then show ?thesis by (simp add: wrap64_def i64_min_def i64_max_def)
qed

lemma sat64_mono: "x \<le> y \<Longrightarrow> sat64 x \<le> sat64 y"
  by (auto simp: sat64_def)

section \<open>Errors\<close>

datatype server_error =
    Unauthorized
  | Forbidden
  | ModelNotFound string
  | ServerContextNotFound
  | Deadline
  | Cancelled
  | Busy
  | ShuttingDown
  | PayloadTooLarge
  | HeadersTooLarge
  | BodyTimeout
  | BadRequest string
  | Conflict string
  | UnsafeListener string
  | StateError string

fun error_code :: "server_error \<Rightarrow> string" where
  "error_code Unauthorized = ''unauthorized''"
| "error_code Forbidden = ''forbidden''"
| "error_code (ModelNotFound _) = ''model_not_found''"
| "error_code ServerContextNotFound = ''context_not_found''"
| "error_code Deadline = ''deadline_exceeded''"
| "error_code Cancelled = ''cancelled''"
| "error_code Busy = ''queue_overloaded''"
| "error_code ShuttingDown = ''server_shutting_down''"
| "error_code PayloadTooLarge = ''payload_too_large''"
| "error_code HeadersTooLarge = ''headers_too_large''"
| "error_code BodyTimeout = ''body_timeout''"
| "error_code (BadRequest _) = ''invalid_request''"
| "error_code (Conflict _) = ''lineage_conflict''"
| "error_code (UnsafeListener _) = ''unsafe_listener''"
| "error_code (StateError _) = ''state_error''"

fun error_status :: "server_error \<Rightarrow> nat" where
  "error_status Unauthorized = 401"
| "error_status Forbidden = 403"
| "error_status (ModelNotFound _) = 404"
| "error_status ServerContextNotFound = 404"
| "error_status Deadline = 408"
| "error_status BodyTimeout = 408"
| "error_status Cancelled = 400"
| "error_status (BadRequest _) = 400"
| "error_status (Conflict _) = 409"
| "error_status Busy = 429"
| "error_status ShuttingDown = 503"
| "error_status PayloadTooLarge = 413"
| "error_status HeadersTooLarge = 431"
| "error_status (UnsafeListener _) = 500"
| "error_status (StateError _) = 500"

section \<open>Scheduling data\<close>

datatype SchedulingClass = Interactive | Standard | Batch

datatype PrioritySource = AdapterDefault | ControlledWorkload

record SchedulingMetadata =
  sm_class :: SchedulingClass
  sm_source :: PrioritySource
  sm_principal :: string
  sm_correlation_id :: string
  sm_inference_id :: string

record SchedulerPolicyConfig =
  pc_version :: nat
  pc_interactive_weight :: nat
  pc_standard_weight :: nat
  pc_batch_weight :: nat
  pc_deficit_refill :: nat
  pc_prefill_tokens :: nat
  pc_promotion_rounds :: nat
  pc_diagnostic_capacity :: nat

definition default_policy :: SchedulerPolicyConfig where
  "default_policy = \<lparr>pc_version = 1, pc_interactive_weight = 4, pc_standard_weight = 2, pc_batch_weight = 1,
     pc_deficit_refill = 1, pc_prefill_tokens = 32, pc_promotion_rounds = 64, pc_diagnostic_capacity = 1024\<rparr>"

text \<open>Decimal digits of a number, as \<open>format!\<close> prints it.\<close>

fun show_nat :: "nat \<Rightarrow> string" where
  "show_nat n = (if n < 10 then [''0123456789'' ! n] else show_nat (n div 10) @ [''0123456789'' ! (n mod 10)])"

declare show_nat.simps [simp del]

text \<open>\<open>SchedulerPolicyConfig::validate\<close>.\<close>

definition policy_validate :: "SchedulerPolicyConfig \<Rightarrow> (server_error, SchedulerPolicyConfig) outcome" where
  "policy_validate p =
     (if pc_version p \<noteq> 1 then Err (StateError (''unsupported scheduler policy version '' @ show_nat (pc_version p)))
      else if pc_interactive_weight p = 0 \<or> pc_standard_weight p = 0 \<or> pc_batch_weight p = 0
        \<or> pc_deficit_refill p = 0 \<or> pc_prefill_tokens p = 0 \<or> pc_promotion_rounds p = 0
        \<or> pc_diagnostic_capacity p = 0
      then Err (StateError ''scheduler policy parameters must be nonzero'')
      else Ok p)"

section \<open>Sessions\<close>

record PrefillMetrics =
  pf_total_tokens :: nat
  pf_cached_tokens :: nat
  pf_uncached_tokens :: nat
  pf_tokenization_ns :: nat
  pf_prefix_lookup_ns :: nat
  pf_mapping_activation_ns :: nat
  pf_uncached_prefill_ns :: nat
  pf_total_ns :: nat
  pf_transfer_bytes :: nat
  pf_device_bytes :: nat
  pf_host_bytes :: nat

record EngineOutput =
  eo_successor_tokens :: "int list"
  eo_input_tokens :: nat
  eo_cached_tokens :: nat
  eo_evaluated_tokens :: nat
  eo_prefill :: PrefillMetrics

datatype QuantumKind = Preparation | Prefill | Decode | Publication

record QuantumObservation =
  qo_kind :: QuantumKind
  qo_charged_tokens :: nat
  qo_context_placement :: string
  qo_executor_slot_occupied :: bool
  qo_transition_cost_bytes :: nat
  qo_capacity_reserved_bytes :: nat

definition model_free :: "QuantumKind \<Rightarrow> nat \<Rightarrow> QuantumObservation" where
  "model_free kind charged = \<lparr>qo_kind = kind, qo_charged_tokens = charged, qo_context_placement = ''model_free'',
     qo_executor_slot_occupied = False, qo_transition_cost_bytes = 0, qo_capacity_reserved_bytes = 0\<rparr>"

datatype SessionStep =
    Progress QuantumObservation
  | TokenStep int "8 word list" bool QuantumObservation
  | Finished EngineOutput

section \<open>Requests\<close>

record ModelRecord =
  mr_id :: string
  mr_revision :: string
  mr_path :: string
  mr_sha256 :: string
  mr_aliases :: "string list"
  mr_family :: string
  mr_size_bytes :: nat
  mr_epoch :: nat

text \<open>Floating-point parameters are kept as their bit patterns; nothing here computes with them.\<close>

record SamplingConfig =
  sp_temperature :: "32 word"
  sp_top_p :: "32 word"
  sp_seed :: "32 word"

text \<open>\<open>er_control\<close> is the address of the shared \<open>Arc<RequestControl>\<close>.\<close>

record EngineRequest =
  er_model :: ModelRecord
  er_prompt :: string
  er_max_tokens :: nat
  er_prior_tokens :: "int list"
  er_sampling :: SamplingConfig
  er_grammar :: "string option"
  er_control :: nat
  er_scheduling :: SchedulingMetadata
  er_prefill_chunk_tokens :: nat

end
