(* ===== verification/Fair_Policy.thy ===== *)
theory Fair_Policy
  imports Server_Types
begin

text \<open>
  The fair policy of the workload scheduler (\<open>FairPolicy\<close> in
  \<open>crates/server/src/scheduler.rs\<close>): weighted deficit round robin over flows (principal and
  class), first in first out within a flow, with age promotion.

  Deficits are \<open>i64\<close>: refills saturate, charges wrap. The configuration has passed
  \<open>policy_validate\<close>, so the division by \<open>promotion_rounds\<close> is defined.
\<close>

section \<open>Data and operations\<close>

record FlowKey =
  fk_principal :: string
  fk_class :: SchedulingClass

record PolicyEntry =
  pe_id :: nat
  pe_flow :: FlowKey
  pe_admitted_round :: nat
  pe_admitted_at :: nat

record Selection =
  sel_id :: nat
  sel_queue_age_rounds :: nat
  sel_queue_age_ms :: nat
  sel_promotions :: nat
  sel_charge_scale :: int

record FairPolicy =
  fp_config :: SchedulerPolicyConfig
  fp_runnable :: "PolicyEntry list"
  fp_deficits :: "(FlowKey, int) hm"
  fp_round :: nat
  fp_cursor :: nat

definition fp_new :: "SchedulerPolicyConfig \<Rightarrow> FairPolicy" where
  "fp_new c = \<lparr>fp_config = c, fp_runnable = [], fp_deficits = [], fp_round = 0, fp_cursor = 0\<rparr>"

definition fp_enqueue :: "nat \<Rightarrow> FlowKey \<Rightarrow> nat \<Rightarrow> nat \<Rightarrow> FairPolicy \<Rightarrow> FairPolicy" where
  "fp_enqueue i flow r t p = p\<lparr>fp_runnable := fp_runnable p @
     [\<lparr>pe_id = i, pe_flow = flow, pe_admitted_round = r, pe_admitted_at = t\<rparr>]\<rparr>"

definition effective_class :: "FairPolicy \<Rightarrow> PolicyEntry \<Rightarrow> SchedulingClass \<times> nat" where
  "effective_class p e =
     (let promotions = min ((fp_round p - pe_admitted_round e) div pc_promotion_rounds (fp_config p)) 2;
          cls = (case fk_class (pe_flow e) of
             Batch \<Rightarrow> if promotions = 1 then Standard else if promotions = 2 then Interactive else Batch
           | Standard \<Rightarrow> if 1 \<le> promotions then Interactive else Standard
           | Interactive \<Rightarrow> Interactive)
      in (cls, promotions))"

definition u32_saturating_mul :: "nat \<Rightarrow> nat \<Rightarrow> nat" where
  "u32_saturating_mul a b = min (a * b) (2 ^ 32 - 1)"

lemma u32_saturating_mul_code [code]:
  "u32_saturating_mul a b = (if int a * int b \<le> 4294967295 then a * b else nat 4294967295)"
proof -
  have "a * b \<le> 4294967295 \<longleftrightarrow> int a * int b \<le> 4294967295"
    by (metis of_nat_le_iff of_nat_mult of_nat_numeral)
  then show ?thesis by (simp add: u32_saturating_mul_def min_def)
qed

definition class_weight :: "FairPolicy \<Rightarrow> SchedulingClass \<Rightarrow> int" where
  "class_weight p c = int (u32_saturating_mul
     (case c of Interactive \<Rightarrow> pc_interactive_weight (fp_config p)
      | Standard \<Rightarrow> pc_standard_weight (fp_config p) | Batch \<Rightarrow> pc_batch_weight (fp_config p))
     (pc_deficit_refill (fp_config p)))"

record Head =
  hd_index :: nat
  hd_flow :: FlowKey
  hd_class :: SchedulingClass
  hd_promotions :: nat
  hd_credit :: int

text \<open>The first available entry of each flow, in queue order.\<close>

fun heads_of :: "FairPolicy \<Rightarrow> (nat \<Rightarrow> bool) \<Rightarrow> nat \<Rightarrow> Head list \<Rightarrow> PolicyEntry list \<Rightarrow> Head list" where
  "heads_of p available k acc [] = acc"
| "heads_of p available k acc (e # es) =
     (if list_ex (\<lambda>h. hd_flow h = pe_flow e) acc then heads_of p available (k + 1) acc es
      else if \<not> available (pe_id e) then heads_of p available (k + 1) acc es
      else (let (cls, promotions) = effective_class p e in
        heads_of p available (k + 1) (acc @ [\<lparr>hd_index = k, hd_flow = pe_flow e, hd_class = cls,
           hd_promotions = promotions, hd_credit = class_weight p cls\<rparr>]) es))"

definition deficit_of :: "(FlowKey, int) hm \<Rightarrow> FlowKey \<Rightarrow> int" where
  "deficit_of d f = (case map_of d f of None \<Rightarrow> 0 | Some x \<Rightarrow> x)"

definition refill :: "Head \<Rightarrow> (FlowKey, int) hm \<Rightarrow> (FlowKey, int) hm" where
  "refill h d = hm_put (hd_flow h)
     (min (sat64 (deficit_of d (hd_flow h) + hd_credit h)) (sat64 (hd_credit h * 8))) d"

definition max_of :: "int list \<Rightarrow> int" where
  "max_of xs = (case xs of [] \<Rightarrow> 0 | y # ys \<Rightarrow> foldl max y ys)"

definition remove_nth :: "nat \<Rightarrow> 'a list \<Rightarrow> 'a list" where
  "remove_nth k xs = take k xs @ drop (k + 1) xs"

definition fp_select :: "(nat \<Rightarrow> bool) \<Rightarrow> nat \<Rightarrow> FairPolicy \<Rightarrow> FairPolicy \<times> Selection option" where
  "fp_select available now p =
     (let heads = heads_of p available 0 [] (fp_runnable p) in
      if heads = [] then (p, None)
      else
        (let round' = saturating_add (fp_round p) 1;
             deficits = fold refill heads (fp_deficits p);
             total = max (wrap64 (sum_list (map hd_credit heads))) 1;
             top = max_of (map (\<lambda>h. deficit_of deficits (hd_flow h)) heads);
             eligible = filter (\<lambda>h. deficit_of deficits (hd_flow h) = top) heads;
             selected = eligible ! (fp_cursor p mod length eligible);
             e = fp_runnable p ! hd_index selected
         in (p\<lparr>fp_round := round', fp_deficits := deficits,
               fp_cursor := (fp_cursor p + 1) mod length eligible,
               fp_runnable := remove_nth (hd_index selected) (fp_runnable p)\<rparr>,
             Some \<lparr>sel_id = pe_id e, sel_queue_age_rounds = round' - pe_admitted_round e,
                   sel_queue_age_ms = now - pe_admitted_at e, sel_promotions = hd_promotions selected,
                   sel_charge_scale = total\<rparr>)))"

text \<open>\<open>tokens.max(1) as i64\<close> reinterprets the bits of the \<open>usize\<close>.\<close>

definition fp_charge :: "FlowKey \<Rightarrow> nat \<Rightarrow> int \<Rightarrow> FairPolicy \<Rightarrow> FairPolicy" where
  "fp_charge flow tokens scale p = p\<lparr>fp_deficits := hm_put flow
     (wrap64 (deficit_of (fp_deficits p) flow - sat64 (wrap64 (int (max tokens 1)) * scale))) (fp_deficits p)\<rparr>"

definition fp_clear_if_idle :: "FlowKey \<Rightarrow> FlowKey list \<Rightarrow> FairPolicy \<Rightarrow> FairPolicy" where
  "fp_clear_if_idle flow job_flows p =
     (if \<not> list_ex (\<lambda>e. pe_flow e = flow) (fp_runnable p) \<and> flow \<notin> set job_flows
      then p\<lparr>fp_deficits := hm_del flow (fp_deficits p)\<rparr> else p)"

definition fp_remove :: "nat \<Rightarrow> FairPolicy \<Rightarrow> FairPolicy \<times> bool" where
  "fp_remove i p =
     (let rest = filter (\<lambda>e. pe_id e \<noteq> i) (fp_runnable p)
      in (p\<lparr>fp_runnable := rest\<rparr>, length rest \<noteq> length (fp_runnable p)))"

section \<open>The heads of the flows\<close>

definition head_at :: "FairPolicy \<Rightarrow> (nat \<Rightarrow> bool) \<Rightarrow> PolicyEntry list \<Rightarrow> Head \<Rightarrow> bool" where
  "head_at p available es h \<longleftrightarrow> hd_index h < length es
     \<and> pe_flow (es ! hd_index h) = hd_flow h \<and> available (pe_id (es ! hd_index h))
     \<and> (\<forall>j<hd_index h. pe_flow (es ! j) = hd_flow h \<longrightarrow> \<not> available (pe_id (es ! j)))
     \<and> effective_class p (es ! hd_index h) = (hd_class h, hd_promotions h)
     \<and> hd_credit h = class_weight p (hd_class h)"

definition heads_ok :: "FairPolicy \<Rightarrow> (nat \<Rightarrow> bool) \<Rightarrow> PolicyEntry list \<Rightarrow> Head list \<Rightarrow> bool" where
  "heads_ok p available es hs \<longleftrightarrow> distinct (map hd_flow hs) \<and> (\<forall>h\<in>set hs. head_at p available es h)
     \<and> (\<forall>e\<in>set es. available (pe_id e) \<longrightarrow> pe_flow e \<in> hd_flow ` set hs)"

lemma head_at_append: "head_at p available es h \<Longrightarrow> head_at p available (es @ es') h"
  by (auto simp: head_at_def nth_append)

lemma heads_of_ok:
  "heads_ok p available pre acc \<Longrightarrow>
     heads_ok p available (pre @ es) (heads_of p available (length pre) acc es)"
proof (induction es arbitrary: pre acc)
  case Nil
  then show ?case by simp
next
  case (Cons e es)
  have next_ok: "heads_ok p available (pre @ e # es) (heads_of p available (length pre + 1) acc' es)"
    if "heads_ok p available (pre @ [e]) acc'" for acc'
    using Cons.IH[OF that] by simp
  have old: "head_at p available (pre @ [e]) h" if "h \<in> set acc" for h
    using Cons.prems that head_at_append by (auto simp: heads_ok_def)
  show ?case
  proof (cases "list_ex (\<lambda>h. hd_flow h = pe_flow e) acc \<or> \<not> available (pe_id e)")
    case True
    then have "available (pe_id e) \<longrightarrow> pe_flow e \<in> hd_flow ` set acc" by (auto simp: list_ex_iff) (metis imageI)
    then have "heads_ok p available (pre @ [e]) acc"
      using Cons.prems old by (auto simp: heads_ok_def)
    from next_ok[OF this] True show ?thesis by auto
  next
    case False
    obtain cls n where ec: "effective_class p e = (cls, n)" by (cases "effective_class p e")
    let ?h = "\<lparr>hd_index = length pre, hd_flow = pe_flow e, hd_class = cls, hd_promotions = n,
      hd_credit = class_weight p cls\<rparr>"
    have fresh: "pe_flow e \<notin> hd_flow ` set acc" using False by (auto simp: list_ex_iff)
    have "\<not> available (pe_id (pre ! j))" if "j < length pre" "pe_flow (pre ! j) = pe_flow e" for j
      using Cons.prems that fresh nth_mem[OF that(1)] unfolding heads_ok_def by metis
    then have "head_at p available (pre @ [e]) ?h"
      using False ec by (auto simp: head_at_def nth_append)
    then have "heads_ok p available (pre @ [e]) (acc @ [?h])"
      using Cons.prems old fresh by (auto simp: heads_ok_def)
    from next_ok[OF this] False ec show ?thesis by simp
  qed
qed

lemma heads_of_runnable:
  "heads_ok p available (fp_runnable p) (heads_of p available 0 [] (fp_runnable p))"
  using heads_of_ok[of p available "[]" "[]" "fp_runnable p"] by (simp add: heads_ok_def)

section \<open>Refilling\<close>

definition refilled :: "Head \<Rightarrow> int \<Rightarrow> int" where
  "refilled h old = min (sat64 (old + hd_credit h)) (sat64 (hd_credit h * 8))"

lemma deficit_of_put [simp]: "deficit_of (hm_put f x d) g = (if g = f then x else deficit_of d g)"
  by (simp add: deficit_of_def)

lemma deficit_of_del [simp]: "deficit_of (hm_del f d) g = (if g = f then 0 else deficit_of d g)"
  by (simp add: deficit_of_def)

lemma deficit_of_refill [simp]:
  "deficit_of (refill h d) g = (if g = hd_flow h then refilled h (deficit_of d g) else deficit_of d g)"
  by (simp add: refill_def refilled_def)

lemma refill_other: "f \<notin> hd_flow ` set hs \<Longrightarrow> deficit_of (fold refill hs d) f = deficit_of d f"
  by (induction hs arbitrary: d) auto

lemma refill_head:
  "distinct (map hd_flow hs) \<Longrightarrow> h \<in> set hs \<Longrightarrow>
     deficit_of (fold refill hs d) (hd_flow h) = refilled h (deficit_of d (hd_flow h))"
proof (induction hs arbitrary: d)
  case (Cons a hs)
  show ?case
  proof (cases "h = a")
    case True
    with Cons.prems have "hd_flow h \<notin> hd_flow ` set hs" by auto
    with True show ?thesis by (simp add: refill_other)
  next
    case False
    with Cons.prems have h: "h \<in> set hs" by simp
    have "hd_flow a \<notin> hd_flow ` set hs" using Cons.prems(1) by simp
    with h have h: "h \<in> set hs" "hd_flow h \<noteq> hd_flow a" by (blast, metis imageI)
    have "deficit_of (fold refill hs (refill a d)) (hd_flow h) = refilled h (deficit_of (refill a d) (hd_flow h))"
      using Cons.IH Cons.prems(1) h(1) by simp
    with h(2) show ?thesis by simp
  qed
qed simp

lemma foldl_max: "foldl max m ys = Max (insert m (set ys))" for m :: int
proof -
  have "fold (\<lambda>x s. max s x) ys m = fold max ys m"
    by (intro fold_cong refl ext) (rule max.commute)
  with Max.set_eq_fold[of m ys] show ?thesis by (simp add: foldl_conv_fold)
qed

lemma max_of_Max: "xs \<noteq> [] \<Longrightarrow> max_of xs = Max (set xs)"
  by (cases xs) (simp_all add: max_of_def foldl_max)

lemma max_of_ge: "x \<in> set xs \<Longrightarrow> x \<le> max_of xs"
  by (cases "xs = []") (simp_all add: max_of_Max)

lemma max_of_in: "xs \<noteq> [] \<Longrightarrow> max_of xs \<in> set xs"
  using Max_in[of "set xs"] by (simp add: max_of_Max)

section \<open>Selection\<close>

text \<open>What one selection does, in terms of the queue.\<close>

definition selected_at :: "FairPolicy \<Rightarrow> (nat \<Rightarrow> bool) \<Rightarrow> nat \<Rightarrow> bool" where
  "selected_at p available i \<longleftrightarrow> i < length (fp_runnable p) \<and> available (pe_id (fp_runnable p ! i))
     \<and> (\<forall>j<i. pe_flow (fp_runnable p ! j) = pe_flow (fp_runnable p ! i) \<longrightarrow> \<not> available (pe_id (fp_runnable p ! j)))"

lemma fp_select_None:
  "snd (fp_select available now p) = None \<longleftrightarrow> (\<forall>e\<in>set (fp_runnable p). \<not> available (pe_id e))"
proof -
  note ok = heads_of_runnable[of p available]
  have "heads_of p available 0 [] (fp_runnable p) = [] \<longleftrightarrow> (\<forall>e\<in>set (fp_runnable p). \<not> available (pe_id e))"
  proof
    assume "heads_of p available 0 [] (fp_runnable p) = []"
    with ok show "\<forall>e\<in>set (fp_runnable p). \<not> available (pe_id e)" by (auto simp: heads_ok_def)
  next
    assume none: "\<forall>e\<in>set (fp_runnable p). \<not> available (pe_id e)"
    show "heads_of p available 0 [] (fp_runnable p) = []"
    proof (rule ccontr)
      assume "heads_of p available 0 [] (fp_runnable p) \<noteq> []"
      then obtain h where "h \<in> set (heads_of p available 0 [] (fp_runnable p))" by (meson ex_in_conv set_empty)
      with ok none show False by (auto simp: heads_ok_def head_at_def)
    qed
  qed
  then show ?thesis by (simp add: fp_select_def Let_def)
qed

lemma fp_select_None_state: "snd (fp_select available now p) = None \<Longrightarrow> fst (fp_select available now p) = p"
  by (simp add: fp_select_def Let_def split: if_splits)

definition next_round :: "FairPolicy \<Rightarrow> nat" where
  "next_round p = saturating_add (fp_round p) 1"

lemma fp_select_Some:
  assumes "fp_select available now p = (p', Some sel)"
  obtains i h hs where "hs = heads_of p available 0 [] (fp_runnable p)" and "h \<in> set hs" and "hd_index h = i"
    and "selected_at p available i" and "hd_flow h = pe_flow (fp_runnable p ! i)"
    and "sel = \<lparr>sel_id = pe_id (fp_runnable p ! i), sel_queue_age_rounds = next_round p - pe_admitted_round (fp_runnable p ! i),
        sel_queue_age_ms = now - pe_admitted_at (fp_runnable p ! i), sel_promotions = hd_promotions h,
        sel_charge_scale = max (wrap64 (sum_list (map hd_credit hs))) 1\<rparr>"
    and "fp_runnable p' = remove_nth i (fp_runnable p)" and "fp_round p' = next_round p"
    and "fp_config p' = fp_config p" and "fp_deficits p' = fold refill hs (fp_deficits p)"
    and "\<forall>g\<in>set hs. deficit_of (fp_deficits p') (hd_flow g) \<le> deficit_of (fp_deficits p') (hd_flow h)"
proof -
  let ?hs = "heads_of p available 0 [] (fp_runnable p)"
  let ?d = "fold refill ?hs (fp_deficits p)"
  let ?top = "max_of (map (\<lambda>h. deficit_of ?d (hd_flow h)) ?hs)"
  let ?el = "filter (\<lambda>h. deficit_of ?d (hd_flow h) = ?top) ?hs"
  let ?h = "?el ! (fp_cursor p mod length ?el)"
  from assms have ne: "?hs \<noteq> []" by (auto simp: fp_select_def Let_def split: if_splits)
  then have "?top \<in> set (map (\<lambda>h. deficit_of ?d (hd_flow h)) ?hs)" by (intro max_of_in) simp
  then have "?el \<noteq> []" by (auto simp: filter_empty_conv)
  then have "?h \<in> set ?el" by (intro nth_mem) simp
  then have h: "?h \<in> set ?hs" "deficit_of ?d (hd_flow ?h) = ?top" by auto
  have at: "head_at p available (fp_runnable p) ?h" using heads_of_runnable[of p available] h(1) by (simp add: heads_ok_def)
  then have sel: "selected_at p available (hd_index ?h)" and flow: "hd_flow ?h = pe_flow (fp_runnable p ! hd_index ?h)"
    by (auto simp: selected_at_def head_at_def)
  have top: "\<forall>g\<in>set ?hs. deficit_of ?d (hd_flow g) \<le> deficit_of ?d (hd_flow ?h)"
    unfolding h(2) by (auto intro: max_of_ge)
  show ?thesis
    by (rule that[OF refl h(1) refl sel flow])
      (use assms ne top in \<open>auto simp: fp_select_def Let_def next_round_def\<close>)
qed

end
