(* ===== verification/Fair_Policy_Props.thy ===== *)
theory Fair_Policy_Props
  imports Fair_Policy
begin

text \<open>
  Properties of the fair policy: what one selection does, and how often a backlogged flow
  can be passed over while selections, charges and resets interleave.
\<close>

section \<open>One selection\<close>

text \<open>The first available entry of a flow, the one the flow competes with.\<close>

definition first_available :: "(nat \<Rightarrow> bool) \<Rightarrow> FlowKey \<Rightarrow> PolicyEntry list \<Rightarrow> PolicyEntry option" where
  "first_available available f es = find (\<lambda>e. pe_flow e = f \<and> available (pe_id e)) es"

definition flow_credit :: "(nat \<Rightarrow> bool) \<Rightarrow> FairPolicy \<Rightarrow> FlowKey \<Rightarrow> int option" where
  "flow_credit available p f = map_option (\<lambda>e. class_weight p (fst (effective_class p e)))
     (first_available available f (fp_runnable p))"

lemma find_first:
  "i < length xs \<Longrightarrow> P (xs ! i) \<Longrightarrow> (\<forall>j<i. \<not> P (xs ! j)) \<Longrightarrow> find P xs = Some (xs ! i)"
  by (auto simp: find_Some_iff)

lemma head_credit:
  assumes "heads_ok p available (fp_runnable p) hs" and "h \<in> set hs"
  shows "flow_credit available p (hd_flow h) = Some (hd_credit h)"
proof -
  from assms have at: "head_at p available (fp_runnable p) h" by (simp add: heads_ok_def)
  have "first_available available (hd_flow h) (fp_runnable p) = Some (fp_runnable p ! hd_index h)"
    unfolding first_available_def by (rule find_first) (use at in \<open>auto simp: head_at_def\<close>)
  with at show ?thesis by (auto simp: flow_credit_def head_at_def)
qed

lemma no_head_no_credit:
  assumes "heads_ok p available (fp_runnable p) hs" and "f \<notin> hd_flow ` set hs"
  shows "flow_credit available p f = None"
  using assms by (auto simp: flow_credit_def first_available_def find_None_iff heads_ok_def)

text \<open>C15: A selection picks, among the flows with an available entry, one with the greatest deficit after
  every such flow has been refilled by its credit up to eight times that credit; within the flow it takes
  the first available entry and removes exactly that entry. It selects nothing, and changes nothing, only
  when no queued entry is available.\<close>

theorem policy_selection_fair:
  "case fp_select available now p of
     (q, None) \<Rightarrow> q = p \<and> (\<forall>e\<in>set (fp_runnable p). \<not> available (pe_id e))
   | (q, Some sel) \<Rightarrow> \<exists>i<length (fp_runnable p). let e = fp_runnable p ! i in
         sel_id sel = pe_id e \<and> available (pe_id e)
       \<and> first_available available (pe_flow e) (fp_runnable p) = Some e
       \<and> fp_runnable q = take i (fp_runnable p) @ drop (i + 1) (fp_runnable p)
       \<and> (\<forall>f. deficit_of (fp_deficits q) f = (case flow_credit available p f of
             None \<Rightarrow> deficit_of (fp_deficits p) f
           | Some c \<Rightarrow> min (sat64 (deficit_of (fp_deficits p) f + c)) (sat64 (c * 8))))
       \<and> (\<forall>f. flow_credit available p f \<noteq> None \<longrightarrow>
             deficit_of (fp_deficits q) f \<le> deficit_of (fp_deficits q) (pe_flow e))"
proof (cases "snd (fp_select available now p)")
  case None
  with fp_select_None[of available now p] fp_select_None_state[of available now p]
  show ?thesis by (auto split: prod.splits)
next
  case (Some sel)
  then obtain q where eq: "fp_select available now p = (q, Some sel)" by (metis prod.collapse)
  obtain i h hs where hs: "hs = heads_of p available 0 [] (fp_runnable p)" and h: "h \<in> set hs"
    and at: "selected_at p available i" and flow: "hd_flow h = pe_flow (fp_runnable p ! i)"
    and sel: "sel_id sel = pe_id (fp_runnable p ! i)" and run: "fp_runnable q = remove_nth i (fp_runnable p)"
    and def: "fp_deficits q = fold refill hs (fp_deficits p)"
    and top: "\<forall>g\<in>set hs. deficit_of (fp_deficits q) (hd_flow g) \<le> deficit_of (fp_deficits q) (hd_flow h)"
    by (rule fp_select_Some[OF eq]) simp
  have ok: "heads_ok p available (fp_runnable p) hs" unfolding hs by (rule heads_of_runnable)
  have first: "first_available available (pe_flow (fp_runnable p ! i)) (fp_runnable p) = Some (fp_runnable p ! i)"
    unfolding first_available_def by (rule find_first) (use at in \<open>auto simp: selected_at_def\<close>)
  have defs: "deficit_of (fp_deficits q) f = (case flow_credit available p f of
             None \<Rightarrow> deficit_of (fp_deficits p) f
           | Some c \<Rightarrow> min (sat64 (deficit_of (fp_deficits p) f + c)) (sat64 (c * 8)))" for f
  proof (cases "f \<in> hd_flow ` set hs")
    case True
    then obtain g where "g \<in> set hs" "f = hd_flow g" by auto
    with head_credit[OF ok] refill_head[of hs g "fp_deficits p"] ok show ?thesis
      by (simp add: def heads_ok_def refilled_def)
  next
    case False
    with no_head_no_credit[OF ok] refill_other[OF False] show ?thesis by (simp add: def)
  qed
  have tops: "deficit_of (fp_deficits q) f \<le> deficit_of (fp_deficits q) (pe_flow (fp_runnable p ! i))"
    if "flow_credit available p f \<noteq> None" for f
  proof -
    have "f \<in> hd_flow ` set hs" using that no_head_no_credit[OF ok, of f] by (cases "f \<in> hd_flow ` set hs") simp_all
    then obtain g where "g \<in> set hs" "f = hd_flow g" by (rule imageE)
    with bspec[OF top, of g] flow show ?thesis by simp
  qed
  have at': "i < length (fp_runnable p)" "available (pe_id (fp_runnable p ! i))"
    using at by (simp_all add: selected_at_def)
  have run': "fp_runnable q = take i (fp_runnable p) @ drop (i + 1) (fp_runnable p)"
    using run by (simp add: remove_nth_def)
  show ?thesis
    unfolding eq prod.case option.case Let_def
    by (intro exI[of _ i] conjI allI impI) (rule at' sel first run' defs | erule tops)+
qed

text \<open>A small queue: two flows, the second entry of the first one waits behind its head.\<close>

definition flow_a :: FlowKey where "flow_a = \<lparr>fk_principal = ''a'', fk_class = Interactive\<rparr>"
definition flow_b :: FlowKey where "flow_b = \<lparr>fk_principal = ''b'', fk_class = Batch\<rparr>"

definition demo_policy :: FairPolicy where
  "demo_policy = fp_enqueue 3 flow_b 0 0 (fp_enqueue 2 flow_a 0 0 (fp_enqueue 1 flow_a 0 0 (fp_new default_policy)))"

theorem policy_selection_fair_witness:
  "(case fp_select (\<lambda>i. i \<noteq> 1) 9 demo_policy of
     (q, None) \<Rightarrow> False
   | (q, Some sel) \<Rightarrow> sel_id sel = 2 \<and> deficit_of (fp_deficits q) flow_b \<le> deficit_of (fp_deficits q) flow_a)"
proof -
  let ?av = "\<lambda>i. i \<noteq> (1::nat)"
  have some: "map_option sel_id (snd (fp_select ?av 9 demo_policy)) = Some 2" by code_simp
  obtain q sel where eq: "fp_select ?av 9 demo_policy = (q, Some sel)" and id: "sel_id sel = 2"
    using some by (metis (no_types, lifting) map_option_eq_Some prod.collapse)
  have len: "length (fp_runnable demo_policy) = 3" and ids: "map pe_id (fp_runnable demo_policy) = [1, 2, 3]"
    and fl: "map pe_flow (fp_runnable demo_policy) = [flow_a, flow_a, flow_b]"
    and cr: "flow_credit ?av demo_policy flow_b = Some 1" by code_simp+
  from policy_selection_fair[where available = ?av and now = 9 and p = demo_policy] eq obtain i where
    i: "i < 3" "sel_id sel = pe_id (fp_runnable demo_policy ! i)"
    and top: "\<forall>f. flow_credit ?av demo_policy f \<noteq> None \<longrightarrow>
       deficit_of (fp_deficits q) f \<le> deficit_of (fp_deficits q) (pe_flow (fp_runnable demo_policy ! i))"
    by (auto simp: Let_def len)
  have "pe_id (fp_runnable demo_policy ! i) = [1, 2, 3] ! i" "pe_flow (fp_runnable demo_policy ! i) = [flow_a, flow_a, flow_b] ! i"
    using i(1) len ids fl by (metis nth_map)+
  with i id have "pe_flow (fp_runnable demo_policy ! i) = flow_a" by (auto simp: less_Suc_eq numeral_3_eq_3)
  with top cr eq id show ?thesis by simp
qed

section \<open>No starvation\<close>

text \<open>
  The operations of the policy while \<open>f\<close> waits: \<open>passed_over F T P f p ps0 n k q ps\<close> leads from the
  policy \<open>p\<close> to \<open>q\<close> by any interleaving of the calls the scheduler makes. \<open>ps\<close> holds the
  selections in flight, each with its flow and its charge scale; at most \<open>P\<close> (the model slots) are in
  flight at a time. \<open>n\<close> counts the selections that served another flow of \<open>F\<close> although \<open>f\<close> had an
  available entry. \<open>k\<close> counts what may set another flow back to an advantage it had used up: selections
  made while the entries of \<open>f\<close> were unavailable (its slot was busy), selections whose charge is dropped
  (the dispatch failed), and calls of \<open>clear_if_idle\<close> that reset a negative deficit. A charge comes at
  any time after its selection (at the completion), for at most \<open>T\<close> tokens; the queue changes freely
  within \<open>F\<close>. The job of \<open>f\<close> is alive throughout.
\<close>

inductive passed_over :: "FlowKey set \<Rightarrow> nat \<Rightarrow> nat \<Rightarrow> FlowKey \<Rightarrow> FairPolicy \<Rightarrow> (FlowKey \<times> int) list \<Rightarrow>
    nat \<Rightarrow> nat \<Rightarrow> FairPolicy \<Rightarrow> (FlowKey \<times> int) list \<Rightarrow> bool"
  for F :: "FlowKey set" and T :: nat and P :: nat and f :: FlowKey and p :: FairPolicy and ps0 :: "(FlowKey \<times> int) list" where
  over_start: "passed_over F T P f p ps0 0 0 p ps0"
| over_select: "passed_over F T P f p ps0 (Suc n) k r ((pe_flow e, sel_charge_scale sel) # ps)"
  if "passed_over F T P f p ps0 n k q ps" and "length ps < P"
    and "fp_select available now q = (r, Some sel)" and "e \<in> set (fp_runnable q)" and "pe_id e = sel_id sel"
    and "distinct (map pe_id (fp_runnable q))" and "pe_flow ` set (fp_runnable q) \<subseteq> F" and "pe_flow e \<noteq> f"
    and "e0 \<in> set (fp_runnable q)" and "pe_flow e0 = f" and "available (pe_id e0)"
| over_busy: "passed_over F T P f p ps0 n (Suc k) r ((pe_flow e, sel_charge_scale sel) # ps)"
  if "passed_over F T P f p ps0 n k q ps" and "length ps < P"
    and "fp_select available now q = (r, Some sel)" and "e \<in> set (fp_runnable q)" and "pe_id e = sel_id sel"
    and "distinct (map pe_id (fp_runnable q))" and "pe_flow ` set (fp_runnable q) \<subseteq> F" and "pe_flow e \<noteq> f"
| over_charge: "passed_over F T P f p ps0 n k (fp_charge g tokens s q) (ps1 @ ps2)"
  if "passed_over F T P f p ps0 n k q (ps1 @ (g, s) # ps2)" and "tokens \<le> T"
| over_drop: "passed_over F T P f p ps0 n (Suc k) q (ps1 @ ps2)"
  if "passed_over F T P f p ps0 n k q (ps1 @ (g, s) # ps2)"
| over_clear: "passed_over F T P f p ps0 n (if deficit_of (fp_deficits q) g < 0 then Suc k else k) (fp_clear_if_idle g jobs q) ps"
  if "passed_over F T P f p ps0 n k q ps" and "f \<in> set jobs"
| over_queue: "passed_over F T P f p ps0 n k (q\<lparr>fp_runnable := es\<rparr>) ps"
  if "passed_over F T P f p ps0 n k q ps"

text \<open>What a flow still has to pay for its selections in flight, at one token each.\<close>

definition owed :: "(FlowKey \<times> int) list \<Rightarrow> FlowKey \<Rightarrow> int" where
  "owed ps g = sum_list (map snd (filter (\<lambda>c. fst c = g) ps))"

lemma owed_simps [simp]:
  "owed [] g = 0" "owed ((h, s) # ps) g = (if h = g then s else 0) + owed ps g" "owed (ps @ ps') g = owed ps g + owed ps' g"
  by (simp_all add: owed_def)

definition charges_ok :: "FlowKey set \<Rightarrow> nat \<Rightarrow> int \<Rightarrow> (FlowKey \<times> int) list \<Rightarrow> bool" where
  "charges_ok F P S ps \<longleftrightarrow> length ps \<le> P \<and> (\<forall>c\<in>set ps. fst c \<in> F \<and> 1 \<le> snd c \<and> snd c \<le> S)"

lemma owed_bound:
  assumes "\<forall>c\<in>set ps. 1 \<le> snd c \<and> snd c \<le> S" and "0 \<le> S"
  shows "0 \<le> owed ps g \<and> owed ps g \<le> int (length ps) * S"
  using assms by (induction ps) (auto simp: algebra_simps)

lemma owed_range:
  assumes "charges_ok F P S ps" and "0 \<le> S"
  shows "0 \<le> owed ps g" and "owed ps g \<le> int P * S"
proof -
  have b: "0 \<le> owed ps g \<and> owed ps g \<le> int (length ps) * S"
    by (rule owed_bound) (use assms in \<open>simp_all add: charges_ok_def\<close>)
  have "int (length ps) * S \<le> int P * S" by (rule mult_right_mono) (use assms in \<open>simp_all add: charges_ok_def\<close>)
  with b show "0 \<le> owed ps g" "owed ps g \<le> int P * S" by linarith+
qed

text \<open>One round, with arithmetic free of overflow.\<close>

lemma class_weight_cong: "fp_config q = fp_config p \<Longrightarrow> class_weight q c = class_weight p c"
  by (simp add: class_weight_def cong: SchedulingClass.case_cong)

lemma class_weight_pos: "policy_validate (fp_config p) = Ok c \<Longrightarrow> 1 \<le> class_weight p k"
proof -
  assume "policy_validate (fp_config p) = Ok c"
  then have "0 < pc_interactive_weight (fp_config p)" "0 < pc_standard_weight (fp_config p)"
    "0 < pc_batch_weight (fp_config p)" "0 < pc_deficit_refill (fp_config p)"
    by (auto simp: policy_validate_def split: if_splits)
  moreover have "0 < a \<Longrightarrow> 0 < b \<Longrightarrow> 1 \<le> int (u32_saturating_mul a b)" for a b :: nat
    by (simp add: u32_saturating_mul_def min_def)
  ultimately show ?thesis by (cases k) (simp_all add: class_weight_def)
qed

lemma passed_over_config: "passed_over F T P f p ps0 n k q ps \<Longrightarrow> fp_config q = fp_config p"
proof (induction rule: passed_over.induct)
  case (over_select n k q ps available now r sel e e0)
  have "fp_config r = fp_config q" by (rule fp_select_Some[OF over_select(3)]) simp
  with over_select show ?case by simp
next
  case (over_busy n k q ps available now r sel e)
  have "fp_config r = fp_config q" by (rule fp_select_Some[OF over_busy(3)]) simp
  with over_busy show ?case by simp
qed (simp_all add: fp_charge_def fp_clear_if_idle_def)

lemma id_unique: "distinct (map pe_id es) \<Longrightarrow> a \<in> set es \<Longrightarrow> b \<in> set es \<Longrightarrow> pe_id a = pe_id b \<Longrightarrow> a = b"
  by (meson distinct_map inj_onD)

text \<open>The credit each flow receives in a round, and the sum of all credits.\<close>

definition credit_in :: "Head list \<Rightarrow> FlowKey \<Rightarrow> int" where
  "credit_in hs g = (case find (\<lambda>h. hd_flow h = g) hs of None \<Rightarrow> 0 | Some h \<Rightarrow> hd_credit h)"

definition fair_heads :: "FlowKey set \<Rightarrow> int \<Rightarrow> Head list \<Rightarrow> bool" where
  "fair_heads F C hs \<longleftrightarrow> finite F \<and> distinct (map hd_flow hs) \<and> 1 \<le> C
     \<and> (\<forall>h\<in>set hs. hd_flow h \<in> F \<and> 1 \<le> hd_credit h \<and> hd_credit h \<le> C)"

lemma find_distinct: "distinct (map g xs) \<Longrightarrow> h \<in> set xs \<Longrightarrow> find (\<lambda>x. g x = g h) xs = Some h"
  by (induction xs) (auto simp: image_iff)

lemma find_SomeD: "find P xs = Some x \<Longrightarrow> x \<in> set xs \<and> P x"
  by (auto simp: find_Some_iff)

lemma credit_in_head: "fair_heads F C hs \<Longrightarrow> h \<in> set hs \<Longrightarrow> credit_in hs (hd_flow h) = hd_credit h"
  unfolding credit_in_def fair_heads_def by (simp add: find_distinct)

lemma credit_in_none: "g \<notin> hd_flow ` set hs \<Longrightarrow> credit_in hs g = 0"
proof -
  assume g: "g \<notin> hd_flow ` set hs"
  have "find (\<lambda>h. hd_flow h = g) hs = None" unfolding find_None_iff using g by (metis imageI)
  then show ?thesis by (simp add: credit_in_def)
qed

lemma credit_in_range:
  assumes "fair_heads F C hs"
  shows "0 \<le> credit_in hs g \<and> credit_in hs g \<le> C"
proof (cases "g \<in> hd_flow ` set hs")
  case True
  then obtain h where "h \<in> set hs" "g = hd_flow h" by (metis imageE)
  with assms have "1 \<le> hd_credit h \<and> hd_credit h \<le> C" by (simp add: fair_heads_def)
  then show ?thesis unfolding \<open>g = hd_flow h\<close> credit_in_head[OF assms \<open>h \<in> set hs\<close>] by linarith
next
  case False
  with assms show ?thesis by (simp add: credit_in_none fair_heads_def)
qed

lemma credit_in_sum:
  assumes fh: "fair_heads F C hs"
  shows "(\<Sum>g\<in>F. credit_in hs g) = sum_list (map hd_credit hs)"
proof -
  have fin: "finite F" and sub: "hd_flow ` set hs \<subseteq> F" and dist: "distinct (map hd_flow hs)"
    using fh by (auto simp: fair_heads_def)
  have "(\<Sum>g\<in>F. credit_in hs g) = (\<Sum>g\<in>hd_flow ` set hs. credit_in hs g)"
    by (rule sum.mono_neutral_right[OF fin sub]) (simp add: credit_in_none)
  also have "\<dots> = (\<Sum>h\<in>set hs. hd_credit h)"
    using dist by (subst sum.reindex) (auto simp: distinct_map credit_in_head[OF fh])
  also have "\<dots> = sum_list (map hd_credit hs)"
    using dist by (simp add: sum_list_distinct_conv_sum_set distinct_map)
  finally show ?thesis .
qed

lemma credit_in_total:
  assumes fh: "fair_heads F C hs" and h: "h \<in> set hs"
  shows "1 \<le> sum_list (map hd_credit hs) \<and> sum_list (map hd_credit hs) \<le> int (card F) * C"
proof
  have fin: "finite F" "hd_flow h \<in> F" "1 \<le> hd_credit h" using fh h by (auto simp: fair_heads_def)
  have "1 \<le> credit_in hs (hd_flow h)" using fin by (simp add: credit_in_head[OF fh h])
  also have "\<dots> \<le> (\<Sum>g\<in>F. credit_in hs g)"
    by (rule member_le_sum) (use fin credit_in_range[OF fh] in auto)
  finally show "1 \<le> sum_list (map hd_credit hs)" by (simp add: credit_in_sum[OF fh])
  have "(\<Sum>g\<in>F. credit_in hs g) \<le> of_nat (card F) * C"
    by (intro sum_bounded_above) (use credit_in_range[OF fh] in auto)
  then show "sum_list (map hd_credit hs) \<le> int (card F) * C" by (simp add: credit_in_sum[OF fh])
qed

lemma refilled_exact:
  assumes "1 \<le> hd_credit h" "hd_credit h \<le> C" "8 * C \<le> 2 ^ 60" "- (2 ^ 62) \<le> x" "x \<le> 2 ^ 60"
  shows "refilled h x = min (x + hd_credit h) (hd_credit h * 8)"
  using assms by (simp add: refilled_def sat64_id i64_min_def i64_max_def)

text \<open>One selection, when nothing overflows: no flow loses by its refill, a flow gains at most its credit,
  and the charge scale is the sum of all credits. When \<open>f\<close> competes, the served flow is no worse off.\<close>

lemma selection_effect:
  fixes d d' :: "FlowKey \<Rightarrow> int" and S :: int
  assumes S: "S = int (card F) * C" "S \<le> 2 ^ 60" "8 * C \<le> 2 ^ 60" and pick: "fp_select available now q = (r, Some sel)"
    and hs: "hs = heads_of q available 0 [] (fp_runnable q)" and fh: "fair_heads F C hs"
    and e: "e \<in> set (fp_runnable q)" "pe_id e = sel_id sel" and ids: "distinct (map pe_id (fp_runnable q))"
    and ranges: "\<forall>g\<in>F. - (2 ^ 62) \<le> d g \<and> d g \<le> 2 ^ 60"
    and d: "d = deficit_of (fp_deficits q)" and d': "d' = deficit_of (fp_deficits r)"
  shows "pe_flow e \<in> F" and "1 \<le> sel_charge_scale sel" and "sel_charge_scale sel \<le> S"
    and "(\<Sum>g\<in>F. credit_in hs g) = sel_charge_scale sel" and "\<And>g. g \<in> F \<Longrightarrow> d' g \<le> 2 ^ 60"
    and "\<And>g. min (d g) 8 \<le> d' g" and "\<And>g. d' g \<le> d g + credit_in hs g"
    and "\<And>e0. e0 \<in> set (fp_runnable q) \<Longrightarrow> available (pe_id e0) \<Longrightarrow>
          d' (pe_flow e0) \<le> d' (pe_flow e) \<and> 1 \<le> credit_in hs (pe_flow e0)"
proof -
  have ok: "heads_ok q available (fp_runnable q) hs" unfolding hs by (rule heads_of_runnable)
  let ?tot = "sum_list (map hd_credit hs)"
  obtain i h where h: "h \<in> set hs" and at: "selected_at q available i" and flow: "hd_flow h = pe_flow (fp_runnable q ! i)"
    and sel: "sel_id sel = pe_id (fp_runnable q ! i)" and scale: "sel_charge_scale sel = max (wrap64 ?tot) 1"
    and def: "fp_deficits r = fold refill hs (fp_deficits q)"
    and top: "\<forall>g\<in>set hs. d' (hd_flow g) \<le> d' (hd_flow h)"
    by (rule fp_select_Some[OF pick]) (simp add: hs d')
  have "e = fp_runnable q ! i"
    by (rule id_unique[OF ids e(1)]) (use at e(2) sel in \<open>simp_all add: selected_at_def\<close>)
  then have served: "pe_flow e = hd_flow h" by (simp add: flow)
  have dist: "distinct (map hd_flow hs)"
    and cr: "\<And>g. g \<in> set hs \<Longrightarrow> hd_flow g \<in> F \<and> 1 \<le> hd_credit g \<and> hd_credit g \<le> C"
    using fh by (auto simp: fair_heads_def)
  have mid_head: "d' (hd_flow g) = min (d (hd_flow g) + hd_credit g) (hd_credit g * 8)" if "g \<in> set hs" for g
    unfolding d' def refill_head[OF dist that] d[symmetric]
    by (rule refilled_exact) (use cr[OF that] ranges S(3) in auto)
  have mid_none: "d' g = d g" if "g \<notin> hd_flow ` set hs" for g
    unfolding d' def refill_other[OF that] d ..
  have tot: "1 \<le> ?tot" "?tot \<le> S" using credit_in_total[OF fh h] by (simp_all add: S(1))
  have scale': "sel_charge_scale sel = ?tot"
    unfolding scale by (subst wrap64_id) (use tot S(2) in \<open>simp_all add: i64_min_def i64_max_def\<close>)
  show "pe_flow e \<in> F" using cr[OF h] by (simp add: served)
  show "1 \<le> sel_charge_scale sel" "sel_charge_scale sel \<le> S" using tot by (simp_all add: scale')
  show "(\<Sum>g\<in>F. credit_in hs g) = sel_charge_scale sel" by (simp add: credit_in_sum[OF fh] scale')
  show "d' g \<le> 2 ^ 60" if "g \<in> F" for g
  proof (cases "g \<in> hd_flow ` set hs")
    case True
    then obtain k where k: "k \<in> set hs" "g = hd_flow k" by (metis imageE)
    show ?thesis unfolding k(2) mid_head[OF k(1)] using cr[OF k(1)] S(3) by linarith
  qed (use mid_none ranges that in simp)
  show "min (d g) 8 \<le> d' g" for g
  proof (cases "g \<in> hd_flow ` set hs")
    case True
    then obtain k where k: "k \<in> set hs" "g = hd_flow k" by (metis imageE)
    show ?thesis unfolding k(2) mid_head[OF k(1)] using cr[OF k(1)] by linarith
  qed (simp add: mid_none)
  show "d' g \<le> d g + credit_in hs g" for g
  proof (cases "g \<in> hd_flow ` set hs")
    case True
    then obtain k where k: "k \<in> set hs" "g = hd_flow k" by (metis imageE)
    show ?thesis unfolding k(2) mid_head[OF k(1)] credit_in_head[OF fh k(1)] by simp
  qed (simp add: mid_none credit_in_none)
  show "d' (pe_flow e0) \<le> d' (pe_flow e) \<and> 1 \<le> credit_in hs (pe_flow e0)"
    if "e0 \<in> set (fp_runnable q)" "available (pe_id e0)" for e0
  proof -
    from ok that have "pe_flow e0 \<in> hd_flow ` set hs" by (auto simp: heads_ok_def)
    then obtain g where g: "g \<in> set hs" "pe_flow e0 = hd_flow g" by (metis imageE)
    then show ?thesis using bspec[OF top g(1)] cr[OF g(1)] credit_in_head[OF fh g(1)] served by simp
  qed
qed

lemma heads_fair:
  assumes "finite F" and "pe_flow ` set (fp_runnable q) \<subseteq> F" and "\<And>k. 1 \<le> class_weight q k \<and> class_weight q k \<le> C"
  shows "fair_heads F C (heads_of q available 0 [] (fp_runnable q))"
proof -
  have ok: "heads_ok q available (fp_runnable q) (heads_of q available 0 [] (fp_runnable q))" by (rule heads_of_runnable)
  have "1 \<le> C" using assms(3)[of Standard] by linarith
  moreover have "hd_flow h \<in> F \<and> 1 \<le> hd_credit h \<and> hd_credit h \<le> C"
    if "h \<in> set (heads_of q available 0 [] (fp_runnable q))" for h
  proof -
    from ok that have "head_at q available (fp_runnable q) h" by (simp add: heads_ok_def)
    then have "hd_index h < length (fp_runnable q)" "hd_flow h = pe_flow (fp_runnable q ! hd_index h)"
      "hd_credit h = class_weight q (hd_class h)" by (simp_all add: head_at_def)
    with assms(2,3) nth_mem show ?thesis by (metis image_subset_iff)
  qed
  ultimately show ?thesis using assms(1) ok by (simp add: fair_heads_def heads_ok_def)
qed

text \<open>The lead of the other flows over the level \<open>L\<close>, and what every interleaving keeps.\<close>

abbreviation dft :: "FairPolicy \<Rightarrow> FlowKey \<Rightarrow> int" where
  "dft q \<equiv> deficit_of (fp_deficits q)"

definition lead :: "FlowKey set \<Rightarrow> FlowKey \<Rightarrow> int \<Rightarrow> FairPolicy \<Rightarrow> (FlowKey \<times> int) list \<Rightarrow> int" where
  "lead F f L q ps = (\<Sum>g\<in>F - {f}. max L (dft q g - owed ps g))"

definition fair_bounds :: "FlowKey set \<Rightarrow> nat \<Rightarrow> nat \<Rightarrow> FlowKey \<Rightarrow> int \<Rightarrow> int \<Rightarrow> int \<Rightarrow> int \<Rightarrow> int \<Rightarrow> FairPolicy \<Rightarrow>
    (FlowKey \<times> int) list \<Rightarrow> bool" where
  "fair_bounds F T P f S C L R lo p ps0 \<longleftrightarrow> finite F \<and> f \<in> F \<and> 1 \<le> T \<and> 1 \<le> S \<and> S = int (card F) * C \<and> S \<le> 2 ^ 60
     \<and> int T * S \<le> 2 ^ 60 \<and> 8 * C \<le> 2 ^ 60 \<and> (\<forall>c. 1 \<le> class_weight p c \<and> class_weight p c \<le> C)
     \<and> L \<le> 0 \<and> L \<le> min (dft p f) 8 - int T * owed ps0 f - int P * S \<and> S \<le> R \<and> - L \<le> R
     \<and> lo \<le> min (dft p f) 8 - int T * owed ps0 f - int T * S * int P \<and> lo \<le> - (int T * S * int P)"

definition over_inv :: "FlowKey set \<Rightarrow> nat \<Rightarrow> nat \<Rightarrow> FlowKey \<Rightarrow> int \<Rightarrow> int \<Rightarrow> int \<Rightarrow> int \<Rightarrow> FairPolicy \<Rightarrow> (FlowKey \<times> int) list \<Rightarrow>
    nat \<Rightarrow> nat \<Rightarrow> FairPolicy \<Rightarrow> (FlowKey \<times> int) list \<Rightarrow> bool" where
  "over_inv F T P f S L R lo p ps0 n k q ps \<longleftrightarrow> charges_ok F P S ps
     \<and> owed ps f \<le> owed ps0 f \<and> min (dft p f) 8 - int T * (owed ps0 f - owed ps f) \<le> dft q f
     \<and> (\<forall>g\<in>F. dft q g \<le> 2 ^ 60 \<and> lo - int T * S * int k \<le> dft q g - int T * owed ps g)
     \<and> lead F f L q ps \<le> lead F f L p ps0 - int n + int k * R"

lemma fair_boundsD:
  assumes "fair_bounds F T P f S C L R lo p ps0"
  shows "finite F" "f \<in> F" "1 \<le> int T" "1 \<le> S" "S = int (card F) * C" "S \<le> 2 ^ 60" "int T * S \<le> 2 ^ 60" "8 * C \<le> 2 ^ 60"
    "1 \<le> class_weight p c \<and> class_weight p c \<le> C" "L \<le> 0" "L \<le> min (dft p f) 8 - int T * owed ps0 f - int P * S"
    "S \<le> R" "- L \<le> R" "lo \<le> min (dft p f) 8 - int T * owed ps0 f - int T * S * int P" "lo \<le> - (int T * S * int P)"
  using assms unfolding fair_bounds_def by ((blast | simp)+)

lemma over_invD:
  assumes "over_inv F T P f S L R lo p ps0 n k q ps"
  shows "charges_ok F P S ps" "owed ps f \<le> owed ps0 f" "min (dft p f) 8 - int T * (owed ps0 f - owed ps f) \<le> dft q f"
    "g \<in> F \<Longrightarrow> dft q g \<le> 2 ^ 60" "g \<in> F \<Longrightarrow> lo - int T * S * int k \<le> dft q g - int T * owed ps g"
    "lead F f L q ps \<le> lead F f L p ps0 - int n + int k * R"
  using assms by (simp_all add: over_inv_def)

lemma sum_step:
  fixes x y c :: "'a \<Rightarrow> int"
  assumes "finite A" and "\<And>g. g \<in> A \<Longrightarrow> y g \<le> x g + c g + (if g = h then r else 0)" and "h \<in> A \<or> 0 \<le> r"
  shows "sum y A \<le> sum x A + sum c A + r"
proof -
  have "sum y A \<le> (\<Sum>g\<in>A. x g + c g + (if g = h then r else 0))" by (rule sum_mono) (rule assms(2))
  also have "\<dots> = sum x A + sum c A + (\<Sum>g\<in>A. if g = h then r else 0)" by (simp only: sum.distrib)
  also have "\<dots> \<le> sum x A + sum c A + r" using assms(1,3) by (auto simp: sum.delta)
  finally show ?thesis .
qed

lemma lead_change:
  assumes "finite F" and "\<And>g. g \<noteq> h \<Longrightarrow> dft q' g - owed ps' g \<le> dft q g - owed ps g"
    and "max L (dft q' h - owed ps' h) \<le> max L (dft q h - owed ps h) + r" and "0 \<le> r"
  shows "lead F f L q' ps' \<le> lead F f L q ps + r"
proof -
  have "lead F f L q' ps' \<le> lead F f L q ps + sum (\<lambda>_. 0) (F - {f}) + r"
    unfolding lead_def
  proof (rule sum_step)
    show "max L (dft q' g - owed ps' g) \<le> max L (dft q g - owed ps g) + 0 + (if g = h then r else 0)" for g
      using assms(2)[of g] assms(3) by (cases "g = h") auto
  qed (use assms in simp_all)
  then show ?thesis by simp
qed

lemma charges_ok_app:
  "charges_ok F P S (ps1 @ (g, s) # ps2) \<Longrightarrow> charges_ok F P S (ps1 @ ps2) \<and> g \<in> F \<and> 1 \<le> s \<and> s \<le> S"
  by (auto simp: charges_ok_def)

lemma over_drop_inv:
  assumes b: "fair_bounds F T P f S C L R lo p ps0" and inv: "over_inv F T P f S L R lo p ps0 n k q (ps1 @ (g, s) # ps2)"
  shows "over_inv F T P f S L R lo p ps0 n (Suc k) q (ps1 @ ps2)"
proof -
  note bs = fair_boundsD[OF b] and i = over_invD[OF inv]
  from charges_ok_app[OF i(1)] have ok: "charges_ok F P S (ps1 @ ps2)" and s: "1 \<le> s" "s \<le> S" by simp_all
  have Ts: "0 \<le> int T * s" using s by simp
  have "lead F f L q (ps1 @ ps2) \<le> lead F f L q (ps1 @ (g, s) # ps2) + s"
    by (rule lead_change[where h = g]) (use bs(1) s in auto)
  with i(6) s bs(12) have 6: "lead F f L q (ps1 @ ps2) \<le> lead F f L p ps0 - int n + int (Suc k) * R"
    by (simp add: algebra_simps)
  have M: "0 \<le> int T * S" using bs(4) by simp
  have Th: "int T * owed (ps1 @ (g, s) # ps2) h = int T * owed (ps1 @ ps2) h + (if h = g then int T * s else 0)" for h
    by (simp add: algebra_simps)
  have kk: "lo - int T * S * int (Suc k) \<le> lo - int T * S * int k" using M by (simp add: algebra_simps)
  have 5: "lo - int T * S * int (Suc k) \<le> dft q h - int T * owed (ps1 @ ps2) h" if "h \<in> F" for h
    using i(5)[OF that] Ts kk Th[of h] by (auto split: if_splits)
  have 3: "min (dft p f) 8 - int T * (owed ps0 f - owed (ps1 @ ps2) f) \<le> dft q f"
    using i(3) Ts Th[of f] unfolding right_diff_distrib by (auto split: if_splits)
  have 2: "owed (ps1 @ ps2) f \<le> owed ps0 f" using i(2) s by (auto split: if_splits)
  from ok 2 3 5 6 i(4) show ?thesis by (simp add: over_inv_def)
qed

lemma over_charge_inv:
  assumes b: "fair_bounds F T P f S C L R lo p ps0" and inv: "over_inv F T P f S L R lo p ps0 n k q (ps1 @ (g, s) # ps2)"
    and tokens: "tokens \<le> T" and room: "- (2 ^ 62) \<le> lo - int T * S * int k"
  shows "over_inv F T P f S L R lo p ps0 n k (fp_charge g tokens s q) (ps1 @ ps2)"
proof -
  note bs = fair_boundsD[OF b] and i = over_invD[OF inv]
  from charges_ok_app[OF i(1)] have ok: "charges_ok F P S (ps1 @ ps2)" and g: "g \<in> F" and s: "1 \<le> s" "s \<le> S" by simp_all
  define cost where "cost = int (max tokens 1) * s"
  have tok: "1 \<le> int (max tokens 1)" "int (max tokens 1) \<le> int T" using tokens bs(3) by auto
  have cost_ge: "s \<le> cost" using mult_right_mono[OF tok(1), of s] s by (simp add: cost_def)
  have costT: "cost \<le> int T * s" unfolding cost_def by (rule mult_right_mono) (use tok s in simp_all)
  have "int T * s \<le> int T * S" by (rule mult_left_mono) (use s in simp_all)
  with costT have cost_le: "cost \<le> int T * S" by linarith
  have T: "int T \<le> 2 ^ 60"
  proof -
    have "int T * 1 \<le> int T * S" by (rule mult_left_mono) (use bs(4) in simp_all)
    with bs(7) show ?thesis by simp
  qed
  have owed: "0 \<le> owed (ps1 @ (g, s) # ps2) g" by (rule owed_range[OF i(1)]) (use bs(4) in simp)
  have "0 \<le> int T * owed (ps1 @ (g, s) # ps2) g" by (rule mult_nonneg_nonneg) (use owed in simp_all)
  then have low: "- (2 ^ 62) \<le> dft q g" using i(5)[OF g] room by linarith
  have "wrap64 (int (max tokens 1)) = int (max tokens 1)"
    by (rule wrap64_id) (use tok T in \<open>simp_all add: i64_min_def i64_max_def\<close>)
  moreover have "sat64 cost = cost"
    by (rule sat64_id) (use cost_le cost_ge s bs(7) in \<open>simp_all add: i64_min_def i64_max_def\<close>)
  moreover have "wrap64 (dft q g - cost) = dft q g - cost"
    by (intro wrap64_id; simp add: i64_min_def i64_max_def)
      (use low i(4)[OF g] cost_le cost_ge s bs(7) in simp_all)
  ultimately have d': "dft (fp_charge g tokens s q) h = (if h = g then dft q g - cost else dft q h)" for h
    by (simp add: fp_charge_def cost_def)
  have 6: "lead F f L (fp_charge g tokens s q) (ps1 @ ps2) \<le> lead F f L q (ps1 @ (g, s) # ps2) + 0"
    by (rule lead_change[where h = g]) (use bs(1) cost_ge in \<open>auto simp: d'\<close>)
  have Ts: "int T * (owed (ps1 @ (g, s) # ps2) h) = int T * owed (ps1 @ ps2) h + (if h = g then int T * s else 0)" for h
    by (simp add: algebra_simps)
  have 5: "lo - int T * S * int k \<le> dft (fp_charge g tokens s q) h - int T * owed (ps1 @ ps2) h" if "h \<in> F" for h
    using i(5)[OF that] costT Ts[of h] by (auto simp: d')
  have 4: "dft (fp_charge g tokens s q) h \<le> 2 ^ 60" if "h \<in> F" for h
    using i(4)[OF that] cost_ge s by (auto simp: d')
  have 3: "min (dft p f) 8 - int T * (owed ps0 f - owed (ps1 @ ps2) f) \<le> dft (fp_charge g tokens s q) f"
    using i(3) costT Ts[of f] by (auto simp: d' right_diff_distrib)
  have 2: "owed (ps1 @ ps2) f \<le> owed ps0 f" using i(2) s by (auto split: if_splits)
  from ok 2 3 4 5 6 i(6) show ?thesis by (simp add: over_inv_def)
qed

lemma over_clear_inv:
  assumes b: "fair_bounds F T P f S C L R lo p ps0" and inv: "over_inv F T P f S L R lo p ps0 n k q ps" and f: "f \<in> set jobs"
  shows "over_inv F T P f S L R lo p ps0 n (if dft q g < 0 then Suc k else k) (fp_clear_if_idle g jobs q) ps"
proof -
  note bs = fair_boundsD[OF b] and i = over_invD[OF inv]
  let ?k = "if dft q g < 0 then Suc k else k"
  have M: "0 \<le> int T * S" using bs(4) by simp
  have R: "0 \<le> R" using bs(4,12) by linarith
  have kk: "lo - int T * S * int ?k \<le> lo - int T * S * int k" using M by (auto simp: algebra_simps)
  show ?thesis
  proof (cases "fp_clear_if_idle g jobs q = q")
    case True
    have "int k * R \<le> int ?k * R" by (rule mult_right_mono) (use R in simp_all)
    with i(6) have 6: "lead F f L q ps \<le> lead F f L p ps0 - int n + int ?k * R" by linarith
    have 5: "lo - int T * S * int ?k \<le> dft q h - int T * owed ps h" if "h \<in> F" for h using i(5)[OF that] kk by linarith
    from i(1-4) 5 6 show ?thesis unfolding True over_inv_def by blast
  next
    case False
    with f have gf: "g \<noteq> f" and d': "dft (fp_clear_if_idle g jobs q) h = (if h = g then 0 else dft q h)" for h
      by (auto simp: fp_clear_if_idle_def split: if_splits)
    have own: "0 \<le> owed ps h" "owed ps h \<le> int P * S" for h by (rule owed_range[OF i(1)], use bs(4) in simp)+
    have "int T * owed ps h \<le> int T * (int P * S)" for h by (rule mult_left_mono) (use own in simp_all)
    then have TO: "int T * owed ps h \<le> int T * S * int P" for h by (simp add: mult.commute mult.left_commute)
    have MK: "0 \<le> int T * S * int ?k" by (rule mult_nonneg_nonneg) (use M in simp_all)
    have 5: "lo - int T * S * int ?k \<le> dft (fp_clear_if_idle g jobs q) h - int T * owed ps h" if "h \<in> F" for h
    proof (cases "h = g")
      case True
      have "lo - int T * S * int ?k \<le> - (int T * owed ps h)" using bs(15) TO[of h] MK by linarith
      with True show ?thesis by (simp only: d' simp_thms if_True)
    next
      case False
      have "lo - int T * S * int ?k \<le> dft q h - int T * owed ps h" using i(5)[OF that] kk by linarith
      with False show ?thesis by (simp only: d' if_False)
    qed
    have 6: "lead F f L (fp_clear_if_idle g jobs q) ps \<le> lead F f L p ps0 - int n + int ?k * R"
    proof (cases "dft q g < 0")
      case True
      have "lead F f L (fp_clear_if_idle g jobs q) ps \<le> lead F f L q ps + - L"
        by (rule lead_change[where h = g]) (use bs(1,10) own[of g] in \<open>auto simp: d'\<close>)
      with i(6) bs(13) True show ?thesis by (simp add: algebra_simps)
    next
      case False
      have "lead F f L (fp_clear_if_idle g jobs q) ps \<le> lead F f L q ps + 0"
        by (rule lead_change[where h = g]) (use bs(1) False in \<open>auto simp: d'\<close>)
      with i(6) False show ?thesis by simp
    qed
    have 4: "dft (fp_clear_if_idle g jobs q) h \<le> 2 ^ 60" if "h \<in> F" for h using i(4)[OF that] by (simp add: d')
    from i(1,2,3) 4 5 6 gf show ?thesis by (simp add: over_inv_def d')
  qed
qed

lemma charges_ok_Cons:
  "charges_ok F P S ps \<Longrightarrow> length ps < P \<Longrightarrow> h \<in> F \<Longrightarrow> 1 \<le> t \<Longrightarrow> t \<le> S \<Longrightarrow> charges_ok F P S ((h, t) # ps)"
  by (simp add: charges_ok_def)

text \<open>A selection in flight. Its scale counts as owed at once, so that the lead of the others does not grow by
  it when \<open>f\<close> competes, and grows by at most all credits when it does not.\<close>

lemma over_selection_inv:
  assumes b: "fair_bounds F T P f S C L R lo p ps0" and inv: "over_inv F T P f S L R lo p ps0 n k q ps"
    and room: "- (2 ^ 62) \<le> lo - int T * S * int k" and cfg: "fp_config q = fp_config p" and len: "length ps < P"
    and pick: "fp_select available now q = (r, Some sel)" and e: "e \<in> set (fp_runnable q)" "pe_id e = sel_id sel"
    and ids: "distinct (map pe_id (fp_runnable q))" and flows: "pe_flow ` set (fp_runnable q) \<subseteq> F" and other: "pe_flow e \<noteq> f"
  shows "over_inv F T P f S L R lo p ps0 n (Suc k) r ((pe_flow e, sel_charge_scale sel) # ps)"
    and "e0 \<in> set (fp_runnable q) \<Longrightarrow> pe_flow e0 = f \<Longrightarrow> available (pe_id e0) \<Longrightarrow>
      over_inv F T P f S L R lo p ps0 (Suc n) k r ((pe_flow e, sel_charge_scale sel) # ps)"
proof -
  note bs = fair_boundsD[OF b] and i = over_invD[OF inv]
  let ?h = "pe_flow e" and ?t = "sel_charge_scale sel" and ?hs = "heads_of q available 0 [] (fp_runnable q)"
  let ?ps = "(?h, ?t) # ps" and ?M = "int T * S"
  have own: "0 \<le> owed ps g" "owed ps g \<le> int P * S" for g by (rule owed_range[OF i(1)], use bs(4) in simp)+
  have Town: "0 \<le> int T * owed ps g" for g by (rule mult_nonneg_nonneg) (use own in simp_all)
  have Cq: "1 \<le> class_weight q c \<and> class_weight q c \<le> C" for c
    using class_weight_cong[OF cfg] bs(9) by simp
  note fh = heads_fair[OF bs(1) flows Cq, of available]
  have "- (2 ^ 62) \<le> dft q g \<and> dft q g \<le> 2 ^ 60" if "g \<in> F" for g
    using i(4,5)[OF that] Town[of g] room by linarith
  then have range: "\<forall>g\<in>F. - (2 ^ 62) \<le> dft q g \<and> dft q g \<le> 2 ^ 60" by blast
  note eff = selection_effect[OF bs(5,6,8) pick refl fh e ids range refl refl]
  have ok: "charges_ok F P S ?ps" by (rule charges_ok_Cons[OF i(1) len eff(1-3)])
  have own': "owed ?ps g \<le> int P * S" for g by (rule owed_range(2)[OF ok]) (use bs(4) in simp)
  have "int T * owed ?ps g \<le> int T * (int P * S)" for g by (rule mult_left_mono) (use own' in simp_all)
  then have TO: "int T * owed ?ps g \<le> ?M * int P" for g by (simp only: mult.commute mult.left_commute)
  have Tt: "int T * ?t \<le> ?M" by (rule mult_left_mono) (use eff(3) in simp_all)
  have Th: "int T * owed ?ps g = int T * owed ps g + (if ?h = g then int T * ?t else 0)" for g by (simp add: algebra_simps)
  have gap: "0 \<le> int T * (owed ps0 f - owed ps f)" by (rule mult_nonneg_nonneg) (use i(2) in simp_all)
  have M: "0 \<le> ?M" using bs(4) by simp
  have Mk: "0 \<le> ?M * int k" by (rule mult_nonneg_nonneg) (use M in simp_all)
  have kk: "?M * int (Suc k) = ?M * int k + ?M" by (simp add: algebra_simps)
  have B: "min (dft p f) 8 - int T * (owed ps0 f - owed ps f) \<le> dft r f"
    using i(3) eff(6)[of f] gap by linarith
  have keep: "lo - ?M * int k \<le> dft r g - int T * owed ps g" if "g \<in> F" for g
  proof -
    have "int T * owed ps g \<le> int T * (int P * S)" by (rule mult_left_mono) (use own[of g] in simp_all)
    then have "int T * owed ps g \<le> ?M * int P" by (simp only: mult.commute mult.left_commute)
    then show ?thesis using i(5)[OF that] eff(6)[of g] bs(15) Mk by linarith
  qed
  have 2: "owed ?ps f \<le> owed ps0 f" using i(2) other by simp
  have 3: "min (dft p f) 8 - int T * (owed ps0 f - owed ?ps f) \<le> dft r f" using B other by simp
  have hF: "?h \<in> F - {f}" using eff(1) other by simp
  have credits: "(\<Sum>g\<in>F - {f}. credit_in ?hs g) = ?t - credit_in ?hs f"
    using eff(4) sum.remove[OF bs(1,2), of "credit_in ?hs"] by simp
  have cf: "0 \<le> credit_in ?hs f" using credit_in_range[OF fh] by simp
  show "over_inv F T P f S L R lo p ps0 n (Suc k) r ?ps"
  proof -
    have 5: "lo - ?M * int (Suc k) \<le> dft r g - int T * owed ?ps g" if "g \<in> F" for g
      using keep[OF that] Tt M unfolding Th kk by (cases "?h = g"; simp)
    have "lead F f L r ?ps \<le> lead F f L q ps + (\<Sum>g\<in>F - {f}. credit_in ?hs g) + 0"
      unfolding lead_def
    proof (rule sum_step)
      show "max L (dft r g - owed ?ps g) \<le> max L (dft q g - owed ps g) + credit_in ?hs g + (if g = ?h then 0 else 0)" for g
        using eff(2) eff(7)[of g] credit_in_range[OF fh, of g] by (auto simp: max_def)
    qed (use bs(1) in simp_all)
    then have "lead F f L r ?ps \<le> lead F f L p ps0 - int n + int (Suc k) * R"
      using i(6) credits cf eff(3) bs(12) by (simp add: algebra_simps)
    with ok 2 3 5 eff(5) show ?thesis by (simp only: over_inv_def) blast
  qed
  show "over_inv F T P f S L R lo p ps0 (Suc n) k r ?ps" if e0: "e0 \<in> set (fp_runnable q)" "pe_flow e0 = f" "available (pe_id e0)"
  proof -
    have top: "dft r f \<le> dft r ?h" "1 \<le> credit_in ?hs f" using eff(8)[OF e0(1,3)] e0(2) by simp_all
    have Tf: "int T * (owed ps0 f - owed ps f) \<le> int T * owed ps0 f"
      by (rule mult_left_mono) (use own[of f] in simp_all)
    have high: "min (dft p f) 8 - int T * owed ps0 f \<le> dft r ?h" using B top(1) Tf by linarith
    have 5: "lo - ?M * int k \<le> dft r g - int T * owed ?ps g" if "g \<in> F" for g
    proof (cases "?h = g")
      case True
      show ?thesis using high TO[of g] bs(14) Mk unfolding True by linarith
    next
      case False
      then show ?thesis using keep[OF that] unfolding Th by simp
    qed
    have "lead F f L r ?ps \<le> lead F f L q ps + (\<Sum>g\<in>F - {f}. credit_in ?hs g) + - ?t"
      unfolding lead_def
    proof (rule sum_step)
      show "max L (dft r g - owed ?ps g) \<le> max L (dft q g - owed ps g) + credit_in ?hs g + (if g = ?h then - ?t else 0)" for g
      proof (cases "g = ?h")
        case True
        have "L \<le> dft r ?h - owed ?ps ?h" using high own'[of ?h] bs(11) by linarith
        then show ?thesis using eff(7)[of ?h] True by simp
      next
        case False
        then show ?thesis using eff(7)[of g] credit_in_range[OF fh, of g] by (auto simp: max_def)
      qed
    qed (use bs(1) hF in simp_all)
    then have "lead F f L r ?ps \<le> lead F f L p ps0 - int (Suc n) + int k * R"
      using i(6) credits top(2) by simp
    with ok 2 3 5 eff(5) show ?thesis by (simp only: over_inv_def) blast
  qed
qed

lemma passed_over_inv:
  assumes "passed_over F T P f p ps0 n k q ps"
    and b: "fair_bounds F T P f S C L R lo p ps0" and ok: "charges_ok F P S ps0"
    and start: "\<And>g. g \<in> F \<Longrightarrow> dft p g \<le> 2 ^ 60 \<and> lo \<le> dft p g - int T * owed ps0 g"
    and room: "- (2 ^ 62) \<le> lo - int T * S * int k"
  shows "over_inv F T P f S L R lo p ps0 n k q ps"
  using assms(1) room
proof (induction rule: passed_over.induct)
  case over_start
  show ?case using ok start by (simp add: over_inv_def)
next
  case (over_select n k q ps available now r sel e e0)
  note inv = over_select.IH[OF over_select.prems]
  show ?case by (rule over_selection_inv(2)[OF b inv over_select.prems passed_over_config[OF over_select(1)] over_select(2-11)])
next
  case (over_busy n k q ps available now r sel e)
  have "int T * S * int k \<le> int T * S * int (Suc k)" by (rule mult_left_mono) (use fair_boundsD(4)[OF b] in simp_all)
  with over_busy.prems have room: "- (2 ^ 62) \<le> lo - int T * S * int k" by linarith
  show ?case by (rule over_selection_inv(1)[OF b over_busy.IH[OF room] room passed_over_config[OF over_busy(1)] over_busy(2-8)])
next
  case (over_charge n k q ps1 g s ps2 tokens)
  show ?case by (rule over_charge_inv[OF b over_charge.IH[OF over_charge.prems] over_charge(2) over_charge.prems])
next
  case (over_drop n k q ps1 g s ps2)
  have "int T * S * int k \<le> int T * S * int (Suc k)" by (rule mult_left_mono) (use fair_boundsD(4)[OF b] in simp_all)
  with over_drop.prems have "- (2 ^ 62) \<le> lo - int T * S * int k" by linarith
  then show ?case by (rule over_drop_inv[OF b over_drop.IH])
next
  case (over_clear n k q ps jobs g)
  have "int T * S * int k \<le> int T * S * int (if dft q g < 0 then Suc k else k)"
    by (rule mult_left_mono) (use fair_boundsD(4)[OF b] in simp_all)
  with over_clear.prems have "- (2 ^ 62) \<le> lo - int T * S * int k" by linarith
  then show ?case by (rule over_clear_inv[OF b over_clear.IH over_clear(2)])
next
  case (over_queue n k q ps es)
  from over_queue.IH[OF over_queue.prems] show ?case by (simp add: over_inv_def lead_def)
qed

text \<open>C16: No flow starves: the number of selections that serve other flows although \<open>f\<close> has an available
  entry is bounded by the lead of the other flows over the waiting flow, plus at most \<open>R\<close> for every event that
  gives a flow back what it had used up (a selection while the entries of \<open>f\<close> were unavailable, a charge that is
  dropped, a reset of a negative deficit when a flow goes idle). Charges come at any time after their selections,
  with at most \<open>P\<close> in flight, each for at most \<open>T\<close> tokens; the flows are those of \<open>F\<close>, credits are between one and
  \<open>C\<close>, and the products of these bounds stay clear of 64-bit overflow. The number of those events is not bounded:
  a flow that keeps going idle with its debts forgiven can be preferred as long as it keeps coming back.\<close>

theorem policy_no_starvation:
  fixes C L R :: int
  assumes "passed_over F T P f p ps0 n k q ps" and "finite F" and "f \<in> F" and "1 \<le> T"
    and "\<And>c. 1 \<le> class_weight p c \<and> class_weight p c \<le> C"
    and "length ps0 \<le> P" and "\<And>g s. (g, s) \<in> set ps0 \<Longrightarrow> g \<in> F \<and> 1 \<le> s \<and> s \<le> int (card F) * C"
    and "int T * (int (card F) * C) * (int P + int k + 1) \<le> 2 ^ 60" and "8 * C \<le> 2 ^ 60"
    and "\<And>g. g \<in> F \<Longrightarrow> - (2 ^ 60) \<le> deficit_of (fp_deficits p) g \<and> deficit_of (fp_deficits p) g \<le> 2 ^ 60"
    and "L = min 0 (min (deficit_of (fp_deficits p) f) 8 - int T * owed ps0 f - int P * (int (card F) * C))"
    and "R = max (int (card F) * C) (- L)"
  shows "int n \<le> (\<Sum>g\<in>F - {f}. max 0 (deficit_of (fp_deficits p) g - owed ps0 g - L)) + int k * R"
proof -
  define S where "S = int (card F) * C"
  let ?M = "int T * S"
  define lo where "lo = - (2 ^ 60) - 2 * (?M * int P)"
  have four: "(2::int) ^ 62 = 4 * 2 ^ 60" by simp
  have F1: "1 \<le> int (card F)" using assms(2,3) card_gt_0_iff[of F] by auto
  have C1: "1 \<le> C" using assms(5)[of Standard] by linarith
  have "1 * C \<le> int (card F) * C" by (rule mult_right_mono) (use F1 C1 in simp_all)
  then have S1: "1 \<le> S" using C1 unfolding S_def by linarith
  have "1 * S \<le> ?M" by (rule mult_right_mono) (use assms(4) S1 in simp_all)
  then have SM: "S \<le> ?M" by simp
  have parts: "?M * int P + ?M * int k + ?M \<le> 2 ^ 60" using assms(8) by (simp add: S_def algebra_simps)
  have nonneg: "0 \<le> ?M * int P" "0 \<le> ?M * int k" using S1 by simp_all
  have ok: "charges_ok F P S ps0" using assms(6,7) by (auto simp: charges_ok_def S_def)
  have own: "0 \<le> owed ps0 g" "owed ps0 g \<le> int P * S" for g by (rule owed_range[OF ok], use S1 in simp)+
  have "int T * owed ps0 g \<le> int T * (int P * S)" for g by (rule mult_left_mono) (use own in simp_all)
  then have TO: "int T * owed ps0 g \<le> ?M * int P" for g by (simp only: mult.commute mult.left_commute)
  have lof: "lo \<le> min (dft p f) 8 - int T * owed ps0 f - ?M * int P"
    using assms(10)[OF assms(3)] TO[of f] unfolding lo_def by linarith
  have "fair_bounds F T P f S C L R lo p ps0"
    unfolding fair_bounds_def
  proof (intro conjI allI)
    show "lo \<le> - (?M * int P)" using nonneg(1) zero_le_power[of "2::int" 60] unfolding lo_def by linarith
    show "S \<le> 2 ^ 60" "?M \<le> 2 ^ 60" using parts nonneg SM by linarith+
    show "1 \<le> class_weight p c" "class_weight p c \<le> C" for c using assms(5)[of c] by simp_all
  qed (use assms lof S1 in \<open>simp_all add: S_def\<close>)
  note inv = passed_over_inv[OF assms(1) this ok]
  have "over_inv F T P f S L R lo p ps0 n k q ps"
  proof (rule inv)
    show "dft p g \<le> 2 ^ 60 \<and> lo \<le> dft p g - int T * owed ps0 g" if "g \<in> F" for g
      using assms(10)[OF that] TO[of g] nonneg unfolding lo_def by linarith
    show "- (2 ^ 62) \<le> lo - ?M * int k" using parts nonneg S1 SM four unfolding lo_def by linarith
  qed
  then have "lead F f L q ps \<le> lead F f L p ps0 - int n + int k * R" by (rule over_invD)
  moreover have "(\<Sum>g\<in>F - {f}. L) \<le> lead F f L q ps" unfolding lead_def by (rule sum_mono) simp
  moreover have "lead F f L p ps0 - (\<Sum>g\<in>F - {f}. L) = (\<Sum>g\<in>F - {f}. max 0 (dft p g - owed ps0 g - L))"
    unfolding lead_def sum_subtractf[symmetric] by (rule sum.cong) (auto simp: max_def)
  ultimately show ?thesis by linarith
qed

text \<open>One selection of the other flow, its charge, and the reset of the debt this leaves when the flow goes idle.\<close>

definition demo_charged :: FairPolicy where
  "demo_charged = (case fp_select (\<lambda>_. True) 0 demo_policy of
     (r, Some sel) \<Rightarrow> (fp_charge flow_a 1 (sel_charge_scale sel) r)\<lparr>fp_runnable := drop 2 (fp_runnable demo_policy)\<rparr>
   | (r, None) \<Rightarrow> r)"

lemma demo_debt: "deficit_of (fp_deficits demo_charged) flow_a = - 1"
  by code_simp

lemma demo_passed_over:
  "passed_over {flow_a, flow_b} 1 1 flow_b demo_policy [] 1 1 (fp_clear_if_idle flow_a [flow_b] demo_charged) []"
proof -
  let ?all = "\<lambda>_::nat. True" and ?F = "{flow_a, flow_b}"
  have "map_option sel_id (snd (fp_select ?all 0 demo_policy)) = Some 1" by code_simp
  then obtain r sel where eq: "fp_select ?all 0 demo_policy = (r, Some sel)" and id: "sel_id sel = 1"
    by (metis (no_types, lifting) map_option_eq_Some prod.collapse)
  let ?e = "\<lambda>i fl. \<lparr>pe_id = i, pe_flow = fl, pe_admitted_round = 0, pe_admitted_at = 0\<rparr>"
  have run: "fp_runnable demo_policy = [?e 1 flow_a, ?e 2 flow_a, ?e 3 flow_b]"
    by (simp add: demo_policy_def fp_enqueue_def fp_new_def)
  have ne: "flow_a \<noteq> flow_b" by (simp add: flow_a_def flow_b_def)
  have "passed_over ?F 1 1 flow_b demo_policy [] (Suc 0) 0 r ((pe_flow (?e 1 flow_a), sel_charge_scale sel) # [])"
  proof (rule over_select[OF over_start])
    show "fp_select ?all 0 demo_policy = (r, Some sel)" by (rule eq)
    show "?e 3 flow_b \<in> set (fp_runnable demo_policy)" by (simp add: run)
  qed (simp_all add: run id ne)
  then have "passed_over ?F 1 1 flow_b demo_policy [] (Suc 0) 0 r ([] @ (flow_a, sel_charge_scale sel) # [])" by simp
  from over_charge[OF this, of 1]
  have "passed_over ?F 1 1 flow_b demo_policy [] (Suc 0) 0 (fp_charge flow_a 1 (sel_charge_scale sel) r) []" by simp
  from over_queue[OF this, of "drop 2 (fp_runnable demo_policy)"]
  have "passed_over ?F 1 1 flow_b demo_policy [] (Suc 0) 0 demo_charged []" by (simp add: demo_charged_def eq)
  from over_clear[OF this, of "[flow_b]" flow_a] show ?thesis by (simp add: demo_debt)
qed

theorem policy_no_starvation_witness:
  "int 1 \<le> (\<Sum>g\<in>{flow_a, flow_b} - {flow_b}. max 0 (deficit_of (fp_deficits demo_policy) g - owed [] g - (- 8))) + int 1 * 8"
proof (rule policy_no_starvation[OF demo_passed_over, where C = 4])
  have none: "fp_deficits demo_policy = []" by (simp add: demo_policy_def fp_enqueue_def fp_new_def)
  then have zero: "deficit_of (fp_deficits demo_policy) g = 0" for g by (simp add: deficit_of_def)
  have ne: "flow_a \<noteq> flow_b" by (simp add: flow_a_def flow_b_def)
  then have card: "card {flow_a, flow_b} = 2" by simp
  show "1 \<le> class_weight demo_policy c \<and> class_weight demo_policy c \<le> 4" for c
    by (cases c) (simp_all add: class_weight_def demo_policy_def fp_enqueue_def fp_new_def default_policy_def u32_saturating_mul_def)
  show "- (2 ^ 60) \<le> deficit_of (fp_deficits demo_policy) g \<and> deficit_of (fp_deficits demo_policy) g \<le> 2 ^ 60" for g
    by (simp add: zero)
  show "int 1 * (int (card {flow_a, flow_b}) * 4) * (int 1 + int 1 + 1) \<le> 2 ^ 60" by (simp add: card)
  show "- 8 = min 0 (min (deficit_of (fp_deficits demo_policy) flow_b) 8 - int 1 * owed [] flow_b
      - int 1 * (int (card {flow_a, flow_b}) * 4))" by (simp add: zero card)
  show "8 = max (int (card {flow_a, flow_b}) * 4) (- (- 8))" by (simp add: card)
qed simp_all

text \<open>Waiting promotes: work of a lower class is scheduled one class higher after one period of
  \<open>promotion_rounds\<close> rounds, and as interactive work after two, never lower than its own class.\<close>

theorem policy_age_promotion:
  "let waited = fp_round p - pe_admitted_round e; period = pc_promotion_rounds (fp_config p);
       cls = fst (effective_class p e); own = fk_class (pe_flow e)
   in (0 < period \<longrightarrow> 2 * period \<le> waited \<longrightarrow> cls = Interactive)
    \<and> (0 < period \<longrightarrow> period \<le> waited \<longrightarrow> cls \<noteq> Batch)
    \<and> (waited < period \<longrightarrow> cls = own)
    \<and> (own = Interactive \<longrightarrow> cls = Interactive) \<and> (own = Standard \<longrightarrow> cls \<noteq> Batch)"
proof -
  let ?w = "fp_round p - pe_admitted_round e" and ?d = "pc_promotion_rounds (fp_config p)"
  have one: "1 \<le> ?w div ?d" if "0 < ?d" "?d \<le> ?w" using that div_le_mono[of ?d ?w ?d] by simp
  have two: "2 \<le> ?w div ?d" if "0 < ?d" "2 * ?d \<le> ?w" using that div_le_mono[of "2 * ?d" ?w ?d] by simp
  have zero: "?w div ?d = 0" if "?w < ?d" using that by simp
  have "0 < ?d \<longrightarrow> 2 * ?d \<le> ?w \<longrightarrow> fst (effective_class p e) = Interactive"
    using two by (auto simp: effective_class_def Let_def min_def split: SchedulingClass.splits)
  moreover have "0 < ?d \<longrightarrow> ?d \<le> ?w \<longrightarrow> fst (effective_class p e) \<noteq> Batch"
    using one by (auto simp: effective_class_def Let_def min_def split: SchedulingClass.splits)
  moreover have "?w < ?d \<longrightarrow> fst (effective_class p e) = fk_class (pe_flow e)"
    using zero by (auto simp: effective_class_def Let_def split: SchedulingClass.splits)
  moreover have "fk_class (pe_flow e) = Interactive \<longrightarrow> fst (effective_class p e) = Interactive"
    "fk_class (pe_flow e) = Standard \<longrightarrow> fst (effective_class p e) \<noteq> Batch"
    by (auto simp: effective_class_def Let_def)
  ultimately show ?thesis unfolding Let_def by blast
qed

theorem policy_age_promotion_witness:
  "fst (effective_class (demo_policy\<lparr>fp_round := 128\<rparr>) \<lparr>pe_id = 3, pe_flow = flow_b, pe_admitted_round = 0, pe_admitted_at = 0\<rparr>)
     = Interactive"
  using policy_age_promotion[of "demo_policy\<lparr>fp_round := 128\<rparr>"
      "\<lparr>pe_id = 3, pe_flow = flow_b, pe_admitted_round = 0, pe_admitted_at = 0\<rparr>"]
  by (simp add: Let_def demo_policy_def fp_enqueue_def fp_new_def default_policy_def)

end
