(* ===== verification/Scheduler_Diagnostics.thy ===== *)
theory Scheduler_Diagnostics
  imports Fair_Policy
begin

text \<open>
  The diagnostic records of the workload scheduler (\<open>SchedulerDiagnostics\<close> in
  \<open>crates/server/src/scheduler.rs\<close>): a bounded channel to a writer thread, and the accounting
  of the records that did not fit. The channel is the list of lines queued for the writer;
  a line is the record it was serialised from. Whether \<open>serde_json\<close> serialises a record and
  whether the writer is still there are answers of the environment.
\<close>

record SchedulerDecision =
  sd_transport_correlation_id :: string
  sd_inference_operation_id :: string
  sd_execution_session_id :: string
  sd_principal :: string
  sd_class :: SchedulingClass
  sd_priority_source :: PrioritySource
  sd_model_id :: string
  sd_model_epoch :: nat
  sd_queue_age_ms :: nat
  sd_queue_age_rounds :: nat
  sd_age_promotions :: nat
  sd_quantum_kind :: QuantumKind
  sd_charged_tokens :: nat
  sd_quantum_duration_ns :: nat
  sd_context_placement :: string
  sd_executor_slot_occupied :: bool
  sd_transition_cost_bytes :: nat
  sd_capacity_reserved_bytes :: nat
  sd_cancelled :: bool
  sd_deadline_expired :: bool
  sd_reason :: string

type_synonym loss_map = "(string, nat) hm"

datatype DiagnosticRecord = Decision SchedulerDecision | LossSummary nat loss_map

record DiagnosticLoss =
  dl_pending_total :: nat
  dl_pending_by_kind :: loss_map
  dl_all_by_kind :: loss_map

record SchedulerDiagnostics =
  dg_capacity :: nat
  dg_queue :: "DiagnosticRecord list"
  dg_emitted :: nat
  dg_delivered :: nat
  dg_lost :: nat
  dg_loss :: DiagnosticLoss

definition diag_new :: "nat \<Rightarrow> SchedulerDiagnostics" where
  "diag_new capacity = \<lparr>dg_capacity = capacity, dg_queue = [], dg_emitted = 0, dg_delivered = 0, dg_lost = 0,
     dg_loss = \<lparr>dl_pending_total = 0, dl_pending_by_kind = [], dl_all_by_kind = []\<rparr>\<rparr>"

definition bump_kind :: "string \<Rightarrow> loss_map \<Rightarrow> loss_map" where
  "bump_kind k m = hm_put k ((case map_of m k of None \<Rightarrow> 0 | Some n \<Rightarrow> n) + 1) m"

definition record_loss :: "string \<Rightarrow> SchedulerDiagnostics \<Rightarrow> SchedulerDiagnostics" where
  "record_loss kind d = d\<lparr>dg_lost := dg_lost d + 1,
     dg_loss := \<lparr>dl_pending_total = saturating_add (dl_pending_total (dg_loss d)) 1,
       dl_pending_by_kind = bump_kind kind (dl_pending_by_kind (dg_loss d)),
       dl_all_by_kind = bump_kind kind (dl_all_by_kind (dg_loss d))\<rparr>\<rparr>"

text \<open>\<open>SyncSender::try_send\<close> on the bounded channel; it fails when the channel is full or closed.\<close>

definition try_send :: "bool \<Rightarrow> DiagnosticRecord \<Rightarrow> SchedulerDiagnostics \<Rightarrow> SchedulerDiagnostics option" where
  "try_send connected r d =
     (if connected \<and> length (dg_queue d) < dg_capacity d then Some (d\<lparr>dg_queue := dg_queue d @ [r]\<rparr>) else None)"

definition flush_loss_summary :: "bool \<Rightarrow> (DiagnosticRecord \<Rightarrow> bool) \<Rightarrow> SchedulerDiagnostics \<Rightarrow> SchedulerDiagnostics" where
  "flush_loss_summary connected encodes d =
     (if dl_pending_total (dg_loss d) = 0 then d
      else (let summary = LossSummary (dl_pending_total (dg_loss d)) (dl_pending_by_kind (dg_loss d)) in
        if \<not> encodes summary then d
        else (case try_send connected summary d of
            None \<Rightarrow> d
          | Some d' \<Rightarrow> d'\<lparr>dg_emitted := dg_emitted d' + 1,
              dg_loss := (dg_loss d')\<lparr>dl_pending_total := 0, dl_pending_by_kind := []\<rparr>\<rparr>)))"

definition diag_emit ::
  "bool \<Rightarrow> (DiagnosticRecord \<Rightarrow> bool) \<Rightarrow> string \<Rightarrow> DiagnosticRecord \<Rightarrow> SchedulerDiagnostics \<Rightarrow> SchedulerDiagnostics" where
  "diag_emit connected encodes kind r d =
     (if \<not> encodes r then record_loss ''serialization_error'' d
      else (let d1 = flush_loss_summary connected encodes d in
        case try_send connected r d1 of
          Some d2 \<Rightarrow> d2\<lparr>dg_emitted := dg_emitted d2 + 1\<rparr>
        | None \<Rightarrow> record_loss kind d1))"

text \<open>The writer thread: it takes the oldest line and hands it to the sink.\<close>

fun diag_write :: "SchedulerDiagnostics \<Rightarrow> (DiagnosticRecord \<times> SchedulerDiagnostics) option" where
  "diag_write d = (case dg_queue d of [] \<Rightarrow> None
     | r # rs \<Rightarrow> Some (r, d\<lparr>dg_queue := rs, dg_delivered := dg_delivered d + 1\<rparr>))"

definition loss_by_kind :: "SchedulerDiagnostics \<Rightarrow> loss_map" where
  "loss_by_kind d = dl_all_by_kind (dg_loss d)"

section \<open>Accounting\<close>

definition kind_total :: "loss_map \<Rightarrow> nat" where
  "kind_total m = hm_sum (\<lambda>n. n) m"

definition diag_ok :: "SchedulerDiagnostics \<Rightarrow> bool" where
  "diag_ok d \<longleftrightarrow> dg_emitted d = dg_delivered d + length (dg_queue d) \<and> length (dg_queue d) \<le> dg_capacity d
     \<and> hm_ok (dl_pending_by_kind (dg_loss d)) \<and> hm_ok (dl_all_by_kind (dg_loss d))
     \<and> dg_lost d = kind_total (dl_all_by_kind (dg_loss d))
     \<and> dl_pending_total (dg_loss d) = min (kind_total (dl_pending_by_kind (dg_loss d))) u64_max"

lemma kind_total_bump: "hm_ok m \<Longrightarrow> hm_ok (bump_kind k m) \<and> kind_total (bump_kind k m) = kind_total m + 1"
proof -
  assume ok: "hm_ok m"
  show ?thesis
  proof (cases "map_of m k")
    case None
    with ok show ?thesis by (simp add: bump_kind_def kind_total_def hm_sum_put_new)
  next
    case (Some n)
    with ok hm_sum_put_old[OF ok Some, of "\<lambda>n. n" "n + 1"] show ?thesis
      by (simp add: bump_kind_def kind_total_def)
  qed
qed

lemma record_loss_ok: "diag_ok d \<Longrightarrow> diag_ok (record_loss kind d)"
  using kind_total_bump[of "dl_all_by_kind (dg_loss d)" kind] kind_total_bump[of "dl_pending_by_kind (dg_loss d)" kind]
  by (auto simp: diag_ok_def record_loss_def saturating_add_def)

lemma flush_ok: "diag_ok d \<Longrightarrow> diag_ok (flush_loss_summary c enc d)"
  by (auto simp: diag_ok_def flush_loss_summary_def try_send_def Let_def kind_total_def split: option.split)

lemma emit_ok: "diag_ok d \<Longrightarrow> diag_ok (diag_emit c enc kind r d)"
proof -
  assume "diag_ok d"
  then have "diag_ok (flush_loss_summary c enc d)" by (rule flush_ok)
  moreover from this have "try_send c r (flush_loss_summary c enc d) = Some d2 \<Longrightarrow>
      diag_ok (d2\<lparr>dg_emitted := dg_emitted d2 + 1\<rparr>)" for d2
    by (auto simp: diag_ok_def try_send_def split: if_splits)
  ultimately show ?thesis using \<open>diag_ok d\<close> record_loss_ok
    by (auto simp: diag_emit_def Let_def split: option.split)
qed

lemma write_ok: "diag_ok d \<Longrightarrow> diag_write d = Some (r, d') \<Longrightarrow> diag_ok d'"
  by (auto simp: diag_ok_def split: list.splits)

lemma new_ok: "diag_ok (diag_new n)"
  by (simp add: diag_ok_def diag_new_def kind_total_def)

end
