(* ===== verification/Request_Control.thy ===== *)
theory Request_Control
  imports Server_Types
begin

text \<open>
  The control of a request (\<open>RequestControl\<close> in \<open>crates/server/src/lib.rs\<close>): an atomic state
  that leaves \<open>Running\<close> once, and the abort callback an engine registers while it executes.
  A callback is the number of the closure; calling it is recorded by the caller.
\<close>

section \<open>State and operations\<close>

datatype control_state = ControlRunning | ControlCancelled | ControlDeadline | ControlComplete

record RequestControl =
  rc_state :: control_state
  rc_abort :: "nat option"

definition rc_new :: RequestControl where
  "rc_new = \<lparr>rc_state = ControlRunning, rc_abort = None\<rparr>"

definition state_check :: "control_state \<Rightarrow> (server_error, unit) outcome" where
  "state_check st = (case st of ControlRunning \<Rightarrow> Ok () | ControlDeadline \<Rightarrow> Err Deadline | _ \<Rightarrow> Err Cancelled)"

definition rc_check :: "RequestControl \<Rightarrow> (server_error, unit) outcome" where
  "rc_check c = state_check (rc_state c)"

text \<open>\<open>compare_exchange(RUNNING, st)\<close>: the new state, and whether the exchange took place.\<close>

definition leave_running :: "control_state \<Rightarrow> RequestControl \<Rightarrow> RequestControl \<times> bool" where
  "leave_running st c = (if rc_state c = ControlRunning then (c\<lparr>rc_state := st\<rparr>, True) else (c, False))"

text \<open>The closure a call of \<open>cancel\<close> or \<open>expire\<close> calls, if any.\<close>

definition rc_cancel :: "RequestControl \<Rightarrow> RequestControl \<times> nat option" where
  "rc_cancel c = (case leave_running ControlCancelled c of (c', won) \<Rightarrow> (c', if won then rc_abort c' else None))"

definition rc_expire :: "RequestControl \<Rightarrow> RequestControl \<times> nat option" where
  "rc_expire c = (case leave_running ControlDeadline c of (c', won) \<Rightarrow> (c', if won then rc_abort c' else None))"

definition rc_complete :: "RequestControl \<Rightarrow> RequestControl" where
  "rc_complete c = fst (leave_running ControlComplete c)"

definition rc_is_complete :: "RequestControl \<Rightarrow> bool" where
  "rc_is_complete c \<longleftrightarrow> rc_state c = ControlComplete"

definition rc_register_abort :: "nat \<Rightarrow> RequestControl \<Rightarrow> RequestControl \<times> nat option" where
  "rc_register_abort f c = (let c' = c\<lparr>rc_abort := Some f\<rparr> in
     (c', case rc_check c' of Ok _ \<Rightarrow> None | _ \<Rightarrow> Some f))"

text \<open>Dropping the \<open>AbortRegistration\<close>.\<close>

definition rc_unregister :: "RequestControl \<Rightarrow> RequestControl" where
  "rc_unregister c = c\<lparr>rc_abort := None\<rparr>"

lemma rc_cancel_check: "rc_check (fst (rc_cancel c)) \<noteq> Ok ()"
  by (auto simp: rc_cancel_def leave_running_def rc_check_def state_check_def split: control_state.splits)

end
