(* ===== verification/Scheduler.thy ===== *)
theory Scheduler
  imports Scheduler_Diagnostics Request_Control
begin

text \<open>
  The workload scheduler (\<open>run_scheduler\<close> and the functions it calls in
  \<open>crates/server/src/scheduler.rs\<close>): one thread that owns the jobs, one worker thread per
  model slot that runs their quanta, an event channel into the scheduler and one message
  channel per job to its client.

  What other code decides is an answer of the environment (\<open>Env\<close>, \<open>Engine\<close>): the clock,
  fresh uuids, whether the operating system starts a thread, and what the inference engine
  and its sessions return. A panic of the scheduler thread is \<open>None\<close>; a panic of an engine
  call is \<open>Abort\<close>, which the worker catches. Sessions are opaque handles.

  Channels are the lists of the messages not yet received. \<open>sc_sent\<close> is the history of all
  messages sent to clients, \<open>sc_aborts\<close> of all abort callbacks called.
\<close>

section \<open>Data\<close>

type_synonym session = nat

datatype ClientMessage =
    ClientToken int "8 word list" bool
  | ClientFinished EngineOutput
  | ClientFailed server_error

record ModelSlotKey =
  sk_model_id :: string
  sk_model_epoch :: nat

text \<open>A \<open>Submit\<close> carries its response channel; the channel is named by the job's id.\<close>

datatype Command = Submit nat EngineRequest | Continue nat | Stop nat | Cancel nat | Shutdown

datatype SlotAction = Start EngineRequest | Step session | Finish session | SlotShutdown

record SlotTask =
  st_id :: nat
  st_action :: SlotAction
  st_selection :: "Selection option"

record SlotCompletion =
  cp_id :: nat
  cp_result :: "server_error + SessionStep"
  cp_session :: "session option"
  cp_selection :: "Selection option"
  cp_quantum_duration_ns :: nat

datatype SchedulerEvent = Client Command | SlotCompleted SlotCompletion

text \<open>\<open>sw_alive\<close>: the worker still holds the receiver of its queue.\<close>

record SlotWorker =
  sw_queue :: "SlotTask list"
  sw_alive :: bool
  sw_busy :: bool

record Job =
  jb_request :: "EngineRequest option"
  jb_session :: "session option"
  jb_control :: nat
  jb_flow :: FlowKey
  jb_scheduling :: SchedulingMetadata
  jb_slot :: ModelSlotKey
  jb_execution_session_id :: string
  jb_admitted_round :: nat
  jb_admitted_at :: nat
  jb_in_flight :: bool
  jb_cancel_requested :: bool

record SchedulerCounters =
  ct_admitted :: nat
  ct_completed :: nat
  ct_cancelled :: nat
  ct_deadlines :: nat
  ct_failed :: nat
  ct_rounds :: nat
  ct_runnable :: nat
  ct_waiting :: nat

definition counters_default :: SchedulerCounters where
  "counters_default = \<lparr>ct_admitted = 0, ct_completed = 0, ct_cancelled = 0, ct_deadlines = 0, ct_failed = 0,
     ct_rounds = 0, ct_runnable = 0, ct_waiting = 0\<rparr>"

record Scheduler =
  sc_policy :: FairPolicy
  sc_jobs :: "(nat, Job) hm"
  sc_slots :: "(ModelSlotKey, SlotWorker) hm"
  sc_shutting_down :: bool
  sc_returned :: bool
  sc_counters :: SchedulerCounters
  sc_diagnostics :: SchedulerDiagnostics
  sc_events :: "SchedulerEvent list"
  sc_inboxes :: "(nat, ClientMessage list) hm"
  sc_sent :: "(nat \<times> ClientMessage) list"
  sc_controls :: "(nat, RequestControl) hm"
  sc_aborts :: "nat list"
  sc_next_id :: nat

section \<open>The environment\<close>

record Engine =
  en_start :: "EngineRequest \<Rightarrow> (server_error, session) outcome"
  en_step :: "session \<Rightarrow> (server_error, SessionStep) outcome"
  en_finish :: "session \<Rightarrow> (server_error, EngineOutput) outcome"

record Env =
  env_now :: nat
  env_uuid :: string
  env_spawn_error :: "ModelSlotKey \<Rightarrow> string option"
  env_encodes :: "DiagnosticRecord \<Rightarrow> bool"
  env_connected :: bool
  env_engine :: Engine
  env_duration :: nat

section \<open>Channels, controls and counters\<close>

text \<open>Sending to a client succeeds while the client's receiver exists.\<close>

definition send_message :: "nat \<Rightarrow> ClientMessage \<Rightarrow> Scheduler \<Rightarrow> Scheduler \<times> bool" where
  "send_message i m s = (let s' = s\<lparr>sc_sent := sc_sent s @ [(i, m)]\<rparr> in
     case map_of (sc_inboxes s) i of
       None \<Rightarrow> (s', False)
     | Some box \<Rightarrow> (s'\<lparr>sc_inboxes := hm_put i (box @ [m]) (sc_inboxes s)\<rparr>, True))"

definition cancel_control :: "nat \<Rightarrow> Scheduler \<Rightarrow> Scheduler" where
  "cancel_control c s = (case map_of (sc_controls s) c of
       None \<Rightarrow> s
     | Some rc \<Rightarrow> (let (rc', called) = rc_cancel rc in
         s\<lparr>sc_controls := hm_put c rc' (sc_controls s),
           sc_aborts := sc_aborts s @ (case called of None \<Rightarrow> [] | Some f \<Rightarrow> [f])\<rparr>))"

definition map_waiting :: "(nat \<Rightarrow> nat) \<Rightarrow> Scheduler \<Rightarrow> Scheduler" where
  "map_waiting f s = s\<lparr>sc_counters := (sc_counters s)\<lparr>ct_waiting := f (ct_waiting (sc_counters s))\<rparr>\<rparr>"

abbreviation map_policy :: "(FairPolicy \<Rightarrow> FairPolicy) \<Rightarrow> Scheduler \<Rightarrow> Scheduler" where
  "map_policy f s \<equiv> s\<lparr>sc_policy := f (sc_policy s)\<rparr>"

text \<open>\<open>send_terminal\<close>, called with a job that has been removed from the table.\<close>

definition send_terminal :: "nat \<Rightarrow> server_error + EngineOutput \<Rightarrow> Scheduler \<Rightarrow> Scheduler" where
  "send_terminal i result s = (case result of
       Inr output \<Rightarrow> (let s' = fst (send_message i (ClientFinished output) s) in
         s'\<lparr>sc_counters := (sc_counters s')\<lparr>ct_completed := ct_completed (sc_counters s') + 1\<rparr>\<rparr>)
     | Inl e \<Rightarrow> (let s' = fst (send_message i (ClientFailed e) s); c = sc_counters s' in
         s'\<lparr>sc_counters := (case e of
             Cancelled \<Rightarrow> c\<lparr>ct_cancelled := ct_cancelled c + 1\<rparr>
           | Deadline \<Rightarrow> c\<lparr>ct_deadlines := ct_deadlines c + 1\<rparr>
           | _ \<Rightarrow> c\<lparr>ct_failed := ct_failed c + 1\<rparr>)\<rparr>))"

section \<open>Slot workers\<close>

text \<open>What the worker thread of a slot makes of one task (\<open>spawn_slot\<close>).\<close>

definition panicked :: "(server_error + SessionStep) \<times> session option" where
  "panicked = (Inl (StateError ''model slot worker panicked''), None)"

definition slot_run :: "Engine \<Rightarrow> SlotAction \<Rightarrow> (server_error + SessionStep) \<times> session option" where
  "slot_run en action = (case action of
       Start request \<Rightarrow> (case en_start en request of
           Ok session \<Rightarrow> (Inr (Progress (model_free Preparation 1)), Some session)
         | Err e \<Rightarrow> (Inl e, None)
         | Abort \<Rightarrow> panicked)
     | Step session \<Rightarrow> (case en_step en session of
           Ok r \<Rightarrow> (Inr r, Some session)
         | Err e \<Rightarrow> (Inl e, Some session)
         | Abort \<Rightarrow> panicked)
     | Finish session \<Rightarrow> (case en_finish en session of
           Ok output \<Rightarrow> (Inr (Finished output), None)
         | Err e \<Rightarrow> (Inl e, None)
         | Abort \<Rightarrow> panicked)
     | SlotShutdown \<Rightarrow> panicked)"

definition slot_execute :: "Env \<Rightarrow> SlotTask \<Rightarrow> SlotCompletion" where
  "slot_execute env task = (case slot_run (env_engine env) (st_action task) of
     (result, session) \<Rightarrow> \<lparr>cp_id = st_id task, cp_result = result, cp_session = session,
        cp_selection = st_selection task, cp_quantum_duration_ns = env_duration env\<rparr>)"

text \<open>One iteration of the worker of slot \<open>k\<close>; it blocks on an empty queue.\<close>

definition worker_turn :: "Env \<Rightarrow> ModelSlotKey \<Rightarrow> Scheduler \<Rightarrow> Scheduler option" where
  "worker_turn env k s = (case map_of (sc_slots s) k of
       None \<Rightarrow> None
     | Some sw \<Rightarrow> (case sw_queue sw of
           [] \<Rightarrow> None
         | task # rest \<Rightarrow> Some (s\<lparr>sc_slots := hm_put k (sw\<lparr>sw_queue := rest\<rparr>) (sc_slots s),
             sc_events := sc_events s @ [SlotCompleted (slot_execute env task)]\<rparr>)))"

definition new_slot :: SlotWorker where
  "new_slot = \<lparr>sw_queue = [], sw_alive = True, sw_busy = False\<rparr>"

definition ensure_slot :: "Env \<Rightarrow> ModelSlotKey \<Rightarrow> Scheduler \<Rightarrow> Scheduler \<times> (server_error, SlotWorker) outcome" where
  "ensure_slot env k s = (case map_of (sc_slots s) k of
       Some sw \<Rightarrow> (s, Ok sw)
     | None \<Rightarrow> (case env_spawn_error env k of
           Some msg \<Rightarrow> (s, Err (StateError msg))
         | None \<Rightarrow> (s\<lparr>sc_slots := hm_put k new_slot (sc_slots s)\<rparr>, Ok new_slot)))"

text \<open>Marking a slot busy and queueing a task; the send fails when the worker is gone.\<close>

definition slot_send :: "ModelSlotKey \<Rightarrow> SlotTask \<Rightarrow> SlotWorker \<Rightarrow> Scheduler \<Rightarrow> Scheduler \<times> (server_error, unit) outcome" where
  "slot_send k task sw s =
     (if sw_alive sw then
        (s\<lparr>sc_slots := hm_put k (sw\<lparr>sw_busy := True, sw_queue := sw_queue sw @ [task]\<rparr>) (sc_slots s)\<rparr>, Ok ())
      else (s\<lparr>sc_slots := hm_put k (sw\<lparr>sw_busy := True\<rparr>) (sc_slots s)\<rparr>, Err (StateError ''model slot worker stopped'')))"

text \<open>
  Shutting a slot down joins its worker, which first runs what is still in its queue.
\<close>

definition join_slot :: "Env \<Rightarrow> SlotWorker \<Rightarrow> SchedulerEvent list" where
  "join_slot env sw = (if sw_alive sw then map (\<lambda>t. SlotCompleted (slot_execute env t)) (sw_queue sw) else [])"

definition retire_slot_if_idle :: "Env \<Rightarrow> ModelSlotKey \<Rightarrow> Scheduler \<Rightarrow> Scheduler" where
  "retire_slot_if_idle env k s =
     (if list_ex (\<lambda>j. jb_slot j = k) (hm_values (sc_jobs s)) then s
      else (case map_of (sc_slots s) k of
          None \<Rightarrow> s
        | Some sw \<Rightarrow> s\<lparr>sc_slots := hm_del k (sc_slots s), sc_events := sc_events s @ join_slot env sw\<rparr>))"

definition shutdown_slots :: "Env \<Rightarrow> Scheduler \<Rightarrow> Scheduler" where
  "shutdown_slots env s = s\<lparr>sc_slots := [],
     sc_events := sc_events s @ concat (map (join_slot env) (hm_values (sc_slots s)))\<rparr>"

definition cancel_all_jobs :: "Scheduler \<Rightarrow> Scheduler" where
  "cancel_all_jobs s = fold (\<lambda>(i, j) t. fst (send_message i (ClientFailed Cancelled) (cancel_control (jb_control j) t)))
     (sc_jobs s) (s\<lparr>sc_jobs := []\<rparr>)"

section \<open>Dispatch\<close>

definition slot_busy :: "Scheduler \<Rightarrow> ModelSlotKey \<Rightarrow> bool" where
  "slot_busy s k = (case map_of (sc_slots s) k of None \<Rightarrow> False | Some sw \<Rightarrow> sw_busy sw)"

definition dispatchable :: "Scheduler \<Rightarrow> nat \<Rightarrow> bool" where
  "dispatchable s i = (case map_of (sc_jobs s) i of
     None \<Rightarrow> False | Some j \<Rightarrow> \<not> jb_in_flight j \<and> \<not> slot_busy s (jb_slot j))"

definition job_action :: "Job \<Rightarrow> (SlotAction \<times> Job) option" where
  "job_action j = (case jb_request j of
       Some request \<Rightarrow> Some (Start request, j\<lparr>jb_request := None, jb_in_flight := True\<rparr>)
     | None \<Rightarrow> (case jb_session j of
           Some session \<Rightarrow> Some (Step session, j\<lparr>jb_session := None, jb_in_flight := True\<rparr>)
         | None \<Rightarrow> None))"

definition submit_task :: "Env \<Rightarrow> ModelSlotKey \<Rightarrow> SlotTask \<Rightarrow> Scheduler \<Rightarrow> Scheduler \<times> (server_error, unit) outcome" where
  "submit_task env k task s = and_then (ensure_slot env k s) (slot_send k task)"

definition dispatch_one :: "Env \<Rightarrow> Scheduler \<Rightarrow> (Scheduler \<times> bool) option" where
  "dispatch_one env s = (case fp_select (dispatchable s) (env_now env) (sc_policy s) of
       (p, None) \<Rightarrow> Some (s\<lparr>sc_policy := p\<rparr>, False)
     | (p, Some sel) \<Rightarrow> (let i = sel_id sel in case map_of (sc_jobs s) i of
           None \<Rightarrow> None
         | Some j \<Rightarrow> (case job_action j of
               None \<Rightarrow> None
             | Some (action, j') \<Rightarrow>
                 (case submit_task env (jb_slot j) \<lparr>st_id = i, st_action = action, st_selection = Some sel\<rparr>
                     (s\<lparr>sc_policy := p, sc_jobs := hm_put i j' (sc_jobs s)\<rparr>) of
                   (s', Ok _) \<Rightarrow> Some (s', True)
                 | (s', Err e) \<Rightarrow> Some (send_terminal i (Inl e) (s'\<lparr>sc_jobs := hm_del i (sc_jobs s')\<rparr>), True)
                 | (s', Abort) \<Rightarrow> None))))"

section \<open>Commands\<close>

definition submit_job :: "Env \<Rightarrow> nat \<Rightarrow> EngineRequest \<Rightarrow> Scheduler \<Rightarrow> Scheduler" where
  "submit_job env i request s =
     (let flow = \<lparr>fk_principal = sm_principal (er_scheduling request), fk_class = sm_class (er_scheduling request)\<rparr>;
          round = fp_round (sc_policy s);
          job = \<lparr>jb_request = Some request, jb_session = None, jb_control = er_control request, jb_flow = flow,
            jb_scheduling = er_scheduling request,
            jb_slot = \<lparr>sk_model_id = mr_id (er_model request), sk_model_epoch = mr_epoch (er_model request)\<rparr>,
            jb_execution_session_id = env_uuid env, jb_admitted_round = round, jb_admitted_at = env_now env,
            jb_in_flight = False, jb_cancel_requested = False\<rparr>
      in s\<lparr>sc_jobs := hm_put i job (sc_jobs s),
           sc_counters := (sc_counters s)\<lparr>ct_admitted := ct_admitted (sc_counters s) + 1\<rparr>,
           sc_policy := fp_enqueue i flow round (env_now env) (sc_policy s)\<rparr>)"

definition requeue :: "nat \<Rightarrow> Job \<Rightarrow> FairPolicy \<Rightarrow> FairPolicy" where
  "requeue i j = fp_enqueue i (jb_flow j) (jb_admitted_round j) (jb_admitted_at j)"

definition continue_job :: "nat \<Rightarrow> Scheduler \<Rightarrow> Scheduler" where
  "continue_job i s = (case map_of (sc_jobs s) i of
       None \<Rightarrow> s
     | Some j \<Rightarrow> map_waiting wrapping_dec (map_policy (requeue i j) s))"

definition stop_job :: "Env \<Rightarrow> nat \<Rightarrow> Scheduler \<Rightarrow> Scheduler" where
  "stop_job env i s0 = (let s = map_policy (fst \<circ> fp_remove i) (map_waiting wrapping_dec s0) in
     case map_of (sc_jobs s) i of
       None \<Rightarrow> s
     | Some j \<Rightarrow> (case jb_session j of
           None \<Rightarrow> (let s' = cancel_control (jb_control j) s in
             s'\<lparr>sc_jobs := hm_put i (j\<lparr>jb_cancel_requested := True\<rparr>) (sc_jobs s')\<rparr>)
         | Some session \<Rightarrow>
             (case submit_task env (jb_slot j) \<lparr>st_id = i, st_action = Finish session, st_selection = None\<rparr>
                 (s\<lparr>sc_jobs := hm_put i (j\<lparr>jb_session := None, jb_in_flight := True\<rparr>) (sc_jobs s)\<rparr>) of
               (s', Err e) \<Rightarrow> send_terminal i (Inl e) (s'\<lparr>sc_jobs := hm_del i (sc_jobs s')\<rparr>)
             | (s', _) \<Rightarrow> s')))"

definition clear_flow :: "FlowKey \<Rightarrow> Scheduler \<Rightarrow> Scheduler" where
  "clear_flow flow s = s\<lparr>sc_policy := fp_clear_if_idle flow (map jb_flow (hm_values (sc_jobs s))) (sc_policy s)\<rparr>"

definition cancel_job :: "nat \<Rightarrow> Scheduler \<Rightarrow> Scheduler" where
  "cancel_job i s0 = (case fp_remove i (sc_policy s0) of (p, was_runnable) \<Rightarrow>
     (let s = s0\<lparr>sc_policy := p\<rparr> in case map_of (sc_jobs s) i of
        None \<Rightarrow> s
      | Some j \<Rightarrow> (let s1 = cancel_control (jb_control j) s in
          if jb_in_flight j then s1\<lparr>sc_jobs := hm_put i (j\<lparr>jb_cancel_requested := True\<rparr>) (sc_jobs s1)\<rparr>
          else (let s2 = s1\<lparr>sc_jobs := hm_del i (sc_jobs s1)\<rparr>;
                    s3 = (if jb_session j \<noteq> None \<and> \<not> was_runnable then map_waiting wrapping_dec s2 else s2)
                in clear_flow (jb_flow j) (send_terminal i (Inl Cancelled) s3)))))"

definition handle_command :: "Env \<Rightarrow> Command \<Rightarrow> Scheduler \<Rightarrow> Scheduler option" where
  "handle_command env c s = (case c of
       Submit i request \<Rightarrow> Some (submit_job env i request s)
     | Continue i \<Rightarrow> Some (continue_job i s)
     | Stop i \<Rightarrow> Some (stop_job env i s)
     | Cancel i \<Rightarrow> Some (cancel_job i s)
     | Shutdown \<Rightarrow> None)"

section \<open>Completions\<close>

text \<open>What a completion means for its job: the observation to charge, the terminal result if the
  job is over, and whether the job now waits for its consumer.\<close>

definition judge ::
  "nat \<Rightarrow> Job \<Rightarrow> server_error + SessionStep \<Rightarrow> Scheduler
     \<Rightarrow> Scheduler \<times> QuantumObservation \<times> (server_error + EngineOutput) option \<times> bool" where
  "judge i j result s = (case result of
       Inr (Progress ob) \<Rightarrow> (s, ob, None, False)
     | Inr (TokenStep tok piece control ob) \<Rightarrow>
         (if jb_cancel_requested j then (s, ob, Some (Inl Cancelled), False)
          else (case send_message i (ClientToken tok piece control) s of (s', sent) \<Rightarrow>
            if \<not> sent then (s', ob, Some (Inl Cancelled), False)
            else (map_waiting (\<lambda>w. wrapping_add w 1) s', ob, None, True)))
     | Inr (Finished output) \<Rightarrow>
         (s, model_free Publication 1, Some (if jb_cancel_requested j then Inl Cancelled else Inr output), False)
     | Inl e \<Rightarrow> (s, model_free Preparation 1, Some (Inl (if jb_cancel_requested j then Cancelled else e)), False))"

definition decision ::
  "Job \<Rightarrow> Selection \<Rightarrow> nat \<Rightarrow> QuantumObservation \<Rightarrow> (server_error + EngineOutput) option \<Rightarrow> SchedulerDecision" where
  "decision j sel duration ob terminal =
     \<lparr>sd_transport_correlation_id = sm_correlation_id (jb_scheduling j),
      sd_inference_operation_id = sm_inference_id (jb_scheduling j),
      sd_execution_session_id = jb_execution_session_id j,
      sd_principal = sm_principal (jb_scheduling j),
      sd_class = sm_class (jb_scheduling j),
      sd_priority_source = sm_source (jb_scheduling j),
      sd_model_id = sk_model_id (jb_slot j),
      sd_model_epoch = sk_model_epoch (jb_slot j),
      sd_queue_age_ms = sel_queue_age_ms sel,
      sd_queue_age_rounds = sel_queue_age_rounds sel,
      sd_age_promotions = sel_promotions sel,
      sd_quantum_kind = qo_kind ob,
      sd_charged_tokens = qo_charged_tokens ob,
      sd_quantum_duration_ns = duration,
      sd_context_placement = qo_context_placement ob,
      sd_executor_slot_occupied = qo_executor_slot_occupied ob,
      sd_transition_cost_bytes = qo_transition_cost_bytes ob,
      sd_capacity_reserved_bytes = qo_capacity_reserved_bytes ob,
      sd_cancelled = (terminal = Some (Inl Cancelled)),
      sd_deadline_expired = (terminal = Some (Inl Deadline)),
      sd_reason = (if 0 < sel_promotions sel then ''age_promoted'' else ''class_ready'')\<rparr>"

definition account ::
  "Env \<Rightarrow> Job \<Rightarrow> SlotCompletion \<Rightarrow> QuantumObservation \<Rightarrow> (server_error + EngineOutput) option \<Rightarrow> Scheduler \<Rightarrow> Scheduler" where
  "account env j c ob terminal s = (case cp_selection c of
       None \<Rightarrow> s
     | Some sel \<Rightarrow> s\<lparr>sc_policy := fp_charge (jb_flow j) (qo_charged_tokens ob) (sel_charge_scale sel) (sc_policy s),
         sc_diagnostics := diag_emit (env_connected env) (env_encodes env) ''scheduler_decision''
           (Decision (decision j sel (cp_quantum_duration_ns c) ob terminal)) (sc_diagnostics s)\<rparr>)"

definition free_slot :: "ModelSlotKey \<Rightarrow> Scheduler \<Rightarrow> Scheduler" where
  "free_slot k s = (case map_of (sc_slots s) k of
       None \<Rightarrow> s | Some sw \<Rightarrow> s\<lparr>sc_slots := hm_put k (sw\<lparr>sw_busy := False\<rparr>) (sc_slots s)\<rparr>)"

definition finish_job :: "Env \<Rightarrow> nat \<Rightarrow> Job \<Rightarrow> server_error + EngineOutput \<Rightarrow> Scheduler \<Rightarrow> Scheduler" where
  "finish_job env i j result s = retire_slot_if_idle env (jb_slot j)
     (clear_flow (jb_flow j) (send_terminal i result (s\<lparr>sc_jobs := hm_del i (sc_jobs s)\<rparr>)))"

definition handle_completion :: "Env \<Rightarrow> SlotCompletion \<Rightarrow> Scheduler \<Rightarrow> Scheduler" where
  "handle_completion env c s = (let i = cp_id c in case map_of (sc_jobs s) i of
       None \<Rightarrow> s
     | Some j0 \<Rightarrow>
         (let j = j0\<lparr>jb_in_flight := False, jb_session := cp_session c\<rparr>;
              s0 = free_slot (jb_slot j0) s;
              s1 = s0\<lparr>sc_jobs := hm_put i j (sc_jobs s0)\<rparr>
          in case judge i j (cp_result c) s1 of (s2, ob, verdict, waits) \<Rightarrow>
            (let terminal = (if jb_cancel_requested j \<and> verdict = None then Some (Inl Cancelled) else verdict);
                 s3 = account env j c ob terminal s2
             in case terminal of
                  Some result \<Rightarrow> finish_job env i j result s3
                | None \<Rightarrow> if waits then s3 else map_policy (requeue i j) s3)))"

section \<open>The scheduler thread\<close>

definition begin_shutdown :: "Scheduler \<Rightarrow> Scheduler" where
  "begin_shutdown s = (let s' = fold (\<lambda>j. cancel_control (jb_control j)) (hm_values (sc_jobs s))
       (s\<lparr>sc_shutting_down := True, sc_policy := (sc_policy s)\<lparr>fp_runnable := []\<rparr>\<rparr>)
     in s'\<lparr>sc_jobs := map (\<lambda>(i, j). (i, j\<lparr>jb_cancel_requested := True\<rparr>)) (sc_jobs s')\<rparr>)"

definition handle_event :: "Env \<Rightarrow> SchedulerEvent \<Rightarrow> Scheduler \<Rightarrow> Scheduler option" where
  "handle_event env ev s = (case ev of
       Client Shutdown \<Rightarrow> Some (begin_shutdown s)
     | Client c \<Rightarrow>
         (if \<not> sc_shutting_down s then handle_command env c s
          else (case c of
              Submit i _ \<Rightarrow> Some (fst (send_message i (ClientFailed ShuttingDown) s))
            | _ \<Rightarrow> Some s))
     | SlotCompleted c \<Rightarrow> Some (handle_completion env c s))"

text \<open>Every dispatch takes one entry from the queue, so the dispatch loop ends.\<close>

lemma send_message_policy [simp]: "sc_policy (fst (send_message i m s)) = sc_policy s"
  by (simp add: send_message_def Let_def split: option.split)

lemma send_terminal_policy [simp]: "sc_policy (send_terminal i r s) = sc_policy s"
  by (simp add: send_terminal_def Let_def split: sum.split)

lemma submit_task_policy: "submit_task env k task s = (s', r) \<Longrightarrow> sc_policy s' = sc_policy s"
  by (auto simp: submit_task_def ensure_slot_def slot_send_def and_then_def split: option.splits if_splits)

lemma fp_select_shorter:
  assumes "fp_select available now p = (p', Some sel)"
  shows "length (fp_runnable p') < length (fp_runnable p)"
  by (rule fp_select_Some[OF assms]) (auto simp: selected_at_def remove_nth_def)

lemma dispatch_one_shorter:
  assumes "dispatch_one env s = Some (s', True)"
  shows "length (fp_runnable (sc_policy s')) < length (fp_runnable (sc_policy s))"
  using assms
  by (auto simp: dispatch_one_def Let_def dest!: fp_select_shorter submit_task_policy
      split: prod.splits option.splits outcome.splits)

function dispatch_all :: "Env \<Rightarrow> Scheduler \<Rightarrow> Scheduler option" where
  "dispatch_all env s = (case dispatch_one env s of
       None \<Rightarrow> None
     | Some (s', again) \<Rightarrow> if again then dispatch_all env s' else Some s')"
  by pat_completeness auto
termination
  by (relation "measure (\<lambda>(env, s). length (fp_runnable (sc_policy s)))") (auto simp: dispatch_one_shorter)

declare dispatch_all.simps [simp del]

text \<open>The part of the loop of \<open>run_scheduler\<close> before it waits for an event, and one turn of it. The
  thread owns a sender of its own event channel, so the channel never disconnects.\<close>

definition return_if_drained :: "Env \<Rightarrow> Scheduler \<Rightarrow> Scheduler" where
  "return_if_drained env s =
     (if sc_shutting_down s \<and> \<not> list_ex sw_busy (hm_values (sc_slots s))
      then (shutdown_slots env (cancel_all_jobs s))\<lparr>sc_returned := True\<rparr> else s)"

definition settle :: "Env \<Rightarrow> Scheduler \<Rightarrow> Scheduler option" where
  "settle env s = (case dispatch_all env s of
       None \<Rightarrow> None
     | Some s1 \<Rightarrow> Some (return_if_drained env
         (s1\<lparr>sc_counters := (sc_counters s1)\<lparr>ct_runnable := length (fp_runnable (sc_policy s1))\<rparr>\<rparr>)))"

definition scheduler_turn :: "Env \<Rightarrow> SchedulerEvent \<Rightarrow> Scheduler \<Rightarrow> Scheduler option" where
  "scheduler_turn env ev s = (case handle_event env ev s of None \<Rightarrow> None | Some s' \<Rightarrow> settle env s')"

text \<open>\<open>WorkloadScheduler::new_with_diagnostics\<close>.\<close>

definition scheduler_init :: "SchedulerPolicyConfig \<Rightarrow> Scheduler" where
  "scheduler_init policy = \<lparr>sc_policy = fp_new policy, sc_jobs = [], sc_slots = [], sc_shutting_down = False,
     sc_returned = False, sc_counters = counters_default, sc_diagnostics = diag_new (pc_diagnostic_capacity policy),
     sc_events = [], sc_inboxes = [], sc_sent = [], sc_controls = [], sc_aborts = [], sc_next_id = 0\<rparr>"

definition scheduler_new :: "SchedulerPolicyConfig \<Rightarrow> (server_error, Scheduler) outcome" where
  "scheduler_new policy = (case policy_validate policy of
     Ok p \<Rightarrow> Ok (scheduler_init p) | Err e \<Rightarrow> Err e | Abort \<Rightarrow> Abort)"

record SchedulerMetrics =
  sx_admitted :: nat
  sx_completed :: nat
  sx_cancelled :: nat
  sx_deadlines :: nat
  sx_failed :: nat
  sx_rounds :: nat
  sx_runnable :: nat
  sx_waiting_for_consumer :: nat
  sx_diagnostic_records :: nat
  sx_diagnostic_records_lost :: nat
  sx_diagnostic_records_delivered :: nat

record SchedulerStatus =
  ss_policy :: SchedulerPolicyConfig
  ss_metrics :: SchedulerMetrics
  ss_diagnostic_loss_by_kind :: loss_map

definition scheduler_status :: "Scheduler \<Rightarrow> SchedulerStatus" where
  "scheduler_status s = (let c = sc_counters s; d = sc_diagnostics s in
     \<lparr>ss_policy = fp_config (sc_policy s),
      ss_metrics = \<lparr>sx_admitted = ct_admitted c, sx_completed = ct_completed c, sx_cancelled = ct_cancelled c,
        sx_deadlines = ct_deadlines c, sx_failed = ct_failed c, sx_rounds = ct_rounds c,
        sx_runnable = ct_runnable c, sx_waiting_for_consumer = ct_waiting c,
        sx_diagnostic_records = dg_emitted d, sx_diagnostic_records_lost = dg_lost d,
        sx_diagnostic_records_delivered = dg_delivered d\<rparr>,
      ss_diagnostic_loss_by_kind = loss_by_kind d\<rparr>)"

end
