(* ===== verification/Scheduler_Client.thy ===== *)
theory Scheduler_Client
  imports Scheduler
begin

text \<open>
  The client side of the scheduler (\<open>WorkloadScheduler::start_session\<close> and
  \<open>SchedulerClientSession\<close> in \<open>crates/server/src/scheduler.rs\<close>), and the whole system: any
  number of client sessions, the scheduler thread and the slot workers, interleaved at
  their channel operations.
\<close>

section \<open>Client sessions\<close>

record ClientSession =
  cs_id :: nat
  cs_control :: nat
  cs_waiting_ack :: bool
  cs_finished :: "EngineOutput option"

text \<open>Commands reach the scheduler until its thread returns and drops the receiver.\<close>

definition send_command :: "Command \<Rightarrow> Scheduler \<Rightarrow> Scheduler option" where
  "send_command c s = (if sc_returned s then None else Some (s\<lparr>sc_events := sc_events s @ [Client c]\<rparr>))"

text \<open>\<open>recv\<close> blocks (\<open>None\<close>) while the channel is empty and a sender is left: the job, or a \<open>Submit\<close> on its way.\<close>

definition submitted :: "nat \<Rightarrow> SchedulerEvent \<Rightarrow> bool" where
  "submitted i ev = (case ev of Client (Submit j _) \<Rightarrow> j = i | _ \<Rightarrow> False)"

definition sender_alive :: "nat \<Rightarrow> Scheduler \<Rightarrow> bool" where
  "sender_alive i s \<longleftrightarrow> hm_has (sc_jobs s) i \<or> (\<not> sc_returned s \<and> list_ex (submitted i) (sc_events s))"

definition client_receive ::
  "ClientSession \<Rightarrow> Scheduler \<Rightarrow> (ClientSession \<times> Scheduler \<times> (server_error, SessionStep) outcome) option" where
  "client_receive c s = (case map_of (sc_inboxes s) (cs_id c) of
       Some (m # ms) \<Rightarrow> (let s' = s\<lparr>sc_inboxes := hm_put (cs_id c) ms (sc_inboxes s)\<rparr> in
         Some (case m of
             ClientToken tok piece control \<Rightarrow>
               (c\<lparr>cs_waiting_ack := True\<rparr>, s', Ok (TokenStep tok piece control (model_free Decode 1)))
           | ClientFinished output \<Rightarrow> (c\<lparr>cs_finished := Some output\<rparr>, s', Ok (Finished output))
           | ClientFailed e \<Rightarrow> (c, s', Err e)))
     | _ \<Rightarrow> if sender_alive (cs_id c) s then None else Some (c, s, Err Cancelled))"

text \<open>\<open>step\<close>: what it sends, then what it receives. A finished session answers at once.\<close>

definition client_step_send :: "ClientSession \<Rightarrow> Scheduler \<Rightarrow> ClientSession \<times> Scheduler \<times> (server_error, unit) outcome" where
  "client_step_send c s =
     (if cs_waiting_ack c then (case send_command (Continue (cs_id c)) s of
          None \<Rightarrow> (c, s, Err Cancelled)
        | Some s' \<Rightarrow> (c\<lparr>cs_waiting_ack := False\<rparr>, s', Ok ()))
      else (c, s, Ok ()))"

definition client_step ::
  "ClientSession \<Rightarrow> Scheduler \<Rightarrow> (ClientSession \<times> Scheduler \<times> (server_error, SessionStep) outcome) option" where
  "client_step c s = (case cs_finished c of
       Some output \<Rightarrow> Some (c, s, Ok (Finished output))
     | None \<Rightarrow> (case client_step_send c s of
           (c', s', Ok _) \<Rightarrow> client_receive c' s'
         | (c', s', Err e) \<Rightarrow> Some (c', s', Err e)
         | (c', s', Abort) \<Rightarrow> Some (c', s', Abort)))"

definition client_finish_send :: "ClientSession \<Rightarrow> Scheduler \<Rightarrow> ClientSession \<times> Scheduler \<times> (server_error, unit) outcome" where
  "client_finish_send c s =
     (case send_command (if cs_waiting_ack c then Stop (cs_id c) else Cancel (cs_id c)) s of
        None \<Rightarrow> (c, s, Err Cancelled)
      | Some s' \<Rightarrow> (c\<lparr>cs_waiting_ack := False\<rparr>, s', Ok ()))"

definition client_finish_receive ::
  "ClientSession \<Rightarrow> Scheduler \<Rightarrow> (ClientSession \<times> Scheduler \<times> (server_error, EngineOutput) outcome) option" where
  "client_finish_receive c s = map_option (\<lambda>(c', s', r). (c', s', case r of
       Ok (Finished output) \<Rightarrow> Ok output
     | Ok _ \<Rightarrow> Err (StateError ''scheduler returned work after stop'')
     | Err e \<Rightarrow> Err e
     | Abort \<Rightarrow> Abort)) (client_receive c s)"

definition client_finish ::
  "ClientSession \<Rightarrow> Scheduler \<Rightarrow> (ClientSession \<times> Scheduler \<times> (server_error, EngineOutput) outcome) option" where
  "client_finish c s = (case cs_finished c of
       Some output \<Rightarrow> Some (c, s, Ok output)
     | None \<Rightarrow> (case client_finish_send c s of
           (c', s', Ok _) \<Rightarrow> client_finish_receive c' s'
         | (c', s', Err e) \<Rightarrow> Some (c', s', Err e)
         | (c', s', Abort) \<Rightarrow> Some (c', s', Abort)))"

text \<open>Dropping a session drops its receiver too.\<close>

definition client_drop :: "ClientSession \<Rightarrow> Scheduler \<Rightarrow> Scheduler" where
  "client_drop c s0 = (let s = s0\<lparr>sc_inboxes := hm_del (cs_id c) (sc_inboxes s0)\<rparr> in
     if cs_finished c \<noteq> None then s
     else (let s1 = cancel_control (cs_control c) s in
       case send_command (Cancel (cs_id c)) s1 of None \<Rightarrow> s1 | Some s2 \<Rightarrow> s2))"

text \<open>\<open>Uuid::new_v4\<close> is called for an empty correlation or inference id.\<close>

definition fill_ids :: "string \<Rightarrow> string \<Rightarrow> SchedulingMetadata \<Rightarrow> SchedulingMetadata" where
  "fill_ids u v m = m\<lparr>sm_correlation_id := (if sm_correlation_id m = [] then u else sm_correlation_id m),
     sm_inference_id := (if sm_inference_id m = [] then v else sm_inference_id m)\<rparr>"

definition request_check :: "nat \<Rightarrow> Scheduler \<Rightarrow> (server_error, unit) outcome" where
  "request_check c s = (case map_of (sc_controls s) c of None \<Rightarrow> Ok () | Some rc \<Rightarrow> rc_check rc)"

definition start_session ::
  "string \<Rightarrow> string \<Rightarrow> EngineRequest \<Rightarrow> Scheduler \<Rightarrow> Scheduler \<times> (server_error, ClientSession) outcome" where
  "start_session u v request0 s = (case request_check (er_control request0) s of
       Err e \<Rightarrow> (s, Err e)
     | Abort \<Rightarrow> (s, Abort)
     | Ok _ \<Rightarrow>
         (let request = request0\<lparr>er_scheduling := fill_ids u v (er_scheduling request0),
                er_prefill_chunk_tokens := pc_prefill_tokens (fp_config (sc_policy s))\<rparr>
          in case checked_add (sc_next_id s) 1 of
               None \<Rightarrow> (s, Err (StateError ''scheduler session id space exhausted''))
             | Some n \<Rightarrow> (let i = sc_next_id s; s1 = s\<lparr>sc_next_id := n\<rparr> in
                 case send_command (Submit i request) s1 of
                   None \<Rightarrow> (s1, Err ShuttingDown)
                 | Some s2 \<Rightarrow> (s2\<lparr>sc_inboxes := hm_put i [] (sc_inboxes s2)\<rparr>,
                     Ok \<lparr>cs_id = i, cs_control = er_control request, cs_waiting_ack = False, cs_finished = None\<rparr>))))"

section \<open>The system\<close>

text \<open>
  The live client sessions, and which of them have called \<open>finish\<close>. Their owner
  (\<open>InferenceEngine::generate\<close>) steps a session until it stops it with \<open>finish\<close>, finishes
  it at most once, and drops it. Request controls are shared with other code, which may
  create, complete or expire them at any time (\<open>sys_controls\<close>).
\<close>

record System =
  sy_scheduler :: Scheduler
  sy_clients :: "(nat, ClientSession) hm"
  sy_finishing :: "nat list"

abbreviation "sy_open y i \<equiv> i \<notin> set (sy_finishing y)"

inductive sys_step :: "System \<Rightarrow> System \<Rightarrow> bool" where
  sys_controls: "sys_step y (y\<lparr>sy_scheduler := (sy_scheduler y)\<lparr>sc_controls := m\<rparr>\<rparr>)"
| sys_start_refused: "start_session u v request (sy_scheduler y) = (s', Err e) \<Longrightarrow> sys_step y (y\<lparr>sy_scheduler := s'\<rparr>)"
| sys_start: "start_session u v request (sy_scheduler y) = (s', Ok c) \<Longrightarrow>
     sys_step y (y\<lparr>sy_scheduler := s', sy_clients := hm_put (cs_id c) c (sy_clients y)\<rparr>)"
| sys_client_step: "map_of (sy_clients y) i = Some c \<Longrightarrow> sy_open y i \<Longrightarrow> cs_finished c = None \<Longrightarrow>
     client_step_send c (sy_scheduler y) = (c', s', r) \<Longrightarrow>
     sys_step y (y\<lparr>sy_scheduler := s', sy_clients := hm_put i c' (sy_clients y)\<rparr>)"
| sys_client_receive: "map_of (sy_clients y) i = Some c \<Longrightarrow> cs_finished c = None \<Longrightarrow>
     cs_waiting_ack c = False \<Longrightarrow> client_receive c (sy_scheduler y) = Some (c', s', r) \<Longrightarrow>
     sys_step y (y\<lparr>sy_scheduler := s', sy_clients := hm_put i c' (sy_clients y)\<rparr>)"
| sys_client_finish: "map_of (sy_clients y) i = Some c \<Longrightarrow> sy_open y i \<Longrightarrow> cs_finished c = None \<Longrightarrow>
     client_finish_send c (sy_scheduler y) = (c', s', r) \<Longrightarrow>
     sys_step y (y\<lparr>sy_scheduler := s', sy_clients := hm_put i c' (sy_clients y), sy_finishing := i # sy_finishing y\<rparr>)"
| sys_client_drop: "map_of (sy_clients y) i = Some c \<Longrightarrow>
     sys_step y (y\<lparr>sy_scheduler := client_drop c (sy_scheduler y), sy_clients := hm_del i (sy_clients y)\<rparr>)"
| sys_shutdown: "send_command Shutdown (sy_scheduler y) = Some s' \<Longrightarrow> sys_step y (y\<lparr>sy_scheduler := s'\<rparr>)"
| sys_worker: "worker_turn env k (sy_scheduler y) = Some s' \<Longrightarrow> sys_step y (y\<lparr>sy_scheduler := s'\<rparr>)"
| sys_scheduler: "\<not> sc_returned (sy_scheduler y) \<Longrightarrow> sc_events (sy_scheduler y) = ev # evs \<Longrightarrow>
     scheduler_turn env ev ((sy_scheduler y)\<lparr>sc_events := evs\<rparr>) = Some s' \<Longrightarrow> sys_step y (y\<lparr>sy_scheduler := s'\<rparr>)"
| sys_diagnostics: "diag_write (sc_diagnostics (sy_scheduler y)) = Some (r, d) \<Longrightarrow>
     sys_step y (y\<lparr>sy_scheduler := (sy_scheduler y)\<lparr>sc_diagnostics := d\<rparr>\<rparr>)"

definition sys_init :: "System \<Rightarrow> bool" where
  "sys_init y \<longleftrightarrow> (\<exists>policy. scheduler_new policy = Ok (sy_scheduler y)) \<and> sy_clients y = [] \<and> sy_finishing y = []"

definition sys_reach :: "System \<Rightarrow> bool" where
  "sys_reach = reach sys_init sys_step"

end
