(* ===== verification/Scheduler_Inv.thy ===== *)
theory Scheduler_Inv
  imports Scheduler_Client
begin

text \<open>
  The invariant of the scheduler system and its preservation by every step.
\<close>

section \<open>What the state holds about one job\<close>

definition queued :: "nat \<Rightarrow> Scheduler \<Rightarrow> nat" where
  "queued i s = length (filter (\<lambda>e. pe_id e = i) (fp_runnable (sc_policy s)))"

definition tcount :: "(SlotTask \<Rightarrow> bool) \<Rightarrow> Scheduler \<Rightarrow> nat" where
  "tcount P s = hm_sum (\<lambda>sw. length (filter P (sw_queue sw))) (sc_slots s)"

fun completion_of :: "(SlotCompletion \<Rightarrow> bool) \<Rightarrow> SchedulerEvent \<Rightarrow> bool" where
  "completion_of Q (SlotCompleted c) = Q c"
| "completion_of Q (Client c) = False"

definition ecount :: "(SlotCompletion \<Rightarrow> bool) \<Rightarrow> SchedulerEvent list \<Rightarrow> nat" where
  "ecount Q evs = length (filter (completion_of Q) evs)"

text \<open>Quanta handed out and not yet accounted for: queued at a worker, or completed.\<close>

definition outstanding :: "nat \<Rightarrow> Scheduler \<Rightarrow> nat" where
  "outstanding i s = tcount (\<lambda>t. st_id t = i) s + ecount (\<lambda>c. cp_id c = i) (sc_events s)"

fun is_finish :: "SlotAction \<Rightarrow> bool" where
  "is_finish (Finish _) = True"
| "is_finish _ = False"

fun final_result :: "server_error + SessionStep \<Rightarrow> bool" where
  "final_result (Inl _) = True"
| "final_result (Inr (Finished _)) = True"
| "final_result (Inr _) = False"

text \<open>Those after which the job goes on.\<close>

definition unfinished :: "nat \<Rightarrow> Scheduler \<Rightarrow> nat" where
  "unfinished i s = tcount (\<lambda>t. st_id t = i \<and> \<not> is_finish (st_action t)) s
     + ecount (\<lambda>c. cp_id c = i \<and> \<not> final_result (cp_result c)) (sc_events s)"

fun cmd_of :: "nat \<Rightarrow> SchedulerEvent \<Rightarrow> Command list" where
  "cmd_of i (Client (Submit j r)) = (if j = i then [Submit j r] else [])"
| "cmd_of i (Client (Continue j)) = (if j = i then [Continue j] else [])"
| "cmd_of i (Client (Stop j)) = (if j = i then [Stop j] else [])"
| "cmd_of i (Client (Cancel j)) = (if j = i then [Cancel j] else [])"
| "cmd_of i (Client Shutdown) = []"
| "cmd_of i (SlotCompleted c) = []"

definition cmds :: "nat \<Rightarrow> SchedulerEvent list \<Rightarrow> Command list" where
  "cmds i evs = concat (map (cmd_of i) evs)"

definition sent_to :: "nat \<Rightarrow> (nat \<times> ClientMessage) list \<Rightarrow> ClientMessage list" where
  "sent_to i ms = map snd (filter (\<lambda>p. fst p = i) ms)"

fun is_token :: "ClientMessage \<Rightarrow> bool" where
  "is_token (ClientToken _ _ _) = True"
| "is_token _ = False"

lemma cmds_Nil [simp]: "cmds i [] = []" by (simp add: cmds_def)
lemma cmds_Cons [simp]: "cmds i (e # es) = cmd_of i e @ cmds i es" by (simp add: cmds_def)
lemma cmds_append [simp]: "cmds i (a @ b) = cmds i a @ cmds i b" by (simp add: cmds_def)
lemma ecount_Nil [simp]: "ecount Q [] = 0" by (simp add: ecount_def)
lemma ecount_Cons [simp]: "ecount Q (e # es) = (if completion_of Q e then 1 else 0) + ecount Q es" by (simp add: ecount_def)
lemma ecount_append [simp]: "ecount Q (a @ b) = ecount Q a + ecount Q b" by (simp add: ecount_def)
lemma sent_to_Nil [simp]: "sent_to i [] = []" by (simp add: sent_to_def)
lemma sent_to_append [simp]: "sent_to i (a @ b) = sent_to i a @ sent_to i b" by (simp add: sent_to_def)
lemma sent_to_single [simp]: "sent_to i [(j, m)] = (if j = i then [m] else [])" by (simp add: sent_to_def)

lemma cmds_submitted: "(\<exists>r. Submit i r \<in> set (cmds i evs)) \<longleftrightarrow> list_ex (submitted i) evs"
proof -
  have "(\<exists>r. Submit i r \<in> set (cmd_of i e)) \<longleftrightarrow> submitted i e" for e
    by (cases e; cases "(\<lambda>e. case e of Client c \<Rightarrow> c | _ \<Rightarrow> Shutdown) e") (auto simp: submitted_def)
  then show ?thesis by (induction evs) auto
qed

section \<open>The invariant\<close>

definition parked :: "Job option \<Rightarrow> nat \<Rightarrow> bool" where
  "parked jo q \<longleftrightarrow> (\<exists>j. jo = Some j \<and> \<not> jb_in_flight j \<and> jb_session j \<noteq> None \<and> q = 0)"

definition job_inv :: "bool \<Rightarrow> Job option \<Rightarrow> nat \<Rightarrow> nat \<Rightarrow> bool" where
  "job_inv shut jo q n = (case jo of
       None \<Rightarrow> q = 0 \<and> n = 0
     | Some j \<Rightarrow> (shut \<longrightarrow> q = 0 \<and> jb_cancel_requested j)
         \<and> (if jb_in_flight j then q = 0 \<and> n = 1 \<and> jb_request j = None \<and> jb_session j = None
            else n = 0 \<and> q \<le> 1 \<and> ((jb_request j = None) \<noteq> (jb_session j = None))
               \<and> (jb_request j \<noteq> None \<longrightarrow> shut \<or> q = 1) \<and> (jb_cancel_requested j \<longrightarrow> shut)))"

definition acks :: "nat \<Rightarrow> Command list set" where
  "acks i = {[], [Continue i], [Stop i]}"

definition is_submit :: "nat \<Rightarrow> Command list \<Rightarrow> bool" where
  "is_submit i cs \<longleftrightarrow> (\<exists>r. Submit i r \<in> set cs)"

text \<open>The commands of one session that are on their way: its submission or an answer to a token,
  then cancellations. Once the scheduler shuts down, it only matters that a submission comes first.\<close>

definition cmds_inv :: "bool \<Rightarrow> nat \<Rightarrow> Job option \<Rightarrow> nat \<Rightarrow> Command list \<Rightarrow> bool" where
  "cmds_inv shut i jo q cs \<longleftrightarrow>
     (if shut then (\<exists>r rest. cs = Submit i r # rest \<and> jo = None \<and> \<not> is_submit i rest) \<or> \<not> is_submit i cs
      else (\<exists>n. (\<exists>r. cs = Submit i r # replicate n (Cancel i) \<and> jo = None)
         \<or> (\<exists>as\<in>acks i. cs = as @ replicate n (Cancel i) \<and> (as \<noteq> [] \<longrightarrow> parked jo q))))"

definition stream_inv :: "bool \<Rightarrow> nat \<Rightarrow> Job option \<Rightarrow> Command list \<Rightarrow> ClientMessage list \<Rightarrow> bool" where
  "stream_inv returned i jo cs ms \<longleftrightarrow>
     (if is_submit i cs then ms = []
      else if jo \<noteq> None then list_all is_token ms
      else (\<exists>ts m. ms = ts @ [m] \<and> list_all is_token ts \<and> \<not> is_token m) \<or> (returned \<and> ms = []))"

text \<open>The tokens a client owes an answer for.\<close>

definition credit :: "ClientSession \<Rightarrow> ClientMessage list \<Rightarrow> Command list \<Rightarrow> nat" where
  "credit c box cs = length (filter is_token box) + (if cs_waiting_ack c then 1 else 0)
     + length (filter (\<lambda>x. x = Continue (cs_id c) \<or> x = Stop (cs_id c)) cs)"

definition client_inv ::
  "bool \<Rightarrow> nat \<Rightarrow> ClientSession option \<Rightarrow> bool \<Rightarrow> Job option \<Rightarrow> nat \<Rightarrow> nat \<Rightarrow> Command list \<Rightarrow> ClientMessage list
     \<Rightarrow> ClientMessage list option \<Rightarrow> bool" where
  "client_inv shut i co opn jo q u cs ms bo \<longleftrightarrow>
     (case co of
        None \<Rightarrow> bo = None
      | Some c \<Rightarrow> cs_id c = i \<and> (\<exists>read box. bo = Some box \<and> ms = read @ box
           \<and> (cs_finished c \<noteq> None \<longrightarrow> \<not> list_all is_token read)
           \<and> (opn \<longrightarrow> Cancel i \<notin> set cs)
           \<and> (opn \<longrightarrow> \<not> shut \<longrightarrow> credit c box cs = (if parked jo q then 1 else 0))))
     \<and> (jo \<noteq> None \<or> is_submit i cs \<longrightarrow> \<not> (co \<noteq> None \<and> opn) \<longrightarrow> Cancel i \<in> set cs \<or> Stop i \<in> set cs
          \<or> (\<exists>j. jo = Some j \<and> (jb_cancel_requested j \<or> (jb_in_flight j \<and> u = 0))))"

definition fresh_inv ::
  "Job option \<Rightarrow> nat \<Rightarrow> nat \<Rightarrow> Command list \<Rightarrow> ClientMessage list \<Rightarrow> ClientMessage list option
     \<Rightarrow> ClientSession option \<Rightarrow> bool \<Rightarrow> bool" where
  "fresh_inv jo q n cs ms bo co opn \<longleftrightarrow>
     jo = None \<and> q = 0 \<and> n = 0 \<and> cs = [] \<and> ms = [] \<and> bo = None \<and> co = None \<and> opn"

definition slot_inv :: "(nat, Job) hm \<Rightarrow> ModelSlotKey \<Rightarrow> SlotWorker \<Rightarrow> bool" where
  "slot_inv jobs k sw \<longleftrightarrow> sw_alive sw
     \<and> (\<forall>t\<in>set (sw_queue sw). st_action t \<noteq> SlotShutdown \<and> (\<exists>j. map_of jobs (st_id t) = Some j \<and> jb_slot j = k))
     \<and> (sw_busy sw \<longrightarrow> (\<exists>i j. map_of jobs i = Some j \<and> jb_slot j = k \<and> jb_in_flight j))"

definition completion_ok :: "SchedulerEvent \<Rightarrow> bool" where
  "completion_ok ev = (case ev of SlotCompleted c \<Rightarrow> final_result (cp_result c) \<or> cp_session c \<noteq> None | _ \<Rightarrow> True)"

definition parked_ids :: "Scheduler \<Rightarrow> nat set" where
  "parked_ids s = {i. parked (map_of (sc_jobs s) i) (queued i s)}"

definition closed_total :: "SchedulerCounters \<Rightarrow> nat" where
  "closed_total c = ct_completed c + ct_cancelled c + ct_deadlines c + ct_failed c"

lemma closed_total_other [simp]:
  "closed_total (c\<lparr>ct_waiting := n\<rparr>) = closed_total c" "closed_total (c\<lparr>ct_admitted := n\<rparr>) = closed_total c"
  "closed_total (c\<lparr>ct_runnable := n\<rparr>) = closed_total c"
  by (simp_all add: closed_total_def)

definition tables_inv :: "Scheduler \<Rightarrow> bool" where
  "tables_inv s \<longleftrightarrow> hm_ok (sc_jobs s) \<and> hm_ok (sc_slots s) \<and> hm_ok (sc_inboxes s) \<and> sc_next_id s \<le> u64_max
     \<and> (\<forall>k sw. map_of (sc_slots s) k = Some sw \<longrightarrow> slot_inv (sc_jobs s) k sw)
     \<and> (\<forall>ev\<in>set (sc_events s). completion_ok ev)
     \<and> ct_admitted (sc_counters s) = closed_total (sc_counters s) + length (sc_jobs s)
     \<and> (\<not> sc_shutting_down s \<longrightarrow> ct_waiting (sc_counters s) = card (parked_ids s))
     \<and> ct_rounds (sc_counters s) = 0
     \<and> diag_ok (sc_diagnostics s)"

definition id_inv :: "(nat, ClientSession) hm \<Rightarrow> nat list \<Rightarrow> Scheduler \<Rightarrow> nat \<Rightarrow> bool" where
  "id_inv cl fin s i \<longleftrightarrow>
     job_inv (sc_shutting_down s) (map_of (sc_jobs s) i) (queued i s) (outstanding i s)
   \<and> cmds_inv (sc_shutting_down s) i (map_of (sc_jobs s) i) (queued i s) (cmds i (sc_events s))
   \<and> (i < sc_next_id s \<longrightarrow>
        stream_inv (sc_returned s) i (map_of (sc_jobs s) i) (cmds i (sc_events s)) (sent_to i (sc_sent s)))
   \<and> client_inv (sc_shutting_down s) i (map_of cl i) (i \<notin> set fin) (map_of (sc_jobs s) i) (queued i s)
        (unfinished i s) (cmds i (sc_events s)) (sent_to i (sc_sent s)) (map_of (sc_inboxes s) i)
   \<and> (sc_next_id s \<le> i \<longrightarrow>
        fresh_inv (map_of (sc_jobs s) i) (queued i s) (outstanding i s) (cmds i (sc_events s)) (sent_to i (sc_sent s))
          (map_of (sc_inboxes s) i) (map_of cl i) (i \<notin> set fin))"

text \<open>While the scheduler thread runs.\<close>

definition core :: "(nat, ClientSession) hm \<Rightarrow> nat list \<Rightarrow> Scheduler \<Rightarrow> bool" where
  "core cl fin s \<longleftrightarrow> \<not> sc_returned s \<and> tables_inv s \<and> (\<forall>i. id_inv cl fin s i)"

text \<open>Between two events everything that can run has been dispatched.\<close>

definition settled :: "Scheduler \<Rightarrow> bool" where
  "settled s \<longleftrightarrow> (\<forall>e\<in>set (fp_runnable (sc_policy s)). \<exists>j. map_of (sc_jobs s) (pe_id e) = Some j \<and> slot_busy s (jb_slot j))
     \<and> (sc_shutting_down s \<longrightarrow> (\<exists>k. slot_busy s k))
     \<and> ct_runnable (sc_counters s) = length (fp_runnable (sc_policy s))"

lemma not_submit_cancels [simp]: "\<not> is_submit i (replicate n (Cancel i))"
  by (simp add: is_submit_def)

lemma cmds_inv_Submit: "cmds_inv sh i jo q (Submit i r # cs) \<Longrightarrow> jo = None \<and> \<not> is_submit i cs \<and> (\<not> sh \<longrightarrow> (\<exists>n. cs = replicate n (Cancel i)))"
  by (auto simp: cmds_inv_def acks_def Cons_replicate_eq is_submit_def split: if_splits)

lemma cmds_inv_ack: "cmds_inv False i jo q (x # cs) \<Longrightarrow> x = Continue i \<or> x = Stop i \<Longrightarrow>
    (\<exists>n. cs = replicate n (Cancel i)) \<and> parked jo q"
  by (auto simp: cmds_inv_def acks_def Cons_replicate_eq)

lemma cmds_inv_Cancel: "cmds_inv False i jo q (Cancel i # cs) \<Longrightarrow> \<exists>n. cs = replicate n (Cancel i)"
  by (auto simp: cmds_inv_def acks_def Cons_replicate_eq)

lemma cmds_inv_cancels [simp]: "cmds_inv sh i jo q (replicate n (Cancel i))"
  by (auto simp: cmds_inv_def acks_def)

lemma cmds_inv_job: "cmds_inv sh i (Some j) q cs \<Longrightarrow> \<not> is_submit i cs"
  by (auto simp: cmds_inv_def acks_def is_submit_def split: if_splits)

lemma cmds_inv_gone: "cmds_inv sh i (Some j) q cs \<Longrightarrow> sh \<Longrightarrow> cmds_inv sh i None q' cs"
  by (auto dest: cmds_inv_job simp: cmds_inv_def)

section \<open>What each operation leaves alone\<close>

lemma send_message_frame [simp]:
  "sc_jobs (fst (send_message i m s)) = sc_jobs s" "sc_slots (fst (send_message i m s)) = sc_slots s"
  "sc_shutting_down (fst (send_message i m s)) = sc_shutting_down s" "sc_returned (fst (send_message i m s)) = sc_returned s"
  "sc_counters (fst (send_message i m s)) = sc_counters s" "sc_diagnostics (fst (send_message i m s)) = sc_diagnostics s"
  "sc_events (fst (send_message i m s)) = sc_events s" "sc_next_id (fst (send_message i m s)) = sc_next_id s"
  "sc_sent (fst (send_message i m s)) = sc_sent s @ [(i, m)]"
  "map_of (sc_inboxes (fst (send_message i m s))) k = (if k = i then map_option (\<lambda>b. b @ [m]) (map_of (sc_inboxes s) i)
     else map_of (sc_inboxes s) k)"
  "hm_ok (sc_inboxes s) \<Longrightarrow> hm_ok (sc_inboxes (fst (send_message i m s)))"
  "snd (send_message i m s) \<longleftrightarrow> map_of (sc_inboxes s) i \<noteq> None"
  by (simp_all add: send_message_def Let_def split: option.split)

lemma cancel_control_frame [simp]:
  "sc_jobs (cancel_control c s) = sc_jobs s" "sc_slots (cancel_control c s) = sc_slots s"
  "sc_shutting_down (cancel_control c s) = sc_shutting_down s" "sc_returned (cancel_control c s) = sc_returned s"
  "sc_counters (cancel_control c s) = sc_counters s" "sc_diagnostics (cancel_control c s) = sc_diagnostics s"
  "sc_events (cancel_control c s) = sc_events s" "sc_next_id (cancel_control c s) = sc_next_id s"
  "sc_sent (cancel_control c s) = sc_sent s" "sc_inboxes (cancel_control c s) = sc_inboxes s"
  "sc_policy (cancel_control c s) = sc_policy s"
  by (simp_all add: cancel_control_def split: option.split prod.split)

lemma map_waiting_frame [simp]:
  "sc_jobs (map_waiting f s) = sc_jobs s" "sc_slots (map_waiting f s) = sc_slots s"
  "sc_shutting_down (map_waiting f s) = sc_shutting_down s" "sc_returned (map_waiting f s) = sc_returned s"
  "sc_diagnostics (map_waiting f s) = sc_diagnostics s" "sc_controls (map_waiting f s) = sc_controls s"
  "sc_events (map_waiting f s) = sc_events s" "sc_next_id (map_waiting f s) = sc_next_id s"
  "sc_sent (map_waiting f s) = sc_sent s" "sc_inboxes (map_waiting f s) = sc_inboxes s"
  "sc_policy (map_waiting f s) = sc_policy s"
  "sc_counters (map_waiting f s) = (sc_counters s)\<lparr>ct_waiting := f (ct_waiting (sc_counters s))\<rparr>"
  by (simp_all add: map_waiting_def)

definition terminal_message :: "server_error + EngineOutput \<Rightarrow> ClientMessage" where
  "terminal_message r = (case r of Inl e \<Rightarrow> ClientFailed e | Inr out \<Rightarrow> ClientFinished out)"

lemma terminal_message_final [simp]: "\<not> is_token (terminal_message r)"
  by (cases r) (simp_all add: terminal_message_def)

lemma send_terminal_frame [simp]:
  "sc_jobs (send_terminal i r s) = sc_jobs s" "sc_slots (send_terminal i r s) = sc_slots s"
  "sc_shutting_down (send_terminal i r s) = sc_shutting_down s" "sc_returned (send_terminal i r s) = sc_returned s"
  "sc_diagnostics (send_terminal i r s) = sc_diagnostics s"
  "sc_events (send_terminal i r s) = sc_events s" "sc_next_id (send_terminal i r s) = sc_next_id s"
  "sc_sent (send_terminal i r s) = sc_sent s @ [(i, terminal_message r)]"
  "map_of (sc_inboxes (send_terminal i r s)) k = (if k = i then map_option (\<lambda>b. b @ [terminal_message r]) (map_of (sc_inboxes s) i)
     else map_of (sc_inboxes s) k)"
  "hm_ok (sc_inboxes s) \<Longrightarrow> hm_ok (sc_inboxes (send_terminal i r s))"
  "ct_admitted (sc_counters (send_terminal i r s)) = ct_admitted (sc_counters s)"
  "ct_waiting (sc_counters (send_terminal i r s)) = ct_waiting (sc_counters s)"
  "ct_rounds (sc_counters (send_terminal i r s)) = ct_rounds (sc_counters s)"
  "closed_total (sc_counters (send_terminal i r s)) = closed_total (sc_counters s) + 1"
  by (simp_all add: send_terminal_def Let_def terminal_message_def closed_total_def split: sum.split server_error.split)

lemma clear_flow_frame [simp]:
  "sc_jobs (clear_flow f s) = sc_jobs s" "sc_slots (clear_flow f s) = sc_slots s"
  "sc_shutting_down (clear_flow f s) = sc_shutting_down s" "sc_returned (clear_flow f s) = sc_returned s"
  "sc_counters (clear_flow f s) = sc_counters s" "sc_diagnostics (clear_flow f s) = sc_diagnostics s"
  "sc_events (clear_flow f s) = sc_events s" "sc_next_id (clear_flow f s) = sc_next_id s"
  "sc_sent (clear_flow f s) = sc_sent s" "sc_inboxes (clear_flow f s) = sc_inboxes s"
  "fp_runnable (sc_policy (clear_flow f s)) = fp_runnable (sc_policy s)"
  by (simp_all add: clear_flow_def fp_clear_if_idle_def)

lemma account_frame [simp]:
  "sc_jobs (account env j c ob t s) = sc_jobs s" "sc_slots (account env j c ob t s) = sc_slots s"
  "sc_shutting_down (account env j c ob t s) = sc_shutting_down s" "sc_returned (account env j c ob t s) = sc_returned s"
  "sc_counters (account env j c ob t s) = sc_counters s" "sc_events (account env j c ob t s) = sc_events s"
  "sc_next_id (account env j c ob t s) = sc_next_id s" "sc_sent (account env j c ob t s) = sc_sent s"
  "sc_inboxes (account env j c ob t s) = sc_inboxes s"
  "fp_runnable (sc_policy (account env j c ob t s)) = fp_runnable (sc_policy s)"
  "diag_ok (sc_diagnostics s) \<Longrightarrow> diag_ok (sc_diagnostics (account env j c ob t s))"
  by (simp_all add: account_def fp_charge_def emit_ok split: option.split)

lemma free_slot_frame [simp]:
  "sc_jobs (free_slot k s) = sc_jobs s" "sc_policy (free_slot k s) = sc_policy s"
  "sc_shutting_down (free_slot k s) = sc_shutting_down s" "sc_returned (free_slot k s) = sc_returned s"
  "sc_counters (free_slot k s) = sc_counters s" "sc_diagnostics (free_slot k s) = sc_diagnostics s"
  "sc_events (free_slot k s) = sc_events s" "sc_next_id (free_slot k s) = sc_next_id s"
  "sc_sent (free_slot k s) = sc_sent s" "sc_inboxes (free_slot k s) = sc_inboxes s"
  "hm_ok (sc_slots s) \<Longrightarrow> hm_ok (sc_slots (free_slot k s))"
  "map_of (sc_slots (free_slot k s)) k' = (if k' = k then map_option (\<lambda>sw. sw\<lparr>sw_busy := False\<rparr>) (map_of (sc_slots s) k)
     else map_of (sc_slots s) k')"
  by (simp_all add: free_slot_def split: option.split)

lemma tcount_cong: "sc_slots s' = sc_slots s \<Longrightarrow> tcount P s' = tcount P s"
  by (simp add: tcount_def)

lemma tcount_free_slot [simp]: "hm_ok (sc_slots s) \<Longrightarrow> tcount P (free_slot k s) = tcount P s"
  by (simp add: tcount_def free_slot_def hm_sum_put_same split: option.split)

lemma fp_enqueue_runnable [simp]:
  "fp_runnable (fp_enqueue i f r t p) = fp_runnable p @ [\<lparr>pe_id = i, pe_flow = f, pe_admitted_round = r, pe_admitted_at = t\<rparr>]"
  by (simp add: fp_enqueue_def)

lemma fp_remove_runnable [simp]: "fp_runnable (fst (fp_remove i p)) = filter (\<lambda>e. pe_id e \<noteq> i) (fp_runnable p)"
  by (simp add: fp_remove_def Let_def)

text \<open>Handing a task to a slot.\<close>

definition queue_of :: "Scheduler \<Rightarrow> ModelSlotKey \<Rightarrow> SlotTask list" where
  "queue_of s k = (case map_of (sc_slots s) k of None \<Rightarrow> [] | Some sw \<Rightarrow> sw_queue sw)"

lemma submit_task_cases:
  assumes "submit_task env k task s = (s', r)" and ok: "hm_ok (sc_slots s)"
    and alive: "\<forall>sw. map_of (sc_slots s) k = Some sw \<longrightarrow> sw_alive sw"
  obtains (sent) sl where "r = Ok ()" "s' = s\<lparr>sc_slots := sl\<rparr>" "hm_ok sl"
      "map_of sl = (map_of (sc_slots s))(k \<mapsto> \<lparr>sw_queue = queue_of s k @ [task], sw_alive = True, sw_busy = True\<rparr>)"
      "\<forall>P. tcount P s' = tcount P s + (if P task then 1 else 0)"
    | (refused) msg where "r = Err (StateError msg)" "s' = s" "map_of (sc_slots s) k = None"
proof (cases "map_of (sc_slots s) k")
  case None
  show ?thesis
  proof (cases "env_spawn_error env k")
    case (Some msg)
    with None assms(1) show ?thesis
      by (intro refused) (auto simp: submit_task_def ensure_slot_def and_then_def)
  next
    case spawned: None
    let ?sw = "\<lparr>sw_queue = [task], sw_alive = True, sw_busy = True\<rparr>"
    let ?sl = "hm_put k ?sw (hm_put k new_slot (sc_slots s))"
    have put: "map_of (hm_put k new_slot (sc_slots s)) k = Some new_slot" by simp
    from None spawned assms(1) have eq: "s' = s\<lparr>sc_slots := ?sl\<rparr>" "r = Ok ()"
      by (auto simp: submit_task_def ensure_slot_def slot_send_def and_then_def new_slot_def)
    have cnt: "tcount P s' = tcount P s + (if P task then 1 else 0)" for P
      using hm_sum_put_old[OF hm_ok_put[OF ok] put, of "\<lambda>sw. length (filter P (sw_queue sw))" ?sw]
        hm_sum_put_new[OF ok None, of "\<lambda>sw. length (filter P (sw_queue sw))" new_slot]
      by (simp add: eq tcount_def new_slot_def)
    show ?thesis
      by (rule sent[of ?sl]) (use eq ok None cnt in \<open>auto simp: queue_of_def\<close>)
  qed
next
  case (Some sw)
  let ?sw = "sw\<lparr>sw_busy := True, sw_queue := sw_queue sw @ [task]\<rparr>"
  let ?sl = "hm_put k ?sw (sc_slots s)"
  from Some alive assms(1) have eq: "s' = s\<lparr>sc_slots := ?sl\<rparr>" "r = Ok ()"
    by (auto simp: submit_task_def ensure_slot_def slot_send_def and_then_def)
  have cnt: "tcount P s' = tcount P s + (if P task then 1 else 0)" for P
    using hm_sum_put_old[OF ok Some, of "\<lambda>sw. length (filter P (sw_queue sw))" ?sw]
    by (simp add: eq tcount_def)
  have sw: "?sw = \<lparr>sw_queue = queue_of s k @ [task], sw_alive = True, sw_busy = True\<rparr>"
    using Some alive by (simp add: queue_of_def)
  show ?thesis
    by (rule sent[of ?sl]) (use eq ok Some cnt sw in auto)
qed

section \<open>Framing\<close>

text \<open>Two states that agree on everything about one job.\<close>

definition same :: "nat \<Rightarrow> Scheduler \<Rightarrow> Scheduler \<Rightarrow> bool" where
  "same i s s' \<longleftrightarrow> map_of (sc_jobs s') i = map_of (sc_jobs s) i \<and> queued i s' = queued i s
     \<and> outstanding i s' = outstanding i s \<and> unfinished i s' = unfinished i s
     \<and> cmds i (sc_events s') = cmds i (sc_events s) \<and> sent_to i (sc_sent s') = sent_to i (sc_sent s)
     \<and> map_of (sc_inboxes s') i = map_of (sc_inboxes s) i \<and> sc_next_id s' = sc_next_id s
     \<and> sc_shutting_down s' = sc_shutting_down s \<and> sc_returned s' = sc_returned s"

lemma id_inv_same: "same i s s' \<Longrightarrow> id_inv cl fin s i \<Longrightarrow> id_inv cl fin s' i"
  by (simp add: same_def id_inv_def)

lemma sameI:
  assumes "map_of (sc_jobs s') i = map_of (sc_jobs s) i"
    and "filter (\<lambda>e. pe_id e = i) (fp_runnable (sc_policy s')) = filter (\<lambda>e. pe_id e = i) (fp_runnable (sc_policy s))"
    and "\<And>P. (\<And>t. P t \<Longrightarrow> st_id t = i) \<Longrightarrow> tcount P s' = tcount P s"
    and "filter (completion_of (\<lambda>c. cp_id c = i)) (sc_events s') = filter (completion_of (\<lambda>c. cp_id c = i)) (sc_events s)"
    and "cmds i (sc_events s') = cmds i (sc_events s)" and "sent_to i (sc_sent s') = sent_to i (sc_sent s)"
    and "map_of (sc_inboxes s') i = map_of (sc_inboxes s) i" and "sc_next_id s' = sc_next_id s"
    and "sc_shutting_down s' = sc_shutting_down s" and "sc_returned s' = sc_returned s"
  shows "same i s s'"
proof -
  have split: "ecount (\<lambda>c. cp_id c = i \<and> Q c) evs
      = length (filter (completion_of Q) (filter (completion_of (\<lambda>c. cp_id c = i)) evs))" for Q evs
  proof -
    have "completion_of (\<lambda>c. cp_id c = i \<and> Q c) = (\<lambda>e. completion_of (\<lambda>c. cp_id c = i) e \<and> completion_of Q e)"
    proof
      show "completion_of (\<lambda>c. cp_id c = i \<and> Q c) e = (completion_of (\<lambda>c. cp_id c = i) e \<and> completion_of Q e)" for e
        by (cases e) simp_all
    qed
    then show ?thesis by (simp add: ecount_def)
  qed
  from assms(1,2,4-) assms(3)[of "\<lambda>t. st_id t = i"] assms(3)[of "\<lambda>t. st_id t = i \<and> \<not> is_finish (st_action t)"] show ?thesis
    unfolding same_def queued_def outstanding_def unfinished_def split
    by (simp add: ecount_def)
qed

lemma same_trans: "same i s s' \<Longrightarrow> same i s' s'' \<Longrightarrow> same i s s''"
  by (simp add: same_def)

lemma same_refl [simp]: "same i s s"
  by (simp add: same_def)

text \<open>The waiting counter follows the parked jobs.\<close>

lemma parked_finite: "\<forall>i. id_inv cl fin s i \<Longrightarrow> parked_ids s \<subseteq> {..<sc_next_id s}"
proof
  fix i assume inv: "\<forall>i. id_inv cl fin s i" and "i \<in> parked_ids s"
  then have "map_of (sc_jobs s) i \<noteq> None" by (auto simp: parked_ids_def parked_def)
  with spec[OF inv, of i] show "i \<in> {..<sc_next_id s}"
    by (cases "sc_next_id s \<le> i") (auto simp: id_inv_def fresh_inv_def)
qed

lemma parked_ids_change:
  assumes "\<And>k. k \<noteq> i \<Longrightarrow> same k s s'"
  shows "parked_ids s' = (if parked (map_of (sc_jobs s') i) (queued i s') then insert i (parked_ids s) else parked_ids s - {i})"
proof -
  have "parked (map_of (sc_jobs s') k) (queued k s') = parked (map_of (sc_jobs s) k) (queued k s)" if "k \<noteq> i" for k
    using assms[OF that] by (simp add: same_def)
  then have "k \<in> parked_ids s' \<longleftrightarrow> (if k = i then parked (map_of (sc_jobs s') i) (queued i s') else k \<in> parked_ids s)" for k
    by (simp add: parked_ids_def)
  then show ?thesis by (simp add: set_eq_iff)
qed

lemma parked_card:
  assumes "\<forall>i. id_inv cl fin s i" and "\<And>k. k \<noteq> i \<Longrightarrow> same k s s'"
  shows "card (parked_ids s') + (if parked (map_of (sc_jobs s) i) (queued i s) then 1 else 0)
    = card (parked_ids s) + (if parked (map_of (sc_jobs s') i) (queued i s') then 1 else 0)"
proof -
  have fin: "finite (parked_ids s)" using parked_finite[OF assms(1)] finite_subset by blast
  have "i \<in> parked_ids s \<longleftrightarrow> parked (map_of (sc_jobs s) i) (queued i s)" by (simp add: parked_ids_def)
  then show ?thesis
    using parked_ids_change[OF assms(2)] card_Suc_Diff1[OF fin, of i]
    by (simp add: insert_absorb card_insert_if fin)
qed

lemma tcount_zero:
  assumes "hm_ok (sc_slots s)" and "tcount P s = 0" and "map_of (sc_slots s) k = Some sw" and "t \<in> set (sw_queue sw)"
  shows "\<not> P t"
proof -
  have "length (filter P (sw_queue sw)) \<le> tcount P s"
    unfolding tcount_def using hm_sum_member[OF assms(1,3), of "\<lambda>sw. length (filter P (sw_queue sw))"] .
  with assms(2,4) show ?thesis by (simp add: filter_empty_conv)
qed

lemma filter_remove_nth_other: "k < length xs \<Longrightarrow> \<not> P (xs ! k) \<Longrightarrow> filter P (remove_nth k xs) = filter P xs"
proof -
  assume "k < length xs" "\<not> P (xs ! k)"
  then have "filter P xs = filter P (take k xs @ xs ! k # drop (Suc k) xs)" by (simp only: id_take_nth_drop[symmetric])
  with \<open>\<not> P (xs ! k)\<close> show ?thesis by (simp add: remove_nth_def)
qed

lemma filter_remove_nth_same: "k < length xs \<Longrightarrow> P (xs ! k) \<Longrightarrow> length (filter P xs) = Suc (length (filter P (remove_nth k xs)))"
proof -
  assume "k < length xs" "P (xs ! k)"
  then have "filter P xs = filter P (take k xs @ xs ! k # drop (Suc k) xs)" by (simp only: id_take_nth_drop[symmetric])
  with \<open>P (xs ! k)\<close> show ?thesis by (simp add: remove_nth_def)
qed

section \<open>Dispatch\<close>

lemma fp_select_entry:
  assumes "fp_select available now p = (p', Some sel)"
  obtains k where "k < length (fp_runnable p)" "pe_id (fp_runnable p ! k) = sel_id sel" "available (sel_id sel)"
    "fp_runnable p' = remove_nth k (fp_runnable p)"
  by (rule fp_select_Some[OF assms]) (auto simp: selected_at_def)

lemma job_action_job: "job_action j = Some (a, j') \<Longrightarrow> jb_slot j' = jb_slot j \<and> jb_in_flight j'
    \<and> jb_cancel_requested j' = jb_cancel_requested j \<and> \<not> is_finish a \<and> a \<noteq> SlotShutdown
    \<and> jb_control j' = jb_control j"
  by (auto simp: job_action_def split: option.splits)

lemma core_jobs: "core cl fin s \<Longrightarrow> id_inv cl fin s i"
  by (simp add: core_def)

lemma core_slot_alive: "core cl fin s \<Longrightarrow> map_of (sc_slots s) k = Some sw \<Longrightarrow> sw_alive sw"
  by (auto simp: core_def tables_inv_def slot_inv_def)

text \<open>A job that is not in flight has no quantum at any slot, so it can leave the table.\<close>

lemma slot_inv_del:
  assumes "hm_ok (sc_slots s)" and "map_of (sc_slots s) k = Some sw" and "slot_inv jobs k sw"
    and "tcount (\<lambda>t. st_id t = i) s = 0" and "\<And>j. map_of jobs i = Some j \<Longrightarrow> jb_slot j = k \<Longrightarrow> jb_in_flight j \<Longrightarrow> \<not> sw_busy sw"
  shows "slot_inv (hm_del i jobs) k sw"
proof -
  have "st_id t \<noteq> i" if "t \<in> set (sw_queue sw)" for t using tcount_zero[OF assms(1,4,2) that] .
  with assms(3,5) show ?thesis unfolding slot_inv_def by (auto simp: ) (metis option.inject)
qed

text \<open>A job changes, but keeps its slot.\<close>

lemma slot_inv_put:
  assumes "slot_inv jobs k sw" and "map_of jobs i = Some j" and "jb_slot j' = jb_slot j"
    and "jb_in_flight j \<Longrightarrow> jb_slot j = k \<Longrightarrow> sw_busy sw \<Longrightarrow> jb_in_flight j'"
  shows "slot_inv (hm_put i j' jobs) k sw"
proof -
  have "\<exists>a b. map_of (hm_put i j' jobs) a = Some b \<and> jb_slot b = k \<and> jb_in_flight b" if "sw_busy sw"
  proof -
    from that assms(1) obtain a b where ab: "map_of jobs a = Some b" "jb_slot b = k" "jb_in_flight b"
      by (auto simp: slot_inv_def)
    show ?thesis
    proof (cases "a = i")
      case True
      with ab assms(2-4) that have "jb_slot j' = k \<and> jb_in_flight j'" by simp
      then have "map_of (hm_put i j' jobs) i = Some j' \<and> jb_slot j' = k \<and> jb_in_flight j'" by simp
      then show ?thesis by blast
    next
      case False
      with ab have "map_of (hm_put i j' jobs) a = Some b" by simp
      with ab show ?thesis by blast
    qed
  qed
  moreover have "\<exists>b. map_of (hm_put i j' jobs) (st_id t) = Some b \<and> jb_slot b = k" if "t \<in> set (sw_queue sw)" for t
    using assms(1-3) that by (cases "st_id t = i") (auto simp: slot_inv_def)
  ultimately show ?thesis using assms(1) by (auto simp: slot_inv_def)
qed

text \<open>A step that touches one job only.\<close>

abbreviation "parked1 i s \<equiv> (if parked (map_of (sc_jobs s) i) (queued i s) then 1 else 0 :: nat)"

lemma core_update:
  assumes "core cl fin s" and "\<And>k. k \<noteq> i \<Longrightarrow> same k s s'" and "id_inv cl fin s' i"
    and "hm_ok (sc_jobs s')" and "hm_ok (sc_slots s')" and "hm_ok (sc_inboxes s')"
    and "\<And>k sw. map_of (sc_slots s') k = Some sw \<Longrightarrow> slot_inv (sc_jobs s') k sw"
    and "\<And>ev. ev \<in> set (sc_events s') \<Longrightarrow> completion_ok ev"
    and "ct_admitted (sc_counters s') = closed_total (sc_counters s') + length (sc_jobs s')"
    and "\<not> sc_shutting_down s \<Longrightarrow> ct_waiting (sc_counters s') + parked1 i s = ct_waiting (sc_counters s) + parked1 i s'"
    and "ct_rounds (sc_counters s') = ct_rounds (sc_counters s)"
    and "diag_ok (sc_diagnostics s')"
  shows "core cl fin s'"
proof -
  have inv: "\<forall>k. id_inv cl fin s k" using assms(1) by (simp add: core_def)
  have flags: "sc_next_id s' = sc_next_id s" "sc_shutting_down s' = sc_shutting_down s" "sc_returned s' = sc_returned s"
    using assms(2)[of "Suc i"] by (simp_all add: same_def)
  have "id_inv cl fin s' k" for k
    by (cases "k = i") (use assms(3) id_inv_same[OF assms(2) spec[OF inv]] in auto)
  moreover have card: "card (parked_ids s') + parked1 i s = card (parked_ids s) + parked1 i s'"
    by (rule parked_card[OF inv]) (rule assms(2))
  then have "ct_waiting (sc_counters s') = card (parked_ids s')" if "\<not> sc_shutting_down s"
    using assms(10)[OF that] assms(1) that
    by (simp add: core_def tables_inv_def split: if_splits)
  ultimately show ?thesis using assms flags by (simp add: core_def tables_inv_def)
qed

lemma outstanding_zero: "outstanding i s = 0 \<Longrightarrow> tcount (\<lambda>t. st_id t = i) s = 0 \<and> ecount (\<lambda>c. cp_id c = i) (sc_events s) = 0"
  by (simp add: outstanding_def)

text \<open>A job leaves with a terminal message. \<open>toks\<close> are tokens whose receiver is gone.\<close>

definition answers :: "nat \<Rightarrow> Command list \<Rightarrow> nat" where
  "answers i cs = length (filter (\<lambda>x. x = Continue i \<or> x = Stop i) cs)"

lemma id_inv_gone:
  assumes inv: "id_inv cl fin s i" and j: "map_of (sc_jobs s) i = Some j"
    and gone: "map_of (sc_jobs s') i = None" "queued i s' = 0" "outstanding i s' = 0"
    and cs': "cmds i (sc_events s') = cs'" "cs' = cmds i (sc_events s) \<or> \<not> sc_shutting_down s" "set cs' \<subseteq> set (cmds i (sc_events s))"
    and cancels: "\<not> sc_shutting_down s \<Longrightarrow> \<forall>x\<in>set cs'. x = Cancel i"
    and sent: "sent_to i (sc_sent s') = sent_to i (sc_sent s) @ toks @ [terminal_message r]" "list_all is_token toks"
      "toks \<noteq> [] \<Longrightarrow> map_of (sc_inboxes s) i = None"
    and box: "map_of (sc_inboxes s') i = map_option (\<lambda>b. b @ [terminal_message r]) (map_of (sc_inboxes s) i)"
    and flags: "sc_next_id s' = sc_next_id s" "sc_shutting_down s' = sc_shutting_down s" "sc_returned s' = sc_returned s"
    and answered: "\<not> sc_shutting_down s \<Longrightarrow> i \<notin> set fin \<Longrightarrow> map_of cl i \<noteq> None \<Longrightarrow> parked (Some j) (queued i s) \<Longrightarrow>
      answers i (cmds i (sc_events s)) = 1"
  shows "id_inv cl fin s' i"
proof -
  let ?cs = "cmds i (sc_events s)" and ?ms = "sent_to i (sc_sent s)" and ?t = "terminal_message r"
  have lt: "i < sc_next_id s"
    using inv j by (cases "sc_next_id s \<le> i") (auto simp: id_inv_def fresh_inv_def)
  have nosub: "\<not> is_submit i ?cs"
    using inv j by (auto simp: id_inv_def dest: cmds_inv_job)
  with cs'(3) have nosub': "\<not> is_submit i cs'" by (auto simp: is_submit_def)
  from nosub lt inv j have ms: "list_all is_token ?ms" by (simp add: id_inv_def stream_inv_def)
  have cmds: "cmds_inv (sc_shutting_down s) i None 0 cs'"
  proof (cases "sc_shutting_down s")
    case True
    with cs'(2) inv j show ?thesis by (auto simp: id_inv_def intro: cmds_inv_gone)
  next
    case False
    from cancels[OF this] have "cs' = [] @ replicate (length cs') (Cancel i)" by (simp add: replicate_length_same)
    then show ?thesis by (metis append_Nil cmds_inv_cancels)
  qed
  have stream: "stream_inv (sc_returned s) i None cs' (?ms @ toks @ [?t])"
  proof -
    have "?ms @ toks @ [?t] = (?ms @ toks) @ [?t] \<and> list_all is_token (?ms @ toks) \<and> \<not> is_token ?t"
      using ms sent(2) by simp
    with nosub' show ?thesis unfolding stream_inv_def by auto
  qed
  have client: "cs_id c = i \<and> (\<exists>read box. map_option (\<lambda>b. b @ [?t]) (map_of (sc_inboxes s) i) = Some box
      \<and> ?ms @ toks @ [?t] = read @ box \<and> (cs_finished c \<noteq> None \<longrightarrow> \<not> list_all is_token read)
      \<and> (i \<notin> set fin \<longrightarrow> Cancel i \<notin> set cs')
      \<and> (i \<notin> set fin \<longrightarrow> \<not> sc_shutting_down s \<longrightarrow> credit c box cs' = 0))" if c: "map_of cl i = Some c" for c
  proof -
    from inv j c obtain read box where box: "cs_id c = i" "map_of (sc_inboxes s) i = Some box" "?ms = read @ box"
      "cs_finished c \<noteq> None \<longrightarrow> \<not> list_all is_token read" "i \<notin> set fin \<longrightarrow> Cancel i \<notin> set ?cs"
      "i \<notin> set fin \<longrightarrow> \<not> sc_shutting_down s \<longrightarrow> credit c box ?cs = (if parked (Some j) (queued i s) then 1 else 0)"
      by (auto simp: id_inv_def client_inv_def)
    have toks: "toks = []" using sent(3) box(2) by (cases "toks = []") auto
    have "credit c (box @ [?t]) cs' = 0" if "i \<notin> set fin" "\<not> sc_shutting_down s"
    proof -
      have "filter (\<lambda>x. x = Continue i \<or> x = Stop i) cs' = []"
        unfolding filter_empty_conv using cancels[OF that(2)] by auto
      moreover have "length (filter is_token box) + (if cs_waiting_ack c then 1 else 0) = 0"
        using box(1,6) that answered[OF that(2,1)] c by (auto simp: credit_def answers_def split: if_splits)
      ultimately show ?thesis by (simp add: credit_def box(1))
    qed
    with box(1-5) cs'(3) show ?thesis
      by (intro conjI exI[of _ read] exI[of _ "box @ [?t]"]) (auto simp: toks)
  qed
  have "client_inv (sc_shutting_down s) i (map_of cl i) (i \<notin> set fin) None 0 (unfinished i s') cs' (?ms @ toks @ [?t])
      (map_option (\<lambda>b. b @ [?t]) (map_of (sc_inboxes s) i))"
  proof (cases "map_of cl i")
    case None
    with inv have "map_of (sc_inboxes s) i = None" by (simp add: id_inv_def client_inv_def)
    with None nosub' show ?thesis by (simp add: client_inv_def)
  next
    case (Some c)
    from client[OF Some] nosub' Some show ?thesis by (simp add: client_inv_def parked_def)
  qed
  with cmds stream lt gone cs'(1) sent(1) box flags show ?thesis by (simp add: id_inv_def job_inv_def)
qed

lemma core_slot_inv: "core cl fin s \<Longrightarrow> map_of (sc_slots s) k = Some sw \<Longrightarrow> slot_inv (sc_jobs s) k sw"
  by (auto simp: core_def tables_inv_def)

lemma core_tables:
  assumes "core cl fin s"
  shows "hm_ok (sc_jobs s)" "hm_ok (sc_slots s)" "hm_ok (sc_inboxes s)"
    "ct_admitted (sc_counters s) = closed_total (sc_counters s) + length (sc_jobs s)"
    "ct_rounds (sc_counters s) = 0" "diag_ok (sc_diagnostics s)" "\<And>ev. ev \<in> set (sc_events s) \<Longrightarrow> completion_ok ev"
  using assms by (auto simp: core_def tables_inv_def)

text \<open>A queued job whose slot is idle is handed to the slot.\<close>

lemma id_inv_dispatched:
  assumes "id_inv cl fin s i" and "map_of (sc_jobs s) i = Some j" and "\<not> jb_in_flight j" and "0 < queued i s"
    and "job_action j = Some (a, j')"
    and "map_of (sc_jobs s') i = Some j'" and "queued i s' = queued i s - 1" and "outstanding i s' = outstanding i s + 1"
    and "sc_events s' = sc_events s" and "sc_sent s' = sc_sent s" and "sc_inboxes s' = sc_inboxes s"
    and "sc_next_id s' = sc_next_id s" and "sc_shutting_down s' = sc_shutting_down s" and "sc_returned s' = sc_returned s"
  shows "id_inv cl fin s' i"
proof -
  have j: "job_inv (sc_shutting_down s) (Some j) (queued i s) (outstanding i s)" using assms(1,2) by (simp add: id_inv_def)
  with assms(3,4) have q: "queued i s = 1" "outstanding i s = 0" "\<not> sc_shutting_down s"
    by (auto simp: job_inv_def)
  have "jb_request j' = None" "jb_session j' = None" "jb_in_flight j'" "jb_cancel_requested j' = jb_cancel_requested j"
    using assms(5) j assms(3) by (auto simp: job_action_def job_inv_def split: option.splits)
  note j' = this
  have np: "\<not> parked (Some j) (Suc 0)" "\<not> parked (Some j') 0" using j' by (simp_all add: parked_def)
  let ?sh = "sc_shutting_down s" and ?cs = "cmds i (sc_events s)" and ?ms = "sent_to i (sc_sent s)"
  have lt: "i < sc_next_id s" using assms(1,2) by (cases "sc_next_id s \<le> i") (auto simp: id_inv_def fresh_inv_def)
  have "job_inv ?sh (Some j') 0 1" using j' q(3) by (simp add: job_inv_def)
  moreover have "cmds_inv ?sh i (Some j') 0 ?cs"
    using assms(1,2) q np by (auto simp: id_inv_def cmds_inv_def)
  moreover have "stream_inv (sc_returned s) i (Some j') ?cs ?ms" using assms(1,2) lt by (simp add: id_inv_def stream_inv_def)
  moreover have "client_inv ?sh i (map_of cl i) (i \<notin> set fin) (Some j') 0 (unfinished i s') ?cs ?ms (map_of (sc_inboxes s) i)"
  proof -
    have c: "client_inv ?sh i (map_of cl i) (i \<notin> set fin) (Some j) (Suc 0) (unfinished i s) ?cs ?ms (map_of (sc_inboxes s) i)"
      using assms(1,2) q by (simp add: id_inv_def)
    show ?thesis
      by (cases "map_of cl i") (use c assms(3) j' np in \<open>auto simp: client_inv_def\<close>)
  qed
  ultimately show ?thesis using assms(6-14) q lt by (simp add: id_inv_def)
qed

lemma dispatch_one_core:
  assumes inv: "core cl fin s"
  obtains (idle) s' where "dispatch_one env s = Some (s', False)" "core cl fin s'" "s' = s"
      "\<forall>e\<in>set (fp_runnable (sc_policy s)). \<not> dispatchable s (pe_id e)"
    | (more) s' where "dispatch_one env s = Some (s', True)" "core cl fin s'" "sc_shutting_down s' = sc_shutting_down s"
proof (cases "fp_select (dispatchable s) (env_now env) (sc_policy s)")
  case sel: (Pair p so)
  show ?thesis
  proof (cases so)
    case None
    with sel fp_select_None[of "dispatchable s" "env_now env" "sc_policy s"]
      fp_select_None_state[of "dispatchable s" "env_now env" "sc_policy s"]
    show ?thesis by (intro idle[of s]) (auto simp: dispatch_one_def inv)
  next
    case (Some se)
    let ?i = "sel_id se" and ?q = "fp_runnable (sc_policy s)"
    from sel Some have eq: "fp_select (dispatchable s) (env_now env) (sc_policy s) = (p, Some se)" by simp
    obtain n where n: "n < length ?q" "pe_id (?q ! n) = ?i" "dispatchable s ?i" "fp_runnable p = remove_nth n ?q"
      by (rule fp_select_entry[OF eq])
    from n(3) obtain j where j: "map_of (sc_jobs s) ?i = Some j" "\<not> jb_in_flight j"
      by (auto simp: dispatchable_def split: option.splits)
    note id = core_jobs[OF inv, of ?i]
    have fq: "filter (\<lambda>e. pe_id e = k) (fp_runnable p) = filter (\<lambda>e. pe_id e = k) ?q" if "k \<noteq> ?i" for k
      using filter_remove_nth_other[OF n(1), of "\<lambda>e. pe_id e = k"] n(2,4) that by simp
    have qi: "queued ?i s = Suc (length (filter (\<lambda>e. pe_id e = ?i) (fp_runnable p)))"
      using filter_remove_nth_same[OF n(1), of "\<lambda>e. pe_id e = ?i"] n(2,4) by (simp add: queued_def)
    from id j qi have ji: "queued ?i s = 1" "outstanding ?i s = 0" "\<not> sc_shutting_down s"
      "(jb_request j = None) \<noteq> (jb_session j = None)"
      by (auto simp: id_inv_def job_inv_def)
    then obtain a j' where act: "job_action j = Some (a, j')"
      by (cases "jb_request j"; cases "jb_session j") (auto simp: job_action_def)
    note aj = job_action_job[OF act]
    let ?t = "\<lparr>st_id = ?i, st_action = a, st_selection = Some se\<rparr>"
    let ?s1 = "s\<lparr>sc_policy := p, sc_jobs := hm_put ?i j' (sc_jobs s)\<rparr>"
    obtain s2 r where sub: "submit_task env (jb_slot j) ?t ?s1 = (s2, r)" by (cases "submit_task env (jb_slot j) ?t ?s1")
    have tc0: "tcount P ?s1 = tcount P s" for P by (simp add: tcount_def)
    note tab = core_tables[OF inv]
    have ok1: "hm_ok (sc_slots ?s1)" by (simp add: tab)
    have alive1: "\<forall>sw. map_of (sc_slots ?s1) (jb_slot j) = Some sw \<longrightarrow> sw_alive sw" using core_slot_alive[OF inv] by simp
    from sub ok1 alive1 show ?thesis
    proof (cases rule: submit_task_cases)
      case (sent sl)
      have d: "dispatch_one env s = Some (s2, True)"
        using eq j act sub sent(1) by (simp add: dispatch_one_def Let_def)
      have "core cl fin s2"
      proof (rule core_update[OF inv, of ?i])
        show "same k s s2" if "k \<noteq> ?i" for k
        proof (rule sameI)
          show "tcount P s2 = tcount P s" if "\<And>t. P t \<Longrightarrow> st_id t = k" for P
            using sent(5) tc0 that[of ?t] \<open>k \<noteq> ?i\<close> by auto
        qed (use sent(2) that fq in simp_all)
        have out: "outstanding ?i s2 = outstanding ?i s + 1" using sent(2,5) tc0 by (simp add: outstanding_def)
        show "id_inv cl fin s2 ?i"
          by (rule id_inv_dispatched[OF id j(1,2) _ act]) (use sent(2) out qi in \<open>auto simp: queued_def\<close>)
        show "slot_inv (sc_jobs s2) k sw" if "map_of (sc_slots s2) k = Some sw" for k sw
        proof (cases "k = jb_slot j")
          case False
          with that sent(2,4) have "map_of (sc_slots s) k = Some sw" by simp
          from slot_inv_put[OF core_slot_inv[OF inv this] j(1), of j'] aj show ?thesis by (simp add: sent(2))
        next
          case True
          have q: "t \<in> set (queue_of s k) \<Longrightarrow> st_action t \<noteq> SlotShutdown \<and> (\<exists>b. map_of (hm_put ?i j' (sc_jobs s)) (st_id t) = Some b \<and> jb_slot b = k)" for t
            using core_slot_inv[OF inv, of k] aj True j
            by (cases "map_of (sc_slots s) k"; cases "st_id t = ?i") (auto simp: queue_of_def slot_inv_def)
          have w: "\<exists>x b. map_of (hm_put ?i j' (sc_jobs s)) x = Some b \<and> jb_slot b = k \<and> jb_in_flight b"
            by (rule exI[of _ ?i], rule exI[of _ j']) (simp add: aj True)
          have "queue_of ?s1 k = queue_of s k" by (simp add: queue_of_def)
          with True that sent(2,4) have sw: "sw = \<lparr>sw_queue = queue_of s k @ [?t], sw_alive = True, sw_busy = True\<rparr>" by simp
          have "map_of (hm_put ?i j' (sc_jobs s)) ?i = Some j' \<and> jb_slot j' = k" by (simp add: aj True)
          with q w aj show ?thesis unfolding sw slot_inv_def by (auto simp: sent(2))
        qed
        show "\<not> sc_shutting_down s \<Longrightarrow> ct_waiting (sc_counters s2) + parked1 ?i s = ct_waiting (sc_counters s) + parked1 ?i s2"
          using sent(2) ji aj j by (simp add: parked_def)
      qed (use sent tab j hm_length_put_old[OF tab(1) j(1), of j'] in auto)
      with d show ?thesis by (intro more[of s2]) (simp_all add: sent(2))
    next
      case (refused msg)
      let ?r = "Inl (StateError msg)"
      let ?s3 = "send_terminal ?i ?r (?s1\<lparr>sc_jobs := hm_del ?i (sc_jobs ?s1)\<rparr>)"
      have d: "dispatch_one env s = Some (?s3, True)"
        using eq j act sub refused(1,2) by (simp add: dispatch_one_def Let_def)
      have dd: "map_of (hm_del ?i (hm_put ?i j' (sc_jobs s))) = (map_of (sc_jobs s))(?i := None)" by (simp add: fun_eq_iff)
      have "core cl fin ?s3"
      proof (rule core_update[OF inv, of ?i])
        show "same k s ?s3" if "k \<noteq> ?i" for k
          by (rule sameI) (use that fq in \<open>auto simp: tcount_def\<close>)
        show "id_inv cl fin ?s3 ?i"
          by (rule id_inv_gone[OF id j(1), where r = ?r and toks = "[]" and cs' = "cmds ?i (sc_events s)"])
            (use qi ji id j in \<open>auto simp: queued_def outstanding_def tcount_def id_inv_def cmds_inv_def acks_def parked_def\<close>)
        show "slot_inv (sc_jobs ?s3) k sw" if "map_of (sc_slots ?s3) k = Some sw" for k sw
        proof -
          from that have "map_of (sc_slots s) k = Some sw" by simp
          from slot_inv_del[OF tab(2) this core_slot_inv[OF inv this], of ?i] ji j outstanding_zero
          have "slot_inv (hm_del ?i (sc_jobs s)) k sw" by auto
          then show ?thesis by (simp add: slot_inv_def)
        qed
        show "\<not> sc_shutting_down s \<Longrightarrow> ct_waiting (sc_counters ?s3) + parked1 ?i s = ct_waiting (sc_counters s) + parked1 ?i ?s3"
          using ji j by (simp add: parked_def)
        show "ct_admitted (sc_counters ?s3) = closed_total (sc_counters ?s3) + length (sc_jobs ?s3)"
          using tab(4) hm_length_put_old[OF tab(1) j(1), of j'] hm_length_del_Suc[OF hm_ok_put[OF tab(1), of ?i j'], of ?i j']
          by simp
      qed (use tab in auto)
      with d show ?thesis by (intro more[of ?s3]) simp_all
    qed
  qed
qed

section \<open>Commands\<close>

lemma sameI_pop:
  assumes "sc_events s = Client c # evs" and "cmd_of k (Client c) = []" and "sc_events s' = evs"
    and "map_of (sc_jobs s') k = map_of (sc_jobs s) k"
    and "filter (\<lambda>e. pe_id e = k) (fp_runnable (sc_policy s')) = filter (\<lambda>e. pe_id e = k) (fp_runnable (sc_policy s))"
    and "\<And>P. (\<And>t. P t \<Longrightarrow> st_id t = k) \<Longrightarrow> tcount P s' = tcount P s"
    and "sent_to k (sc_sent s') = sent_to k (sc_sent s)"
    and "map_of (sc_inboxes s') k = map_of (sc_inboxes s) k" and "sc_next_id s' = sc_next_id s"
    and "sc_shutting_down s' = sc_shutting_down s" and "sc_returned s' = sc_returned s"
  shows "same k s s'"
  by (rule sameI) (use assms in simp_all)

lemma id_inv_lt:
  assumes "id_inv cl fin s i" and "cmds i (sc_events s) \<noteq> [] \<or> map_of (sc_jobs s) i \<noteq> None"
  shows "i < sc_next_id s"
  using assms by (cases "sc_next_id s \<le> i") (auto simp: id_inv_def fresh_inv_def)

lemma core_pop_ok: "core cl fin s \<Longrightarrow> sc_events s = ev # evs \<Longrightarrow> x \<in> set evs \<Longrightarrow> completion_ok x"
  using core_tables(7)[of cl fin s x] by simp

lemma submit_job_core:
  assumes inv: "core cl fin s" and ev: "sc_events s = Client (Submit i r) # evs" and run: "\<not> sc_shutting_down s"
  shows "core cl fin (submit_job env i r (s\<lparr>sc_events := evs\<rparr>))"
proof -
  let ?s' = "submit_job env i r (s\<lparr>sc_events := evs\<rparr>)"
  note id = core_jobs[OF inv, of i] and tab = core_tables[OF inv]
  have lt: "i < sc_next_id s" using id_inv_lt[OF id] ev by simp
  from id ev run obtain n where n: "cmds i evs = replicate n (Cancel i)" and none: "map_of (sc_jobs s) i = None"
    by (auto simp: id_inv_def dest!: cmds_inv_Submit)
  have zero: "queued i s = 0" "outstanding i s = 0" using id none by (simp_all add: id_inv_def job_inv_def)
  have sub: "is_submit i (cmds i (sc_events s))" by (auto simp: ev is_submit_def)
  with id lt none have ms: "sent_to i (sc_sent s) = []" by (simp add: id_inv_def stream_inv_def)
  from zero(1) have q0: "filter (\<lambda>e. pe_id e = i) (fp_runnable (sc_policy s)) = []" by (simp add: queued_def)
  obtain j where j: "sc_jobs ?s' = hm_put i j (sc_jobs s)" "\<not> jb_in_flight j" "jb_request j \<noteq> None" "jb_session j = None"
    "\<not> jb_cancel_requested j"
    by (simp add: submit_job_def Let_def)
  have frame: "sc_events ?s' = evs" "sc_slots ?s' = sc_slots s" "sc_inboxes ?s' = sc_inboxes s" "sc_sent ?s' = sc_sent s"
    "sc_next_id ?s' = sc_next_id s" "sc_shutting_down ?s' = sc_shutting_down s" "sc_returned ?s' = sc_returned s"
    "sc_diagnostics ?s' = sc_diagnostics s"
    "sc_counters ?s' = (sc_counters s)\<lparr>ct_admitted := ct_admitted (sc_counters s) + 1\<rparr>"
    by (simp_all add: submit_job_def Let_def)
  obtain e where e: "fp_runnable (sc_policy ?s') = fp_runnable (sc_policy s) @ [e]" "pe_id e = i"
    by (simp add: submit_job_def Let_def)
  show ?thesis
  proof (rule core_update[OF inv, of i])
    show "same k s ?s'" if "k \<noteq> i" for k
      by (rule sameI_pop[OF ev]) (use frame e j that in \<open>auto simp: tcount_def\<close>)
    have q1: "queued i ?s' = 1" using e q0 by (simp add: queued_def)
    have o: "outstanding i ?s' = 0" "unfinished i ?s' = unfinished i s"
      using zero frame ev by (simp_all add: outstanding_def unfinished_def tcount_def)
    have "client_inv False i (map_of cl i) (i \<notin> set fin) (Some j) 1 (unfinished i ?s') (replicate n (Cancel i)) []
       (map_of (sc_inboxes s) i)"
    proof -
      from id none run zero ms ev n have c: "client_inv False i (map_of cl i) (i \<notin> set fin) None 0 (unfinished i s)
         (Submit i r # replicate n (Cancel i)) [] (map_of (sc_inboxes s) i)" by (simp add: id_inv_def)
      show ?thesis
        by (cases "map_of cl i")
          (use c j in \<open>auto simp: client_inv_def credit_def is_submit_def parked_def split: if_splits\<close>)
    qed
    then show "id_inv cl fin ?s' i"
      using q1 o j run frame n lt ms by (simp add: id_inv_def job_inv_def stream_inv_def)
    show "slot_inv (sc_jobs ?s') k sw" if "map_of (sc_slots ?s') k = Some sw" for k sw
    proof -
      from that frame have "map_of (sc_slots s) k = Some sw" by simp
      from core_slot_inv[OF inv this] none j show ?thesis unfolding slot_inv_def j
        by (auto simp: fun_upd_def) (metis option.distinct(1))+
    qed
    show "ct_waiting (sc_counters ?s') + parked1 i s = ct_waiting (sc_counters s) + parked1 i ?s'"
      using none j q1 by (simp add: frame parked_def)
  qed (use tab frame j none core_pop_ok[OF inv ev] in \<open>auto simp: hm_length_put_new closed_total_def\<close>)
qed

lemma answers_simps [simp]:
  "answers i [] = 0" "answers i (replicate n (Cancel i)) = 0"
  "answers i (x # cs) = (if x = Continue i \<or> x = Stop i then 1 else 0) + answers i cs"
  "answers i (a @ b) = answers i a + answers i b"
  by (simp_all add: answers_def)

lemma credit_answers: "cs_id c = i \<Longrightarrow>
    credit c box cs = length (filter is_token box) + (if cs_waiting_ack c then 1 else 0) + answers i cs"
  by (simp add: credit_def answers_def)

text \<open>The client's answer to a token has been handled.\<close>

lemma client_inv_answered:
  assumes inv: "client_inv False i co opn jo q u cs ms bo" and "parked jo q" and "answers i cs = 1"
    and "\<not> parked jo' q'" and "set (replicate n (Cancel i)) \<subseteq> set cs"
    and ends: "jo' \<noteq> None \<Longrightarrow> \<not> (co \<noteq> None \<and> opn) \<Longrightarrow>
      Cancel i \<in> set (replicate n (Cancel i)) \<or> (\<exists>j. jo' = Some j \<and> (jb_cancel_requested j \<or> (jb_in_flight j \<and> u' = 0)))"
  shows "client_inv False i co opn jo' q' u' (replicate n (Cancel i)) ms bo"
proof (cases co)
  case None
  with inv ends show ?thesis by (simp add: client_inv_def)
next
  case (Some c)
  with inv obtain read box where box: "cs_id c = i" "bo = Some box" "ms = read @ box"
    "cs_finished c \<noteq> None \<longrightarrow> \<not> list_all is_token read" "opn \<longrightarrow> Cancel i \<notin> set cs"
    "opn \<longrightarrow> credit c box cs = (if parked jo q then 1 else 0)"
    by (auto simp: client_inv_def)
  with assms(2,3) have c0: "opn \<longrightarrow> credit c box (replicate n (Cancel i)) = 0" by (simp add: credit_answers)
  from box(5) assms(5) have nc: "opn \<longrightarrow> Cancel i \<notin> set (replicate n (Cancel i))" by auto
  have "\<exists>read box. bo = Some box \<and> ms = read @ box \<and> (cs_finished c \<noteq> None \<longrightarrow> \<not> list_all is_token read)
      \<and> (opn \<longrightarrow> Cancel i \<notin> set (replicate n (Cancel i)))
      \<and> (opn \<longrightarrow> credit c box (replicate n (Cancel i)) = 0)"
    using box(2-4) c0 nc by blast
  moreover have "jo' \<noteq> None \<longrightarrow> \<not> opn \<longrightarrow> Cancel i \<in> set (replicate n (Cancel i))
      \<or> (\<exists>j. jo' = Some j \<and> (jb_cancel_requested j \<or> (jb_in_flight j \<and> u' = 0)))"
    using ends Some by blast
  ultimately show ?thesis
    unfolding client_inv_def Some using box(1) assms(4) by (simp del: set_replicate)
qed

lemma core_waiting_pos:
  assumes "core cl fin s" and "parked (map_of (sc_jobs s) i) (queued i s)" and "\<not> sc_shutting_down s"
  shows "0 < ct_waiting (sc_counters s)"
proof -
  have "\<forall>i. id_inv cl fin s i" using assms(1) by (simp add: core_def)
  from parked_finite[OF this] have "finite (parked_ids s)" using finite_subset by blast
  moreover have "i \<in> parked_ids s" using assms(2) by (simp add: parked_ids_def)
  ultimately have "0 < card (parked_ids s)" by (auto simp: card_gt_0_iff)
  with assms(1,3) show ?thesis by (simp add: core_def tables_inv_def)
qed

lemma parked_job:
  assumes "id_inv cl fin s i" and "parked (map_of (sc_jobs s) i) (queued i s)"
  obtains j ses where "map_of (sc_jobs s) i = Some j" "\<not> jb_in_flight j" "jb_session j = Some ses" "jb_request j = None"
    "queued i s = 0" "outstanding i s = 0"
  using assms by (auto simp: parked_def id_inv_def job_inv_def)

lemma filter_id_none: "queued i s = 0 \<Longrightarrow> filter (\<lambda>e. pe_id e = i) (fp_runnable (sc_policy s)) = []"
  by (simp add: queued_def)

lemma filter_remove_id:
  "queued i s = 0 \<Longrightarrow> filter (\<lambda>e. pe_id e \<noteq> i) (fp_runnable (sc_policy s)) = fp_runnable (sc_policy s)"
  by (simp add: queued_def filter_empty_conv filter_id_conv)

lemma continue_job_core:
  assumes inv: "core cl fin s" and ev: "sc_events s = Client (Continue i) # evs" and run: "\<not> sc_shutting_down s"
  shows "core cl fin (continue_job i (s\<lparr>sc_events := evs\<rparr>))"
proof -
  let ?s' = "continue_job i (s\<lparr>sc_events := evs\<rparr>)"
  note id = core_jobs[OF inv, of i] and tab = core_tables[OF inv]
  have lt: "i < sc_next_id s" using id_inv_lt[OF id] ev by simp
  have "cmds_inv False i (map_of (sc_jobs s) i) (queued i s) (Continue i # cmds i evs)"
    using id ev run by (simp add: id_inv_def)
  from cmds_inv_ack[OF this] obtain n where n: "cmds i evs = replicate n (Cancel i)"
    and park: "parked (map_of (sc_jobs s) i) (queued i s)" by auto
  obtain j ses where j: "map_of (sc_jobs s) i = Some j" "\<not> jb_in_flight j" "jb_session j = Some ses" "jb_request j = None"
    "queued i s = 0" "outstanding i s = 0" by (rule parked_job[OF id park])
  have frame: "sc_events ?s' = evs" "sc_slots ?s' = sc_slots s" "sc_inboxes ?s' = sc_inboxes s" "sc_sent ?s' = sc_sent s"
    "sc_jobs ?s' = sc_jobs s" "sc_next_id ?s' = sc_next_id s" "sc_shutting_down ?s' = sc_shutting_down s"
    "sc_returned ?s' = sc_returned s" "sc_diagnostics ?s' = sc_diagnostics s"
    "sc_counters ?s' = (sc_counters s)\<lparr>ct_waiting := ct_waiting (sc_counters s) - 1\<rparr>"
    using j core_waiting_pos[OF inv park run] by (simp_all add: continue_job_def requeue_def)
  obtain e where e: "fp_runnable (sc_policy ?s') = fp_runnable (sc_policy s) @ [e]" "pe_id e = i"
    using j by (simp add: continue_job_def requeue_def)
  have q1: "queued i ?s' = 1" using e filter_id_none[OF j(5)] by (simp add: queued_def)
  show ?thesis
  proof (rule core_update[OF inv, of i])
    show "same k s ?s'" if "k \<noteq> i" for k
      by (rule sameI_pop[OF ev]) (use frame e j that in \<open>auto simp: tcount_def\<close>)
    have o: "outstanding i ?s' = 0" "unfinished i ?s' = unfinished i s"
      using j frame ev by (simp_all add: outstanding_def unfinished_def tcount_def)
    have "client_inv False i (map_of cl i) (i \<notin> set fin) (Some j) 1 (unfinished i ?s') (replicate n (Cancel i))
       (sent_to i (sc_sent s)) (map_of (sc_inboxes s) i)"
    proof -
      from id run ev n j have c: "client_inv False i (map_of cl i) (i \<notin> set fin) (Some j) 0 (unfinished i s)
         (Continue i # replicate n (Cancel i)) (sent_to i (sc_sent s)) (map_of (sc_inboxes s) i)" by (simp add: id_inv_def)
      have "jb_cancel_requested j" if "\<not> (map_of cl i \<noteq> None \<and> i \<notin> set fin)" "Cancel i \<notin> set (replicate n (Cancel i))"
        using c that j(2) by (auto simp: client_inv_def)
      then show ?thesis
        by (intro client_inv_answered[OF c]) (use j in \<open>auto simp: parked_def\<close>)
    qed
    with id j lt ev n run show "id_inv cl fin ?s' i"
      by (simp add: id_inv_def job_inv_def stream_inv_def frame q1 o is_submit_def)
    show "slot_inv (sc_jobs ?s') k sw" if "map_of (sc_slots ?s') k = Some sw" for k sw
      using core_slot_inv[OF inv] that by (simp add: frame)
    show "ct_waiting (sc_counters ?s') + parked1 i s = ct_waiting (sc_counters s) + parked1 i ?s'"
      using core_waiting_pos[OF inv park run] j q1 park by (simp add: frame parked_def)
  qed (use tab frame core_pop_ok[OF inv ev] in \<open>auto simp: closed_total_def\<close>)
qed

lemma length_filter_mono: "(\<And>x. P x \<Longrightarrow> Q x) \<Longrightarrow> length (filter P xs) \<le> length (filter Q xs)"
  by (induction xs) auto

lemma unfinished_le: "unfinished i s \<le> outstanding i s"
proof -
  have "tcount (\<lambda>t. st_id t = i \<and> \<not> is_finish (st_action t)) s \<le> tcount (\<lambda>t. st_id t = i) s"
    unfolding tcount_def by (rule hm_sum_mono) (rule length_filter_mono, simp)
  moreover have "completion_of (\<lambda>c. cp_id c = i \<and> \<not> final_result (cp_result c)) e \<Longrightarrow> completion_of (\<lambda>c. cp_id c = i) e" for e
    by (cases e) simp_all
  then have "ecount (\<lambda>c. cp_id c = i \<and> \<not> final_result (cp_result c)) evs \<le> ecount (\<lambda>c. cp_id c = i) evs" for evs
    unfolding ecount_def by (rule length_filter_mono)
  ultimately show ?thesis unfolding unfinished_def outstanding_def by (rule add_mono)
qed

lemma stop_job_core:
  assumes inv: "core cl fin s" and ev: "sc_events s = Client (Stop i) # evs" and run: "\<not> sc_shutting_down s"
  shows "core cl fin (stop_job env i (s\<lparr>sc_events := evs\<rparr>))"
proof -
  let ?s' = "stop_job env i (s\<lparr>sc_events := evs\<rparr>)"
  note id = core_jobs[OF inv, of i] and tab = core_tables[OF inv]
  have lt: "i < sc_next_id s" using id_inv_lt[OF id] ev by simp
  have "cmds_inv False i (map_of (sc_jobs s) i) (queued i s) (Stop i # cmds i evs)"
    using id ev run by (simp add: id_inv_def)
  from cmds_inv_ack[OF this] obtain n where n: "cmds i evs = replicate n (Cancel i)"
    and park: "parked (map_of (sc_jobs s) i) (queued i s)" by auto
  obtain j ses where j: "map_of (sc_jobs s) i = Some j" "\<not> jb_in_flight j" "jb_session j = Some ses" "jb_request j = None"
    "queued i s = 0" "outstanding i s = 0" by (rule parked_job[OF id park])
  note pos = core_waiting_pos[OF inv park run]
  let ?j = "j\<lparr>jb_session := None, jb_in_flight := True\<rparr>"
  let ?t = "\<lparr>st_id = i, st_action = Finish ses, st_selection = None\<rparr>"
  let ?p = "fst (fp_remove i (sc_policy s))"
  let ?s1 = "(map_policy (fst \<circ> fp_remove i) (map_waiting wrapping_dec (s\<lparr>sc_events := evs\<rparr>)))\<lparr>sc_jobs := hm_put i ?j (sc_jobs s)\<rparr>"
  obtain s2 r where sub: "submit_task env (jb_slot j) ?t ?s1 = (s2, r)" by (cases "submit_task env (jb_slot j) ?t ?s1")
  have tc0: "tcount P ?s1 = tcount P s" for P by (simp add: tcount_def)
  have run0: "fp_runnable (sc_policy ?s1) = fp_runnable (sc_policy s)" by (simp add: filter_remove_id[OF j(5)])
  have ok1: "hm_ok (sc_slots ?s1)" by (simp add: tab)
  have alive1: "\<forall>sw. map_of (sc_slots ?s1) (jb_slot j) = Some sw \<longrightarrow> sw_alive sw" using core_slot_alive[OF inv] by simp
  from sub ok1 alive1 show ?thesis
  proof (cases rule: submit_task_cases)
    case (sent sl)
    have eq: "?s' = s2" using j sub sent(1) by (simp add: stop_job_def Let_def)
    have frame: "sc_events s2 = evs" "sc_inboxes s2 = sc_inboxes s" "sc_sent s2 = sc_sent s" "sc_jobs s2 = hm_put i ?j (sc_jobs s)"
      "sc_next_id s2 = sc_next_id s" "sc_shutting_down s2 = sc_shutting_down s" "sc_returned s2 = sc_returned s"
      "sc_diagnostics s2 = sc_diagnostics s" "fp_runnable (sc_policy s2) = fp_runnable (sc_policy s)" "sc_slots s2 = sl"
      "sc_counters s2 = (sc_counters s)\<lparr>ct_waiting := ct_waiting (sc_counters s) - 1\<rparr>"
      using pos run0 by (simp_all add: sent(2))
    have tc: "tcount P s2 = tcount P s + (if P ?t then 1 else 0)" for P using sent(5) tc0 by simp
    have sl: "map_of sl = (map_of (sc_slots s))(jb_slot j \<mapsto>
        \<lparr>sw_queue = queue_of s (jb_slot j) @ [?t], sw_alive = True, sw_busy = True\<rparr>)"
      using sent(4) by (simp add: queue_of_def)
    show ?thesis unfolding eq
    proof (rule core_update[OF inv, of i])
      show "same k s s2" if "k \<noteq> i" for k
      proof (rule sameI_pop[OF ev])
        show "tcount P s2 = tcount P s" if "\<And>t. P t \<Longrightarrow> st_id t = k" for P
          using tc[of P] that[of ?t] \<open>k \<noteq> i\<close> by auto
      qed (use frame that in simp_all)
      have q0: "queued i s2 = 0" using frame j(5) by (simp add: queued_def)
      have "unfinished i s = 0" using unfinished_le[of i s] j(6) by simp
      then have o: "outstanding i s2 = 1" "unfinished i s2 = 0"
        using j(6) ev by (simp_all add: outstanding_def unfinished_def tc frame)
      have "client_inv False i (map_of cl i) (i \<notin> set fin) (Some ?j) 0 0 (replicate n (Cancel i))
         (sent_to i (sc_sent s)) (map_of (sc_inboxes s) i)"
      proof -
        from id run ev n j have c: "client_inv False i (map_of cl i) (i \<notin> set fin) (Some j) 0 (unfinished i s)
           (Stop i # replicate n (Cancel i)) (sent_to i (sc_sent s)) (map_of (sc_inboxes s) i)" by (simp add: id_inv_def)
        show ?thesis by (intro client_inv_answered[OF c]) (use j in \<open>auto simp: parked_def\<close>)
      qed
      with id j lt ev n run show "id_inv cl fin s2 i"
        by (simp add: id_inv_def job_inv_def stream_inv_def frame q0 o is_submit_def)
      show "slot_inv (sc_jobs s2) k sw" if "map_of (sc_slots s2) k = Some sw" for k sw
      proof (cases "k = jb_slot j")
        case False
        with that sl frame have "map_of (sc_slots s) k = Some sw" by simp
        from slot_inv_put[OF core_slot_inv[OF inv this] j(1), of ?j] show ?thesis by (simp add: frame)
      next
        case True
        have q: "t \<in> set (queue_of s k) \<Longrightarrow> st_action t \<noteq> SlotShutdown \<and> (\<exists>b. map_of (hm_put i ?j (sc_jobs s)) (st_id t) = Some b \<and> jb_slot b = k)" for t
          using core_slot_inv[OF inv, of k] True j
          by (cases "map_of (sc_slots s) k"; cases "st_id t = i") (auto simp: queue_of_def slot_inv_def)
        have w: "\<exists>x b. map_of (hm_put i ?j (sc_jobs s)) x = Some b \<and> jb_slot b = k \<and> jb_in_flight b"
          by (rule exI[of _ i], rule exI[of _ ?j]) (simp add: True)
        from True that sl frame have sw: "sw = \<lparr>sw_queue = queue_of s k @ [?t], sw_alive = True, sw_busy = True\<rparr>" by simp
        have "map_of (hm_put i ?j (sc_jobs s)) i = Some ?j \<and> jb_slot ?j = k" by (simp add: True)
        with q w show ?thesis unfolding sw slot_inv_def by (auto simp: frame)
      qed
      show "ct_waiting (sc_counters s2) + parked1 i s = ct_waiting (sc_counters s) + parked1 i s2"
        using pos j park by (simp add: frame parked_def q0)
    qed (use sent(3) tab frame j hm_length_put_old[OF tab(1) j(1), of ?j] core_pop_ok[OF inv ev] in \<open>auto simp: closed_total_def\<close>)
  next
    case (refused msg)
    let ?r = "Inl (StateError msg)"
    have eq: "?s' = send_terminal i ?r (?s1\<lparr>sc_jobs := hm_del i (sc_jobs ?s1)\<rparr>)" (is "_ = ?s3")
      using j sub refused(1,2) by (simp add: stop_job_def Let_def)
    show ?thesis unfolding eq
    proof (rule core_update[OF inv, of i])
      show "same k s ?s3" if "k \<noteq> i" for k
        by (rule sameI_pop[OF ev]) (use that run0 in \<open>auto simp: tcount_def\<close>)
      show "id_inv cl fin ?s3 i"
        by (rule id_inv_gone[OF id j(1), where r = ?r and toks = "[]" and cs' = "replicate n (Cancel i)"])
          (use j n run ev park in \<open>auto simp: queued_def outstanding_def tcount_def\<close>)
      show "slot_inv (sc_jobs ?s3) k sw" if "map_of (sc_slots ?s3) k = Some sw" for k sw
      proof -
        from that have "map_of (sc_slots s) k = Some sw" by simp
        from slot_inv_del[OF tab(2) this core_slot_inv[OF inv this], of i] j outstanding_zero
        have "slot_inv (hm_del i (sc_jobs s)) k sw" by auto
        then show ?thesis by (simp add: slot_inv_def)
      qed
      show "ct_waiting (sc_counters ?s3) + parked1 i s = ct_waiting (sc_counters s) + parked1 i ?s3"
        using j pos park by (simp add: parked_def)
      show "ct_admitted (sc_counters ?s3) = closed_total (sc_counters ?s3) + length (sc_jobs ?s3)"
        using tab(4) hm_length_put_old[OF tab(1) j(1), of ?j] hm_length_del_Suc[OF hm_ok_put[OF tab(1), of i ?j], of i ?j]
        by simp
    qed (use tab core_pop_ok[OF inv ev] in auto)
  qed
qed

text \<open>A command that finds nothing to do only leaves the channel.\<close>

lemma client_inv_pop:
  assumes inv: "client_inv sh i co opn jo q u cs ms bo" and sub: "set cs' \<subseteq> set cs"
    and ans: "\<not> sh \<Longrightarrow> answers i cs' = answers i cs" and pk: "parked jo' q' = parked jo q"
    and ends: "jo' \<noteq> None \<or> is_submit i cs' \<Longrightarrow> \<not> (co \<noteq> None \<and> opn) \<Longrightarrow>
      Cancel i \<in> set cs' \<or> Stop i \<in> set cs' \<or> (\<exists>j. jo' = Some j \<and> (jb_cancel_requested j \<or> (jb_in_flight j \<and> u' = 0)))"
  shows "client_inv sh i co opn jo' q' u' cs' ms bo"
proof (cases co)
  case None
  with inv ends show ?thesis by (simp add: client_inv_def)
next
  case (Some c)
  with inv obtain read box where box: "cs_id c = i" "bo = Some box" "ms = read @ box"
    "cs_finished c \<noteq> None \<longrightarrow> \<not> list_all is_token read" "opn \<longrightarrow> Cancel i \<notin> set cs"
    "opn \<longrightarrow> \<not> sh \<longrightarrow> credit c box cs = (if parked jo q then 1 else 0)"
    by (auto simp: client_inv_def)
  have "opn \<longrightarrow> Cancel i \<notin> set cs'" using box(5) sub by blast
  moreover have "opn \<longrightarrow> \<not> sh \<longrightarrow> credit c box cs' = (if parked jo' q' then 1 else 0)"
    using box(1,6) ans by (simp add: credit_answers pk)
  ultimately have "\<exists>read box. bo = Some box \<and> ms = read @ box \<and> (cs_finished c \<noteq> None \<longrightarrow> \<not> list_all is_token read)
      \<and> (opn \<longrightarrow> Cancel i \<notin> set cs') \<and> (opn \<longrightarrow> \<not> sh \<longrightarrow> credit c box cs' = (if parked jo' q' then 1 else 0))"
    using box(2-4) by blast
  moreover have "jo' \<noteq> None \<or> is_submit i cs' \<longrightarrow> \<not> opn \<longrightarrow> Cancel i \<in> set cs' \<or> Stop i \<in> set cs'
      \<or> (\<exists>j. jo' = Some j \<and> (jb_cancel_requested j \<or> (jb_in_flight j \<and> u' = 0)))"
    using ends Some by blast
  ultimately show ?thesis unfolding client_inv_def Some using box(1) by simp
qed

lemma ignored_core:
  assumes inv: "core cl fin s" and ev: "sc_events s = Client c # evs"
    and c: "c = Continue i \<or> c = Stop i \<or> c = Cancel i" and cred: "\<not> sc_shutting_down s \<Longrightarrow> c = Cancel i"
    and ends: "\<And>j. map_of (sc_jobs s) i = Some j \<Longrightarrow> jb_cancel_requested j"
  shows "core cl fin (s\<lparr>sc_events := evs\<rparr>)"
proof -
  let ?s' = "s\<lparr>sc_events := evs\<rparr>"
  note id = core_jobs[OF inv, of i] and tab = core_tables[OF inv]
  have hd: "cmd_of i (Client c) = [c]" using c by auto
  have lt: "i < sc_next_id s" using id_inv_lt[OF id] ev hd by simp
  have cmi: "cmds_inv (sc_shutting_down s) i (map_of (sc_jobs s) i) (queued i s) (c # cmds i evs)"
    using id ev hd by (simp add: id_inv_def)
  have cmi': "cmds_inv (sc_shutting_down s) i (map_of (sc_jobs s) i) (queued i s) (cmds i evs)"
  proof (cases "sc_shutting_down s")
    case True
    with cmi c show ?thesis by (auto simp: cmds_inv_def is_submit_def)
  next
    case False
    with cmi cred cmds_inv_Cancel[of i "map_of (sc_jobs s) i" "queued i s" "cmds i evs"] show ?thesis by auto
  qed
  have nosub: "\<not> is_submit i (c # cmds i evs)"
    using cmi c cred by (cases "sc_shutting_down s") (auto simp: cmds_inv_def is_submit_def acks_def Cons_replicate_eq)
  then have nosub': "\<not> is_submit i (cmds i evs)" by (simp add: is_submit_def)
  have o: "queued i ?s' = queued i s" "outstanding i ?s' = outstanding i s" "unfinished i ?s' = unfinished i s"
    by (simp_all add: queued_def outstanding_def unfinished_def tcount_def ev)
  have "client_inv (sc_shutting_down s) i (map_of cl i) (i \<notin> set fin) (map_of (sc_jobs s) i) (queued i s) (unfinished i s)
     (cmds i evs) (sent_to i (sc_sent s)) (map_of (sc_inboxes s) i)"
  proof -
    from id have ci: "client_inv (sc_shutting_down s) i (map_of cl i) (i \<notin> set fin) (map_of (sc_jobs s) i) (queued i s) (unfinished i s)
       (c # cmds i evs) (sent_to i (sc_sent s)) (map_of (sc_inboxes s) i)" by (simp add: id_inv_def ev hd)
    show ?thesis
      by (rule client_inv_pop[OF ci]) (use cred ends nosub' in \<open>auto split: if_splits\<close>)
  qed
  moreover have "stream_inv (sc_returned s) i (map_of (sc_jobs s) i) (cmds i evs) (sent_to i (sc_sent s))"
    using id lt nosub nosub' by (simp add: id_inv_def stream_inv_def ev hd)
  ultimately have idi: "id_inv cl fin ?s' i" using id lt cmi' by (simp add: id_inv_def o)
  show ?thesis
  proof (rule core_update[OF inv, of i])
    show "same k s ?s'" if "k \<noteq> i" for k
      by (rule sameI_pop[OF ev]) (use c that in \<open>auto simp: tcount_def\<close>)
    show "slot_inv (sc_jobs ?s') k sw" if "map_of (sc_slots ?s') k = Some sw" for k sw
      using core_slot_inv[OF inv] that by simp
  qed (use tab o idi core_pop_ok[OF inv ev] in auto)
qed

lemma cancel_job_core:
  assumes inv: "core cl fin s" and ev: "sc_events s = Client (Cancel i) # evs" and run: "\<not> sc_shutting_down s"
  shows "core cl fin (cancel_job i (s\<lparr>sc_events := evs\<rparr>))"
proof -
  let ?s' = "cancel_job i (s\<lparr>sc_events := evs\<rparr>)"
  note id = core_jobs[OF inv, of i] and tab = core_tables[OF inv]
  have lt: "i < sc_next_id s" using id_inv_lt[OF id] ev by simp
  have ji: "job_inv False (map_of (sc_jobs s) i) (queued i s) (outstanding i s)" using id run by (simp add: id_inv_def)
  show ?thesis
  proof (cases "map_of (sc_jobs s) i")
    case None
    then have "queued i s = 0" using ji by (simp add: job_inv_def)
    from filter_remove_id[OF this] None have "?s' = s\<lparr>sc_events := evs, sc_policy := sc_policy s\<rparr>"
      by (simp add: cancel_job_def fp_remove_def Let_def)
    then have "?s' = s\<lparr>sc_events := evs\<rparr>" by simp
    moreover have "core cl fin (s\<lparr>sc_events := evs\<rparr>)"
      by (rule ignored_core[OF inv ev, of i]) (use None in simp_all)
    ultimately show ?thesis by simp
  next
    case (Some j)
    have "cmds_inv False i (map_of (sc_jobs s) i) (queued i s) (Cancel i # cmds i evs)"
      using id ev run by (simp add: id_inv_def)
    from cmds_inv_Cancel[OF this] obtain n where n: "cmds i evs = replicate n (Cancel i)" by auto
    have ci: "client_inv False i (map_of cl i) (i \<notin> set fin) (Some j) (queued i s) (unfinished i s)
       (Cancel i # replicate n (Cancel i)) (sent_to i (sc_sent s)) (map_of (sc_inboxes s) i)"
      using id run by (simp add: id_inv_def ev n Some)
    then have closed: "\<not> (map_of cl i \<noteq> None \<and> i \<notin> set fin)" by (cases "map_of cl i") (auto simp: client_inv_def)
    show ?thesis
    proof (cases "jb_in_flight j")
      case True
      let ?j = "j\<lparr>jb_cancel_requested := True\<rparr>"
      have q: "queued i s = 0" "outstanding i s = 1" using ji Some True by (simp_all add: job_inv_def)
      have frame: "sc_events ?s' = evs" "sc_slots ?s' = sc_slots s" "sc_inboxes ?s' = sc_inboxes s" "sc_sent ?s' = sc_sent s"
        "sc_jobs ?s' = hm_put i ?j (sc_jobs s)" "sc_next_id ?s' = sc_next_id s" "sc_shutting_down ?s' = sc_shutting_down s"
        "sc_returned ?s' = sc_returned s" "sc_diagnostics ?s' = sc_diagnostics s" "sc_counters ?s' = sc_counters s"
        "fp_runnable (sc_policy ?s') = fp_runnable (sc_policy s)"
        using Some True filter_remove_id[OF q(1)] by (simp_all add: cancel_job_def fp_remove_def Let_def)
      show ?thesis
      proof (rule core_update[OF inv, of i])
        show "same k s ?s'" if "k \<noteq> i" for k
          by (rule sameI_pop[OF ev]) (use frame that in \<open>auto simp: tcount_def\<close>)
        have o: "queued i ?s' = queued i s" "outstanding i ?s' = outstanding i s" "unfinished i ?s' = unfinished i s"
          by (simp_all add: queued_def outstanding_def unfinished_def tcount_def ev frame)
        have "client_inv False i (map_of cl i) (i \<notin> set fin) (Some ?j) (queued i s) (unfinished i s)
           (replicate n (Cancel i)) (sent_to i (sc_sent s)) (map_of (sc_inboxes s) i)"
          by (rule client_inv_pop[OF ci]) (use True in \<open>auto simp: parked_def\<close>)
        with id ji Some True lt run show "id_inv cl fin ?s' i"
          by (simp add: id_inv_def job_inv_def stream_inv_def frame o n ev is_submit_def)
        show "slot_inv (sc_jobs ?s') k sw" if "map_of (sc_slots ?s') k = Some sw" for k sw
        proof -
          from that frame have "map_of (sc_slots s) k = Some sw" by simp
          from slot_inv_put[OF core_slot_inv[OF inv this] Some, of ?j] show ?thesis by (simp add: frame)
        qed
        show "ct_waiting (sc_counters ?s') + parked1 i s = ct_waiting (sc_counters s) + parked1 i ?s'"
          using Some True by (simp add: frame parked_def)
      qed (use tab frame hm_length_put_old[OF tab(1) Some, of ?j] core_pop_ok[OF inv ev] in auto)
    next
      case False
      have q: "queued i s \<le> 1" "outstanding i s = 0" using ji Some False by (simp_all add: job_inv_def)
      define w where "w = (parked (Some j) (queued i s))"
      have was: "snd (fp_remove i (sc_policy s)) \<longleftrightarrow> queued i s \<noteq> 0"
      proof -
        have "length (filter (\<lambda>e. pe_id e \<noteq> i) es) = length es \<longleftrightarrow> length (filter (\<lambda>e. pe_id e = i) es) = 0" for es
          using sum_length_filter_compl[of "\<lambda>e. pe_id e = i" es] by linarith
        then show ?thesis by (simp add: fp_remove_def Let_def queued_def)
      qed
      have pk: "jb_session j \<noteq> None \<and> \<not> snd (fp_remove i (sc_policy s)) \<longleftrightarrow> w"
        using False by (simp add: was w_def parked_def)
      obtain p wr where fr: "fp_remove i (sc_policy s) = (p, wr)" by (cases "fp_remove i (sc_policy s)")
      have pr: "fp_runnable p = filter (\<lambda>e. pe_id e \<noteq> i) (fp_runnable (sc_policy s))"
        using fp_remove_runnable[of i "sc_policy s"] by (simp add: fr)
      have frame: "sc_events ?s' = evs" "sc_slots ?s' = sc_slots s"
        "sc_sent ?s' = sc_sent s @ [(i, terminal_message (Inl Cancelled))]"
        "map_of (sc_inboxes ?s') = (\<lambda>k. if k = i then map_option (\<lambda>b. b @ [terminal_message (Inl Cancelled)]) (map_of (sc_inboxes s) i)
           else map_of (sc_inboxes s) k)" "hm_ok (sc_inboxes ?s')"
        "sc_jobs ?s' = hm_del i (sc_jobs s)" "sc_next_id ?s' = sc_next_id s" "sc_shutting_down ?s' = sc_shutting_down s"
        "sc_returned ?s' = sc_returned s" "sc_diagnostics ?s' = sc_diagnostics s"
        "ct_admitted (sc_counters ?s') = ct_admitted (sc_counters s)" "ct_rounds (sc_counters ?s') = ct_rounds (sc_counters s)"
        "closed_total (sc_counters ?s') = closed_total (sc_counters s) + 1"
        "ct_waiting (sc_counters ?s') = (if w then wrapping_dec (ct_waiting (sc_counters s)) else ct_waiting (sc_counters s))"
        "fp_runnable (sc_policy ?s') = filter (\<lambda>e. pe_id e \<noteq> i) (fp_runnable (sc_policy s))"
        using Some False pk[unfolded fr snd_conv] tab(3) pr
        by (auto simp add: cancel_job_def Let_def fun_eq_iff fr)
      have pos: "w \<Longrightarrow> 0 < ct_waiting (sc_counters s)" using core_waiting_pos[OF inv _ run, of i] Some by (simp add: w_def)
      show ?thesis
      proof (rule core_update[OF inv, of i])
        show "same k s ?s'" if "k \<noteq> i" for k
          by (rule sameI_pop[OF ev]) (use frame that in \<open>auto simp: tcount_def intro!: filter_cong\<close>)
        show "id_inv cl fin ?s' i"
          by (rule id_inv_gone[OF id Some, where r = "Inl Cancelled" and toks = "[]" and cs' = "replicate n (Cancel i)"])
            (use frame q n run ev closed in \<open>auto simp: queued_def outstanding_def tcount_def\<close>)
        show "slot_inv (sc_jobs ?s') k sw" if "map_of (sc_slots ?s') k = Some sw" for k sw
        proof -
          from that frame have "map_of (sc_slots s) k = Some sw" by simp
          from slot_inv_del[OF tab(2) this core_slot_inv[OF inv this], of i] q outstanding_zero Some False
          show ?thesis by (auto simp: frame)
        qed
        show "ct_waiting (sc_counters ?s') + parked1 i s = ct_waiting (sc_counters s) + parked1 i ?s'"
          using pos Some by (simp add: frame parked_def w_def)
        show "ct_admitted (sc_counters ?s') = closed_total (sc_counters ?s') + length (sc_jobs ?s')"
          using tab(4) hm_length_del_Suc[OF tab(1) Some] by (simp add: frame)
      qed (use tab frame core_pop_ok[OF inv ev] in auto)
    qed
  qed
qed

lemma refuse_core:
  assumes inv: "core cl fin s" and ev: "sc_events s = Client (Submit i r) # evs" and sd: "sc_shutting_down s"
  shows "core cl fin (fst (send_message i (ClientFailed ShuttingDown) (s\<lparr>sc_events := evs\<rparr>)))"
proof -
  let ?s' = "fst (send_message i (ClientFailed ShuttingDown) (s\<lparr>sc_events := evs\<rparr>))"
  note id = core_jobs[OF inv, of i] and tab = core_tables[OF inv]
  have lt: "i < sc_next_id s" using id_inv_lt[OF id] ev by simp
  from id ev have n: "\<not> is_submit i (cmds i evs)" and none: "map_of (sc_jobs s) i = None"
    by (auto simp: id_inv_def dest!: cmds_inv_Submit)
  have sub: "is_submit i (cmds i (sc_events s))" by (auto simp: ev is_submit_def)
  with id lt none have ms: "sent_to i (sc_sent s) = []" by (simp add: id_inv_def stream_inv_def)
  have o: "queued i ?s' = queued i s" "outstanding i ?s' = outstanding i s"
    by (simp_all add: queued_def outstanding_def unfinished_def tcount_def ev)
  have "client_inv True i (map_of cl i) (i \<notin> set fin) None (queued i s) (unfinished i ?s') (cmds i evs)
      [ClientFailed ShuttingDown] (map_of (sc_inboxes ?s') i)"
  proof -
    from id none sd ms ev n have c: "client_inv True i (map_of cl i) (i \<notin> set fin) None (queued i s) (unfinished i s)
       (Submit i r # cmds i evs) [] (map_of (sc_inboxes s) i)" by (simp add: id_inv_def)
    show ?thesis by (cases "map_of cl i") (use c n in \<open>auto simp: client_inv_def\<close>)
  qed
  then have idi: "id_inv cl fin ?s' i"
    using id none sd lt n ms by (simp add: id_inv_def o stream_inv_def cmds_inv_def)
  show ?thesis
  proof (rule core_update[OF inv, of i])
    show "same k s ?s'" if "k \<noteq> i" for k
      by (rule sameI_pop[OF ev]) (use that in \<open>auto simp: tcount_def\<close>)
    show "slot_inv (sc_jobs ?s') k sw" if "map_of (sc_slots ?s') k = Some sw" for k sw
      using core_slot_inv[OF inv] that by simp
  qed (use tab o idi none core_pop_ok[OF inv ev] in \<open>auto simp: parked_def\<close>)
qed

section \<open>Shutdown\<close>

lemma cancel_controls_frame:
  "sc_policy (fold (\<lambda>j. cancel_control (jb_control j)) js s) = sc_policy s"
  "sc_jobs (fold (\<lambda>j. cancel_control (jb_control j)) js s) = sc_jobs s"
  "sc_slots (fold (\<lambda>j. cancel_control (jb_control j)) js s) = sc_slots s"
  "sc_shutting_down (fold (\<lambda>j. cancel_control (jb_control j)) js s) = sc_shutting_down s"
  "sc_returned (fold (\<lambda>j. cancel_control (jb_control j)) js s) = sc_returned s"
  "sc_counters (fold (\<lambda>j. cancel_control (jb_control j)) js s) = sc_counters s"
  "sc_diagnostics (fold (\<lambda>j. cancel_control (jb_control j)) js s) = sc_diagnostics s"
  "sc_events (fold (\<lambda>j. cancel_control (jb_control j)) js s) = sc_events s"
  "sc_inboxes (fold (\<lambda>j. cancel_control (jb_control j)) js s) = sc_inboxes s"
  "sc_sent (fold (\<lambda>j. cancel_control (jb_control j)) js s) = sc_sent s"
  "sc_next_id (fold (\<lambda>j. cancel_control (jb_control j)) js s) = sc_next_id s"
  by (induction js arbitrary: s) simp_all

lemma cmds_inv_shut: "cmds_inv sh i jo q cs \<Longrightarrow> (jo' = None \<longleftrightarrow> jo = None) \<Longrightarrow> cmds_inv True i jo' q' cs"
  by (auto simp: cmds_inv_def acks_def is_submit_def split: if_splits)

lemma begin_shutdown_core:
  assumes inv: "core cl fin s" and ev: "sc_events s = Client Shutdown # evs"
  shows "core cl fin (begin_shutdown (s\<lparr>sc_events := evs\<rparr>))"
proof -
  let ?s' = "begin_shutdown (s\<lparr>sc_events := evs\<rparr>)"
  let ?f = "\<lambda>j. j\<lparr>jb_cancel_requested := True\<rparr>"
  note tab = core_tables[OF inv]
  have frame: "sc_events ?s' = evs" "sc_slots ?s' = sc_slots s" "sc_inboxes ?s' = sc_inboxes s" "sc_sent ?s' = sc_sent s"
    "sc_jobs ?s' = map (\<lambda>(i, j). (i, ?f j)) (sc_jobs s)" "sc_next_id ?s' = sc_next_id s" "sc_shutting_down ?s'"
    "sc_returned ?s' = sc_returned s" "sc_diagnostics ?s' = sc_diagnostics s" "sc_counters ?s' = sc_counters s"
    "fp_runnable (sc_policy ?s') = []"
    by (simp_all add: begin_shutdown_def Let_def cancel_controls_frame)
  have job: "map_of (sc_jobs ?s') k = map_option ?f (map_of (sc_jobs s) k)" for k
    unfolding frame by (induction "sc_jobs s") (auto simp: map_of_map)
  have o: "queued k ?s' = 0" "outstanding k ?s' = outstanding k s" "unfinished k ?s' = unfinished k s" for k
    by (simp_all add: queued_def outstanding_def unfinished_def tcount_def ev frame)
  have idk: "id_inv cl fin ?s' k" for k
  proof -
    note id = core_jobs[OF inv, of k]
    have c: "cmds k evs = cmds k (sc_events s)" by (simp add: ev)
    have "job_inv True (map_of (sc_jobs ?s') k) 0 (outstanding k s)"
      using id by (cases "map_of (sc_jobs s) k") (auto simp: id_inv_def job_inv_def job)
    moreover have "cmds_inv True k (map_of (sc_jobs ?s') k) 0 (cmds k evs)"
      by (rule cmds_inv_shut[of "sc_shutting_down s" k "map_of (sc_jobs s) k" "queued k s"]) (use id in \<open>auto simp: id_inv_def c job\<close>)
    moreover have "stream_inv (sc_returned s) k (map_of (sc_jobs ?s') k) (cmds k evs) (sent_to k (sc_sent s))" if "k < sc_next_id s"
      using id that by (cases "map_of (sc_jobs s) k") (simp_all add: id_inv_def stream_inv_def c job)
    moreover have "client_inv True k (map_of cl k) (k \<notin> set fin) (map_of (sc_jobs ?s') k) 0 (unfinished k s) (cmds k evs)
        (sent_to k (sc_sent s)) (map_of (sc_inboxes s) k)"
    proof -
      have ci: "client_inv (sc_shutting_down s) k (map_of cl k) (k \<notin> set fin) (map_of (sc_jobs s) k) (queued k s) (unfinished k s)
          (cmds k evs) (sent_to k (sc_sent s)) (map_of (sc_inboxes s) k)" using id by (simp add: id_inv_def c)
      show ?thesis by (cases "map_of cl k"; cases "map_of (sc_jobs s) k") (use ci in \<open>auto simp: client_inv_def job\<close>)
    qed
    moreover have "fresh_inv (map_of (sc_jobs ?s') k) 0 (outstanding k s) (cmds k evs) (sent_to k (sc_sent s))
        (map_of (sc_inboxes s) k) (map_of cl k) (k \<notin> set fin)" if "sc_next_id s \<le> k"
      using id that by (simp add: id_inv_def fresh_inv_def c job)
    ultimately show ?thesis by (simp add: id_inv_def frame o job)
  qed
  have slots: "slot_inv (sc_jobs ?s') k sw" if "map_of (sc_slots s) k = Some sw" for k sw
    using core_slot_inv[OF inv that] unfolding slot_inv_def job by fastforce
  have "hm_ok (sc_jobs ?s')" using tab(1) by (simp add: hm_ok_def frame comp_def case_prod_beta)
  then show ?thesis
    using inv idk slots core_pop_ok[OF inv ev] by (auto simp: core_def tables_inv_def frame ev)
qed

section \<open>Completions\<close>

lemma retire_frame [simp]:
  "sc_policy (retire_slot_if_idle env k s) = sc_policy s" "sc_jobs (retire_slot_if_idle env k s) = sc_jobs s"
  "sc_shutting_down (retire_slot_if_idle env k s) = sc_shutting_down s" "sc_returned (retire_slot_if_idle env k s) = sc_returned s"
  "sc_counters (retire_slot_if_idle env k s) = sc_counters s" "sc_diagnostics (retire_slot_if_idle env k s) = sc_diagnostics s"
  "sc_inboxes (retire_slot_if_idle env k s) = sc_inboxes s" "sc_sent (retire_slot_if_idle env k s) = sc_sent s"
  "sc_next_id (retire_slot_if_idle env k s) = sc_next_id s"
  by (simp_all add: retire_slot_if_idle_def split: option.split)

text \<open>A slot without jobs has an empty queue, so retiring it joins an idle worker.\<close>

lemma retire_slot:
  assumes "\<forall>sw. map_of (sc_slots s) k = Some sw \<longrightarrow> slot_inv (sc_jobs s) k sw" and "hm_ok (sc_slots s)" and "hm_ok (sc_jobs s)"
  shows "sc_events (retire_slot_if_idle env k s) = sc_events s" "hm_ok (sc_slots (retire_slot_if_idle env k s))"
    "tcount P (retire_slot_if_idle env k s) = tcount P s"
    "map_of (sc_slots (retire_slot_if_idle env k s)) k' = Some sw' \<Longrightarrow> map_of (sc_slots s) k' = Some sw'"
proof -
  have empty: "sw_queue sw = []" if sw: "map_of (sc_slots s) k = Some sw" and noj: "\<not> list_ex (\<lambda>j. jb_slot j = k) (hm_values (sc_jobs s))" for sw
  proof (rule ccontr)
    assume "sw_queue sw \<noteq> []"
    then obtain t where "t \<in> set (sw_queue sw)" by (cases "sw_queue sw") auto
    then obtain j where j: "map_of (sc_jobs s) (st_id t) = Some j" "jb_slot j = k"
      using spec[OF assms(1), of sw] sw by (auto simp: slot_inv_def)
    then have "j \<in> set (hm_values (sc_jobs s))" using hm_values_iff[OF assms(3)] by blast
    with j(2) noj show False by (auto simp: list_ex_iff)
  qed
  show "sc_events (retire_slot_if_idle env k s) = sc_events s"
    using empty by (auto simp: retire_slot_if_idle_def join_slot_def split: option.split)
  show "hm_ok (sc_slots (retire_slot_if_idle env k s))"
    using assms(2) by (simp add: retire_slot_if_idle_def split: option.split)
  show "tcount P (retire_slot_if_idle env k s) = tcount P s"
    using empty assms(2) by (auto simp: retire_slot_if_idle_def tcount_def hm_sum_del split: option.split)
  show "map_of (sc_slots (retire_slot_if_idle env k s)) k' = Some sw' \<Longrightarrow> map_of (sc_slots s) k' = Some sw'"
    by (auto simp: retire_slot_if_idle_def split: option.splits if_splits)
qed

text \<open>The parts of a completion before the job leaves or goes back into the queue.\<close>

definition completed_job :: "SlotCompletion \<Rightarrow> Job \<Rightarrow> Job" where
  "completed_job c j = j\<lparr>jb_in_flight := False, jb_session := cp_session c\<rparr>"

definition received :: "SlotCompletion \<Rightarrow> Job \<Rightarrow> Scheduler \<Rightarrow> Scheduler" where
  "received c j s = (let s0 = free_slot (jb_slot j) s in s0\<lparr>sc_jobs := hm_put (cp_id c) (completed_job c j) (sc_jobs s0)\<rparr>)"

lemma handle_completion_unfold:
  "map_of (sc_jobs s) (cp_id c) = Some j \<Longrightarrow> handle_completion env c s =
     (case judge (cp_id c) (completed_job c j) (cp_result c) (received c j s) of (s2, ob, verdict, waits) \<Rightarrow>
        (let terminal = (if jb_cancel_requested (completed_job c j) \<and> verdict = None then Some (Inl Cancelled) else verdict);
             s3 = account env (completed_job c j) c ob terminal s2
         in case terminal of
              Some result \<Rightarrow> finish_job env (cp_id c) (completed_job c j) result s3
            | None \<Rightarrow> if waits then s3 else map_policy (requeue (cp_id c) (completed_job c j)) s3))"
  unfolding handle_completion_def received_def completed_job_def Let_def by simp

lemma judge_cases:
  assumes "judge i j result s = (s2, ob, verdict, waits)"
  obtains (over) r toks where "verdict = Some r" "\<not> waits" "sc_sent s2 = sc_sent s @ map (Pair i) toks" "list_all is_token toks"
      "toks \<noteq> [] \<longrightarrow> map_of (sc_inboxes s) i = None" "s2 = s\<lparr>sc_sent := sc_sent s2\<rparr>"
    | (token) tok where "verdict = None" "waits" "is_token tok" "\<not> final_result result" "\<not> jb_cancel_requested j"
      "map_of (sc_inboxes s) i \<noteq> None"
      "s2 = map_waiting (\<lambda>w. wrapping_add w 1) (fst (send_message i tok s))"
    | (progress) "verdict = None" "\<not> waits" "s2 = s" "\<not> final_result result"
proof (cases result)
  case (Inl e)
  with assms show ?thesis by (intro over[of _ "[]"]) (auto simp: judge_def)
next
  case (Inr step)
  show ?thesis
  proof (cases step)
    case (Progress x1)
    with Inr assms show ?thesis by (intro progress) (auto simp: judge_def)
  next
    case (Finished x3)
    with Inr assms show ?thesis by (intro over[of _ "[]"]) (auto simp: judge_def)
  next
    case (TokenStep tok piece control ob')
    let ?m = "ClientToken tok piece control"
    consider "jb_cancel_requested j" | "\<not> jb_cancel_requested j" "map_of (sc_inboxes s) i = None"
      | "\<not> jb_cancel_requested j" "map_of (sc_inboxes s) i \<noteq> None" by blast
    then show ?thesis
    proof cases
      case 1
      with Inr TokenStep assms show ?thesis by (intro over[of _ "[]"]) (auto simp: judge_def)
    next
      case 2
      then have "send_message i ?m s = (s\<lparr>sc_sent := sc_sent s @ [(i, ?m)]\<rparr>, False)" by (simp add: send_message_def)
      with 2 Inr TokenStep assms show ?thesis by (intro over[of _ "[?m]"]) (auto simp: judge_def)
    next
      case 3
      obtain s' b where sm: "send_message i ?m s = (s', b)" by (cases "send_message i ?m s")
      with 3 send_message_frame(12)[of i ?m s] have b: "b" by simp
      from sm have s': "s' = fst (send_message i ?m s)" by simp
      have "s2 = map_waiting (\<lambda>w. wrapping_add w 1) s'" "verdict = None" "waits"
        using assms 3 unfolding Inr TokenStep judge_def by (simp_all add: sm b)
      with 3 Inr TokenStep s' show ?thesis by (intro token[of ?m]) simp_all
    qed
  qed
qed

lemma sent_to_pairs [simp]: "sent_to k (map (Pair i) ms) = (if k = i then ms else [])"
  by (induction ms) (auto simp: sent_to_def)

lemma completion_job:
  assumes inv: "core cl fin s" and ev: "sc_events s = SlotCompleted c # evs"
  obtains j where "map_of (sc_jobs s) (cp_id c) = Some j" "jb_in_flight j" "queued (cp_id c) s = 0"
    "tcount (\<lambda>t. st_id t = cp_id c) s = 0" "ecount (\<lambda>d. cp_id d = cp_id c) evs = 0"
    "\<not> sc_shutting_down s \<Longrightarrow> \<exists>n. cmds (cp_id c) (sc_events s) = replicate n (Cancel (cp_id c))"
    "jb_request j = None" "cp_id c < sc_next_id s"
proof -
  let ?i = "cp_id c"
  note id = core_jobs[OF inv, of ?i]
  have "0 < outstanding ?i s" by (simp add: outstanding_def ev)
  moreover have "job_inv (sc_shutting_down s) (map_of (sc_jobs s) ?i) (queued ?i s) (outstanding ?i s)"
    using id by (simp add: id_inv_def)
  ultimately obtain j where j: "map_of (sc_jobs s) ?i = Some j" "jb_in_flight j" "queued ?i s = 0" "outstanding ?i s = 1"
    "jb_request j = None"
    by (auto simp: job_inv_def split: option.splits if_splits)
  have cs: "\<exists>n. cmds ?i (sc_events s) = replicate n (Cancel ?i)" if "\<not> sc_shutting_down s"
  proof -
    have "\<not> parked (Some j) 0" using j(2) by (simp add: parked_def)
    with id j that show ?thesis by (auto simp: id_inv_def cmds_inv_def)
  qed
  show ?thesis
    by (rule that[OF j(1,2,3) _ _ _ j(5)]) (use j cs id_inv_lt[OF id] in \<open>auto simp: outstanding_def ev\<close>)
qed

lemma received_frame:
  assumes "hm_ok (sc_slots s)"
  shows "sc_policy (received c j s) = sc_policy s" "sc_shutting_down (received c j s) = sc_shutting_down s"
  "sc_returned (received c j s) = sc_returned s" "sc_counters (received c j s) = sc_counters s"
  "sc_diagnostics (received c j s) = sc_diagnostics s" "sc_events (received c j s) = sc_events s"
  "sc_next_id (received c j s) = sc_next_id s" "sc_sent (received c j s) = sc_sent s"
  "sc_inboxes (received c j s) = sc_inboxes s" "sc_jobs (received c j s) = hm_put (cp_id c) (completed_job c j) (sc_jobs s)"
  "sc_slots (received c j s) = sc_slots (free_slot (jb_slot j) s)" "tcount P (received c j s) = tcount P s"
  using assms tcount_free_slot[of s P "jb_slot j"] by (simp_all add: received_def Let_def tcount_def)

lemma completion_other:
  assumes "sc_events s = SlotCompleted c # evs" and "k \<noteq> cp_id c" and "sc_events s' = evs"
    and "map_of (sc_jobs s') k = map_of (sc_jobs s) k"
    and "filter (\<lambda>e. pe_id e = k) (fp_runnable (sc_policy s')) = filter (\<lambda>e. pe_id e = k) (fp_runnable (sc_policy s))"
    and "\<And>P. tcount P s' = tcount P s"
    and "sent_to k (sc_sent s') = sent_to k (sc_sent s)"
    and "map_of (sc_inboxes s') k = map_of (sc_inboxes s) k" and "sc_next_id s' = sc_next_id s"
    and "sc_shutting_down s' = sc_shutting_down s" and "sc_returned s' = sc_returned s"
  shows "same k s s'"
  by (rule sameI) (use assms in simp_all)

text \<open>The slot of a completed quantum is no longer busy.\<close>

lemma freed_slot_inv:
  assumes inv: "core cl fin s" and "map_of (sc_slots (free_slot k s)) k' = Some sw"
  shows "slot_inv (sc_jobs s) k' sw \<and> (k' = k \<longrightarrow> \<not> sw_busy sw)"
proof (cases "k' = k")
  case True
  with assms(2) obtain sw0 where "map_of (sc_slots s) k = Some sw0" "sw = sw0\<lparr>sw_busy := False\<rparr>" by auto
  with core_slot_inv[OF inv this(1)] True show ?thesis by (simp add: slot_inv_def)
next
  case False
  with assms(2) core_slot_inv[OF inv] show ?thesis by simp
qed

lemma completion_over_core:
  assumes inv: "core cl fin s" and ev: "sc_events s = SlotCompleted c # evs" and i: "i = cp_id c"
    and job: "map_of (sc_jobs s) i = Some j"
    and s2: "s2 = (received c j (s\<lparr>sc_events := evs\<rparr>))\<lparr>sc_sent := sc_sent s @ map (Pair i) toks\<rparr>"
    and toks: "list_all is_token toks" "toks \<noteq> [] \<longrightarrow> map_of (sc_inboxes s) i = None"
  shows "core cl fin (finish_job env i (completed_job c j) r (account env (completed_job c j) c ob t s2))"
proof -
  let ?j = "completed_job c j" and ?s3 = "account env (completed_job c j) c ob t s2"
  define x where "x = clear_flow (jb_flow ?j) (send_terminal i r (?s3\<lparr>sc_jobs := hm_del i (sc_jobs ?s3)\<rparr>))"
  let ?s' = "retire_slot_if_idle env (jb_slot ?j) x"
  note id = core_jobs[OF inv, of i] and tab = core_tables[OF inv]
  obtain j1 where "map_of (sc_jobs s) i = Some j1" and j0: "jb_in_flight j1" "queued i s = 0"
    "tcount (\<lambda>t. st_id t = i) s = 0" "ecount (\<lambda>d. cp_id d = i) evs = 0" and lt: "i < sc_next_id s"
    and cs: "\<not> sc_shutting_down s \<Longrightarrow> \<exists>n. cmds i (sc_events s) = replicate n (Cancel i)"
    by (rule completion_job[OF inv ev, folded i]) auto
  with job have j: "jb_in_flight j" by simp
  note rf = received_frame[where s = "s\<lparr>sc_events := evs\<rparr>" and c = c and j = j]
  have x: "sc_events x = evs"
    "sc_sent x = sc_sent s @ map (Pair i) toks @ [(i, terminal_message r)]"
    "sc_jobs x = hm_del i (hm_put i ?j (sc_jobs s))" "sc_next_id x = sc_next_id s" "sc_shutting_down x = sc_shutting_down s"
    "sc_returned x = sc_returned s" "fp_runnable (sc_policy x) = fp_runnable (sc_policy s)"
    "sc_slots x = sc_slots (free_slot (jb_slot j) s)"
    "ct_admitted (sc_counters x) = ct_admitted (sc_counters s)" "ct_rounds (sc_counters x) = ct_rounds (sc_counters s)"
    "ct_waiting (sc_counters x) = ct_waiting (sc_counters s)"
    "closed_total (sc_counters x) = closed_total (sc_counters s) + 1" "diag_ok (sc_diagnostics x)"
    using tab rf by (simp_all add: x_def s2 i free_slot_def split: option.split)
  have box: "map_of (sc_inboxes x) k = (if k = i then map_option (\<lambda>b. b @ [terminal_message r]) (map_of (sc_inboxes s) i)
       else map_of (sc_inboxes s) k)" "hm_ok (sc_inboxes x)" for k
    using tab rf by (simp_all add: x_def s2)
  have tx: "tcount P x = tcount P s" for P
    using tcount_free_slot[OF tab(2), of P "jb_slot j"] by (simp add: tcount_def x)
  have sx: "slot_inv (sc_jobs x) k sw" if "map_of (sc_slots x) k = Some sw" for k sw
  proof -
    have t0: "tcount (\<lambda>t. st_id t = i) (free_slot (jb_slot j) s) = 0" using j0(3) tab(2) by simp
    have m: "map_of (sc_slots (free_slot (jb_slot j) s)) k = Some sw" using that by (simp only: x)
    note f = freed_slot_inv[OF inv m]
    have "hm_ok (sc_slots (free_slot (jb_slot j) s))" using tab(2) by simp
    from slot_inv_del[OF this m conjunct1[OF f] t0] f job have "slot_inv (hm_del i (sc_jobs s)) k sw" by auto
    then show ?thesis by (simp add: slot_inv_def x)
  qed
  have sxk: "\<forall>sw. map_of (sc_slots x) (jb_slot ?j) = Some sw \<longrightarrow> slot_inv (sc_jobs x) (jb_slot ?j) sw" using sx by blast
  have okx: "hm_ok (sc_slots x)" "hm_ok (sc_jobs x)" using tab by (simp_all add: x)
  note ret = retire_slot[OF sxk okx, where env = env]
  have len: "length (sc_jobs s) = Suc (length (sc_jobs x))"
    using hm_length_put_old[OF tab(1) job, of ?j] hm_length_del_Suc[OF hm_ok_put[OF tab(1), of i ?j], of i ?j] by (simp add: x)
  have "core cl fin ?s'"
  proof (rule core_update[OF inv, of i])
    show "same k s ?s'" if "k \<noteq> i" for k
      by (rule completion_other[OF ev]) (use ret x box tx that i in simp_all)
    show "id_inv cl fin ?s' i"
      by (rule id_inv_gone[OF id job, where r = r and toks = toks and cs' = "cmds i (sc_events s)"])
        (use ret x box tx j0 toks cs j in \<open>auto simp: queued_def outstanding_def parked_def ev\<close>)
    show "slot_inv (sc_jobs ?s') k sw" if "map_of (sc_slots ?s') k = Some sw" for k sw
      using sx[OF ret(4)[OF that]] by simp
    show "ct_waiting (sc_counters ?s') + parked1 i s = ct_waiting (sc_counters s) + parked1 i ?s'"
      using job j by (simp add: x parked_def)
    show "completion_ok e" if "e \<in> set (sc_events ?s')" for e
      using core_pop_ok[OF inv ev, of e] that by (simp add: ret(1) x(1))
  qed (use tab ret x box okx len in simp_all)
  then show ?thesis by (simp add: finish_job_def x_def)
qed

lemma waiting_room:
  assumes inv: "core cl fin s" and "\<not> parked (map_of (sc_jobs s) i) (queued i s)" and "i < sc_next_id s" and "\<not> sc_shutting_down s"
  shows "wrapping_add (ct_waiting (sc_counters s)) 1 = ct_waiting (sc_counters s) + 1"
proof -
  have all: "\<forall>i. id_inv cl fin s i" using inv by (simp add: core_def)
  have sub: "insert i (parked_ids s) \<subseteq> {..<sc_next_id s}" using parked_finite[OF all] assms(3) by auto
  have "i \<notin> parked_ids s" using assms(2) by (simp add: parked_ids_def)
  with card_mono[OF _ sub] finite_subset[OF sub] have "card (parked_ids s) + 1 \<le> sc_next_id s" by simp
  moreover have "sc_next_id s \<le> u64_max" "ct_waiting (sc_counters s) = card (parked_ids s)"
    using inv assms(4) by (simp_all add: core_def tables_inv_def)
  ultimately show ?thesis by (simp add: u64_max_def)
qed

lemma client_inv_token:
  assumes inv: "client_inv False i co opn (Some j) 0 u cs ms bo" and "\<not> parked (Some j) 0" and "bo \<noteq> None"
    and "parked (Some j') 0" and "is_token tok" and "u \<noteq> 0" and "jb_cancel_requested j' = jb_cancel_requested j"
  shows "client_inv False i co opn (Some j') 0 u' cs (ms @ [tok]) (map_option (\<lambda>b. b @ [tok]) bo)"
proof (cases co)
  case None
  with inv assms(3) show ?thesis by (simp add: client_inv_def)
next
  case (Some c)
  with inv obtain read box where box: "cs_id c = i" "bo = Some box" "ms = read @ box"
    "cs_finished c \<noteq> None \<longrightarrow> \<not> list_all is_token read" "opn \<longrightarrow> Cancel i \<notin> set cs"
    "opn \<longrightarrow> credit c box cs = (if parked (Some j) 0 then 1 else 0)"
    by (auto simp: client_inv_def)
  have "opn \<longrightarrow> credit c (box @ [tok]) cs = 1" using box(6) assms(2,5) by (simp add: credit_def)
  with box have "\<exists>read b. map_option (\<lambda>b. b @ [tok]) bo = Some b \<and> ms @ [tok] = read @ b
      \<and> (cs_finished c \<noteq> None \<longrightarrow> \<not> list_all is_token read) \<and> (opn \<longrightarrow> Cancel i \<notin> set cs) \<and> (opn \<longrightarrow> credit c b cs = 1)"
    by (intro exI[of _ read] exI[of _ "box @ [tok]"]) simp
  with Some inv box(1) assms(4,6,7) show ?thesis by (auto simp: client_inv_def)
qed

lemma completion_stays:
  assumes inv: "core cl fin s" and ev: "sc_events s = SlotCompleted c # evs" and i: "i = cp_id c"
    and job: "map_of (sc_jobs s) i = Some j" and nonfinal: "\<not> final_result (cp_result c)" and nc: "\<not> jb_cancel_requested j"
  obtains "\<not> sc_shutting_down s" "cp_session c \<noteq> None" "0 < unfinished i s" "\<not> parked (Some j) 0" "jb_in_flight j"
    "client_inv False i (map_of cl i) (i \<notin> set fin) (Some j) 0 (unfinished i s) (cmds i evs) (sent_to i (sc_sent s)) (map_of (sc_inboxes s) i)"
    "queued i s = 0" "tcount (\<lambda>t. st_id t = i) s = 0" "ecount (\<lambda>d. cp_id d = i) evs = 0" "i < sc_next_id s"
    "\<exists>n. cmds i evs = replicate n (Cancel i)" "jb_request j = None"
proof -
  note id = core_jobs[OF inv, of i]
  obtain j1 where j1: "map_of (sc_jobs s) i = Some j1" "jb_in_flight j1" "queued i s = 0"
    "tcount (\<lambda>t. st_id t = i) s = 0" "ecount (\<lambda>d. cp_id d = i) evs = 0" "i < sc_next_id s" "jb_request j1 = None"
    and cs: "\<not> sc_shutting_down s \<Longrightarrow> \<exists>n. cmds i (sc_events s) = replicate n (Cancel i)"
    by (rule completion_job[OF inv ev, folded i]) auto
  have run: "\<not> sc_shutting_down s" using id job nc by (auto simp: id_inv_def job_inv_def)
  show ?thesis
  proof (rule that[OF run])
    show "cp_session c \<noteq> None" using core_tables(7)[OF inv, of "SlotCompleted c"] ev nonfinal by (simp add: completion_ok_def)
    show "0 < unfinished i s" using nonfinal i by (simp add: unfinished_def ev)
    show "client_inv False i (map_of cl i) (i \<notin> set fin) (Some j) 0 (unfinished i s) (cmds i evs) (sent_to i (sc_sent s)) (map_of (sc_inboxes s) i)"
      using id run j1(3) job by (simp add: id_inv_def ev)
  qed (use j1 job cs[OF run] in \<open>auto simp: parked_def ev\<close>)
qed

lemma stays_slot_inv:
  assumes inv: "core cl fin s" and job: "map_of (sc_jobs s) (cp_id c) = Some j"
    and "map_of (sc_slots (free_slot (jb_slot j) s)) k = Some sw"
  shows "slot_inv (hm_put (cp_id c) (completed_job c j) (sc_jobs s)) k sw"
  by (rule slot_inv_put[OF conjunct1[OF freed_slot_inv[OF inv assms(3)]] job])
    (use freed_slot_inv[OF inv assms(3)] in \<open>auto simp: completed_job_def\<close>)

lemma completion_token_core:
  assumes inv: "core cl fin s" and ev: "sc_events s = SlotCompleted c # evs" and i: "i = cp_id c"
    and job: "map_of (sc_jobs s) i = Some j" and nonfinal: "\<not> final_result (cp_result c)" and nc: "\<not> jb_cancel_requested j"
    and tok: "is_token tok" and box: "map_of (sc_inboxes s) i \<noteq> None"
    and s': "s' = account env (completed_job c j) c ob t
       (map_waiting (\<lambda>w. wrapping_add w (Suc 0)) (fst (send_message i tok (received c j (s\<lparr>sc_events := evs\<rparr>)))))"
  shows "core cl fin s'"
proof -
  let ?j = "completed_job c j"
  note tab = core_tables[OF inv]
  note rf = received_frame[where s = "s\<lparr>sc_events := evs\<rparr>" and c = c and j = j]
  obtain n where run: "\<not> sc_shutting_down s" and ses: "cp_session c \<noteq> None" and u: "0 < unfinished i s"
    and np: "\<not> parked (Some j) 0" "jb_in_flight j"
    and ci: "client_inv False i (map_of cl i) (i \<notin> set fin) (Some j) 0 (unfinished i s) (cmds i evs) (sent_to i (sc_sent s)) (map_of (sc_inboxes s) i)"
    and z: "queued i s = 0" "tcount (\<lambda>t. st_id t = i) s = 0" "ecount (\<lambda>d. cp_id d = i) evs = 0" and lt: "i < sc_next_id s"
    and n: "cmds i evs = replicate n (Cancel i)" and rq: "jb_request j = None"
    by (rule completion_stays[OF inv ev i job nonfinal nc]) blast
  have x: "sc_events s' = evs" "sc_sent s' = sc_sent s @ [(i, tok)]"
    "sc_jobs s' = hm_put i ?j (sc_jobs s)" "sc_next_id s' = sc_next_id s" "sc_shutting_down s' = sc_shutting_down s"
    "sc_returned s' = sc_returned s" "fp_runnable (sc_policy s') = fp_runnable (sc_policy s)"
    "sc_slots s' = sc_slots (free_slot (jb_slot j) s)" "diag_ok (sc_diagnostics s')"
    "sc_counters s' = (sc_counters s)\<lparr>ct_waiting := ct_waiting (sc_counters s) + 1\<rparr>"
    using tab rf waiting_room[OF inv _ lt run] job np z(1) by (simp_all add: s' i free_slot_def split: option.split)
  have bx: "map_of (sc_inboxes s') k = (if k = i then map_option (\<lambda>b. b @ [tok]) (map_of (sc_inboxes s) i)
       else map_of (sc_inboxes s) k)" "hm_ok (sc_inboxes s')" for k
    using tab rf by (simp_all add: s')
  have tx: "tcount P s' = tcount P s" for P
    using tcount_free_slot[OF tab(2), of P "jb_slot j"] by (simp add: tcount_def x)
  have pk: "parked (Some ?j) 0" using ses by (auto simp: parked_def completed_job_def)
  have o: "queued i s' = 0" "outstanding i s' = 0" using z by (simp_all add: queued_def outstanding_def x tx)
  show ?thesis
  proof (rule core_update[OF inv, of i])
    show "same k s s'" if "k \<noteq> i" for k
      by (rule completion_other[OF ev]) (use x bx tx that i in simp_all)
    have "client_inv False i (map_of cl i) (i \<notin> set fin) (Some ?j) 0 (unfinished i s') (cmds i evs)
        (sent_to i (sc_sent s) @ [tok]) (map_option (\<lambda>b. b @ [tok]) (map_of (sc_inboxes s) i))"
      by (rule client_inv_token[OF ci np(1) box pk tok]) (use u in \<open>auto simp: completed_job_def\<close>)
    moreover have "stream_inv False i (Some ?j) (cmds i evs) (sent_to i (sc_sent s) @ [tok])"
      using core_jobs[OF inv, of i] lt job tok n by (simp add: id_inv_def stream_inv_def ev is_submit_def)
    ultimately show "id_inv cl fin s' i"
      using inv run lt ses rq nc by (auto simp: id_inv_def x bx o n job_inv_def completed_job_def stream_inv_def core_def)
    show "slot_inv (sc_jobs s') k sw" if "map_of (sc_slots s') k = Some sw" for k sw
      using stays_slot_inv[OF inv, of c j k sw] job that by (simp only: x i)
    show "ct_waiting (sc_counters s') + parked1 i s = ct_waiting (sc_counters s) + parked1 i s'"
      using job np pk z o by (simp add: x)
  qed (use tab x bx core_pop_ok[OF inv ev] hm_length_put_old[OF tab(1) job, of ?j] in simp_all)
qed

lemma completion_progress_core:
  assumes inv: "core cl fin s" and ev: "sc_events s = SlotCompleted c # evs" and i: "i = cp_id c"
    and job: "map_of (sc_jobs s) i = Some j" and nonfinal: "\<not> final_result (cp_result c)" and nc: "\<not> jb_cancel_requested j"
    and s': "s' = map_policy (requeue i (completed_job c j)) (account env (completed_job c j) c ob t (received c j (s\<lparr>sc_events := evs\<rparr>)))"
  shows "core cl fin s'"
proof -
  let ?j = "completed_job c j"
  note tab = core_tables[OF inv]
  note rf = received_frame[where s = "s\<lparr>sc_events := evs\<rparr>" and c = c and j = j]
  obtain n where run: "\<not> sc_shutting_down s" and ses: "cp_session c \<noteq> None" and u: "0 < unfinished i s"
    and np: "\<not> parked (Some j) 0" "jb_in_flight j"
    and ci: "client_inv False i (map_of cl i) (i \<notin> set fin) (Some j) 0 (unfinished i s) (cmds i evs) (sent_to i (sc_sent s)) (map_of (sc_inboxes s) i)"
    and z: "queued i s = 0" "tcount (\<lambda>t. st_id t = i) s = 0" "ecount (\<lambda>d. cp_id d = i) evs = 0" and lt: "i < sc_next_id s"
    and n: "cmds i evs = replicate n (Cancel i)" and rq: "jb_request j = None"
    by (rule completion_stays[OF inv ev i job nonfinal nc]) blast
  have x: "sc_events s' = evs" "sc_sent s' = sc_sent s" "sc_inboxes s' = sc_inboxes s"
    "sc_jobs s' = hm_put i ?j (sc_jobs s)" "sc_next_id s' = sc_next_id s" "sc_shutting_down s' = sc_shutting_down s"
    "sc_returned s' = sc_returned s"
    "sc_slots s' = sc_slots (free_slot (jb_slot j) s)" "diag_ok (sc_diagnostics s')" "sc_counters s' = sc_counters s"
    using tab rf by (simp_all add: s' i free_slot_def split: option.split)
  obtain e where e: "fp_runnable (sc_policy s') = fp_runnable (sc_policy s) @ [e]" "pe_id e = i"
    using tab rf by (simp add: s' requeue_def)
  have tx: "tcount P s' = tcount P s" for P
    using tcount_free_slot[OF tab(2), of P "jb_slot j"] by (simp add: tcount_def x)
  have o: "queued i s' = 1" "outstanding i s' = 0"
    using z e filter_id_none[OF z(1)] by (simp_all add: queued_def outstanding_def x tx)
  show ?thesis
  proof (rule core_update[OF inv, of i])
    show "same k s s'" if "k \<noteq> i" for k
      by (rule completion_other[OF ev]) (use x e tx that i in simp_all)
    have "client_inv False i (map_of cl i) (i \<notin> set fin) (Some ?j) 1 (unfinished i s') (cmds i evs)
        (sent_to i (sc_sent s)) (map_of (sc_inboxes s) i)"
      by (rule client_inv_pop[OF ci]) (use u np ci nc in \<open>auto simp: completed_job_def parked_def client_inv_def\<close>)
    moreover have "stream_inv False i (Some ?j) (cmds i evs) (sent_to i (sc_sent s))"
      using core_jobs[OF inv, of i] lt job n by (simp add: id_inv_def stream_inv_def ev is_submit_def)
    ultimately show "id_inv cl fin s' i"
      using inv run lt ses rq nc by (auto simp: id_inv_def x o n job_inv_def completed_job_def stream_inv_def core_def)
    show "slot_inv (sc_jobs s') k sw" if "map_of (sc_slots s') k = Some sw" for k sw
      using stays_slot_inv[OF inv, of c j k sw] job that by (simp only: x i)
    show "ct_waiting (sc_counters s') + parked1 i s = ct_waiting (sc_counters s) + parked1 i s'"
      using job np z o by (simp add: x parked_def)
  qed (use tab x core_pop_ok[OF inv ev] hm_length_put_old[OF tab(1) job, of ?j] in simp_all)
qed

lemma handle_completion_core:
  assumes inv: "core cl fin s" and ev: "sc_events s = SlotCompleted c # evs"
  shows "core cl fin (handle_completion env c (s\<lparr>sc_events := evs\<rparr>))"
proof -
  let ?i = "cp_id c" and ?s0 = "s\<lparr>sc_events := evs\<rparr>"
  obtain j where job: "map_of (sc_jobs s) ?i = Some j" by (rule completion_job[OF inv ev])
  then have job0: "map_of (sc_jobs ?s0) ?i = Some j" by simp
  let ?j = "completed_job c j"
  note rf = received_frame[where s = ?s0 and c = c and j = j, simplified, OF core_tables(2)[OF inv]]
  obtain s2 ob verdict waits where jd: "judge ?i ?j (cp_result c) (received c j ?s0) = (s2, ob, verdict, waits)"
    by (cases "judge ?i ?j (cp_result c) (received c j ?s0)")
  have cr: "jb_cancel_requested ?j = jb_cancel_requested j" by (simp add: completed_job_def)
  show ?thesis
    using jd
  proof (cases rule: judge_cases)
    case (over r toks)
    then show ?thesis
      unfolding handle_completion_unfold[OF job0] jd
      by (auto simp: Let_def rf intro!: completion_over_core[OF inv ev refl job, where toks = toks])
  next
    case (token tok)
    then show ?thesis
      unfolding handle_completion_unfold[OF job0] jd
      by (auto simp: Let_def rf cr intro!: completion_token_core[OF inv ev refl job _ _ _ _ refl])
  next
    case progress
    show ?thesis
    proof (cases "jb_cancel_requested j")
      case False
      with progress show ?thesis
        unfolding handle_completion_unfold[OF job0] jd
        by (auto simp: Let_def cr intro!: completion_progress_core[OF inv ev refl job _ _ refl])
    next
      case True
      with progress show ?thesis
        unfolding handle_completion_unfold[OF job0] jd
        by (auto simp: Let_def cr rf intro!: completion_over_core[OF inv ev refl job, where toks = "[]"])
    qed
  qed
qed

section \<open>One turn of the scheduler\<close>

lemma handle_event_core:
  assumes inv: "core cl fin s" and ev: "sc_events s = ev # evs"
  obtains s' where "handle_event env ev (s\<lparr>sc_events := evs\<rparr>) = Some s'" "core cl fin s'"
proof (cases ev)
  case (SlotCompleted c)
  with that handle_completion_core[OF inv ev[unfolded SlotCompleted], of env] show ?thesis
    by (simp add: handle_event_def)
next
  case (Client c)
  note ev' = ev[unfolded Client]
  have id: "\<And>i. id_inv cl fin s i" using core_jobs[OF inv] .
  have requested: "jb_cancel_requested j" if "sc_shutting_down s" "map_of (sc_jobs s) i = Some j" for i j
    using id[of i] that by (auto simp: id_inv_def job_inv_def)
  show ?thesis
  proof (cases c)
    case (Submit i r)
    with that submit_job_core[OF inv ev'[unfolded Submit], of env] refuse_core[OF inv ev'[unfolded Submit]] show ?thesis
      by (cases "sc_shutting_down s") (auto simp: handle_event_def handle_command_def Client)
  next
    case (Continue i)
    with that continue_job_core[OF inv ev'[unfolded Continue]] ignored_core[OF inv ev'[unfolded Continue], of i] requested show ?thesis
      by (cases "sc_shutting_down s") (auto simp: handle_event_def handle_command_def Client)
  next
    case (Stop i)
    with that stop_job_core[OF inv ev'[unfolded Stop], of env] ignored_core[OF inv ev'[unfolded Stop], of i] requested show ?thesis
      by (cases "sc_shutting_down s") (auto simp: handle_event_def handle_command_def Client)
  next
    case (Cancel i)
    with that cancel_job_core[OF inv ev'[unfolded Cancel]] ignored_core[OF inv ev'[unfolded Cancel], of i] requested show ?thesis
      by (cases "sc_shutting_down s") (auto simp: handle_event_def handle_command_def Client)
  next
    case Shutdown
    with that begin_shutdown_core[OF inv ev'[unfolded Shutdown]] show ?thesis
      by (simp add: handle_event_def Client)
  qed
qed

lemma dispatch_all_core:
  assumes "core cl fin s"
  shows "\<exists>s'. dispatch_all env s = Some s' \<and> core cl fin s'
    \<and> (\<forall>e\<in>set (fp_runnable (sc_policy s')). \<not> dispatchable s' (pe_id e))"
  using assms
proof (induction env s rule: dispatch_all.induct)
  case (1 env s)
  from 1(2) show ?case
  proof (cases rule: dispatch_one_core[where env = env])
    case (idle s')
    then show ?thesis by (intro exI[of _ s']) (simp add: dispatch_all.simps[of env s])
  next
    case (more s')
    from 1(1)[OF more(1) refl TrueI more(2)] more(1) show ?thesis by (simp add: dispatch_all.simps[of env s])
  qed
qed

text \<open>What is left when the scheduler thread has returned.\<close>

definition ended :: "(nat, ClientSession) hm \<Rightarrow> Scheduler \<Rightarrow> bool" where
  "ended cl s \<longleftrightarrow> sc_returned s \<and> sc_jobs s = [] \<and> sc_slots s = [] \<and> sc_next_id s \<le> u64_max \<and> ct_rounds (sc_counters s) = 0
     \<and> diag_ok (sc_diagnostics s)
     \<and> (\<forall>i. i < sc_next_id s \<longrightarrow> stream_inv True i None (cmds i (sc_events s)) (sent_to i (sc_sent s)))
     \<and> (\<forall>i. sc_next_id s \<le> i \<longrightarrow> sent_to i (sc_sent s) = [] \<and> cmds i (sc_events s) = [])"

definition cancel_one :: "nat \<times> Job \<Rightarrow> Scheduler \<Rightarrow> Scheduler" where
  "cancel_one = (\<lambda>(i, j) t. fst (send_message i (ClientFailed Cancelled) (cancel_control (jb_control j) t)))"

lemma cancel_all_frame:
  "sc_next_id (fold cancel_one js s) = sc_next_id s" "sc_slots (fold cancel_one js s) = sc_slots s"
  "sc_jobs (fold cancel_one js s) = sc_jobs s" "sc_counters (fold cancel_one js s) = sc_counters s"
  "sc_diagnostics (fold cancel_one js s) = sc_diagnostics s" "sc_events (fold cancel_one js s) = sc_events s"
  "sc_policy (fold cancel_one js s) = sc_policy s" "sc_shutting_down (fold cancel_one js s) = sc_shutting_down s"
  "sc_sent (fold cancel_one js s) = sc_sent s @ map (\<lambda>p. (fst p, ClientFailed Cancelled)) js"
  by (induction js arbitrary: s) (auto simp: cancel_one_def split: prod.split)

lemma cancelled_once:
  "hm_ok js \<Longrightarrow> sent_to i (map (\<lambda>p. (fst p, ClientFailed Cancelled)) js) = (if map_of js i = None then [] else [ClientFailed Cancelled])"
proof (induction js)
  case (Cons p js)
  then have "map_of js (fst p) = None" by (auto simp: hm_ok_def map_of_eq_None_iff)
  with Cons show ?case by (cases p) (auto simp: hm_ok_def sent_to_def)
qed simp

lemma joined_cmds: "cmds i (concat (map (join_slot env) sws)) = []"
proof -
  have "cmds i (join_slot env sw) = []" for sw by (auto simp: join_slot_def cmds_def)
  then show ?thesis by (induction sws) simp_all
qed

lemma return_if_drained_inv:
  assumes inv: "core cl fin s" and idle: "\<forall>e\<in>set (fp_runnable (sc_policy s)). \<not> dispatchable s (pe_id e)"
    and ct: "ct_runnable (sc_counters s) = length (fp_runnable (sc_policy s))"
  shows "(if sc_returned (return_if_drained env s) then ended cl (return_if_drained env s)
     else core cl fin (return_if_drained env s) \<and> settled (return_if_drained env s))"
proof (cases "sc_shutting_down s \<and> \<not> list_ex sw_busy (hm_values (sc_slots s))")
  case True
  let ?s' = "return_if_drained env s"
  have eq: "?s' = (shutdown_slots env (fold cancel_one (sc_jobs s) (s\<lparr>sc_jobs := []\<rparr>)))\<lparr>sc_returned := True\<rparr>"
    using True by (simp add: return_if_drained_def cancel_all_jobs_def cancel_one_def)
  note tab = core_tables[OF inv]
  have cs: "cmds i (sc_events ?s') = cmds i (sc_events s)" for i
    using joined_cmds[of i env "hm_values (sc_slots s)"] by (simp add: eq shutdown_slots_def cancel_all_frame)
  have ms: "sent_to i (sc_sent ?s') = sent_to i (sc_sent s) @ (if map_of (sc_jobs s) i = None then [] else [ClientFailed Cancelled])" for i
    by (simp add: eq shutdown_slots_def cancel_all_frame cancelled_once[OF tab(1)])
  have "stream_inv True i None (cmds i (sc_events s)) (sent_to i (sc_sent ?s'))" if "i < sc_next_id s" for i
  proof -
    from core_jobs[OF inv, of i] that have st: "stream_inv (sc_returned s) i (map_of (sc_jobs s) i) (cmds i (sc_events s)) (sent_to i (sc_sent s))"
      and cm: "cmds_inv (sc_shutting_down s) i (map_of (sc_jobs s) i) (queued i s) (cmds i (sc_events s))"
      by (simp_all add: id_inv_def)
    show ?thesis
    proof (cases "map_of (sc_jobs s) i")
      case None
      with st ms show ?thesis by (auto simp: stream_inv_def split: if_splits)
    next
      case (Some j)
      with cm have "\<not> is_submit i (cmds i (sc_events s))" by (auto dest: cmds_inv_job)
      with Some st ms show ?thesis by (auto simp: stream_inv_def)
    qed
  qed
  moreover have "sent_to i (sc_sent ?s') = [] \<and> cmds i (sc_events s) = []" if "sc_next_id s \<le> i" for i
    using core_jobs[OF inv, of i] that by (simp add: id_inv_def fresh_inv_def ms)
  moreover have "sc_next_id s \<le> u64_max" using inv by (simp add: core_def tables_inv_def)
  ultimately have "ended cl ?s'" unfolding ended_def cs
    using tab by (simp add: eq shutdown_slots_def cancel_all_frame)
  moreover have "sc_returned ?s'" by (simp add: eq)
  ultimately show ?thesis by simp
next
  case False
  then have eq: "return_if_drained env s = s" by (auto simp: return_if_drained_def)
  have "settled s"
    unfolding settled_def
  proof (intro conjI ballI impI)
    fix e assume e: "e \<in> set (fp_runnable (sc_policy s))"
    then have "0 < queued (pe_id e) s" by (auto simp: queued_def filter_empty_conv)
    with core_jobs[OF inv, of "pe_id e"] obtain j where "map_of (sc_jobs s) (pe_id e) = Some j" "\<not> jb_in_flight j"
      by (auto simp: id_inv_def job_inv_def split: option.splits if_splits)
    with idle e show "\<exists>j. map_of (sc_jobs s) (pe_id e) = Some j \<and> slot_busy s (jb_slot j)"
      by (auto simp: dispatchable_def)
  next
    assume "sc_shutting_down s"
    with False obtain sw where "sw \<in> set (hm_values (sc_slots s))" "sw_busy sw" by (auto simp: list_ex_iff)
    with hm_values_iff[OF core_tables(2)[OF inv]] obtain k where "map_of (sc_slots s) k = Some sw" by blast
    with \<open>sw_busy sw\<close> show "\<exists>k. slot_busy s k" by (intro exI[of _ k]) (simp add: slot_busy_def)
  qed (rule ct)
  moreover have "\<not> sc_returned s" using inv by (simp add: core_def)
  ultimately show ?thesis using inv by (simp add: eq)
qed

definition system_inv :: "(nat, ClientSession) hm \<Rightarrow> nat list \<Rightarrow> Scheduler \<Rightarrow> bool" where
  "system_inv cl fin s \<longleftrightarrow> (if sc_returned s then ended cl s else core cl fin s \<and> settled s)"

lemma core_runnable:
  assumes "core cl fin s"
  shows "core cl fin (s\<lparr>sc_counters := (sc_counters s)\<lparr>ct_runnable := n\<rparr>\<rparr>)" (is "core cl fin ?s'")
proof -
  have "same k s ?s'" for k by (rule sameI) (simp_all add: tcount_def)
  with assms id_inv_same have "\<forall>k. id_inv cl fin ?s' k" unfolding core_def by blast
  moreover have "parked_ids ?s' = parked_ids s" by (simp add: parked_ids_def queued_def)
  ultimately show ?thesis using assms by (simp add: core_def tables_inv_def)
qed

lemma slot_busy_counters: "slot_busy (s\<lparr>sc_counters := c\<rparr>) k = slot_busy s k"
  by (simp add: slot_busy_def)

lemma dispatchable_counters: "dispatchable (s\<lparr>sc_counters := c\<rparr>) i = dispatchable s i"
  by (simp add: dispatchable_def slot_busy_counters split: option.split)

lemma scheduler_turn_inv:
  assumes inv: "core cl fin s" and ev: "sc_events s = ev # evs"
  obtains s' where "scheduler_turn env ev (s\<lparr>sc_events := evs\<rparr>) = Some s'" "system_inv cl fin s'"
proof -
  obtain s1 where s1: "handle_event env ev (s\<lparr>sc_events := evs\<rparr>) = Some s1" "core cl fin s1"
    by (rule handle_event_core[OF inv ev])
  from dispatch_all_core[OF s1(2), of env] obtain s2 where s2: "dispatch_all env s1 = Some s2" "core cl fin s2"
    "\<forall>e\<in>set (fp_runnable (sc_policy s2)). \<not> dispatchable s2 (pe_id e)" by blast
  let ?s3 = "s2\<lparr>sc_counters := (sc_counters s2)\<lparr>ct_runnable := length (fp_runnable (sc_policy s2))\<rparr>\<rparr>"
  have "\<forall>e\<in>set (fp_runnable (sc_policy ?s3)). \<not> dispatchable ?s3 (pe_id e)"
    using s2(3) by (simp add: dispatchable_counters)
  from return_if_drained_inv[OF core_runnable[OF s2(2)] this, of env]
  have "system_inv cl fin (return_if_drained env ?s3)" by (simp add: system_inv_def)
  with that s1(1) s2(1) show ?thesis by (simp add: scheduler_turn_def settle_def)
qed

end
