(* ===== verification/Scheduler_System.thy ===== *)
theory Scheduler_System
  imports Scheduler_Inv
begin

text \<open>
  The invariant holds in every reachable state of the scheduler system: the steps of client
  sessions, slot workers and the diagnostics writer preserve it too.
\<close>

section \<open>Steps of one session\<close>

lemma client_update:
  assumes inv: "core cl fin s" and st: "settled s"
    and same: "\<And>k. k \<noteq> i \<Longrightarrow> same k s s' \<and> map_of cl' k = map_of cl k \<and> (k \<in> set fin' \<longleftrightarrow> k \<in> set fin)"
    and idi: "id_inv cl' fin' s' i"
    and frame: "sc_policy s' = sc_policy s" "sc_jobs s' = sc_jobs s" "sc_slots s' = sc_slots s"
      "sc_counters s' = sc_counters s" "sc_diagnostics s' = sc_diagnostics s"
    and box: "hm_ok (sc_inboxes s')" and ev: "\<And>e. e \<in> set (sc_events s') \<Longrightarrow> e \<in> set (sc_events s) \<or> (\<exists>c. e = Client c)"
  shows "core cl' fin' s' \<and> settled s'"
proof -
  have flags: "sc_next_id s' = sc_next_id s" "sc_shutting_down s' = sc_shutting_down s" "sc_returned s' = sc_returned s"
    using same[of "Suc i"] by (simp_all add: same_def)
  have "id_inv cl' fin' s' k" for k
  proof (cases "k = i")
    case False
    from id_inv_same[OF conjunct1[OF same[OF False]] core_jobs[OF inv]] same[OF False] show ?thesis
      by (simp add: id_inv_def)
  qed (simp add: idi)
  moreover have "parked_ids s' = parked_ids s" by (simp add: parked_ids_def queued_def frame)
  moreover have "completion_ok e" if "e \<in> set (sc_events s')" for e
    using ev[OF that] core_tables(7)[OF inv] by (auto simp: completion_ok_def)
  ultimately show ?thesis using inv st box by (simp add: core_def tables_inv_def settled_def slot_busy_def frame flags)
qed

lemma client_facts:
  assumes "core cl fin s" and "map_of cl i = Some c"
  obtains read box where "cs_id c = i" "map_of (sc_inboxes s) i = Some box" "sent_to i (sc_sent s) = read @ box"
    "cs_finished c \<noteq> None \<longrightarrow> \<not> list_all is_token read"
    "i \<notin> set fin \<longrightarrow> Cancel i \<notin> set (cmds i (sc_events s))"
    "i \<notin> set fin \<longrightarrow> \<not> sc_shutting_down s \<longrightarrow> credit c box (cmds i (sc_events s)) = parked1 i s" "i < sc_next_id s"
proof -
  note id = core_jobs[OF assms(1), of i]
  have "i < sc_next_id s" using id assms(2) by (cases "sc_next_id s \<le> i") (auto simp: id_inv_def fresh_inv_def)
  with id assms(2) that show ?thesis by (auto simp: id_inv_def client_inv_def)
qed

text \<open>An open session that sends a command.\<close>

lemma send_answer:
  assumes inv: "core cl fin s" and c: "map_of cl i = Some c" "i \<notin> set fin" "cs_waiting_ack c" "\<not> sc_shutting_down s"
  shows "cmds i (sc_events s) = []" "parked (map_of (sc_jobs s) i) (queued i s)"
    "\<And>box. map_of (sc_inboxes s) i = Some box \<Longrightarrow> filter is_token box = []"
proof -
  obtain read box where f: "cs_id c = i" "map_of (sc_inboxes s) i = Some box"
    "Cancel i \<notin> set (cmds i (sc_events s))" "credit c box (cmds i (sc_events s)) = parked1 i s"
    by (rule client_facts[OF inv c(1)]) (use c in auto)
  have one: "parked (map_of (sc_jobs s) i) (queued i s)" and zero: "filter is_token box = []" "answers i (cmds i (sc_events s)) = 0"
    using f(1,4) c(3) by (auto simp: credit_answers split: if_splits)
  show "parked (map_of (sc_jobs s) i) (queued i s)" by (rule one)
  show "\<And>b. map_of (sc_inboxes s) i = Some b \<Longrightarrow> filter is_token b = []" using f(2) zero by simp
  have "cmds_inv False i (map_of (sc_jobs s) i) (queued i s) (cmds i (sc_events s))"
    using core_jobs[OF inv, of i] c(4) by (simp add: id_inv_def)
  with one f(3) zero(2) show "cmds i (sc_events s) = []"
    by (auto simp: cmds_inv_def acks_def parked_def)
qed

lemma id_inv_send:
  assumes inv: "core cl fin s" and lt: "i < sc_next_id s" and x: "x = Continue i \<or> x = Stop i \<or> x = Cancel i"
    and cs: "\<not> sc_shutting_down s \<Longrightarrow> cmds_inv False i (map_of (sc_jobs s) i) (queued i s) (cmds i (sc_events s) @ [x])"
    and cl: "client_inv (sc_shutting_down s) i (map_of cl' i) (i \<notin> set fin') (map_of (sc_jobs s) i) (queued i s) (unfinished i s)
       (cmds i (sc_events s) @ [x]) (sent_to i (sc_sent s)) (map_of (sc_inboxes s') i)"
    and s': "sc_events s' = sc_events s @ [Client x]" "sc_jobs s' = sc_jobs s" "sc_slots s' = sc_slots s" "sc_policy s' = sc_policy s"
      "sc_sent s' = sc_sent s" "sc_next_id s' = sc_next_id s" "sc_shutting_down s' = sc_shutting_down s" "sc_returned s' = sc_returned s"
  shows "id_inv cl' fin' s' i"
proof -
  note id = core_jobs[OF inv, of i]
  have hd: "cmd_of i (Client x) = [x]" using x by auto
  have o: "queued i s' = queued i s" "outstanding i s' = outstanding i s" "unfinished i s' = unfinished i s"
    by (simp_all add: queued_def outstanding_def unfinished_def tcount_def s')
  have sub: "is_submit i (cmds i (sc_events s) @ [x]) = is_submit i (cmds i (sc_events s))" using x by (auto simp: is_submit_def)
  have "cmds_inv (sc_shutting_down s) i (map_of (sc_jobs s) i) (queued i s) (cmds i (sc_events s) @ [x])"
  proof (cases "sc_shutting_down s")
    case True
    with id have "cmds_inv True i (map_of (sc_jobs s) i) (queued i s) (cmds i (sc_events s))" by (simp add: id_inv_def)
    then show ?thesis using x True by (auto simp: cmds_inv_def is_submit_def)
  qed (use cs in simp)
  with id cl lt show ?thesis by (simp add: id_inv_def s' hd o stream_inv_def sub)
qed

lemma send_same: "k \<noteq> i \<Longrightarrow> x = Continue i \<or> x = Stop i \<or> x = Cancel i \<Longrightarrow> same k s (s\<lparr>sc_events := sc_events s @ [Client x]\<rparr>)"
  by (rule sameI) (auto simp: tcount_def)

lemma client_inv_sent:
  assumes f: "cs_id c = i" "bo = Some box" "ms = read @ box" "cs_finished c \<noteq> None \<longrightarrow> \<not> list_all is_token read"
    and "opn \<Longrightarrow> Cancel i \<notin> set cs" "opn \<Longrightarrow> \<not> sh \<Longrightarrow> credit c box cs = (if parked jo q then 1 else 0)"
    and "\<not> opn \<Longrightarrow> Cancel i \<in> set cs \<or> Stop i \<in> set cs"
  shows "client_inv sh i (Some c) opn jo q u cs ms bo"
  using assms unfolding client_inv_def by auto

lemma step_send_inv:
  assumes inv: "core cl fin s" and st: "settled s" and c: "map_of cl i = Some c" "i \<notin> set fin"
    and step: "client_step_send c s = (c', s', r)"
  shows "core (hm_put i c' cl) fin s' \<and> settled s'"
proof -
  obtain read box where f: "cs_id c = i" "map_of (sc_inboxes s) i = Some box" "sent_to i (sc_sent s) = read @ box"
    "cs_finished c \<noteq> None \<longrightarrow> \<not> list_all is_token read" "Cancel i \<notin> set (cmds i (sc_events s))"
    "\<not> sc_shutting_down s \<longrightarrow> credit c box (cmds i (sc_events s)) = parked1 i s" and lt: "i < sc_next_id s"
    by (rule client_facts[OF inv c(1)]) (use c in auto)
  have run: "\<not> sc_returned s" using inv by (simp add: core_def)
  show ?thesis
  proof (cases "cs_waiting_ack c")
    case False
    with step have "c' = c" "s' = s" by (simp_all add: client_step_send_def)
    moreover have "id_inv (hm_put i c cl) fin s k = id_inv cl fin s k" for k using c by (auto simp: id_inv_def)
    ultimately show ?thesis using inv st by (simp add: core_def)
  next
    case True
    with step run f(1) have eq: "c' = c\<lparr>cs_waiting_ack := False\<rparr>" "s' = s\<lparr>sc_events := sc_events s @ [Client (Continue i)]\<rparr>"
      by (auto simp: client_step_send_def send_command_def)
    show ?thesis
    proof (rule client_update[OF inv st, of i])
      show "k \<noteq> i \<Longrightarrow> same k s s' \<and> map_of (hm_put i c' cl) k = map_of cl k \<and> (k \<in> set fin \<longleftrightarrow> k \<in> set fin)" for k
        unfolding eq using send_same[of k i "Continue i" s] by simp
      have ci: "client_inv (sc_shutting_down s) i (Some c') True (map_of (sc_jobs s) i) (queued i s) (unfinished i s)
         (cmds i (sc_events s) @ [Continue i]) (sent_to i (sc_sent s)) (map_of (sc_inboxes s) i)"
      proof (rule client_inv_sent)
        show "credit c' box (cmds i (sc_events s) @ [Continue i]) = parked1 i s" if "\<not> sc_shutting_down s"
          using send_answer[OF inv c(1,2) True that] f(1,2) by (simp add: credit_answers eq(1))
      qed (use f in \<open>auto simp: eq(1)\<close>)
      show "id_inv (hm_put i c' cl) fin s' i"
        by (rule id_inv_send[OF inv lt, where x = "Continue i"])
          (use ci c send_answer[OF inv c(1,2) True] in \<open>auto simp: eq(2) cmds_inv_def acks_def\<close>)
    qed (use core_tables[OF inv] in \<open>auto simp: eq(2)\<close>)
  qed
qed

lemma finish_send_inv:
  assumes inv: "core cl fin s" and st: "settled s" and c: "map_of cl i = Some c" "i \<notin> set fin"
    and step: "client_finish_send c s = (c', s', r)"
  shows "core (hm_put i c' cl) (i # fin) s' \<and> settled s'"
proof -
  obtain read box where f: "cs_id c = i" "map_of (sc_inboxes s) i = Some box" "sent_to i (sc_sent s) = read @ box"
    "cs_finished c \<noteq> None \<longrightarrow> \<not> list_all is_token read" "Cancel i \<notin> set (cmds i (sc_events s))" and lt: "i < sc_next_id s"
    by (rule client_facts[OF inv c(1)]) (use c in auto)
  have run: "\<not> sc_returned s" using inv by (simp add: core_def)
  define x where "x = (if cs_waiting_ack c then Stop i else Cancel i)"
  with step run f(1) have eq: "c' = c\<lparr>cs_waiting_ack := False\<rparr>" "s' = s\<lparr>sc_events := sc_events s @ [Client x]\<rparr>"
    by (auto simp: client_finish_send_def send_command_def)
  have x: "x = Continue i \<or> x = Stop i \<or> x = Cancel i" "Cancel i \<in> set [x] \<or> Stop i \<in> set [x]" by (auto simp: x_def)
  show ?thesis
  proof (rule client_update[OF inv st, of i])
    show "k \<noteq> i \<Longrightarrow> same k s s' \<and> map_of (hm_put i c' cl) k = map_of cl k \<and> (k \<in> set (i # fin) \<longleftrightarrow> k \<in> set fin)" for k
      unfolding eq using send_same[OF _ x(1), of k s] by simp
    have ci: "client_inv (sc_shutting_down s) i (Some c') False (map_of (sc_jobs s) i) (queued i s) (unfinished i s)
       (cmds i (sc_events s) @ [x]) (sent_to i (sc_sent s)) (map_of (sc_inboxes s) i)"
      by (rule client_inv_sent[where box = box and read = read]) (use f x(2) in \<open>auto simp: eq(1)\<close>)
    have cm: "cmds_inv False i (map_of (sc_jobs s) i) (queued i s) (cmds i (sc_events s) @ [x])" if run': "\<not> sc_shutting_down s"
    proof (cases "cs_waiting_ack c")
      case True
      from send_answer[OF inv c(1,2) True run'] True show ?thesis by (auto simp: x_def cmds_inv_def acks_def)
    next
      case False
      have "cmds_inv False i (map_of (sc_jobs s) i) (queued i s) (cmds i (sc_events s))"
        using core_jobs[OF inv, of i] run' by (simp add: id_inv_def)
      then obtain as where as: "cmds i (sc_events s) = as" "(\<exists>r. as = [Submit i r] \<and> map_of (sc_jobs s) i = None)
          \<or> (as \<in> acks i \<and> (as \<noteq> [] \<longrightarrow> parked (map_of (sc_jobs s) i) (queued i s)))"
        using f(5) by (auto simp: cmds_inv_def)
      then show ?thesis using False unfolding x_def cmds_inv_def by (auto intro!: exI[of _ "Suc 0"])
    qed
    show "id_inv (hm_put i c' cl) (i # fin) s' i"
      by (rule id_inv_send[OF inv lt x(1)]) (use ci cm in \<open>auto simp: eq(2)\<close>)
  qed (use core_tables[OF inv] in \<open>auto simp: eq(2)\<close>)
qed

lemma cmds_inv_more: "cmds_inv False i jo q cs \<Longrightarrow> cmds_inv False i jo q (cs @ [Cancel i])"
proof -
  have rep: "replicate n (Cancel i) @ [Cancel i] = replicate (Suc n) (Cancel i)" for n by (simp add: replicate_append_same)
  assume "cmds_inv False i jo q cs"
  then consider (sub) n r where "cs = Submit i r # replicate n (Cancel i)" "jo = None"
    | (ack) n as where "as \<in> acks i" "cs = as @ replicate n (Cancel i)" "as \<noteq> [] \<longrightarrow> parked jo q"
    unfolding cmds_inv_def by auto
  then show ?thesis
  proof cases
    case (sub n r)
    then have "cs @ [Cancel i] = Submit i r # replicate (Suc n) (Cancel i)" using rep by simp
    with sub(2) show ?thesis unfolding cmds_inv_def if_False by blast
  next
    case (ack n as)
    then have "cs @ [Cancel i] = as @ replicate (Suc n) (Cancel i)" using rep by simp
    with ack(1,3) show ?thesis unfolding cmds_inv_def if_False by blast
  qed
qed

lemma drop_inv:
  assumes inv: "core cl fin s" and st: "settled s" and c: "map_of cl i = Some c"
  shows "core (hm_del i cl) fin (client_drop c s) \<and> settled (client_drop c s)"
proof -
  obtain read box where f: "cs_id c = i" "map_of (sc_inboxes s) i = Some box" "sent_to i (sc_sent s) = read @ box"
    "cs_finished c \<noteq> None \<longrightarrow> \<not> list_all is_token read" and lt: "i < sc_next_id s"
    by (rule client_facts[OF inv c]) (use c in auto)
  have run: "\<not> sc_returned s" using inv by (simp add: core_def)
  note id = core_jobs[OF inv, of i]
  let ?s1 = "s\<lparr>sc_inboxes := hm_del i (sc_inboxes s)\<rparr>"
  show ?thesis
  proof (cases "cs_finished c")
    case (Some out)
    then have eq: "client_drop c s = ?s1" by (simp add: client_drop_def f(1))
    have "\<not> list_all is_token (sent_to i (sc_sent s))" using f(3,4) Some by simp
    with id lt have none: "map_of (sc_jobs s) i = None" "\<not> is_submit i (cmds i (sc_events s))"
      by (auto simp: id_inv_def stream_inv_def split: if_splits)
    show ?thesis unfolding eq
    proof (rule client_update[OF inv st, of i])
      show "k \<noteq> i \<Longrightarrow> same k s ?s1 \<and> map_of (hm_del i cl) k = map_of cl k \<and> (k \<in> set fin \<longleftrightarrow> k \<in> set fin)" for k
        using sameI[of ?s1 k s] by (simp add: tcount_def)
      show "id_inv (hm_del i cl) fin ?s1 i"
        using id none lt by (simp add: id_inv_def client_inv_def queued_def outstanding_def tcount_def)
    qed (use core_tables[OF inv] in auto)
  next
    case None
    let ?s2 = "cancel_control (cs_control c) ?s1"
    let ?s3 = "?s2\<lparr>sc_events := sc_events s @ [Client (Cancel i)]\<rparr>"
    from None run have eq: "client_drop c s = ?s3" by (simp add: client_drop_def f(1) send_command_def Let_def)
    show ?thesis unfolding eq
    proof (rule client_update[OF inv st, of i])
      show "k \<noteq> i \<Longrightarrow> same k s ?s3 \<and> map_of (hm_del i cl) k = map_of cl k \<and> (k \<in> set fin \<longleftrightarrow> k \<in> set fin)" for k
        using sameI[of ?s3 k s] by (simp add: tcount_def)
      have cm: "cmds_inv False i (map_of (sc_jobs s) i) (queued i s) (cmds i (sc_events s) @ [Cancel i])" if run': "\<not> sc_shutting_down s"
        using cmds_inv_more id run' by (simp add: id_inv_def)
      show "id_inv (hm_del i cl) fin ?s3 i"
        by (rule id_inv_send[OF inv lt, where x = "Cancel i"]) (use cm in \<open>auto simp: client_inv_def\<close>)
    qed (use core_tables[OF inv] in auto)
  qed
qed

lemma receive_inv:
  assumes inv: "core cl fin s" and st: "settled s" and c: "map_of cl i = Some c" "cs_finished c = None" "\<not> cs_waiting_ack c"
    and step: "client_receive c s = Some (c', s', r)"
  shows "core (hm_put i c' cl) fin s' \<and> settled s'"
proof -
  obtain read box where f: "cs_id c = i" "map_of (sc_inboxes s) i = Some box" "sent_to i (sc_sent s) = read @ box"
    "i \<notin> set fin \<longrightarrow> Cancel i \<notin> set (cmds i (sc_events s))"
    "i \<notin> set fin \<longrightarrow> \<not> sc_shutting_down s \<longrightarrow> credit c box (cmds i (sc_events s)) = parked1 i s" and lt: "i < sc_next_id s"
    by (rule client_facts[OF inv c(1)]) (use c in auto)
  note id = core_jobs[OF inv, of i]
  show ?thesis
  proof (cases box)
    case Nil
    with step f(1,2) have "c' = c" "s' = s" by (auto simp: client_receive_def split: if_splits)
    moreover have "id_inv (hm_put i c cl) fin s k = id_inv cl fin s k" for k using c by (auto simp: id_inv_def)
    ultimately show ?thesis using inv st by (simp add: core_def)
  next
    case (Cons m ms)
    from step f(1,2) Cons have s': "s' = s\<lparr>sc_inboxes := hm_put i ms (sc_inboxes s)\<rparr>"
      and c': "c' = (case m of ClientToken _ _ _ \<Rightarrow> c\<lparr>cs_waiting_ack := True\<rparr>
          | ClientFinished out \<Rightarrow> c\<lparr>cs_finished := Some out\<rparr> | ClientFailed _ \<Rightarrow> c)"
      by (auto simp: client_receive_def Let_def split: ClientMessage.splits)
    have o: "queued i s' = queued i s" "outstanding i s' = outstanding i s" "unfinished i s' = unfinished i s"
      by (simp_all add: queued_def outstanding_def unfinished_def tcount_def s')
    have cc: "cs_id c' = i" "cs_finished c' \<noteq> None \<longrightarrow> \<not> is_token m" "credit c' ms cs = credit c (m # ms) cs" for cs
      using c f(1) by (auto simp: c' credit_def split: ClientMessage.splits)
    show ?thesis
    proof (rule client_update[OF inv st, of i])
      show "k \<noteq> i \<Longrightarrow> same k s s' \<and> map_of (hm_put i c' cl) k = map_of cl k \<and> (k \<in> set fin \<longleftrightarrow> k \<in> set fin)" for k
        using sameI[of s' k s] by (simp add: tcount_def s')
      have "client_inv (sc_shutting_down s) i (Some c') (i \<notin> set fin) (map_of (sc_jobs s) i) (queued i s) (unfinished i s)
         (cmds i (sc_events s)) (sent_to i (sc_sent s)) (Some ms)"
      proof -
        have "\<exists>rd bx. Some ms = Some bx \<and> sent_to i (sc_sent s) = rd @ bx \<and> (cs_finished c' \<noteq> None \<longrightarrow> \<not> list_all is_token rd)
            \<and> (i \<notin> set fin \<longrightarrow> Cancel i \<notin> set (cmds i (sc_events s)))
            \<and> (i \<notin> set fin \<longrightarrow> \<not> sc_shutting_down s \<longrightarrow> credit c' bx (cmds i (sc_events s)) = parked1 i s)"
          by (rule exI[of _ "read @ [m]"], rule exI[of _ ms]) (use f Cons cc in auto)
        moreover have "map_of (sc_jobs s) i \<noteq> None \<or> is_submit i (cmds i (sc_events s)) \<longrightarrow> \<not> i \<notin> set fin \<longrightarrow>
            Cancel i \<in> set (cmds i (sc_events s)) \<or> Stop i \<in> set (cmds i (sc_events s))
            \<or> (\<exists>j. map_of (sc_jobs s) i = Some j \<and> (jb_cancel_requested j \<or> (jb_in_flight j \<and> unfinished i s = 0)))"
          using id c(1) by (simp add: id_inv_def client_inv_def)
        ultimately show ?thesis using cc(1) by (simp add: client_inv_def)
      qed
      with id lt show "id_inv (hm_put i c' cl) fin s' i"
        by (simp add: id_inv_def s' o[unfolded s'])
    qed (use core_tables[OF inv] in \<open>auto simp: s'\<close>)
  qed
qed

lemma start_inv:
  assumes inv: "core cl fin s" and st: "settled s" and step: "start_session u v request s = (s', Ok c)"
  shows "core (hm_put (cs_id c) c cl) fin s' \<and> settled s'"
proof -
  let ?i = "sc_next_id s"
  have run: "\<not> sc_returned s" using inv by (simp add: core_def)
  define rq where "rq = request\<lparr>er_scheduling := fill_ids u v (er_scheduling request),
      er_prefill_chunk_tokens := pc_prefill_tokens (fp_config (sc_policy s))\<rparr>"
  obtain n where n: "checked_add ?i 1 = Some n"
    using step by (cases "checked_add ?i 1") (auto simp: start_session_def split: outcome.splits)
  have "(s', Ok c) = (s\<lparr>sc_next_id := n, sc_events := sc_events s @ [Client (Submit ?i rq)], sc_inboxes := hm_put ?i [] (sc_inboxes s)\<rparr>,
      (Ok \<lparr>cs_id = ?i, cs_control = er_control rq, cs_waiting_ack = False, cs_finished = None\<rparr> :: (server_error, ClientSession) outcome))"
    using step run n unfolding start_session_def send_command_def Let_def rq_def[symmetric]
    by (cases "request_check (er_control request) s") simp_all
  then have s': "s' = s\<lparr>sc_next_id := n, sc_events := sc_events s @ [Client (Submit ?i rq)], sc_inboxes := hm_put ?i [] (sc_inboxes s)\<rparr>"
    and c: "cs_id c = ?i" "\<not> cs_waiting_ack c" "cs_finished c = None" by simp_all
  have n: "n = Suc ?i" "n \<le> u64_max" using n by (auto simp: checked_add_Some_iff)
  have fr: "fresh_inv (map_of (sc_jobs s) ?i) (queued ?i s) (outstanding ?i s) (cmds ?i (sc_events s)) (sent_to ?i (sc_sent s))
      (map_of (sc_inboxes s) ?i) (map_of cl ?i) (?i \<notin> set fin)"
    using core_jobs[OF inv, of ?i] by (simp add: id_inv_def)
  have o: "queued k s' = queued k s" "outstanding k s' = outstanding k s" "unfinished k s' = unfinished k s" for k
    by (simp_all add: queued_def outstanding_def unfinished_def tcount_def s')
  have "id_inv (hm_put (cs_id c) c cl) fin s' k" for k
  proof (cases "k = ?i")
    case False
    with core_jobs[OF inv, of k] n(1) show ?thesis unfolding id_inv_def o by (simp add: s' c(1))
  next
    case True
    with fr c n(1) show ?thesis unfolding id_inv_def o
      by (auto simp: s' fresh_inv_def job_inv_def cmds_inv_def stream_inv_def client_inv_def
          is_submit_def credit_def parked_def)
  qed
  moreover have "parked_ids s' = parked_ids s" by (simp add: parked_ids_def o) (simp add: s')
  ultimately show ?thesis using inv st n(2)
    by (auto simp: core_def tables_inv_def settled_def s' completion_ok_def slot_busy_def)
qed

lemma slot_run_final: "a \<noteq> SlotShutdown \<Longrightarrow> slot_run en a = (res, ses) \<Longrightarrow> final_result res \<or> (ses \<noteq> None \<and> \<not> is_finish a)"
  by (auto simp: slot_run_def panicked_def split: SlotAction.splits outcome.splits)

lemma worker_inv:
  assumes inv: "core cl fin s" and st: "settled s" and step: "worker_turn env k s = Some s'"
  shows "core cl fin s' \<and> settled s'"
proof -
  from step obtain sw t rest where sw: "map_of (sc_slots s) k = Some sw" "sw_queue sw = t # rest"
    and s': "s' = s\<lparr>sc_slots := hm_put k (sw\<lparr>sw_queue := rest\<rparr>) (sc_slots s),
        sc_events := sc_events s @ [SlotCompleted (slot_execute env t)]\<rparr>"
    by (auto simp: worker_turn_def split: option.splits list.splits)
  note tab = core_tables[OF inv]
  obtain res ses where run: "slot_run (env_engine env) (st_action t) = (res, ses)" by (cases "slot_run (env_engine env) (st_action t)")
  let ?c = "slot_execute env t"
  have c: "cp_id ?c = st_id t" "cp_result ?c = res" "cp_session ?c = ses" by (simp_all add: slot_execute_def run)
  have noshut: "st_action t \<noteq> SlotShutdown" using core_slot_inv[OF inv sw(1)] sw(2) by (simp add: slot_inv_def)
  note fin = slot_run_final[OF noshut run]
  have tc: "tcount P s' + (if P t then 1 else 0) = tcount P s" for P
    using hm_sum_put_old[OF tab(2) sw(1), of "\<lambda>sw. length (filter P (sw_queue sw))" "sw\<lparr>sw_queue := rest\<rparr>"] sw(2)
    by (simp add: tcount_def s' split: if_splits)
  have out: "outstanding i s' = outstanding i s" for i
    using tc[of "\<lambda>t. st_id t = i"] by (simp add: outstanding_def c) (simp add: s' c split: if_splits)
  have unf: "unfinished i s' \<le> unfinished i s" for i
    using tc[of "\<lambda>t. st_id t = i \<and> \<not> is_finish (st_action t)"] fin
    by (simp add: unfinished_def) (auto simp add: s' c split: if_splits)
  have q: "queued i s' = queued i s" "cmds i (sc_events s') = cmds i (sc_events s)" for i by (simp_all add: queued_def s')
  have idk: "id_inv cl fin s' i" for i
  proof -
    have "client_inv (sc_shutting_down s) i (map_of cl i) (i \<notin> set fin) (map_of (sc_jobs s) i) (queued i s) (unfinished i s')
       (cmds i (sc_events s)) (sent_to i (sc_sent s)) (map_of (sc_inboxes s) i)"
    proof -
      have ci: "client_inv (sc_shutting_down s) i (map_of cl i) (i \<notin> set fin) (map_of (sc_jobs s) i) (queued i s) (unfinished i s)
         (cmds i (sc_events s)) (sent_to i (sc_sent s)) (map_of (sc_inboxes s) i)" using core_jobs[OF inv, of i] by (simp add: id_inv_def)
      have "unfinished i s = 0 \<longrightarrow> unfinished i s' = 0" using unf[of i] by simp
      with ci show ?thesis unfolding client_inv_def by blast
    qed
    with core_jobs[OF inv, of i] show ?thesis unfolding id_inv_def out q by (simp add: s')
  qed
  have slots: "slot_inv (sc_jobs s') k' w" if "map_of (sc_slots s') k' = Some w" for k' w
  proof (cases "k' = k")
    case True
    with that have "w = sw\<lparr>sw_queue := rest\<rparr>" by (simp add: s')
    with core_slot_inv[OF inv sw(1)] sw(2) True show ?thesis by (simp add: slot_inv_def s')
  next
    case False
    with that core_slot_inv[OF inv, of k' w] show ?thesis by (simp add: s')
  qed
  have busy: "slot_busy s' = slot_busy s" using sw(1) by (simp add: fun_eq_iff slot_busy_def s')
  have ok: "completion_ok (SlotCompleted ?c)" using fin by (auto simp: completion_ok_def c)
  have "parked_ids s' = parked_ids s" unfolding parked_ids_def q by (simp add: s')
  with inv st idk slots busy ok show ?thesis
    unfolding core_def tables_inv_def settled_def by (auto simp: s')
qed

lemma shutdown_command_inv:
  assumes inv: "core cl fin s" and st: "settled s" and step: "send_command Shutdown s = Some s'"
  shows "core cl fin s' \<and> settled s'"
proof (rule client_update[OF inv st, of "sc_next_id s"])
  from step have s': "s' = s\<lparr>sc_events := sc_events s @ [Client Shutdown]\<rparr>" by (auto simp: send_command_def split: if_splits)
  have same: "same k s s'" for k by (rule sameI) (simp_all add: s' tcount_def)
  then show "k \<noteq> sc_next_id s \<Longrightarrow> same k s s' \<and> map_of cl k = map_of cl k \<and> (k \<in> set fin \<longleftrightarrow> k \<in> set fin)" for k by simp
  show "id_inv cl fin s' (sc_next_id s)" by (rule id_inv_same[OF same core_jobs[OF inv]])
qed (use step core_tables[OF inv] in \<open>auto simp: send_command_def split: if_splits\<close>)

lemma controls_inv:
  assumes inv: "core cl fin s" and st: "settled s"
  shows "core cl fin (s\<lparr>sc_controls := m\<rparr>) \<and> settled (s\<lparr>sc_controls := m\<rparr>)" (is "core cl fin ?s' \<and> _")
proof (rule client_update[OF inv st, of "sc_next_id s"])
  have same: "same k s ?s'" for k by (rule sameI) (simp_all add: tcount_def)
  then show "k \<noteq> sc_next_id s \<Longrightarrow> same k s ?s' \<and> map_of cl k = map_of cl k \<and> (k \<in> set fin \<longleftrightarrow> k \<in> set fin)" for k by simp
  show "id_inv cl fin ?s' (sc_next_id s)" by (rule id_inv_same[OF same core_jobs[OF inv]])
qed (use core_tables[OF inv] in auto)

lemma diagnostics_inv:
  assumes inv: "core cl fin s" and st: "settled s" and step: "diag_write (sc_diagnostics s) = Some (r, d)"
  shows "core cl fin (s\<lparr>sc_diagnostics := d\<rparr>) \<and> settled (s\<lparr>sc_diagnostics := d\<rparr>)" (is "core cl fin ?s' \<and> _")
proof -
  have same: "same k s ?s'" for k by (rule sameI) (simp_all add: tcount_def)
  have "id_inv cl fin ?s' k" for k by (rule id_inv_same[OF same core_jobs[OF inv]])
  moreover have "parked_ids ?s' = parked_ids s" by (simp add: parked_ids_def queued_def)
  moreover have "diag_ok d" using write_ok[OF core_tables(6)[OF inv] step] .
  ultimately show ?thesis using inv st by (simp add: core_def tables_inv_def settled_def slot_busy_def)
qed

section \<open>After the scheduler thread has returned\<close>

lemma ended_client_step: "ended cl s \<Longrightarrow> client_step_send c s = (c', s', r) \<Longrightarrow> s' = s"
  by (auto simp: ended_def client_step_send_def send_command_def split: if_splits)

lemma ended_finish: "ended cl s \<Longrightarrow> client_finish_send c s = (c', s', r) \<Longrightarrow> s' = s"
  by (auto simp: ended_def client_finish_send_def send_command_def)

lemma ended_inboxes: "ended cl s \<Longrightarrow> ended cl' (s\<lparr>sc_inboxes := m\<rparr>)"
  by (simp add: ended_def)

lemma ended_receive: "ended cl s \<Longrightarrow> client_receive c s = Some (c', s', r) \<Longrightarrow> ended cl' s'"
  by (auto simp: client_receive_def Let_def ended_def split: option.splits list.splits if_splits ClientMessage.splits)

lemma ended_drop: "ended cl s \<Longrightarrow> ended cl' (client_drop c s)"
  by (auto simp: client_drop_def Let_def ended_def send_command_def)

lemma start_session_returned:
  assumes "sc_returned s"
  shows "start_session u v request s = (case request_check (er_control request) s of
       Err e \<Rightarrow> (s, Err e) | Abort \<Rightarrow> (s, Abort)
     | Ok _ \<Rightarrow> (case checked_add (sc_next_id s) 1 of
         None \<Rightarrow> (s, Err (StateError ''scheduler session id space exhausted''))
       | Some n \<Rightarrow> (s\<lparr>sc_next_id := n\<rparr>, Err ShuttingDown)))"
  using assms unfolding start_session_def send_command_def Let_def by (simp split: outcome.split option.split)

lemma ended_start: "ended cl s \<Longrightarrow> start_session u v request s = (s', r) \<Longrightarrow> ended cl' s' \<and> (\<forall>c. r \<noteq> Ok c)"
proof -
  assume e: "ended cl s" and step: "start_session u v request s = (s', r)"
  then have ret: "sc_returned s" by (simp add: ended_def)
  have "s' = s \<or> (s' = s\<lparr>sc_next_id := Suc (sc_next_id s)\<rparr> \<and> Suc (sc_next_id s) \<le> u64_max)"
    and err: "\<forall>c. r \<noteq> Ok c"
    using step unfolding start_session_returned[OF ret]
    by (auto simp: checked_add_Some_iff split: outcome.splits option.splits)
  then consider "s' = s" | "s' = s\<lparr>sc_next_id := Suc (sc_next_id s)\<rparr>" "Suc (sc_next_id s) \<le> u64_max" by blast
  then have "ended cl' s'"
  proof cases
    case 2
    have "sent_to (sc_next_id s) (sc_sent s) = [] \<and> cmds (sc_next_id s) (sc_events s) = []" using e by (simp add: ended_def)
    with e 2 show ?thesis by (auto simp: ended_def less_Suc_eq stream_inv_def is_submit_def)
  qed (use e in \<open>simp add: ended_def\<close>)
  with err show ?thesis by simp
qed

section \<open>Reachable states\<close>

definition sys_inv :: "System \<Rightarrow> bool" where
  "sys_inv y \<longleftrightarrow> system_inv (sy_clients y) (sy_finishing y) (sy_scheduler y)"

lemma sys_init_inv: "sys_init y \<Longrightarrow> sys_inv y"
proof -
  assume "sys_init y"
  then obtain policy where new: "scheduler_new policy = Ok (sy_scheduler y)" and none: "sy_clients y = []" "sy_finishing y = []"
    by (auto simp: sys_init_def)
  from new have "\<exists>p. sy_scheduler y = scheduler_init p"
    by (cases "policy_validate policy") (simp_all add: scheduler_new_def, metis)
  then obtain p where "sy_scheduler y = scheduler_init p" ..
  moreover have "core [] [] (scheduler_init p)"
    by (simp add: core_def tables_inv_def id_inv_def scheduler_init_def counters_default_def closed_total_def new_ok parked_ids_def
        parked_def job_inv_def queued_def outstanding_def tcount_def fp_new_def cmds_inv_def is_submit_def acks_def
        client_inv_def fresh_inv_def u64_max_def)
  moreover have "settled (scheduler_init p)"
    by (simp add: settled_def scheduler_init_def fp_new_def counters_default_def)
  ultimately show ?thesis using none by (simp add: sys_inv_def system_inv_def scheduler_init_def)
qed

lemma system_inv_running: "core cl fin s \<and> settled s \<Longrightarrow> system_inv cl fin s"
  by (simp add: system_inv_def core_def)

lemma start_refused_same:
  "core cl fin s \<Longrightarrow> start_session u v request s = (s', Err e) \<Longrightarrow> s' = s"
  by (cases "request_check (er_control request) s"; cases "checked_add (sc_next_id s) 1";
      simp add: start_session_def send_command_def Let_def core_def)

lemma sys_step_inv: "sys_step y y' \<Longrightarrow> sys_inv y \<Longrightarrow> sys_inv y'"
proof (induction rule: sys_step.induct)
  case (sys_controls y m)
  then show ?case using controls_inv by (auto simp: sys_inv_def system_inv_def core_def ended_def split: if_splits)
next
  case (sys_start_refused u v request y s' e)
  show ?case
  proof (cases "sc_returned (sy_scheduler y)")
    case True
    with sys_start_refused ended_start[of "sy_clients y" "sy_scheduler y" u v request s' "Err e" "sy_clients y"] show ?thesis
      by (auto simp: sys_inv_def system_inv_def ended_def)
  next
    case False
    with sys_start_refused start_refused_same[of "sy_clients y" "sy_finishing y" "sy_scheduler y" u v request s' e] show ?thesis
      by (simp add: sys_inv_def system_inv_def)
  qed
next
  case (sys_start u v request y s' c)
  show ?case
  proof (cases "sc_returned (sy_scheduler y)")
    case True
    with sys_start ended_start[of "sy_clients y" "sy_scheduler y" u v request s' "Ok c" "sy_clients y"] show ?thesis
      by (auto simp: sys_inv_def system_inv_def)
  next
    case False
    with sys_start have "core (sy_clients y) (sy_finishing y) (sy_scheduler y)" "settled (sy_scheduler y)"
      by (simp_all add: sys_inv_def system_inv_def)
    from system_inv_running[OF start_inv[OF this sys_start(1)]] show ?thesis by (simp add: sys_inv_def)
  qed
next
  case (sys_client_step y i c c' s' r)
  show ?case
  proof (cases "sc_returned (sy_scheduler y)")
    case True
    with sys_client_step ended_client_step[of "sy_clients y" "sy_scheduler y" c c' s' r] show ?thesis
      by (auto simp: sys_inv_def system_inv_def ended_def)
  next
    case False
    with sys_client_step have "core (sy_clients y) (sy_finishing y) (sy_scheduler y)" "settled (sy_scheduler y)"
      by (simp_all add: sys_inv_def system_inv_def)
    from system_inv_running[OF step_send_inv[OF this sys_client_step(1,2,4)]] show ?thesis by (simp add: sys_inv_def)
  qed
next
  case (sys_client_receive y i c c' s' r)
  show ?case
  proof (cases "sc_returned (sy_scheduler y)")
    case True
    with sys_client_receive ended_receive[of "sy_clients y" "sy_scheduler y" c c' s' r] show ?thesis
      by (auto simp: sys_inv_def system_inv_def ended_def)
  next
    case False
    with sys_client_receive have "core (sy_clients y) (sy_finishing y) (sy_scheduler y)" "settled (sy_scheduler y)"
      by (simp_all add: sys_inv_def system_inv_def)
    from system_inv_running[OF receive_inv[OF this sys_client_receive(1,2) _ sys_client_receive(4)]] sys_client_receive(3)
    show ?thesis by (simp add: sys_inv_def)
  qed
next
  case (sys_client_finish y i c c' s' r)
  show ?case
  proof (cases "sc_returned (sy_scheduler y)")
    case True
    with sys_client_finish ended_finish[of "sy_clients y" "sy_scheduler y" c c' s' r] show ?thesis
      by (auto simp: sys_inv_def system_inv_def ended_def)
  next
    case False
    with sys_client_finish have "core (sy_clients y) (sy_finishing y) (sy_scheduler y)" "settled (sy_scheduler y)"
      by (simp_all add: sys_inv_def system_inv_def)
    from system_inv_running[OF finish_send_inv[OF this sys_client_finish(1,2,4)]] show ?thesis by (simp add: sys_inv_def)
  qed
next
  case (sys_client_drop y i c)
  show ?case
  proof (cases "sc_returned (sy_scheduler y)")
    case True
    with sys_client_drop ended_drop[of "sy_clients y" "sy_scheduler y" "hm_del i (sy_clients y)" c] show ?thesis
      by (auto simp: sys_inv_def system_inv_def ended_def)
  next
    case False
    with sys_client_drop have "core (sy_clients y) (sy_finishing y) (sy_scheduler y)" "settled (sy_scheduler y)"
      by (simp_all add: sys_inv_def system_inv_def)
    from system_inv_running[OF drop_inv[OF this sys_client_drop(1)]] show ?thesis by (simp add: sys_inv_def)
  qed
next
  case (sys_shutdown y s')
  then have "\<not> sc_returned (sy_scheduler y)" by (auto simp: send_command_def split: if_splits)
  with sys_shutdown have "core (sy_clients y) (sy_finishing y) (sy_scheduler y)" "settled (sy_scheduler y)"
    by (simp_all add: sys_inv_def system_inv_def)
  from system_inv_running[OF shutdown_command_inv[OF this sys_shutdown(1)]] show ?case by (simp add: sys_inv_def)
next
  case (sys_worker env k y s')
  have "\<not> sc_returned (sy_scheduler y)"
    using sys_worker by (auto simp: sys_inv_def system_inv_def ended_def worker_turn_def)
  with sys_worker have "core (sy_clients y) (sy_finishing y) (sy_scheduler y)" "settled (sy_scheduler y)"
    by (simp_all add: sys_inv_def system_inv_def)
  from system_inv_running[OF worker_inv[OF this sys_worker(1)]] show ?case by (simp add: sys_inv_def)
next
  case (sys_scheduler y ev evs env s')
  then have "core (sy_clients y) (sy_finishing y) (sy_scheduler y)" by (simp add: sys_inv_def system_inv_def)
  from scheduler_turn_inv[OF this sys_scheduler(2), of env] sys_scheduler(3) show ?case by (auto simp: sys_inv_def)
next
  case (sys_diagnostics y r d)
  show ?case
  proof (cases "sc_returned (sy_scheduler y)")
    case True
    with sys_diagnostics write_ok[of "sc_diagnostics (sy_scheduler y)" r d] show ?thesis
      by (auto simp: sys_inv_def system_inv_def ended_def)
  next
    case False
    with sys_diagnostics have "core (sy_clients y) (sy_finishing y) (sy_scheduler y)" "settled (sy_scheduler y)"
      by (simp_all add: sys_inv_def system_inv_def)
    from system_inv_running[OF diagnostics_inv[OF this sys_diagnostics(1)]] show ?thesis by (simp add: sys_inv_def)
  qed
qed

interpretation scheduler_system: safe_machine sys_init sys_step sys_inv
  by unfold_locales (rule sys_init_inv, assumption, rule sys_step_inv)

lemma sys_reach_inv: "sys_reach y \<Longrightarrow> sys_inv y"
  unfolding sys_reach_def by (rule scheduler_system.reach_inv)

end
