(* ===== verification/Scheduler_Props.thy ===== *)
theory Scheduler_Props
  imports Scheduler_System
begin

text \<open>
  What the scheduler system guarantees in every reachable state: the messages of a session,
  the ownership of its quanta, the counters, the absence of panics and of stalls.
\<close>

section \<open>Messages are only ever added\<close>

definition grows :: "Scheduler \<Rightarrow> Scheduler \<Rightarrow> bool" where
  "grows s s' \<longleftrightarrow> (\<exists>x. sc_sent s' = sc_sent s @ x)"

lemma grows_same: "sc_sent s' = sc_sent s \<Longrightarrow> grows s s'"
  by (simp add: grows_def)

lemma grows_trans: "grows s t \<Longrightarrow> grows t u \<Longrightarrow> grows s u"
  by (auto simp: grows_def)

lemma submit_task_sent: "submit_task env k t s = (s', r) \<Longrightarrow> sc_sent s' = sc_sent s \<and> sc_jobs s' = sc_jobs s"
  by (auto simp: submit_task_def ensure_slot_def slot_send_def and_then_def split: option.splits if_splits)

lemma dispatch_one_grows: "dispatch_one env s = Some (s', b) \<Longrightarrow> grows s s'"
  by (auto simp: dispatch_one_def Let_def grows_def dest!: submit_task_sent split: prod.splits option.splits outcome.splits)

lemma dispatch_all_grows: "dispatch_all env s = Some s' \<Longrightarrow> grows s s'"
proof (induction env s rule: dispatch_all.induct)
  case (1 env s)
  then show ?case
    by (auto simp: dispatch_all.simps[of env s] intro: grows_trans dest!: dispatch_one_grows split: option.splits prod.splits if_splits)
qed

lemma judge_grows: "judge i j r s = (s2, ob, v, w) \<Longrightarrow> grows s s2"
  by (cases rule: judge_cases, assumption) (auto simp: grows_def)

lemma handle_completion_grows: "grows s (handle_completion env c s)"
proof (cases "map_of (sc_jobs s) (cp_id c)")
  case None
  then show ?thesis by (simp add: handle_completion_def Let_def grows_same)
next
  case (Some j)
  have r: "sc_sent (received c j s) = sc_sent s" by (simp add: received_def Let_def)
  obtain s2 ob v w where jd: "judge (cp_id c) (completed_job c j) (cp_result c) (received c j s) = (s2, ob, v, w)"
    by (cases "judge (cp_id c) (completed_job c j) (cp_result c) (received c j s)")
  from judge_grows[OF jd] r show ?thesis
    unfolding handle_completion_unfold[OF Some] jd
    by (auto simp: Let_def grows_def finish_job_def split: option.split)
qed

lemma handle_event_grows: "handle_event env ev s = Some s' \<Longrightarrow> grows s s'"
proof (cases ev)
  case (SlotCompleted c)
  moreover assume "handle_event env ev s = Some s'"
  ultimately show ?thesis using handle_completion_grows by (auto simp: handle_event_def)
next
  case (Client c)
  moreover assume "handle_event env ev s = Some s'"
  moreover have "grows s (stop_job env i s)" for i
    by (auto simp: stop_job_def Let_def grows_def dest!: submit_task_sent split: option.splits prod.splits outcome.splits)
  moreover have "grows s (cancel_job i s)" for i
    by (auto simp: cancel_job_def Let_def grows_def split: option.splits prod.splits)
  ultimately show ?thesis
    by (cases c) (auto simp: handle_event_def handle_command_def submit_job_def continue_job_def begin_shutdown_def Let_def
      cancel_controls_frame grows_def split: if_splits option.splits)
qed

lemma turn_grows: "scheduler_turn env ev s = Some s' \<Longrightarrow> grows s s'"
proof -
  assume "scheduler_turn env ev s = Some s'"
  then obtain s1 s2 where 1: "handle_event env ev s = Some s1" "dispatch_all env s1 = Some s2"
    and s': "s' = return_if_drained env (s2\<lparr>sc_counters := (sc_counters s2)\<lparr>ct_runnable := length (fp_runnable (sc_policy s2))\<rparr>\<rparr>)"
    by (auto simp: scheduler_turn_def settle_def split: option.splits)
  have "grows t (return_if_drained env t)" for t
    by (auto simp: return_if_drained_def shutdown_slots_def cancel_all_jobs_def cancel_all_frame[unfolded cancel_one_def] grows_def)
  from this[of "s2\<lparr>sc_counters := (sc_counters s2)\<lparr>ct_runnable := length (fp_runnable (sc_policy s2))\<rparr>\<rparr>"]
  have "grows s2 s'" unfolding s' by (simp add: grows_def)
  with 1 handle_event_grows dispatch_all_grows grows_trans show ?thesis by blast
qed

lemma sys_step_grows: "sys_step y y' \<Longrightarrow> grows (sy_scheduler y) (sy_scheduler y')"
proof (induction rule: sys_step.induct)
  case (sys_scheduler y ev evs env s')
  from turn_grows[OF sys_scheduler(3)] show ?case by (simp add: grows_def)
qed (auto simp: grows_def start_session_def client_step_send_def client_finish_send_def client_receive_def client_drop_def
      send_command_def worker_turn_def Let_def split: if_splits option.splits list.splits outcome.splits ClientMessage.splits)

lemma sys_steps_grow: "sys_step\<^sup>*\<^sup>* y y' \<Longrightarrow> grows (sy_scheduler y) (sy_scheduler y')"
  by (induction rule: rtranclp_induct) (auto intro: grows_trans sys_step_grows grows_same)

section \<open>A run\<close>

text \<open>One session on a small engine: prepare, one token, stop.\<close>

definition demo_request :: EngineRequest where
  "demo_request = \<lparr>er_model = \<lparr>mr_id = ''m'', mr_revision = ''r'', mr_path = ''p'', mr_sha256 = ''h'', mr_aliases = [],
       mr_family = ''f'', mr_size_bytes = 1, mr_epoch = 1\<rparr>,
     er_prompt = ''hi'', er_max_tokens = 4, er_prior_tokens = [], er_sampling = \<lparr>sp_temperature = 0, sp_top_p = 0, sp_seed = 0\<rparr>,
     er_grammar = None, er_control = 0,
     er_scheduling = \<lparr>sm_class = Interactive, sm_source = AdapterDefault, sm_principal = ''a'', sm_correlation_id = ''x'', sm_inference_id = ''y''\<rparr>,
     er_prefill_chunk_tokens = 1\<rparr>"

definition demo_output :: EngineOutput where
  "demo_output = \<lparr>eo_successor_tokens = [7], eo_input_tokens = 1, eo_cached_tokens = 0, eo_evaluated_tokens = 1,
     eo_prefill = \<lparr>pf_total_tokens = 1, pf_cached_tokens = 0, pf_uncached_tokens = 1, pf_tokenization_ns = 0, pf_prefix_lookup_ns = 0,
       pf_mapping_activation_ns = 0, pf_uncached_prefill_ns = 0, pf_total_ns = 0, pf_transfer_bytes = 0, pf_device_bytes = 0,
       pf_host_bytes = 0\<rparr>\<rparr>"

definition demo_env :: Env where
  "demo_env = \<lparr>env_now = 5, env_uuid = ''u'', env_spawn_error = (\<lambda>_. None), env_encodes = (\<lambda>_. True), env_connected = True,
     env_engine = \<lparr>en_start = (\<lambda>_. Ok 9), en_step = (\<lambda>_. Ok (TokenStep 7 [] False (model_free Decode 1))),
       en_finish = (\<lambda>_. Ok demo_output)\<rparr>, env_duration = 1\<rparr>"

definition demo_key :: ModelSlotKey where
  "demo_key = \<lparr>sk_model_id = ''m'', sk_model_epoch = 1\<rparr>"

datatype demo_step = DTurn | DWork | DStart | DAck nat | DRead nat | DFinish nat | DDrop nat

fun demo_next :: "demo_step \<Rightarrow> System \<Rightarrow> System option" where
  "demo_next DTurn y = (if sc_returned (sy_scheduler y) then None else (case sc_events (sy_scheduler y) of [] \<Rightarrow> None
     | ev # evs \<Rightarrow> map_option (\<lambda>s. y\<lparr>sy_scheduler := s\<rparr>)
         (scheduler_turn demo_env ev ((sy_scheduler y)\<lparr>sc_events := evs\<rparr>))))"
| "demo_next DWork y = map_option (\<lambda>s. y\<lparr>sy_scheduler := s\<rparr>) (worker_turn demo_env demo_key (sy_scheduler y))"
| "demo_next DStart y = (case start_session ''u'' ''v'' demo_request (sy_scheduler y) of
     (s, Ok c) \<Rightarrow> Some (y\<lparr>sy_scheduler := s, sy_clients := hm_put (cs_id c) c (sy_clients y)\<rparr>) | _ \<Rightarrow> None)"
| "demo_next (DAck i) y = (case map_of (sy_clients y) i of None \<Rightarrow> None
     | Some c \<Rightarrow> if cs_finished c \<noteq> None \<or> i \<in> set (sy_finishing y) then None
         else (case client_step_send c (sy_scheduler y) of (c', s, r) \<Rightarrow>
           Some (y\<lparr>sy_scheduler := s, sy_clients := hm_put i c' (sy_clients y)\<rparr>)))"
| "demo_next (DRead i) y = (case map_of (sy_clients y) i of None \<Rightarrow> None
     | Some c \<Rightarrow> if cs_finished c \<noteq> None \<or> cs_waiting_ack c then None
         else (case client_receive c (sy_scheduler y) of None \<Rightarrow> None
           | Some (c', s, r) \<Rightarrow> Some (y\<lparr>sy_scheduler := s, sy_clients := hm_put i c' (sy_clients y)\<rparr>)))"
| "demo_next (DFinish i) y = (case map_of (sy_clients y) i of None \<Rightarrow> None
     | Some c \<Rightarrow> if cs_finished c \<noteq> None \<or> i \<in> set (sy_finishing y) then None
         else (case client_finish_send c (sy_scheduler y) of (c', s, r) \<Rightarrow>
           Some (y\<lparr>sy_scheduler := s, sy_clients := hm_put i c' (sy_clients y), sy_finishing := i # sy_finishing y\<rparr>)))"
| "demo_next (DDrop i) y = (case map_of (sy_clients y) i of None \<Rightarrow> None
     | Some c \<Rightarrow> Some (y\<lparr>sy_scheduler := client_drop c (sy_scheduler y), sy_clients := hm_del i (sy_clients y)\<rparr>))"

lemma demo_next_step: "demo_next d y = Some y' \<Longrightarrow> sys_step y y'"
proof (cases d)
  case DTurn
  moreover assume "demo_next d y = Some y'"
  ultimately show ?thesis by (auto split: if_splits list.splits intro: sys_step.sys_scheduler)
next
  case DWork
  moreover assume "demo_next d y = Some y'"
  ultimately show ?thesis by (auto intro: sys_step.sys_worker)
next
  case DStart
  moreover assume "demo_next d y = Some y'"
  ultimately show ?thesis by (auto split: prod.splits outcome.splits intro: sys_step.sys_start)
next
  case (DAck i)
  moreover assume "demo_next d y = Some y'"
  ultimately show ?thesis by (auto split: option.splits if_splits prod.splits intro: sys_step.sys_client_step)
next
  case (DRead i)
  moreover assume "demo_next d y = Some y'"
  ultimately show ?thesis by (auto split: option.splits if_splits prod.splits intro: sys_step.sys_client_receive)
next
  case (DFinish i)
  moreover assume "demo_next d y = Some y'"
  ultimately show ?thesis by (auto split: option.splits if_splits prod.splits intro: sys_step.sys_client_finish)
next
  case (DDrop i)
  moreover assume "demo_next d y = Some y'"
  ultimately show ?thesis by (auto split: option.splits intro: sys_step.sys_client_drop)
qed

fun demo_run :: "demo_step list \<Rightarrow> System \<Rightarrow> System option" where
  "demo_run [] y = Some y"
| "demo_run (d # ds) y = (case demo_next d y of None \<Rightarrow> None | Some y' \<Rightarrow> demo_run ds y')"

lemma demo_run_steps: "demo_run ds y = Some y' \<Longrightarrow> sys_step\<^sup>*\<^sup>* y y'"
  by (induction ds arbitrary: y) (auto split: option.splits intro: converse_rtranclp_into_rtranclp demo_next_step)

definition demo_start :: System where
  "demo_start = \<lparr>sy_scheduler = scheduler_init default_policy, sy_clients = [], sy_finishing = []\<rparr>"

lemma demo_start_init: "sys_init demo_start"
  by (auto simp: sys_init_def demo_start_def scheduler_new_def policy_validate_def default_policy_def intro!: exI[of _ default_policy])

lemma reach_steps: "sys_step\<^sup>*\<^sup>* y y' \<Longrightarrow> sys_reach y \<Longrightarrow> sys_reach y'"
  by (induction rule: rtranclp_induct) (auto simp: sys_reach_def intro: reach_step)

lemma demo_reach: "demo_run ds demo_start = Some y \<Longrightarrow> sys_reach y"
  using reach_steps demo_run_steps demo_start_init unfolding sys_reach_def by (metis reach_init)

text \<open>The run up to the token waiting in the client's channel, and to the end.\<close>

definition demo_parked :: System where
  "demo_parked = the (demo_run [DStart, DTurn, DWork, DTurn, DWork, DTurn] demo_start)"

definition demo_done :: System where
  "demo_done = the (demo_run [DRead 0, DFinish 0, DTurn, DWork, DTurn] demo_parked)"

lemma demo_parked_run: "demo_run [DStart, DTurn, DWork, DTurn, DWork, DTurn] demo_start = Some demo_parked"
proof -
  have "demo_run [DStart, DTurn, DWork, DTurn, DWork, DTurn] demo_start \<noteq> None" by code_simp
  then show ?thesis by (auto simp: demo_parked_def)
qed

lemma demo_done_run: "demo_run [DRead 0, DFinish 0, DTurn, DWork, DTurn] demo_parked = Some demo_done"
proof -
  have "demo_run [DRead 0, DFinish 0, DTurn, DWork, DTurn] demo_parked \<noteq> None" by code_simp
  then show ?thesis by (auto simp: demo_done_def)
qed

lemma demo_parked_reach: "sys_reach demo_parked" and demo_done_reach: "sys_reach demo_done"
proof -
  show "sys_reach demo_parked" by (rule demo_reach[OF demo_parked_run])
  with reach_steps[OF demo_run_steps[OF demo_done_run]] show "sys_reach demo_done" .
qed

section \<open>Messages\<close>

lemma running_core: "sys_reach y \<Longrightarrow> \<not> sc_returned (sy_scheduler y) \<Longrightarrow>
    core (sy_clients y) (sy_finishing y) (sy_scheduler y) \<and> settled (sy_scheduler y)"
  using sys_reach_inv[of y] by (simp add: sys_inv_def system_inv_def)

lemma reach_stream:
  assumes "sys_reach y" and "i < sc_next_id (sy_scheduler y)"
  shows "stream_inv (sc_returned (sy_scheduler y)) i (map_of (sc_jobs (sy_scheduler y)) i) (cmds i (sc_events (sy_scheduler y)))
     (sent_to i (sc_sent (sy_scheduler y)))"
  using sys_reach_inv[OF assms(1)] assms(2) core_jobs[of "sy_clients y" "sy_finishing y" "sy_scheduler y" i]
  by (auto simp: sys_inv_def system_inv_def ended_def id_inv_def split: if_splits)

text \<open>C17: Every session that was ever started is sent tokens and then exactly one final message. While the
  scheduler still owes it an answer (its job exists, or its submission is on its way) only tokens have been
  sent; afterwards the messages are tokens followed by one result or error. A session is left without an
  answer only when the scheduler thread has returned without having seen it.\<close>

theorem scheduler_streams:
  assumes "sys_reach y" and "i < sc_next_id (sy_scheduler y)"
  shows "let ms = sent_to i (sc_sent (sy_scheduler y)) in
     if sender_alive i (sy_scheduler y) then list_all is_token ms
     else (\<exists>ts m. ms = ts @ [m] \<and> list_all is_token ts \<and> \<not> is_token m) \<or> (sc_returned (sy_scheduler y) \<and> ms = [])"
  using reach_stream[OF assms]
  by (auto simp: Let_def stream_inv_def sender_alive_def hm_has_def is_submit_def cmds_submitted split: if_splits)

theorem scheduler_streams_witness:
  "\<exists>ts m. sent_to 0 (sc_sent (sy_scheduler demo_done)) = ts @ [m] \<and> list_all is_token ts \<and> \<not> is_token m"
proof -
  have "0 < sc_next_id (sy_scheduler demo_done)" "\<not> sender_alive 0 (sy_scheduler demo_done)" "\<not> sc_returned (sy_scheduler demo_done)"
    by code_simp+
  with scheduler_streams[OF demo_done_reach, of 0] show ?thesis by (simp add: Let_def)
qed

text \<open>The final message is final: once a session has been sent its result or error, nothing more is ever sent to
  it, whatever the clients, the workers and the scheduler do afterwards. Session ids are never reused.\<close>

theorem scheduler_final_message:
  assumes "sys_reach y" and "sys_step\<^sup>*\<^sup>* y y'" and "i < sc_next_id (sy_scheduler y)"
    and "sent_to i (sc_sent (sy_scheduler y)) = ts @ [m]" and "\<not> is_token m"
  shows "sent_to i (sc_sent (sy_scheduler y')) = ts @ [m]"
proof -
  obtain x where x: "sent_to i (sc_sent (sy_scheduler y')) = ts @ [m] @ x"
    using sys_steps_grow[OF assms(2)] assms(4) by (auto simp: grows_def)
  have ne: "sent_to i (sc_sent (sy_scheduler y')) \<noteq> []" using x by simp
  have "i < sc_next_id (sy_scheduler y')"
  proof (rule ccontr)
    assume "\<not> i < sc_next_id (sy_scheduler y')"
    with sys_reach_inv[OF reach_steps[OF assms(2,1)]] core_jobs[of "sy_clients y'" "sy_finishing y'" "sy_scheduler y'" i]
    have "sent_to i (sc_sent (sy_scheduler y')) = []"
      by (auto simp: sys_inv_def system_inv_def ended_def id_inv_def fresh_inv_def split: if_splits)
    with ne show False by simp
  qed
  from reach_stream[OF reach_steps[OF assms(2,1)] this] x assms(5)
  obtain ts' m' where "ts @ [m] @ x = ts' @ [m']" "list_all is_token ts'"
    by (auto simp: stream_inv_def split: if_splits)
  with assms(5) have "x = []" by (cases x rule: rev_cases) (auto simp flip: append_assoc)
  with x show ?thesis by simp
qed

theorem scheduler_final_message_witness:
  "sent_to 0 (sc_sent (client_drop \<lparr>cs_id = 0, cs_control = 0, cs_waiting_ack = False, cs_finished = None\<rparr> (sy_scheduler demo_done)))
     = [ClientToken 7 [] False, ClientFinished demo_output]"
proof -
  let ?c = "\<lparr>cs_id = 0, cs_control = 0, cs_waiting_ack = False, cs_finished = None\<rparr>"
  have c: "map_of (sy_clients demo_done) 0 = Some ?c" "0 < sc_next_id (sy_scheduler demo_done)"
    "sent_to 0 (sc_sent (sy_scheduler demo_done)) = [ClientToken 7 [] False] @ [ClientFinished demo_output]"
    by code_simp+
  have "sys_step\<^sup>*\<^sup>* demo_done (demo_done\<lparr>sy_scheduler := client_drop ?c (sy_scheduler demo_done), sy_clients := hm_del 0 (sy_clients demo_done)\<rparr>)"
    using sys_client_drop[OF c(1)] by blast
  from scheduler_final_message[OF demo_done_reach this c(2,3)] show ?thesis by simp
qed

section \<open>Quanta\<close>

text \<open>No quantum is lost or run twice. A job in flight has exactly one quantum outstanding, queued at its slot's
  worker or completed and not yet handled; a job that is not in flight has none, holds its request or its session but
  not both, and is queued at most once. Work for sessions that are over is never outstanding.\<close>

theorem scheduler_quanta_owned:
  assumes "sys_reach y" and "\<not> sc_returned (sy_scheduler y)"
  shows "case map_of (sc_jobs (sy_scheduler y)) i of
       None \<Rightarrow> outstanding i (sy_scheduler y) = 0 \<and> queued i (sy_scheduler y) = 0
     | Some j \<Rightarrow> if jb_in_flight j then outstanding i (sy_scheduler y) = 1 \<and> queued i (sy_scheduler y) = 0
                 \<and> jb_request j = None \<and> jb_session j = None
         else outstanding i (sy_scheduler y) = 0 \<and> queued i (sy_scheduler y) \<le> 1
                 \<and> ((jb_request j = None) \<noteq> (jb_session j = None))"
proof -
  have "id_inv (sy_clients y) (sy_finishing y) (sy_scheduler y) i"
    using running_core[OF assms] core_jobs by blast
  then show ?thesis by (auto simp: id_inv_def job_inv_def split: option.splits if_splits)
qed

theorem scheduler_quanta_owned_witness:
  "outstanding 0 (sy_scheduler demo_parked) = 0 \<and> queued 0 (sy_scheduler demo_parked) \<le> 1"
proof -
  have "\<not> sc_returned (sy_scheduler demo_parked)"
    "map_option jb_in_flight (map_of (sc_jobs (sy_scheduler demo_parked)) 0) = Some False" by code_simp+
  with scheduler_quanta_owned[OF demo_parked_reach, of 0] show ?thesis by (auto split: option.splits)
qed

text \<open>C19: The scheduler thread does not panic: in every reachable state in which it still runs, the event at the head
  of its channel is handled and the dispatch loop that follows ends.\<close>

theorem scheduler_no_panic:
  assumes "sys_reach y" and "\<not> sc_returned (sy_scheduler y)" and "sc_events (sy_scheduler y) = ev # evs"
  shows "\<exists>s'. scheduler_turn env ev ((sy_scheduler y)\<lparr>sc_events := evs\<rparr>) = Some s'"
  using scheduler_turn_inv[OF conjunct1[OF running_core[OF assms(1,2)]] assms(3), of env] by blast

theorem scheduler_no_panic_witness:
  "\<exists>s'. scheduler_turn demo_env (Client (Submit 0 (demo_request\<lparr>er_prefill_chunk_tokens := 32\<rparr>))) (fst (start_session ''u'' ''v'' demo_request (scheduler_init default_policy))
      \<lparr>sc_events := []\<rparr>) = Some s'"
proof -
  let ?y = "the (demo_run [DStart] demo_start)"
  have "demo_run [DStart] demo_start \<noteq> None" by code_simp
  then have r: "demo_run [DStart] demo_start = Some ?y" by auto
  have y: "sy_scheduler ?y = fst (start_session ''u'' ''v'' demo_request (scheduler_init default_policy))"
    "\<not> sc_returned (sy_scheduler ?y)" "sc_events (sy_scheduler ?y) = [Client (Submit 0 (demo_request\<lparr>er_prefill_chunk_tokens := 32\<rparr>))]"
    by code_simp+
  from scheduler_no_panic[OF demo_reach[OF r] y(2,3), of demo_env] show ?thesis by (simp only: y(1))
qed

text \<open>The scheduler is work conserving: between two events, a queued job has its slot occupied, an occupied slot
  has a job in flight, and while shutting down some slot is still occupied.\<close>

theorem scheduler_work_conserving:
  assumes "sys_reach y" and "\<not> sc_returned (sy_scheduler y)"
  shows "(\<forall>e\<in>set (fp_runnable (sc_policy (sy_scheduler y))). \<exists>j. map_of (sc_jobs (sy_scheduler y)) (pe_id e) = Some j
        \<and> \<not> jb_in_flight j \<and> slot_busy (sy_scheduler y) (jb_slot j))
   \<and> (\<forall>k. slot_busy (sy_scheduler y) k \<longrightarrow> (\<exists>i j. map_of (sc_jobs (sy_scheduler y)) i = Some j \<and> jb_slot j = k \<and> jb_in_flight j))
   \<and> (sc_shutting_down (sy_scheduler y) \<longrightarrow> (\<exists>k. slot_busy (sy_scheduler y) k))"
proof -
  let ?s = "sy_scheduler y"
  have c: "core (sy_clients y) (sy_finishing y) ?s" and st: "settled ?s" using running_core[OF assms] by simp_all
  have "\<exists>j. map_of (sc_jobs ?s) (pe_id e) = Some j \<and> \<not> jb_in_flight j \<and> slot_busy ?s (jb_slot j)"
    if e: "e \<in> set (fp_runnable (sc_policy ?s))" for e
  proof -
    have "0 < queued (pe_id e) ?s" using e by (auto simp: queued_def filter_empty_conv)
    with core_jobs[OF c, of "pe_id e"] st e show ?thesis
      by (auto simp: settled_def id_inv_def job_inv_def split: option.splits if_splits)
  qed
  moreover have "\<exists>i j. map_of (sc_jobs ?s) i = Some j \<and> jb_slot j = k \<and> jb_in_flight j" if "slot_busy ?s k" for k
    using that core_slot_inv[OF c, of k] by (auto simp: slot_busy_def slot_inv_def split: option.splits)
  ultimately show ?thesis using st by (auto simp: settled_def)
qed

definition demo_busy :: System where
  "demo_busy = the (demo_run [DStart, DTurn, DStart, DTurn] demo_start)"

theorem scheduler_work_conserving_witness:
  "\<exists>j. map_of (sc_jobs (sy_scheduler demo_busy)) 1 = Some j \<and> \<not> jb_in_flight j \<and> slot_busy (sy_scheduler demo_busy) (jb_slot j)"
proof -
  have "demo_run [DStart, DTurn, DStart, DTurn] demo_start \<noteq> None" by code_simp
  then have r: "demo_run [DStart, DTurn, DStart, DTurn] demo_start = Some demo_busy" by (auto simp: demo_busy_def)
  have q: "map pe_id (fp_runnable (sc_policy (sy_scheduler demo_busy))) = [1]" "\<not> sc_returned (sy_scheduler demo_busy)" by code_simp+
  then obtain e where "e \<in> set (fp_runnable (sc_policy (sy_scheduler demo_busy)))" "pe_id e = 1"
    by (cases "fp_runnable (sc_policy (sy_scheduler demo_busy))") auto
  with scheduler_work_conserving[OF demo_reach[OF r] q(2)] show ?thesis by metis
qed

lemma waiting_client:
  assumes ci: "client_inv False i co opn (Some j) 0 u [] ms bo"
    and j: "\<not> jb_cancel_requested j" "\<not> jb_in_flight j" "jb_session j \<noteq> None"
  shows "\<exists>c box. co = Some c \<and> opn \<and> bo = Some box \<and> (cs_waiting_ack c \<or> list_ex is_token box)"
proof -
  have pk: "parked (Some j) 0" using j by (simp add: parked_def)
  from ci j(1,2) have open1: "co \<noteq> None" "opn" by (simp_all add: client_inv_def)
  then obtain c where c: "co = Some c" by auto
  with ci open1 pk obtain box where box: "bo = Some box" "credit c box [] = 1" by (auto simp: client_inv_def)
  then have "cs_waiting_ack c \<or> filter is_token box \<noteq> []" by (cases "cs_waiting_ack c") (auto simp: credit_def)
  then have "cs_waiting_ack c \<or> list_ex is_token box" by (simp add: list_ex_iff filter_empty_conv)
  with c open1 box(1) show ?thesis by simp
qed

text \<open>C18: The system never gets stuck. When the scheduler thread waits with an empty channel and no worker has anything
  to do, then nothing but its consumers can be the reason: the scheduler is not shutting down, nothing is queued, and
  every job waits for a live client that still has to fetch its token or has to answer it.\<close>

theorem scheduler_never_stuck:
  assumes "sys_reach y" and "\<not> sc_returned (sy_scheduler y)" and "sc_events (sy_scheduler y) = []"
    and "\<forall>k sw. map_of (sc_slots (sy_scheduler y)) k = Some sw \<longrightarrow> sw_queue sw = []"
  shows "\<not> sc_shutting_down (sy_scheduler y) \<and> fp_runnable (sc_policy (sy_scheduler y)) = []
    \<and> (\<forall>i j. map_of (sc_jobs (sy_scheduler y)) i = Some j \<longrightarrow> (\<exists>c box. map_of (sy_clients y) i = Some c \<and> sy_open y i
         \<and> map_of (sc_inboxes (sy_scheduler y)) i = Some box \<and> (cs_waiting_ack c \<or> list_ex is_token box)))"
proof -
  let ?s = "sy_scheduler y"
  have c: "core (sy_clients y) (sy_finishing y) ?s" and st: "settled ?s" using running_core[OF assms(1,2)] by simp_all
  have none: "outstanding i ?s = 0" for i
  proof -
    have "length (filter P (sw_queue sw)) = 0" if "map_of (sc_slots ?s) k = Some sw" for k sw P
      using assms(4)[rule_format, OF that] by simp
    then have "tcount (\<lambda>t. st_id t = i) ?s = 0"
      unfolding tcount_def hm_sum_zero_iff[OF core_tables(2)[OF c]] by blast
    then show ?thesis by (simp add: outstanding_def assms(3))
  qed
  have idle: "\<not> jb_in_flight j" if "map_of (sc_jobs ?s) i = Some j" for i j
  proof -
    have "job_inv (sc_shutting_down ?s) (Some j) (queued i ?s) 0"
      using core_jobs[OF c, of i] that none[of i] by (simp add: id_inv_def)
    then show ?thesis by (auto simp: job_inv_def split: if_splits)
  qed
  have free: "\<not> slot_busy ?s k" for k
  proof
    assume "slot_busy ?s k"
    then obtain sw where "map_of (sc_slots ?s) k = Some sw" "sw_busy sw" by (auto simp: slot_busy_def split: option.splits)
    with core_slot_inv[OF c this(1)] obtain i j where "map_of (sc_jobs ?s) i = Some j" "jb_in_flight j" by (auto simp: slot_inv_def)
    with idle show False by blast
  qed
  with st have run: "\<not> sc_shutting_down ?s" by (simp add: settled_def)
  have empty: "fp_runnable (sc_policy ?s) = []"
  proof (rule ccontr)
    assume "fp_runnable (sc_policy ?s) \<noteq> []"
    then obtain e where "e \<in> set (fp_runnable (sc_policy ?s))" by (cases "fp_runnable (sc_policy ?s)") auto
    with st free show False by (auto simp: settled_def)
  qed
  have "\<exists>cc box. map_of (sy_clients y) i = Some cc \<and> sy_open y i
         \<and> map_of (sc_inboxes ?s) i = Some box \<and> (cs_waiting_ack cc \<or> list_ex is_token box)"
    if j: "map_of (sc_jobs ?s) i = Some j" for i j
  proof -
    have q: "queued i ?s = 0" using empty by (simp add: queued_def)
    have "job_inv False (Some j) 0 0" using core_jobs[OF c, of i] j run q none[of i] by (simp add: id_inv_def)
    with idle[OF j] have ses: "jb_session j \<noteq> None" "\<not> jb_cancel_requested j" by (auto simp: job_inv_def)
    have "client_inv False i (map_of (sy_clients y) i) (sy_open y i) (Some j) 0 (unfinished i ?s) []
        (sent_to i (sc_sent ?s)) (map_of (sc_inboxes ?s) i)"
      using core_jobs[OF c, of i] j run q by (simp add: id_inv_def assms(3))
    from waiting_client[OF this ses(2) idle[OF j] ses(1)] show ?thesis .
  qed
  then show ?thesis by (intro conjI allI impI) (rule run, rule empty)
qed

theorem scheduler_never_stuck_witness:
  "\<exists>c box. map_of (sy_clients demo_parked) 0 = Some c \<and> map_of (sc_inboxes (sy_scheduler demo_parked)) 0 = Some box
     \<and> (cs_waiting_ack c \<or> list_ex is_token box)"
proof -
  have f: "\<not> sc_returned (sy_scheduler demo_parked)" "sc_events (sy_scheduler demo_parked) = []"
    "map (\<lambda>p. sw_queue (snd p)) (sc_slots (sy_scheduler demo_parked)) = [[]]"
    "map_option jb_session (map_of (sc_jobs (sy_scheduler demo_parked)) 0) = Some (Some 9)" by code_simp+
  have q: "\<forall>k sw. map_of (sc_slots (sy_scheduler demo_parked)) k = Some sw \<longrightarrow> sw_queue sw = []"
  proof (intro allI impI)
    fix k sw assume "map_of (sc_slots (sy_scheduler demo_parked)) k = Some sw"
    then have "(k, sw) \<in> set (sc_slots (sy_scheduler demo_parked))" by (rule map_of_SomeD)
    then have "sw_queue sw \<in> set (map (\<lambda>p. sw_queue (snd p)) (sc_slots (sy_scheduler demo_parked)))" by force
    then show "sw_queue sw = []" unfolding f(3) by simp
  qed
  from scheduler_never_stuck[OF demo_parked_reach f(1,2) q] f(4) show ?thesis by auto
qed

section \<open>Accounting\<close>

text \<open>The counters are exact while the scheduler runs: every admitted session is either still in the job table or
  counted once as completed, cancelled, expired or failed, and until shutdown the waiting gauge, kept by unchecked
  atomic increments and decrements, is the number of jobs whose session waits for its consumer.\<close>

theorem scheduler_accounting:
  assumes "sys_reach y" and "\<not> sc_returned (sy_scheduler y)"
  shows "let m = ss_metrics (scheduler_status (sy_scheduler y)); s = sy_scheduler y in
      sx_admitted m = sx_completed m + sx_cancelled m + sx_deadlines m + sx_failed m + length (sc_jobs s)
    \<and> distinct (map fst (sc_jobs s)) \<and> sx_runnable m = length (fp_runnable (sc_policy s))
    \<and> (\<not> sc_shutting_down s \<longrightarrow> sx_waiting_for_consumer m = card {i. \<exists>j. map_of (sc_jobs s) i = Some j
          \<and> \<not> jb_in_flight j \<and> jb_session j \<noteq> None \<and> i \<notin> pe_id ` set (fp_runnable (sc_policy s))})"
proof -
  have c: "core (sy_clients y) (sy_finishing y) (sy_scheduler y)" and st: "settled (sy_scheduler y)"
    using running_core[OF assms] by simp_all
  have "parked_ids s = {i. \<exists>j. map_of (sc_jobs s) i = Some j \<and> \<not> jb_in_flight j \<and> jb_session j \<noteq> None
      \<and> i \<notin> pe_id ` set (fp_runnable (sc_policy s))}" for s
    by (auto simp: parked_ids_def parked_def queued_def filter_empty_conv)
  with c st show ?thesis
    by (simp add: core_def tables_inv_def settled_def scheduler_status_def Let_def closed_total_def hm_ok_def)
qed

theorem scheduler_accounting_witness:
  "sx_admitted (ss_metrics (scheduler_status (sy_scheduler demo_done)))
     = sx_completed (ss_metrics (scheduler_status (sy_scheduler demo_done)))
     + sx_cancelled (ss_metrics (scheduler_status (sy_scheduler demo_done)))
     + sx_deadlines (ss_metrics (scheduler_status (sy_scheduler demo_done)))
     + sx_failed (ss_metrics (scheduler_status (sy_scheduler demo_done))) \<and>
   sx_completed (ss_metrics (scheduler_status (sy_scheduler demo_done))) = 1"
proof -
  have f: "\<not> sc_returned (sy_scheduler demo_done)" "length (sc_jobs (sy_scheduler demo_done)) = 0"
    "sx_completed (ss_metrics (scheduler_status (sy_scheduler demo_done))) = 1" by code_simp+
  from scheduler_accounting[OF demo_done_reach f(1)] f(2,3) show ?thesis by (simp add: Let_def)
qed

text \<open>Diagnostic records are accounted for: every emitted record has been delivered to the sink or is still in the
  channel, which never exceeds its capacity, and the number of lost records is the sum of the losses by kind.\<close>

theorem scheduler_diagnostics_accounted:
  assumes "sys_reach y"
  shows "let d = sc_diagnostics (sy_scheduler y) in
     dg_emitted d = dg_delivered d + length (dg_queue d) \<and> length (dg_queue d) \<le> dg_capacity d
   \<and> dg_lost d = sum_list (map snd (loss_by_kind d)) \<and> distinct (map fst (loss_by_kind d))"
proof -
  have "diag_ok (sc_diagnostics (sy_scheduler y))"
    using sys_reach_inv[OF assms] core_tables(6) by (auto simp: sys_inv_def system_inv_def ended_def split: if_splits)
  then show ?thesis by (simp add: diag_ok_def Let_def loss_by_kind_def kind_total_def hm_sum_def hm_ok_def)
qed

theorem scheduler_diagnostics_accounted_witness:
  "dg_emitted (sc_diagnostics (sy_scheduler demo_done))
     = dg_delivered (sc_diagnostics (sy_scheduler demo_done)) + length (dg_queue (sc_diagnostics (sy_scheduler demo_done)))
   \<and> 0 < dg_emitted (sc_diagnostics (sy_scheduler demo_done))"
proof -
  have "0 < dg_emitted (sc_diagnostics (sy_scheduler demo_done))" by code_simp
  with scheduler_diagnostics_accounted[OF demo_done_reach] show ?thesis by (simp add: Let_def)
qed

section \<open>Deviations\<close>

text \<open>The \<open>rounds\<close> metric is published but never updated.\<close>

theorem scheduler_rounds_never_counted:
  assumes "sys_reach y"
  shows "sx_rounds (ss_metrics (scheduler_status (sy_scheduler y))) = 0"
  using sys_reach_inv[OF assms] core_tables(5)
  by (auto simp: sys_inv_def system_inv_def ended_def scheduler_status_def Let_def split: if_splits)

text \<open>A slot can be marked free while one of its quanta is outstanding: \<open>Stop\<close> hands the slot a second task without
  looking at \<open>busy\<close>, and the completion of the first one clears the flag.\<close>

definition demo_overlap :: "System option" where
  "demo_overlap = demo_run [DStart, DTurn, DWork, DTurn, DWork, DTurn, DRead 0, DStart, DTurn, DFinish 0, DTurn, DDrop 1, DTurn, DWork, DTurn] demo_start"

theorem slot_free_with_quantum_outstanding:
  "\<exists>y. sys_reach y \<and> \<not> slot_busy (sy_scheduler y) demo_key \<and> outstanding 0 (sy_scheduler y) = 1"
proof -
  have "map_option (\<lambda>y. (slot_busy (sy_scheduler y) demo_key, outstanding 0 (sy_scheduler y))) demo_overlap = Some (False, 1)"
    by code_simp
  then obtain y where "demo_overlap = Some y" "\<not> slot_busy (sy_scheduler y) demo_key" "outstanding 0 (sy_scheduler y) = 1" by auto
  with demo_reach show ?thesis unfolding demo_overlap_def by blast
qed

end
