(* ===== verification/Residency.thy ===== *)
theory Residency
  imports Server_Types "HOL-Library.Product_Lexorder" "HOL-Library.Char_ord"
begin

text \<open>
  Model residency (\<open>ResidentEngine\<close> in \<open>crates/server/src/residency.rs\<close>): which models are
  loaded, what they may use of the device, host and storage budgets, and which may be
  unloaded or have their contexts spilled to make room.

  A loaded model is shared (\<open>Arc<ResidentModel>\<close>) between the table of entries, the sessions
  and the loads that chose it as a victim, and the code compares these by pointer. Models
  therefore live in a store under addresses that are never reused, and the table maps keys
  to addresses. Every definition below is one critical section of the code's mutex, or one
  atomic operation outside it. What engines, loaders, files and the catalog answer is a
  parameter.
\<close>

declare split_paired_All [simp del] split_paired_Ex [simp del]

section \<open>Data\<close>

record OperatingPoint =
  op_model_bytes :: nat
  op_context_bytes :: nat
  op_device_bytes :: nat
  op_host_bytes :: nat
  op_gpu_layers :: int
  op_model_layers :: int
  op_competent :: bool

record ResidencyConfig =
  rg_device_bytes :: nat
  rg_host_bytes :: nat
  rg_storage_bytes :: nat
  rg_context_reserve_bytes :: nat
  rg_n_ctx :: nat
  rg_gpu_layers :: int
  rg_require_competent :: bool

definition config_validate :: "ResidencyConfig \<Rightarrow> (server_error, ResidencyConfig) outcome" where
  "config_validate c = (if rg_device_bytes c = 0 \<or> rg_host_bytes c = 0 \<or> rg_storage_bytes c = 0 \<or> rg_n_ctx c = 0
     then Err (StateError ''residency budgets and context size must be nonzero'') else Ok c)"

record ResidencyMetrics =
  rx_loads :: nat
  rx_load_failures :: nat
  rx_reuses :: nat
  rx_unloads :: nat
  rx_reloads :: nat
  rx_context_spills :: nat
  rx_context_reloads :: nat
  rx_device_bytes :: nat
  rx_host_bytes :: nat
  rx_storage_bytes :: nat
  rx_active_slots :: nat
  rx_sessions :: nat

definition metrics_default :: ResidencyMetrics where
  "metrics_default = \<lparr>rx_loads = 0, rx_load_failures = 0, rx_reuses = 0, rx_unloads = 0, rx_reloads = 0,
     rx_context_spills = 0, rx_context_reloads = 0, rx_device_bytes = 0, rx_host_bytes = 0, rx_storage_bytes = 0,
     rx_active_slots = 0, rx_sessions = 0\<rparr>"

text \<open>\<open>rm_engine\<close> names the engine of the model.\<close>

record ResidentModel =
  rm_record :: ModelRecord
  rm_engine :: nat
  rm_point :: OperatingPoint
  rm_active :: nat
  rm_sessions :: nat
  rm_retiring :: bool
  rm_context_resident :: bool
  rm_last_used :: nat

record ResidentModelStatus =
  rt_id :: string
  rt_revision :: string
  rt_epoch :: nat
  rt_active_slots :: nat
  rt_sessions :: nat
  rt_retiring :: bool
  rt_context_resident :: bool
  rt_last_used :: nat
  rt_operating_point :: OperatingPoint

definition model_status :: "ResidentModel \<Rightarrow> ResidentModelStatus" where
  "model_status m = \<lparr>rt_id = mr_id (rm_record m), rt_revision = mr_revision (rm_record m), rt_epoch = mr_epoch (rm_record m),
     rt_active_slots = rm_active m, rt_sessions = rm_sessions m, rt_retiring = rm_retiring m,
     rt_context_resident = rm_context_resident m, rt_last_used = rm_last_used m, rt_operating_point = rm_point m\<rparr>"

type_synonym entry_key = "string \<times> nat"

record ResidencyState =
  rs_config :: ResidencyConfig
  rs_entries :: "(entry_key, nat) hm"
  rs_clock :: nat
  rs_metrics :: ResidencyMetrics
  rs_store :: "(nat, ResidentModel) hm"
  rs_next :: nat

definition resident_open :: "ResidencyConfig \<Rightarrow> (server_error, ResidencyState) outcome" where
  "resident_open c = (case config_validate c of
       Ok c' \<Rightarrow> Ok \<lparr>rs_config = c', rs_entries = [], rs_clock = 0, rs_metrics = metrics_default, rs_store = [], rs_next = 0\<rparr>
     | Err e \<Rightarrow> Err e | Abort \<Rightarrow> Abort)"

definition model_at :: "ResidencyState \<Rightarrow> nat \<Rightarrow> ResidentModel" where
  "model_at s a = the (map_of (rs_store s) a)"

definition model_set :: "nat \<Rightarrow> (ResidentModel \<Rightarrow> ResidentModel) \<Rightarrow> ResidencyState \<Rightarrow> ResidencyState" where
  "model_set a f s = s\<lparr>rs_store := hm_put a (f (model_at s a)) (rs_store s)\<rparr>"

definition model_key :: "ModelRecord \<Rightarrow> entry_key" where
  "model_key r = (mr_id r, mr_epoch r)"

abbreviation key_at :: "ResidencyState \<Rightarrow> nat \<Rightarrow> entry_key" where
  "key_at s a \<equiv> model_key (rm_record (model_at s a))"

abbreviation map_metrics :: "(ResidencyMetrics \<Rightarrow> ResidencyMetrics) \<Rightarrow> ResidencyState \<Rightarrow> ResidencyState" where
  "map_metrics f s \<equiv> s\<lparr>rs_metrics := f (rs_metrics s)\<rparr>"

abbreviation "entry_addrs s \<equiv> hm_values (rs_entries s)"

definition tick :: "ResidencyState \<Rightarrow> ResidencyState" where
  "tick s = s\<lparr>rs_clock := wrapping_add (rs_clock s) 1\<rparr>"

definition failure :: "ResidencyState \<Rightarrow> ResidencyState" where
  "failure s = map_metrics (\<lambda>m. m\<lparr>rx_load_failures := rx_load_failures m + 1\<rparr>) s"

section \<open>Capacity\<close>

definition fits_with :: "ResidencyConfig \<Rightarrow> OperatingPoint \<Rightarrow> OperatingPoint list \<Rightarrow> bool" where
  "fits_with c p retained =
     (case foldl (\<lambda>(d, h, st) item. (saturating_add d (op_device_bytes item), saturating_add h (op_host_bytes item),
           saturating_add st (op_model_bytes item))) (op_device_bytes p, op_host_bytes p, op_model_bytes p) retained of
        (d, h, st) \<Rightarrow> d \<le> rg_device_bytes c \<and> h \<le> rg_host_bytes c \<and> st \<le> rg_storage_bytes c)"

text \<open>What an entry occupies: a spilled context has moved from device or host to storage.\<close>

definition effective_point :: "ResidentModel \<Rightarrow> OperatingPoint" where
  "effective_point m = (let p = rm_point m in
     if rm_context_resident m then p
     else (let q = (if op_device_bytes p = 0 then p\<lparr>op_host_bytes := op_host_bytes p - op_context_bytes p\<rparr>
                    else p\<lparr>op_device_bytes := op_device_bytes p - op_context_bytes p\<rparr>)
           in q\<lparr>op_model_bytes := saturating_add (op_model_bytes q) (op_context_bytes q)\<rparr>))"

abbreviation points :: "ResidencyState \<Rightarrow> nat list \<Rightarrow> OperatingPoint list" where
  "points s as \<equiv> map (\<lambda>a. effective_point (model_at s a)) as"

definition refresh_metrics :: "ResidencyState \<Rightarrow> ResidencyState" where
  "refresh_metrics s = map_metrics (\<lambda>m. m\<lparr>
     rx_device_bytes := wrapping_sum (map op_device_bytes (points s (entry_addrs s))),
     rx_host_bytes := wrapping_sum (map op_host_bytes (points s (entry_addrs s))),
     rx_storage_bytes := wrapping_sum (map op_model_bytes (points s (entry_addrs s))),
     rx_active_slots := wrapping_sum (map (\<lambda>a. rm_active (model_at s a)) (entry_addrs s)),
     rx_sessions := wrapping_sum (map (\<lambda>a. rm_sessions (model_at s a)) (entry_addrs s))\<rparr>) s"

section \<open>Measured profiles\<close>

datatype MeasurementSource = BackendAllocator | ConservativeFallback

record MeasuredExecutionProfile =
  mp_schema_major :: nat
  mp_schema_minor :: nat
  mp_model_bytes :: nat
  mp_device_model_bytes :: nat
  mp_host_model_bytes :: nat
  mp_context_state_bytes :: nat
  mp_device_execution_reserve_bytes :: nat
  mp_host_staging_bytes :: nat
  mp_allocator_headroom_bytes :: nat
  mp_model_layers :: int
  mp_competent :: bool
  mp_measurement_source :: MeasurementSource
  mp_provenance :: string

text \<open>
  The key of a profile in the catalog. The executor's ABI version, the trimmed version file, SHA-256
  in hexadecimal and the environment variable of the GPU are parameters.
\<close>

definition show_int :: "int \<Rightarrow> string" where
  "show_int i = (if i < 0 then CHR ''-'' # show_nat (nat (- i)) else show_nat (nat i))"

definition profile_config :: "string \<Rightarrow> string \<Rightarrow> ResidencyConfig \<Rightarrow> string" where
  "profile_config abi llama c = ''abi='' @ abi @ '';llama='' @ llama @ '';n_ctx='' @ show_nat (rg_n_ctx c)
     @ '';n_batch='' @ show_nat (rg_n_ctx c) @ '';gpu_layers='' @ show_int (rg_gpu_layers c) @ '';mapped=true''"

definition profile_key ::
  "string \<Rightarrow> string \<Rightarrow> (string \<Rightarrow> string) \<Rightarrow> string option \<Rightarrow> ResidencyConfig \<Rightarrow> ModelRecord \<Rightarrow> string \<times> string \<times> string \<times> string" where
  "profile_key abi llama sha256 gpu c model =
     (if mr_sha256 model = [] then mr_id model @ ''@'' @ mr_revision model else mr_sha256 model,
      sha256 (profile_config abi llama c),
      if 0 < rg_gpu_layers c then ''configured-gpu:'' @ (case gpu of None \<Rightarrow> ''unspecified'' | Some i \<Rightarrow> i) else ''cpu'',
      ''executor-abi='' @ abi @ '';llama='' @ llama)"

text \<open>The point \<open>cached_profile\<close> makes of a stored profile, with unchecked additions.\<close>

definition point_of_profile :: "ResidencyConfig \<Rightarrow> MeasuredExecutionProfile \<Rightarrow> OperatingPoint" where
  "point_of_profile c p = \<lparr>op_model_bytes = mp_model_bytes p, op_context_bytes = mp_context_state_bytes p,
     op_device_bytes = wrapping_add (wrapping_add (mp_device_model_bytes p) (mp_device_execution_reserve_bytes p))
        (mp_allocator_headroom_bytes p),
     op_host_bytes = wrapping_add (mp_host_model_bytes p) (mp_host_staging_bytes p),
     op_gpu_layers = rg_gpu_layers c, op_model_layers = mp_model_layers p, op_competent = mp_competent p\<rparr>"

definition profile_of_point :: "ResidencyConfig \<Rightarrow> nat \<Rightarrow> string \<Rightarrow> OperatingPoint \<Rightarrow> MeasuredExecutionProfile" where
  "profile_of_point c schema provenance p = \<lparr>mp_schema_major = schema, mp_schema_minor = 0, mp_model_bytes = op_model_bytes p,
     mp_device_model_bytes = op_device_bytes p, mp_host_model_bytes = op_host_bytes p,
     mp_context_state_bytes = op_context_bytes p, mp_device_execution_reserve_bytes = 0, mp_host_staging_bytes = 0,
     mp_allocator_headroom_bytes = op_device_bytes p div 20, mp_model_layers = op_model_layers p,
     mp_competent = op_competent p,
     mp_measurement_source = (if 0 < rg_gpu_layers c then BackendAllocator else ConservativeFallback),
     mp_provenance = provenance\<rparr>"

text \<open>The catalog answers a lookup with a profile, nothing, or an error; without a catalog, or when layers
  are offloaded, it is not asked.\<close>

definition cached_profile ::
  "ResidencyConfig \<Rightarrow> (server_error, MeasuredExecutionProfile option) outcome option \<Rightarrow> (server_error, OperatingPoint option) outcome" where
  "cached_profile c catalog =
     (if 0 < rg_gpu_layers c then Ok None
      else (case catalog of
          None \<Rightarrow> Ok None
        | Some (Ok r) \<Rightarrow> Ok (map_option (point_of_profile c) r)
        | Some (Err e) \<Rightarrow> Err e
        | Some Abort \<Rightarrow> Abort))"

definition publish_profile ::
  "ResidencyConfig \<Rightarrow> nat \<Rightarrow> string \<Rightarrow> (MeasuredExecutionProfile \<Rightarrow> (server_error, unit) outcome) option \<Rightarrow> OperatingPoint
     \<Rightarrow> (server_error, unit) outcome" where
  "publish_profile c schema provenance catalog p =
     (if 0 < rg_gpu_layers c then Ok ()
      else (case catalog of None \<Rightarrow> Ok () | Some store \<Rightarrow> store (profile_of_point c schema provenance p)))"

text \<open>\<open>file_bytes\<close> is what \<open>fs::metadata\<close> answers for the model's path.\<close>

definition estimate ::
  "ResidencyConfig \<Rightarrow> (server_error, MeasuredExecutionProfile option) outcome option \<Rightarrow> (server_error, nat) outcome \<Rightarrow> ModelRecord
     \<Rightarrow> (server_error, OperatingPoint) outcome" where
  "estimate c catalog file_bytes model = (case cached_profile c catalog of
       Err e \<Rightarrow> Err e
     | Abort \<Rightarrow> Abort
     | Ok (Some p) \<Rightarrow> Ok p
     | Ok None \<Rightarrow> (case (if mr_size_bytes model = 0 then file_bytes else Ok (mr_size_bytes model)) of
           Err e \<Rightarrow> Err e
         | Abort \<Rightarrow> Abort
         | Ok bytes \<Rightarrow>
             (if rg_storage_bytes c < bytes then Err (StateError ''model exceeds the configured storage residency budget'')
              else (let total = saturating_add bytes (rg_context_reserve_bytes c) in
                Ok \<lparr>op_model_bytes = bytes, op_context_bytes = rg_context_reserve_bytes c,
                  op_device_bytes = (if 0 < rg_gpu_layers c then total else 0),
                  op_host_bytes = (if 0 < rg_gpu_layers c then 0 else total),
                  op_gpu_layers = rg_gpu_layers c, op_model_layers = 0,
                  op_competent = (\<not> rg_require_competent c \<or> 0 < rg_gpu_layers c)\<rparr>))))"

section \<open>Loading\<close>

text \<open>The first critical section of \<open>load\<close>: reuse a loaded model.\<close>

definition load_lookup :: "ModelRecord \<Rightarrow> ResidencyState \<Rightarrow> ResidencyState \<times> nat option" where
  "load_lookup model s = (case map_of (rs_entries s) (model_key model) of
       None \<Rightarrow> (s, None)
     | Some a \<Rightarrow> (let s1 = tick s in
         (map_metrics (\<lambda>m. m\<lparr>rx_reuses := rx_reuses m + 1\<rparr>) (model_set a (\<lambda>r. r\<lparr>rm_last_used := rs_clock s1\<rparr>) s1), Some a)))"

text \<open>\<open>demote a\<close> is what the engine of the model at \<open>a\<close> answers to \<open>demote_inactive\<close>.\<close>

type_synonym demotion = "nat \<Rightarrow> (server_error, nat) outcome"

definition spilled :: "nat \<Rightarrow> nat \<Rightarrow> ResidencyState \<Rightarrow> ResidencyState" where
  "spilled a n s = map_metrics (\<lambda>m. m\<lparr>rx_context_spills := saturating_add (rx_context_spills m) n\<rparr>)
     (model_set a (\<lambda>r. r\<lparr>rm_context_resident := False\<rparr>) s)"

definition first_resident :: "ResidencyState \<Rightarrow> nat list \<Rightarrow> nat option" where
  "first_resident s idle = find (\<lambda>a. rm_context_resident (model_at s a)) idle"

lemma model_at_set [simp]: "model_at (model_set a f s) b = (if b = a then f (model_at s a) else model_at s b)"
  by (simp add: model_at_def model_set_def)

lemma model_at_metrics [simp]: "model_at (s\<lparr>rs_metrics := m\<rparr>) = model_at s"
  by (simp add: model_at_def fun_eq_iff)

lemma spilled_resident [simp]:
  "rm_context_resident (model_at (spilled a n s) b) = (b \<noteq> a \<and> rm_context_resident (model_at s b))"
  by (simp add: spilled_def)

lemma filter_first_shorter: "a \<in> set xs \<Longrightarrow> P a \<Longrightarrow> length (filter (\<lambda>b. b \<noteq> a \<and> P b) xs) < length (filter P xs)"
proof (induction xs)
  case (Cons x xs)
  have "length (filter (\<lambda>b. b \<noteq> a \<and> P b) xs) \<le> length (filter P xs)"
    by (induction xs) auto
  with Cons show ?case by auto
qed simp

lemma spill_decreases:
  "first_resident s idle = Some a \<Longrightarrow>
     length (filter (\<lambda>b. rm_context_resident (model_at (spilled a n s) b)) idle)
       < length (filter (\<lambda>b. rm_context_resident (model_at s b)) idle)"
  unfolding spilled_resident
  by (rule filter_first_shorter) (auto simp: first_resident_def find_Some_iff)

text \<open>Spilling idle contexts until the estimate fits, or nothing more can be spilled.\<close>

function spill_loop :: "demotion \<Rightarrow> OperatingPoint \<Rightarrow> nat list \<Rightarrow> ResidencyState \<Rightarrow> ResidencyState \<times> (server_error, unit) outcome" where
  "spill_loop demote p idle s =
     (if fits_with (rs_config s) p (points s (entry_addrs s)) then (s, Ok ())
      else (case first_resident s idle of
          None \<Rightarrow> (s, Ok ())
        | Some a \<Rightarrow> (case demote a of
              Err e \<Rightarrow> (s, Err e)
            | Abort \<Rightarrow> (s, Abort)
            | Ok n \<Rightarrow> if n = 0 then (s, Ok ()) else spill_loop demote p idle (spilled a n s))))"
  by pat_completeness auto
termination
  by (relation "measure (\<lambda>(_, _, idle, s). length (filter (\<lambda>b. rm_context_resident (model_at s b)) idle))")
    (simp_all only: wf_measure in_measure prod.case spill_decreases)

declare spill_loop.simps [simp del]

text \<open>\<open>rest\<close> are the idle models not yet chosen.\<close>

fun victim_loop :: "OperatingPoint \<Rightarrow> ResidencyState \<Rightarrow> nat list \<Rightarrow> nat list \<Rightarrow> nat list \<Rightarrow> (server_error, nat list) outcome" where
  "victim_loop p s retained victims [] =
     (if fits_with (rs_config s) p (points s retained) then Ok victims
      else Err (StateError ''residency capacity is exhausted''))"
| "victim_loop p s retained victims (v # rest) =
     (if fits_with (rs_config s) p (points s retained) then Ok victims
      else victim_loop p s (filter (\<lambda>a. a \<noteq> v) retained) (victims @ [v]) rest)"

definition by_last_use :: "ResidencyState \<Rightarrow> nat list \<Rightarrow> nat list" where
  "by_last_use s as = sort_key (\<lambda>a. (rm_last_used (model_at s a), mr_epoch (rm_record (model_at s a)))) as"

definition idle_models :: "ResidencyState \<Rightarrow> nat list" where
  "idle_models s = filter (\<lambda>a. rm_active (model_at s a) = 0 \<and> rm_sessions (model_at s a) = 0) (entry_addrs s)"

text \<open>The second critical section of \<open>load\<close>.\<close>

definition select_victims ::
  "demotion \<Rightarrow> OperatingPoint \<Rightarrow> ModelRecord \<Rightarrow> ResidencyState \<Rightarrow> ResidencyState \<times> (server_error, nat list) outcome" where
  "select_victims demote p model s =
     (let idle = by_last_use s (filter (\<lambda>a. mr_id (rm_record (model_at s a)) \<noteq> mr_id model) (idle_models s)) in
      and_then (spill_loop demote p idle s) (\<lambda>_ s1. (s1, victim_loop p s1 (entry_addrs s1) [] idle)))"

text \<open>The point that is admitted: never below the estimate, with five percent headroom on the device.\<close>

definition measured_point :: "OperatingPoint \<Rightarrow> OperatingPoint \<Rightarrow> OperatingPoint" where
  "measured_point est p = p\<lparr>op_model_bytes := max (op_model_bytes p) (op_model_bytes est),
     op_context_bytes := max (op_context_bytes p) (op_context_bytes est),
     op_device_bytes := max (op_device_bytes p) (op_device_bytes est),
     op_host_bytes := max (op_host_bytes p) (op_host_bytes est)\<rparr>"

definition with_headroom :: "OperatingPoint \<Rightarrow> OperatingPoint" where
  "with_headroom p = p\<lparr>op_device_bytes := saturating_add (op_device_bytes p) (op_device_bytes p div 20)\<rparr>"

text \<open>Removing the victims that are idle.\<close>

definition unload_key :: "entry_key \<Rightarrow> ResidencyState \<Rightarrow> ResidencyState" where
  "unload_key k s = (if hm_has (rs_entries s) k
     then map_metrics (\<lambda>m. m\<lparr>rx_unloads := rx_unloads m + 1\<rparr>) (s\<lparr>rs_entries := hm_del k (rs_entries s)\<rparr>) else s)"

definition unload_victim :: "nat \<Rightarrow> ResidencyState \<Rightarrow> ResidencyState" where
  "unload_victim v s = (if rm_active (model_at s v) = 0 then unload_key (key_at s v) s else s)"

definition add_entry :: "ModelRecord \<Rightarrow> nat \<Rightarrow> OperatingPoint \<Rightarrow> ResidencyState \<Rightarrow> ResidencyState" where
  "add_entry model engine p s0 = (let s = tick s0; a = rs_next s in
     refresh_metrics (map_metrics (\<lambda>m. m\<lparr>rx_loads := rx_loads m + 1\<rparr>)
       (s\<lparr>rs_store := hm_put a \<lparr>rm_record = model, rm_engine = engine, rm_point = p, rm_active = 0, rm_sessions = 0,
            rm_retiring = False, rm_context_resident = True, rm_last_used = rs_clock s\<rparr> (rs_store s),
          rs_entries := hm_put (model_key model) a (rs_entries s), rs_next := a + 1\<rparr>)))"

text \<open>After the loader has answered, \<open>checked\<close> is what \<open>control.check()\<close> answers; then the last critical
  section, in which \<open>published\<close> is what \<open>publish_profile\<close> answers.\<close>

definition retained_addrs :: "nat list \<Rightarrow> ResidencyState \<Rightarrow> nat list" where
  "retained_addrs victims s = map snd (filter (\<lambda>(k, a). k \<notin> key_at s ` set victims \<or> rm_active (model_at s a) \<noteq> 0) (rs_entries s))"

definition load_commit ::
  "ModelRecord \<Rightarrow> OperatingPoint \<Rightarrow> nat list \<Rightarrow> (server_error, nat \<times> OperatingPoint) outcome \<Rightarrow> (server_error, unit) outcome
     \<Rightarrow> (OperatingPoint \<Rightarrow> (server_error, unit) outcome) \<Rightarrow> ResidencyState \<Rightarrow> ResidencyState \<times> (server_error, nat) outcome" where
  "load_commit model est victims loaded checked published s = (case loaded of
       Err e \<Rightarrow> (failure s, Err e)
     | Abort \<Rightarrow> (s, Abort)
     | Ok (engine, p0) \<Rightarrow> (case checked of
           Err e \<Rightarrow> (failure s, Err e)
         | Abort \<Rightarrow> (s, Abort)
         | Ok _ \<Rightarrow> (let measured = measured_point est p0; p = with_headroom measured in
             if rg_require_competent (rs_config s) \<and> \<not> op_competent p
             then (failure s, Err (StateError ''executor operating point is below the competent floor''))
             else (case map_of (rs_entries s) (model_key model) of
                 Some a \<Rightarrow> (map_metrics (\<lambda>m. m\<lparr>rx_reuses := rx_reuses m + 1\<rparr>) s, Ok a)
               | None \<Rightarrow>
                   if \<not> fits_with (rs_config s) p (points s (retained_addrs victims s))
                   then (failure s, Err (StateError ''measured operating point exceeds residency capacity''))
                   else (case published measured of
                       Err e \<Rightarrow> (failure s, Err e)
                     | Abort \<Rightarrow> (s, Abort)
                     | Ok _ \<Rightarrow> (let s1 = fold unload_victim victims s in
                         (add_entry model engine p s1, Ok (rs_next s1))))))))"

text \<open>The whole of \<open>load\<close> without interference: what is outside the mutex answers through the record.\<close>

record load_answers =
  la_checked :: "(server_error, unit) outcome"
  la_catalog :: "(server_error, MeasuredExecutionProfile option) outcome option"
  la_file_bytes :: "(server_error, nat) outcome"
  la_demote :: demotion
  la_loaded :: "(server_error, nat \<times> OperatingPoint) outcome"
  la_checked_again :: "(server_error, unit) outcome"
  la_published :: "OperatingPoint \<Rightarrow> (server_error, unit) outcome"

definition resident_load :: "load_answers \<Rightarrow> ModelRecord \<Rightarrow> ResidencyState \<Rightarrow> ResidencyState \<times> (server_error, nat) outcome" where
  "resident_load w model s =
     and_then (s, la_checked w) (\<lambda>_ s0.
       (case load_lookup model s0 of
          (s1, Some a) \<Rightarrow> (s1, Ok a)
        | (s1, None) \<Rightarrow>
            and_then (s1, estimate (rs_config s1) (la_catalog w) (la_file_bytes w) model) (\<lambda>est s2.
              and_then (select_victims (la_demote w) est model s2) (\<lambda>victims s3.
                load_commit model est victims (la_loaded w) (la_checked_again w) (la_published w) s3))))"

text \<open>\<open>NativeLoader::load\<close>; \<open>opened\<close> is the engine, its architecture and operating point.\<close>

definition native_load ::
  "(server_error, nat \<times> string \<times> OperatingPoint) outcome \<Rightarrow> ModelRecord \<Rightarrow> ResidencyConfig \<Rightarrow> (server_error, nat \<times> OperatingPoint) outcome" where
  "native_load opened model c =
     (if u64_max < rg_device_bytes c then Err (StateError ''device budget exceeds address space'')
      else if u64_max < rg_host_bytes c then Err (StateError ''host budget exceeds address space'')
      else if u64_max < rg_context_reserve_bytes c then Err (StateError ''context reserve exceeds address space'')
      else (case opened of
          Err e \<Rightarrow> Err e
        | Abort \<Rightarrow> Abort
        | Ok (engine, architecture, p) \<Rightarrow>
            if architecture \<noteq> mr_family model
            then Err (StateError (''catalog model family '' @ mr_family model @ '' does not match native architecture '' @ architecture))
            else Ok (engine, p\<lparr>op_model_bytes := mr_size_bytes model\<rparr>)))"

section \<open>Leases and retirement\<close>

text \<open>Making room for the context of the model at \<open>t\<close> to come back.\<close>

definition others :: "nat \<Rightarrow> ResidencyState \<Rightarrow> nat list" where
  "others t s = filter (\<lambda>a. a \<noteq> t) (entry_addrs s)"

definition reloaded :: "nat \<Rightarrow> ResidencyState \<Rightarrow> ResidencyState" where
  "reloaded t s = map_metrics (\<lambda>m. m\<lparr>rx_context_reloads := rx_context_reloads m + 1\<rparr>)
     (model_set t (\<lambda>r. r\<lparr>rm_context_resident := True\<rparr>) s)"

function reload_loop :: "demotion \<Rightarrow> nat \<Rightarrow> nat list \<Rightarrow> ResidencyState \<Rightarrow> ResidencyState \<times> (server_error, unit) outcome" where
  "reload_loop demote t idle s =
     (if fits_with (rs_config s) (rm_point (model_at s t)) (points s (others t s)) then (reloaded t s, Ok ())
      else (case first_resident s idle of
          None \<Rightarrow> (s, Err (StateError ''residency capacity is exhausted''))
        | Some a \<Rightarrow> (case demote a of
              Err e \<Rightarrow> (s, Err e)
            | Abort \<Rightarrow> (s, Abort)
            | Ok n \<Rightarrow> if n = 0 then (s, Err (StateError ''residency capacity is exhausted''))
                else reload_loop demote t idle (spilled a n s))))"
  by pat_completeness auto
termination
  by (relation "measure (\<lambda>(_, _, idle, s). length (filter (\<lambda>b. rm_context_resident (model_at s b)) idle))")
    (simp_all only: wf_measure in_measure prod.case spill_decreases)

declare reload_loop.simps [simp del]

definition lease_inc :: "nat \<Rightarrow> ResidencyState \<Rightarrow> ResidencyState" where
  "lease_inc t s = model_set t (\<lambda>r. r\<lparr>rm_active := wrapping_add (rm_active r) 1\<rparr>) s"

definition touch :: "nat \<Rightarrow> ResidencyState \<Rightarrow> ResidencyState" where
  "touch t s = (let s1 = tick s in model_set t (\<lambda>r. r\<lparr>rm_last_used := rs_clock s1\<rparr>) s1)"

definition acquire_entry :: "demotion \<Rightarrow> nat \<Rightarrow> ResidencyState \<Rightarrow> ResidencyState \<times> (server_error, bool) outcome" where
  "acquire_entry demote t s = (case map_of (rs_entries s) (key_at s t) of
       None \<Rightarrow> (s, Ok False)
     | Some current \<Rightarrow>
         if current \<noteq> t then (s, Ok False)
         else and_then
           (if rm_context_resident (model_at s t) then (s, Ok ())
            else reload_loop demote t
              (by_last_use s (filter (\<lambda>a. a \<noteq> t \<and> rm_context_resident (model_at s a)) (idle_models s))) s)
           (\<lambda>_ s1. (refresh_metrics (touch t (lease_inc t s1)), Ok True)))"

text \<open>The counters of a model change outside the mutex; then a retired model nothing uses is removed.\<close>

definition lease_dec :: "nat \<Rightarrow> ResidencyState \<Rightarrow> ResidencyState" where
  "lease_dec a s = model_set a (\<lambda>r. r\<lparr>rm_active := wrapping_dec (rm_active r)\<rparr>) s"

definition session_inc :: "nat \<Rightarrow> ResidencyState \<Rightarrow> ResidencyState" where
  "session_inc a s = model_set a (\<lambda>r. r\<lparr>rm_sessions := wrapping_add (rm_sessions r) 1\<rparr>) s"

definition session_dec :: "nat \<Rightarrow> ResidencyState \<Rightarrow> ResidencyState" where
  "session_dec a s = model_set a (\<lambda>r. r\<lparr>rm_sessions := wrapping_dec (rm_sessions r)\<rparr>) s"

definition in_use :: "ResidencyState \<Rightarrow> nat \<Rightarrow> bool" where
  "in_use s a = (rm_active (model_at s a) \<noteq> 0 \<or> rm_sessions (model_at s a) \<noteq> 0)"

definition settle_entry :: "nat \<Rightarrow> ResidencyState \<Rightarrow> ResidencyState" where
  "settle_entry a s = refresh_metrics
     (if rm_retiring (model_at s a) \<and> \<not> in_use s a then unload_key (key_at s a) s else s)"

definition release_entry :: "nat \<Rightarrow> ResidencyState \<Rightarrow> ResidencyState" where
  "release_entry a s = settle_entry a (lease_dec a s)"

definition session_drop :: "nat \<Rightarrow> ResidencyState \<Rightarrow> ResidencyState" where
  "session_drop a s = settle_entry a (session_dec a s)"

definition retire_entry :: "nat \<Rightarrow> ResidencyState \<Rightarrow> ResidencyState" where
  "retire_entry a s = model_set a (\<lambda>r. r\<lparr>rm_retiring := True\<rparr>) s"

definition retire_other :: "entry_key \<times> nat \<Rightarrow> ResidencyState \<Rightarrow> ResidencyState" where
  "retire_other ka s = (case ka of (k, a) \<Rightarrow>
     (let s1 = retire_entry a s in
      if \<not> in_use s1 a \<and> hm_has (rs_entries s1) k
      then map_metrics (\<lambda>m. m\<lparr>rx_reloads := rx_reloads m + 1\<rparr>) (unload_key k s1) else s1))"

definition retire_other_epochs :: "ModelRecord \<Rightarrow> ResidencyState \<Rightarrow> ResidencyState" where
  "retire_other_epochs model s = refresh_metrics
     (fold retire_other (filter (\<lambda>((i, e), _). i = mr_id model \<and> e \<noteq> mr_epoch model) (rs_entries s)) s)"

definition retire_model :: "string \<Rightarrow> nat \<Rightarrow> ResidencyState \<Rightarrow> ResidencyState" where
  "retire_model i e s = refresh_metrics
     (case map_of (rs_entries s) (i, e) of
        None \<Rightarrow> s
      | Some a \<Rightarrow> (let s1 = retire_entry a s in if in_use s1 a then s1 else unload_key (i, e) s1))"

definition resident_metrics :: "ResidencyState \<Rightarrow> ResidencyState \<times> ResidencyMetrics" where
  "resident_metrics s = (let s1 = refresh_metrics s in (s1, rs_metrics s1))"

definition resident_status :: "ResidencyState \<Rightarrow> ResidentModelStatus list" where
  "resident_status s = sort_key (\<lambda>t. (rt_id t, rt_epoch t)) (map (\<lambda>a. model_status (model_at s a)) (entry_addrs s))"

section \<open>Sessions\<close>

definition prepare_model :: "load_answers \<Rightarrow> ModelRecord \<Rightarrow> ResidencyState \<Rightarrow> ResidencyState \<times> (server_error, unit) outcome" where
  "prepare_model w model s =
     and_then (resident_load (w\<lparr>la_checked := Ok (), la_checked_again := Ok ()\<rparr>) model s) (\<lambda>_ s1. (s1, Ok ()))"

text \<open>\<open>start_session\<close> loads and acquires until it holds a lease; each round has its own answers, and
  \<open>None\<close> says that they ran out.\<close>

fun lease_model :: "(load_answers \<times> demotion) list \<Rightarrow> ModelRecord \<Rightarrow> ResidencyState \<Rightarrow> ResidencyState \<times> (server_error, nat option) outcome" where
  "lease_model [] model s = (s, Ok None)"
| "lease_model ((w, demote) # ws) model s =
     and_then (resident_load w model s) (\<lambda>a s1. and_then (acquire_entry demote a s1) (\<lambda>held s2.
       if held then (s2, Ok (Some a)) else lease_model ws model s2))"

text \<open>\<open>started a\<close> is what the engine of the model at \<open>a\<close> answers.\<close>

definition resident_start_session ::
  "(load_answers \<times> demotion) list \<Rightarrow> ModelRecord \<Rightarrow> (nat \<Rightarrow> (server_error, 'i) outcome) \<Rightarrow> ResidencyState
     \<Rightarrow> ResidencyState \<times> (server_error, (nat \<times> 'i) option) outcome" where
  "resident_start_session ws model started s =
     and_then (lease_model ws model s) (\<lambda>leased s1. (case leased of
         None \<Rightarrow> (s1, Ok None)
       | Some a \<Rightarrow> (case started a of
             Ok inner \<Rightarrow> (release_entry a (session_inc a s1), Ok (Some (a, inner)))
           | Err e \<Rightarrow> (release_entry a s1, Err e)
           | Abort \<Rightarrow> (s1, Abort))))"

definition session_acquire :: "demotion \<Rightarrow> nat \<Rightarrow> ResidencyState \<Rightarrow> ResidencyState \<times> (server_error, unit) outcome" where
  "session_acquire demote a s = and_then (acquire_entry demote a s) (\<lambda>held s1.
     (s1, if held then Ok () else Err (StateError ''resident model disappeared while its session was suspended'')))"

text \<open>\<open>step\<close> and \<open>finish\<close> of a session; the lease is dropped also when the inner call unwinds.\<close>

definition session_call :: "demotion \<Rightarrow> nat \<Rightarrow> (server_error, 'r) outcome \<Rightarrow> ResidencyState \<Rightarrow> ResidencyState \<times> (server_error, 'r) outcome" where
  "session_call demote a inner s = and_then (session_acquire demote a s) (\<lambda>_ s1. (release_entry a s1, inner))"

end
