(* ===== verification/Residency_System.thy ===== *)
theory Residency_System
  imports Residency
begin

text \<open>
  The residency engine among concurrent loads, leases and sessions: every critical section is a
  step, a load that was interrupted may commit any list of victims, and the decrement of a counter
  and the removal that follows it are separate steps. A step is \<open>calm\<close> when, between its two critical
  sections, no other model was loaded under the key of a model it removes: the source compares keys there
  and not the models. Whether these models are in use is no part of the condition.
\<close>

section \<open>The step relation\<close>

record Residency =
  ry_state :: ResidencyState
  ry_leases :: "nat list"
  ry_sessions :: "nat list"

definition residency_init :: "ResidencyConfig \<Rightarrow> Residency \<Rightarrow> bool" where
  "residency_init c y \<longleftrightarrow> resident_open c = Ok (ry_state y) \<and> ry_leases y = [] \<and> ry_sessions y = []"

definition stored :: "ResidencyState \<Rightarrow> nat \<Rightarrow> bool" where
  "stored s a = hm_has (rs_store s) a"

text \<open>The model at \<open>a\<close> has not been replaced under its key.\<close>

definition not_replaced :: "ResidencyState \<Rightarrow> nat \<Rightarrow> bool" where
  "not_replaced s a = (case map_of (rs_entries s) (key_at s a) of None \<Rightarrow> True | Some b \<Rightarrow> b = a)"

definition unreplaced :: "ResidencyState \<Rightarrow> nat list \<Rightarrow> bool" where
  "unreplaced s victims = list_all (not_replaced s) victims"

inductive residency_step :: "bool \<Rightarrow> Residency \<Rightarrow> Residency \<Rightarrow> bool" for calm :: bool where
  step_lookup: "residency_step calm y (y\<lparr>ry_state := fst (load_lookup model (ry_state y))\<rparr>)"
| step_select: "residency_step calm y (y\<lparr>ry_state := fst (select_victims demote p model (ry_state y))\<rparr>)"
| step_commit: "list_all (stored (ry_state y)) victims \<Longrightarrow> calm \<longrightarrow> unreplaced (ry_state y) victims \<Longrightarrow>
    residency_step calm y (y\<lparr>ry_state := fst (load_commit model est victims loaded checked published (ry_state y))\<rparr>)"
| step_acquire: "stored (ry_state y) a \<Longrightarrow> length (ry_leases y) < u64_max \<Longrightarrow> acquire_entry demote a (ry_state y) = (s, r) \<Longrightarrow>
    residency_step calm y (y\<lparr>ry_state := s, ry_leases := (if r = Ok True then a # ry_leases y else ry_leases y)\<rparr>)"
| step_lease_dec: "a \<in> set (ry_leases y) \<Longrightarrow>
    residency_step calm y (y\<lparr>ry_state := lease_dec a (ry_state y), ry_leases := remove1 a (ry_leases y)\<rparr>)"
| step_session_inc: "a \<in> set (ry_leases y) \<Longrightarrow> length (ry_sessions y) < u64_max \<Longrightarrow>
    residency_step calm y (y\<lparr>ry_state := session_inc a (ry_state y), ry_sessions := a # ry_sessions y\<rparr>)"
| step_session_dec: "a \<in> set (ry_sessions y) \<Longrightarrow>
    residency_step calm y (y\<lparr>ry_state := session_dec a (ry_state y), ry_sessions := remove1 a (ry_sessions y)\<rparr>)"
| step_settle: "stored (ry_state y) a \<Longrightarrow> calm \<longrightarrow> not_replaced (ry_state y) a \<Longrightarrow>
    residency_step calm y (y\<lparr>ry_state := settle_entry a (ry_state y)\<rparr>)"
| step_retire_others: "residency_step calm y (y\<lparr>ry_state := retire_other_epochs model (ry_state y)\<rparr>)"
| step_retire: "residency_step calm y (y\<lparr>ry_state := retire_model i e (ry_state y)\<rparr>)"
| step_metrics: "residency_step calm y (y\<lparr>ry_state := fst (resident_metrics (ry_state y))\<rparr>)"

definition residency_reach :: "bool \<Rightarrow> ResidencyConfig \<Rightarrow> Residency \<Rightarrow> bool" where
  "residency_reach calm c y = reach (residency_init c) (residency_step calm) y"

end
