(* ===== verification/Residency_Inv.thy ===== *)
theory Residency_Inv
  imports Residency_System
begin

text \<open>
  The invariant of the residency machine: the counters of a model are its leases and sessions,
  keys and addresses agree, and, when every step is calm, models with a lease stay loaded and the
  device and host budgets hold.
\<close>

section \<open>What a model occupies\<close>

definition device_of :: "ResidencyState \<Rightarrow> nat \<Rightarrow> nat" where
  "device_of s a = op_device_bytes (effective_point (model_at s a))"

definition host_of :: "ResidencyState \<Rightarrow> nat \<Rightarrow> nat" where
  "host_of s a = op_host_bytes (effective_point (model_at s a))"

definition device_total :: "ResidencyState \<Rightarrow> nat" where
  "device_total s = hm_sum (device_of s) (rs_entries s)"

definition host_total :: "ResidencyState \<Rightarrow> nat" where
  "host_total s = hm_sum (host_of s) (rs_entries s)"

definition within_budget :: "ResidencyState \<Rightarrow> bool" where
  "within_budget s \<longleftrightarrow> min (device_total s) u64_max \<le> rg_device_bytes (rs_config s)
     \<and> min (host_total s) u64_max \<le> rg_host_bytes (rs_config s)"

lemma foldl_saturating_ge:
  "(case foldl (\<lambda>(d, h, st) item. (saturating_add d (op_device_bytes item), saturating_add h (op_host_bytes item),
        saturating_add st (op_model_bytes item))) (x, y, z) ps of
     (d, h, st) \<Rightarrow> min (x + sum_list (map op_device_bytes ps)) u64_max \<le> d
       \<and> min (y + sum_list (map op_host_bytes ps)) u64_max \<le> h)"
proof (induction ps arbitrary: x y z)
  case (Cons p ps)
  have sat: "min (a + (b + r)) u64_max = min (saturating_add a b + r) u64_max" for a b r
    by (auto simp: saturating_add_def min_def)
  show ?case
    using Cons[where x = "saturating_add x (op_device_bytes p)" and y = "saturating_add y (op_host_bytes p)"
      and z = "saturating_add z (op_model_bytes p)"]
    by (simp add: sat split: prod.splits)
qed simp

lemma fits_with_bounds:
  assumes "fits_with c p ps"
  shows "min (op_device_bytes p + sum_list (map op_device_bytes ps)) u64_max \<le> rg_device_bytes c"
    and "min (op_host_bytes p + sum_list (map op_host_bytes ps)) u64_max \<le> rg_host_bytes c"
  using assms foldl_saturating_ge[where x = "op_device_bytes p" and y = "op_host_bytes p" and z = "op_model_bytes p" and ps = ps]
  by (auto simp: fits_with_def split: prod.splits)

lemma points_device: "map op_device_bytes (points s as) = map (device_of s) as"
  and points_host: "map op_host_bytes (points s as) = map (host_of s) as"
  by (simp_all add: device_of_def host_of_def)

lemma sum_list_split: "distinct xs \<Longrightarrow> t \<in> set xs \<Longrightarrow>
    sum_list (map f xs) = f t + sum_list (map f (filter (\<lambda>a. a \<noteq> t) xs))" for f :: "nat \<Rightarrow> nat"
proof (induction xs)
  case (Cons x xs)
  show ?case
  proof (cases "x = t")
    case True
    with Cons.prems have "filter (\<lambda>a. a \<noteq> t) xs = xs" by (auto simp: filter_id_conv)
    with True show ?thesis by simp
  next
    case False
    with Cons show ?thesis by simp
  qed
qed simp

section \<open>The invariant\<close>

text \<open>\<open>L\<close> are the leases, \<open>S\<close> the sessions.\<close>

definition tables_ok :: "ResidencyState \<Rightarrow> bool" where
  "tables_ok s \<longleftrightarrow> hm_ok (rs_entries s) \<and> hm_ok (rs_store s)
     \<and> (\<forall>k a. map_of (rs_entries s) k = Some a \<longrightarrow> stored s a \<and> key_at s a = k)
     \<and> (\<forall>a. stored s a \<longrightarrow> a < rs_next s)
     \<and> rx_loads (rs_metrics s) = rx_unloads (rs_metrics s) + length (rs_entries s)"

definition counters_ok :: "ResidencyState \<Rightarrow> nat list \<Rightarrow> nat list \<Rightarrow> bool" where
  "counters_ok s L S \<longleftrightarrow> length L \<le> u64_max \<and> length S \<le> u64_max
     \<and> (\<forall>a \<in> set L \<union> set S. stored s a)
     \<and> (\<forall>a. stored s a \<longrightarrow> rm_active (model_at s a) = count_list L a \<and> rm_sessions (model_at s a) = count_list S a)"

definition loaded_at :: "ResidencyState \<Rightarrow> nat \<Rightarrow> bool" where
  "loaded_at s a \<longleftrightarrow> map_of (rs_entries s) (key_at s a) = Some a"

definition sound :: "ResidencyConfig \<Rightarrow> bool \<Rightarrow> ResidencyState \<Rightarrow> nat list \<Rightarrow> nat list \<Rightarrow> bool" where
  "sound c calm s L S \<longleftrightarrow> rs_config s = c \<and> tables_ok s \<and> counters_ok s L S
     \<and> (calm \<longrightarrow> (\<forall>a \<in> set L. loaded_at s a) \<and> within_budget s)"

lemma tables_okD:
  assumes "tables_ok s"
  shows "hm_ok (rs_entries s)" "hm_ok (rs_store s)"
    and "map_of (rs_entries s) k = Some a \<Longrightarrow> stored s a"
    and "map_of (rs_entries s) k = Some a \<Longrightarrow> key_at s a = k"
    and "stored s a \<Longrightarrow> a < rs_next s"
    and "rx_loads (rs_metrics s) = rx_unloads (rs_metrics s) + length (rs_entries s)"
  using assms by (auto simp: tables_ok_def)

lemma entry_addr_stored: "tables_ok s \<Longrightarrow> a \<in> set (entry_addrs s) \<Longrightarrow> stored s a"
  by (metis hm_values_iff tables_okD(1,3))

lemma entry_addrs_distinct: "tables_ok s \<Longrightarrow> distinct (entry_addrs s)"
proof -
  assume ok: "tables_ok s"
  have "(k, a) \<in> set (rs_entries s) \<Longrightarrow> k = key_at s a" for k a
    using tables_okD(4)[OF ok] tables_okD(1)[OF ok] by (metis hm_get_in_iff)
  then have "map fst (rs_entries s) = map (key_at s) (entry_addrs s)" by (auto simp: comp_def intro!: map_cong)
  then show ?thesis using tables_okD(1)[OF ok] by (metis distinct_map hm_ok_def)
qed

lemma in_use_iff: "counters_ok s L S \<Longrightarrow> stored s a \<Longrightarrow> in_use s a \<longleftrightarrow> a \<in> set L \<union> set S"
  by (auto simp: counters_ok_def in_use_def count_list_0_iff)

section \<open>Steps that only touch a model\<close>

text \<open>What most sections leave alone.\<close>

definition keeps :: "ResidencyState \<Rightarrow> ResidencyState \<Rightarrow> bool" where
  "keeps s t \<longleftrightarrow> rs_config t = rs_config s \<and> rs_entries t = rs_entries s \<and> rs_next t = rs_next s
     \<and> rx_loads (rs_metrics t) = rx_loads (rs_metrics s) \<and> rx_unloads (rs_metrics t) = rx_unloads (rs_metrics s)
     \<and> (hm_ok (rs_store s) \<longrightarrow> hm_ok (rs_store t)) \<and> (\<forall>a. stored t a = stored s a)
     \<and> (\<forall>a. rm_record (model_at t a) = rm_record (model_at s a) \<and> rm_active (model_at t a) = rm_active (model_at s a)
          \<and> rm_sessions (model_at t a) = rm_sessions (model_at s a))"

definition lighter :: "ResidencyState \<Rightarrow> ResidencyState \<Rightarrow> bool" where
  "lighter s t \<longleftrightarrow> keeps s t \<and> (\<forall>a. device_of t a \<le> device_of s a \<and> host_of t a \<le> host_of s a)"

lemma lighter_refl: "lighter s s"
  by (simp add: lighter_def keeps_def)

lemma lighter_trans: "lighter s t \<Longrightarrow> lighter t u \<Longrightarrow> lighter s u"
  by (auto simp: lighter_def keeps_def intro: le_trans)

lemma keeps_tables: "keeps s t \<Longrightarrow> tables_ok s \<Longrightarrow> tables_ok t"
  by (simp add: keeps_def tables_ok_def)

lemma keeps_counters: "keeps s t \<Longrightarrow> counters_ok s L S \<Longrightarrow> counters_ok t L S"
  by (simp add: keeps_def counters_ok_def)

lemma keeps_loaded: "keeps s t \<Longrightarrow> loaded_at t a = loaded_at s a"
  by (simp add: keeps_def loaded_at_def model_key_def)

lemma lighter_budget: "lighter s t \<Longrightarrow> within_budget s \<Longrightarrow> within_budget t"
proof -
  assume l: "lighter s t" and b: "within_budget s"
  have "device_total t \<le> device_total s" "host_total t \<le> host_total s"
    using l by (simp_all add: lighter_def keeps_def device_total_def host_total_def hm_sum_mono)
  with b l show ?thesis by (auto simp: within_budget_def lighter_def keeps_def)
qed

lemma sound_lighter: "lighter s t \<Longrightarrow> sound c calm s L S \<Longrightarrow> sound c calm t L S"
proof -
  assume l: "lighter s t" and s: "sound c calm s L S"
  then have k: "keeps s t" by (simp add: lighter_def)
  from k have "rs_config t = rs_config s" by (simp add: keeps_def)
  with s show ?thesis
    using keeps_tables[OF k] keeps_counters[OF k] keeps_loaded[OF k] lighter_budget[OF l] by (simp add: sound_def)
qed

lemma stored_set [simp]: "stored (model_set a f s) b = (b = a \<or> stored s b)"
  by (simp add: stored_def model_set_def hm_has_def)

lemma stored_metrics [simp]: "stored (s\<lparr>rs_metrics := m\<rparr>) = stored s" "stored (s\<lparr>rs_clock := n\<rparr>) = stored s"
    "stored (s\<lparr>rs_entries := es\<rparr>) = stored s"
  by (simp_all add: stored_def fun_eq_iff)

lemma model_at_update [simp]: "model_at (s\<lparr>rs_clock := n\<rparr>) = model_at s" "model_at (s\<lparr>rs_entries := es\<rparr>) = model_at s"
  by (simp_all add: model_at_def fun_eq_iff)

lemma lighter_metrics:
  "rx_loads m = rx_loads (rs_metrics s) \<Longrightarrow> rx_unloads m = rx_unloads (rs_metrics s) \<Longrightarrow> lighter s (s\<lparr>rs_metrics := m\<rparr>)"
  by (simp add: lighter_def keeps_def device_of_def host_of_def)

lemma lighter_tick: "lighter s (tick s)"
  by (simp add: lighter_def keeps_def device_of_def host_of_def tick_def)

lemma lighter_model_set:
  assumes "stored s a" and f: "\<forall>r. rm_record (f r) = rm_record r \<and> rm_active (f r) = rm_active r \<and> rm_sessions (f r) = rm_sessions r
     \<and> op_device_bytes (effective_point (f r)) \<le> op_device_bytes (effective_point r)
     \<and> op_host_bytes (effective_point (f r)) \<le> op_host_bytes (effective_point r)"
  shows "lighter s (model_set a f s)"
proof -
  have "stored (model_set a f s) b = stored s b" for b using assms(1) by auto
  moreover have "rs_config (model_set a f s) = rs_config s" "rs_entries (model_set a f s) = rs_entries s"
      "rs_next (model_set a f s) = rs_next s" "rs_metrics (model_set a f s) = rs_metrics s"
      "hm_ok (rs_store s) \<longrightarrow> hm_ok (rs_store (model_set a f s))" by (simp_all add: model_set_def)
  ultimately show ?thesis using f by (simp add: lighter_def keeps_def device_of_def host_of_def)
qed

lemma effective_point_cong:
  "rm_point r' = rm_point r \<Longrightarrow> rm_context_resident r' = rm_context_resident r \<Longrightarrow> effective_point r' = effective_point r"
  by (simp add: effective_point_def)

lemma effective_point_spilled:
  "op_device_bytes (effective_point (r\<lparr>rm_context_resident := False\<rparr>)) \<le> op_device_bytes (effective_point r)"
  "op_host_bytes (effective_point (r\<lparr>rm_context_resident := False\<rparr>)) \<le> op_host_bytes (effective_point r)"
  by (simp_all add: effective_point_def Let_def)

lemma lighter_refresh: "lighter s (refresh_metrics s)"
  unfolding refresh_metrics_def by (rule lighter_metrics) simp_all

lemma lighter_touch: "stored s a \<Longrightarrow> lighter s (touch a s)"
  unfolding touch_def Let_def
  by (rule lighter_trans[OF lighter_tick], rule lighter_model_set)
    (simp_all add: tick_def effective_point_def)

lemma lighter_retire: "stored s a \<Longrightarrow> lighter s (retire_entry a s)"
  unfolding retire_entry_def by (rule lighter_model_set) (simp_all add: effective_point_def)

lemma lighter_spilled: "stored s a \<Longrightarrow> lighter s (spilled a n s)"
  unfolding spilled_def
  by (rule lighter_trans[OF lighter_model_set lighter_metrics]) (simp_all add: effective_point_spilled model_set_def)

lemma lighter_stored: "lighter s t \<Longrightarrow> stored t a = stored s a"
  by (simp add: lighter_def keeps_def)

lemma first_resident_in: "first_resident s idle = Some a \<Longrightarrow> a \<in> set idle"
  by (auto simp: first_resident_def find_Some_iff)

lemma lighter_spill_loop: "\<forall>a \<in> set idle. stored s a \<Longrightarrow> lighter s (fst (spill_loop demote p idle s))"
proof (induction demote p idle s rule: spill_loop.induct)
  case (1 demote p idle s)
  show ?case
  proof (cases "fits_with (rs_config s) p (points s (entry_addrs s)) \<or> first_resident s idle = None")
    case True
    then show ?thesis by (auto simp: spill_loop.simps[of demote p idle s] lighter_refl)
  next
    case False
    then obtain a where a: "first_resident s idle = Some a" and nf: "\<not> fits_with (rs_config s) p (points s (entry_addrs s))" by auto
    have st: "stored s a" using "1.prems" first_resident_in[OF a] by blast
    show ?thesis
    proof (cases "\<exists>n. demote a = Ok n \<and> n \<noteq> 0")
      case True
      then obtain n where n: "demote a = Ok n" "n \<noteq> 0" by blast
      have "\<forall>b \<in> set idle. stored (spilled a n s) b" using "1.prems" lighter_stored[OF lighter_spilled[OF st]] by blast
      from "1.IH"[OF nf a n(1) n(2) this] show ?thesis
        using nf a n by (simp add: spill_loop.simps[of demote p idle s] lighter_trans[OF lighter_spilled[OF st]])
    next
      case False
      then show ?thesis using nf a by (auto simp: spill_loop.simps[of demote p idle s] lighter_refl split: outcome.split)
    qed
  qed
qed

section \<open>Steps that change counters or entries\<close>

lemma sound_cong:
  "sound c calm s L S \<Longrightarrow> rs_config t = rs_config s \<Longrightarrow> tables_ok t \<Longrightarrow> counters_ok t L' S'
     \<Longrightarrow> (calm \<Longrightarrow> \<forall>a \<in> set L'. loaded_at t a) \<Longrightarrow> (calm \<Longrightarrow> within_budget s \<Longrightarrow> within_budget t) \<Longrightarrow> sound c calm t L' S'"
  by (simp add: sound_def)

lemma soundD:
  assumes "sound c calm s L S"
  shows "rs_config s = c" "tables_ok s" "counters_ok s L S"
    and "calm \<Longrightarrow> a \<in> set L \<Longrightarrow> loaded_at s a" and "calm \<Longrightarrow> within_budget s"
  using assms by (auto simp: sound_def)

text \<open>Removing a key whose model has no lease.\<close>

lemma unload_key_same: "\<not> hm_has (rs_entries s) k \<Longrightarrow> unload_key k s = s"
  by (simp add: unload_key_def)

lemma unload_key_fields [simp]:
  "rs_config (unload_key k s) = rs_config s" "model_at (unload_key k s) = model_at s" "stored (unload_key k s) = stored s"
  "rs_entries (unload_key k s) = hm_del k (rs_entries s)" "rs_store (unload_key k s) = rs_store s" "rs_next (unload_key k s) = rs_next s"
  by (auto simp: unload_key_def hm_has_def hm_del_absent)

lemma occupies_unload: "device_of (unload_key k s) = device_of s" "host_of (unload_key k s) = host_of s"
  by (simp_all add: device_of_def host_of_def fun_eq_iff)

lemma unload_key_tables: "tables_ok s \<Longrightarrow> tables_ok (unload_key k s)"
proof (cases "map_of (rs_entries s) k")
  case None
  assume "tables_ok s" with None show ?thesis by (simp add: unload_key_def hm_has_def)
next
  case (Some a)
  assume ok: "tables_ok s"
  have "rx_loads (rs_metrics (unload_key k s)) = rx_unloads (rs_metrics (unload_key k s)) + length (hm_del k (rs_entries s))"
    using tables_okD(6)[OF ok] hm_length_del_Suc[OF tables_okD(1)[OF ok] Some] Some by (simp add: unload_key_def hm_has_def)
  then show ?thesis using tables_okD(1-5)[OF ok] by (simp add: tables_ok_def)
qed

lemma sound_unload:
  assumes s: "sound c calm s L S" and k: "calm \<longrightarrow> (\<forall>b. map_of (rs_entries s) k = Some b \<longrightarrow> b \<notin> set L)"
  shows "sound c calm (unload_key k s) L S"
proof (rule sound_cong[OF s])
  show "tables_ok (unload_key k s)" using unload_key_tables[OF soundD(2)[OF s]] .
  show "counters_ok (unload_key k s) L S" using soundD(3)[OF s] by (simp add: counters_ok_def)
next
  assume calm
  show "\<forall>a \<in> set L. loaded_at (unload_key k s) a"
  proof
    fix a assume a: "a \<in> set L"
    from soundD(4)[OF s \<open>calm\<close> a] have "map_of (rs_entries s) (key_at s a) = Some a" by (simp add: loaded_at_def)
    with k \<open>calm\<close> a have "key_at s a \<noteq> k" by blast
    with soundD(4)[OF s \<open>calm\<close> a] show "loaded_at (unload_key k s) a" by (simp add: loaded_at_def)
  qed
next
  assume b: "within_budget s"
  have "hm_sum f (hm_del k (rs_entries s)) \<le> hm_sum f (rs_entries s)" for f
    using hm.total_drop_mono[OF tables_okD(1)[OF soundD(2)[OF s]]] by (cases "map_of (rs_entries s) k") (auto simp: hm_del_absent)
  then have "device_total (unload_key k s) \<le> device_total s" "host_total (unload_key k s) \<le> host_total s"
    by (simp_all add: device_total_def host_total_def occupies_unload)
  with b show "within_budget (unload_key k s)" by (auto simp: within_budget_def)
qed simp

text \<open>Counting a lease or a session in or out.\<close>

lemma sound_counter:
  assumes s: "sound c calm s L S" and a: "stored s a"
    and f: "\<forall>r. rm_record (f r) = rm_record r \<and> rm_point (f r) = rm_point r \<and> rm_context_resident (f r) = rm_context_resident r"
    and n: "rm_active (f (model_at s a)) = count_list L' a" "rm_sessions (f (model_at s a)) = count_list S' a"
    and rest: "\<forall>b. b \<noteq> a \<longrightarrow> count_list L' b = count_list L b \<and> count_list S' b = count_list S b"
    and len: "length L' \<le> u64_max" "length S' \<le> u64_max"
    and sub: "set L' \<union> set S' \<subseteq> insert a (set L \<union> set S)" and la: "calm \<longrightarrow> (\<forall>b \<in> set L'. loaded_at s b)"
  shows "sound c calm (model_set a f s) L' S'"
proof (rule sound_cong[OF s])
  have sets: "rs_config (model_set a f s) = rs_config s" "rs_entries (model_set a f s) = rs_entries s"
    "rs_next (model_set a f s) = rs_next s" "rs_metrics (model_set a f s) = rs_metrics s"
    "hm_ok (rs_store s) \<longrightarrow> hm_ok (rs_store (model_set a f s))" by (simp_all add: model_set_def)
  have st: "stored (model_set a f s) b = stored s b" for b using a by auto
  have key: "key_at (model_set a f s) b = key_at s b" for b using f by (simp add: model_key_def)
  show "rs_config (model_set a f s) = rs_config s" by (rule sets)
  show "tables_ok (model_set a f s)" using soundD(2)[OF s] sets by (simp add: tables_ok_def st key del: stored_set model_at_set)
  show "counters_ok (model_set a f s) L' S'"
  proof -
    have "rm_active (model_at (model_set a f s) b) = count_list L' b \<and> rm_sessions (model_at (model_set a f s) b) = count_list S' b"
      if "stored s b" for b
      using soundD(3)[OF s] rest n that by (cases "b = a") (simp_all add: counters_ok_def)
    moreover have "\<forall>b \<in> set L' \<union> set S'. stored s b" using sub soundD(3)[OF s] a by (auto simp: counters_ok_def)
    ultimately show ?thesis unfolding counters_ok_def st using len by blast
  qed
  show "\<forall>b \<in> set L'. loaded_at (model_set a f s) b" if calm
    using la that by (auto simp: loaded_at_def sets key simp del: model_at_set)
  have point: "effective_point (model_at (model_set a f s) b) = effective_point (model_at s b)" for b
    using f by (auto intro: effective_point_cong)
  have "device_of (model_set a f s) = device_of s" "host_of (model_set a f s) = host_of s"
    by (rule ext, simp only: device_of_def host_of_def point)+
  then show "within_budget (model_set a f s)" if "within_budget s"
    using that by (simp only: within_budget_def device_total_def host_total_def sets)
qed

lemma count_remove1: "count_list (remove1 a xs) b = count_list xs b - (if b = a then 1 else 0)"
  by (induction xs) (auto simp: count_list_0_iff)

lemma count_le: "count_list xs a \<le> length xs"
  by (induction xs) auto

lemma count_pos: "a \<in> set xs \<Longrightarrow> 0 < count_list xs a"
  by (metis count_list_0_iff gr0I)

lemma counters_okD:
  assumes "counters_ok s L S" "stored s a"
  shows "rm_active (model_at s a) = count_list L a" "rm_sessions (model_at s a) = count_list S a"
    and "rm_active (model_at s a) \<le> length L" "rm_sessions (model_at s a) \<le> length S"
  using assms count_le[of L a] count_le[of S a] by (auto simp: counters_ok_def)

lemma wrapping_inc: "n < u64_max \<Longrightarrow> wrapping_add n 1 = Suc n"
  by (simp add: u64_max_def)

lemma sound_lease_inc:
  assumes s: "sound c calm s L S" and a: "stored s a" "loaded_at s a" and n: "length L < u64_max"
  shows "sound c calm (lease_inc a s) (a # L) S"
  unfolding lease_inc_def
proof (rule sound_counter[OF s a(1)])
  note co = counters_okD[OF soundD(3)[OF s] a(1)]
  show "rm_active (model_at s a\<lparr>rm_active := wrapping_add (rm_active (model_at s a)) 1\<rparr>) = count_list (a # L) a"
    using wrapping_inc[of "rm_active (model_at s a)"] co(1,3) n by simp
  show "rm_sessions (model_at s a\<lparr>rm_active := wrapping_add (rm_active (model_at s a)) 1\<rparr>) = count_list S a"
    using co(2) by simp
qed (use n a soundD(3)[OF s] soundD(4)[OF s] in \<open>auto simp: counters_ok_def\<close>)

lemma sound_session_inc:
  assumes s: "sound c calm s L S" and a: "a \<in> set L" and n: "length S < u64_max"
  shows "sound c calm (session_inc a s) L (a # S)"
  unfolding session_inc_def
proof (rule sound_counter[OF s])
  show st: "stored s a" using a soundD(3)[OF s] by (auto simp: counters_ok_def)
  note co = counters_okD[OF soundD(3)[OF s] st]
  show "rm_active (model_at s a\<lparr>rm_sessions := wrapping_add (rm_sessions (model_at s a)) 1\<rparr>) = count_list L a"
    using co(1) by simp
  show "rm_sessions (model_at s a\<lparr>rm_sessions := wrapping_add (rm_sessions (model_at s a)) 1\<rparr>) = count_list (a # S) a"
    using wrapping_inc[of "rm_sessions (model_at s a)"] co(2,4) n by simp
  show "calm \<longrightarrow> (\<forall>b \<in> set L. loaded_at s b)" using soundD(4)[OF s] by blast
qed (use n soundD(3)[OF s] in \<open>auto simp: counters_ok_def\<close>)

lemma sound_lease_dec:
  assumes s: "sound c calm s L S" and a: "a \<in> set L"
  shows "sound c calm (lease_dec a s) (remove1 a L) S"
  unfolding lease_dec_def
proof (rule sound_counter[OF s])
  show st: "stored s a" using a soundD(3)[OF s] by (auto simp: counters_ok_def)
  note co = counters_okD[OF soundD(3)[OF s] st]
  show "rm_active (model_at s a\<lparr>rm_active := wrapping_dec (rm_active (model_at s a))\<rparr>) = count_list (remove1 a L) a"
    using co(1) count_pos[OF a] by (simp add: count_remove1)
  show "rm_sessions (model_at s a\<lparr>rm_active := wrapping_dec (rm_active (model_at s a))\<rparr>) = count_list S a"
    using co(2) by simp
  show "calm \<longrightarrow> (\<forall>b \<in> set (remove1 a L). loaded_at s b)"
    using soundD(4)[OF s] set_remove1_subset[of a L] by blast
  have "length L \<le> u64_max" using soundD(3)[OF s] by (simp add: counters_ok_def)
  then show "length (remove1 a L) \<le> u64_max" using a by (simp add: length_remove1)
  show "set (remove1 a L) \<union> set S \<subseteq> insert a (set L \<union> set S)" using set_remove1_subset[of a L] by blast
qed (use soundD(3)[OF s] in \<open>auto simp: counters_ok_def count_remove1\<close>)

lemma sound_session_dec:
  assumes s: "sound c calm s L S" and a: "a \<in> set S"
  shows "sound c calm (session_dec a s) L (remove1 a S)"
  unfolding session_dec_def
proof (rule sound_counter[OF s])
  show st: "stored s a" using a soundD(3)[OF s] by (auto simp: counters_ok_def)
  note co = counters_okD[OF soundD(3)[OF s] st]
  show "rm_active (model_at s a\<lparr>rm_sessions := wrapping_dec (rm_sessions (model_at s a))\<rparr>) = count_list L a"
    using co(1) by simp
  show "rm_sessions (model_at s a\<lparr>rm_sessions := wrapping_dec (rm_sessions (model_at s a))\<rparr>) = count_list (remove1 a S) a"
    using co(2) count_pos[OF a] by (simp add: count_remove1)
  show "calm \<longrightarrow> (\<forall>b \<in> set L. loaded_at s b)" using soundD(4)[OF s] by blast
  have "length S \<le> u64_max" using soundD(3)[OF s] by (simp add: counters_ok_def)
  then show "length (remove1 a S) \<le> u64_max" using a by (simp add: length_remove1)
  show "set L \<union> set (remove1 a S) \<subseteq> insert a (set L \<union> set S)" using set_remove1_subset[of a S] by blast
qed (use soundD(3)[OF s] in \<open>auto simp: counters_ok_def count_remove1\<close>)

section \<open>The critical sections\<close>

lemma sound_load_lookup: "sound c calm s L S \<Longrightarrow> sound c calm (fst (load_lookup model s)) L S"
proof (cases "map_of (rs_entries s) (model_key model)")
  case None
  assume "sound c calm s L S" with None show ?thesis by (simp add: load_lookup_def)
next
  case (Some a)
  assume s: "sound c calm s L S"
  have a: "stored s a" using tables_okD(3)[OF soundD(2)[OF s] Some] .
  have "lighter s (touch a s)" using a by (rule lighter_touch)
  then have "lighter s (map_metrics (\<lambda>m. m\<lparr>rx_reuses := rx_reuses m + 1\<rparr>) (touch a s))"
    by (rule lighter_trans) (rule lighter_metrics, simp_all)
  then show ?thesis using s Some by (simp add: load_lookup_def touch_def Let_def sound_lighter)
qed

lemma set_by_last_use [simp]: "set (by_last_use s as) = set as"
  by (simp add: by_last_use_def)

lemma idle_stored: "tables_ok s \<Longrightarrow> a \<in> set (idle_models s) \<Longrightarrow> stored s a"
  using entry_addr_stored by (auto simp: idle_models_def)

lemma sound_select_victims: "sound c calm s L S \<Longrightarrow> sound c calm (fst (select_victims demote p model s)) L S"
proof -
  assume s: "sound c calm s L S"
  define idle where "idle = by_last_use s (filter (\<lambda>a. mr_id (rm_record (model_at s a)) \<noteq> mr_id model) (idle_models s))"
  have "\<forall>a \<in> set idle. stored s a" using idle_stored[OF soundD(2)[OF s]] by (auto simp: idle_def)
  from sound_lighter[OF lighter_spill_loop[OF this] s]
  have l: "sound c calm (fst (spill_loop demote p idle s)) L S" .
  have "fst (select_victims demote p model s) = fst (spill_loop demote p idle s)"
    by (auto simp: select_victims_def Let_def idle_def and_then_def split: outcome.split)
  with l show ?thesis by simp
qed

lemma lighter_failure: "lighter s (failure s)"
  unfolding failure_def by (rule lighter_metrics) simp_all

text \<open>Removing the victims: the keys of those go on which nothing executes.\<close>

lemma unload_victims:
  "rs_entries (fold unload_victim vs s)
      = filter (\<lambda>(k, a). k \<notin> key_at s ` {v \<in> set vs. rm_active (model_at s v) = 0}) (rs_entries s)
    \<and> model_at (fold unload_victim vs s) = model_at s \<and> rs_config (fold unload_victim vs s) = rs_config s"
proof (induction vs arbitrary: s)
  case Nil
  then show ?case by (simp add: case_prod_unfold)
next
  case (Cons v vs)
  show ?case
  proof (cases "rm_active (model_at s v) = 0")
    case True
    let ?t = "unload_key (key_at s v) s"
    have "fold unload_victim (v # vs) s = fold unload_victim vs ?t" using True by (simp add: unload_victim_def)
    moreover have "filter (\<lambda>(k, a). k \<notin> key_at ?t ` {u \<in> set vs. rm_active (model_at ?t u) = 0}) (rs_entries ?t)
        = filter (\<lambda>(k, a). k \<notin> key_at s ` {u \<in> set (v # vs). rm_active (model_at s u) = 0}) (rs_entries s)"
      using True by (auto simp: hm_del_def case_prod_unfold intro!: filter_cong)
    ultimately show ?thesis using Cons.IH[of ?t] by simp
  next
    case False
    then have "{u \<in> set (v # vs). rm_active (model_at s u) = 0} = {u \<in> set vs. rm_active (model_at s u) = 0}" by auto
    moreover have "fold unload_victim (v # vs) s = fold unload_victim vs s" using False by (simp add: unload_victim_def)
    ultimately show ?thesis using Cons.IH[of s] by simp
  qed
qed

lemma sound_unload_victims:
  assumes "sound c calm s L S" and vs: "\<forall>v \<in> set vs. stored s v" and "calm \<longrightarrow> unreplaced s vs"
  shows "sound c calm (fold unload_victim vs s) L S"
  using assms
proof (induction vs arbitrary: s)
  case (Cons v vs)
  note s = Cons.prems(1)
  have v: "stored s v" using Cons.prems(2) by simp
  have free: "b \<notin> set L" if "calm" "map_of (rs_entries s) (key_at s v) = Some b" "rm_active (model_at s v) = 0" for b
  proof -
    from Cons.prems(3) that(1,2) have "b = v" by (auto simp: unreplaced_def not_replaced_def)
    with counters_okD(1)[OF soundD(3)[OF s] v] that(3) show ?thesis by (simp add: count_list_0_iff)
  qed
  have 1: "sound c calm (unload_victim v s) L S"
    unfolding unload_victim_def using sound_unload[OF s, of "key_at s v"] s free by auto
  have same: "model_at (unload_victim v s) = model_at s" "stored (unload_victim v s) = stored s"
    by (simp_all add: unload_victim_def)
  have "not_replaced (unload_victim v s) u" if "not_replaced s u" for u
    using that by (simp add: not_replaced_def same unload_victim_def split: option.splits)
  then have "calm \<longrightarrow> unreplaced (unload_victim v s) vs"
    using Cons.prems(3) by (auto simp: unreplaced_def list_all_iff)
  moreover have "\<forall>u \<in> set vs. stored (unload_victim v s) u" using Cons.prems(2) same by simp
  ultimately show ?case using Cons.IH[OF 1] by simp
qed simp

text \<open>Adding the loaded model.\<close>

definition new_model :: "ModelRecord \<Rightarrow> nat \<Rightarrow> OperatingPoint \<Rightarrow> nat \<Rightarrow> ResidentModel" where
  "new_model model engine p n = \<lparr>rm_record = model, rm_engine = engine, rm_point = p, rm_active = 0, rm_sessions = 0,
     rm_retiring = False, rm_context_resident = True, rm_last_used = n\<rparr>"

lemma sound_add_entry:
  assumes s: "sound c calm s L S" and new: "map_of (rs_entries s) (model_key model) = None"
    and fits: "calm \<Longrightarrow> fits_with (rs_config s) p (points s (entry_addrs s))"
  shows "sound c calm (add_entry model engine p s) L S"
proof -
  note t = soundD(2)[OF s] and co = soundD(3)[OF s]
  define u where "u = s\<lparr>rs_clock := rs_clock (tick s),
      rs_store := hm_put (rs_next s) (new_model model engine p (rs_clock (tick s))) (rs_store s),
      rs_entries := hm_put (model_key model) (rs_next s) (rs_entries s), rs_next := rs_next s + 1,
      rs_metrics := (rs_metrics s)\<lparr>rx_loads := rx_loads (rs_metrics s) + 1\<rparr>\<rparr>"
  have eq: "add_entry model engine p s = refresh_metrics u"
    by (simp add: add_entry_def u_def tick_def new_model_def Let_def)
  have fresh: "\<not> stored s (rs_next s)" using tables_okD(5)[OF t] by blast
  have st: "stored u b \<longleftrightarrow> b = rs_next s \<or> stored s b" for b by (simp add: u_def stored_def hm_has_def)
  have at: "model_at u b = (if b = rs_next s then new_model model engine p (rs_clock (tick s)) else model_at s b)" for b
    by (simp add: u_def model_at_def)
  have ent: "map_of (rs_entries u) = (map_of (rs_entries s))(model_key model \<mapsto> rs_next s)" by (simp add: u_def)
  have nx: "rs_next u = Suc (rs_next s)" by (simp add: u_def)
  have old: "b \<noteq> rs_next s" if "stored s b" for b using that fresh by blast
  have "tables_ok u"
    unfolding tables_ok_def
  proof (intro conjI allI impI)
    show "hm_ok (rs_entries u)" "hm_ok (rs_store u)" using tables_okD(1,2)[OF t] by (simp_all add: u_def)
    show "stored u a" "key_at u a = k" if "map_of (rs_entries u) k = Some a" for k a
      using that tables_okD(3,4)[OF t] old by (auto simp: ent st at new_model_def split: if_splits)
    show "a < rs_next u" if "stored u a" for a
      using that tables_okD(5)[OF t, of a] by (auto simp: st nx)
    show "rx_loads (rs_metrics u) = rx_unloads (rs_metrics u) + length (rs_entries u)"
      using tables_okD(6)[OF t] hm_length_put_new[OF tables_okD(1)[OF t] new] by (simp add: u_def)
  qed
  moreover have "counters_ok u L S"
  proof -
    have "count_list L (rs_next s) = 0" "count_list S (rs_next s) = 0"
      using co fresh by (auto simp: counters_ok_def count_list_0_iff)
    then show ?thesis using co by (auto simp: counters_ok_def st at new_model_def)
  qed
  moreover have "loaded_at u a" if calm "a \<in> set L" for a
  proof -
    from soundD(4)[OF s that] have l: "map_of (rs_entries s) (key_at s a) = Some a" by (simp add: loaded_at_def)
    have "a \<noteq> rs_next s" using old[OF tables_okD(3)[OF t l]] .
    then show ?thesis using l new by (auto simp: loaded_at_def ent at)
  qed
  moreover have "within_budget u" if calm
  proof -
    have dev: "hm_sum (device_of u) (rs_entries s) = hm_sum (device_of s) (rs_entries s)"
      "hm_sum (host_of u) (rs_entries s) = hm_sum (host_of s) (rs_entries s)"
      using entry_addr_stored[OF t] old by (auto simp: device_of_def host_of_def at intro!: hm_sum_cong)
    have "device_total u = op_device_bytes p + device_total s" "host_total u = op_host_bytes p + host_total s"
      using hm_sum_put_new[OF tables_okD(1)[OF t] new] dev
      by (simp_all add: device_total_def host_total_def u_def[THEN arg_cong, of rs_entries] device_of_def host_of_def at
          new_model_def effective_point_def)
    then show ?thesis using fits_with_bounds[OF fits[OF that], unfolded points_device points_host]
      by (simp add: within_budget_def device_total_def host_total_def hm_sum_def u_def)
  qed
  moreover have "rs_config u = rs_config s" by (simp add: u_def)
  ultimately have "sound c calm u L S" using soundD(1)[OF s] by (simp add: sound_def)
  then show ?thesis unfolding eq by (rule sound_lighter[OF lighter_refresh])
qed

lemma unload_victims_absent: "map_of (rs_entries s) k = None \<Longrightarrow> map_of (rs_entries (fold unload_victim vs s)) k = None"
proof (induction vs arbitrary: s)
  case (Cons v vs)
  have "map_of (rs_entries (unload_victim v s)) k = None" using Cons.prems by (simp add: unload_victim_def)
  from Cons.IH[OF this] show ?case by simp
qed simp

text \<open>What the last section counts as retained is what is left when the victims are gone.\<close>

lemma retained_under_calm:
  assumes t: "tables_ok s" and i: "unreplaced s vs"
  shows "points s (retained_addrs vs s) = points (fold unload_victim vs s) (entry_addrs (fold unload_victim vs s))"
proof -
  have same: "filter (\<lambda>(k, a). k \<notin> key_at s ` set vs \<or> rm_active (model_at s a) \<noteq> 0) (rs_entries s)
      = filter (\<lambda>(k, a). k \<notin> key_at s ` {v \<in> set vs. rm_active (model_at s v) = 0}) (rs_entries s)"
  proof (rule filter_cong[OF refl])
    fix x assume "x \<in> set (rs_entries s)"
    then have e: "map_of (rs_entries s) (fst x) = Some (snd x)" using tables_okD(1)[OF t] by (simp add: hm_get_in_iff)
    have own: "v = snd x" if "v \<in> set vs" "fst x = key_at s v" for v
      using i that e by (auto simp: unreplaced_def not_replaced_def list_all_iff)
    have "fst x \<notin> key_at s ` set vs \<or> rm_active (model_at s (snd x)) \<noteq> 0
        \<longleftrightarrow> fst x \<notin> key_at s ` {v \<in> set vs. rm_active (model_at s v) = 0}"
    proof
      assume l: "fst x \<notin> key_at s ` set vs \<or> rm_active (model_at s (snd x)) \<noteq> 0"
      show "fst x \<notin> key_at s ` {v \<in> set vs. rm_active (model_at s v) = 0}"
      proof
        assume "fst x \<in> key_at s ` {v \<in> set vs. rm_active (model_at s v) = 0}"
        then obtain v where v: "v \<in> set vs" "rm_active (model_at s v) = 0" "fst x = key_at s v" by auto
        with own[OF v(1,3)] l show False by auto
      qed
    next
      assume r: "fst x \<notin> key_at s ` {v \<in> set vs. rm_active (model_at s v) = 0}"
      show "fst x \<notin> key_at s ` set vs \<or> rm_active (model_at s (snd x)) \<noteq> 0"
      proof (rule disjCI)
        assume "\<not> rm_active (model_at s (snd x)) \<noteq> 0"
        then show "fst x \<notin> key_at s ` set vs" using r own by (metis (mono_tags, lifting) imageE image_eqI mem_Collect_eq)
      qed
    qed
    then show "(case x of (k, a) \<Rightarrow> k \<notin> key_at s ` set vs \<or> rm_active (model_at s a) \<noteq> 0)
        = (case x of (k, a) \<Rightarrow> k \<notin> key_at s ` {v \<in> set vs. rm_active (model_at s v) = 0})"
      unfolding case_prod_unfold by argo
  qed
  from unload_victims[of vs s] have
    "rs_entries (fold unload_victim vs s) = filter (\<lambda>(k, a). k \<notin> key_at s ` {v \<in> set vs. rm_active (model_at s v) = 0}) (rs_entries s)"
    "model_at (fold unload_victim vs s) = model_at s" by blast+
  then show ?thesis by (simp only: retained_addrs_def same)
qed

text \<open>What the last section of \<open>load\<close> can do: nothing but count, or unload the victims and add the model.\<close>

lemma load_commit_cases:
  "lighter s (fst (load_commit model est vs loaded checked published s))
   \<or> (\<exists>engine p. fst (load_commit model est vs loaded checked published s) = add_entry model engine p (fold unload_victim vs s)
        \<and> map_of (rs_entries s) (model_key model) = None \<and> fits_with (rs_config s) p (points s (retained_addrs vs s)))"
proof -
  have reuse: "lighter s (map_metrics (\<lambda>m. m\<lparr>rx_reuses := rx_reuses m + 1\<rparr>) s)" by (rule lighter_metrics) simp_all
  show ?thesis
    unfolding load_commit_def Let_def
    by (auto simp: lighter_failure lighter_refl reuse[simplified] split: outcome.split option.split prod.split)
qed

lemma sound_load_commit:
  assumes s: "sound c calm s L S" and vs: "\<forall>v \<in> set vs. stored s v" and calm: "calm \<longrightarrow> unreplaced s vs"
  shows "sound c calm (fst (load_commit model est vs loaded checked published s)) L S"
proof (rule disjE[OF load_commit_cases[of s model est vs loaded checked published]])
  assume "lighter s (fst (load_commit model est vs loaded checked published s))"
  then show ?thesis using s by (rule sound_lighter)
next
  assume "\<exists>engine p. fst (load_commit model est vs loaded checked published s) = add_entry model engine p (fold unload_victim vs s)
        \<and> map_of (rs_entries s) (model_key model) = None \<and> fits_with (rs_config s) p (points s (retained_addrs vs s))"
  then obtain engine p where added: "fst (load_commit model est vs loaded checked published s) = add_entry model engine p (fold unload_victim vs s)"
      "map_of (rs_entries s) (model_key model) = None" "fits_with (rs_config s) p (points s (retained_addrs vs s))" by blast
  let ?t = "fold unload_victim vs s"
  have t: "sound c calm ?t L S" using s vs calm by (rule sound_unload_victims)
  have "rs_config ?t = rs_config s" using soundD(1)[OF t] soundD(1)[OF s] by simp
  then have "fits_with (rs_config ?t) p (points ?t (entry_addrs ?t))" if calm
    using retained_under_calm[OF soundD(2)[OF s]] calm that added(3) by metis
  then show ?thesis using sound_add_entry[OF t unload_victims_absent[OF added(2)]] added(1) by metis
qed

text \<open>Bringing the context of the model at \<open>t\<close> back.\<close>

lemma sound_reloaded:
  assumes s: "sound c calm s L S" and t: "map_of (rs_entries s) k = Some t"
    and fits: "fits_with (rs_config s) (rm_point (model_at s t)) (points s (others t s))"
  shows "sound c calm (reloaded t s) L S"
proof -
  note ok = soundD(2)[OF s]
  have st: "stored s t" using tables_okD(3)[OF ok t] .
  have same: "rs_config (reloaded t s) = rs_config s" "rs_entries (reloaded t s) = rs_entries s"
    by (simp_all add: reloaded_def model_set_def)
  have k: "keeps s (reloaded t s)"
  proof -
    have "stored (reloaded t s) b = stored s b" for b using st by (auto simp: reloaded_def)
    moreover have "hm_ok (rs_store s) \<longrightarrow> hm_ok (rs_store (reloaded t s))" by (simp add: reloaded_def model_set_def)
    moreover have "rs_next (reloaded t s) = rs_next s" "rx_loads (rs_metrics (reloaded t s)) = rx_loads (rs_metrics s)"
      "rx_unloads (rs_metrics (reloaded t s)) = rx_unloads (rs_metrics s)" by (simp_all add: reloaded_def model_set_def)
    ultimately show ?thesis unfolding keeps_def same by (simp add: reloaded_def)
  qed
  have mem: "t \<in> set (entry_addrs s)" using t tables_okD(1)[OF ok] hm_values_iff by metis
  have "within_budget (reloaded t s)"
  proof -
    have at: "device_of (reloaded t s) a = (if a = t then op_device_bytes (rm_point (model_at s t)) else device_of s a)"
      "host_of (reloaded t s) a = (if a = t then op_host_bytes (rm_point (model_at s t)) else host_of s a)" for a
      by (simp_all add: device_of_def host_of_def reloaded_def effective_point_def)
    have rest: "sum_list (map (device_of (reloaded t s)) (others t s)) = sum_list (map (device_of s) (others t s))"
      "sum_list (map (host_of (reloaded t s)) (others t s)) = sum_list (map (host_of s) (others t s))"
      by (auto simp: at others_def intro!: arg_cong[where f = sum_list])
    have tot: "device_total (reloaded t s) = op_device_bytes (rm_point (model_at s t)) + sum_list (map (device_of s) (others t s))"
      "host_total (reloaded t s) = op_host_bytes (rm_point (model_at s t)) + sum_list (map (host_of s) (others t s))"
      using sum_list_split[OF entry_addrs_distinct[OF ok] mem, of "device_of (reloaded t s)"]
        sum_list_split[OF entry_addrs_distinct[OF ok] mem, of "host_of (reloaded t s)"] rest
      by (simp_all add: device_total_def host_total_def hm_sum_def same at others_def)
    show ?thesis using fits_with_bounds[OF fits, unfolded points_device points_host]
      unfolding within_budget_def tot same by blast
  qed
  then show ?thesis using s keeps_tables[OF k] keeps_counters[OF k] keeps_loaded[OF k] same by (simp add: sound_def)
qed

lemma sound_reload_loop:
  assumes "sound c calm s L S" "loaded_at s t" "\<forall>a \<in> set idle. stored s a"
  shows "sound c calm (fst (reload_loop demote t idle s)) L S \<and> loaded_at (fst (reload_loop demote t idle s)) t"
  using assms
proof (induction demote t idle s rule: reload_loop.induct)
  case (1 demote t idle s)
  note s = "1.prems"(1) and t = "1.prems"(2)[unfolded loaded_at_def]
  consider (fits) "fits_with (rs_config s) (rm_point (model_at s t)) (points s (others t s))"
    | (again) a n where "\<not> fits_with (rs_config s) (rm_point (model_at s t)) (points s (others t s))"
        "first_resident s idle = Some a" "demote a = Ok n" "n \<noteq> 0"
    | (stop) "fst (reload_loop demote t idle s) = s"
    by (cases "fits_with (rs_config s) (rm_point (model_at s t)) (points s (others t s))"; cases "first_resident s idle";
        cases "demote (the (first_resident s idle))"; cases "demote (the (first_resident s idle)) = Ok 0")
      (auto simp: reload_loop.simps[of demote t idle s] split: outcome.splits if_splits)
  then show ?case
  proof cases
    case fits
    have "keeps s (reloaded t s)" "loaded_at (reloaded t s) t"
      using tables_okD(3)[OF soundD(2)[OF s] t] t by (auto simp: reloaded_def loaded_at_def keeps_def model_set_def stored_def hm_has_def model_at_def)
    then show ?thesis using sound_reloaded[OF s t fits] fits by (simp add: reload_loop.simps[of demote t idle s])
  next
    case again
    have st: "stored s a" using "1.prems"(3) first_resident_in[OF again(2)] by blast
    note l = lighter_spilled[OF st, of n]
    have k: "keeps s (spilled a n s)" using l by (simp add: lighter_def)
    have "\<forall>b \<in> set idle. stored (spilled a n s) b" using "1.prems"(3) lighter_stored[OF l] by blast
    moreover have "loaded_at (spilled a n s) t" using keeps_loaded[OF k] "1.prems"(2) by simp
    ultimately show ?thesis
      using "1.IH"[OF again sound_lighter[OF l s]] again by (simp add: reload_loop.simps[of demote t idle s])
  next
    case stop
    then show ?thesis using s "1.prems"(2) by simp
  qed
qed

text \<open>Acquiring: a lease is granted on a loaded model only.\<close>

lemma sound_acquire_entry:
  assumes s: "sound c calm s L S" and t: "stored s t" and n: "length L < u64_max" and r: "acquire_entry demote t s = (s', r)"
  shows "sound c calm s' (if r = Ok True then t # L else L) S"
proof (cases "loaded_at s t")
  case False
  then have "s' = s" "r = Ok False"
    using r by (auto simp: acquire_entry_def loaded_at_def split: option.splits if_splits)
  with s show ?thesis by simp
next
  case True
  define idle where "idle = by_last_use s (filter (\<lambda>a. a \<noteq> t \<and> rm_context_resident (model_at s a)) (idle_models s))"
  define q where "q = (if rm_context_resident (model_at s t) then (s, Ok ()) else reload_loop demote t idle s)"
  have "\<forall>a \<in> set idle. stored s a" using idle_stored[OF soundD(2)[OF s]] by (auto simp: idle_def)
  then have q: "sound c calm (fst q) L S" "loaded_at (fst q) t"
    using sound_reload_loop[OF s True] s True by (auto simp: q_def)
  have r': "and_then q (\<lambda>_ s1. (refresh_metrics (touch t (lease_inc t s1)), Ok True)) = (s', r)"
    using r True[unfolded loaded_at_def] unfolding acquire_entry_def q_def idle_def by simp
  show ?thesis
  proof (cases "snd q")
    case (Ok u)
    have st: "stored (fst q) t" using tables_okD(3)[OF soundD(2)[OF q(1)]] q(2) by (simp add: loaded_at_def)
    have "sound c calm (lease_inc t (fst q)) (t # L) S" using q(1) st q(2) n by (rule sound_lease_inc)
    moreover have "stored (lease_inc t (fst q)) t" by (simp add: lease_inc_def)
    ultimately have "sound c calm (refresh_metrics (touch t (lease_inc t (fst q)))) (t # L) S"
      by (blast intro: sound_lighter lighter_touch lighter_refresh)
    with r' Ok show ?thesis by (auto simp: and_then_def)
  qed (use r' q in \<open>auto simp: and_then_def\<close>)
qed

lemma sound_refresh: "sound c calm s L S \<Longrightarrow> sound c calm (refresh_metrics s) L S"
  by (rule sound_lighter[OF lighter_refresh])

lemma sound_settle_entry:
  assumes s: "sound c calm s L S" and a: "stored s a" and "calm \<longrightarrow> not_replaced s a"
  shows "sound c calm (settle_entry a s) L S"
proof -
  have "sound c calm (unload_key (key_at s a) s) L S" if "\<not> in_use s a"
  proof (rule sound_unload[OF s], intro impI allI)
    fix b assume calm "map_of (rs_entries s) (key_at s a) = Some b"
    with assms(3) have "b = a" by (simp add: not_replaced_def)
    with that show "b \<notin> set L" using in_use_iff[OF soundD(3)[OF s] a] by blast
  qed
  then show ?thesis unfolding settle_entry_def using s by (simp add: sound_refresh)
qed

text \<open>Retiring a model under its own key.\<close>

lemma in_use_retire [simp]: "in_use (retire_entry a s) b = in_use s b"
  by (simp add: retire_entry_def in_use_def)

lemma sound_retire_entry: "sound c calm s L S \<Longrightarrow> stored s a \<Longrightarrow> sound c calm (retire_entry a s) L S"
  by (rule sound_lighter[OF lighter_retire])

lemma retire_entry_entries [simp]: "rs_entries (retire_entry a s) = rs_entries s"
  by (simp add: retire_entry_def model_set_def)

lemma sound_retire_unload:
  assumes s: "sound c calm s L S" and a: "stored s a" "\<not> in_use s a" and k: "\<forall>b. map_of (rs_entries s) k = Some b \<longrightarrow> b = a"
  shows "sound c calm (unload_key k (retire_entry a s)) L S"
  by (rule sound_unload[OF sound_retire_entry[OF s a(1)]]) (use k a in_use_iff[OF soundD(3)[OF s] a(1)] in auto)

lemma sound_retire_model: "sound c calm s L S \<Longrightarrow> sound c calm (retire_model i e s) L S"
proof (cases "map_of (rs_entries s) (i, e)")
  case None
  assume "sound c calm s L S" with None show ?thesis by (simp add: retire_model_def sound_refresh)
next
  case (Some a)
  assume s: "sound c calm s L S"
  have "stored s a" using tables_okD(3)[OF soundD(2)[OF s] Some] .
  then show ?thesis using sound_retire_unload[OF s] sound_retire_entry[OF s] Some
    by (simp add: retire_model_def Let_def sound_refresh)
qed

lemma sound_retire_other_epochs: "sound c calm s L S \<Longrightarrow> sound c calm (retire_other_epochs model s) L S"
proof -
  assume s: "sound c calm s L S"
  let ?P = "\<lambda>t. sound c calm t L S \<and> map_of (rs_entries t) \<subseteq>\<^sub>m map_of (rs_entries s) \<and> (\<forall>a. stored s a \<longrightarrow> stored t a)"
  have step: "?P (retire_other (k, a) t)" if ka: "map_of (rs_entries s) k = Some a" and t: "?P t" for k a t
  proof -
    have st: "stored t a" using t tables_okD(3)[OF soundD(2)[OF s] ka] by blast
    have key: "\<forall>b. map_of (rs_entries t) k = Some b \<longrightarrow> b = a" using t ka by (auto simp: map_le_def dom_def)
    have m: "lighter u (map_metrics (\<lambda>m. m\<lparr>rx_reloads := rx_reloads m + 1\<rparr>) u)" for u by (rule lighter_metrics) simp_all
    have "sound c calm (retire_other (k, a) t) L S"
      using sound_retire_unload[OF t[THEN conjunct1] st _ key] sound_retire_entry[OF t[THEN conjunct1] st] sound_lighter[OF m]
      by (simp add: retire_other_def Let_def)
    moreover have "map_of (rs_entries (retire_other (k, a) t)) \<subseteq>\<^sub>m map_of (rs_entries t)"
      by (auto simp: retire_other_def Let_def map_le_def)
    moreover have "stored (retire_other (k, a) t) b" if "stored t b" for b
      using that by (auto simp: retire_other_def Let_def retire_entry_def)
    ultimately show ?thesis using t map_le_trans by blast
  qed
  have "?P (fold retire_other (filter (\<lambda>((i, e), _). i = mr_id model \<and> e \<noteq> mr_epoch model) (rs_entries s)) s)"
  proof (rule fold_invariant[where Q = "\<lambda>(k, a). map_of (rs_entries s) k = Some a"])
    show "case x of (k, a) \<Rightarrow> map_of (rs_entries s) k = Some a"
      if "x \<in> set (filter (\<lambda>((i, e), _). i = mr_id model \<and> e \<noteq> mr_epoch model) (rs_entries s))" for x
      using that hm_get_in_iff[OF tables_okD(1)[OF soundD(2)[OF s]], of "fst x" "snd x"] unfolding set_filter by (simp add: case_prod_unfold)
    show "?P s" using s by simp
  qed (use step in auto)
  then show ?thesis by (simp add: retire_other_epochs_def sound_refresh)
qed

section \<open>The machine\<close>

definition residency_inv :: "bool \<Rightarrow> ResidencyConfig \<Rightarrow> Residency \<Rightarrow> bool" where
  "residency_inv calm c y = sound c calm (ry_state y) (ry_leases y) (ry_sessions y)"

lemma residency_init_inv: "residency_init c y \<Longrightarrow> residency_inv calm c y"
proof -
  assume i: "residency_init c y"
  let ?s = "\<lparr>rs_config = c, rs_entries = [], rs_clock = 0, rs_metrics = metrics_default, rs_store = [], rs_next = 0\<rparr>"
  from i have "ry_state y = ?s" "ry_leases y = []" "ry_sessions y = []"
    by (simp_all add: residency_init_def resident_open_def config_validate_def split: if_splits)
  moreover have "sound c calm ?s [] []"
    by (simp add: sound_def tables_ok_def counters_ok_def stored_def hm_has_def within_budget_def device_total_def host_total_def
        metrics_default_def)
  ultimately show ?thesis unfolding residency_inv_def by metis
qed

lemma residency_step_inv: "residency_step calm y y' \<Longrightarrow> residency_inv calm c y \<Longrightarrow> residency_inv calm c y'"
proof (induction rule: residency_step.induct)
  case (step_lookup y model)
  then show ?case by (simp add: residency_inv_def sound_load_lookup)
next
  case (step_select y demote p model)
  then show ?case by (simp add: residency_inv_def sound_select_victims)
next
  case (step_commit y victims model est loaded checked published)
  then show ?case by (simp add: residency_inv_def sound_load_commit list_all_iff)
next
  case (step_acquire y a demote s r)
  then show ?case using sound_acquire_entry by (simp add: residency_inv_def)
next
  case (step_lease_dec a y)
  then show ?case by (simp add: residency_inv_def sound_lease_dec)
next
  case (step_session_inc a y)
  then show ?case by (simp add: residency_inv_def sound_session_inc)
next
  case (step_session_dec a y)
  then show ?case by (simp add: residency_inv_def sound_session_dec)
next
  case (step_settle y a)
  then show ?case by (simp add: residency_inv_def sound_settle_entry)
next
  case (step_retire_others y model)
  then show ?case by (simp add: residency_inv_def sound_retire_other_epochs)
next
  case (step_retire y i e)
  then show ?case by (simp add: residency_inv_def sound_retire_model)
next
  case (step_metrics y)
  then show ?case by (simp add: residency_inv_def resident_metrics_def Let_def sound_refresh)
qed

interpretation residency_machine: safe_machine "residency_init c" "residency_step calm" "residency_inv calm c"
  by unfold_locales (rule residency_init_inv, assumption, rule residency_step_inv)

lemma residency_reach_inv: "residency_reach calm c y \<Longrightarrow> residency_inv calm c y"
  unfolding residency_reach_def by (rule residency_machine.reach_inv)

end
