(* ===== verification/Residency_Props.thy ===== *)
theory Residency_Props
  imports Residency_Inv
begin

text \<open>
  The properties of the residency engine, over every interleaving of its critical sections, with
  concrete runs that reach the states they speak about.
\<close>

section \<open>A concrete run\<close>

definition example_config :: ResidencyConfig where
  "example_config = \<lparr>rg_device_bytes = 10, rg_host_bytes = 10, rg_storage_bytes = 20, rg_context_reserve_bytes = 0,
     rg_n_ctx = 1, rg_gpu_layers = 0, rg_require_competent = False\<rparr>"

definition example_model :: "string \<Rightarrow> ModelRecord" where
  "example_model i = \<lparr>mr_id = i, mr_revision = ''r'', mr_path = i, mr_sha256 = [], mr_aliases = [], mr_family = ''f'',
     mr_size_bytes = 6, mr_epoch = 1\<rparr>"

definition example_point :: OperatingPoint where
  "example_point = \<lparr>op_model_bytes = 6, op_context_bytes = 0, op_device_bytes = 0, op_host_bytes = 6, op_gpu_layers = 0,
     op_model_layers = 0, op_competent = True\<rparr>"

definition no_demotion :: demotion where "no_demotion a = Ok 0"

definition example_answers :: load_answers where
  "example_answers = \<lparr>la_checked = Ok (), la_catalog = None, la_file_bytes = Ok 6, la_demote = no_demotion,
     la_loaded = Ok (7, example_point), la_checked_again = Ok (), la_published = (\<lambda>_. Ok ())\<rparr>"

definition example_open :: ResidencyState where
  "example_open = \<lparr>rs_config = example_config, rs_entries = [], rs_clock = 0, rs_metrics = metrics_default, rs_store = [], rs_next = 0\<rparr>"

definition example_loaded :: ResidencyState where
  "example_loaded = fst (load_commit (example_model ''a'') example_point [] (Ok (7, example_point)) (Ok ()) (\<lambda>_. Ok ()) example_open)"

definition example_leased :: ResidencyState where
  "example_leased = fst (acquire_entry no_demotion 0 example_loaded)"

definition example_machine :: Residency where
  "example_machine = \<lparr>ry_state = session_inc 0 example_leased, ry_leases = [0], ry_sessions = [0]\<rparr>"

lemma example_acquired: "snd (acquire_entry no_demotion 0 example_loaded) = Ok True"
  by code_simp

lemma example_stored: "stored example_loaded 0"
  by code_simp

lemma example_open_ok: "resident_open example_config = Ok example_open"
  by (simp add: resident_open_def config_validate_def example_config_def example_open_def)

lemma u64_max_pos: "0 < u64_max"
  by (simp add: u64_max_def)

lemma example_reached: "residency_reach True example_config example_machine"
proof -
  let ?R = "reach (residency_init example_config) (residency_step True)"
  let ?y = "\<lparr>ry_state = example_open, ry_leases = [], ry_sessions = []\<rparr>"
  have "residency_init example_config ?y" by (simp add: residency_init_def example_open_ok)
  then have 0: "?R ?y" by (rule reach_init)
  have "residency_step True ?y (?y\<lparr>ry_state := example_loaded\<rparr>)"
    unfolding example_loaded_def
    using step_commit[of ?y "[]" True "example_model ''a''" example_point "Ok (7, example_point)" "Ok ()" "\<lambda>_. Ok ()"]
    by (simp add: unreplaced_def)
  from reach_step[OF 0 this] have 1: "?R \<lparr>ry_state = example_loaded, ry_leases = [], ry_sessions = []\<rparr>" by simp
  have "acquire_entry no_demotion 0 example_loaded = (example_leased, Ok True)"
    using example_acquired by (simp add: example_leased_def prod_eq_iff)
  from reach_step[OF 1 step_acquire[OF _ _ _, of _ 0 no_demotion example_leased "Ok True" True]] this
  have 2: "?R \<lparr>ry_state = example_leased, ry_leases = [0], ry_sessions = []\<rparr>"
    using example_stored u64_max_pos by simp
  from reach_step[OF 2 step_session_inc[of 0]] have "?R example_machine"
    using u64_max_pos by (simp add: example_machine_def)
  then show ?thesis by (simp add: residency_reach_def)
qed

section \<open>Budgets\<close>

lemma gauges:
  "rx_device_bytes (snd (resident_metrics s)) = wrapping_sum (map (device_of s) (entry_addrs s))"
  "rx_host_bytes (snd (resident_metrics s)) = wrapping_sum (map (host_of s) (entry_addrs s))"
  "rx_active_slots (snd (resident_metrics s)) = wrapping_sum (map (\<lambda>a. rm_active (model_at s a)) (entry_addrs s))"
  "rx_sessions (snd (resident_metrics s)) = wrapping_sum (map (\<lambda>a. rm_sessions (model_at s a)) (entry_addrs s))"
  by (simp_all only: resident_metrics_def Let_def snd_conv refresh_metrics_def points_device points_host) simp_all

lemma gauges_exact:
  "device_total s < 2 ^ 64 \<Longrightarrow> rx_device_bytes (snd (resident_metrics s)) = device_total s"
  "host_total s < 2 ^ 64 \<Longrightarrow> rx_host_bytes (snd (resident_metrics s)) = host_total s"
  unfolding gauges by (simp_all add: device_total_def host_total_def hm_sum_def wrapping_sum_exact)

text \<open>C20: Loads, leases, sessions and retirements may interleave in any way, and models may be taken into use again between
  their choice as victims and their removal. Provided only that in this time no other model is loaded under the key of a
  victim, or of a model that is to be settled (the source compares keys there and not models), the loaded models
  use no more of the device and of the host than the configuration allows, and \<open>metrics\<close> reports exactly what they use.\<close>

theorem residency_within_budget:
  assumes "residency_reach True c y" "rg_device_bytes c < u64_max" "rg_host_bytes c < u64_max"
  shows "device_total (ry_state y) \<le> rg_device_bytes c
    \<and> host_total (ry_state y) \<le> rg_host_bytes c
    \<and> rx_device_bytes (snd (resident_metrics (ry_state y))) = device_total (ry_state y)
    \<and> rx_host_bytes (snd (resident_metrics (ry_state y))) = host_total (ry_state y)"
proof (intro conjI)
  from residency_reach_inv[OF assms(1)] have s: "sound c True (ry_state y) (ry_leases y) (ry_sessions y)"
    by (simp add: residency_inv_def)
  from soundD(1,5)[OF s] assms(2,3) show d: "device_total (ry_state y) \<le> rg_device_bytes c" and h: "host_total (ry_state y) \<le> rg_host_bytes c"
    by (auto simp: within_budget_def min_def split: if_splits)
  from d h assms(2,3) show "rx_device_bytes (snd (resident_metrics (ry_state y))) = device_total (ry_state y)"
    "rx_host_bytes (snd (resident_metrics (ry_state y))) = host_total (ry_state y)"
    by (simp_all add: gauges_exact u64_max_def)
qed

theorem residency_within_budget_witness:
  "host_total (ry_state example_machine) \<le> 10 \<and> rx_host_bytes (snd (resident_metrics (ry_state example_machine))) = host_total (ry_state example_machine)"
  using residency_within_budget[OF example_reached] by (simp add: example_config_def u64_max_def)

section \<open>Models in use\<close>

text \<open>C21: Under the same proviso a model with a lease stays loaded under its key: it can be acquired again, and the gauge of
  active slots counts every lease. The gauge of sessions counts the sessions whose model is loaded. A session that has no
  lease does not keep its model: a load may remove it as a victim (\<open>session_loses_model\<close>), and the session's next call
  then fails.\<close>

theorem residency_in_use_stays_loaded:
  assumes "residency_reach True c y"
  shows "(\<forall>a \<in> set (ry_leases y).
      map_of (rs_entries (ry_state y)) (model_key (rm_record (model_at (ry_state y) a))) = Some a
      \<and> snd (acquire_entry demote a (ry_state y)) \<noteq> Ok False)
    \<and> rx_active_slots (snd (resident_metrics (ry_state y))) = length (ry_leases y)
    \<and> rx_sessions (snd (resident_metrics (ry_state y))) = length (filter (loaded_at (ry_state y)) (ry_sessions y))"
proof (intro conjI)
  let ?s = "ry_state y"
  from residency_reach_inv[OF assms] have s: "sound c True ?s (ry_leases y) (ry_sessions y)"
    by (simp add: residency_inv_def)
  note t = soundD(2)[OF s] and co = soundD(3)[OF s]
  have loaded: "map_of (rs_entries ?s) (key_at ?s a) = Some a" if "a \<in> set (ry_leases y)" for a
    using soundD(4)[OF s _ that] by (simp add: loaded_at_def)
  moreover have "snd (acquire_entry demote a ?s) \<noteq> Ok False" if "map_of (rs_entries ?s) (key_at ?s a) = Some a" for a
    using that by (auto simp: acquire_entry_def and_then_def split: outcome.split)
  ultimately show "\<forall>a \<in> set (ry_leases y).
      map_of (rs_entries ?s) (key_at ?s a) = Some a \<and> snd (acquire_entry demote a ?s) \<noteq> Ok False" by blast
  have entry: "a \<in> set (entry_addrs ?s) \<longleftrightarrow> loaded_at ?s a" for a
    unfolding loaded_at_def using hm_values_iff[OF tables_okD(1)[OF t], of a] tables_okD(4)[OF t, of _ a] by metis
  have count: "wrapping_sum (map f (entry_addrs ?s)) = length xs"
    if f: "\<forall>a. loaded_at ?s a \<longrightarrow> f a = count_list xs a" and xs: "\<forall>a \<in> set xs. loaded_at ?s a" "length xs \<le> u64_max" for f xs
  proof -
    have "map f (entry_addrs ?s) = map (count_list xs) (entry_addrs ?s)"
      by (rule map_cong[OF refl]) (use f entry in blast)
    then have "sum_list (map f (entry_addrs ?s)) = sum (count_list xs) (set (entry_addrs ?s))"
      using entry_addrs_distinct[OF t] by (metis sum_list_distinct_conv_sum_set)
    also have "\<dots> = length xs" using xs(1) entry by (intro sum_count_set) auto
    finally show ?thesis using xs(2) by (simp add: wrapping_sum_exact u64_max_def)
  qed
  have stored: "stored ?s a" if "loaded_at ?s a" for a using entry_addr_stored[OF t] entry that by blast
  note co = co[unfolded counters_ok_def]
  show "rx_active_slots (snd (resident_metrics ?s)) = length (ry_leases y)"
    unfolding gauges using co stored loaded by (intro count) (simp_all add: loaded_at_def)
  have "count_list (filter P xs) a = count_list xs a" if "P a" for P xs and a :: nat
    using that by (induction xs) auto
  moreover have "length (filter (loaded_at ?s) (ry_sessions y)) \<le> u64_max"
    using co length_filter_le[of "loaded_at ?s" "ry_sessions y"] by linarith
  ultimately show "rx_sessions (snd (resident_metrics ?s)) = length (filter (loaded_at ?s) (ry_sessions y))"
    unfolding gauges using co stored by (intro count) simp_all
qed

theorem residency_in_use_stays_loaded_witness:
  "snd (acquire_entry no_demotion 0 (ry_state example_machine)) \<noteq> Ok False \<and> rx_active_slots (snd (resident_metrics (ry_state example_machine))) = 1"
  using residency_in_use_stays_loaded[OF example_reached, of no_demotion]
  by (simp add: example_machine_def)

section \<open>Accounting\<close>

text \<open>In every interleaving, calm or not: the table holds under each key the model of that key, every load is a model in
  the table or has been counted as unloaded, and the counters of every model ever loaded are exactly its
  outstanding leases and sessions, so no decrement wraps.\<close>

theorem residency_accounting:
  assumes "residency_reach calm c y"
  shows "(\<forall>k a. map_of (rs_entries (ry_state y)) k = Some a \<longrightarrow> model_key (rm_record (model_at (ry_state y) a)) = k)
    \<and> rx_loads (rs_metrics (ry_state y)) = rx_unloads (rs_metrics (ry_state y)) + length (rs_entries (ry_state y))
    \<and> (\<forall>a. hm_has (rs_store (ry_state y)) a \<longrightarrow> rm_active (model_at (ry_state y) a) = count_list (ry_leases y) a
           \<and> rm_sessions (model_at (ry_state y) a) = count_list (ry_sessions y) a)
    \<and> (\<forall>a \<in> set (ry_leases y) \<union> set (ry_sessions y). hm_has (rs_store (ry_state y)) a)"
proof (intro conjI)
  from residency_reach_inv[OF assms] have s: "sound c calm (ry_state y) (ry_leases y) (ry_sessions y)"
    by (simp add: residency_inv_def)
  note t = soundD(2)[OF s] and co = soundD(3)[OF s]
  show "\<forall>k a. map_of (rs_entries (ry_state y)) k = Some a \<longrightarrow> key_at (ry_state y) a = k" using tables_okD(4)[OF t] by blast
  show "rx_loads (rs_metrics (ry_state y)) = rx_unloads (rs_metrics (ry_state y)) + length (rs_entries (ry_state y))"
    by (rule tables_okD(6)[OF t])
  show "\<forall>a. hm_has (rs_store (ry_state y)) a \<longrightarrow> rm_active (model_at (ry_state y) a) = count_list (ry_leases y) a
      \<and> rm_sessions (model_at (ry_state y) a) = count_list (ry_sessions y) a"
    using co by (simp add: counters_ok_def stored_def)
  show "\<forall>a \<in> set (ry_leases y) \<union> set (ry_sessions y). hm_has (rs_store (ry_state y)) a"
    using co by (simp add: counters_ok_def stored_def)
qed

theorem residency_accounting_witness:
  "rx_loads (rs_metrics (ry_state example_machine))
     = rx_unloads (rs_metrics (ry_state example_machine)) + length (rs_entries (ry_state example_machine))
   \<and> hm_has (rs_store (ry_state example_machine)) 0"
  using residency_accounting[OF example_reached] by (simp add: example_machine_def)

section \<open>A whole load\<close>

lemma victim_loop_idle: "victim_loop p s retained vs rest = Ok vs' \<Longrightarrow> set vs' \<subseteq> set vs \<union> set rest"
  by (induction p s retained vs rest rule: victim_loop.induct) (auto split: if_splits)

lemma lighter_idle:
  assumes "lighter s t" "tables_ok s" "\<forall>v \<in> set vs. v \<in> set (idle_models s)"
  shows "unreplaced t vs \<and> list_all (stored t) vs"
proof -
  have k: "keeps s t" using assms(1) by (simp add: lighter_def)
  have "not_replaced t v \<and> stored t v" if v: "v \<in> set vs" for v
  proof -
    from assms(3) v have i: "v \<in> set (entry_addrs s)" by (auto simp: idle_models_def)
    then obtain j where "map_of (rs_entries s) j = Some v" using tables_okD(1)[OF assms(2)] hm_values_iff by metis
    then have "map_of (rs_entries s) (key_at s v) = Some v" using tables_okD(4)[OF assms(2)] by metis
    then have "loaded_at t v" using keeps_loaded[OF k] by (simp add: loaded_at_def)
    moreover have "stored t v" using entry_addr_stored[OF assms(2) i] lighter_stored[OF assms(1)] by simp
    ultimately show ?thesis by (simp add: loaded_at_def not_replaced_def)
  qed
  then show ?thesis by (simp add: unreplaced_def list_all_iff)
qed

lemma select_victims_result:
  assumes "tables_ok s"
  shows "lighter s (fst (select_victims demote p model s))"
    and "snd (select_victims demote p model s) = Ok vs \<Longrightarrow> \<forall>v \<in> set vs. v \<in> set (idle_models s)"
proof -
  define idle where "idle = by_last_use s (filter (\<lambda>a. mr_id (rm_record (model_at s a)) \<noteq> mr_id model) (idle_models s))"
  have mem: "\<forall>a \<in> set idle. a \<in> set (idle_models s)" by (simp add: idle_def)
  have eq: "select_victims demote p model s
      = and_then (spill_loop demote p idle s) (\<lambda>_ s1. (s1, victim_loop p s1 (entry_addrs s1) [] idle))"
    by (simp only: select_victims_def idle_def Let_def)
  have "fst (select_victims demote p model s) = fst (spill_loop demote p idle s)"
    unfolding eq by (simp add: and_then_def split: outcome.split)
  then show "lighter s (fst (select_victims demote p model s))"
    using lighter_spill_loop[of idle s demote p] mem idle_stored[OF assms] by simp
  show "\<forall>v \<in> set vs. v \<in> set (idle_models s)" if "snd (select_victims demote p model s) = Ok vs"
  proof -
    from that have "victim_loop p (fst (spill_loop demote p idle s)) (entry_addrs (fst (spill_loop demote p idle s))) [] idle = Ok vs"
      unfolding eq by (auto simp: and_then_def split: outcome.splits)
    from victim_loop_idle[OF this] mem show ?thesis by auto
  qed
qed

lemma load_commit_found:
  assumes "snd (load_commit model est vs loaded checked published s) = Ok a"
  shows "map_of (rs_entries (fst (load_commit model est vs loaded checked published s))) (model_key model) = Some a"
proof -
  have new: "map_of (rs_entries (add_entry model engine p u)) (model_key model) = Some (rs_next u)" for engine p u
    by (simp add: add_entry_def Let_def refresh_metrics_def tick_def)
  show ?thesis
    using assms unfolding load_commit_def Let_def
    by (auto simp: new split: outcome.splits option.splits if_splits)
qed

lemma load_commit_error:
  "snd (load_commit model est vs loaded checked published s) = Err e \<Longrightarrow> lighter s (fst (load_commit model est vs loaded checked published s))"
  unfolding load_commit_def Let_def
  by (auto simp: lighter_failure lighter_refl split: outcome.splits option.splits if_splits)

lemma load_lookup_Some:
  "load_lookup model s = (s1, Some a) \<Longrightarrow> map_of (rs_entries s1) (model_key model) = Some a"
  by (auto simp: load_lookup_def Let_def model_set_def tick_def split: option.splits)

lemma load_lookup_None: "load_lookup model s = (s1, None) \<Longrightarrow> s1 = s"
  by (auto simp: load_lookup_def Let_def split: option.splits)

text \<open>A load is a run of its sections; what it answers is in the table, and an error leaves the table alone.\<close>

lemma resident_load_runs:
  assumes t: "tables_ok (ry_state y)" and r: "resident_load w model (ry_state y) = (s', r)"
  shows "(residency_step calm)\<^sup>*\<^sup>* y (y\<lparr>ry_state := s'\<rparr>)
    \<and> (\<forall>a. r = Ok a \<longrightarrow> map_of (rs_entries s') (model_key model) = Some a) \<and> (\<forall>e. r = Err e \<longrightarrow> lighter (ry_state y) s')"
proof (cases "la_checked w")
  case (Ok u)
  define x where "x = load_lookup model (ry_state y)"
  have look: "(residency_step calm)\<^sup>*\<^sup>* y (y\<lparr>ry_state := fst x\<rparr>)" unfolding x_def by (rule r_into_rtranclp) (rule step_lookup)
  show ?thesis
  proof (cases "snd x")
    case (Some a)
    then have x: "load_lookup model (ry_state y) = (fst x, Some a)" by (simp add: x_def prod_eq_iff)
    then have "s' = fst x" "r = Ok a" using r Ok by (simp_all add: resident_load_def and_then_def)
    then show ?thesis using look load_lookup_Some[OF x] by simp
  next
    case None
    then have x: "load_lookup model (ry_state y) = (fst x, None)" by (simp add: x_def prod_eq_iff)
    then have same: "fst x = ry_state y" by (rule load_lookup_None)
    show ?thesis
    proof (cases "estimate (rs_config (ry_state y)) (la_catalog w) (la_file_bytes w) model")
      case est: (Ok est)
      define q where "q = select_victims (la_demote w) est model (ry_state y)"
      note sel = select_victims_result[OF t, of "la_demote w" est model, folded q_def]
      have pick: "(residency_step calm)\<^sup>*\<^sup>* y (y\<lparr>ry_state := fst q\<rparr>)" unfolding q_def by (rule r_into_rtranclp) (rule step_select)
      show ?thesis
      proof (cases "snd q")
        case vs: (Ok vs)
        let ?c = "load_commit model est vs (la_loaded w) (la_checked_again w) (la_published w) (fst q)"
        have c: "(s', r) = ?c"
          using r Ok x same est vs by (simp add: resident_load_def and_then_def q_def)
        then have c': "fst ?c = s'" "snd ?c = r" by (simp_all flip: c)
        note idle = lighter_idle[OF sel(1) t sel(2)[OF vs]]
        have "residency_step calm (y\<lparr>ry_state := fst q\<rparr>) (y\<lparr>ry_state := fst q\<rparr>\<lparr>ry_state := fst (load_commit model est vs
            (la_loaded w) (la_checked_again w) (la_published w) (ry_state (y\<lparr>ry_state := fst q\<rparr>)))\<rparr>)"
          by (rule step_commit) (use idle in simp_all)
        then have "residency_step calm (y\<lparr>ry_state := fst q\<rparr>) (y\<lparr>ry_state := s'\<rparr>)" by (simp add: c')
        with pick have "(residency_step calm)\<^sup>*\<^sup>* y (y\<lparr>ry_state := s'\<rparr>)" by (rule rtranclp.rtrancl_into_rtrancl)
        moreover have "map_of (rs_entries s') (model_key model) = Some a" if "r = Ok a" for a
          using load_commit_found[of model est vs "la_loaded w" "la_checked_again w" "la_published w" "fst q" a] that unfolding c' .
        moreover have "lighter (ry_state y) s'" if "r = Err e" for e
          using load_commit_error[of model est vs "la_loaded w" "la_checked_again w" "la_published w" "fst q" e] that
            lighter_trans[OF sel(1)] unfolding c' by blast
        ultimately show ?thesis by blast
      next
        case (Err e)
        then have "s' = fst q" "r = Err e" using r Ok x same est by (simp_all add: resident_load_def and_then_def q_def)
        then show ?thesis using pick sel(1) by simp
      next
        case Abort
        then have "s' = fst q" "r = Abort" using r Ok x same est by (simp_all add: resident_load_def and_then_def q_def)
        then show ?thesis using pick sel(1) by simp
      qed
    qed (use r Ok x same look in \<open>auto simp: resident_load_def and_then_def lighter_refl\<close>)
  qed
qed (use r in \<open>auto simp: resident_load_def and_then_def lighter_refl\<close>)

lemma reach_many: "(residency_step calm)\<^sup>*\<^sup>* y z \<Longrightarrow> residency_reach calm c y \<Longrightarrow> residency_reach calm c z"
  unfolding residency_reach_def by (induction rule: rtranclp_induct) (auto intro: reach_step)

text \<open>An uninterrupted load leaves the engine in a reachable state. When it returns a model, that model is in the table under
  the key of the request and can be acquired; when it fails, the table and the use counters are as before.\<close>

theorem residency_load_contract:
  assumes "residency_reach calm c y" and "resident_load w model (ry_state y) = (s', r)"
  shows "residency_reach calm c (y\<lparr>ry_state := s'\<rparr>)
    \<and> (\<forall>a. r = Ok a \<longrightarrow> map_of (rs_entries s') (model_key model) = Some a \<and> snd (acquire_entry demote a s') \<noteq> Ok False)
    \<and> (\<forall>e. r = Err e \<longrightarrow> rs_entries s' = rs_entries (ry_state y) \<and> rx_loads (rs_metrics s') = rx_loads (rs_metrics (ry_state y))
      \<and> (\<forall>a. rm_active (model_at s' a) = rm_active (model_at (ry_state y) a) \<and> rm_sessions (model_at s' a) = rm_sessions (model_at (ry_state y) a)))"
proof (intro conjI)
  from residency_reach_inv[OF assms(1)] have s: "sound c calm (ry_state y) (ry_leases y) (ry_sessions y)"
    by (simp add: residency_inv_def)
  note runs = resident_load_runs[OF soundD(2)[OF s] assms(2), of calm]
  show reached: "residency_reach calm c (y\<lparr>ry_state := s'\<rparr>)" using reach_many runs assms(1) by blast
  from residency_reach_inv[OF reached] have s': "tables_ok s'" by (simp add: residency_inv_def sound_def)
  have "snd (acquire_entry demote a s') \<noteq> Ok False" if a: "map_of (rs_entries s') (model_key model) = Some a" for a
  proof -
    have "map_of (rs_entries s') (key_at s' a) = Some a" using a tables_okD(4)[OF s' a] by simp
    then show ?thesis by (auto simp: acquire_entry_def and_then_def split: outcome.split)
  qed
  with runs show "\<forall>a. r = Ok a \<longrightarrow> map_of (rs_entries s') (model_key model) = Some a \<and> snd (acquire_entry demote a s') \<noteq> Ok False"
    by blast
  show "\<forall>e. r = Err e \<longrightarrow> rs_entries s' = rs_entries (ry_state y) \<and> rx_loads (rs_metrics s') = rx_loads (rs_metrics (ry_state y))
      \<and> (\<forall>a. rm_active (model_at s' a) = rm_active (model_at (ry_state y) a) \<and> rm_sessions (model_at s' a) = rm_sessions (model_at (ry_state y) a))"
    using runs by (simp add: lighter_def keeps_def)
qed

lemma example_second_load: "snd (resident_load example_answers (example_model ''b'') (ry_state example_machine))
    = Err (StateError ''residency capacity is exhausted'')"
  by code_simp

theorem residency_load_contract_witness:
  "rs_entries (fst (resident_load example_answers (example_model ''b'') (ry_state example_machine))) = rs_entries (ry_state example_machine)"
  using residency_load_contract[OF example_reached, of example_answers "example_model ''b''"] example_second_load
  by (cases "resident_load example_answers (example_model ''b'') (ry_state example_machine)") simp

section \<open>Measured profiles\<close>

text \<open>A measured profile that the catalog stored and returns gives the estimate of the next load the operating point the
  first load was admitted with: the measurement plus five percent of its device bytes.\<close>

theorem residency_profile_roundtrip:
  assumes "rg_gpu_layers c \<le> 0" "op_gpu_layers p = rg_gpu_layers c"
    and "op_device_bytes p + op_device_bytes p div 20 \<le> u64_max" "op_host_bytes p \<le> u64_max"
  shows "publish_profile c schema provenance (Some store) p = store (profile_of_point c schema provenance p)
    \<and> cached_profile c (Some (Ok (Some (profile_of_point c schema provenance p)))) = Ok (Some (with_headroom p))
    \<and> estimate c (Some (Ok (Some (profile_of_point c schema provenance p)))) file_bytes model = Ok (with_headroom p)"
proof (intro conjI)
  have "point_of_profile c (profile_of_point c schema provenance p) = with_headroom p"
    using assms by (simp add: point_of_profile_def profile_of_point_def with_headroom_def saturating_add_def u64_max_def)
  with assms(1) show "cached_profile c (Some (Ok (Some (profile_of_point c schema provenance p)))) = Ok (Some (with_headroom p))"
    "estimate c (Some (Ok (Some (profile_of_point c schema provenance p)))) file_bytes model = Ok (with_headroom p)"
    by (simp_all add: cached_profile_def estimate_def)
qed (use assms(1) in \<open>simp add: publish_profile_def\<close>)

theorem residency_profile_roundtrip_witness:
  "estimate example_config (Some (Ok (Some (profile_of_point example_config 1 ''p'' example_point)))) (Ok 6) (example_model ''a'')
     = Ok (with_headroom example_point)"
  using residency_profile_roundtrip[of example_config example_point 1 "''p''" "\<lambda>_. Ok ()" "Ok 6" "example_model ''a''"]
  by (simp add: example_config_def example_point_def u64_max_def)

section \<open>A session can lose its model\<close>

text \<open>
  The victims of a load are removed when nothing executes on them, whether or not they have gained a
  session since they were chosen: the load of \<open>b\<close> chooses the idle \<open>a\<close>, a session starts on \<open>a\<close>
  while \<open>b\<close> loads, and the session's next call finds that its model has disappeared.
\<close>

definition lost_select :: "ResidencyState \<times> (server_error, nat list) outcome" where
  "lost_select = select_victims no_demotion example_point (example_model ''b'') example_loaded"

definition lost_session :: ResidencyState where
  "lost_session = fst (resident_start_session [(example_answers, no_demotion)] (example_model ''a'') (\<lambda>a. Ok ()) (fst lost_select))"

definition lost_commit :: ResidencyState where
  "lost_commit = fst (load_commit (example_model ''b'') example_point [0] (Ok (8, example_point)) (Ok ()) (\<lambda>_. Ok ()) lost_session)"

lemma lost_commit_absent: "\<not> hm_has (rs_entries lost_commit) (key_at lost_commit 0)"
  by code_simp

lemma lost_commit_session: "rm_sessions (model_at lost_commit 0) = 1"
  by code_simp

theorem session_loses_model:
  "snd lost_select = Ok [0]" "rm_sessions (model_at lost_commit 0) = 1"
  "snd (session_call no_demotion 0 (Ok ()) lost_commit)
     = Err (StateError ''resident model disappeared while its session was suspended'')"
  subgoal by code_simp
  subgoal by (rule lost_commit_session)
  subgoal using lost_commit_absent by (simp add: session_call_def session_acquire_def acquire_entry_def hm_has_def and_then_def)
  done

text \<open>The state is reached although every step is calm.\<close>

definition lost_machine :: Residency where
  "lost_machine = \<lparr>ry_state = fst (load_commit (example_model ''b'') example_point [0] (Ok (8, example_point)) (Ok ()) (\<lambda>_. Ok ())
       (lease_dec 0 (session_inc 0 (fst (acquire_entry no_demotion 0 (fst lost_select)))))), ry_leases = [], ry_sessions = [0]\<rparr>"

lemma lost_machine_facts:
  "snd (acquire_entry no_demotion 0 (fst lost_select)) = Ok True" "stored (fst lost_select) 0"
  "stored (lease_dec 0 (session_inc 0 (fst (acquire_entry no_demotion 0 (fst lost_select))))) 0"
  "not_replaced (lease_dec 0 (session_inc 0 (fst (acquire_entry no_demotion 0 (fst lost_select))))) 0"
  "\<not> hm_has (rs_entries (ry_state lost_machine)) (key_at (ry_state lost_machine) 0)"
  by code_simp+

theorem session_loses_model_reachable:
  "residency_reach True example_config lost_machine \<and> ry_sessions lost_machine = [0] \<and>
    snd (session_call no_demotion 0 (Ok ()) (ry_state lost_machine))
      = Err (StateError ''resident model disappeared while its session was suspended'')"
proof (intro conjI)
  let ?R = "reach (residency_init example_config) (residency_step True)"
  let ?y = "\<lparr>ry_state = example_open, ry_leases = [], ry_sessions = []\<rparr>"
  let ?a = "fst (acquire_entry no_demotion 0 (fst lost_select))"
  have "residency_init example_config ?y" by (simp add: residency_init_def example_open_ok)
  then have 0: "?R ?y" by (rule reach_init)
  have "residency_step True ?y (?y\<lparr>ry_state := example_loaded\<rparr>)"
    unfolding example_loaded_def
    using step_commit[of ?y "[]" True "example_model ''a''" example_point "Ok (7, example_point)" "Ok ()" "\<lambda>_. Ok ()"]
    by (simp add: unreplaced_def)
  from reach_step[OF 0 this] have 1: "?R \<lparr>ry_state = example_loaded, ry_leases = [], ry_sessions = []\<rparr>" by simp
  from reach_step[OF 1 step_select[of True _ no_demotion example_point "example_model ''b''"]]
  have 2: "?R \<lparr>ry_state = fst lost_select, ry_leases = [], ry_sessions = []\<rparr>" by (simp add: lost_select_def)
  have "acquire_entry no_demotion 0 (fst lost_select) = (?a, Ok True)" using lost_machine_facts(1) by (simp add: prod_eq_iff)
  with reach_step[OF 2 step_acquire[of "\<lparr>ry_state = fst lost_select, ry_leases = [], ry_sessions = []\<rparr>" 0 no_demotion ?a "Ok True" True]]
  have 3: "?R \<lparr>ry_state = ?a, ry_leases = [0], ry_sessions = []\<rparr>" using lost_machine_facts(2) u64_max_pos by simp
  from reach_step[OF 3 step_session_inc[of 0]] have 4: "?R \<lparr>ry_state = session_inc 0 ?a, ry_leases = [0], ry_sessions = [0]\<rparr>"
    using u64_max_pos by simp
  from reach_step[OF 4 step_lease_dec[of 0]] have 5: "?R \<lparr>ry_state = lease_dec 0 (session_inc 0 ?a), ry_leases = [], ry_sessions = [0]\<rparr>"
    by simp
  from reach_step[OF 5 step_commit[of _ "[0]" True "example_model ''b''" example_point "Ok (8, example_point)" "Ok ()" "\<lambda>_. Ok ()"]]
  show "residency_reach True example_config lost_machine"
    using lost_machine_facts(3,4) by (simp add: unreplaced_def residency_reach_def lost_machine_def)
  show "ry_sessions lost_machine = [0]" by (simp add: lost_machine_def)
  show "snd (session_call no_demotion 0 (Ok ()) (ry_state lost_machine))
      = Err (StateError ''resident model disappeared while its session was suspended'')"
    using lost_machine_facts(5) by (simp add: session_call_def session_acquire_def acquire_entry_def hm_has_def and_then_def)
qed

end
