(* ===== verification/Mapped_Executor.thy ===== *)
theory Mapped_Executor
  imports Context_Store Server_Types
begin

text \<open>
  The native executor behind the mapped engine: the wrapper \<open>Executor\<close> of
  \<open>crates/executor/src/lib.rs\<close> over the mappings of \<open>native/shim/cusco_executor.cpp\<close>. A mapping is
  one sequence state with its position; handles name mappings by their identity, one mapping is
  active, and only the active one is decoded into.

  What llama.cpp does with a sequence is a parameter, the record \<open>Backend\<close>: how a state takes
  tokens, how it is saved and loaded, how text is tokenized and tokens are sampled. The laws the
  engine relies on are the locale \<open>sequence_backend\<close>; the deterministic backend that the shim has for
  an executor without a model fulfils them.

  Identities are unbounded; the shim counts them in 64 bits, and the conversion to the 32 bits of a binding, which
  can fail, is in \<open>Mapped_Engine\<close>. The counters of copied bytes are those of an executor without a model. A handle keeps its mapping alive, so the reclamation of mappings without handles cannot be
  observed through the operations below and is left out.
\<close>

section \<open>Errors\<close>

datatype executor_error = InvalidPath | ExecutorCancelled | Incompatible | RollbackFailed | Backend int

text \<open>\<open>n\<close> in decimal, with a sign, as \<open>format!\<close> prints an \<open>i32\<close>.\<close>

definition show_signed :: "int \<Rightarrow> string" where
  "show_signed i = (if i < 0 then CHR ''-'' # show_nat (nat (- i)) else show_nat (nat i))"

fun executor_display :: "executor_error \<Rightarrow> string" where
  "executor_display InvalidPath = ''invalid path''"
| "executor_display ExecutorCancelled = ''operation cancelled''"
| "executor_display Incompatible = ''incompatible checkpoint''"
| "executor_display RollbackFailed = ''restore failed and the prior binding could not be recovered''"
| "executor_display (Backend n) = ''executor backend error '' @ show_signed n"

definition executor_status :: "int \<Rightarrow> (executor_error, unit) outcome" where
  "executor_status n = (if n = 0 then Ok () else if n = 4 then Err ExecutorCancelled else if n = 5 then Err Incompatible
     else if n = 6 then Err RollbackFailed else Err (Backend n))"

section \<open>The backend\<close>

text \<open>Logits are kept as their bit patterns, as \<open>logits_identical\<close> compares them.\<close>

record Decode =
  dc_logits :: "32 word list"
  dc_token :: token

text \<open>
  \<open>bk_feed q n ts\<close> is the state after the tokens \<open>ts\<close> were decoded at position \<open>n\<close>,
  \<open>bk_result q\<close> what the last decode into \<open>q\<close> returned, and \<open>bk_failed x q n ts\<close> the state that a
  decode leaves which was refused or aborted with the error \<open>x\<close>: llama.cpp keeps the parts of the batch it
  has processed. No law is assumed of it.
\<close>

record ('q, 's) Backend =
  bk_empty :: 'q
  bk_feed :: "'q \<Rightarrow> nat \<Rightarrow> token list \<Rightarrow> 'q"
  bk_result :: "'q \<Rightarrow> Decode"
  bk_failed :: "executor_error \<Rightarrow> 'q \<Rightarrow> nat \<Rightarrow> token list \<Rightarrow> 'q"
  bk_save :: "'q \<Rightarrow> byte list"
  bk_load :: "byte list \<Rightarrow> 'q option"
  bk_tokenize :: "string \<Rightarrow> (executor_error, token list) outcome"
  bk_eog :: "token \<Rightarrow> bool"
  bk_render :: "token \<Rightarrow> (executor_error, byte list) outcome"
  bk_sampler :: "SamplingConfig \<Rightarrow> string option \<Rightarrow> (executor_error, 's) outcome"
  bk_sample :: "'s \<Rightarrow> Decode \<Rightarrow> 's \<times> (executor_error, token) outcome"

text \<open>The laws: decoding may be split anywhere, and a saved state loads back.\<close>

locale sequence_backend =
  fixes empty :: 'q
    and feed :: "'q \<Rightarrow> nat \<Rightarrow> token list \<Rightarrow> 'q"
    and save :: "'q \<Rightarrow> byte list"
    and load :: "byte list \<Rightarrow> 'q option"
  assumes feed_nil: "feed q n [] = q"
    and feed_append: "feed (feed q n ts) (n + length ts) us = feed q n (ts @ us)"
    and load_save: "load (save q) = Some q"
begin

definition evaluated :: "token list \<Rightarrow> 'q" where
  "evaluated ts = feed empty 0 ts"

lemma evaluated_nil: "evaluated [] = empty"
  by (simp add: evaluated_def feed_nil)

lemma evaluated_append: "feed (evaluated ts) (length ts) us = evaluated (ts @ us)"
  using feed_append[of empty 0 ts us] by (simp add: evaluated_def)

lemma evaluated_take: "m \<le> n \<Longrightarrow> n \<le> length ts \<Longrightarrow>
    feed (evaluated (take m ts)) m (take (n - m) (drop m ts)) = evaluated (take n ts)"
  using evaluated_append[of "take m ts" "take (n - m) (drop m ts)"]
  by (simp add: take_add[symmetric])

end

section \<open>The deterministic backend\<close>

text \<open>\<open>is_mock\<close>: the state is the list of all tokens, the logits are eight bytes of its hash.\<close>

definition hash_bytes :: "byte list \<Rightarrow> 64 word" where
  "hash_bytes bs = foldl (\<lambda>h b. (h XOR ucast b) * 1099511628211) 1469598103934665603 bs"

text \<open>The eight quotients \<open>b / 255.0f\<close> are ordered as their numerators, which stand for them.\<close>

definition mock_logits :: "token list \<Rightarrow> 32 word list" where
  "mock_logits q = map (\<lambda>i. ucast (drop_bit (i * 8) (hash_bytes (concat (map le_bytes32 q))) AND 255)) [0..<8]"

text \<open>The first index of the greatest logit.\<close>

fun first_max :: "32 word list \<Rightarrow> nat \<Rightarrow> nat \<Rightarrow> 32 word \<Rightarrow> nat" where
  "first_max [] i best v = best"
| "first_max (x # xs) i best v = (if v < x then first_max xs (Suc i) i x else first_max xs (Suc i) best v)"

definition arg_max_first :: "32 word list \<Rightarrow> nat" where
  "arg_max_first xs = first_max xs 0 0 (xs ! 0)"

definition mock_result :: "token list \<Rightarrow> Decode" where
  "mock_result q = \<lparr>dc_logits = mock_logits q, dc_token = word_of_nat (arg_max_first (mock_logits q))\<rparr>"

definition mock_feed :: "token list \<Rightarrow> nat \<Rightarrow> token list \<Rightarrow> token list" where
  "mock_feed q n ts = q @ ts"

definition mock_save :: "token list \<Rightarrow> byte list" where
  "mock_save q = concat (map le_bytes32 q)"

definition of_le_bytes32 :: "byte \<Rightarrow> byte \<Rightarrow> byte \<Rightarrow> byte \<Rightarrow> token" where
  "of_le_bytes32 a b c d = ucast a OR push_bit 8 (ucast b) OR push_bit 16 (ucast c) OR push_bit 24 (ucast d)"

fun mock_load :: "byte list \<Rightarrow> token list option" where
  "mock_load [] = Some []"
| "mock_load (a # b # c # d # bs) = map_option (\<lambda>q. of_le_bytes32 a b c d # q) (mock_load bs)"
| "mock_load bs = None"

text \<open>\<open>CString\<close> refuses text with a zero byte.\<close>

definition mock_tokenize :: "string \<Rightarrow> (executor_error, token list) outcome" where
  "mock_tokenize text = (if CHR 0x00 \<in> set text then Err InvalidPath
     else Ok (map (\<lambda>c. word_of_nat (of_char c)) text))"

definition mock_backend :: "(token list, unit) Backend" where
  "mock_backend = \<lparr>bk_empty = [], bk_feed = mock_feed, bk_result = mock_result, bk_failed = (\<lambda>x q n ts. q), bk_save = mock_save, bk_load = mock_load,
     bk_tokenize = mock_tokenize, bk_eog = (\<lambda>t. t = 1 \<or> t = 106), bk_render = (\<lambda>t. Ok (string_bytes (show_signed (sint t)))),
     bk_sampler = (\<lambda>_ _. Ok ()),
     bk_sample = (\<lambda>s d. (s, if dc_logits d = [] then Err (Backend 1) else Ok (word_of_nat (arg_max_first (dc_logits d)))))\<rparr>"

lemma le_bytes32_bytes: "le_bytes32 t = [ucast t, ucast (drop_bit 8 t), ucast (drop_bit 16 t), ucast (drop_bit 24 t)]"
  by (simp add: le_bytes32_def)

lemma of_le_bytes32_bytes: "of_le_bytes32 (ucast t) (ucast (drop_bit 8 t)) (ucast (drop_bit 16 t)) (ucast (drop_bit 24 t)) = t"
proof (rule bit_word_eqI)
  fix n assume n: "n < LENGTH(32)"
  consider "n < 8" | "8 \<le> n" "n < 16" | "16 \<le> n" "n < 24" | "24 \<le> n" by linarith
  then show "bit (of_le_bytes32 (ucast t) (ucast (drop_bit 8 t)) (ucast (drop_bit 16 t)) (ucast (drop_bit 24 t))) n = bit t n"
    by cases (use n in \<open>auto simp: of_le_bytes32_def bit_simps\<close>)
qed

lemma mock_load_save: "mock_load (mock_save q) = Some q"
  by (induction q) (simp_all add: mock_save_def le_bytes32_bytes of_le_bytes32_bytes)

interpretation mock: sequence_backend "[]" mock_feed mock_save mock_load
  by unfold_locales (simp_all add: mock_feed_def mock_load_save)

section \<open>Mappings\<close>

record 'q Mapping =
  mg_state :: 'q
  mg_position :: nat

record MappingState =
  ss_bytes :: "byte list"
  ss_position :: nat

text \<open>
  \<open>ex_lost\<close> records that a restore failed and the prior binding could not be recovered. It is for the
  properties only.
\<close>

record 'q Executor =
  ex_mappings :: "(nat, 'q Mapping) hm"
  ex_active :: nat
  ex_epoch :: nat
  ex_reference_switches :: nat
  ex_fork_bytes :: nat
  ex_export_bytes :: nat
  ex_import_bytes :: nat
  ex_lost :: bool

definition executor_open :: "('q, 's) Backend \<Rightarrow> 'q Executor" where
  "executor_open bk = \<lparr>ex_mappings = [(0, \<lparr>mg_state = bk_empty bk, mg_position = 0\<rparr>)], ex_active = 0, ex_epoch = 1,
     ex_reference_switches = 0, ex_fork_bytes = 0, ex_export_bytes = 0, ex_import_bytes = 0, ex_lost = False\<rparr>"

text \<open>A restore that failed twice: the active sequence was removed and not written again.\<close>

definition lose_active :: "('q, 's) Backend \<Rightarrow> 'q Executor \<Rightarrow> 'q Executor" where
  "lose_active bk e = (case map_of (ex_mappings e) (ex_active e) of
       None \<Rightarrow> e\<lparr>ex_lost := True\<rparr>
     | Some m \<Rightarrow> e\<lparr>ex_mappings := hm_put (ex_active e) (m\<lparr>mg_state := bk_empty bk\<rparr>) (ex_mappings e), ex_lost := True\<rparr>)"

text \<open>\<open>fault\<close> is what the backend answers where it may refuse; a refused call changes nothing, but for a restore
  that cannot be taken back and for a decode.\<close>

definition ex_activate :: "('q, 's) Backend \<Rightarrow> executor_error option \<Rightarrow> nat \<Rightarrow> 'q Executor \<Rightarrow> 'q Executor \<times> (executor_error, unit) outcome" where
  "ex_activate bk fault h e =
     (if \<not> hm_has (ex_mappings e) h then (e, Err (Backend 1))
      else if h = ex_active e then (e, Ok ())
      else (case fault of
          Some RollbackFailed \<Rightarrow> (lose_active bk e, Err RollbackFailed)
        | Some x \<Rightarrow> (e, Err x)
        | None \<Rightarrow> (e\<lparr>ex_active := h, ex_reference_switches := ex_reference_switches e + 1\<rparr>, Ok ())))"

definition ex_active_representation :: "'q Executor \<Rightarrow> (executor_error, nat) outcome" where
  "ex_active_representation e = Ok (ex_active e)"

text \<open>Preparing a fork copies the state of the source; committing it gives it an identity.\<close>

definition ex_prepare_fork ::
  "('q, 's) Backend \<Rightarrow> executor_error option \<Rightarrow> nat \<Rightarrow> 'q Executor \<Rightarrow> 'q Executor \<times> (executor_error, 'q Mapping) outcome" where
  "ex_prepare_fork bk fault source e = (case map_of (ex_mappings e) source of
       None \<Rightarrow> (e, Err (Backend 1))
     | Some m \<Rightarrow> (case fault of
           Some x \<Rightarrow> (e, Err x)
         | None \<Rightarrow> (e\<lparr>ex_fork_bytes := ex_fork_bytes e + length (bk_save bk (mg_state m))\<rparr>, Ok m)))"

definition ex_commit_mapping ::
  "executor_error option \<Rightarrow> 'q Mapping \<Rightarrow> 'q Executor \<Rightarrow> 'q Executor \<times> (executor_error, nat) outcome" where
  "ex_commit_mapping fault m e = (case fault of
       Some x \<Rightarrow> (e, Err x)
     | None \<Rightarrow> (let h = ex_epoch e + 1 in
         (e\<lparr>ex_mappings := hm_put h m (ex_mappings e), ex_epoch := h\<rparr>, Ok h)))"

definition ex_serialized_bytes :: "('q, 's) Backend \<Rightarrow> nat \<Rightarrow> 'q Executor \<Rightarrow> (executor_error, nat) outcome" where
  "ex_serialized_bytes bk h e = (case map_of (ex_mappings e) h of
     None \<Rightarrow> Err (Backend 1) | Some m \<Rightarrow> Ok (length (bk_save bk (mg_state m))))"

text \<open>A decode that fails leaves its position, but not always its state.\<close>

definition ex_decode ::
  "('q, 's) Backend \<Rightarrow> executor_error option \<Rightarrow> token list \<Rightarrow> 'q Executor \<Rightarrow> 'q Executor \<times> (executor_error, Decode) outcome" where
  "ex_decode bk fault ts e =
     (if ts = [] then (e, Err (Backend 1))
      else (case map_of (ex_mappings e) (ex_active e) of
          None \<Rightarrow> (e, Err (Backend 3))
        | Some m \<Rightarrow> (case fault of
              Some x \<Rightarrow> (e\<lparr>ex_mappings := hm_put (ex_active e)
                (m\<lparr>mg_state := bk_failed bk x (mg_state m) (mg_position m) ts\<rparr>) (ex_mappings e)\<rparr>, Err x)
            | None \<Rightarrow> (let q = bk_feed bk (mg_state m) (mg_position m) ts in
                (e\<lparr>ex_mappings := hm_put (ex_active e) \<lparr>mg_state = q, mg_position = mg_position m + length ts\<rparr> (ex_mappings e)\<rparr>,
                 Ok (bk_result bk q))))))"

definition ex_export ::
  "('q, 's) Backend \<Rightarrow> executor_error option \<Rightarrow> nat \<Rightarrow> 'q Executor \<Rightarrow> 'q Executor \<times> (executor_error, MappingState) outcome" where
  "ex_export bk fault h e = (case map_of (ex_mappings e) h of
       None \<Rightarrow> (e, Err (Backend 1))
     | Some m \<Rightarrow> (case fault of
           Some x \<Rightarrow> (e, Err x)
         | None \<Rightarrow> (let bytes = bk_save bk (mg_state m) in
             (e\<lparr>ex_export_bytes := ex_export_bytes e + length bytes\<rparr>,
              Ok \<lparr>ss_bytes = bytes, ss_position = mg_position m\<rparr>))))"

text \<open>A state that cannot be read back is reported when it is imported. While it is read, the active
  sequence is put aside.\<close>

definition ex_import ::
  "('q, 's) Backend \<Rightarrow> executor_error option \<Rightarrow> MappingState \<Rightarrow> 'q Executor \<Rightarrow> 'q Executor \<times> (executor_error, nat) outcome" where
  "ex_import bk fault st e = (case fault of
       Some RollbackFailed \<Rightarrow> (lose_active bk e, Err RollbackFailed)
     | Some x \<Rightarrow> (e, Err x)
     | None \<Rightarrow> (case bk_load bk (ss_bytes st) of
           None \<Rightarrow> (e, Err Incompatible)
         | Some q \<Rightarrow> (let h = ex_epoch e + 1 in
             (e\<lparr>ex_mappings := hm_put h \<lparr>mg_state = q, mg_position = ss_position st\<rparr> (ex_mappings e), ex_epoch := h,
                ex_import_bytes := ex_import_bytes e + length (ss_bytes st)\<rparr>, Ok h))))"

end
