(* ===== verification/Mapped_Engine.thy ===== *)
theory Mapped_Engine
  imports Mapped_Executor Physical_Manager Request_Control
begin

text \<open>
  The mapped engine (\<open>crates/server/src/mapped.rs\<close>): one executor, one context store and one
  physical manager under one mutex, shared by the sessions of all requests. A session keeps a mapping
  of its own, forked from the longest evaluated prefix the store knows; whenever it completes a block
  it publishes a snapshot under the content address of the tokens. Snapshots that are not active
  can be spilled to files and are read back when they are needed.

  Every definition that takes a state runs while the mutex is held. The environment answers through
  \<open>me_env\<close>: the next faults of the executor, the states of the request's control that the checks
  see, the outcomes of file operations and the durations that are measured; where a list has ended,
  nothing goes wrong and no time passes.
\<close>

section \<open>Errors\<close>

fun cs_display :: "cs_error \<Rightarrow> string" where
  "cs_display ContextNotFound = ''logical context does not exist''"
| "cs_display PrefixOutOfBounds = ''represented prefix exceeds the token sequence''"
| "cs_display IncompatibleEpoch = ''evaluated prefix has incompatible model or adapter epochs''"
| "cs_display IncompleteComponents = ''evaluated prefix is incomplete''"
| "cs_display InvalidDependency = ''evaluated prefix dependency is invalid''"
| "cs_display PublicationConflict = ''context changed after publication was prepared''"
| "cs_display MappingNotFound = ''evaluated prefix does not exist''"
| "cs_display IdentityConflict = ''evaluated prefix identity conflicts with published content''"

fun pm_display :: "pm_error \<Rightarrow> string" where
  "pm_display RepresentationNotFound = ''physical representation does not exist''"
| "pm_display BindingNotFound = ''active binding does not exist''"
| "pm_display TransitionNotFound = ''prepared transition does not exist''"
| "pm_display TransferNotFound = ''transfer does not exist''"
| "pm_display GrowthReservationNotFound = ''growth reservation does not exist''"
| "pm_display DeviceCapacity = ''device capacity is exhausted''"
| "pm_display HostCapacity = ''host capacity is exhausted''"
| "pm_display InvalidComposite = ''composite physical state is incomplete or inconsistent''"
| "pm_display NoPromotionSource = ''no source copy is available for promotion''"
| "pm_display TransferPending = ''transition still has incomplete transfers''"
| "pm_display TransferFailed = ''a transition transfer failed''"
| "pm_display StaleRevision = ''logical context revision changed''"
| "pm_display ProtectedByOwner = ''physical representation is protected by an owner''"

text \<open>\<open>map_err(state_error)\<close>.\<close>

definition state_error :: "('e \<Rightarrow> string) \<Rightarrow> ('e, 'a) outcome \<Rightarrow> (server_error, 'a) outcome" where
  "state_error display r = (case r of Ok a \<Rightarrow> Ok a | Err e \<Rightarrow> Err (StateError (display e)) | Abort \<Rightarrow> Abort)"

section \<open>Execution profiles\<close>

datatype ProfileComponent = ProfileKv | ProfileSwa | ProfileRecurrent

record ExecutionProfile =
  xp_architecture :: string
  xp_block_size :: nat
  xp_required :: "ProfileComponent list"

fun profile_mask :: "ProfileComponent \<Rightarrow> ComponentMask" where
  "profile_mask ProfileKv = mask_GLOBAL_KV"
| "profile_mask ProfileSwa = mask_SWA"
| "profile_mask ProfileRecurrent = mask_RECURRENT"

definition required_mask :: "ExecutionProfile \<Rightarrow> ComponentMask" where
  "required_mask p = foldl (\<lambda>m c. mask_union m (profile_mask c)) mask_EMPTY (xp_required p)"

fun profile_component :: "ProfileComponent \<Rightarrow> Component" where
  "profile_component ProfileKv = GlobalKv"
| "profile_component ProfileSwa = SlidingWindow"
| "profile_component ProfileRecurrent = Recurrent"

definition profile_components :: "ExecutionProfile \<Rightarrow> Component list" where
  "profile_components p = map profile_component (xp_required p)"

definition profile_validate :: "ExecutionProfile \<Rightarrow> (server_error, unit) outcome" where
  "profile_validate p =
     (if xp_architecture p = [] \<or> xp_block_size p = 0 then Err (StateError ''invalid execution profile'')
      else if \<not> mask_contains (required_mask p) mask_GLOBAL_KV \<or> \<not> mask_contains (required_mask p) mask_SWA
        \<or> \<not> mask_contains (required_mask p) mask_RECURRENT
      then Err (StateError ''execution profile omits a required component'')
      else Ok ())"

text \<open>\<open>families\<close> is the bundled catalog after parsing and schema validation.\<close>

definition bundled_for_architecture :: "ExecutionProfile list \<Rightarrow> string \<Rightarrow> (server_error, ExecutionProfile) outcome" where
  "bundled_for_architecture families architecture =
     (case filter (\<lambda>p. xp_architecture p = architecture) families of
        [] \<Rightarrow> Err (StateError (''unsupported model architecture: '' @ architecture))
      | [p] \<Rightarrow> (case profile_validate p of Ok _ \<Rightarrow> Ok p | Err e \<Rightarrow> Err e | Abort \<Rightarrow> Abort)
      | _ \<Rightarrow> Err (StateError (''multiple execution profiles for model architecture: '' @ architecture)))"

section \<open>State\<close>

record MappedMetrics =
  mx_requests :: nat
  mx_cache_hits :: nat
  mx_cached_tokens :: nat
  mx_decoded_tokens :: nat
  mx_published_blocks :: nat
  mx_reference_switches :: nat
  mx_fork_bytes_copied :: nat
  mx_export_bytes_copied :: nat
  mx_import_bytes_copied :: nat
  mx_total_bytes_copied :: nat
  mx_graph_recaptures :: "nat option"

definition mapped_metrics_default :: MappedMetrics where
  "mapped_metrics_default = \<lparr>mx_requests = 0, mx_cache_hits = 0, mx_cached_tokens = 0, mx_decoded_tokens = 0,
     mx_published_blocks = 0, mx_reference_switches = 0, mx_fork_bytes_copied = 0, mx_export_bytes_copied = 0,
     mx_import_bytes_copied = 0, mx_total_bytes_copied = 0, mx_graph_recaptures = None\<rparr>"

text \<open>The files of the spill directory: the state of a prefix, under its identity in hexadecimal, and
  the temporary file it is written to first.\<close>

datatype SpillName = SeqFile EvaluatedPrefixId | SeqTmp EvaluatedPrefixId

record SpilledMapping =
  sl_path :: SpillName
  sl_bytes :: nat
  sl_position :: nat

record ResidentMapping =
  rz_native :: "nat option"
  rz_spill :: "SpilledMapping option"
  rz_representations :: "PhysicalRepresentationId list"
  rz_continuation :: Decode

record Environment =
  en_faults :: "executor_error option list"
  en_checks :: "control_state list"
  en_files :: "string option list"
  en_elapsed :: "nat list"

record 'q MappedState =
  me_executor :: "'q Executor"
  me_root :: nat
  me_logical :: ContextStore
  me_physical :: PhysicalManager
  me_model_epoch :: nat
  me_resident :: "(EvaluatedPrefixId, ResidentMapping) hm"
  me_metrics :: MappedMetrics
  me_spill_bytes :: nat
  me_files :: "(SpillName, byte list) hm"
  me_env :: Environment

definition ADAPTER_EPOCH :: nat where "ADAPTER_EPOCH = 0"
definition EXECUTION_SLOT :: LogicalContextId where "EXECUTION_SLOT = u64_max"

record MappedEngine =
  mg_profile :: ExecutionProfile
  mg_model_path :: string
  mg_context_capacity :: nat
  mg_spill_dir :: bool
  mg_spill_capacity :: nat

section \<open>The environment\<close>

definition pop_fault :: "'q MappedState \<Rightarrow> 'q MappedState" where
  "pop_fault s = s\<lparr>me_env := (me_env s)\<lparr>en_faults := tl (en_faults (me_env s))\<rparr>\<rparr>"

definition next_fault :: "'q MappedState \<Rightarrow> executor_error option" where
  "next_fault s = (case en_faults (me_env s) of [] \<Rightarrow> None | f # _ \<Rightarrow> f)"

text \<open>A call of the executor, with its error turned into a state error.\<close>

definition on_executor ::
  "(executor_error option \<Rightarrow> 'q Executor \<Rightarrow> 'q Executor \<times> (executor_error, 'a) outcome) \<Rightarrow> 'q MappedState
    \<Rightarrow> 'q MappedState \<times> (server_error, 'a) outcome" where
  "on_executor f s = (let r = f (next_fault s) (me_executor s) in
     ((pop_fault s)\<lparr>me_executor := fst r\<rparr>, state_error executor_display (snd r)))"

definition on_physical ::
  "(PhysicalManager \<Rightarrow> PhysicalManager \<times> (pm_error, 'a) outcome) \<Rightarrow> 'q MappedState
    \<Rightarrow> 'q MappedState \<times> (server_error, 'a) outcome" where
  "on_physical f s = (let r = f (me_physical s) in (s\<lparr>me_physical := fst r\<rparr>, state_error pm_display (snd r)))"

definition on_logical ::
  "(ContextStore \<Rightarrow> ContextStore \<times> (cs_error, 'a) outcome) \<Rightarrow> 'q MappedState
    \<Rightarrow> 'q MappedState \<times> (server_error, 'a) outcome" where
  "on_logical f s = (let r = f (me_logical s) in (s\<lparr>me_logical := fst r\<rparr>, state_error cs_display (snd r)))"

definition control_check :: "'q MappedState \<Rightarrow> 'q MappedState \<times> (server_error, unit) outcome" where
  "control_check s = (case en_checks (me_env s) of
       [] \<Rightarrow> (s, Ok ())
     | c # cs \<Rightarrow> (s\<lparr>me_env := (me_env s)\<lparr>en_checks := cs\<rparr>\<rparr>, state_check c))"

definition file_call :: "'q MappedState \<Rightarrow> 'q MappedState \<times> (server_error, unit) outcome" where
  "file_call s = (case en_files (me_env s) of
       [] \<Rightarrow> (s, Ok ())
     | f # fs \<Rightarrow> (s\<lparr>me_env := (me_env s)\<lparr>en_files := fs\<rparr>\<rparr>, case f of None \<Rightarrow> Ok () | Some e \<Rightarrow> Err (StateError e)))"

definition elapsed :: "'q MappedState \<Rightarrow> nat" where
  "elapsed s = (case en_elapsed (me_env s) of [] \<Rightarrow> 0 | n # _ \<Rightarrow> n)"

definition pass_time :: "'q MappedState \<Rightarrow> 'q MappedState" where
  "pass_time s = s\<lparr>me_env := (me_env s)\<lparr>en_elapsed := tl (en_elapsed (me_env s))\<rparr>\<rparr>"

text \<open>\<open>let _ = f()\<close> keeps a panic only.\<close>

definition ignored :: "'t \<times> ('e, 'a) outcome \<Rightarrow> 't \<times> ('e, unit) outcome" where
  "ignored r = (fst r, case snd r of Abort \<Rightarrow> Abort | _ \<Rightarrow> Ok ())"

text \<open>Cleaning up before an error is returned.\<close>

definition or_else :: "'t \<times> ('e, 'a) outcome \<Rightarrow> ('t \<Rightarrow> 't \<times> ('e, unit) outcome) \<Rightarrow> 't \<times> ('e, 'a) outcome" where
  "or_else r cleanup = (case snd r of
       Err e \<Rightarrow> and_then (cleanup (fst r)) (\<lambda>_ s. (s, Err e))
     | _ \<Rightarrow> r)"

abbreviation activate_mapping :: "('q, 's) Backend \<Rightarrow> nat \<Rightarrow> 'q MappedState \<Rightarrow> 'q MappedState \<times> (server_error, unit) outcome" where
  "activate_mapping bk h \<equiv> on_executor (\<lambda>f. ex_activate bk f h)"

section \<open>Forks and prefixes\<close>

definition snapshot_active_mapping ::
  "('q, 's) Backend \<Rightarrow> nat \<Rightarrow> 'q MappedState \<Rightarrow> 'q MappedState \<times> (server_error, nat) outcome" where
  "snapshot_active_mapping bk active s =
     and_then (on_executor (\<lambda>f. ex_prepare_fork bk f active) s) (\<lambda>m s. on_executor (\<lambda>f. ex_commit_mapping f m) s)"

definition fork_for_request_branch ::
  "('q, 's) Backend \<Rightarrow> nat \<Rightarrow> 'q MappedState \<Rightarrow> 'q MappedState \<times> (server_error, nat) outcome" where
  "fork_for_request_branch bk source s =
     and_then (snapshot_active_mapping bk source s) (\<lambda>h s. and_then (activate_mapping bk h s) (\<lambda>_ s. (s, Ok h)))"

text \<open>Completing the transfers of a prepared transition; the first failure aborts the transition.\<close>

fun complete_transfers ::
  "PreparedTransitionId \<Rightarrow> TransferId list \<Rightarrow> 'q MappedState \<Rightarrow> 'q MappedState \<times> (server_error, unit) outcome" where
  "complete_transfers tid [] s = (s, Ok ())"
| "complete_transfers tid (x # xs) s =
     and_then (or_else (on_physical (complete_transfer x True) s) (\<lambda>s. ignored (on_physical (abort_transition tid) s)))
       (\<lambda>_ s. complete_transfers tid xs s)"

definition read_spill :: "SpilledMapping \<Rightarrow> 'q MappedState \<Rightarrow> 'q MappedState \<times> (server_error, byte list) outcome" where
  "read_spill sp s = and_then (file_call s) (\<lambda>_ s. (s, case map_of (me_files s) (sl_path sp) of
       None \<Rightarrow> Err (StateError ''No such file or directory (os error 2)'') | Some bytes \<Rightarrow> Ok bytes))"

definition native_of :: "('q, 's) Backend \<Rightarrow> ResidentMapping \<Rightarrow> 'q MappedState \<Rightarrow> 'q MappedState \<times> (server_error, nat) outcome" where
  "native_of bk r s = (case rz_native r of
       Some h \<Rightarrow> (s, Ok h)
     | None \<Rightarrow> (case rz_spill r of
           None \<Rightarrow> (s, Err (StateError ''mapping has neither native nor spilled state''))
         | Some sp \<Rightarrow> and_then (read_spill sp s) (\<lambda>bytes s.
             if length bytes \<noteq> sl_bytes sp then (s, Err (StateError ''spilled mapping size changed''))
             else on_executor (\<lambda>f. ex_import bk f \<lparr>ss_bytes = bytes, ss_position = sl_position sp\<rparr>) s)))"

text \<open>A restored mapping takes the place of its file.\<close>

definition restored :: "EvaluatedPrefixId \<Rightarrow> nat \<Rightarrow> 'q MappedState \<Rightarrow> 'q MappedState \<times> (server_error, unit) outcome" where
  "restored i native s = (case map_of (me_resident s) i of
       None \<Rightarrow> (s, Abort)
     | Some r \<Rightarrow> (case rz_spill r of
           None \<Rightarrow> (s, Abort)
         | Some sp \<Rightarrow>
             and_then (ignored (and_then (file_call s) (\<lambda>_ s. (s\<lparr>me_files := hm_del (sl_path sp) (me_files s)\<rparr>, Ok ())))) (\<lambda>_ s.
               (s\<lparr>me_spill_bytes := me_spill_bytes s - sl_bytes sp,
                  me_resident := hm_put i (r\<lparr>rz_spill := None, rz_native := Some native\<rparr>) (me_resident s)\<rparr>, Ok ()))))"

definition u32_of :: "nat \<Rightarrow> (server_error, nat) outcome" where
  "u32_of n = (if n < 2 ^ 32 then Ok n else Err (StateError ''native representation identity exhausted''))"

lemma u32_of_code [code]:
  "u32_of n = (if int n < 4294967296 then Ok n else Err (StateError ''native representation identity exhausted''))"
  by (simp add: u32_of_def)

definition activate_prefix ::
  "('q, 's) Backend \<Rightarrow> LogicalContextId \<Rightarrow> EvaluatedPrefix option \<Rightarrow> 'q MappedState \<Rightarrow> 'q MappedState \<times> (server_error, unit) outcome" where
  "activate_prefix bk context prefix s = (case prefix of
       None \<Rightarrow> activate_mapping bk (me_root s) s
     | Some p \<Rightarrow> (case map_of (me_resident s) (ep_id p) of
           None \<Rightarrow> (s, Err (StateError ''logical mapping has no resident native mapping''))
         | Some r \<Rightarrow> and_then (native_of bk r s) (\<lambda>native s.
             (case cs_context (me_logical s) context of
                None \<Rightarrow> (s, Err (StateError ''logical context disappeared''))
              | Some c \<Rightarrow> (let revision = ctx_revision c; previous = ex_active (me_executor s) in
                  and_then (on_physical (prepare_transition EXECUTION_SLOT revision (ep_id p) (ep_end p) (ep_required p)
                      (rz_representations r) False) s) (\<lambda>(tid, _, transfers) s.
                  and_then (complete_transfers tid transfers s) (\<lambda>_ s.
                  and_then (or_else (activate_mapping bk native s) (\<lambda>s. ignored (on_physical (abort_transition tid) s))) (\<lambda>_ s.
                  and_then (s, u32_of native) (\<lambda>identity s.
                  and_then (or_else (on_physical (commit_mapped_transition tid revision identity) s)
                      (\<lambda>s. ignored (activate_mapping bk previous s))) (\<lambda>_ s.
                    if rz_native r = None then restored (ep_id p) native s else (s, Ok ())))))))))))"

section \<open>Publishing a block\<close>

fun release_representations :: "PhysicalRepresentationId list \<Rightarrow> 'q MappedState \<Rightarrow> 'q MappedState \<times> (server_error, unit) outcome" where
  "release_representations [] s = (s, Ok ())"
| "release_representations (i # is) s =
     and_then (ignored (on_physical (release_logical_reference i) s)) (\<lambda>_ s. release_representations is s)"

text \<open>Giving up a publication: what was registered for it is released, and a usable mapping activated.\<close>

definition roll_back :: "('q, 's) Backend \<Rightarrow> PhysicalRepresentationId list \<Rightarrow> nat \<Rightarrow> 'q MappedState \<Rightarrow> 'q MappedState \<times> (server_error, unit) outcome" where
  "roll_back bk registered rollback s =
     and_then (release_representations registered s) (\<lambda>_ s. ignored (activate_mapping bk rollback s))"

fun register_components ::
  "('q, 's) Backend \<Rightarrow> EvaluatedPrefixId \<Rightarrow> nat \<Rightarrow> nat \<Rightarrow> nat \<Rightarrow> Component list \<Rightarrow> PhysicalRepresentationId list \<Rightarrow> 'q MappedState
    \<Rightarrow> 'q MappedState \<times> (server_error, PhysicalRepresentationId list) outcome" where
  "register_components bk i represented_end bytes rollback [] registered s = (s, Ok registered)"
| "register_components bk i represented_end bytes rollback (c # cs) registered s =
     and_then (or_else (on_physical (pm_register i c represented_end bytes Host represented_end) s) (roll_back bk registered rollback))
       (\<lambda>r s. register_components bk i represented_end bytes rollback cs (registered @ [r]) s)"

text \<open>The size of one component, rounded up; an empty profile has no components to divide by.\<close>

definition component_bytes :: "nat \<Rightarrow> nat \<Rightarrow> (server_error, nat) outcome" where
  "component_bytes serialized n = (case checked_add serialized (n - 1) of
     Some bytes \<Rightarrow> if n = 0 then Err (StateError ''representation size overflow'') else Ok (bytes div n)
   | None \<Rightarrow> Err (StateError ''representation size overflow''))"

definition checked_mul :: "nat \<Rightarrow> nat \<Rightarrow> nat option" where
  "checked_mul a b = (if a * b \<le> u64_max then Some (a * b) else None)"

lemma checked_mul_code [code]:
  "checked_mul a b = (if int a * int b \<le> 18446744073709551615 then Some (a * b) else None)"
proof -
  have "a * b \<le> u64_max \<longleftrightarrow> int (a * b) \<le> int u64_max" by linarith
  then show ?thesis by (simp add: checked_mul_def u64_max_def)
qed

definition device_room :: "PhysicalManager \<Rightarrow> nat" where
  "device_room s = (let m = pm_metrics s in device_total m -
     saturating_add (saturating_add (saturating_add (device_active m) (device_growth_reserved m)) (device_transition_reserved m))
       (device_detached_transfer_reserved m))"

definition parent_native :: "EvaluatedPrefixId option \<Rightarrow> nat \<Rightarrow> 'q MappedState \<Rightarrow> nat" where
  "parent_native par otherwise s = (case Option.bind (Option.bind par (map_of (me_resident s))) rz_native of
     Some h \<Rightarrow> h | None \<Rightarrow> otherwise)"

text \<open>From the validated publication on; \<open>existing\<close> is the mapping that is already resident under its
  identity.\<close>

definition publish_prepared ::
  "('q, 's) Backend \<Rightarrow> PreparedPublication \<Rightarrow> nat \<Rightarrow> nat \<Rightarrow> ComponentMask \<Rightarrow> PhysicalRepresentationId list \<Rightarrow> PhysicalRepresentationId list
    \<Rightarrow> ResidentMapping option \<Rightarrow> nat \<Rightarrow> Decode \<Rightarrow> 'q MappedState \<Rightarrow> 'q MappedState \<times> (server_error, EvaluatedPrefixId) outcome" where
  "publish_prepared bk pp represented_end rollback required representations registered existing native continuation s =
     (case cs_context (me_logical s) (pp_context pp) of
        None \<Rightarrow> (s, Err (StateError ''logical context disappeared''))
      | Some c \<Rightarrow> (case checked_add (ctx_revision c) 1 of
            None \<Rightarrow> (s, Err (StateError ''logical context revision exhausted''))
          | Some revision \<Rightarrow>
              and_then (or_else (on_physical (prepare_transition EXECUTION_SLOT revision (ep_id (pp_mapping pp)) represented_end required
                  representations False) s) (roll_back bk registered rollback)) (\<lambda>(tid, _, transfers) s.
              and_then (or_else (complete_transfers tid transfers s) (roll_back bk registered rollback)) (\<lambda>_ s.
              and_then (s, u32_of (case Option.bind existing rz_native of Some h \<Rightarrow> h | None \<Rightarrow> native)) (\<lambda>identity s.
              and_then (or_else (on_physical (commit_mapped_transition tid revision identity) s) (roll_back bk registered rollback)) (\<lambda>_ s.
                (case on_logical (commit_publication pp) s of
                   (s, Ok m) \<Rightarrow> (case existing of
                       Some _ \<Rightarrow> (s, Ok (ep_id m))
                     | None \<Rightarrow> (s\<lparr>me_resident := hm_put (ep_id m) \<lparr>rz_native = Some native, rz_spill = None,
                           rz_representations = representations, rz_continuation = continuation\<rparr> (me_resident s),
                         me_metrics := (me_metrics s)\<lparr>mx_published_blocks := mx_published_blocks (me_metrics s) + 1\<rparr>\<rparr>, Ok (ep_id m)))
                 | (s, _) \<Rightarrow> (s, Abort))))))))"

definition publish_block ::
  "('q, 's) Backend \<Rightarrow> (byte list \<Rightarrow> digest) \<Rightarrow> ExecutionProfile \<Rightarrow> LogicalContextId \<Rightarrow> nat \<Rightarrow> EvaluatedPrefixId option \<Rightarrow> nat \<Rightarrow> Decode
    \<Rightarrow> 'q MappedState \<Rightarrow> 'q MappedState \<times> (server_error, EvaluatedPrefixId) outcome" where
  "publish_block bk sha profile context represented_end par native continuation s =
     (let required = required_mask profile; n = length (xp_required profile) in
      and_then (s, state_error executor_display (ex_serialized_bytes bk native (me_executor s))) (\<lambda>serialized s.
      and_then (s, component_bytes serialized n) (\<lambda>bytes s.
      (case checked_mul bytes n of
         None \<Rightarrow> (s, Err (StateError ''representation size overflow''))
       | Some required_bytes \<Rightarrow>
           if device_room (me_physical s) < required_bytes
           then (s, Err (StateError ''device capacity cannot publish the completed block''))
           else (let rollback = parent_native par (ex_active (me_executor s)) s in
             and_then (s, state_error cs_display (prepare_publication sha (me_logical s) context represented_end par required required
                 (replicate 32 0))) (\<lambda>pp s.
             and_then (s, state_error cs_display (validate_publication (me_logical s) pp)) (\<lambda>_ s.
               (case map_of (me_resident s) (ep_id (pp_mapping pp)) of
                  Some r \<Rightarrow> publish_prepared bk pp represented_end rollback required (rz_representations r) [] (Some r) native continuation s
                | None \<Rightarrow>
                    and_then (register_components bk (ep_id (pp_mapping pp)) represented_end bytes rollback (profile_components profile) [] s)
                      (\<lambda>reps s. publish_prepared bk pp represented_end rollback required reps reps None native continuation s)))))))))"

section \<open>Opening and spilling\<close>

text \<open>\<open>opened\<close> is the executor with its architecture and capabilities, once the calls that may fail have succeeded;
  \<open>cleared\<close> is what clearing the spill directory answers.\<close>

record Capabilities =
  ca_global_kv :: bool
  ca_swa :: bool
  ca_recurrent :: bool
  ca_mapped_execution :: bool
  ca_training_context_tokens :: nat

definition mapped_open ::
  "('q, 's) Backend \<Rightarrow> (server_error, unit) outcome \<Rightarrow> (executor_error, string \<times> Capabilities) outcome \<Rightarrow> ExecutionProfile list
    \<Rightarrow> string \<Rightarrow> nat \<Rightarrow> Capacity \<Rightarrow> nat \<Rightarrow> bool \<Rightarrow> nat \<Rightarrow> (server_error, MappedEngine \<times> 'q MappedState) outcome" where
  "mapped_open bk cleared opened families path n_ctx capacity epoch spill spill_capacity =
     snd (and_then ((), if spill then cleared else Ok ()) (\<lambda>_ u.
       and_then (u, state_error executor_display opened) (\<lambda>(architecture, ca) u.
       and_then (u, bundled_for_architecture families architecture) (\<lambda>profile u.
         if \<not> ca_mapped_execution ca \<or> \<not> ca_global_kv ca \<or> \<not> ca_swa ca \<or> \<not> ca_recurrent ca
         then (u, Err (StateError ''executor does not satisfy the execution profile''))
         else if ca_training_context_tokens ca = 0
         then (u, Err (StateError ''executor did not report the model context capacity''))
         else (u, Ok (\<lparr>mg_profile = profile, mg_model_path = path, mg_context_capacity = n_ctx, mg_spill_dir = spill,
             mg_spill_capacity = spill_capacity\<rparr>,
           \<lparr>me_executor = executor_open bk, me_root = 0, me_logical = cs_default, me_physical = pm_new capacity,
             me_model_epoch = epoch, me_resident = [], me_metrics = mapped_metrics_default, me_spill_bytes = 0, me_files = [],
             me_env = \<lparr>en_faults = [], en_checks = [], en_files = [], en_elapsed = []\<rparr>\<rparr>))))))"

definition write_file :: "SpillName \<Rightarrow> byte list \<Rightarrow> 'q MappedState \<Rightarrow> 'q MappedState \<times> (server_error, unit) outcome" where
  "write_file f bytes s = and_then (file_call s) (\<lambda>_ s. (s\<lparr>me_files := hm_put f bytes (me_files s)\<rparr>, Ok ()))"

definition rename_file :: "SpillName \<Rightarrow> SpillName \<Rightarrow> 'q MappedState \<Rightarrow> 'q MappedState \<times> (server_error, unit) outcome" where
  "rename_file a b s = and_then (file_call s) (\<lambda>_ s. (case map_of (me_files s) a of
     None \<Rightarrow> (s, Err (StateError ''No such file or directory (os error 2)''))
   | Some bytes \<Rightarrow> (s\<lparr>me_files := hm_put b bytes (hm_del a (me_files s))\<rparr>, Ok ())))"

fun demote_all :: "PhysicalRepresentationId list \<Rightarrow> 'q MappedState \<Rightarrow> 'q MappedState \<times> (server_error, unit) outcome" where
  "demote_all [] s = (s, Ok ())"
| "demote_all (i # is) s = and_then (on_physical (demote_to_storage i) s) (\<lambda>_ s. demote_all is s)"

fun spill_each ::
  "('q, 's) Backend \<Rightarrow> nat \<Rightarrow> (EvaluatedPrefixId \<times> nat) list \<Rightarrow> nat \<Rightarrow> 'q MappedState \<Rightarrow> 'q MappedState \<times> (server_error, nat) outcome" where
  "spill_each bk capacity [] n s = (s, Ok n)"
| "spill_each bk capacity ((i, native) # rest) n s =
     and_then (on_executor (\<lambda>f. ex_export bk f native) s) (\<lambda>m s.
       if capacity < saturating_add (me_spill_bytes s) (length (ss_bytes m)) then spill_each bk capacity rest n s
       else
         and_then (write_file (SeqTmp i) (ss_bytes m) s) (\<lambda>_ s.
         and_then (rename_file (SeqTmp i) (SeqFile i) s) (\<lambda>_ s.
           (case map_of (me_resident s) i of
              None \<Rightarrow> (s, Abort)
            | Some r \<Rightarrow>
                and_then (demote_all (rz_representations r) s) (\<lambda>_ s.
                  spill_each bk capacity rest (n + 1)
                    (s\<lparr>me_resident := hm_put i (r\<lparr>rz_native := None, rz_spill := Some \<lparr>sl_path = SeqFile i,
                         sl_bytes = length (ss_bytes m), sl_position = ss_position m\<rparr>\<rparr>) (me_resident s),
                       me_spill_bytes := wrapping_add (me_spill_bytes s) (length (ss_bytes m))\<rparr>))))))"

text \<open>The resident mappings that may be spilled. The code collects them from a hash map, in any order: \<open>order\<close> is
  a list of the same entries.\<close>

definition spill_candidates :: "'q MappedState \<Rightarrow> (EvaluatedPrefixId \<times> nat) list" where
  "spill_candidates s = List.map_filter (\<lambda>(i, r). case rz_native r of
     None \<Rightarrow> None | Some h \<Rightarrow> if h = ex_active (me_executor s) then None else Some (i, h)) (me_resident s)"

definition spill_inactive_mappings ::
  "('q, 's) Backend \<Rightarrow> MappedEngine \<Rightarrow> (EvaluatedPrefixId \<times> nat) list \<Rightarrow> 'q MappedState \<Rightarrow> 'q MappedState \<times> (server_error, nat) outcome" where
  "spill_inactive_mappings bk engine order s =
     (if \<not> mg_spill_dir engine \<or> spill_candidates s = [] then (s, Ok 0)
      else and_then (ignored (on_physical (release_binding EXECUTION_SLOT) s)) (\<lambda>_ s'.
        spill_each bk (mg_spill_capacity engine) order 0 s'))"

end
