(* ===== verification/Mapped_Session.thy ===== *)
theory Mapped_Session
  imports Mapped_Engine
begin

text \<open>
  The sessions of the mapped engine (\<open>MappedSession\<close> in \<open>crates/server/src/mapped.rs\<close>): preparation,
  chunked prefill with block publication, decoding token by token, the final publication, and dropping.
  A call takes the session and the shared state. What registering an abort callback can cause, a
  cancelled decode, is one of the faults of the environment.
\<close>

section \<open>Data\<close>

datatype MappedStage = StagePreparation | StagePrefill | StageDecode | StagePublication | StageFinished

record 's MappedSession =
  ms_request :: EngineRequest
  ms_stage :: MappedStage
  ms_tokens :: "token list"
  ms_context :: "LogicalContextId option"
  ms_active :: "nat option"
  ms_parent :: "EvaluatedPrefixId option"
  ms_next :: "Decode option"
  ms_sampler :: "'s option"
  ms_input_tokens :: nat
  ms_cached :: nat
  ms_evaluated_tokens :: nat
  ms_evaluated :: nat
  ms_generated :: nat
  ms_prefill :: PrefillMetrics
  ms_finished :: "EngineOutput option"

definition prefill_default :: PrefillMetrics where
  "prefill_default = \<lparr>pf_total_tokens = 0, pf_cached_tokens = 0, pf_uncached_tokens = 0, pf_tokenization_ns = 0,
     pf_prefix_lookup_ns = 0, pf_mapping_activation_ns = 0, pf_uncached_prefill_ns = 0, pf_total_ns = 0,
     pf_transfer_bytes = 0, pf_device_bytes = 0, pf_host_bytes = 0\<rparr>"

definition new_session :: "EngineRequest \<Rightarrow> 's MappedSession" where
  "new_session request = \<lparr>ms_request = request, ms_stage = StagePreparation, ms_tokens = [], ms_context = None, ms_active = None,
     ms_parent = None, ms_next = None, ms_sampler = None, ms_input_tokens = 0, ms_cached = 0, ms_evaluated_tokens = 0,
     ms_evaluated = 0, ms_generated = 0, ms_prefill = prefill_default, ms_finished = None\<rparr>"

type_synonym ('q, 's) mapped_run = "'s MappedSession \<times> 'q MappedState"

definition mapped_start_session ::
  "MappedEngine \<Rightarrow> EngineRequest \<Rightarrow> 'q MappedState \<Rightarrow> 'q MappedState \<times> (server_error, 's MappedSession) outcome" where
  "mapped_start_session engine request s =
     and_then (control_check s) (\<lambda>_ s.
       if er_prefill_chunk_tokens request = 0 then (s, Err (StateError ''prefill chunk size must be nonzero''))
       else if mr_path (er_model request) \<noteq> mg_model_path engine
       then (s, Err (StateError ''mapped execution admits only a resident process-owned model''))
       else (s, Ok (new_session request)))"

text \<open>A call on the shared state.\<close>

definition in_state ::
  "('q MappedState \<Rightarrow> 'q MappedState \<times> (server_error, 'a) outcome) \<Rightarrow> ('q, 's) mapped_run
    \<Rightarrow> ('q, 's) mapped_run \<times> (server_error, 'a) outcome" where
  "in_state f z = (let r = f (snd z) in ((fst z, fst r), snd r))"

text \<open>A call that reads the executor only.\<close>

definition ask :: "(executor_error, 'a) outcome \<Rightarrow> 'q MappedState \<Rightarrow> 'q MappedState \<times> (server_error, 'a) outcome" where
  "ask answer = on_executor (\<lambda>f e. (e, case f of Some x \<Rightarrow> Err x | None \<Rightarrow> answer))"

definition observed :: "QuantumKind \<Rightarrow> nat \<Rightarrow> nat \<Rightarrow> QuantumObservation" where
  "observed kind charged cost = \<lparr>qo_kind = kind, qo_charged_tokens = charged, qo_context_placement = ''device'',
     qo_executor_slot_occupied = True, qo_transition_cost_bytes = cost, qo_capacity_reserved_bytes = 0\<rparr>"

section \<open>Preparation\<close>

definition attach_prefix :: "EvaluatedPrefix option \<Rightarrow> 'q MappedState \<Rightarrow> 's MappedSession \<Rightarrow> 's MappedSession" where
  "attach_prefix prefix s m = (let cached = (case prefix of None \<Rightarrow> 0 | Some p \<Rightarrow> ep_end p) in
     m\<lparr>ms_cached := cached, ms_evaluated_tokens := length (ms_tokens m) - cached, ms_evaluated := cached,
       ms_parent := map_option ep_id prefix,
       ms_next := map_option rz_continuation (Option.bind prefix (\<lambda>p. map_of (me_resident s) (ep_id p)))\<rparr>)"

definition admit_tokens ::
  "MappedEngine \<Rightarrow> token list \<Rightarrow> ('q, 's) mapped_run \<Rightarrow> ('q, 's) mapped_run \<times> (server_error, unit) outcome" where
  "admit_tokens engine prompt z = (let m = fst z; s = snd z; request = ms_request m;
       m1 = m\<lparr>ms_prefill := (ms_prefill m)\<lparr>pf_tokenization_ns := elapsed s\<rparr>, ms_input_tokens := length prompt\<rparr>;
       s1 = pass_time s in
     case Option.bind (checked_add (length (er_prior_tokens request)) (length prompt)) (\<lambda>v. checked_add v (er_max_tokens request)) of
       None \<Rightarrow> ((m1, s1), Err (StateError ''request token count overflow''))
     | Some n \<Rightarrow>
         if mg_context_capacity engine < n then ((m1, s1), Err (StateError ''request exceeds model context capacity''))
         else ((m1\<lparr>ms_tokens := map word_of_int (er_prior_tokens request) @ prompt\<rparr>, s1), Ok ()))"

text \<open>The context of the request, and the longest prefix that has been evaluated for its tokens.\<close>

definition open_context ::
  "(byte list \<Rightarrow> digest) \<Rightarrow> ('q, 's) mapped_run \<Rightarrow> ('q, 's) mapped_run \<times> (server_error, LogicalContextId \<times> EvaluatedPrefix option) outcome" where
  "open_context sha z = (let m = fst z; s = snd z;
       (logical, context) = cs_create (seq_append sha seq_default (ms_tokens m)) (me_model_epoch s) ADAPTER_EPOCH (me_logical s);
       s1 = s\<lparr>me_logical := logical\<rparr> in
     and_then ((m, s1), state_error cs_display (longest_valid_prefix logical context)) (\<lambda>prefix z.
       ((attach_prefix prefix (snd z) ((fst z)\<lparr>ms_prefill := (ms_prefill (fst z))\<lparr>pf_prefix_lookup_ns := elapsed (snd z)\<rparr>\<rparr>),
         pass_time (snd z)), Ok (context, prefix))))"

definition prepare_session ::
  "('q, 's) Backend \<Rightarrow> (byte list \<Rightarrow> digest) \<Rightarrow> MappedEngine \<Rightarrow> ('q, 's) mapped_run \<Rightarrow> ('q, 's) mapped_run \<times> (server_error, SessionStep) outcome" where
  "prepare_session bk sha engine z =
     and_then (in_state control_check z) (\<lambda>_ z.
     and_then (in_state (ask (bk_tokenize bk (er_prompt (ms_request (fst z))))) z) (\<lambda>prompt z.
     and_then (in_state control_check z) (\<lambda>_ z.
     and_then (admit_tokens engine prompt z) (\<lambda>_ z.
     and_then (open_context sha z) (\<lambda>(context, prefix) z.
       (let transferred = transfer_bytes (pm_metrics (me_physical (snd z))) in
        and_then (in_state (activate_prefix bk context prefix) z) (\<lambda>_ z.
        and_then (in_state (fork_for_request_branch bk (ex_active (me_executor (snd z)))) z) (\<lambda>h z.
          (let m = fst z; s = snd z in
           ((m\<lparr>ms_active := Some h, ms_context := Some context, ms_stage := StagePrefill,
               ms_prefill := (ms_prefill m)\<lparr>pf_mapping_activation_ns := elapsed s, pf_total_tokens := length (ms_tokens m),
                 pf_cached_tokens := ms_cached m, pf_uncached_tokens := ms_evaluated_tokens m\<rparr>\<rparr>, pass_time s),
            Ok (Progress (observed Preparation 1 (transfer_bytes (pm_metrics (me_physical s)) - transferred)))))))))))))"

section \<open>Prefill and decoding\<close>

definition activate_owned :: "('q, 's) Backend \<Rightarrow> ('q, 's) mapped_run \<Rightarrow> ('q, 's) mapped_run \<times> (server_error, unit) outcome" where
  "activate_owned bk z = (case ms_active (fst z) of None \<Rightarrow> (z, Abort) | Some h \<Rightarrow> in_state (activate_mapping bk h) z)"

text \<open>At a block boundary a snapshot of the session's mapping is published.\<close>

definition publish_boundary ::
  "('q, 's) Backend \<Rightarrow> (byte list \<Rightarrow> digest) \<Rightarrow> MappedEngine \<Rightarrow> ('q, 's) mapped_run \<Rightarrow> ('q, 's) mapped_run \<times> (server_error, unit) outcome" where
  "publish_boundary bk sha engine z = (let m = fst z in
     if ms_evaluated m mod xp_block_size (mg_profile engine) \<noteq> 0 then (z, Ok ())
     else (case (ms_active m, ms_context m, ms_next m) of
         (Some h, Some context, Some next) \<Rightarrow>
           and_then (in_state (snapshot_active_mapping bk h) z) (\<lambda>native z.
           and_then (in_state (publish_block bk sha (mg_profile engine) context (ms_evaluated m) (ms_parent m) native next) z) (\<lambda>i z.
             (((fst z)\<lparr>ms_parent := Some i\<rparr>, snd z), Ok ())))
       | _ \<Rightarrow> (z, Abort)))"

text \<open>Decoding the next tokens, which then count as evaluated.\<close>

definition evaluate_tokens ::
  "('q, 's) Backend \<Rightarrow> (byte list \<Rightarrow> digest) \<Rightarrow> MappedEngine \<Rightarrow> token list \<Rightarrow> ('q, 's) mapped_run \<Rightarrow> ('q, 's) mapped_run \<times> (server_error, unit) outcome" where
  "evaluate_tokens bk sha engine ts z =
     and_then (in_state (on_executor (\<lambda>f. ex_decode bk f ts)) z) (\<lambda>d z.
     and_then (in_state control_check ((fst z)\<lparr>ms_next := Some d\<rparr>, snd z)) (\<lambda>_ z.
       (let m = fst z; s = snd z in
        publish_boundary bk sha engine (m\<lparr>ms_evaluated := ms_evaluated m + length ts\<rparr>,
          s\<lparr>me_metrics := (me_metrics s)\<lparr>mx_decoded_tokens := mx_decoded_tokens (me_metrics s) + length ts\<rparr>\<rparr>))))"

definition prefill_end :: "MappedEngine \<Rightarrow> 's MappedSession \<Rightarrow> nat" where
  "prefill_end engine m = (let block = xp_block_size (mg_profile engine);
       next_block = min ((ms_evaluated m div block + 1) * block) u64_max in
     min (min (length (ms_tokens m)) next_block) (saturating_add (ms_evaluated m) (er_prefill_chunk_tokens (ms_request m))))"

lemma prefill_end_code [code]:
  "prefill_end engine m = (let block = xp_block_size (mg_profile engine); next_block = (ms_evaluated m div block + 1) * block in
     min (min (length (ms_tokens m)) (if int next_block \<le> 18446744073709551615 then next_block else u64_max))
       (saturating_add (ms_evaluated m) (er_prefill_chunk_tokens (ms_request m))))"
proof -
  have "int n \<le> 18446744073709551615 \<longleftrightarrow> n \<le> u64_max" for n by (simp add: u64_max_def)
  then show ?thesis by (simp add: prefill_end_def Let_def min_def)
qed

definition prefill_session ::
  "('q, 's) Backend \<Rightarrow> (byte list \<Rightarrow> digest) \<Rightarrow> MappedEngine \<Rightarrow> ('q, 's) mapped_run \<Rightarrow> ('q, 's) mapped_run \<times> (server_error, SessionStep) outcome" where
  "prefill_session bk sha engine z = (let m = fst z; request = ms_request m in
     if length (ms_tokens m) \<le> ms_evaluated m then
       (if 0 < er_max_tokens request \<and> ms_next m = None
        then (z, Err (StateError ''an exact cached prefix cannot supply uncached logits''))
        else and_then (in_state (ask (bk_sampler bk (er_sampling request) (er_grammar request))) z) (\<lambda>sampler z.
          (((fst z)\<lparr>ms_sampler := Some sampler, ms_stage := StageDecode\<rparr>, snd z), Ok (Progress (model_free Prefill 1)))))
     else
       and_then (in_state control_check z) (\<lambda>_ z.
       and_then (in_state control_check z) (\<lambda>_ z.
       and_then (activate_owned bk z) (\<lambda>_ z.
         (let charged = prefill_end engine m - ms_evaluated m in
          and_then (evaluate_tokens bk sha engine (take charged (drop (ms_evaluated m) (ms_tokens m))) z) (\<lambda>_ z.
            (((fst z)\<lparr>ms_prefill := (ms_prefill (fst z))\<lparr>pf_uncached_prefill_ns :=
                saturating_add (pf_uncached_prefill_ns (ms_prefill (fst z))) (elapsed (snd z))\<rparr>\<rparr>, pass_time (snd z)),
             Ok (Progress (observed Prefill (max charged 1) 0)))))))))"

definition publish_session :: "('q, 's) Backend \<Rightarrow> ('q, 's) mapped_run \<Rightarrow> ('q, 's) mapped_run \<times> (server_error, EngineOutput) outcome" where
  "publish_session bk z = (case ms_finished (fst z) of
       Some output \<Rightarrow> (z, Ok output)
     | None \<Rightarrow>
         and_then (in_state control_check z) (\<lambda>_ z.
           (let m = (fst z)\<lparr>ms_sampler := None\<rparr>; s = snd z in
            and_then
              (case ms_active m of
                 None \<Rightarrow> ((m, s), Ok ())
               | Some active \<Rightarrow> (let fallback = parent_native (ms_parent m) (ex_active (me_executor s)) s in
                   if active = fallback then ((m\<lparr>ms_active := None\<rparr>, s), Ok ())
                   else in_state (activate_mapping bk fallback) (m\<lparr>ms_active := None\<rparr>, s)))
              (\<lambda>_ z. (let m = fst z; s = snd z; e = me_executor s; x = me_metrics s; p = pm_metrics (me_physical s);
                   prefill = (ms_prefill m)\<lparr>pf_transfer_bytes := transfer_bytes p, pf_device_bytes := device_total p,
                     pf_host_bytes := metric_host_used p, pf_total_ns := elapsed s\<rparr>;
                   output = \<lparr>eo_successor_tokens = map sint (ms_tokens m), eo_input_tokens = ms_input_tokens m,
                     eo_cached_tokens = ms_cached m, eo_evaluated_tokens = ms_evaluated_tokens m, eo_prefill = prefill\<rparr> in
                 ((m\<lparr>ms_prefill := prefill, ms_finished := Some output, ms_stage := StageFinished\<rparr>,
                   pass_time (s\<lparr>me_metrics := x\<lparr>mx_requests := mx_requests x + 1, mx_cached_tokens := mx_cached_tokens x + ms_cached m,
                     mx_cache_hits := mx_cache_hits x + (if ms_cached m = 0 then 0 else 1),
                     mx_reference_switches := ex_reference_switches e, mx_fork_bytes_copied := ex_fork_bytes e,
                     mx_export_bytes_copied := ex_export_bytes e, mx_import_bytes_copied := ex_import_bytes e,
                     mx_total_bytes_copied := ex_fork_bytes e + ex_export_bytes e + ex_import_bytes e,
                     mx_graph_recaptures := None\<rparr>\<rparr>)), Ok output))))))"

text \<open>Sampling keeps the sampler's new state also when it reports an error.\<close>

definition sample_next :: "('q, 's) Backend \<Rightarrow> ('q, 's) mapped_run \<Rightarrow> ('q, 's) mapped_run \<times> (server_error, token) outcome" where
  "sample_next bk z = (case (ms_sampler (fst z), ms_next (fst z)) of
       (Some sampler, Some next) \<Rightarrow> (let r = bk_sample bk sampler next in
         in_state (ask (snd r)) (if next_fault (snd z) = None then (fst z)\<lparr>ms_sampler := Some (fst r)\<rparr> else fst z, snd z))
     | _ \<Rightarrow> (z, Abort))"

definition decode_session ::
  "('q, 's) Backend \<Rightarrow> (byte list \<Rightarrow> digest) \<Rightarrow> MappedEngine \<Rightarrow> ('q, 's) mapped_run \<Rightarrow> ('q, 's) mapped_run \<times> (server_error, SessionStep) outcome" where
  "decode_session bk sha engine z = (let max_tokens = er_max_tokens (ms_request (fst z)) in
     if max_tokens \<le> ms_generated (fst z)
     then and_then (publish_session bk ((fst z)\<lparr>ms_stage := StagePublication\<rparr>, snd z)) (\<lambda>output z. (z, Ok (Finished output)))
     else
       and_then (in_state control_check z) (\<lambda>_ z.
       and_then (in_state control_check z) (\<lambda>_ z.
       and_then (activate_owned bk z) (\<lambda>_ z.
       and_then (sample_next bk z) (\<lambda>sampled z.
         (let terminal = bk_eog bk sampled in
          and_then (if terminal then (z, Ok []) else in_state (ask (bk_render bk sampled)) z) (\<lambda>piece z.
          and_then (in_state control_check z) (\<lambda>_ z.
            (let m = (fst z)\<lparr>ms_tokens := ms_tokens (fst z) @ [sampled]\<rparr> in
             case ms_context m of
               None \<Rightarrow> ((m, snd z), Abort)
             | Some context \<Rightarrow>
                 and_then (in_state (on_logical (cs_append sha context [sampled])) (m, snd z)) (\<lambda>_ z.
                   (let m = (fst z)\<lparr>ms_generated := ms_generated (fst z) + 1\<rparr> in
                    and_then
                      (if terminal \<or> ms_generated m = max_tokens then ((m\<lparr>ms_stage := StagePublication\<rparr>, snd z), Ok ())
                       else evaluate_tokens bk sha engine [sampled] (m, snd z))
                      (\<lambda>_ z. (z, Ok (TokenStep (sint sampled) piece terminal (observed QuantumKind.Decode 1 0)))))))))))))))"

section \<open>The session's interface\<close>

definition mapped_step ::
  "('q, 's) Backend \<Rightarrow> (byte list \<Rightarrow> digest) \<Rightarrow> MappedEngine \<Rightarrow> ('q, 's) mapped_run \<Rightarrow> ('q, 's) mapped_run \<times> (server_error, SessionStep) outcome" where
  "mapped_step bk sha engine z = (case ms_stage (fst z) of
       StagePreparation \<Rightarrow> prepare_session bk sha engine z
     | StagePrefill \<Rightarrow> prefill_session bk sha engine z
     | StageDecode \<Rightarrow> decode_session bk sha engine z
     | StagePublication \<Rightarrow> and_then (publish_session bk z) (\<lambda>output z. (z, Ok (Finished output)))
     | StageFinished \<Rightarrow> (z, case ms_finished (fst z) of None \<Rightarrow> Abort | Some output \<Rightarrow> Ok (Finished output)))"

definition mapped_finish :: "('q, 's) Backend \<Rightarrow> ('q, 's) mapped_run \<Rightarrow> ('q, 's) mapped_run \<times> (server_error, EngineOutput) outcome" where
  "mapped_finish bk z = publish_session bk z"

definition mapped_drop :: "('q, 's) Backend \<Rightarrow> ('q, 's) mapped_run \<Rightarrow> 'q MappedState" where
  "mapped_drop bk z = (case ms_active (fst z) of
       None \<Rightarrow> snd z
     | Some active \<Rightarrow> (let fallback = parent_native (ms_parent (fst z)) (me_root (snd z)) (snd z) in
         if active = fallback then snd z else fst (activate_mapping bk fallback (snd z))))"

end
