(* ===== verification/Mapped_System.thy ===== *)
theory Mapped_System
  imports Mapped_Session
begin

text \<open>
  The mapped engine with its sessions as a state machine. A step is one call that holds the mutex, so
  calls of different sessions interleave freely. A session whose call failed is only dropped: the
  scheduler reports the error and gives the session up. Before each call the environment may be
  replaced, so that a step sees any faults, controls and file errors.

  The machine stops where a panic unwinds out of a call and where a restore failed without recovery
  (\<open>ex_lost\<close>), and it ends before the context ids wrap around.
\<close>

record ('q, 's) MappedSystem =
  my_state :: "'q MappedState"
  my_sessions :: "(nat, 's MappedSession \<times> bool) hm"

definition is_error :: "('e, 'a) outcome \<Rightarrow> bool" where
  "is_error r = (case r of Err _ \<Rightarrow> True | _ \<Rightarrow> False)"

definition mapped_init :: "('q, 's) Backend \<Rightarrow> MappedEngine \<Rightarrow> ('q, 's) MappedSystem \<Rightarrow> bool" where
  "mapped_init bk engine y \<longleftrightarrow> my_sessions y = [] \<and>
     (\<exists>cleared opened families path n_ctx capacity epoch spill spill_capacity.
        n_ctx < 2 ^ 32 \<and> cap_device_bytes capacity \<le> u64_max \<and> cap_host_bytes capacity \<le> u64_max \<and>
        mapped_open bk cleared opened families path n_ctx capacity epoch spill spill_capacity = Ok (engine, my_state y))"

text \<open>A session's call: its state and the shared state change, and an error marks it as failed.\<close>

definition after_call ::
  "nat \<Rightarrow> ('q, 's) mapped_run \<times> (server_error, 'a) outcome \<Rightarrow> ('q, 's) MappedSystem \<Rightarrow> ('q, 's) MappedSystem" where
  "after_call k r y = \<lparr>my_state = snd (fst r), my_sessions = hm_put k (fst (fst r), is_error (snd r)) (my_sessions y)\<rparr>"

definition may_call :: "('q, 's) MappedSystem \<Rightarrow> bool" where
  "may_call y \<longleftrightarrow> \<not> ex_lost (me_executor (my_state y)) \<and> next_context (me_logical (my_state y)) + 1 < 2 ^ 64"

inductive mapped_move ::
  "('q, 's) Backend \<Rightarrow> (byte list \<Rightarrow> digest) \<Rightarrow> MappedEngine \<Rightarrow> ('q, 's) MappedSystem \<Rightarrow> ('q, 's) MappedSystem \<Rightarrow> bool"
  for bk sha engine where
  move_environment: "mapped_move bk sha engine y (y\<lparr>my_state := (my_state y)\<lparr>me_env := env\<rparr>\<rparr>)"
| move_start: "mapped_start_session engine request (my_state y) = (s, Ok m) \<Longrightarrow> map_of (my_sessions y) k = None \<Longrightarrow>
    mapped_move bk sha engine y \<lparr>my_state = s, my_sessions = hm_put k (m, False) (my_sessions y)\<rparr>"
| move_step: "map_of (my_sessions y) k = Some (m, False) \<Longrightarrow> may_call y \<Longrightarrow>
    mapped_step bk sha engine (m, my_state y) = r \<Longrightarrow> snd r \<noteq> Abort \<Longrightarrow> mapped_move bk sha engine y (after_call k r y)"
| move_finish: "map_of (my_sessions y) k = Some (m, False) \<Longrightarrow> may_call y \<Longrightarrow>
    mapped_finish bk (m, my_state y) = r \<Longrightarrow> snd r \<noteq> Abort \<Longrightarrow> mapped_move bk sha engine y (after_call k r y)"
| move_drop: "map_of (my_sessions y) k = Some (m, failed) \<Longrightarrow> may_call y \<Longrightarrow>
    mapped_move bk sha engine y \<lparr>my_state = mapped_drop bk (m, my_state y), my_sessions = hm_del k (my_sessions y)\<rparr>"
| move_spill: "may_call y \<Longrightarrow> mset order = mset (spill_candidates (my_state y)) \<Longrightarrow>
    spill_inactive_mappings bk engine order (my_state y) = (s, r) \<Longrightarrow> r \<noteq> Abort \<Longrightarrow>
    mapped_move bk sha engine y (y\<lparr>my_state := s\<rparr>)"

inductive_cases mapped_moveE: "mapped_move bk sha engine y z"

abbreviation mapped_reach ::
  "('q, 's) Backend \<Rightarrow> (byte list \<Rightarrow> digest) \<Rightarrow> MappedEngine \<Rightarrow> ('q, 's) MappedSystem \<Rightarrow> bool" where
  "mapped_reach bk sha engine \<equiv> reach (mapped_init bk engine) (mapped_move bk sha engine)"

section \<open>The reference\<close>

text \<open>What the model alone makes of a request: every token is decoded once, in one sequence, without
  caches, sharing or spilling.\<close>

definition fed :: "('q, 's) Backend \<Rightarrow> token list \<Rightarrow> 'q" where
  "fed bk ts = bk_feed bk (bk_empty bk) 0 ts"

primrec generate :: "('q, 's) Backend \<Rightarrow> nat \<Rightarrow> 's \<Rightarrow> token list \<Rightarrow> token list" where
  "generate bk 0 sampler ts = []"
| "generate bk (Suc n) sampler ts = (case bk_sample bk sampler (bk_result bk (fed bk ts)) of
     (sampler', Ok t) \<Rightarrow> if bk_eog bk t then [t] else t # generate bk n sampler' (ts @ [t])
   | _ \<Rightarrow> [])"

definition request_input :: "('q, 's) Backend \<Rightarrow> EngineRequest \<Rightarrow> token list" where
  "request_input bk request = (case bk_tokenize bk (er_prompt request) of
     Ok prompt \<Rightarrow> map word_of_int (er_prior_tokens request) @ prompt | _ \<Rightarrow> [])"

definition reference_output :: "('q, 's) Backend \<Rightarrow> EngineRequest \<Rightarrow> token list" where
  "reference_output bk request = (case bk_sampler bk (er_sampling request) (er_grammar request) of
     Ok sampler \<Rightarrow> generate bk (er_max_tokens request) sampler (request_input bk request) | _ \<Rightarrow> [])"

text \<open>The laws of the backend, as one interface.\<close>

locale mapped_backend =
  fixes bk :: "('q, 's) Backend"
  assumes laws: "sequence_backend (bk_feed bk) (bk_save bk) (bk_load bk)"

sublocale mapped_backend \<subseteq> sequence_backend "bk_empty bk" "bk_feed bk" "bk_save bk" "bk_load bk"
  by (rule laws)

context mapped_backend
begin

lemma fed_evaluated: "fed bk = evaluated"
  by (simp add: fed_def evaluated_def fun_eq_iff)

lemma fed_nil [simp]: "fed bk [] = bk_empty bk"
  by (simp add: fed_evaluated evaluated_nil)

lemma fed_append: "bk_feed bk (fed bk ts) (length ts) us = fed bk (ts @ us)"
  by (simp add: fed_evaluated evaluated_append)

lemma load_fed [simp]: "bk_load bk (bk_save bk q) = Some q"
  by (rule load_save)

end

interpretation mock_engine: mapped_backend mock_backend
  by unfold_locales (simp_all add: mock_backend_def mock_feed_def mock_load_save)

lemma mock_laws: "mapped_backend mock_backend"
  by unfold_locales

end
