(* ===== verification/Mapped_Store.thy ===== *)
theory Mapped_Store
  imports Context_Store_Props
begin

text \<open>
  The context store as the mapped engine uses it: contexts are created and grow, prefixes are
  published, and nothing is ever removed. Then the catalogue only grows, and what it says about an
  identity stays the same.
\<close>

definition cat_kept :: "ContextStore \<Rightarrow> bool" where
  "cat_kept s \<longleftrightarrow> (\<forall>i e. map_of (mappings s) i = Some e \<longrightarrow> 0 < rc_catalog (me_references e))"

lemma cat_kept_default: "cat_kept cs_default"
  by (simp add: cat_kept_def cs_default_def)

lemma cat_kept_same: "mappings t = mappings s \<Longrightarrow> cat_kept s \<Longrightarrow> cat_kept t"
  by (simp add: cat_kept_def)

lemma adjust_old_kept:
  assumes "cat_kept s"
  shows "cat_kept (adjust_old old s)" "cat (mappings (adjust_old old s)) = cat (mappings s)"
proof -
  have keep: "\<exists>e'. map_of (mappings (adjust_old old s)) i = Some e' \<and> 0 < rc_catalog (me_references e')"
    if "map_of (mappings s) i = Some e" for i e
    using adjust_old_keeps[OF that] assms that by (simp add: cat_kept_def)
  have old_cat: "cat (mappings (adjust_old old s)) i = Some m \<Longrightarrow> cat (mappings s) i = Some m" for i m
    by (rule adjust_old_cat)
  show "cat (mappings (adjust_old old s)) = cat (mappings s)"
  proof
    fix i show "cat (mappings (adjust_old old s)) i = cat (mappings s) i"
    proof (cases "map_of (mappings s) i")
      case None
      with old_cat[of i] show ?thesis by (cases "cat (mappings (adjust_old old s)) i") (auto simp: cat_def)
    next
      case (Some e)
      from keep[OF this] obtain e' where "map_of (mappings (adjust_old old s)) i = Some e'" by blast
      then have "cat (mappings (adjust_old old s)) i = Some (me_mapping e')" by (simp add: cat_def)
      with old_cat[OF this] show ?thesis by simp
    qed
  qed
  show "cat_kept (adjust_old old s)" unfolding cat_kept_def
  proof (intro allI impI)
    fix i e assume e: "map_of (mappings (adjust_old old s)) i = Some e"
    then have "cat (mappings s) i = Some (me_mapping e)" by (intro old_cat) (simp add: cat_def)
    then obtain e0 where "map_of (mappings s) i = Some e0" by (auto simp: cat_def)
    from keep[OF this] e show "0 < rc_catalog (me_references e)" by auto
  qed
qed

lemma adjust_True_kept: "cat_kept s \<Longrightarrow> cat_kept (adjust_context_refs i True s)"
  by (auto simp: cat_kept_def adjust_context_refs_def split: option.splits)

lemma catalogued_kept:
  assumes "cat_kept s"
  shows "cat_kept (catalogued m s)"
proof (cases "hm_has (mappings s) (ep_id m)")
  case False
  have "0 < rc_catalog (me_references e)" if "map_of (retain_dependent p (mappings s)) i = Some e" for p i e
    using get_retain_dependent[OF that] assms by (auto simp: cat_kept_def)
  with False show ?thesis by (auto simp: cat_kept_def catalogued_def catalog_insert_def)
qed (use assms in \<open>simp add: catalogued_def\<close>)

lemma catalogued_cat:
  "cat (mappings (catalogued m s)) = (if hm_has (mappings s) (ep_id m) then cat (mappings s) else (cat (mappings s))(ep_id m \<mapsto> m))"
  by (simp add: catalogued_def catalog_insert_fields)

text \<open>Everything the engine uses of a publication that is committed as it was validated.\<close>

lemma commit_kept:
  assumes inv: "store_inv sha s" and kept: "cat_kept s" and wf: "prefix_wf sha (pp_mapping pp)"
    and c: "commit_publication pp s = (s', Ok m)"
  shows "cat_kept s'"
    and "cat (mappings s') = (if hm_has (mappings s) (ep_id (pp_mapping pp)) then cat (mappings s)
      else (cat (mappings s))(ep_id (pp_mapping pp) \<mapsto> pp_mapping pp))"
    and "cat (mappings s') (ep_id (pp_mapping pp)) = Some m" and "ep_id m = ep_id (pp_mapping pp)"
    and "seq_list (ep_sequence m) = seq_list (ep_sequence (pp_mapping pp))"
    and "next_context s' = next_context s"
    and "\<And>k. map_option ctx_tokens (map_of (contexts s') k) = map_option ctx_tokens (map_of (contexts s) k)"
proof -
  let ?i = "ep_id (pp_mapping pp)"
  note v = commit_Ok_validated[OF c]
  obtain x where x: "map_of (contexts s) (pp_context pp) = Some x"
    and same: "\<forall>e. map_of (mappings s) ?i = Some e \<longrightarrow> prefix_eq (me_mapping e) (pp_mapping pp)"
    and par: "\<forall>p. map_of (mappings s) ?i = None \<longrightarrow> ep_parent (pp_mapping pp) = Some p \<longrightarrow> hm_has (mappings s) p"
    by (rule validate_publication_OkD[OF inv wf v]) blast
  note cases = commit_cases[OF v x par]
  let ?s1 = "catalogued (pp_mapping pp) s"
  have ctx1: "contexts ?s1 = contexts s" and nc1: "next_context ?s1 = next_context s"
    by (auto simp: catalogued_def catalog_insert_fields)
  have s': "cat_kept s' \<and> cat (mappings s') = cat (mappings ?s1) \<and> next_context s' = next_context s \<and>
      (\<forall>k. map_option ctx_tokens (map_of (contexts s') k) = map_option ctx_tokens (map_of (contexts s) k))"
  proof (cases "ctx_evaluated x = Some ?i")
    case True
    with cases(1) c have "s' = ?s1" by simp
    with catalogued_kept[OF kept] ctx1 nc1 show ?thesis by simp
  next
    case False
    with cases(3) c obtain r where r: "checked_add (ctx_revision x) 1 = Some r" by (cases "checked_add (ctx_revision x) 1") auto
    from cases(2)[OF False r] c have s': "s' = switched pp x r s" by simp
    have ctx: "contexts s' = hm_put (pp_context pp) (x\<lparr>ctx_evaluated := Some ?i, ctx_revision := r\<rparr>) (contexts s)"
      by (simp add: s' switched_def Let_def adjust_frame ctx1)
    have "cat_kept s'" unfolding s' switched_def Let_def
      by (rule cat_kept_same[OF _ adjust_True_kept[OF adjust_old_kept(1)[OF catalogued_kept[OF kept]]]]) simp
    moreover have "cat (mappings s') = cat (mappings ?s1)"
      by (simp add: s' switched_def Let_def cat_adjust_True adjust_old_kept(2)[OF catalogued_kept[OF kept]])
    moreover have "next_context s' = next_context s" by (simp add: s' switched_def Let_def adjust_frame nc1)
    ultimately show ?thesis using x by (auto simp: ctx)
  qed
  then show "cat_kept s'" "next_context s' = next_context s"
    "\<And>k. map_option ctx_tokens (map_of (contexts s') k) = map_option ctx_tokens (map_of (contexts s) k)" by blast+
  from s' show cat': "cat (mappings s') = (if hm_has (mappings s) ?i then cat (mappings s)
      else (cat (mappings s))(?i \<mapsto> pp_mapping pp))" by (simp add: catalogued_cat)
  have "map_of (mappings s') ?i = Some e \<Longrightarrow> m = me_mapping e" for e
    using c v x par by (auto simp: commit_publication_def Let_def split: if_splits option.splits)
  moreover obtain e where e: "map_of (mappings s') ?i = Some e"
    using fun_cong[OF cat', of ?i] by (cases "map_of (mappings s') ?i") (auto simp: cat_def hm_has_def split: if_splits)
  ultimately show m: "cat (mappings s') ?i = Some m" by (simp add: cat_def)
  have eq: "prefix_eq m (pp_mapping pp) \<or> m = pp_mapping pp"
    using m cat' same by (auto simp: cat_def hm_has_def split: if_splits)
  then show "ep_id m = ?i" by (auto simp: prefix_eq_def)
  have "prefix_wf sha m"
  proof -
    have "store_inv sha s'" using commit_inv[OF inv wf, unfolded c] by simp
    from store_inv_mapping(2)[OF this m] show ?thesis .
  qed
  with eq wf show "seq_list (ep_sequence m) = seq_list (ep_sequence (pp_mapping pp))"
    by (auto simp: prefix_eq_def prefix_wf_def seq_eq_iff)
qed

text \<open>What a prepared publication describes.\<close>

lemma prepare_tokens:
  assumes inv: "store_inv sha s" and p: "prepare_publication sha s k e par req compl params = Ok pp"
    and c: "map_of (contexts s) k = Some c"
  shows "seq_list (ep_sequence (pp_mapping pp)) = take e (seq_list (ctx_tokens c))" "pp_context pp = k"
    "ep_end (pp_mapping pp) = e"
proof -
  from p c obtain q where q: "seq_prefix (ctx_tokens c) e = Some q" "ep_sequence (pp_mapping pp) = q"
    and "pp_context pp = k" "ep_end (pp_mapping pp) = e"
    by (auto simp: prepare_publication_def Let_def split: option.splits if_splits outcome.splits)
  with seq.pre_toks[OF store_inv_context(3)[OF inv c] q(1)]
  show "seq_list (ep_sequence (pp_mapping pp)) = take e (seq_list (ctx_tokens c))" "pp_context pp = k"
    "ep_end (pp_mapping pp) = e" by simp_all
qed

text \<open>What the lookup answers for the engine.\<close>

lemma longest_tokens:
  assumes inv: "store_inv sha s" and c: "map_of (contexts s) k = Some c"
    and r: "longest_valid_prefix s k = Ok (Some m)"
  shows "cat (mappings s) (ep_id m) = Some m" "ep_end m \<le> length (seq_list (ctx_tokens c))"
    "seq_list (ep_sequence m) = take (ep_end m) (seq_list (ctx_tokens c))"
proof -
  from longest_characterisation[OF inv c] r have m: "cat (mappings s) (ep_id m) = Some m"
    and v: "mapping_valid_for_context s m c None" by (metis outcome.inject(1))+
  show "cat (mappings s) (ep_id m) = Some m" by (rule m)
  have wf: "prefix_wf sha m" by (rule store_inv_mapping(2)[OF inv m])
  have "prefix_matches (ctx_tokens c) (ep_end m) (ep_sequence m)" and len: "ep_end m \<le> seq_len (ctx_tokens c)"
    using v by (auto simp: mapping_valid_for_context_def split: if_splits)
  then show "seq_list (ep_sequence m) = take (ep_end m) (seq_list (ctx_tokens c))"
    using prefix_matches_iff[OF store_inv_context(3)[OF inv c]] wf by (simp add: prefix_wf_def)
  show "ep_end m \<le> length (seq_list (ctx_tokens c))"
    using len seq_len_list[OF store_inv_context(3)[OF inv c]] by simp
qed

lemma create_kept:
  assumes inv: "store_inv sha s" and c: "cs_create t m a s = (s', k)" and room: "next_context s + 1 < 2 ^ 64"
  shows "mappings s' = mappings s" "k = next_context s" "next_context s' = Suc k"
    "map_option ctx_tokens (map_of (contexts s') k) = Some t" "map_of (contexts s) k = None"
    "\<And>j. j \<noteq> k \<Longrightarrow> map_of (contexts s') j = map_of (contexts s) j"
proof -
  show "map_of (contexts s) k = None"
    using store_inv_context(2)[OF inv, of k] c by (cases "map_of (contexts s) k") (auto simp: cs_create_def Let_def)
qed (use c room in \<open>auto simp: cs_create_def Let_def\<close>)

lemma append_kept:
  assumes inv: "store_inv sha s" and c: "map_of (contexts s) k = Some x" and a: "cs_append sha k ts s = (s', Ok u)"
  shows "mappings s' = mappings s" "next_context s' = next_context s"
    "\<exists>x'. map_of (contexts s') k = Some x' \<and> seq_list (ctx_tokens x') = seq_list (ctx_tokens x) @ ts"
    "\<And>j. j \<noteq> k \<Longrightarrow> map_of (contexts s') j = map_of (contexts s) j"
proof -
  note wf = store_inv_context(3)[OF inv c]
  show "\<exists>x'. map_of (contexts s') k = Some x' \<and> seq_list (ctx_tokens x') = seq_list (ctx_tokens x) @ ts"
    using a c seq_append_correct(2)[OF wf, of ts] by (auto simp: cs_append_def Let_def split: if_splits option.splits)
qed (use a c in \<open>auto simp: cs_append_def Let_def split: if_splits option.splits\<close>)

end
