(* ===== verification/Mapped_Inv.thy ===== *)
theory Mapped_Inv
  imports Mapped_System Mapped_Store Physical_Manager_Props
begin

text \<open>
  The invariant of the mapped engine and the proof that every operation on its shared state keeps it:
  every resident prefix, native or spilled, is what the model makes of exactly the tokens the
  catalogue gives for it. The relation \<open>grows\<close> says what one call may change for the others.
\<close>

declare split_paired_All [simp del] split_paired_Ex [simp del]

section \<open>The invariant\<close>

definition holds :: "('q, 's) Backend \<Rightarrow> 'q Executor \<Rightarrow> nat \<Rightarrow> token list \<Rightarrow> bool" where
  "holds bk e h ts \<longleftrightarrow> map_of (ex_mappings e) h = Some \<lparr>mg_state = fed bk ts, mg_position = length ts\<rparr>"

definition exec_ok :: "'q Executor \<Rightarrow> bool" where
  "exec_ok e \<longleftrightarrow> hm_ok (ex_mappings e) \<and> map_of (ex_mappings e) (ex_active e) \<noteq> None \<and>
     (\<forall>h m. map_of (ex_mappings e) h = Some m \<longrightarrow> h \<le> ex_epoch e)"

definition spill_ok :: "('q, 's) Backend \<Rightarrow> (SpillName, byte list) hm \<Rightarrow> EvaluatedPrefixId \<Rightarrow> token list \<Rightarrow> SpilledMapping option \<Rightarrow> bool" where
  "spill_ok bk files i ts spilled \<longleftrightarrow> (\<exists>sp. spilled = Some sp \<and> sl_path sp = SeqFile i \<and> map_of files (SeqFile i) = Some (bk_save bk (fed bk ts)) \<and>
     sl_bytes sp = length (bk_save bk (fed bk ts)) \<and> sl_position sp = length ts)"

definition resident_ok :: "('q, 's) Backend \<Rightarrow> 'q MappedState \<Rightarrow> EvaluatedPrefixId \<Rightarrow> token list \<Rightarrow> ResidentMapping \<Rightarrow> bool" where
  "resident_ok bk s i ts r \<longleftrightarrow> rz_continuation r = bk_result bk (fed bk ts) \<and>
     (case rz_native r of Some h \<Rightarrow> holds bk (me_executor s) h ts \<and> h \<noteq> me_root s
      | None \<Rightarrow> spill_ok bk (me_files s) i ts (rz_spill r))"

definition residents_ok :: "('q, 's) Backend \<Rightarrow> 'q MappedState \<Rightarrow> bool" where
  "residents_ok bk s \<longleftrightarrow> hm_ok (me_resident s) \<and> (\<forall>i r. map_of (me_resident s) i = Some r \<longrightarrow>
     (\<exists>m. cat (mappings (me_logical s)) i = Some m \<and> resident_ok bk s i (seq_list (ep_sequence m)) r))"

definition engine_inv :: "('q, 's) Backend \<Rightarrow> (byte list \<Rightarrow> digest) \<Rightarrow> 'q MappedState \<Rightarrow> bool" where
  "engine_inv bk sha s \<longleftrightarrow> exec_ok (me_executor s) \<and> holds bk (me_executor s) (me_root s) [] \<and>
     reach pm_init pm_step (me_physical s) \<and> reach cs_init (cs_step sha) (me_logical s, []) \<and>
     cat_kept (me_logical s) \<and> residents_ok bk s"

definition natives :: "'q MappedState \<Rightarrow> nat set" where
  "natives s = {h. \<exists>i r. map_of (me_resident s) i = Some r \<and> rz_native r = Some h}"

text \<open>What a call may change: the mappings \<open>X\<close> and the contexts \<open>C\<close> of its own session. It makes only mappings
  resident that are younger than \<open>b\<close>.\<close>

definition mappings_grow :: "nat set \<Rightarrow> 'q Executor \<Rightarrow> 'q Executor \<Rightarrow> bool" where
  "mappings_grow X e e' \<longleftrightarrow> ex_epoch e \<le> ex_epoch e' \<and>
     (\<forall>h m. h \<notin> X \<longrightarrow> map_of (ex_mappings e) h = Some m \<longrightarrow> map_of (ex_mappings e') h = Some m)"

definition store_grows :: "nat set \<Rightarrow> ContextStore \<Rightarrow> ContextStore \<Rightarrow> bool" where
  "store_grows C s s' \<longleftrightarrow> next_context s \<le> next_context s' \<and>
     (\<forall>c x. c \<notin> C \<longrightarrow> map_of (contexts s) c = Some x \<longrightarrow> map_option ctx_tokens (map_of (contexts s') c) = Some (ctx_tokens x)) \<and>
     (\<forall>i m. cat (mappings s) i = Some m \<longrightarrow> cat (mappings s') i = Some m)"

definition grows :: "nat \<Rightarrow> nat set \<Rightarrow> nat set \<Rightarrow> 'q MappedState \<Rightarrow> 'q MappedState \<Rightarrow> bool" where
  "grows b X C s s' \<longleftrightarrow> me_root s' = me_root s \<and> mappings_grow X (me_executor s) (me_executor s') \<and>
     store_grows C (me_logical s) (me_logical s') \<and>
     (\<forall>h. h \<in> natives s' \<longrightarrow> h \<in> natives s \<or> b < h)"

abbreviation lost :: "'q MappedState \<Rightarrow> bool" where
  "lost s \<equiv> ex_lost (me_executor s)"

definition fine :: "('q, 's) Backend \<Rightarrow> (byte list \<Rightarrow> digest) \<Rightarrow> nat \<Rightarrow> nat set \<Rightarrow> nat set \<Rightarrow> 'q MappedState \<Rightarrow> 'q MappedState \<Rightarrow> bool" where
  "fine bk sha b X C s s' \<longleftrightarrow> \<not> lost s' \<and> engine_inv bk sha s' \<and> grows b X C s s'"

definition good :: "('q, 's) Backend \<Rightarrow> (byte list \<Rightarrow> digest) \<Rightarrow> nat \<Rightarrow> nat set \<Rightarrow> nat set \<Rightarrow> 'q MappedState \<Rightarrow> 'q MappedState \<Rightarrow> bool" where
  "good bk sha b X C s s' \<longleftrightarrow> lost s' \<or> engine_inv bk sha s' \<and> grows b X C s s'"

text \<open>A call that keeps the invariant whatever its outcome, and establishes \<open>P\<close> when it succeeds.\<close>

definition calls ::
  "('q, 's) Backend \<Rightarrow> (byte list \<Rightarrow> digest) \<Rightarrow> nat \<Rightarrow> nat set \<Rightarrow> nat set \<Rightarrow> 'q MappedState \<Rightarrow> 'q MappedState \<times> (server_error, 'a) outcome
    \<Rightarrow> ('a \<Rightarrow> 'q MappedState \<Rightarrow> bool) \<Rightarrow> bool" where
  "calls bk sha b X C s r P \<longleftrightarrow> runs True r (\<lambda>a s'. fine bk sha b X C s s' \<and> P a s') (\<lambda>e s'. good bk sha b X C s s')"

lemma mappings_grow_refl: "mappings_grow X e e"
  by (simp add: mappings_grow_def)

lemma store_grows_refl: "store_grows C s s"
  by (simp add: store_grows_def)

lemma grows_refl: "grows b X C s s"
  by (simp add: grows_def mappings_grow_refl store_grows_refl)

lemma mappings_grow_trans: "mappings_grow X a b \<Longrightarrow> mappings_grow X b c \<Longrightarrow> mappings_grow X a c"
  by (auto simp: mappings_grow_def)

lemma store_grows_trans:
  assumes "store_grows C a b" "store_grows C b c"
  shows "store_grows C a c"
proof -
  have "map_option ctx_tokens (map_of (contexts c) k) = Some (ctx_tokens x)"
    if k: "k \<notin> C" "map_of (contexts a) k = Some x" for k x
  proof -
    from assms(1) k obtain y where "map_of (contexts b) k = Some y" "ctx_tokens y = ctx_tokens x"
      by (fastforce simp: store_grows_def)
    with assms(2) k show ?thesis by (auto simp: store_grows_def)
  qed
  with assms show ?thesis by (auto simp: store_grows_def)
qed

lemma engine_grows_trans:
  assumes "grows n X C a b" "grows n X C b c"
  shows "grows n X C a c"
proof -
  have "h \<in> natives a \<or> n < h" if "h \<in> natives c" for h
    using assms that unfolding grows_def by blast
  with assms show ?thesis unfolding grows_def by (auto intro: mappings_grow_trans store_grows_trans)
qed

lemma grows_mono: "grows b X C s s' \<Longrightarrow> X \<subseteq> Y \<Longrightarrow> C \<subseteq> D \<Longrightarrow> grows b Y D s s'"
  by (auto simp: grows_def mappings_grow_def store_grows_def)

lemma fine_trans: "fine bk sha n X C a b \<Longrightarrow> fine bk sha n X C b c \<Longrightarrow> fine bk sha n X C a c"
  by (auto simp: fine_def intro: engine_grows_trans)

lemma good_trans: "fine bk sha n X C a b \<Longrightarrow> good bk sha n X C b c \<Longrightarrow> good bk sha n X C a c"
  by (auto simp: fine_def good_def intro: engine_grows_trans)

lemma fine_good: "fine bk sha n X C a b \<Longrightarrow> good bk sha n X C a b"
  by (simp add: fine_def good_def)

lemma fine_refl: "engine_inv bk sha s \<Longrightarrow> \<not> lost s \<Longrightarrow> fine bk sha b X C s s"
  by (simp add: fine_def grows_refl)

lemma fineD: "fine bk sha b X C s s' \<Longrightarrow> engine_inv bk sha s'" "fine bk sha b X C s s' \<Longrightarrow> \<not> lost s'"
  by (simp_all add: fine_def)

lemma calls_mono: "calls bk sha b X C s r P \<Longrightarrow> (\<And>a s'. P a s' \<Longrightarrow> Q a s') \<Longrightarrow> calls bk sha b X C s r Q"
  unfolding calls_def by (erule runs_mono) auto

lemma calls_widen: "calls bk sha b X C s r P \<Longrightarrow> X \<subseteq> Y \<Longrightarrow> C \<subseteq> D \<Longrightarrow> calls bk sha b Y D s r P"
  unfolding calls_def fine_def good_def by (erule runs_mono) (auto intro: grows_mono)

lemma calls_Ok: "engine_inv bk sha s \<Longrightarrow> \<not> lost s \<Longrightarrow> P a s \<Longrightarrow> calls bk sha b X C s (s, Ok a) P"
  by (simp add: calls_def fine_refl)

lemma calls_Err: "engine_inv bk sha s \<Longrightarrow> calls bk sha b X C s (s, Err e) P"
  by (simp add: calls_def good_def grows_refl)

lemma calls_Abort: "calls bk sha b X C s (s', Abort) P"
  by (simp add: calls_def)

lemma calls_from: "fine bk sha b X C s t \<Longrightarrow> calls bk sha b X C t r P \<Longrightarrow> calls bk sha b X C s r P"
  unfolding calls_def by (erule runs_mono) (auto intro: fine_trans good_trans)

lemma calls_bind:
  assumes "calls bk sha b X C s r P"
    and "\<And>a t. engine_inv bk sha t \<Longrightarrow> \<not> lost t \<Longrightarrow> grows b X C s t \<Longrightarrow> P a t \<Longrightarrow> calls bk sha b X C t (f a t) Q"
  shows "calls bk sha b X C s (and_then r f) Q"
  unfolding calls_def
proof (rule runs_and_then[OF assms(1)[unfolded calls_def]])
  fix a t assume t: "fine bk sha b X C s t \<and> P a t"
  then have "calls bk sha b X C t (f a t) Q" using assms(2)[of t a] by (simp add: fine_def)
  with t calls_from have "calls bk sha b X C s (f a t) Q" by blast
  then show "runs True (f a t) (\<lambda>a s'. fine bk sha b X C s s' \<and> Q a s') (\<lambda>e s'. good bk sha b X C s s')"
    by (simp add: calls_def)
qed

text \<open>Cleaning up: the error stays, so only the invariant matters.\<close>

lemma calls_or_else:
  assumes "calls bk sha b X C s r P"
    and "\<And>t. good bk sha b X C s t \<Longrightarrow> runs True (g t) (\<lambda>_. good bk sha b X C s) (\<lambda>_. good bk sha b X C s)"
  shows "calls bk sha b X C s (or_else r g) P"
proof (cases "snd r")
  case (Err e)
  then have "good bk sha b X C s (fst r)" using assms(1) by (simp add: calls_def runs_def)
  from assms(2)[OF this] Err show ?thesis
    by (auto simp: calls_def runs_def or_else_def and_then_def split: outcome.splits)
qed (use assms(1) in \<open>simp_all add: calls_def runs_def or_else_def\<close>)

lemma runs_ignored: "runs True r (\<lambda>_. G) (\<lambda>_. G) \<Longrightarrow> runs True (ignored r) (\<lambda>_. G) (\<lambda>_. G)"
  by (auto simp: runs_def ignored_def split: outcome.splits)

lemma calls_good: "calls bk sha b X C s r P \<Longrightarrow> runs True r (\<lambda>_. good bk sha b X C s) (\<lambda>_. good bk sha b X C s)"
  unfolding calls_def by (erule runs_mono) (auto intro: fine_good)

section \<open>The executor\<close>

lemma holds_bound: "exec_ok e \<Longrightarrow> holds bk e h ts \<Longrightarrow> h \<le> ex_epoch e"
  by (simp add: exec_ok_def holds_def)

lemma resident_of:
  assumes "engine_inv bk sha s" "map_of (me_resident s) i = Some r"
  shows "\<exists>m. cat (mappings (me_logical s)) i = Some m \<and> resident_ok bk s i (seq_list (ep_sequence m)) r"
  using assms by (simp add: engine_inv_def residents_ok_def)

lemma native_held:
  assumes inv: "engine_inv bk sha s" and h: "h \<in> natives s"
  shows "\<exists>ts. holds bk (me_executor s) h ts" "h \<noteq> me_root s"
proof -
  from h obtain i r where r: "map_of (me_resident s) i = Some r" and n: "rz_native r = Some h" by (auto simp: natives_def)
  from resident_of[OF inv r] obtain m where "cat (mappings (me_logical s)) i = Some m" "resident_ok bk s i (seq_list (ep_sequence m)) r" by blast
  with n show "\<exists>ts. holds bk (me_executor s) h ts" "h \<noteq> me_root s" by (auto simp: resident_ok_def)
qed

lemma known_bound:
  assumes inv: "engine_inv bk sha s" and h: "h = me_root s \<or> h \<in> natives s"
  shows "h \<le> ex_epoch (me_executor s)"
proof -
  have "\<exists>ts. holds bk (me_executor s) h ts" using h native_held(1)[OF inv] inv by (auto simp: engine_inv_def)
  with inv show ?thesis by (auto simp: engine_inv_def intro: holds_bound)
qed

definition same_aside :: "'q MappedState \<Rightarrow> 'q MappedState \<Rightarrow> bool" where
  "same_aside s s' \<longleftrightarrow> me_root s' = me_root s \<and> me_logical s' = me_logical s \<and> me_physical s' = me_physical s \<and>
     me_resident s' = me_resident s \<and> me_files s' = me_files s \<and> me_model_epoch s' = me_model_epoch s"

lemma same_aside_trans: "same_aside a b \<Longrightarrow> same_aside b c \<Longrightarrow> same_aside a c"
  by (simp add: same_aside_def)

lemma holds_grow: "mappings_grow X e e' \<Longrightarrow> holds bk e h ts \<Longrightarrow> h \<notin> X \<Longrightarrow> holds bk e' h ts"
  by (simp add: holds_def mappings_grow_def)

lemma resident_ok_grow:
  assumes "resident_ok bk s i ts r" "mappings_grow X (me_executor s) (me_executor s')" "me_root s' = me_root s"
    "me_files s' = me_files s" "\<And>h. rz_native r = Some h \<Longrightarrow> h \<notin> X"
  shows "resident_ok bk s' i ts r"
  using assms by (auto simp: resident_ok_def intro: holds_grow split: option.splits)

lemma executor_change:
  assumes inv: "engine_inv bk sha s" and e: "exec_ok (me_executor s')" "mappings_grow X (me_executor s) (me_executor s')"
    and X: "X \<inter> natives s = {}" "me_root s \<notin> X" and same: "same_aside s s'"
  shows "engine_inv bk sha s' \<and> grows b X C s s'"
proof -
  note eq = same[unfolded same_aside_def]
  have "residents_ok bk s'" unfolding residents_ok_def
  proof (intro conjI allI impI)
    show "hm_ok (me_resident s')" using inv eq by (simp add: engine_inv_def residents_ok_def)
    fix i r assume r: "map_of (me_resident s') i = Some r"
    then obtain m where m: "cat (mappings (me_logical s)) i = Some m" "resident_ok bk s i (seq_list (ep_sequence m)) r"
      using inv eq by (auto simp: engine_inv_def residents_ok_def)
    have "rz_native r = Some h \<Longrightarrow> h \<notin> X" for h using X(1) r eq by (auto simp: natives_def)
    with resident_ok_grow[OF m(2) e(2)] m(1) eq
    show "\<exists>m. cat (mappings (me_logical s')) i = Some m \<and> resident_ok bk s' i (seq_list (ep_sequence m)) r" by auto
  qed
  moreover have "natives s' = natives s" using eq by (simp add: natives_def)
  ultimately show ?thesis
    using inv eq e X(2) by (auto simp: engine_inv_def grows_def store_grows_refl intro: holds_grow)
qed

lemma calls_executor:
  assumes inv: "engine_inv bk sha s" and X: "X \<inter> natives s = {}" "me_root s \<notin> X"
    and f: "\<And>fault. runs True (f fault (me_executor s))
      (\<lambda>a e'. \<not> ex_lost e' \<and> exec_ok e' \<and> mappings_grow X (me_executor s) e' \<and> P a e')
      (\<lambda>_ e'. ex_lost e' \<or> exec_ok e' \<and> mappings_grow X (me_executor s) e')"
  shows "calls bk sha b X C s (on_executor f s) (\<lambda>a s'. same_aside s s' \<and> P a (me_executor s'))"
proof -
  obtain e' x where r: "f (next_fault s) (me_executor s) = (e', x)" by (cases "f (next_fault s) (me_executor s)")
  let ?s = "(pop_fault s)\<lparr>me_executor := e'\<rparr>"
  have same: "same_aside s ?s" by (simp add: same_aside_def pop_fault_def)
  have 1: "engine_inv bk sha ?s \<and> grows b X C s ?s" if "exec_ok e'" "mappings_grow X (me_executor s) e'"
    by (rule executor_change[OF inv _ _ X same]) (use that in simp_all)
  from f[of "next_fault s"] r 1 same show ?thesis
    by (cases x) (auto simp: on_executor_def Let_def state_error_def calls_def fine_def good_def)
qed

lemma lose_active_lost [simp]: "ex_lost (lose_active bk e)"
  by (simp add: lose_active_def split: option.split)

lemma exec_activate:
  assumes e: "exec_ok e" "\<not> ex_lost e"
  shows "runs True (ex_activate bk fault h e)
    (\<lambda>_ e'. \<not> ex_lost e' \<and> exec_ok e' \<and> mappings_grow {} e e' \<and> (ex_active e' = h \<and> ex_mappings e' = ex_mappings e \<and> ex_epoch e' = ex_epoch e))
    (\<lambda>_ e'. ex_lost e' \<or> exec_ok e' \<and> mappings_grow {} e e')"
  using e by (auto simp: ex_activate_def exec_ok_def mappings_grow_def hm_has_def split: option.split executor_error.split)

lemma calls_activate:
  assumes "engine_inv bk sha s" "\<not> lost s"
  shows "calls bk sha b X C s (activate_mapping bk h s) (\<lambda>_ s'. same_aside s s' \<and> ex_active (me_executor s') = h \<and>
    ex_mappings (me_executor s') = ex_mappings (me_executor s) \<and> ex_epoch (me_executor s') = ex_epoch (me_executor s))"
proof -
  have "calls bk sha b {} {} s (activate_mapping bk h s) (\<lambda>a s'. same_aside s s' \<and> (ex_active (me_executor s') = h \<and>
    ex_mappings (me_executor s') = ex_mappings (me_executor s) \<and> ex_epoch (me_executor s') = ex_epoch (me_executor s)))"
    by (rule calls_executor[OF assms(1)]) (use assms in \<open>auto simp: engine_inv_def intro!: exec_activate\<close>)
  then show ?thesis by (rule calls_widen) simp_all
qed

lemma exec_prepare_fork:
  assumes e: "exec_ok e" "\<not> ex_lost e"
  shows "runs True (ex_prepare_fork bk fault h e)
    (\<lambda>m e'. \<not> ex_lost e' \<and> exec_ok e' \<and> mappings_grow {} e e' \<and> (map_of (ex_mappings e) h = Some m \<and>
       ex_mappings e' = ex_mappings e \<and> ex_epoch e' = ex_epoch e \<and> ex_active e' = ex_active e))
    (\<lambda>_ e'. ex_lost e' \<or> exec_ok e' \<and> mappings_grow {} e e')"
  using e by (auto simp: ex_prepare_fork_def exec_ok_def mappings_grow_def split: option.split)

lemma exec_ok_fresh: "exec_ok e \<Longrightarrow> map_of (ex_mappings e) (Suc (ex_epoch e)) = None"
  by (cases "map_of (ex_mappings e) (Suc (ex_epoch e))") (auto simp: exec_ok_def)

lemma exec_add:
  assumes e: "exec_ok e" and e': "ex_mappings e' = hm_put (Suc (ex_epoch e)) m (ex_mappings e)" "ex_epoch e' = Suc (ex_epoch e)"
    "ex_active e' = ex_active e"
  shows "exec_ok e' \<and> mappings_grow {} e e'"
  using e exec_ok_fresh[OF e] by (auto simp: e' exec_ok_def mappings_grow_def intro: le_SucI)

lemma exec_commit_mapping:
  assumes e: "exec_ok e" "\<not> ex_lost e"
  shows "runs True (ex_commit_mapping fault m e)
    (\<lambda>h e'. \<not> ex_lost e' \<and> exec_ok e' \<and> mappings_grow {} e e' \<and> (h = Suc (ex_epoch e) \<and> map_of (ex_mappings e') h = Some m \<and>
       ex_active e' = ex_active e))
    (\<lambda>_ e'. ex_lost e' \<or> exec_ok e' \<and> mappings_grow {} e e')"
proof (cases fault)
  case None
  let ?e = "e\<lparr>ex_mappings := hm_put (Suc (ex_epoch e)) m (ex_mappings e), ex_epoch := Suc (ex_epoch e)\<rparr>"
  have "exec_ok ?e \<and> mappings_grow {} e ?e" by (rule exec_add[OF e(1)]) simp_all
  with None e(2) show ?thesis by (simp add: ex_commit_mapping_def Let_def)
qed (use e in \<open>simp add: ex_commit_mapping_def mappings_grow_refl\<close>)

lemma exec_import:
  assumes e: "exec_ok e" "\<not> ex_lost e" and l: "bk_load bk (ss_bytes st) = Some q"
  shows "runs True (ex_import bk fault st e)
    (\<lambda>h e'. \<not> ex_lost e' \<and> exec_ok e' \<and> mappings_grow {} e e' \<and> (h = Suc (ex_epoch e) \<and>
       map_of (ex_mappings e') h = Some \<lparr>mg_state = q, mg_position = ss_position st\<rparr> \<and> ex_active e' = ex_active e))
    (\<lambda>_ e'. ex_lost e' \<or> exec_ok e' \<and> mappings_grow {} e e')"
proof (cases fault)
  case None
  let ?m = "\<lparr>mg_state = q, mg_position = ss_position st\<rparr>"
  let ?e = "e\<lparr>ex_mappings := hm_put (Suc (ex_epoch e)) ?m (ex_mappings e), ex_epoch := Suc (ex_epoch e),
    ex_import_bytes := ex_import_bytes e + length (ss_bytes st)\<rparr>"
  have "exec_ok ?e \<and> mappings_grow {} e ?e" by (rule exec_add[OF e(1)]) simp_all
  with None e(2) l show ?thesis by (simp add: ex_import_def Let_def)
qed (use e in \<open>auto simp: ex_import_def mappings_grow_refl split: executor_error.split\<close>)

lemma exec_export:
  assumes e: "exec_ok e" "\<not> ex_lost e"
  shows "runs True (ex_export bk fault h e)
    (\<lambda>st e'. \<not> ex_lost e' \<and> exec_ok e' \<and> mappings_grow {} e e' \<and> (\<exists>m. map_of (ex_mappings e) h = Some m \<and>
       st = \<lparr>ss_bytes = bk_save bk (mg_state m), ss_position = mg_position m\<rparr> \<and> ex_mappings e' = ex_mappings e))
    (\<lambda>_ e'. ex_lost e' \<or> exec_ok e' \<and> mappings_grow {} e e')"
  using e by (auto simp: ex_export_def exec_ok_def mappings_grow_def Let_def split: option.split)

context mapped_backend
begin

lemma exec_decode:
  assumes e: "exec_ok e" "\<not> ex_lost e" and h: "ex_active e = h" "holds bk e h ts"
  shows "runs True (ex_decode bk fault us e)
    (\<lambda>d e'. \<not> ex_lost e' \<and> exec_ok e' \<and> mappings_grow {h} e e' \<and> (holds bk e' h (ts @ us) \<and> d = bk_result bk (fed bk (ts @ us)) \<and>
       ex_active e' = h))
    (\<lambda>_ e'. ex_lost e' \<or> exec_ok e' \<and> mappings_grow {h} e e')"
  using e h by (auto simp: ex_decode_def exec_ok_def mappings_grow_def holds_def Let_def fed_append split: option.split)

end

text \<open>A copy of a mapping under a fresh identity.\<close>

lemma calls_snapshot:
  assumes "engine_inv bk sha s" "\<not> lost s"
  shows "calls bk sha b X C s (snapshot_active_mapping bk h s) (\<lambda>n s'. same_aside s s' \<and> ex_epoch (me_executor s) < n \<and>
    n \<noteq> me_root s \<and> n \<notin> natives s \<and> ex_active (me_executor s') = ex_active (me_executor s) \<and>
    (\<forall>ts. holds bk (me_executor s) h ts \<longrightarrow> holds bk (me_executor s') n ts))"
proof -
  let ?P = "\<lambda>n s'. same_aside s s' \<and> ex_epoch (me_executor s) < n \<and>
    n \<noteq> me_root s \<and> n \<notin> natives s \<and> ex_active (me_executor s') = ex_active (me_executor s) \<and>
    (\<forall>ts. holds bk (me_executor s) h ts \<longrightarrow> holds bk (me_executor s') n ts)"
  have ok: "exec_ok (me_executor s)" using assms by (simp add: engine_inv_def)
  have old: "k \<le> ex_epoch (me_executor s)" if "k = me_root s \<or> k \<in> natives s" for k
    by (rule known_bound[OF assms(1) that])
  have "calls bk sha b {} {} s (snapshot_active_mapping bk h s) ?P"
    unfolding snapshot_active_mapping_def
  proof (rule calls_bind)
    show "calls bk sha b {} {} s (on_executor (\<lambda>f. ex_prepare_fork bk f h) s) (\<lambda>m t. same_aside s t \<and>
      (map_of (ex_mappings (me_executor s)) h = Some m \<and> ex_mappings (me_executor t) = ex_mappings (me_executor s) \<and>
       ex_epoch (me_executor t) = ex_epoch (me_executor s) \<and> ex_active (me_executor t) = ex_active (me_executor s)))"
      by (rule calls_executor[OF assms(1)]) (use ok assms(2) in \<open>auto intro!: exec_prepare_fork\<close>)
    fix m t
    assume t: "engine_inv bk sha t" "\<not> lost t" and m: "same_aside s t \<and>
      (map_of (ex_mappings (me_executor s)) h = Some m \<and> ex_mappings (me_executor t) = ex_mappings (me_executor s) \<and>
       ex_epoch (me_executor t) = ex_epoch (me_executor s) \<and> ex_active (me_executor t) = ex_active (me_executor s))"
    have "calls bk sha b {} {} t (on_executor (\<lambda>f. ex_commit_mapping f m) t) (\<lambda>n s'. same_aside t s' \<and>
      (n = Suc (ex_epoch (me_executor t)) \<and> map_of (ex_mappings (me_executor s')) n = Some m \<and>
       ex_active (me_executor s') = ex_active (me_executor t)))"
      by (rule calls_executor[OF t(1)]) (use t in \<open>auto simp: engine_inv_def intro!: exec_commit_mapping\<close>)
    then show "calls bk sha b {} {} t (on_executor (\<lambda>f. ex_commit_mapping f m) t) ?P"
      by (rule calls_mono) (use m old in \<open>fastforce simp: holds_def intro: same_aside_trans\<close>)
  qed
  then show ?thesis by (rule calls_widen) simp_all
qed

lemma calls_fork:
  assumes "engine_inv bk sha s" "\<not> lost s"
  shows "calls bk sha b X C s (fork_for_request_branch bk h s) (\<lambda>n s'. same_aside s s' \<and> ex_epoch (me_executor s) < n \<and>
    n \<noteq> me_root s \<and> n \<notin> natives s \<and> (\<forall>ts. holds bk (me_executor s) h ts \<longrightarrow> holds bk (me_executor s') n ts))"
  unfolding fork_for_request_branch_def
proof (rule calls_bind[OF calls_snapshot[OF assms]])
  fix n t
  assume t: "engine_inv bk sha t" "\<not> lost t" and n: "same_aside s t \<and> ex_epoch (me_executor s) < n \<and>
    n \<noteq> me_root s \<and> n \<notin> natives s \<and> ex_active (me_executor t) = ex_active (me_executor s) \<and>
    (\<forall>ts. holds bk (me_executor s) h ts \<longrightarrow> holds bk (me_executor t) n ts)"
  show "calls bk sha b X C t (and_then (activate_mapping bk n t) (\<lambda>_ s. (s, Ok n))) (\<lambda>n s'. same_aside s s' \<and>
    ex_epoch (me_executor s) < n \<and> n \<noteq> me_root s \<and> n \<notin> natives s \<and>
    (\<forall>ts. holds bk (me_executor s) h ts \<longrightarrow> holds bk (me_executor s') n ts))"
    by (rule calls_bind[OF calls_activate[OF t]], rule calls_Ok)
      (use n in \<open>auto simp: holds_def intro: same_aside_trans\<close>)
qed

text \<open>Activation as a clean-up.\<close>

lemma activate_keeps_lost: "lost s \<Longrightarrow> lost (fst (activate_mapping bk h s))"
  by (auto simp: on_executor_def Let_def ex_activate_def lose_active_def split: option.splits executor_error.splits)

lemma activate_cleanup:
  assumes "good bk sha b X C s t"
  shows "runs True (activate_mapping bk h t) (\<lambda>_. good bk sha b X C s) (\<lambda>_. good bk sha b X C s)"
proof (cases "lost t")
  case True
  with activate_keeps_lost[OF True, of bk h] show ?thesis by (auto simp: runs_def good_def split: outcome.split)
next
  case False
  with assms have t: "engine_inv bk sha t" "fine bk sha b X C s t" by (auto simp: good_def fine_def)
  from calls_good[OF calls_activate[OF t(1) False, of b X C h]] show ?thesis
    by (rule runs_mono) (auto intro: good_trans[OF t(2)])
qed

section \<open>The physical manager\<close>

text \<open>A call that is one of the manager's operations.\<close>

definition is_pm_call :: "(PhysicalManager \<Rightarrow> PhysicalManager \<times> (pm_error, 'a) outcome) \<Rightarrow> bool" where
  "is_pm_call f \<longleftrightarrow> (\<forall>p. snd (f p) \<noteq> Abort \<longrightarrow> pm_step p (fst (f p)))"

lemma is_pm_callI: "(\<And>p. forget (f p) = pm_run op p) \<Longrightarrow> is_pm_call f"
proof -
  assume f: "\<And>p. forget (f p) = pm_run op p"
  have "pm_step p (fst (f p))" if "snd (f p) \<noteq> Abort" for p
  proof -
    have fp: "fst (forget (f p)) = fst (f p)" "snd (forget (f p)) \<noteq> Abort"
      using that by (simp_all add: forget_def and_then_def split: outcome.split)
    from pm_stepI[of op p] fp show ?thesis by (simp add: f)
  qed
  then show ?thesis by (simp add: is_pm_call_def)
qed

lemma forget_unit [simp]: "forget r = r" for r :: "'s \<times> ('e, unit) outcome"
  by (cases r) (simp add: forget_def and_then_def split: outcome.split)

lemma pm_calls:
  "is_pm_call (complete_transfer x ok)" "is_pm_call (abort_transition tid)" "is_pm_call (prepare_transition c v m e req ids allow)"
  "is_pm_call (commit_mapped_transition tid v x)" "is_pm_call (pm_register i component e n t u)" "is_pm_call (release_logical_reference j)"
  "is_pm_call (demote_to_storage j)" "is_pm_call (release_binding c)"
  by (rule is_pm_callI[where op = "PmCompleteTransfer x ok"], simp)
    (rule is_pm_callI[where op = "PmAbort tid"], simp, rule is_pm_callI[where op = "PmPrepare c v m e req ids allow"], simp,
     rule is_pm_callI[where op = "PmCommitMapped tid v x"], simp, rule is_pm_callI[where op = "PmRegister i component e n t u"], simp,
     rule is_pm_callI[where op = "PmReleaseLogical j"], simp, rule is_pm_callI[where op = "PmDemoteStorage j"], simp,
     rule is_pm_callI[where op = "PmReleaseBinding c"], simp)

lemma physical_fields:
  "natives (s\<lparr>me_physical := p\<rparr>) = natives s" "residents_ok bk (s\<lparr>me_physical := p\<rparr>) = residents_ok bk s"
  by (simp_all add: natives_def residents_ok_def resident_ok_def cong: option.case_cong)

lemma physical_change:
  "engine_inv bk sha s \<Longrightarrow> reach pm_init pm_step p \<Longrightarrow> engine_inv bk sha (s\<lparr>me_physical := p\<rparr>)"
  "grows b X C s (s\<lparr>me_physical := p\<rparr>)"
  by (simp_all add: engine_inv_def physical_fields grows_def mappings_grow_refl store_grows_refl)

definition only_physical :: "'q MappedState \<Rightarrow> 'q MappedState \<Rightarrow> bool" where
  "only_physical s s' \<longleftrightarrow> (\<exists>p. s' = s\<lparr>me_physical := p\<rparr>)"

lemma only_physical_refl: "only_physical s s"
  unfolding only_physical_def by (rule exI[of _ "me_physical s"]) simp

lemma only_physical_trans: "only_physical a b \<Longrightarrow> only_physical b c \<Longrightarrow> only_physical a c"
  by (auto simp: only_physical_def)

lemma only_physicalD:
  "only_physical s t \<Longrightarrow> me_executor t = me_executor s" "only_physical s t \<Longrightarrow> me_logical t = me_logical s"
  "only_physical s t \<Longrightarrow> me_resident t = me_resident s" "only_physical s t \<Longrightarrow> me_files t = me_files s"
  "only_physical s t \<Longrightarrow> me_root t = me_root s" "only_physical s t \<Longrightarrow> natives t = natives s"
  by (auto simp: only_physical_def physical_fields)

lemma calls_physical:
  assumes inv: "engine_inv bk sha s" "\<not> lost s" and f: "is_pm_call f"
  shows "calls bk sha b X C s (on_physical f s) (\<lambda>_. only_physical s)"
proof (cases "snd (f (me_physical s)) = Abort")
  case True
  then show ?thesis by (simp add: on_physical_def Let_def state_error_def calls_def)
next
  case False
  then have "pm_step (me_physical s) (fst (f (me_physical s)))" using f by (simp add: is_pm_call_def)
  then have "reach pm_init pm_step (fst (f (me_physical s)))"
    using inv(1) by (auto simp: engine_inv_def intro: reach_step)
  from physical_change(1)[OF inv(1) this] inv(2) physical_change(2)[of b X C s] show ?thesis
    by (auto simp: on_physical_def Let_def state_error_def calls_def fine_def good_def only_physical_def runs_def split: outcome.split)
qed

lemma physical_cleanup:
  assumes "good bk sha b X C s t" and f: "is_pm_call f"
  shows "runs True (on_physical f t) (\<lambda>_. good bk sha b X C s) (\<lambda>_. good bk sha b X C s)"
proof (cases "lost t")
  case True
  then show ?thesis by (simp add: on_physical_def Let_def runs_def good_def split: outcome.split)
next
  case False
  with assms(1) have t: "engine_inv bk sha t" "fine bk sha b X C s t" by (auto simp: good_def fine_def)
  from calls_good[OF calls_physical[OF t(1) False f, of b X C]] show ?thesis
    by (rule runs_mono) (auto intro: good_trans[OF t(2)])
qed

lemma calls_complete_transfers:
  "engine_inv bk sha s \<Longrightarrow> \<not> lost s \<Longrightarrow> calls bk sha b X C s (complete_transfers tid xs s) (\<lambda>_. only_physical s)"
proof (induction xs arbitrary: s)
  case Nil
  then show ?case by (simp add: calls_Ok only_physical_refl)
next
  case (Cons x xs)
  have "calls bk sha b X C s (or_else (on_physical (complete_transfer x True) s) (\<lambda>s. ignored (on_physical (abort_transition tid) s)))
      (\<lambda>_. only_physical s)"
    by (rule calls_or_else[OF calls_physical[OF Cons.prems pm_calls(1)]], rule runs_ignored, rule physical_cleanup, assumption, rule pm_calls(2))
  then show ?case unfolding complete_transfers.simps
    by (rule calls_bind) (rule calls_mono[OF Cons.IH], assumption, assumption, erule only_physical_trans, assumption)
qed

lemma runs_seq:
  "runs True r (\<lambda>_. G) (\<lambda>_. G) \<Longrightarrow> (\<And>a t. G t \<Longrightarrow> runs True (f a t) (\<lambda>_. G) (\<lambda>_. G)) \<Longrightarrow> runs True (and_then r f) (\<lambda>_. G) (\<lambda>_. G)"
  by (rule runs_and_then)

lemma release_cleanup:
  "good bk sha b X C s t \<Longrightarrow> runs True (release_representations is t) (\<lambda>_. good bk sha b X C s) (\<lambda>_. good bk sha b X C s)"
proof (induction "is" arbitrary: t)
  case Nil
  then show ?case by simp
next
  case (Cons i "is")
  show ?case unfolding release_representations.simps
    by (rule runs_seq[OF runs_ignored[OF physical_cleanup[OF Cons.prems pm_calls(6)]]]) (rule Cons.IH)
qed

lemma roll_back_cleanup:
  "good bk sha b X C s t \<Longrightarrow> runs True (roll_back bk registered rollback t) (\<lambda>_. good bk sha b X C s) (\<lambda>_. good bk sha b X C s)"
  unfolding roll_back_def
  by (rule runs_seq[OF release_cleanup], assumption, rule runs_ignored, rule activate_cleanup)

lemma calls_register:
  "engine_inv bk sha s \<Longrightarrow> \<not> lost s \<Longrightarrow>
     calls bk sha b X C s (register_components bk i e bytes rollback cs registered s) (\<lambda>_. only_physical s)"
proof (induction cs arbitrary: s registered)
  case Nil
  then show ?case by (simp add: calls_Ok only_physical_refl)
next
  case (Cons c cs)
  have "calls bk sha b X C s (or_else (on_physical (pm_register i c e bytes Host e) s) (roll_back bk registered rollback))
      (\<lambda>_. only_physical s)"
    by (rule calls_or_else[OF calls_physical[OF Cons.prems pm_calls(5)]], rule roll_back_cleanup)
  then show ?case unfolding register_components.simps
    by (rule calls_bind) (rule calls_mono[OF Cons.IH], assumption, assumption, erule only_physical_trans, assumption)
qed

section \<open>Residents and files\<close>

definition quiet :: "'q MappedState \<Rightarrow> 'q MappedState \<Rightarrow> bool" where
  "quiet s s' \<longleftrightarrow> same_aside s s' \<and> me_executor s' = me_executor s"

lemma quiet_refl: "quiet s s"
  by (simp add: quiet_def same_aside_def)

lemma quiet_trans: "quiet a b \<Longrightarrow> quiet b c \<Longrightarrow> quiet a c"
  by (auto simp: quiet_def intro: same_aside_trans)

lemma quiet_change:
  assumes inv: "engine_inv bk sha s" and q: "quiet s s'"
  shows "engine_inv bk sha s' \<and> grows b X C s s'"
proof -
  have "engine_inv bk sha s' \<and> grows b {} C s s'"
    by (rule executor_change[OF inv]) (use q inv in \<open>auto simp: quiet_def engine_inv_def mappings_grow_refl\<close>)
  then show ?thesis by (auto intro: grows_mono)
qed

lemma calls_quiet:
  assumes "engine_inv bk sha s" "\<not> lost s" "quiet s s'" "P a s'"
  shows "calls bk sha b X C s (s', Ok a) P"
  using quiet_change[OF assms(1,3)] assms by (auto simp: calls_def fine_def quiet_def)

lemma calls_file:
  assumes "engine_inv bk sha s" "\<not> lost s"
  shows "calls bk sha b X C s (file_call s) (\<lambda>_. quiet s)"
proof -
  have q: "quiet s (s\<lparr>me_env := v\<rparr>)" for v by (simp add: quiet_def same_aside_def)
  show ?thesis using assms quiet_change[OF assms(1) q, where b = b and X = X and C = C] q
    by (auto simp: file_call_def calls_def fine_def good_def quiet_refl grows_refl split: list.split option.split)
qed

lemma calls_control:
  assumes "engine_inv bk sha s" "\<not> lost s"
  shows "calls bk sha b X C s (control_check s) (\<lambda>_. quiet s)"
proof -
  have q: "quiet s (s\<lparr>me_env := v\<rparr>)" for v by (simp add: quiet_def same_aside_def)
  show ?thesis using assms quiet_change[OF assms(1) q, where b = b and X = X and C = C] q
    by (auto simp: control_check_def calls_def fine_def good_def quiet_refl grows_refl runs_def split: list.split outcome.split)
qed

text \<open>Replacing or adding one resident prefix.\<close>

lemma resident_change:
  assumes inv: "engine_inv bk sha s"
    and m: "cat (mappings (me_logical s)) i = Some m" and r: "resident_ok bk s' i (seq_list (ep_sequence m)) r"
    and same: "me_resident s' = hm_put i r (me_resident s)" "me_executor s' = me_executor s" "me_logical s' = me_logical s"
      "me_physical s' = me_physical s" "me_root s' = me_root s"
    and files: "\<And>j. j \<noteq> i \<Longrightarrow> map_of (me_files s') (SeqFile j) = map_of (me_files s) (SeqFile j)"
    and young: "\<And>h. rz_native r = Some h \<Longrightarrow> h \<in> natives s \<or> b < h"
  shows "engine_inv bk sha s' \<and> grows b X C s s'"
proof -
  have "residents_ok bk s'" unfolding residents_ok_def
  proof (intro conjI allI impI)
    show "hm_ok (me_resident s')" using inv same by (simp add: engine_inv_def residents_ok_def)
    fix j q assume q: "map_of (me_resident s') j = Some q"
    show "\<exists>m. cat (mappings (me_logical s')) j = Some m \<and> resident_ok bk s' j (seq_list (ep_sequence m)) q"
    proof (cases "j = i")
      case True
      with q m r same show ?thesis by auto
    next
      case False
      with q same have "map_of (me_resident s) j = Some q" by simp
      from resident_of[OF inv this] obtain n where n: "cat (mappings (me_logical s)) j = Some n"
        "resident_ok bk s j (seq_list (ep_sequence n)) q" by blast
      have "resident_ok bk s' j (seq_list (ep_sequence n)) q"
        using n(2) same files[OF False] by (auto simp: resident_ok_def spill_ok_def split: option.splits)
      with n(1) same show ?thesis by auto
    qed
  qed
  moreover have "h \<in> natives s \<or> b < h" if "h \<in> natives s'" for h
    using that young same by (auto simp: natives_def split: if_splits)
  ultimately show ?thesis
    using inv same by (simp add: engine_inv_def grows_def mappings_grow_refl store_grows_refl)
qed

section \<open>Activating a prefix\<close>

context mapped_backend
begin

lemma calls_read_spill:
  assumes "engine_inv bk sha s" "\<not> lost s"
  shows "calls bk sha b X C s (read_spill sp s) (\<lambda>bytes t. quiet s t \<and> map_of (me_files t) (sl_path sp) = Some bytes)"
  unfolding read_spill_def
proof (rule calls_bind[OF calls_file[OF assms]])
  fix a t assume t: "engine_inv bk sha t" "\<not> lost t" "quiet s t"
  then show "calls bk sha b X C t (t, case map_of (me_files t) (sl_path sp) of
       None \<Rightarrow> Err (StateError ''No such file or directory (os error 2)'') | Some bytes \<Rightarrow> Ok bytes)
     (\<lambda>bytes t. quiet s t \<and> map_of (me_files t) (sl_path sp) = Some bytes)"
    by (auto intro: calls_Ok calls_Err split: option.split)
qed

text \<open>The mapping of a resident prefix, read back from its file if need be.\<close>

lemma calls_native_of:
  assumes inv: "engine_inv bk sha s" "\<not> lost s" and r: "resident_ok bk s i ts r"
  shows "calls bk sha b X C s (native_of bk r s) (\<lambda>h t. same_aside s t \<and> holds bk (me_executor t) h ts \<and> h \<noteq> me_root s \<and>
    (rz_native r = None \<longrightarrow> ex_epoch (me_executor s) < h))"
proof (cases "rz_native r")
  case (Some h)
  with r have h: "holds bk (me_executor s) h ts" "h \<noteq> me_root s" by (auto simp: resident_ok_def)
  have "same_aside s s" by (simp add: same_aside_def)
  with h Some show ?thesis by (auto simp: native_of_def intro!: calls_Ok[OF inv])
next
  case None
  with r obtain sp where sp: "rz_spill r = Some sp" "sl_path sp = SeqFile i" "map_of (me_files s) (SeqFile i) = Some (bk_save bk (fed bk ts))"
    "sl_bytes sp = length (bk_save bk (fed bk ts))" "sl_position sp = length ts"
    by (auto simp: resident_ok_def spill_ok_def)
  show ?thesis unfolding native_of_def None sp(1) option.case
  proof (rule calls_bind[OF calls_read_spill[OF inv]])
    fix bytes t
    assume t: "engine_inv bk sha t" "\<not> lost t" and q: "quiet s t \<and> map_of (me_files t) (sl_path sp) = Some bytes"
    then have bytes: "bytes = bk_save bk (fed bk ts)" and e: "me_executor t = me_executor s" and same: "same_aside s t"
      using sp by (auto simp: quiet_def same_aside_def)
    let ?st = "\<lparr>ss_bytes = bytes, ss_position = sl_position sp\<rparr>"
    have imp: "runs True (ex_import bk fault ?st (me_executor t))
      (\<lambda>h e'. \<not> ex_lost e' \<and> exec_ok e' \<and> mappings_grow {} (me_executor t) e' \<and> (h = Suc (ex_epoch (me_executor t)) \<and>
        map_of (ex_mappings e') h = Some \<lparr>mg_state = fed bk ts, mg_position = ss_position ?st\<rparr> \<and> ex_active e' = ex_active (me_executor t)))
      (\<lambda>_ e'. ex_lost e' \<or> exec_ok e' \<and> mappings_grow {} (me_executor t) e')" for fault
      by (rule exec_import) (use t bytes in \<open>simp_all add: engine_inv_def\<close>)
    have "calls bk sha b {} {} t (on_executor (\<lambda>f. ex_import bk f ?st) t) (\<lambda>h u. same_aside t u \<and> (h = Suc (ex_epoch (me_executor t)) \<and>
       map_of (ex_mappings (me_executor u)) h = Some \<lparr>mg_state = fed bk ts, mg_position = ss_position ?st\<rparr> \<and>
       ex_active (me_executor u) = ex_active (me_executor t)))"
      by (rule calls_executor[OF t(1)]) (simp, simp, rule imp)
    then have "calls bk sha b {} {} t (on_executor (\<lambda>f. ex_import bk f ?st) t) (\<lambda>h u. same_aside s u \<and> holds bk (me_executor u) h ts \<and>
       h \<noteq> me_root s \<and> (rz_native r = None \<longrightarrow> ex_epoch (me_executor s) < h))"
    proof (rule calls_mono)
      fix h u assume u: "same_aside t u \<and> (h = Suc (ex_epoch (me_executor t)) \<and>
       map_of (ex_mappings (me_executor u)) h = Some \<lparr>mg_state = fed bk ts, mg_position = ss_position ?st\<rparr> \<and>
       ex_active (me_executor u) = ex_active (me_executor t))"
      have "me_root s \<le> ex_epoch (me_executor s)" by (rule known_bound[OF inv(1)]) simp
      with u sp(5) same_aside_trans[OF same] e show "same_aside s u \<and> holds bk (me_executor u) h ts \<and>
       h \<noteq> me_root s \<and> (rz_native r = None \<longrightarrow> ex_epoch (me_executor s) < h)" by (auto simp: holds_def)
    qed
    then have "calls bk sha b X C t (on_executor (\<lambda>f. ex_import bk f ?st) t) (\<lambda>h u. same_aside s u \<and> holds bk (me_executor u) h ts \<and>
       h \<noteq> me_root s \<and> (rz_native r = None \<longrightarrow> ex_epoch (me_executor s) < h))"
      by (rule calls_widen) simp_all
    then show "calls bk sha b X C t (if length bytes \<noteq> sl_bytes sp then (t, Err (StateError ''spilled mapping size changed''))
        else on_executor (\<lambda>f. ex_import bk f ?st) t) (\<lambda>h u. same_aside s u \<and> holds bk (me_executor u) h ts \<and>
       h \<noteq> me_root s \<and> (None = None \<longrightarrow> ex_epoch (me_executor s) < h))"
      using bytes sp(4) None by simp
  qed
qed

end

lemma file_removed:
  "\<exists>v f. ignored (and_then (file_call s) (\<lambda>_ s. (s\<lparr>me_files := hm_del name (me_files s)\<rparr>, Ok ()))) =
     (s\<lparr>me_env := v, me_files := f\<rparr>, Ok ()) \<and> (\<forall>n. n \<noteq> name \<longrightarrow> map_of f n = map_of (me_files s) n)"
proof -
  let ?r = "ignored (and_then (file_call s) (\<lambda>_ s. (s\<lparr>me_files := hm_del name (me_files s)\<rparr>, Ok ())))"
  let ?del = "hm_del name (me_files s)"
  have "\<exists>v. ?r = (s\<lparr>me_env := v, me_files := ?del\<rparr>, Ok ()) \<or> ?r = (s\<lparr>me_env := v, me_files := me_files s\<rparr>, Ok ())"
  proof (cases "en_files (me_env s)")
    case Nil
    then have "?r = (s\<lparr>me_env := me_env s, me_files := ?del\<rparr>, Ok ())" by (simp add: file_call_def ignored_def)
    then show ?thesis by blast
  next
    case (Cons x xs)
    let ?v = "(me_env s)\<lparr>en_files := xs\<rparr>"
    from Cons have "?r = (s\<lparr>me_env := ?v, me_files := ?del\<rparr>, Ok ()) \<or> ?r = (s\<lparr>me_env := ?v, me_files := me_files s\<rparr>, Ok ())"
      by (cases x) (simp_all add: file_call_def ignored_def)
    then show ?thesis by blast
  qed
  then obtain v f where "?r = (s\<lparr>me_env := v, me_files := f\<rparr>, Ok ())" "f = ?del \<or> f = me_files s" by blast
  then show ?thesis by (intro exI[of _ v] exI[of _ f]) auto
qed

lemma calls_restored:
  assumes inv: "engine_inv bk sha s" "\<not> lost s" and r: "map_of (me_resident s) i = Some r"
    and m: "cat (mappings (me_logical s)) i = Some m"
    and n: "holds bk (me_executor s) native (seq_list (ep_sequence m))" "native \<noteq> me_root s" "b < native"
    and sp: "rz_native r = None"
  shows "calls bk sha b X C s (restored i native s) (\<lambda>_ t. me_executor t = me_executor s \<and> me_logical t = me_logical s)"
proof -
  from resident_of[OF inv(1) r] m sp obtain q where q: "rz_spill r = Some q" "sl_path q = SeqFile i"
    and cont: "rz_continuation r = bk_result bk (fed bk (seq_list (ep_sequence m)))"
    by (auto simp: resident_ok_def spill_ok_def)
  from file_removed[of s "SeqFile i"] obtain v f where
    vf: "ignored (and_then (file_call s) (\<lambda>_ s. (s\<lparr>me_files := hm_del (SeqFile i) (me_files s)\<rparr>, Ok ())))
      = (s\<lparr>me_env := v, me_files := f\<rparr>, Ok ())" and f: "\<forall>n. n \<noteq> SeqFile i \<longrightarrow> map_of f n = map_of (me_files s) n" by blast
  let ?t = "s\<lparr>me_env := v, me_files := f, me_spill_bytes := me_spill_bytes s - sl_bytes q,
    me_resident := hm_put i (r\<lparr>rz_spill := None, rz_native := Some native\<rparr>) (me_resident s)\<rparr>"
  have eq: "restored i native s = (?t, Ok ())" using r q vf by (simp add: restored_def)
  have "engine_inv bk sha ?t \<and> grows b X C s ?t"
    by (rule resident_change[OF inv(1) m, where r = "r\<lparr>rz_spill := None, rz_native := Some native\<rparr>"])
      (use n cont f in \<open>auto simp: resident_ok_def\<close>)
  with inv(2) show ?thesis by (simp add: eq calls_def fine_def)
qed

text \<open>What the rest of a call relies on, once the mapping of a prefix is known.\<close>

definition kept_for :: "('q, 's) Backend \<Rightarrow> 'q MappedState \<Rightarrow> nat \<Rightarrow> token list \<Rightarrow> 'q MappedState \<Rightarrow> bool" where
  "kept_for bk s h ts t \<longleftrightarrow> me_resident t = me_resident s \<and> me_logical t = me_logical s \<and> me_root t = me_root s \<and>
     holds bk (me_executor t) h ts"

lemma kept_for_physical: "kept_for bk s h ts t \<Longrightarrow> only_physical t u \<Longrightarrow> kept_for bk s h ts u"
  by (simp add: kept_for_def only_physicalD)

lemma calls_u32:
  assumes "engine_inv bk sha s" "\<not> lost s"
  shows "calls bk sha b X C s (s, u32_of n) (\<lambda>_ t. t = s)"
  using assms by (simp add: u32_of_def calls_Ok calls_Err)

context mapped_backend
begin

text \<open>The end of \<open>activate_prefix\<close>, with the prefix's mapping active.\<close>

lemma calls_bound_prefix:
  assumes t: "engine_inv bk sha t" "\<not> lost t" and k: "kept_for bk s native (seq_list (ep_sequence p)) t"
    and active: "ex_active (me_executor t) = native" and r: "map_of (me_resident s) (ep_id p) = Some r"
    and cat: "cat (mappings (me_logical s)) (ep_id p) = Some p" and n: "native \<noteq> me_root s" "rz_native r = None \<Longrightarrow> b < native"
  shows "calls bk sha b X C t (and_then (t, u32_of native) (\<lambda>identity s.
      and_then (or_else (on_physical (commit_mapped_transition tid revision identity) s)
          (\<lambda>s. ignored (activate_mapping bk previous s))) (\<lambda>_ s.
        if rz_native r = None then restored (ep_id p) native s else (s, Ok ()))))
    (\<lambda>_ u. me_logical u = me_logical s \<and> holds bk (me_executor u) (ex_active (me_executor u)) (seq_list (ep_sequence p)))"
proof (rule calls_bind[OF calls_u32[OF t]], goal_cases)
  case (1 identity t')
  then have t': "t' = t" by simp
  show ?case unfolding t'
  proof (rule calls_bind[OF calls_or_else[OF calls_physical[OF t pm_calls(4)]]], goal_cases)
    case (1 u)
    show ?case by (rule runs_ignored, rule activate_cleanup[OF 1])
  next
    case (2 x u)
    then have u: "engine_inv bk sha u" "\<not> lost u" and k': "kept_for bk s native (seq_list (ep_sequence p)) u"
      and a': "ex_active (me_executor u) = native"
      using k active by (auto intro: kept_for_physical simp: only_physicalD)
    show ?case
    proof (cases "rz_native r")
      case None
      have "calls bk sha b X C u (restored (ep_id p) native u)
          (\<lambda>_ v. me_executor v = me_executor u \<and> me_logical v = me_logical u)"
        by (rule calls_restored[OF u]) (use k' r cat n None in \<open>auto simp: kept_for_def\<close>)
      then have "calls bk sha b X C u (restored (ep_id p) native u)
          (\<lambda>_ v. me_logical v = me_logical s \<and> holds bk (me_executor v) (ex_active (me_executor v)) (seq_list (ep_sequence p)))"
        by (rule calls_mono) (use k' a' in \<open>auto simp: kept_for_def\<close>)
      then show ?thesis by (simp add: None)
    next
      case (Some h)
      then show ?thesis using k' a' by (auto simp: kept_for_def intro!: calls_Ok[OF u])
    qed
  qed
qed

lemma calls_activate_prefix:
  assumes inv: "engine_inv bk sha s" "\<not> lost s" and b: "b \<le> ex_epoch (me_executor s)"
    and p: "\<And>p. prefix = Some p \<Longrightarrow> cat (mappings (me_logical s)) (ep_id p) = Some p"
  shows "calls bk sha b X C s (activate_prefix bk context prefix s) (\<lambda>_ t. me_logical t = me_logical s \<and>
    holds bk (me_executor t) (ex_active (me_executor t)) (case prefix of None \<Rightarrow> [] | Some p \<Rightarrow> seq_list (ep_sequence p)))"
proof (cases prefix)
  case None
  show ?thesis unfolding activate_prefix_def None option.case
    by (rule calls_mono[OF calls_activate[OF inv]])
      (use inv in \<open>auto simp: same_aside_def engine_inv_def holds_def\<close>)
next
  case (Some p)
  note cat = p[OF Some]
  let ?ts = "seq_list (ep_sequence p)"
  show ?thesis
  proof (cases "map_of (me_resident s) (ep_id p)")
    case None
    then show ?thesis using Some by (simp add: activate_prefix_def calls_Err[OF inv(1)])
  next
    case r: (Some r)
    from resident_of[OF inv(1) r] cat have rok: "resident_ok bk s (ep_id p) ?ts r" by auto
    show ?thesis unfolding activate_prefix_def Some r option.case
    proof (rule calls_bind[OF calls_native_of[OF inv rok]], goal_cases)
      case (1 native t0)
      then have t0: "engine_inv bk sha t0" "\<not> lost t0" and k0: "kept_for bk s native ?ts t0" and root: "native \<noteq> me_root s"
        and young: "rz_native r = None \<Longrightarrow> b < native"
        using b by (auto simp: kept_for_def same_aside_def)
      show ?case
      proof (cases "cs_context (me_logical t0) context")
        case None
        then show ?thesis by (simp add: calls_Err[OF t0(1)])
      next
        case (Some c)
        show ?thesis unfolding Some option.case Let_def
        proof (rule calls_bind[OF calls_physical[OF t0 pm_calls(3)]], goal_cases)
          case (1 x t1)
          then have t1: "engine_inv bk sha t1" "\<not> lost t1" and k1: "kept_for bk s native ?ts t1"
            using k0 by (auto intro: kept_for_physical)
          obtain tid kind transfers where x: "x = (tid, kind, transfers)" by (cases x)
          show ?case unfolding x prod.case
          proof (rule calls_bind[OF calls_complete_transfers[OF t1]], goal_cases)
            case (1 y t2)
            then have t2: "engine_inv bk sha t2" "\<not> lost t2" and k2: "kept_for bk s native ?ts t2"
              using k1 by (auto intro: kept_for_physical)
            show ?case
            proof (rule calls_bind[OF calls_or_else[OF calls_activate[OF t2]]], goal_cases)
              case (1 t)
              show ?case by (rule runs_ignored, rule physical_cleanup[OF 1], rule pm_calls(2))
            next
              case (2 z t3)
              then have "engine_inv bk sha t3" "\<not> lost t3" "kept_for bk s native ?ts t3" "ex_active (me_executor t3) = native"
                using k2 by (auto simp: kept_for_def same_aside_def holds_def)
              then show ?case by (rule calls_bound_prefix[OF _ _ _ _ r cat root young])
            qed
          qed
        qed
      qed
    qed
  qed
qed

end

section \<open>Changes of the store\<close>

lemma engine_store_inv: "engine_inv bk sha s \<Longrightarrow> store_inv sha (me_logical s)"
  using cs.reach_inv[of sha "(me_logical s, [])"] by (simp add: engine_inv_def cs_inv_def)

lemma logical_change:
  assumes inv: "engine_inv bk sha s" and l: "reach cs_init (cs_step sha) (l, [])" "cat_kept l" "store_grows C (me_logical s) l"
  shows "engine_inv bk sha (s\<lparr>me_logical := l\<rparr>) \<and> grows b X C s (s\<lparr>me_logical := l\<rparr>)"
proof -
  have "residents_ok bk (s\<lparr>me_logical := l\<rparr>)" unfolding residents_ok_def
  proof (intro conjI allI impI)
    show "hm_ok (me_resident (s\<lparr>me_logical := l\<rparr>))" using inv by (simp add: engine_inv_def residents_ok_def)
    fix i r assume "map_of (me_resident (s\<lparr>me_logical := l\<rparr>)) i = Some r"
    then have "map_of (me_resident s) i = Some r" by simp
    from resident_of[OF inv this] obtain m where m: "cat (mappings (me_logical s)) i = Some m"
      "resident_ok bk s i (seq_list (ep_sequence m)) r" by blast
    have "cat (mappings l) i = Some m" using l(3) m(1) by (simp add: store_grows_def)
    then show "\<exists>m. cat (mappings (me_logical (s\<lparr>me_logical := l\<rparr>))) i = Some m \<and>
        resident_ok bk (s\<lparr>me_logical := l\<rparr>) i (seq_list (ep_sequence m)) r"
      using m(2) by (simp add: resident_ok_def cong: option.case_cong)
  qed
  then show ?thesis using inv l by (simp add: engine_inv_def grows_def mappings_grow_refl natives_def)
qed

lemma commit_change:
  assumes inv: "engine_inv bk sha s" and p: "prepare_publication sha (me_logical s) context e par required complete params = Ok pp"
    and c: "commit_publication pp (me_logical s) = (l, Ok m)"
  shows "engine_inv bk sha (s\<lparr>me_logical := l\<rparr>)" "grows b X {} s (s\<lparr>me_logical := l\<rparr>)"
    "cat (mappings l) (ep_id m) = Some m" "ep_id m = ep_id (pp_mapping pp)"
    "seq_list (ep_sequence m) = seq_list (ep_sequence (pp_mapping pp))"
proof -
  note st = engine_store_inv[OF inv]
  note wf = prepare_prefix_wf[OF st p]
  have kept: "cat_kept (me_logical s)" using inv by (simp add: engine_inv_def)
  note k = commit_kept[OF st kept wf c]
  have "cs_step sha (me_logical s, []) (me_logical s, [pp])" using p by (rule cs_step.step_prepare)
  moreover have "cs_step sha (me_logical s, [pp]) (l, [])"
    using cs_step.step_commit[of pp "[pp]" "me_logical s" sha] c by simp
  ultimately have r: "reach cs_init (cs_step sha) (l, [])"
    using inv by (auto simp: engine_inv_def intro: reach_step)
  have g: "store_grows {} (me_logical s) l"
    using k(6) k(7) k(2) by (auto simp: store_grows_def hm_has_def cat_def split: if_splits)
  show "engine_inv bk sha (s\<lparr>me_logical := l\<rparr>)" "grows b X {} s (s\<lparr>me_logical := l\<rparr>)"
    using logical_change[OF inv r k(1) g] by blast+
  show "cat (mappings l) (ep_id m) = Some m" using k(3,4) by simp
  show "ep_id m = ep_id (pp_mapping pp)" "seq_list (ep_sequence m) = seq_list (ep_sequence (pp_mapping pp))" by (rule k)+
qed

section \<open>Publishing a block\<close>

text \<open>What a publication relies on: the mapping \<open>native\<close> holds the tokens that the prepared prefix describes.\<close>

definition publishable ::
  "('q, 's) Backend \<Rightarrow> (byte list \<Rightarrow> digest) \<Rightarrow> nat \<Rightarrow> PreparedPublication \<Rightarrow> nat \<Rightarrow> Decode \<Rightarrow> 'q MappedState \<Rightarrow> bool" where
  "publishable bk sha b pp native continuation s \<longleftrightarrow>
     (\<exists>context e par required complete params.
        prepare_publication sha (me_logical s) context e par required complete params = Ok pp) \<and>
     (let ts = seq_list (ep_sequence (pp_mapping pp)) in
      holds bk (me_executor s) native ts \<and> continuation = bk_result bk (fed bk ts)) \<and> native \<noteq> me_root s \<and> b < native"

lemma publishable_physical: "publishable bk sha b pp native d s \<Longrightarrow> only_physical s t \<Longrightarrow> publishable bk sha b pp native d t"
  by (simp add: publishable_def only_physicalD)

lemma calls_commit:
  assumes inv: "engine_inv bk sha s" "\<not> lost s" and p: "publishable bk sha b pp native continuation s"
  shows "calls bk sha b X C s (case on_logical (commit_publication pp) s of
       (s, Ok m) \<Rightarrow> (case existing of
           Some _ \<Rightarrow> (s, Ok (ep_id m))
         | None \<Rightarrow> (s\<lparr>me_resident := hm_put (ep_id m) \<lparr>rz_native = Some native, rz_spill = None,
               rz_representations = representations, rz_continuation = continuation\<rparr> (me_resident s),
             me_metrics := (me_metrics s)\<lparr>mx_published_blocks := mx_published_blocks (me_metrics s) + 1\<rparr>\<rparr>, Ok (ep_id m)))
     | (s, _) \<Rightarrow> (s, Abort)) (\<lambda>_ _. True)"
proof (cases "snd (commit_publication pp (me_logical s))")
  case (Ok m)
  let ?l = "fst (commit_publication pp (me_logical s))"
  have c: "commit_publication pp (me_logical s) = (?l, Ok m)" using Ok by (metis prod.collapse)
  from p obtain cid e par required complete params where
    "prepare_publication sha (me_logical s) cid e par required complete params = Ok pp"
    unfolding publishable_def by blast
  note k = commit_change[OF inv(1) this c]
  let ?s = "s\<lparr>me_logical := ?l\<rparr>"
  have ol: "on_logical (commit_publication pp) s = (?s, Ok m)" by (simp add: on_logical_def Let_def state_error_def Ok)
  have g1: "grows b X C s ?s" using k(2)[of b X] by (rule grows_mono) simp_all
  show ?thesis
  proof (cases existing)
    case None
    let ?r = "\<lparr>rz_native = Some native, rz_spill = None, rz_representations = representations, rz_continuation = continuation\<rparr>"
    let ?t = "?s\<lparr>me_resident := hm_put (ep_id m) ?r (me_resident ?s),
      me_metrics := (me_metrics ?s)\<lparr>mx_published_blocks := mx_published_blocks (me_metrics ?s) + 1\<rparr>\<rparr>"
    have "engine_inv bk sha ?t \<and> grows b X C ?s ?t"
      by (rule resident_change[OF k(1), where m = m and r = ?r])
        (use k(3,4,5) p in \<open>auto simp: resident_ok_def publishable_def Let_def\<close>)
    with engine_grows_trans[OF g1] inv(2) show ?thesis by (simp add: ol None calls_def fine_def)
  next
    case (Some r)
    with k(1) g1 inv(2) show ?thesis by (simp add: ol calls_def fine_def)
  qed
qed (simp_all add: on_logical_def Let_def state_error_def calls_Abort)

lemma calls_publish_prepared:
  assumes inv: "engine_inv bk sha s" "\<not> lost s" and p: "publishable bk sha b pp native continuation s"
  shows "calls bk sha b X C s (publish_prepared bk pp e rollback required representations registered existing native continuation s)
    (\<lambda>_ _. True)"
proof (cases "cs_context (me_logical s) (pp_context pp)")
  case None
  then show ?thesis by (simp add: publish_prepared_def calls_Err[OF inv(1)])
next
  case c: (Some c)
  show ?thesis
  proof (cases "checked_add (ctx_revision c) 1")
    case None
    with c show ?thesis by (simp add: publish_prepared_def calls_Err[OF inv(1)])
  next
    case (Some revision)
    show ?thesis unfolding publish_prepared_def c Some option.case
    proof (rule calls_bind[OF calls_or_else[OF calls_physical[OF inv pm_calls(3)]]], goal_cases)
      case (1 t)
      then show ?case by (rule roll_back_cleanup)
    next
      case (2 x t1)
      then have t1: "engine_inv bk sha t1" "\<not> lost t1" and p1: "publishable bk sha b pp native continuation t1"
        using p by (auto intro: publishable_physical)
      obtain tid kind transfers where x: "x = (tid, kind, transfers)" by (cases x)
      show ?case unfolding x prod.case
      proof (rule calls_bind[OF calls_or_else[OF calls_complete_transfers[OF t1]]], goal_cases)
        case (1 t)
        then show ?case by (rule roll_back_cleanup)
      next
        case (2 y t2)
        then have t2: "engine_inv bk sha t2" "\<not> lost t2" and p2: "publishable bk sha b pp native continuation t2"
          using p1 by (auto intro: publishable_physical)
        show ?case
        proof (rule calls_bind[OF calls_u32[OF t2]], goal_cases)
          case (1 identity t3)
          then have t3: "t3 = t2" by simp
          show ?case unfolding t3
          proof (rule calls_bind[OF calls_or_else[OF calls_physical[OF t2 pm_calls(4)]]], goal_cases)
            case (1 t)
            then show ?case by (rule roll_back_cleanup)
          next
            case (2 z t4)
            then have "engine_inv bk sha t4" "\<not> lost t4" "publishable bk sha b pp native continuation t4"
              using p2 by (auto intro: publishable_physical)
            then show ?case by (rule calls_commit)
          qed
        qed
      qed
    qed
  qed
qed

lemma calls_answer:
  assumes "engine_inv bk sha s" "\<not> lost s"
  shows "calls bk sha b X C s (s, x) (\<lambda>a t. t = s \<and> x = Ok a)"
  using assms by (cases x) (simp_all add: calls_Ok calls_Err calls_Abort)

lemma state_error_Ok [simp]: "state_error f x = Ok a \<longleftrightarrow> x = Ok a"
  by (cases x) (simp_all add: state_error_def)

lemma calls_publish_block:
  assumes inv: "engine_inv bk sha s" "\<not> lost s"
    and c: "map_of (contexts (me_logical s)) context = Some c"
    and n: "holds bk (me_executor s) native (take e (seq_list (ctx_tokens c)))" "native \<noteq> me_root s" "b < native"
    and d: "continuation = bk_result bk (fed bk (take e (seq_list (ctx_tokens c))))"
  shows "calls bk sha b X C s (publish_block bk sha profile context e par native continuation s) (\<lambda>_ _. True)"
  unfolding publish_block_def Let_def
proof (rule calls_bind[OF calls_answer[OF inv]], goal_cases)
  case (1 serialized t)
  then have t: "t = s" by simp
  show ?case unfolding t
  proof (rule calls_bind[OF calls_answer[OF inv]], goal_cases)
    case (1 bytes u)
    then have u: "u = s" by simp
    show ?case unfolding u
    proof (cases "checked_mul bytes (length (xp_required profile))", goal_cases)
      case 1
      then show ?case by (simp add: calls_Err[OF inv(1)])
    next
      case (2 required_bytes)
      show ?case unfolding 2 option.case
      proof (split if_split, intro conjI impI, goal_cases)
        case 1
        show ?case by (rule calls_Err[OF inv(1)])
      next
        case 2
        show ?case
        proof (rule calls_bind[OF calls_answer[OF inv]], goal_cases)
          case (1 pp v)
          then have v: "v = s" and pp: "prepare_publication sha (me_logical s) context e par (required_mask profile)
            (required_mask profile) (replicate 32 0) = Ok pp" by simp_all
          have p: "publishable bk sha b pp native continuation s"
            using n d prepare_tokens(1)[OF engine_store_inv[OF inv(1)] pp c] unfolding publishable_def Let_def
            by (intro conjI exI) (rule pp, simp_all)
          show ?case unfolding v
          proof (rule calls_bind[OF calls_answer[OF inv]], goal_cases)
            case (1 w x)
            then have x: "x = s" by simp
            show ?case unfolding x
            proof (cases "map_of (me_resident s) (ep_id (pp_mapping pp))", goal_cases)
              case 1
              show ?case unfolding 1 option.case
                by (rule calls_bind[OF calls_register[OF inv]], rule calls_publish_prepared)
                  (use p in \<open>auto intro: publishable_physical\<close>)
            next
              case (2 r)
              show ?case unfolding 2 option.case by (rule calls_publish_prepared[OF inv p])
            qed
          qed
        qed
      qed
    qed
  qed
qed

section \<open>Spilling\<close>

lemma files_change:
  assumes inv: "engine_inv bk sha s"
    and f: "\<And>j. map_of f (SeqFile j) = map_of (me_files s) (SeqFile j) \<or>
      (\<exists>m. cat (mappings (me_logical s)) j = Some m \<and> map_of f (SeqFile j) = Some (bk_save bk (fed bk (seq_list (ep_sequence m)))))"
  shows "engine_inv bk sha (s\<lparr>me_files := f\<rparr>) \<and> grows b X C s (s\<lparr>me_files := f\<rparr>)"
proof -
  have "residents_ok bk (s\<lparr>me_files := f\<rparr>)" unfolding residents_ok_def
  proof (intro conjI allI impI)
    show "hm_ok (me_resident (s\<lparr>me_files := f\<rparr>))" using inv by (simp add: engine_inv_def residents_ok_def)
    fix i r assume "map_of (me_resident (s\<lparr>me_files := f\<rparr>)) i = Some r"
    then have "map_of (me_resident s) i = Some r" by simp
    from resident_of[OF inv this] obtain m where m: "cat (mappings (me_logical s)) i = Some m"
      "resident_ok bk s i (seq_list (ep_sequence m)) r" by blast
    have "resident_ok bk (s\<lparr>me_files := f\<rparr>) i (seq_list (ep_sequence m)) r"
      using m f[of i] by (auto simp: resident_ok_def spill_ok_def split: option.splits)
    with m(1) show "\<exists>m. cat (mappings (me_logical (s\<lparr>me_files := f\<rparr>))) i = Some m \<and>
        resident_ok bk (s\<lparr>me_files := f\<rparr>) i (seq_list (ep_sequence m)) r" by auto
  qed
  then show ?thesis using inv
    by (simp add: engine_inv_def grows_def mappings_grow_refl store_grows_refl natives_def)
qed

text \<open>Files may have changed, nothing else that matters.\<close>

definition but_files :: "'q MappedState \<Rightarrow> 'q MappedState \<Rightarrow> bool" where
  "but_files s t \<longleftrightarrow> me_logical t = me_logical s \<and> ex_mappings (me_executor t) = ex_mappings (me_executor s) \<and>
     dom (map_of (me_resident t)) = dom (map_of (me_resident s))"

lemma but_files_trans: "but_files a b \<Longrightarrow> but_files b c \<Longrightarrow> but_files a c"
  by (auto simp: but_files_def)

lemma quiet_but_files: "quiet s t \<Longrightarrow> but_files s t"
  by (auto simp: but_files_def quiet_def same_aside_def)

lemma calls_write:
  assumes inv: "engine_inv bk sha s" "\<not> lost s"
  shows "calls bk sha b X C s (write_file (SeqTmp i) bytes s) (\<lambda>_ t. but_files s t \<and> map_of (me_files t) (SeqTmp i) = Some bytes)"
  unfolding write_file_def
proof (rule calls_bind[OF calls_file[OF inv]], goal_cases)
  case (1 x t)
  let ?u = "t\<lparr>me_files := hm_put (SeqTmp i) bytes (me_files t)\<rparr>"
  have "engine_inv bk sha ?u \<and> grows b X C t ?u" by (rule files_change[OF 1(1)]) simp
  with 1 quiet_but_files[OF 1(4)] show ?case by (simp add: calls_def fine_def but_files_def)
qed

lemma calls_rename:
  assumes inv: "engine_inv bk sha s" "\<not> lost s" and m: "cat (mappings (me_logical s)) i = Some m"
    and f: "map_of (me_files s) (SeqTmp i) = Some (bk_save bk (fed bk (seq_list (ep_sequence m))))"
  shows "calls bk sha b X C s (rename_file (SeqTmp i) (SeqFile i) s)
    (\<lambda>_ t. but_files s t \<and> map_of (me_files t) (SeqFile i) = Some (bk_save bk (fed bk (seq_list (ep_sequence m)))))"
  unfolding rename_file_def
proof (rule calls_bind[OF calls_file[OF inv]], goal_cases)
  case (1 x t)
  let ?bytes = "bk_save bk (fed bk (seq_list (ep_sequence m)))"
  let ?u = "t\<lparr>me_files := hm_put (SeqFile i) ?bytes (hm_del (SeqTmp i) (me_files t))\<rparr>"
  have q: "me_files t = me_files s" "me_logical t = me_logical s" using 1(4) by (auto simp: quiet_def same_aside_def)
  have "engine_inv bk sha ?u \<and> grows b X C t ?u" by (rule files_change[OF 1(1)]) (use m q in auto)
  with 1 quiet_but_files[OF 1(4)] f q show ?case by (simp add: calls_def fine_def but_files_def)
qed

lemma calls_demote_all:
  "engine_inv bk sha s \<Longrightarrow> \<not> lost s \<Longrightarrow> calls bk sha b X C s (demote_all is s) (\<lambda>_. only_physical s)"
proof (induction "is" arbitrary: s)
  case Nil
  then show ?case by (simp add: calls_Ok only_physical_refl)
next
  case (Cons i "is")
  show ?case unfolding demote_all.simps
    by (rule calls_bind[OF calls_physical[OF Cons.prems pm_calls(7)]])
      (rule calls_mono[OF Cons.IH], assumption, assumption, erule only_physical_trans, assumption)
qed

definition spillable :: "('q, 's) Backend \<Rightarrow> 'q MappedState \<Rightarrow> EvaluatedPrefixId \<times> nat \<Rightarrow> bool" where
  "spillable bk s p \<longleftrightarrow> fst p \<in> dom (map_of (me_resident s)) \<and>
     (\<exists>m. cat (mappings (me_logical s)) (fst p) = Some m \<and> holds bk (me_executor s) (snd p) (seq_list (ep_sequence m)))"

lemma spillable_but_files: "but_files s t \<Longrightarrow> spillable bk s p \<Longrightarrow> spillable bk t p"
  by (simp add: spillable_def but_files_def holds_def)

lemma but_files_physical: "only_physical s t \<Longrightarrow> but_files s t"
  by (simp add: but_files_def only_physicalD)

lemma calls_spill_each:
  assumes "engine_inv bk sha s" "\<not> lost s" "\<forall>p \<in> set ps. spillable bk s p"
  shows "calls bk sha b X C s (spill_each bk capacity ps n s) (\<lambda>_ _. True)"
  using assms
proof (induction ps arbitrary: s n)
  case Nil
  then show ?case by (simp add: calls_Ok)
next
  case (Cons p ps)
  obtain i h where p: "p = (i, h)" by (cases p)
  from Cons.prems(3) p obtain m where m: "cat (mappings (me_logical s)) i = Some m"
    and h: "holds bk (me_executor s) h (seq_list (ep_sequence m))" by (auto simp: spillable_def)
  let ?ts = "seq_list (ep_sequence m)"
  let ?bytes = "bk_save bk (fed bk ?ts)"
  note IH = Cons.IH
  have export: "calls bk sha b X C s (on_executor (\<lambda>f. ex_export bk f h) s)
      (\<lambda>st t. but_files s t \<and> st = \<lparr>ss_bytes = ?bytes, ss_position = length ?ts\<rparr>)"
  proof -
    have ex: "runs True (ex_export bk fault h (me_executor s))
      (\<lambda>st e'. \<not> ex_lost e' \<and> exec_ok e' \<and> mappings_grow {} (me_executor s) e' \<and> (\<exists>m. map_of (ex_mappings (me_executor s)) h = Some m \<and>
         st = \<lparr>ss_bytes = bk_save bk (mg_state m), ss_position = mg_position m\<rparr> \<and> ex_mappings e' = ex_mappings (me_executor s)))
      (\<lambda>_ e'. ex_lost e' \<or> exec_ok e' \<and> mappings_grow {} (me_executor s) e')" for fault
      by (rule exec_export) (use Cons.prems in \<open>simp_all add: engine_inv_def\<close>)
    have "calls bk sha b {} {} s (on_executor (\<lambda>f. ex_export bk f h) s) (\<lambda>st t. same_aside s t \<and>
        (\<exists>m. map_of (ex_mappings (me_executor s)) h = Some m \<and>
         st = \<lparr>ss_bytes = bk_save bk (mg_state m), ss_position = mg_position m\<rparr> \<and> ex_mappings (me_executor t) = ex_mappings (me_executor s)))"
      by (rule calls_executor[OF Cons.prems(1)]) (simp, simp, rule ex)
    then have "calls bk sha b {} {} s (on_executor (\<lambda>f. ex_export bk f h) s)
      (\<lambda>st t. but_files s t \<and> st = \<lparr>ss_bytes = ?bytes, ss_position = length ?ts\<rparr>)"
      by (rule calls_mono) (use h in \<open>auto simp: same_aside_def but_files_def holds_def\<close>)
    then show ?thesis by (rule calls_widen) simp_all
  qed
  show ?case unfolding p spill_each.simps
  proof (rule calls_bind[OF export], goal_cases)
    case (1 st t)
    then have t: "engine_inv bk sha t" "\<not> lost t" and st: "st = \<lparr>ss_bytes = ?bytes, ss_position = length ?ts\<rparr>" and bt: "but_files s t"
      by auto
    have rest: "\<forall>p \<in> set ps. spillable bk u p" if "but_files s u" for u
    proof
      fix p assume "p \<in> set ps"
      with Cons.prems(3) have "spillable bk s p" by simp
      then show "spillable bk u p" by (rule spillable_but_files[OF that])
    qed
    show ?case
    proof (split if_split, intro conjI impI, goal_cases)
      case 1
      show ?case by (rule IH[OF t rest[OF bt]])
    next
      case 2
      have ss: "ss_bytes st = ?bytes" "ss_position st = length ?ts" by (simp_all add: st)
      show ?case unfolding ss
      proof (rule calls_bind[OF calls_write[OF t]], goal_cases)
        case (1 x u)
        then have u: "engine_inv bk sha u" "\<not> lost u" and bu: "but_files s u" and fu: "map_of (me_files u) (SeqTmp i) = Some ?bytes"
          using bt by (auto intro: but_files_trans)
        have mu: "cat (mappings (me_logical u)) i = Some m" using m bu by (simp add: but_files_def)
        show ?case
        proof (rule calls_bind[OF calls_rename[OF u mu fu]], goal_cases)
          case (1 y v)
          then have v: "engine_inv bk sha v" "\<not> lost v" and bv: "but_files s v" and fv: "map_of (me_files v) (SeqFile i) = Some ?bytes"
            using bu by (auto intro: but_files_trans)
          show ?case
          proof (cases "map_of (me_resident v) i", goal_cases)
            case 1
            then show ?case by (simp add: calls_Abort)
          next
            case (2 r)
            show ?case unfolding 2 option.case
            proof (rule calls_bind[OF calls_demote_all[OF v]], goal_cases)
              case (1 z w)
              then have w: "engine_inv bk sha w" "\<not> lost w" and ow: "only_physical v w" by auto
              have bw: "but_files s w" using bv but_files_physical[OF ow] by (rule but_files_trans)
              let ?r = "r\<lparr>rz_native := None, rz_spill := Some \<lparr>sl_path = SeqFile i, sl_bytes = length ?bytes, sl_position = length ?ts\<rparr>\<rparr>"
              let ?w = "w\<lparr>me_resident := hm_put i ?r (me_resident w),
                me_spill_bytes := wrapping_add (me_spill_bytes w) (length ?bytes)\<rparr>"
              have mw: "cat (mappings (me_logical w)) i = Some m" using m bw by (simp add: but_files_def)
              have rw: "map_of (me_resident w) i = Some r" and fw: "map_of (me_files w) (SeqFile i) = Some ?bytes"
                using 2 fv ow by (simp_all add: only_physicalD)
              have "rz_continuation r = bk_result bk (fed bk ?ts)"
                using resident_of[OF w(1) rw] mw by (auto simp: resident_ok_def)
              then have change: "engine_inv bk sha ?w \<and> grows b X C w ?w"
                by (intro resident_change[OF w(1) mw, where r = ?r]) (use fw in \<open>simp_all add: resident_ok_def spill_ok_def\<close>)
              have dom: "dom (map_of (me_resident ?w)) = dom (map_of (me_resident w))" using rw by auto
              have "but_files s ?w" using bw dom by (simp add: but_files_def)
              from IH[OF _ _ rest[OF this], of "n + 1"] change w(2) have "calls bk sha b X C ?w (spill_each bk capacity ps (n + 1) ?w) (\<lambda>_ _. True)"
                by simp
              moreover have "fine bk sha b X C w ?w" using change w(2) by (simp add: fine_def)
              ultimately show ?case using calls_from by blast
            qed
          qed
        qed
      qed
    qed
  qed
qed

lemma spill_candidates_spillable:
  assumes inv: "engine_inv bk sha s" and p: "p \<in> set (spill_candidates s)"
  shows "spillable bk s p"
proof -
  from p obtain i r h where r: "(i, r) \<in> set (me_resident s)" and n: "rz_native r = Some h" and eq: "p = (i, h)"
    by (auto simp: spill_candidates_def set_map_filter split: option.splits if_splits)
  have i: "map_of (me_resident s) i = Some r"
    using r inv by (simp add: hm_get_in_iff engine_inv_def residents_ok_def)
  from resident_of[OF inv i] obtain m where "cat (mappings (me_logical s)) i = Some m"
    "resident_ok bk s i (seq_list (ep_sequence m)) r" by blast
  with i n show ?thesis by (auto simp: spillable_def resident_ok_def eq)
qed

lemma calls_spill:
  assumes inv: "engine_inv bk sha s" "\<not> lost s" and order: "set order \<subseteq> set (spill_candidates s)"
  shows "calls bk sha b X C s (spill_inactive_mappings bk engine order s) (\<lambda>_ _. True)"
proof (cases "\<not> mg_spill_dir engine \<or> spill_candidates s = []")
  case True
  then show ?thesis by (auto simp: spill_inactive_mappings_def intro: calls_Ok[OF inv])
next
  case False
  have ig: "calls bk sha b X C s (ignored (on_physical (release_binding EXECUTION_SLOT) s)) (\<lambda>_. only_physical s)"
  proof -
    have ab: "snd (on_physical (release_binding EXECUTION_SLOT) s) = Abort \<Longrightarrow> ?thesis" by (simp add: ignored_def calls_Abort)
    have "\<not> lost (fst (on_physical (release_binding EXECUTION_SLOT) s))" using inv(2) by (simp add: on_physical_def Let_def)
    moreover have "only_physical s (fst (on_physical (release_binding EXECUTION_SLOT) s))"
      by (auto simp: on_physical_def Let_def only_physical_def)
    ultimately show ?thesis using calls_physical[OF inv pm_calls(8), of b X C EXECUTION_SLOT]
      by (cases "snd (on_physical (release_binding EXECUTION_SLOT) s)")
        (simp_all add: calls_def runs_def ignored_def good_def fine_def)
  qed
  show ?thesis unfolding spill_inactive_mappings_def using False
    by (simp del: de_Morgan_disj)
      (rule calls_bind[OF ig], rule calls_spill_each, assumption, assumption,
        use order spill_candidates_spillable[OF inv(1)] spillable_but_files but_files_physical in blast)
qed

end
