(* ===== verification/Mapped_Session_Inv.thy ===== *)
theory Mapped_Session_Inv
  imports Mapped_Inv
begin

text \<open>
  The invariant of one session of the mapped engine: its tokens are the request's input followed by a
  part of the reference output, its mapping holds exactly the evaluated ones, and its context describes
  all of them. Every step keeps it, whatever other sessions have done to the shared state before.
\<close>

declare split_paired_All [simp del] split_paired_Ex [simp del]

section \<open>The invariant\<close>

text \<open>The session has its input, and \<open>g\<close> has been generated for it.\<close>

definition prepared :: "('q, 's) Backend \<Rightarrow> MappedEngine \<Rightarrow> token list \<Rightarrow> 's MappedSession \<Rightarrow> bool" where
  "prepared bk engine g m \<longleftrightarrow> ms_tokens m = request_input bk (ms_request m) @ g \<and> length g = ms_generated m \<and>
     ms_generated m \<le> er_max_tokens (ms_request m) \<and>
     length (request_input bk (ms_request m)) + er_max_tokens (ms_request m) \<le> mg_context_capacity engine"

definition finished_ok :: "('q, 's) Backend \<Rightarrow> 's MappedSession \<Rightarrow> bool" where
  "finished_ok bk m \<longleftrightarrow> ms_active m = None \<and>
     (\<exists>output. ms_finished m = Some output \<and> eo_successor_tokens output = map sint (ms_tokens m)) \<and>
     (ms_tokens m = [] \<or> (\<exists>g g'. ms_tokens m = request_input bk (ms_request m) @ g \<and> reference_output bk (ms_request m) = g @ g'))"

definition session_data :: "('q, 's) Backend \<Rightarrow> MappedEngine \<Rightarrow> 's MappedSession \<Rightarrow> bool" where
  "session_data bk engine m \<longleftrightarrow> (case ms_stage m of
       StagePreparation \<Rightarrow> ms_tokens m = [] \<and> ms_generated m = 0 \<and> ms_active m = None \<and> ms_context m = None \<and> ms_next m = None
     | StagePrefill \<Rightarrow> prepared bk engine [] m \<and> ms_evaluated m \<le> length (ms_tokens m) \<and> ms_active m \<noteq> None \<and> ms_context m \<noteq> None
     | StageDecode \<Rightarrow> (\<exists>g sampler. prepared bk engine g m \<and> ms_sampler m = Some sampler \<and> ms_evaluated m = length (ms_tokens m) \<and>
         (ms_next m = None \<longrightarrow> er_max_tokens (ms_request m) \<le> ms_generated m) \<and> ms_active m \<noteq> None \<and> ms_context m \<noteq> None \<and>
         reference_output bk (ms_request m) = g @ generate bk (er_max_tokens (ms_request m) - ms_generated m) sampler (ms_tokens m))
     | StagePublication \<Rightarrow> prepared bk engine (reference_output bk (ms_request m)) m
     | StageFinished \<Rightarrow> finished_ok bk m) \<and>
     (ms_stage m \<noteq> StageFinished \<longrightarrow> ms_finished m = None) \<and> er_prefill_chunk_tokens (ms_request m) \<noteq> 0"

definition owns :: "('q, 's) Backend \<Rightarrow> 'q MappedState \<Rightarrow> nat \<Rightarrow> token list \<Rightarrow> bool" where
  "owns bk s h ts \<longleftrightarrow> holds bk (me_executor s) h ts \<and> h \<noteq> me_root s \<and> h \<notin> natives s"

definition describes :: "'q MappedState \<Rightarrow> LogicalContextId \<Rightarrow> token list \<Rightarrow> bool" where
  "describes s c ts \<longleftrightarrow> (\<exists>x. map_of (contexts (me_logical s)) c = Some x \<and> seq_list (ctx_tokens x) = ts)"

definition session_state :: "('q, 's) Backend \<Rightarrow> 'q MappedState \<Rightarrow> 's MappedSession \<Rightarrow> bool" where
  "session_state bk s m \<longleftrightarrow>
     (\<forall>h. ms_active m = Some h \<longrightarrow> owns bk s h (take (ms_evaluated m) (ms_tokens m))) \<and>
     (\<forall>c. ms_context m = Some c \<longrightarrow> describes s c (ms_tokens m)) \<and>
     (\<forall>d. ms_next m = Some d \<longrightarrow> d = bk_result bk (fed bk (take (ms_evaluated m) (ms_tokens m))))"

lemma owns_grow:
  assumes "owns bk s h ts" "grows b X C s t" "h \<notin> X" "h \<le> b"
  shows "owns bk t h ts"
  using assms by (auto simp: owns_def grows_def intro: holds_grow)

lemma owns_kept:
  assumes "owns bk s h ts" "grows b X C s t" "holds bk (me_executor t) h us" "h \<le> b"
  shows "owns bk t h us"
  using assms by (auto simp: owns_def grows_def)

lemma describes_grow: "describes s c ts \<Longrightarrow> grows b X C s t \<Longrightarrow> c \<notin> C \<Longrightarrow> describes t c ts"
  by (fastforce simp: describes_def grows_def store_grows_def)

lemma describes_same: "me_logical t = me_logical s \<Longrightarrow> describes t c ts = describes s c ts"
  by (simp add: describes_def)

section \<open>Calls of a session\<close>

definition zcalls ::
  "('q, 's) Backend \<Rightarrow> (byte list \<Rightarrow> digest) \<Rightarrow> nat \<Rightarrow> nat set \<Rightarrow> nat set \<Rightarrow> 'q MappedState
    \<Rightarrow> ('q, 's) mapped_run \<times> (server_error, 'a) outcome \<Rightarrow> ('a \<Rightarrow> 's MappedSession \<Rightarrow> 'q MappedState \<Rightarrow> bool) \<Rightarrow> bool" where
  "zcalls bk sha b X C s r P \<longleftrightarrow> runs True r (\<lambda>a z'. fine bk sha b X C s (snd z') \<and> P a (fst z') (snd z'))
     (\<lambda>e z'. good bk sha b X C s (snd z'))"

lemma zcalls_mono: "zcalls bk sha b X C s r P \<Longrightarrow> (\<And>a m t. P a m t \<Longrightarrow> Q a m t) \<Longrightarrow> zcalls bk sha b X C s r Q"
  unfolding zcalls_def by (erule runs_mono) auto

lemma zcalls_facts:
  assumes "zcalls bk sha b X C s r P"
    and "\<And>a m t. engine_inv bk sha t \<Longrightarrow> \<not> lost t \<Longrightarrow> grows b X C s t \<Longrightarrow> P a m t \<Longrightarrow> Q a m t"
  shows "zcalls bk sha b X C s r Q"
  using assms(1) unfolding zcalls_def by (rule runs_mono) (use assms(2) in \<open>auto simp: fine_def\<close>)

lemma zcalls_from: "fine bk sha b X C s t \<Longrightarrow> zcalls bk sha b X C t r P \<Longrightarrow> zcalls bk sha b X C s r P"
  unfolding zcalls_def by (erule runs_mono) (auto intro: fine_trans good_trans)

lemma zcalls_bind:
  fixes s :: "'q MappedState" and r :: "('q, 's) mapped_run \<times> (server_error, 'a) outcome"
  assumes "zcalls bk sha b X C s r P"
    and "\<And>a m t. engine_inv bk sha t \<Longrightarrow> \<not> lost t \<Longrightarrow> grows b X C s t \<Longrightarrow> P a m t \<Longrightarrow> zcalls bk sha b X C t (f a (m, t)) Q"
  shows "zcalls bk sha b X C s (and_then r f) Q"
  unfolding zcalls_def
proof (rule runs_and_then[OF assms(1)[unfolded zcalls_def]])
  fix a and z' :: "('q, 's) mapped_run"
  assume z: "fine bk sha b X C s (snd z') \<and> P a (fst z') (snd z')"
  obtain m t where z': "z' = (m, t)" by (cases z')
  from z have "zcalls bk sha b X C t (f a (m, t)) Q" using assms(2)[of t a m] by (simp add: fine_def z')
  with z have "zcalls bk sha b X C s (f a z') Q" unfolding z' by (intro zcalls_from[of bk sha b X C s t]) simp_all
  then show "runs True (f a z') (\<lambda>a z'. fine bk sha b X C s (snd z') \<and> Q a (fst z') (snd z')) (\<lambda>e z'. good bk sha b X C s (snd z'))"
    by (simp add: zcalls_def)
qed

lemma zcalls_Ok: "engine_inv bk sha s \<Longrightarrow> \<not> lost s \<Longrightarrow> P a m s \<Longrightarrow> zcalls bk sha b X C s ((m, s), Ok a) P"
  by (simp add: zcalls_def fine_refl)

lemma zcalls_Err: "engine_inv bk sha s \<Longrightarrow> zcalls bk sha b X C s ((m, s), Err e) P"
  by (simp add: zcalls_def good_def grows_refl)

lemma zcalls_Abort: "zcalls bk sha b X C s (z, Abort) P"
  by (simp add: zcalls_def)

lemma zcalls_in_state:
  "calls bk sha b X C s (f s) P \<Longrightarrow> zcalls bk sha b X C s (in_state f (m, s)) (\<lambda>a m' t. m' = m \<and> P a t)"
  by (auto simp: zcalls_def calls_def in_state_def Let_def runs_def split: outcome.splits)

lemma zcalls_call:
  assumes "calls bk sha b X C s (f s) P"
    and "\<And>a t. engine_inv bk sha t \<Longrightarrow> \<not> lost t \<Longrightarrow> grows b X C s t \<Longrightarrow> P a t \<Longrightarrow> zcalls bk sha b X C t (g a (m, t)) Q"
  shows "zcalls bk sha b X C s (and_then (in_state f (m, s)) g) Q"
  by (rule zcalls_bind, rule zcalls_in_state, rule assms(1)) (use assms(2) in simp)

lemma zcalls_widen: "zcalls bk sha b X C s r P \<Longrightarrow> X \<subseteq> Y \<Longrightarrow> C \<subseteq> D \<Longrightarrow> zcalls bk sha b Y D s r P"
  unfolding zcalls_def fine_def good_def by (erule runs_mono) (auto intro: grows_mono)

lemma zcalls_quiet:
  assumes "engine_inv bk sha s" "quiet s t" "\<not> lost s" "P a m t"
  shows "zcalls bk sha b X C s ((m, t), Ok a) P"
  using quiet_change[OF assms(1,2)] assms by (auto simp: zcalls_def fine_def quiet_def)

lemma quiet_time [simp]: "quiet s (pass_time s)"
  by (simp add: quiet_def same_aside_def pass_time_def)

lemma quiet_metrics [simp]: "quiet s (s\<lparr>me_metrics := x\<rparr>)"
  by (simp add: quiet_def same_aside_def)

lemma quiet_owns: "quiet s t \<Longrightarrow> owns bk t h ts = owns bk s h ts" "quiet s t \<Longrightarrow> describes t c ts = describes s c ts"
  by (auto simp: quiet_def same_aside_def owns_def describes_def natives_def)

lemma quiet_fine: "engine_inv bk sha s \<Longrightarrow> \<not> lost s \<Longrightarrow> quiet s t \<Longrightarrow> fine bk sha b X C s t"
  by (metis fine_def quiet_change quiet_def)

lemma calls_ask:
  assumes inv: "engine_inv bk sha s" "\<not> lost s"
  shows "calls bk sha b X C s (ask answer s) (\<lambda>a t. same_aside s t \<and> (answer = Ok a \<and> me_executor t = me_executor s \<and> next_fault s = None))"
proof -
  let ?t = "(pop_fault s)\<lparr>me_executor := me_executor s\<rparr>"
  have t: "quiet s ?t" by (simp add: quiet_def same_aside_def pop_fault_def)
  from quiet_change[OF inv(1) t, of b X C] inv(2) t show ?thesis
    by (cases "next_fault s"; cases answer)
      (auto simp: ask_def on_executor_def Let_def state_error_def calls_def fine_def good_def quiet_def)
qed

section \<open>Evaluating tokens\<close>

lemma grows_epoch: "grows b X C s t \<Longrightarrow> ex_epoch (me_executor s) \<le> ex_epoch (me_executor t)"
  by (simp add: grows_def mappings_grow_def)

lemma zcalls_boundary:
  assumes inv: "engine_inv bk sha s" "\<not> lost s" and b: "b \<le> ex_epoch (me_executor s)"
    and m: "ms_active m = Some h" "ms_context m = Some c" "ms_next m = Some d"
    and h: "holds bk (me_executor s) h (take (ms_evaluated m) (ms_tokens m))"
    and c: "describes s c (ms_tokens m)" and d: "d = bk_result bk (fed bk (take (ms_evaluated m) (ms_tokens m)))"
  shows "zcalls bk sha b X C s (publish_boundary bk sha engine (m, s)) (\<lambda>_ m' _. \<exists>p. m' = m\<lparr>ms_parent := p\<rparr>)"
proof (cases "ms_evaluated m mod xp_block_size (mg_profile engine) \<noteq> 0")
  case True
  have "\<exists>p. m = m\<lparr>ms_parent := p\<rparr>" by (rule exI[of _ "ms_parent m"]) simp
  with True show ?thesis by (simp add: publish_boundary_def Let_def zcalls_Ok[OF inv])
next
  case False
  let ?ts = "take (ms_evaluated m) (ms_tokens m)"
  have eq: "publish_boundary bk sha engine (m, s) =
      and_then (in_state (snapshot_active_mapping bk h) (m, s)) (\<lambda>native z.
        and_then (in_state (publish_block bk sha (mg_profile engine) c (ms_evaluated m) (ms_parent m) native d) z) (\<lambda>i z.
          (((fst z)\<lparr>ms_parent := Some i\<rparr>, snd z), Ok ())))"
    using False m by (simp add: publish_boundary_def Let_def)
  show ?thesis unfolding eq
  proof (rule zcalls_call, rule calls_snapshot[OF inv], goal_cases)
    case (1 native t)
    then have t: "engine_inv bk sha t" "\<not> lost t" and n: "holds bk (me_executor t) native ?ts" "native \<noteq> me_root t" "b < native"
      and g: "me_logical t = me_logical s"
      using h b by (auto simp: same_aside_def)
    from c g obtain x where x: "map_of (contexts (me_logical t)) c = Some x" "seq_list (ctx_tokens x) = ms_tokens m"
      by (auto simp: describes_def)
    show ?case
      by (rule zcalls_call, rule calls_publish_block[OF t x(1)]) (use n x(2) d in \<open>auto intro!: zcalls_Ok\<close>)
  qed
qed

context mapped_backend
begin

lemma calls_decode:
  assumes inv: "engine_inv bk sha s" "\<not> lost s" and h: "owns bk s h ts" "ex_active (me_executor s) = h"
  shows "calls bk sha b {h} C s (on_executor (\<lambda>f. ex_decode bk f us) s) (\<lambda>d t. same_aside s t \<and>
    (holds bk (me_executor t) h (ts @ us) \<and> d = bk_result bk (fed bk (ts @ us)) \<and> ex_active (me_executor t) = h))"
  by (rule calls_executor[OF inv(1)]) (use inv h in \<open>auto simp: owns_def engine_inv_def intro!: exec_decode\<close>)

text \<open>The effect of \<open>evaluate_tokens\<close> on the session: \<open>ts\<close> are evaluated as well.\<close>

lemma zcalls_evaluate:
  assumes inv: "engine_inv bk sha s" "\<not> lost s" and b: "b \<le> ex_epoch (me_executor s)" "h \<le> b"
    and m: "ms_active m = Some h" "ms_context m = Some c"
    and h: "owns bk s h (take (ms_evaluated m) (ms_tokens m))" "ex_active (me_executor s) = h"
    and c: "describes s c (ms_tokens m)"
    and ts: "take (ms_evaluated m) (ms_tokens m) @ ts = take (ms_evaluated m + length ts) (ms_tokens m)"
  shows "zcalls bk sha b {h} {} s (evaluate_tokens bk sha engine ts (m, s)) (\<lambda>_ m' t. \<exists>p.
    (let m1 = m\<lparr>ms_next := Some (bk_result bk (fed bk (take (ms_evaluated m + length ts) (ms_tokens m)))),
        ms_evaluated := ms_evaluated m + length ts, ms_parent := p\<rparr> in m' = m1 \<and>
     owns bk t h (take (ms_evaluated m1) (ms_tokens m)) \<and> describes t c (ms_tokens m)))"
proof -
  let ?n = "ms_evaluated m + length ts"
  let ?ts = "take ?n (ms_tokens m)"
  let ?d = "bk_result bk (fed bk ?ts)"
  let ?Q = "\<lambda>(m' :: 's MappedSession) (t :: 'q MappedState). \<exists>p. m' = m\<lparr>ms_next := Some ?d, ms_evaluated := ?n, ms_parent := p\<rparr> \<and>
     owns bk t h ?ts \<and> describes t c (ms_tokens m)"
  have "zcalls bk sha b {h} {} s (evaluate_tokens bk sha engine ts (m, s)) (\<lambda>_. ?Q)"
    unfolding evaluate_tokens_def
  proof (rule zcalls_call, rule calls_decode[OF inv h], goal_cases)
    case (1 d t)
    then have t: "engine_inv bk sha t" "\<not> lost t" and d: "d = ?d"
      and ht: "holds bk (me_executor t) h ?ts" and lt: "me_logical t = me_logical s"
      and g: "grows b {h} {} s t" by (auto simp: ts same_aside_def)
    have ot: "owns bk t h ?ts" by (rule owns_kept[OF h(1) g ht b(2)])
    have bt: "b \<le> ex_epoch (me_executor t)" using b(1) grows_epoch[OF g] by linarith
    let ?m = "m\<lparr>ms_next := Some ?d\<rparr>"
    show ?case unfolding d fst_conv snd_conv
    proof (rule zcalls_call, rule calls_control[OF t], goal_cases)
      case (1 x u)
      then have u: "engine_inv bk sha u" "\<not> lost u" and q: "quiet t u" by auto
      let ?m1 = "?m\<lparr>ms_evaluated := ?n\<rparr>"
      let ?u = "u\<lparr>me_metrics := (me_metrics u)\<lparr>mx_decoded_tokens := mx_decoded_tokens (me_metrics u) + length ts\<rparr>\<rparr>"
      have q1: "quiet t ?u" using quiet_trans[OF q quiet_metrics] .
      have f: "fine bk sha b {h} {} u ?u" by (rule quiet_fine[OF u]) simp
      have i: "engine_inv bk sha ?u" "\<not> lost ?u" using f by (simp_all add: fine_def)
      have own: "owns bk ?u h ?ts" "describes ?u c (ms_tokens m)"
        using ot c lt by (simp_all add: quiet_owns[OF q1] describes_same[OF lt])
      have "zcalls bk sha b {} {} ?u (publish_boundary bk sha engine (?m1, ?u)) (\<lambda>_ m' _. \<exists>p. m' = ?m1\<lparr>ms_parent := p\<rparr>)"
        by (rule zcalls_boundary[OF i, where h = h and c = c and d = ?d])
          (use own bt q1 m in \<open>auto simp: owns_def quiet_def\<close>)
      then have "zcalls bk sha b {} {} ?u (publish_boundary bk sha engine (?m1, ?u)) (\<lambda>_. ?Q)"
      proof (rule zcalls_facts, goal_cases)
        case (1 a m3 v)
        then have "owns bk v h ?ts" "describes v c (ms_tokens m)"
          using owns_grow[OF own(1)] describes_grow[OF own(2)] b(2) by auto
        with 1(4) show ?case by auto
      qed
      then have "zcalls bk sha b {h} {} ?u (publish_boundary bk sha engine (?m1, ?u)) (\<lambda>_. ?Q)"
        by (rule zcalls_widen) simp_all
      from zcalls_from[OF f this] show ?case by (simp add: Let_def)
    qed
  qed
  then show ?thesis by (simp add: Let_def)
qed

end

section \<open>Preparation\<close>

text \<open>A session after a step that succeeded. Its mapping and its context are its old ones or new.\<close>

definition session_after ::
  "('q, 's) Backend \<Rightarrow> MappedEngine \<Rightarrow> 'q MappedState \<Rightarrow> 's MappedSession \<Rightarrow> 's MappedSession \<Rightarrow> 'q MappedState \<Rightarrow> bool" where
  "session_after bk engine s m m' t \<longleftrightarrow> session_data bk engine m' \<and> session_state bk t m' \<and> ms_request m' = ms_request m \<and>
     (\<forall>h. ms_active m' = Some h \<longrightarrow> ms_active m = Some h \<or> ex_epoch (me_executor s) < h) \<and>
     (\<forall>c. ms_context m' = Some c \<longrightarrow> ms_context m = Some c \<or> next_context (me_logical s) \<le> c)"

text \<open>How many more steps a session can take.\<close>

definition steps_left :: "MappedEngine \<Rightarrow> 's MappedSession \<Rightarrow> nat" where
  "steps_left engine m = (let more = er_max_tokens (ms_request m) - ms_generated m in case ms_stage m of
       StagePreparation \<Rightarrow> mg_context_capacity engine + 4
     | StagePrefill \<Rightarrow> (length (ms_tokens m) - ms_evaluated m) + more + 3
     | StageDecode \<Rightarrow> more + 2
     | StagePublication \<Rightarrow> 1
     | StageFinished \<Rightarrow> 0)"

text \<open>What opening the engine and starting the session have checked.\<close>

definition well_sized :: "MappedEngine \<Rightarrow> 's MappedSession \<Rightarrow> bool" where
  "well_sized engine m \<longleftrightarrow> xp_block_size (mg_profile engine) \<noteq> 0 \<and> mg_context_capacity engine < u64_max \<and>
     er_prefill_chunk_tokens (ms_request m) \<noteq> 0"

text \<open>The outcome of a step: a result is the reference's, and everything else makes progress.\<close>

definition step_ok :: "('q, 's) Backend \<Rightarrow> MappedEngine \<Rightarrow> 'q MappedState \<Rightarrow> 's MappedSession \<Rightarrow> SessionStep \<Rightarrow> 's MappedSession \<Rightarrow> 'q MappedState \<Rightarrow> bool" where
  "step_ok bk engine s m r m' t \<longleftrightarrow> session_after bk engine s m m' t \<and>
     (\<forall>output. r = Finished output \<longrightarrow> ms_stage m = StageFinished \<or>
        eo_successor_tokens output = map sint (request_input bk (ms_request m) @ reference_output bk (ms_request m))) \<and>
     (well_sized engine m \<longrightarrow> (\<forall>output. r \<noteq> Finished output) \<longrightarrow> steps_left engine m' < steps_left engine m)"

lemma step_ok_running: "session_after bk engine s m m' t \<Longrightarrow> (well_sized engine m \<Longrightarrow> steps_left engine m' < steps_left engine m) \<Longrightarrow> step_ok bk engine s m (Progress q) m' t"
  by (simp add: step_ok_def)

lemma create_change:
  assumes inv: "engine_inv bk sha s" and c: "cs_create (seq_append sha seq_default ts) e a (me_logical s) = (l, k)"
    and room: "next_context (me_logical s) + 1 < 2 ^ 64"
  shows "engine_inv bk sha (s\<lparr>me_logical := l\<rparr>) \<and> grows b X C s (s\<lparr>me_logical := l\<rparr>)"
    and "describes (s\<lparr>me_logical := l\<rparr>) k ts" and "k = next_context (me_logical s)"
proof -
  note k = create_kept[OF engine_store_inv[OF inv] c room]
  have wf: "seq_wf sha (seq_append sha seq_default ts)" and toks: "seq_list (seq_append sha seq_default ts) = ts"
    by (simp_all add: seq_append_correct)
  have "cs_step sha (me_logical s, []) (fst (cs_create (seq_append sha seq_default ts) e a (me_logical s)), [])"
    by (rule cs_step.step_create[OF wf room])
  then have r: "reach cs_init (cs_step sha) (l, [])" using inv c by (auto simp: engine_inv_def intro: reach_step)
  have kept: "cat_kept l" using inv k(1) by (auto simp: engine_inv_def intro: cat_kept_same)
  have old: "map_of (contexts l) j = Some x" if "map_of (contexts (me_logical s)) j = Some x" for j x
    using k(5) k(6)[of j] that by (cases "j = k") auto
  then have g: "store_grows C (me_logical s) l" using k(1,2,3) by (auto simp: store_grows_def)
  from logical_change[OF inv r kept g]
  show "engine_inv bk sha (s\<lparr>me_logical := l\<rparr>) \<and> grows b X C s (s\<lparr>me_logical := l\<rparr>)" .
  show "describes (s\<lparr>me_logical := l\<rparr>) k ts" using k(4) toks by (auto simp: describes_def)
  show "k = next_context (me_logical s)" by (rule k(2))
qed

lemma zcalls_admit:
  assumes inv: "engine_inv bk sha s" "\<not> lost s"
  shows "zcalls bk sha b X C s (admit_tokens engine prompt (m, s)) (\<lambda>_ m' t. quiet s t \<and>
    length (er_prior_tokens (ms_request m)) + length prompt + er_max_tokens (ms_request m) \<le> mg_context_capacity engine \<and>
    (\<exists>pf n. m' = m\<lparr>ms_prefill := pf, ms_input_tokens := n, ms_tokens := map word_of_int (er_prior_tokens (ms_request m)) @ prompt\<rparr>))"
proof -
  have f: "fine bk sha b X C s (pass_time s)" by (rule quiet_fine[OF inv]) simp
  then have t: "engine_inv bk sha (pass_time s)" "\<not> lost (pass_time s)" by (simp_all add: fine_def)
  show ?thesis
    by (rule zcalls_from[OF f])
      (auto simp: admit_tokens_def Let_def checked_add_Some_iff bind_eq_Some_conv
        split: option.split intro!: zcalls_Err[OF t(1)] zcalls_Ok[OF t])
qed

text \<open>What a session takes over from the prefix that the lookup found.\<close>

lemma attach_prefix_fields:
  "ms_tokens (attach_prefix prefix s m) = ms_tokens m" "ms_request (attach_prefix prefix s m) = ms_request m"
  "ms_stage (attach_prefix prefix s m) = ms_stage m" "ms_generated (attach_prefix prefix s m) = ms_generated m"
  "ms_finished (attach_prefix prefix s m) = ms_finished m" "ms_active (attach_prefix prefix s m) = ms_active m"
  "ms_context (attach_prefix prefix s m) = ms_context m" "ms_sampler (attach_prefix prefix s m) = ms_sampler m"
  "ms_evaluated (attach_prefix prefix s m) = (case prefix of None \<Rightarrow> 0 | Some p \<Rightarrow> ep_end p)"
  by (simp_all add: attach_prefix_def Let_def)

definition attached :: "('q, 's) Backend \<Rightarrow> 's MappedSession \<Rightarrow> bool" where
  "attached bk m \<longleftrightarrow> ms_evaluated m \<le> length (ms_tokens m) \<and>
     (\<forall>d. ms_next m = Some d \<longrightarrow> d = bk_result bk (fed bk (take (ms_evaluated m) (ms_tokens m))))"

lemma zcalls_open_context:
  fixes s :: "'q MappedState"
  assumes inv: "engine_inv bk sha s" "\<not> lost s" and room: "next_context (me_logical s) + 1 < 2 ^ 64"
  shows "zcalls bk sha b X C s (open_context sha (m, s)) (\<lambda>(k, prefix) m' t. k = next_context (me_logical s) \<and>
    describes t k (ms_tokens m) \<and> attached bk m' \<and> (\<exists>pf (u :: 'q MappedState). m' = attach_prefix prefix u (m\<lparr>ms_prefill := pf\<rparr>)) \<and>
    (\<forall>p. prefix = Some p \<longrightarrow> cat (mappings (me_logical t)) (ep_id p) = Some p \<and>
      seq_list (ep_sequence p) = take (ms_evaluated m') (ms_tokens m)))"
proof -
  obtain l k where c: "cs_create (seq_append sha seq_default (ms_tokens m)) (me_model_epoch s) ADAPTER_EPOCH (me_logical s) = (l, k)"
    by (cases "cs_create (seq_append sha seq_default (ms_tokens m)) (me_model_epoch s) ADAPTER_EPOCH (me_logical s)")
  note k = create_change[OF inv(1) c room]
  let ?s = "s\<lparr>me_logical := l\<rparr>"
  have s1: "engine_inv bk sha ?s" "\<not> lost ?s" and f1: "fine bk sha b X C s ?s"
    using k(1)[where b = b and X = X and C = C] inv(2) by (simp_all add: fine_def)
  have f2: "fine bk sha b X C ?s (pass_time ?s)" by (rule quiet_fine[OF s1]) simp
  have t: "engine_inv bk sha (pass_time ?s)" "\<not> lost (pass_time ?s)" using f2 by (simp_all add: fine_def)
  have q: "quiet ?s (pass_time ?s)" by simp
  have d: "describes (pass_time ?s) k (ms_tokens m)" using k(2) quiet_owns(2)[OF q] by simp
  from d obtain x where x: "map_of (contexts l) k = Some x" "seq_list (ctx_tokens x) = ms_tokens m"
    by (auto simp: describes_def pass_time_def)
  have store: "store_inv sha l" using engine_store_inv[OF s1(1)] by simp
  show ?thesis
  proof (cases "longest_valid_prefix l k")
    case (Ok prefix)
    let ?m0 = "m\<lparr>ms_prefill := (ms_prefill m)\<lparr>pf_prefix_lookup_ns := elapsed ?s\<rparr>\<rparr>"
    let ?m = "attach_prefix prefix ?s ?m0"
    have eq: "open_context sha (m, s) = ((?m, pass_time ?s), Ok (k, prefix))"
      using c Ok by (simp add: open_context_def Let_def state_error_def)
    have p: "cat (mappings l) (ep_id p) = Some p \<and> ep_end p \<le> length (ms_tokens m) \<and>
        seq_list (ep_sequence p) = take (ep_end p) (ms_tokens m)" if "prefix = Some p" for p
      using longest_tokens[OF store x(1)] Ok that x(2) by auto
    have "d = bk_result bk (fed bk (take (ms_evaluated ?m) (ms_tokens m)))" if nx: "ms_next ?m = Some d" for d
    proof -
      from nx obtain p r where pr: "prefix = Some p" "map_of (me_resident ?s) (ep_id p) = Some r" "d = rz_continuation r"
        by (auto simp: attach_prefix_def Let_def bind_eq_Some_conv)
      with resident_of[OF s1(1) pr(2)] p[OF pr(1)] show ?thesis by (auto simp: resident_ok_def attach_prefix_fields)
    qed
    moreover have "ms_evaluated ?m \<le> length (ms_tokens m)" using p by (auto simp: attach_prefix_fields split: option.split)
    ultimately have a: "attached bk ?m" by (simp add: attached_def attach_prefix_fields)
    have e: "\<exists>pf (u :: 'q MappedState). ?m = attach_prefix prefix u (m\<lparr>ms_prefill := pf\<rparr>)" by (intro exI) (rule refl)
    show ?thesis unfolding eq
      by (rule zcalls_from[OF fine_trans[OF f1 f2]], rule zcalls_Ok[OF t])
        (use k(3) d a p e in \<open>auto simp: attach_prefix_fields pass_time_def\<close>)
  next
    case (Err e)
    then have "open_context sha (m, s) = ((m, ?s), Err (StateError (cs_display e)))"
      using c by (simp add: open_context_def Let_def state_error_def)
    then show ?thesis by (simp add: zcalls_from[OF f1] zcalls_Err[OF s1(1)])
  next
    case Abort
    then have "snd (open_context sha (m, s)) = Abort" using c by (simp add: open_context_def Let_def state_error_def and_then_def)
    then show ?thesis by (simp add: zcalls_def runs_def)
  qed
qed

context mapped_backend
begin

lemma zcalls_prepare:
  assumes inv: "engine_inv bk sha s" "\<not> lost s" and room: "next_context (me_logical s) + 1 < 2 ^ 64"
    and stage: "ms_stage m = StagePreparation" and data: "session_data bk engine m"
  shows "zcalls bk sha (ex_epoch (me_executor s)) {} {} s (prepare_session bk sha engine (m, s)) (step_ok bk engine s m)"
proof -
  let ?b = "ex_epoch (me_executor s)"
  show ?thesis unfolding prepare_session_def
  proof (rule zcalls_call, rule calls_control[OF inv], goal_cases)
    case (1 x1 s1)
    then have s1: "engine_inv bk sha s1" "\<not> lost s1" and k1: "me_logical s1 = me_logical s" "me_executor s1 = me_executor s"
      by (auto simp: quiet_def same_aside_def)
    show ?case unfolding fst_conv
    proof (rule zcalls_call, rule calls_ask[OF s1], goal_cases)
      case (1 prompt s2)
      then have s2: "engine_inv bk sha s2" "\<not> lost s2" and k2: "me_logical s2 = me_logical s" "me_executor s2 = me_executor s"
        and tok: "bk_tokenize bk (er_prompt (ms_request m)) = Ok prompt"
        using k1 by (auto simp: same_aside_def)
      have input: "request_input bk (ms_request m) = map word_of_int (er_prior_tokens (ms_request m)) @ prompt"
        by (simp add: request_input_def tok)
      show ?case
      proof (rule zcalls_call, rule calls_control[OF s2], goal_cases)
        case (1 x3 s3)
        then have s3: "engine_inv bk sha s3" "\<not> lost s3" and k3: "me_logical s3 = me_logical s" "me_executor s3 = me_executor s"
          using k2 by (auto simp: quiet_def same_aside_def)
        show ?case
        proof (rule zcalls_bind[OF zcalls_admit[OF s3]], goal_cases)
          case (1 x4 m4 s4)
          then obtain pf n where m4: "m4 = m\<lparr>ms_prefill := pf, ms_input_tokens := n, ms_tokens := request_input bk (ms_request m)\<rparr>"
            by (auto simp: input)
          from 1 have s4: "engine_inv bk sha s4" "\<not> lost s4" and k4: "me_logical s4 = me_logical s" "me_executor s4 = me_executor s"
            and cap: "length (request_input bk (ms_request m)) + er_max_tokens (ms_request m) \<le> mg_context_capacity engine"
            using k3 by (auto simp: quiet_def same_aside_def input)
          have room4: "next_context (me_logical s4) + 1 < 2 ^ 64" using room k4 by simp
          show ?case
          proof (rule zcalls_bind[OF zcalls_open_context[OF s4 room4]], goal_cases)
            case (1 kp m5 s5)
            obtain k prefix where kp: "kp = (k, prefix)" by (cases kp)
            from 1 kp obtain pf' and u :: "'q MappedState" where m5: "m5 = attach_prefix prefix u (m4\<lparr>ms_prefill := pf'\<rparr>)" by auto
            from 1 kp k4 have s5: "engine_inv bk sha s5" "\<not> lost s5" and b5: "?b \<le> ex_epoch (me_executor s5)"
              and k5: "k = next_context (me_logical s)" and d5: "describes s5 k (ms_tokens m4)" and a5: "attached bk m5"
              and p5: "\<And>p. prefix = Some p \<Longrightarrow> cat (mappings (me_logical s5)) (ep_id p) = Some p \<and>
                seq_list (ep_sequence p) = take (ms_evaluated m5) (ms_tokens m4)"
              using grows_epoch[OF 1(3)] by auto
            have p5a: "prefix = Some p \<Longrightarrow> cat (mappings (me_logical s5)) (ep_id p) = Some p" for p using p5 by blast
            note f5 = attach_prefix_fields[of prefix u "m4\<lparr>ms_prefill := pf'\<rparr>", folded m5]
            show ?case unfolding kp prod.case Let_def
            proof (rule zcalls_call, rule calls_activate_prefix[OF s5 b5], erule p5a, goal_cases)
              case (1 x6 s6)
              have ts: "(case prefix of None \<Rightarrow> [] | Some p \<Rightarrow> seq_list (ep_sequence p)) = take (ms_evaluated m5) (ms_tokens m5)"
                using p5 f5 by (auto split: option.split)
              with 1 have s6: "engine_inv bk sha s6" "\<not> lost s6" and g6: "grows ?b {} {} s5 s6"
                and h6: "holds bk (me_executor s6) (ex_active (me_executor s6)) (take (ms_evaluated m5) (ms_tokens m5))" by auto
              show ?case unfolding snd_conv
              proof (rule zcalls_call, rule calls_fork[OF s6], goal_cases)
                case (1 h s7)
                then have s7: "engine_inv bk sha s7" "\<not> lost s7" and g7: "grows ?b {} {} s6 s7" and sm: "same_aside s6 s7"
                  and h: "ex_epoch (me_executor s6) < h" "h \<noteq> me_root s6" "h \<notin> natives s6"
                  and hh: "holds bk (me_executor s7) h (take (ms_evaluated m5) (ms_tokens m5))" using h6 by auto
                have "owns bk s7 h (take (ms_evaluated m5) (ms_tokens m5))"
                  using h hh sm by (auto simp: owns_def same_aside_def natives_def)
                then have own: "owns bk (pass_time s7) h (take (ms_evaluated m5) (ms_tokens m5))"
                  by (simp add: quiet_owns(1)[OF quiet_time])
                have des: "describes (pass_time s7) k (ms_tokens m5)"
                  using describes_grow[OF describes_grow[OF d5 g6] g7] f5 by (simp add: quiet_owns[OF quiet_time])
                have young: "?b < h" using h(1) b5 grows_epoch[OF g6] by linarith
                have gen: "ms_generated m = 0" "ms_finished m = None" "er_prefill_chunk_tokens (ms_request m) \<noteq> 0" using data stage by (simp_all add: session_data_def)
                have "length (request_input bk (ms_request m)) + er_max_tokens (ms_request m) + 3 - x < mg_context_capacity engine + 4" for x
                  using cap by linarith
                then show ?case unfolding fst_conv snd_conv
                  by (intro zcalls_quiet[OF s7(1) quiet_time s7(2)])
                    (use own des young k5 a5 f5 cap gen m4 in
                      \<open>simp add: step_ok_def session_after_def session_data_def prepared_def session_state_def attached_def steps_left_def stage\<close>)
              qed
            qed
          qed
        qed
      qed
    qed
  qed
qed

end

section \<open>Prefill\<close>

definition own_handles :: "'s MappedSession \<Rightarrow> nat set" where
  "own_handles m = {h. ms_active m = Some h}"

definition own_contexts :: "'s MappedSession \<Rightarrow> nat set" where
  "own_contexts m = {c. ms_context m = Some c}"

lemma owns_same: "same_aside s t \<Longrightarrow> ex_mappings (me_executor t) = ex_mappings (me_executor s) \<Longrightarrow> owns bk t h ts = owns bk s h ts"
  by (auto simp: same_aside_def owns_def holds_def natives_def)

lemma owns_bound: "engine_inv bk sha s \<Longrightarrow> owns bk s h ts \<Longrightarrow> h \<le> ex_epoch (me_executor s)"
  by (auto simp: owns_def engine_inv_def intro: holds_bound)

lemma take_more: "take n xs @ take k (drop n xs) = take (n + length (take k (drop n xs))) xs"
  by (simp add: take_add min_def)

lemma session_after_refl:
  assumes "session_data bk engine m'" "session_state bk t m'" "ms_request m' = ms_request m"
    "ms_active m' = ms_active m \<or> ms_active m' = None" "ms_context m' = ms_context m"
  shows "session_after bk engine s m m' t"
  using assms by (auto simp: session_after_def)

text \<open>A chunk of the prefill is never empty.\<close>

lemma prefill_progress:
  assumes w: "well_sized engine m" and more: "ms_evaluated m < length (ms_tokens m)"
    and cap: "length (ms_tokens m) \<le> mg_context_capacity engine"
  shows "ms_evaluated m < prefill_end engine m"
proof -
  let ?B = "xp_block_size (mg_profile engine)" and ?n = "ms_evaluated m"
  have room: "?n < u64_max" using w more cap by (simp add: well_sized_def)
  have "?n < (?n div ?B + 1) * ?B"
    using w dividend_less_div_times[of ?B ?n] by (simp add: well_sized_def add.commute)
  moreover have "?n < saturating_add ?n (er_prefill_chunk_tokens (ms_request m))"
    using w room by (simp add: well_sized_def saturating_add_def)
  ultimately show ?thesis using more room by (simp add: prefill_end_def Let_def)
qed

context mapped_backend
begin

lemma zcalls_prefill:
  assumes inv: "engine_inv bk sha s" "\<not> lost s"
    and stage: "ms_stage m = StagePrefill" and data: "session_data bk engine m" and state: "session_state bk s m"
  shows "zcalls bk sha (ex_epoch (me_executor s)) (own_handles m) (own_contexts m) s (prefill_session bk sha engine (m, s))
    (step_ok bk engine s m)"
proof (cases "length (ms_tokens m) \<le> ms_evaluated m")
  case True
  then have ev: "ms_evaluated m = length (ms_tokens m)" using data stage by (simp add: session_data_def)
  show ?thesis
  proof (cases "0 < er_max_tokens (ms_request m) \<and> ms_next m = None")
    case True
    with ev show ?thesis by (simp add: prefill_session_def Let_def zcalls_Err[OF inv(1)])
  next
    case False
    have eq: "prefill_session bk sha engine (m, s) =
        and_then (in_state (ask (bk_sampler bk (er_sampling (ms_request m)) (er_grammar (ms_request m)))) (m, s)) (\<lambda>sampler z.
          (((fst z)\<lparr>ms_sampler := Some sampler, ms_stage := StageDecode\<rparr>, snd z), Ok (Progress (model_free Prefill 1))))"
      using False ev unfolding prefill_session_def Let_def by auto
    show ?thesis unfolding eq
    proof (rule zcalls_call, rule calls_ask[OF inv], goal_cases)
      case (1 sampler t)
      then have t: "engine_inv bk sha t" "\<not> lost t" and smp: "bk_sampler bk (er_sampling (ms_request m)) (er_grammar (ms_request m)) = Ok sampler"
        and e: "me_executor t = me_executor s" and sa: "same_aside s t" by auto
      let ?m = "m\<lparr>ms_sampler := Some sampler, ms_stage := StageDecode\<rparr>"
      have prep: "prepared bk engine [] m" using data stage by (simp add: session_data_def)
      then have "reference_output bk (ms_request m) = [] @ generate bk (er_max_tokens (ms_request m) - ms_generated m) sampler (ms_tokens m)"
        by (simp add: reference_output_def smp prepared_def)
      then have "session_data bk engine ?m" using data stage ev False prep unfolding session_data_def
        by (auto simp: prepared_def)
      moreover have "session_state bk t ?m"
        using state owns_same[OF sa] e sa by (auto simp: session_state_def describes_def same_aside_def)
      ultimately have "session_after bk engine s m ?m t" by (rule session_after_refl) simp_all
      then have "step_ok bk engine s m (Progress (model_free Prefill 1)) ?m t"
        by (rule step_ok_running) (simp add: steps_left_def stage)
      then show ?case by (simp add: zcalls_Ok[OF t])
    qed
  qed
next
  case False
  let ?b = "ex_epoch (me_executor s)"
  from data stage obtain h c where h: "ms_active m = Some h" and c: "ms_context m = Some c" by (auto simp: session_data_def)
  from state h c have own: "owns bk s h (take (ms_evaluated m) (ms_tokens m))" and des: "describes s c (ms_tokens m)"
    by (simp_all add: session_state_def)
  have hb: "h \<le> ?b" by (rule owns_bound[OF inv(1) own])
  let ?charged = "prefill_end engine m - ms_evaluated m"
  let ?ts = "take ?charged (drop (ms_evaluated m) (ms_tokens m))"
  have "zcalls bk sha ?b {h} {} s (prefill_session bk sha engine (m, s)) (step_ok bk engine s m)"
    unfolding prefill_session_def Let_def fst_conv if_not_P[OF False]
  proof (rule zcalls_call, rule calls_control[OF inv], goal_cases)
    case (1 x1 s1)
    then have s1: "engine_inv bk sha s1" "\<not> lost s1" and q1: "quiet s s1" by auto
    show ?case
    proof (rule zcalls_call, rule calls_control[OF s1], goal_cases)
      case (1 x2 s2)
      then have s2: "engine_inv bk sha s2" "\<not> lost s2" and q2: "quiet s s2" using quiet_trans[OF q1] by auto
      show ?case unfolding activate_owned_def fst_conv h option.case
      proof (rule zcalls_call, rule calls_activate[OF s2], goal_cases)
        case (1 x3 s3)
        then have s3: "engine_inv bk sha s3" "\<not> lost s3" and active: "ex_active (me_executor s3) = h"
          and e3: "ex_mappings (me_executor s3) = ex_mappings (me_executor s2)" "ex_epoch (me_executor s3) = ex_epoch (me_executor s2)"
          and sa: "same_aside s2 s3" by auto
        have own3: "owns bk s3 h (take (ms_evaluated m) (ms_tokens m))"
          using own by (simp add: owns_same[OF sa e3(1)] quiet_owns(1)[OF q2])
        have des3: "describes s3 c (ms_tokens m)"
          using des sa q2 by (simp add: describes_def same_aside_def quiet_def)
        have b3: "?b \<le> ex_epoch (me_executor s3)" using e3(2) q2 by (simp add: quiet_def)
        show ?case
        proof (rule zcalls_bind[OF zcalls_evaluate[OF s3 b3 hb h c own3 active des3 take_more]], goal_cases)
          case (1 x4 m4 s4)
          then obtain p where m4: "m4 = m\<lparr>ms_next := Some (bk_result bk (fed bk (take (ms_evaluated m + length ?ts) (ms_tokens m)))),
              ms_evaluated := ms_evaluated m + length ?ts, ms_parent := p\<rparr>"
            and own4: "owns bk s4 h (take (ms_evaluated m + length ?ts) (ms_tokens m))" and des4: "describes s4 c (ms_tokens m)"
            by (auto simp: Let_def)
          from 1 have s4: "engine_inv bk sha s4" "\<not> lost s4" by auto
          let ?m = "m4\<lparr>ms_prefill := (ms_prefill m4)\<lparr>pf_uncached_prefill_ns :=
            saturating_add (pf_uncached_prefill_ns (ms_prefill m4)) (elapsed s4)\<rparr>\<rparr>"
          have "session_data bk engine ?m" using data stage False by (auto simp: session_data_def prepared_def m4)
          moreover have "session_state bk (pass_time s4) ?m"
            using own4 des4 h c by (simp add: session_state_def m4 quiet_owns[OF quiet_time])
          ultimately have "session_after bk engine s m ?m (pass_time s4)" by (rule session_after_refl) (simp_all add: m4)
          then have "step_ok bk engine s m (Progress (observed Prefill (max ?charged 1) 0)) ?m (pass_time s4)"
          proof (rule step_ok_running)
            assume "well_sized engine m"
            then have "?ts \<noteq> []" using prefill_progress[of engine m] False data stage by (simp add: session_data_def prepared_def)
            with False show "steps_left engine ?m < steps_left engine m" by (simp add: steps_left_def stage m4)
          qed
          then show ?case unfolding fst_conv snd_conv by (rule zcalls_quiet[OF s4(1) quiet_time s4(2)])
        qed
      qed
    qed
  qed
  then show ?thesis by (rule zcalls_widen) (simp_all add: own_handles_def h)
qed

section \<open>Publication\<close>

text \<open>The output is what the session's tokens are when it finishes.\<close>

lemma zcalls_publish:
  assumes inv: "engine_inv bk sha s" "\<not> lost s" and none: "ms_finished m = None" and state: "session_state bk s m"
    and chunk: "er_prefill_chunk_tokens (ms_request m) \<noteq> 0"
    and part: "ms_tokens m = [] \<or> (\<exists>g g'. ms_tokens m = request_input bk (ms_request m) @ g \<and> reference_output bk (ms_request m) = g @ g')"
  shows "zcalls bk sha b X C s (publish_session bk (m, s)) (\<lambda>output m' t. session_after bk engine s m m' t \<and>
    eo_successor_tokens output = map sint (ms_tokens m) \<and> ms_tokens m' = ms_tokens m)"
  unfolding publish_session_def fst_conv none option.case
proof (rule zcalls_call, rule calls_control[OF inv], goal_cases)
  case (1 x s1)
  then have s1: "engine_inv bk sha s1" "\<not> lost s1" and q1: "quiet s s1" by auto
  have st1: "session_state bk s1 m" using state by (simp add: session_state_def quiet_owns[OF q1])
  let ?m = "m\<lparr>ms_sampler := None, ms_active := None\<rparr>"
  have act: "zcalls bk sha b X C s1 (case ms_active (m\<lparr>ms_sampler := None\<rparr>) of
       None \<Rightarrow> ((m\<lparr>ms_sampler := None\<rparr>, s1), Ok ())
     | Some active \<Rightarrow> (let fallback = parent_native (ms_parent (m\<lparr>ms_sampler := None\<rparr>)) (ex_active (me_executor s1)) s1 in
         if active = fallback then ((m\<lparr>ms_sampler := None\<rparr>\<lparr>ms_active := None\<rparr>, s1), Ok ())
         else in_state (activate_mapping bk fallback) (m\<lparr>ms_sampler := None\<rparr>\<lparr>ms_active := None\<rparr>, s1)))
     (\<lambda>_ m' t. m' = ?m \<and> me_logical t = me_logical s1)"
  proof (cases "ms_active m")
    case None
    then show ?thesis by (auto intro!: zcalls_Ok[OF s1])
  next
    case (Some active)
    have "zcalls bk sha b X C s1 (in_state (activate_mapping bk f) (?m, s1)) (\<lambda>_ m' t. m' = ?m \<and> me_logical t = me_logical s1)" for f
      by (rule zcalls_mono, rule zcalls_in_state, rule calls_activate[OF s1]) (auto simp: same_aside_def)
    with Some show ?thesis by (auto simp: Let_def intro!: zcalls_Ok[OF s1])
  qed
  show ?case unfolding Let_def fst_conv snd_conv
  proof (rule zcalls_bind[OF act[unfolded Let_def]], goal_cases)
    case (1 y m2 s2)
    then have s2: "engine_inv bk sha s2" "\<not> lost s2" and m2: "m2 = ?m" and l2: "me_logical s2 = me_logical s1" by auto
    have q: "quiet s2 (pass_time (s2\<lparr>me_metrics := x\<rparr>))" for x
      by (rule quiet_trans[OF quiet_metrics quiet_time])
    have st: "session_state bk (pass_time (s2\<lparr>me_metrics := x\<rparr>)) (?m\<lparr>ms_prefill := pf, ms_finished := f, ms_stage := g\<rparr>)" for x pf f g
      using st1 by (simp add: session_state_def quiet_owns[OF q] describes_same[OF l2])
    show ?case unfolding m2 fst_conv snd_conv
      by (rule zcalls_quiet[OF s2(1) q s2(2)])
        (use part st chunk in \<open>simp add: session_after_def session_data_def finished_ok_def\<close>)
  qed
qed

end

section \<open>Decoding\<close>

lemma calls_append:
  assumes inv: "engine_inv bk sha s" "\<not> lost s" and d: "describes s c ts"
  shows "calls bk sha b X {c} s (on_logical (cs_append sha c us) s) (\<lambda>_ t. describes t c (ts @ us) \<and> me_executor t = me_executor s \<and>
    me_resident t = me_resident s \<and> me_root t = me_root s)"
proof -
  let ?r = "cs_append sha c us (me_logical s)"
  from d obtain x where x: "map_of (contexts (me_logical s)) c = Some x" "seq_list (ctx_tokens x) = ts" by (auto simp: describes_def)
  show ?thesis
  proof (cases "snd ?r")
    case (Ok u)
    have r: "?r = (fst ?r, Ok u)" using Ok by (metis prod.collapse)
    note k = append_kept[OF engine_store_inv[OF inv(1)] x(1) r]
    have "cs_step sha (me_logical s, []) (fst ?r, [])" by (rule cs_step.step_append) (simp add: Ok)
    then have reach: "reach cs_init (cs_step sha) (fst ?r, [])" using inv(1) by (auto simp: engine_inv_def intro: reach_step)
    have kept: "cat_kept (fst ?r)" using inv(1) k(1) by (auto simp: engine_inv_def intro: cat_kept_same)
    have "map_of (contexts (fst ?r)) j = map_of (contexts (me_logical s)) j" if "j \<notin> {c}" for j using k(4)[of j] that by simp
    then have g: "store_grows {c} (me_logical s) (fst ?r)" using k(1,2) by (auto simp: store_grows_def)
    from logical_change[OF inv(1) reach kept g, of b X] inv(2) k(3) x(2) show ?thesis
      by (auto simp: on_logical_def Let_def state_error_def Ok calls_def fine_def describes_def)
  next
    case (Err e)
    then have "fst ?r = me_logical s" by (auto simp: cs_append_def Let_def split: option.splits if_splits)
    with Err show ?thesis by (simp add: on_logical_def Let_def state_error_def calls_Err[OF inv(1)])
  qed (simp add: on_logical_def Let_def state_error_def calls_Abort)
qed

text \<open>One sampled token is one token of the reference.\<close>

lemma generate_step:
  assumes "bk_sample bk sampler (bk_result bk (fed bk ts)) = (sampler', Ok t)" "n < k"
  shows "generate bk (k - n) sampler ts = (if bk_eog bk t then [t] else t # generate bk (k - Suc n) sampler' (ts @ [t]))"
proof -
  have "k - n = Suc (k - Suc n)" using assms(2) by simp
  with assms(1) show ?thesis by simp
qed

context mapped_backend
begin

lemma zcalls_publication:
  assumes inv: "engine_inv bk sha s" "\<not> lost s" and none: "ms_finished m = None" and state: "session_state bk s m"
    and chunk: "er_prefill_chunk_tokens (ms_request m) \<noteq> 0"
    and prep: "prepared bk engine (reference_output bk (ms_request m)) m"
  shows "zcalls bk sha b X C s (and_then (publish_session bk (m, s)) (\<lambda>output z. (z, Ok (Finished output)))) (step_ok bk engine s m)"
proof -
  have part: "ms_tokens m = [] \<or> (\<exists>g g'. ms_tokens m = request_input bk (ms_request m) @ g \<and> reference_output bk (ms_request m) = g @ g')"
    using prep by (auto simp: prepared_def)
  show ?thesis
    by (rule zcalls_bind[OF zcalls_publish[OF inv none state chunk part]])
      (use prep in \<open>auto simp: prepared_def step_ok_def intro!: zcalls_Ok\<close>)
qed

lemma zcalls_sample:
  assumes inv: "engine_inv bk sha s" "\<not> lost s" and smp: "ms_sampler m = Some sampler"
  shows "zcalls bk sha b X C s (sample_next bk (m, s)) (\<lambda>t m' u. \<exists>d sampler'. ms_next m = Some d \<and>
    bk_sample bk sampler d = (sampler', Ok t) \<and> m' = m\<lparr>ms_sampler := Some sampler'\<rparr> \<and> same_aside s u \<and> me_executor u = me_executor s)"
proof (cases "ms_next m")
  case None
  then show ?thesis by (simp add: sample_next_def smp zcalls_Abort)
next
  case (Some d)
  obtain sampler' answer where r: "bk_sample bk sampler d = (sampler', answer)" by (cases "bk_sample bk sampler d")
  have "zcalls bk sha b X C s (in_state (ask answer) (m0, s)) (\<lambda>t m' u. m' = m0 \<and> (same_aside s u \<and> (answer = Ok t \<and>
      me_executor u = me_executor s \<and> next_fault s = None)))" for m0
    by (rule zcalls_in_state, rule calls_ask[OF inv])
  then have "zcalls bk sha b X C s (in_state (ask answer) (if next_fault s = None then m\<lparr>ms_sampler := Some sampler'\<rparr> else m, s))
      (\<lambda>t m' u. \<exists>d sampler'. ms_next m = Some d \<and> bk_sample bk sampler d = (sampler', Ok t) \<and> m' = m\<lparr>ms_sampler := Some sampler'\<rparr> \<and>
        same_aside s u \<and> me_executor u = me_executor s)"
    by (rule zcalls_mono) (use Some r in auto)
  moreover have "sample_next bk (m, s) =
      in_state (ask answer) (if next_fault s = None then m\<lparr>ms_sampler := Some sampler'\<rparr> else m, s)"
    by (simp add: sample_next_def smp Some r Let_def)
  ultimately show ?thesis by simp
qed

text \<open>The end of a decode step, once the sampled token has been appended.\<close>

lemma zcalls_advance:
  assumes inv: "engine_inv bk sha s" "\<not> lost s" and b: "b \<le> ex_epoch (me_executor s)" "h \<le> b"
    and m: "ms_active m = Some h" "ms_context m = Some c" "ms_sampler m = Some sampler" "ms_finished m = None" "ms_stage m = StageDecode"
    and own: "owns bk s h (take (ms_evaluated m) (ms_tokens m))" "ex_active (me_executor s) = h" and des: "describes s c (ms_tokens m)"
    and ev: "length (ms_tokens m) = Suc (ms_evaluated m)" and last: "ms_tokens m = ts @ [t]"
    and nx: "\<And>d. ms_next m = Some d \<Longrightarrow> d = bk_result bk (fed bk (take (ms_evaluated m) (ms_tokens m)))"
    and chunk: "er_prefill_chunk_tokens (ms_request m) \<noteq> 0" and prep: "prepared bk engine (g @ [t]) m"
    and ref: "reference_output bk (ms_request m) = g @ (if terminal then [t]
      else t # generate bk (er_max_tokens (ms_request m) - ms_generated m) sampler (ms_tokens m))"
    and same: "ms_request m = ms_request m0" "ms_active m = ms_active m0" "ms_context m = ms_context m0" and not_fin: "ms_stage m0 \<noteq> StageFinished"
  shows "zcalls bk sha b {h} {} s (and_then
       (if terminal \<or> ms_generated m = er_max_tokens (ms_request m0) then ((m\<lparr>ms_stage := StagePublication\<rparr>, s), Ok ())
        else evaluate_tokens bk sha engine [t] (m, s))
       (\<lambda>_ z. (z, Ok (TokenStep (sint t) piece terminal (observed QuantumKind.Decode 1 0)))))
     (\<lambda>r m' u. (\<forall>output. r \<noteq> Finished output) \<and> session_data bk engine m' \<and> session_state bk u m' \<and> ms_request m' = ms_request m0 \<and>
        ms_active m' = ms_active m0 \<and> ms_context m' = ms_context m0 \<and> steps_left engine m' \<le> steps_left engine m)"
proof (cases "terminal \<or> ms_generated m = er_max_tokens (ms_request m0)")
  case True
  let ?m = "m\<lparr>ms_stage := StagePublication\<rparr>"
  from True ref same have "reference_output bk (ms_request m) = g @ [t]" by auto
  then have "session_data bk engine ?m" using prep m chunk by (simp add: session_data_def prepared_def)
  moreover have "session_state bk s ?m" using own des m nx by (simp add: session_state_def)
  moreover have "steps_left engine ?m \<le> steps_left engine m" by (simp add: steps_left_def m(5))
  ultimately show ?thesis using True same by (simp add: zcalls_Ok[OF inv])
next
  case False
  have one: "take (ms_evaluated m) (ms_tokens m) @ [t] = take (ms_evaluated m + length [t]) (ms_tokens m)"
    using ev last by simp
  show ?thesis unfolding if_not_P[OF False]
  proof (rule zcalls_bind[OF zcalls_evaluate[OF inv b m(1,2) own des one]], goal_cases)
    case (1 x m' u)
    then obtain p where m': "m' = m\<lparr>ms_next := Some (bk_result bk (fed bk (take (ms_evaluated m + 1) (ms_tokens m)))),
        ms_evaluated := ms_evaluated m + 1, ms_parent := p\<rparr>"
      and own': "owns bk u h (take (ms_evaluated m + 1) (ms_tokens m))" and des': "describes u c (ms_tokens m)"
      by (auto simp: Let_def)
    from False have "\<not> terminal" by simp
    with ref have "reference_output bk (ms_request m) = (g @ [t]) @ generate bk (er_max_tokens (ms_request m) - ms_generated m) sampler (ms_tokens m)"
      by simp
    then have "session_data bk engine m'" using prep m ev chunk by (auto simp: session_data_def prepared_def m')
    moreover have "session_state bk u m'" using own' des' m by (simp add: session_state_def m')
    moreover have "steps_left engine m' \<le> steps_left engine m" by (simp add: steps_left_def m(5) m')
    ultimately show ?case using 1 same by (auto simp: m' intro!: zcalls_Ok)
  qed
qed

lemma zcalls_decode:
  assumes inv: "engine_inv bk sha s" "\<not> lost s"
    and stage: "ms_stage m = StageDecode" and data: "session_data bk engine m" and state: "session_state bk s m"
  shows "zcalls bk sha (ex_epoch (me_executor s)) (own_handles m) (own_contexts m) s (decode_session bk sha engine (m, s))
    (step_ok bk engine s m)"
proof -
  let ?b = "ex_epoch (me_executor s)" and ?max = "er_max_tokens (ms_request m)"
  from data stage obtain g sampler h c where prep: "prepared bk engine g m" and smp: "ms_sampler m = Some sampler"
    and ev: "ms_evaluated m = length (ms_tokens m)" and h: "ms_active m = Some h" and c: "ms_context m = Some c"
    and ref: "reference_output bk (ms_request m) = g @ generate bk (?max - ms_generated m) sampler (ms_tokens m)"
    and none: "ms_finished m = None" and chunk: "er_prefill_chunk_tokens (ms_request m) \<noteq> 0" by (auto simp: session_data_def)
  show ?thesis
  proof (cases "?max \<le> ms_generated m")
    case True
    let ?m = "m\<lparr>ms_stage := StagePublication\<rparr>"
    have "prepared bk engine (reference_output bk (ms_request ?m)) ?m" using prep ref True by (simp add: prepared_def)
    then have "zcalls bk sha ?b (own_handles m) (own_contexts m) s (and_then (publish_session bk (?m, s)) (\<lambda>output z. (z, Ok (Finished output))))
        (step_ok bk engine s ?m)"
      by (intro zcalls_publication[OF inv]) (use none state chunk in \<open>simp_all add: session_state_def\<close>)
    then have "zcalls bk sha ?b (own_handles m) (own_contexts m) s (and_then (publish_session bk (?m, s)) (\<lambda>output z. (z, Ok (Finished output))))
        (step_ok bk engine s m)"
    proof (rule zcalls_mono)
      have "well_sized engine ?m = well_sized engine m" "steps_left engine ?m \<le> steps_left engine m"
        by (simp_all add: well_sized_def steps_left_def stage)
      then show "step_ok bk engine s ?m r m' t \<Longrightarrow> step_ok bk engine s m r m' t" for r m' t
        by (auto simp: step_ok_def session_after_def stage)
    qed
    with True show ?thesis by (simp add: decode_session_def Let_def)
  next
    case False
    from state h c have own: "owns bk s h (take (ms_evaluated m) (ms_tokens m))" and des: "describes s c (ms_tokens m)"
      by (simp_all add: session_state_def)
    have hb: "h \<le> ?b" by (rule owns_bound[OF inv(1) own])
    have "zcalls bk sha ?b {h} {c} s (decode_session bk sha engine (m, s)) (\<lambda>r m' t. (\<forall>output. r \<noteq> Finished output) \<and>
        session_data bk engine m' \<and> session_state bk t m' \<and> ms_request m' = ms_request m \<and>
        ms_active m' = ms_active m \<and> ms_context m' = ms_context m \<and> steps_left engine m' < steps_left engine m)"
      unfolding decode_session_def Let_def fst_conv if_not_P[OF False]
    proof (rule zcalls_call, rule calls_control[OF inv], goal_cases)
      case (1 x1 s1)
      then have s1: "engine_inv bk sha s1" "\<not> lost s1" and q1: "quiet s s1" by auto
      show ?case
      proof (rule zcalls_call, rule calls_control[OF s1], goal_cases)
        case (1 x2 s2)
        then have s2: "engine_inv bk sha s2" "\<not> lost s2" and q2: "quiet s s2" using quiet_trans[OF q1] by auto
        show ?case unfolding activate_owned_def fst_conv h option.case
        proof (rule zcalls_call, rule calls_activate[OF s2], goal_cases)
          case (1 x3 s3)
          then have s3: "engine_inv bk sha s3" "\<not> lost s3" and active: "ex_active (me_executor s3) = h"
            and e3: "ex_mappings (me_executor s3) = ex_mappings (me_executor s2)" "ex_epoch (me_executor s3) = ex_epoch (me_executor s2)"
            and sa: "same_aside s2 s3" by auto
          have own3: "owns bk s3 h (take (ms_evaluated m) (ms_tokens m))"
            using own by (simp add: owns_same[OF sa e3(1)] quiet_owns(1)[OF q2])
          have des3: "describes s3 c (ms_tokens m)" using des sa q2 by (simp add: describes_def same_aside_def quiet_def)
          have b3: "?b \<le> ex_epoch (me_executor s3)" using e3(2) q2 by (simp add: quiet_def)
          show ?case
          proof (rule zcalls_bind[OF zcalls_sample[OF s3 smp]], goal_cases)
            case (1 t m4 s4)
            then obtain d sampler' where d: "ms_next m = Some d" and draw: "bk_sample bk sampler d = (sampler', Ok t)"
              and m4: "m4 = m\<lparr>ms_sampler := Some sampler'\<rparr>" by blast
            from 1 have s4: "engine_inv bk sha s4" "\<not> lost s4" and e4: "me_executor s4 = me_executor s3" and sa4: "same_aside s3 s4" by auto
            let ?terminal = "bk_eog bk t"
            have piece: "zcalls bk sha ?b {h} {c} s4 (if ?terminal then ((m4, s4), Ok []) else in_state (ask (bk_render bk t)) (m4, s4))
                (\<lambda>_ m' u. m' = m4 \<and> same_aside s4 u \<and> me_executor u = me_executor s4)"
            proof (cases ?terminal)
              case True
              then show ?thesis by (simp add: zcalls_Ok[OF s4] same_aside_def)
            next
              case False
              have "zcalls bk sha ?b {h} {c} s4 (in_state (ask (bk_render bk t)) (m4, s4))
                  (\<lambda>_ m' u. m' = m4 \<and> same_aside s4 u \<and> me_executor u = me_executor s4)"
                by (rule zcalls_mono, rule zcalls_in_state, rule calls_ask[OF s4]) auto
              with False show ?thesis by simp
            qed
            show ?case
            proof (rule zcalls_bind[OF piece], goal_cases)
              case (1 rendered m5 s5)
              then have s5: "engine_inv bk sha s5" "\<not> lost s5" and m5: "m5 = m4" and e5: "me_executor s5 = me_executor s3"
                and sa5: "same_aside s3 s5" using e4 same_aside_trans[OF sa4] by auto
              show ?case unfolding m5
              proof (rule zcalls_call, rule calls_control[OF s5], goal_cases)
                case (1 x6 s6)
                then have s6: "engine_inv bk sha s6" "\<not> lost s6" and e6: "me_executor s6 = me_executor s3" and sa6: "same_aside s3 s6"
                  using e5 same_aside_trans[OF sa5] by (auto simp: quiet_def)
                have own6: "owns bk s6 h (take (ms_evaluated m) (ms_tokens m))" using own3 by (simp add: owns_same[OF sa6] e6)
                have des6: "describes s6 c (ms_tokens m)" using des3 sa6 by (simp add: describes_def same_aside_def)
                have c4: "ms_context (m4\<lparr>ms_tokens := ms_tokens m4 @ [t]\<rparr>) = Some c" by (simp add: m4 c)
                show ?case unfolding fst_conv snd_conv c4 option.case
                proof (rule zcalls_call, rule calls_append[OF s6 des6], goal_cases)
                  case (1 x7 s7)
                  then have s7: "engine_inv bk sha s7" "\<not> lost s7" and e7: "me_executor s7 = me_executor s3"
                    and des7: "describes s7 c (ms_tokens m @ [t])" and r7: "me_resident s7 = me_resident s6" "me_root s7 = me_root s6"
                    using e6 by auto
                  let ?m0 = "m4\<lparr>ms_tokens := ms_tokens m4 @ [t]\<rparr>"
                  let ?m = "?m0\<lparr>ms_generated := ms_generated ?m0 + 1\<rparr>"
                  have own7: "owns bk s7 h (take (ms_evaluated m) (ms_tokens m))"
                    using own6 e6 e7 r7 by (simp add: owns_def natives_def)
                  have draw': "bk_sample bk sampler (bk_result bk (fed bk (ms_tokens m))) = (sampler', Ok t)"
                    using state d draw ev by (simp add: session_state_def)
                  have lt: "ms_generated m < ?max" using False by simp
                  have gen: "generate bk (?max - ms_generated m) sampler (ms_tokens m) =
                      (if ?terminal then [t] else t # generate bk (?max - Suc (ms_generated m)) sampler' (ms_tokens m @ [t]))"
                    by (rule generate_step[OF draw' lt])
                  have "zcalls bk sha ?b {h} {} s7 (and_then
                       (if ?terminal \<or> ms_generated ?m = ?max then ((?m\<lparr>ms_stage := StagePublication\<rparr>, s7), Ok ())
                        else evaluate_tokens bk sha engine [t] (?m, s7))
                       (\<lambda>_ z. (z, Ok (TokenStep (sint t) rendered ?terminal (observed QuantumKind.Decode 1 0)))))
                     (\<lambda>r m' u. (\<forall>output. r \<noteq> Finished output) \<and> session_data bk engine m' \<and> session_state bk u m' \<and> ms_request m' = ms_request m \<and>
                        ms_active m' = ms_active m \<and> ms_context m' = ms_context m \<and> steps_left engine m' \<le> steps_left engine ?m)" for rendered
                    by (rule zcalls_advance[OF s7, where h = h and c = c and sampler = sampler' and ts = "ms_tokens m" and g = g])
                      (use own7 des7 active e7 b3 hb h c none stage chunk prep ref gen lt ev d state in
                        \<open>simp_all add: m4 prepared_def session_state_def\<close>)
                  then have "zcalls bk sha ?b {h} {c} s7 (and_then
                       (if ?terminal \<or> ms_generated ?m = ?max then ((?m\<lparr>ms_stage := StagePublication\<rparr>, s7), Ok ())
                        else evaluate_tokens bk sha engine [t] (?m, s7))
                       (\<lambda>_ z. (z, Ok (TokenStep (sint t) rendered ?terminal (observed QuantumKind.Decode 1 0)))))
                     (\<lambda>r m' u. (\<forall>output. r \<noteq> Finished output) \<and> session_data bk engine m' \<and> session_state bk u m' \<and> ms_request m' = ms_request m \<and>
                        ms_active m' = ms_active m \<and> ms_context m' = ms_context m \<and> steps_left engine m' \<le> steps_left engine ?m)"
                    by (rule zcalls_widen) simp_all
                  moreover have "steps_left engine ?m < steps_left engine m"
                    using lt by (simp add: steps_left_def stage m4)
                  ultimately show ?case unfolding fst_conv snd_conv h by (elim zcalls_facts) auto
                qed
              qed
            qed
          qed
        qed
      qed
    qed
    then have "zcalls bk sha ?b {h} {c} s (decode_session bk sha engine (m, s)) (step_ok bk engine s m)"
      by (rule zcalls_mono) (simp add: step_ok_def session_after_def)
    then show ?thesis by (rule zcalls_widen) (simp_all add: own_handles_def own_contexts_def h c)
  qed
qed

section \<open>Every call of a session\<close>

lemma zcalls_step:
  assumes inv: "engine_inv bk sha s" "\<not> lost s" and room: "next_context (me_logical s) + 1 < 2 ^ 64"
    and data: "session_data bk engine m" and state: "session_state bk s m"
  shows "zcalls bk sha (ex_epoch (me_executor s)) (own_handles m) (own_contexts m) s (mapped_step bk sha engine (m, s)) (step_ok bk engine s m)"
proof (cases "ms_stage m")
  case StagePreparation
  then show ?thesis using zcalls_widen[OF zcalls_prepare[OF inv room StagePreparation data]] by (simp add: mapped_step_def)
next
  case StagePrefill
  then show ?thesis using zcalls_prefill[OF inv StagePrefill data state] by (simp add: mapped_step_def)
next
  case StageDecode
  then show ?thesis using zcalls_decode[OF inv StageDecode data state] by (simp add: mapped_step_def)
next
  case StagePublication
  then show ?thesis using zcalls_publication[OF inv _ state _] data by (simp add: mapped_step_def session_data_def)
next
  case StageFinished
  then obtain out where "ms_finished m = Some out" using data by (auto simp: session_data_def finished_ok_def)
  then show ?thesis using StageFinished data state
    by (auto simp: mapped_step_def step_ok_def intro!: zcalls_Ok[OF inv] session_after_refl)
qed

lemma zcalls_finish:
  assumes inv: "engine_inv bk sha s" "\<not> lost s"
    and data: "session_data bk engine m" and state: "session_state bk s m"
  shows "zcalls bk sha (ex_epoch (me_executor s)) (own_handles m) (own_contexts m) s (mapped_finish bk (m, s))
    (\<lambda>output m' t. session_after bk engine s m m' t \<and> eo_successor_tokens output = map sint (ms_tokens m'))"
proof (cases "ms_stage m = StageFinished")
  case True
  then obtain out where "ms_finished m = Some out" "eo_successor_tokens out = map sint (ms_tokens m)"
    using data by (auto simp: session_data_def finished_ok_def)
  then show ?thesis using True data state
    by (auto simp: mapped_finish_def publish_session_def intro!: zcalls_Ok[OF inv] session_after_refl)
next
  case False
  then have none: "ms_finished m = None" and chunk: "er_prefill_chunk_tokens (ms_request m) \<noteq> 0"
    using data by (simp_all add: session_data_def)
  have part: "ms_tokens m = [] \<or> (\<exists>g g'. ms_tokens m = request_input bk (ms_request m) @ g \<and> reference_output bk (ms_request m) = g @ g')"
    using data False by (cases "ms_stage m") (auto simp: session_data_def prepared_def)
  show ?thesis unfolding mapped_finish_def
    by (rule zcalls_mono[OF zcalls_publish[OF inv none state chunk part, where engine = engine]]) simp
qed

end

section \<open>The whole system\<close>

definition live :: "('q, 's) MappedSystem \<Rightarrow> nat \<Rightarrow> 's MappedSession \<Rightarrow> bool" where
  "live y k m \<longleftrightarrow> map_of (my_sessions y) k = Some (m, False)"

definition apart :: "'s MappedSession \<Rightarrow> 's MappedSession \<Rightarrow> bool" where
  "apart m n \<longleftrightarrow> own_handles m \<inter> own_handles n = {} \<and> own_contexts m \<inter> own_contexts n = {}"

definition sessions_inv :: "('q, 's) Backend \<Rightarrow> MappedEngine \<Rightarrow> 'q MappedState \<Rightarrow> (nat \<Rightarrow> 's MappedSession \<Rightarrow> bool) \<Rightarrow> bool" where
  "sessions_inv bk engine s alive \<longleftrightarrow> (\<forall>k m. alive k m \<longrightarrow> session_data bk engine m \<and> session_state bk s m) \<and>
     (\<forall>j k m n. alive j m \<longrightarrow> alive k n \<longrightarrow> j \<noteq> k \<longrightarrow> apart m n)"

definition mapped_inv :: "('q, 's) Backend \<Rightarrow> (byte list \<Rightarrow> digest) \<Rightarrow> MappedEngine \<Rightarrow> ('q, 's) MappedSystem \<Rightarrow> bool" where
  "mapped_inv bk sha engine y \<longleftrightarrow> lost (my_state y) \<or>
     engine_inv bk sha (my_state y) \<and> sessions_inv bk engine (my_state y) (live y)"

lemma session_bounds:
  assumes "engine_inv bk sha s" "session_state bk s m"
  shows "h \<in> own_handles m \<Longrightarrow> h \<le> ex_epoch (me_executor s)" "c \<in> own_contexts m \<Longrightarrow> c < next_context (me_logical s)"
proof -
  show "h \<in> own_handles m \<Longrightarrow> h \<le> ex_epoch (me_executor s)"
    using assms owns_bound[OF assms(1)] by (auto simp: own_handles_def session_state_def)
  show "c \<in> own_contexts m \<Longrightarrow> c < next_context (me_logical s)"
    using assms(2) store_inv_context(2)[OF engine_store_inv[OF assms(1)]]
    by (auto simp: own_contexts_def session_state_def describes_def)
qed

lemma session_state_grows:
  assumes inv: "engine_inv bk sha s" and st: "session_state bk s m" and g: "grows (ex_epoch (me_executor s)) X C s t"
    and X: "own_handles m \<inter> X = {}" "own_contexts m \<inter> C = {}"
  shows "session_state bk t m"
  unfolding session_state_def
proof (intro conjI allI impI)
  fix h assume h: "ms_active m = Some h"
  then have own: "owns bk s h (take (ms_evaluated m) (ms_tokens m))" using st by (simp add: session_state_def)
  have "h \<notin> X" using h X(1) by (auto simp: own_handles_def)
  then show "owns bk t h (take (ms_evaluated m) (ms_tokens m))"
    by (rule owns_grow[OF own g _ owns_bound[OF inv own]])
next
  fix c assume c: "ms_context m = Some c"
  then have d: "describes s c (ms_tokens m)" using st by (simp add: session_state_def)
  have "c \<notin> C" using c X(2) by (auto simp: own_contexts_def)
  then show "describes t c (ms_tokens m)" by (rule describes_grow[OF d g])
next
  fix d assume "ms_next m = Some d"
  then show "d = bk_result bk (fed bk (take (ms_evaluated m) (ms_tokens m)))" using st by (simp add: session_state_def)
qed

text \<open>One session has made a call and is as \<open>new\<close> says, unless it failed.\<close>

lemma sessions_inv_call:
  assumes inv: "engine_inv bk sha s" and all: "sessions_inv bk engine s alive"
    and g: "grows (ex_epoch (me_executor s)) (own_handles m) (own_contexts m) s t" and m: "alive k m"
    and alive': "\<And>j n. alive' j n \<Longrightarrow> (if j = k then session_after bk engine s m n t else alive j n)"
  shows "sessions_inv bk engine t alive'"
  unfolding sessions_inv_def
proof (intro conjI allI impI)
  fix j n assume n: "alive' j n"
  show "session_data bk engine n"
  proof (cases "j = k")
    case True
    with alive'[OF n] show ?thesis by (simp add: session_after_def)
  next
    case False
    with alive'[OF n] all show ?thesis by (simp add: sessions_inv_def)
  qed
  show "session_state bk t n"
  proof (cases "j = k")
    case True
    with alive'[OF n] show ?thesis by (simp add: session_after_def)
  next
    case False
    with alive'[OF n] have an: "alive j n" by simp
    with all have st: "session_state bk s n" by (simp add: sessions_inv_def)
    have "apart n m" using all an m False unfolding sessions_inv_def by blast
    then show ?thesis by (intro session_state_grows[OF inv st g]) (simp_all add: apart_def)
  qed
next
  have new: "apart n n'" if n: "alive' k n" and n': "alive' i n'" and ne: "i \<noteq> k" for i n n'
  proof -
    have sa: "session_after bk engine s m n t" using alive'[OF n] by simp
    have an: "alive i n'" using alive'[OF n'] ne by simp
    have st: "session_state bk s n'" and ap: "apart m n'" using all an m ne unfolding sessions_inv_def by blast+
    note bound = session_bounds[OF inv st]
    have "h \<notin> own_handles n'" if h: "h \<in> own_handles n" for h
      using sa h ap bound(1)[of h] by (auto simp: session_after_def apart_def own_handles_def)
    moreover have "c \<notin> own_contexts n'" if c: "c \<in> own_contexts n" for c
      using sa c ap bound(2)[of c] by (auto simp: session_after_def apart_def own_contexts_def)
    ultimately show ?thesis by (auto simp: apart_def)
  qed
  fix i j n n' assume n: "alive' i n" and n': "alive' j n'" and ne: "i \<noteq> j"
  show "apart n n'"
  proof (cases "i = k")
    case True
    with new[of n j n'] n n' ne show ?thesis by simp
  next
    case i: False
    show ?thesis
    proof (cases "j = k")
      case True
      with new[of n' i n] n n' i have "apart n' n" by simp
      then show ?thesis by (auto simp: apart_def)
    next
      case False
      have "alive i n" "alive j n'" using alive'[OF n] alive'[OF n'] i False by simp_all
      with all ne show ?thesis unfolding sessions_inv_def by blast
    qed
  qed
qed

lemma after_call_inv:
  assumes inv: "engine_inv bk sha (my_state y)" "sessions_inv bk engine (my_state y) (live y)" and m: "live y k m"
    and r: "zcalls bk sha (ex_epoch (me_executor (my_state y))) (own_handles m) (own_contexts m) (my_state y) r
      (\<lambda>a m' t. session_after bk engine (my_state y) m m' t)" and nabort: "snd r \<noteq> Abort"
  shows "mapped_inv bk sha engine (after_call k r y)"
proof (cases "lost (snd (fst r))")
  case True
  then show ?thesis by (simp add: mapped_inv_def after_call_def)
next
  case False
  let ?t = "snd (fst r)"
  have t: "engine_inv bk sha ?t \<and> grows (ex_epoch (me_executor (my_state y))) (own_handles m) (own_contexts m) (my_state y) ?t \<and>
      (\<not> is_error (snd r) \<longrightarrow> session_after bk engine (my_state y) m (fst (fst r)) ?t)"
    using r nabort False by (cases "snd r") (auto simp: zcalls_def runs_def fine_def good_def is_error_def)
  have "sessions_inv bk engine ?t (live (after_call k r y))"
    by (rule sessions_inv_call[OF inv _ m, where t = ?t])
      (use t in \<open>auto simp: live_def after_call_def split: if_splits\<close>)
  with t show ?thesis by (simp add: mapped_inv_def after_call_def)
qed

end
