(* ===== verification/Mapped_Props.thy ===== *)
theory Mapped_Props
  imports Mapped_Session_Inv
begin

text \<open>
  The mapped engine keeps its invariant in every reachable state, and the properties of the engine that
  follow: cached, shared and spilled prefixes never change an output.
\<close>

declare split_paired_All [simp del] split_paired_Ex [simp del]

section \<open>The invariant holds in every reachable state\<close>

text \<open>Changes that no session notices.\<close>

lemma sessions_inv_fewer:
  assumes inv: "engine_inv bk sha s" and all: "sessions_inv bk engine s alive"
    and g: "grows (ex_epoch (me_executor s)) {} {} s t" and sub: "\<And>j n. alive' j n \<Longrightarrow> alive j n"
  shows "sessions_inv bk engine t alive'"
proof -
  have "session_state bk t n" if "alive j n" for j n
    by (rule session_state_grows[OF inv _ g]) (use all that in \<open>auto simp: sessions_inv_def\<close>)
  with all sub show ?thesis unfolding sessions_inv_def by blast
qed

lemma activate_returns: "snd (activate_mapping bk h s) \<noteq> Abort"
  by (auto simp: on_executor_def Let_def ex_activate_def state_error_def split: option.split executor_error.split)

lemma good_quiet:
  assumes y: "engine_inv bk sha (my_state y)" "sessions_inv bk engine (my_state y) (live y)"
    and g: "good bk sha (ex_epoch (me_executor (my_state y))) {} {} (my_state y) t"
    and z: "my_state z = t" "\<And>j n. live z j n \<Longrightarrow> live y j n"
  shows "mapped_inv bk sha engine z"
  using g sessions_inv_fewer[OF y, where t = t and alive' = "live z"] z
  by (auto simp: mapped_inv_def good_def)

lemma drop_good:
  assumes "engine_inv bk sha s" "\<not> lost s"
  shows "good bk sha b {} {} s (mapped_drop bk (m, s))"
proof (cases "ms_active m")
  case None
  then show ?thesis using assms by (simp add: mapped_drop_def good_def grows_refl)
next
  case (Some active)
  have "good bk sha b {} {} s (fst (activate_mapping bk h s))" for h
    using runs_any[OF calls_good[OF calls_activate[OF assms]] activate_returns] .
  with Some assms show ?thesis by (simp add: mapped_drop_def Let_def good_def grows_refl)
qed

lemma bundled_Ok: "bundled_for_architecture families a = Ok p \<Longrightarrow> xp_block_size p \<noteq> 0"
  by (auto simp: bundled_for_architecture_def profile_validate_def split: list.splits if_splits)

lemma mapped_open_Ok:
  assumes "mapped_open bk cleared opened families path n_ctx capacity epoch spill spill_capacity = Ok (engine, s)"
  shows "xp_block_size (mg_profile engine) \<noteq> 0" "mg_context_capacity engine = n_ctx"
    "s = \<lparr>me_executor = executor_open bk, me_root = 0, me_logical = cs_default, me_physical = pm_new capacity,
       me_model_epoch = epoch, me_resident = [], me_metrics = mapped_metrics_default, me_spill_bytes = 0, me_files = [],
       me_env = \<lparr>en_faults = [], en_checks = [], en_files = [], en_elapsed = []\<rparr>\<rparr>"
proof -
  from assms obtain a ca p where "opened = Ok (a, ca)" "bundled_for_architecture families a = Ok p"
    "engine = \<lparr>mg_profile = p, mg_model_path = path, mg_context_capacity = n_ctx, mg_spill_dir = spill, mg_spill_capacity = spill_capacity\<rparr>"
    and s: "s = \<lparr>me_executor = executor_open bk, me_root = 0, me_logical = cs_default, me_physical = pm_new capacity,
       me_model_epoch = epoch, me_resident = [], me_metrics = mapped_metrics_default, me_spill_bytes = 0, me_files = [],
       me_env = \<lparr>en_faults = [], en_checks = [], en_files = [], en_elapsed = []\<rparr>\<rparr>"
    by (auto simp: mapped_open_def and_then_def state_error_def split: outcome.splits if_splits)
  then show "xp_block_size (mg_profile engine) \<noteq> 0" "mg_context_capacity engine = n_ctx"
    by (simp_all add: bundled_Ok)
  show "s = \<lparr>me_executor = executor_open bk, me_root = 0, me_logical = cs_default, me_physical = pm_new capacity,
       me_model_epoch = epoch, me_resident = [], me_metrics = mapped_metrics_default, me_spill_bytes = 0, me_files = [],
       me_env = \<lparr>en_faults = [], en_checks = [], en_files = [], en_elapsed = []\<rparr>\<rparr>" by (rule s)
qed

lemma mapped_init_sized:
  "mapped_init bk engine y \<Longrightarrow> xp_block_size (mg_profile engine) \<noteq> 0 \<and> mg_context_capacity engine < u64_max"
  using mapped_open_Ok(1,2) by (fastforce simp: mapped_init_def u64_max_def)

context mapped_backend
begin

lemma open_inv:
  assumes "mapped_init bk engine y"
  shows "mapped_inv bk sha engine y"
proof -
  from assms obtain cleared opened families path n_ctx capacity epoch spill spill_capacity where s: "my_sessions y = []"
    and cap: "cap_device_bytes capacity \<le> u64_max" "cap_host_bytes capacity \<le> u64_max"
    and o: "mapped_open bk cleared opened families path n_ctx capacity epoch spill spill_capacity = Ok (engine, my_state y)"
    unfolding mapped_init_def by blast
  note st = mapped_open_Ok(3)[OF o]
  have "reach pm_init pm_step (pm_new capacity)" using cap by (intro reach_init) (auto simp: pm_init_def)
  moreover have "reach cs_init (cs_step sha) (cs_default, [])" by (rule reach_init) (simp add: cs_init_def)
  ultimately have "engine_inv bk sha (my_state y)"
    by (simp add: st engine_inv_def exec_ok_def executor_open_def holds_def cat_kept_default residents_ok_def)
  moreover have "sessions_inv bk engine (my_state y) (live y)" by (simp add: sessions_inv_def live_def s)
  ultimately show ?thesis by (simp add: mapped_inv_def)
qed

lemma session_start_inv:
  assumes y: "mapped_inv bk sha engine y" and st: "mapped_start_session engine request (my_state y) = (s, Ok m)"
  shows "mapped_inv bk sha engine \<lparr>my_state = s, my_sessions = hm_put k (m, False) (my_sessions y)\<rparr>"
proof (cases "lost (my_state y)")
  case True
  then have "lost s" using st
    by (auto simp: mapped_start_session_def and_then_def control_check_def split: list.splits outcome.splits if_splits)
  then show ?thesis by (simp add: mapped_inv_def)
next
  case False
  with y have inv: "engine_inv bk sha (my_state y)" and all: "sessions_inv bk engine (my_state y) (live y)"
    by (simp_all add: mapped_inv_def)
  have m: "m = new_session request" and q: "quiet (my_state y) s" and chunk: "er_prefill_chunk_tokens request \<noteq> 0"
    using st by (auto simp: mapped_start_session_def and_then_def control_check_def quiet_def same_aside_def
        split: list.splits outcome.splits if_splits)
  have new: "session_data bk engine m" "session_state bk s m" "own_handles m = {}" "own_contexts m = {}"
    using chunk by (simp_all add: m new_session_def session_data_def session_state_def own_handles_def own_contexts_def)
  let ?z = "\<lparr>my_state = s, my_sessions = hm_put k (m, False) (my_sessions y)\<rparr>"
  have chg: "engine_inv bk sha s \<and> grows (ex_epoch (me_executor (my_state y))) {} {} (my_state y) s"
    by (rule quiet_change[OF inv q])
  then have old: "sessions_inv bk engine s (live y)" by (intro sessions_inv_fewer[OF inv all]) simp_all
  have z: "live ?z j n \<longleftrightarrow> (if j = k then n = m else live y j n)" for j n by (auto simp: live_def)
  have "apart m n" "apart n m" for n using new(3,4) by (simp_all add: apart_def)
  with old new(1,2) have "sessions_inv bk engine s (live ?z)"
    unfolding sessions_inv_def z by (auto split: if_splits)
  with chg show ?thesis by (simp add: mapped_inv_def)
qed

lemma move_inv:
  assumes mv: "mapped_move bk sha engine y z" and y: "mapped_inv bk sha engine y"
  shows "mapped_inv bk sha engine z"
  using mv
proof (cases rule: mapped_move.cases)
  case (move_environment env)
  have q: "quiet (my_state y) ((my_state y)\<lparr>me_env := env\<rparr>)" by (simp add: quiet_def same_aside_def)
  show ?thesis
  proof (cases "lost (my_state y)")
    case True
    then show ?thesis by (simp add: move_environment mapped_inv_def)
  next
    case False
    with y have inv: "engine_inv bk sha (my_state y)" "sessions_inv bk engine (my_state y) (live y)"
      by (simp_all add: mapped_inv_def)
    have "good bk sha (ex_epoch (me_executor (my_state y))) {} {} (my_state y) ((my_state y)\<lparr>me_env := env\<rparr>)"
      using quiet_change[OF inv(1) q] by (simp add: good_def)
    then show ?thesis by (rule good_quiet[OF inv]) (simp_all add: move_environment live_def)
  qed
next
  case (move_start request s m k)
  then show ?thesis using session_start_inv[OF y] by simp
next
  case (move_step k m r)
  then have inv: "engine_inv bk sha (my_state y)" "sessions_inv bk engine (my_state y) (live y)" "\<not> lost (my_state y)"
    and room: "next_context (me_logical (my_state y)) + 1 < 2 ^ 64" and m: "live y k m"
    using y by (simp_all add: may_call_def mapped_inv_def live_def)
  have d: "session_data bk engine m" "session_state bk (my_state y) m" using inv(2) m by (auto simp: sessions_inv_def)
  have "zcalls bk sha (ex_epoch (me_executor (my_state y))) (own_handles m) (own_contexts m) (my_state y) r
      (\<lambda>a. session_after bk engine (my_state y) m)"
    using zcalls_mono[OF zcalls_step[OF inv(1,3) room d]] move_step(4) by (simp add: step_ok_def)
  then show ?thesis using after_call_inv[OF inv(1,2) m] move_step by simp
next
  case (move_finish k m r)
  then have inv: "engine_inv bk sha (my_state y)" "sessions_inv bk engine (my_state y) (live y)" "\<not> lost (my_state y)" and m: "live y k m"
    using y by (simp_all add: may_call_def mapped_inv_def live_def)
  have d: "session_data bk engine m" "session_state bk (my_state y) m" using inv(2) m by (auto simp: sessions_inv_def)
  have "zcalls bk sha (ex_epoch (me_executor (my_state y))) (own_handles m) (own_contexts m) (my_state y) r
      (\<lambda>a. session_after bk engine (my_state y) m)"
    using zcalls_mono[OF zcalls_finish[OF inv(1,3) d]] move_finish(4) by simp
  then show ?thesis using after_call_inv[OF inv(1,2) m] move_finish by simp
next
  case (move_drop k m failed)
  then have inv: "engine_inv bk sha (my_state y)" "sessions_inv bk engine (my_state y) (live y)" "\<not> lost (my_state y)"
    using y by (simp_all add: may_call_def mapped_inv_def)
  show ?thesis unfolding move_drop(1)
    by (rule good_quiet[OF inv(1,2) drop_good[OF inv(1,3)]]) (auto simp: live_def split: if_splits)
next
  case (move_spill order s r)
  then have inv: "engine_inv bk sha (my_state y)" "sessions_inv bk engine (my_state y) (live y)" "\<not> lost (my_state y)"
    using y by (simp_all add: may_call_def mapped_inv_def)
  have order: "set order \<subseteq> set (spill_candidates (my_state y))" using mset_eq_setD[OF move_spill(3)] by simp
  have "good bk sha (ex_epoch (me_executor (my_state y))) {} {} (my_state y) s"
    using runs_any[OF calls_good[OF calls_spill[OF inv(1,3) order, of "ex_epoch (me_executor (my_state y))" "{}" "{}" engine]]] move_spill by simp
  then show ?thesis unfolding move_spill(1) by (rule good_quiet[OF inv(1,2)]) (simp_all add: live_def)
qed

end

sublocale mapped_backend \<subseteq> mapped: safe_machine "mapped_init bk engine" "mapped_move bk sha engine" "mapped_inv bk sha engine" for sha engine
  by unfold_locales (rule open_inv, assumption, rule move_inv, assumption+)

section \<open>Reachable sessions\<close>

context mapped_backend
begin

lemma reach_engine:
  assumes "mapped_reach bk sha engine y" "\<not> lost (my_state y)"
  shows "engine_inv bk sha (my_state y)" "sessions_inv bk engine (my_state y) (live y)"
  using mapped.reach_inv[OF assms(1)] assms(2) by (simp_all add: mapped_inv_def)

lemma reach_session:
  assumes "mapped_reach bk sha engine y" "\<not> lost (my_state y)" "map_of (my_sessions y) k = Some (m, False)"
  shows "session_data bk engine m" "session_state bk (my_state y) m"
  using reach_engine(2)[OF assms(1,2)] assms(3) by (auto simp: sessions_inv_def live_def)

lemma reach_step_outcome:
  assumes r: "mapped_reach bk sha engine y" and c: "may_call y" and m: "map_of (my_sessions y) k = Some (m, False)"
    and st: "mapped_step bk sha engine (m, my_state y) = (z, Ok a)"
  shows "step_ok bk engine (my_state y) m a (fst z) (snd z)" "engine_inv bk sha (snd z)" "\<not> lost (snd z)"
proof -
  from c have l: "\<not> lost (my_state y)" and room: "next_context (me_logical (my_state y)) + 1 < 2 ^ 64" by (simp_all add: may_call_def)
  from zcalls_step[OF reach_engine(1)[OF r l] l room reach_session[OF r l m]] st
  show "step_ok bk engine (my_state y) m a (fst z) (snd z)" "engine_inv bk sha (snd z)" "\<not> lost (snd z)"
    by (simp_all add: zcalls_def fine_def)
qed

end

lemma reach_sized:
  "mapped_reach bk sha engine y \<Longrightarrow> xp_block_size (mg_profile engine) \<noteq> 0 \<and> mg_context_capacity engine < u64_max"
  by (induction rule: reach.induct) (simp_all add: mapped_init_sized)

section \<open>A concrete engine\<close>

text \<open>The laws hold for a backend that keeps the tokens as its state; the model always continues with the
  token 9. One request of one prompt token is served, one step after the other.\<close>

definition demo_backend :: "(token list, unit) Backend" where
  "demo_backend = \<lparr>bk_empty = [], bk_feed = mock_feed, bk_result = (\<lambda>q. \<lparr>dc_logits = [], dc_token = 9\<rparr>),
     bk_failed = (\<lambda>x q n ts. q), bk_save = mock_save,
     bk_load = mock_load, bk_tokenize = (\<lambda>_. Ok [5]), bk_eog = (\<lambda>t. t = 1), bk_render = (\<lambda>t. Ok []),
     bk_sampler = (\<lambda>_ _. Ok ()), bk_sample = (\<lambda>s d. (s, Ok (dc_token d)))\<rparr>"

lemma demo_laws: "mapped_backend demo_backend"
  by unfold_locales (simp_all add: demo_backend_def mock_feed_def mock_load_save)

definition demo_mapped_engine :: MappedEngine where
  "demo_mapped_engine = \<lparr>mg_profile = \<lparr>xp_architecture = ''a'', xp_block_size = 2, xp_required = [ProfileKv, ProfileSwa, ProfileRecurrent]\<rparr>,
     mg_model_path = ''m'', mg_context_capacity = 16, mg_spill_dir = True, mg_spill_capacity = 100\<rparr>"

definition demo_mapped_request :: EngineRequest where
  "demo_mapped_request = \<lparr>er_model = \<lparr>mr_id = [], mr_revision = [], mr_path = ''m'', mr_sha256 = [], mr_aliases = [], mr_family = [],
     mr_size_bytes = 0, mr_epoch = 0\<rparr>, er_prompt = ''x'', er_max_tokens = 1, er_prior_tokens = [],
     er_sampling = \<lparr>sp_temperature = 0, sp_top_p = 0, sp_seed = 0\<rparr>, er_grammar = None, er_control = 0,
     er_scheduling = \<lparr>sm_class = Standard, sm_source = AdapterDefault, sm_principal = [], sm_correlation_id = [], sm_inference_id = []\<rparr>,
     er_prefill_chunk_tokens = 8\<rparr>"

definition demo_mapped_0 :: "(token list, unit) MappedSystem" where
  "demo_mapped_0 = \<lparr>my_state = \<lparr>me_executor = executor_open demo_backend, me_root = 0, me_logical = cs_default,
     me_physical = pm_new \<lparr>cap_device_bytes = 200, cap_host_bytes = 200\<rparr>, me_model_epoch = 1, me_resident = [],
     me_metrics = mapped_metrics_default, me_spill_bytes = 0, me_files = [],
     me_env = \<lparr>en_faults = [], en_checks = [], en_files = [], en_elapsed = []\<rparr>\<rparr>, my_sessions = []\<rparr>"

text \<open>The state in which session 0 is \<open>m\<close>, its mapping holds \<open>ts\<close> and its context \<open>cs\<close>.\<close>

definition demo_mapped_at :: "token list \<Rightarrow> token list \<Rightarrow> nat \<Rightarrow> unit MappedSession \<Rightarrow> (token list, unit) MappedSystem" where
  "demo_mapped_at ts cs revision m = (let s = my_state demo_mapped_0 in
     \<lparr>my_state = s\<lparr>me_executor := \<lparr>ex_mappings = [(0, \<lparr>mg_state = [], mg_position = 0\<rparr>), (2, \<lparr>mg_state = ts, mg_position = length ts\<rparr>)],
         ex_active = 2, ex_epoch = 2, ex_reference_switches = 1, ex_fork_bytes = 0, ex_export_bytes = 0, ex_import_bytes = 0, ex_lost = False\<rparr>,
       me_logical := (fst (cs_create (foldl (seq_append demo_sha) seq_default (map (\<lambda>t. [t]) cs)) 1 0 cs_default))
         \<lparr>contexts := [(0, \<lparr>ctx_id = 0, ctx_tokens = foldl (seq_append demo_sha) seq_default (map (\<lambda>t. [t]) cs), ctx_model_epoch = 1,
           ctx_adapter_epoch = 0, ctx_evaluated = None, ctx_revision = revision\<rparr>)]\<rparr>,
       me_metrics := (me_metrics s)\<lparr>mx_decoded_tokens := length ts\<rparr>\<rparr>,
     my_sessions = [(0, m, False)]\<rparr>)"

definition demo_session_1 :: "unit MappedSession" where
  "demo_session_1 = (new_session demo_mapped_request)\<lparr>ms_stage := StagePrefill, ms_tokens := [5], ms_context := Some 0, ms_active := Some 2,
     ms_input_tokens := 1, ms_evaluated_tokens := 1,
     ms_prefill := prefill_default\<lparr>pf_total_tokens := 1, pf_uncached_tokens := 1\<rparr>\<rparr>"

definition demo_session_2 :: "unit MappedSession" where
  "demo_session_2 = demo_session_1\<lparr>ms_evaluated := 1, ms_next := Some \<lparr>dc_logits = [], dc_token = 9\<rparr>\<rparr>"

definition demo_session_3 :: "unit MappedSession" where
  "demo_session_3 = demo_session_2\<lparr>ms_stage := StageDecode, ms_sampler := Some ()\<rparr>"

definition demo_session_4 :: "unit MappedSession" where
  "demo_session_4 = demo_session_3\<lparr>ms_stage := StagePublication, ms_tokens := [5, 9], ms_generated := 1\<rparr>"

definition demo_mapped_start :: "(token list, unit) MappedSystem" where
  "demo_mapped_start = demo_mapped_0\<lparr>my_sessions := [(0, new_session demo_mapped_request, False)]\<rparr>"

lemma demo_mapped_step_1:
  "mapped_step demo_backend demo_sha demo_mapped_engine (new_session demo_mapped_request, my_state demo_mapped_start) =
     ((demo_session_1, my_state (demo_mapped_at [] [5] 0 demo_session_1)), Ok (Progress (observed Preparation 1 0)))"
  by code_simp

lemma demo_mapped_step_2:
  "mapped_step demo_backend demo_sha demo_mapped_engine (demo_session_1, my_state (demo_mapped_at [] [5] 0 demo_session_1)) =
     ((demo_session_2, my_state (demo_mapped_at [5] [5] 0 demo_session_2)), Ok (Progress (observed Prefill 1 0)))"
  by code_simp

lemma demo_mapped_step_3:
  "mapped_step demo_backend demo_sha demo_mapped_engine (demo_session_2, my_state (demo_mapped_at [5] [5] 0 demo_session_2)) =
     ((demo_session_3, my_state (demo_mapped_at [5] [5] 0 demo_session_3)), Ok (Progress (model_free Prefill 1)))"
  by code_simp

lemma demo_mapped_step_4:
  "mapped_step demo_backend demo_sha demo_mapped_engine (demo_session_3, my_state (demo_mapped_at [5] [5] 0 demo_session_3)) =
     ((demo_session_4, my_state (demo_mapped_at [5] [5, 9] 1 demo_session_4)), Ok (TokenStep 9 [] False (observed QuantumKind.Decode 1 0)))"
  by code_simp

lemma demo_mapped_reach_0: "mapped_reach demo_backend demo_sha demo_mapped_engine demo_mapped_0"
proof (rule reach_init, unfold mapped_init_def, intro conjI exI)
  show "my_sessions demo_mapped_0 = []" by (simp add: demo_mapped_0_def)
  show "mapped_open demo_backend (Ok ()) (Ok (''a'', \<lparr>ca_global_kv = True, ca_swa = True, ca_recurrent = True,
     ca_mapped_execution = True, ca_training_context_tokens = 64\<rparr>)) [mg_profile demo_mapped_engine] ''m'' 16
     \<lparr>cap_device_bytes = 200, cap_host_bytes = 200\<rparr> 1 True 100 = Ok (demo_mapped_engine, my_state demo_mapped_0)"
    by code_simp
qed (simp_all add: u64_max_def)

lemma demo_may_call: "may_call demo_mapped_start" "may_call (demo_mapped_at ts cs n m)"
  by (simp_all add: may_call_def demo_mapped_start_def demo_mapped_at_def demo_mapped_0_def executor_open_def cs_default_def
      cs_create_def Let_def)

lemma demo_after_call: "after_call 0 ((m', my_state (demo_mapped_at ts' cs' n' m')), Ok a) (demo_mapped_at ts cs n m) = demo_mapped_at ts' cs' n' m'"
  by (simp add: after_call_def demo_mapped_at_def is_error_def Let_def)

lemma demo_session_there: "map_of (my_sessions (demo_mapped_at ts cs n m)) 0 = Some (m, False)"
  by (simp add: demo_mapped_at_def Let_def)

lemma demo_mapped_go:
  assumes "mapped_reach demo_backend demo_sha demo_mapped_engine (demo_mapped_at ts cs n m)"
    and "mapped_step demo_backend demo_sha demo_mapped_engine (m, my_state (demo_mapped_at ts cs n m)) =
      ((m', my_state (demo_mapped_at ts' cs' n' m')), Ok r)"
  shows "mapped_reach demo_backend demo_sha demo_mapped_engine (demo_mapped_at ts' cs' n' m')"
  using reach_step[OF assms(1) mapped_move.move_step[OF demo_session_there demo_may_call(2) assms(2)]]
  by (simp add: demo_after_call)

lemma demo_mapped_reach_1: "mapped_reach demo_backend demo_sha demo_mapped_engine (demo_mapped_at [] [5] 0 demo_session_1)"
proof -
  let ?m = "new_session demo_mapped_request :: unit MappedSession"
  have "mapped_start_session demo_mapped_engine demo_mapped_request (my_state demo_mapped_0) = (my_state demo_mapped_0, Ok ?m)"
    by (simp add: mapped_start_session_def control_check_def demo_mapped_0_def demo_mapped_request_def demo_mapped_engine_def)
  then have "mapped_move demo_backend demo_sha demo_mapped_engine demo_mapped_0
      \<lparr>my_state = my_state demo_mapped_0, my_sessions = hm_put 0 (?m, False) (my_sessions demo_mapped_0)\<rparr>"
    by (rule mapped_move.move_start) (simp add: demo_mapped_0_def)
  moreover have "\<lparr>my_state = my_state demo_mapped_0, my_sessions = hm_put 0 (?m, False) (my_sessions demo_mapped_0)\<rparr> = demo_mapped_start"
    by (simp add: demo_mapped_start_def demo_mapped_0_def)
  ultimately have r: "mapped_reach demo_backend demo_sha demo_mapped_engine demo_mapped_start"
    using reach_step[OF demo_mapped_reach_0] by metis
  have there: "map_of (my_sessions demo_mapped_start) 0 = Some (?m, False)" by (simp add: demo_mapped_start_def)
  from reach_step[OF r mapped_move.move_step[OF there demo_may_call(1) demo_mapped_step_1]]
  show ?thesis by (simp add: after_call_def demo_mapped_start_def demo_mapped_at_def is_error_def Let_def)
qed

lemmas demo_mapped_reach_2 = demo_mapped_go[OF demo_mapped_reach_1 demo_mapped_step_2]
lemmas demo_mapped_reach_3 = demo_mapped_go[OF demo_mapped_reach_2 demo_mapped_step_3]
lemmas demo_mapped_reach_4 = demo_mapped_go[OF demo_mapped_reach_3 demo_mapped_step_4]

lemma demo_mapped_finished:
  "case mapped_step demo_backend demo_sha demo_mapped_engine (demo_session_4, my_state (demo_mapped_at [5] [5, 9] 1 demo_session_4)) of
     (z, Ok (Finished r)) \<Rightarrow> eo_successor_tokens r = [5, 9] | _ \<Rightarrow> False"
  by code_simp

lemma demo_not_lost: "\<not> ex_lost (me_executor (my_state (demo_mapped_at ts cs n m)))"
  by (simp add: demo_mapped_at_def Let_def)

section \<open>Properties\<close>

text \<open>C1: The mapped engine never changes what the model says. In every reachable state, when a step of a
  session that is not finished yet returns its output, the tokens of the output are the prior tokens and the
  prompt followed by the reference generation, however much of them came from cached prefixes, was forked
  from shared mappings or read back from spilled files, and whatever other sessions did in between.\<close>

theorem mapped_output_is_reference:
  assumes "mapped_backend bk" and "mapped_reach bk sha engine y" and "may_call y"
    and "map_of (my_sessions y) k = Some (m, False)" and "ms_stage m \<noteq> StageFinished"
    and "mapped_step bk sha engine (m, my_state y) = (z, Ok (Finished r))"
  shows "eo_successor_tokens r = map sint (request_input bk (ms_request m) @ reference_output bk (ms_request m))"
  using mapped_backend.reach_step_outcome(1)[OF assms(1-4) assms(6)] assms(5) by (simp add: step_ok_def)

theorem mapped_output_is_reference_witness:
  "\<exists>z r. mapped_step demo_backend demo_sha demo_mapped_engine (demo_session_4, my_state (demo_mapped_at [5] [5, 9] 1 demo_session_4)) =
     (z, Ok (Finished r)) \<and> eo_successor_tokens r = [5, 9] \<and>
     eo_successor_tokens r = map sint (request_input demo_backend (ms_request demo_session_4) @ reference_output demo_backend (ms_request demo_session_4))"
proof -
  let ?s = "mapped_step demo_backend demo_sha demo_mapped_engine (demo_session_4, my_state (demo_mapped_at [5] [5, 9] 1 demo_session_4))"
  from demo_mapped_finished obtain z r where s: "?s = (z, Ok (Finished r))" and r: "eo_successor_tokens r = [5, 9]"
    by (auto split: prod.splits outcome.splits SessionStep.splits)
  have st: "ms_stage demo_session_4 \<noteq> StageFinished" by (simp add: demo_session_4_def)
  from mapped_output_is_reference[OF demo_laws demo_mapped_reach_4 demo_may_call(2) demo_session_there st s] s r
  show ?thesis by blast
qed

text \<open>At every moment the tokens of a session that has not failed are a part of what it will return: none yet,
  or its input followed by a beginning of the reference generation.\<close>

theorem mapped_tokens_follow_reference:
  assumes "mapped_backend bk" and "mapped_reach bk sha engine y" and "\<not> ex_lost (me_executor (my_state y))"
    and "map_of (my_sessions y) k = Some (m, False)"
  shows "ms_tokens m = [] \<or> (\<exists>g g'. ms_tokens m = request_input bk (ms_request m) @ g \<and> reference_output bk (ms_request m) = g @ g')"
proof -
  have "session_data bk engine m" by (rule mapped_backend.reach_session(1)[OF assms])
  then show ?thesis by (cases "ms_stage m") (auto simp: session_data_def prepared_def finished_ok_def)
qed

theorem mapped_tokens_follow_reference_witness:
  "ms_tokens demo_session_4 = [] \<or> (\<exists>g g'. ms_tokens demo_session_4 = request_input demo_backend (ms_request demo_session_4) @ g \<and>
     reference_output demo_backend (ms_request demo_session_4) = g @ g')"
  by (rule mapped_tokens_follow_reference[OF demo_laws demo_mapped_reach_4 demo_not_lost demo_session_there])





text \<open>The engine uses its parts within their contracts: in every reachable state its context store and its physical
  manager are reachable states of their own machines, so every invariant proved for them holds inside the engine.\<close>

theorem mapped_refines_components:
  assumes "mapped_backend bk" and "mapped_reach bk sha engine y" and "\<not> ex_lost (me_executor (my_state y))"
  shows "reach cs_init (cs_step sha) (me_logical (my_state y), []) \<and> reach pm_init pm_step (me_physical (my_state y))"
  using mapped_backend.reach_engine(1)[OF assms] by (simp add: engine_inv_def)

theorem mapped_refines_components_witness:
  "reach cs_init (cs_step demo_sha) (me_logical (my_state (demo_mapped_at [5] [5, 9] 1 demo_session_4)), [])"
  by (rule mapped_refines_components[OF demo_laws demo_mapped_reach_4 demo_not_lost, THEN conjunct1])

text \<open>C4: A session terminates: a step that succeeds and does not return the output makes \<open>steps_left\<close> smaller, and
  \<open>steps_left\<close> is at most the context capacity of the engine plus four, so no session takes more steps than that.\<close>

theorem mapped_session_terminates:
  assumes "mapped_backend bk" and "mapped_reach bk sha engine y" and "may_call y"
    and "map_of (my_sessions y) k = Some (m, False)"
    and "mapped_step bk sha engine (m, my_state y) = ((m', s'), Ok r)"
  shows "(case r of Finished r' \<Rightarrow> True | _ \<Rightarrow> steps_left engine m' < steps_left engine m) \<and>
    steps_left engine m \<le> mg_context_capacity engine + 4"
proof -
  have l: "\<not> ex_lost (me_executor (my_state y))" using assms(3) by (simp add: may_call_def)
  have data: "session_data bk engine m" by (rule mapped_backend.reach_session(1)[OF assms(1,2) l assms(4)])
  have "well_sized engine m" using reach_sized[OF assms(2)] data by (simp add: well_sized_def session_data_def)
  with mapped_backend.reach_step_outcome(1)[OF assms] have "(\<forall>r'. r \<noteq> Finished r') \<longrightarrow> steps_left engine m' < steps_left engine m"
    by (simp add: step_ok_def)
  moreover have "steps_left engine m \<le> mg_context_capacity engine + 4"
    using data by (cases "ms_stage m") (auto simp: steps_left_def session_data_def prepared_def Let_def)
  ultimately show ?thesis by (auto split: SessionStep.split)
qed

theorem mapped_session_terminates_witness: "steps_left demo_mapped_engine demo_session_3 < steps_left demo_mapped_engine demo_session_2"
  using mapped_session_terminates[OF demo_laws demo_mapped_reach_2 demo_may_call(2) demo_session_there demo_mapped_step_3]
  by (simp add: model_free_def)

text \<open>C5: A session never holds more tokens than the model's context has room for: those it has, and those it may
  still generate, fit the context capacity of the engine.\<close>

theorem mapped_capacity_respected:
  assumes "mapped_backend bk" and "mapped_reach bk sha engine y" and "\<not> ex_lost (me_executor (my_state y))"
    and "map_of (my_sessions y) k = Some (m, False)" and "ms_stage m = StagePrefill \<or> ms_stage m = StageDecode \<or> ms_stage m = StagePublication"
  shows "length (ms_tokens m) + (er_max_tokens (ms_request m) - ms_generated m) \<le> mg_context_capacity engine \<and>
    ms_generated m \<le> er_max_tokens (ms_request m)"
proof -
  have "session_data bk engine m" by (rule mapped_backend.reach_session(1)[OF assms(1-4)])
  with assms(5) show ?thesis by (auto simp: session_data_def prepared_def)
qed

theorem mapped_capacity_respected_witness:
  "length (ms_tokens demo_session_4) + (er_max_tokens (ms_request demo_session_4) - ms_generated demo_session_4)
     \<le> mg_context_capacity demo_mapped_engine"
  by (rule mapped_capacity_respected[OF demo_laws demo_mapped_reach_4 demo_not_lost demo_session_there, THEN conjunct1])
    (simp add: demo_session_4_def)

end
