(* ===== verification/Rust_Text.thy ===== *)
theory Rust_Text
  imports Token_Sequence
begin

text \<open>
  UTF-8 as Rust's standard library reads it. A text is the list of its Unicode scalar values. Decoding
  goes one sequence at a time: a scalar value with its width, an invalid sequence with the length the
  library reports for it (\<open>Utf8Error::error_len\<close>), or a sequence the input ends inside of.
\<close>

type_synonym unicode = "int list"

datatype utf8_step = Scalar int nat | Invalid nat | Incomplete

definition continuation :: "byte \<Rightarrow> bool" where
  "continuation b \<longleftrightarrow> 0x80 \<le> b \<and> b < 0xC0"

text \<open>The last six bits.\<close>

definition tail_bits :: "byte \<Rightarrow> int" where
  "tail_bits b = uint b - 0x80"

fun utf8_two :: "byte \<Rightarrow> byte list \<Rightarrow> utf8_step" where
  "utf8_two a [] = Incomplete"
| "utf8_two a (b # _) = (if continuation b then Scalar ((uint a - 0xC0) * 64 + tail_bits b) 2 else Invalid 1)"

text \<open>The second byte of a longer sequence excludes overlong forms, surrogates and values above U+10FFFF.\<close>

definition second_of_three :: "byte \<Rightarrow> byte \<Rightarrow> bool" where
  "second_of_three a b \<longleftrightarrow> continuation b \<and> (a = 0xE0 \<longrightarrow> 0xA0 \<le> b) \<and> (a = 0xED \<longrightarrow> b < 0xA0)"

fun utf8_three :: "byte \<Rightarrow> byte list \<Rightarrow> utf8_step" where
  "utf8_three a [] = Incomplete"
| "utf8_three a (b # bs) = (if \<not> second_of_three a b then Invalid 1
     else (case bs of [] \<Rightarrow> Incomplete
       | c # _ \<Rightarrow> if continuation c then Scalar ((uint a - 0xE0) * 4096 + tail_bits b * 64 + tail_bits c) 3 else Invalid 2))"

definition second_of_four :: "byte \<Rightarrow> byte \<Rightarrow> bool" where
  "second_of_four a b \<longleftrightarrow> continuation b \<and> (a = 0xF0 \<longrightarrow> 0x90 \<le> b) \<and> (a = 0xF4 \<longrightarrow> b < 0x90)"

fun utf8_four :: "byte \<Rightarrow> byte list \<Rightarrow> utf8_step" where
  "utf8_four a [] = Incomplete"
| "utf8_four a (b # bs) = (if \<not> second_of_four a b then Invalid 1
     else (case bs of [] \<Rightarrow> Incomplete
       | c # cs \<Rightarrow> if \<not> continuation c then Invalid 2
         else (case cs of [] \<Rightarrow> Incomplete
           | d # _ \<Rightarrow> if continuation d
               then Scalar ((uint a - 0xF0) * 262144 + tail_bits b * 4096 + tail_bits c * 64 + tail_bits d) 4
               else Invalid 3)))"

fun utf8_next :: "byte list \<Rightarrow> utf8_step" where
  "utf8_next [] = Incomplete"
| "utf8_next (a # bs) =
     (if a < 0x80 then Scalar (uint a) 1
      else if 0xC2 \<le> a \<and> a < 0xE0 then utf8_two a bs
      else if 0xE0 \<le> a \<and> a < 0xF0 then utf8_three a bs
      else if 0xF0 \<le> a \<and> a < 0xF5 then utf8_four a bs
      else Invalid 1)"

lemma utf8_next_width:
  assumes "utf8_next bs = Scalar c n"
  shows "0 < n \<and> n \<le> 4 \<and> n \<le> length bs"
proof (cases bs)
  case (Cons a xs)
  have "n = 2 \<and> 1 \<le> length xs" if "utf8_two a xs = Scalar c n" using that by (cases xs) (auto split: if_splits)
  moreover have "n = 3 \<and> 2 \<le> length xs" if "utf8_three a xs = Scalar c n"
    using that by (cases xs) (auto split: if_splits list.splits)
  moreover have "n = 4 \<and> 3 \<le> length xs" if "utf8_four a xs = Scalar c n"
    using that by (cases xs) (auto split: if_splits list.splits)
  ultimately show ?thesis using assms Cons by (auto split: if_splits)
qed (use assms in simp)

lemma utf8_next_invalid:
  assumes "utf8_next bs = Invalid n"
  shows "0 < n \<and> n \<le> 3 \<and> n \<le> length bs"
proof (cases bs)
  case (Cons a xs)
  have "n = 1" if "utf8_two a xs = Invalid n" using that by (cases xs) (auto split: if_splits)
  moreover have "(n = 1 \<or> n = 2) \<and> n \<le> length xs + 1" if "utf8_three a xs = Invalid n"
    using that by (cases xs) (auto split: if_splits list.splits)
  moreover have "(n = 1 \<or> n = 2 \<or> n = 3) \<and> n \<le> length xs + 1" if "utf8_four a xs = Invalid n"
    using that by (cases xs) (auto split: if_splits list.splits)
  ultimately show ?thesis using assms Cons by (auto split: if_splits)
qed (use assms in simp)

text \<open>Only a beginning of a sequence is incomplete.\<close>

lemma utf8_next_incomplete:
  assumes "utf8_next bs = Incomplete"
  shows "length bs \<le> 3"
proof (cases bs)
  case (Cons a xs)
  have "xs = []" if "utf8_two a xs = Incomplete" using that by (cases xs) (auto split: if_splits)
  moreover have "length xs \<le> 1" if "utf8_three a xs = Incomplete"
    using that by (cases xs) (auto split: if_splits list.splits)
  moreover have "length xs \<le> 2" if "utf8_four a xs = Incomplete"
    using that by (cases xs) (auto split: if_splits list.splits)
  ultimately show ?thesis using assms Cons by (auto split: if_splits)
qed simp

text \<open>\<open>String::from_utf8_lossy\<close>: every invalid sequence becomes one replacement character.\<close>

function lossy :: "byte list \<Rightarrow> unicode" where
  "lossy bs = (if bs = [] then [] else (case utf8_next bs of
     Scalar c n \<Rightarrow> c # lossy (drop n bs) | Invalid n \<Rightarrow> 0xFFFD # lossy (drop n bs) | Incomplete \<Rightarrow> [0xFFFD]))"
  by pat_completeness auto
termination
  by (relation "measure length") (auto dest: utf8_next_width utf8_next_invalid)

declare lossy.simps [simp del]

text \<open>\<open>str::from_utf8\<close>: how far the input is valid and, when it is not, the length of the sequence that is
  not, or nothing where the input ends too early.\<close>

function utf8_check :: "byte list \<Rightarrow> nat \<times> nat option option" where
  "utf8_check bs = (if bs = [] then (0, None) else (case utf8_next bs of
     Scalar _ n \<Rightarrow> (case utf8_check (drop n bs) of (v, e) \<Rightarrow> (n + v, e))
   | Invalid n \<Rightarrow> (0, Some (Some n)) | Incomplete \<Rightarrow> (0, Some None)))"
  by pat_completeness auto
termination
  by (relation "measure length") (auto dest: utf8_next_width)

declare utf8_check.simps [simp del]

definition utf8_valid :: "byte list \<Rightarrow> bool" where
  "utf8_valid bs = (snd (utf8_check bs) = None)"

section \<open>White space\<close>

text \<open>\<open>char::is_whitespace\<close>, the Unicode property White_Space.\<close>

definition is_whitespace :: "int \<Rightarrow> bool" where
  "is_whitespace c = (9 \<le> c \<and> c \<le> 13 \<or> 0x2000 \<le> c \<and> c \<le> 0x200A \<or>
     c \<in> set [0x20, 0x85, 0xA0, 0x1680, 0x2028, 0x2029, 0x202F, 0x205F, 0x3000])"

definition trim_start :: "unicode \<Rightarrow> unicode" where
  "trim_start t = dropWhile is_whitespace t"

section \<open>Cutting valid text\<close>

text \<open>A complete sequence does not depend on what follows it.\<close>

lemma utf8_next_append:
  "utf8_next bs = Scalar c n \<Longrightarrow> utf8_next (bs @ xs) = Scalar c n"
  "utf8_next bs = Invalid n \<Longrightarrow> utf8_next (bs @ xs) = Invalid n"
proof -
  have two: "utf8_two a (ys @ xs) = utf8_two a ys" if "utf8_two a ys \<noteq> Incomplete" for a ys
    using that by (cases ys) auto
  have three: "utf8_three a (ys @ xs) = utf8_three a ys" if "utf8_three a ys \<noteq> Incomplete" for a ys
    using that by (cases ys) (auto split: list.splits)
  have four: "utf8_four a (ys @ xs) = utf8_four a ys" if "utf8_four a ys \<noteq> Incomplete" for a ys
    using that by (cases ys) (auto split: list.splits)
  show "utf8_next bs = Scalar c n \<Longrightarrow> utf8_next (bs @ xs) = Scalar c n"
    by (cases bs) (auto split: if_splits simp: two three four)
  show "utf8_next bs = Invalid n \<Longrightarrow> utf8_next (bs @ xs) = Invalid n"
    by (cases bs) (auto split: if_splits simp: two three four)
qed

lemma lossy_Nil [simp]: "lossy [] = []"
  by (simp add: lossy.simps)

lemma utf8_valid_Nil [simp]: "utf8_valid []"
  by (simp add: utf8_valid_def utf8_check.simps)

lemma utf8_valid_step:
  "bs \<noteq> [] \<Longrightarrow> utf8_valid bs \<longleftrightarrow> (\<exists>c n. utf8_next bs = Scalar c n \<and> utf8_valid (drop n bs))"
  by (subst utf8_valid_def, subst utf8_check.simps)
    (auto simp: utf8_valid_def split: utf8_step.split prod.split)

lemma lossy_Scalar: "bs \<noteq> [] \<Longrightarrow> utf8_next bs = Scalar c n \<Longrightarrow> lossy bs = c # lossy (drop n bs)"
  by (subst lossy.simps) simp

text \<open>Text that is valid on its own is read the same whatever follows.\<close>

lemma valid_append:
  assumes "utf8_valid a"
  shows "lossy (a @ b) = lossy a @ lossy b \<and> (utf8_valid (a @ b) \<longleftrightarrow> utf8_valid b)"
  using assms
proof (induction a rule: length_induct)
  case (1 a)
  show ?case
  proof (cases "a = []")
    case False
    with 1(2) obtain c n where n: "utf8_next a = Scalar c n" "utf8_valid (drop n a)" by (auto simp: utf8_valid_step)
    with utf8_next_width[OF n(1)] False have "length (drop n a) < length a" "n \<le> length a" by auto
    with 1(1) n(2) have ih: "lossy (drop n a @ b) = lossy (drop n a) @ lossy b" "utf8_valid (drop n a @ b) = utf8_valid b"
      by auto
    have d: "drop n (a @ b) = drop n a @ b" using \<open>n \<le> length a\<close> by simp
    have x: "utf8_next (a @ b) = Scalar c n" using utf8_next_append(1)[OF n(1)] .
    have "lossy (a @ b) = c # lossy (drop n a @ b)" using lossy_Scalar[OF _ x] d False by simp
    moreover have "lossy a = c # lossy (drop n a)" using lossy_Scalar[OF False n(1)] .
    moreover have "utf8_valid (a @ b) = utf8_valid (drop n a @ b)" using utf8_valid_step[of "a @ b"] x d False by auto
    ultimately show ?thesis using ih by simp
  qed simp
qed

section \<open>The complete part of a buffer\<close>

text \<open>\<open>valid_up_to\<close> bytes are valid.\<close>

lemma utf8_check_valid:
  "utf8_valid (take (fst (utf8_check bs)) bs) \<and> fst (utf8_check bs) \<le> length bs"
proof (induction bs rule: utf8_check.induct)
  case (1 bs)
  show ?case
  proof (cases "bs = []")
    case False
    show ?thesis
    proof (cases "utf8_next bs")
      case (Scalar c n)
      let ?v = "fst (utf8_check (drop n bs))"
      have ih: "utf8_valid (take ?v (drop n bs))" "?v \<le> length (drop n bs)" using 1[OF False Scalar] by auto
      have f: "fst (utf8_check bs) = n + ?v" using False Scalar by (subst utf8_check.simps) (simp split: prod.split)
      have w: "0 < n" "n \<le> length bs" using utf8_next_width[OF Scalar] by auto
      have t: "take (n + ?v) bs = take n bs @ take ?v (drop n bs)" by (simp add: take_add)
      have "utf8_next (take n bs) = Scalar c n"
      proof (cases bs)
        case (Cons a xs)
        have t2: "utf8_two a (take (n - Suc 0) xs) = Scalar c n" if "utf8_two a xs = Scalar c n"
          using that by (cases xs) (auto split: if_splits)
        have t3: "utf8_three a (take (n - Suc 0) xs) = Scalar c n" if "utf8_three a xs = Scalar c n"
          using that by (cases xs) (auto split: if_splits list.splits)
        have t4: "utf8_four a (take (n - Suc 0) xs) = Scalar c n" if "utf8_four a xs = Scalar c n"
          using that by (cases xs) (auto split: if_splits list.splits)
        have "take n bs = a # take (n - Suc 0) xs" using Cons w by (cases n) simp_all
        with Scalar Cons show ?thesis by (auto split: if_splits simp: t2 t3 t4)
      qed (use False in simp)
      with w have "utf8_valid (take n bs)" by (subst utf8_valid_step) (use False in auto)
      with ih valid_append[of "take n bs"] t f w show ?thesis by simp
    qed (use False in \<open>simp_all add: utf8_check.simps[of bs]\<close>)
  qed (simp add: utf8_check.simps)
qed

text \<open>Where the input only ends too early, at most three bytes are left over.\<close>

lemma utf8_check_incomplete:
  "snd (utf8_check bs) = Some None \<Longrightarrow> length bs \<le> fst (utf8_check bs) + 3"
proof (induction bs rule: utf8_check.induct)
  case (1 bs)
  show ?case
  proof (cases "bs = []")
    case False
    show ?thesis
    proof (cases "utf8_next bs")
      case (Scalar c n)
      have e: "utf8_check bs = (n + fst (utf8_check (drop n bs)), snd (utf8_check (drop n bs)))"
        using False Scalar by (subst utf8_check.simps) (simp split: prod.split)
      with 1(1)[OF False Scalar] 1(2) show ?thesis by simp
    qed (use False 1(2) in \<open>auto simp: utf8_check.simps[of bs] dest: utf8_next_incomplete\<close>)
  qed simp
qed

text \<open>A prefix of valid text is valid or only ends too early.\<close>

lemma utf8_check_prefix:
  "utf8_valid (bs @ xs) \<Longrightarrow> snd (utf8_check bs) = None \<or> snd (utf8_check bs) = Some None"
proof (induction bs rule: utf8_check.induct)
  case (1 bs)
  show ?case
  proof (cases "bs = []")
    case False
    show ?thesis
    proof (cases "utf8_next bs")
      case (Scalar c n)
      have w: "n \<le> length bs" using utf8_next_width[OF Scalar] by simp
      have "utf8_valid (drop n bs @ xs)"
        using 1(2) utf8_valid_step[of "bs @ xs"] utf8_next_append(1)[OF Scalar, of xs] False w by auto
      from 1(1)[OF False Scalar this] show ?thesis
        using False Scalar by (subst (1 2) utf8_check.simps) (auto split: prod.split)
    next
      case (Invalid n)
      with 1(2) utf8_valid_step[of "bs @ xs"] utf8_next_append(2)[OF Invalid, of xs] False show ?thesis by auto
    qed (use False in \<open>simp add: utf8_check.simps[of bs]\<close>)
  qed (simp add: utf8_check.simps)
qed

end
