(* ===== verification/Generation.thy ===== *)
theory Generation
  imports Rust_Text Server_Types "HOL-Library.Product_Lexorder"
begin

text \<open>
  The generation frontier (\<open>crates/server/src/generation.rs\<close>): it turns the bytes of the sampled tokens
  into text, ends the text at the first stop sequence, and holds back the bytes that a stop sequence or a
  multi-byte character could still begin with. The text goes to a callback that may fail and has a state
  of its own, so a call takes and returns the frontier together with that state.
\<close>

section \<open>Data\<close>

definition MAX_STOP_SEQUENCES :: nat where "MAX_STOP_SEQUENCES = 4"
definition MAX_STOP_BYTES :: nat where "MAX_STOP_BYTES = 256"
definition MAX_EFFECTIVE_STOP_SEQUENCES :: nat where "MAX_EFFECTIVE_STOP_SEQUENCES = MAX_STOP_SEQUENCES + 3"

datatype FinishReason = ReasonStop | ReasonLength

datatype StopAlignment = TokenAligned | CrossToken | IntraToken

datatype FrontierControl = FrontierContinue | FrontierStop

record FrontierResult =
  fr_text :: unicode
  fr_generated_tokens :: nat
  fr_finish_reason :: FinishReason
  fr_stop_alignment :: "StopAlignment option"

text \<open>A stop sequence is kept as the bytes of its UTF-8 form.\<close>

record GenerationFrontier =
  gf_stops :: "byte list list"
  gf_pending :: "byte list"
  gf_pending_offset :: nat
  gf_token_boundaries :: "nat list"
  gf_sampled_tokens :: nat
  gf_visible :: unicode
  gf_stripping :: bool
  gf_finish_reason :: "FinishReason option"
  gf_stop_alignment :: "StopAlignment option"

type_synonym 'w emitter = "unicode \<Rightarrow> 'w \<Rightarrow> 'w \<times> (server_error, unit) outcome"
type_synonym 'w frontier_run = "GenerationFrontier \<times> 'w"

section \<open>Opening\<close>

definition frontier_with_limit :: "byte list list \<Rightarrow> bool \<Rightarrow> nat \<Rightarrow> (string, GenerationFrontier) outcome" where
  "frontier_with_limit stops raw limit =
     (if limit < length stops then Err ''too many stop sequences''
      else if list_ex (\<lambda>s. s = [] \<or> MAX_STOP_BYTES < length s) stops then Err ''stop sequences must contain 1 to 256 UTF-8 bytes''
      else Ok \<lparr>gf_stops = stops, gf_pending = [], gf_pending_offset = 0, gf_token_boundaries = [0], gf_sampled_tokens = 0,
        gf_visible = [], gf_stripping = (\<not> raw), gf_finish_reason = None, gf_stop_alignment = None\<rparr>)"

definition frontier_new :: "byte list list \<Rightarrow> bool \<Rightarrow> (string, GenerationFrontier) outcome" where
  "frontier_new stops raw = frontier_with_limit stops raw MAX_STOP_SEQUENCES"

definition frontier_new_effective :: "byte list list \<Rightarrow> bool \<Rightarrow> (string, GenerationFrontier) outcome" where
  "frontier_new_effective stops raw = frontier_with_limit stops raw MAX_EFFECTIVE_STOP_SEQUENCES"

section \<open>Stop sequences\<close>

text \<open>\<open>windows(stop.len()).position(..)\<close>.\<close>

definition windows_position :: "byte list \<Rightarrow> byte list \<Rightarrow> nat option" where
  "windows_position stop bs = find (\<lambda>i. take (length stop) (drop i bs) = stop) [0..<length bs + 1 - length stop]"

definition first_stop :: "byte list list \<Rightarrow> byte list \<Rightarrow> (nat \<times> nat) option" where
  "first_stop stops bs = map_option (\<lambda>(start, order, end). (start, end))
     (min_by_key (\<lambda>(start, order, end). (start, order))
       (List.map_filter (\<lambda>(order, stop). map_option (\<lambda>start. (start, order, start + length stop)) (windows_position stop bs))
         (enumerate 0 stops)))"

definition stop_match :: "GenerationFrontier \<Rightarrow> (nat \<times> nat) option" where
  "stop_match g = first_stop (gf_stops g) (gf_pending g)"

text \<open>The longest end of the pending bytes that a stop sequence begins with.\<close>

definition partial_stop :: "byte list \<Rightarrow> byte list \<Rightarrow> nat" where
  "partial_stop pending stop = (case find (\<lambda>n. drop (length pending - n) pending = take n stop)
       (rev [1..<min (length stop - 1) (length pending) + 1]) of None \<Rightarrow> 0 | Some n \<Rightarrow> n)"

definition longest_possible_stop_suffix :: "GenerationFrontier \<Rightarrow> nat" where
  "longest_possible_stop_suffix g = foldr max (map (partial_stop (gf_pending g)) (gf_stops g)) 0"

definition alignment :: "nat list \<Rightarrow> nat \<Rightarrow> nat \<Rightarrow> StopAlignment" where
  "alignment boundaries start end =
     (if start \<in> set boundaries \<and> end \<in> set boundaries then TokenAligned
      else if list_ex (\<lambda>b. start < b \<and> b < end) boundaries then CrossToken else IntraToken)"

definition classify_stop :: "GenerationFrontier \<Rightarrow> nat \<Rightarrow> nat \<Rightarrow> StopAlignment" where
  "classify_stop g start end = alignment (gf_token_boundaries g) start end"

section \<open>Emitting\<close>

definition utf8_complete_prefix :: "byte list \<Rightarrow> nat" where
  "utf8_complete_prefix bs = (case utf8_check bs of
     (v, None) \<Rightarrow> length bs | (v, Some None) \<Rightarrow> v | (v, Some (Some _)) \<Rightarrow> length bs)"

text \<open>\<open>requested\<close> is never more than what is pending.\<close>

definition drained :: "nat \<Rightarrow> GenerationFrontier \<Rightarrow> GenerationFrontier" where
  "drained n g = g\<lparr>gf_pending := drop n (gf_pending g), gf_pending_offset := gf_pending_offset g + n\<rparr>"

definition emit_prefix :: "nat \<Rightarrow> bool \<Rightarrow> 'w emitter \<Rightarrow> 'w frontier_run \<Rightarrow> 'w frontier_run \<times> (server_error, unit) outcome" where
  "emit_prefix requested flush emit z = (let g = fst z;
       consumed = (if flush then requested else utf8_complete_prefix (take requested (gf_pending g))) in
     if consumed = 0 then (z, Ok ())
     else (let rendered = lossy (take consumed (gf_pending g));
            delta = (if gf_stripping g then trim_start rendered else rendered);
            g1 = g\<lparr>gf_stripping := gf_stripping g \<and> delta = []\<rparr> in
       if delta = [] then ((drained consumed g1, snd z), Ok ())
       else (case emit delta (snd z) of
           (w, Ok _) \<Rightarrow> ((drained consumed (g1\<lparr>gf_visible := gf_visible g1 @ delta\<rparr>), w), Ok ())
         | (w, r) \<Rightarrow> ((g1, w), r))))"

section \<open>Pushing and finishing\<close>

definition begin_token :: "byte list \<Rightarrow> GenerationFrontier \<Rightarrow> GenerationFrontier" where
  "begin_token piece g = (let start = (if gf_token_boundaries g = [] then gf_pending_offset g else last (gf_token_boundaries g)) in
     g\<lparr>gf_token_boundaries := gf_token_boundaries g @ [start + length piece], gf_sampled_tokens := gf_sampled_tokens g + 1\<rparr>)"

definition frontier_push ::
  "byte list \<Rightarrow> bool \<Rightarrow> 'w emitter \<Rightarrow> 'w frontier_run \<Rightarrow> 'w frontier_run \<times> (server_error, FrontierControl) outcome" where
  "frontier_push piece terminal emit z =
     (if gf_finish_reason (fst z) \<noteq> None then (z, Ok FrontierStop)
      else (let g = begin_token piece (fst z) in
        if terminal
        then and_then (emit_prefix (length (gf_pending g)) True emit (g, snd z)) (\<lambda>_ z.
          (((fst z)\<lparr>gf_finish_reason := Some ReasonStop\<rparr>, snd z), Ok FrontierStop))
        else (let g = g\<lparr>gf_pending := gf_pending g @ piece\<rparr> in
          (case stop_match g of
             Some (start, end) \<Rightarrow> (let from = gf_pending_offset g + start; upto = gf_pending_offset g + end in
               and_then (emit_prefix start True emit (g, snd z)) (\<lambda>_ z.
                 (((fst z)\<lparr>gf_stop_alignment := Some (classify_stop (fst z) from upto), gf_pending := [],
                    gf_pending_offset := upto, gf_finish_reason := Some ReasonStop\<rparr>, snd z), Ok FrontierStop)))
           | None \<Rightarrow> (let safe = length (gf_pending g) - longest_possible_stop_suffix g in
               and_then (emit_prefix safe False emit (g, snd z)) (\<lambda>_ z.
                 (((fst z)\<lparr>gf_token_boundaries := filter (\<lambda>b. gf_pending_offset (fst z) \<le> b) (gf_token_boundaries (fst z))\<rparr>,
                   snd z), Ok FrontierContinue)))))))"

definition frontier_finish :: "'w emitter \<Rightarrow> 'w frontier_run \<Rightarrow> 'w frontier_run \<times> (server_error, FrontierResult) outcome" where
  "frontier_finish emit z =
     and_then (if gf_finish_reason (fst z) = None
         then and_then (emit_prefix (length (gf_pending (fst z))) True emit z) (\<lambda>_ z.
           (((fst z)\<lparr>gf_finish_reason := Some ReasonLength\<rparr>, snd z), Ok ()))
         else (z, Ok ())) (\<lambda>_ z. (z, case gf_finish_reason (fst z) of
       None \<Rightarrow> Abort
     | Some reason \<Rightarrow> Ok \<lparr>fr_text = gf_visible (fst z), fr_generated_tokens = gf_sampled_tokens (fst z),
         fr_finish_reason = reason, fr_stop_alignment = gf_stop_alignment (fst z)\<rparr>))"

section \<open>Streams of pieces\<close>

text \<open>Pushing the pieces of a stream in order; a piece says whether it is terminal.\<close>

fun frontier_pushes :: "'w emitter \<Rightarrow> (byte list \<times> bool) list \<Rightarrow> 'w frontier_run \<Rightarrow> 'w frontier_run \<times> (server_error, unit) outcome" where
  "frontier_pushes emit [] z = (z, Ok ())"
| "frontier_pushes emit ((piece, terminal) # ps) z =
     and_then (frontier_push piece terminal emit z) (\<lambda>_ z. frontier_pushes emit ps z)"

definition frontier_stream ::
  "'w emitter \<Rightarrow> (byte list \<times> bool) list \<Rightarrow> 'w frontier_run \<Rightarrow> 'w frontier_run \<times> (server_error, FrontierResult) outcome" where
  "frontier_stream emit ps z = and_then (frontier_pushes emit ps z) (\<lambda>_ z. frontier_finish emit z)"

text \<open>A callback that keeps what it is given.\<close>

definition collect :: "unicode list emitter" where
  "collect delta w = (w @ [delta], Ok ())"

text \<open>
  The reference: after every piece all bytes so far are searched for a stop sequence, and nothing is
  rendered before the end. \<open>bs\<close> are the token boundaries, \<open>n\<close> the tokens and \<open>sofar\<close> the bytes before
  the remaining pieces.
\<close>

fun reference_cut ::
  "byte list list \<Rightarrow> nat list \<Rightarrow> nat \<Rightarrow> byte list \<Rightarrow> (byte list \<times> bool) list \<Rightarrow> byte list \<times> nat \<times> FinishReason \<times> StopAlignment option" where
  "reference_cut stops bs n sofar [] = (sofar, n, ReasonLength, None)"
| "reference_cut stops bs n sofar ((piece, terminal) # ps) =
     (if terminal then (sofar, n + 1, ReasonStop, None)
      else (let bytes = sofar @ piece; bs = bs @ [length bytes] in
        case first_stop stops bytes of
          Some (start, end) \<Rightarrow> (take start bytes, n + 1, ReasonStop, Some (alignment bs start end))
        | None \<Rightarrow> reference_cut stops bs (n + 1) bytes ps))"

definition rendered :: "bool \<Rightarrow> byte list \<Rightarrow> unicode" where
  "rendered raw bytes = (if raw then lossy bytes else trim_start (lossy bytes))"

end
