(* ===== verification/Generation_Props.thy ===== *)
theory Generation_Props
  imports Generation
begin

text \<open>
  The generation frontier against its reference: what is streamed piece by piece is what rendering all
  bytes before the first stop sequence at the end would give.
\<close>

section \<open>Occurrences\<close>

definition occurs :: "byte list \<Rightarrow> nat \<Rightarrow> byte list \<Rightarrow> bool" where
  "occurs stop i bs \<longleftrightarrow> i + length stop \<le> length bs \<and> take (length stop) (drop i bs) = stop"

lemma occurs_windows: "stop \<noteq> [] \<Longrightarrow> occurs stop i bs \<longleftrightarrow>
   i < length bs + 1 - length stop \<and> take (length stop) (drop i bs) = stop"
  by (auto simp: occurs_def)

lemma windows_position_None:
  assumes "stop \<noteq> []"
  shows "windows_position stop bs = None \<longleftrightarrow> (\<forall>i. \<not> occurs stop i bs)"
  by (auto simp: windows_position_def occurs_windows[OF assms] find_None_iff)

lemma windows_position_Some:
  assumes "stop \<noteq> []"
  shows "windows_position stop bs = Some i \<longleftrightarrow> occurs stop i bs \<and> (\<forall>j<i. \<not> occurs stop j bs)"
  by (auto simp: windows_position_def occurs_windows[OF assms] find_Some_iff)

lemma occurs_take: "occurs stop i (take n bs) \<Longrightarrow> occurs stop i bs \<and> i + length stop \<le> n"
  by (auto simp: occurs_def drop_take)

lemma occurs_drop: "n \<le> length bs \<Longrightarrow> occurs stop j (drop n bs) \<longleftrightarrow> occurs stop (n + j) bs"
  by (auto simp: occurs_def add.commute)

text \<open>The beginnings of a stop sequence that the bytes end with.\<close>

definition ends_in :: "byte list \<Rightarrow> nat \<Rightarrow> byte list \<Rightarrow> bool" where
  "ends_in stop n bs \<longleftrightarrow> 0 < n \<and> n < length stop \<and> n \<le> length bs \<and> drop (length bs - n) bs = take n stop"

lemma partial_stop_ge:
  assumes "ends_in stop n pending"
  shows "n \<le> partial_stop pending stop"
proof -
  let ?xs = "[1..<min (length stop - 1) (length pending) + 1]" and ?P = "\<lambda>n. drop (length pending - n) pending = take n stop"
  have n: "n \<in> set ?xs" "?P n" using assms by (auto simp: ends_in_def)
  then have "find ?P (rev ?xs) \<noteq> None" unfolding find_None_iff by auto
  then obtain m where m: "find ?P (rev ?xs) = Some m" by blast
  then obtain i where i: "i < length (rev ?xs)" "rev ?xs ! i = m" "\<And>j. j < i \<Longrightarrow> \<not> ?P (rev ?xs ! j)"
    by (auto simp: find_Some_iff)
  obtain j where j: "j < length (rev ?xs)" "rev ?xs ! j = n" using n(1) by (metis in_set_conv_nth set_rev)
  with i(3) n(2) have "i \<le> j" by (meson not_less)
  have "sorted_wrt (\<ge>) (rev ?xs)" unfolding sorted_wrt_rev by (rule sorted_upt)
  with i j \<open>i \<le> j\<close> have "n \<le> m" by (metis le_eq_less_or_eq sorted_wrt_nth_less order_refl)
  with m show ?thesis by (simp add: partial_stop_def)
qed

lemma partial_stop_le: "partial_stop pending stop \<le> length stop - 1 \<and> partial_stop pending stop \<le> length pending"
proof (cases "find (\<lambda>n. drop (length pending - n) pending = take n stop) (rev [1..<min (length stop - 1) (length pending) + 1])")
  case (Some n)
  then have "n \<in> set [1..<min (length stop - 1) (length pending) + 1]"
    by (metis (no_types, lifting) find_Some_iff nth_mem set_rev)
  with Some show ?thesis by (auto simp: partial_stop_def)
qed (simp add: partial_stop_def)

lemma partial_stop_bound: "length stop \<le> Suc m \<Longrightarrow> partial_stop pending stop \<le> m"
  using partial_stop_le[of pending stop] by linarith

lemma foldr_max_ge: "x \<in> set xs \<Longrightarrow> x \<le> foldr max xs (0::nat)"
  by (induction xs) auto

lemma foldr_max_le: "(\<And>x. x \<in> set xs \<Longrightarrow> x \<le> b) \<Longrightarrow> foldr max xs (0::nat) \<le> b"
  by (induction xs) auto

section \<open>Where the first stop sequence begins\<close>

lemma map_filter_map:
  "(\<And>x. x \<in> set xs \<Longrightarrow> f x = map_option g (h x)) \<Longrightarrow> List.map_filter f xs = map g (List.map_filter h xs)"
  by (induction xs) (auto simp: map_filter_simps split: option.split)

lemma min_by_key_map:
  assumes "\<And>x y. k' (f x) \<le> k' (f y) \<longleftrightarrow> k x \<le> k y"
  shows "min_by_key k' (map f xs) = map_option f (min_by_key k xs)"
  by (induction xs) (auto simp: assms split: option.splits)

lemma set_map_filter_iff: "y \<in> set (List.map_filter f xs) \<longleftrightarrow> (\<exists>x\<in>set xs. f x = Some y)"
  by (force simp: map_filter_def)

lemma stop_found:
  "(st, k, e) \<in> set (List.map_filter (\<lambda>(order, stop). map_option (\<lambda>start. (start, order, start + length stop)) (windows_position stop bs))
      (enumerate 0 stops)) \<longleftrightarrow>
   k < length stops \<and> windows_position (stops ! k) bs = Some st \<and> e = st + length (stops ! k)"
  by (auto simp: set_map_filter_iff in_set_enumerate_eq split_paired_Ex Bex_def)

lemma empty_iff_none: "xs = [] \<longleftrightarrow> (\<forall>y. y \<notin> set xs)"
  by (cases xs) auto

lemma first_stop_None:
  assumes "[] \<notin> set stops"
  shows "first_stop stops bs = None \<longleftrightarrow> (\<forall>s\<in>set stops. \<forall>i. \<not> occurs s i bs)"
proof -
  let ?xs = "List.map_filter (\<lambda>(order, stop). map_option (\<lambda>start. (start, order, start + length stop)) (windows_position stop bs))
      (enumerate 0 stops)"
  have "first_stop stops bs = None \<longleftrightarrow> ?xs = []"
    unfolding first_stop_def option.map_disc_iff min_by_key_None by (rule refl)
  also have "\<dots> \<longleftrightarrow> (\<forall>y. y \<notin> set ?xs)" by (rule empty_iff_none)
  also have "\<dots> \<longleftrightarrow> (\<forall>st k e. (st, k, e) \<notin> set ?xs)" by (simp only: split_paired_All)
  also have "\<dots> \<longleftrightarrow> (\<forall>s\<in>set stops. windows_position s bs = None)"
  proof
    assume none: "\<forall>st k e. (st, k, e) \<notin> set ?xs"
    show "\<forall>s\<in>set stops. windows_position s bs = None"
    proof
      fix s assume "s \<in> set stops"
      then obtain k where k: "k < length stops" "s = stops ! k" by (auto simp: in_set_conv_nth)
      show "windows_position s bs = None"
      proof (cases "windows_position s bs")
        case (Some st)
        with k have "(st, k, st + length s) \<in> set ?xs" by (simp add: stop_found)
        with none show ?thesis by blast
      qed
    qed
  next
    assume "\<forall>s\<in>set stops. windows_position s bs = None"
    then show "\<forall>st k e. (st, k, e) \<notin> set ?xs" by (simp add: stop_found) (metis nth_mem option.distinct(1))
  qed
  finally have "first_stop stops bs = None \<longleftrightarrow> (\<forall>s\<in>set stops. windows_position s bs = None)" .
  with windows_position_None assms show ?thesis by metis
qed

text \<open>It is the leftmost occurrence of any stop sequence.\<close>

lemma first_stop_Some:
  assumes "[] \<notin> set stops" and "first_stop stops bs = Some (start, end)"
  shows "(\<exists>s\<in>set stops. occurs s start bs \<and> end = start + length s) \<and>
    (\<forall>s\<in>set stops. \<forall>i < start. \<not> occurs s i bs)"
proof -
  let ?f = "\<lambda>(order, stop). map_option (\<lambda>start. (start, order, start + length stop)) (windows_position stop bs)"
  let ?xs = "List.map_filter ?f (enumerate 0 stops)"
  from assms(2) obtain order where m: "min_by_key (\<lambda>(start, order, end). (start, order)) ?xs = Some (start, order, end)"
    by (auto simp: first_stop_def)
  have 1: "\<exists>s\<in>set stops. occurs s start bs \<and> end = start + length s"
  proof -
    from min_by_key_in[OF m] have k: "order < length stops" "windows_position (stops ! order) bs = Some start"
      "end = start + length (stops ! order)" by (simp_all add: stop_found)
    from k(1) assms(1) have "stops ! order \<in> set stops" "stops ! order \<noteq> []" by (auto simp: in_set_conv_nth)
    with k show ?thesis by (auto simp: windows_position_Some)
  qed
  have "\<not> occurs s i bs" if s: "s \<in> set stops" and i: "i < start" for s i
  proof
    assume o: "occurs s i bs"
    from s assms(1) have ne: "s \<noteq> []" by auto
    with o windows_position_None obtain st where st: "windows_position s bs = Some st" by (metis not_None_eq)
    with o ne have "st \<le> i" by (auto simp: windows_position_Some not_less[symmetric])
    from s obtain k where "k < length stops" "s = stops ! k" by (auto simp: in_set_conv_nth)
    with st have "(st, k, st + length s) \<in> set ?xs" by (simp add: stop_found)
    from min_by_key_le[OF m this] \<open>st \<le> i\<close> i show False by (simp add: less_eq_prod_def)
  qed
  with 1 show ?thesis by blast
qed

text \<open>Bytes in front that no occurrence begins in only move the result.\<close>

lemma first_stop_shift:
  assumes "[] \<notin> set stops" and "n \<le> length bs" and "\<And>s i. s \<in> set stops \<Longrightarrow> occurs s i bs \<Longrightarrow> n \<le> i"
  shows "first_stop stops bs = map_option (\<lambda>(a, b). (n + a, n + b)) (first_stop stops (drop n bs))"
proof -
  have w: "windows_position s bs = map_option ((+) n) (windows_position s (drop n bs))" if s: "s \<in> set stops" for s
  proof (cases "windows_position s (drop n bs)")
    case None
    from s assms(1) have "s \<noteq> []" by auto
    with None have "\<forall>j. \<not> occurs s (n + j) bs" by (simp add: windows_position_None occurs_drop[OF assms(2)])
    with assms(3)[OF s] have "\<forall>i. \<not> occurs s i bs" by (metis le_Suc_ex)
    with \<open>s \<noteq> []\<close> have "windows_position s bs = None" by (simp add: windows_position_None)
    with None show ?thesis by simp
  next
    case (Some j)
    from s assms(1) have ne: "s \<noteq> []" by auto
    with Some have j: "occurs s (n + j) bs" "\<forall>k<j. \<not> occurs s (n + k) bs"
      by (simp_all add: windows_position_Some occurs_drop[OF assms(2)])
    have "\<not> occurs s i bs" if "i < n + j" for i
    proof
      assume o: "occurs s i bs"
      from assms(3)[OF s o] obtain k where "i = n + k" by (metis le_Suc_ex)
      with o j(2) that show False by simp
    qed
    with j(1) ne have "windows_position s bs = Some (n + j)" by (simp add: windows_position_Some)
    with Some show ?thesis by simp
  qed
  let ?f = "\<lambda>bs (order, stop). map_option (\<lambda>start. (start, order, start + length stop)) (windows_position stop bs)"
  let ?g = "\<lambda>(a, k, b). (n + a, k :: nat, n + b)"
  have "?f bs x = map_option ?g (?f (drop n bs) x)" if "x \<in> set (enumerate 0 stops)" for x
  proof -
    obtain k s where x: "x = (k, s)" by (cases x)
    with that have "s \<in> set stops" by (auto simp: in_set_enumerate_eq)
    with w[of s] show ?thesis by (simp add: x option.map_comp comp_def add.assoc)
  qed
  then have "List.map_filter (?f bs) (enumerate 0 stops) = map ?g (List.map_filter (?f (drop n bs)) (enumerate 0 stops))"
    by (rule map_filter_map)
  moreover have "min_by_key (\<lambda>(start, order, end). (start, order)) (map ?g xs) =
      map_option ?g (min_by_key (\<lambda>(start, order, end). (start, order)) xs)" for xs
    by (rule min_by_key_map) (auto simp: less_eq_prod_def)
  ultimately show ?thesis by (simp add: first_stop_def option.map_comp comp_def split_def)
qed

section \<open>Rendering in chunks\<close>

definition emitted :: "nat \<Rightarrow> GenerationFrontier \<Rightarrow> unicode" where
  "emitted n g = (let t = lossy (take n (gf_pending g)) in if gf_stripping g then trim_start t else t)"

definition after_emit :: "nat \<Rightarrow> GenerationFrontier \<Rightarrow> GenerationFrontier" where
  "after_emit n g = g\<lparr>gf_pending := drop n (gf_pending g), gf_pending_offset := gf_pending_offset g + n,
     gf_visible := gf_visible g @ emitted n g, gf_stripping := gf_stripping g \<and> emitted n g = []\<rparr>"

lemma emitted_0 [simp]: "emitted 0 g = []"
  by (simp add: emitted_def trim_start_def)

lemma after_emit_simps [simp]:
  "gf_stops (after_emit n g) = gf_stops g" "gf_pending (after_emit n g) = drop n (gf_pending g)"
  "gf_pending_offset (after_emit n g) = gf_pending_offset g + n"
  "gf_token_boundaries (after_emit n g) = gf_token_boundaries g" "gf_sampled_tokens (after_emit n g) = gf_sampled_tokens g"
  "gf_visible (after_emit n g) = gf_visible g @ emitted n g" "gf_stripping (after_emit n g) = (gf_stripping g \<and> emitted n g = [])"
  "gf_finish_reason (after_emit n g) = gf_finish_reason g" "gf_stop_alignment (after_emit n g) = gf_stop_alignment g"
  by (simp_all add: after_emit_def)

lemma emit_prefix_collect:
  assumes "n = (if flush then requested else utf8_complete_prefix (take requested (gf_pending g)))"
  shows "\<exists>w'. emit_prefix requested flush collect (g, w) = ((after_emit n g, w'), Ok ()) \<and> concat w' = concat w @ emitted n g"
proof (cases "n = 0")
  case True
  with assms show ?thesis by (simp add: emit_prefix_def after_emit_def)
next
  case False
  with assms show ?thesis
    by (auto simp: emit_prefix_def Let_def after_emit_def emitted_def collect_def drained_def split: if_splits)
qed

lemma trim_start_append: "trim_start (a @ b) = (if trim_start a = [] then trim_start b else trim_start a @ b)"
  by (auto simp: trim_start_def dropWhile_append)

text \<open>The text shown so far is what rendering the consumed bytes gives, as long as they can be part of valid text.\<close>

definition shows_text :: "bool \<Rightarrow> byte list \<Rightarrow> GenerationFrontier \<Rightarrow> bool" where
  "shows_text raw bytes g \<longleftrightarrow> gf_visible g = rendered raw bytes \<and> gf_stripping g = (\<not> raw \<and> rendered raw bytes = [])"

definition shown :: "bool \<Rightarrow> byte list \<Rightarrow> GenerationFrontier \<Rightarrow> bool" where
  "shown raw bytes g \<longleftrightarrow> (\<forall>x. utf8_valid (bytes @ x) \<longrightarrow> utf8_valid bytes \<and> shows_text raw bytes g)"

lemma shows_text_emit:
  assumes "utf8_valid bytes" and "shows_text raw bytes g" and "utf8_valid (take n (gf_pending g))"
  shows "shows_text raw (bytes @ take n (gf_pending g)) (after_emit n g)"
proof -
  have l: "lossy (bytes @ take n (gf_pending g)) = lossy bytes @ lossy (take n (gf_pending g))"
    using valid_append[OF assms(1)] by blast
  from assms(2) show ?thesis
    by (auto simp: shows_text_def rendered_def l emitted_def Let_def trim_start_append)
qed

lemma complete_prefix_le: "utf8_complete_prefix bs \<le> length bs"
  using utf8_check_valid[of bs] by (auto simp: utf8_complete_prefix_def split: prod.split option.split)

text \<open>What is left over is at most three bytes.\<close>

lemma complete_prefix_near: "length bs \<le> utf8_complete_prefix bs + 3"
  using utf8_check_incomplete[of bs] by (auto simp: utf8_complete_prefix_def split: prod.split option.split)

lemma complete_prefix_valid:
  assumes "utf8_valid (take (utf8_complete_prefix bs) bs @ x)"
  shows "utf8_valid (take (utf8_complete_prefix bs) bs)"
proof (cases "utf8_check bs")
  case (Pair v e)
  show ?thesis
  proof (cases e)
    case None
    with Pair show ?thesis by (simp add: utf8_complete_prefix_def utf8_valid_def)
  next
    case (Some a)
    show ?thesis
    proof (cases a)
      case None
      with Some Pair utf8_check_valid[of bs] show ?thesis by (simp add: utf8_complete_prefix_def)
    next
      case Some': (Some n)
      with Some Pair have "take (utf8_complete_prefix bs) bs = bs" by (simp add: utf8_complete_prefix_def)
      with assms utf8_check_prefix[of bs x] Some Some' Pair show ?thesis by simp
    qed
  qed
qed

lemma shown_emit:
  assumes "shown raw bytes g" and "n = utf8_complete_prefix (take r (gf_pending g))"
  shows "shown raw (bytes @ take n (gf_pending g)) (after_emit n g)"
  unfolding shown_def
proof (intro allI impI)
  fix x assume v: "utf8_valid ((bytes @ take n (gf_pending g)) @ x)"
  with assms(1) have b: "utf8_valid bytes" "shows_text raw bytes g" by (auto simp: shown_def)
  have t: "take n (gf_pending g) = take (utf8_complete_prefix (take r (gf_pending g))) (take r (gf_pending g))"
  proof -
    have "utf8_complete_prefix (take r (gf_pending g)) \<le> r" using complete_prefix_le[of "take r (gf_pending g)"] by simp
    then show ?thesis by (simp add: assms(2) min_absorb1)
  qed
  from v valid_append[OF b(1)] have "utf8_valid (take n (gf_pending g) @ x)" by simp
  with complete_prefix_valid t have c: "utf8_valid (take n (gf_pending g))" by metis
  with valid_append[OF b(1)] shows_text_emit[OF b c]
  show "utf8_valid (bytes @ take n (gf_pending g)) \<and> shows_text raw (bytes @ take n (gf_pending g)) (after_emit n g)" by blast
qed

lemma shown_flush:
  assumes "shown raw bytes g" and "utf8_valid (bytes @ take n (gf_pending g))"
  shows "gf_visible (after_emit n g) = rendered raw (bytes @ take n (gf_pending g))"
proof -
  from assms have b: "utf8_valid bytes" "shows_text raw bytes g" by (auto simp: shown_def)
  with valid_append[OF b(1)] assms(2) have "utf8_valid (take n (gf_pending g))" by blast
  from shows_text_emit[OF b this] show ?thesis unfolding shows_text_def by blast
qed

section \<open>The frontier between two pieces\<close>

text \<open>
  \<open>sofar\<close> are the bytes of all pieces, \<open>bs\<close> the token boundaries and \<open>k\<close> the number of tokens: no stop
  sequence occurs so far, and whatever could still become one is pending.
\<close>

definition frontier_at :: "byte list list \<Rightarrow> bool \<Rightarrow> nat list \<Rightarrow> nat \<Rightarrow> byte list \<Rightarrow> GenerationFrontier \<Rightarrow> bool" where
  "frontier_at stops raw bs k sofar g \<longleftrightarrow>
     gf_stops g = stops \<and> [] \<notin> set stops \<and> gf_finish_reason g = None \<and> gf_stop_alignment g = None \<and> gf_sampled_tokens g = k \<and>
     gf_pending_offset g \<le> length sofar \<and> gf_pending g = drop (gf_pending_offset g) sofar \<and>
     (\<forall>s\<in>set stops. \<forall>i. \<not> occurs s i sofar) \<and>
     (\<forall>s\<in>set stops. \<forall>n. ends_in s n sofar \<longrightarrow> n \<le> length (gf_pending g)) \<and>
     bs \<noteq> [] \<and> last bs = length sofar \<and> gf_token_boundaries g = filter (\<lambda>b. gf_pending_offset g \<le> b) bs \<and>
     shown raw (take (gf_pending_offset g) sofar) g"

text \<open>The end: the text is complete, and it is the rendering of \<open>bytes\<close> where these are valid.\<close>

definition finished_at :: "bool \<Rightarrow> byte list \<times> nat \<times> FinishReason \<times> StopAlignment option \<Rightarrow> GenerationFrontier \<Rightarrow> bool" where
  "finished_at raw r g \<longleftrightarrow> (case r of (bytes, k, reason, al) \<Rightarrow>
     gf_finish_reason g = Some reason \<and> gf_stop_alignment g = al \<and> gf_sampled_tokens g = k \<and>
     (utf8_valid bytes \<longrightarrow> gf_visible g = rendered raw bytes))"

lemma occurs_after_offset:
  assumes "frontier_at stops raw bs k sofar g" and "s \<in> set stops" and "occurs s i (sofar @ piece)"
  shows "gf_pending_offset g \<le> i"
proof (rule ccontr)
  assume i: "\<not> gf_pending_offset g \<le> i"
  with assms(1) have i': "i < length sofar" by (simp add: frontier_at_def)
  show False
  proof (cases "i + length s \<le> length sofar")
    case True
    with assms(3) have "occurs s i sofar" by (simp add: occurs_def)
    with assms(1,2) show False by (simp add: frontier_at_def)
  next
    case False
    let ?n = "length sofar - i"
    have "take (length s) (drop i sofar @ piece) = s" using assms(3) i' by (simp add: occurs_def)
    then have "take ?n (take (length s) (drop i sofar @ piece)) = take ?n s" by simp
    with False i' have "drop (length sofar - ?n) sofar = take ?n s" by (simp add: min_def)
    with False i' have "ends_in s ?n sofar" by (simp add: ends_in_def)
    with assms(1,2) have "?n \<le> length (gf_pending g)" unfolding frontier_at_def by blast
    moreover have "length (gf_pending g) = length sofar - gf_pending_offset g" "gf_pending_offset g \<le> length sofar"
      using assms(1) by (simp_all add: frontier_at_def)
    ultimately show False using i by linarith
  qed
qed

lemma frontier_first_stop:
  assumes "frontier_at stops raw bs k sofar g"
  shows "first_stop stops (sofar @ piece) =
     map_option (\<lambda>(a, b). (gf_pending_offset g + a, gf_pending_offset g + b)) (first_stop stops (gf_pending g @ piece))"
proof -
  have "first_stop stops (sofar @ piece) = map_option (\<lambda>(a, b). (gf_pending_offset g + a, gf_pending_offset g + b))
      (first_stop stops (drop (gf_pending_offset g) (sofar @ piece)))"
    using assms occurs_after_offset[OF assms] by (intro first_stop_shift) (auto simp: frontier_at_def)
  with assms show ?thesis by (simp add: frontier_at_def)
qed

text \<open>What a stop sequence may begin with at the end of the bytes begins in the pending ones.\<close>

lemma drop_end_of_drop:
  "n \<le> length xs - k \<Longrightarrow> drop (length (drop k xs) - n) (drop k xs) = drop (length xs - n) xs"
  by (cases "k \<le> length xs") (simp_all add: add.commute)

lemma ends_in_pending:
  assumes "frontier_at stops raw bs k sofar g" and "s \<in> set stops" and "ends_in s n (sofar @ piece)"
  shows "ends_in s n (gf_pending g @ piece)"
proof -
  have pend: "gf_pending g = drop (gf_pending_offset g) sofar" "gf_pending_offset g \<le> length sofar"
    using assms(1) by (simp_all add: frontier_at_def)
  have "n \<le> length (gf_pending g @ piece)"
  proof (cases "n \<le> length piece")
    case False
    let ?m = "n - length piece"
    have e: "0 < n" "n < length s" "n \<le> length sofar + length piece" "drop (length sofar + length piece - n) (sofar @ piece) = take n s"
      using assms(3) by (simp_all add: ends_in_def)
    have d: "length sofar + length piece - n = length sofar - ?m" using False e(3) by simp
    have "drop (length sofar - ?m) sofar @ piece = take n s" using e(4) unfolding d by simp
    then have "take ?m (drop (length sofar - ?m) sofar @ piece) = take ?m (take n s)" by simp
    moreover have "length (drop (length sofar - ?m) sofar) = ?m" using e(3) False by simp
    ultimately have "drop (length sofar - ?m) sofar = take ?m s" by (simp add: min_def)
    moreover have "0 < ?m" "?m < length s" "?m \<le> length sofar" using e(1-3) False by linarith+
    ultimately have "ends_in s ?m sofar" by (simp add: ends_in_def)
    with assms(1,2) have "?m \<le> length (gf_pending g)" unfolding frontier_at_def by blast
    then show ?thesis by simp
  qed simp
  moreover have p: "drop (gf_pending_offset g) (sofar @ piece) = gf_pending g @ piece" using pend by simp
  moreover have "n \<le> length (sofar @ piece) - gf_pending_offset g" using calculation pend by simp
  from drop_end_of_drop[OF this] p
  have "drop (length (gf_pending g @ piece) - n) (gf_pending g @ piece) = drop (length (sofar @ piece) - n) (sofar @ piece)"
    by (simp only: p)
  ultimately show ?thesis using assms(3) unfolding ends_in_def by metis
qed

text \<open>The frontier once a piece is pending.\<close>

definition extended :: "byte list \<Rightarrow> GenerationFrontier \<Rightarrow> GenerationFrontier" where
  "extended piece g = (begin_token piece g)\<lparr>gf_pending := gf_pending g @ piece\<rparr>"

lemma begin_token_simps [simp]:
  "gf_stops (begin_token piece g) = gf_stops g" "gf_pending (begin_token piece g) = gf_pending g"
  "gf_pending_offset (begin_token piece g) = gf_pending_offset g" "gf_sampled_tokens (begin_token piece g) = gf_sampled_tokens g + 1"
  "gf_visible (begin_token piece g) = gf_visible g" "gf_stripping (begin_token piece g) = gf_stripping g"
  "gf_finish_reason (begin_token piece g) = gf_finish_reason g" "gf_stop_alignment (begin_token piece g) = gf_stop_alignment g"
  by (simp_all add: begin_token_def Let_def)

lemma begin_token_boundaries:
  assumes "frontier_at stops raw bs k sofar g"
  shows "gf_token_boundaries (begin_token piece g) = filter (\<lambda>b. gf_pending_offset g \<le> b) (bs @ [length (sofar @ piece)])"
proof -
  let ?P = "\<lambda>b. gf_pending_offset g \<le> b"
  have a: "gf_token_boundaries g = filter ?P bs" "bs \<noteq> []" "last bs = length sofar" "?P (last bs)"
    using assms by (simp_all add: frontier_at_def)
  then have "bs = butlast bs @ [length sofar]" by (metis append_butlast_last_id)
  then have f: "filter ?P bs = filter ?P (butlast bs) @ [length sofar]" using a(3,4) by (metis filter.simps filter_append)
  with a show ?thesis by (simp add: begin_token_def)
qed

lemma extended_simps [simp]:
  "gf_stops (extended piece g) = gf_stops g" "gf_pending (extended piece g) = gf_pending g @ piece"
  "gf_pending_offset (extended piece g) = gf_pending_offset g" "gf_sampled_tokens (extended piece g) = gf_sampled_tokens g + 1"
  "gf_token_boundaries (extended piece g) = gf_token_boundaries (begin_token piece g)"
  "gf_visible (extended piece g) = gf_visible g" "gf_stripping (extended piece g) = gf_stripping g"
  "gf_finish_reason (extended piece g) = gf_finish_reason g" "gf_stop_alignment (extended piece g) = gf_stop_alignment g"
  by (simp_all add: extended_def)

lemma shown_cong: "gf_visible g = gf_visible h \<Longrightarrow> gf_stripping g = gf_stripping h \<Longrightarrow> shown raw bytes g = shown raw bytes h"
  by (simp add: shown_def shows_text_def)

lemma frontier_bytes:
  assumes "frontier_at stops raw bs k sofar g" and "n \<le> length (gf_pending g @ piece)"
  shows "take (gf_pending_offset g + n) (sofar @ piece) = take (gf_pending_offset g) sofar @ take n (gf_pending g @ piece)"
    and "drop (gf_pending_offset g + n) (sofar @ piece) = drop n (gf_pending g @ piece)"
proof -
  have d: "drop (gf_pending_offset g) (sofar @ piece) = gf_pending g @ piece"
    and t: "take (gf_pending_offset g) (sofar @ piece) = take (gf_pending_offset g) sofar"
    using assms(1) by (simp_all add: frontier_at_def)
  show "take (gf_pending_offset g + n) (sofar @ piece) = take (gf_pending_offset g) sofar @ take n (gf_pending g @ piece)"
    using take_add[of "gf_pending_offset g" n "sofar @ piece"] by (simp only: t d)
  show "drop (gf_pending_offset g + n) (sofar @ piece) = drop n (gf_pending g @ piece)"
    by (simp only: d[symmetric] drop_drop add.commute)
qed

lemma longest_suffix_ge:
  assumes "s \<in> set (gf_stops g)" and "ends_in s n (gf_pending g)"
  shows "n \<le> longest_possible_stop_suffix g"
proof -
  have "partial_stop (gf_pending g) s \<le> longest_possible_stop_suffix g"
    unfolding longest_possible_stop_suffix_def by (rule foldr_max_ge) (use assms(1) in simp)
  with partial_stop_ge[OF assms(2)] show ?thesis by simp
qed

lemma longest_suffix_le: "longest_possible_stop_suffix g \<le> length (gf_pending g)"
  unfolding longest_possible_stop_suffix_def by (rule foldr_max_le) (use partial_stop_le in auto)

text \<open>A piece that completes no stop sequence.\<close>

lemma push_continues:
  assumes fr: "frontier_at stops raw bs k sofar g" and w: "concat w = gf_visible g"
    and none: "first_stop stops (sofar @ piece) = None"
  shows "\<exists>g' w'. frontier_push piece False collect (g, w) = ((g', w'), Ok FrontierContinue) \<and> concat w' = gf_visible g' \<and>
    frontier_at stops raw (bs @ [length (sofar @ piece)]) (k + 1) (sofar @ piece) g' \<and>
    length (gf_pending g') \<le> longest_possible_stop_suffix (extended piece g) + 3"
proof -
  let ?x = "extended piece g" let ?P = "gf_pending g @ piece"
  let ?safe = "length ?P - longest_possible_stop_suffix ?x" let ?n = "utf8_complete_prefix (take ?safe ?P)"
  let ?g = "(after_emit ?n ?x)\<lparr>gf_token_boundaries := filter (\<lambda>b. gf_pending_offset g + ?n \<le> b) (gf_token_boundaries ?x)\<rparr>"
  have st: "gf_stops g = stops" "[] \<notin> set stops" "gf_finish_reason g = None" "gf_pending_offset g \<le> length sofar"
    "gf_pending g = drop (gf_pending_offset g) sofar" using fr by (simp_all add: frontier_at_def)
  have match: "stop_match ?x = None" using frontier_first_stop[OF fr, of piece] none st(1) by (simp add: stop_match_def)
  have n1: "?n \<le> ?safe" using complete_prefix_le[of "take ?safe ?P"] by simp
  then have n: "?n \<le> length ?P" by simp
  from emit_prefix_collect[of ?n False ?safe ?x w] obtain w' where
    e: "emit_prefix ?safe False collect (?x, w) = ((after_emit ?n ?x, w'), Ok ())" and w': "concat w' = concat w @ emitted ?n ?x"
    by auto
  have r: "frontier_push piece False collect (g, w) = ((?g, w'), Ok FrontierContinue)"
    using e match st(3) by (simp add: frontier_push_def Let_def extended_def[symmetric])
  have "shown raw (take (gf_pending_offset g) sofar) ?x"
    using fr shown_cong[of g ?x] by (simp add: frontier_at_def)
  from shown_emit[OF this refl, of ?safe]
  have sh: "shown raw (take (gf_pending_offset g + ?n) (sofar @ piece)) ?g"
    using frontier_bytes(1)[OF fr n] shown_cong[of "after_emit ?n ?x" ?g] by simp
  have o: "\<forall>s\<in>set stops. \<forall>i. \<not> occurs s i (sofar @ piece)" using none first_stop_None[OF st(2)] by blast
  have len: "length (gf_pending ?g) = length ?P - ?n"
    by (simp del: length_append take_append drop_append)
  have en: "m \<le> length (gf_pending ?g)" if "s \<in> set stops" "ends_in s m (sofar @ piece)" for s m
  proof -
    have "m \<le> longest_possible_stop_suffix ?x"
      using longest_suffix_ge[of s ?x m] ends_in_pending[OF fr that] that(1) st(1) by simp
    moreover have "longest_possible_stop_suffix ?x \<le> length ?P" using longest_suffix_le[of ?x] by simp
    ultimately show ?thesis using n1 unfolding len by linarith
  qed
  have bd: "gf_token_boundaries ?g = filter (\<lambda>b. gf_pending_offset g + ?n \<le> b) (bs @ [length (sofar @ piece)])"
  proof -
    have "filter (\<lambda>b. gf_pending_offset g + ?n \<le> b) (filter (\<lambda>b. gf_pending_offset g \<le> b) xs) = filter (\<lambda>b. gf_pending_offset g + ?n \<le> b) xs"
      for xs by (induction xs) auto
    with begin_token_boundaries[OF fr, of piece] show ?thesis by (simp only: extended_simps) simp
  qed
  have "frontier_at stops raw (bs @ [length (sofar @ piece)]) (k + 1) (sofar @ piece) ?g"
    unfolding frontier_at_def
  proof (intro conjI)
    show "gf_pending ?g = drop (gf_pending_offset ?g) (sofar @ piece)" using frontier_bytes(2)[OF fr n] by simp
    show "gf_pending_offset ?g \<le> length (sofar @ piece)" using n st(4,5) by simp
    show "gf_token_boundaries ?g = filter (\<lambda>b. gf_pending_offset ?g \<le> b) (bs @ [length (sofar @ piece)])" using bd by simp
  qed (use fr o en sh in \<open>simp_all add: frontier_at_def\<close>)
  moreover have "length (gf_pending ?g) \<le> longest_possible_stop_suffix ?x + 3"
  proof -
    have "?safe \<le> ?n + 3" using complete_prefix_near[of "take ?safe ?P"] by simp
    moreover have "longest_possible_stop_suffix ?x \<le> length ?P" using longest_suffix_le[of ?x] by simp
    ultimately show ?thesis unfolding len by linarith
  qed
  moreover have "concat w' = gf_visible ?g" using w w' by simp
  ultimately show ?thesis using r by blast
qed

text \<open>A piece that completes a stop sequence.\<close>

lemma alignment_filter: "o' \<le> a \<Longrightarrow> a \<le> b \<Longrightarrow> alignment (filter (\<lambda>x. o' \<le> x) bs) a b = alignment bs a b"
  by (auto simp: alignment_def list_ex_iff)

lemma push_stops:
  assumes fr: "frontier_at stops raw bs k sofar g" and w: "concat w = gf_visible g"
    and some: "first_stop stops (sofar @ piece) = Some (a, b)"
  shows "\<exists>g' w'. frontier_push piece False collect (g, w) = ((g', w'), Ok FrontierStop) \<and> concat w' = gf_visible g' \<and>
    finished_at raw (take a (sofar @ piece), k + 1, ReasonStop, Some (alignment (bs @ [length (sofar @ piece)]) a b)) g'"
proof -
  let ?x = "extended piece g" let ?P = "gf_pending g @ piece" let ?o = "gf_pending_offset g"
  have st: "gf_stops g = stops" "[] \<notin> set stops" "gf_finish_reason g = None" "gf_sampled_tokens g = k"
    using fr by (simp_all add: frontier_at_def)
  from frontier_first_stop[OF fr, of piece] some obtain s e where se: "first_stop stops ?P = Some (s, e)" "a = ?o + s" "b = ?o + e"
    by (cases "first_stop stops ?P") auto
  from first_stop_Some[OF st(2) se(1)] have s: "s \<le> e" "s \<le> length ?P" by (auto simp: occurs_def)
  have match: "stop_match ?x = Some (s, e)" using se(1) st(1) by (simp add: stop_match_def)
  let ?c = "classify_stop (after_emit s ?x) a b"
  let ?g = "(after_emit s ?x)\<lparr>gf_stop_alignment := Some ?c, gf_pending := [], gf_pending_offset := b, gf_finish_reason := Some ReasonStop\<rparr>"
  from emit_prefix_collect[of s True s ?x w] obtain w' where
    e: "emit_prefix s True collect (?x, w) = ((after_emit s ?x, w'), Ok ())" and w': "concat w' = concat w @ emitted s ?x"
    by auto
  have r: "frontier_push piece False collect (g, w) = ((?g, w'), Ok FrontierStop)"
    using e match st(3) se(2,3) by (simp add: frontier_push_def Let_def extended_def[symmetric])
  have c: "?c = alignment (bs @ [length (sofar @ piece)]) a b"
    unfolding classify_stop_def after_emit_simps extended_simps begin_token_boundaries[OF fr]
    by (rule alignment_filter) (use se(2,3) s(1) in simp_all)
  have sh: "shown raw (take ?o sofar) ?x" using fr shown_cong[of g ?x] by (simp add: frontier_at_def)
  have v: "gf_visible ?g = rendered raw (take a (sofar @ piece))" if "utf8_valid (take a (sofar @ piece))"
    using shown_flush[OF sh, of s] that frontier_bytes(1)[OF fr s(2)] se(2) by simp
  have "finished_at raw (take a (sofar @ piece), k + 1, ReasonStop, Some (alignment (bs @ [length (sofar @ piece)]) a b)) ?g"
    unfolding finished_at_def prod.case
  proof (intro conjI impI)
    show "gf_stop_alignment ?g = Some (alignment (bs @ [length (sofar @ piece)]) a b)" using c by simp
  qed (use v st(4) in simp_all)
  moreover have "concat w' = gf_visible ?g" using w w' by simp
  ultimately show ?thesis using r by blast
qed

text \<open>The flush of everything that is pending.\<close>

lemma flush_all:
  assumes fr: "frontier_at stops raw bs k sofar g" and "gf_pending x = gf_pending g" and "gf_visible x = gf_visible g"
    and "gf_stripping x = gf_stripping g" and "utf8_valid sofar"
  shows "gf_visible (after_emit (length (gf_pending x)) x) = rendered raw sofar"
proof -
  have sh: "shown raw (take (gf_pending_offset g) sofar) x" using fr shown_cong[of g x] assms(3,4) by (simp add: frontier_at_def)
  have "take (gf_pending_offset g) sofar @ take (length (gf_pending x)) (gf_pending x) = sofar"
    using fr assms(2) by (simp add: frontier_at_def)
  with shown_flush[OF sh, of "length (gf_pending x)"] assms(5) show ?thesis by simp
qed

lemma push_terminal:
  assumes fr: "frontier_at stops raw bs k sofar g" and w: "concat w = gf_visible g"
  shows "\<exists>g' w'. frontier_push piece True collect (g, w) = ((g', w'), Ok FrontierStop) \<and> concat w' = gf_visible g' \<and>
    finished_at raw (sofar, k + 1, ReasonStop, None) g'"
proof -
  let ?x = "begin_token piece g" let ?n = "length (gf_pending ?x)"
  from emit_prefix_collect[of ?n True ?n ?x w] obtain w' where
    e: "emit_prefix ?n True collect (?x, w) = ((after_emit ?n ?x, w'), Ok ())" and w': "concat w' = concat w @ emitted ?n ?x"
    by auto
  let ?g = "(after_emit ?n ?x)\<lparr>gf_finish_reason := Some ReasonStop\<rparr>"
  have "frontier_push piece True collect (g, w) = ((?g, w'), Ok FrontierStop)"
    using e fr by (simp add: frontier_push_def Let_def frontier_at_def)
  moreover have "finished_at raw (sofar, k + 1, ReasonStop, None) ?g"
    using fr flush_all[OF fr, of ?x] by (simp add: finished_at_def frontier_at_def)
  moreover have "concat w' = gf_visible ?g" using w w' by simp
  ultimately show ?thesis by blast
qed

lemma finish_open:
  assumes fr: "frontier_at stops raw bs k sofar g" and w: "concat w = gf_visible g"
  shows "\<exists>g' w'. frontier_finish collect (g, w) = ((g', w'), Ok \<lparr>fr_text = gf_visible g', fr_generated_tokens = k,
      fr_finish_reason = ReasonLength, fr_stop_alignment = None\<rparr>) \<and> concat w' = gf_visible g' \<and>
    (utf8_valid sofar \<longrightarrow> gf_visible g' = rendered raw sofar)"
proof -
  let ?n = "length (gf_pending g)"
  from emit_prefix_collect[of ?n True ?n g w] obtain w' where
    e: "emit_prefix ?n True collect (g, w) = ((after_emit ?n g, w'), Ok ())" and w': "concat w' = concat w @ emitted ?n g"
    by auto
  let ?g = "(after_emit ?n g)\<lparr>gf_finish_reason := Some ReasonLength\<rparr>"
  have "frontier_finish collect (g, w) = ((?g, w'), Ok \<lparr>fr_text = gf_visible ?g, fr_generated_tokens = k,
      fr_finish_reason = ReasonLength, fr_stop_alignment = None\<rparr>)"
    using e fr by (simp add: frontier_finish_def frontier_at_def)
  moreover have "concat w' = gf_visible ?g" using w w' by simp
  moreover have "utf8_valid sofar \<longrightarrow> gf_visible ?g = rendered raw sofar"
    using flush_all[OF fr refl refl refl] by (simp del: after_emit_simps(6))
  ultimately show ?thesis by (intro exI conjI)
qed

lemma finish_closed:
  "gf_finish_reason g = Some reason \<Longrightarrow> frontier_finish emit (g, w) = ((g, w), Ok \<lparr>fr_text = gf_visible g,
     fr_generated_tokens = gf_sampled_tokens g, fr_finish_reason = reason, fr_stop_alignment = gf_stop_alignment g\<rparr>)"
  by (simp add: frontier_finish_def)

lemma pushes_closed: "gf_finish_reason g \<noteq> None \<Longrightarrow> frontier_pushes emit ps (g, w) = ((g, w), Ok ())"
  by (induction ps) (auto simp: frontier_push_def)

section \<open>Streams\<close>

lemma stream_from:
  assumes "frontier_at stops raw bs k sofar g" and "concat w = gf_visible g"
  shows "\<exists>g' w' r. frontier_stream collect ps (g, w) = ((g', w'), Ok r) \<and> concat w' = fr_text r \<and>
    (case reference_cut stops bs k sofar ps of (bytes, n, reason, al) \<Rightarrow>
      fr_generated_tokens r = n \<and> fr_finish_reason r = reason \<and> fr_stop_alignment r = al \<and>
      (utf8_valid bytes \<longrightarrow> fr_text r = rendered raw bytes))"
  using assms
proof (induction ps arbitrary: bs k sofar g w)
  case Nil
  from finish_open[OF Nil] show ?case by (auto simp: frontier_stream_def)
next
  case (Cons p ps)
  obtain piece terminal where p: "p = (piece, terminal)" by (cases p)
  have closed: "\<exists>g' w' r. frontier_stream collect ((piece, terminal) # ps) (g, w) = ((g', w'), Ok r) \<and> concat w' = fr_text r \<and>
      (case q of (bytes, n, reason, al) \<Rightarrow> fr_generated_tokens r = n \<and> fr_finish_reason r = reason \<and> fr_stop_alignment r = al \<and>
        (utf8_valid bytes \<longrightarrow> fr_text r = rendered raw bytes))"
    if "frontier_push piece terminal collect (g, w) = ((g1, w1), Ok c)" "concat w1 = gf_visible g1" "finished_at raw q g1" for g1 w1 c q
    using that by (auto simp: frontier_stream_def finished_at_def pushes_closed finish_closed split: prod.splits)
  show ?case
  proof (cases terminal)
    case True
    with push_terminal[OF Cons.prems, of piece] closed p show ?thesis by fastforce
  next
    case False
    show ?thesis
    proof (cases "first_stop stops (sofar @ piece)")
      case None
      from push_continues[OF Cons.prems None] obtain g1 w1 where g1: "frontier_push piece False collect (g, w) = ((g1, w1), Ok FrontierContinue)"
        "concat w1 = gf_visible g1" "frontier_at stops raw (bs @ [length (sofar @ piece)]) (k + 1) (sofar @ piece) g1" by blast
      from Cons.IH[OF g1(3,2)] g1(1) None False p show ?thesis by (simp add: frontier_stream_def)
    next
      case (Some ab)
      obtain a b where ab: "ab = (a, b)" by (cases ab)
      from push_stops[OF Cons.prems, of piece a b] Some ab closed False p show ?thesis by fastforce
    qed
  qed
qed

lemma frontier_opens:
  assumes "frontier_with_limit stops raw limit = Ok g"
  shows "frontier_at stops raw [0] 0 [] g \<and> gf_visible g = []"
proof -
  from assms have "[] \<notin> set stops" and g: "g = \<lparr>gf_stops = stops, gf_pending = [], gf_pending_offset = 0, gf_token_boundaries = [0],
      gf_sampled_tokens = 0, gf_visible = [], gf_stripping = (\<not> raw), gf_finish_reason = None, gf_stop_alignment = None\<rparr>"
    by (auto simp: frontier_with_limit_def list_ex_iff split: if_splits)
  then show ?thesis
    by (auto simp: frontier_at_def occurs_def ends_in_def shown_def shows_text_def rendered_def trim_start_def)
qed

lemma reference_before_stops:
  assumes "[] \<notin> set stops" and "\<forall>s\<in>set stops. \<forall>i. \<not> occurs s i sofar" and "s \<in> set stops"
  shows "\<not> occurs s i (fst (reference_cut stops bs k sofar ps))"
  using assms(2)
proof (induction ps arbitrary: bs k sofar)
  case Nil
  with assms(3) show ?case by simp
next
  case (Cons p ps)
  obtain piece terminal where p: "p = (piece, terminal)" by (cases p)
  consider (terminal) terminal | (none) "\<not> terminal" "first_stop stops (sofar @ piece) = None"
    | (some) a b where "\<not> terminal" "first_stop stops (sofar @ piece) = Some (a, b)" by fastforce
  then show ?case
  proof cases
    case terminal
    then show ?thesis using Cons.prems assms(3) by (simp add: p)
  next
    case none
    then have "\<forall>s\<in>set stops. \<forall>i. \<not> occurs s i (sofar @ piece)" using first_stop_None[OF assms(1)] by blast
    from Cons.IH[OF this] none show ?thesis by (simp add: p Let_def)
  next
    case (some a b)
    note False = some(1) and ab = some(2)
    show ?thesis
    proof
      assume "occurs s i (fst (reference_cut stops bs k sofar (p # ps)))"
      with False ab have o: "occurs s i (take a (sofar @ piece))" by (simp add: p Let_def)
      from assms(1,3) have "0 < length s" by auto
      with occurs_take[OF o] have "occurs s i (sofar @ piece)" "i < a" by linarith+
      with first_stop_Some[OF assms(1) ab] assms(3) show False by blast
    qed
  qed
qed

lemma pushes_hold_back:
  assumes "frontier_at stops raw bs k sofar g" and "concat w = gf_visible g" and "length (gf_pending g) \<le> m + 3"
    and "\<forall>s\<in>set stops. length s \<le> m + 1" and "frontier_pushes collect ps (g, w) = ((g', w'), Ok ())"
    and "gf_finish_reason g' = None"
  shows "length (gf_pending g') \<le> m + 3"
  using assms(1-3,5)
proof (induction ps arbitrary: bs k sofar g w)
  case Nil
  then show ?case by simp
next
  case (Cons p ps)
  obtain piece terminal where p: "p = (piece, terminal)" by (cases p)
  have closed: False if "frontier_push piece terminal collect (g, w) = ((g1, w1), Ok c)" "finished_at raw q g1" for g1 w1 c q
  proof -
    from that(2) have "gf_finish_reason g1 \<noteq> None" by (auto simp: finished_at_def split: prod.splits)
    with that(1) Cons.prems(4) assms(6) show False by (simp add: p pushes_closed)
  qed
  show ?case
  proof (cases "terminal \<or> first_stop stops (sofar @ piece) \<noteq> None")
    case True
    have False
    proof (cases terminal)
      case True
      from push_terminal[OF Cons.prems(1,2), of piece] obtain g1 w1 where
        "frontier_push piece True collect (g, w) = ((g1, w1), Ok FrontierStop)" "finished_at raw (sofar, k + 1, ReasonStop, None) g1"
        by blast
      with closed[of g1 w1 FrontierStop "(sofar, k + 1, ReasonStop, None)"] True show False by simp
    next
      case False
      with True have "first_stop stops (sofar @ piece) \<noteq> None" by simp
      then obtain a b where "first_stop stops (sofar @ piece) = Some (a, b)" by (metis not_None_eq surj_pair)
      from push_stops[OF Cons.prems(1,2) this] obtain g1 w1 q where
        "frontier_push piece False collect (g, w) = ((g1, w1), Ok FrontierStop)" "finished_at raw q g1" by blast
      with closed[of g1 w1 FrontierStop q] False show False by simp
    qed
    then show ?thesis ..
  next
    case False
    then have none: "first_stop stops (sofar @ piece) = None" and t: "\<not> terminal" by (simp_all del: not_None_eq)
    from push_continues[OF Cons.prems(1,2) none] obtain g1 w1 where
      g1: "frontier_push piece False collect (g, w) = ((g1, w1), Ok FrontierContinue)" "concat w1 = gf_visible g1"
        "frontier_at stops raw (bs @ [length (sofar @ piece)]) (k + 1) (sofar @ piece) g1"
        "length (gf_pending g1) \<le> longest_possible_stop_suffix (extended piece g) + 3" by blast
    have "gf_stops g = stops" using Cons.prems(1) by (simp add: frontier_at_def)
    with assms(4) have "longest_possible_stop_suffix (extended piece g) \<le> m"
      unfolding longest_possible_stop_suffix_def by (intro foldr_max_le) (auto simp: partial_stop_bound)
    with g1(4) have "length (gf_pending g1) \<le> m + 3" by simp
    from Cons.IH[OF g1(3,2) this] Cons.prems(4) g1(1) t show ?thesis by (simp add: p)
  qed
qed

section \<open>Properties\<close>

text \<open>C23: Streaming loses nothing and shows nothing too early. For any stream of pieces, the texts that are emitted
  one after the other are together the final text; tokens, finish reason and stop alignment are those of the
  reference, which searches all bytes again after every piece. No stop sequence occurs in the bytes that the reference
  keeps, those before the stop; and where these bytes are valid UTF-8, the text is their rendering as a whole, however
  the pieces cut them. Of bytes that are not valid UTF-8 the text is not claimed (\<open>frontier_splits_character\<close> is
  an example where it depends on the pieces).\<close>

theorem frontier_streams_reference:
  assumes "frontier_with_limit stops raw limit = Ok g"
  shows "\<exists>g' w r. frontier_stream collect ps (g, []) = ((g', w), Ok r) \<and> concat w = fr_text r \<and>
    (case reference_cut stops [0] 0 [] ps of (bytes, n, reason, al) \<Rightarrow>
      fr_generated_tokens r = n \<and> fr_finish_reason r = reason \<and> fr_stop_alignment r = al \<and>
      (utf8_valid bytes \<longrightarrow> fr_text r = rendered raw bytes) \<and> (\<forall>s\<in>set stops. \<forall>i. \<not> occurs s i bytes))"
proof -
  from frontier_opens[OF assms] have o: "frontier_at stops raw [0] 0 [] g" and v: "concat [] = gf_visible g" by simp_all
  from o have ne: "[] \<notin> set stops" and e: "\<forall>s\<in>set stops. \<forall>i. \<not> occurs s i []" by (simp_all add: frontier_at_def)
  obtain bytes n reason al where q: "reference_cut stops [0] 0 [] ps = (bytes, n, reason, al)"
    by (cases "reference_cut stops [0] 0 [] ps") auto
  have "\<forall>s\<in>set stops. \<forall>i. \<not> occurs s i bytes" using reference_before_stops[OF ne e] q by (metis fst_conv)
  with stream_from[OF o v, of ps] q show ?thesis by auto
qed

theorem frontier_streams_reference_witness:
  "\<exists>g' w r. frontier_stream collect [([0x20, 0x78, 0xC3], False), ([0xA9, 0x61], False), ([0x62, 0x7A], False)]
      (\<lparr>gf_stops = [[0x61, 0x62]], gf_pending = [], gf_pending_offset = 0, gf_token_boundaries = [0], gf_sampled_tokens = 0,
        gf_visible = [], gf_stripping = True, gf_finish_reason = None, gf_stop_alignment = None\<rparr>, []) = ((g', w), Ok r) \<and>
    concat w = [0x78, 0xE9] \<and> fr_text r = [0x78, 0xE9] \<and> fr_finish_reason r = ReasonStop \<and> fr_stop_alignment r = Some CrossToken"
proof -
  have o: "frontier_with_limit [[0x61, 0x62]] False 4 = Ok \<lparr>gf_stops = [[0x61, 0x62]], gf_pending = [], gf_pending_offset = 0,
      gf_token_boundaries = [0], gf_sampled_tokens = 0, gf_visible = [], gf_stripping = True, gf_finish_reason = None,
      gf_stop_alignment = None\<rparr>" by (simp add: frontier_with_limit_def MAX_STOP_BYTES_def)
  have c: "reference_cut [[0x61, 0x62]] [0] 0 [] [([0x20, 0x78, 0xC3], False), ([0xA9, 0x61], False), ([0x62, 0x7A], False)] =
      ([0x20, 0x78, 0xC3, 0xA9], 3, ReasonStop, Some CrossToken)" by code_simp
  have v: "utf8_valid [0x20, 0x78, 0xC3, 0xA9]" and r: "rendered False [0x20, 0x78, 0xC3, 0xA9] = [0x78, 0xE9]"
    by code_simp+
  from frontier_streams_reference[OF o, of "[([0x20, 0x78, 0xC3], False), ([0xA9, 0x61], False), ([0x62, 0x7A], False)]"]
  show ?thesis unfolding c prod.case using v r by auto
qed

text \<open>The frontier answers promptly: while no stop sequence has been found it never holds back more than what the
  longest stop sequence but one byte and an incomplete character take, 258 bytes.\<close>

theorem frontier_holds_back_little:
  assumes "frontier_with_limit stops raw limit = Ok g" and "frontier_pushes collect ps (g, []) = ((g', w), Ok ())"
    and "gf_finish_reason g' = None"
  shows "length (gf_pending g') \<le> (MAX_STOP_BYTES - 1) + 3"
proof -
  from frontier_opens[OF assms(1)] have o: "frontier_at stops raw [0] 0 [] g" and v: "concat [] = gf_visible g" by simp_all
  from o have p: "gf_pending g = []" by (simp add: frontier_at_def)
  have "\<forall>s\<in>set stops. length s \<le> MAX_STOP_BYTES - 1 + 1"
    using assms(1) by (force simp: frontier_with_limit_def list_ex_iff MAX_STOP_BYTES_def split: if_splits)
  from pushes_hold_back[OF o v _ this assms(2,3)] p show ?thesis by simp
qed

theorem frontier_holds_back_little_witness:
  "\<exists>w. frontier_pushes collect [([0x61, 0x62, 0xE2, 0x82], False)]
      (\<lparr>gf_stops = [[0x62, 0x63]], gf_pending = [], gf_pending_offset = 0, gf_token_boundaries = [0], gf_sampled_tokens = 0,
        gf_visible = [], gf_stripping = True, gf_finish_reason = None, gf_stop_alignment = None\<rparr>, []) = 
     ((\<lparr>gf_stops = [[0x62, 0x63]], gf_pending = [0xE2, 0x82], gf_pending_offset = 2, gf_token_boundaries = [4], gf_sampled_tokens = 1,
        gf_visible = [0x61, 0x62], gf_stripping = False, gf_finish_reason = None, gf_stop_alignment = None\<rparr>, w), Ok ()) \<and>
     length [0xE2 :: byte, 0x82] \<le> (MAX_STOP_BYTES - 1) + 3"
proof -
  let ?g = "\<lparr>gf_stops = [[0x62, 0x63]], gf_pending = [], gf_pending_offset = 0, gf_token_boundaries = [0], gf_sampled_tokens = 0,
        gf_visible = [], gf_stripping = True, gf_finish_reason = None, gf_stop_alignment = None\<rparr>"
  have o: "frontier_with_limit [[0x62, 0x63]] False 4 = Ok ?g" by (simp add: frontier_with_limit_def MAX_STOP_BYTES_def)
  have p: "frontier_pushes collect [([0x61, 0x62, 0xE2, 0x82], False)] (?g, []) =
     ((\<lparr>gf_stops = [[0x62, 0x63]], gf_pending = [0xE2, 0x82], gf_pending_offset = 2, gf_token_boundaries = [4], gf_sampled_tokens = 1,
        gf_visible = [0x61, 0x62], gf_stripping = False, gf_finish_reason = None, gf_stop_alignment = None\<rparr>, [[0x61, 0x62]]), Ok ())"
    by code_simp
  from frontier_holds_back_little[OF o p] p show ?thesis by simp
qed

text \<open>An invalid byte makes the frontier give up on the incomplete character after it: the bytes of U+20AC, cut in two
  behind the byte FF, become four replacement characters; in one piece they are read.\<close>

lemma frontier_splits_character:
  "fr_text (case snd (frontier_stream collect [([0xFF, 0xE2], False), ([0x82, 0xAC], False)]
      (case frontier_new [] True of Ok g \<Rightarrow> (g, []))) of Ok r \<Rightarrow> r) = [0xFFFD, 0xFFFD, 0xFFFD, 0xFFFD] \<and>
   fr_text (case snd (frontier_stream collect [([0xFF, 0xE2, 0x82, 0xAC], False)]
      (case frontier_new [] True of Ok g \<Rightarrow> (g, []))) of Ok r \<Rightarrow> r) = [0xFFFD, 0x20AC]"
  by code_simp

end
