(* ===== verification/Compaction.thy ===== *)
theory Compaction
  imports Server_Types
begin

text \<open>
  Context compaction (\<open>crates/server/src/context_strategy.rs\<close>): the catalog of strategies, the choice
  among them, and the one built-in strategy, which keeps the turns that hold an anchor and the newest
  of the others that fit a budget. The tokens here are the words of a context.
\<close>

section \<open>Strings\<close>

definition starts_with :: "string \<Rightarrow> string \<Rightarrow> bool" where
  "starts_with p t \<longleftrightarrow> take (length p) t = p"

fun contains_str :: "string \<Rightarrow> string \<Rightarrow> bool" where
  "contains_str p [] = (p = [])"
| "contains_str p (c # t) = (starts_with p (c # t) \<or> contains_str p t)"

section \<open>Data\<close>

definition BUILTIN_STRATEGY_VERSION :: nat where "BUILTIN_STRATEGY_VERSION = 1"
definition COMPACTION_BLOCK_TOKENS :: nat where "COMPACTION_BLOCK_TOKENS = 64"
definition WINDOW_TAIL_STRATEGY_ID :: string where "WINDOW_TAIL_STRATEGY_ID = ''window_tail''"

datatype CompactionNoMatchFallback = NoCompact | RejectNoMatch

datatype CompactionTrigger = TriggerRequest | TriggerNone

record CompactionRequest =
  cq_declaration_id :: "string option"
  cq_strategy_preferences :: "string list"
  cq_fallback_when_no_match :: CompactionNoMatchFallback
  cq_trigger :: CompactionTrigger
  cq_target_tokens :: "nat option"

definition compaction_request_default :: CompactionRequest where
  "compaction_request_default = \<lparr>cq_declaration_id = None, cq_strategy_preferences = [], cq_fallback_when_no_match = NoCompact,
     cq_trigger = TriggerRequest, cq_target_tokens = None\<rparr>"

record CompactionStrategyInfo =
  si_strategy_id :: string
  si_version :: nat
  si_compact_mode :: string
  si_default_target_tokens :: nat
  si_target_alignment_tokens :: nat
  si_reason :: string

record CompactionStrategyCatalog =
  sc_version :: nat
  sc_strategies :: "CompactionStrategyInfo list"

datatype CompactionResultReason = RequestSatisfied | AnchorsOnly | BudgetTrimmed | ReasonNone

record CompactionResult =
  cr_compact_mode :: string
  cr_compact_reason :: CompactionResultReason
  cr_requested_strategy_ids :: "string list"
  cr_selected_strategy_id :: "string option"
  cr_requested_strategy_budget :: nat
  cr_resulting_budget :: nat
  cr_retained_indices :: "nat list"
  cr_retained_message_count :: nat
  cr_source_message_count :: nat
  cr_retained_anchor_count :: nat
  cr_success :: bool
  cr_fallback :: bool
  cr_resulting_context_epoch :: nat

record CompactionProposal =
  cp_resulting_tokens :: "string list"
  cp_compaction_result :: CompactionResult

section \<open>Choosing a strategy\<close>

definition strategy_catalog :: CompactionStrategyCatalog where
  "strategy_catalog = \<lparr>sc_version = BUILTIN_STRATEGY_VERSION, sc_strategies =
     [\<lparr>si_strategy_id = WINDOW_TAIL_STRATEGY_ID, si_version = BUILTIN_STRATEGY_VERSION, si_compact_mode = ''window_tail'',
       si_default_target_tokens = 3072, si_target_alignment_tokens = COMPACTION_BLOCK_TOKENS,
       si_reason = ''Keep newest turns while preserving anchor boundaries''\<rparr>]\<rparr>"

definition select_strategy :: "string list \<Rightarrow> string option" where
  "select_strategy preferences =
     (if preferences = [] then Some WINDOW_TAIL_STRATEGY_ID
      else find (\<lambda>r. list_ex (\<lambda>s. si_strategy_id s = r) (sc_strategies strategy_catalog)) preferences)"

definition deterministic_strategy_id :: "string \<Rightarrow> string" where
  "deterministic_strategy_id strategy = strategy @ '':v1''"

section \<open>Turns and anchors\<close>

definition is_role_boundary :: "string \<Rightarrow> bool" where
  "is_role_boundary t \<longleftrightarrow> contains_str ''<start_of_turn'' t \<or> t = ''</s>''"

text \<open>The loop of \<open>split_indexed_turns\<close> and of \<open>split_turns\<close>: \<open>boundary\<close> says where a turn begins.\<close>

fun split_loop :: "('t \<Rightarrow> bool) \<Rightarrow> 't list \<Rightarrow> 't list list \<Rightarrow> 't list \<Rightarrow> 't list list" where
  "split_loop boundary [] turns current = (if current \<noteq> [] then turns @ [current] else turns)"
| "split_loop boundary (t # ts) turns current =
     (if boundary t \<and> current \<noteq> [] then split_loop boundary ts (turns @ [current]) [t]
      else split_loop boundary ts turns (current @ [t]))"

definition split_indexed_turns :: "string list \<Rightarrow> (nat \<times> string) list list" where
  "split_indexed_turns tokens = split_loop (\<lambda>(_, t). is_role_boundary t) (enumerate 0 tokens) [] []"

definition split_turns :: "string list \<Rightarrow> string list list" where
  "split_turns tokens = (let turns = split_loop is_role_boundary tokens [] [] in if turns = [] then [tokens] else turns)"

definition source_messages :: "string list \<Rightarrow> nat" where
  "source_messages tokens = length (split_turns tokens)"

definition is_anchor :: "string \<Rightarrow> bool" where
  "is_anchor t \<longleftrightarrow> starts_with ''<start_of_turn>system'' t \<or> starts_with ''<start_of_turn>tool'' t
     \<or> starts_with ''<system'' t \<or> starts_with ''<|system|>'' t"

definition anchor_indices :: "string list \<Rightarrow> nat list" where
  "anchor_indices tokens = map fst (filter (\<lambda>(_, t). is_anchor t) (enumerate 0 tokens))"

definition turn_has_policy_anchor :: "(nat \<times> string) list \<Rightarrow> bool" where
  "turn_has_policy_anchor turn \<longleftrightarrow> list_ex (\<lambda>(_, t). is_anchor t) turn"

section \<open>The window-tail strategy\<close>

definition selection_budget :: "nat \<Rightarrow> nat" where
  "selection_budget requested = (if COMPACTION_BLOCK_TOKENS \<le> requested then requested - requested mod COMPACTION_BLOCK_TOKENS else requested)"

text \<open>The loop over the turns, newest first; \<open>used\<close> and \<open>retained\<close> are what has been taken.\<close>

fun tail_loop :: "nat list \<Rightarrow> nat \<Rightarrow> (nat \<times> string) list list \<Rightarrow> nat \<Rightarrow> (nat \<times> string) list \<Rightarrow> nat \<times> (nat \<times> string) list" where
  "tail_loop anchors budget [] used retained = (used, retained)"
| "tail_loop anchors budget (turn # turns) used retained =
     (if list_ex (\<lambda>(i, _). i \<in> set anchors) turn then tail_loop anchors budget turns used retained
      else if budget < used + length turn then tail_loop anchors budget turns used retained
      else tail_loop anchors budget turns (used + length turn) (retained @ turn))"

definition anchored :: "(nat \<times> string) list list \<Rightarrow> (nat \<times> string) list" where
  "anchored turns = concat (filter turn_has_policy_anchor turns)"

definition anchored_used :: "(nat \<times> string) list list \<Rightarrow> nat" where
  "anchored_used turns = foldl (\<lambda>used turn. saturating_add used (length turn)) 0 (filter turn_has_policy_anchor turns)"

text \<open>Where nothing was kept: the last turn, or the end of it.\<close>

definition last_resort :: "nat \<Rightarrow> (nat \<times> string) list list \<Rightarrow> nat \<times> (nat \<times> string) list \<Rightarrow> nat \<times> (nat \<times> string) list" where
  "last_resort budget turns r = (if snd r \<noteq> [] \<or> turns = [] then r
     else (let turn = last turns in
       if budget < COMPACTION_BLOCK_TOKENS then (length turn, turn)
       else (let kept = drop (length turn - budget) turn in (length kept, kept))))"

definition window_tail :: "string list \<Rightarrow> nat \<Rightarrow> nat \<times> (nat \<times> string) list" where
  "window_tail tokens budget = (let turns = split_indexed_turns tokens in
     last_resort budget turns (tail_loop (anchor_indices tokens) budget (rev turns) (anchored_used turns) (anchored turns)))"

definition compaction_result ::
  "CompactionResultReason \<Rightarrow> string list \<Rightarrow> nat \<Rightarrow> nat list \<Rightarrow> nat \<Rightarrow> nat \<Rightarrow> nat \<Rightarrow> bool \<Rightarrow> CompactionResult" where
  "compaction_result reason requested budget indices messages sources anchors fallback =
     \<lparr>cr_compact_mode = ''window_tail'', cr_compact_reason = reason, cr_requested_strategy_ids = requested,
       cr_selected_strategy_id = Some WINDOW_TAIL_STRATEGY_ID, cr_requested_strategy_budget = budget,
       cr_resulting_budget = length indices, cr_retained_indices = indices, cr_retained_message_count = messages,
       cr_source_message_count = sources, cr_retained_anchor_count = anchors, cr_success = True, cr_fallback = fallback,
       cr_resulting_context_epoch = 1\<rparr>"

definition apply_window_tail_strategy :: "string list \<Rightarrow> nat \<Rightarrow> string list \<Rightarrow> CompactionProposal" where
  "apply_window_tail_strategy tokens target requested = (let budget = max target 1; anchors = anchor_indices tokens in
     if tokens = [] then \<lparr>cp_resulting_tokens = [], cp_compaction_result = compaction_result ReasonNone requested budget [] 0 0 0 False\<rparr>
     else if length tokens \<le> budget
     then \<lparr>cp_resulting_tokens = tokens, cp_compaction_result = compaction_result RequestSatisfied requested budget [0..<length tokens]
       (source_messages tokens) (source_messages tokens) (length anchors) False\<rparr>
     else (case window_tail tokens (selection_budget budget) of (used, kept) \<Rightarrow>
       (let retained = sort_key fst kept; indices = map fst retained; result = map snd retained in
        \<lparr>cp_resulting_tokens = result,
         cp_compaction_result = compaction_result
           (if budget < used \<or> anchors \<noteq> [] \<and> \<not> list_ex (\<lambda>i. i \<in> set anchors) indices then AnchorsOnly else BudgetTrimmed)
           requested budget indices (length (split_turns result)) (source_messages tokens)
           (length (filter (\<lambda>i. i \<in> set anchors) indices)) (budget < used)\<rparr>)))"

end
