(* ===== verification/Compaction_Props.thy ===== *)
theory Compaction_Props
  imports Compaction
begin

text \<open>What a compaction keeps: anchors always, whole turns, in their order, within the budget.\<close>

section \<open>Turns\<close>

lemma concat_split_loop: "concat (split_loop b ts turns current) = concat turns @ current @ ts"
  by (induction b ts turns current rule: split_loop.induct) auto

lemma concat_turns: "concat (split_indexed_turns tokens) = enumerate 0 tokens"
  by (simp add: split_indexed_turns_def concat_split_loop)

lemma split_loop_nonempty: "[] \<notin> set turns \<Longrightarrow> [] \<notin> set (split_loop b ts turns current)"
  by (induction b ts turns current rule: split_loop.induct) auto

lemma turns_nonempty: "[] \<notin> set (split_indexed_turns tokens)"
  by (simp add: split_indexed_turns_def split_loop_nonempty)

lemma anchor_indices_iff: "i \<in> set (anchor_indices tokens) \<longleftrightarrow> i < length tokens \<and> is_anchor (tokens ! i)"
  by (force simp: anchor_indices_def in_set_enumerate_eq image_iff)

text \<open>Both tests for an anchor agree on the turns of a text.\<close>

lemma anchored_turn:
  assumes "set turn \<subseteq> set (enumerate 0 tokens)"
  shows "list_ex (\<lambda>(i, _). i \<in> set (anchor_indices tokens)) turn = turn_has_policy_anchor turn"
proof -
  have "(i \<in> set (anchor_indices tokens)) = is_anchor t" if "(i, t) \<in> set turn" for i t
    using assms that by (auto simp: anchor_indices_iff in_set_enumerate_eq)
  then show ?thesis by (auto simp: turn_has_policy_anchor_def list_ex_iff)
qed

section \<open>The loop over the turns\<close>

lemma tail_loop_keeps:
  "\<exists>ys rest. tail_loop anchors budget turns used retained = (used + length (concat ys), retained @ concat ys) \<and>
     mset (ys @ rest) = mset (filter (\<lambda>t. \<not> list_ex (\<lambda>(i, _). i \<in> set anchors) t) turns) \<and>
     (used \<le> budget \<longrightarrow> used + length (concat ys) \<le> budget) \<and> (ys = [] \<or> used + length (concat ys) \<le> budget)"
proof (induction anchors budget turns used retained rule: tail_loop.induct)
  case (1 anchors budget used retained)
  show ?case by (intro exI[of _ "[]"]) simp
next
  case (2 anchors budget turn turns used retained)
  show ?case
  proof (cases "list_ex (\<lambda>(i, _). i \<in> set anchors) turn")
    case True
    with 2(1) show ?thesis by simp
  next
    case False
    show ?thesis
    proof (cases "budget < used + length turn")
      case True
      with 2(2) False obtain ys rest where "tail_loop anchors budget turns used retained = (used + length (concat ys), retained @ concat ys)"
        "mset (ys @ rest) = mset (filter (\<lambda>t. \<not> list_ex (\<lambda>(i, _). i \<in> set anchors) t) turns)"
        "used \<le> budget \<longrightarrow> used + length (concat ys) \<le> budget" "ys = [] \<or> used + length (concat ys) \<le> budget" by blast
      with False True show ?thesis by (intro exI[of _ ys] exI[of _ "turn # rest"]) simp
    next
      case fit: False
      with 2(3) False obtain ys rest where "tail_loop anchors budget turns (used + length turn) (retained @ turn) =
          (used + length turn + length (concat ys), (retained @ turn) @ concat ys)"
        "mset (ys @ rest) = mset (filter (\<lambda>t. \<not> list_ex (\<lambda>(i, _). i \<in> set anchors) t) turns)"
        "used + length turn \<le> budget \<longrightarrow> used + length turn + length (concat ys) \<le> budget" by blast
      with False fit show ?thesis by (intro exI[of _ "turn # ys"] exI[of _ rest]) (simp add: add.assoc)
    qed
  qed
qed

lemma anchored_used_exact:
  "length (concat turns) \<le> u64_max \<Longrightarrow> anchored_used turns = length (anchored turns)"
proof -
  have "foldl (\<lambda>used turn. saturating_add used (length turn)) n ts = n + length (concat ts)"
    if "n + length (concat ts) \<le> u64_max" for n and ts :: "(nat \<times> string) list list"
    using that
  proof (induction ts arbitrary: n)
    case (Cons t ts)
    then have "saturating_add n (length t) = n + length t" by (simp add: saturating_add_def)
    with Cons show ?case by simp
  qed simp
  moreover assume "length (concat turns) \<le> u64_max"
  then have "length (concat (filter turn_has_policy_anchor turns)) \<le> u64_max"
    by (rule order.trans[rotated]) (induction turns, auto)
  ultimately show ?thesis by (simp add: anchored_used_def anchored_def)
qed

lemma mset_concat_image: "mset (concat xs) = sum_mset (image_mset mset (mset xs))"
  by (induction xs) auto

text \<open>
  What is kept is a part of the numbered tokens with every anchored turn in it. \<open>used\<close> counts it, and it
  exceeds the budget only where the anchored turns do or a single turn stands for the text.
\<close>

lemma window_tail_keeps:
  assumes "window_tail tokens budget = (used, kept)"
  shows "\<exists>rest. mset (kept @ rest) = mset (enumerate 0 tokens)"
    and "set (anchored (split_indexed_turns tokens)) \<subseteq> set kept"
    and "length tokens \<le> u64_max \<Longrightarrow> used = length kept"
    and "tokens \<noteq> [] \<Longrightarrow> 0 < budget \<Longrightarrow> kept \<noteq> []"
    and "length tokens \<le> u64_max \<Longrightarrow> COMPACTION_BLOCK_TOKENS \<le> budget \<Longrightarrow>
      used \<le> max budget (length (anchored (split_indexed_turns tokens)))"
    and "length tokens \<le> u64_max \<Longrightarrow> budget < COMPACTION_BLOCK_TOKENS \<Longrightarrow>
      used \<le> max budget (length (anchored (split_indexed_turns tokens))) \<or>
      anchored (split_indexed_turns tokens) = [] \<and> used = length (last (split_indexed_turns tokens))"
proof -
  let ?turns = "split_indexed_turns tokens" let ?a = "anchored ?turns" let ?anchors = "anchor_indices tokens"
  have sub: "set t \<subseteq> set (enumerate 0 tokens)" if "t \<in> set ?turns" for t
    using that concat_turns[of tokens] by (metis Union_upper image_eqI set_concat)
  have flt: "filter (\<lambda>t. \<not> list_ex (\<lambda>(i, _). i \<in> set ?anchors) t) (rev ?turns) = filter (\<lambda>t. \<not> turn_has_policy_anchor t) (rev ?turns)"
    by (rule filter_cong) (use sub anchored_turn in auto)
  obtain ys rest where tl: "tail_loop ?anchors budget (rev ?turns) (anchored_used ?turns) ?a =
      (anchored_used ?turns + length (concat ys), ?a @ concat ys)"
    and ys: "mset (ys @ rest) = mset (filter (\<lambda>t. \<not> turn_has_policy_anchor t) (rev ?turns))"
    and bound: "anchored_used ?turns \<le> budget \<longrightarrow> anchored_used ?turns + length (concat ys) \<le> budget"
      "ys = [] \<or> anchored_used ?turns + length (concat ys) \<le> budget"
    using tail_loop_keeps[of ?anchors budget "rev ?turns" "anchored_used ?turns" ?a] unfolding flt by blast
  have wt: "(used, kept) = last_resort budget ?turns (anchored_used ?turns + length (concat ys), ?a @ concat ys)"
    using assms by (simp add: window_tail_def tl Let_def)
  have len: "length (concat ?turns) = length tokens" by (simp add: concat_turns)
  have perm: "mset ((?a @ concat ys) @ concat rest) = mset (enumerate 0 tokens)"
  proof -
    have "mset (concat (ys @ rest)) = mset (concat (filter (\<lambda>t. \<not> turn_has_policy_anchor t) ?turns))"
    proof -
      have "mset (ys @ rest) = mset (filter (\<lambda>t. \<not> turn_has_policy_anchor t) ?turns)" using ys by (simp add: rev_filter[symmetric])
      then show ?thesis by (simp only: mset_concat_image)
    qed
    moreover have "mset (concat ts) = mset (anchored ts) + mset (concat (filter (\<lambda>t. \<not> turn_has_policy_anchor t) ts))" for ts
      unfolding anchored_def by (induction ts) (simp_all add: ac_simps)
    from this[of ?turns] have "mset (concat ?turns) = mset ?a + mset (concat (filter (\<lambda>t. \<not> turn_has_policy_anchor t) ?turns))" .
    ultimately show ?thesis by (simp add: concat_turns)
  qed
  consider (normal) "(used, kept) = (anchored_used ?turns + length (concat ys), ?a @ concat ys)" "kept \<noteq> [] \<or> ?turns = []"
    | (whole) "?a @ concat ys = []" "?turns \<noteq> []" "budget < COMPACTION_BLOCK_TOKENS" "kept = last ?turns" "used = length kept"
    | (part) "?a @ concat ys = []" "?turns \<noteq> []" "COMPACTION_BLOCK_TOKENS \<le> budget" "used = length kept"
        "kept = drop (length (last ?turns) - budget) (last ?turns)"
    using wt by (auto simp: last_resort_def Let_def split: if_splits)
  note cases = this
  have last: "\<exists>r. mset (drop n (last ?turns) @ r) = mset (enumerate 0 tokens)" if "?turns \<noteq> []" for n
  proof -
    have "enumerate 0 tokens = concat (butlast ?turns) @ last ?turns"
      using concat_turns[of tokens] that by (metis append_butlast_last_id concat.simps(1) concat.simps(2) concat_append append_Nil2)
    then have "mset (drop n (last ?turns) @ (take n (last ?turns) @ concat (butlast ?turns))) = mset (enumerate 0 tokens)"
      by (metis append_assoc append_take_drop_id mset_append union_commute)
    then show ?thesis by blast
  qed
  show "\<exists>rest. mset (kept @ rest) = mset (enumerate 0 tokens)"
    using cases
  proof cases
    case normal
    with perm show ?thesis by blast
  next
    case whole
    with last[of 0] show ?thesis by simp
  next
    case part
    with last show ?thesis by simp
  qed
  show "set ?a \<subseteq> set kept" using cases by cases auto
  show "used = length kept" if "length tokens \<le> u64_max"
    using cases anchored_used_exact[of ?turns] that len by cases auto
  show "kept \<noteq> []" if "tokens \<noteq> []" "0 < budget"
  proof -
    have "?turns \<noteq> []" using that(1) concat_turns[of tokens] by (metis concat.simps(1) enumerate_simps(1) length_0_conv length_enumerate)
    with turns_nonempty[of tokens] have "last ?turns \<noteq> []" by (metis last_in_set)
    with that(2) have "0 < min (length (last ?turns)) budget" by simp
    then have "drop (length (last ?turns) - budget) (last ?turns) \<noteq> []" by (simp del: length_greater_0_conv) linarith
    with cases \<open>?turns \<noteq> []\<close> \<open>last ?turns \<noteq> []\<close> show ?thesis by cases simp_all
  qed
  show "used \<le> max budget (length ?a)" if "length tokens \<le> u64_max" "COMPACTION_BLOCK_TOKENS \<le> budget"
    using cases
  proof cases
    case normal
    with bound anchored_used_exact[of ?turns] that len show ?thesis by auto
  qed (use that in auto)
  show "used \<le> max budget (length ?a) \<or> ?a = [] \<and> used = length (last ?turns)"
    if "length tokens \<le> u64_max" "budget < COMPACTION_BLOCK_TOKENS"
    using cases
  proof cases
    case normal
    with bound anchored_used_exact[of ?turns] that len show ?thesis by auto
  qed (use that in auto)
qed

section \<open>Properties\<close>

lemma kept_selection:
  assumes "mset (kept @ rest) = mset (enumerate 0 tokens)"
  shows "sorted_wrt (<) (map fst (sort_key fst kept))"
    and "\<forall>i\<in>set (map fst (sort_key fst kept)). i < length tokens"
    and "map snd (sort_key fst kept) = map ((!) tokens) (map fst (sort_key fst kept))"
proof -
  have d: "distinct (map fst (kept @ rest))"
  proof -
    have "mset (map fst (kept @ rest)) = mset (map fst (enumerate 0 tokens))" using assms by (metis mset_map)
    then show ?thesis by (metis distinct_upt map_fst_enumerate mset_eq_imp_distinct_iff)
  qed
  have "sorted (map fst (sort_key fst kept))" by simp
  moreover have "distinct (map fst (sort_key fst kept))"
  proof -
    have "mset (map fst (sort_key fst kept)) = mset (map fst kept)" by simp
    with d show ?thesis by (metis distinct_append map_append mset_eq_imp_distinct_iff)
  qed
  ultimately show "sorted_wrt (<) (map fst (sort_key fst kept))" by (simp add: strict_sorted_iff)
  have "set (kept @ rest) = set (enumerate 0 tokens)" using assms by (rule mset_eq_setD)
  then have sub: "set kept \<subseteq> set (enumerate 0 tokens)" by auto
  have k: "i < length tokens \<and> tokens ! i = t" if "(i, t) \<in> set kept" for i t
    using subsetD[OF sub that] by (simp add: in_set_enumerate_eq)
  then show "\<forall>i\<in>set (map fst (sort_key fst kept)). i < length tokens" by auto
  from k show "map snd (sort_key fst kept) = map ((!) tokens) (map fst (sort_key fst kept))" by auto
qed

lemma selection_budget_block:
  assumes "COMPACTION_BLOCK_TOKENS \<le> n"
  shows "COMPACTION_BLOCK_TOKENS \<le> selection_budget n"
proof -
  have "n - n mod 64 = n div 64 * 64" by (rule minus_mod_eq_div_mult)
  moreover have "1 \<le> n div 64" using assms by (simp add: COMPACTION_BLOCK_TOKENS_def Suc_le_eq div_greater_zero_iff)
  ultimately show ?thesis using assms by (simp add: selection_budget_def COMPACTION_BLOCK_TOKENS_def)
qed

lemma distinct_anchor_indices: "distinct (anchor_indices tokens)"
  unfolding anchor_indices_def by (rule distinct_map_filter) simp

lemma anchors_kept:
  assumes "window_tail tokens budget = (used, kept)" and "i \<in> set (anchor_indices tokens)"
  shows "i \<in> set (map fst kept)"
proof -
  from assms(2) have i: "i < length tokens" "is_anchor (tokens ! i)" by (simp_all add: anchor_indices_iff)
  then have "(i, tokens ! i) \<in> set (concat (split_indexed_turns tokens))" by (simp add: concat_turns in_set_enumerate_eq)
  then obtain turn where t: "turn \<in> set (split_indexed_turns tokens)" "(i, tokens ! i) \<in> set turn" by auto
  with i(2) have "turn_has_policy_anchor turn" by (auto simp: turn_has_policy_anchor_def list_ex_iff)
  with t have "(i, tokens ! i) \<in> set (anchored (split_indexed_turns tokens))" by (auto simp: anchored_def)
  with window_tail_keeps(2)[OF assms(1)] show ?thesis by force
qed

text \<open>C24: A compaction only selects. The retained indices are increasing positions of the source, the resulting tokens
  are the tokens at these positions, the reported budget is their number, and every anchor is retained and
  counted.\<close>

theorem compaction_selects:
  "let p = apply_window_tail_strategy tokens target requested; r = cp_compaction_result p; kept = cr_retained_indices r in
   sorted_wrt (<) kept \<and> (\<forall>i\<in>set kept. i < length tokens) \<and> cp_resulting_tokens p = map ((!) tokens) kept \<and>
   cr_resulting_budget r = length (cp_resulting_tokens p) \<and> set (anchor_indices tokens) \<subseteq> set kept \<and>
   cr_retained_anchor_count r = length (anchor_indices tokens)"
proof -
  consider (empty) "tokens = []" | (all) "tokens \<noteq> []" "length tokens \<le> max target 1"
    | (trim) "tokens \<noteq> []" "\<not> length tokens \<le> max target 1" by blast
  then show ?thesis
  proof cases
    case empty
    then show ?thesis by (simp add: apply_window_tail_strategy_def compaction_result_def anchor_indices_def)
  next
    case all
    have "set (anchor_indices tokens) \<subseteq> {0..<length tokens}" by (auto simp: anchor_indices_iff)
    with all show ?thesis
      by (simp add: apply_window_tail_strategy_def compaction_result_def Let_def map_nth)
  next
    case trim
    obtain used kept where wt: "window_tail tokens (selection_budget (max target 1)) = (used, kept)" by (cases "window_tail tokens (selection_budget (max target 1))")
    let ?i = "map fst (sort_key fst kept)"
    from window_tail_keeps(1)[OF wt] obtain rest where "mset (kept @ rest) = mset (enumerate 0 tokens)" by blast
    note sel = kept_selection[OF this]
    have sub: "set (anchor_indices tokens) \<subseteq> set ?i" using anchors_kept[OF wt] by auto
    have "length (filter (\<lambda>i. i \<in> set (anchor_indices tokens)) ?i) = card (set (filter (\<lambda>i. i \<in> set (anchor_indices tokens)) ?i))"
      using sel(1) by (intro distinct_card[symmetric] distinct_filter) (simp add: strict_sorted_iff)
    also have "set (filter (\<lambda>i. i \<in> set (anchor_indices tokens)) ?i) = set (anchor_indices tokens)" using sub by auto
    finally have cnt: "length (filter (\<lambda>i. i \<in> set (anchor_indices tokens)) ?i) = length (anchor_indices tokens)"
      by (simp add: distinct_card[OF distinct_anchor_indices])
    from trim wt have p: "cr_retained_indices (cp_compaction_result (apply_window_tail_strategy tokens target requested)) = ?i"
      "cp_resulting_tokens (apply_window_tail_strategy tokens target requested) = map snd (sort_key fst kept)"
      "cr_resulting_budget (cp_compaction_result (apply_window_tail_strategy tokens target requested)) = length ?i"
      "cr_retained_anchor_count (cp_compaction_result (apply_window_tail_strategy tokens target requested)) =
        length (filter (\<lambda>i. i \<in> set (anchor_indices tokens)) ?i)"
      by (simp_all add: apply_window_tail_strategy_def compaction_result_def Let_def del: set_map)
    show ?thesis unfolding Let_def p using sel sub cnt by simp
  qed
qed

text \<open>C25: A compaction keeps to the budget. It never makes a text empty; it reports a fallback exactly when what it
  keeps is longer than the requested budget. Where the text was longer than the requested budget, the result exceeds
  the budget that was selected for in two cases only: it is no longer than the turns that hold an anchor together
  (all of which are kept), or, for a target of less than a block and a text without an anchor, it has the length of the whole last turn.\<close>

theorem compaction_budget:
  assumes "length tokens \<le> u64_max"
  shows "let p = apply_window_tail_strategy tokens target requested; r = cp_compaction_result p; n = length (cp_resulting_tokens p) in
   (tokens \<noteq> [] \<longrightarrow> 0 < n) \<and> cr_fallback r = (max target 1 < n) \<and>
   (max target 1 < length tokens \<and> selection_budget (max target 1) < n \<longrightarrow>
     n \<le> length (anchored (split_indexed_turns tokens)) \<or>
     target < COMPACTION_BLOCK_TOKENS \<and> anchored (split_indexed_turns tokens) = [] \<and> n = length (last (split_indexed_turns tokens)))"
proof -
  consider (empty) "tokens = []" | (all) "tokens \<noteq> []" "length tokens \<le> max target 1"
    | (trim) "tokens \<noteq> []" "\<not> length tokens \<le> max target 1" by blast
  then show ?thesis
  proof cases
    case trim
    obtain used kept where wt: "window_tail tokens (selection_budget (max target 1)) = (used, kept)" by (cases "window_tail tokens (selection_budget (max target 1))")
    have pos: "0 < selection_budget (max target 1)"
      by (auto simp: selection_budget_def COMPACTION_BLOCK_TOKENS_def)
    note k = window_tail_keeps(3)[OF wt assms] window_tail_keeps(4)[OF wt trim(1) pos] window_tail_keeps(5)[OF wt assms]
      window_tail_keeps(6)[OF wt assms]
    from trim wt have p: "cp_resulting_tokens (apply_window_tail_strategy tokens target requested) = map snd (sort_key fst kept)"
      "cr_fallback (cp_compaction_result (apply_window_tail_strategy tokens target requested)) = (max target 1 < used)"
      by (simp_all add: apply_window_tail_strategy_def compaction_result_def Let_def)
    have n: "length (map snd (sort_key fst kept)) = used" using k(1) by simp
    have "used \<le> length (anchored (split_indexed_turns tokens)) \<or>
        target < COMPACTION_BLOCK_TOKENS \<and> anchored (split_indexed_turns tokens) = [] \<and> used = length (last (split_indexed_turns tokens))"
      if big: "selection_budget (max target 1) < used"
    proof (cases "COMPACTION_BLOCK_TOKENS \<le> target")
      case True
      then have "max target 1 = target" by (simp add: COMPACTION_BLOCK_TOKENS_def)
      then have e: "selection_budget (max target 1) = selection_budget target" by (simp only:)
      from k(3)[unfolded e, OF selection_budget_block[OF True]] big[unfolded e]
      show ?thesis by (simp only: le_max_iff_disj) linarith
    next
      case False
      then have "selection_budget (max target 1) < COMPACTION_BLOCK_TOKENS"
        by (simp add: selection_budget_def COMPACTION_BLOCK_TOKENS_def)
      from k(4)[OF this] big False show ?thesis by auto
    qed
    moreover have "0 < used" using k(1,2) by simp
    ultimately show ?thesis unfolding Let_def p n by blast
  next
    case empty
    then show ?thesis by (simp add: apply_window_tail_strategy_def compaction_result_def)
  next
    case all
    then have "apply_window_tail_strategy tokens target requested = \<lparr>cp_resulting_tokens = tokens, cp_compaction_result =
        compaction_result RequestSatisfied requested (max target 1) [0..<length tokens] (source_messages tokens) (source_messages tokens)
          (length (anchor_indices tokens)) False\<rparr>" by (simp add: apply_window_tail_strategy_def Let_def)
    with all show ?thesis by (auto simp: compaction_result_def Let_def le_max_iff_disj)
  qed
qed

definition demo_words :: "string list" where
  "demo_words = [''<start_of_turn>system'', ''be'', ''<start_of_turn>user'', ''a'', ''b'', ''<start_of_turn>user'', ''c'']"

theorem compaction_selects_witness:
  "let p = apply_window_tail_strategy demo_words 4 [] in cp_resulting_tokens p =
     [''<start_of_turn>system'', ''be'', ''<start_of_turn>user'', ''c''] \<and>
   set (anchor_indices demo_words) \<subseteq> set (cr_retained_indices (cp_compaction_result p))"
proof -
  have "cp_resulting_tokens (apply_window_tail_strategy demo_words 4 []) = [''<start_of_turn>system'', ''be'', ''<start_of_turn>user'', ''c'']"
    unfolding demo_words_def by code_simp
  with compaction_selects[of demo_words 4 "[]"] show ?thesis unfolding Let_def by blast
qed

text \<open>A system turn of 70 words and a question, with a budget of one block: the system turn is kept although it is
  longer than the budget, and nothing else is.\<close>

definition long_words :: "string list" where
  "long_words = ''<start_of_turn>system'' # replicate 69 ''w'' @ [''<start_of_turn>user'', ''c'']"

lemma long_words_compacted:
  "length (cp_resulting_tokens (apply_window_tail_strategy long_words 64 [])) = 70"
  by code_simp

theorem compaction_budget_witness:
  "selection_budget (max 64 1) < length (cp_resulting_tokens (apply_window_tail_strategy long_words 64 [])) \<and>
   length (cp_resulting_tokens (apply_window_tail_strategy long_words 64 [])) \<le> length (anchored (split_indexed_turns long_words)) \<and>
   cr_fallback (cp_compaction_result (apply_window_tail_strategy long_words 64 []))"
proof -
  have l: "length long_words = 72" by (simp add: long_words_def)
  then have u: "length long_words \<le> u64_max" by (simp add: u64_max_def)
  have s: "selection_budget (max 64 1) = 64" by (simp add: selection_budget_def COMPACTION_BLOCK_TOKENS_def)
  from compaction_budget[OF u, of 64 "[]"] show ?thesis
    unfolding Let_def long_words_compacted l s by (simp add: COMPACTION_BLOCK_TOKENS_def)
qed

end
