(* ===== verification/Admission.thy ===== *)
theory Admission
  imports Request_Control
begin

text \<open>
  Admission of requests (\<open>Inner\<close>, \<open>Server\<close>, \<open>AdmissionGuard\<close>, \<open>PrequeueGate\<close> in
  \<open>crates/server/src/lib.rs\<close>): a limited number of requests is active, others wait in a queue with
  a one-shot channel each, and a guard gives the place back when it is dropped. Every definition on
  \<open>Inner\<close> is one critical section of its mutex; the channels and the atomic states of the controls are
  kept in the same record, because the critical sections use them.
\<close>

section \<open>Configuration\<close>

record ServerConfig =
  sg_active_requests :: nat
  sg_queue_count :: nat
  sg_queue_bytes :: nat
  sg_request_bytes :: nat
  sg_pre_queue_concurrency :: nat
  sg_default_output_tokens :: nat
  sg_header_bytes :: nat
  sg_body_timeout_ms :: nat
  sg_wall_time_ms :: nat
  sg_active_time_ms :: nat
  sg_stream_buffer :: nat
  sg_shutdown_grace_ms :: nat
  sg_compaction_enabled :: bool
  sg_compaction_workers :: nat
  sg_compaction_declarations :: nat
  sg_declaration_rate_per_minute :: nat
  sg_declaration_lifetime_ms :: nat

definition config_nonzero :: "ServerConfig \<Rightarrow> bool" where
  "config_nonzero c \<longleftrightarrow> list_all (\<lambda>n. n \<noteq> 0) [sg_active_requests c, sg_queue_count c, sg_queue_bytes c, sg_request_bytes c,
     sg_pre_queue_concurrency c, sg_default_output_tokens c, sg_header_bytes c, sg_body_timeout_ms c, sg_wall_time_ms c,
     sg_active_time_ms c, sg_stream_buffer c, sg_shutdown_grace_ms c, sg_compaction_workers c, sg_compaction_declarations c,
     sg_declaration_rate_per_minute c, sg_declaration_lifetime_ms c]"

section \<open>Gates\<close>

text \<open>A gate is a semaphore whose limit can change; \<open>pg_retire\<close> permits that are out are given up on return.\<close>

record PrequeueGate =
  pg_limit :: nat
  pg_retire :: nat
  pg_permits :: nat

definition gate_new :: "nat \<Rightarrow> PrequeueGate" where
  "gate_new limit = \<lparr>pg_limit = limit, pg_retire = 0, pg_permits = limit\<rparr>"

definition gate_try_acquire :: "PrequeueGate \<Rightarrow> PrequeueGate \<times> (server_error, unit) outcome" where
  "gate_try_acquire g = (if pg_permits g = 0 then (g, Err Busy) else (g\<lparr>pg_permits := pg_permits g - 1\<rparr>, Ok ()))"

definition gate_set_limit :: "nat \<Rightarrow> PrequeueGate \<Rightarrow> PrequeueGate" where
  "gate_set_limit limit g =
     (if limit < pg_limit g
      then (let reduction = pg_limit g - limit; retired = min reduction (pg_permits g) in
        g\<lparr>pg_limit := limit, pg_retire := pg_retire g + (reduction - retired), pg_permits := pg_permits g - retired\<rparr>)
      else (let increase = limit - pg_limit g; revived = min increase (pg_retire g) in
        g\<lparr>pg_limit := limit, pg_retire := pg_retire g - revived, pg_permits := pg_permits g + (increase - revived)\<rparr>))"

text \<open>Dropping a permit decides under the lock whether it is returned, and returns it after the lock.\<close>

definition gate_drop :: "PrequeueGate \<Rightarrow> PrequeueGate \<times> bool" where
  "gate_drop g = (if pg_retire g = 0 then (g, True) else (g\<lparr>pg_retire := pg_retire g - 1\<rparr>, False))"

definition gate_return :: "PrequeueGate \<Rightarrow> PrequeueGate" where
  "gate_return g = g\<lparr>pg_permits := pg_permits g + 1\<rparr>"

section \<open>The admission state\<close>

record QueueEntry =
  qe_ticket :: nat
  qe_request_id :: string
  qe_bytes :: nat

text \<open>The one-shot channel of a ticket: what the sender did, and whether the receiver is still there.\<close>

datatype Signal = Unsent | Sent | SenderDropped

record Channel =
  ch_signal :: Signal
  ch_open :: bool

record Inner =
  in_controls :: "(string, nat) hm"
  in_pending_cancelled :: "string list"
  in_active :: nat
  in_limit :: nat
  in_queue :: "QueueEntry list"
  in_queued_bytes :: nat
  in_next_ticket :: nat
  in_shutting_down :: bool
  in_config :: ServerConfig
  in_channels :: "(nat, Channel) hm"
  in_store :: "(nat, RequestControl) hm"

record AdmissionGuard =
  ag_ticket :: "nat option"
  ag_request :: "string option"
  ag_control :: nat
  ag_active :: bool

record AdmissionMetrics =
  am_active :: nat
  am_queued :: nat
  am_queued_bytes :: nat

definition inner_open :: "ServerConfig \<Rightarrow> Inner" where
  "inner_open config = \<lparr>in_controls = [], in_pending_cancelled = [], in_active = 0, in_limit = sg_active_requests config,
     in_queue = [], in_queued_bytes = 0, in_next_ticket = 0, in_shutting_down = False, in_config = config,
     in_channels = [], in_store = []\<rparr>"

definition wrapping_sub :: "nat \<Rightarrow> nat \<Rightarrow> nat" where
  "wrapping_sub a b = (if b \<le> a then a - b else a + 2 ^ 64 - b)"

definition admission_metrics :: "Inner \<Rightarrow> AdmissionMetrics" where
  "admission_metrics s = \<lparr>am_active = in_active s, am_queued = length (in_queue s), am_queued_bytes = in_queued_bytes s\<rparr>"

section \<open>Channels and controls\<close>

definition set_channel :: "nat \<Rightarrow> Channel \<Rightarrow> Inner \<Rightarrow> Inner" where
  "set_channel t c s = s\<lparr>in_channels := hm_put t c (in_channels s)\<rparr>"

text \<open>\<open>ready.send(())\<close> succeeds while the receiver is there.\<close>

definition send_ready :: "nat \<Rightarrow> Inner \<Rightarrow> Inner \<times> bool" where
  "send_ready t s = (case map_of (in_channels s) t of
       Some c \<Rightarrow> if ch_open c then (set_channel t (c\<lparr>ch_signal := Sent\<rparr>) s, True) else (s, False)
     | None \<Rightarrow> (s, False))"

text \<open>An entry that leaves the queue unsent takes its sender with it.\<close>

definition drop_sender :: "nat \<Rightarrow> Inner \<Rightarrow> Inner" where
  "drop_sender t s = (case map_of (in_channels s) t of
       Some c \<Rightarrow> set_channel t (c\<lparr>ch_signal := SenderDropped\<rparr>) s
     | None \<Rightarrow> s)"

definition with_control :: "nat \<Rightarrow> (RequestControl \<Rightarrow> RequestControl) \<Rightarrow> Inner \<Rightarrow> Inner" where
  "with_control c f s = (case map_of (in_store s) c of None \<Rightarrow> s | Some r \<Rightarrow> s\<lparr>in_store := hm_put c (f r) (in_store s)\<rparr>)"

definition control_of :: "nat \<Rightarrow> Inner \<Rightarrow> (server_error, unit) outcome" where
  "control_of c s = (case map_of (in_store s) c of None \<Rightarrow> Abort | Some r \<Rightarrow> rc_check r)"

text \<open>The first entry with a property, and the queue without it.\<close>

fun take_entry :: "(QueueEntry \<Rightarrow> bool) \<Rightarrow> QueueEntry list \<Rightarrow> (QueueEntry \<times> QueueEntry list) option" where
  "take_entry P [] = None"
| "take_entry P (e # es) = (if P e then Some (e, es) else map_option (\<lambda>(x, xs). (x, e # xs)) (take_entry P es))"

section \<open>Promotion and release\<close>

fun promote :: "QueueEntry list \<Rightarrow> Inner \<Rightarrow> Inner" where
  "promote [] s = s\<lparr>in_queue := []\<rparr>"
| "promote (e # es) s =
     (if in_limit s \<le> in_active s then s\<lparr>in_queue := e # es\<rparr>
      else (case send_ready (qe_ticket e) (s\<lparr>in_queued_bytes := wrapping_sub (in_queued_bytes s) (qe_bytes e)\<rparr>) of
        (s', sent) \<Rightarrow> promote es (if sent then s'\<lparr>in_active := in_active s' + 1\<rparr> else s')))"

definition promote_queued :: "Inner \<Rightarrow> Inner" where
  "promote_queued s = promote (in_queue s) s"

definition forget_entry :: "QueueEntry \<Rightarrow> QueueEntry list \<Rightarrow> Inner \<Rightarrow> Inner" where
  "forget_entry e rest s = drop_sender (qe_ticket e)
     (s\<lparr>in_queue := rest, in_queued_bytes := wrapping_sub (in_queued_bytes s) (qe_bytes e)\<rparr>)"

definition complete_request :: "string option \<Rightarrow> Inner \<Rightarrow> Inner" where
  "complete_request request s = (case request of None \<Rightarrow> s | Some r \<Rightarrow> (case map_of (in_controls s) r of
       None \<Rightarrow> s | Some c \<Rightarrow> with_control c rc_complete (s\<lparr>in_controls := hm_del r (in_controls s)\<rparr>)))"

definition release_or_cancel_admission :: "nat option \<Rightarrow> string option \<Rightarrow> bool \<Rightarrow> Inner \<Rightarrow> Inner" where
  "release_or_cancel_admission ticket request active s = (let s = complete_request request s in
     promote_queued
       (if active then s\<lparr>in_active := in_active s - 1\<rparr>
        else (case ticket of None \<Rightarrow> s
          | Some t \<Rightarrow> (case take_entry (\<lambda>e. qe_ticket e = t) (in_queue s) of
              Some (e, rest) \<Rightarrow> forget_entry e rest s
            | None \<Rightarrow> s\<lparr>in_active := in_active s - 1\<rparr>))))"

definition guard_drop :: "AdmissionGuard \<Rightarrow> Inner \<Rightarrow> Inner" where
  "guard_drop g s = release_or_cancel_admission (ag_ticket g) (ag_request g) (ag_active g) s"

section \<open>Admission\<close>

definition active_guard :: "string \<Rightarrow> nat \<Rightarrow> AdmissionGuard" where
  "active_guard request c = \<lparr>ag_ticket = None, ag_request = Some request, ag_control = c, ag_active = True\<rparr>"

definition try_admit :: "string \<Rightarrow> nat \<Rightarrow> Inner \<Rightarrow> Inner \<times> (server_error, AdmissionGuard) outcome" where
  "try_admit request c s =
     (if request \<in> set (in_pending_cancelled s)
      then (s\<lparr>in_pending_cancelled := removeAll request (in_pending_cancelled s)\<rparr>, Err Cancelled)
      else if in_shutting_down s then (s, Err ShuttingDown)
      else if in_limit s \<le> in_active s \<or> in_queue s \<noteq> [] then (s, Err Busy)
      else (s\<lparr>in_active := in_active s + 1, in_controls := hm_put request c (in_controls s)\<rparr>, Ok (active_guard request c)))"

text \<open>The first critical section of \<open>reserve_admission\<close>: the guard is active, or it has a ticket.\<close>

definition reserve_admission :: "string \<Rightarrow> nat \<Rightarrow> nat \<Rightarrow> Inner \<Rightarrow> Inner \<times> (server_error, AdmissionGuard) outcome" where
  "reserve_admission request c bytes s =
     (if request \<in> set (in_pending_cancelled s)
      then (s\<lparr>in_pending_cancelled := removeAll request (in_pending_cancelled s)\<rparr>, Err Cancelled)
      else if in_shutting_down s then (s, Err ShuttingDown)
      else if sg_request_bytes (in_config s) < bytes then (s, Err PayloadTooLarge)
      else (let s = s\<lparr>in_controls := hm_put request c (in_controls s)\<rparr> in
        if in_active s < in_limit s \<and> in_queue s = [] then (s\<lparr>in_active := in_active s + 1\<rparr>, Ok (active_guard request c))
        else if sg_queue_count (in_config s) \<le> length (in_queue s) \<or> sg_queue_bytes (in_config s) - in_queued_bytes s < bytes
        then (s\<lparr>in_controls := hm_del request (in_controls s)\<rparr>, Err Busy)
        else (case checked_add (in_next_ticket s) 1 of
            None \<Rightarrow> (s, Err (StateError ''admission ticket space exhausted''))
          | Some next \<Rightarrow> (let ticket = in_next_ticket s in
              (set_channel ticket \<lparr>ch_signal = Unsent, ch_open = True\<rparr>
                (s\<lparr>in_next_ticket := next,
                   in_queue := in_queue s @ [\<lparr>qe_ticket = ticket, qe_request_id = request, qe_bytes = bytes\<rparr>],
                   in_queued_bytes := in_queued_bytes s + bytes\<rparr>),
               Ok \<lparr>ag_ticket = Some ticket, ag_request = Some request, ag_control = c, ag_active = False\<rparr>)))))"

text \<open>
  The wait ends: the receiver is gone, and the place was given, the sender was dropped, or the time is
  over. On an error the guard is dropped later, with the fields it has then.
\<close>

definition close_receiver :: "nat \<Rightarrow> Inner \<Rightarrow> Inner" where
  "close_receiver t s = (case map_of (in_channels s) t of None \<Rightarrow> s | Some c \<Rightarrow> set_channel t (c\<lparr>ch_open := False\<rparr>) s)"

definition wake_sent :: "AdmissionGuard \<Rightarrow> Inner \<Rightarrow> AdmissionGuard \<times> (server_error, unit) outcome" where
  "wake_sent g s = (case control_of (ag_control g) s of
       Ok _ \<Rightarrow> (g\<lparr>ag_ticket := None, ag_active := True\<rparr>, Ok ())
     | r \<Rightarrow> (g, r))"

definition wake_closed :: "AdmissionGuard \<Rightarrow> Inner \<Rightarrow> AdmissionGuard \<times> (server_error, unit) outcome" where
  "wake_closed g s = (g\<lparr>ag_ticket := None\<rparr>, case control_of (ag_control g) s of Ok _ \<Rightarrow> Err Cancelled | r \<Rightarrow> r)"

definition wake_late :: "AdmissionGuard \<Rightarrow> Inner \<Rightarrow> Inner \<times> (server_error, unit) outcome" where
  "wake_late g s = (with_control (ag_control g) (\<lambda>r. fst (rc_expire r)) s, Err Deadline)"

section \<open>Cancelling and configuring\<close>

definition cancel_request :: "string \<Rightarrow> Inner \<Rightarrow> Inner" where
  "cancel_request request s =
     (let s = (case map_of (in_controls s) request of
          Some c \<Rightarrow> with_control c (\<lambda>r. fst (rc_cancel r)) s
        | None \<Rightarrow> s\<lparr>in_pending_cancelled := List.insert request (in_pending_cancelled s)\<rparr>) in
      promote_queued (case take_entry (\<lambda>e. qe_request_id e = request) (in_queue s) of
          Some (e, rest) \<Rightarrow> forget_entry e rest s
        | None \<Rightarrow> s))"

definition set_admission_limit :: "nat \<Rightarrow> Inner \<Rightarrow> Inner" where
  "set_admission_limit limit s =
     promote_queued (s\<lparr>in_limit := limit, in_config := (in_config s)\<lparr>sg_active_requests := limit\<rparr>\<rparr>)"

definition begin_shutdown_inner :: "Inner \<Rightarrow> Inner" where
  "begin_shutdown_inner s = s\<lparr>in_shutting_down := True\<rparr>"

definition cancel_remaining :: "Inner \<Rightarrow> Inner" where
  "cancel_remaining s =
     fold (\<lambda>e. drop_sender (qe_ticket e)) (in_queue s)
       ((fold (\<lambda>c. with_control c (\<lambda>r. fst (rc_cancel r))) (hm_values (in_controls s)) s)\<lparr>in_queue := [], in_queued_bytes := 0\<rparr>)"

record ServerGates =
  sv_inner :: Inner
  sv_pre_queue :: PrequeueGate
  sv_workers :: PrequeueGate

definition server_configure :: "ServerConfig \<Rightarrow> ServerGates \<Rightarrow> ServerGates \<times> (server_error, unit) outcome" where
  "server_configure config sv =
     (if \<not> config_nonzero config then (sv, Err (StateError ''server limits must be nonzero''))
      else (\<lparr>sv_inner = promote_queued ((sv_inner sv)\<lparr>in_limit := sg_active_requests config, in_config := config\<rparr>),
             sv_pre_queue = gate_set_limit (sg_pre_queue_concurrency config) (sv_pre_queue sv),
             sv_workers = gate_set_limit (sg_compaction_workers config) (sv_workers sv)\<rparr>, Ok ()))"

section \<open>The steps of the system\<close>

text \<open>
  The server with the guards that exist. A wait can be given up at any time: by its deadline, or because
  the client went away and the future is dropped. The receiver goes first, the guard after it; when no
  other critical section lies between the two and the sender had not been dropped, the system is \<open>calm\<close>.
\<close>

record AdmissionSystem =
  as_inner :: Inner
  as_guards :: "AdmissionGuard list"

definition admission_init :: "ServerConfig \<Rightarrow> AdmissionSystem \<Rightarrow> bool" where
  "admission_init config y \<longleftrightarrow> y = \<lparr>as_inner = inner_open config, as_guards = []\<rparr> \<and> sg_queue_bytes config \<le> u64_max"

definition receiving :: "nat \<Rightarrow> Inner \<Rightarrow> bool" where
  "receiving t s = (case map_of (in_channels s) t of None \<Rightarrow> False | Some c \<Rightarrow> ch_open c)"

definition signal_of :: "nat \<Rightarrow> Inner \<Rightarrow> Signal" where
  "signal_of t s = (case map_of (in_channels s) t of None \<Rightarrow> SenderDropped | Some c \<Rightarrow> ch_signal c)"

definition new_control :: "nat \<Rightarrow> Inner \<Rightarrow> Inner" where
  "new_control c s = s\<lparr>in_store := hm_put c rc_new (in_store s)\<rparr>"

text \<open>The guard of a call that may have failed.\<close>

definition guarded :: "Inner \<times> (server_error, AdmissionGuard) outcome \<Rightarrow> AdmissionGuard list \<Rightarrow> AdmissionSystem" where
  "guarded r gs = \<lparr>as_inner = fst r, as_guards = (case snd r of Ok g \<Rightarrow> g # gs | _ \<Rightarrow> gs)\<rparr>"

definition waits_no_more :: "AdmissionGuard \<Rightarrow> Inner \<Rightarrow> bool" where
  "waits_no_more g s = (case ag_ticket g of None \<Rightarrow> True | Some t \<Rightarrow> \<not> receiving t s)"

inductive admission_step :: "bool \<Rightarrow> AdmissionSystem \<Rightarrow> AdmissionSystem \<Rightarrow> bool" for calm :: bool where
  step_try: "\<not> hm_has (in_store (as_inner y)) c \<Longrightarrow>
    admission_step calm y (guarded (try_admit request c (new_control c (as_inner y))) (as_guards y))"
| step_reserve: "\<not> hm_has (in_store (as_inner y)) c \<Longrightarrow>
    admission_step calm y (guarded (reserve_admission request c bytes (new_control c (as_inner y))) (as_guards y))"
| step_sent: "g \<in> set (as_guards y) \<Longrightarrow> ag_ticket g = Some t \<Longrightarrow> receiving t (as_inner y) \<Longrightarrow> signal_of t (as_inner y) = Sent \<Longrightarrow>
    admission_step calm y \<lparr>as_inner = close_receiver t (as_inner y),
      as_guards = fst (wake_sent g (as_inner y)) # remove1 g (as_guards y)\<rparr>"
| step_closed: "g \<in> set (as_guards y) \<Longrightarrow> ag_ticket g = Some t \<Longrightarrow> receiving t (as_inner y) \<Longrightarrow>
    signal_of t (as_inner y) = SenderDropped \<Longrightarrow>
    admission_step calm y \<lparr>as_inner = close_receiver t (as_inner y),
      as_guards = fst (wake_closed g (as_inner y)) # remove1 g (as_guards y)\<rparr>"
| step_give_up: "g \<in> set (as_guards y) \<Longrightarrow> ag_ticket g = Some t \<Longrightarrow> receiving t (as_inner y) \<Longrightarrow>
    calm \<longrightarrow> signal_of t (as_inner y) \<noteq> SenderDropped \<Longrightarrow>
    s = (if late then fst (wake_late g (close_receiver t (as_inner y))) else close_receiver t (as_inner y)) \<Longrightarrow>
    admission_step calm y (if calm then \<lparr>as_inner = guard_drop g s, as_guards = remove1 g (as_guards y)\<rparr>
      else y\<lparr>as_inner := s\<rparr>)"
| step_drop: "g \<in> set (as_guards y) \<Longrightarrow> waits_no_more g (as_inner y) \<Longrightarrow>
    admission_step calm y \<lparr>as_inner = guard_drop g (as_inner y), as_guards = remove1 g (as_guards y)\<rparr>"
| step_cancel: "admission_step calm y (y\<lparr>as_inner := cancel_request request (as_inner y)\<rparr>)"
| step_limit: "admission_step calm y (y\<lparr>as_inner := set_admission_limit limit (as_inner y)\<rparr>)"
| step_configure: "sg_queue_bytes config \<le> u64_max \<Longrightarrow>
    server_configure config \<lparr>sv_inner = as_inner y, sv_pre_queue = p, sv_workers = w\<rparr> = (sv, r) \<Longrightarrow>
    admission_step calm y (y\<lparr>as_inner := sv_inner sv\<rparr>)"
| step_shutdown: "admission_step calm y (y\<lparr>as_inner := begin_shutdown_inner (as_inner y)\<rparr>)"
| step_cancel_remaining: "admission_step calm y (y\<lparr>as_inner := cancel_remaining (as_inner y)\<rparr>)"
| step_control: "admission_step calm y (y\<lparr>as_inner := with_control c f (as_inner y)\<rparr>)"

definition admission_reach :: "bool \<Rightarrow> ServerConfig \<Rightarrow> AdmissionSystem \<Rightarrow> bool" where
  "admission_reach calm config y = reach (admission_init config) (admission_step calm) y"

text \<open>The places that are taken: active guards, and tickets a place was given to.\<close>

definition holds_place :: "Inner \<Rightarrow> AdmissionGuard \<Rightarrow> bool" where
  "holds_place s g \<longleftrightarrow> ag_active g \<or> (\<exists>t. ag_ticket g = Some t \<and> signal_of t s = Sent)"

definition places :: "AdmissionSystem \<Rightarrow> nat" where
  "places y = length (filter (holds_place (as_inner y)) (as_guards y))"

section \<open>The steps of a gate\<close>

text \<open>
  The permits that are held, and those that were dropped but are not back in the semaphore yet. The gate
  is calm when nothing lies between the two halves of a drop.
\<close>

record GateSystem =
  gs_gate :: PrequeueGate
  gs_held :: nat
  gs_returning :: nat

definition gate_init :: "nat \<Rightarrow> GateSystem \<Rightarrow> bool" where
  "gate_init limit y \<longleftrightarrow> y = \<lparr>gs_gate = gate_new limit, gs_held = 0, gs_returning = 0\<rparr>"

inductive gate_step :: "bool \<Rightarrow> GateSystem \<Rightarrow> GateSystem \<Rightarrow> bool" for calm :: bool where
  gate_acquire: "gate_try_acquire (gs_gate y) = (g, Ok ()) \<Longrightarrow>
    gate_step calm y (y\<lparr>gs_gate := g, gs_held := gs_held y + 1\<rparr>)"
| gate_limit: "gate_step calm y (y\<lparr>gs_gate := gate_set_limit limit (gs_gate y)\<rparr>)"
| gate_retire: "0 < gs_held y \<Longrightarrow> gate_drop (gs_gate y) = (g, False) \<Longrightarrow>
    gate_step calm y (y\<lparr>gs_gate := g, gs_held := gs_held y - 1\<rparr>)"
| gate_release: "0 < gs_held y \<Longrightarrow> gate_drop (gs_gate y) = (g, True) \<Longrightarrow>
    gate_step calm y (if calm then y\<lparr>gs_gate := gate_return g, gs_held := gs_held y - 1\<rparr>
      else y\<lparr>gs_gate := g, gs_held := gs_held y - 1, gs_returning := gs_returning y + 1\<rparr>)"
| gate_back: "0 < gs_returning y \<Longrightarrow>
    gate_step calm y (y\<lparr>gs_gate := gate_return (gs_gate y), gs_returning := gs_returning y - 1\<rparr>)"

definition gate_reach :: "bool \<Rightarrow> nat \<Rightarrow> GateSystem \<Rightarrow> bool" where
  "gate_reach calm limit y = reach (gate_init limit) (gate_step calm) y"

end
