(* ===== verification/Admission_Inv.thy ===== *)
theory Admission_Inv
  imports Admission
begin

text \<open>
  The invariant of the admission control. It only speaks of the queue, its bytes, the channels, the
  number of active requests and the guards, so it is stated over these.
\<close>

section \<open>The invariant\<close>

definition sig :: "(nat \<Rightarrow> Channel option) \<Rightarrow> nat \<Rightarrow> Signal" where
  "sig ch t = (case ch t of None \<Rightarrow> SenderDropped | Some c \<Rightarrow> ch_signal c)"

definition opn :: "(nat \<Rightarrow> Channel option) \<Rightarrow> nat \<Rightarrow> bool" where
  "opn ch t = (case ch t of None \<Rightarrow> False | Some c \<Rightarrow> ch_open c)"

definition holds :: "(nat \<Rightarrow> Channel option) \<Rightarrow> AdmissionGuard \<Rightarrow> bool" where
  "holds ch g \<longleftrightarrow> ag_active g \<or> (\<exists>t. ag_ticket g = Some t \<and> sig ch t = Sent)"

definition taken :: "(nat \<Rightarrow> Channel option) \<Rightarrow> AdmissionGuard list \<Rightarrow> nat" where
  "taken ch gs = length (filter (holds ch) gs)"

definition tickets :: "AdmissionGuard list \<Rightarrow> nat list" where
  "tickets gs = List.map_filter ag_ticket gs"

definition core_ok :: "QueueEntry list \<Rightarrow> nat \<Rightarrow> (nat \<Rightarrow> Channel option) \<Rightarrow> nat \<Rightarrow> AdmissionGuard list \<Rightarrow> bool" where
  "core_ok q b ch n gs \<longleftrightarrow> distinct (map qe_ticket q) \<and> b = sum_list (map qe_bytes q) \<and> b \<le> u64_max
     \<and> distinct (tickets gs) \<and> (\<forall>g\<in>set gs. ag_active g \<longrightarrow> ag_ticket g = None)
     \<and> (\<forall>t\<in>set (tickets gs). t < n)
     \<and> (\<forall>e\<in>set q. qe_ticket e \<in> set (tickets gs) \<and> sig ch (qe_ticket e) = Unsent)"

definition attentive :: "QueueEntry list \<Rightarrow> (nat \<Rightarrow> Channel option) \<Rightarrow> AdmissionGuard list \<Rightarrow> bool" where
  "attentive q ch gs \<longleftrightarrow> (\<forall>t\<in>set (tickets gs). (sig ch t = Unsent \<longrightarrow> t \<in> qe_ticket ` set q \<and> opn ch t)
     \<and> (sig ch t = SenderDropped \<longrightarrow> opn ch t))"

definition counted :: "bool \<Rightarrow> nat \<Rightarrow> (nat \<Rightarrow> Channel option) \<Rightarrow> AdmissionGuard list \<Rightarrow> bool" where
  "counted calm a ch gs \<longleftrightarrow> a \<le> taken ch gs \<and> (calm \<longrightarrow> a = taken ch gs)"

definition adm_inv :: "bool \<Rightarrow> QueueEntry list \<Rightarrow> nat \<Rightarrow> (nat \<Rightarrow> Channel option) \<Rightarrow> nat \<Rightarrow> nat \<Rightarrow> AdmissionGuard list \<Rightarrow> bool" where
  "adm_inv calm q b ch n a gs \<longleftrightarrow> core_ok q b ch n gs \<and> (calm \<longrightarrow> attentive q ch gs) \<and> counted calm a ch gs"

section \<open>Tickets of the guards\<close>

lemma tickets_simps [simp]:
  "tickets [] = []"
  "tickets (g # gs) = (case ag_ticket g of None \<Rightarrow> tickets gs | Some t \<Rightarrow> t # tickets gs)"
  by (simp_all add: tickets_def List.map_filter_simps split: option.split)

lemma tickets_iff: "t \<in> set (tickets gs) \<longleftrightarrow> (\<exists>g\<in>set gs. ag_ticket g = Some t)"
  by (induction gs) (auto split: option.splits)

lemma mset_tickets: "mset gs = mset hs \<Longrightarrow> mset (tickets gs) = mset (tickets hs)"
proof -
  have "mset (tickets gs) = image_mset the (filter_mset (\<lambda>x. x \<noteq> None) (image_mset ag_ticket (mset gs)))" for gs
    by (induction gs) (auto split: option.splits simp del: not_None_eq)
  then show "mset gs = mset hs \<Longrightarrow> ?thesis" by simp
qed

lemma taken_mset: "mset gs = mset hs \<Longrightarrow> taken ch gs = taken ch hs"
  unfolding taken_def by (metis mset_filter size_mset)

lemma adm_inv_perm:
  assumes "mset gs = mset hs"
  shows "adm_inv calm q b ch n a gs = adm_inv calm q b ch n a hs"
proof -
  note t = mset_tickets[OF assms]
  have "set (tickets gs) = set (tickets hs)" "set gs = set hs" using t assms by (auto dest: mset_eq_setD)
  moreover have "distinct (tickets gs) = distinct (tickets hs)" using t by (rule mset_eq_imp_distinct_iff)
  ultimately show ?thesis
    by (simp only: adm_inv_def core_ok_def attentive_def counted_def taken_mset[OF assms])
qed

lemma adm_inv_head:
  "g \<in> set gs \<Longrightarrow> adm_inv calm q b ch n a gs = adm_inv calm q b ch n a (g # remove1 g gs)"
  by (rule adm_inv_perm) simp

lemma taken_Cons [simp]: "taken ch (g # gs) = (if holds ch g then Suc (taken ch gs) else taken ch gs)"
  by (simp add: taken_def)

lemma taken_cong: "(\<And>t. t \<in> set (tickets gs) \<Longrightarrow> sig ch t = Sent \<longleftrightarrow> sig ch' t = Sent) \<Longrightarrow> taken ch gs = taken ch' gs"
  by (induction gs) (auto simp: holds_def taken_def split: option.splits)

text \<open>Sending to a ticket of the queue takes one place.\<close>

lemma taken_send:
  assumes "distinct (tickets gs)" "t \<in> set (tickets gs)" "\<forall>g\<in>set gs. ag_active g \<longrightarrow> ag_ticket g = None"
    and old: "sig ch t \<noteq> Sent" and new: "sig ch' t = Sent" and rest: "\<And>u. u \<noteq> t \<Longrightarrow> sig ch' u = sig ch u"
  shows "taken ch' gs = Suc (taken ch gs)"
  using assms(1-3)
proof (induction gs)
  case Nil
  then show ?case by simp
next
  case (Cons g gs)
  show ?case
  proof (cases "ag_ticket g = Some t")
    case True
    with Cons.prems have t: "t \<notin> set (tickets gs)" and a: "\<not> ag_active g" by auto
    have "taken ch' gs = taken ch gs" by (rule taken_cong) (use t rest in metis)
    with True a old new show ?thesis by (simp add: holds_def)
  next
    case False
    then have "holds ch' g = holds ch g" by (auto simp: holds_def) (metis rest)+
    moreover have "taken ch' gs = Suc (taken ch gs)"
      using Cons.prems False by (intro Cons.IH) (auto split: option.splits)
    ultimately show ?thesis by simp
  qed
qed

section \<open>One entry leaves the queue\<close>

lemma sig_upd [simp]: "sig (ch(t \<mapsto> c)) u = (if u = t then ch_signal c else sig ch u)"
  by (simp add: sig_def)

lemma opn_upd [simp]: "opn (ch(t \<mapsto> c)) u = (if u = t then ch_open c else opn ch u)"
  by (simp add: opn_def)

lemma core_ok_remove:
  assumes "core_ok (xs @ e # ys) b ch n gs" and "\<And>u. u \<noteq> qe_ticket e \<Longrightarrow> sig ch' u = sig ch u"
  shows "core_ok (xs @ ys) (wrapping_sub b (qe_bytes e)) ch' n gs"
  using assms unfolding core_ok_def by (auto simp: wrapping_sub_def) (metis UnI1 UnI2 image_eqI set_append)+

lemma core_ok_Sent: "core_ok (xs @ e # ys) b ch n gs \<Longrightarrow> sig ch (qe_ticket e) = Unsent"
  by (simp add: core_ok_def)

lemma adm_inv_remove:
  assumes inv: "adm_inv calm (xs @ e # ys) b ch n a gs" and c: "ch (qe_ticket e) = Some c"
  shows "adm_inv calm (xs @ ys) (wrapping_sub b (qe_bytes e)) (ch(qe_ticket e \<mapsto> c\<lparr>ch_signal := SenderDropped\<rparr>)) n a gs"
    (is "adm_inv _ _ _ ?ch _ _ _")
proof -
  from inv have core: "core_ok (xs @ e # ys) b ch n gs" by (simp add: adm_inv_def)
  note u = core_ok_Sent[OF core]
  have "taken ?ch gs = taken ch gs" by (rule taken_cong) (use u in \<open>auto split: if_splits\<close>)
  moreover have "calm \<longrightarrow> attentive (xs @ ys) ?ch gs"
  proof
    assume calm
    with inv have "attentive (xs @ e # ys) ch gs" by (simp add: adm_inv_def)
    with u c show "attentive (xs @ ys) ?ch gs" by (auto simp: attentive_def opn_def)
  qed
  moreover have "core_ok (xs @ ys) (wrapping_sub b (qe_bytes e)) ?ch n gs" by (rule core_ok_remove[OF core]) simp
  ultimately show ?thesis using inv by (simp add: adm_inv_def counted_def)
qed

lemma adm_inv_send:
  assumes inv: "adm_inv calm (e # es) b ch n a gs" and c: "ch (qe_ticket e) = Some c"
  shows "adm_inv calm es (wrapping_sub b (qe_bytes e)) (ch(qe_ticket e \<mapsto> c\<lparr>ch_signal := Sent\<rparr>)) n (a + 1) gs"
    (is "adm_inv _ _ _ ?ch _ _ _")
proof -
  from inv have core: "core_ok ([] @ e # es) b ch n gs" by (simp add: adm_inv_def)
  note u = core_ok_Sent[OF core]
  have "taken ?ch gs = Suc (taken ch gs)"
    by (rule taken_send[where t = "qe_ticket e"]) (use core u in \<open>auto simp: core_ok_def\<close>)
  moreover have "calm \<longrightarrow> attentive es ?ch gs"
  proof
    assume calm
    with inv have "attentive (e # es) ch gs" by (simp add: adm_inv_def)
    then show "attentive es ?ch gs" by (auto simp: attentive_def)
  qed
  moreover have "core_ok ([] @ es) (wrapping_sub b (qe_bytes e)) ?ch n gs" by (rule core_ok_remove[OF core]) simp
  ultimately show ?thesis using inv by (simp add: adm_inv_def counted_def)
qed

lemma adm_inv_skip:
  assumes inv: "adm_inv calm (e # es) b ch n a gs" and o: "\<not> opn ch (qe_ticket e)"
  shows "adm_inv calm es (wrapping_sub b (qe_bytes e)) ch n a gs"
proof -
  from inv have core: "core_ok ([] @ e # es) b ch n gs" by (simp add: adm_inv_def)
  note u = core_ok_Sent[OF core]
  have "\<not> calm"
  proof
    assume calm
    with inv have "attentive (e # es) ch gs" by (simp add: adm_inv_def)
    with core u o show False by (auto simp: attentive_def core_ok_def)
  qed
  moreover have "core_ok ([] @ es) (wrapping_sub b (qe_bytes e)) ch n gs" by (rule core_ok_remove[OF core]) simp
  ultimately show ?thesis using inv by (simp add: adm_inv_def)
qed

section \<open>The operations keep the invariant\<close>

text \<open>The fields of a state the invariant speaks of.\<close>

definition inner_inv :: "bool \<Rightarrow> Inner \<Rightarrow> AdmissionGuard list \<Rightarrow> bool" where
  "inner_inv calm s gs \<longleftrightarrow> sg_queue_bytes (in_config s) \<le> u64_max \<and>
     adm_inv calm (in_queue s) (in_queued_bytes s) (map_of (in_channels s)) (in_next_ticket s) (in_active s) gs"

definition served :: "Inner \<Rightarrow> bool" where
  "served s \<longleftrightarrow> in_queue s = [] \<or> in_limit s \<le> in_active s"

lemma set_channel_simps [simp]:
  "in_channels (set_channel t c s) = hm_put t c (in_channels s)" "in_queue (set_channel t c s) = in_queue s"
  "in_queued_bytes (set_channel t c s) = in_queued_bytes s" "in_next_ticket (set_channel t c s) = in_next_ticket s"
  "in_active (set_channel t c s) = in_active s" "in_limit (set_channel t c s) = in_limit s"
  "in_config (set_channel t c s) = in_config s"
  by (simp_all add: set_channel_def)

lemma with_control_simps [simp]:
  "in_channels (with_control c f s) = in_channels s" "in_queue (with_control c f s) = in_queue s"
  "in_queued_bytes (with_control c f s) = in_queued_bytes s" "in_next_ticket (with_control c f s) = in_next_ticket s"
  "in_active (with_control c f s) = in_active s" "in_limit (with_control c f s) = in_limit s"
  "in_config (with_control c f s) = in_config s"
  by (simp_all add: with_control_def split: option.split)

lemma new_control_simps [simp]:
  "in_channels (new_control c s) = in_channels s" "in_queue (new_control c s) = in_queue s"
  "in_queued_bytes (new_control c s) = in_queued_bytes s" "in_next_ticket (new_control c s) = in_next_ticket s"
  "in_active (new_control c s) = in_active s" "in_limit (new_control c s) = in_limit s"
  "in_config (new_control c s) = in_config s" "in_pending_cancelled (new_control c s) = in_pending_cancelled s"
  by (simp_all add: new_control_def)

lemma complete_request_simps [simp]:
  "in_channels (complete_request r s) = in_channels s" "in_queue (complete_request r s) = in_queue s"
  "in_queued_bytes (complete_request r s) = in_queued_bytes s" "in_next_ticket (complete_request r s) = in_next_ticket s"
  "in_active (complete_request r s) = in_active s" "in_limit (complete_request r s) = in_limit s"
  "in_config (complete_request r s) = in_config s"
  by (simp_all add: complete_request_def split: option.split)

lemma signal_of_sig: "signal_of t s = sig (map_of (in_channels s)) t"
  by (simp add: signal_of_def sig_def)

lemma receiving_opn: "receiving t s = opn (map_of (in_channels s)) t"
  by (simp add: receiving_def opn_def)

lemma holds_place_holds: "holds_place s = holds (map_of (in_channels s))"
  by (simp add: fun_eq_iff holds_place_def holds_def signal_of_sig)

lemma places_taken: "places y = taken (map_of (in_channels (as_inner y))) (as_guards y)"
  by (simp add: places_def taken_def holds_place_holds)

lemma in_queue_channel: "inner_inv calm s gs \<Longrightarrow> e \<in> set (in_queue s) \<Longrightarrow> \<exists>c. map_of (in_channels s) (qe_ticket e) = Some c"
  by (auto simp: inner_inv_def adm_inv_def core_ok_def sig_def split: option.splits)

lemma promote_inv:
  "inner_inv calm (s\<lparr>in_queue := es\<rparr>) gs \<Longrightarrow> inner_inv calm (promote es s) gs \<and> served (promote es s) \<and>
     in_limit (promote es s) = in_limit s \<and> in_active s \<le> in_active (promote es s)
     \<and> in_active (promote es s) \<le> max (in_active s) (in_limit s)"
proof (induction es arbitrary: s)
  case Nil
  then show ?case by (simp add: served_def)
next
  case (Cons e es)
  let ?s = "s\<lparr>in_queued_bytes := wrapping_sub (in_queued_bytes s) (qe_bytes e)\<rparr>"
  show ?case
  proof (cases "in_limit s \<le> in_active s")
    case True
    with Cons.prems show ?thesis by (simp add: served_def)
  next
    case False
    obtain c where c: "map_of (in_channels s) (qe_ticket e) = Some c" using in_queue_channel[OF Cons.prems, of e] by auto
    from Cons.prems have inv: "adm_inv calm (e # es) (in_queued_bytes s) (map_of (in_channels s)) (in_next_ticket s) (in_active s) gs"
      and cfg: "sg_queue_bytes (in_config s) \<le> u64_max" by (simp_all add: inner_inv_def)
    show ?thesis
    proof (cases "ch_open c")
      case True
      let ?t = "(set_channel (qe_ticket e) (c\<lparr>ch_signal := Sent\<rparr>) ?s)\<lparr>in_active := in_active s + 1\<rparr>"
      have p: "promote (e # es) s = promote es ?t" using False True c by (simp add: send_ready_def)
      have "inner_inv calm (?t\<lparr>in_queue := es\<rparr>) gs" using adm_inv_send[OF inv c] cfg by (simp add: inner_inv_def)
      from Cons.IH[OF this] False show ?thesis unfolding p by auto
    next
      case closed: False
      have p: "promote (e # es) s = promote es ?s" using False closed c by (simp add: send_ready_def)
      have "\<not> opn (map_of (in_channels s)) (qe_ticket e)" using closed c by (simp add: opn_def)
      from adm_inv_skip[OF inv this] cfg have "inner_inv calm (?s\<lparr>in_queue := es\<rparr>) gs" by (simp add: inner_inv_def)
      from Cons.IH[OF this] show ?thesis unfolding p by simp
    qed
  qed
qed

lemma promote_queued_inv:
  assumes "inner_inv calm s gs"
  shows "inner_inv calm (promote_queued s) gs \<and> served (promote_queued s) \<and> in_limit (promote_queued s) = in_limit s
     \<and> in_active s \<le> in_active (promote_queued s) \<and> in_active (promote_queued s) \<le> max (in_active s) (in_limit s)"
  unfolding promote_queued_def by (rule promote_inv) (simp add: assms)

lemma take_entry_Some:
  "take_entry P q = Some (e, rest) \<Longrightarrow> P e \<and> (\<exists>xs ys. q = xs @ e # ys \<and> rest = xs @ ys)"
proof (induction q arbitrary: rest)
  case (Cons x q)
  show ?case
  proof (cases "P x")
    case True
    with Cons.prems have "x # q = [] @ e # q \<and> rest = [] @ q \<and> P e" by simp
    then show ?thesis by blast
  next
    case False
    with Cons.prems obtain r where r: "take_entry P q = Some (e, r)" "rest = x # r" by (auto simp: split: option.splits)
    from Cons.IH[OF r(1)] obtain xs ys where "P e" "q = xs @ e # ys" "r = xs @ ys" by blast
    then have "P e \<and> x # q = (x # xs) @ e # ys \<and> rest = (x # xs) @ ys" using r by simp
    then show ?thesis by blast
  qed
qed simp

lemma take_entry_None: "take_entry P q = None \<longleftrightarrow> (\<forall>e\<in>set q. \<not> P e)"
  by (induction q) auto

lemma forget_entry_inv:
  assumes inv: "inner_inv calm s gs" and t: "take_entry P (in_queue s) = Some (e, rest)"
  shows "inner_inv calm (forget_entry e rest s) gs \<and> in_limit (forget_entry e rest s) = in_limit s
     \<and> in_active (forget_entry e rest s) = in_active s"
proof -
  from take_entry_Some[OF t] obtain xs ys where q: "in_queue s = xs @ e # ys" "rest = xs @ ys" by blast
  with in_queue_channel[OF inv, of e] obtain c where c: "map_of (in_channels s) (qe_ticket e) = Some c" by auto
  from inv q have a: "adm_inv calm (xs @ e # ys) (in_queued_bytes s) (map_of (in_channels s)) (in_next_ticket s) (in_active s) gs"
    and cfg: "sg_queue_bytes (in_config s) \<le> u64_max" by (simp_all add: inner_inv_def)
  from adm_inv_remove[OF a c] cfg show ?thesis
    by (simp add: forget_entry_def drop_sender_def c q inner_inv_def)
qed

section \<open>A guard is dropped\<close>

lemma core_ok_tail:
  assumes "core_ok q b ch n (g # gs)" and "\<And>t. ag_ticket g = Some t \<Longrightarrow> t \<notin> qe_ticket ` set q"
  shows "core_ok q b ch n gs"
proof (cases "ag_ticket g")
  case None
  with assms(1) show ?thesis by (simp add: core_ok_def)
next
  case (Some t)
  with assms(1) have "\<forall>e\<in>set q. qe_ticket e = t \<or> qe_ticket e \<in> set (tickets gs)" by (auto simp: core_ok_def)
  with assms(2)[OF Some] have "\<forall>e\<in>set q. qe_ticket e \<in> set (tickets gs)" by (metis imageI)
  with assms(1) Some show ?thesis by (simp add: core_ok_def)
qed

lemma ticket_fresh: "core_ok q b ch n (g # gs) \<Longrightarrow> ag_ticket g = Some t \<Longrightarrow> t \<notin> set (tickets gs)"
  by (simp add: core_ok_def)

lemma promote_after:
  assumes "inner_inv calm r gs \<and> in_limit r = in_limit s \<and> in_active r \<le> in_active s"
  shows "inner_inv calm (promote_queued r) gs \<and> served (promote_queued r) \<and> in_limit (promote_queued r) = in_limit s
    \<and> in_active (promote_queued r) \<le> max (in_active s) (in_limit s)"
  using assms promote_queued_inv[of calm r gs] by auto

lemma guard_drop_inv:
  assumes core: "core_ok (in_queue s) (in_queued_bytes s) (map_of (in_channels s)) (in_next_ticket s) (g # gs)"
    and cfg: "sg_queue_bytes (in_config s) \<le> u64_max"
    and count: "counted calm (in_active s) (map_of (in_channels s)) (g # gs)"
    and att: "calm \<Longrightarrow> attentive (in_queue s) (map_of (in_channels s)) gs"
    and mine: "\<And>t. calm \<Longrightarrow> ag_ticket g = Some t \<Longrightarrow> t \<in> qe_ticket ` set (in_queue s) \<or> sig (map_of (in_channels s)) t = Sent"
  shows "inner_inv calm (guard_drop g s) gs \<and> served (guard_drop g s) \<and> in_limit (guard_drop g s) = in_limit s
    \<and> in_active (guard_drop g s) \<le> max (in_active s) (in_limit s)"
proof -
  let ?s = "complete_request (ag_request g) s" and ?ch = "map_of (in_channels s)"
  let ?r = "if ag_active g then ?s\<lparr>in_active := in_active ?s - 1\<rparr>
        else (case ag_ticket g of None \<Rightarrow> ?s
          | Some t \<Rightarrow> (case take_entry (\<lambda>e. qe_ticket e = t) (in_queue ?s) of
              Some (e, rest) \<Rightarrow> forget_entry e rest ?s
            | None \<Rightarrow> ?s\<lparr>in_active := in_active ?s - 1\<rparr>))"
  have drop: "guard_drop g s = promote_queued ?r"
    by (simp add: guard_drop_def release_or_cancel_admission_def Let_def)
  have act: "ag_active g \<Longrightarrow> ag_ticket g = None" using core by (simp add: core_ok_def)
  have "inner_inv calm ?r gs \<and> in_limit ?r = in_limit s \<and> in_active ?r \<le> in_active s"
  proof (cases "ag_ticket g")
    case None
    then have core': "core_ok (in_queue s) (in_queued_bytes s) ?ch (in_next_ticket s) gs"
      using core_ok_tail[OF core] by simp
    from None count core' att cfg show ?thesis
      by (auto simp: inner_inv_def adm_inv_def counted_def holds_def)
  next
    case (Some t)
    with act have na: "\<not> ag_active g" by auto
    show ?thesis
    proof (cases "take_entry (\<lambda>e. qe_ticket e = t) (in_queue s)")
      case None
      then have nq: "t \<notin> qe_ticket ` set (in_queue s)" by (auto simp: take_entry_None)
      have core': "core_ok (in_queue s) (in_queued_bytes s) ?ch (in_next_ticket s) gs"
        using core_ok_tail[OF core] Some nq by simp
      have "calm \<longrightarrow> holds ?ch g" using mine[OF _ Some] nq Some by (auto simp: holds_def)
      with None Some na count core' att cfg show ?thesis
        by (auto simp: inner_inv_def adm_inv_def counted_def split: if_splits)
    next
      case (Some p)
      obtain e rest where p: "p = (e, rest)" by (cases p)
      from take_entry_Some[OF Some[unfolded p]] obtain xs ys
        where e: "qe_ticket e = t" and q: "in_queue s = xs @ e # ys" "rest = xs @ ys" by blast
      from core q e have u: "sig ?ch t = Unsent" by (simp add: core_ok_def)
      then obtain c where c: "?ch t = Some c" by (auto simp: sig_def split: option.splits)
      let ?ch' = "?ch(t \<mapsto> c\<lparr>ch_signal := SenderDropped\<rparr>)"
      note fresh = ticket_fresh[OF core \<open>ag_ticket g = Some t\<close>]
      have "core_ok (xs @ ys) (wrapping_sub (in_queued_bytes s) (qe_bytes e)) ?ch' (in_next_ticket s) (g # gs)"
        by (rule core_ok_remove[OF core[unfolded q]]) (simp add: e)
      then have core': "core_ok (xs @ ys) (wrapping_sub (in_queued_bytes s) (qe_bytes e)) ?ch' (in_next_ticket s) gs"
      proof (rule core_ok_tail)
        fix u assume "ag_ticket g = Some u"
        with \<open>ag_ticket g = Some t\<close> core q e show "u \<notin> qe_ticket ` set (xs @ ys)" by (auto simp: core_ok_def)
      qed
      have "taken ?ch' gs = taken ?ch gs" by (rule taken_cong) (use fresh in auto)
      moreover have "\<not> holds ?ch g" using na \<open>ag_ticket g = Some t\<close> u by (simp add: holds_def)
      ultimately have count': "counted calm (in_active s) ?ch' gs" using count by (simp add: counted_def)
      have att': "calm \<longrightarrow> attentive (xs @ ys) ?ch' gs"
        using att fresh e q by (auto simp: attentive_def)
      show ?thesis using core' count' att' cfg na \<open>ag_ticket g = Some t\<close> Some p c e q
        by (simp add: forget_entry_def drop_sender_def inner_inv_def adm_inv_def)
    qed
  qed
  then show ?thesis unfolding drop by (rule promote_after)
qed

section \<open>The other operations\<close>

lemma inner_inv_same:
  assumes "in_queue t = in_queue s" "in_queued_bytes t = in_queued_bytes s" "in_channels t = in_channels s"
    "in_next_ticket t = in_next_ticket s" "in_active t = in_active s" "in_config t = in_config s"
  shows "inner_inv calm t gs = inner_inv calm s gs"
  by (simp add: inner_inv_def assms)

lemma adm_inv_active: "adm_inv calm q b ch n a gs \<Longrightarrow> adm_inv calm q b ch n (a + 1) (active_guard r c # gs)"
  by (simp add: adm_inv_def core_ok_def attentive_def counted_def active_guard_def holds_def)

lemma try_admit_inv:
  assumes "inner_inv calm s gs" "served s"
  shows "inner_inv calm (as_inner (guarded (try_admit r c s) gs)) (as_guards (guarded (try_admit r c s) gs))
    \<and> served (as_inner (guarded (try_admit r c s) gs)) \<and> in_limit (as_inner (guarded (try_admit r c s) gs)) = in_limit s
    \<and> in_active (as_inner (guarded (try_admit r c s) gs)) \<le> max (in_active s) (in_limit s)"
  using assms adm_inv_active[of calm "in_queue s" "in_queued_bytes s" "map_of (in_channels s)" "in_next_ticket s" "in_active s" gs r c]
  by (auto simp: guarded_def try_admit_def inner_inv_def served_def)

lemma adm_inv_push:
  assumes inv: "adm_inv calm q b ch n a gs" and b: "b + bytes \<le> u64_max"
  shows "adm_inv calm (q @ [\<lparr>qe_ticket = n, qe_request_id = r, qe_bytes = bytes\<rparr>]) (b + bytes)
     (ch(n \<mapsto> \<lparr>ch_signal = Unsent, ch_open = True\<rparr>)) (n + 1) a
     (\<lparr>ag_ticket = Some n, ag_request = Some r, ag_control = c, ag_active = False\<rparr> # gs)"
    (is "adm_inv _ ?q _ ?ch _ _ (?g # gs)")
proof -
  from inv have core: "core_ok q b ch n gs" by (simp add: adm_inv_def)
  then have n: "n \<notin> set (tickets gs)" by (auto simp: core_ok_def)
  with core have nq: "\<forall>e\<in>set q. qe_ticket e \<noteq> n" by (auto simp: core_ok_def)
  have "core_ok ?q (b + bytes) ?ch (n + 1) (?g # gs)"
    using core n nq b by (auto simp: core_ok_def less_Suc_eq)
  moreover have "calm \<longrightarrow> attentive ?q ?ch (?g # gs)"
    using inv n by (auto simp: adm_inv_def attentive_def)
  moreover have "taken ?ch (?g # gs) = taken ch gs"
  proof -
    have "taken ?ch gs = taken ch gs" by (rule taken_cong) (use n in auto)
    then show ?thesis by (simp add: holds_def)
  qed
  ultimately show ?thesis using inv by (simp add: adm_inv_def counted_def)
qed

lemma reserve_admission_inv:
  assumes "inner_inv calm s gs" "served s"
  shows "inner_inv calm (as_inner (guarded (reserve_admission r c bytes s) gs)) (as_guards (guarded (reserve_admission r c bytes s) gs))
    \<and> served (as_inner (guarded (reserve_admission r c bytes s) gs))
    \<and> in_limit (as_inner (guarded (reserve_admission r c bytes s) gs)) = in_limit s
    \<and> in_active (as_inner (guarded (reserve_admission r c bytes s) gs)) \<le> max (in_active s) (in_limit s)"
proof -
  from assms(1) have inv: "adm_inv calm (in_queue s) (in_queued_bytes s) (map_of (in_channels s)) (in_next_ticket s) (in_active s) gs"
    and cfg: "sg_queue_bytes (in_config s) \<le> u64_max" by (simp_all add: inner_inv_def)
  then have b: "in_queued_bytes s \<le> u64_max" by (simp add: adm_inv_def core_ok_def)
  show ?thesis
  proof (cases "sg_queue_bytes (in_config s) - in_queued_bytes s < bytes")
    case True
    with assms adm_inv_active[OF inv, of r c] show ?thesis
      by (auto simp: guarded_def reserve_admission_def Let_def inner_inv_def served_def)
  next
    case False
    then have "in_queued_bytes s + bytes \<le> u64_max" using cfg b by linarith
    note push = adm_inv_push[OF inv this, of r c]
    show ?thesis
    proof (cases "checked_add (in_next_ticket s) 1")
      case None
      with assms adm_inv_active[OF inv, of r c] show ?thesis
        by (auto simp: guarded_def reserve_admission_def Let_def inner_inv_def served_def)
    next
      case (Some n)
      then have "n = in_next_ticket s + 1" by (simp add: checked_add_Some_iff)
      with Some assms adm_inv_active[OF inv, of r c] push cfg show ?thesis
        by (auto simp: guarded_def reserve_admission_def Let_def inner_inv_def served_def)
    qed
  qed
qed

lemma cancel_request_inv:
  assumes "inner_inv calm s gs"
  shows "inner_inv calm (cancel_request r s) gs \<and> served (cancel_request r s) \<and> in_limit (cancel_request r s) = in_limit s
    \<and> in_active (cancel_request r s) \<le> max (in_active s) (in_limit s)"
proof -
  let ?s = "case map_of (in_controls s) r of Some c \<Rightarrow> with_control c (\<lambda>r. fst (rc_cancel r)) s
        | None \<Rightarrow> s\<lparr>in_pending_cancelled := List.insert r (in_pending_cancelled s)\<rparr>"
  let ?t = "case take_entry (\<lambda>e. qe_request_id e = r) (in_queue ?s) of Some (e, rest) \<Rightarrow> forget_entry e rest ?s | None \<Rightarrow> ?s"
  have s: "inner_inv calm ?s gs" "in_limit ?s = in_limit s" "in_active ?s = in_active s"
    using assms by (simp_all add: inner_inv_def split: option.split)
  have "inner_inv calm ?t gs \<and> in_limit ?t = in_limit s \<and> in_active ?t = in_active s"
  proof (cases "take_entry (\<lambda>e. qe_request_id e = r) (in_queue ?s)")
    case None
    with s show ?thesis by simp
  next
    case (Some p)
    with forget_entry_inv[OF s(1), of "\<lambda>e. qe_request_id e = r" "fst p" "snd p"] s show ?thesis by (simp add: case_prod_beta)
  qed
  moreover have "cancel_request r s = promote_queued ?t" by (simp add: cancel_request_def Let_def)
  ultimately show ?thesis using promote_after[of calm ?t gs s] by simp
qed

lemma fold_with_control:
  "in_queue (fold (\<lambda>c. with_control c f) cs s) = in_queue s \<and> in_queued_bytes (fold (\<lambda>c. with_control c f) cs s) = in_queued_bytes s
   \<and> in_channels (fold (\<lambda>c. with_control c f) cs s) = in_channels s \<and> in_next_ticket (fold (\<lambda>c. with_control c f) cs s) = in_next_ticket s
   \<and> in_active (fold (\<lambda>c. with_control c f) cs s) = in_active s \<and> in_limit (fold (\<lambda>c. with_control c f) cs s) = in_limit s
   \<and> in_config (fold (\<lambda>c. with_control c f) cs s) = in_config s"
  by (induction cs arbitrary: s) simp_all

lemma drop_senders_inv:
  "inner_inv calm (s\<lparr>in_queue := es, in_queued_bytes := b\<rparr>) gs \<Longrightarrow>
   inner_inv calm ((fold (\<lambda>e. drop_sender (qe_ticket e)) es s)\<lparr>in_queue := [], in_queued_bytes := 0\<rparr>) gs"
proof (induction es arbitrary: s b)
  case Nil
  then show ?case by (simp add: inner_inv_def adm_inv_def core_ok_def)
next
  case (Cons e es)
  from in_queue_channel[OF Cons.prems, of e] obtain c where c: "map_of (in_channels s) (qe_ticket e) = Some c" by auto
  from Cons.prems have a: "adm_inv calm ([] @ e # es) b (map_of (in_channels s)) (in_next_ticket s) (in_active s) gs"
    by (simp add: inner_inv_def)
  from adm_inv_remove[OF a c] Cons.prems
  have "inner_inv calm ((drop_sender (qe_ticket e) s)\<lparr>in_queue := es, in_queued_bytes := wrapping_sub b (qe_bytes e)\<rparr>) gs"
    by (simp add: drop_sender_def c inner_inv_def)
  from Cons.IH[OF this] show ?case by simp
qed

lemma drop_senders_simps:
  "in_queue (fold (\<lambda>e. drop_sender (qe_ticket e)) es s) = in_queue s \<and> in_queued_bytes (fold (\<lambda>e. drop_sender (qe_ticket e)) es s) = in_queued_bytes s
    \<and> in_active (fold (\<lambda>e. drop_sender (qe_ticket e)) es s) = in_active s \<and> in_limit (fold (\<lambda>e. drop_sender (qe_ticket e)) es s) = in_limit s"
proof (induction es arbitrary: s)
  case (Cons e es)
  from Cons.IH[of "drop_sender (qe_ticket e) s"] show ?case by (simp add: drop_sender_def split: option.split)
qed simp

lemma cancel_remaining_inv:
  assumes "inner_inv calm s gs"
  shows "inner_inv calm (cancel_remaining s) gs \<and> served (cancel_remaining s) \<and> in_limit (cancel_remaining s) = in_limit s
    \<and> in_active (cancel_remaining s) = in_active s"
proof -
  let ?c = "fold (\<lambda>c. with_control c (\<lambda>r. fst (rc_cancel r))) (hm_values (in_controls s)) s"
  let ?e = "?c\<lparr>in_queue := [], in_queued_bytes := 0\<rparr>"
  have r: "cancel_remaining s = fold (\<lambda>e. drop_sender (qe_ticket e)) (in_queue s) ?e" by (simp add: cancel_remaining_def)
  have "inner_inv calm (?e\<lparr>in_queue := in_queue s, in_queued_bytes := in_queued_bytes s\<rparr>) gs"
    using assms by (simp add: inner_inv_def fold_with_control)
  from drop_senders_inv[OF this]
  have "inner_inv calm (cancel_remaining s\<lparr>in_queue := [], in_queued_bytes := 0\<rparr>) gs" by (simp only: r)
  moreover have q: "in_queue (cancel_remaining s) = []" "in_queued_bytes (cancel_remaining s) = 0"
    by (simp_all add: r drop_senders_simps)
  moreover have "cancel_remaining s\<lparr>in_queue := [], in_queued_bytes := 0\<rparr> = cancel_remaining s"
    using q by (cases "cancel_remaining s") simp
  ultimately have "inner_inv calm (cancel_remaining s) gs" by simp
  moreover have "in_limit (cancel_remaining s) = in_limit s \<and> in_active (cancel_remaining s) = in_active s"
    by (simp add: r drop_senders_simps fold_with_control)
  ultimately show ?thesis using q by (simp add: served_def)
qed

end
