(* ===== verification/Admission_Props.thy ===== *)
theory Admission_Props
  imports Admission_Inv
begin

text \<open>The properties of the admission control.\<close>

section \<open>Every step keeps the invariant\<close>

definition admission_ok :: "bool \<Rightarrow> AdmissionSystem \<Rightarrow> bool" where
  "admission_ok calm y \<longleftrightarrow> inner_inv calm (as_inner y) (as_guards y) \<and> served (as_inner y)"

lemma close_receiver_simps [simp]:
  "in_queue (close_receiver t s) = in_queue s" "in_queued_bytes (close_receiver t s) = in_queued_bytes s"
  "in_next_ticket (close_receiver t s) = in_next_ticket s" "in_active (close_receiver t s) = in_active s"
  "in_limit (close_receiver t s) = in_limit s" "in_config (close_receiver t s) = in_config s"
  "sig (map_of (in_channels (close_receiver t s))) u = sig (map_of (in_channels s)) u"
  "u \<noteq> t \<Longrightarrow> opn (map_of (in_channels (close_receiver t s))) u = opn (map_of (in_channels s)) u"
  by (auto simp: close_receiver_def sig_def opn_def split: option.split)

lemma taken_sig: "(\<And>t. sig ch t = sig ch' t) \<Longrightarrow> taken ch gs = taken ch' gs"
  by (rule taken_cong) simp

lemma core_ok_sig: "(\<And>t. sig ch t = sig ch' t) \<Longrightarrow> core_ok q b ch n gs \<Longrightarrow> core_ok q b ch' n gs"
  by (simp add: core_ok_def)

lemma attentive_close:
  "attentive q (map_of (in_channels s)) gs \<Longrightarrow> t \<notin> set (tickets gs) \<Longrightarrow> attentive q (map_of (in_channels (close_receiver t s))) gs"
  unfolding attentive_def by (metis close_receiver_simps(7,8))

text \<open>The guard of a step is the head of the list, without loss of generality.\<close>

lemma inner_inv_head:
  "g \<in> set gs \<Longrightarrow> inner_inv calm s gs \<longleftrightarrow> inner_inv calm s (g # remove1 g gs)"
  by (simp only: inner_inv_def adm_inv_head[of g gs])

lemma attentive_tail: "attentive q ch (g # gs) \<Longrightarrow> attentive q ch gs"
  by (auto simp: attentive_def split: option.splits)

lemma drop_step:
  assumes inv: "inner_inv calm s (g # gs)" and w: "waits_no_more g s"
  shows "inner_inv calm (guard_drop g s) gs \<and> served (guard_drop g s) \<and> in_limit (guard_drop g s) = in_limit s
    \<and> in_active (guard_drop g s) \<le> max (in_active s) (in_limit s)"
proof (rule guard_drop_inv)
  fix t assume calm and t: "ag_ticket g = Some t"
  with inv have a: "attentive (in_queue s) (map_of (in_channels s)) (g # gs)" by (simp add: inner_inv_def adm_inv_def)
  from w t have "\<not> opn (map_of (in_channels s)) t" by (simp add: waits_no_more_def receiving_opn)
  with a t show "t \<in> qe_ticket ` set (in_queue s) \<or> sig (map_of (in_channels s)) t = Sent"
    by (cases "sig (map_of (in_channels s)) t") (auto simp: attentive_def)
next
  assume calm
  with inv show "attentive (in_queue s) (map_of (in_channels s)) gs"
    using attentive_tail by (auto simp: inner_inv_def adm_inv_def)
qed (use inv in \<open>simp_all add: inner_inv_def adm_inv_def\<close>)

lemma give_up_inv:
  assumes inv: "inner_inv calm s (g # gs)" and t: "ag_ticket g = Some t" and calm and ns: "signal_of t s \<noteq> SenderDropped"
    and s': "in_queue s' = in_queue s" "in_queued_bytes s' = in_queued_bytes s" "in_channels s' = in_channels (close_receiver t s)"
      "in_next_ticket s' = in_next_ticket s" "in_active s' = in_active s" "in_limit s' = in_limit s" "in_config s' = in_config s"
  shows "inner_inv calm (guard_drop g s') gs \<and> served (guard_drop g s') \<and> in_limit (guard_drop g s') = in_limit s
    \<and> in_active (guard_drop g s') \<le> max (in_active s) (in_limit s)"
  unfolding s'(5,6)[symmetric]
proof (rule guard_drop_inv)
  from inv have a: "attentive (in_queue s) (map_of (in_channels s)) (g # gs)" and core: "core_ok (in_queue s) (in_queued_bytes s) (map_of (in_channels s)) (in_next_ticket s) (g # gs)"
    and n: "counted calm (in_active s) (map_of (in_channels s)) (g # gs)"
    using \<open>calm\<close> by (simp_all add: inner_inv_def adm_inv_def)
  show "core_ok (in_queue s') (in_queued_bytes s') (map_of (in_channels s')) (in_next_ticket s') (g # gs)"
    unfolding s' by (rule core_ok_sig[OF _ core]) simp
  show "counted calm (in_active s') (map_of (in_channels s')) (g # gs)"
    using n taken_sig[of "map_of (in_channels (close_receiver t s))" "map_of (in_channels s)" "g # gs"]
    unfolding s' counted_def by simp
  show "attentive (in_queue s') (map_of (in_channels s')) gs"
    unfolding s' by (rule attentive_close[OF attentive_tail[OF a] ticket_fresh[OF core t]])
  fix u assume "ag_ticket g = Some u"
  with a t ns show "u \<in> qe_ticket ` set (in_queue s') \<or> sig (map_of (in_channels s')) u = Sent"
    by (cases "sig (map_of (in_channels s)) t") (auto simp: attentive_def s' signal_of_sig)
qed (use inv in \<open>simp add: inner_inv_def s'\<close>)

lemma abandon_inv:
  assumes inv: "inner_inv False s gs"
    and s': "in_queue s' = in_queue s" "in_queued_bytes s' = in_queued_bytes s" "in_channels s' = in_channels (close_receiver t s)"
      "in_next_ticket s' = in_next_ticket s" "in_active s' = in_active s" "in_config s' = in_config s"
  shows "inner_inv False s' gs"
proof -
  have "taken (map_of (in_channels (close_receiver t s))) gs = taken (map_of (in_channels s)) gs" by (rule taken_sig) simp
  moreover have "core_ok q b (map_of (in_channels s)) n gs \<Longrightarrow> core_ok q b (map_of (in_channels (close_receiver t s))) n gs" for q b n
    by (rule core_ok_sig) simp_all
  ultimately show ?thesis using inv unfolding inner_inv_def adm_inv_def counted_def s' by simp
qed

text \<open>The guard that was told: its ticket is gone, its place is now recorded by the guard.\<close>

lemma wake_inv:
  assumes inv: "inner_inv calm s (g # gs)" and t: "ag_ticket g = Some t"
    and g': "ag_ticket g' = None" "ag_active g' \<longleftrightarrow> sig (map_of (in_channels s)) t = Sent" and nu: "sig (map_of (in_channels s)) t \<noteq> Unsent"
  shows "inner_inv calm (close_receiver t s) (g' # gs)"
proof -
  let ?ch = "map_of (in_channels s)" and ?ch' = "map_of (in_channels (close_receiver t s))"
  from inv have core: "core_ok (in_queue s) (in_queued_bytes s) ?ch (in_next_ticket s) (g # gs)"
    by (simp add: inner_inv_def adm_inv_def)
  have nq: "u \<notin> qe_ticket ` set (in_queue s)" if "ag_ticket g = Some u" for u using core nu t that by (auto simp: core_ok_def)
  have na: "\<not> ag_active g" using core t by (auto simp: core_ok_def)
  from core_ok_tail[OF core nq] have c: "core_ok (in_queue s) (in_queued_bytes s) ?ch (in_next_ticket s) gs" by blast
  have "core_ok (in_queue s) (in_queued_bytes s) ?ch' (in_next_ticket s) gs" by (rule core_ok_sig[OF _ c]) simp
  then have "core_ok (in_queue s) (in_queued_bytes s) ?ch' (in_next_ticket s) (g' # gs)" using g' by (simp add: core_ok_def)
  moreover have "calm \<longrightarrow> attentive (in_queue s) ?ch' (g' # gs)"
  proof
    assume calm
    with inv have "attentive (in_queue s) ?ch (g # gs)" by (simp add: inner_inv_def adm_inv_def)
    from attentive_close[OF attentive_tail[OF this] ticket_fresh[OF core t]] g' show "attentive (in_queue s) ?ch' (g' # gs)"
      by (simp add: attentive_def)
  qed
  moreover have "taken ?ch' (g' # gs) = taken ?ch (g # gs)"
  proof -
    have "taken ?ch' gs = taken ?ch gs" by (rule taken_sig) simp
    then show ?thesis using g' na t by (simp add: holds_def)
  qed
  ultimately show ?thesis using inv by (simp add: inner_inv_def adm_inv_def counted_def)
qed

text \<open>A guard whose request was cancelled keeps its ticket; only the receiver is gone.\<close>

lemma close_sent_inv:
  assumes inv: "inner_inv calm s gs" and sent: "sig (map_of (in_channels s)) t = Sent"
  shows "inner_inv calm (close_receiver t s) gs"
proof -
  have "taken (map_of (in_channels (close_receiver t s))) gs = taken (map_of (in_channels s)) gs" by (rule taken_sig) simp
  moreover have "core_ok q b (map_of (in_channels s)) n gs \<Longrightarrow> core_ok q b (map_of (in_channels (close_receiver t s))) n gs" for q b n
    by (rule core_ok_sig) simp_all
  moreover have "attentive q (map_of (in_channels s)) gs \<Longrightarrow> attentive q (map_of (in_channels (close_receiver t s))) gs" for q
    unfolding attentive_def using sent by (metis Signal.distinct(1,5) close_receiver_simps(7,8))
  ultimately show ?thesis using inv unfolding inner_inv_def adm_inv_def counted_def by simp
qed


section \<open>The system\<close>

lemma admission_init_ok: "admission_init config y \<Longrightarrow> admission_ok calm y"
  by (simp add: admission_init_def admission_ok_def inner_open_def inner_inv_def served_def adm_inv_def core_ok_def
      attentive_def counted_def taken_def)

lemma server_configure_inner:
  assumes "server_configure config \<lparr>sv_inner = s, sv_pre_queue = p, sv_workers = w\<rparr> = (sv, r)"
  shows "sv_inner sv = s \<or> sv_inner sv = promote_queued (s\<lparr>in_limit := sg_active_requests config, in_config := config\<rparr>)"
  using assms by (auto simp: server_configure_def split: if_splits)

lemma wait_over_inv:
  assumes inv: "inner_inv calm s gs" and g: "g \<in> set gs" and t: "ag_ticket g = Some t"
    and sent: "sig (map_of (in_channels s)) t = Sent"
  shows "inner_inv calm (close_receiver t s) (fst (wake_sent g s) # remove1 g gs)"
proof (cases "control_of (ag_control g) s")
  case (Ok u)
  with inv wake_inv[of calm s g "remove1 g gs" t "fst (wake_sent g s)"] g t sent show ?thesis
    by (simp add: wake_sent_def inner_inv_head[symmetric])
qed (use close_sent_inv[OF inv sent] g in \<open>simp_all add: wake_sent_def inner_inv_head[symmetric]\<close>)

lemma give_up_state:
  assumes "s' = (if late then fst (wake_late g (close_receiver t s)) else close_receiver t s)"
  shows "in_queue s' = in_queue s \<and> in_queued_bytes s' = in_queued_bytes s \<and> in_channels s' = in_channels (close_receiver t s)
    \<and> in_next_ticket s' = in_next_ticket s \<and> in_active s' = in_active s \<and> in_limit s' = in_limit s \<and> in_config s' = in_config s"
  using assms by (simp add: wake_late_def)

text \<open>
  A step that is not a change of the limit keeps the limit, and takes the number of active requests over
  it only when it already was: the fact the safety property rests on.
\<close>

lemma admission_step_inv:
  assumes "admission_step calm y z" and "admission_ok calm y"
  shows "admission_ok calm z \<and> in_active (as_inner z) \<le> max (in_active (as_inner y)) (in_limit (as_inner z))"
  using assms
proof (induction rule: admission_step.induct)
  case (step_try y c request)
  then have "inner_inv calm (new_control c (as_inner y)) (as_guards y)" "served (new_control c (as_inner y))"
    by (simp_all add: admission_ok_def inner_inv_def served_def)
  from try_admit_inv[OF this, of request c] show ?case by (simp add: admission_ok_def)
next
  case (step_reserve y c request bytes)
  then have "inner_inv calm (new_control c (as_inner y)) (as_guards y)" "served (new_control c (as_inner y))"
    by (simp_all add: admission_ok_def inner_inv_def served_def)
  from reserve_admission_inv[OF this, of request c bytes] show ?case by (simp add: admission_ok_def)
next
  case (step_sent g y t)
  then show ?case using wait_over_inv[of calm "as_inner y" "as_guards y" g t]
    by (simp add: admission_ok_def served_def signal_of_sig)
next
  case (step_closed g y t)
  then have s: "sig (map_of (in_channels (as_inner y))) t = SenderDropped" and i: "inner_inv calm (as_inner y) (g # remove1 g (as_guards y))"
    by (simp_all add: signal_of_sig admission_ok_def flip: inner_inv_head)
  from i have "\<not> ag_active g" using step_closed(2) by (auto simp: inner_inv_def adm_inv_def core_ok_def)
  then have "inner_inv calm (close_receiver t (as_inner y)) (fst (wake_closed g (as_inner y)) # remove1 g (as_guards y))"
    by (intro wake_inv[OF i step_closed(2)]) (simp_all add: wake_closed_def s)
  with step_closed.prems show ?case by (simp add: admission_ok_def served_def)
next
  case (step_give_up g y t s late)
  note s = give_up_state[OF step_give_up(5)]
  show ?case
  proof (cases calm)
    case True
    from step_give_up.prems step_give_up(1) have i: "inner_inv calm (as_inner y) (g # remove1 g (as_guards y))"
      by (simp add: admission_ok_def flip: inner_inv_head)
    have "signal_of t (as_inner y) \<noteq> SenderDropped" using step_give_up(4) True by simp
    from give_up_inv[OF i step_give_up(2) True this, of s] s True show ?thesis by (simp add: admission_ok_def)
  next
    case False
    with step_give_up.prems have "inner_inv False (as_inner y) (as_guards y)" by (simp add: admission_ok_def)
    from abandon_inv[OF this, of s t] s False step_give_up.prems show ?thesis by (simp add: admission_ok_def served_def)
  qed
next
  case (step_drop g y)
  then have "inner_inv calm (as_inner y) (g # remove1 g (as_guards y))"
    by (simp add: admission_ok_def flip: inner_inv_head)
  from drop_step[OF this step_drop(2)] show ?case by (simp add: admission_ok_def)
next
  case (step_cancel y request)
  with cancel_request_inv[of calm "as_inner y" "as_guards y" request] show ?case by (simp add: admission_ok_def)
next
  case (step_limit y limit)
  then have "inner_inv calm (as_inner y\<lparr>in_limit := limit, in_config := (in_config (as_inner y))\<lparr>sg_active_requests := limit\<rparr>\<rparr>) (as_guards y)"
    by (simp add: admission_ok_def inner_inv_def)
  from promote_queued_inv[OF this] show ?case by (simp add: admission_ok_def set_admission_limit_def)
next
  case (step_configure config y p w sv r)
  then have i: "inner_inv calm (as_inner y\<lparr>in_limit := sg_active_requests config, in_config := config\<rparr>) (as_guards y)"
    by (simp add: admission_ok_def inner_inv_def)
  from server_configure_inner[OF step_configure(2)] show ?case
    by (rule disjE) (use step_configure.prems promote_queued_inv[OF i] in \<open>simp_all add: admission_ok_def\<close>)
next
  case (step_shutdown y)
  then show ?case by (simp add: admission_ok_def begin_shutdown_inner_def inner_inv_def served_def)
next
  case (step_cancel_remaining y)
  with cancel_remaining_inv[of calm "as_inner y" "as_guards y"] show ?case by (simp add: admission_ok_def)
next
  case (step_control y c f)
  then show ?case by (simp add: admission_ok_def inner_inv_def served_def)
qed

interpretation admission_safe: safe_machine "admission_init config" "admission_step calm" "admission_ok calm" for config calm
  by unfold_locales (auto intro: admission_init_ok dest: admission_step_inv)

lemma admission_reach_ok: "admission_reach calm config y \<Longrightarrow> admission_ok calm y"
  unfolding admission_reach_def by (rule admission_safe.reach_inv)

section \<open>Examples\<close>

definition one_place :: ServerConfig where
  "one_place = \<lparr>sg_active_requests = 1, sg_queue_count = 2, sg_queue_bytes = 9, sg_request_bytes = 9, sg_pre_queue_concurrency = 1,
     sg_default_output_tokens = 1, sg_header_bytes = 1, sg_body_timeout_ms = 1, sg_wall_time_ms = 1, sg_active_time_ms = 1,
     sg_stream_buffer = 1, sg_shutdown_grace_ms = 1, sg_compaction_enabled = True, sg_compaction_workers = 1,
     sg_compaction_declarations = 1, sg_declaration_rate_per_minute = 1, sg_declaration_lifetime_ms = 1\<rparr>"

definition place_empty :: AdmissionSystem where
  "place_empty = \<lparr>as_inner = inner_open one_place, as_guards = []\<rparr>"

definition after_try :: "string \<Rightarrow> nat \<Rightarrow> AdmissionSystem \<Rightarrow> AdmissionSystem" where
  "after_try r c y = guarded (try_admit r c (new_control c (as_inner y))) (as_guards y)"

definition after_reserve :: "string \<Rightarrow> nat \<Rightarrow> nat \<Rightarrow> AdmissionSystem \<Rightarrow> AdmissionSystem" where
  "after_reserve r c bytes y = guarded (reserve_admission r c bytes (new_control c (as_inner y))) (as_guards y)"

definition after_drop :: "AdmissionGuard \<Rightarrow> AdmissionSystem \<Rightarrow> AdmissionSystem" where
  "after_drop g y = \<lparr>as_inner = guard_drop g (as_inner y), as_guards = remove1 g (as_guards y)\<rparr>"

definition waiting_guard :: AdmissionGuard where
  "waiting_guard = \<lparr>ag_ticket = Some 0, ag_request = Some ''b'', ag_control = 1, ag_active = False\<rparr>"

text \<open>One request is served, a second one waits; the second gives up, and the first ends before it is forgotten.\<close>

definition place_waited :: AdmissionSystem where
  "place_waited = after_reserve ''b'' 1 5 (after_try ''a'' 0 place_empty)"

definition place_left :: AdmissionSystem where
  "place_left = place_waited\<lparr>as_inner := close_receiver 0 (as_inner place_waited)\<rparr>"

definition place_taken :: AdmissionSystem where
  "place_taken = after_try ''c'' 2 (after_drop (active_guard ''a'' 0) place_left)"

definition place_doubled :: AdmissionSystem where
  "place_doubled = after_try ''d'' 3 (after_drop waiting_guard place_taken)"

lemmas place_unfold = place_empty_def place_waited_def place_left_def place_taken_def place_doubled_def

lemma place_empty_reach: "admission_reach calm one_place place_empty"
  unfolding admission_reach_def
  by (rule reach_init) (simp add: admission_init_def place_empty_def one_place_def u64_max_def)

lemma reach_try:
  "admission_reach calm config y \<Longrightarrow> \<not> hm_has (in_store (as_inner y)) c \<Longrightarrow> admission_reach calm config (after_try r c y)"
  unfolding admission_reach_def after_try_def by (erule reach_step) (rule step_try)

lemma reach_reserve:
  "admission_reach calm config y \<Longrightarrow> \<not> hm_has (in_store (as_inner y)) c \<Longrightarrow> admission_reach calm config (after_reserve r c bytes y)"
  unfolding admission_reach_def after_reserve_def by (erule reach_step) (rule step_reserve)

lemma reach_drop:
  "admission_reach calm config y \<Longrightarrow> g \<in> set (as_guards y) \<Longrightarrow> waits_no_more g (as_inner y) \<Longrightarrow>
   admission_reach calm config (after_drop g y)"
  unfolding admission_reach_def after_drop_def by (erule reach_step) (rule step_drop)

lemma place_waited_reach: "admission_reach calm one_place place_waited"
  unfolding place_waited_def by (intro reach_reserve reach_try place_empty_reach) code_simp+

lemma place_left_reach: "admission_reach False one_place place_left"
proof -
  let ?s = "if False then fst (wake_late waiting_guard (close_receiver 0 (as_inner place_waited))) else close_receiver 0 (as_inner place_waited)"
  have "admission_step False place_waited (if False then
      \<lparr>as_inner = guard_drop waiting_guard ?s, as_guards = remove1 waiting_guard (as_guards place_waited)\<rparr> else place_waited\<lparr>as_inner := ?s\<rparr>)"
    by (rule step_give_up[where g = waiting_guard and t = 0 and late = False]) (code_simp, code_simp, code_simp, simp, rule refl)
  with place_waited_reach[of False] show ?thesis unfolding admission_reach_def place_left_def by (auto intro: reach_step)
qed

lemma place_taken_reach: "admission_reach False one_place place_taken"
  unfolding place_taken_def by (intro reach_try reach_drop place_left_reach) code_simp+

section \<open>Gates\<close>

definition gate_ok :: "bool \<Rightarrow> GateSystem \<Rightarrow> bool" where
  "gate_ok calm y \<longleftrightarrow> pg_permits (gs_gate y) + gs_held y + gs_returning y = pg_limit (gs_gate y) + pg_retire (gs_gate y)
     \<and> (calm \<longrightarrow> gs_returning y = 0 \<and> (pg_retire (gs_gate y) = 0 \<or> pg_permits (gs_gate y) = 0))"

lemma gate_step_ok: "gate_step calm y z \<Longrightarrow> gate_ok calm y \<Longrightarrow> gate_ok calm z"
proof (induction rule: gate_step.induct)
  case (gate_acquire y g)
  then show ?case by (auto simp: gate_ok_def gate_try_acquire_def split: if_splits)
next
  case (gate_limit y limit)
  then show ?case by (auto simp: gate_ok_def gate_set_limit_def Let_def min_def)
next
  case (gate_retire y g)
  then show ?case by (auto simp: gate_ok_def gate_drop_def split: if_splits)
next
  case (gate_release y g)
  then show ?case by (auto simp: gate_ok_def gate_drop_def gate_return_def split: if_splits)
next
  case (gate_back y)
  then show ?case by (auto simp: gate_ok_def gate_return_def)
qed

lemma gate_init_ok: "gate_init limit y \<Longrightarrow> gate_ok calm y"
  by (simp add: gate_init_def gate_ok_def gate_new_def)

interpretation gate_safe: safe_machine "gate_init limit" "gate_step calm" "gate_ok calm" for limit calm
  by unfold_locales (fact gate_init_ok, fact gate_step_ok)

lemma gate_reach_ok: "gate_reach calm limit y \<Longrightarrow> gate_ok calm y"
  unfolding gate_reach_def by (rule gate_safe.reach_inv)

section \<open>Properties\<close>

text \<open>C26: The accounts of the admission control hold in every reachable state, whatever the order of the critical sections: the bytes of the queue are counted exactly and fit a machine word, the tickets of the queue are distinct and each belongs to a guard that was not told yet, the number of active requests never exceeds the places that are taken and is exactly that number as long as no give-up is interrupted; and nobody waits while a place is free.\<close>

theorem admission_accounts:
  assumes "admission_reach calm config y"
  shows "in_queued_bytes (as_inner y) = sum_list (map qe_bytes (in_queue (as_inner y))) \<and> in_queued_bytes (as_inner y) \<le> u64_max
    \<and> distinct (map qe_ticket (in_queue (as_inner y)))
    \<and> (\<forall>e\<in>set (in_queue (as_inner y)). signal_of (qe_ticket e) (as_inner y) = Unsent
         \<and> (\<exists>g\<in>set (as_guards y). ag_ticket g = Some (qe_ticket e)))
    \<and> in_active (as_inner y) \<le> places y \<and> (calm \<longrightarrow> in_active (as_inner y) = places y)
    \<and> (in_queue (as_inner y) = [] \<or> in_limit (as_inner y) \<le> in_active (as_inner y))"
  using admission_reach_ok[OF assms]
  by (simp add: admission_ok_def inner_inv_def served_def adm_inv_def core_ok_def counted_def places_taken signal_of_sig
      flip: tickets_iff)

lemma admission_accounts_witness:
  "in_active (as_inner place_waited) = places place_waited \<and> map qe_ticket (in_queue (as_inner place_waited)) = [0]
    \<and> in_queued_bytes (as_inner place_waited) = 5"
proof -
  note a = admission_accounts[OF place_waited_reach[of True]]
  then have "in_active (as_inner place_waited) = places place_waited" by simp
  moreover have "map qe_ticket (in_queue (as_inner place_waited)) = [0]" by code_simp
  moreover have "map qe_bytes (in_queue (as_inner place_waited)) = [5]" by code_simp
  ultimately show ?thesis using a by (simp only: sum_list.Cons sum_list.Nil) simp
qed

text \<open>As long as no give-up is interrupted, no step takes the number of places over the limit: it stays below the limit, or below what it was when the limit was lowered.\<close>

theorem admission_limit_kept:
  assumes "admission_reach True config y" "admission_step True y z"
  shows "places z \<le> max (places y) (in_limit (as_inner z))"
proof -
  from assms(1) have y: "admission_ok True y" by (rule admission_reach_ok)
  from admission_step_inv[OF assms(2) y] y show ?thesis
    by (simp add: admission_ok_def inner_inv_def adm_inv_def counted_def places_taken)
qed

lemma admission_limit_kept_witness:
  "places (after_drop (active_guard ''a'' 0) place_waited) \<le> max (places place_waited) 1
    \<and> in_limit (as_inner (after_drop (active_guard ''a'' 0) place_waited)) = 1"
proof -
  have "admission_step True place_waited (after_drop (active_guard ''a'' 0) place_waited)"
    unfolding after_drop_def by (rule step_drop) code_simp+
  note l = admission_limit_kept[OF place_waited_reach this]
  moreover have "in_limit (as_inner (after_drop (active_guard ''a'' 0) place_waited)) = 1" by code_simp
  ultimately show ?thesis by simp
qed

text \<open>C27: The limit does not hold when a give-up is interrupted: a waiting request gives up, the place of the active one is given back before the guard of the waiting one is dropped, and the guard then gives back a place it never had; with a limit of one, two requests are served at a time.\<close>

theorem admission_overcommits:
  "\<exists>y. admission_reach False one_place y \<and> in_limit (as_inner y) = 1 \<and> length (filter ag_active (as_guards y)) = 2
     \<and> in_active (as_inner y) = 1"
proof (intro exI conjI)
  show "admission_reach False one_place place_doubled"
    unfolding place_doubled_def by (intro reach_try reach_drop place_taken_reach) code_simp+
  show "in_limit (as_inner place_doubled) = 1" by code_simp
  show "length (filter ag_active (as_guards place_doubled)) = 2" by code_simp
  show "in_active (as_inner place_doubled) = 1" by code_simp
qed

text \<open>A gate hands out a permit only while fewer permits than its current limit are held, however often the limit was raised and lowered, as long as the two halves of a drop are not separated.\<close>

theorem gate_grants_below_limit:
  assumes "gate_reach True limit y" "gate_try_acquire (gs_gate y) = (g, Ok ())"
  shows "gs_held y < pg_limit (gs_gate y)"
  using gate_reach_ok[OF assms(1)] assms(2) by (auto simp: gate_ok_def gate_try_acquire_def split: if_splits)

definition gate_lowered :: GateSystem where
  "gate_lowered = \<lparr>gs_gate = gate_set_limit 2 (gate_new 3), gs_held = 0, gs_returning = 0\<rparr>"

lemma gate_grants_below_limit_witness: "gs_held gate_lowered < 2 \<and> pg_limit (gs_gate gate_lowered) = 2"
proof -
  have "gate_reach True 3 \<lparr>gs_gate = gate_new 3, gs_held = 0, gs_returning = 0\<rparr>"
    unfolding gate_reach_def by (rule reach_init) (simp add: gate_init_def)
  from reach_step[OF this[unfolded gate_reach_def] gate_limit[of True _ 2]] have r: "gate_reach True 3 gate_lowered"
    by (simp add: gate_reach_def gate_lowered_def)
  have a: "gate_try_acquire (gs_gate gate_lowered) = (\<lparr>pg_limit = 2, pg_retire = 0, pg_permits = 1\<rparr>, Ok ())" by code_simp
  have "pg_limit (gs_gate gate_lowered) = 2" by code_simp
  with gate_grants_below_limit[OF r a] show ?thesis by simp
qed

text \<open>When the halves are separated, a lowered gate can hand out more permits than its limit.\<close>

lemma gate_over_limit: "\<exists>y. gate_reach False 2 y \<and> pg_limit (gs_gate y) = 1 \<and> gs_held y = 2"
proof -
  let ?r = "\<lambda>y. reach (gate_init 2) (gate_step False) y"
  have 0: "?r \<lparr>gs_gate = \<lparr>pg_limit = 2, pg_retire = 0, pg_permits = 2\<rparr>, gs_held = 0, gs_returning = 0\<rparr>"
    by (rule reach_init) (simp add: gate_init_def gate_new_def)
  have 1: "?r \<lparr>gs_gate = \<lparr>pg_limit = 2, pg_retire = 0, pg_permits = 1\<rparr>, gs_held = 1, gs_returning = 0\<rparr>"
    using reach_step[OF 0 gate_acquire] by (simp add: gate_try_acquire_def numeral_2_eq_2)
  have 2: "?r \<lparr>gs_gate = \<lparr>pg_limit = 2, pg_retire = 0, pg_permits = 0\<rparr>, gs_held = 2, gs_returning = 0\<rparr>"
    using reach_step[OF 1 gate_acquire] by (simp add: gate_try_acquire_def numeral_2_eq_2)
  have 3: "?r \<lparr>gs_gate = \<lparr>pg_limit = 2, pg_retire = 0, pg_permits = 0\<rparr>, gs_held = 1, gs_returning = 1\<rparr>"
    using reach_step[OF 2 gate_release] by (simp add: gate_drop_def numeral_2_eq_2)
  have 4: "?r \<lparr>gs_gate = \<lparr>pg_limit = 2, pg_retire = 0, pg_permits = 0\<rparr>, gs_held = 0, gs_returning = 2\<rparr>"
    using reach_step[OF 3 gate_release] by (simp add: gate_drop_def numeral_2_eq_2)
  have 5: "?r \<lparr>gs_gate = \<lparr>pg_limit = 1, pg_retire = 1, pg_permits = 0\<rparr>, gs_held = 0, gs_returning = 2\<rparr>"
    using reach_step[OF 4 gate_limit[of _ _ 1]] by (simp add: gate_set_limit_def numeral_2_eq_2)
  have 6: "?r \<lparr>gs_gate = \<lparr>pg_limit = 1, pg_retire = 1, pg_permits = 1\<rparr>, gs_held = 0, gs_returning = 1\<rparr>"
    using reach_step[OF 5 gate_back] by (simp add: gate_return_def numeral_2_eq_2)
  have 7: "?r \<lparr>gs_gate = \<lparr>pg_limit = 1, pg_retire = 1, pg_permits = 2\<rparr>, gs_held = 0, gs_returning = 0\<rparr>"
    using reach_step[OF 6 gate_back] by (simp add: gate_return_def numeral_2_eq_2)
  have 8: "?r \<lparr>gs_gate = \<lparr>pg_limit = 1, pg_retire = 1, pg_permits = 1\<rparr>, gs_held = 1, gs_returning = 0\<rparr>"
    using reach_step[OF 7 gate_acquire] by (simp add: gate_try_acquire_def numeral_2_eq_2)
  have 9: "?r \<lparr>gs_gate = \<lparr>pg_limit = 1, pg_retire = 1, pg_permits = 0\<rparr>, gs_held = 2, gs_returning = 0\<rparr>"
    using reach_step[OF 8 gate_acquire] by (simp add: gate_try_acquire_def numeral_2_eq_2)
  then show ?thesis unfolding gate_reach_def by (intro exI conjI) (assumption, simp_all)
qed

end
