(* ===== verification/Prompt.thy ===== *)
theory Prompt
  imports Server_Types
begin

text \<open>
  The text a conversation becomes before it reaches a model (\<open>crates/server/src/prompt.rs\<close>, and its
  callers in \<open>crates/server/src/lib.rs\<close>): the chat template of the Gemma family, the operations that
  continue a rendered prompt, the lowering of chat messages and the items of a Responses request.
  Parameters: the admission of an image, the JSON forms of tool calls and tool definitions, and the look-up
  of a call in the lineage. Texts are byte strings.
\<close>

section \<open>Messages and the chat template\<close>

record Message =
  msg_role :: string
  msg_content :: string

definition newline :: string where
  "newline = [CHR 0x0A]"

definition GENERATION_PROMPT :: string where
  "GENERATION_PROMPT = ''<start_of_turn>model'' @ newline"

definition GENERATION_SUFFIX :: string where
  "GENERATION_SUFFIX = ''<end_of_turn>'' @ newline @ GENERATION_PROMPT"

definition no_template :: "string \<Rightarrow> server_error" where
  "no_template family = BadRequest (''unsupported_capability: model family '' @ family @ '' has no chat template'')"

definition ends_with :: "string \<Rightarrow> string \<Rightarrow> bool" where
  "ends_with s suffix \<longleftrightarrow> length suffix \<le> length s \<and> drop (length s - length suffix) s = suffix"

definition rfind :: "string \<Rightarrow> string \<Rightarrow> nat option" where
  "rfind s pat = (case filter (\<lambda>i. take (length pat) (drop i s) = pat) [0..<length s + 1 - length pat] of
     [] \<Rightarrow> None | is \<Rightarrow> Some (last is))"

definition gemma_turn :: "Message \<Rightarrow> string" where
  "gemma_turn m = ''<start_of_turn>'' @ (if msg_role m = ''assistant'' then ''model'' else ''user'') @ newline
     @ msg_content m @ ''<end_of_turn>'' @ newline"

fun gemma_turns :: "nat \<Rightarrow> Message list \<Rightarrow> string \<Rightarrow> (server_error, string) outcome" where
  "gemma_turns index [] prompt = Ok prompt"
| "gemma_turns index (m # ms) prompt = (let expected = (if even index then ''user'' else ''assistant'') in
     if msg_role m \<noteq> expected
     then Err (BadRequest (''Gemma chat messages must alternate user and assistant roles; expected '' @ expected))
     else gemma_turns (index + 1) ms (prompt @ gemma_turn m))"

definition map_ok :: "('a \<Rightarrow> 'b) \<Rightarrow> ('e, 'a) outcome \<Rightarrow> ('e, 'b) outcome" where
  "map_ok f r = (case r of Ok x \<Rightarrow> Ok (f x) | Err e \<Rightarrow> Err e | Abort \<Rightarrow> Abort)"

definition split_system :: "Message list \<Rightarrow> string option \<times> Message list" where
  "split_system ms = (case ms of [] \<Rightarrow> (None, [])
     | m # rest \<Rightarrow> if msg_role m = ''system'' then (Some (msg_content m), rest) else (None, ms))"

definition with_system :: "string option \<Rightarrow> Message list \<Rightarrow> Message list" where
  "with_system system ms = (case (system, ms) of
     (Some s, m # rest) \<Rightarrow> m\<lparr>msg_content := s @ newline @ newline @ msg_content m\<rparr> # rest
   | _ \<Rightarrow> ms)"

definition gemma4 :: "Message list \<Rightarrow> (server_error, string) outcome" where
  "gemma4 messages =
     (if messages = [] then Err (BadRequest ''messages must not be empty'')
      else (case split_system messages of (system, ms) \<Rightarrow>
        if list_ex (\<lambda>m. msg_role m = ''system'') ms
        then Err (BadRequest ''system messages are accepted only in the first position'')
        else if ms = [] \<or> msg_role (hd ms) \<noteq> ''user'' then Err (BadRequest ''Gemma chat must begin with a user message'')
        else map_ok (\<lambda>p. p @ GENERATION_PROMPT) (gemma_turns 0 (with_system system ms) [])))"

definition apply_chat_template :: "string \<Rightarrow> Message list \<Rightarrow> (server_error, string) outcome" where
  "apply_chat_template family messages =
     (if family = ''gemma4'' then gemma4 messages else Err (no_template family))"

section \<open>Continuing a prompt\<close>

text \<open>A function that fails leaves the prompt as it was; the result is the new prompt.\<close>

definition append_rendered :: "string \<Rightarrow> string \<Rightarrow> string \<Rightarrow> (server_error, string) outcome" where
  "append_rendered family prompt continuation =
     (if prompt = [] then Ok continuation
      else if family = ''gemma4'' then
        (if \<not> ends_with prompt GENERATION_PROMPT
         then Err (StateError ''rendered Gemma conversation lacks its generation prompt'')
         else Ok (take (length prompt - length GENERATION_PROMPT) prompt @ continuation))
      else Err (no_template family))"

definition append_assistant_content :: "string \<Rightarrow> string \<Rightarrow> string \<Rightarrow> (server_error, string) outcome" where
  "append_assistant_content family prompt content =
     (if family = ''gemma4'' then
        (if \<not> ends_with prompt GENERATION_PROMPT
         then Err (StateError ''rendered Gemma conversation lacks its generation prompt'')
         else Ok (prompt @ content @ ''<end_of_turn>'' @ newline @ GENERATION_PROMPT))
      else Err (no_template family))"

definition insert_generation_instructions :: "string \<Rightarrow> string \<Rightarrow> string \<Rightarrow> (server_error, string) outcome" where
  "insert_generation_instructions family prompt instructions =
     (if family = ''gemma4'' then (case rfind prompt GENERATION_SUFFIX of
          None \<Rightarrow> Err (StateError ''rendered Gemma conversation lacks its generation suffix'')
        | Some position \<Rightarrow> Ok (take position prompt @ instructions @ drop position prompt))
      else Err (no_template family))"

definition terminal_markers :: "string \<Rightarrow> string list" where
  "terminal_markers family =
     (if family = ''gemma4'' then [''<end_of_turn>'', ''</end_of_turn>'', ''</start_of_turn>''] else [])"

definition effective_stop_sequences :: "string list \<Rightarrow> string \<Rightarrow> string list" where
  "effective_stop_sequences stop family =
     fold (\<lambda>marker stops. if marker \<in> set stops then stops else stops @ [marker]) (terminal_markers family) stop"

section \<open>Chat messages\<close>

datatype ContentPart = PartText string | PartImageUrl string

datatype ChatContent = ChatText string | ChatParts "ContentPart list"

record ChatMessage =
  cm_role :: string
  cm_content :: ChatContent

text \<open>\<open>admit\<close> says how the admission of an image fails, if it does.\<close>

fun lower_parts :: "(string \<Rightarrow> string option) \<Rightarrow> string \<Rightarrow> ContentPart list \<Rightarrow> string \<Rightarrow> (server_error, string) outcome" where
  "lower_parts admit role [] t = Ok t"
| "lower_parts admit role (PartText p # ps) t = lower_parts admit role ps (t @ p)"
| "lower_parts admit role (PartImageUrl url # ps) t =
     (if role \<noteq> ''user'' then Err (BadRequest ''images are accepted only in user messages'')
      else (case admit url of
          Some e \<Rightarrow> Err (BadRequest e)
        | None \<Rightarrow> Err (BadRequest ''image_unsupported: selected model has no compatible vision projector'')))"

fun normalize_chat :: "(string \<Rightarrow> string option) \<Rightarrow> ChatMessage list \<Rightarrow> (server_error, Message list) outcome" where
  "normalize_chat admit [] = Ok []"
| "normalize_chat admit (m # ms) =
     (if cm_role m \<notin> {''system'', ''user'', ''assistant''} then Err (BadRequest (''unsupported message role '' @ cm_role m))
      else (case (case cm_content m of ChatText t \<Rightarrow> Ok t | ChatParts ps \<Rightarrow> lower_parts admit (cm_role m) ps []) of
          Ok t \<Rightarrow> map_ok (\<lambda>rest. \<lparr>msg_role = cm_role m, msg_content = t\<rparr> # rest) (normalize_chat admit ms)
        | Err e \<Rightarrow> Err e | Abort \<Rightarrow> Abort))"

definition outcome_bind :: "('e, 'a) outcome \<Rightarrow> ('a \<Rightarrow> ('e, 'b) outcome) \<Rightarrow> ('e, 'b) outcome" where
  "outcome_bind r f = (case r of Ok x \<Rightarrow> f x | Err e \<Rightarrow> Err e | Abort \<Rightarrow> Abort)"

definition lower_messages :: "string \<Rightarrow> (string \<Rightarrow> string option) \<Rightarrow> ChatMessage list \<Rightarrow> (server_error, string) outcome" where
  "lower_messages family admit messages = outcome_bind (normalize_chat admit messages) (apply_chat_template family)"

definition flush_response_messages ::
  "(string \<Rightarrow> string option) \<Rightarrow> string \<Rightarrow> string \<Rightarrow> ChatMessage list \<Rightarrow> (server_error, string) outcome" where
  "flush_response_messages admit family prompt messages =
     (if messages = [] then Ok prompt
      else outcome_bind (lower_messages family admit messages) (append_rendered family prompt))"

section \<open>Tools\<close>

record FunctionTool =
  ft_type :: string
  ft_name :: string
  ft_parameters_object :: bool

datatype ToolDefinition = NestedTool FunctionTool | FlatTool FunctionTool

fun tool_function :: "ToolDefinition \<Rightarrow> FunctionTool" where
  "tool_function (NestedTool t) = t"
| "tool_function (FlatTool t) = t"

definition valid_function :: "ToolDefinition \<Rightarrow> bool" where
  "valid_function tool \<longleftrightarrow> (let t = tool_function tool in ft_type t = ''function'' \<and> ft_name t \<noteq> [] \<and> ft_parameters_object t)"

definition tool_names :: "ToolDefinition list \<Rightarrow> string list" where
  "tool_names tools = map (\<lambda>t. ft_name (tool_function t)) tools"

datatype ToolChoiceMode = ToolAuto | ToolNone | ToolRequired

datatype ToolChoice = ChoiceMode ToolChoiceMode | ChoiceFunction string string

definition quoted :: "string \<Rightarrow> string" where
  "quoted s = [CHR 0x60] @ s @ [CHR 0x60]"

definition tool_choice_validate :: "ToolChoice \<Rightarrow> ToolDefinition list \<Rightarrow> (server_error, unit) outcome" where
  "tool_choice_validate choice tools = (case choice of
       ChoiceMode ToolAuto \<Rightarrow> Ok ()
     | ChoiceMode ToolNone \<Rightarrow> Ok ()
     | ChoiceMode ToolRequired \<Rightarrow> if tools = [] then Err (BadRequest (''tool_choice '' @ quoted ''required'' @ '' requires at least one tool''))
         else Ok ()
     | ChoiceFunction ty name \<Rightarrow>
         if ty \<noteq> ''function'' then Err (BadRequest (''unsupported tool_choice type '' @ quoted ty @ ''; only '' @ quoted ''function'' @ '' is supported''))
         else if name = [] then Err (BadRequest ''tool_choice function name must not be empty'')
         else if name \<in> set (tool_names tools) then Ok ()
         else Err (BadRequest (''tool_choice references undeclared function '' @ quoted name)))"

text \<open>\<open>definitions\<close> is the JSON text of the tools.\<close>

definition tool_instructions :: "string \<Rightarrow> ToolChoice option \<Rightarrow> bool \<Rightarrow> string" where
  "tool_instructions definitions choice has_tool_output =
     newline @ newline @ ''Available tools: '' @ definitions @ newline
     @ ''When calling a tool, output only JSON in the form ''
     @ [CHR ''{'', CHR 0x22] @ ''name'' @ [CHR 0x22, CHR '':'', CHR 0x22] @ ''function_name'' @ [CHR 0x22, CHR '','', CHR 0x22]
     @ ''arguments'' @ [CHR 0x22] @ '':{...}}.''
     @ (case choice of Some (ChoiceMode ToolRequired) \<Rightarrow> '' You must call a tool.''
         | Some (ChoiceFunction ty name) \<Rightarrow> '' You must call the '' @ quoted name @ '' function.''
         | _ \<Rightarrow> [])
     @ (if has_tool_output
        then '' A tool result is already provided above. Use it to answer the user; do not repeat a completed call.'' else [])"

definition append_tool_instructions ::
  "(ToolDefinition list \<Rightarrow> string) \<Rightarrow> string \<Rightarrow> string \<Rightarrow> ToolDefinition list \<Rightarrow> ToolChoice option \<Rightarrow> bool \<Rightarrow> (server_error, string) outcome" where
  "append_tool_instructions tools_json family prompt tools choice has_tool_output =
     (if tools = [] \<or> choice = Some (ChoiceMode ToolNone) then Ok prompt
      else insert_generation_instructions family prompt (tool_instructions (tools_json tools) choice has_tool_output))"

end
