(* ===== verification/Responses.thy ===== *)
theory Responses
  imports Prompt Compaction Generation Request_Control
begin

text \<open>
  Responses: the resources the server keeps, their streamed projection, the store on disk with its
  recovery, the lineage of a conversation, and context updates (\<open>responses.rs\<close>, \<open>response_store.rs\<close>,
  \<open>context_updates.rs\<close> and the handler \<open>responses\<close> of \<open>lib.rs\<close>, all in \<open>crates/server/src\<close>).
  \<open>'j\<close> is the type of JSON values. Parameters: the time, fresh identifiers, and the answers of the file system.
\<close>

section \<open>Events and usage\<close>

record Usage =
  us_input_tokens :: nat
  us_generated_tokens :: nat
  us_evaluated_tokens :: nat
  us_cached_tokens :: nat
  us_prefill :: PrefillMetrics
  us_model :: string
  us_model_revision :: string
  us_context_id :: string
  us_compaction_result :: "CompactionResult option"
  us_latency_ms :: nat
  us_status :: string
  us_correlation_id :: string
  us_inference_id :: string
  us_execution_session_id :: string

datatype StreamEvent =
    StreamStarted string string string string string
  | StreamToken string nat
  | StreamFinished FinishReason Usage
  | StreamError string

section \<open>Resources\<close>

definition RESPONSE_SCHEMA_VERSION :: nat where "RESPONSE_SCHEMA_VERSION = 1"
definition TRANSIENT_RESPONSE_CAPACITY :: nat where "TRANSIENT_RESPONSE_CAPACITY = 1024"

record 'j ResponseTextPart =
  rt_text :: string
  rt_annotations :: "'j list"
  rt_logprobs :: "'j list"

record 'j ResponseMessage =
  rm_id :: string
  rm_role :: string
  rm_status :: string
  rm_content :: "'j ResponseTextPart list"

record ResponseFunctionCall =
  fc_id :: string
  fc_call_id :: string
  fc_name :: string
  fc_arguments :: string
  fc_status :: string

datatype ResponseInputItem =
    InputMessage string string
  | InputCallOutput string string
  | InputCall string string string

datatype 'j ResponseOutputItem = OutputMessage "'j ResponseMessage" | OutputCall ResponseFunctionCall

record ResponseUsage =
  ru_input_tokens :: nat
  ru_cached_tokens :: nat
  ru_output_tokens :: nat

record ResponseMetadata =
  md_correlation_id :: string
  md_inference_id :: string
  md_execution_session_id :: string

record ContextUpdateMetadata =
  cu_operation_id :: string
  cu_operation :: string
  cu_base_response_id :: string
  cu_base_revision :: nat
  cu_correlation_id :: string

record 'j ResponseResource =
  rr_schema_version :: nat
  rr_id :: string
  rr_owner :: string
  rr_model :: string
  rr_created_at :: nat
  rr_status :: string
  rr_store :: bool
  rr_previous :: "string option"
  rr_input :: "ResponseInputItem list"
  rr_output :: "'j ResponseOutputItem list"
  rr_tools :: "'j list"
  rr_tool_choice :: 'j
  rr_finish_reason :: "FinishReason option"
  rr_usage :: "ResponseUsage option"
  rr_metadata :: ResponseMetadata
  rr_revision :: nat
  rr_context_update :: "ContextUpdateMetadata option"

definition response_usage :: "Usage \<Rightarrow> ResponseUsage" where
  "response_usage u = \<lparr>ru_input_tokens = us_input_tokens u, ru_cached_tokens = us_cached_tokens u,
     ru_output_tokens = us_generated_tokens u\<rparr>"

definition text_part :: "string \<Rightarrow> 'j ResponseTextPart" where
  "text_part t = \<lparr>rt_text = t, rt_annotations = [], rt_logprobs = []\<rparr>"

definition assistant_message :: "string \<Rightarrow> string \<Rightarrow> 'j ResponseMessage" where
  "assistant_message status t = \<lparr>rm_id = ''msg_0'', rm_role = ''assistant'', rm_status = status, rm_content = [text_part t]\<rparr>"

definition new_function_call :: "string \<Rightarrow> string \<Rightarrow> string \<Rightarrow> string \<Rightarrow> ResponseFunctionCall" where
  "new_function_call uuid uuid2 name arguments = \<lparr>fc_id = ''fc_'' @ uuid, fc_call_id = ''call_'' @ uuid2, fc_name = name,
     fc_arguments = arguments, fc_status = ''completed''\<rparr>"

record 'j CompleteResponse =
  cp_id :: string
  cp_owner :: string
  cp_model :: string
  cp_text :: string
  cp_reason :: FinishReason
  cp_usage :: Usage
  cp_store :: bool
  cp_previous :: "string option"
  cp_tools :: "'j list"
  cp_tool_choice :: 'j
  cp_revision :: nat
  cp_input :: "ResponseInputItem list"
  cp_function_call :: "ResponseFunctionCall option"

definition response_complete :: "nat \<Rightarrow> 'j CompleteResponse \<Rightarrow> 'j ResponseResource" where
  "response_complete now p = \<lparr>rr_schema_version = RESPONSE_SCHEMA_VERSION, rr_id = cp_id p, rr_owner = cp_owner p,
     rr_model = cp_model p, rr_created_at = now, rr_status = ''completed'', rr_store = cp_store p, rr_previous = cp_previous p,
     rr_input = cp_input p,
     rr_output = (case cp_function_call p of None \<Rightarrow> [OutputMessage (assistant_message ''completed'' (cp_text p))]
       | Some call \<Rightarrow> [OutputCall call]),
     rr_tools = cp_tools p, rr_tool_choice = cp_tool_choice p, rr_finish_reason = Some (cp_reason p),
     rr_usage = Some (response_usage (cp_usage p)),
     rr_metadata = \<lparr>md_correlation_id = us_correlation_id (cp_usage p), md_inference_id = us_inference_id (cp_usage p),
       md_execution_session_id = us_execution_session_id (cp_usage p)\<rparr>,
     rr_revision = cp_revision p, rr_context_update = None\<rparr>"

section \<open>The streamed projection\<close>

datatype 'j ResponseEvent =
    EvCreated "'j ResponseResource"
  | EvOutputItemAdded "'j ResponseMessage"
  | EvFunctionCallAdded ResponseFunctionCall
  | EvContentPartAdded "'j ResponseTextPart"
  | EvTextDelta string
  | EvTextDone "'j ResponseTextPart"
  | EvContentPartDone "'j ResponseTextPart"
  | EvOutputItemDone "'j ResponseMessage"
  | EvFunctionCallDone ResponseFunctionCall
  | EvCompleted "'j ResponseResource"
  | EvError string

record 'j ResponseProjection =
  pj_resource :: "'j ResponseResource"
  pj_sequence :: nat
  pj_buffer_output :: bool
  pj_function_call :: "ResponseFunctionCall option"

record 'j StreamResponse =
  sr_model :: string
  sr_owner :: string
  sr_store :: bool
  sr_previous :: "string option"
  sr_input :: "ResponseInputItem list"
  sr_tools :: "'j list"
  sr_tool_choice :: 'j
  sr_buffer_output :: bool
  sr_revision :: nat

definition empty_metadata :: ResponseMetadata where
  "empty_metadata = \<lparr>md_correlation_id = [], md_inference_id = [], md_execution_session_id = []\<rparr>"

text \<open>\<open>auto\<close> is the default tool choice.\<close>

definition projection_new :: "'j \<Rightarrow> nat \<Rightarrow> string \<Rightarrow> 'j ResponseProjection" where
  "projection_new auto now model = \<lparr>pj_resource = \<lparr>rr_schema_version = RESPONSE_SCHEMA_VERSION, rr_id = [], rr_owner = [],
     rr_model = model, rr_created_at = now, rr_status = ''in_progress'', rr_store = False, rr_previous = None, rr_input = [],
     rr_output = [], rr_tools = [], rr_tool_choice = auto, rr_finish_reason = None, rr_usage = None, rr_metadata = empty_metadata,
     rr_revision = 0, rr_context_update = None\<rparr>, pj_sequence = 0, pj_buffer_output = False, pj_function_call = None\<rparr>"

definition with_request :: "'j StreamResponse \<Rightarrow> 'j ResponseProjection \<Rightarrow> 'j ResponseProjection" where
  "with_request r p = p\<lparr>pj_resource := (pj_resource p)\<lparr>rr_owner := sr_owner r, rr_store := sr_store r, rr_previous := sr_previous r,
     rr_input := sr_input r, rr_tools := sr_tools r, rr_tool_choice := sr_tool_choice r, rr_revision := sr_revision r\<rparr>,
     pj_buffer_output := sr_buffer_output r\<rparr>"

definition stream_projection :: "'j \<Rightarrow> nat \<Rightarrow> 'j StreamResponse \<Rightarrow> 'j ResponseProjection" where
  "stream_projection auto now r = with_request r (projection_new auto now (sr_model r))"

definition generated_text :: "'j ResponseProjection \<Rightarrow> string" where
  "generated_text p = (case rr_output (pj_resource p) of OutputMessage m # _ \<Rightarrow>
     (case rm_content m of part # _ \<Rightarrow> rt_text part | [] \<Rightarrow> []) | _ \<Rightarrow> [])"

definition completed_resource :: "'j ResponseProjection \<Rightarrow> 'j ResponseResource option" where
  "completed_resource p = (if rr_status (pj_resource p) = ''completed'' then Some (pj_resource p) else None)"

text \<open>Appending to \<open>message.content[0]\<close> panics when a message has no part; no message here is without one.\<close>

definition push_text :: "string \<Rightarrow> 'j ResponseOutputItem list \<Rightarrow> 'j ResponseOutputItem list" where
  "push_text token output = (case output of OutputMessage m # rest \<Rightarrow>
     OutputMessage (m\<lparr>rm_content := (case rm_content m of part # parts \<Rightarrow> part\<lparr>rt_text := rt_text part @ token\<rparr> # parts | [] \<Rightarrow> [])\<rparr>) # rest
   | _ \<Rightarrow> output)"

fun project_events :: "StreamEvent \<Rightarrow> 'j ResponseProjection \<Rightarrow> 'j ResponseProjection \<times> 'j ResponseEvent list" where
  "project_events (StreamStarted request context correlation inference session) p =
     (let message = assistant_message ''in_progress'' (generated_text p);
          r = (pj_resource p)\<lparr>rr_id := request, rr_metadata := \<lparr>md_correlation_id = correlation, md_inference_id = inference,
            md_execution_session_id = session\<rparr>, rr_output := [OutputMessage message]\<rparr>
      in (p\<lparr>pj_resource := r\<rparr>,
          if pj_buffer_output p then [EvCreated r] else [EvCreated r, EvOutputItemAdded message, EvContentPartAdded (text_part [])]))"
| "project_events (StreamToken token index) p =
     (p\<lparr>pj_resource := (pj_resource p)\<lparr>rr_output := push_text token (rr_output (pj_resource p))\<rparr>\<rparr>,
      if pj_buffer_output p then [] else [EvTextDelta token])"
| "project_events (StreamFinished reason usage) p =
     (let r = (pj_resource p)\<lparr>rr_status := ''completed'', rr_finish_reason := Some reason, rr_usage := Some (response_usage usage)\<rparr>
      in case pj_function_call p of
        Some call \<Rightarrow> (let r = r\<lparr>rr_output := [OutputCall call]\<rparr> in
          (p\<lparr>pj_resource := r, pj_function_call := None\<rparr>, [EvFunctionCallAdded call, EvFunctionCallDone call, EvCompleted r]))
      | None \<Rightarrow> (let message = assistant_message ''completed'' (generated_text p); r = r\<lparr>rr_output := [OutputMessage message]\<rparr>;
            part = text_part (generated_text p) in
          (p\<lparr>pj_resource := r\<rparr>,
           (if pj_buffer_output p then [EvOutputItemAdded message, EvContentPartAdded (text_part []), EvTextDelta (rt_text part)] else [])
           @ [EvTextDone part, EvContentPartDone part, EvOutputItemDone message, EvCompleted r])))"
| "project_events (StreamError message) p = (p, [EvError message])"

text \<open>Every event is written with the next sequence number.\<close>

definition project :: "StreamEvent \<Rightarrow> 'j ResponseProjection \<Rightarrow> 'j ResponseProjection \<times> (nat \<times> 'j ResponseEvent) list" where
  "project event p = (case project_events event p of (p', evs) \<Rightarrow>
     (p'\<lparr>pj_sequence := pj_sequence p' + length evs\<rparr>, enumerate (pj_sequence p') evs))"

end
