(* ===== verification/Response_Store.thy ===== *)
theory Response_Store
  imports Responses
begin

text \<open>
  The store of response resources (\<open>FileResponseResourceStore\<close> in \<open>response_store.rs\<close>) and the service in
  front of it (\<open>ResponseService\<close> in \<open>responses.rs\<close>). A file is named by the id it should hold; the answers of
  the file system are arguments. Every operation is one critical section, but for the parts of \<open>put\<close>.
\<close>

section \<open>Errors and files\<close>

datatype StoreError = RsNotFound string | RsIo string | RsMalformed string | RsStaleRevision nat nat | RsConflict string

fun store_error_text :: "StoreError \<Rightarrow> string" where
  "store_error_text (RsNotFound i) = ''response resource '' @ i @ '' was not found''"
| "store_error_text (RsIo e) = ''response store I/O failed: '' @ e"
| "store_error_text (RsMalformed e) = ''response resource is malformed: '' @ e"
| "store_error_text (RsStaleRevision expected current) =
     ''response lineage revision is stale: expected '' @ show_nat expected @ '', current '' @ show_nat current"
| "store_error_text (RsConflict i) = ''response resource '' @ i @ '' already has a committed successor''"

fun response_store_error :: "StoreError \<Rightarrow> server_error" where
  "response_store_error (RsNotFound _) = ServerContextNotFound"
| "response_store_error (RsStaleRevision e c) = Conflict (store_error_text (RsStaleRevision e c))"
| "response_store_error (RsConflict i) = Conflict (store_error_text (RsConflict i))"
| "response_store_error (RsIo m) = StateError (store_error_text (RsIo m))"
| "response_store_error (RsMalformed m) = StateError (store_error_text (RsMalformed m))"

definition RESPONSE_RETENTION_SECONDS :: nat where
  "RESPONSE_RETENTION_SECONDS = 30 * 24 * 60 * 60"

definition response_expired :: "'j ResponseResource \<Rightarrow> nat \<Rightarrow> bool" where
  "response_expired r timestamp \<longleftrightarrow> RESPONSE_RETENTION_SECONDS \<le> timestamp - rr_created_at r"

datatype 'j ResponseFile = ResourceFile "'j ResponseResource" | GarbageFile string

record 'j FileStore =
  fs_files :: "(string, 'j ResponseFile) hm"
  fs_memory :: "(string, 'j ResponseResource) hm"

text \<open>A write can fail before the new file is in place, or after, when the directory is not synchronised.\<close>

datatype WriteAnswer = WriteDone | WriteFailed string | WriteUnsynced string

record FileAnswers =
  fa_remove :: "string \<Rightarrow> string option"
  fa_sync :: "string option"
  fa_write :: WriteAnswer

section \<open>Opening\<close>

text \<open>\<open>fs::remove_file\<close> fails on a file that is not there.\<close>

definition remove_file :: "FileAnswers \<Rightarrow> string \<Rightarrow> 'j FileStore \<Rightarrow> 'j FileStore \<times> (StoreError, unit) outcome" where
  "remove_file a i s = (if \<not> hm_has (fs_files s) i then (s, Err (RsIo ''No such file or directory''))
     else (case fa_remove a i of Some e \<Rightarrow> (s, Err (RsIo e)) | None \<Rightarrow> (s\<lparr>fs_files := hm_del i (fs_files s)\<rparr>, Ok ())))"

fun recover_loop :: "FileAnswers \<Rightarrow> nat \<Rightarrow> (string \<times> 'j ResponseFile) list \<Rightarrow> 'j FileStore \<Rightarrow> 'j FileStore \<times> (StoreError, unit) outcome" where
  "recover_loop a now [] s = (s, Ok ())"
| "recover_loop a now ((name, GarbageFile e) # entries) s = (s, Err (RsMalformed (name @ ''.json: '' @ e)))"
| "recover_loop a now ((name, ResourceFile r) # entries) s =
     (if name \<noteq> rr_id r then (s, Err (RsMalformed (name @ ''.json does not match resource id '' @ rr_id r)))
      else if response_expired r now then and_then (remove_file a name s) (\<lambda>_ s. recover_loop a now entries s)
      else recover_loop a now entries (s\<lparr>fs_memory := hm_put (rr_id r) r (fs_memory s)\<rparr>))"

definition store_open :: "FileAnswers \<Rightarrow> nat \<Rightarrow> (string, 'j ResponseFile) hm \<Rightarrow> 'j FileStore \<times> (StoreError, unit) outcome" where
  "store_open a now files = recover_loop a now files \<lparr>fs_files = files, fs_memory = []\<rparr>"

section \<open>Operations\<close>

definition write_resource :: "FileAnswers \<Rightarrow> 'j ResponseResource \<Rightarrow> 'j FileStore \<Rightarrow> 'j FileStore \<times> (StoreError, unit) outcome" where
  "write_resource a r s = (let written = s\<lparr>fs_files := hm_put (rr_id r) (ResourceFile r) (fs_files s)\<rparr> in
     case fa_write a of WriteDone \<Rightarrow> (written, Ok ()) | WriteFailed e \<Rightarrow> (s, Err (RsIo e)) | WriteUnsynced e \<Rightarrow> (written, Err (RsIo e)))"

definition sync_directory :: "FileAnswers \<Rightarrow> 'j FileStore \<Rightarrow> 'j FileStore \<times> (StoreError, unit) outcome" where
  "sync_directory a s = (s, case fa_sync a of None \<Rightarrow> Ok () | Some e \<Rightarrow> Err (RsIo e))"

fun prune_loop :: "FileAnswers \<Rightarrow> string list \<Rightarrow> 'j FileStore \<Rightarrow> 'j FileStore \<times> (StoreError, unit) outcome" where
  "prune_loop a [] s = (s, Ok ())"
| "prune_loop a (i # is) s = and_then (remove_file a i s) (\<lambda>_ s. prune_loop a is (s\<lparr>fs_memory := hm_del i (fs_memory s)\<rparr>))"

definition prune_expired :: "FileAnswers \<Rightarrow> nat \<Rightarrow> 'j FileStore \<Rightarrow> 'j FileStore \<times> (StoreError, unit) outcome" where
  "prune_expired a now s = (let ids = map rr_id (filter (\<lambda>r. response_expired r now) (hm_values (fs_memory s))) in
     and_then (prune_loop a ids s) (\<lambda>_ s. if ids \<noteq> [] then sync_directory a s else (s, Ok ())))"

definition remember_file :: "'j ResponseResource \<Rightarrow> 'j FileStore \<Rightarrow> 'j FileStore" where
  "remember_file r s = s\<lparr>fs_memory := hm_put (rr_id r) r (fs_memory s)\<rparr>"

definition store_put :: "FileAnswers \<Rightarrow> nat \<Rightarrow> 'j ResponseResource \<Rightarrow> 'j FileStore \<Rightarrow> 'j FileStore \<times> (StoreError, unit) outcome" where
  "store_put a now r s = and_then (prune_expired a now s) (\<lambda>_ s. and_then (write_resource a r s) (\<lambda>_ s. (remember_file r s, Ok ())))"

definition has_successor :: "string \<Rightarrow> (string, 'j ResponseResource) hm \<Rightarrow> bool" where
  "has_successor base m \<longleftrightarrow> list_ex (\<lambda>r. rr_previous r = Some base) (hm_values m)"

definition check_successor :: "string \<Rightarrow> nat \<Rightarrow> 'j FileStore \<Rightarrow> (StoreError, unit) outcome" where
  "check_successor base expected s = (case map_of (fs_memory s) base of None \<Rightarrow> Err (RsNotFound base)
     | Some b \<Rightarrow> if rr_revision b \<noteq> expected then Err (RsStaleRevision expected (rr_revision b))
         else if has_successor base (fs_memory s) then Err (RsConflict base) else Ok ())"

definition store_put_successor ::
  "FileAnswers \<Rightarrow> nat \<Rightarrow> string \<Rightarrow> nat \<Rightarrow> 'j ResponseResource \<Rightarrow> 'j FileStore \<Rightarrow> 'j FileStore \<times> (StoreError, unit) outcome" where
  "store_put_successor a now base expected r s = and_then (prune_expired a now s) (\<lambda>_ s.
     and_then (s, check_successor base expected s) (\<lambda>_ s. and_then (write_resource a r s) (\<lambda>_ s. (remember_file r s, Ok ()))))"

definition store_get :: "string \<Rightarrow> 'j FileStore \<Rightarrow> (StoreError, 'j ResponseResource) outcome" where
  "store_get i s = ok_or (RsNotFound i) (map_of (fs_memory s) i)"

definition store_delete :: "FileAnswers \<Rightarrow> string \<Rightarrow> 'j FileStore \<Rightarrow> 'j FileStore \<times> (StoreError, unit) outcome" where
  "store_delete a i s = (if \<not> hm_has (fs_memory s) i then (s, Err (RsNotFound i))
     else if has_successor i (fs_memory s) then (s, Err (RsConflict i))
     else and_then (remove_file a i s) (\<lambda>_ s. and_then (sync_directory a s) (\<lambda>_ s.
       (s\<lparr>fs_memory := hm_del i (fs_memory s)\<rparr>, Ok ()))))"

section \<open>The service\<close>

record 'j ResponseService =
  rv_store :: "'j FileStore"
  rv_transient :: "(string, 'j ResponseResource) hm"
  rv_order :: "string list"

fun evict_transient :: "string list \<Rightarrow> (string, 'j ResponseResource) hm \<Rightarrow> (string, 'j ResponseResource) hm \<times> string list" where
  "evict_transient [] m = (m, [])"
| "evict_transient (i # is) m = (if length m \<le> TRANSIENT_RESPONSE_CAPACITY then (m, i # is) else evict_transient is (hm_del i m))"

definition in_store :: "'j FileStore \<times> (StoreError, 'a) outcome \<Rightarrow> 'j ResponseService \<Rightarrow> 'j ResponseService \<times> (StoreError, 'a) outcome" where
  "in_store r s = (s\<lparr>rv_store := fst r\<rparr>, snd r)"

definition service_remember :: "FileAnswers \<Rightarrow> nat \<Rightarrow> 'j ResponseResource \<Rightarrow> 'j ResponseService \<Rightarrow> 'j ResponseService \<times> (StoreError, unit) outcome" where
  "service_remember a now r s =
     (if rr_store r then (case rr_previous r of
          Some base \<Rightarrow> in_store (store_put_successor a now base (rr_revision r - 1) r (rv_store s)) s
        | None \<Rightarrow> in_store (store_put a now r (rv_store s)) s)
      else (let order = (if hm_has (rv_transient s) (rr_id r) then rv_order s else rv_order s @ [rr_id r]) in
        case evict_transient order (hm_put (rr_id r) r (rv_transient s)) of
          (m, order) \<Rightarrow> (s\<lparr>rv_transient := m, rv_order := order\<rparr>, Ok ())))"

definition commit_successor :: "FileAnswers \<Rightarrow> nat \<Rightarrow> string \<Rightarrow> nat \<Rightarrow> 'j ResponseResource \<Rightarrow> 'j ResponseService \<Rightarrow> 'j ResponseService \<times> (StoreError, unit) outcome" where
  "commit_successor a now base expected r s = in_store (store_put_successor a now base expected r (rv_store s)) s"

definition service_retrieve :: "string \<Rightarrow> string \<Rightarrow> 'j ResponseService \<Rightarrow> (StoreError, 'j ResponseResource) outcome" where
  "service_retrieve i owner s = (case (case map_of (rv_transient s) i of Some r \<Rightarrow> Ok r | None \<Rightarrow> store_get i (rv_store s)) of
       Ok r \<Rightarrow> if rr_owner r \<noteq> owner then Err (RsNotFound i) else Ok r
     | e \<Rightarrow> e)"

definition service_delete :: "FileAnswers \<Rightarrow> string \<Rightarrow> string \<Rightarrow> 'j ResponseService \<Rightarrow> 'j ResponseService \<times> (StoreError, unit) outcome" where
  "service_delete a i owner s = and_then (s, service_retrieve i owner s) (\<lambda>_ s.
     if has_successor i (rv_transient s) then (s, Err (RsConflict i))
     else if hm_has (rv_transient s) i
     then (s\<lparr>rv_transient := hm_del i (rv_transient s), rv_order := filter (\<lambda>c. c \<noteq> i) (rv_order s)\<rparr>, Ok ())
     else in_store (store_delete a i (rv_store s)) s)"

end
