(* ===== verification/Lineage.thy ===== *)
theory Lineage
  imports Response_Store
begin

text \<open>
  The lineage of a conversation: the prompt that replays it, the prompt of a Responses request
  (handler \<open>responses\<close> of \<open>lib.rs\<close>), the function call in a generated text, and the context update
  (\<open>context_updates.rs\<close>). Parameters: \<open>call_json\<close>, the JSON text of a call; \<open>parse\<close>, the name and the
  arguments of the JSON object a text is, if it is one; \<open>admit\<close>, the admission of an image.
\<close>

section \<open>Replaying a lineage\<close>

definition LINEAGE_LIMIT :: nat where "LINEAGE_LIMIT = 1024"

definition lineage_too_long :: server_error where
  "lineage_too_long = BadRequest ''response lineage exceeds 1024 resources''"

definition lineage_retrieve :: "'j ResponseService \<Rightarrow> string \<Rightarrow> string \<Rightarrow> (server_error, 'j ResponseResource) outcome" where
  "lineage_retrieve service owner i = (case service_retrieve i owner service of
     Ok r \<Rightarrow> Ok r | Err e \<Rightarrow> Err (response_store_error e) | Abort \<Rightarrow> Abort)"

fun collect_lineage ::
  "nat \<Rightarrow> 'j ResponseService \<Rightarrow> string \<Rightarrow> 'j ResponseResource \<Rightarrow> 'j ResponseResource list \<Rightarrow> (server_error, 'j ResponseResource list) outcome" where
  "collect_lineage 0 service owner r lineage = Ok lineage"
| "collect_lineage (Suc n) service owner r lineage = (case rr_previous r of
     None \<Rightarrow> Ok (lineage @ [r])
   | Some i \<Rightarrow> outcome_bind (lineage_retrieve service owner i) (\<lambda>r'. collect_lineage n service owner r' (lineage @ [r])))"

definition call_message :: "(string \<Rightarrow> string \<Rightarrow> string) \<Rightarrow> string \<Rightarrow> string \<Rightarrow> Message" where
  "call_message call_json name arguments = \<lparr>msg_role = ''assistant'', msg_content = call_json name arguments\<rparr>"

definition tool_result_text :: "string \<Rightarrow> string \<Rightarrow> string" where
  "tool_result_text call_id output = ''Tool result for '' @ call_id @ '': '' @ output"

fun input_message :: "(string \<Rightarrow> string \<Rightarrow> string) \<Rightarrow> ResponseInputItem \<Rightarrow> Message" where
  "input_message call_json (InputMessage role t) = \<lparr>msg_role = role, msg_content = t\<rparr>"
| "input_message call_json (InputCall call_id name arguments) = call_message call_json name arguments"
| "input_message call_json (InputCallOutput call_id output) = \<lparr>msg_role = ''user'', msg_content = tool_result_text call_id output\<rparr>"

fun output_message :: "(string \<Rightarrow> string \<Rightarrow> string) \<Rightarrow> 'j ResponseOutputItem \<Rightarrow> Message" where
  "output_message call_json (OutputMessage m) = \<lparr>msg_role = ''assistant'', msg_content = concat (map rt_text (rm_content m))\<rparr>"
| "output_message call_json (OutputCall c) = call_message call_json (fc_name c) (fc_arguments c)"

definition resource_messages :: "(string \<Rightarrow> string \<Rightarrow> string) \<Rightarrow> 'j ResponseResource \<Rightarrow> Message list" where
  "resource_messages call_json r = map (input_message call_json) (rr_input r) @ map (output_message call_json) (rr_output r)"

definition merge_message :: "Message \<Rightarrow> Message \<Rightarrow> Message" where
  "merge_message previous m = previous\<lparr>msg_content := msg_content previous
     @ (if msg_content previous \<noteq> [] \<and> msg_content m \<noteq> [] then newline else []) @ msg_content m\<rparr>"

fun normalize_loop :: "Message list \<Rightarrow> Message list \<Rightarrow> Message list" where
  "normalize_loop normalized [] = normalized"
| "normalize_loop normalized (m # ms) =
     (if normalized \<noteq> [] \<and> msg_role (last normalized) = msg_role m
      then normalize_loop (butlast normalized @ [merge_message (last normalized) m]) ms
      else normalize_loop (normalized @ [m]) ms)"

definition normalize_response_messages :: "Message list \<Rightarrow> Message list" where
  "normalize_response_messages ms = normalize_loop [] ms"

definition response_lineage_prompt ::
  "(string \<Rightarrow> string \<Rightarrow> string) \<Rightarrow> 'j ResponseService \<Rightarrow> 'j ResponseResource \<Rightarrow> string \<Rightarrow> string \<Rightarrow> (server_error, string) outcome" where
  "response_lineage_prompt call_json service r owner family =
     outcome_bind (collect_lineage LINEAGE_LIMIT service owner r []) (\<lambda>lineage.
       if lineage \<noteq> [] \<and> rr_previous (last lineage) \<noteq> None then Err lineage_too_long
       else apply_chat_template family (normalize_response_messages (concat (map (resource_messages call_json) (rev lineage)))))"

definition has_call :: "string \<Rightarrow> 'j ResponseResource \<Rightarrow> bool" where
  "has_call call_id r \<longleftrightarrow> list_ex (\<lambda>item. case item of OutputCall c \<Rightarrow> fc_call_id c = call_id | _ \<Rightarrow> False) (rr_output r)"

fun call_loop :: "nat \<Rightarrow> 'j ResponseService \<Rightarrow> string \<Rightarrow> string \<Rightarrow> 'j ResponseResource \<Rightarrow> (server_error, bool) outcome" where
  "call_loop 0 service owner call_id r = Err lineage_too_long"
| "call_loop (Suc n) service owner call_id r =
     (if has_call call_id r then Ok True
      else (case rr_previous r of None \<Rightarrow> Ok False
        | Some i \<Rightarrow> outcome_bind (lineage_retrieve service owner i) (call_loop n service owner call_id)))"

definition lineage_has_call :: "'j ResponseService \<Rightarrow> string option \<Rightarrow> string \<Rightarrow> string \<Rightarrow> (server_error, bool) outcome" where
  "lineage_has_call service previous owner call_id = (case previous of None \<Rightarrow> Ok False
     | Some i \<Rightarrow> outcome_bind (lineage_retrieve service owner i) (call_loop LINEAGE_LIMIT service owner call_id))"

section \<open>The prompt of a request\<close>

datatype ResponsesContentPart = RpInputText string | RpOutputText string | RpInputImage string

datatype ResponsesContent = RcText string | RcParts "ResponsesContentPart list"

datatype ResponsesInputItem =
    RiMessage string ResponsesContent
  | RiFunctionCallOutput string string
  | RiFunctionCall string string string

datatype ResponsesInput = RqText string | RqItems "ResponsesInputItem list"

fun part_text :: "ResponsesContentPart \<Rightarrow> string" where
  "part_text (RpInputText t) = t"
| "part_text (RpOutputText t) = t"
| "part_text (RpInputImage url) = []"

fun part_content :: "ResponsesContentPart \<Rightarrow> ContentPart" where
  "part_content (RpInputText t) = PartText t"
| "part_content (RpOutputText t) = PartText t"
| "part_content (RpInputImage url) = PartImageUrl url"

fun raw_text :: "ResponsesContent \<Rightarrow> string" where
  "raw_text (RcText t) = t"
| "raw_text (RcParts ps) = concat (map part_text ps)"

fun chat_content :: "ResponsesContent \<Rightarrow> ChatContent" where
  "chat_content (RcText t) = ChatText t"
| "chat_content (RcParts ps) = ChatParts (map part_content ps)"

record PromptState =
  ps_prompt :: string
  ps_pending :: "ChatMessage list"
  ps_call_ids :: "string list"
  ps_ledger :: "ResponseInputItem list"

definition flush_pending :: "(string \<Rightarrow> string option) \<Rightarrow> string \<Rightarrow> PromptState \<Rightarrow> (server_error, PromptState) outcome" where
  "flush_pending admit family p =
     map_ok (\<lambda>prompt. p\<lparr>ps_prompt := prompt, ps_pending := []\<rparr>) (flush_response_messages admit family (ps_prompt p) (ps_pending p))"

definition append_user :: "(string \<Rightarrow> string option) \<Rightarrow> string \<Rightarrow> string \<Rightarrow> string \<Rightarrow> (server_error, string) outcome" where
  "append_user admit family prompt t =
     outcome_bind (lower_messages family admit [\<lparr>cm_role = ''user'', cm_content = ChatText t\<rparr>]) (append_rendered family prompt)"

text \<open>\<open>known\<close> looks a call up in the lineage.\<close>

fun prompt_item :: "(string \<Rightarrow> string \<Rightarrow> string) \<Rightarrow> (string \<Rightarrow> string option) \<Rightarrow> (string \<Rightarrow> (server_error, bool) outcome) \<Rightarrow> string
    \<Rightarrow> ResponsesInputItem \<Rightarrow> PromptState \<Rightarrow> (server_error, PromptState) outcome" where
  "prompt_item call_json admit known family (RiFunctionCall call_id name arguments) p =
     outcome_bind (flush_pending admit family p) (\<lambda>p.
       map_ok (\<lambda>prompt. p\<lparr>ps_prompt := prompt, ps_call_ids := List.insert call_id (ps_call_ids p),
           ps_ledger := ps_ledger p @ [InputCall call_id name arguments]\<rparr>)
         (append_assistant_content family (ps_prompt p) (call_json name arguments)))"
| "prompt_item call_json admit known family (RiMessage role content) p =
     Ok (p\<lparr>ps_ledger := ps_ledger p @ [InputMessage role (raw_text content)],
       ps_pending := ps_pending p @ [\<lparr>cm_role = role, cm_content = chat_content content\<rparr>]\<rparr>)"
| "prompt_item call_json admit known family (RiFunctionCallOutput call_id output) p =
     outcome_bind (flush_pending admit family p) (\<lambda>p.
       outcome_bind (if call_id \<in> set (ps_call_ids p) then Ok True else known call_id) (\<lambda>found.
         if \<not> found then Err (BadRequest (''function_call_output references unknown call_id '' @ quoted call_id))
         else map_ok (\<lambda>prompt. p\<lparr>ps_prompt := prompt, ps_ledger := ps_ledger p @ [InputCallOutput call_id output]\<rparr>)
           (append_user admit family (ps_prompt p) (tool_result_text call_id output))))"

fun prompt_items :: "(string \<Rightarrow> string \<Rightarrow> string) \<Rightarrow> (string \<Rightarrow> string option) \<Rightarrow> (string \<Rightarrow> (server_error, bool) outcome) \<Rightarrow> string
    \<Rightarrow> ResponsesInputItem list \<Rightarrow> PromptState \<Rightarrow> (server_error, PromptState) outcome" where
  "prompt_items call_json admit known family [] p = Ok p"
| "prompt_items call_json admit known family (i # is) p =
     outcome_bind (prompt_item call_json admit known family i p) (prompt_items call_json admit known family is)"

text \<open>The prompt before the instructions for tools, and the input that is recorded.\<close>

definition response_prompt :: "(string \<Rightarrow> string \<Rightarrow> string) \<Rightarrow> (string \<Rightarrow> string option) \<Rightarrow> (string \<Rightarrow> (server_error, bool) outcome) \<Rightarrow> string
    \<Rightarrow> string \<Rightarrow> ResponsesInput \<Rightarrow> (server_error, string \<times> ResponseInputItem list) outcome" where
  "response_prompt call_json admit known family prompt input = (case input of
     RqText t \<Rightarrow> map_ok (\<lambda>p. (p, [InputMessage ''user'' t])) (append_user admit family prompt t)
   | RqItems items \<Rightarrow>
       outcome_bind (prompt_items call_json admit known family items \<lparr>ps_prompt = prompt, ps_pending = [], ps_call_ids = [], ps_ledger = []\<rparr>)
         (\<lambda>p. map_ok (\<lambda>p. (ps_prompt p, ps_ledger p)) (flush_pending admit family p)))"

text \<open>What the predecessor contributes: its lineage and the revision of the new response.\<close>

definition predecessor_prompt ::
  "(string \<Rightarrow> string \<Rightarrow> string) \<Rightarrow> 'j ResponseService \<Rightarrow> string \<Rightarrow> string \<Rightarrow> string \<Rightarrow> string option \<Rightarrow> (server_error, string \<times> nat) outcome" where
  "predecessor_prompt call_json service owner model family previous = (case previous of
     None \<Rightarrow> Ok ([], 0)
   | Some i \<Rightarrow> outcome_bind (lineage_retrieve service owner i) (\<lambda>r.
       if rr_model r \<noteq> model then Err (BadRequest ''previous_response_id uses an incompatible model'')
       else if \<not> rr_store r then Err (BadRequest ''previous_response_id requires a stored response'')
       else map_ok (\<lambda>p. (p, saturating_add (rr_revision r) 1)) (response_lineage_prompt call_json service r owner family)))"

definition has_tool_output :: "ResponseInputItem list \<Rightarrow> bool" where
  "has_tool_output ledger \<longleftrightarrow> list_ex (\<lambda>i. case i of InputCallOutput _ _ \<Rightarrow> True | _ \<Rightarrow> False) ledger"

definition request_prompt ::
  "(string \<Rightarrow> string \<Rightarrow> string) \<Rightarrow> (string \<Rightarrow> string option) \<Rightarrow> (ToolDefinition list \<Rightarrow> string) \<Rightarrow> 'j ResponseService \<Rightarrow> string \<Rightarrow> string \<Rightarrow> string
    \<Rightarrow> string option \<Rightarrow> ResponsesInput \<Rightarrow> ToolDefinition list \<Rightarrow> ToolChoice option \<Rightarrow> (server_error, string \<times> nat \<times> ResponseInputItem list) outcome" where
  "request_prompt call_json admit tools_json service owner model family previous input tools choice =
     outcome_bind (predecessor_prompt call_json service owner model family previous) (\<lambda>(prompt, revision).
       outcome_bind (response_prompt call_json admit (lineage_has_call service previous owner) family prompt input) (\<lambda>(prompt, ledger).
         map_ok (\<lambda>prompt. (prompt, revision, ledger))
           (append_tool_instructions tools_json family prompt tools choice (has_tool_output ledger))))"

section \<open>The function call in a text\<close>

definition call_required :: "ToolChoice option \<Rightarrow> bool" where
  "call_required choice \<longleftrightarrow> (case choice of Some (ChoiceMode ToolRequired) \<Rightarrow> True | Some (ChoiceFunction _ _) \<Rightarrow> True | _ \<Rightarrow> False)"

definition parse_function_call ::
  "(string \<Rightarrow> (string \<times> string) option) \<Rightarrow> string \<Rightarrow> string \<Rightarrow> string list \<Rightarrow> ToolChoice option \<Rightarrow> string \<Rightarrow> (server_error, ResponseFunctionCall option) outcome" where
  "parse_function_call parse uuid uuid2 names choice t =
     (if names = [] \<or> choice = Some (ChoiceMode ToolNone) then Ok None
      else (case parse t of
        Some (name, arguments) \<Rightarrow>
          if name \<notin> set names then
            (if call_required choice then Err (BadRequest (''model selected undeclared function '' @ quoted name)) else Ok None)
          else (case choice of
              Some (ChoiceFunction ty required) \<Rightarrow>
                if name \<noteq> required
                then Err (BadRequest (''model selected '' @ quoted name @ '' instead of required function '' @ quoted required))
                else Ok (Some (new_function_call uuid uuid2 name arguments))
            | _ \<Rightarrow> Ok (Some (new_function_call uuid uuid2 name arguments)))
      | None \<Rightarrow> if call_required choice then Err (BadRequest ''model did not produce the required function call'') else Ok None))"

text \<open>
  One event of a streamed response: before the last one the generated text is searched for a call, and a
  completed resource is remembered. A failure becomes a row of its own.
\<close>

record 'j StreamState =
  st_projection :: "'j ResponseProjection"
  st_service :: "'j ResponseService"

definition set_function_call :: "ResponseFunctionCall option \<Rightarrow> 'j ResponseProjection \<Rightarrow> 'j ResponseProjection" where
  "set_function_call call p = p\<lparr>pj_function_call := call\<rparr>"

definition stream_parse ::
  "(string \<Rightarrow> (string \<times> string) option) \<Rightarrow> string \<Rightarrow> string \<Rightarrow> string list \<Rightarrow> ToolChoice option \<Rightarrow> StreamEvent \<Rightarrow> 'j ResponseProjection
    \<Rightarrow> (server_error, 'j ResponseProjection) outcome" where
  "stream_parse parse uuid uuid2 names choice event p = (case event of
     StreamFinished reason usage \<Rightarrow> map_ok (\<lambda>call. set_function_call call p) (parse_function_call parse uuid uuid2 names choice (generated_text p))
   | _ \<Rightarrow> Ok p)"

definition stream_event ::
  "(string \<Rightarrow> (string \<times> string) option) \<Rightarrow> string \<Rightarrow> string \<Rightarrow> string list \<Rightarrow> ToolChoice option \<Rightarrow> FileAnswers \<Rightarrow> nat \<Rightarrow> StreamEvent
    \<Rightarrow> 'j StreamState \<Rightarrow> 'j StreamState \<times> (server_error, (nat \<times> 'j ResponseEvent) list) outcome" where
  "stream_event parse uuid uuid2 names choice files now event s =
     and_then (s, stream_parse parse uuid uuid2 names choice event (st_projection s)) (\<lambda>p s.
       case project event p of (p, rows) \<Rightarrow> (let s = s\<lparr>st_projection := p\<rparr> in
         case completed_resource p of None \<Rightarrow> (s, Ok rows)
         | Some r \<Rightarrow> (case service_remember files now r (st_service s) of (service, result) \<Rightarrow>
             (s\<lparr>st_service := service\<rparr>, case result of Ok _ \<Rightarrow> Ok rows | Err e \<Rightarrow> Err (response_store_error e) | Abort \<Rightarrow> Abort))))"

text \<open>A response that is not streamed.\<close>

definition completed_response ::
  "(string \<Rightarrow> (string \<times> string) option) \<Rightarrow> string \<Rightarrow> string \<Rightarrow> string list \<Rightarrow> ToolChoice option \<Rightarrow> FileAnswers \<Rightarrow> nat \<Rightarrow> nat \<Rightarrow> 'j CompleteResponse
    \<Rightarrow> 'j ResponseService \<Rightarrow> 'j ResponseService \<times> (server_error, 'j ResponseResource) outcome" where
  "completed_response parse uuid uuid2 names choice files created now p service =
     and_then (service, parse_function_call parse uuid uuid2 names choice (cp_text p)) (\<lambda>call service.
       let r = response_complete created (p\<lparr>cp_function_call := call\<rparr>) in
       case service_remember files now r service of (service, result) \<Rightarrow>
         (service, case result of Ok _ \<Rightarrow> Ok r | Err e \<Rightarrow> Err (response_store_error e) | Abort \<Rightarrow> Abort))"

section \<open>Context updates\<close>

record ContextUpdateRequest =
  ur_base_response_id :: string
  ur_expected_revision :: nat
  ur_operation_id :: "string option"
  ur_fold_items :: "ResponseInputItem list"

record 'j ContextUpdateResult =
  ux_operation_id :: string
  ux_correlation_id :: string
  ux_base_response_id :: string
  ux_base_revision :: nat
  ux_revision :: nat
  ux_response :: "'j ResponseResource"

text \<open>Fresh identifiers and times, and what the two looks at the control say.\<close>

record UpdateAnswers =
  ua_operation_uuid :: string
  ua_response_uuid :: string
  ua_message_uuids :: "nat \<Rightarrow> string"
  ua_created_at :: nat
  ua_now :: nat
  ua_first_check :: "(server_error, unit) outcome"
  ua_second_check :: "(server_error, unit) outcome"
  ua_files :: FileAnswers

definition is_message :: "ResponseInputItem \<Rightarrow> bool" where
  "is_message i = (case i of InputMessage _ _ \<Rightarrow> True | _ \<Rightarrow> False)"

definition fold_output :: "(nat \<Rightarrow> string) \<Rightarrow> ResponseInputItem list \<Rightarrow> 'j ResponseOutputItem list" where
  "fold_output uuids items = map (\<lambda>(index, item). case item of InputMessage role t \<Rightarrow>
       OutputMessage \<lparr>rm_id = ''msg_'' @ uuids index @ ''_'' @ show_nat index, rm_role = ''assistant'', rm_status = ''completed'',
         rm_content = [text_part t]\<rparr>) (enumerate 0 items)"

definition fold_resource ::
  "UpdateAnswers \<Rightarrow> string \<Rightarrow> string \<Rightarrow> string \<Rightarrow> ContextUpdateRequest \<Rightarrow> 'j ResponseResource \<Rightarrow> 'j ResponseResource" where
  "fold_resource u owner correlation operation q base = \<lparr>rr_schema_version = RESPONSE_SCHEMA_VERSION, rr_id = ''resp_'' @ ua_response_uuid u,
     rr_owner = owner, rr_model = rr_model base, rr_created_at = ua_created_at u, rr_status = ''completed'', rr_store = True,
     rr_previous = Some (ur_base_response_id q), rr_input = ur_fold_items q, rr_output = fold_output (ua_message_uuids u) (ur_fold_items q),
     rr_tools = rr_tools base, rr_tool_choice = rr_tool_choice base, rr_finish_reason = Some ReasonStop, rr_usage = None,
     rr_metadata = \<lparr>md_correlation_id = correlation, md_inference_id = operation, md_execution_session_id = []\<rparr>,
     rr_revision = saturating_add (ur_expected_revision q) 1,
     rr_context_update = Some \<lparr>cu_operation_id = operation, cu_operation = ''fold'', cu_base_response_id = ur_base_response_id q,
       cu_base_revision = ur_expected_revision q, cu_correlation_id = correlation\<rparr>\<rparr>"

definition context_update_apply ::
  "UpdateAnswers \<Rightarrow> string \<Rightarrow> string \<Rightarrow> ContextUpdateRequest \<Rightarrow> 'j ResponseService \<Rightarrow> 'j ResponseService \<times> (server_error, 'j ContextUpdateResult) outcome" where
  "context_update_apply u owner correlation q service =
     (if ur_base_response_id q = [] then (service, Err (BadRequest ''base_response_id must not be empty''))
      else if ur_fold_items q = [] then (service, Err (BadRequest ''fold items must not be empty''))
      else if list_ex (\<lambda>i. \<not> is_message i) (ur_fold_items q)
      then (service, Err (BadRequest ''fold items must be portable message items''))
      else and_then (service, lineage_retrieve service owner (ur_base_response_id q)) (\<lambda>base service.
        if \<not> rr_store base then (service, Err (BadRequest ''context updates require a stored base response''))
        else and_then (service, ua_first_check u) (\<lambda>_ service.
          let operation = (case ur_operation_id q of Some given \<Rightarrow> given | None \<Rightarrow> ''ctxupd_'' @ ua_operation_uuid u) in
          if operation = [] then (service, Err (BadRequest ''operation_id must not be empty''))
          else (let response = fold_resource u owner correlation operation q base in
            and_then (service, ua_second_check u) (\<lambda>_ service.
              case commit_successor (ua_files u) (ua_now u) (ur_base_response_id q) (ur_expected_revision q) response service of
                (service, r) \<Rightarrow> (service, case r of
                  Ok _ \<Rightarrow> Ok \<lparr>ux_operation_id = operation, ux_correlation_id = correlation,
                    ux_base_response_id = ur_base_response_id q, ux_base_revision = ur_expected_revision q,
                    ux_revision = saturating_add (ur_expected_revision q) 1, ux_response = response\<rparr>
                | Err e \<Rightarrow> Err (response_store_error e)
                | Abort \<Rightarrow> Abort))))))"

end
