(* ===== verification/Lineage_Props.thy ===== *)
theory Lineage_Props
  imports Lineage
begin

text \<open>
  Prompts and lineages: what the chat template accepts, that continuing a prompt is rendering the longer
  conversation, that the replay of a lineage is what the requests were, and where it is not.
\<close>

section \<open>The chat template\<close>

fun alternates :: "nat \<Rightarrow> Message list \<Rightarrow> bool" where
  "alternates i [] = True"
| "alternates i (m # ms) = (msg_role m = (if even i then ''user'' else ''assistant'') \<and> alternates (i + 1) ms)"

definition user_turn :: "string \<Rightarrow> Message" where
  "user_turn t = \<lparr>msg_role = ''user'', msg_content = t\<rparr>"

definition assistant_turn :: "string \<Rightarrow> Message" where
  "assistant_turn t = \<lparr>msg_role = ''assistant'', msg_content = t\<rparr>"

lemma turn_roles [simp]: "msg_role (user_turn t) = ''user''" "msg_role (assistant_turn t) = ''assistant''"
  "msg_content (user_turn t) = t" "msg_content (assistant_turn t) = t"
  by (simp_all add: user_turn_def assistant_turn_def)

definition turns_text :: "Message list \<Rightarrow> string" where
  "turns_text ms = concat (map gemma_turn ms)"

lemma turns_text_simps [simp]: "turns_text [] = []" "turns_text (m # ms) = gemma_turn m @ turns_text ms"
  "turns_text (xs @ ys) = turns_text xs @ turns_text ys"
  by (simp_all add: turns_text_def)

lemma gemma_turns_Ok: "gemma_turns i ms p = Ok q \<longleftrightarrow> alternates i ms \<and> q = p @ turns_text ms"
  by (induction i ms p rule: gemma_turns.induct) (auto simp: Let_def)

lemma gemma_turns_alternates: "alternates i ms \<Longrightarrow> gemma_turns i ms p = Ok (p @ turns_text ms)"
  by (simp add: gemma_turns_Ok)

lemma alternates_append: "alternates i (xs @ ys) \<longleftrightarrow> alternates i xs \<and> alternates (i + length xs) ys"
  by (induction xs arbitrary: i) auto

lemma alternates_no_system: "alternates i ms \<Longrightarrow> \<not> list_ex (\<lambda>m. msg_role m = ''system'') ms"
  by (induction ms arbitrary: i) (auto split: if_splits)

lemma alternates_with_system: "alternates i (with_system s ms) = alternates i ms"
  by (cases s; cases ms) (auto simp: with_system_def)

text \<open>What the template accepts, and the text it becomes.\<close>

definition dialogue :: "Message list \<Rightarrow> bool" where
  "dialogue ms \<longleftrightarrow> snd (split_system ms) \<noteq> [] \<and> alternates 0 (snd (split_system ms))"

definition dialogue_text :: "Message list \<Rightarrow> string" where
  "dialogue_text ms = turns_text (with_system (fst (split_system ms)) (snd (split_system ms)))"

lemma with_system_Nil [simp]: "with_system s ms = [] \<longleftrightarrow> ms = []"
  by (cases s; cases ms) (auto simp: with_system_def)

lemma gemma4_Ok: "gemma4 ms = Ok p \<longleftrightarrow> dialogue ms \<and> p = dialogue_text ms @ GENERATION_PROMPT"
proof -
  obtain s rest where sp: "split_system ms = (s, rest)" by (cases "split_system ms")
  have "ms = [] \<Longrightarrow> rest = []" using sp by (auto simp: split_system_def)
  moreover have "alternates 0 rest \<Longrightarrow> rest \<noteq> [] \<Longrightarrow> msg_role (hd rest) = ''user''" by (cases rest) auto
  moreover have "map_ok (\<lambda>p. p @ GENERATION_PROMPT) (gemma_turns 0 (with_system s rest) []) = Ok p
      \<longleftrightarrow> alternates 0 rest \<and> p = turns_text (with_system s rest) @ GENERATION_PROMPT"
    by (cases "gemma_turns 0 (with_system s rest) []")
      (auto simp: map_ok_def gemma_turns_Ok gemma_turns_alternates alternates_with_system)
  ultimately show ?thesis
    using alternates_no_system[of 0 rest] by (auto simp: gemma4_def dialogue_def dialogue_text_def sp)
qed

lemma gemma4_dialogue: "dialogue ms \<Longrightarrow> gemma4 ms = Ok (dialogue_text ms @ GENERATION_PROMPT)"
  by (simp add: gemma4_Ok)

lemma dialogue_not_Nil: "dialogue ms \<Longrightarrow> ms \<noteq> []"
  by (auto simp: dialogue_def split_system_def)

lemma split_system_append:
  "ms \<noteq> [] \<Longrightarrow> split_system (ms @ xs) = (fst (split_system ms), snd (split_system ms) @ xs)"
  by (cases ms) (auto simp: split_system_def)

lemma with_system_append: "ms \<noteq> [] \<Longrightarrow> with_system s (ms @ xs) = with_system s ms @ xs"
  by (cases s; cases ms) (auto simp: with_system_def)

lemma dialogue_append:
  "dialogue ms \<Longrightarrow> dialogue (ms @ xs) \<longleftrightarrow> alternates (length (snd (split_system ms))) xs"
  by (simp add: dialogue_def split_system_append[OF dialogue_not_Nil[unfolded dialogue_def]] alternates_append)

lemma dialogue_text_append: "dialogue ms \<Longrightarrow> dialogue_text (ms @ xs) = dialogue_text ms @ turns_text xs"
  by (simp add: dialogue_text_def split_system_append[OF dialogue_not_Nil] with_system_append dialogue_def)

lemma ends_with_append [simp]: "ends_with (p @ s) s"
  by (simp add: ends_with_def)

lemma append_rendered_gemma:
  "append_rendered ''gemma4'' (p @ GENERATION_PROMPT) c = Ok (p @ c)"
  by (simp add: append_rendered_def GENERATION_PROMPT_def)

lemma append_assistant_gemma:
  "append_assistant_content ''gemma4'' (p @ GENERATION_PROMPT) c = Ok (p @ gemma_turn (assistant_turn c) @ GENERATION_PROMPT)"
  by (simp add: append_assistant_content_def gemma_turn_def GENERATION_PROMPT_def newline_def)

text \<open>The conversation that goes on: the answers, and what the user says next.\<close>

definition exchange :: "(string \<times> string) list \<Rightarrow> Message list" where
  "exchange xs = concat (map (\<lambda>(a, u). [assistant_turn a, user_turn u]) xs)"

fun continue_chat :: "string \<Rightarrow> (string \<times> string) list \<Rightarrow> (server_error, string) outcome" where
  "continue_chat p [] = Ok p"
| "continue_chat p ((a, u) # xs) =
     outcome_bind (append_assistant_content ''gemma4'' p a) (\<lambda>p. outcome_bind (apply_chat_template ''gemma4'' [user_turn u])
       (\<lambda>r. outcome_bind (append_rendered ''gemma4'' p r) (\<lambda>p. continue_chat p xs)))"

lemma outcome_bind_Ok [simp]: "outcome_bind (Ok x) f = f x" "outcome_bind (Err e) f = Err e" "outcome_bind Abort f = Abort"
  by (simp_all add: outcome_bind_def)

lemma map_ok_simps [simp]: "map_ok f (Ok x) = Ok (f x)" "map_ok f (Err e) = Err e" "map_ok f Abort = Abort"
  by (simp_all add: map_ok_def)

lemma template_user: "apply_chat_template ''gemma4'' [user_turn u] = Ok (gemma_turn (user_turn u) @ GENERATION_PROMPT)"
  by (simp add: apply_chat_template_def gemma4_dialogue dialogue_def dialogue_text_def split_system_def with_system_def)

lemma alternates_exchange: "odd n \<Longrightarrow> alternates n (exchange xs)"
  by (induction xs arbitrary: n) (auto simp: exchange_def)

lemma last_user_odd:
  assumes "dialogue ms" "msg_role (last ms) = ''user''"
  shows "odd (length (snd (split_system ms)))"
proof -
  let ?r = "snd (split_system ms)"
  have r: "?r \<noteq> []" "alternates 0 ?r" using assms(1) by (simp_all add: dialogue_def)
  have "last ?r = last ms" using r by (cases ms) (auto simp: split_system_def split: if_splits)
  with assms(2) have u: "msg_role (last ?r) = ''user''" by simp
  have "alternates 0 (butlast ?r @ [last ?r])" using r by simp
  then have "msg_role (last ?r) = (if even (length (butlast ?r)) then ''user'' else ''assistant'')"
    unfolding alternates_append by simp
  with u have "even (length (butlast ?r))" by (auto split: if_splits)
  with r(1) show ?thesis by (cases ?r rule: rev_cases) auto
qed

lemma continue_chat_text:
  "continue_chat (p @ GENERATION_PROMPT) xs = Ok (p @ turns_text (exchange xs) @ GENERATION_PROMPT)"
proof (induction xs arbitrary: p)
  case (Cons x xs)
  obtain a u where x: "x = (a, u)" by (cases x)
  have "append_rendered ''gemma4'' (p @ gemma_turn (assistant_turn a) @ GENERATION_PROMPT) c = Ok ((p @ gemma_turn (assistant_turn a)) @ c)" for c
    using append_rendered_gemma[of "p @ gemma_turn (assistant_turn a)" c] by simp
  moreover have "continue_chat (((p @ gemma_turn (assistant_turn a)) @ gemma_turn (user_turn u)) @ GENERATION_PROMPT) xs
      = Ok (((p @ gemma_turn (assistant_turn a)) @ gemma_turn (user_turn u)) @ turns_text (exchange xs) @ GENERATION_PROMPT)"
    by (rule Cons.IH)
  ultimately show ?case by (simp add: x append_assistant_gemma template_user exchange_def)
qed (simp add: exchange_def)

section \<open>Instructions for tools\<close>

lemma rfind_end: "rfind (p @ pat) pat = Some (length p)"
proof -
  let ?P = "\<lambda>i. take (length pat) (drop i (p @ pat)) = pat"
  have l: "[0..<length (p @ pat) + 1 - length pat] = [0..<length p] @ [length p]" by simp
  have "filter ?P ([0..<length p] @ [length p]) = filter ?P [0..<length p] @ [length p]" by simp
  then have f: "filter ?P [0..<length (p @ pat) + 1 - length pat] = filter ?P [0..<length p] @ [length p]"
    by (simp only: l)
  show ?thesis unfolding rfind_def f by (cases "filter ?P [0..<length p]") simp_all
qed

lemma insert_instructions_gemma:
  "insert_generation_instructions ''gemma4'' (p @ GENERATION_SUFFIX) t = Ok (p @ t @ GENERATION_SUFFIX)"
  by (simp add: insert_generation_instructions_def rfind_end)

text \<open>Instructions for tools are added to the last turn of the conversation.\<close>

lemma instructions_in_last_turn:
  assumes "dialogue (ms @ [m])" and "ms \<noteq> []" and "ms \<noteq> [hd ms] \<or> msg_role (hd ms) \<noteq> ''system''"
  shows "insert_generation_instructions ''gemma4'' (dialogue_text (ms @ [m]) @ GENERATION_PROMPT) t
    = gemma4 (ms @ [m\<lparr>msg_content := msg_content m @ t\<rparr>])"
proof -
  let ?m = "m\<lparr>msg_content := msg_content m @ t\<rparr>"
  obtain s rest where sp: "split_system ms = (s, rest)" by (cases "split_system ms")
  have rest: "rest \<noteq> []" using sp assms(2,3) by (cases ms) (auto simp: split_system_def split: if_splits)
  have sa: "split_system (ms @ [x]) = (s, rest @ [x])" for x using split_system_append[OF assms(2), of "[x]"] sp by simp
  have tt: "dialogue_text (ms @ [x]) = turns_text (with_system s rest) @ gemma_turn x" for x
    by (simp add: dialogue_text_def sa with_system_append[OF rest])
  have d: "dialogue (ms @ [?m])" using assms(1) by (simp add: dialogue_def sa alternates_append)
  let ?p = "turns_text (with_system s rest) @ ''<start_of_turn>'' @ (if msg_role m = ''assistant'' then ''model'' else ''user'') @ newline @ msg_content m"
  have "dialogue_text (ms @ [m]) @ GENERATION_PROMPT = ?p @ GENERATION_SUFFIX"
    by (simp add: tt gemma_turn_def GENERATION_SUFFIX_def)
  moreover have "dialogue_text (ms @ [?m]) @ GENERATION_PROMPT = ?p @ t @ GENERATION_SUFFIX"
    by (simp add: tt gemma_turn_def GENERATION_SUFFIX_def)
  ultimately show ?thesis by (simp only: insert_instructions_gemma gemma4_dialogue[OF d])
qed

section \<open>Replaying a conversation\<close>

text \<open>A lineage of plain turns, newest first: what the user said and what was answered.\<close>

definition plain_turn :: "'j ResponseResource \<Rightarrow> string \<Rightarrow> string \<Rightarrow> bool" where
  "plain_turn r t answer \<longleftrightarrow> rr_input r = [InputMessage ''user'' t] \<and>
     (\<exists>m. rr_output r = [OutputMessage m] \<and> concat (map rt_text (rm_content m)) = answer)"

fun plain_lineage :: "'j ResponseService \<Rightarrow> string \<Rightarrow> 'j ResponseResource \<Rightarrow> (string \<times> string) list \<Rightarrow> bool" where
  "plain_lineage service owner r [] = False"
| "plain_lineage service owner r [(t, answer)] = (plain_turn r t answer \<and> rr_previous r = None)"
| "plain_lineage service owner r ((t, answer) # older) = (plain_turn r t answer \<and>
     (\<exists>i r'. rr_previous r = Some i \<and> lineage_retrieve service owner i = Ok r' \<and> plain_lineage service owner r' older))"

definition spoken :: "(string \<times> string) list \<Rightarrow> Message list" where
  "spoken turns = concat (map (\<lambda>(t, answer). [user_turn t, assistant_turn answer]) (rev turns))"

lemma spoken_simps [simp]: "spoken [] = []" "spoken ((t, answer) # older) = spoken older @ [user_turn t, assistant_turn answer]"
  by (simp_all add: spoken_def)

lemma collect_plain:
  assumes "plain_lineage service owner r turns" "length turns \<le> n"
  shows "\<exists>rs. collect_lineage n service owner r acc = Ok (acc @ rs) \<and> rs \<noteq> [] \<and> rr_previous (last rs) = None
    \<and> concat (map (resource_messages call_json) (rev rs)) = spoken turns"
  using assms
proof (induction service owner r turns arbitrary: n acc rule: plain_lineage.induct)
  case (2 service owner r t answer)
  then obtain k where "n = Suc k" by (cases n) auto
  with 2 have "collect_lineage n service owner r acc = Ok (acc @ [r])" by simp
  moreover have "resource_messages call_json r = [user_turn t, assistant_turn answer]"
    using 2 by (auto simp: plain_turn_def resource_messages_def user_turn_def assistant_turn_def)
  ultimately show ?case using 2 by (intro exI[of _ "[r]"]) simp
next
  case (3 service owner r t answer o1 older)
  from 3(3) obtain k where k: "n = Suc k" "length (o1 # older) \<le> k" by (cases n) auto
  from 3(2) obtain i r' where r: "rr_previous r = Some i" "lineage_retrieve service owner i = Ok r'"
    and l: "plain_lineage service owner r' (o1 # older)" and p: "plain_turn r t answer" by auto
  from 3(1)[OF l k(2), of "acc @ [r]"] obtain rs where rs: "collect_lineage k service owner r' (acc @ [r]) = Ok ((acc @ [r]) @ rs)"
    "rs \<noteq> []" "rr_previous (last rs) = None" "concat (map (resource_messages call_json) (rev rs)) = spoken (o1 # older)" by auto
  have "resource_messages call_json r = [user_turn t, assistant_turn answer]"
    using p by (auto simp: plain_turn_def resource_messages_def user_turn_def assistant_turn_def)
  with rs k r show ?case by (intro exI[of _ "r # rs"]) (simp del: spoken_simps(2), simp)
qed simp

lemma normalize_alternates:
  "alternates i ms \<Longrightarrow> normalized \<noteq> [] \<longrightarrow> msg_role (last normalized) = (if even i then ''assistant'' else ''user'') \<Longrightarrow>
   normalize_loop normalized ms = normalized @ ms"
  by (induction ms arbitrary: i normalized) (auto split: if_splits)

lemma alternates_spoken: "alternates 0 (spoken turns) \<and> even (length (spoken turns))"
proof (induction turns)
  case (Cons x turns)
  then show ?case by (cases x) (simp add: alternates_append)
qed simp

lemma split_alternates: "alternates 0 ms \<Longrightarrow> split_system ms = (None, ms)"
  by (cases ms) (auto simp: split_system_def)

lemma dialogue_spoken:
  assumes "alternates 0 ms" "ms \<noteq> []"
  shows "dialogue ms" "dialogue_text ms = turns_text ms"
  using assms split_alternates[OF assms(1)] by (simp_all add: dialogue_def dialogue_text_def with_system_def split: list.split)

text \<open>The prompt the lineage becomes.\<close>

lemma lineage_prompt_plain:
  assumes "plain_lineage service owner r turns" "length turns \<le> LINEAGE_LIMIT"
  shows "response_lineage_prompt call_json service r owner ''gemma4'' = Ok (turns_text (spoken turns) @ GENERATION_PROMPT)"
proof -
  from collect_plain[OF assms, of "[]" call_json] obtain rs where rs: "collect_lineage LINEAGE_LIMIT service owner r [] = Ok rs"
    "rs \<noteq> []" "rr_previous (last rs) = None" "concat (map (resource_messages call_json) (rev rs)) = spoken turns" by auto
  have ne: "turns \<noteq> []" using assms(1) by auto
  have "normalize_response_messages (spoken turns) = spoken turns"
    unfolding normalize_response_messages_def using normalize_alternates[of 0 "spoken turns" "[]"] alternates_spoken by simp
  moreover have "spoken turns \<noteq> []" using ne by (cases turns) (auto simp: spoken_def)
  ultimately show ?thesis
    using rs alternates_spoken[of turns] dialogue_spoken[of "spoken turns"]
    by (simp add: response_lineage_prompt_def apply_chat_template_def gemma4_dialogue)
qed

lemma append_user_gemma:
  "append_user admit ''gemma4'' (p @ GENERATION_PROMPT) t = Ok (p @ gemma_turn (user_turn t) @ GENERATION_PROMPT)"
proof -
  have "lower_messages ''gemma4'' admit [\<lparr>cm_role = ''user'', cm_content = ChatText t\<rparr>] = apply_chat_template ''gemma4'' [user_turn t]"
    by (simp add: lower_messages_def user_turn_def)
  then show ?thesis by (simp add: append_user_def template_user append_rendered_gemma)
qed

lemma request_prompt_plain:
  assumes "lineage_retrieve service owner i = Ok r" "plain_lineage service owner r turns" "length turns \<le> LINEAGE_LIMIT"
    and "rr_model r = model" "rr_store r"
  shows "request_prompt call_json admit tools_json service owner model ''gemma4'' (Some i) (RqText t) [] choice
    = Ok (turns_text (spoken turns @ [user_turn t]) @ GENERATION_PROMPT, saturating_add (rr_revision r) 1, [InputMessage ''user'' t])"
  using assms lineage_prompt_plain[OF assms(2,3), of call_json]
  by (simp add: request_prompt_def predecessor_prompt_def response_prompt_def append_user_gemma append_tool_instructions_def)

section \<open>Examples\<close>

definition turn_resource :: "string \<Rightarrow> string option \<Rightarrow> nat \<Rightarrow> ResponseInputItem list \<Rightarrow> string \<Rightarrow> unit ResponseResource" where
  "turn_resource i previous revision input answer = \<lparr>rr_schema_version = 1, rr_id = i, rr_owner = ''u'', rr_model = ''m'', rr_created_at = 0,
     rr_status = ''completed'', rr_store = True, rr_previous = previous, rr_input = input,
     rr_output = [OutputMessage (assistant_message ''completed'' answer)], rr_tools = [], rr_tool_choice = (), rr_finish_reason = None,
     rr_usage = None, rr_metadata = empty_metadata, rr_revision = revision, rr_context_update = None\<rparr>"

lemma turn_resource_simps [simp]:
  "rr_model (turn_resource i previous n input answer) = ''m''" "rr_store (turn_resource i previous n input answer)"
  "rr_revision (turn_resource i previous n input answer) = n"
  by (simp_all add: turn_resource_def)

definition service_of :: "unit ResponseResource list \<Rightarrow> unit ResponseService" where
  "service_of rs = \<lparr>rv_store = \<lparr>fs_files = map (\<lambda>r. (rr_id r, ResourceFile r)) rs, fs_memory = map (\<lambda>r. (rr_id r, r)) rs\<rparr>,
     rv_transient = [], rv_order = []\<rparr>"

definition talk_service :: "unit ResponseService" where
  "talk_service = service_of [turn_resource ''r1'' None 0 [InputMessage ''user'' ''hi''] ''hello'',
     turn_resource ''r2'' (Some ''r1'') 1 [InputMessage ''user'' ''more''] ''ok'']"

definition request_of :: "unit ResponseService \<Rightarrow> string \<Rightarrow> ResponsesInput \<Rightarrow> (server_error, string \<times> nat \<times> ResponseInputItem list) outcome" where
  "request_of service i input = request_prompt (\<lambda>n a. n @ a) (\<lambda>url. None) (\<lambda>ts. []) service ''u'' ''m'' ''gemma4'' (Some i) input [] None"

section \<open>A turn that begins with a system message\<close>

definition brief :: "string \<Rightarrow> Message" where
  "brief b = \<lparr>msg_role = ''system'', msg_content = b\<rparr>"

lemma strict_dialogue: "dialogue [brief b, user_turn t]"
  by (simp add: dialogue_def split_system_def brief_def)

lemma strict_pending:
  "map_ok (\<lambda>p. (ps_prompt p, ps_ledger p)) (flush_pending admit ''gemma4'' \<lparr>ps_prompt = p @ GENERATION_PROMPT,
       ps_pending = [\<lparr>cm_role = ''system'', cm_content = ChatText b\<rparr>, \<lparr>cm_role = ''user'', cm_content = ChatText t\<rparr>],
       ps_call_ids = [], ps_ledger = ledger\<rparr>)
   = Ok (p @ dialogue_text [brief b, user_turn t] @ GENERATION_PROMPT, ledger)"
proof -
  have "lower_messages ''gemma4'' admit [\<lparr>cm_role = ''system'', cm_content = ChatText b\<rparr>, \<lparr>cm_role = ''user'', cm_content = ChatText t\<rparr>]
      = apply_chat_template ''gemma4'' [brief b, user_turn t]"
    by (simp add: lower_messages_def brief_def user_turn_def)
  then show ?thesis
    by (simp add: flush_pending_def flush_response_messages_def apply_chat_template_def gemma4_dialogue strict_dialogue append_rendered_gemma)
qed

lemma normalize_append: "normalize_loop acc (xs @ ys) = normalize_loop (normalize_loop acc xs) ys"
  by (induction acc xs rule: normalize_loop.induct) simp_all

lemma normalize_strict:
  assumes "msg_role a = ''assistant''"
  shows "normalize_response_messages (spoken turns @ [brief b, user_turn t, a]) = spoken turns @ [brief b, user_turn t, a]"
proof -
  have "normalize_loop [] (spoken turns) = spoken turns"
    using normalize_alternates[of 0 "spoken turns" "[]"] alternates_spoken by simp
  moreover have "\<not> (spoken turns \<noteq> [] \<and> msg_role (last (spoken turns)) = ''system'')" by (cases turns) auto
  ultimately show ?thesis
    using assms by (cases "spoken turns = []") (simp_all add: normalize_response_messages_def normalize_append brief_def)
qed

lemma gemma4_rejects_second_system:
  assumes "turns \<noteq> []"
  shows "gemma4 (spoken turns @ brief b # ms) = Err (BadRequest ''system messages are accepted only in the first position'')"
proof -
  have "spoken turns \<noteq> []" using assms by (cases turns) auto
  then show ?thesis
    using split_alternates[of "spoken turns"] alternates_spoken[of turns]
    by (simp add: gemma4_def split_system_append brief_def)
qed

text \<open>The replay of a turn that begins with a system message and follows a plain lineage.\<close>

lemma strict_replay:
  assumes "rr_input R = [InputMessage ''system'' b, InputMessage ''user'' t]" "\<exists>item. rr_output R = [item]"
    and "rr_previous R = Some i" "lineage_retrieve service owner i = Ok r" "plain_lineage service owner r turns" "length turns < LINEAGE_LIMIT"
  shows "response_lineage_prompt call_json service R owner ''gemma4''
    = Err (BadRequest ''system messages are accepted only in the first position'')"
proof -
  obtain n where n: "LINEAGE_LIMIT = Suc n" by (simp add: LINEAGE_LIMIT_def)
  with assms(6) have "length turns \<le> n" by simp
  from collect_plain[OF assms(5) this, of "[R]" call_json] obtain rs where
    rs: "collect_lineage n service owner r [R] = Ok ([R] @ rs)" "rs \<noteq> []" "rr_previous (last rs) = None"
    "concat (map (resource_messages call_json) (rev rs)) = spoken turns" by blast
  have c: "collect_lineage LINEAGE_LIMIT service owner R [] = Ok (R # rs)"
    using rs(1) by (simp add: n assms(3,4))
  obtain item where item: "rr_output R = [item]" using assms(2) by blast
  let ?a = "output_message call_json item"
  have a: "msg_role ?a = ''assistant''" by (cases item) (simp_all add: call_message_def)
  have m: "concat (map (resource_messages call_json) (rev (R # rs))) = spoken turns @ [brief b, user_turn t, ?a]"
    by (simp add: rs(4) resource_messages_def assms(1) item brief_def user_turn_def)
  have ne: "turns \<noteq> []" using assms(5) by auto
  show ?thesis
    using rs(2,3) by (simp add: response_lineage_prompt_def c m normalize_strict[OF a] apply_chat_template_def
      gemma4_rejects_second_system[OF ne] del: rev.simps(2))
qed

lemma and_then_OkD: "and_then (s, x) f = (s', Ok v) \<Longrightarrow> \<exists>y. x = Ok y \<and> f y s = (s', Ok v)"
  by (cases x) (simp_all add: and_then_def)

text \<open>What a stored response that has a predecessor leaves in the service.\<close>

lemma put_successor_stored:
  assumes "store_put_successor files now i n R s = (s', Ok v)"
  shows "map_of (fs_memory s') (rr_id R) = Some R"
proof -
  obtain s1 x where p: "prune_expired files now s = (s1, x)" by (cases "prune_expired files now s")
  obtain s2 y where w: "write_resource files R s1 = (s2, y)" by (cases "write_resource files R s1")
  have "s' = remember_file R s2"
    using assms by (auto simp: store_put_successor_def p w dest!: and_then_OkD)
  then show ?thesis by (simp add: remember_file_def)
qed

lemma completed_stored:
  assumes "completed_response parse uuid uuid2 names choice files created now P service = (service', Ok R)"
    and "cp_store P" "cp_previous P = Some i"
  shows "\<exists>call. R = response_complete created (P\<lparr>cp_function_call := call\<rparr>)"
    and "rv_transient service' = rv_transient service" "map_of (fs_memory (rv_store service')) (rr_id R) = Some R"
proof -
  obtain call where call: "parse_function_call parse uuid uuid2 names choice (cp_text P) = Ok call"
    using assms(1) by (cases "parse_function_call parse uuid uuid2 names choice (cp_text P)")
      (simp_all add: completed_response_def and_then_def)
  let ?R = "response_complete created (P\<lparr>cp_function_call := call\<rparr>)"
  obtain s1 res where r: "service_remember files now ?R service = (s1, res)" by (cases "service_remember files now ?R service")
  have "(s1, case res of Ok _ \<Rightarrow> Ok ?R | Err e \<Rightarrow> Err (response_store_error e) | Abort \<Rightarrow> Abort) = (service', Ok R)"
    using assms(1) by (simp add: completed_response_def and_then_def call Let_def r)
  then obtain u where R: "R = ?R" and rem: "service_remember files now R service = (service', Ok u)"
    using r by (cases res) auto
  show "\<exists>call. R = response_complete created (P\<lparr>cp_function_call := call\<rparr>)" using R by blast
  have s: "rr_store R" "rr_previous R = Some i" using assms(2,3) by (simp_all add: R response_complete_def)
  show "rv_transient service' = rv_transient service" using rem s by (auto simp: service_remember_def in_store_def)
  from rem s obtain v where "store_put_successor files now i (rr_revision R - 1) R (rv_store service) = (rv_store service', Ok v)"
    by (auto simp: service_remember_def in_store_def prod_eq_iff)
  then show "map_of (fs_memory (rv_store service')) (rr_id R) = Some R" by (rule put_successor_stored)
qed

section \<open>Properties\<close>

text \<open>C28: Continuing a rendered conversation is rendering the longer conversation: appending the model's answer and the next words of the user to the prompt, any number of times, gives exactly what the template makes of all messages together.\<close>

theorem prompt_continues_conversation:
  assumes "apply_chat_template ''gemma4'' ms = Ok p" "msg_role (last ms) = ''user''"
  shows "continue_chat p xs = apply_chat_template ''gemma4'' (ms @ exchange xs)"
proof -
  from assms(1) have d: "dialogue ms" and p: "p = dialogue_text ms @ GENERATION_PROMPT"
    by (simp_all add: apply_chat_template_def gemma4_Ok)
  have "dialogue (ms @ exchange xs)"
    using d last_user_odd[OF d assms(2)] by (simp add: dialogue_append alternates_exchange)
  then show ?thesis
    by (simp add: apply_chat_template_def gemma4_dialogue p continue_chat_text dialogue_text_append[OF d])
qed

lemma prompt_continues_conversation_witness:
  "continue_chat (gemma_turn (user_turn ''hi'') @ GENERATION_PROMPT) [(''hello'', ''more'')]
     = apply_chat_template ''gemma4'' [user_turn ''hi'', assistant_turn ''hello'', user_turn ''more'']"
  using prompt_continues_conversation[OF template_user, of "''hi''" "[(''hello'', ''more'')]"] by (simp add: exchange_def)

text \<open>C29: The replay of a conversation is the conversation: the prompt of a request that continues a lineage of at most 1024 plain turns is the template over everything that was said, its revision is the next one, and it extends the prompt and the answer of the turn before, so what was evaluated for that turn is a beginning of what has to be evaluated now.\<close>

theorem lineage_replay_extends:
  assumes "lineage_retrieve service owner i = Ok r" "plain_lineage service owner r ((t0, answer) # older)"
    and "length older < LINEAGE_LIMIT" "rr_model r = model" "rr_store r"
  shows "\<exists>p q. request_prompt call_json admit tools_json service owner model ''gemma4'' (Some i) (RqText t) [] choice
      = Ok (p, saturating_add (rr_revision r) 1, [InputMessage ''user'' t])
    \<and> apply_chat_template ''gemma4'' (spoken ((t0, answer) # older) @ [user_turn t]) = Ok p
    \<and> apply_chat_template ''gemma4'' (spoken older @ [user_turn t0]) = Ok q \<and> take (length (q @ answer)) p = q @ answer"
proof -
  let ?turns = "(t0, answer) # older"
  have a: "alternates 0 (spoken older) \<and> even (length (spoken older))" by (rule alternates_spoken)
  have d1: "alternates 0 (spoken ?turns @ [user_turn t])" and d2: "alternates 0 (spoken older @ [user_turn t0])"
    using a by (simp_all add: alternates_append)
  let ?q = "turns_text (spoken older @ [user_turn t0]) @ GENERATION_PROMPT"
  let ?p = "turns_text (spoken ?turns @ [user_turn t]) @ GENERATION_PROMPT"
  have "?p = (?q @ answer) @ ''<end_of_turn>'' @ newline @ gemma_turn (user_turn t) @ GENERATION_PROMPT"
    by (simp add: gemma_turn_def GENERATION_PROMPT_def)
  then have "take (length (?q @ answer)) ?p = ?q @ answer" by (simp only: append_eq_conv_conj[symmetric]) simp
  moreover have "apply_chat_template ''gemma4'' (spoken ?turns @ [user_turn t]) = Ok ?p"
    using dialogue_spoken[OF d1] by (simp add: apply_chat_template_def gemma4_dialogue)
  moreover have "apply_chat_template ''gemma4'' (spoken older @ [user_turn t0]) = Ok ?q"
    using dialogue_spoken[OF d2] by (simp add: apply_chat_template_def gemma4_dialogue)
  moreover have "request_prompt call_json admit tools_json service owner model ''gemma4'' (Some i) (RqText t) [] choice
      = Ok (?p, saturating_add (rr_revision r) 1, [InputMessage ''user'' t])"
    using assms by (intro request_prompt_plain) simp_all
  ultimately show ?thesis by blast
qed

lemma lineage_replay_extends_witness:
  "\<exists>p q. request_of talk_service ''r2'' (RqText ''bye'') = Ok (p, saturating_add 1 1, [InputMessage ''user'' ''bye''])
    \<and> apply_chat_template ''gemma4'' (spoken [(''more'', ''ok''), (''hi'', ''hello'')] @ [user_turn ''bye'']) = Ok p
    \<and> apply_chat_template ''gemma4'' (spoken [(''hi'', ''hello'')] @ [user_turn ''more'']) = Ok q \<and> take (length (q @ ''ok'')) p = q @ ''ok''"
proof -
  let ?r2 = "turn_resource ''r2'' (Some ''r1'') 1 [InputMessage ''user'' ''more''] ''ok''"
  have 2: "lineage_retrieve talk_service ''u'' ''r2'' = Ok ?r2" by code_simp
  have 1: "lineage_retrieve talk_service ''u'' ''r1'' = Ok (turn_resource ''r1'' None 0 [InputMessage ''user'' ''hi''] ''hello'')" by code_simp
  have "plain_lineage talk_service ''u'' ?r2 [(''more'', ''ok''), (''hi'', ''hello'')]"
    using 1 by (simp add: plain_turn_def turn_resource_def assistant_message_def text_part_def)
  from lineage_replay_extends[OF 2 this, of "''m''" "\<lambda>n a. n @ a" "\<lambda>url. None" "\<lambda>ts. []" "''bye''" None]
  show ?thesis by (simp add: request_of_def turn_resource_def LINEAGE_LIMIT_def)
qed

text \<open>C30: A conversation can lock itself out. Let a stored response end a lineage of plain turns. A request that continues it
  and begins with a system message is accepted, for any texts; but when its response has been completed and stored, and
  the lineage is still kept, then no request can continue this response, whatever its input and its tools, because the
  replay meets a system message that is not the first.\<close>

theorem lineage_rejects_its_own_turn:
  assumes "lineage_retrieve service owner i = Ok r" "plain_lineage service owner r turns" "length turns < LINEAGE_LIMIT"
    and "rr_model r = model" "rr_store r"
    and "completed_response parse uuid uuid2 names choice files created now P service = (service', Ok R)"
    and "cp_input P = [InputMessage ''system'' b, InputMessage ''user'' t]" "cp_owner P = owner" "cp_model P = model"
    and "cp_store P" "cp_previous P = Some i"
    and "map_of (rv_transient service) (cp_id P) = None"
    and "lineage_retrieve service' owner i = Ok r" "plain_lineage service' owner r turns"
  shows "(\<exists>p. request_prompt call_json admit tools_json service owner model ''gemma4'' (Some i)
        (RqItems [RiMessage ''system'' (RcText b), RiMessage ''user'' (RcText t)]) [] None
      = Ok (p, saturating_add (rr_revision r) 1, cp_input P))
    \<and> (\<forall>input tools choice'. request_prompt call_json admit tools_json service' owner model ''gemma4'' (Some (rr_id R)) input tools choice'
      = Err (BadRequest ''system messages are accepted only in the first position''))"
proof (intro conjI allI)
  have "response_lineage_prompt call_json service r owner ''gemma4'' = Ok (turns_text (spoken turns) @ GENERATION_PROMPT)"
    using assms(2,3) by (intro lineage_prompt_plain) simp_all
  then show "\<exists>p. request_prompt call_json admit tools_json service owner model ''gemma4'' (Some i)
        (RqItems [RiMessage ''system'' (RcText b), RiMessage ''user'' (RcText t)]) [] None
      = Ok (p, saturating_add (rr_revision r) 1, cp_input P)"
    using assms(1,4,5,7)
    by (simp add: request_prompt_def predecessor_prompt_def response_prompt_def strict_pending append_tool_instructions_def)
next
  fix input tools choice'
  note c = completed_stored[OF assms(6,10,11)]
  from c(1) obtain call where R: "R = response_complete created (P\<lparr>cp_function_call := call\<rparr>)" by blast
  have f: "rr_id R = cp_id P" "rr_owner R = owner" "rr_model R = model" "rr_store R" "rr_previous R = Some i"
    "rr_input R = [InputMessage ''system'' b, InputMessage ''user'' t]" "\<exists>item. rr_output R = [item]"
    using assms(7-11) by (simp_all add: R response_complete_def split: option.split)
  have "lineage_retrieve service' owner (rr_id R) = Ok R"
    using c(2,3) assms(12) f(1,2) by (simp add: lineage_retrieve_def service_retrieve_def store_get_def ok_or_def)
  with strict_replay[OF f(6,7,5) assms(13,14,3), of call_json] f(3,4)
  show "request_prompt call_json admit tools_json service' owner model ''gemma4'' (Some (rr_id R)) input tools choice'
      = Err (BadRequest ''system messages are accepted only in the first position'')"
    by (simp add: request_prompt_def predecessor_prompt_def)
qed

definition strict_usage :: Usage where
  "strict_usage = \<lparr>us_input_tokens = 5, us_generated_tokens = 1, us_evaluated_tokens = 5, us_cached_tokens = 0,
     us_prefill = \<lparr>pf_total_tokens = 5, pf_cached_tokens = 0, pf_uncached_tokens = 5,
       pf_tokenization_ns = 0, pf_prefix_lookup_ns = 0, pf_mapping_activation_ns = 0, pf_uncached_prefill_ns = 0, pf_total_ns = 0,
       pf_transfer_bytes = 0, pf_device_bytes = 0, pf_host_bytes = 0\<rparr>, us_model = ''m'', us_model_revision = ''1'',
     us_context_id = ''c'', us_compaction_result = None, us_latency_ms = 0, us_status = ''ok'', us_correlation_id = ''c'',
     us_inference_id = ''i'', us_execution_session_id = ''e''\<rparr>"

definition strict_answer :: "unit CompleteResponse" where
  "strict_answer = \<lparr>cp_id = ''r3'', cp_owner = ''u'', cp_model = ''m'', cp_text = ''yes'', cp_reason = ReasonStop, cp_usage = strict_usage,
     cp_store = True, cp_previous = Some ''r2'', cp_tools = [], cp_tool_choice = (), cp_revision = 2,
     cp_input = [InputMessage ''system'' ''brief'', InputMessage ''user'' ''so''], cp_function_call = None\<rparr>"

definition good_disk :: FileAnswers where
  "good_disk = \<lparr>fa_remove = (\<lambda>i. None), fa_sync = None, fa_write = WriteDone\<rparr>"

definition strict_run :: "unit ResponseService \<times> (server_error, unit ResponseResource) outcome" where
  "strict_run = completed_response (\<lambda>s. None) ''x'' ''y'' [] None good_disk 9 9 strict_answer talk_service"

lemma strict_run_ok:
  "snd strict_run = Ok (response_complete 9 strict_answer)"
  "lineage_retrieve (fst strict_run) ''u'' ''r2'' = Ok (turn_resource ''r2'' (Some ''r1'') 1 [InputMessage ''user'' ''more''] ''ok'')"
  "lineage_retrieve (fst strict_run) ''u'' ''r1'' = Ok (turn_resource ''r1'' None 0 [InputMessage ''user'' ''hi''] ''hello'')"
  by (simp_all add: strict_run_def completed_response_def parse_function_call_def service_remember_def in_store_def store_put_successor_def
    prune_expired_def response_expired_def RESPONSE_RETENTION_SECONDS_def check_successor_def has_successor_def write_resource_def
    remember_file_def good_disk_def strict_answer_def response_complete_def talk_service_def service_of_def turn_resource_def
    lineage_retrieve_def service_retrieve_def store_get_def ok_or_def and_then_def Let_def)

theorem lineage_rejects_its_own_turn_witness:
  "(\<exists>p. request_of talk_service ''r2'' (RqItems [RiMessage ''system'' (RcText ''brief''), RiMessage ''user'' (RcText ''so'')])
      = Ok (p, saturating_add 1 1, cp_input strict_answer))
    \<and> request_of (fst strict_run) ''r3'' (RqText ''bye'')
      = Err (BadRequest ''system messages are accepted only in the first position'')"
proof -
  let ?r2 = "turn_resource ''r2'' (Some ''r1'') 1 [InputMessage ''user'' ''more''] ''ok''"
  let ?turns = "[(''more'', ''ok''), (''hi'', ''hello'')]"
  have 2: "lineage_retrieve talk_service ''u'' ''r2'' = Ok ?r2" by code_simp
  have 1: "lineage_retrieve talk_service ''u'' ''r1'' = Ok (turn_resource ''r1'' None 0 [InputMessage ''user'' ''hi''] ''hello'')" by code_simp
  have p: "plain_lineage talk_service ''u'' ?r2 ?turns" "plain_lineage (fst strict_run) ''u'' ?r2 ?turns"
    using 1 strict_run_ok(3) by (simp_all add: plain_turn_def turn_resource_def assistant_message_def text_part_def)
  have run: "completed_response (\<lambda>s. None) ''x'' ''y'' [] None good_disk 9 9 strict_answer talk_service
      = (fst strict_run, Ok (response_complete 9 strict_answer))"
    using strict_run_ok(1) by (simp add: strict_run_def prod_eq_iff)
  have id: "rr_id (response_complete 9 strict_answer) = ''r3''" by (simp add: response_complete_def strict_answer_def)
  have l: "length ?turns < LINEAGE_LIMIT" by (simp add: LINEAGE_LIMIT_def)
  from lineage_rejects_its_own_turn[OF 2 p(1) l _ _ run _ _ _ _ _ _ strict_run_ok(2) p(2), of "''m''" "''brief''" "''so''" "\<lambda>n a. n @ a"
      "\<lambda>url. None" "\<lambda>ts. []"] show ?thesis
    unfolding id request_of_def by (simp add: strict_answer_def talk_service_def service_of_def)
qed

end
