(* ===== verification/Response_Props.thy ===== *)
theory Response_Props
  imports Lineage_Props
begin

text \<open>
  Responses: a streamed response is the response that is not streamed, and what the store keeps, with its
  recovery and the uniqueness of successors.
\<close>

section \<open>Streaming\<close>

fun stream_run :: "(StreamEvent \<Rightarrow> 's \<Rightarrow> 's \<times> ('e, 'r list) outcome) \<Rightarrow> StreamEvent list \<Rightarrow> 's \<Rightarrow> 's \<times> ('e, 'r list) outcome" where
  "stream_run f [] s = (s, Ok [])"
| "stream_run f (e # es) s = and_then (f e s) (\<lambda>rows s. and_then (stream_run f es s) (\<lambda>rest s. (s, Ok (rows @ rest))))"

fun delta_text :: "'j ResponseEvent \<Rightarrow> string" where
  "delta_text (EvTextDelta t) = t"
| "delta_text _ = []"

definition token_events :: "nat \<Rightarrow> string list \<Rightarrow> StreamEvent list" where
  "token_events i ts = map (\<lambda>(i, t). StreamToken t i) (enumerate i ts)"

lemma token_events_simps [simp]: "token_events i [] = []" "token_events i (t # ts) = StreamToken t i # token_events (i + 1) ts"
  by (simp_all add: token_events_def)

lemma stream_run_append:
  "stream_run f (xs @ ys) s = and_then (stream_run f xs s) (\<lambda>rows s. and_then (stream_run f ys s) (\<lambda>rest s. (s, Ok (rows @ rest))))"
proof (induction xs arbitrary: s)
  case Nil
  show ?case by (cases "stream_run f ys s"; cases "snd (stream_run f ys s)") (simp_all add: and_then_def)
next
  case (Cons x xs)
  show ?case by (simp add: and_then_def Cons.IH split: outcome.split)
qed

text \<open>The projection after the start, when \<open>t\<close> has been generated and \<open>n\<close> events were written.\<close>

definition streaming :: "'j ResponseProjection \<Rightarrow> string \<Rightarrow> ResponseMetadata \<Rightarrow> string \<Rightarrow> nat \<Rightarrow> 'j ResponseProjection" where
  "streaming p i md t n = p\<lparr>pj_resource := (pj_resource p)\<lparr>rr_id := i, rr_metadata := md,
     rr_output := [OutputMessage (assistant_message ''in_progress'' t)]\<rparr>, pj_sequence := n\<rparr>"

lemma generated_streaming [simp]: "generated_text (streaming p i md t n) = t"
  by (simp add: generated_text_def streaming_def assistant_message_def text_part_def)

lemma completed_streaming:
  "rr_status (pj_resource p) = ''in_progress'' \<Longrightarrow> completed_resource (streaming p i md t n) = None"
  by (simp add: completed_resource_def streaming_def)

lemma project_token:
  "project (StreamToken t j) (streaming p i md acc n) =
     (streaming p i md (acc @ t) (if pj_buffer_output p then n else n + 1), if pj_buffer_output p then [] else [(n, EvTextDelta t)])"
  by (simp add: project_def streaming_def push_text_def assistant_message_def text_part_def)

lemma stream_tokens:
  assumes "rr_status (pj_resource p) = ''in_progress''"
  shows "stream_run (stream_event parse uuid uuid2 names choice files now) (token_events j ts) \<lparr>st_projection = streaming p i md acc n, st_service = sv\<rparr>
    = (\<lparr>st_projection = streaming p i md (acc @ concat ts) (if pj_buffer_output p then n else n + length ts), st_service = sv\<rparr>,
       Ok (if pj_buffer_output p then [] else enumerate n (map EvTextDelta ts)))"
proof (induction ts arbitrary: j acc n)
  case (Cons t ts)
  have "stream_event parse uuid uuid2 names choice files now (StreamToken t j) \<lparr>st_projection = streaming p i md acc n, st_service = sv\<rparr>
      = (\<lparr>st_projection = streaming p i md (acc @ t) (if pj_buffer_output p then n else n + 1), st_service = sv\<rparr>,
         Ok (if pj_buffer_output p then [] else [(n, EvTextDelta t)]))"
    by (simp add: stream_event_def stream_parse_def project_token completed_streaming[OF assms])
  then show ?case by (simp add: Cons.IH)
qed simp

lemma deltas: "concat (map (\<lambda>(k, e). delta_text e) (enumerate n (map EvTextDelta ts))) = concat ts"
  by (induction ts arbitrary: n) simp_all

definition complete_of :: "'j StreamResponse \<Rightarrow> string \<Rightarrow> string \<Rightarrow> FinishReason \<Rightarrow> Usage \<Rightarrow> 'j CompleteResponse" where
  "complete_of r i t reason usage = \<lparr>cp_id = i, cp_owner = sr_owner r, cp_model = us_model usage, cp_text = t, cp_reason = reason,
     cp_usage = usage, cp_store = sr_store r, cp_previous = sr_previous r, cp_tools = sr_tools r, cp_tool_choice = sr_tool_choice r,
     cp_revision = sr_revision r, cp_input = sr_input r, cp_function_call = None\<rparr>"

text \<open>A streamed response is created under the model name of the request (\<open>stream_response\<close> of \<open>lib.rs\<close>), one that is
  not streamed under the name of the model that answered (\<open>completed_response\<close>); they differ where the request used an alias.\<close>

definition requested_name :: "'j StreamResponse \<Rightarrow> Usage \<Rightarrow> Usage" where
  "requested_name r usage = usage\<lparr>us_model := sr_model r\<rparr>"

lemma projection_status [simp]: "rr_status (pj_resource (stream_projection auto now r)) = ''in_progress''"
  by (simp add: stream_projection_def with_request_def projection_new_def)

lemma projection_buffer [simp]: "pj_buffer_output (stream_projection auto now r) = sr_buffer_output r"
  by (simp add: stream_projection_def with_request_def)

lemma stream_start:
  "stream_event parse uuid uuid2 names choice files now (StreamStarted i ctx co ni se) \<lparr>st_projection = stream_projection auto created r, st_service = sv\<rparr>
   = (\<lparr>st_projection = streaming (stream_projection auto created r) i \<lparr>md_correlation_id = co, md_inference_id = ni, md_execution_session_id = se\<rparr> []
        (if sr_buffer_output r then 1 else 3), st_service = sv\<rparr>,
      Ok (if sr_buffer_output r then [(0, EvCreated (pj_resource (streaming (stream_projection auto created r) i
            \<lparr>md_correlation_id = co, md_inference_id = ni, md_execution_session_id = se\<rparr> [] 0)))]
        else [(0, EvCreated (pj_resource (streaming (stream_projection auto created r) i
            \<lparr>md_correlation_id = co, md_inference_id = ni, md_execution_session_id = se\<rparr> [] 0))),
          (1, EvOutputItemAdded (assistant_message ''in_progress'' [])), (2, EvContentPartAdded (text_part []))]))"
  by (simp add: stream_event_def stream_parse_def project_def streaming_def stream_projection_def with_request_def projection_new_def
      generated_text_def completed_resource_def Let_def numeral_3_eq_3 numeral_2_eq_2)

text \<open>The last event writes these events, after \<open>n\<close>, and completes the resource.\<close>

definition closing_events :: "bool \<Rightarrow> string \<Rightarrow> ResponseFunctionCall option \<Rightarrow> 'j ResponseResource \<Rightarrow> 'j ResponseEvent list" where
  "closing_events buffered t call R = (case call of
     Some c \<Rightarrow> [EvFunctionCallAdded c, EvFunctionCallDone c, EvCompleted R]
   | None \<Rightarrow> (if buffered then [EvOutputItemAdded (assistant_message ''completed'' t), EvContentPartAdded (text_part []), EvTextDelta t] else [])
       @ [EvTextDone (text_part t), EvContentPartDone (text_part t), EvOutputItemDone (assistant_message ''completed'' t), EvCompleted R])"

lemma finish_projection:
  assumes "md = \<lparr>md_correlation_id = us_correlation_id usage, md_inference_id = us_inference_id usage,
      md_execution_session_id = us_execution_session_id usage\<rparr>"
    and R: "R = response_complete created ((complete_of r i t reason (requested_name r usage))\<lparr>cp_function_call := call\<rparr>)"
  shows "\<exists>p. project (StreamFinished reason usage) (set_function_call call (streaming (stream_projection auto created r) i md t n))
      = (p, enumerate n (closing_events (sr_buffer_output r) t call R)) \<and> completed_resource p = Some R"
proof (cases call)
  case None
  with assms show ?thesis
    by (simp add: project_def set_function_call_def streaming_def stream_projection_def with_request_def projection_new_def
      generated_text_def completed_resource_def assistant_message_def text_part_def closing_events_def response_complete_def complete_of_def
      requested_name_def response_usage_def Let_def)
next
  case (Some c)
  with assms show ?thesis
    by (simp add: project_def set_function_call_def streaming_def stream_projection_def with_request_def projection_new_def
      generated_text_def completed_resource_def assistant_message_def text_part_def closing_events_def response_complete_def complete_of_def
      requested_name_def response_usage_def Let_def)
qed

definition opening_events :: "bool \<Rightarrow> 'j ResponseResource \<Rightarrow> 'j ResponseEvent list" where
  "opening_events buffered R = (if buffered then [EvCreated R]
     else [EvCreated R, EvOutputItemAdded (assistant_message ''in_progress'' []), EvContentPartAdded (text_part [])])"

definition delta_events :: "bool \<Rightarrow> string list \<Rightarrow> 'j ResponseEvent list" where
  "delta_events buffered ts = (if buffered then [] else map EvTextDelta ts)"

lemma enumerate_append: "enumerate n xs @ enumerate (n + length xs) ys = enumerate n (xs @ ys)"
  by (simp add: enumerate_append_eq)

text \<open>Everything before the last event.\<close>

lemma stream_until_end:
  "stream_run (stream_event parse uuid uuid2 names choice files now) (StreamStarted i ctx co ni se # token_events 0 ts)
      \<lparr>st_projection = stream_projection auto created r, st_service = sv\<rparr>
   = (let md = \<lparr>md_correlation_id = co, md_inference_id = ni, md_execution_session_id = se\<rparr>;
          evs = opening_events (sr_buffer_output r) (pj_resource (streaming (stream_projection auto created r) i md [] 0))
            @ delta_events (sr_buffer_output r) ts in
      (\<lparr>st_projection = streaming (stream_projection auto created r) i md (concat ts) (length evs), st_service = sv\<rparr>, Ok (enumerate 0 evs)))"
  by (simp add: stream_start stream_tokens[OF projection_status] Let_def opening_events_def delta_events_def numeral_3_eq_3)

definition usage_metadata :: "Usage \<Rightarrow> ResponseMetadata" where
  "usage_metadata usage = \<lparr>md_correlation_id = us_correlation_id usage, md_inference_id = us_inference_id usage,
     md_execution_session_id = us_execution_session_id usage\<rparr>"

lemma deltas_map [simp]: "concat (map (delta_text \<circ> EvTextDelta) ts) = concat ts"
  by (induction ts) simp_all

text \<open>The rows of a stream and the response they end with.\<close>

definition full_rows :: "bool \<Rightarrow> 'j ResponseResource \<Rightarrow> string list \<Rightarrow> ResponseFunctionCall option \<Rightarrow> 'j ResponseResource \<Rightarrow> (nat \<times> 'j ResponseEvent) list" where
  "full_rows buffered R0 ts call R =
     enumerate 0 (opening_events buffered R0 @ delta_events buffered ts @ closing_events buffered (concat ts) call R)"

lemma full_rows_sound:
  "map fst (full_rows buffered R0 ts call R) = [0..<length (full_rows buffered R0 ts call R)]
   \<and> snd (last (full_rows buffered R0 ts call R)) = EvCompleted R
   \<and> (case call of None \<Rightarrow> concat (map (\<lambda>row. delta_text (snd row)) (full_rows buffered R0 ts call R)) = concat ts
       | Some c \<Rightarrow> EvFunctionCallDone c \<in> set (map snd (full_rows buffered R0 ts call R)))"
proof (intro conjI)
  let ?evs = "opening_events buffered R0 @ delta_events buffered ts @ closing_events buffered (concat ts) call R"
  have ne: "?evs \<noteq> []" by (simp add: opening_events_def)
  show "map fst (full_rows buffered R0 ts call R) = [0..<length (full_rows buffered R0 ts call R)]"
    by (simp only: full_rows_def map_fst_enumerate length_enumerate) simp
  have "snd (last (enumerate 0 ?evs)) = last (map snd (enumerate 0 ?evs))"
    using ne by (subst last_map) (auto simp: enumerate_eq_zip)
  then show "snd (last (full_rows buffered R0 ts call R)) = EvCompleted R"
    by (simp only: full_rows_def map_snd_enumerate) (simp add: closing_events_def split: option.split)
  have "map (\<lambda>row. delta_text (snd row)) (enumerate 0 ?evs) = map delta_text ?evs"
    by (metis (no_types, lifting) list.map_comp comp_apply map_eq_conv map_snd_enumerate)
  then have "call = None \<Longrightarrow> concat (map (\<lambda>row. delta_text (snd row)) (full_rows buffered R0 ts call R)) = concat ts"
    by (simp add: full_rows_def opening_events_def delta_events_def closing_events_def)
  moreover have "EvFunctionCallDone c \<in> set (map snd (full_rows buffered R0 ts call R))" if "call = Some c" for c
    using that by (simp only: full_rows_def map_snd_enumerate) (simp add: closing_events_def)
  ultimately show "case call of None \<Rightarrow> concat (map (\<lambda>row. delta_text (snd row)) (full_rows buffered R0 ts call R)) = concat ts
       | Some c \<Rightarrow> EvFunctionCallDone c \<in> set (map snd (full_rows buffered R0 ts call R))"
    by (simp split: option.split)
qed

lemma complete_of_text [simp]: "cp_text (complete_of r i t reason usage) = t"
  by (simp add: complete_of_def)

text \<open>A response that is streamed, and the same response when it is not.\<close>

definition streamed_run ::
  "(string \<Rightarrow> (string \<times> string) option) \<Rightarrow> string \<Rightarrow> string \<Rightarrow> string list \<Rightarrow> ToolChoice option \<Rightarrow> FileAnswers \<Rightarrow> nat \<Rightarrow> 'j \<Rightarrow> nat
    \<Rightarrow> 'j StreamResponse \<Rightarrow> string \<Rightarrow> string \<Rightarrow> string list \<Rightarrow> FinishReason \<Rightarrow> Usage \<Rightarrow> 'j ResponseService
    \<Rightarrow> 'j StreamState \<times> (server_error, (nat \<times> 'j ResponseEvent) list) outcome" where
  "streamed_run parse uuid uuid2 names choice files now auto created r i ctx ts reason usage sv =
     stream_run (stream_event parse uuid uuid2 names choice files now)
       (StreamStarted i ctx (us_correlation_id usage) (us_inference_id usage) (us_execution_session_id usage)
         # token_events 0 ts @ [StreamFinished reason usage])
       \<lparr>st_projection = stream_projection auto created r, st_service = sv\<rparr>"

definition unstreamed_run ::
  "(string \<Rightarrow> (string \<times> string) option) \<Rightarrow> string \<Rightarrow> string \<Rightarrow> string list \<Rightarrow> ToolChoice option \<Rightarrow> FileAnswers \<Rightarrow> nat \<Rightarrow> nat
    \<Rightarrow> 'j StreamResponse \<Rightarrow> string \<Rightarrow> string list \<Rightarrow> FinishReason \<Rightarrow> Usage \<Rightarrow> 'j ResponseService
    \<Rightarrow> 'j ResponseService \<times> (server_error, 'j ResponseResource) outcome" where
  "unstreamed_run parse uuid uuid2 names choice files now created r i ts reason usage sv =
     completed_response parse uuid uuid2 names choice files created now (complete_of r i (concat ts) reason usage) sv"

lemma stream_finish:
  assumes parse: "parse_function_call parse uuid uuid2 names choice t = Ok call"
    and R: "R = response_complete created ((complete_of r i t reason (requested_name r usage))\<lparr>cp_function_call := call\<rparr>)"
    and rem: "service_remember files now R sv = (service, result)"
  shows "\<exists>p. stream_event parse uuid uuid2 names choice files now (StreamFinished reason usage)
      \<lparr>st_projection = streaming (stream_projection auto created r) i (usage_metadata usage) t n, st_service = sv\<rparr>
    = (\<lparr>st_projection = p, st_service = service\<rparr>,
       case result of Ok _ \<Rightarrow> Ok (enumerate n (closing_events (sr_buffer_output r) t call R)) | Err e \<Rightarrow> Err (response_store_error e) | Abort \<Rightarrow> Abort)"
proof -
  from finish_projection[OF usage_metadata_def R, of auto n]
  obtain p where "project (StreamFinished reason usage) (set_function_call call (streaming (stream_projection auto created r) i (usage_metadata usage) t n))
      = (p, enumerate n (closing_events (sr_buffer_output r) t call R))" "completed_resource p = Some R" by blast
  with parse rem show ?thesis by (simp add: stream_event_def stream_parse_def Let_def)
qed

section \<open>Properties of streams\<close>

text \<open>The name of the model is only carried along.\<close>

lemma remember_renamed: "snd (service_remember files now (R\<lparr>rr_model := n\<rparr>) sv) = snd (service_remember files now R sv)"
  by (simp add: service_remember_def in_store_def store_put_def store_put_successor_def write_resource_def and_then_def Let_def
    split: option.split prod.split outcome.split WriteAnswer.split)

lemma requested_complete:
  "response_complete created ((complete_of r i t reason (requested_name r usage))\<lparr>cp_function_call := call\<rparr>)
   = (response_complete created ((complete_of r i t reason usage)\<lparr>cp_function_call := call\<rparr>))\<lparr>rr_model := sr_model r\<rparr>"
  by (simp add: response_complete_def complete_of_def requested_name_def response_usage_def split: option.split)

text \<open>C31: A streamed response is the response, under the name that was requested. After a start, any tokens and the end,
  the service has remembered what it would have remembered without streaming for an engine that answers with the
  requested model name; the stream fails exactly where the response fails that is not streamed, and with the same
  error; otherwise its events are numbered without a gap, their text deltas are the text, and they end with the
  completed resource. This is the resource of the response that is not streamed, but for its model: the one has the
  name that was requested, the other the id of the model that answered, which differ where the request used an alias.\<close>

theorem streamed_response_is_response:
  shows "st_service (fst (streamed_run parse uuid uuid2 names choice files now auto created r i ctx ts reason usage sv))
      = fst (unstreamed_run parse uuid uuid2 names choice files now created r i ts reason (requested_name r usage) sv)
    \<and> (case snd (unstreamed_run parse uuid uuid2 names choice files now created r i ts reason usage sv) of
        Ok R \<Rightarrow> rr_model R = us_model usage
          \<and> (\<exists>rows call. snd (streamed_run parse uuid uuid2 names choice files now auto created r i ctx ts reason usage sv) = Ok rows
          \<and> parse_function_call parse uuid uuid2 names choice (concat ts) = Ok call
          \<and> map fst rows = [0..<length rows] \<and> snd (last rows) = EvCompleted (R\<lparr>rr_model := sr_model r\<rparr>)
          \<and> (case call of None \<Rightarrow> concat (map (\<lambda>row. delta_text (snd row)) rows) = concat ts
              | Some c \<Rightarrow> EvFunctionCallDone c \<in> set (map snd rows)))
      | Err e \<Rightarrow> snd (streamed_run parse uuid uuid2 names choice files now auto created r i ctx ts reason usage sv) = Err e
      | Abort \<Rightarrow> snd (streamed_run parse uuid uuid2 names choice files now auto created r i ctx ts reason usage sv) = Abort)"
proof -
  let ?f = "stream_event parse uuid uuid2 names choice files now"
  let ?md = "usage_metadata usage" and ?b = "sr_buffer_output r" and ?P = "stream_projection auto created r"
  let ?begun = "pj_resource (streaming ?P i ?md [] 0)"
  let ?evs = "opening_events ?b ?begun @ delta_events ?b ts"
  let ?s = "\<lparr>st_projection = streaming ?P i ?md (concat ts) (length ?evs), st_service = sv\<rparr>"
  have run: "streamed_run parse uuid uuid2 names choice files now auto created r i ctx ts reason usage sv
      = and_then (?f (StreamFinished reason usage) ?s) (\<lambda>rows s. (s, Ok (enumerate 0 ?evs @ rows)))"
    unfolding streamed_run_def append_Cons[symmetric] stream_run_append stream_until_end
    by (simp add: Let_def usage_metadata_def and_then_def split: outcome.split)
  show ?thesis
  proof (cases "parse_function_call parse uuid uuid2 names choice (concat ts)")
    case (Ok call)
    let ?R = "response_complete created ((complete_of r i (concat ts) reason (requested_name r usage))\<lparr>cp_function_call := call\<rparr>)"
    let ?R1 = "response_complete created ((complete_of r i (concat ts) reason usage)\<lparr>cp_function_call := call\<rparr>)"
    let ?rows = "enumerate (length ?evs) (closing_events ?b (concat ts) call ?R)"
    obtain service result where rem: "service_remember files now ?R sv = (service, result)"
      by (cases "service_remember files now ?R sv")
    from stream_finish[OF Ok refl rem, of auto "length ?evs"] obtain p where fin: "?f (StreamFinished reason usage) ?s
        = (\<lparr>st_projection = p, st_service = service\<rparr>, case result of Ok _ \<Rightarrow> Ok ?rows | Err e \<Rightarrow> Err (response_store_error e) | Abort \<Rightarrow> Abort)"
      by blast
    have w: "unstreamed_run parse uuid uuid2 names choice files now created r i ts reason (requested_name r usage) sv
      = (service, case result of Ok _ \<Rightarrow> Ok ?R | Err e \<Rightarrow> Err (response_store_error e) | Abort \<Rightarrow> Abort)"
      by (simp add: unstreamed_run_def completed_response_def Ok rem Let_def)
    have R: "?R = ?R1\<lparr>rr_model := sr_model r\<rparr>" by (rule requested_complete)
    have "snd (service_remember files now ?R1 sv) = result"
      using remember_renamed[of files now "sr_model r" ?R1 sv] rem unfolding R by simp
    then have w1: "snd (unstreamed_run parse uuid uuid2 names choice files now created r i ts reason usage sv)
      = (case result of Ok _ \<Rightarrow> Ok ?R1 | Err e \<Rightarrow> Err (response_store_error e) | Abort \<Rightarrow> Abort)"
      by (auto simp: unstreamed_run_def completed_response_def Ok Let_def split: prod.split)
    have m1: "rr_model ?R1 = us_model usage" by (simp add: response_complete_def complete_of_def)
    have rows: "enumerate 0 ?evs @ ?rows = full_rows ?b ?begun ts call ?R"
      by (simp add: full_rows_def enumerate_append_eq)
    show ?thesis
    proof (cases result)
      case result: (Ok u)
      have "streamed_run parse uuid uuid2 names choice files now auto created r i ctx ts reason usage sv
          = (\<lparr>st_projection = p, st_service = service\<rparr>, Ok (full_rows ?b ?begun ts call ?R))"
        unfolding run fin result by (simp only: outcome.case and_then_Ok rows)
      from this[unfolded R] w[unfolded R] w1 m1 result Ok full_rows_sound[of ?b ?begun ts call ?R, unfolded R]
      show ?thesis by simp
    next
      case (Err e)
      show ?thesis unfolding run fin w w1 Err by (simp only: outcome.case and_then_Err fst_conv snd_conv StreamState.select_convs simp_thms)
    next
      case Abort
      show ?thesis unfolding run fin w w1 Abort by (simp only: outcome.case and_then_def fst_conv snd_conv StreamState.select_convs simp_thms)
    qed
  qed (simp_all add: run unstreamed_run_def completed_response_def stream_event_def stream_parse_def complete_of_def and_then_def)
qed

end
