(* ===== verification/Response_Store_Props.thy ===== *)
theory Response_Store_Props
  imports Response_Props
begin

text \<open>
  The store of responses as a machine: writes, successors, deletions, restarts, and crashes between the
  write of a file and its entry in memory.
\<close>

section \<open>The machine\<close>

text \<open>With \<open>synced\<close> a directory is always synchronised; removals and writes can still fail.\<close>

definition answers_ok :: "bool \<Rightarrow> FileAnswers \<Rightarrow> bool" where
  "answers_ok synced a \<longleftrightarrow> (synced \<longrightarrow> fa_sync a = None \<and> (\<forall>m. fa_write a \<noteq> WriteUnsynced m))"

text \<open>A new id is not in use, and nothing refers to it.\<close>

definition fresh_id :: "string \<Rightarrow> 'j FileStore \<Rightarrow> bool" where
  "fresh_id i s \<longleftrightarrow> \<not> hm_has (fs_files s) i \<and> \<not> has_successor i (fs_memory s)"

definition store_init :: "'j FileStore \<Rightarrow> bool" where
  "store_init s \<longleftrightarrow> s = \<lparr>fs_files = [], fs_memory = []\<rparr>"

inductive store_step :: "bool \<Rightarrow> 'j FileStore \<Rightarrow> 'j FileStore \<Rightarrow> bool" for synced :: bool where
  step_put: "answers_ok synced a \<Longrightarrow> fresh_id (rr_id r) s \<Longrightarrow> rr_previous r = None \<Longrightarrow> store_step synced s (fst (store_put a now r s))"
| step_put_successor: "answers_ok synced a \<Longrightarrow> fresh_id (rr_id r) s \<Longrightarrow> rr_previous r = Some base \<Longrightarrow> rr_revision r = expected + 1 \<Longrightarrow>
    store_step synced s (fst (store_put_successor a now base expected r s))"
| step_delete: "answers_ok synced a \<Longrightarrow> store_step synced s (fst (store_delete a i s))"
| step_restart: "store_open a now (fs_files s) = (s', Ok ()) \<Longrightarrow> store_step synced s s'"
| step_crash_put: "answers_ok synced a \<Longrightarrow> fresh_id (rr_id r) s \<Longrightarrow> rr_previous r = None \<Longrightarrow>
    prune_expired a now s = (s1, Ok ()) \<Longrightarrow> store_open b later (fs_files (fst (write_resource a r s1))) = (s', Ok ()) \<Longrightarrow>
    store_step synced s s'"
| step_crash_successor: "answers_ok synced a \<Longrightarrow> fresh_id (rr_id r) s \<Longrightarrow> rr_previous r = Some base \<Longrightarrow> rr_revision r = expected + 1 \<Longrightarrow>
    prune_expired a now s = (s1, Ok ()) \<Longrightarrow> check_successor base expected s1 = Ok () \<Longrightarrow>
    store_open b later (fs_files (fst (write_resource a r s1))) = (s', Ok ()) \<Longrightarrow> store_step synced s s'"

definition store_reach :: "bool \<Rightarrow> 'j FileStore \<Rightarrow> bool" where
  "store_reach synced s = reach store_init (store_step synced) s"

section \<open>The invariant\<close>

text \<open>What a table of resources satisfies, whether it is the memory or what the files say.\<close>

definition lineage_ok :: "(string \<Rightarrow> 'j ResponseResource option) \<Rightarrow> bool" where
  "lineage_ok m \<longleftrightarrow> (\<forall>i r. m i = Some r \<longrightarrow> rr_id r = i)
     \<and> (\<forall>i j r r' b. m i = Some r \<longrightarrow> m j = Some r' \<longrightarrow> rr_previous r = Some b \<longrightarrow> rr_previous r' = Some b \<longrightarrow> i = j)
     \<and> (\<forall>i r b rb. m i = Some r \<longrightarrow> rr_previous r = Some b \<longrightarrow> m b = Some rb \<longrightarrow> rr_revision r = rr_revision rb + 1)"

definition store_ok :: "'j FileStore \<Rightarrow> bool" where
  "store_ok s \<longleftrightarrow> hm_ok (fs_files s) \<and> hm_ok (fs_memory s)
     \<and> (\<forall>i. map_of (fs_files s) i = map_option ResourceFile (map_of (fs_memory s) i)) \<and> lineage_ok (map_of (fs_memory s))"

lemma lineage_ok_sub:
  assumes "lineage_ok m" "\<And>i r. n i = Some r \<Longrightarrow> m i = Some r"
  shows "lineage_ok n"
  unfolding lineage_ok_def
proof (intro conjI allI impI)
  fix i r assume "n i = Some r"
  with assms show "rr_id r = i" by (auto simp: lineage_ok_def)
next
  fix i j r r' b assume "n i = Some r" "n j = Some r'" "rr_previous r = Some b" "rr_previous r' = Some b"
  with assms show "i = j" unfolding lineage_ok_def by blast
next
  fix i r b rb assume "n i = Some r" "rr_previous r = Some b" "n b = Some rb"
  with assms show "rr_revision r = rr_revision rb + 1" unfolding lineage_ok_def by blast
qed

lemma lineage_ok_add:
  assumes m: "lineage_ok m" and new: "m (rr_id r) = None" "\<And>i x. m i = Some x \<Longrightarrow> rr_previous x \<noteq> Some (rr_id r)"
    and prev: "\<And>b i x. rr_previous r = Some b \<Longrightarrow> m i = Some x \<Longrightarrow> rr_previous x \<noteq> Some b"
    and base: "\<And>b x. rr_previous r = Some b \<Longrightarrow> m b = Some x \<Longrightarrow> rr_revision r = rr_revision x + 1"
    and own: "rr_previous r \<noteq> Some (rr_id r)"
  shows "lineage_ok (m(rr_id r \<mapsto> r))"
  unfolding lineage_ok_def
proof (intro conjI allI impI)
  fix i x assume "(m(rr_id r \<mapsto> r)) i = Some x"
  with m show "rr_id x = i" by (auto simp: lineage_ok_def split: if_splits)
next
  fix i j x y b assume x: "(m(rr_id r \<mapsto> r)) i = Some x" and y: "(m(rr_id r \<mapsto> r)) j = Some y"
    and p: "rr_previous x = Some b" "rr_previous y = Some b"
  show "i = j"
  proof (cases "i = rr_id r"; cases "j = rr_id r")
    assume "i \<noteq> rr_id r" "j \<noteq> rr_id r"
    with x y p m show ?thesis unfolding lineage_ok_def by simp
  qed (use x y p prev in auto)
next
  fix i x b xb assume x: "(m(rr_id r \<mapsto> r)) i = Some x" and p: "rr_previous x = Some b" and xb: "(m(rr_id r \<mapsto> r)) b = Some xb"
  show "rr_revision x = rr_revision xb + 1"
  proof (cases "i = rr_id r")
    case True
    with x p own base xb show ?thesis by (auto split: if_splits)
  next
    case False
    with x p new(2) have "b \<noteq> rr_id r" by auto
    with False x p xb m show ?thesis unfolding lineage_ok_def by simp
  qed
qed

lemma store_okI:
  "hm_ok (fs_files s) \<Longrightarrow> hm_ok (fs_memory s) \<Longrightarrow> (\<And>i. map_of (fs_files s) i = map_option ResourceFile (map_of (fs_memory s) i)) \<Longrightarrow>
   lineage_ok (map_of (fs_memory s)) \<Longrightarrow> store_ok s"
  by (simp add: store_ok_def)

text \<open>One id leaves the files and the memory.\<close>

lemma store_ok_del:
  assumes "store_ok s"
  shows "store_ok \<lparr>fs_files = hm_del i (fs_files s), fs_memory = hm_del i (fs_memory s)\<rparr>"
proof (rule store_okI)
  show "lineage_ok (map_of (fs_memory \<lparr>fs_files = hm_del i (fs_files s), fs_memory = hm_del i (fs_memory s)\<rparr>))"
    using assms by (auto simp: store_ok_def intro!: lineage_ok_sub[of "map_of (fs_memory s)"] split: if_splits)
qed (use assms in \<open>auto simp: store_ok_def\<close>)

definition sub_store :: "'j FileStore \<Rightarrow> 'j FileStore \<Rightarrow> bool" where
  "sub_store s' s \<longleftrightarrow> (\<forall>i r. map_of (fs_memory s') i = Some r \<longrightarrow> map_of (fs_memory s) i = Some r)"

lemma sub_store_refl [simp]: "sub_store s s"
  by (simp add: sub_store_def)

lemma sub_store_trans: "sub_store a b \<Longrightarrow> sub_store b c \<Longrightarrow> sub_store a c"
  by (simp add: sub_store_def)

lemma remove_file_cases:
  "remove_file a i s = (s', Ok u) \<Longrightarrow> s' = s\<lparr>fs_files := hm_del i (fs_files s)\<rparr>"
  "remove_file a i s = (s', Err e) \<Longrightarrow> s' = s"
  "snd (remove_file a i s) \<noteq> Abort"
  by (auto simp: remove_file_def split: if_splits option.splits)

lemma prune_loop_ok:
  "store_ok s \<Longrightarrow> store_ok (fst (prune_loop a is s)) \<and> sub_store (fst (prune_loop a is s)) s \<and> snd (prune_loop a is s) \<noteq> Abort"
proof (induction "is" arbitrary: s)
  case (Cons i "is")
  obtain s1 x where r: "remove_file a i s = (s1, x)" by (cases "remove_file a i s")
  show ?case
  proof (cases x)
    case (Ok u)
    with r have s1: "s1 = s\<lparr>fs_files := hm_del i (fs_files s)\<rparr>" by (auto dest: remove_file_cases(1,2))
    let ?t = "s1\<lparr>fs_memory := hm_del i (fs_memory s1)\<rparr>"
    have "?t = \<lparr>fs_files = hm_del i (fs_files s), fs_memory = hm_del i (fs_memory s)\<rparr>" by (simp add: s1)
    with store_ok_del[OF Cons.prems] have t: "store_ok ?t" by simp
    have "sub_store ?t s" by (auto simp: sub_store_def s1 split: if_splits)
    with Cons.IH[OF t] r Ok show ?thesis by (auto intro: sub_store_trans)
  next
    case (Err e)
    with r have "s1 = s" by (auto dest: remove_file_cases(1,2))
    with r Err Cons.prems show ?thesis by simp
  next
    case Abort
    with r remove_file_cases(3)[of a i s] show ?thesis by simp
  qed
qed simp

lemma prune_expired_ok:
  assumes "store_ok s"
  shows "store_ok (fst (prune_expired a now s)) \<and> sub_store (fst (prune_expired a now s)) s \<and> snd (prune_expired a now s) \<noteq> Abort"
proof -
  let ?ids = "map rr_id (filter (\<lambda>r. response_expired r now) (hm_values (fs_memory s)))"
  obtain s1 x where l: "prune_loop a ?ids s = (s1, x)" by (cases "prune_loop a ?ids s")
  with prune_loop_ok[OF assms, of a ?ids] show ?thesis
    by (cases x) (auto simp: prune_expired_def Let_def and_then_def sync_directory_def split: option.splits)
qed

section \<open>Writing\<close>

lemma has_successor_iff: "hm_ok m \<Longrightarrow> has_successor b m \<longleftrightarrow> (\<exists>i r. map_of m i = Some r \<and> rr_previous r = Some b)"
  unfolding has_successor_def list_ex_iff by (force simp: hm_get_in_iff)

lemma fresh_idD:
  assumes "store_ok s" "fresh_id i s"
  shows "map_of (fs_memory s) i = None" "\<And>j x. map_of (fs_memory s) j = Some x \<Longrightarrow> rr_previous x \<noteq> Some i"
proof -
  from assms(1) have ok: "hm_ok (fs_memory s)" and f: "map_of (fs_files s) i = map_option ResourceFile (map_of (fs_memory s) i)"
    by (simp_all add: store_ok_def)
  from assms(2) have "map_of (fs_files s) i = None" by (simp add: fresh_id_def hm_has_def)
  with f show "map_of (fs_memory s) i = None" by simp
  show "\<And>j x. map_of (fs_memory s) j = Some x \<Longrightarrow> rr_previous x \<noteq> Some i"
    using assms(2) has_successor_iff[OF ok, of i] by (auto simp: fresh_id_def)
qed

lemma fresh_id_sub:
  assumes "store_ok s" "store_ok s1" "sub_store s1 s" "fresh_id i s"
  shows "fresh_id i s1"
proof -
  note f = fresh_idD[OF assms(1,4)]
  have "map_of (fs_memory s1) i = None"
    using f(1) assms(3) by (cases "map_of (fs_memory s1) i") (auto simp: sub_store_def)
  moreover have "\<not> has_successor i (fs_memory s1)"
    using assms(2,3) f(2) has_successor_iff[of "fs_memory s1" i] by (auto simp: store_ok_def sub_store_def)
  ultimately show ?thesis using assms(2) by (simp add: fresh_id_def hm_has_def store_ok_def)
qed

text \<open>A new resource may enter: nothing else follows its predecessor, and its revision is the next one.\<close>

definition may_enter :: "'j ResponseResource \<Rightarrow> 'j FileStore \<Rightarrow> bool" where
  "may_enter r s \<longleftrightarrow> (\<forall>b. rr_previous r = Some b \<longrightarrow> \<not> has_successor b (fs_memory s) \<and>
     (\<exists>x. map_of (fs_memory s) b = Some x \<and> rr_revision r = rr_revision x + 1))"

definition entered :: "'j ResponseResource \<Rightarrow> 'j FileStore \<Rightarrow> 'j FileStore" where
  "entered r s = \<lparr>fs_files = hm_put (rr_id r) (ResourceFile r) (fs_files s), fs_memory = hm_put (rr_id r) r (fs_memory s)\<rparr>"

lemma entered_ok:
  assumes ok: "store_ok s" and fresh: "fresh_id (rr_id r) s" and may: "may_enter r s"
  shows "store_ok (entered r s)"
proof (rule store_okI)
  from ok have hm: "hm_ok (fs_memory s)" by (simp add: store_ok_def)
  note f = fresh_idD[OF ok fresh]
  have "lineage_ok ((map_of (fs_memory s))(rr_id r \<mapsto> r))"
  proof (rule lineage_ok_add)
    show "lineage_ok (map_of (fs_memory s))" using ok by (simp add: store_ok_def)
    show "map_of (fs_memory s) (rr_id r) = None" by (rule f(1))
    show "\<And>i x. map_of (fs_memory s) i = Some x \<Longrightarrow> rr_previous x \<noteq> Some (rr_id r)" by (rule f(2))
    show "\<And>b i x. rr_previous r = Some b \<Longrightarrow> map_of (fs_memory s) i = Some x \<Longrightarrow> rr_previous x \<noteq> Some b"
      using may has_successor_iff[OF hm] by (auto simp: may_enter_def)
    show "\<And>b x. rr_previous r = Some b \<Longrightarrow> map_of (fs_memory s) b = Some x \<Longrightarrow> rr_revision r = rr_revision x + 1"
      using may by (auto simp: may_enter_def)
    show "rr_previous r \<noteq> Some (rr_id r)" using may f(1) by (auto simp: may_enter_def)
  qed
  then show "lineage_ok (map_of (fs_memory (entered r s)))" by (simp add: entered_def)
qed (use ok in \<open>auto simp: store_ok_def entered_def\<close>)

lemma write_remember:
  assumes "answers_ok True a"
  shows "fst (and_then (write_resource a r s) (\<lambda>_ s. (remember_file r s, Ok ()))) \<in> {s, entered r s}"
proof -
  have "remember_file r (s\<lparr>fs_files := hm_put (rr_id r) (ResourceFile r) (fs_files s)\<rparr>) = entered r s"
    by (simp add: remember_file_def entered_def)
  with assms show ?thesis by (cases "fa_write a") (auto simp: write_resource_def Let_def answers_ok_def)
qed

lemma enter_after_prune:
  assumes ok: "store_ok s" and fresh: "fresh_id (rr_id r) s" and a: "answers_ok True a"
    and p: "prune_expired a now s = (s1, Ok u)" and may: "may_enter r s1"
  shows "store_ok (fst (and_then (write_resource a r s1) (\<lambda>_ s. (remember_file r s, Ok ()))))"
proof -
  from prune_expired_ok[OF ok, of a now] p have 1: "store_ok s1" "sub_store s1 s" by simp_all
  from entered_ok[OF 1(1) fresh_id_sub[OF ok 1 fresh] may] 1(1) write_remember[OF a, of r s1] show ?thesis by auto
qed

lemma check_successor_may:
  "check_successor base expected s = Ok u \<Longrightarrow> rr_previous r = Some base \<Longrightarrow> rr_revision r = expected + 1 \<Longrightarrow> may_enter r s"
  by (auto simp: check_successor_def may_enter_def split: option.splits if_splits)

lemma store_put_ok:
  assumes "store_ok s" "fresh_id (rr_id r) s" "answers_ok True a" "rr_previous r = None"
  shows "store_ok (fst (store_put a now r s))"
proof -
  obtain s1 x where p: "prune_expired a now s = (s1, x)" by (cases "prune_expired a now s")
  with prune_expired_ok[OF assms(1), of a now] have "store_ok s1" by simp
  moreover have "may_enter r s1" using assms(4) by (simp add: may_enter_def)
  ultimately show ?thesis using p enter_after_prune[OF assms(1-3), of now s1]
  proof (cases x)
    case (Ok u)
    with p enter_after_prune[OF assms(1-3), of now s1] \<open>may_enter r s1\<close> show ?thesis by (simp add: store_put_def)
  qed (simp_all add: store_put_def and_then_def)
qed

lemma store_put_successor_ok:
  assumes "store_ok s" "fresh_id (rr_id r) s" "answers_ok True a" "rr_previous r = Some base" "rr_revision r = expected + 1"
  shows "store_ok (fst (store_put_successor a now base expected r s))"
proof -
  obtain s1 x where p: "prune_expired a now s = (s1, x)" by (cases "prune_expired a now s")
  with prune_expired_ok[OF assms(1), of a now] have s1: "store_ok s1" by simp
  show ?thesis
  proof (cases x)
    case (Ok u)
    show ?thesis
    proof (cases "check_successor base expected s1")
      case c: (Ok v)
      from enter_after_prune[OF assms(1-3) p[unfolded Ok] check_successor_may[OF c assms(4,5)]]
      show ?thesis by (simp add: store_put_successor_def p Ok c)
    qed (use s1 in \<open>simp_all add: store_put_successor_def p Ok and_then_def\<close>)
  qed (use s1 in \<open>simp_all add: store_put_successor_def p and_then_def\<close>)
qed

lemma store_delete_ok:
  assumes "store_ok s" "answers_ok True a"
  shows "store_ok (fst (store_delete a i s))"
proof -
  obtain s1 x where r: "remove_file a i s = (s1, x)" by (cases "remove_file a i s")
  show ?thesis
  proof (cases x)
    case (Ok u)
    with r have s1: "s1 = s\<lparr>fs_files := hm_del i (fs_files s)\<rparr>" by (auto dest: remove_file_cases(1))
    have "s1\<lparr>fs_memory := hm_del i (fs_memory s1)\<rparr> = \<lparr>fs_files = hm_del i (fs_files s), fs_memory = hm_del i (fs_memory s)\<rparr>"
      by (simp add: s1)
    with store_ok_del[OF assms(1), of i] r Ok assms show ?thesis by (simp add: store_delete_def sync_directory_def answers_ok_def)
  next
    case (Err e)
    with r have "s1 = s" by (auto dest: remove_file_cases(2))
    with r Err assms show ?thesis by (simp add: store_delete_def)
  next
    case Abort
    with r remove_file_cases(3)[of a i s] show ?thesis by simp
  qed
qed

section \<open>Recovering\<close>

definition file_table :: "(string, 'j ResponseFile) hm \<Rightarrow> string \<Rightarrow> 'j ResponseResource option" where
  "file_table files i = (case map_of files i of Some (ResourceFile r) \<Rightarrow> Some r | _ \<Rightarrow> None)"

definition good_files :: "(string, 'j ResponseFile) hm \<Rightarrow> bool" where
  "good_files files \<longleftrightarrow> hm_ok files \<and> (\<forall>e\<in>set files. \<exists>r. snd e = ResourceFile r \<and> rr_id r = fst e)"

lemma recover_loop_Ok:
  assumes "recover_loop a now es s = (s', Ok ())" "good_files es" "hm_ok (fs_files s)" "hm_ok (fs_memory s)"
  shows "hm_ok (fs_files s') \<and> hm_ok (fs_memory s')
    \<and> (\<forall>i. map_of (fs_files s') i = (case file_table es i of Some r \<Rightarrow> if response_expired r now then None else map_of (fs_files s) i
          | None \<Rightarrow> map_of (fs_files s) i))
    \<and> (\<forall>i. map_of (fs_memory s') i = (case file_table es i of Some r \<Rightarrow> if response_expired r now then map_of (fs_memory s) i else Some r
          | None \<Rightarrow> map_of (fs_memory s) i))"
  using assms
proof (induction a now es s rule: recover_loop.induct)
  case (1 a now s)
  then show ?case by (simp add: file_table_def)
next
  case (2 a now name e entries s)
  then show ?case by simp
next
  case (3 a now name r entries s)
  from 3(4) have name: "name = rr_id r" and good: "good_files entries" and new: "map_of entries name = None"
    by (auto simp: good_files_def hm_ok_def map_of_eq_None_iff)
  have tab: "file_table ((name, ResourceFile r) # entries) i = (if i = name then Some r else file_table entries i)" for i
    by (simp add: file_table_def)
  have new': "file_table entries name = None" using new by (simp add: file_table_def)
  show ?case
  proof (cases "response_expired r now")
    case True
    obtain s1 x where rm: "remove_file a name s = (s1, x)" by (cases "remove_file a name s")
    with 3(3) True name obtain u where x: "x = Ok u" by (cases x) (auto simp: and_then_def)
    with rm have s1: "s1 = s\<lparr>fs_files := hm_del name (fs_files s)\<rparr>" by (auto dest: remove_file_cases(1))
    have r: "recover_loop a now entries s1 = (s', Ok ())" using 3(3) True name rm x by simp
    have "\<not> name \<noteq> rr_id r" using name by simp
    from 3(1)[OF this True r good] 3(5,6) s1 have
      "hm_ok (fs_files s') \<and> hm_ok (fs_memory s')
      \<and> (\<forall>i. map_of (fs_files s') i = (case file_table entries i of Some r \<Rightarrow> if response_expired r now then None else map_of (fs_files s1) i
          | None \<Rightarrow> map_of (fs_files s1) i))
      \<and> (\<forall>i. map_of (fs_memory s') i = (case file_table entries i of Some r \<Rightarrow> if response_expired r now then map_of (fs_memory s1) i else Some r
          | None \<Rightarrow> map_of (fs_memory s1) i))" by simp
    with True tab new' s1 show ?thesis by (auto split: option.splits)
  next
    case False
    let ?s1 = "s\<lparr>fs_memory := hm_put (rr_id r) r (fs_memory s)\<rparr>"
    have r: "recover_loop a now entries ?s1 = (s', Ok ())" using 3(3) False name by simp
    have "\<not> name \<noteq> rr_id r" using name by simp
    from 3(2)[OF this False r good] 3(5,6) have
      "hm_ok (fs_files s') \<and> hm_ok (fs_memory s')
      \<and> (\<forall>i. map_of (fs_files s') i = (case file_table entries i of Some r \<Rightarrow> if response_expired r now then None else map_of (fs_files ?s1) i
          | None \<Rightarrow> map_of (fs_files ?s1) i))
      \<and> (\<forall>i. map_of (fs_memory s') i = (case file_table entries i of Some r \<Rightarrow> if response_expired r now then map_of (fs_memory ?s1) i else Some r
          | None \<Rightarrow> map_of (fs_memory ?s1) i))" by simp
    with False tab new' name show ?thesis by (auto split: option.splits)
  qed
qed

lemma store_ok_files:
  assumes "store_ok s"
  shows "good_files (fs_files s)" "file_table (fs_files s) = map_of (fs_memory s)"
proof -
  from assms have f: "\<And>i. map_of (fs_files s) i = map_option ResourceFile (map_of (fs_memory s) i)" and hm: "hm_ok (fs_files s)"
    and l: "lineage_ok (map_of (fs_memory s))" by (simp_all add: store_ok_def)
  show "good_files (fs_files s)"
    unfolding good_files_def
  proof (intro conjI ballI hm)
    fix e assume e: "e \<in> set (fs_files s)"
    then have "map_of (fs_files s) (fst e) = Some (snd e)" using hm by (simp add: hm_get_in_iff)
    with f[of "fst e"] obtain r where r: "map_of (fs_memory s) (fst e) = Some r" "snd e = ResourceFile r"
      by (cases "map_of (fs_memory s) (fst e)") auto
    with l have "rr_id r = fst e" by (auto simp: lineage_ok_def)
    with r show "\<exists>r. snd e = ResourceFile r \<and> rr_id r = fst e" by blast
  qed
  show "file_table (fs_files s) = map_of (fs_memory s)"
    by (rule ext) (simp add: file_table_def f split: option.split)
qed

lemma store_open_ok:
  assumes ok: "store_ok s" and o: "store_open a now (fs_files s) = (s', Ok ())"
  shows "store_ok s'" "map_of (fs_memory s') i = (case map_of (fs_memory s) i of None \<Rightarrow> None | Some r \<Rightarrow> if response_expired r now then None else Some r)"
proof -
  let ?e = "\<lparr>fs_files = fs_files s, fs_memory = []\<rparr>"
  have "recover_loop a now (fs_files s) ?e = (s', Ok ())" using o by (simp add: store_open_def)
  note r = recover_loop_Ok[OF this store_ok_files(1)[OF ok]]
  have hm: "hm_ok (fs_files s)" using ok by (simp add: store_ok_def)
  have m: "map_of (fs_memory s') i = (case map_of (fs_memory s) i of None \<Rightarrow> None | Some r \<Rightarrow> if response_expired r now then None else Some r)" for i
    using r hm by (simp add: store_ok_files(2)[OF ok] split: option.split)
  show "store_ok s'"
  proof (rule store_okI)
    show "hm_ok (fs_files s')" "hm_ok (fs_memory s')" using r hm by simp_all
    show "map_of (fs_files s') i = map_option ResourceFile (map_of (fs_memory s') i)" for i
      using r hm ok by (simp add: m store_ok_files(2)[OF ok] store_ok_def split: option.split)
    show "lineage_ok (map_of (fs_memory s'))"
      by (rule lineage_ok_sub[of "map_of (fs_memory s)"]) (use ok in \<open>auto simp: store_ok_def m split: option.splits if_splits\<close>)
  qed
  show "map_of (fs_memory s') i = (case map_of (fs_memory s) i of None \<Rightarrow> None | Some r \<Rightarrow> if response_expired r now then None else Some r)"
    by (rule m)
qed

lemma crash_ok:
  assumes ok: "store_ok s" and fresh: "fresh_id (rr_id r) s" and p: "prune_expired a now s = (s1, Ok ())" and may: "may_enter r s1"
    and o: "store_open b later (fs_files (fst (write_resource a r s1))) = (s', Ok ())"
  shows "store_ok s'"
proof -
  from prune_expired_ok[OF ok, of a now] p have 1: "store_ok s1" "sub_store s1 s" by simp_all
  have e: "store_ok (entered r s1)" by (rule entered_ok[OF 1(1) fresh_id_sub[OF ok 1 fresh] may])
  have "fs_files (fst (write_resource a r s1)) \<in> {fs_files s1, fs_files (entered r s1)}"
    by (cases "fa_write a") (simp_all add: write_resource_def entered_def Let_def)
  with o store_open_ok(1)[OF e] store_open_ok(1)[OF 1(1)] show ?thesis by auto
qed

lemma store_step_ok: "store_step True s s' \<Longrightarrow> store_ok s \<Longrightarrow> store_ok s'"
proof (induction rule: store_step.induct)
  case (step_put a r s now)
  then show ?case by (simp add: store_put_ok)
next
  case (step_put_successor a r s base expected now)
  then show ?case by (simp add: store_put_successor_ok)
next
  case (step_delete a s i)
  then show ?case by (simp add: store_delete_ok)
next
  case (step_restart a now s s')
  show ?case by (rule store_open_ok(1)[OF step_restart(2,1)])
next
  case (step_crash_put a r s now s1 b later s')
  have "may_enter r s1" using step_crash_put(3) by (simp add: may_enter_def)
  from crash_ok[OF step_crash_put.prems step_crash_put(2,4) this step_crash_put(5)] show ?case .
next
  case (step_crash_successor a r s base expected now s1 b later s')
  from crash_ok[OF step_crash_successor.prems step_crash_successor(2,5) check_successor_may[OF step_crash_successor(6,3,4)] step_crash_successor(7)]
  show ?case .
qed

lemma store_init_ok: "store_init s \<Longrightarrow> store_ok s"
  by (simp add: store_init_def store_ok_def lineage_ok_def)

interpretation store_safe: safe_machine store_init "store_step True" store_ok
  by unfold_locales (fact store_init_ok, fact store_step_ok)

lemma store_reach_ok: "store_reach True s \<Longrightarrow> store_ok s"
  unfolding store_reach_def by (rule store_safe.reach_inv)

lemma recover_loop_total:
  "(\<And>i r. (i, ResourceFile r) \<in> set es \<Longrightarrow> response_expired r now \<Longrightarrow> fa_remove a i = None) \<Longrightarrow> good_files es \<Longrightarrow> (\<And>i f. (i, f) \<in> set es \<Longrightarrow> hm_has (fs_files s) i) \<Longrightarrow>
   \<exists>s'. recover_loop a now es s = (s', Ok ())"
proof (induction a now es s rule: recover_loop.induct)
  case (2 a now name e entries s)
  then show ?case by (simp add: good_files_def)
next
  case (3 a now name r entries s)
  have name: "\<not> name \<noteq> rr_id r" and good: "good_files entries" using 3(4) by (auto simp: good_files_def hm_ok_def)
  have other: "i \<noteq> name" if "(i, f) \<in> set entries" for i f using 3(4) that by (force simp: good_files_def hm_ok_def)
  show ?case
  proof (cases "response_expired r now")
    case True
    let ?s1 = "s\<lparr>fs_files := hm_del name (fs_files s)\<rparr>"
    have rm: "remove_file a name s = (?s1, Ok ())" using 3(3)[of name r] True 3(5)[of name "ResourceFile r"] by (simp add: remove_file_def)
    have "hm_has (fs_files ?s1) i" if "(i, f) \<in> set entries" for i f
      using 3(5)[of i f] other[OF that] that by (simp add: hm_has_def)
    moreover have "\<And>i r. (i, ResourceFile r) \<in> set entries \<Longrightarrow> response_expired r now \<Longrightarrow> fa_remove a i = None"
      using 3(3) by auto
    ultimately show ?thesis using 3(1)[OF name True _ good, of ?s1] name True rm by simp
  next
    case False
    have "hm_has (fs_files (s\<lparr>fs_memory := hm_put (rr_id r) r (fs_memory s)\<rparr>)) i" if "(i, f) \<in> set entries" for i f
      using 3(5)[of i f] that by simp
    moreover have "\<And>i r. (i, ResourceFile r) \<in> set entries \<Longrightarrow> response_expired r now \<Longrightarrow> fa_remove a i = None"
      using 3(3) by auto
    ultimately show ?thesis using 3(2)[OF name False _ good] name False by simp
  qed
qed simp

section \<open>Examples\<close>

definition quiet_files :: FileAnswers where
  "quiet_files = \<lparr>fa_remove = (\<lambda>i. None), fa_sync = None, fa_write = WriteDone\<rparr>"

definition store_one :: "unit FileStore" where
  "store_one = fst (store_put quiet_files 0 (turn_resource ''r1'' None 0 [InputMessage ''user'' ''hi''] ''hello'') \<lparr>fs_files = [], fs_memory = []\<rparr>)"

definition store_two :: "unit FileStore" where
  "store_two = fst (store_put_successor quiet_files 0 ''r1'' 0 (turn_resource ''r2'' (Some ''r1'') 1 [InputMessage ''user'' ''more''] ''ok'') store_one)"

text \<open>A deletion whose directory is not synchronised.\<close>

definition lost_store :: "unit FileStore" where
  "lost_store = fst (store_delete (quiet_files\<lparr>fa_sync := Some ''EIO''\<rparr>) ''r1'' store_one)"

lemma turn_resource_ids [simp]: "rr_id (turn_resource i previous n input answer) = i" "rr_previous (turn_resource i previous n input answer) = previous"
  "rr_created_at (turn_resource i previous n input answer) = 0"
  by (simp_all add: turn_resource_def)

lemma quiet_ok: "answers_ok synced quiet_files"
  by (simp add: answers_ok_def quiet_files_def)

lemma store_one_eq: "store_one = \<lparr>fs_files = [(''r1'', ResourceFile (turn_resource ''r1'' None 0 [InputMessage ''user'' ''hi''] ''hello''))],
    fs_memory = [(''r1'', turn_resource ''r1'' None 0 [InputMessage ''user'' ''hi''] ''hello'')]\<rparr>"
  by (simp add: store_one_def store_put_def prune_expired_def write_resource_def quiet_files_def remember_file_def)

lemma store_one_reach: "store_reach synced store_one"
  unfolding store_reach_def store_one_def
  by (rule reach_step, rule reach_init, simp add: store_init_def, rule step_put[OF quiet_ok])
    (simp_all add: fresh_id_def hm_has_def has_successor_def)

lemma store_two_reach: "store_reach synced store_two"
  unfolding store_reach_def store_two_def
  by (rule reach_step, rule store_one_reach[unfolded store_reach_def], rule step_put_successor[OF quiet_ok])
    (simp_all add: fresh_id_def hm_has_def has_successor_def store_one_eq)

lemma store_two_get: "store_get ''r2'' store_two = Ok (turn_resource ''r2'' (Some ''r1'') 1 [InputMessage ''user'' ''more''] ''ok'')"
  "store_get ''r1'' store_two = Ok (turn_resource ''r1'' None 0 [InputMessage ''user'' ''hi''] ''hello'')"
  by (simp_all add: store_two_def store_put_successor_def prune_expired_def store_one_eq response_expired_def
      check_successor_def has_successor_def write_resource_def quiet_files_def remember_file_def store_get_def ok_or_def RESPONSE_RETENTION_SECONDS_def)

lemma lost_store_eq: "lost_store = \<lparr>fs_files = [], fs_memory = [(''r1'', turn_resource ''r1'' None 0 [InputMessage ''user'' ''hi''] ''hello'')]\<rparr>"
  by (simp add: lost_store_def store_delete_def store_one_eq hm_has_def has_successor_def remove_file_def quiet_files_def hm_del_def sync_directory_def)

section \<open>Properties\<close>

text \<open>C32: Lineages are linear in every reachable store whose directories are synchronised, through failed writes and removals, crashes and restarts: a resource is kept under its own id, at most one resource follows another, and it has the next revision of the one it follows, as long as that is kept.\<close>

theorem store_lineages_linear:
  assumes "store_reach True s" "store_get i s = Ok r" "rr_previous r = Some b"
  shows "rr_id r = i \<and> (\<forall>j r'. store_get j s = Ok r' \<and> rr_previous r' = Some b \<longrightarrow> j = i)
    \<and> (case store_get b s of Ok rb \<Rightarrow> rr_revision r = rr_revision rb + 1 | _ \<Rightarrow> True)"
proof -
  from store_reach_ok[OF assms(1)] have l: "lineage_ok (map_of (fs_memory s))" by (simp add: store_ok_def)
  have g: "store_get j s = Ok x \<longleftrightarrow> map_of (fs_memory s) j = Some x" for j x
    by (simp add: store_get_def ok_or_def split: option.split)
  from l assms(2,3) have "rr_id r = i" "\<forall>j r'. store_get j s = Ok r' \<and> rr_previous r' = Some b \<longrightarrow> j = i"
    unfolding g lineage_ok_def by blast+
  moreover have "rr_revision r = rr_revision rb + 1" if "store_get b s = Ok rb" for rb
    using l assms(2,3) that unfolding g lineage_ok_def by blast
  ultimately show ?thesis by (simp split: outcome.split)
qed

lemma store_lineages_linear_witness:
  "store_get ''r2'' store_two = Ok (turn_resource ''r2'' (Some ''r1'') 1 [InputMessage ''user'' ''more''] ''ok'')
    \<and> \<not> (\<exists>j r'. store_get j store_two = Ok r' \<and> rr_previous r' = Some ''r1'' \<and> j \<noteq> ''r2'')"
  using store_lineages_linear[OF store_two_reach store_two_get(1), of "''r1''"] store_two_get(1) by auto

text \<open>C33: Recovery is a round trip, provided that every synchronisation of the directory succeeded. Opening the files of a
  store that is reached by such operations succeeds when the files of its expired resources can be removed, and finds
  under every id exactly the resource that was there, but for the expired ones. (Without the proviso it fails:
  \<open>failed_delete_blocks_store\<close> below is about a store that a failed synchronisation leaves.)\<close>

theorem store_recovers:
  assumes "store_reach True s" and "\<And>i r. store_get i s = Ok r \<Longrightarrow> response_expired r now \<Longrightarrow> fa_remove a i = None"
  shows "\<exists>s'. store_open a now (fs_files s) = (s', Ok ()) \<and> (\<forall>i. store_get i s' = (case store_get i s of
      Ok r \<Rightarrow> if response_expired r now then Err (RsNotFound i) else Ok r | e \<Rightarrow> e))"
proof -
  from assms(1) have ok: "store_ok s" by (rule store_reach_ok)
  have "hm_ok (fs_files s)" using ok by (simp add: store_ok_def)
  moreover have "fa_remove a i = None" if "(i, ResourceFile r) \<in> set (fs_files s)" "response_expired r now" for i r
  proof -
    have "map_of (fs_memory s) i = Some r"
      using that(1) ok by (auto simp: store_ok_def hm_get_in_iff[symmetric])
    then show ?thesis using assms(2)[of i r] that(2) by (simp add: store_get_def ok_or_def)
  qed
  ultimately have "\<exists>s'. recover_loop a now (fs_files s) \<lparr>fs_files = fs_files s, fs_memory = []\<rparr> = (s', Ok ())"
    using store_ok_files(1)[OF ok] by (intro recover_loop_total) (auto simp: hm_has_def hm_get_in_iff)
  then obtain s' where o: "store_open a now (fs_files s) = (s', Ok ())" by (auto simp: store_open_def)
  from store_open_ok(2)[OF ok o] have "store_get i s' = (case store_get i s of
      Ok r \<Rightarrow> if response_expired r now then Err (RsNotFound i) else Ok r | e \<Rightarrow> e)" for i
    by (simp add: store_get_def ok_or_def split: option.split)
  with o show ?thesis by blast
qed

lemma store_recovers_witness:
  "\<exists>s'. store_open quiet_files 5 (fs_files store_two) = (s', Ok ())
    \<and> store_get ''r2'' s' = Ok (turn_resource ''r2'' (Some ''r1'') 1 [InputMessage ''user'' ''more''] ''ok'')"
proof -
  have q: "fa_remove quiet_files i = None" for i by (simp add: quiet_files_def)
  from store_recovers[OF store_two_reach, where a = quiet_files and now = 5, OF q] obtain s' where o: "store_open quiet_files 5 (fs_files store_two) = (s', Ok ())"
    and g: "\<And>i. store_get i s' = (case store_get i store_two of
      Ok r \<Rightarrow> if response_expired r 5 then Err (RsNotFound i) else Ok r | e \<Rightarrow> e)" by blast
  have "store_get ''r2'' s' = Ok (turn_resource ''r2'' (Some ''r1'') 1 [InputMessage ''user'' ''more''] ''ok'')"
    unfolding g store_two_get(1) by (simp add: response_expired_def RESPONSE_RETENTION_SECONDS_def)
  with o show ?thesis by blast
qed

text \<open>C34: A deletion that fails after the file is gone blocks the store: the resource stays in memory, and once it has expired every write fails, because its file cannot be removed again.\<close>

theorem failed_delete_blocks_store:
  "store_reach False lost_store
    \<and> (\<forall>a now r. snd (store_put a (now + RESPONSE_RETENTION_SECONDS) r lost_store) = Err (RsIo ''No such file or directory''))"
proof (intro conjI allI)
  show "store_reach False lost_store"
    unfolding store_reach_def lost_store_def
    by (rule reach_step, rule store_one_reach[unfolded store_reach_def], rule step_delete) (simp add: answers_ok_def)
  fix a now and r :: "unit ResponseResource"
  show "snd (store_put a (now + RESPONSE_RETENTION_SECONDS) r lost_store) = Err (RsIo ''No such file or directory'')"
    by (simp add: lost_store_eq store_put_def prune_expired_def response_expired_def remove_file_def hm_has_def Let_def)
qed

section \<open>Context updates\<close>

lemma store_get_iff: "store_get j s = Ok x \<longleftrightarrow> map_of (fs_memory s) j = Some x"
  by (simp add: store_get_def ok_or_def split: option.split)

lemma check_successor_Ok:
  "check_successor base expected s = Ok u \<longleftrightarrow> (\<exists>b. map_of (fs_memory s) base = Some b \<and> rr_revision b = expected) \<and> \<not> has_successor base (fs_memory s)"
  by (auto simp: check_successor_def split: option.splits if_splits)

text \<open>A successor enters, or nothing does.\<close>

lemma put_successor_effect:
  assumes ok: "store_ok s"
  shows "case snd (store_put_successor a now base expected r s) of
      Ok _ \<Rightarrow> \<exists>s1 b. sub_store s1 s \<and> map_of (fs_memory s1) base = Some b \<and> rr_revision b = expected \<and> hm_ok (fs_memory s1)
        \<and> \<not> has_successor base (fs_memory s1) \<and> fs_memory (fst (store_put_successor a now base expected r s)) = hm_put (rr_id r) r (fs_memory s1)
        \<and> map_of (fs_files (fst (store_put_successor a now base expected r s))) (rr_id r) = Some (ResourceFile r)
    | Err _ \<Rightarrow> sub_store (fst (store_put_successor a now base expected r s)) s
        \<and> (\<forall>i f. map_of (fs_files (fst (store_put_successor a now base expected r s))) i = Some f \<and> map_of (fs_files s) i \<noteq> Some f \<longrightarrow>
            (\<exists>m. fa_write a = WriteUnsynced m) \<and> i = rr_id r \<and> f = ResourceFile r)
    | Abort \<Rightarrow> False"
proof -
  obtain s1 x where p: "prune_expired a now s = (s1, x)" by (cases "prune_expired a now s")
  with prune_expired_ok[OF ok, of a now] have 1: "store_ok s1" "sub_store s1 s" "x \<noteq> Abort" by simp_all
  have files: "map_of (fs_files s) i = Some f" if "map_of (fs_files s1) i = Some f" for i f
    using 1(1,2) ok that by (auto simp: store_ok_def sub_store_def)
  show ?thesis
  proof (cases x)
    case (Ok u)
    show ?thesis
    proof (cases "check_successor base expected s1")
      case c: (Ok v)
      have hm: "hm_ok (fs_memory s1)" using 1(1) by (simp add: store_ok_def)
      show ?thesis
      proof (cases "fa_write a")
        case WriteDone
        with c[unfolded check_successor_Ok] 1 hm show ?thesis
          by (auto simp: store_put_successor_def p Ok c write_resource_def Let_def remember_file_def)
      next
        case (WriteFailed m)
        with 1 files show ?thesis by (simp add: store_put_successor_def p Ok c write_resource_def Let_def)
      next
        case (WriteUnsynced m)
        with 1 files show ?thesis
          by (auto simp: store_put_successor_def p Ok c write_resource_def Let_def sub_store_def split: if_splits)
      qed
    qed (use 1 files in \<open>auto simp: store_put_successor_def p Ok and_then_def check_successor_def split: option.splits if_splits\<close>)
  qed (use 1 files in \<open>auto simp: store_put_successor_def p and_then_def\<close>)
qed

definition update_allowed :: "string \<Rightarrow> ContextUpdateRequest \<Rightarrow> 'j ResponseService \<Rightarrow> bool" where
  "update_allowed owner q sv \<longleftrightarrow> (\<exists>b. service_retrieve (ur_base_response_id q) owner sv = Ok b \<and> rr_store b)"

lemma context_update_cases:
  "(\<exists>e. context_update_apply u owner corr q sv = (sv, Err e)) \<or> context_update_apply u owner corr q sv = (sv, Abort)
   \<or> (update_allowed owner q sv \<and> (\<exists>b operation. context_update_apply u owner corr q sv =
      (case commit_successor (ua_files u) (ua_now u) (ur_base_response_id q) (ur_expected_revision q) (fold_resource u owner corr operation q b) sv of
        (service, r) \<Rightarrow> (service, case r of
          Ok _ \<Rightarrow> Ok \<lparr>ux_operation_id = operation, ux_correlation_id = corr, ux_base_response_id = ur_base_response_id q,
            ux_base_revision = ur_expected_revision q, ux_revision = saturating_add (ur_expected_revision q) 1,
            ux_response = fold_resource u owner corr operation q b\<rparr>
        | Err e \<Rightarrow> Err (response_store_error e) | Abort \<Rightarrow> Abort))))"
proof -
  let ?op = "case ur_operation_id q of Some given \<Rightarrow> given | None \<Rightarrow> ''ctxupd_'' @ ua_operation_uuid u"
  show ?thesis
  proof (cases "ur_base_response_id q = [] \<or> ur_fold_items q = [] \<or> list_ex (\<lambda>i. \<not> is_message i) (ur_fold_items q)")
    case True
    then show ?thesis by (auto simp: context_update_apply_def)
  next
    case False
    show ?thesis
    proof (cases "service_retrieve (ur_base_response_id q) owner sv")
      case (Ok b)
      show ?thesis
      proof (cases "rr_store b \<and> ua_first_check u = Ok () \<and> ?op \<noteq> [] \<and> ua_second_check u = Ok ()")
        case True
        with False Ok show ?thesis by (intro disjI2) (auto simp: context_update_apply_def lineage_retrieve_def update_allowed_def Let_def)
      next
        case no: False
        show ?thesis
          by (cases "ua_first_check u"; cases "ua_second_check u")
            (use False Ok no in \<open>auto simp: context_update_apply_def lineage_retrieve_def Let_def and_then_def\<close>)
      qed
    qed (use False in \<open>simp_all add: context_update_apply_def lineage_retrieve_def and_then_def\<close>)
  qed
qed

lemma fold_resource_simps [simp]:
  "rr_previous (fold_resource u owner corr operation q b) = Some (ur_base_response_id q)"
  "rr_revision (fold_resource u owner corr operation q b) = saturating_add (ur_expected_revision q) 1"
  "rr_owner (fold_resource u owner corr operation q b) = owner" "rr_input (fold_resource u owner corr operation q b) = ur_fold_items q"
  by (simp_all add: fold_resource_def)

text \<open>C35: A context update commits at most once. When it succeeds, its response is kept in memory and in its file, follows
  the base that was retrieved, whose revision was the expected one, and is its only successor. When it fails, no resource
  enters the memory of the store, and no file is written but in one case: where the write fails after the file is in
  place (its directory is not synchronised), the file of the successor stays, so that a restart would publish a response
  whose update was answered with an error.\<close>

theorem context_update_commits_once:
  fixes sv :: "'j ResponseService"
  assumes "store_ok (rv_store sv)"
  shows "case snd (context_update_apply u owner corr q sv) of
      Ok res \<Rightarrow> update_allowed owner q sv \<and> (let R = ux_response res; st = rv_store (fst (context_update_apply u owner corr q sv)) in
        store_get (rr_id R) st = Ok R \<and> map_of (fs_files st) (rr_id R) = Some (ResourceFile R) \<and> rr_owner R = owner \<and> rr_input R = ur_fold_items q
        \<and> rr_previous R = Some (ur_base_response_id q) \<and> rr_revision R = ux_revision res
        \<and> ux_revision res = saturating_add (ur_expected_revision q) 1
        \<and> (\<exists>b. store_get (ur_base_response_id q) (rv_store sv) = Ok b \<and> rr_revision b = ur_expected_revision q)
        \<and> (\<forall>j r. store_get j st = Ok r \<and> rr_previous r = Some (ur_base_response_id q) \<longrightarrow> j = rr_id R))
    | _ \<Rightarrow> (let st = rv_store (fst (context_update_apply u owner corr q sv)) in sub_store st (rv_store sv)
        \<and> (\<forall>i f. map_of (fs_files st) i = Some f \<and> map_of (fs_files (rv_store sv)) i \<noteq> Some f \<longrightarrow>
            (\<exists>m. fa_write (ua_files u) = WriteUnsynced m) \<and> (\<exists>R. f = ResourceFile R \<and> rr_id R = i \<and> rr_owner R = owner
              \<and> rr_input R = ur_fold_items q \<and> rr_previous R = Some (ur_base_response_id q)
              \<and> rr_revision R = saturating_add (ur_expected_revision q) 1)))"
  using context_update_cases[of u owner corr q sv]
proof (elim disjE exE conjE)
  fix b :: "'j ResponseResource" and operation
  let ?R = "fold_resource u owner corr operation q b" and ?base = "ur_base_response_id q"
  let ?put = "store_put_successor (ua_files u) (ua_now u) ?base (ur_expected_revision q) ?R (rv_store sv)"
  assume allowed: "update_allowed owner q sv" and eq: "context_update_apply u owner corr q sv =
      (case commit_successor (ua_files u) (ua_now u) ?base (ur_expected_revision q) ?R sv of
        (service, r) \<Rightarrow> (service, case r of
          Ok _ \<Rightarrow> Ok \<lparr>ux_operation_id = operation, ux_correlation_id = corr, ux_base_response_id = ?base,
            ux_base_revision = ur_expected_revision q, ux_revision = saturating_add (ur_expected_revision q) 1, ux_response = ?R\<rparr>
        | Err e \<Rightarrow> Err (response_store_error e) | Abort \<Rightarrow> Abort))"
  note put = put_successor_effect[OF assms, where a = "ua_files u" and now = "ua_now u" and base = ?base and expected = "ur_expected_revision q" and r = ?R]
  show ?thesis
  proof (cases "snd ?put")
    case (Ok v)
    with put obtain s1 x where s1: "sub_store s1 (rv_store sv)" "map_of (fs_memory s1) ?base = Some x" "rr_revision x = ur_expected_revision q"
      "hm_ok (fs_memory s1)" "\<not> has_successor ?base (fs_memory s1)" "fs_memory (fst ?put) = hm_put (rr_id ?R) ?R (fs_memory s1)" by auto
    let ?res = "\<lparr>ux_operation_id = operation, ux_correlation_id = corr, ux_base_response_id = ?base,
            ux_base_revision = ur_expected_revision q, ux_revision = saturating_add (ur_expected_revision q) 1, ux_response = ?R\<rparr>"
    have e1: "context_update_apply u owner corr q sv = (sv\<lparr>rv_store := fst ?put\<rparr>, Ok ?res)"
      by (simp add: eq commit_successor_def in_store_def Ok)
    have base: "\<exists>b. store_get ?base (rv_store sv) = Ok b \<and> rr_revision b = ur_expected_revision q"
      using s1(1-3) by (auto simp: sub_store_def store_get_iff)
    have only: "\<forall>j r. store_get j (fst ?put) = Ok r \<and> rr_previous r = Some ?base \<longrightarrow> j = rr_id ?R"
    proof (intro allI impI, elim conjE)
      fix j r assume "store_get j (fst ?put) = Ok r" "rr_previous r = Some ?base"
      then show "j = rr_id ?R" using s1(5,6) has_successor_iff[OF s1(4), of ?base] by (cases "j = rr_id ?R") (auto simp: store_get_iff)
    qed
    have "store_get (rr_id ?R) (fst ?put) = Ok ?R" using s1(6) by (simp add: store_get_iff)
    moreover have "map_of (fs_files (fst ?put)) (rr_id ?R) = Some (ResourceFile ?R)" using put Ok by auto
    ultimately show ?thesis using allowed base only unfolding e1 by (simp add: Let_def)
  next
    case (Err e)
    with put have sub: "sub_store (fst ?put) (rv_store sv)" and
      kept: "\<forall>i f. map_of (fs_files (fst ?put)) i = Some f \<and> map_of (fs_files (rv_store sv)) i \<noteq> Some f \<longrightarrow>
            (\<exists>m. fa_write (ua_files u) = WriteUnsynced m) \<and> i = rr_id ?R \<and> f = ResourceFile ?R" by simp_all
    have e1: "rv_store (fst (context_update_apply u owner corr q sv)) = fst ?put"
      "snd (context_update_apply u owner corr q sv) = Err (response_store_error e)"
      by (simp_all add: eq commit_successor_def in_store_def Err)
    have "\<exists>R. f = ResourceFile R \<and> rr_id R = i \<and> rr_owner R = owner \<and> rr_input R = ur_fold_items q
        \<and> rr_previous R = Some ?base \<and> rr_revision R = saturating_add (ur_expected_revision q) 1"
      if "i = rr_id ?R" "f = ResourceFile ?R" for i f
      using that by (intro exI[of _ ?R]) (simp del: One_nat_def)
    note is_fold = this
    show ?thesis
      unfolding e1 outcome.case Let_def
    proof (intro conjI allI impI sub)
      fix i f assume "map_of (fs_files (fst ?put)) i = Some f \<and> map_of (fs_files (rv_store sv)) i \<noteq> Some f"
      with kept have k: "\<exists>m. fa_write (ua_files u) = WriteUnsynced m" "i = rr_id ?R" "f = ResourceFile ?R" by blast+
      show "\<exists>m. fa_write (ua_files u) = WriteUnsynced m" by (rule k(1))
      show "\<exists>R. f = ResourceFile R \<and> rr_id R = i \<and> rr_owner R = owner \<and> rr_input R = ur_fold_items q
        \<and> rr_previous R = Some ?base \<and> rr_revision R = saturating_add (ur_expected_revision q) 1"
        by (rule is_fold[OF k(2,3)])
    qed
  next
    case Abort
    with put show ?thesis by simp
  qed
qed auto

definition fold_request :: ContextUpdateRequest where
  "fold_request = \<lparr>ur_base_response_id = ''r2'', ur_expected_revision = 1, ur_operation_id = Some ''op'',
     ur_fold_items = [InputMessage ''user'' ''short'']\<rparr>"

definition fold_answers :: UpdateAnswers where
  "fold_answers = \<lparr>ua_operation_uuid = ''o'', ua_response_uuid = ''3'', ua_message_uuids = (\<lambda>n. ''m''), ua_created_at = 0, ua_now = 0,
     ua_first_check = Ok (), ua_second_check = Ok (), ua_files = quiet_files\<rparr>"

definition fold_service :: "unit ResponseService" where
  "fold_service = \<lparr>rv_store = store_two, rv_transient = [], rv_order = []\<rparr>"

lemma context_update_commits_once_witness:
  "\<exists>res. snd (context_update_apply fold_answers ''u'' ''c'' fold_request fold_service) = Ok res \<and> ux_revision res = 2
    \<and> store_get (rr_id (ux_response res)) (rv_store (fst (context_update_apply fold_answers ''u'' ''c'' fold_request fold_service))) = Ok (ux_response res)"
proof -
  have ok: "store_ok (rv_store fold_service)"
    using store_reach_ok[OF store_two_reach] by (simp add: fold_service_def)
  have "\<exists>res. snd (context_update_apply fold_answers ''u'' ''c'' fold_request fold_service) = Ok res"
    using store_two_get(1) by (simp add: context_update_apply_def fold_request_def fold_answers_def is_message_def lineage_retrieve_def
      service_retrieve_def fold_service_def turn_resource_def commit_successor_def in_store_def store_put_successor_def
      store_two_def store_one_eq prune_expired_def response_expired_def RESPONSE_RETENTION_SECONDS_def check_successor_def has_successor_def
      write_resource_def quiet_files_def remember_file_def Let_def)
  then obtain res where r: "snd (context_update_apply fold_answers ''u'' ''c'' fold_request fold_service) = Ok res" by blast
  with context_update_commits_once[OF ok, where u = fold_answers and owner = "''u''" and corr = "''c''" and q = fold_request] have "ux_revision res = saturating_add 1 1"
    "store_get (rr_id (ux_response res)) (rv_store (fst (context_update_apply fold_answers ''u'' ''c'' fold_request fold_service))) = Ok (ux_response res)"
    by (simp_all add: Let_def fold_request_def)
  with r show ?thesis by (simp add: saturating_add_def u64_max_def)
qed

section \<open>The service\<close>

text \<open>The tables hold every resource under its id, and the transient ones are few and listed once.\<close>

definition ids_ok :: "(string, 'j ResponseResource) hm \<Rightarrow> bool" where
  "ids_ok m \<longleftrightarrow> hm_ok m \<and> (\<forall>i r. map_of m i = Some r \<longrightarrow> rr_id r = i)"

definition service_ok :: "'j ResponseService \<Rightarrow> bool" where
  "service_ok s \<longleftrightarrow> ids_ok (fs_memory (rv_store s)) \<and> ids_ok (rv_transient s) \<and> distinct (rv_order s)
     \<and> set (rv_order s) = fst ` set (rv_transient s) \<and> length (rv_transient s) \<le> TRANSIENT_RESPONSE_CAPACITY"

lemma ids_ok_put: "ids_ok m \<Longrightarrow> ids_ok (hm_put (rr_id r) r m)"
  by (auto simp: ids_ok_def)

lemma ids_ok_del: "ids_ok m \<Longrightarrow> ids_ok (hm_del i m)"
  by (auto simp: ids_ok_def)

lemma remove_file_memory: "fs_memory (fst (remove_file a i s)) = fs_memory s"
  by (simp add: remove_file_def split: option.split)

lemma prune_loop_ids: "ids_ok (fs_memory s) \<Longrightarrow> ids_ok (fs_memory (fst (prune_loop a is s)))"
proof (induction "is" arbitrary: s)
  case (Cons i "is")
  have m: "fs_memory (fst (remove_file a i s)) = fs_memory s" by (rule remove_file_memory)
  show ?case
    by (cases "snd (remove_file a i s)") (simp_all add: and_then_def m Cons ids_ok_del)
qed simp

lemma prune_expired_ids: "ids_ok (fs_memory s) \<Longrightarrow> ids_ok (fs_memory (fst (prune_expired a now s)))"
  by (simp add: prune_expired_def Let_def and_then_def sync_directory_def prune_loop_ids split: outcome.split option.split)

lemma write_remember_ids:
  "ids_ok (fs_memory s) \<Longrightarrow> ids_ok (fs_memory (fst (and_then (write_resource a r s) (\<lambda>_ s. (remember_file r s, Ok ())))))"
  by (cases "fa_write a") (simp_all add: write_resource_def Let_def remember_file_def ids_ok_put)

lemma store_put_ids: "ids_ok (fs_memory s) \<Longrightarrow> ids_ok (fs_memory (fst (store_put a now r s)))"
proof -
  assume m: "ids_ok (fs_memory s)"
  note p = prune_expired_ids[OF m, of a now]
  show ?thesis unfolding store_put_def
    by (cases "snd (prune_expired a now s)"; subst and_then_def) (simp_all add: p write_remember_ids)
qed

lemma store_put_successor_ids: "ids_ok (fs_memory s) \<Longrightarrow> ids_ok (fs_memory (fst (store_put_successor a now base expected r s)))"
proof -
  assume m: "ids_ok (fs_memory s)"
  note p = prune_expired_ids[OF m, of a now]
  let ?s = "fst (prune_expired a now s)"
  have "ids_ok (fs_memory (fst (and_then (?s, check_successor base expected ?s) (\<lambda>_ s. and_then (write_resource a r s) (\<lambda>_ s. (remember_file r s, Ok ()))))))"
    by (cases "check_successor base expected ?s"; subst and_then_def) (simp_all add: p write_remember_ids)
  then show ?thesis unfolding store_put_successor_def
    by (cases "snd (prune_expired a now s)"; subst and_then_def) (simp_all add: p)
qed

lemma store_delete_ids: "ids_ok (fs_memory s) \<Longrightarrow> ids_ok (fs_memory (fst (store_delete a i s)))"
proof -
  assume m: "ids_ok (fs_memory s)"
  have "fs_memory (fst (remove_file a i s)) = fs_memory s" by (rule remove_file_memory)
  with m show ?thesis
    by (cases "snd (remove_file a i s)"; cases "fa_sync a")
      (simp_all add: store_delete_def and_then_def sync_directory_def ids_ok_del)
qed

lemma evict_transient_ok:
  "ids_ok m \<Longrightarrow> distinct is \<Longrightarrow> set is = fst ` set m \<Longrightarrow> evict_transient is m = (m', is') \<Longrightarrow>
   ids_ok m' \<and> distinct is' \<and> set is' = fst ` set m' \<and> length m' \<le> TRANSIENT_RESPONSE_CAPACITY"
proof (induction "is" m rule: evict_transient.induct)
  case (1 m)
  then show ?case by simp
next
  case (2 i "is" m)
  show ?case
  proof (cases "length m \<le> TRANSIENT_RESPONSE_CAPACITY")
    case True
    with 2(5) have "m' = m" "is' = i # is" by simp_all
    with 2(2-4) True show ?thesis by (simp only: simp_thms)
  next
    case False
    have "set is = fst ` set (hm_del i m)" using 2(3,4) by (auto simp: hm_keys_del)
    with False 2 show ?thesis by (simp add: ids_ok_del)
  qed
qed

text \<open>C36: The operations of the service keep its tables well-formed, whatever the file system answers: every resource is kept under its own id, at most 1024 transient ones, each listed once for eviction; and a retrieval gives a resource with the id and the owner it was asked for.\<close>

theorem service_wellformed:
  assumes "service_ok s"
  shows "service_ok (fst (service_remember a now r s)) \<and> service_ok (fst (commit_successor a now base expected r s))
    \<and> service_ok (fst (service_delete a i owner s))
    \<and> (case service_retrieve i owner s of Ok x \<Rightarrow> rr_id x = i \<and> rr_owner x = owner | _ \<Rightarrow> True)"
proof (intro conjI)
  from assms have m: "ids_ok (fs_memory (rv_store s))" and t: "ids_ok (rv_transient s)" and o: "distinct (rv_order s)"
    "set (rv_order s) = fst ` set (rv_transient s)" by (simp_all add: service_ok_def)
  show "service_ok (fst (commit_successor a now base expected r s))"
    using assms store_put_successor_ids[OF m] by (simp add: commit_successor_def in_store_def service_ok_def)
  show "service_ok (fst (service_remember a now r s))"
  proof (cases "rr_store r")
    case True
    then show ?thesis using assms store_put_ids[OF m] store_put_successor_ids[OF m]
      by (simp add: service_remember_def in_store_def service_ok_def split: option.split)
  next
    case False
    let ?order = "if hm_has (rv_transient s) (rr_id r) then rv_order s else rv_order s @ [rr_id r]"
    let ?m = "hm_put (rr_id r) r (rv_transient s)"
    have h: "hm_has (rv_transient s) (rr_id r) \<longleftrightarrow> rr_id r \<in> fst ` set (rv_transient s)"
      by (auto simp: hm_has_def map_of_eq_None_iff simp del: not_None_eq)
    obtain m' is' where e: "evict_transient ?order ?m = (m', is')" by (cases "evict_transient ?order ?m")
    have "distinct ?order" "set ?order = fst ` set ?m" using o h by (auto simp: hm_keys_put)
    from evict_transient_ok[OF ids_ok_put[OF t] this e] False e m show ?thesis
      by (simp add: service_remember_def service_ok_def Let_def)
  qed
  show "service_ok (fst (service_delete a i owner s))"
  proof (cases "service_retrieve i owner s")
    case (Ok x)
    have "length (hm_del i (rv_transient s)) \<le> length (rv_transient s)" by (simp add: hm_del_def)
    with assms Ok store_delete_ids[OF m] ids_ok_del[OF t, of i] show ?thesis
      by (auto simp: service_delete_def in_store_def service_ok_def hm_keys_del)
  qed (use assms in \<open>simp_all add: service_delete_def and_then_def\<close>)
  show "case service_retrieve i owner s of Ok x \<Rightarrow> rr_id x = i \<and> rr_owner x = owner | _ \<Rightarrow> True"
    using m t by (auto simp: service_retrieve_def ids_ok_def store_get_def ok_or_def split: outcome.split option.split)
qed

lemma service_wellformed_witness: "service_ok fold_service \<and> service_ok (fst (service_delete quiet_files ''r2'' ''u'' fold_service))"
proof -
  have "store_ok store_two" by (rule store_reach_ok[OF store_two_reach])
  then have "service_ok fold_service" by (simp add: service_ok_def fold_service_def store_ok_def ids_ok_def lineage_ok_def)
  with service_wellformed[OF this] show ?thesis by blast
qed

end
