(* ===== verification/Contexts.thy ===== *)
theory Contexts
  imports Compaction Admission
begin

text \<open>
  The contexts a client can name, and the declarations of compactions (both in
  \<open>crates/server/src/lib.rs\<close>, with the data of \<open>context_strategy.rs\<close>). A definition that takes the
  contexts, or the state of the declarations, is one critical section of the mutex they are under; fresh
  identifiers and the time are arguments.
\<close>

section \<open>Contexts\<close>

record ContextRecord =
  cx_id :: string
  cx_revision :: nat
  cx_tokens :: "string list"
  cx_native_tokens :: "int list"

type_synonym contexts = "(string, ContextRecord) hm"

definition put_context :: "ContextRecord \<Rightarrow> contexts \<Rightarrow> contexts" where
  "put_context r m = hm_put (cx_id r) r m"

definition new_context :: "string \<Rightarrow> string list \<Rightarrow> ContextRecord" where
  "new_context uuid tokens = \<lparr>cx_id = uuid, cx_revision = 0, cx_tokens = tokens, cx_native_tokens = []\<rparr>"

definition create_context :: "string \<Rightarrow> contexts \<Rightarrow> contexts \<times> (server_error, ContextRecord) outcome" where
  "create_context uuid m = (put_context (new_context uuid []) m, Ok (new_context uuid []))"

definition import_context :: "string \<Rightarrow> string list \<Rightarrow> contexts \<Rightarrow> contexts \<times> (server_error, ContextRecord) outcome" where
  "import_context uuid tokens m = (put_context (new_context uuid tokens) m, Ok (new_context uuid tokens))"

definition find_context :: "contexts \<Rightarrow> string \<Rightarrow> (server_error, ContextRecord) outcome" where
  "find_context m uuid = (case map_of m uuid of Some r \<Rightarrow> Ok r | None \<Rightarrow> Err ServerContextNotFound)"

definition list_contexts :: "contexts \<Rightarrow> ContextRecord list" where
  "list_contexts m = hm_values m"

text \<open>A branch reads its source in one critical section and is inserted in the next.\<close>

definition branch_record :: "string \<Rightarrow> ContextRecord \<Rightarrow> ContextRecord" where
  "branch_record uuid r = r\<lparr>cx_id := uuid, cx_revision := 0\<rparr>"

definition branch_context ::
  "string \<Rightarrow> string \<Rightarrow> contexts \<Rightarrow> contexts \<Rightarrow> contexts \<times> (server_error, ContextRecord) outcome" where
  "branch_context uuid source m later = (case find_context m source of
       Ok r \<Rightarrow> (put_context (branch_record uuid r) later, Ok (branch_record uuid r))
     | Err e \<Rightarrow> (later, Err e) | Abort \<Rightarrow> (later, Abort))"

definition delete_context :: "string \<Rightarrow> contexts \<Rightarrow> contexts \<times> (server_error, unit) outcome" where
  "delete_context uuid m = (case map_of m uuid of
     None \<Rightarrow> (m, Err ServerContextNotFound) | Some _ \<Rightarrow> (hm_del uuid m, Ok ()))"

text \<open>
  How an inference commits (the last critical section of \<open>infer_admitted\<close>): on the context it read, when
  that is still there at the revision it had, or as a new context.
\<close>

definition commit_context ::
  "ContextRecord option \<Rightarrow> string \<Rightarrow> string list \<Rightarrow> int list \<Rightarrow> contexts \<Rightarrow> contexts \<times> (server_error, string) outcome" where
  "commit_context snapshot successor tokens native m = (case snapshot of
     Some r \<Rightarrow> (case map_of m (cx_id r) of
         None \<Rightarrow> (m, Err ServerContextNotFound)
       | Some stored \<Rightarrow>
           if cx_revision stored \<noteq> cx_revision r then (m, Err (StateError ''context changed during compaction''))
           else (hm_put (cx_id r) (stored\<lparr>cx_tokens := tokens, cx_native_tokens := native,
               cx_revision := (cx_revision stored + 1) mod 2 ^ 64\<rparr>) m, Ok (cx_id stored)))
   | None \<Rightarrow> (hm_put successor \<lparr>cx_id = successor, cx_revision = 1, cx_tokens = tokens, cx_native_tokens = native\<rparr> m, Ok successor))"

section \<open>Contexts as a machine\<close>

text \<open>
  Any number of inferences between reading their context and committing; an entry of \<open>cy_open\<close> holds
  what was read and the identifier a new context would get. \<open>cy_used\<close> are the identifiers made so far:
  a fresh one is none of them. A branch may insert a copy of any record it read earlier. The machine ends before a revision wraps around.
\<close>

record ContextSystem =
  cy_contexts :: contexts
  cy_used :: "string list"
  cy_open :: "(nat, ContextRecord option \<times> string) hm"

definition context_init :: "ContextSystem \<Rightarrow> bool" where
  "context_init y \<longleftrightarrow> y = \<lparr>cy_contexts = [], cy_used = [], cy_open = []\<rparr>"

inductive context_step :: "ContextSystem \<Rightarrow> ContextSystem \<Rightarrow> bool" where
  cstep_create: "uuid \<notin> set (cy_used y) \<Longrightarrow>
    context_step y (y\<lparr>cy_contexts := fst (create_context uuid (cy_contexts y)), cy_used := uuid # cy_used y\<rparr>)"
| cstep_import: "uuid \<notin> set (cy_used y) \<Longrightarrow>
    context_step y (y\<lparr>cy_contexts := fst (import_context uuid tokens (cy_contexts y)), cy_used := uuid # cy_used y\<rparr>)"
| cstep_branch: "uuid \<notin> set (cy_used y) \<Longrightarrow>
    context_step y (y\<lparr>cy_contexts := fst (branch_context uuid source earlier (cy_contexts y)), cy_used := uuid # cy_used y\<rparr>)"
| cstep_delete: "context_step y (y\<lparr>cy_contexts := fst (delete_context uuid (cy_contexts y))\<rparr>)"
| cstep_read: "find_context (cy_contexts y) uuid = Ok r \<Longrightarrow> \<not> hm_has (cy_open y) i \<Longrightarrow>
    context_step y (y\<lparr>cy_open := hm_put i (Some r, uuid) (cy_open y)\<rparr>)"
| cstep_fresh: "uuid \<notin> set (cy_used y) \<Longrightarrow> \<not> hm_has (cy_open y) i \<Longrightarrow>
    context_step y (y\<lparr>cy_open := hm_put i (None, uuid) (cy_open y), cy_used := uuid # cy_used y\<rparr>)"
| cstep_commit: "map_of (cy_open y) i = Some (snapshot, successor) \<Longrightarrow>
    (case snapshot of None \<Rightarrow> True | Some r \<Rightarrow> cx_revision r + 1 < 2 ^ 64) \<Longrightarrow>
    context_step y (y\<lparr>cy_contexts := fst (commit_context snapshot successor tokens native (cy_contexts y)),
      cy_open := hm_del i (cy_open y)\<rparr>)"
| cstep_give_up: "context_step y (y\<lparr>cy_open := hm_del i (cy_open y)\<rparr>)"

definition context_reach :: "ContextSystem \<Rightarrow> bool" where
  "context_reach y = reach context_init context_step y"

section \<open>Declarations of compactions\<close>

record CompactionDeclaration =
  cd_declaration_id :: string
  cd_context_id :: string
  cd_strategy_preferences :: "string list"
  cd_target_tokens :: "nat option"
  cd_expires_at_ms :: nat

record CreateCompactionDeclaration =
  dq_context_id :: string
  dq_strategy_preferences :: "string list"
  dq_target_tokens :: "nat option"
  dq_expires_in_ms :: nat

record DeclarationRecord =
  dr_declaration :: CompactionDeclaration
  dr_principal :: string

record DeclarationState =
  ds_records :: "(string, DeclarationRecord) hm"
  ds_creation_times :: "(string, nat list) hm"

definition clock_error :: server_error where
  "clock_error = StateError ''system clock before unix epoch''"

definition new_declaration :: "string \<Rightarrow> nat \<Rightarrow> CreateCompactionDeclaration \<Rightarrow> CompactionDeclaration" where
  "new_declaration uuid now q = \<lparr>cd_declaration_id = uuid, cd_context_id = dq_context_id q,
     cd_strategy_preferences = dq_strategy_preferences q, cd_target_tokens = dq_target_tokens q,
     cd_expires_at_ms = saturating_add now (dq_expires_in_ms q)\<rparr>"

text \<open>The two \<open>retain\<close>s: expired declarations go, and creations that are a minute old.\<close>

definition live_records :: "nat \<Rightarrow> (string, DeclarationRecord) hm \<Rightarrow> (string, DeclarationRecord) hm" where
  "live_records now rs = filter (\<lambda>(_, r). now < cd_expires_at_ms (dr_declaration r)) rs"

definition recent_times :: "nat \<Rightarrow> (string, nat list) hm \<Rightarrow> (string, nat list) hm" where
  "recent_times now ct = filter (\<lambda>(_, ts). ts \<noteq> []) (map (\<lambda>(p, ts). (p, dropWhile (\<lambda>c. 60000 \<le> now - c) ts)) ct)"

definition times_of :: "(string, nat list) hm \<Rightarrow> string \<Rightarrow> nat list" where
  "times_of ct p = (case map_of ct p of None \<Rightarrow> [] | Some ts \<Rightarrow> ts)"

text \<open>\<open>now\<close> is \<open>None\<close> when the clock is before 1970.\<close>

definition create_compaction_declaration_for ::
  "string \<Rightarrow> nat option \<Rightarrow> ServerConfig \<Rightarrow> string \<Rightarrow> CreateCompactionDeclaration \<Rightarrow> DeclarationState
   \<Rightarrow> DeclarationState \<times> (server_error, CompactionDeclaration) outcome" where
  "create_compaction_declaration_for uuid clock config owner q s =
     (if \<not> sg_compaction_enabled config then (s, Err (BadRequest ''compaction is disabled''))
      else if dq_expires_in_ms q = 0 \<or> sg_declaration_lifetime_ms config < dq_expires_in_ms q
      then (s, Err (BadRequest ''invalid compaction declaration lifetime''))
      else (case clock of None \<Rightarrow> (s, Err clock_error) | Some now \<Rightarrow>
        (let declaration = new_declaration uuid now q;
             s = \<lparr>ds_records = live_records now (ds_records s), ds_creation_times = recent_times now (ds_creation_times s)\<rparr> in
         if sg_compaction_declarations config \<le> length (ds_records s) then (s, Err Busy)
         else (let recent = dropWhile (\<lambda>c. c \<le> now - 60000) (times_of (ds_creation_times s) owner) in
           if sg_declaration_rate_per_minute config \<le> length recent
           then (s\<lparr>ds_creation_times := hm_put owner recent (ds_creation_times s)\<rparr>, Err Busy)
           else (\<lparr>ds_records = hm_put uuid \<lparr>dr_declaration = declaration, dr_principal = owner\<rparr> (ds_records s),
               ds_creation_times = hm_put owner (recent @ [now]) (ds_creation_times s)\<rparr>, Ok declaration)))))"

definition declaration_not_found :: server_error where
  "declaration_not_found = BadRequest ''compaction declaration not found''"

definition compaction_declaration_for ::
  "nat option \<Rightarrow> string \<Rightarrow> string \<Rightarrow> DeclarationState \<Rightarrow> DeclarationState \<times> (server_error, CompactionDeclaration) outcome" where
  "compaction_declaration_for clock owner uuid s = (case clock of None \<Rightarrow> (s, Err clock_error) | Some now \<Rightarrow>
     (case map_of (ds_records s) uuid of
        None \<Rightarrow> (s, Err declaration_not_found)
      | Some r \<Rightarrow>
          if cd_expires_at_ms (dr_declaration r) \<le> now
          then (s\<lparr>ds_records := hm_del uuid (ds_records s)\<rparr>, Err (BadRequest ''compaction declaration expired''))
          else if dr_principal r \<noteq> owner then (s, Err Forbidden)
          else (s, Ok (dr_declaration r))))"

definition revoke_compaction_declaration_for ::
  "string \<Rightarrow> string \<Rightarrow> DeclarationState \<Rightarrow> DeclarationState \<times> (server_error, unit) outcome" where
  "revoke_compaction_declaration_for owner uuid s = (case map_of (ds_records s) uuid of
     None \<Rightarrow> (s, Err declaration_not_found)
   | Some r \<Rightarrow> if dr_principal r \<noteq> owner then (s, Err Forbidden)
       else (s\<lparr>ds_records := hm_del uuid (ds_records s)\<rparr>, Ok ()))"

text \<open>
  Declarations as a machine: \<open>dy_granted\<close> are the creations that succeeded, with their owner and the
  time they read, and \<open>dy_latest\<close> is the greatest time any creation read (at least one minute after 1970).
  A creation reads the clock before it takes the mutex, so the times need not come in order.
\<close>

record DeclarationSystem =
  dy_state :: DeclarationState
  dy_granted :: "(string \<times> nat) list"
  dy_latest :: nat

definition declaration_init :: "DeclarationSystem \<Rightarrow> bool" where
  "declaration_init y \<longleftrightarrow> y = \<lparr>dy_state = \<lparr>ds_records = [], ds_creation_times = []\<rparr>, dy_granted = [], dy_latest = 60000\<rparr>"

definition declared ::
  "string \<Rightarrow> nat \<Rightarrow> DeclarationState \<times> (server_error, CompactionDeclaration) outcome \<Rightarrow> DeclarationSystem \<Rightarrow> DeclarationSystem" where
  "declared owner now r y = (let latest = max now (dy_latest y) in (case snd r of
     Ok _ \<Rightarrow> \<lparr>dy_state = fst r, dy_granted = dy_granted y @ [(owner, now)], dy_latest = latest\<rparr>
   | _ \<Rightarrow> y\<lparr>dy_state := fst r, dy_latest := latest\<rparr>))"

inductive declaration_step :: "DeclarationSystem \<Rightarrow> DeclarationSystem \<Rightarrow> bool" where
  dstep_create: "\<not> hm_has (ds_records (dy_state y)) uuid \<Longrightarrow>
    declaration_step y (declared owner now
      (create_compaction_declaration_for uuid (Some now) config owner q (dy_state y)) y)"
| dstep_get: "declaration_step y (y\<lparr>dy_state := fst (compaction_declaration_for clock owner uuid (dy_state y))\<rparr>)"
| dstep_revoke: "declaration_step y (y\<lparr>dy_state := fst (revoke_compaction_declaration_for owner uuid (dy_state y))\<rparr>)"

definition declaration_reach :: "DeclarationSystem \<Rightarrow> bool" where
  "declaration_reach y = reach declaration_init declaration_step y"

end
