(* ===== verification/Engine_Loop.thy ===== *)
theory Engine_Loop
  imports Generation Request_Control
begin

text \<open>
  The loop \<open>InferenceEngine::generate\<close> that drives a session of an engine, the deterministic engine, and the
  choice of a slot (all in \<open>crates/server/src/lib.rs\<close>). The sessions of an engine are a type \<open>'s\<close>; what
  they see of their control, of faults and of time is part of their state. A sink has a state \<open>'k\<close>.
\<close>

section \<open>Text\<close>

definition utf8_char :: "int \<Rightarrow> int list" where
  "utf8_char c = (if c < 0x80 then [c]
     else if c < 0x800 then [0xC0 + c div 64, 0x80 + c mod 64]
     else if c < 0x10000 then [0xE0 + c div 4096, 0x80 + c div 64 mod 64, 0x80 + c mod 64]
     else [0xF0 + c div 262144, 0x80 + c div 4096 mod 64, 0x80 + c div 64 mod 64, 0x80 + c mod 64])"

definition text_string :: "unicode \<Rightarrow> string" where
  "text_string t = map (\<lambda>b. char_of (nat b)) (concat (map utf8_char t))"

function split_words :: "unicode \<Rightarrow> unicode list" where
  "split_words t = (case dropWhile is_whitespace t of [] \<Rightarrow> []
     | c # cs \<Rightarrow> takeWhile (\<lambda>x. \<not> is_whitespace x) (c # cs) # split_words (dropWhile (\<lambda>x. \<not> is_whitespace x) (c # cs)))"
  by pat_completeness auto
termination
proof (relation "measure length")
  fix t :: unicode and c cs assume d: "dropWhile is_whitespace t = c # cs"
  then have "\<not> is_whitespace c" by (simp add: dropWhile_eq_Cons_conv)
  then have "length (dropWhile (\<lambda>x. \<not> is_whitespace x) (c # cs)) < length (c # cs)"
    by (simp add: length_dropWhile_le less_Suc_eq_le)
  also have "length (c # cs) \<le> length t" using d length_dropWhile_le[of is_whitespace t] by simp
  finally show "(dropWhile (\<lambda>x. \<not> is_whitespace x) (c # cs), t) \<in> measure length" by simp
qed simp

declare split_words.simps [simp del]

text \<open>\<open>split_whitespace\<close> of a text, and of a string, which is valid UTF-8.\<close>

definition text_words :: "unicode \<Rightarrow> string list" where
  "text_words t = map text_string (split_words t)"

definition string_words :: "string \<Rightarrow> string list" where
  "string_words s = text_words (lossy (string_bytes s))"

fun join_words :: "string list \<Rightarrow> string" where
  "join_words [] = []"
| "join_words [w] = w"
| "join_words (w # ws) = w @ '' '' @ join_words ws"

section \<open>Driving a session\<close>

record 's InferEngine =
  ie_start :: "EngineRequest \<Rightarrow> (server_error, 's) outcome"
  ie_step :: "'s \<Rightarrow> 's \<times> (server_error, SessionStep) outcome"
  ie_finish :: "'s \<Rightarrow> 's \<times> (server_error, EngineOutput) outcome"

type_synonym 'k token_sink = "int \<Rightarrow> byte list \<Rightarrow> bool \<Rightarrow> 'k \<Rightarrow> 'k \<times> (server_error, FrontierControl) outcome"

text \<open>The loop of \<open>generate\<close>; \<open>None\<close> is a session that never ends.\<close>

partial_function (option) engine_loop ::
  "'s InferEngine \<Rightarrow> 'k token_sink \<Rightarrow> 's \<Rightarrow> 'k \<Rightarrow> ('k \<times> (server_error, EngineOutput) outcome) option" where
  "engine_loop en sink s k = (case ie_step en s of (s1, r) \<Rightarrow> (case r of
       Err e \<Rightarrow> Some (k, Err e)
     | Abort \<Rightarrow> Some (k, Abort)
     | Ok step \<Rightarrow> (case step of
         Progress observation \<Rightarrow> engine_loop en sink s1 k
       | Finished result \<Rightarrow> Some (k, Ok result)
       | TokenStep token piece terminal observation \<Rightarrow> (case sink token piece terminal k of (k1, c) \<Rightarrow> (case c of
           Err e \<Rightarrow> Some (k1, Err e)
         | Abort \<Rightarrow> Some (k1, Abort)
         | Ok flow \<Rightarrow> if flow = FrontierStop then Some (k1, snd (ie_finish en s1)) else engine_loop en sink s1 k1)))))"

declare engine_loop.simps [code]

definition engine_generate ::
  "'s InferEngine \<Rightarrow> EngineRequest \<Rightarrow> 'k token_sink \<Rightarrow> 'k \<Rightarrow> ('k \<times> (server_error, EngineOutput) outcome) option" where
  "engine_generate en req sink k = (case ie_start en req of
     Ok s \<Rightarrow> engine_loop en sink s k | Err e \<Rightarrow> Some (k, Err e) | Abort \<Rightarrow> Some (k, Abort))"

section \<open>The deterministic engine\<close>

text \<open>\<open>dn_looks\<close> are the states of the control the session will see; where the list has ended, it runs.\<close>

record DeterministicSession =
  dn_request :: EngineRequest
  dn_pieces :: "string list"
  dn_index :: nat
  dn_prepared :: bool
  dn_looks :: "control_state list"

definition look :: "DeterministicSession \<Rightarrow> DeterministicSession \<times> (server_error, unit) outcome" where
  "look d = (case dn_looks d of [] \<Rightarrow> (d, Ok ()) | l # ls \<Rightarrow> (d\<lparr>dn_looks := ls\<rparr>, state_check l))"

text \<open>\<open>index as i32\<close>.\<close>

definition as_i32 :: "nat \<Rightarrow> int" where
  "as_i32 n = (int n + 2 ^ 31) mod 2 ^ 32 - 2 ^ 31"

definition default_prefill :: PrefillMetrics where
  "default_prefill = \<lparr>pf_total_tokens = 0, pf_cached_tokens = 0, pf_uncached_tokens = 0, pf_tokenization_ns = 0,
     pf_prefix_lookup_ns = 0, pf_mapping_activation_ns = 0, pf_uncached_prefill_ns = 0, pf_total_ns = 0,
     pf_transfer_bytes = 0, pf_device_bytes = 0, pf_host_bytes = 0\<rparr>"

definition deterministic_output :: "DeterministicSession \<Rightarrow> EngineOutput" where
  "deterministic_output d = (let n = length (dn_pieces d) in
     \<lparr>eo_successor_tokens = er_prior_tokens (dn_request d), eo_input_tokens = n, eo_cached_tokens = 0, eo_evaluated_tokens = n,
       eo_prefill = default_prefill\<lparr>pf_total_tokens := n, pf_uncached_tokens := n\<rparr>\<rparr>)"

definition deterministic_finish :: "DeterministicSession \<Rightarrow> DeterministicSession \<times> (server_error, EngineOutput) outcome" where
  "deterministic_finish d = and_then (look d) (\<lambda>_ d. (d, Ok (deterministic_output d)))"

definition deterministic_piece :: "string list \<Rightarrow> nat \<Rightarrow> string" where
  "deterministic_piece pieces i = (let piece = pieces ! (i mod length pieces) in if i = 0 then piece else '' '' @ piece)"

text \<open>\<open>-(index as i32) - 1\<close> in wrapping arithmetic.\<close>

definition deterministic_id :: "nat \<Rightarrow> int" where
  "deterministic_id i = (- as_i32 i - 1 + 2 ^ 31) mod 2 ^ 32 - 2 ^ 31"

definition deterministic_step :: "DeterministicSession \<Rightarrow> DeterministicSession \<times> (server_error, SessionStep) outcome" where
  "deterministic_step d = and_then (look d) (\<lambda>_ d.
     if \<not> dn_prepared d then (d\<lparr>dn_prepared := True\<rparr>, Ok (Progress (model_free Preparation (length (dn_pieces d)))))
     else if er_max_tokens (dn_request d) \<le> dn_index d \<or> dn_pieces d = []
     then and_then (deterministic_finish d) (\<lambda>result d. (d, Ok (Finished result)))
     else (d\<lparr>dn_index := dn_index d + 1\<rparr>, Ok (TokenStep (deterministic_id (dn_index d))
       (string_bytes (deterministic_piece (dn_pieces d) (dn_index d))) False (model_free Decode 1))))"

text \<open>\<open>start_session\<close> looks at the control first; \<open>looks\<close> are all states it and its session will see.\<close>

definition deterministic_start :: "control_state list \<Rightarrow> EngineRequest \<Rightarrow> (server_error, DeterministicSession) outcome" where
  "deterministic_start looks req = (case look \<lparr>dn_request = req, dn_pieces = rev (string_words (er_prompt req)), dn_index = 0,
       dn_prepared = False, dn_looks = looks\<rparr> of
     (d, Ok _) \<Rightarrow> Ok d | (d, Err e) \<Rightarrow> Err e | (d, Abort) \<Rightarrow> Abort)"

definition deterministic_engine :: "control_state list \<Rightarrow> DeterministicSession InferEngine" where
  "deterministic_engine looks = \<lparr>ie_start = deterministic_start looks, ie_step = deterministic_step, ie_finish = deterministic_finish\<rparr>"

section \<open>Choosing a slot\<close>

record SlotCandidate =
  sl_slot :: nat
  sl_valid_prefix :: nat
  sl_transfer_bytes :: nat
  sl_rollback_tokens :: nat
  sl_quiesce_cost :: nat
  sl_growth_bytes :: nat
  sl_priority :: int
  sl_wait_ms :: nat
  sl_decode_tokens :: nat

text \<open>The products wrap around; \<open>Reverse\<close> is the negated number.\<close>

definition slot_key :: "SlotCandidate \<Rightarrow> nat \<times> int \<times> int \<times> nat \<times> nat" where
  "slot_key c = (let costs = saturating_add (saturating_add (saturating_add (sl_transfer_bytes c)
       (sl_rollback_tokens c * 1024 mod 2 ^ 64)) (sl_quiesce_cost c)) (sl_growth_bytes c) in
     (costs - sl_valid_prefix c * 1024 mod 2 ^ 64, - sl_priority c, - int (sl_wait_ms c), sl_decode_tokens c, sl_slot c))"

definition select_slot :: "SlotCandidate list \<Rightarrow> nat option" where
  "select_slot candidates = map_option sl_slot (min_by_key slot_key candidates)"

section \<open>What a session hands out\<close>

text \<open>A run of a session: the pieces of the tokens it hands out, with whether they are terminal.\<close>

inductive session_run :: "'s InferEngine \<Rightarrow> 's \<Rightarrow> (byte list \<times> bool) list \<Rightarrow> 's \<Rightarrow> bool" for en :: "'s InferEngine" where
  run_stop: "session_run en s [] s"
| run_progress: "ie_step en s = (s1, Ok (Progress observation)) \<Longrightarrow> session_run en s1 ps t \<Longrightarrow> session_run en s ps t"
| run_token: "ie_step en s = (s1, Ok (TokenStep token piece terminal observation)) \<Longrightarrow> session_run en s1 ps t \<Longrightarrow>
    session_run en s ((piece, terminal) # ps) t"

end
