(* ===== verification/Inference.thy ===== *)
theory Inference
  imports Contexts Engine_Loop Responses
begin

text \<open>
  One inference (\<open>infer_reserved\<close>, \<open>infer_stream_reserved\<close> and \<open>infer_admitted\<close> in
  \<open>crates/server/src/lib.rs\<close>): the context is read, compacted when the request asks for it, continued by
  the engine through the generation frontier, and committed.

  The contexts and the declarations are shared: the argument \<open>m\<close> is what the inference reads, \<open>later\<close>
  what it finds when it commits. \<open>InferAnswers\<close> holds what the control and the clock say; \<open>prep\<close> and \<open>en\<close> are
  the engine as the two calls of \<open>generate\<close> find it, and \<open>find_model\<close> is the look-up of a model.
\<close>

section \<open>Data\<close>

record InferRequest =
  iq_model :: string
  iq_prompt :: string
  iq_max_tokens :: nat
  iq_context_id :: "string option"
  iq_deadline_ms :: "nat option"
  iq_stop :: "string list"
  iq_raw_continuation :: bool
  iq_compaction :: "CompactionRequest option"
  iq_sampling :: SamplingConfig
  iq_grammar :: "string option"
  iq_scheduling :: SchedulingMetadata

record InferResponse =
  ip_id :: string
  ip_text :: string
  ip_usage :: Usage

text \<open>
  \<open>ia_control\<close> is the address of the control, if the request still has one; \<open>ia_piece n\<close> says, when the
  sink is called for the \<open>n\<close>-th time, whether the deadline has passed and what the state of the control is.
\<close>

record InferAnswers =
  ia_clock :: "nat option"
  ia_control :: "nat option"
  ia_at_start :: control_state
  ia_after_selection :: control_state
  ia_after_preparation :: control_state
  ia_piece :: "nat \<Rightarrow> bool \<times> control_state"
  ia_at_end :: control_state
  ia_overdue :: bool
  ia_latency_ms :: nat

definition engine_request ::
  "ModelRecord \<Rightarrow> string \<Rightarrow> nat \<Rightarrow> int list \<Rightarrow> nat \<Rightarrow> InferRequest \<Rightarrow> EngineRequest" where
  "engine_request model prompt max_tokens prior control req = \<lparr>er_model = model, er_prompt = prompt, er_max_tokens = max_tokens,
     er_prior_tokens = prior, er_sampling = iq_sampling req, er_grammar = iq_grammar req, er_control = control,
     er_scheduling = iq_scheduling req, er_prefill_chunk_tokens = 32\<rparr>"

section \<open>What an inference begins with\<close>

text \<open>The declaration a compaction refers to replaces its preferences.\<close>

definition resolve_compaction ::
  "nat option \<Rightarrow> InferRequest \<Rightarrow> DeclarationState \<Rightarrow> DeclarationState \<times> (server_error, CompactionRequest option) outcome" where
  "resolve_compaction clock req s = (case iq_compaction req of None \<Rightarrow> (s, Ok None) | Some c \<Rightarrow>
     (case cq_declaration_id c of None \<Rightarrow> (s, Ok (Some c)) | Some declaration \<Rightarrow>
       and_then (compaction_declaration_for clock (sm_principal (iq_scheduling req)) declaration s) (\<lambda>d s.
         (s, case iq_context_id req of
             None \<Rightarrow> Err (BadRequest ''compaction declaration requires context'')
           | Some uuid \<Rightarrow> if uuid \<noteq> cd_context_id d then Err (BadRequest ''compaction declaration context mismatch'')
               else Ok (Some (c\<lparr>cq_strategy_preferences := cd_strategy_preferences d,
                 cq_target_tokens := (case cq_target_tokens c of None \<Rightarrow> cd_target_tokens d | Some t \<Rightarrow> Some t)\<rparr>))))))"

definition begin_inference ::
  "(string \<Rightarrow> (server_error, ModelRecord) outcome) \<Rightarrow> contexts \<Rightarrow> InferAnswers \<Rightarrow> InferRequest
   \<Rightarrow> (server_error, nat \<times> ModelRecord \<times> ContextRecord option) outcome" where
  "begin_inference find_model m a req =
     (if iq_deadline_ms req = Some 0 then Err Deadline
      else (case ia_control a of None \<Rightarrow> Err Cancelled | Some control \<Rightarrow>
        outcome_bind (state_check (ia_at_start a)) (\<lambda>_.
        outcome_bind (find_model (iq_model req)) (\<lambda>model.
        outcome_bind (case iq_context_id req of None \<Rightarrow> Ok None | Some uuid \<Rightarrow> map_ok Some (find_context m uuid)) (\<lambda>context.
        Ok (control, model, context))))))"

section \<open>Compaction\<close>

text \<open>The result when no strategy matches and the request accepts that.\<close>

definition unmatched_compaction :: "CompactionRequest \<Rightarrow> ContextRecord \<Rightarrow> CompactionResult" where
  "unmatched_compaction c source = (let n = length (cx_tokens source) in
     \<lparr>cr_compact_mode = ''window_tail'', cr_compact_reason = ReasonNone,
       cr_requested_strategy_ids = cq_strategy_preferences c, cr_selected_strategy_id = None,
       cr_requested_strategy_budget = (case cq_target_tokens c of None \<Rightarrow> 3072 | Some t \<Rightarrow> t), cr_resulting_budget = n,
       cr_retained_indices = [0..<n], cr_retained_message_count = n, cr_source_message_count = n, cr_retained_anchor_count = 0,
       cr_success = False, cr_fallback = True, cr_resulting_context_epoch = saturating_add (cx_revision source) 1\<rparr>)"

definition refuse_output :: "unit token_sink" where
  "refuse_output token piece terminal k = (k, Err (StateError ''compaction preparation unexpectedly generated output''))"

text \<open>The tokens the context has now: logical, native, and the account of the compaction.\<close>

type_synonym compacted = "string list \<times> int list \<times> CompactionResult option"

definition compact_context ::
  "'s InferEngine \<Rightarrow> InferAnswers \<Rightarrow> InferRequest \<Rightarrow> nat \<Rightarrow> ModelRecord \<Rightarrow> CompactionRequest \<Rightarrow> ContextRecord
   \<Rightarrow> (server_error, compacted) outcome option" where
  "compact_context prep a req control model c source = (case select_strategy (cq_strategy_preferences c) of
     None \<Rightarrow> Some (if cq_fallback_when_no_match c = RejectNoMatch then Err (BadRequest ''unsupported_compaction_strategy'')
       else Ok (cx_tokens source, cx_native_tokens source, Some (unmatched_compaction c source)))
   | Some selected \<Rightarrow>
       if selected \<noteq> WINDOW_TAIL_STRATEGY_ID then Some (Err (BadRequest ''unsupported compaction strategy for this release''))
       else (let proposal = apply_window_tail_strategy (cx_tokens source)
               (case cq_target_tokens c of None \<Rightarrow> 3072 | Some t \<Rightarrow> t) [selected] in
         (case state_check (ia_after_selection a) of
            Err e \<Rightarrow> Some (Err e) | Abort \<Rightarrow> Some Abort
          | Ok _ \<Rightarrow> (let tokens = cp_resulting_tokens proposal;
                result = (cp_compaction_result proposal)\<lparr>cr_selected_strategy_id := Some (deterministic_strategy_id selected),
                  cr_resulting_context_epoch := saturating_add (cx_revision source) 1\<rparr> in
              if tokens = cx_tokens source then Some (Ok (cx_tokens source, cx_native_tokens source, Some result))
              else map_option (\<lambda>(_, r). outcome_bind r (\<lambda>prepared. outcome_bind (state_check (ia_after_preparation a)) (\<lambda>_.
                  Ok (tokens, eo_successor_tokens prepared, Some result))))
                (engine_generate prep (engine_request model (join_words tokens) 0 [] control req) refuse_output ())))))"

definition prepare_context ::
  "'s InferEngine \<Rightarrow> InferAnswers \<Rightarrow> InferRequest \<Rightarrow> nat \<Rightarrow> ModelRecord \<Rightarrow> CompactionRequest option \<Rightarrow> ContextRecord option
   \<Rightarrow> (server_error, compacted) outcome option" where
  "prepare_context prep a req control model compaction context = (case compaction of
     None \<Rightarrow> Some (Ok (case context of None \<Rightarrow> ([], [], None) | Some r \<Rightarrow> (cx_tokens r, cx_native_tokens r, None)))
   | Some c \<Rightarrow> (case context of
       None \<Rightarrow> Some (Err (BadRequest ''compaction requires an existing context''))
     | Some source \<Rightarrow> compact_context prep a req control model c source))"

section \<open>Generation\<close>

text \<open>What \<open>emit\<close> is given goes out as events numbered from zero; \<open>'e\<close> is the state of \<open>emit\<close>.\<close>

type_synonym 'e event_emitter = "StreamEvent \<Rightarrow> 'e \<Rightarrow> 'e \<times> (server_error, unit) outcome"

definition emit_delta :: "'e event_emitter \<Rightarrow> ('e \<times> nat) emitter" where
  "emit_delta emit delta w = (case w of (e, index) \<Rightarrow> (case emit (StreamToken (text_string delta) index) e of
     (e1, Ok _) \<Rightarrow> ((e1, index + 1), Ok ()) | (e1, Err x) \<Rightarrow> ((e1, index), Err x) | (e1, Abort) \<Rightarrow> ((e1, index), Abort)))"

text \<open>The state of the sink: how often it was called, and the run of the frontier.\<close>

definition decode_sink :: "InferAnswers \<Rightarrow> bool \<Rightarrow> 'e event_emitter \<Rightarrow> (nat \<times> ('e \<times> nat) frontier_run) token_sink" where
  "decode_sink a deadline emit token piece terminal k = (case k of (n, z) \<Rightarrow>
     (let seen = ia_piece a n in
      case state_check (if deadline \<and> fst seen \<and> snd seen = ControlRunning then ControlDeadline else snd seen) of
        Ok _ \<Rightarrow> (case frontier_push piece terminal (emit_delta emit) z of (z1, r) \<Rightarrow> ((n + 1, z1), r))
      | Err e \<Rightarrow> ((n + 1, z), Err e) | Abort \<Rightarrow> ((n + 1, z), Abort)))"

text \<open>The second call of \<open>generate\<close>, the end of the frontier, and the last checks.\<close>

definition run_generation ::
  "'s InferEngine \<Rightarrow> InferAnswers \<Rightarrow> InferRequest \<Rightarrow> EngineRequest \<Rightarrow> GenerationFrontier \<Rightarrow> 'e event_emitter \<Rightarrow> 'e
   \<Rightarrow> ('e \<times> (server_error, EngineOutput \<times> FrontierResult) outcome) option" where
  "run_generation en a req ereq frontier emit e = map_option (\<lambda>((n, z), r). (case r of
       Err x \<Rightarrow> (fst (snd z), Err x) | Abort \<Rightarrow> (fst (snd z), Abort)
     | Ok generated \<Rightarrow> (case frontier_finish (emit_delta emit) z of (z, r) \<Rightarrow> (fst (snd z),
         outcome_bind r (\<lambda>result. outcome_bind (state_check (ia_at_end a)) (\<lambda>_.
           if iq_deadline_ms req \<noteq> None \<and> ia_overdue a then Err Deadline else Ok (generated, result)))))))
     (engine_generate en ereq (decode_sink a (iq_deadline_ms req \<noteq> None) emit) (0, frontier, e, 0))"

section \<open>The inference\<close>

definition inference_usage ::
  "InferAnswers \<Rightarrow> InferRequest \<Rightarrow> ModelRecord \<Rightarrow> string \<Rightarrow> CompactionResult option \<Rightarrow> EngineOutput \<Rightarrow> FrontierResult \<Rightarrow> Usage" where
  "inference_usage a req model uuid compaction generated result = (let s = iq_scheduling req in
     \<lparr>us_input_tokens = eo_input_tokens generated, us_generated_tokens = fr_generated_tokens result,
       us_evaluated_tokens = eo_evaluated_tokens generated, us_cached_tokens = eo_cached_tokens generated,
       us_prefill = eo_prefill generated, us_model = mr_id model, us_model_revision = mr_revision model, us_context_id = uuid,
       us_compaction_result = compaction, us_latency_ms = ia_latency_ms a, us_status = ''completed'',
       us_correlation_id = sm_correlation_id s, us_inference_id = sm_inference_id s, us_execution_session_id = sm_inference_id s\<rparr>)"

record 'e Inference =
  iv_emitted :: 'e
  iv_contexts :: contexts
  iv_declarations :: DeclarationState

definition commit_inference ::
  "string \<Rightarrow> InferAnswers \<Rightarrow> InferRequest \<Rightarrow> string \<Rightarrow> ModelRecord \<Rightarrow> ContextRecord option \<Rightarrow> compacted \<Rightarrow> EngineOutput \<times> FrontierResult
   \<Rightarrow> 'e Inference \<Rightarrow> 'e Inference \<times> (server_error, InferResponse \<times> StreamEvent) outcome" where
  "commit_inference request a req successor model context compacted generation v =
     (case (compacted, generation) of ((tokens, prior, compaction), (generated, result)) \<Rightarrow>
       (case commit_context context successor (tokens @ string_words (iq_prompt req) @ text_words (fr_text result))
           (eo_successor_tokens generated) (iv_contexts v) of (m, r) \<Rightarrow>
         (v\<lparr>iv_contexts := m\<rparr>, outcome_bind r (\<lambda>uuid.
           (let usage = inference_usage a req model uuid compaction generated result in
            Ok (\<lparr>ip_id = request, ip_text = text_string (fr_text result), ip_usage = usage\<rparr>,
              StreamFinished (fr_finish_reason result) usage))))))"

definition infer_admitted ::
  "(string \<Rightarrow> (server_error, ModelRecord) outcome) \<Rightarrow> 's InferEngine \<Rightarrow> 's InferEngine \<Rightarrow> InferAnswers \<Rightarrow> string \<Rightarrow> InferRequest
   \<Rightarrow> string \<Rightarrow> GenerationFrontier \<Rightarrow> 'e event_emitter \<Rightarrow> contexts \<Rightarrow> 'e Inference
   \<Rightarrow> ('e Inference \<times> (server_error, InferResponse \<times> StreamEvent) outcome) option" where
  "infer_admitted find_model prep en a request req successor frontier emit m v =
     (case resolve_compaction (ia_clock a) req (iv_declarations v) of (ds, r) \<Rightarrow> (let v = v\<lparr>iv_declarations := ds\<rparr> in
       (case outcome_bind r (\<lambda>compaction. map_ok (Pair compaction) (begin_inference find_model m a req)) of
          Err x \<Rightarrow> Some (v, Err x) | Abort \<Rightarrow> Some (v, Abort)
        | Ok (compaction, control, model, context) \<Rightarrow>
            (case prepare_context prep a req control model compaction context of
               None \<Rightarrow> None | Some (Err x) \<Rightarrow> Some (v, Err x) | Some Abort \<Rightarrow> Some (v, Abort)
             | Some (Ok compacted) \<Rightarrow>
                 map_option (\<lambda>(e, r). and_then (v\<lparr>iv_emitted := e\<rparr>, r)
                     (commit_inference request a req successor model context compacted))
                   (run_generation en a req
                     (engine_request model (iq_prompt req) (iq_max_tokens req) (fst (snd compacted)) control req)
                     frontier emit (iv_emitted v))))))"

section \<open>Its two callers\<close>

definition open_frontier :: "(string \<Rightarrow> (server_error, ModelRecord) outcome) \<Rightarrow> InferRequest \<Rightarrow> (server_error, GenerationFrontier) outcome" where
  "open_frontier find_model req = outcome_bind (find_model (iq_model req)) (\<lambda>model.
     (case frontier_new_effective (map string_bytes (effective_stop_sequences (iq_stop req) (mr_family model))) (iq_raw_continuation req) of
        Ok g \<Rightarrow> Ok g | Err e \<Rightarrow> Err (StateError e) | Abort \<Rightarrow> Abort))"

definition successor_of :: "string \<Rightarrow> InferRequest \<Rightarrow> string" where
  "successor_of uuid req = (case iq_context_id req of None \<Rightarrow> uuid | Some c \<Rightarrow> c)"

definition started_event :: "string \<Rightarrow> string \<Rightarrow> InferRequest \<Rightarrow> StreamEvent" where
  "started_event request successor req = (let s = iq_scheduling req in
     StreamStarted request successor (sm_correlation_id s) (sm_inference_id s) (sm_inference_id s))"

definition keep_event :: "StreamEvent list event_emitter" where
  "keep_event event events = (events @ [event], Ok ())"

text \<open>The contexts and declarations that the argument \<open>v\<close> holds are those the commit finds.\<close>

definition infer_reserved ::
  "(string \<Rightarrow> (server_error, ModelRecord) outcome) \<Rightarrow> 's InferEngine \<Rightarrow> 's InferEngine \<Rightarrow> InferAnswers \<Rightarrow> string \<Rightarrow> string \<Rightarrow> InferRequest
   \<Rightarrow> contexts \<Rightarrow> unit Inference \<Rightarrow> (unit Inference \<times> (server_error, InferResponse \<times> StreamEvent list) outcome) option" where
  "infer_reserved find_model prep en a uuid request req m v = (case open_frontier find_model req of
     Err e \<Rightarrow> Some (v, Err e) | Abort \<Rightarrow> Some (v, Abort)
   | Ok frontier \<Rightarrow> (let successor = successor_of uuid req in
       map_option (\<lambda>(w, r). (\<lparr>iv_emitted = (), iv_contexts = iv_contexts w, iv_declarations = iv_declarations w\<rparr>,
           map_ok (\<lambda>(response, terminal). (response, iv_emitted w @ [terminal])) r))
         (infer_admitted find_model prep en a request req successor frontier keep_event m
           \<lparr>iv_emitted = [started_event request successor req], iv_contexts = iv_contexts v, iv_declarations = iv_declarations v\<rparr>)))"

text \<open>
  The task a stream runs. The channel takes \<open>ec_open\<close> more events before its receiver goes away; then \<open>emit\<close>
  cancels the control and fails. \<open>show_error\<close> is the text of an error.
\<close>

record EventChannel =
  ec_sent :: "StreamEvent list"
  ec_open :: nat

definition send_event :: "EventChannel event_emitter" where
  "send_event event c = (if ec_open c = 0 then (c, Err Cancelled)
     else (c\<lparr>ec_sent := ec_sent c @ [event], ec_open := ec_open c - 1\<rparr>, Ok ()))"

definition infer_stream_task ::
  "(server_error \<Rightarrow> string) \<Rightarrow> (string \<Rightarrow> (server_error, ModelRecord) outcome) \<Rightarrow> 's InferEngine \<Rightarrow> 's InferEngine \<Rightarrow> InferAnswers
   \<Rightarrow> string \<Rightarrow> InferRequest \<Rightarrow> string \<Rightarrow> GenerationFrontier \<Rightarrow> contexts \<Rightarrow> EventChannel Inference \<Rightarrow> EventChannel Inference option" where
  "infer_stream_task show_error find_model prep en a request req successor frontier m v =
     map_option (\<lambda>(w, r). (case r of
         Ok (_, terminal) \<Rightarrow> w\<lparr>iv_emitted := fst (send_event terminal (iv_emitted w))\<rparr>
       | Err e \<Rightarrow> w\<lparr>iv_emitted := fst (send_event (StreamError (show_error e)) (iv_emitted w))\<rparr>
       | Abort \<Rightarrow> w))
     (infer_admitted find_model prep en a request req successor frontier send_event m v)"

end
