(* ===== verification/Engine_Loop_Props.thy ===== *)
theory Engine_Loop_Props
  imports Engine_Loop
begin

text \<open>What the loop that drives a session guarantees, and that it ends with the deterministic engine.\<close>

section \<open>The loop\<close>

text \<open>The pieces of a run go to the sink in order; all but the last are answered with \<open>Continue\<close>.\<close>

inductive sink_run :: "'k token_sink \<Rightarrow> 'k \<Rightarrow> (byte list \<times> bool) list \<Rightarrow> 'k \<Rightarrow> FrontierControl \<Rightarrow> bool" for sink :: "'k token_sink" where
  sink_none: "sink_run sink k [] k FrontierContinue"
| sink_more: "sink token piece terminal k = (k1, Ok FrontierContinue) \<Longrightarrow> sink_run sink k1 ps k2 flow \<Longrightarrow>
    sink_run sink k ((piece, terminal) # ps) k2 flow"
| sink_stop: "sink token piece terminal k = (k1, Ok FrontierStop) \<Longrightarrow> sink_run sink k [(piece, terminal)] k1 FrontierStop"

definition ends_with_result :: "'s InferEngine \<Rightarrow> FrontierControl \<Rightarrow> 's \<Rightarrow> EngineOutput \<Rightarrow> bool" where
  "ends_with_result en flow t result \<longleftrightarrow>
     (if flow = FrontierStop then snd (ie_finish en t) = Ok result else snd (ie_step en t) = Ok (Finished result))"

text \<open>When the loop returns a result, the sink took what the session handed out, and the session ended: by its own
  last step, or because the sink stopped it.\<close>

definition loop_result :: "'s InferEngine \<Rightarrow> 'k token_sink \<Rightarrow> 's \<Rightarrow> 'k \<Rightarrow> 'k \<times> (server_error, EngineOutput) outcome \<Rightarrow> bool" where
  "loop_result en sink s k r \<longleftrightarrow> (\<forall>k' result. r = (k', Ok result) \<longrightarrow>
     (\<exists>ps t flow. session_run en s ps t \<and> sink_run sink k ps k' flow \<and> ends_with_result en flow t result))"

lemma loop_result_progress:
  "ie_step en s = (s1, Ok (Progress observation)) \<Longrightarrow> loop_result en sink s1 k r \<Longrightarrow> loop_result en sink s k r"
  unfolding loop_result_def by (blast intro: run_progress)

lemma loop_result_token:
  assumes "ie_step en s = (s1, Ok (TokenStep token piece terminal observation))"
    and "sink token piece terminal k = (k1, Ok FrontierContinue)" and "loop_result en sink s1 k1 r"
  shows "loop_result en sink s k r"
  unfolding loop_result_def
proof (intro allI impI)
  fix k' result assume "r = (k', Ok result)"
  with assms(3) obtain ps t flow where p: "session_run en s1 ps t" "sink_run sink k1 ps k' flow" "ends_with_result en flow t result"
    unfolding loop_result_def by blast
  from run_token[OF assms(1) p(1)] sink_more[OF assms(2) p(2)] p(3)
  show "\<exists>ps t flow. session_run en s ps t \<and> sink_run sink k ps k' flow \<and> ends_with_result en flow t result" by blast
qed

lemma loop_result_stop:
  assumes "ie_step en s = (s1, Ok (TokenStep token piece terminal observation))"
    and "sink token piece terminal k = (k1, Ok FrontierStop)"
  shows "loop_result en sink s k (k1, snd (ie_finish en s1))"
  unfolding loop_result_def ends_with_result_def
  using run_token[OF assms(1) run_stop] sink_stop[of sink token piece terminal k k1, OF assms(2)] by force

lemma loop_result_finished: "ie_step en s = (s1, Ok (Finished result)) \<Longrightarrow> loop_result en sink s k (k, Ok result)"
  unfolding loop_result_def ends_with_result_def using run_stop[of en s] sink_none[of sink k] by fastforce

lemma loop_result_error [simp]: "loop_result en sink s k (k1, Err e)" "loop_result en sink s k (k1, Abort)"
  by (simp_all add: loop_result_def)

lemma engine_loop_result:
  assumes "engine_loop en sink s k = Some r"
  shows "loop_result en sink s k r"
proof (rule engine_loop.raw_induct[of loop_result, OF _ assms], goal_cases)
  case (1 loop en sink s k r)
  obtain s1 x where s: "ie_step en s = (s1, x)" by (cases "ie_step en s")
  show ?case
  proof (cases x)
    case (Ok step)
    show ?thesis
    proof (cases step)
      case (Progress observation)
      with s Ok 1(2) have "loop en sink s1 k = Some r" by simp
      from loop_result_progress[OF _ 1(1)[OF this]] s Ok Progress show ?thesis by simp
    next
      case (TokenStep token piece terminal observation)
      with s Ok have st: "ie_step en s = (s1, Ok (TokenStep token piece terminal observation))" by simp
      obtain k1 c where c: "sink token piece terminal k = (k1, c)" by (cases "sink token piece terminal k")
      show ?thesis
      proof (cases c)
        case (Ok flow)
        show ?thesis
        proof (cases flow)
          case FrontierContinue
          with 1(2) st c Ok have "loop en sink s1 k1 = Some r" by simp
          from loop_result_token[OF st _ 1(1)[OF this]] c Ok FrontierContinue show ?thesis by simp
        next
          case FrontierStop
          with 1(2) st c Ok loop_result_stop[OF st] show ?thesis by auto
        qed
      qed (use 1(2) st c in auto)
    next
      case (Finished result)
      with s Ok 1(2) loop_result_finished show ?thesis by auto
    qed
  qed (use 1(2) s in auto)
qed

section \<open>The deterministic engine\<close>

definition collect_pieces :: "(int \<times> byte list) list token_sink" where
  "collect_pieces token piece terminal k = (k @ [(token, piece)], Ok FrontierContinue)"

text \<open>What is left to do: the preparation, and the tokens.\<close>

definition deterministic_left :: "DeterministicSession \<Rightarrow> nat" where
  "deterministic_left d = (er_max_tokens (dn_request d) - dn_index d) + (if dn_prepared d then 0 else 1)"

lemma look_fields: "look d = (d', r) \<Longrightarrow> deterministic_left d' = deterministic_left d \<and> dn_prepared d' = dn_prepared d"
  by (auto simp: look_def deterministic_left_def split: list.splits)

lemma deterministic_step_left:
  assumes "deterministic_step d = (d', Ok step)" and "\<not> (\<exists>result. step = Finished result)"
  shows "deterministic_left d' < deterministic_left d"
proof -
  obtain d1 r where l: "look d = (d1, r)" by (cases "look d")
  with assms(1) have r: "r = Ok ()" by (cases r) (auto simp: deterministic_step_def and_then_def)
  have "deterministic_left d' < deterministic_left d1"
    using assms l r by (auto simp: deterministic_step_def deterministic_finish_def deterministic_left_def and_then_def
      split: if_splits outcome.splits prod.splits)
  with look_fields[OF l] show ?thesis by simp
qed

lemma engine_loop_returns:
  assumes "\<And>s s1 step. ie_step en s = (s1, Ok step) \<Longrightarrow> \<not> (\<exists>result. step = Finished result) \<Longrightarrow> f s1 < (f s :: nat)"
  shows "\<exists>r. engine_loop en sink s k = Some r"
proof (induction "f s" arbitrary: s k rule: less_induct)
  case less
  obtain s1 x where s: "ie_step en s = (s1, x)" by (cases "ie_step en s")
  show ?case
  proof (cases x)
    case (Ok step)
    show ?thesis
    proof (cases step)
      case (Progress observation)
      with assms[of s s1 step] s Ok less show ?thesis by (subst engine_loop.simps) simp
    next
      case (TokenStep token piece terminal observation)
      with assms[of s s1 step] s Ok have "f s1 < f s" by simp
      then show ?thesis using s Ok TokenStep less[of s1]
        by (subst engine_loop.simps) (simp split: prod.split outcome.split)
    next
      case (Finished result)
      with s Ok show ?thesis by (subst engine_loop.simps) simp
    qed
  qed (use s in \<open>subst engine_loop.simps, simp\<close>)+
qed

lemma deterministic_from:
  assumes "dn_prepared d" "dn_looks d = []" "dn_pieces d \<noteq> []" "dn_index d \<le> er_max_tokens (dn_request d)"
  shows "engine_loop (deterministic_engine looks) collect_pieces d k = Some (k @ map (\<lambda>i. (deterministic_id i,
      string_bytes (deterministic_piece (dn_pieces d) i))) [dn_index d..<er_max_tokens (dn_request d)], Ok (deterministic_output d))"
  using assms
proof (induction "er_max_tokens (dn_request d) - dn_index d" arbitrary: d k)
  case 0
  then show ?case by (subst engine_loop.simps)
    (simp add: deterministic_engine_def deterministic_step_def deterministic_finish_def look_def and_then_def)
next
  case (Suc n)
  let ?d = "d\<lparr>dn_index := dn_index d + 1\<rparr>" and ?e = "deterministic_engine looks"
  let ?p = "\<lambda>i. (deterministic_id i, string_bytes (deterministic_piece (dn_pieces d) i))"
  from Suc(2) have "dn_index d < er_max_tokens (dn_request d)" by arith
  then have "deterministic_step d = (?d, Ok (TokenStep (fst (?p (dn_index d))) (snd (?p (dn_index d))) False (model_free Decode 1)))"
    using Suc by (simp add: deterministic_step_def look_def)
  then have "engine_loop ?e collect_pieces d k = engine_loop ?e collect_pieces ?d (k @ [?p (dn_index d)])"
    by (subst engine_loop.simps) (simp add: deterministic_engine_def collect_pieces_def)
  also have "\<dots> = Some ((k @ [?p (dn_index d)]) @ map ?p [dn_index d + 1..<er_max_tokens (dn_request d)], Ok (deterministic_output d))"
    using Suc(1)[of ?d "k @ [?p (dn_index d)]"] Suc(2-) by (simp add: deterministic_output_def)
  finally show ?case using Suc(2) by (simp add: upt_rec[of "dn_index d"])
qed

lemma join_words_snoc: "ws \<noteq> [] \<Longrightarrow> join_words (ws @ [w]) = join_words ws @ '' '' @ w"
  by (induction ws rule: join_words.induct) auto

lemma joined_pieces:
  "concat (map (\<lambda>i. deterministic_piece ws i) [0..<n]) = join_words (map (\<lambda>i. ws ! (i mod length ws)) [0..<n])"
proof (induction n)
  case (Suc n)
  show ?case
  proof (cases "n = 0")
    case False
    then have "map (\<lambda>i. ws ! (i mod length ws)) [0..<n] \<noteq> []" by simp
    from join_words_snoc[OF this] Suc False show ?thesis by (simp add: deterministic_piece_def Let_def)
  qed (simp add: deterministic_piece_def)
qed simp

definition reversed_words :: "EngineRequest \<Rightarrow> string list" where
  "reversed_words req = rev (string_words (er_prompt req))"

text \<open>C37: The deterministic engine returns whatever the sink does and whatever the control says. When nothing interrupts it,
  it says the words of the prompt backwards, over and over, until it has said as many as were asked for, and its
  output counts the words of the prompt as evaluated and keeps the prior tokens.\<close>

theorem deterministic_generation:
  "(\<exists>r. engine_generate (deterministic_engine looks) req sink k = Some r) \<and>
    (case engine_generate (deterministic_engine []) req collect_pieces [] of
       Some (ps, Ok result) \<Rightarrow>
         concat (map snd ps) = (if reversed_words req = [] then [] else
           string_bytes (join_words (map (\<lambda>i. reversed_words req ! (i mod length (reversed_words req))) [0..<er_max_tokens req]))) \<and>
         length ps = (if reversed_words req = [] then 0 else er_max_tokens req) \<and>
         eo_evaluated_tokens result = length (reversed_words req) \<and> eo_cached_tokens result = 0 \<and>
         eo_successor_tokens result = er_prior_tokens req
     | _ \<Rightarrow> False)"
proof -
  let ?ws = "reversed_words req" and ?e = "deterministic_engine []"
  have "\<exists>r. engine_generate (deterministic_engine looks) req sink k = Some r"
  proof (cases "ie_start (deterministic_engine looks) req")
    case (Ok s)
    have "\<exists>r. engine_loop (deterministic_engine looks) sink s k = Some r"
      by (rule engine_loop_returns[where f = deterministic_left]) (auto simp: deterministic_engine_def intro: deterministic_step_left)
    with Ok show ?thesis by (simp add: engine_generate_def)
  qed (simp_all add: engine_generate_def)
  moreover define d where "d = \<lparr>dn_request = req, dn_pieces = ?ws, dn_index = 0, dn_prepared = False, dn_looks = []\<rparr>"
  let ?d = "d\<lparr>dn_prepared := True\<rparr>"
  have s: "ie_start ?e req = Ok d" by (simp add: deterministic_engine_def deterministic_start_def look_def d_def reversed_words_def)
  have "deterministic_step d = (?d, Ok (Progress (model_free Preparation (length ?ws))))"
    by (simp add: deterministic_step_def look_def d_def)
  then have g: "engine_generate ?e req collect_pieces [] = engine_loop ?e collect_pieces ?d []"
    unfolding engine_generate_def s by (subst engine_loop.simps) (simp add: deterministic_engine_def)
  have r: "eo_evaluated_tokens (deterministic_output ?d) = length ?ws" "eo_cached_tokens (deterministic_output ?d) = 0"
    "eo_successor_tokens (deterministic_output ?d) = er_prior_tokens req" by (simp_all add: deterministic_output_def d_def Let_def)
  have "\<exists>ps. engine_generate ?e req collect_pieces [] = Some (ps, Ok (deterministic_output ?d)) \<and> length ps = (if ?ws = [] then 0 else er_max_tokens req) \<and>
    concat (map snd ps) = (if ?ws = [] then [] else
      string_bytes (join_words (map (\<lambda>i. ?ws ! (i mod length ?ws)) [0..<er_max_tokens req])))"
  proof (cases "?ws = []")
    case True
    then have "engine_generate ?e req collect_pieces [] = Some ([], Ok (deterministic_output ?d))" unfolding g
      by (subst engine_loop.simps)
        (simp add: deterministic_engine_def deterministic_step_def deterministic_finish_def look_def d_def)
    with True show ?thesis by simp
  next
    case False
    let ?ps = "map (\<lambda>i. (deterministic_id i, string_bytes (deterministic_piece ?ws i))) [0..<er_max_tokens req]"
    from deterministic_from[of ?d "[]" "[]"] False
    have "engine_generate ?e req collect_pieces [] = Some (?ps, Ok (deterministic_output ?d))" unfolding g by (simp add: d_def)
    moreover have "concat (map snd ?ps) = string_bytes (concat (map (\<lambda>i. deterministic_piece ?ws i) [0..<er_max_tokens req]))"
      by (simp add: string_bytes_def map_concat comp_def)
    ultimately show ?thesis using False by (auto simp: joined_pieces)
  qed
  then obtain ps where "engine_generate ?e req collect_pieces [] = Some (ps, Ok (deterministic_output ?d))"
    "length ps = (if ?ws = [] then 0 else er_max_tokens req)"
    "concat (map snd ps) = (if ?ws = [] then [] else
      string_bytes (join_words (map (\<lambda>i. ?ws ! (i mod length ?ws)) [0..<er_max_tokens req])))" by blast
  ultimately show ?thesis using r by simp
qed

end
