(* ===== verification/Context_Props.thy ===== *)
theory Context_Props
  imports Contexts
begin

text \<open>
  No update of a context is lost, and the declarations of a principal stay within their rate.
\<close>

section \<open>Contexts\<close>

text \<open>What is stored under the identifier of a record is that record, or has a greater revision.\<close>

definition at_least :: "ContextRecord \<Rightarrow> contexts \<Rightarrow> bool" where
  "at_least r m \<longleftrightarrow> (\<forall>s. map_of m (cx_id r) = Some s \<longrightarrow> s = r \<or> cx_revision r < cx_revision s)"

text \<open>Reserved identifiers belong to one inference and are not in use.\<close>

definition open_ok :: "contexts \<Rightarrow> string set \<Rightarrow> (nat \<rightharpoonup> ContextRecord option \<times> string) \<Rightarrow> bool" where
  "open_ok m used op \<longleftrightarrow> (\<forall>i snap sid. op i = Some (snap, sid) \<longrightarrow> sid \<in> used \<and>
     (case snap of Some r \<Rightarrow> cx_id r = sid \<and> at_least r m
      | None \<Rightarrow> map_of m sid = None \<and> (\<forall>j x. op j = Some x \<longrightarrow> j \<noteq> i \<longrightarrow> snd x \<noteq> sid)))"

definition keyed :: "contexts \<Rightarrow> string set \<Rightarrow> bool" where
  "keyed m used \<longleftrightarrow> (\<forall>k r. map_of m k = Some r \<longrightarrow> cx_id r = k \<and> k \<in> used)"

definition context_inv :: "ContextSystem \<Rightarrow> bool" where
  "context_inv y \<longleftrightarrow> keyed (cy_contexts y) (set (cy_used y)) \<and>
     open_ok (cy_contexts y) (set (cy_used y)) (map_of (cy_open y))"

lemma keyed_put: "keyed m used \<Longrightarrow> cx_id r = k \<Longrightarrow> k \<in> used \<Longrightarrow> keyed (hm_put k r m) used"
  by (simp add: keyed_def)

lemma keyed_insert [simp]: "keyed m used \<Longrightarrow> keyed m (insert k used)"
  by (auto simp: keyed_def)

lemma keyed_del: "keyed m used \<Longrightarrow> keyed (hm_del k m) used"
  by (simp add: keyed_def)

text \<open>A record under a new identifier is nobody's.\<close>

lemma open_put_fresh:
  assumes "open_ok m used op" and "k \<notin> used"
  shows "open_ok (hm_put k r m) (insert k used) op"
  unfolding open_ok_def
proof (intro allI impI)
  fix i snap sid assume o: "op i = Some (snap, sid)"
  with assms(1) have s: "sid \<in> used" and c: "case snap of Some r \<Rightarrow> cx_id r = sid \<and> at_least r m
      | None \<Rightarrow> map_of m sid = None \<and> (\<forall>j x. op j = Some x \<longrightarrow> j \<noteq> i \<longrightarrow> snd x \<noteq> sid)"
    unfolding open_ok_def by blast+
  from s assms(2) have "sid \<noteq> k" by auto
  with c s show "sid \<in> insert k used \<and> (case snap of Some r' \<Rightarrow> cx_id r' = sid \<and> at_least r' (hm_put k r m)
      | None \<Rightarrow> map_of (hm_put k r m) sid = None \<and> (\<forall>j x. op j = Some x \<longrightarrow> j \<noteq> i \<longrightarrow> snd x \<noteq> sid))"
    by (cases snap) (simp_all add: at_least_def)
qed

lemma open_del: "open_ok m used op \<Longrightarrow> open_ok (hm_del k m) used op"
  unfolding open_ok_def at_least_def by (fastforce split: option.splits if_splits)

lemma open_close: "open_ok m used op \<Longrightarrow> open_ok m used (op(i := None))"
  unfolding open_ok_def by (fastforce split: option.splits if_splits)

lemma open_read:
  assumes "open_ok m used op" and "keyed m used" and "map_of m k = Some r"
  shows "open_ok m used (op(i \<mapsto> (Some r, k)))"
proof -
  have k: "cx_id r = k" "k \<in> used" using assms(2,3) by (auto simp: keyed_def)
  have at: "at_least r m" using assms(3) k by (simp add: at_least_def)
  show ?thesis unfolding open_ok_def
  proof (intro allI impI)
    fix j snap sid assume o: "(op(i \<mapsto> (Some r, k))) j = Some (snap, sid)"
    show "sid \<in> used \<and> (case snap of Some r \<Rightarrow> cx_id r = sid \<and> at_least r m
      | None \<Rightarrow> map_of m sid = None \<and> (\<forall>ja x. (op(i \<mapsto> (Some r, k))) ja = Some x \<longrightarrow> ja \<noteq> j \<longrightarrow> snd x \<noteq> sid))"
    proof (cases "j = i")
      case True with o k at show ?thesis by auto
    next
      case False
      with o have "op j = Some (snap, sid)" by simp
      with assms(1) have s: "sid \<in> used" and c: "case snap of Some r \<Rightarrow> cx_id r = sid \<and> at_least r m
        | None \<Rightarrow> map_of m sid = None \<and> (\<forall>ja x. op ja = Some x \<longrightarrow> ja \<noteq> j \<longrightarrow> snd x \<noteq> sid)"
        unfolding open_ok_def by blast+
      show ?thesis
      proof (cases snap)
        case None
        with c assms(3) have "k \<noteq> sid" by auto
        with None c s show ?thesis by auto
      qed (use s c in simp)
    qed
  qed
qed

lemma open_reserve:
  assumes "open_ok m used op" and "keyed m used" and "k \<notin> used"
  shows "open_ok m (insert k used) (op(i \<mapsto> (None, k)))"
proof -
  have k: "map_of m k = None" using assms(2,3) by (cases "map_of m k") (auto simp: keyed_def)
  have u: "snd x \<in> used" if "op j = Some x" for j x using assms(1) that unfolding open_ok_def by (cases x) auto
  show ?thesis unfolding open_ok_def
  proof (intro allI impI)
    fix j snap sid assume o: "(op(i \<mapsto> (None, k))) j = Some (snap, sid)"
    show "sid \<in> insert k used \<and> (case snap of Some r \<Rightarrow> cx_id r = sid \<and> at_least r m
      | None \<Rightarrow> map_of m sid = None \<and> (\<forall>ja x. (op(i \<mapsto> (None, k))) ja = Some x \<longrightarrow> ja \<noteq> j \<longrightarrow> snd x \<noteq> sid))"
    proof (cases "j = i")
      case True
      with o k u assms(3) show ?thesis by auto
    next
      case False
      with o have "op j = Some (snap, sid)" by simp
      with assms(1) have s: "sid \<in> used" and c: "case snap of Some r \<Rightarrow> cx_id r = sid \<and> at_least r m
        | None \<Rightarrow> map_of m sid = None \<and> (\<forall>ja x. op ja = Some x \<longrightarrow> ja \<noteq> j \<longrightarrow> snd x \<noteq> sid)"
        unfolding open_ok_def by blast+
      from s assms(3) have "k \<noteq> sid" by auto
      with s c show ?thesis by (cases snap) auto
    qed
  qed
qed

text \<open>A commit on a context: whoever read an older record, or the same one, is behind now.\<close>

lemma open_advance:
  assumes "open_ok m used op" and "map_of m k = Some s" and "cx_id t = k" and "cx_revision t = cx_revision s + 1"
  shows "open_ok (hm_put k t m) used op"
  unfolding open_ok_def
proof (intro allI impI)
  fix i snap sid assume o: "op i = Some (snap, sid)"
  with assms(1) have s: "sid \<in> used" and c: "case snap of Some r \<Rightarrow> cx_id r = sid \<and> at_least r m
      | None \<Rightarrow> map_of m sid = None \<and> (\<forall>j x. op j = Some x \<longrightarrow> j \<noteq> i \<longrightarrow> snd x \<noteq> sid)"
    unfolding open_ok_def by blast+
  show "sid \<in> used \<and> (case snap of Some r' \<Rightarrow> cx_id r' = sid \<and> at_least r' (hm_put k t m)
      | None \<Rightarrow> map_of (hm_put k t m) sid = None \<and> (\<forall>j x. op j = Some x \<longrightarrow> j \<noteq> i \<longrightarrow> snd x \<noteq> sid))"
  proof (cases snap)
    case None
    with c assms(2) have "sid \<noteq> k" by auto
    with None c s show ?thesis by simp
  next
    case (Some r)
    with c have c: "cx_id r = sid" "at_least r m" by simp_all
    have "at_least r (hm_put k t m)"
    proof (cases "sid = k")
      case True
      with c assms(2) have "s = r \<or> cx_revision r < cx_revision s" by (simp add: at_least_def)
      with assms(4) True c show ?thesis by (auto simp: at_least_def)
    qed (use c in \<open>simp add: at_least_def\<close>)
    with Some c s show ?thesis by simp
  qed
qed

lemma open_insert_reserved:
  assumes "open_ok m used op" and "op i = Some (None, k)"
  shows "open_ok (hm_put k t m) used (op(i := None))"
  unfolding open_ok_def
proof (intro allI impI)
  fix j snap sid assume o: "(op(i := None)) j = Some (snap, sid)"
  then have j: "j \<noteq> i" "op j = Some (snap, sid)" by (auto split: if_splits)
  with assms have s: "sid \<in> used" and c: "case snap of Some r \<Rightarrow> cx_id r = sid \<and> at_least r m
      | None \<Rightarrow> map_of m sid = None \<and> (\<forall>ja x. op ja = Some x \<longrightarrow> ja \<noteq> j \<longrightarrow> snd x \<noteq> sid)"
    unfolding open_ok_def by blast+
  from assms(1)[unfolded open_ok_def, rule_format, OF assms(2)] have "\<forall>j x. op j = Some x \<longrightarrow> j \<noteq> i \<longrightarrow> snd x \<noteq> k" by simp
  with j have "snd (snap, sid) \<noteq> k" by blast
  then have "sid \<noteq> k" by simp
  with s c show "sid \<in> used \<and> (case snap of Some r \<Rightarrow> cx_id r = sid \<and> at_least r (hm_put k t m)
      | None \<Rightarrow> map_of (hm_put k t m) sid = None \<and>
        (\<forall>ja x. (op(i := None)) ja = Some x \<longrightarrow> ja \<noteq> j \<longrightarrow> snd x \<noteq> sid))"
    by (cases snap) (auto simp: at_least_def split: if_splits)
qed

section \<open>The machine\<close>

lemma context_inv_step:
  assumes "context_step y y'" and "context_inv y"
  shows "context_inv y'"
  using assms
proof (induction rule: context_step.induct)
  case (cstep_create uuid y)
  then show ?case using open_put_fresh[of _ "set (cy_used y)"]
    by (auto simp: context_inv_def create_context_def put_context_def new_context_def intro!: keyed_put)
next
  case (cstep_import uuid y)
  then show ?case using open_put_fresh[of _ "set (cy_used y)"]
    by (auto simp: context_inv_def import_context_def put_context_def new_context_def intro!: keyed_put)
next
  case (cstep_branch uuid y source earlier)
  have "open_ok (cy_contexts y) (insert uuid (set (cy_used y))) (map_of (cy_open y))"
    using cstep_branch by (force simp: context_inv_def open_ok_def)
  with cstep_branch show ?case
    using open_put_fresh[of _ "set (cy_used y)"]
    by (auto simp: context_inv_def branch_context_def put_context_def branch_record_def intro!: keyed_put split: outcome.split)
next
  case (cstep_delete y uuid)
  then show ?case by (auto simp: context_inv_def delete_context_def intro: keyed_del open_del split: option.split)
next
  case (cstep_read y uuid r i)
  then have "map_of (cy_contexts y) uuid = Some r" by (simp add: find_context_def split: option.splits)
  with cstep_read show ?case using open_read by (auto simp: context_inv_def)
next
  case (cstep_fresh uuid y i)
  then show ?case using open_reserve
    by (auto simp: context_inv_def)
next
  case (cstep_commit y i snapshot successor tokens native)
  let ?m = "cy_contexts y" and ?u = "set (cy_used y)" and ?o = "map_of (cy_open y)"
  from cstep_commit have k: "keyed ?m ?u" and o: "open_ok ?m ?u ?o" by (simp_all add: context_inv_def)
  show ?case
  proof (cases snapshot)
    case None
    with cstep_commit(1) o have "successor \<in> ?u" unfolding open_ok_def by blast
    with None k open_insert_reserved[OF o, of i successor] cstep_commit(1) show ?thesis
      by (simp add: context_inv_def commit_context_def keyed_put)
  next
    case (Some r)
    show ?thesis
    proof (cases "map_of ?m (cx_id r)")
      case None
      with Some k o show ?thesis by (simp add: context_inv_def commit_context_def open_close)
    next
      case (Some stored)
      with k have id: "cx_id stored = cx_id r" "cx_id r \<in> ?u" by (auto simp: keyed_def)
      show ?thesis
      proof (cases "cx_revision stored = cx_revision r")
        case True
        let ?t = "stored\<lparr>cx_tokens := tokens, cx_native_tokens := native, cx_revision := cx_revision stored + 1\<rparr>"
        from True cstep_commit(2) \<open>snapshot = Some r\<close> have "(cx_revision stored + 1) mod 2 ^ 64 = cx_revision stored + 1" by simp
        then have c: "fst (commit_context snapshot successor tokens native ?m) = hm_put (cx_id r) ?t ?m"
          using True Some \<open>snapshot = Some r\<close> by (simp add: commit_context_def)
        have "open_ok (hm_put (cx_id r) ?t ?m) ?u ?o" using open_advance[OF o Some, of ?t] id by simp
        moreover have "keyed (hm_put (cx_id r) ?t ?m) ?u" using keyed_put[OF k, of ?t] id by simp
        ultimately show ?thesis using c by (simp add: context_inv_def open_close)
      qed (use Some k o \<open>snapshot = Some r\<close> in \<open>simp add: context_inv_def commit_context_def open_close\<close>)
    qed
  qed
next
  case (cstep_give_up y i)
  then show ?case by (simp add: context_inv_def open_close)
qed

lemma context_inv_init: "context_init y \<Longrightarrow> context_inv y"
  by (simp add: context_init_def context_inv_def keyed_def open_ok_def)

interpretation context_machine: safe_machine context_init context_step context_inv
  by unfold_locales (fact context_inv_init, fact context_inv_step)

lemma context_reach_inv: "context_reach y \<Longrightarrow> context_inv y"
  unfolding context_reach_def by (rule context_machine.reach_inv)

text \<open>C7: No update of a context is lost. Whatever other inferences, deletions and branches did meanwhile, a
  commit on a context that succeeds replaces exactly the record its inference read, by the next revision;
  every other inference that read the context before then fails to commit.\<close>

theorem context_no_lost_update:
  assumes "context_reach y" and "map_of (cy_open y) i = Some (Some r, successor)"
    and "cx_revision r + 1 < 2 ^ 64"
    and "commit_context (Some r) successor tokens native (cy_contexts y) = (m, Ok uuid)"
  shows "map_of (cy_contexts y) uuid = Some r \<and> successor = uuid \<and>
    m = hm_put uuid \<lparr>cx_id = uuid, cx_revision = cx_revision r + 1, cx_tokens = tokens, cx_native_tokens = native\<rparr> (cy_contexts y) \<and>
    (\<forall>j t. map_of (cy_open y) j = Some (Some t, uuid) \<longrightarrow>
      snd (commit_context (Some t) uuid tokens' native' m) = Err (StateError ''context changed during compaction''))"
proof -
  let ?m = "cy_contexts y"
  from context_reach_inv[OF assms(1)] have k: "keyed ?m (set (cy_used y))" and o: "open_ok ?m (set (cy_used y)) (map_of (cy_open y))"
    by (simp_all add: context_inv_def)
  have snap: "cx_id t = sid \<and> at_least t ?m" if "map_of (cy_open y) j = Some (Some t, sid)" for j t sid
    using o[unfolded open_ok_def, rule_format, OF that] by simp
  from assms(4) obtain stored where st: "map_of ?m (cx_id r) = Some stored" "cx_revision stored = cx_revision r"
    and m: "m = hm_put (cx_id r) (stored\<lparr>cx_tokens := tokens, cx_native_tokens := native,
      cx_revision := (cx_revision stored + 1) mod 2 ^ 64\<rparr>) ?m" and u: "uuid = cx_id stored"
    by (auto simp: commit_context_def split: option.splits if_splits)
  from snap[OF assms(2)] st have eq: "stored = r" "cx_id r = successor" by (auto simp: at_least_def)
  have "(cx_revision r + 1) mod 2 ^ 64 = cx_revision r + 1" using assms(3) by simp
  then have m': "m = hm_put uuid \<lparr>cx_id = uuid, cx_revision = cx_revision r + 1, cx_tokens = tokens, cx_native_tokens = native\<rparr> ?m"
    using m eq u by (cases r) simp
  have "snd (commit_context (Some t) uuid tokens' native' m) = Err (StateError ''context changed during compaction'')"
    if j: "map_of (cy_open y) j = Some (Some t, uuid)" for j t
  proof -
    from snap[OF j] st eq u have "cx_id t = uuid" "cx_revision t \<le> cx_revision r" by (auto simp: at_least_def)
    with m' show ?thesis by (simp add: commit_context_def)
  qed
  with m' eq u st show ?thesis by auto
qed

theorem context_no_lost_update_witness:
  "\<exists>y. context_reach y \<and> (let r = new_context ''c'' [] in
     map_of (cy_open y) 2 = Some (Some r, ''c'') \<and> map_of (cy_open y) 3 = Some (Some r, ''c'') \<and>
     (case commit_context (Some r) ''c'' [''a''] [7] (cy_contexts y) of (m, res) \<Rightarrow> res = Ok ''c'' \<and>
       snd (commit_context (Some r) ''c'' [''b''] [8] m) = Err (StateError ''context changed during compaction'')))"
proof -
  let ?r = "new_context ''c'' []"
  let ?y1 = "\<lparr>cy_contexts = [(''c'', ?r)], cy_used = [''c''], cy_open = []\<rparr>"
  let ?y = "?y1\<lparr>cy_open := [(2, (Some ?r, ''c'')), (3, (Some ?r, ''c''))]\<rparr>"
  let ?none = "\<lparr>cy_contexts = [], cy_used = [], cy_open = []\<rparr>"
  let ?y2 = "?y1\<lparr>cy_open := [(2, (Some ?r, ''c''))]\<rparr>"
  have "context_step ?none ?y1" "context_step ?y1 ?y2" "context_step ?y2 ?y"
    using cstep_create[of "''c''" ?none] cstep_read[of ?y1 "''c''" ?r 2] cstep_read[of ?y2 "''c''" ?r 3]
    by (simp_all add: create_context_def put_context_def new_context_def find_context_def hm_has_def del: One_nat_def)
  moreover have "reach context_init context_step ?none" by (rule reach_init) (simp add: context_init_def)
  ultimately have y: "context_reach ?y" unfolding context_reach_def by (blast intro: reach_step)
  have c: "commit_context (Some ?r) ''c'' [''a''] [7] (cy_contexts ?y) =
    ([(''c'', \<lparr>cx_id = ''c'', cx_revision = 1, cx_tokens = [''a''], cx_native_tokens = [7]\<rparr>)], Ok ''c'')"
    by (simp add: commit_context_def new_context_def)
  have o: "map_of (cy_open ?y) 2 = Some (Some ?r, ''c'')" "map_of (cy_open ?y) 3 = Some (Some ?r, ''c'')" by simp_all
  have "cx_revision ?r + 1 < 2 ^ 64" by (simp add: new_context_def)
  from context_no_lost_update[OF y o(1) this c, of "[''b'']" "[8]"] o(2) have "snd (commit_context (Some ?r) ''c'' [''b''] [8]
      [(''c'', \<lparr>cx_id = ''c'', cx_revision = 1, cx_tokens = [''a''], cx_native_tokens = [7]\<rparr>)]) =
      Err (StateError ''context changed during compaction'')" by blast
  then show ?thesis unfolding Let_def by (intro exI[of _ ?y] conjI y o) (simp only: c prod.case)
qed

section \<open>Declarations\<close>

definition granted_to :: "string \<Rightarrow> (string \<times> nat) list \<Rightarrow> nat list" where
  "granted_to p gs = map snd (filter (\<lambda>g. fst g = p) gs)"

definition within_minute :: "nat \<Rightarrow> nat \<Rightarrow> bool" where
  "within_minute latest c \<longleftrightarrow> latest < c + 60000"

text \<open>Of the creations of the last minute, none has been forgotten.\<close>

definition times_complete :: "nat \<Rightarrow> (string \<times> nat) list \<Rightarrow> (string, nat list) hm \<Rightarrow> bool" where
  "times_complete latest gs ct \<longleftrightarrow> 60000 \<le> latest \<and> hm_ok ct \<and>
     (\<forall>p. filter (within_minute latest) (times_of ct p) = filter (within_minute latest) (granted_to p gs))"

definition declaration_inv :: "DeclarationSystem \<Rightarrow> bool" where
  "declaration_inv y \<longleftrightarrow> times_complete (dy_latest y) (dy_granted y) (ds_creation_times (dy_state y))"

lemma filter_dropWhile: "(\<And>x. Q x \<Longrightarrow> \<not> P x) \<Longrightarrow> filter P (dropWhile Q xs) = filter P xs"
  by (induction xs) auto

lemma map_of_filter_map:
  "distinct (map fst m) \<Longrightarrow> map_of (filter (\<lambda>(_, x). P x) (map (\<lambda>(k, x). (k, f x)) m)) k =
     (case map_of m k of None \<Rightarrow> None | Some x \<Rightarrow> if P (f x) then Some (f x) else None)"
proof (induction m)
  case (Cons p m)
  obtain q b where p: "p = (q, b)" by (cases p)
  with Cons have "map_of m q = None" by (simp add: map_of_eq_None_iff)
  with Cons p show ?case by (cases "q = k") (simp_all split: option.split)
qed simp

lemma times_or_nil: "(case if xs \<noteq> [] then Some xs else None of None \<Rightarrow> [] | Some ts \<Rightarrow> ts) = xs"
  by simp

lemma times_of_recent: "hm_ok ct \<Longrightarrow> times_of (recent_times now ct) p = dropWhile (\<lambda>c. 60000 \<le> now - c) (times_of ct p)"
  unfolding times_of_def recent_times_def hm_ok_def
  by (subst map_of_filter_map, simp, cases "map_of ct p") (simp_all add: times_or_nil del: dropWhile_eq_Nil_conv)

lemma hm_ok_recent: "hm_ok ct \<Longrightarrow> hm_ok (recent_times now ct)"
  by (simp add: hm_ok_def recent_times_def distinct_map_filter comp_def case_prod_unfold)

lemma times_of_put [simp]: "times_of (hm_put p ts ct) q = (if q = p then ts else times_of ct q)"
  by (simp add: times_of_def)

lemma granted_to_snoc [simp]: "granted_to p (gs @ [(q, c)]) = granted_to p gs @ (if q = p then [c] else [])"
  by (simp add: granted_to_def)

text \<open>Times that are dropped are a minute old at the time a creation read.\<close>

lemma times_complete_mono:
  assumes "times_complete l gs ct" and "l \<le> k"
  shows "times_complete k gs ct"
proof -
  have w: "filter (within_minute k) xs = filter (within_minute k) (filter (within_minute l) xs)" for xs
    unfolding filter_filter using assms(2) by (intro filter_cong) (auto simp: within_minute_def)
  show ?thesis unfolding times_complete_def
  proof (intro conjI allI)
    fix p
    from assms(1) have "filter (within_minute l) (times_of ct p) = filter (within_minute l) (granted_to p gs)"
      by (simp add: times_complete_def)
    then show "filter (within_minute k) (times_of ct p) = filter (within_minute k) (granted_to p gs)"
      using w[of "times_of ct p"] w[of "granted_to p gs"] by simp
  qed (use assms in \<open>simp_all add: times_complete_def\<close>)
qed

lemma times_complete_recent:
  assumes "times_complete l gs ct" and "now \<le> l"
  shows "times_complete l gs (recent_times now ct)"
proof -
  have "filter (within_minute l) (dropWhile (\<lambda>c. 60000 \<le> now - c) xs) = filter (within_minute l) xs" for xs
    using assms(2) by (intro filter_dropWhile) (auto simp: within_minute_def)
  with assms(1) show ?thesis by (simp add: times_complete_def hm_ok_recent times_of_recent)
qed

lemma times_complete_put:
  assumes "times_complete latest gs ct" and "now \<le> latest"
  shows "times_complete latest gs (hm_put p (dropWhile (\<lambda>c. c \<le> now - 60000) (times_of ct p)) ct)"
    and "times_complete latest (gs @ [(p, c)]) (hm_put p (dropWhile (\<lambda>c. c \<le> now - 60000) (times_of ct p) @ [c]) ct)"
proof -
  have "filter (within_minute latest) (dropWhile (\<lambda>c. c \<le> now - 60000) xs) = filter (within_minute latest) xs" for xs
    using assms by (intro filter_dropWhile) (auto simp: within_minute_def times_complete_def)
  with assms(1) show "times_complete latest gs (hm_put p (dropWhile (\<lambda>c. c \<le> now - 60000) (times_of ct p)) ct)"
    and "times_complete latest (gs @ [(p, c)]) (hm_put p (dropWhile (\<lambda>c. c \<le> now - 60000) (times_of ct p) @ [c]) ct)"
    by (simp_all add: times_complete_def)
qed

lemma declaration_inv_step:
  assumes "declaration_step y y'" and "declaration_inv y"
  shows "declaration_inv y'"
  using assms
proof (induction rule: declaration_step.induct)
  case (dstep_create y uuid owner now config q)
  let ?ct = "ds_creation_times (dy_state y)" and ?l = "max now (dy_latest y)"
  have "times_complete (dy_latest y) (dy_granted y) ?ct" using dstep_create(2) by (simp add: declaration_inv_def)
  then have m: "times_complete ?l (dy_granted y) ?ct" by (rule times_complete_mono) simp
  note c = times_complete_recent[OF m max.cobounded1]
  note p = times_complete_put[OF c max.cobounded1]
  show ?case
    using m c p[of owner] by (auto simp: declaration_inv_def declared_def create_compaction_declaration_for_def Let_def)
next
  case (dstep_get y clock owner uuid)
  then show ?case by (auto simp: declaration_inv_def compaction_declaration_for_def split: option.split)
next
  case (dstep_revoke y owner uuid)
  then show ?case by (auto simp: declaration_inv_def revoke_compaction_declaration_for_def split: option.split)
qed

lemma declaration_inv_init: "declaration_init y \<Longrightarrow> declaration_inv y"
  by (simp add: declaration_init_def declaration_inv_def times_complete_def times_of_def granted_to_def hm_ok_def)

interpretation declaration_machine: safe_machine declaration_init declaration_step declaration_inv
  by unfold_locales (fact declaration_inv_init, fact declaration_inv_step)

lemma length_hm_put: "length (hm_put k v m) \<le> length m + 1"
  by (induction m) auto

lemma list_all_hm_put: "list_all (\<lambda>x. P (snd x)) m \<Longrightarrow> P v \<Longrightarrow> list_all (\<lambda>x. P (snd x)) (hm_put k v m)"
  by (induction m) auto

text \<open>C38: Declarations are rationed. When a declaration is accepted, the principal has had at most the configured
  number of them accepted in the last minute, this one included, and the table holds at most the configured number,
  none of them expired; from then on the declaration is given to its principal until it expires, and to nobody else.\<close>

theorem declarations_rationed:
  assumes "declaration_reach y"
    and "create_compaction_declaration_for uuid (Some now) config p q (dy_state y) = (s, Ok d)"
  shows "length (filter (within_minute (max now (dy_latest y))) (granted_to p (dy_granted y @ [(p, now)])))
      \<le> sg_declaration_rate_per_minute config \<and>
    length (ds_records s) \<le> sg_compaction_declarations config \<and>
    list_all (\<lambda>x. now < cd_expires_at_ms (dr_declaration (snd x)) \<or> dr_declaration (snd x) = d) (ds_records s) \<and>
    (\<forall>t who. snd (compaction_declaration_for (Some t) who uuid s) =
      (if cd_expires_at_ms d \<le> t then Err (BadRequest ''compaction declaration expired'')
       else if p \<noteq> who then Err Forbidden else Ok d))"
proof -
  let ?l = "max now (dy_latest y)" and ?ct = "ds_creation_times (dy_state y)"
  let ?rs = "live_records now (ds_records (dy_state y))"
  let ?recent = "dropWhile (\<lambda>c. c \<le> now - 60000) (times_of (recent_times now ?ct) p)"
  from assms(2) have d: "d = new_declaration uuid now q"
    and s: "s = \<lparr>ds_records = hm_put uuid \<lparr>dr_declaration = d, dr_principal = p\<rparr> ?rs,
      ds_creation_times = hm_put p (?recent @ [now]) (recent_times now ?ct)\<rparr>"
    and n: "length ?rs < sg_compaction_declarations config" "length ?recent < sg_declaration_rate_per_minute config"
    by (auto simp: create_compaction_declaration_for_def Let_def split: if_splits)
  from assms(1) have "declaration_inv y" unfolding declaration_reach_def by (rule declaration_machine.reach_inv)
  then have "times_complete (dy_latest y) (dy_granted y) ?ct" by (simp add: declaration_inv_def)
  then have "times_complete ?l (dy_granted y) ?ct" by (rule times_complete_mono) simp
  from times_complete_put(2)[OF times_complete_recent[OF this max.cobounded1] max.cobounded1, of p now]
  have "filter (within_minute ?l) (?recent @ [now]) = filter (within_minute ?l) (granted_to p (dy_granted y @ [(p, now)]))"
    unfolding times_complete_def by (elim conjE allE[of _ p]) (simp only: times_of_put if_True simp_thms)
  moreover have "length (filter (within_minute ?l) (?recent @ [now])) \<le> length ?recent + 1"
    by (rule order_trans[OF length_filter_le]) simp
  ultimately have "length (filter (within_minute ?l) (granted_to p (dy_granted y @ [(p, now)]))) \<le> length ?recent + 1"
    by (simp only:)
  then have rate: "length (filter (within_minute ?l) (granted_to p (dy_granted y @ [(p, now)])))
      \<le> sg_declaration_rate_per_minute config" using n(2) by linarith
  have "length (ds_records s) \<le> sg_compaction_declarations config"
    using length_hm_put[of uuid "\<lparr>dr_declaration = d, dr_principal = p\<rparr>" ?rs] n(1) s by simp
  moreover have "list_all (\<lambda>x. now < cd_expires_at_ms (dr_declaration (snd x)) \<or> dr_declaration (snd x) = d) ?rs"
    by (auto simp: live_records_def list_all_iff)
  then have "list_all (\<lambda>x. now < cd_expires_at_ms (dr_declaration (snd x)) \<or> dr_declaration (snd x) = d) (ds_records s)"
    unfolding s DeclarationState.simps
    by (rule list_all_hm_put[where P = "\<lambda>r. now < cd_expires_at_ms (dr_declaration r) \<or> dr_declaration r = d"]) simp_all
  moreover have "snd (compaction_declaration_for (Some t) who uuid s) = (if cd_expires_at_ms d \<le> t
      then Err (BadRequest ''compaction declaration expired'') else if p \<noteq> who then Err Forbidden else Ok d)" for t who
    using s by (simp add: compaction_declaration_for_def)
  ultimately show ?thesis using rate by blast
qed

definition one_per_minute :: ServerConfig where
  "one_per_minute = \<lparr>sg_active_requests = 1, sg_queue_count = 1, sg_queue_bytes = 1, sg_request_bytes = 1,
     sg_pre_queue_concurrency = 1, sg_default_output_tokens = 1, sg_header_bytes = 1, sg_body_timeout_ms = 1,
     sg_wall_time_ms = 1, sg_active_time_ms = 1, sg_stream_buffer = 1, sg_shutdown_grace_ms = 1,
     sg_compaction_enabled = True, sg_compaction_workers = 1, sg_compaction_declarations = 5,
     sg_declaration_rate_per_minute = 1, sg_declaration_lifetime_ms = 5000\<rparr>"

theorem declarations_rationed_witness:
  "\<exists>y s d. declaration_reach y \<and>
     create_compaction_declaration_for ''u'' (Some 100000) one_per_minute ''ann''
       \<lparr>dq_context_id = ''c'', dq_strategy_preferences = [], dq_target_tokens = None, dq_expires_in_ms = 1000\<rparr> (dy_state y) = (s, Ok d) \<and>
     length (ds_records s) \<le> 5 \<and> snd (compaction_declaration_for (Some 100500) ''ann'' ''u'' s) = Ok d \<and>
     snd (compaction_declaration_for (Some 100500) ''bob'' ''u'' s) = Err Forbidden \<and>
     snd (create_compaction_declaration_for ''v'' (Some 100500) one_per_minute ''ann''
       \<lparr>dq_context_id = ''c'', dq_strategy_preferences = [], dq_target_tokens = None, dq_expires_in_ms = 1000\<rparr> s) = Err Busy"
proof -
  let ?q = "\<lparr>dq_context_id = ''c'', dq_strategy_preferences = [], dq_target_tokens = None, dq_expires_in_ms = 1000\<rparr>"
  let ?y = "\<lparr>dy_state = \<lparr>ds_records = [], ds_creation_times = []\<rparr>, dy_granted = [], dy_latest = 60000\<rparr>"
  let ?d = "new_declaration ''u'' 100000 ?q"
  let ?s = "\<lparr>ds_records = [(''u'', \<lparr>dr_declaration = ?d, dr_principal = ''ann''\<rparr>)], ds_creation_times = [(''ann'', [100000])]\<rparr>"
  have y: "declaration_reach ?y" unfolding declaration_reach_def by (rule reach_init) (simp add: declaration_init_def)
  have c: "create_compaction_declaration_for ''u'' (Some 100000) one_per_minute ''ann'' ?q (dy_state ?y) = (?s, Ok ?d)"
    by (simp add: create_compaction_declaration_for_def one_per_minute_def live_records_def recent_times_def times_of_def Let_def)
  have e: "cd_expires_at_ms ?d = 101000" by (simp add: new_declaration_def saturating_add_code)
  have b: "snd (create_compaction_declaration_for ''v'' (Some 100500) one_per_minute ''ann'' ?q ?s) = Err Busy"
    by (simp add: create_compaction_declaration_for_def one_per_minute_def live_records_def recent_times_def times_of_def Let_def e)
  from declarations_rationed[OF y c] have "length (ds_records ?s) \<le> 5"
    and "snd (compaction_declaration_for (Some 100500) ''ann'' ''u'' ?s) = Ok ?d"
    and "snd (compaction_declaration_for (Some 100500) ''bob'' ''u'' ?s) = Err Forbidden"
    by (auto simp: e one_per_minute_def)
  with y c b show ?thesis by blast
qed

end
