(* ===== verification/Inference_Props.thy ===== *)
theory Inference_Props
  imports Inference Engine_Loop_Props Generation_Props Context_Props
begin

text \<open>An inference against its reference: what is answered, streamed and committed is what the frontier makes of the
  pieces the engine's session hands out.\<close>

section \<open>Emitters that never fail\<close>

text \<open>A run with such an emitter is the run that collects, with its deltas read off at the end.\<close>

definition run_image :: "('a \<Rightarrow> 'b) \<Rightarrow> 'a frontier_run \<times> ('e, 'r) outcome \<Rightarrow> 'b frontier_run \<times> ('e, 'r) outcome" where
  "run_image h x = (case x of ((g, w), r) \<Rightarrow> ((g, h w), r))"

definition faithful :: "'w emitter \<Rightarrow> (unicode list \<Rightarrow> 'w) \<Rightarrow> bool" where
  "faithful emit h \<longleftrightarrow> (\<forall>delta ds. emit delta (h ds) = (h (ds @ [delta]), Ok ()))"

lemma run_image_pair [simp]: "run_image h ((g, w), r) = ((g, h w), r)"
  by (simp add: run_image_def)

lemma mapped_and_then:
  assumes "\<And>a g w. snd x = Ok a \<Longrightarrow> f a (g, h w) = run_image h (f' a (g, w))"
  shows "and_then (run_image h x) f = run_image h (and_then x f')"
  using assms by (cases x) (auto simp: run_image_def and_then_def split: outcome.split prod.split)

lemma emit_prefix_mapped:
  "faithful emit h \<Longrightarrow> emit_prefix n flush emit (g, h w) = run_image h (emit_prefix n flush collect (g, w))"
  by (simp add: emit_prefix_def run_image_def faithful_def collect_def Let_def)

lemma frontier_push_mapped:
  assumes "faithful emit h"
  shows "frontier_push piece terminal emit (g, h w) = run_image h (frontier_push piece terminal collect (g, w))"
  unfolding frontier_push_def Let_def fst_conv snd_conv emit_prefix_mapped[OF assms]
  by (auto split: option.split intro!: mapped_and_then)

lemma frontier_pushes_mapped:
  "faithful emit h \<Longrightarrow> frontier_pushes emit ps (g, h w) = run_image h (frontier_pushes collect ps (g, w))"
proof (induction ps arbitrary: g w)
  case (Cons p ps)
  obtain piece terminal where p: "p = (piece, terminal)" by (cases p)
  show ?case unfolding p frontier_pushes.simps frontier_push_mapped[OF Cons(2)]
    by (rule mapped_and_then) (rule Cons(1)[OF Cons(2)])
qed simp

lemma frontier_finish_mapped:
  assumes "faithful emit h"
  shows "frontier_finish emit (g, h w) = run_image h (frontier_finish collect (g, w))"
proof -
  have "(if gf_finish_reason g = None then and_then (emit_prefix (length (gf_pending g)) True emit (g, h w)) (\<lambda>_ z.
      (((fst z)\<lparr>gf_finish_reason := Some ReasonLength\<rparr>, snd z), Ok ())) else ((g, h w), Ok ())) =
    run_image h (if gf_finish_reason g = None then and_then (emit_prefix (length (gf_pending g)) True collect (g, w)) (\<lambda>_ z.
      (((fst z)\<lparr>gf_finish_reason := Some ReasonLength\<rparr>, snd z), Ok ())) else ((g, w), Ok ()))"
    unfolding emit_prefix_mapped[OF assms] by (auto intro!: mapped_and_then)
  then show ?thesis unfolding frontier_finish_def fst_conv by (auto intro!: mapped_and_then split: option.split)
qed

lemma frontier_stream_mapped:
  "faithful emit h \<Longrightarrow> frontier_stream emit ps (g, h w) = run_image h (frontier_stream collect ps (g, w))"
  unfolding frontier_stream_def
  by (simp only: frontier_pushes_mapped) (rule mapped_and_then, rule frontier_finish_mapped)

section \<open>The events of an inference\<close>

text \<open>What \<open>emit_delta keep_event\<close> keeps: the events so far, the deltas as numbered tokens, and the next number.\<close>

definition numbered_events :: "unicode list \<Rightarrow> StreamEvent list" where
  "numbered_events ds = map (\<lambda>(i, d). StreamToken (text_string d) i) (enumerate 0 ds)"

definition kept_events :: "StreamEvent list \<Rightarrow> unicode list \<Rightarrow> StreamEvent list \<times> nat" where
  "kept_events es ds = (es @ numbered_events ds, length ds)"

lemma keep_event_faithful: "faithful (emit_delta keep_event) (kept_events es)"
  by (simp add: faithful_def kept_events_def numbered_events_def emit_delta_def keep_event_def enumerate_append_eq)

section \<open>The sink and the frontier\<close>

lemma decode_sink_push:
  assumes "decode_sink a deadline emit token piece terminal (n, z) = ((n1, z1), Ok flow)"
  shows "frontier_push piece terminal (emit_delta emit) z = (z1, Ok flow)"
  using assms by (auto simp: decode_sink_def Let_def split: outcome.splits prod.splits)

lemma sink_run_pushes:
  "sink_run (decode_sink a deadline emit) k ps k' flow \<Longrightarrow> frontier_pushes (emit_delta emit) ps (snd k) = (snd k', Ok ())"
proof (induction rule: sink_run.induct)
  case (sink_more token piece terminal k k1 ps k2 flow)
  obtain n z where k: "k = (n, z)" by (cases k)
  obtain n1 z1 where k1: "k1 = (n1, z1)" by (cases k1)
  from decode_sink_push[OF sink_more(1)[unfolded k k1]] sink_more(3) show ?case by (simp add: k k1)
next
  case (sink_stop token piece terminal k k1)
  obtain n z where k: "k = (n, z)" by (cases k)
  obtain n1 z1 where k1: "k1 = (n1, z1)" by (cases k1)
  from decode_sink_push[OF sink_stop[unfolded k k1]] show ?case by (simp add: k k1)
qed simp

text \<open>What a session that was started for a request handed out before it ended with a result.\<close>

definition handed_out :: "'s InferEngine \<Rightarrow> EngineRequest \<Rightarrow> (byte list \<times> bool) list \<Rightarrow> EngineOutput \<Rightarrow> bool" where
  "handed_out en ereq ps generated \<longleftrightarrow>
     (\<exists>s t flow. ie_start en ereq = Ok s \<and> session_run en s ps t \<and> ends_with_result en flow t generated)"

text \<open>A generation that succeeds: a run of a session of the engine, and the stream of its pieces.\<close>

lemma generation_streams:
  assumes "run_generation en a req ereq frontier emit e = Some (e1, Ok (generated, result))"
  shows "\<exists>ps z. handed_out en ereq ps generated \<and>
    frontier_stream (emit_delta emit) ps (frontier, e, 0) = (z, Ok result) \<and> e1 = fst (snd z)"
proof -
  let ?sink = "decode_sink a (iq_deadline_ms req \<noteq> None) emit"
  from assms obtain n z r where g': "engine_generate en ereq ?sink (0, frontier, e, 0) = Some ((n, z), r)"
    by (auto simp: run_generation_def)
  from assms g' obtain x where r: "r = Ok x" by (cases r) (simp_all add: run_generation_def)
  obtain z1 r1 where z: "frontier_finish (emit_delta emit) z = (z1, r1)" by (cases "frontier_finish (emit_delta emit) z")
  from assms g' r z have "e1 = fst (snd z1)" and "outcome_bind r1 (\<lambda>result. outcome_bind (state_check (ia_at_end a)) (\<lambda>_.
      if iq_deadline_ms req \<noteq> None \<and> ia_overdue a then Err Deadline else Ok (x, result))) = Ok (generated, result)"
    by (auto simp: run_generation_def)
  then have "r1 = Ok result" "x = generated" by (auto simp: outcome_bind_def split: outcome.splits if_splits)
  with g' r have g: "engine_generate en ereq ?sink (0, frontier, e, 0) = Some ((n, z), Ok generated)" by simp
  have f: "\<exists>z1. frontier_finish (emit_delta emit) z = (z1, Ok result) \<and> e1 = fst (snd z1)"
    using z \<open>r1 = Ok result\<close> \<open>e1 = fst (snd z1)\<close> by blast
  from g obtain s where s: "ie_start en ereq = Ok s" "engine_loop en ?sink s (0, frontier, e, 0) = Some ((n, z), Ok generated)"
    by (auto simp: engine_generate_def split: outcome.splits)
  from engine_loop_result[OF s(2)] obtain ps t flow where p: "session_run en s ps t"
    "sink_run ?sink (0, frontier, e, 0) ps (n, z) flow" "ends_with_result en flow t generated"
    unfolding loop_result_def by blast
  from sink_run_pushes[OF p(2)] have "frontier_pushes (emit_delta emit) ps (frontier, e, 0) = (z, Ok ())" by simp
  with f have "\<exists>z1. frontier_stream (emit_delta emit) ps (frontier, e, 0) = (z1, Ok result) \<and> e1 = fst (snd z1)"
    by (simp add: frontier_stream_def)
  with s p show ?thesis unfolding handed_out_def by blast
qed

section \<open>The whole inference\<close>

lemma outcome_bind_Ok_iff: "outcome_bind r f = Ok x \<longleftrightarrow> (\<exists>y. r = Ok y \<and> f y = Ok x)"
  by (auto simp: outcome_bind_def split: outcome.splits)

lemma map_ok_Ok: "map_ok f r = Ok x \<longleftrightarrow> (\<exists>y. r = Ok y \<and> f y = x)"
  by (auto simp: map_ok_def split: outcome.splits)

lemma open_frontier_opens:
  assumes "open_frontier find_model req = Ok g"
  obtains model where "find_model (iq_model req) = Ok model" and
    "frontier_with_limit (map string_bytes (effective_stop_sequences (iq_stop req) (mr_family model)))
       (iq_raw_continuation req) MAX_EFFECTIVE_STOP_SEQUENCES = Ok g"
proof -
  from assms obtain model where m: "find_model (iq_model req) = Ok model" by (auto simp: open_frontier_def outcome_bind_Ok_iff)
  with assms have "frontier_with_limit (map string_bytes (effective_stop_sequences (iq_stop req) (mr_family model)))
       (iq_raw_continuation req) MAX_EFFECTIVE_STOP_SEQUENCES = Ok g"
    by (cases "frontier_with_limit (map string_bytes (effective_stop_sequences (iq_stop req) (mr_family model)))
       (iq_raw_continuation req) MAX_EFFECTIVE_STOP_SEQUENCES")
      (simp_all add: open_frontier_def outcome_bind_def frontier_new_effective_def)
  with m that show ?thesis by blast
qed

lemma infer_admitted_Ok:
  assumes "infer_admitted find_model prep en a request req successor frontier emit m v = Some (w, Ok (response, terminal))"
  shows "\<exists>compaction control model snap tokens prior account e generated result.
    snd (resolve_compaction (ia_clock a) req (iv_declarations v)) = Ok compaction \<and>
    begin_inference find_model m a req = Ok (control, model, snap) \<and>
    prepare_context prep a req control model compaction snap = Some (Ok (tokens, prior, account)) \<and>
    run_generation en a req (engine_request model (iq_prompt req) (iq_max_tokens req) prior control req) frontier emit (iv_emitted v)
      = Some (e, Ok (generated, result)) \<and> iv_emitted w = e \<and>
    (\<exists>uuid. commit_context snap successor (tokens @ string_words (iq_prompt req) @ text_words (fr_text result))
       (eo_successor_tokens generated) (iv_contexts v) = (iv_contexts w, Ok uuid) \<and>
      (let usage = inference_usage a req model uuid account generated result in
        response = \<lparr>ip_id = request, ip_text = text_string (fr_text result), ip_usage = usage\<rparr> \<and>
        terminal = StreamFinished (fr_finish_reason result) usage))"
proof -
  obtain ds r where d: "resolve_compaction (ia_clock a) req (iv_declarations v) = (ds, r)"
    by (cases "resolve_compaction (ia_clock a) req (iv_declarations v)")
  let ?v = "v\<lparr>iv_declarations := ds\<rparr>"
  from assms d obtain compaction control model snap where
    o: "outcome_bind r (\<lambda>compaction. map_ok (Pair compaction) (begin_inference find_model m a req)) = Ok (compaction, control, model, snap)"
    by (cases "outcome_bind r (\<lambda>compaction. map_ok (Pair compaction) (begin_inference find_model m a req))")
      (auto simp: infer_admitted_def Let_def)
  then have b: "r = Ok compaction" "begin_inference find_model m a req = Ok (control, model, snap)"
    by (auto simp: outcome_bind_Ok_iff map_ok_Ok)
  have "\<exists>c. prepare_context prep a req control model compaction snap = Some (Ok c)"
  proof (cases "prepare_context prep a req control model compaction snap")
    case (Some p)
    with assms d o show ?thesis by (cases p) (auto simp: infer_admitted_def Let_def)
  qed (use assms d o in \<open>simp add: infer_admitted_def Let_def\<close>)
  then obtain c where p: "prepare_context prep a req control model compaction snap = Some (Ok c)" by blast
  obtain tokens prior account where c: "c = (tokens, prior, account)" by (cases c)
  let ?run = "run_generation en a req (engine_request model (iq_prompt req) (iq_max_tokens req) prior control req) frontier emit (iv_emitted v)"
  from assms d o p c obtain e x where g: "?run = Some (e, x)"
    by (auto simp: infer_admitted_def Let_def)
  with assms d o p c have k: "and_then (?v\<lparr>iv_emitted := e\<rparr>, x) (commit_inference request a req successor model snap c) = (w, Ok (response, terminal))"
    by (simp add: infer_admitted_def Let_def)
  then obtain y where x: "x = Ok y" by (cases x) (simp_all add: and_then_def)
  obtain generated result where y: "y = (generated, result)" by (cases y)
  obtain m1 q where q: "commit_context snap successor (tokens @ string_words (iq_prompt req) @ text_words (fr_text result))
      (eo_successor_tokens generated) (iv_contexts v) = (m1, q)"
    by (cases "commit_context snap successor (tokens @ string_words (iq_prompt req) @ text_words (fr_text result))
      (eo_successor_tokens generated) (iv_contexts v)")
  from k x y c q have w: "w = ?v\<lparr>iv_emitted := e, iv_contexts := m1\<rparr>"
    and "outcome_bind q (\<lambda>uuid. (let usage = inference_usage a req model uuid account generated result in
            Ok (\<lparr>ip_id = request, ip_text = text_string (fr_text result), ip_usage = usage\<rparr>,
              StreamFinished (fr_finish_reason result) usage))) = Ok (response, terminal)"
    by (simp_all add: commit_inference_def)
  then obtain uuid where "q = Ok uuid" and r: "(let usage = inference_usage a req model uuid account generated result in
        response = \<lparr>ip_id = request, ip_text = text_string (fr_text result), ip_usage = usage\<rparr> \<and>
        terminal = StreamFinished (fr_finish_reason result) usage)"
    by (auto simp: outcome_bind_Ok_iff Let_def)
  show ?thesis
  proof (intro exI conjI)
    show "snd (resolve_compaction (ia_clock a) req (iv_declarations v)) = Ok compaction" using d b by simp
    show "begin_inference find_model m a req = Ok (control, model, snap)" by (rule b)
    show "prepare_context prep a req control model compaction snap = Some (Ok (tokens, prior, account))" using p c by simp
    show "?run = Some (e, Ok (generated, result))" using g x y by simp
    show "iv_emitted w = e" using w by simp
    show "commit_context snap successor (tokens @ string_words (iq_prompt req) @ text_words (fr_text result))
       (eo_successor_tokens generated) (iv_contexts v) = (iv_contexts w, Ok uuid)" using q w \<open>q = Ok uuid\<close> by simp
  qed (rule r)
qed

lemma commit_context_fails: "commit_context snap successor tokens native m = (m', r) \<Longrightarrow> \<not> (\<exists>x. r = Ok x) \<Longrightarrow> m' = m"
  by (auto simp: commit_context_def split: option.splits if_splits)

lemma commit_inference_fails:
  assumes "commit_inference request a req successor model snap compacted generation u = (w, q)" and "\<not> (\<exists>x. q = Ok x)"
  shows "iv_contexts w = iv_contexts u"
proof -
  obtain tokens prior account where t: "compacted = (tokens, prior, account)" by (cases compacted)
  obtain generated result where g: "generation = (generated, result)" by (cases generation)
  obtain m1 x where x: "commit_context snap successor (tokens @ string_words (iq_prompt req) @ text_words (fr_text result))
    (eo_successor_tokens generated) (iv_contexts u) = (m1, x)"
    by (cases "commit_context snap successor (tokens @ string_words (iq_prompt req) @ text_words (fr_text result))
      (eo_successor_tokens generated) (iv_contexts u)")
  from assms t g x have "w = u\<lparr>iv_contexts := m1\<rparr>" "\<not> (\<exists>y. x = Ok y)"
    by (auto simp: commit_inference_def outcome_bind_def Let_def)
  with commit_context_fails[OF x] show ?thesis by simp
qed

lemma and_then_commit_fails:
  assumes "and_then (u, x) (commit_inference request a req successor model snap compacted) = (w, r)" and "\<not> (\<exists>y. r = Ok y)"
  shows "iv_contexts w = iv_contexts u"
  using assms by (cases x) (auto simp: and_then_def dest: commit_inference_fails)

lemma infer_admitted_fails:
  assumes "infer_admitted find_model prep en a request req successor frontier emit m v = Some (w, r)" and "\<not> (\<exists>x. r = Ok x)"
  shows "iv_contexts w = iv_contexts v"
proof -
  obtain ds x where d: "resolve_compaction (ia_clock a) req (iv_declarations v) = (ds, x)"
    by (cases "resolve_compaction (ia_clock a) req (iv_declarations v)")
  show ?thesis
  proof (cases "outcome_bind x (\<lambda>compaction. map_ok (Pair compaction) (begin_inference find_model m a req))")
    case (Ok y)
    obtain compaction control model snap where y: "y = (compaction, control, model, snap)" by (cases y)
    show ?thesis
    proof (cases "prepare_context prep a req control model compaction snap")
      case (Some p)
      show ?thesis
      proof (cases p)
        case (Ok c)
        with assms(1) d y \<open>outcome_bind x _ = Ok y\<close> Some obtain e q where
          "and_then ((v\<lparr>iv_declarations := ds\<rparr>)\<lparr>iv_emitted := e\<rparr>, q) (commit_inference request a req successor model snap c) = (w, r)"
          by (auto simp: infer_admitted_def Let_def)
        from and_then_commit_fails[OF this assms(2)] show ?thesis by simp
      qed (use assms(1) d y Ok Some in \<open>auto simp: infer_admitted_def Let_def\<close>)
    qed (use assms(1) d y Ok in \<open>simp add: infer_admitted_def Let_def\<close>)
  qed (use assms(1) d in \<open>auto simp: infer_admitted_def Let_def\<close>)
qed

text \<open>What a commit that succeeds stores, and that it changes nothing else.\<close>

lemma commit_context_Ok:
  assumes "commit_context snap successor tokens native m = (m', Ok uuid)"
    and "case snap of None \<Rightarrow> True | Some r \<Rightarrow> (case map_of m (cx_id r) of None \<Rightarrow> True | Some s \<Rightarrow> cx_id s = cx_id r)"
  shows "\<exists>rec. map_of m' = (map_of m)(uuid \<mapsto> rec) \<and> cx_tokens rec = tokens \<and> cx_native_tokens rec = native"
  using assms by (auto simp: commit_context_def split: option.splits if_splits)

text \<open>The stream of an inference that succeeds, against the reference.\<close>

lemma inference_streams:
  assumes "frontier_with_limit stops raw limit = Ok g"
    and "frontier_stream (emit_delta keep_event) ps (g, es, 0) = (z, Ok result)"
  shows "\<exists>ds. fst (snd z) = es @ numbered_events ds \<and> concat ds = fr_text result \<and>
    (case reference_cut stops [0] 0 [] ps of (bytes, n, reason, al) \<Rightarrow>
      fr_generated_tokens result = n \<and> fr_finish_reason result = reason \<and>
      (utf8_valid bytes \<longrightarrow> fr_text result = rendered raw bytes))"
proof -
  from frontier_opens[OF assms(1)] have f: "frontier_at stops raw [0] 0 [] g" "concat [] = gf_visible g" by simp_all
  from stream_from[OF f, of ps] obtain g' ds r where s: "frontier_stream collect ps (g, []) = ((g', ds), Ok r)" "concat ds = fr_text r"
    "case reference_cut stops [0] 0 [] ps of (bytes, n, reason, al) \<Rightarrow>
      fr_generated_tokens r = n \<and> fr_finish_reason r = reason \<and> fr_stop_alignment r = al \<and>
      (utf8_valid bytes \<longrightarrow> fr_text r = rendered raw bytes)" by (elim exE conjE) (rule that)
  have "kept_events es [] = (es, 0)" by (simp add: kept_events_def numbered_events_def)
  with frontier_stream_mapped[OF keep_event_faithful, of ps g es "[]"] s(1) assms(2)
  have "z = (g', kept_events es ds)" "r = result" by simp_all
  with s(2,3) show ?thesis by (intro exI[of _ ds]) (auto simp: kept_events_def)
qed

lemma context_reach_ids:
  assumes "context_reach y" and "map_of (cy_contexts y) k = Some r"
  shows "cx_id r = k"
  using context_reach_inv[OF assms(1)] assms(2) by (simp add: context_inv_def keyed_def)

definition inference_stops :: "InferRequest \<Rightarrow> ModelRecord \<Rightarrow> byte list list" where
  "inference_stops req model = map string_bytes (effective_stop_sequences (iq_stop req) (mr_family model))"

text \<open>A preparation, whose sink refuses tokens, that ends with a result: its session handed out nothing.\<close>

lemma preparation_hands_out:
  assumes "engine_generate en ereq refuse_output () = Some (k, Ok prepared)"
  shows "handed_out en ereq [] prepared"
proof -
  from assms obtain s where s: "ie_start en ereq = Ok s" "engine_loop en refuse_output s () = Some (k, Ok prepared)"
    by (auto simp: engine_generate_def split: outcome.splits)
  from engine_loop_result[OF s(2)] obtain ps t flow where p: "session_run en s ps t"
    "sink_run refuse_output () ps k flow" "ends_with_result en flow t prepared"
    unfolding loop_result_def by blast
  from p(2) have "ps = []" by cases (simp_all add: refuse_output_def)
  with s p show ?thesis unfolding handed_out_def by blast
qed

text \<open>What an inference goes on from: the words \<open>base\<close> and the tokens \<open>prior\<close>. Without a context, nothing. With a context, its
  words and its tokens; or, where the request asks for a compaction that changes them, the words that the
  window-tail strategy keeps of them for the target of the request or of the declaration, and the tokens that a session
  of the engine \<open>prep\<close> left which was started for just these words and handed nothing out.\<close>

definition goes_on_from :: "'s InferEngine \<Rightarrow> ModelRecord \<Rightarrow> nat \<Rightarrow> InferRequest \<Rightarrow> (server_error, CompactionRequest option) outcome
    \<Rightarrow> contexts \<Rightarrow> string list \<Rightarrow> int list \<Rightarrow> bool" where
  "goes_on_from prep model control req compaction m base prior \<longleftrightarrow> (case iq_context_id req of
     None \<Rightarrow> base = [] \<and> prior = []
   | Some c \<Rightarrow> (\<exists>r. find_context m c = Ok r \<and> (base = cx_tokens r \<and> prior = cx_native_tokens r \<or>
       (\<exists>q selected prepared. iq_compaction req \<noteq> None \<and> compaction = Ok (Some q) \<and> select_strategy (cq_strategy_preferences q) = Some selected \<and>
         base = cp_resulting_tokens (apply_window_tail_strategy (cx_tokens r) (case cq_target_tokens q of None \<Rightarrow> 3072 | Some t \<Rightarrow> t) [selected]) \<and>
         base \<noteq> cx_tokens r \<and> handed_out prep (engine_request model (join_words base) 0 [] control req) [] prepared \<and>
         prior = eo_successor_tokens prepared))))"

lemma compacted_context:
  assumes "compact_context prep a req control model q source = Some (Ok (tokens, prior, account))"
  shows "tokens = cx_tokens source \<and> prior = cx_native_tokens source \<or>
    (\<exists>selected prepared. select_strategy (cq_strategy_preferences q) = Some selected \<and>
      tokens = cp_resulting_tokens (apply_window_tail_strategy (cx_tokens source) (case cq_target_tokens q of None \<Rightarrow> 3072 | Some t \<Rightarrow> t) [selected]) \<and>
      tokens \<noteq> cx_tokens source \<and> handed_out prep (engine_request model (join_words tokens) 0 [] control req) [] prepared \<and>
      prior = eo_successor_tokens prepared)"
proof (cases "select_strategy (cq_strategy_preferences q)")
  case None
  with assms show ?thesis by (auto simp: compact_context_def split: if_splits)
next
  case (Some selected)
  let ?t = "cp_resulting_tokens (apply_window_tail_strategy (cx_tokens source) (case cq_target_tokens q of None \<Rightarrow> 3072 | Some t \<Rightarrow> t) [selected])"
  show ?thesis
  proof (cases "?t = cx_tokens source")
    case True
    with assms Some show ?thesis by (auto simp: compact_context_def Let_def split: if_splits outcome.splits)
  next
    case False
    from assms Some False obtain k r where g: "engine_generate prep (engine_request model (join_words ?t) 0 [] control req) refuse_output () = Some (k, r)"
      and r: "\<exists>prepared. r = Ok prepared \<and> tokens = ?t \<and> prior = eo_successor_tokens prepared"
      by (auto simp: compact_context_def Let_def outcome_bind_Ok_iff split: if_splits outcome.splits)
    from r obtain prepared where p: "r = Ok prepared" "tokens = ?t" "prior = eo_successor_tokens prepared" by blast
    from preparation_hands_out[OF g[unfolded p(1)]] p(2,3) Some False show ?thesis by blast
  qed
qed

lemma prepared_context:
  assumes "snd (resolve_compaction clock req s) = Ok compaction"
    and "begin_inference find_model m a req = Ok (control, model, snap)"
    and "prepare_context prep a req control model compaction snap = Some (Ok (tokens, prior, account))"
  shows "goes_on_from prep model control req (snd (resolve_compaction clock req s)) m tokens prior"
proof -
  have snap: "case iq_context_id req of None \<Rightarrow> snap = None | Some c \<Rightarrow> (\<exists>r. find_context m c = Ok r \<and> snap = Some r)"
    using assms(2) by (auto simp: begin_inference_def outcome_bind_Ok_iff map_ok_Ok split: option.splits if_splits)
  have asked: "iq_compaction req \<noteq> None" if "compaction = Some q" for q
    using assms(1) that by (auto simp: resolve_compaction_def split: option.splits)
  show ?thesis
  proof (cases compaction)
    case None
    with assms(3) snap show ?thesis unfolding assms(1) goes_on_from_def
      by (auto simp: prepare_context_def split: option.splits)
  next
    case (Some q)
    with assms(3) obtain source where source: "snap = Some source"
      and c: "compact_context prep a req control model q source = Some (Ok (tokens, prior, account))"
      by (auto simp: prepare_context_def split: option.splits)
    with snap obtain u where u: "iq_context_id req = Some u" "find_context m u = Ok source" by (auto split: option.splits)
    from compacted_context[OF c] asked[OF Some] show ?thesis
      unfolding assms(1) goes_on_from_def u(1) option.case Some using u(2) by blast
  qed
qed

text \<open>C6: An inference is its reference. One that succeeds answers the text that its reference makes of the pieces which a
  session of the engine handed out, with the stop sequences of the request and of the model's family: the number of
  tokens and the finish reason are those of the reference, and, where the bytes that the reference keeps are valid UTF-8,
  the text is their rendering. The events are the start, the deltas of the answered text in order, and the end. The
  session was started with the tokens \<open>prior\<close>, and the context that is committed holds the words \<open>base\<close>, followed by those of
  the prompt and of the text, and the tokens the session left; \<open>base\<close> and \<open>prior\<close> are what \<open>goes_on_from\<close> says,
  with and without a compaction. No other context changes. One that fails changes no context.\<close>

theorem inference_is_reference:
  assumes "infer_reserved find_model prep en a uuid request req m v = Some (v', r)"
    and "context_reach y" and "cy_contexts y = iv_contexts v"
  shows "case r of
      Ok (response, events) \<Rightarrow> (\<exists>model control prior ps generated txt deltas base rec usage. usage = ip_usage response \<and>
        find_model (iq_model req) = Ok model \<and>
        handed_out en (engine_request model (iq_prompt req) (iq_max_tokens req) prior control req) ps generated \<and>
        (case reference_cut (inference_stops req model) [0] 0 [] ps of (bytes, n, reason, al) \<Rightarrow>
          us_generated_tokens usage = n \<and> (utf8_valid bytes \<longrightarrow> txt = rendered (iq_raw_continuation req) bytes) \<and>
          events = started_event request (successor_of uuid req) req # numbered_events deltas @ [StreamFinished reason usage]) \<and>
        concat deltas = txt \<and> ip_text response = text_string txt \<and>
        goes_on_from prep model control req (snd (resolve_compaction (ia_clock a) req (iv_declarations v))) m base prior \<and>
        map_of (iv_contexts v') = (map_of (iv_contexts v))(us_context_id usage \<mapsto> rec) \<and>
        cx_tokens rec = base @ string_words (iq_prompt req) @ text_words txt \<and>
        cx_native_tokens rec = eo_successor_tokens generated)
    | _ \<Rightarrow> iv_contexts v' = iv_contexts v"
proof (cases "open_frontier find_model req")
  case (Ok g)
  let ?v = "\<lparr>iv_emitted = [started_event request (successor_of uuid req) req], iv_contexts = iv_contexts v,
    iv_declarations = iv_declarations v\<rparr>"
  let ?run = "infer_admitted find_model prep en a request req (successor_of uuid req) g keep_event m ?v"
  from assms(1) Ok obtain w q where run: "?run = Some (w, q)" and c: "iv_contexts v' = iv_contexts w"
    and q: "r = map_ok (\<lambda>(response, terminal). (response, iv_emitted w @ [terminal])) q"
    by (auto simp: infer_reserved_def Let_def)
  from open_frontier_opens[OF Ok] obtain model where model: "find_model (iq_model req) = Ok model"
    and opens: "frontier_with_limit (inference_stops req model) (iq_raw_continuation req) MAX_EFFECTIVE_STOP_SEQUENCES = Ok g"
    unfolding inference_stops_def by blast
  show ?thesis
  proof (cases q)
    case q': (Ok x)
    obtain response terminal where x: "x = (response, terminal)" by (cases x)
    from infer_admitted_Ok[OF run[unfolded q' x]] obtain compaction control model' snap tokens prior account e generated result uuid' where
      k: "snd (resolve_compaction (ia_clock a) req (iv_declarations ?v)) = Ok compaction"
      "begin_inference find_model m a req = Ok (control, model', snap)"
      "prepare_context prep a req control model' compaction snap = Some (Ok (tokens, prior, account))"
      and gen: "run_generation en a req (engine_request model' (iq_prompt req) (iq_max_tokens req) prior control req) g keep_event
        (iv_emitted ?v) = Some (e, Ok (generated, result))" "iv_emitted w = e"
      and commit: "commit_context snap (successor_of uuid req) (tokens @ string_words (iq_prompt req) @ text_words (fr_text result))
        (eo_successor_tokens generated) (iv_contexts ?v) = (iv_contexts w, Ok uuid')"
      and resp: "response = \<lparr>ip_id = request, ip_text = text_string (fr_text result),
          ip_usage = inference_usage a req model' uuid' account generated result\<rparr>"
        "terminal = StreamFinished (fr_finish_reason result) (inference_usage a req model' uuid' account generated result)"
      unfolding Let_def by (elim exE conjE) (rule that)
    from k(2) model have m: "model' = model" by (auto simp: begin_inference_def outcome_bind_Ok_iff split: if_splits option.splits)
    from generation_streams[OF gen(1)] obtain ps z where
      run: "handed_out en (engine_request model' (iq_prompt req) (iq_max_tokens req) prior control req) ps generated"
      and st: "frontier_stream (emit_delta keep_event) ps (g, iv_emitted ?v, 0) = (z, Ok result)" "e = fst (snd z)"
      by (elim exE conjE) (rule that)
    from inference_streams[OF opens st(1)] obtain ds where
      ds: "fst (snd z) = iv_emitted ?v @ numbered_events ds" "concat ds = fr_text result"
      "case reference_cut (inference_stops req model) [0] 0 [] ps of (bytes, n, reason, al) \<Rightarrow>
        fr_generated_tokens result = n \<and> fr_finish_reason result = reason \<and>
        (utf8_valid bytes \<longrightarrow> fr_text result = rendered (iq_raw_continuation req) bytes)" by (elim exE conjE) (rule that)
    have ids: "case snap of None \<Rightarrow> True | Some r \<Rightarrow> (case map_of (iv_contexts ?v) (cx_id r) of None \<Rightarrow> True | Some s \<Rightarrow> cx_id s = cx_id r)"
      using context_reach_ids[OF assms(2)] assms(3) by (simp split: option.split)
    from commit_context_Ok[OF commit ids] obtain rec where
      rec: "map_of (iv_contexts w) = (map_of (iv_contexts v))(uuid' \<mapsto> rec)"
      "cx_tokens rec = tokens @ string_words (iq_prompt req) @ text_words (fr_text result)"
      "cx_native_tokens rec = eo_successor_tokens generated" by (elim exE conjE) (rule that, simp_all)
    let ?u = "inference_usage a req model' uuid' account generated result"
    have u: "us_generated_tokens ?u = fr_generated_tokens result" "us_context_id ?u = uuid'" "ip_usage response = ?u"
      "ip_text response = text_string (fr_text result)"
      by (simp_all add: inference_usage_def Let_def resp)
    have r: "r = Ok (response, started_event request (successor_of uuid req) req # numbered_events ds
        @ [StreamFinished (fr_finish_reason result) ?u])"
      using q q' x gen(2) st(2) ds(1) resp(2) by (simp add: map_ok_def)
    have base: "goes_on_from prep model control req (snd (resolve_compaction (ia_clock a) req (iv_declarations v))) m tokens prior"
      using prepared_context[OF k(1-3)] by (simp add: m)
    show ?thesis unfolding r outcome.case prod.case
      by (rule exI[of _ model], rule exI[of _ control], rule exI[of _ prior], rule exI[of _ ps], rule exI[of _ generated],
        rule exI[of _ "fr_text result"], rule exI[of _ ds], rule exI[of _ tokens], rule exI[of _ rec], rule exI[of _ ?u])
        (intro conjI; (rule base | use model run[unfolded m] ds(2,3) rec c u in \<open>simp split: prod.splits\<close>))
  qed (use infer_admitted_fails[OF run] q c in \<open>simp_all add: map_ok_def\<close>)
qed (use assms(1) in \<open>auto simp: infer_reserved_def Let_def\<close>)

definition echo_model :: ModelRecord where
  "echo_model = \<lparr>mr_id = ''m'', mr_revision = ''1'', mr_path = ''p'', mr_sha256 = [], mr_aliases = [], mr_family = [],
     mr_size_bytes = 0, mr_epoch = 1\<rparr>"

definition echo_request :: InferRequest where
  "echo_request = \<lparr>iq_model = ''m'', iq_prompt = ''b a'', iq_max_tokens = 1, iq_context_id = None, iq_deadline_ms = None,
     iq_stop = [], iq_raw_continuation = False, iq_compaction = None,
     iq_sampling = \<lparr>sp_temperature = 0, sp_top_p = 0, sp_seed = 0\<rparr>, iq_grammar = None,
     iq_scheduling = \<lparr>sm_class = Standard, sm_source = AdapterDefault, sm_principal = ''u'', sm_correlation_id = ''k'',
       sm_inference_id = ''i''\<rparr>\<rparr>"

definition calm_answers :: InferAnswers where
  "calm_answers = \<lparr>ia_clock = None, ia_control = Some 0, ia_at_start = ControlRunning, ia_after_selection = ControlRunning,
     ia_after_preparation = ControlRunning, ia_piece = (\<lambda>_. (False, ControlRunning)), ia_at_end = ControlRunning,
     ia_overdue = False, ia_latency_ms = 0\<rparr>"

definition nothing_yet :: "unit Inference" where
  "nothing_yet = \<lparr>iv_emitted = (), iv_contexts = [], iv_declarations = \<lparr>ds_records = [], ds_creation_times = []\<rparr>\<rparr>"

definition echo_session :: "nat \<Rightarrow> bool \<Rightarrow> DeterministicSession" where
  "echo_session i prepared = \<lparr>dn_request = engine_request echo_model ''b a'' 1 [] 0 echo_request, dn_pieces = [''a'', ''b''], dn_index = i,
     dn_prepared = prepared, dn_looks = []\<rparr>"

definition echo_frontier :: "nat \<Rightarrow> GenerationFrontier" where
  "echo_frontier n = \<lparr>gf_stops = [], gf_pending = [], gf_pending_offset = n, gf_token_boundaries = [n], gf_sampled_tokens = n,
     gf_visible = replicate n 0x61, gf_stripping = (n = 0), gf_finish_reason = None, gf_stop_alignment = None\<rparr>"

lemma echo_steps:
  "deterministic_start [] (engine_request echo_model ''b a'' 1 [] 0 echo_request) = Ok (echo_session 0 False)"
  "deterministic_step (echo_session 0 False) = (echo_session 0 True, Ok (Progress (model_free Preparation 2)))"
  "deterministic_step (echo_session 0 True) = (echo_session 1 True, Ok (TokenStep (- 1) [0x61] False (model_free Decode 1)))"
  "deterministic_step (echo_session 1 True) = (echo_session 1 True, Ok (Finished (deterministic_output (echo_session 1 True))))"
  by code_simp+

lemma echo_sink:
  "decode_sink calm_answers False keep_event (- 1) [0x61] False (0, echo_frontier 0, es, 0) =
     ((1, echo_frontier 1, es @ [StreamToken ''a'' 0], 1), Ok FrontierContinue)"
proof -
  have "frontier_push [0x61] False collect (echo_frontier 0, []) = ((echo_frontier 1, [[0x61]]), Ok FrontierContinue)" by code_simp
  moreover have "kept_events es [] = (es, 0)" "kept_events es [[0x61]] = (es @ [StreamToken ''a'' 0], 1)"
    by (simp_all add: kept_events_def numbered_events_def) code_simp
  moreover have "ia_piece calm_answers 0 = (False, ControlRunning)" "state_check ControlRunning = Ok ()" by code_simp+
  ultimately show ?thesis
    using frontier_push_mapped[OF keep_event_faithful, of "[0x61]" False "echo_frontier 0" es "[]"]
    by (simp add: decode_sink_def Let_def)
qed

lemma echo_finish: "frontier_finish emit (echo_frontier 1, w) = (((echo_frontier 1)\<lparr>gf_finish_reason := Some ReasonLength\<rparr>, w),
    Ok \<lparr>fr_text = [0x61], fr_generated_tokens = 1, fr_finish_reason = ReasonLength, fr_stop_alignment = None\<rparr>)"
  by (simp add: frontier_finish_def echo_frontier_def emit_prefix_def and_then_def)

lemma echo_generation:
  "run_generation (deterministic_engine []) calm_answers echo_request (engine_request echo_model ''b a'' 1 [] 0 echo_request)
     (echo_frontier 0) keep_event es = Some (es @ [StreamToken ''a'' 0], Ok (deterministic_output (echo_session 1 True),
       \<lparr>fr_text = [0x61], fr_generated_tokens = 1, fr_finish_reason = ReasonLength, fr_stop_alignment = None\<rparr>))"
proof -
  let ?e = "deterministic_engine []" and ?s = "decode_sink calm_answers False keep_event"
  have step: "ie_step ?e = deterministic_step" and start: "ie_start ?e = deterministic_start []"
    by (simp_all add: deterministic_engine_def)
  have "engine_loop ?e ?s (echo_session 0 False) (0, echo_frontier 0, es, 0) = engine_loop ?e ?s (echo_session 0 True) (0, echo_frontier 0, es, 0)"
    by (subst engine_loop.simps) (simp add: step echo_steps)
  also have "\<dots> = engine_loop ?e ?s (echo_session 1 True) (1, echo_frontier 1, es @ [StreamToken ''a'' 0], 1)"
    by (subst engine_loop.simps) (simp add: step echo_steps echo_sink del: One_nat_def)
  also have "\<dots> = Some ((1, echo_frontier 1, es @ [StreamToken ''a'' 0], 1), Ok (deterministic_output (echo_session 1 True)))"
    by (subst engine_loop.simps) (simp add: step echo_steps del: One_nat_def)
  finally have "engine_generate ?e (engine_request echo_model ''b a'' 1 [] 0 echo_request) ?s (0, echo_frontier 0, es, 0) =
    Some ((1, echo_frontier 1, es @ [StreamToken ''a'' 0], 1), Ok (deterministic_output (echo_session 1 True)))"
    by (simp add: engine_generate_def start echo_steps del: One_nat_def)
  moreover have "iq_deadline_ms echo_request = None" "state_check (ia_at_end calm_answers) = Ok ()"
    by (simp_all add: echo_request_def calm_answers_def state_check_def)
  ultimately show ?thesis by (simp add: run_generation_def echo_finish outcome_bind_def del: One_nat_def)
qed

definition echo_usage :: Usage where
  "echo_usage = inference_usage calm_answers echo_request echo_model ''n'' None (deterministic_output (echo_session 1 True))
     \<lparr>fr_text = [0x61], fr_generated_tokens = 1, fr_finish_reason = ReasonLength, fr_stop_alignment = None\<rparr>"

lemma echo_inference:
  "infer_reserved (\<lambda>_. Ok echo_model) (deterministic_engine []) (deterministic_engine []) calm_answers ''n'' ''q'' echo_request [] nothing_yet =
     Some (nothing_yet\<lparr>iv_contexts := [(''n'', \<lparr>cx_id = ''n'', cx_revision = 1, cx_tokens = [''b'', ''a'', ''a''], cx_native_tokens = []\<rparr>)]\<rparr>,
       Ok (\<lparr>ip_id = ''q'', ip_text = ''a'', ip_usage = echo_usage\<rparr>,
         [started_event ''q'' ''n'' echo_request, StreamToken ''a'' 0, StreamFinished ReasonLength echo_usage]))"
proof -
  have o: "open_frontier (\<lambda>_. Ok echo_model) echo_request = Ok (echo_frontier 0)" by code_simp
  have q: "iq_compaction echo_request = None" "iq_context_id echo_request = None" "iq_deadline_ms echo_request = None"
    "iq_prompt echo_request = ''b a''" "iq_max_tokens echo_request = 1" "ia_control calm_answers = Some 0"
    "state_check (ia_at_start calm_answers) = Ok ()"
    by (simp_all add: echo_request_def calm_answers_def state_check_def)
  have b: "begin_inference (\<lambda>_. Ok echo_model) [] calm_answers echo_request = Ok (0, echo_model, None)"
    by (simp add: begin_inference_def q outcome_bind_def)
  have w: "string_words ''b a'' = [''b'', ''a'']" "text_words [0x61] = [''a'']" "text_string [0x61] = ''a''" by code_simp+
  have u: "eo_successor_tokens (deterministic_output (echo_session 1 True)) = []"
    by (simp add: deterministic_output_def echo_session_def engine_request_def Let_def)
  show ?thesis
    by (simp add: infer_reserved_def infer_admitted_def o b q w u resolve_compaction_def outcome_bind_def map_ok_def
      prepare_context_def nothing_yet_def successor_of_def echo_generation commit_inference_def commit_context_def
      echo_usage_def Let_def del: One_nat_def)
qed

theorem inference_is_reference_witness:
  "\<exists>v' response events rec. infer_reserved (\<lambda>_. Ok echo_model) (deterministic_engine []) (deterministic_engine []) calm_answers
      ''n'' ''q'' echo_request [] nothing_yet = Some (v', Ok (response, events)) \<and>
    map_of (iv_contexts v') = [us_context_id (ip_usage response) \<mapsto> rec] \<and>
    cx_tokens rec = [''b'', ''a'', ''a''] \<and> ip_text response = ''a'' \<and> length events = 3"
proof -
  let ?y = "\<lparr>cy_contexts = [], cy_used = [], cy_open = []\<rparr>"
  have y: "context_reach ?y" "cy_contexts ?y = iv_contexts nothing_yet"
    unfolding context_reach_def by (rule reach_init) (simp_all add: context_init_def nothing_yet_def)
  have n: "map_of (iv_contexts nothing_yet) = (\<lambda>k. None)" by (simp add: nothing_yet_def)
  from inference_is_reference[OF echo_inference y] obtain rec where
    "map_of [(''n'', \<lparr>cx_id = ''n'', cx_revision = 1, cx_tokens = [''b'', ''a'', ''a''], cx_native_tokens = []\<rparr>)]
      = [us_context_id echo_usage \<mapsto> rec]"
    unfolding outcome.case prod.case n by (elim exE conjE) (rule that, simp)
  moreover have "us_context_id echo_usage = ''n''" by (simp add: echo_usage_def inference_usage_def Let_def)
  ultimately have r: "map_of [(''n'', \<lparr>cx_id = ''n'', cx_revision = 1, cx_tokens = [''b'', ''a'', ''a''], cx_native_tokens = []\<rparr>)]
      = [us_context_id echo_usage \<mapsto> rec]" and "cx_tokens rec = [''b'', ''a'', ''a'']"
    by (auto simp: fun_eq_iff split: if_splits)
  then show ?thesis using echo_inference by (intro exI conjI) (assumption | simp)+
qed

end
