(* ===== verification/Lifecycle.thy ===== *)
theory Lifecycle
  imports Server_Types "HOL-Library.Char_ord"
begin

text \<open>
  The models a server serves (\<open>ModelLifecycleService\<close> in \<open>crates/server/src/lifecycle.rs\<close>): registration,
  aliases and removal. One mutex serialises the operations that change the models; each of them changes the
  table in one critical section of another. The calls an operation makes on the engine are appended to
  \<open>lf_calls\<close>; what the engine, the catalog and the file system answer is an argument.
\<close>

section \<open>Data\<close>

datatype EngineCall = CallPrepare ModelRecord | CallCommit ModelRecord "nat option" | CallRetire string nat

record Lifecycle =
  lf_models :: "(string, ModelRecord) hm"
  lf_next_epoch :: nat
  lf_calls :: "EngineCall list"

definition lifecycle_new :: Lifecycle where
  "lifecycle_new = \<lparr>lf_models = [], lf_next_epoch = 1, lf_calls = []\<rparr>"

text \<open>Answers: the size of the file, and how preparing a model, and publishing or removing it, failed if it did.\<close>

record LifecycleAnswers =
  la_size :: "(server_error, nat) outcome"
  la_prepared :: "server_error option"
  la_catalog :: "server_error option"

definition default_model_family :: string where
  "default_model_family = ''gemma4''"

definition call_engine :: "EngineCall \<Rightarrow> Lifecycle \<Rightarrow> Lifecycle" where
  "call_engine c s = s\<lparr>lf_calls := lf_calls s @ [c]\<rparr>"

text \<open>A preparation that fails leaves nothing in the engine, and is not in the list.\<close>

definition prepare_in_engine :: "LifecycleAnswers \<Rightarrow> ModelRecord \<Rightarrow> Lifecycle \<Rightarrow> Lifecycle \<times> (server_error, unit) outcome" where
  "prepare_in_engine a m s = (case la_prepared a of None \<Rightarrow> (call_engine (CallPrepare m) s, Ok ())
     | Some e \<Rightarrow> (s, Err e))"

section \<open>Looking up\<close>

definition lifecycle_models :: "Lifecycle \<Rightarrow> ModelRecord list" where
  "lifecycle_models s = hm_values (lf_models s)"

definition lifecycle_model :: "Lifecycle \<Rightarrow> string \<Rightarrow> (server_error, ModelRecord) outcome" where
  "lifecycle_model s name = (case map_of (lf_models s) name of
       Some m \<Rightarrow> Ok m
     | None \<Rightarrow> (case find (\<lambda>m. name \<in> set (mr_aliases m)) (hm_values (lf_models s)) of
         Some m \<Rightarrow> Ok m | None \<Rightarrow> Err (ModelNotFound name)))"

section \<open>Registering\<close>

text \<open>\<open>aliases.sort()\<close> and \<open>aliases.dedup()\<close>.\<close>

definition sorted_aliases :: "string list \<Rightarrow> string list" where
  "sorted_aliases aliases = remdups_adj (sort aliases)"

definition same_file :: "ModelRecord \<Rightarrow> ModelRecord \<Rightarrow> bool" where
  "same_file old m \<longleftrightarrow> mr_revision old = mr_revision m \<and> mr_path old = mr_path m \<and> mr_sha256 old = mr_sha256 m
     \<and> mr_family old = mr_family m \<and> mr_size_bytes old = mr_size_bytes m"

text \<open>The aliases of a new record are taken from all others.\<close>

definition without_aliases :: "string list \<Rightarrow> ModelRecord \<Rightarrow> ModelRecord" where
  "without_aliases aliases m = m\<lparr>mr_aliases := filter (\<lambda>x. x \<notin> set aliases) (mr_aliases m)\<rparr>"

definition insert_model :: "ModelRecord \<Rightarrow> (string, ModelRecord) hm \<Rightarrow> (string, ModelRecord) hm" where
  "insert_model m ms = hm_put (mr_id m) m (map (\<lambda>(k, old). (k, without_aliases (mr_aliases m) old)) ms)"

definition complete_record :: "LifecycleAnswers \<Rightarrow> ModelRecord \<Rightarrow> (server_error, ModelRecord) outcome" where
  "complete_record a m = (let m = m\<lparr>mr_aliases := sorted_aliases (mr_aliases m),
       mr_family := (if mr_family m = [] then default_model_family else mr_family m)\<rparr> in
     if mr_size_bytes m = 0 then (case la_size a of Ok n \<Rightarrow> Ok (m\<lparr>mr_size_bytes := n\<rparr>) | Err e \<Rightarrow> Err e | Abort \<Rightarrow> Abort)
     else Ok m)"

definition register_new :: "LifecycleAnswers \<Rightarrow> ModelRecord \<Rightarrow> Lifecycle \<Rightarrow> Lifecycle \<times> (server_error, ModelRecord) outcome" where
  "register_new a m s = (let epoch = lf_next_epoch s; previous = map_option mr_epoch (map_of (lf_models s) (mr_id m));
       m = m\<lparr>mr_epoch := epoch\<rparr> in
     and_then (prepare_in_engine a m s) (\<lambda>_ s. (case la_catalog a of
       Some e \<Rightarrow> (call_engine (CallRetire (mr_id m) epoch) s, Err e)
     | None \<Rightarrow> (let s = s\<lparr>lf_models := insert_model m (lf_models s)\<rparr> in
         (case checked_add epoch 1 of
            None \<Rightarrow> (s, Err (StateError ''model epoch space exhausted''))
          | Some next \<Rightarrow> (call_engine (CallCommit m previous) (s\<lparr>lf_next_epoch := next\<rparr>), Ok m))))))"

definition lifecycle_register :: "LifecycleAnswers \<Rightarrow> ModelRecord \<Rightarrow> Lifecycle \<Rightarrow> Lifecycle \<times> (server_error, ModelRecord) outcome" where
  "lifecycle_register a m s = (case complete_record a m of Err e \<Rightarrow> (s, Err e) | Abort \<Rightarrow> (s, Abort)
   | Ok m \<Rightarrow> (case map_of (lf_models s) (mr_id m) of
       Some old \<Rightarrow> if same_file old m then and_then (prepare_in_engine a old s) (\<lambda>_ s. (s, Ok old)) else register_new a m s
     | None \<Rightarrow> register_new a m s))"

definition lifecycle_register_from_catalog ::
  "LifecycleAnswers \<Rightarrow> ModelRecord \<Rightarrow> Lifecycle \<Rightarrow> Lifecycle \<times> (server_error, ModelRecord) outcome" where
  "lifecycle_register_from_catalog a m s =
     (if mr_epoch m = 0 then (s, Err (StateError ''catalog model epoch must be nonzero''))
      else and_then (prepare_in_engine a m s) (\<lambda>_ s.
        (let previous = map_option mr_epoch (map_of (lf_models s) (mr_id m)) in
         (call_engine (CallCommit m previous) (s\<lparr>lf_models := insert_model m (lf_models s),
            lf_next_epoch := max (lf_next_epoch s) (saturating_add (mr_epoch m) 1)\<rparr>), Ok m))))"

section \<open>Aliases and removal\<close>

definition add_alias :: "string \<Rightarrow> ModelRecord \<Rightarrow> ModelRecord" where
  "add_alias alias m = m\<lparr>mr_aliases := sorted_aliases (mr_aliases m @ [alias])\<rparr>"

text \<open>\<open>attached\<close> says whether there is a catalog.\<close>

definition lifecycle_alias ::
  "bool \<Rightarrow> LifecycleAnswers \<Rightarrow> string \<Rightarrow> string \<Rightarrow> Lifecycle \<Rightarrow> Lifecycle \<times> (server_error, ModelRecord) outcome" where
  "lifecycle_alias attached a name alias s = (case map_of (lf_models s) name of
     None \<Rightarrow> (s, Err (ModelNotFound name))
   | Some m \<Rightarrow> (let m = add_alias alias (without_aliases [alias] m);
         candidate = hm_put name m (map (\<lambda>(k, old). (k, without_aliases [alias] old)) (lf_models s)) in
       (case if attached then la_catalog a else None of
          None \<Rightarrow> (s\<lparr>lf_models := candidate\<rparr>, Ok m) | Some e \<Rightarrow> (s, Err e))))"

definition lifecycle_remove :: "bool \<Rightarrow> LifecycleAnswers \<Rightarrow> string \<Rightarrow> Lifecycle \<Rightarrow> Lifecycle \<times> (server_error, unit) outcome" where
  "lifecycle_remove attached a name s = (case map_of (lf_models s) name of
     None \<Rightarrow> (s, Err (ModelNotFound name))
   | Some m \<Rightarrow> (case if attached then la_catalog a else None of
       None \<Rightarrow> (call_engine (CallRetire (mr_id m) (mr_epoch m)) (s\<lparr>lf_models := hm_del name (lf_models s)\<rparr>), Ok ())
     | Some e \<Rightarrow> (s, Err e)))"

text \<open>\<open>digest\<close> is what hashing the file gives, in hexadecimal.\<close>

definition lifecycle_verify :: "(string \<Rightarrow> (server_error, string) outcome) \<Rightarrow> string \<Rightarrow> Lifecycle \<Rightarrow> (server_error, bool) outcome" where
  "lifecycle_verify digest name s = (case lifecycle_model s name of
     Ok m \<Rightarrow> (case digest (mr_path m) of Ok d \<Rightarrow> Ok (d = mr_sha256 m) | Err e \<Rightarrow> Err e | Abort \<Rightarrow> Abort)
   | Err e \<Rightarrow> Err e | Abort \<Rightarrow> Abort)"

section \<open>The machine\<close>

text \<open>Any operations in any order, with any answers; it ends before the epochs are exhausted.\<close>

definition lifecycle_init :: "Lifecycle \<Rightarrow> bool" where
  "lifecycle_init s \<longleftrightarrow> s = lifecycle_new"

inductive lifecycle_step :: "Lifecycle \<Rightarrow> Lifecycle \<Rightarrow> bool" where
  lstep_register: "lf_next_epoch s < u64_max \<Longrightarrow> lifecycle_step s (fst (lifecycle_register a m s))"
| lstep_catalog: "mr_epoch m < u64_max \<Longrightarrow> lifecycle_step s (fst (lifecycle_register_from_catalog a m s))"
| lstep_alias: "lifecycle_step s (fst (lifecycle_alias attached a name alias s))"
| lstep_remove: "lifecycle_step s (fst (lifecycle_remove attached a name s))"

definition lifecycle_reach :: "Lifecycle \<Rightarrow> bool" where
  "lifecycle_reach s = reach lifecycle_init lifecycle_step s"

text \<open>What the calls leave in the engine: a commit retires the other epochs of a model.\<close>

fun engine_after :: "(string \<times> nat) set \<Rightarrow> EngineCall list \<Rightarrow> (string \<times> nat) set" where
  "engine_after held [] = held"
| "engine_after held (CallPrepare m # cs) = engine_after (insert (mr_id m, mr_epoch m) held) cs"
| "engine_after held (CallCommit m previous # cs) = engine_after {x \<in> held. fst x = mr_id m \<longrightarrow> snd x = mr_epoch m} cs"
| "engine_after held (CallRetire name epoch # cs) = engine_after (held - {(name, epoch)}) cs"

definition in_engine :: "Lifecycle \<Rightarrow> (string \<times> nat) set" where
  "in_engine s = engine_after {} (lf_calls s)"

end
