(* ===== verification/Lifecycle_Props.thy ===== *)
theory Lifecycle_Props
  imports Lifecycle
begin

text \<open>Names are unambiguous, and the engine holds exactly the models that are served.\<close>

section \<open>The invariant\<close>

definition aliases_apart :: "(string \<Rightarrow> ModelRecord option) \<Rightarrow> bool" where
  "aliases_apart f \<longleftrightarrow> (\<forall>j k m n x. f j = Some m \<longrightarrow> f k = Some n \<longrightarrow> x \<in> set (mr_aliases m) \<longrightarrow> x \<in> set (mr_aliases n) \<longrightarrow> j = k)"

definition names_ok :: "(string, ModelRecord) hm \<Rightarrow> bool" where
  "names_ok ms \<longleftrightarrow> hm_ok ms \<and> (\<forall>k m. map_of ms k = Some m \<longrightarrow> mr_id m = k) \<and> aliases_apart (map_of ms)"

definition serving :: "(string, ModelRecord) hm \<Rightarrow> (string \<times> nat) set" where
  "serving ms = {(k, mr_epoch m) | k m. map_of ms k = Some m}"

definition lifecycle_inv :: "Lifecycle \<Rightarrow> bool" where
  "lifecycle_inv s \<longleftrightarrow> names_ok (lf_models s) \<and> in_engine s = serving (lf_models s) \<and>
     (\<forall>k m. map_of (lf_models s) k = Some m \<longrightarrow> mr_epoch m < lf_next_epoch s)"

lemma in_serving: "(k, e) \<in> serving ms \<longleftrightarrow> map_option mr_epoch (map_of ms k) = Some e"
  by (auto simp: serving_def)

text \<open>Aliases stay apart when no record gets one, but for one record whose aliases the others lose.\<close>

lemma aliases_apart_update:
  assumes "aliases_apart f" and "\<And>j n. j \<noteq> k \<Longrightarrow> g j = Some n \<Longrightarrow>
      (\<exists>m. f j = Some m \<and> set (mr_aliases n) \<subseteq> set (mr_aliases m)) \<and> (\<forall>m. g k = Some m \<longrightarrow> set (mr_aliases n) \<inter> set (mr_aliases m) = {})"
  shows "aliases_apart g"
  unfolding aliases_apart_def
proof (intro allI impI)
  fix i j m n x assume h: "g i = Some m" "g j = Some n" "x \<in> set (mr_aliases m)" "x \<in> set (mr_aliases n)"
  show "i = j"
  proof (cases "i = k \<or> j = k")
    case True
    with h assms(2)[of i m] assms(2)[of j n] show ?thesis by blast
  next
    case False
    with h assms(2)[of i m] assms(2)[of j n] obtain m' n' where "f i = Some m'" "f j = Some n'" "x \<in> set (mr_aliases m')" "x \<in> set (mr_aliases n')"
      by blast
    with assms(1) show ?thesis unfolding aliases_apart_def by blast
  qed
qed

lemma engine_after_append [simp]: "engine_after held (xs @ ys) = engine_after (engine_after held xs) ys"
  by (induction held xs rule: engine_after.induct) auto

lemma in_engine_call [simp]: "in_engine (call_engine c s) = engine_after (in_engine s) [c]"
  by (simp add: in_engine_def call_engine_def)

lemma call_engine_fields [simp]:
  "lf_models (call_engine c s) = lf_models s" "lf_next_epoch (call_engine c s) = lf_next_epoch s"
  by (simp_all add: call_engine_def)

lemma in_engine_update [simp]:
  "in_engine (s\<lparr>lf_models := ms\<rparr>) = in_engine s" "in_engine (s\<lparr>lf_next_epoch := n\<rparr>) = in_engine s"
  by (simp_all add: in_engine_def)

lemma map_of_map_values: "map_of (map (\<lambda>(k, x). (k, f x)) ms) k = map_option f (map_of ms k)"
  by (induction ms) auto

lemma hm_ok_map_values: "hm_ok ms \<Longrightarrow> hm_ok (map (\<lambda>(k, x). (k, f x)) ms)"
  by (simp add: hm_ok_def comp_def case_prod_unfold)

lemma without_aliases_fields [simp]:
  "mr_id (without_aliases xs m) = mr_id m" "mr_epoch (without_aliases xs m) = mr_epoch m"
  "set (mr_aliases (without_aliases xs m)) = set (mr_aliases m) - set xs"
  by (auto simp: without_aliases_def)

text \<open>A record put under its id, with all its aliases taken from the others.\<close>

lemma put_lookup:
  "map_of (hm_put k m (map (\<lambda>(k, old). (k, without_aliases xs old)) ms)) j =
     (if j = k then Some m else map_option (without_aliases xs) (map_of ms j))"
  by (simp add: map_of_map_values)

lemma put_names_ok:
  assumes "names_ok ms" and "mr_id m = k" and "\<And>j n x. j \<noteq> k \<Longrightarrow> map_of ms j = Some n \<Longrightarrow> x \<in> set (mr_aliases m) \<Longrightarrow> x \<notin> set xs \<Longrightarrow> x \<notin> set (mr_aliases n)"
  shows "names_ok (hm_put k m (map (\<lambda>(k, old). (k, without_aliases xs old)) ms))"
  unfolding names_ok_def
proof (intro conjI)
  let ?g = "map_of (hm_put k m (map (\<lambda>(k, old). (k, without_aliases xs old)) ms))"
  show "hm_ok (hm_put k m (map (\<lambda>(k, old). (k, without_aliases xs old)) ms))"
    using assms(1) by (simp add: names_ok_def hm_ok_map_values)
  show "\<forall>j n. ?g j = Some n \<longrightarrow> mr_id n = j"
    using assms(1,2) unfolding put_lookup by (auto simp: names_ok_def split: if_splits)
  show "aliases_apart ?g"
  proof (rule aliases_apart_update[of "map_of ms" k])
    show "aliases_apart (map_of ms)" using assms(1) by (simp add: names_ok_def)
    fix j n assume "j \<noteq> k" "?g j = Some n"
    then obtain o' where o: "map_of ms j = Some o'" "n = without_aliases xs o'" unfolding put_lookup by auto
    with assms(3)[OF \<open>j \<noteq> k\<close> o(1)] show "(\<exists>m. map_of ms j = Some m \<and> set (mr_aliases n) \<subseteq> set (mr_aliases m)) \<and>
        (\<forall>m. ?g k = Some m \<longrightarrow> set (mr_aliases n) \<inter> set (mr_aliases m) = {})"
      unfolding put_lookup by auto
  qed
qed

lemma names_ok_insert: "names_ok ms \<Longrightarrow> names_ok (insert_model m ms)"
  unfolding insert_model_def by (rule put_names_ok) auto

lemma serving_insert: "serving (insert_model m ms) = insert (mr_id m, mr_epoch m) {x \<in> serving ms. fst x \<noteq> mr_id m}"
  unfolding serving_def insert_model_def put_lookup by (force split: if_splits)

section \<open>The operations keep it\<close>

lemma prepare_inv:
  "prepare_in_engine a m s = (s', r) \<Longrightarrow> lf_models s' = lf_models s \<and> lf_next_epoch s' = lf_next_epoch s \<and>
     in_engine s' = (if r = Ok () then insert (mr_id m, mr_epoch m) (in_engine s) else in_engine s)"
  by (auto simp: prepare_in_engine_def split: option.splits)

text \<open>A record that is prepared, inserted and committed.\<close>

lemma committed_inv:
  assumes "lifecycle_inv s" and "prepare_in_engine a m s = (s', Ok ())" and "mr_epoch m < n" and "lf_next_epoch s \<le> n"
  shows "lifecycle_inv (call_engine (CallCommit m previous) (s'\<lparr>lf_models := insert_model m (lf_models s'), lf_next_epoch := n\<rparr>))"
proof -
  from prepare_inv[OF assms(2)] have p: "lf_models s' = lf_models s" "in_engine s' = insert (mr_id m, mr_epoch m) (in_engine s)" by simp_all
  have e: "{x \<in> insert (mr_id m, mr_epoch m) (serving (lf_models s)). fst x = mr_id m \<longrightarrow> snd x = mr_epoch m} =
    insert (mr_id m, mr_epoch m) {x \<in> serving (lf_models s). fst x \<noteq> mr_id m}"
    by (auto simp: prod_eq_iff)
  have n: "mr_epoch x < n" if "map_of (insert_model m (lf_models s)) k = Some x" for k x
  proof -
    from that have "x = m \<or> (\<exists>z. map_of (lf_models s) k = Some z \<and> mr_epoch x = mr_epoch z)"
      unfolding insert_model_def put_lookup by (auto split: if_splits)
    moreover have "mr_epoch z < lf_next_epoch s" if "map_of (lf_models s) k = Some z" for z
      using assms(1) that by (simp add: lifecycle_inv_def)
    ultimately show ?thesis using assms(3,4) by fastforce
  qed
  show ?thesis using assms(1) p e n
    by (simp add: lifecycle_inv_def names_ok_insert serving_insert)
qed

lemma sorted_aliases_set [simp]: "set (sorted_aliases xs) = set xs"
  by (simp add: sorted_aliases_def)

lemma register_new_inv:
  assumes "lifecycle_inv s" and "lf_next_epoch s < u64_max"
  shows "lifecycle_inv (fst (register_new a m s))"
proof -
  let ?m = "m\<lparr>mr_epoch := lf_next_epoch s\<rparr>"
  obtain s1 x where p: "prepare_in_engine a ?m s = (s1, x)" by (cases "prepare_in_engine a ?m s")
  note f = prepare_inv[OF p]
  have add: "checked_add (lf_next_epoch s) 1 = Some (lf_next_epoch s + 1)" using assms(2) by (simp add: checked_add_def)
  have "mr_epoch n < lf_next_epoch s" if "map_of (lf_models s) k = Some n" for k n using assms(1) that by (simp add: lifecycle_inv_def)
  then have new: "(mr_id m, lf_next_epoch s) \<notin> serving (lf_models s)" unfolding serving_def by fastforce
  show ?thesis
  proof (cases "x = Ok ()")
    case True
    show ?thesis
    proof (cases "la_catalog a")
      case None
      then have "fst (register_new a m s) = call_engine (CallCommit ?m (map_option mr_epoch (map_of (lf_models s) (mr_id m))))
        (s1\<lparr>lf_models := insert_model ?m (lf_models s1), lf_next_epoch := lf_next_epoch s + 1\<rparr>)"
        using p True add by (simp add: register_new_def Let_def)
      with committed_inv[OF assms(1) p[unfolded True], of "lf_next_epoch s + 1"] show ?thesis by simp
    next
      case (Some e)
      then have "fst (register_new a m s) = call_engine (CallRetire (mr_id m) (lf_next_epoch s)) s1"
        using p True by (simp add: register_new_def Let_def)
      with f True new assms(1) show ?thesis by (simp add: lifecycle_inv_def)
    qed
  next
    case False
    then have "fst (register_new a m s) = s1" using p by (cases x) (auto simp: register_new_def Let_def and_then_def)
    with f False assms(1) show ?thesis by (simp add: lifecycle_inv_def)
  qed
qed

lemma register_inv:
  assumes "lifecycle_inv s" and "lf_next_epoch s < u64_max"
  shows "lifecycle_inv (fst (lifecycle_register a m s))"
proof (cases "complete_record a m")
  case (Ok n)
  show ?thesis
  proof (cases "map_of (lf_models s) (mr_id n)")
    case (Some old)
    show ?thesis
    proof (cases "same_file old n")
      case True
      obtain s1 x where p: "prepare_in_engine a old s = (s1, x)" by (cases "prepare_in_engine a old s")
      have "fst (lifecycle_register a m s) = s1"
        using Ok Some True p by (cases x) (simp_all add: lifecycle_register_def and_then_def)
      moreover have "(mr_id old, mr_epoch old) \<in> serving (lf_models s)"
        using assms(1) Some by (auto simp: lifecycle_inv_def names_ok_def serving_def)
      ultimately show ?thesis using prepare_inv[OF p] assms(1) by (simp add: lifecycle_inv_def insert_absorb)
    qed (use Ok Some register_new_inv[OF assms] in \<open>simp add: lifecycle_register_def\<close>)
  qed (use Ok register_new_inv[OF assms] in \<open>simp add: lifecycle_register_def\<close>)
qed (use assms(1) in \<open>simp_all add: lifecycle_register_def\<close>)

lemma catalog_inv:
  assumes "lifecycle_inv s" and "mr_epoch m < u64_max"
  shows "lifecycle_inv (fst (lifecycle_register_from_catalog a m s))"
proof (cases "mr_epoch m = 0")
  case False
  obtain s1 x where p: "prepare_in_engine a m s = (s1, x)" by (cases "prepare_in_engine a m s")
  note f = prepare_inv[OF p]
  show ?thesis
  proof (cases "x = Ok ()")
    case True
    let ?n = "max (lf_next_epoch s) (saturating_add (mr_epoch m) 1)"
    have "mr_epoch m < ?n" using assms(2) by (simp add: saturating_add_def less_max_iff_disj)
    from committed_inv[OF assms(1) p[unfolded True] this] False p True f show ?thesis
      by (simp add: lifecycle_register_from_catalog_def Let_def)
  next
    case err: False
    have "fst (lifecycle_register_from_catalog a m s) = s1"
      using False p err by (cases x) (auto simp: lifecycle_register_from_catalog_def and_then_def)
    with f err assms(1) show ?thesis by (simp add: lifecycle_inv_def)
  qed
qed (use assms(1) in \<open>simp add: lifecycle_register_from_catalog_def\<close>)

lemma alias_inv:
  assumes "lifecycle_inv s"
  shows "lifecycle_inv (fst (lifecycle_alias attached a name alias s))"
proof (cases "map_of (lf_models s) name")
  case (Some m)
  let ?m = "add_alias alias (without_aliases [alias] m)"
  let ?ms = "hm_put name ?m (map (\<lambda>(k, old). (k, without_aliases [alias] old)) (lf_models s))"
  have m: "mr_id ?m = name" "mr_epoch ?m = mr_epoch m" "set (mr_aliases ?m) \<subseteq> insert alias (set (mr_aliases m))"
    using assms Some by (auto simp: add_alias_def lifecycle_inv_def names_ok_def)
  have ap: "aliases_apart (map_of (lf_models s))" using assms by (simp add: lifecycle_inv_def names_ok_def)
  have "names_ok ?ms"
  proof (rule put_names_ok)
    fix j n x assume h: "j \<noteq> name" "map_of (lf_models s) j = Some n" "x \<in> set (mr_aliases ?m)" "x \<notin> set [alias]"
    with m(3) have "x \<in> set (mr_aliases m)" by auto
    with ap Some h show "x \<notin> set (mr_aliases n)" unfolding aliases_apart_def by blast
  qed (use assms m in \<open>simp_all add: lifecycle_inv_def\<close>)
  moreover have "serving ?ms = serving (lf_models s)"
  proof (rule set_eqI)
    fix p show "p \<in> serving ?ms \<longleftrightarrow> p \<in> serving (lf_models s)"
      using Some m(2) by (cases p) (simp add: in_serving map_of_map_values option.map_comp comp_def del: map_option_eq_Some)
  qed
  moreover have "mr_epoch n < lf_next_epoch s" if "map_of ?ms k = Some n" for k n
  proof -
    from that Some m(2) have "\<exists>z. map_of (lf_models s) k = Some z \<and> mr_epoch n = mr_epoch z"
      unfolding put_lookup by (auto split: if_splits)
    then show ?thesis using assms by (auto simp: lifecycle_inv_def)
  qed
  ultimately have "lifecycle_inv (s\<lparr>lf_models := ?ms\<rparr>)" using assms by (simp add: lifecycle_inv_def)
  then show ?thesis using assms Some by (simp add: lifecycle_alias_def Let_def split: option.split)
qed (use assms in \<open>simp add: lifecycle_alias_def\<close>)

lemma remove_inv:
  assumes "lifecycle_inv s"
  shows "lifecycle_inv (fst (lifecycle_remove attached a name s))"
proof (cases "map_of (lf_models s) name")
  case (Some m)
  let ?ms = "hm_del name (lf_models s)"
  have id: "mr_id m = name" using assms Some by (simp add: lifecycle_inv_def names_ok_def)
  have ok: "names_ok (lf_models s)" using assms by (simp add: lifecycle_inv_def)
  then have "aliases_apart (map_of ?ms)" unfolding names_ok_def
    by (elim conjE) (rule aliases_apart_update[where k = name], assumption, auto)
  with ok have "names_ok ?ms" unfolding names_ok_def by (auto split: if_splits)
  moreover have "serving ?ms = serving (lf_models s) - {(name, mr_epoch m)}"
  proof (rule set_eqI)
    fix p show "p \<in> serving ?ms \<longleftrightarrow> p \<in> serving (lf_models s) - {(name, mr_epoch m)}"
      using Some by (cases p) (auto simp: in_serving)
  qed
  moreover have "mr_epoch n < lf_next_epoch s" if "map_of ?ms k = Some n" for k n
    using that assms by (auto simp: lifecycle_inv_def split: if_splits)
  ultimately have "lifecycle_inv (call_engine (CallRetire (mr_id m) (mr_epoch m)) (s\<lparr>lf_models := ?ms\<rparr>))"
    using assms id by (simp add: lifecycle_inv_def)
  then show ?thesis using assms Some by (simp add: lifecycle_remove_def split: option.split)
qed (use assms in \<open>simp add: lifecycle_remove_def\<close>)

lemma lifecycle_inv_init: "lifecycle_init s \<Longrightarrow> lifecycle_inv s"
  by (simp add: lifecycle_init_def lifecycle_new_def lifecycle_inv_def names_ok_def aliases_apart_def serving_def in_engine_def hm_ok_def)

lemma lifecycle_inv_step: "lifecycle_step s t \<Longrightarrow> lifecycle_inv s \<Longrightarrow> lifecycle_inv t"
  by (induction rule: lifecycle_step.induct) (auto intro: register_inv catalog_inv alias_inv remove_inv)

interpretation lifecycle_machine: safe_machine lifecycle_init lifecycle_step lifecycle_inv
  by unfold_locales (fact lifecycle_inv_init, fact lifecycle_inv_step)

section \<open>Names and the engine\<close>

text \<open>C22: Model names are unambiguous and the engine agrees with the table. Whatever was registered, read from the catalog,
  aliased or removed, and whichever of these failed: a model is stored under its own id, no two models share an alias,
  so that a look-up does not depend on the order of the hash map; every epoch that is served is below the one the next
  registration takes (a registration that fails leaves that one, so it may be tried again); and what the calls leave in
  the engine are exactly the models and epochs that are served.\<close>

theorem lifecycle_names_and_engine:
  assumes "lifecycle_reach s"
  shows "(\<forall>k m. map_of (lf_models s) k = Some m \<longrightarrow> mr_id m = k \<and> mr_epoch m < lf_next_epoch s) \<and>
    (\<forall>m n x. m \<in> set (lifecycle_models s) \<and> n \<in> set (lifecycle_models s) \<and> x \<in> set (mr_aliases m) \<and> x \<in> set (mr_aliases n) \<longrightarrow> m = n) \<and>
    (\<forall>ms name. hm_ok ms \<and> map_of ms = map_of (lf_models s) \<longrightarrow>
      lifecycle_model (s\<lparr>lf_models := ms\<rparr>) name = lifecycle_model s name) \<and>
    in_engine s = {(k, mr_epoch m) | k m. map_of (lf_models s) k = Some m}"
proof -
  from assms have inv: "lifecycle_inv s" unfolding lifecycle_reach_def by (rule lifecycle_machine.reach_inv)
  then have ok: "hm_ok (lf_models s)" and ap: "aliases_apart (map_of (lf_models s))" by (simp_all add: lifecycle_inv_def names_ok_def)
  have one: "m = n" if h: "map_of ms = map_of (lf_models s)" "hm_ok ms" "m \<in> set (hm_values ms)" "n \<in> set (hm_values (lf_models s))"
    "x \<in> set (mr_aliases m)" "x \<in> set (mr_aliases n)" for ms m n x
  proof -
    obtain j k where "map_of (lf_models s) j = Some m" "map_of (lf_models s) k = Some n"
      using hm_values_iff[OF h(2), of m] hm_values_iff[OF ok, of n] h(1,3,4) by auto
    with ap h(5,6) show ?thesis unfolding aliases_apart_def by (metis option.inject)
  qed
  have same: "find (\<lambda>m. x \<in> set (mr_aliases m)) (hm_values ms) = find (\<lambda>m. x \<in> set (mr_aliases m)) (hm_values (lf_models s))"
    if ms: "hm_ok ms" "map_of ms = map_of (lf_models s)" for ms x
  proof (cases "find (\<lambda>m. x \<in> set (mr_aliases m)) (hm_values ms)")
    case None
    have "set (hm_values ms) = set (hm_values (lf_models s))" 
      using hm_values_iff[OF ms(1)] hm_values_iff[OF ok] ms(2) by (intro set_eqI) simp
    with None have "find (\<lambda>m. x \<in> set (mr_aliases m)) (hm_values (lf_models s)) = None"
      unfolding find_None_iff by (simp only: not_False_eq_True)
    with None show ?thesis by simp
  next
    case (Some m)
    then have m: "m \<in> set (hm_values ms)" "x \<in> set (mr_aliases m)" by (auto simp: find_Some_iff)
    then have "m \<in> set (hm_values (lf_models s))" using hm_values_iff[OF ms(1), of m] hm_values_iff[OF ok, of m] ms(2) by simp
    with m(2) obtain n where n: "find (\<lambda>m. x \<in> set (mr_aliases m)) (hm_values (lf_models s)) = Some n"
      by (cases "find (\<lambda>m. x \<in> set (mr_aliases m)) (hm_values (lf_models s))") (auto simp: find_None_iff)
    then have "n \<in> set (hm_values (lf_models s))" "x \<in> set (mr_aliases n)" by (auto simp: find_Some_iff)
    with one[OF ms(2,1) m(1) _ m(2)] n Some show ?thesis by simp
  qed
  show ?thesis
  proof (intro conjI allI impI)
    show "in_engine s = {(k, mr_epoch m) | k m. map_of (lf_models s) k = Some m}"
      using inv by (simp add: lifecycle_inv_def serving_def)
    fix ms name assume h: "hm_ok ms \<and> map_of ms = map_of (lf_models s)"
    have "lf_models (s\<lparr>lf_models := ms\<rparr>) = ms" by simp
    with h same[of ms name] show "lifecycle_model (s\<lparr>lf_models := ms\<rparr>) name = lifecycle_model s name"
      unfolding lifecycle_model_def by (simp only:)
  next
    fix m n x
    assume "m \<in> set (lifecycle_models s) \<and> n \<in> set (lifecycle_models s) \<and> x \<in> set (mr_aliases m) \<and> x \<in> set (mr_aliases n)"
    then show "m = n" using one[OF refl ok, of m n x] unfolding lifecycle_models_def by blast
  qed (use inv in \<open>simp_all add: lifecycle_inv_def names_ok_def\<close>)
qed

definition file_model :: "string \<Rightarrow> string list \<Rightarrow> ModelRecord" where
  "file_model name aliases = \<lparr>mr_id = name, mr_revision = ''r'', mr_path = name, mr_sha256 = ''h'', mr_aliases = aliases,
     mr_family = ''gemma4'', mr_size_bytes = 3, mr_epoch = 0\<rparr>"

definition all_well :: LifecycleAnswers where
  "all_well = \<lparr>la_size = Ok 3, la_prepared = None, la_catalog = None\<rparr>"

definition one_model :: Lifecycle where
  "one_model = fst (lifecycle_register all_well (file_model ''m'' [''x'']) lifecycle_new)"

lemma one_model_eq: "lf_models one_model = [(''m'', (file_model ''m'' [''x''])\<lparr>mr_epoch := 1\<rparr>)]" "lf_next_epoch one_model = 2"
  by (simp_all add: one_model_def lifecycle_register_def complete_record_def register_new_def prepare_in_engine_def all_well_def
    file_model_def lifecycle_new_def call_engine_def insert_model_def sorted_aliases_def checked_add_code Let_def)

lemma one_model_reach: "lifecycle_reach one_model"
  unfolding lifecycle_reach_def one_model_def
  by (rule reach_step, rule reach_init, simp add: lifecycle_init_def, rule lstep_register)
    (simp add: lifecycle_new_def u64_max_def)

theorem lifecycle_names_and_engine_witness:
  "lifecycle_reach one_model \<and> in_engine one_model = {(''m'', 1)} \<and> lifecycle_model one_model ''x'' = Ok ((file_model ''m'' [''x''])\<lparr>mr_epoch := 1\<rparr>)"
proof -
  have "in_engine one_model = {(k, mr_epoch m) | k m. map_of (lf_models one_model) k = Some m}"
    using lifecycle_names_and_engine[OF one_model_reach] by blast
  then have "in_engine one_model = {(''m'', 1)}" by (auto simp: one_model_eq split: if_splits)
  moreover have "lifecycle_model one_model ''x'' = Ok ((file_model ''m'' [''x''])\<lparr>mr_epoch := 1\<rparr>)"
    by (simp add: lifecycle_model_def one_model_eq file_model_def)
  ultimately show ?thesis using one_model_reach by blast
qed

text \<open>A file that is registered again keeps the aliases it had: those of the new registration are ignored.\<close>

lemma reregistration_keeps_old_aliases:
  assumes "map_of (lf_models s) (mr_id m) = Some old" and "complete_record a m = Ok n" and "same_file old n" and "la_prepared a = None"
  shows "snd (lifecycle_register a m s) = Ok old \<and> lf_models (fst (lifecycle_register a m s)) = lf_models s"
proof -
  have "mr_id n = mr_id m" using assms(2) by (auto simp: complete_record_def Let_def split: if_splits outcome.splits)
  with assms show ?thesis by (simp add: lifecycle_register_def prepare_in_engine_def)
qed

end
