(* ===== verification/Model_Catalog.thy ===== *)
theory Model_Catalog
  imports Lifecycle "HOL-Library.List_Lexorder"
begin

text \<open>
  The catalog of models (\<open>ModelCatalog\<close> in \<open>crates/server/src/catalog.rs\<close>): its two tables, with the constraints
  of their schema, and the operations on them; and a server that starts from it (\<open>crates/cli/src/main.rs\<close>).
  SQLite runs each statement in one transaction; \<open>fault\<close> is an error it may report. The columns with times are left out.
\<close>

section \<open>Data\<close>

datatype CatalogError = CatalogSql string | CatalogData string

fun catalog_error_text :: "CatalogError \<Rightarrow> string" where
  "catalog_error_text (CatalogSql e) = ''catalog database: '' @ e"
| "catalog_error_text (CatalogData e) = ''catalog data: '' @ e"

definition catalog_state_err :: "CatalogError \<Rightarrow> server_error" where
  "catalog_state_err e = StateError (catalog_error_text e)"

record CatalogOperation =
  co_model :: string
  co_kind :: string
  co_status :: string
  co_detail :: "string option"

record ModelCatalog =
  ct_models :: "(string, ModelRecord) hm"
  ct_operations :: "(string, CatalogOperation) hm"

definition operation_statuses :: "string list" where
  "operation_statuses = [''running'', ''complete'', ''failed'', ''cancelled'']"

text \<open>One statement: the error SQLite reports, or a constraint of the schema that does not hold, or the new tables.\<close>

definition run_statement :: "string option \<Rightarrow> bool \<Rightarrow> ModelCatalog \<Rightarrow> ModelCatalog \<Rightarrow> ModelCatalog \<times> (CatalogError, unit) outcome" where
  "run_statement fault constraint c' c = (case fault of Some e \<Rightarrow> (c, Err (CatalogSql e))
     | None \<Rightarrow> if constraint then (c', Ok ()) else (c, Err (CatalogSql ''constraint failed'')))"

section \<open>Models\<close>

text \<open>The index \<open>model_path_revision\<close> is unique; a conflict of ids updates the row.\<close>

definition path_revision_free :: "ModelRecord \<Rightarrow> (string, ModelRecord) hm \<Rightarrow> bool" where
  "path_revision_free m ms \<longleftrightarrow>
     \<not> list_ex (\<lambda>(k, old). k \<noteq> mr_id m \<and> mr_path old = mr_path m \<and> mr_revision old = mr_revision m) ms"

definition publish_model :: "string option \<Rightarrow> ModelRecord \<Rightarrow> ModelCatalog \<Rightarrow> ModelCatalog \<times> (CatalogError, unit) outcome" where
  "publish_model fault m c =
     (if mr_epoch m = 0 then (c, Err (CatalogData ''model epoch must be nonzero''))
      else if i64_max < int (mr_size_bytes m) then (c, Err (CatalogData ''model size exceeds SQLite integer''))
      else if i64_max < int (mr_epoch m) then (c, Err (CatalogData ''model epoch exceeds SQLite integer''))
      else run_statement fault (path_revision_free m (ct_models c)) (c\<lparr>ct_models := hm_put (mr_id m) m (ct_models c)\<rparr>) c)"

text \<open>\<open>ORDER BY id\<close> compares the bytes of the ids.\<close>

definition catalog_models :: "ModelCatalog \<Rightarrow> ModelRecord list" where
  "catalog_models c = map snd (sort_key fst (ct_models c))"

definition catalog_model :: "string \<Rightarrow> ModelCatalog \<Rightarrow> ModelRecord option" where
  "catalog_model name c = find (\<lambda>m. mr_id m = name \<or> name \<in> set (mr_aliases m)) (catalog_models c)"

definition catalog_publish :: "string option \<Rightarrow> ModelRecord \<Rightarrow> ModelCatalog \<Rightarrow> ModelCatalog \<times> (CatalogError, unit) outcome" where
  "catalog_publish fault m c = publish_model fault m c"

definition catalog_remove :: "string option \<Rightarrow> string \<Rightarrow> ModelCatalog \<Rightarrow> ModelCatalog \<times> (CatalogError, bool) outcome" where
  "catalog_remove fault i c = (case fault of Some e \<Rightarrow> (c, Err (CatalogSql e))
     | None \<Rightarrow> (c\<lparr>ct_models := hm_del i (ct_models c)\<rparr>, Ok (hm_has (ct_models c) i)))"

section \<open>Operations\<close>

definition absent_or_terminal :: "string \<Rightarrow> CatalogError" where
  "absent_or_terminal i = CatalogData (''operation '' @ i @ '' is absent or terminal'')"

definition operation_running :: "string \<Rightarrow> ModelCatalog \<Rightarrow> bool" where
  "operation_running i c \<longleftrightarrow> (case map_of (ct_operations c) i of Some row \<Rightarrow> co_status row = ''running'' | None \<Rightarrow> False)"

definition set_status :: "string \<Rightarrow> string \<Rightarrow> string option \<Rightarrow> ModelCatalog \<Rightarrow> ModelCatalog" where
  "set_status i status detail c = (case map_of (ct_operations c) i of
     Some row \<Rightarrow> c\<lparr>ct_operations := hm_put i (row\<lparr>co_status := status, co_detail := detail\<rparr>) (ct_operations c)\<rparr> | None \<Rightarrow> c)"

definition begin_operation :: "string option \<Rightarrow> string \<Rightarrow> string \<Rightarrow> string \<Rightarrow> ModelCatalog \<Rightarrow> ModelCatalog \<times> (CatalogError, unit) outcome" where
  "begin_operation fault i model kind c = run_statement fault (\<not> hm_has (ct_operations c) i)
     (c\<lparr>ct_operations := hm_put i \<lparr>co_model = model, co_kind = kind, co_status = ''running'', co_detail = None\<rparr> (ct_operations c)\<rparr>) c"

definition finish_operation :: "string option \<Rightarrow> string \<Rightarrow> string \<Rightarrow> string option \<Rightarrow> ModelCatalog \<Rightarrow> ModelCatalog \<times> (CatalogError, unit) outcome" where
  "finish_operation fault i status detail c =
     and_then (run_statement fault (operation_running i c \<longrightarrow> status \<in> set operation_statuses) (if operation_running i c then set_status i status detail c else c) c)
       (\<lambda>_ c'. if operation_running i c then (c', Ok ()) else (c', Err (absent_or_terminal i)))"

definition operation_status :: "string \<Rightarrow> ModelCatalog \<Rightarrow> string option" where
  "operation_status i c = map_option co_status (map_of (ct_operations c) i)"

text \<open>A transaction that is not committed changes nothing. \<open>faults\<close>: of the insertion, the update, the commit.\<close>

definition publish_and_finish_operation ::
  "string option \<times> string option \<times> string option \<Rightarrow> ModelRecord \<Rightarrow> string \<Rightarrow> ModelCatalog \<Rightarrow> ModelCatalog \<times> (CatalogError, unit) outcome" where
  "publish_and_finish_operation faults m operation c = (case faults of (f1, f2, f3) \<Rightarrow>
     (case publish_model f1 m c of (c1, r) \<Rightarrow> (case r of Err e \<Rightarrow> (c, Err e) | Abort \<Rightarrow> (c, Abort)
      | Ok _ \<Rightarrow> (case f2 of Some e \<Rightarrow> (c, Err (CatalogSql e))
        | None \<Rightarrow> if \<not> operation_running operation c1 then (c, Err (absent_or_terminal operation))
            else (case f3 of Some e \<Rightarrow> (c, Err (CatalogSql e)) | None \<Rightarrow> (set_status operation ''complete'' None c1, Ok ()))))))"

text \<open>Opening fails the operations that were running.\<close>

definition catalog_open :: "ModelCatalog \<Rightarrow> ModelCatalog" where
  "catalog_open c = c\<lparr>ct_operations := map (\<lambda>(i, row). (i, if co_status row = ''running''
     then row\<lparr>co_status := ''failed'', co_detail := Some ''server restarted before operation completed''\<rparr> else row)) (ct_operations c)\<rparr>"

section \<open>The lifecycle with its catalog\<close>

definition catalog_answer :: "(CatalogError, 'a) outcome \<Rightarrow> LifecycleAnswers \<Rightarrow> LifecycleAnswers" where
  "catalog_answer r a = a\<lparr>la_catalog := (case r of Err e \<Rightarrow> Some (catalog_state_err e) | _ \<Rightarrow> None)\<rparr>"

text \<open>\<open>alias\<close> publishes the record of the model that gains the alias, and no other.\<close>

definition catalogued_alias :: "string option \<Rightarrow> LifecycleAnswers \<Rightarrow> string \<Rightarrow> string \<Rightarrow> Lifecycle \<times> ModelCatalog
    \<Rightarrow> (Lifecycle \<times> ModelCatalog) \<times> (server_error, ModelRecord) outcome" where
  "catalogued_alias fault a name alias sc = (case sc of (s, c) \<Rightarrow>
     (case map_of (lf_models s) name of None \<Rightarrow> ((s, c), Err (ModelNotFound name))
      | Some m \<Rightarrow> (case catalog_publish fault (add_alias alias (without_aliases [alias] m)) c of (c', published) \<Rightarrow>
          (case lifecycle_alias True (catalog_answer published a) name alias s of (s', r) \<Rightarrow> ((s', c'), r)))))"

text \<open>A registration that publishes (\<open>register_model_with\<close>): the catalog is asked only for a new epoch that was prepared.\<close>

definition catalogued_register :: "string option \<Rightarrow> LifecycleAnswers \<Rightarrow> ModelRecord \<Rightarrow> Lifecycle \<times> ModelCatalog
    \<Rightarrow> (Lifecycle \<times> ModelCatalog) \<times> (server_error, ModelRecord) outcome" where
  "catalogued_register fault a m sc = (case sc of (s, c) \<Rightarrow>
     (case complete_record a m of Err e \<Rightarrow> ((s, c), Err e) | Abort \<Rightarrow> ((s, c), Abort)
      | Ok n \<Rightarrow> (let known = (case map_of (lf_models s) (mr_id n) of Some old \<Rightarrow> same_file old n | None \<Rightarrow> False);
            answer = (if known \<or> la_prepared a \<noteq> None then (c, Ok ())
              else catalog_publish fault (n\<lparr>mr_epoch := lf_next_epoch s\<rparr>) c) in
          (case lifecycle_register (catalog_answer (snd answer) a) m s of (s', r) \<Rightarrow> ((s', fst answer), r)))))"

definition catalogued_remove :: "string option \<Rightarrow> LifecycleAnswers \<Rightarrow> string \<Rightarrow> Lifecycle \<times> ModelCatalog
    \<Rightarrow> (Lifecycle \<times> ModelCatalog) \<times> (server_error, unit) outcome" where
  "catalogued_remove fault a name sc = (case sc of (s, c) \<Rightarrow>
     (case map_of (lf_models s) name of None \<Rightarrow> ((s, c), Err (ModelNotFound name))
      | Some m \<Rightarrow> (case catalog_remove fault name c of (c', removed) \<Rightarrow>
          (case lifecycle_remove True (catalog_answer removed a) name s of (s', r) \<Rightarrow> ((s', c'), r)))))"

text \<open>The start of a server: the models of the catalog are registered in order, and an error ends it.\<close>

fun register_all :: "(string \<Rightarrow> LifecycleAnswers) \<Rightarrow> ModelRecord list \<Rightarrow> Lifecycle \<Rightarrow> Lifecycle \<times> (server_error, unit) outcome" where
  "register_all answers [] s = (s, Ok ())"
| "register_all answers (m # ms) s =
     and_then (lifecycle_register_from_catalog (answers (mr_id m)) m s) (\<lambda>_ s. register_all answers ms s)"

definition server_start :: "(string \<Rightarrow> LifecycleAnswers) \<Rightarrow> ModelCatalog \<Rightarrow> Lifecycle \<times> (server_error, unit) outcome" where
  "server_start answers c = register_all answers (catalog_models (catalog_open c)) lifecycle_new"

text \<open>A server and its catalog: registrations, aliases and removals with any answers and faults, operations of the admin
  interface, and restarts.\<close>

definition empty_catalog :: ModelCatalog where
  "empty_catalog = \<lparr>ct_models = [], ct_operations = []\<rparr>"

definition server_init :: "Lifecycle \<times> ModelCatalog \<Rightarrow> bool" where
  "server_init sc \<longleftrightarrow> sc = (lifecycle_new, empty_catalog)"

inductive server_step :: "Lifecycle \<times> ModelCatalog \<Rightarrow> Lifecycle \<times> ModelCatalog \<Rightarrow> bool" where
  sstep_register: "server_step sc (fst (catalogued_register fault a m sc))"
| sstep_alias: "server_step sc (fst (catalogued_alias fault a name alias sc))"
| sstep_remove: "server_step sc (fst (catalogued_remove fault a name sc))"
| sstep_begin: "server_step (s, c) (s, fst (begin_operation fault i model kind c))"
| sstep_finish: "server_step (s, c) (s, fst (finish_operation fault i status detail c))"
| sstep_restart: "server_start answers c = (s', Ok ()) \<Longrightarrow> server_step (s, c) (s', catalog_open c)"

definition server_reach :: "Lifecycle \<times> ModelCatalog \<Rightarrow> bool" where
  "server_reach sc = reach server_init server_step sc"

end
