(* ===== verification/Catalog_Props.thy ===== *)
theory Catalog_Props
  imports Lifecycle_Props Model_Catalog
begin

text \<open>
  The catalog and the lifecycle together: what a server that starts from the catalog serves, and which model an alias
  belongs to after a restart.
\<close>

section \<open>A start\<close>

lemma register_all_Ok:
  "register_all answers ms s = (s', Ok ()) \<Longrightarrow> lf_models s' = fold insert_model ms (lf_models s)"
proof (induction ms arbitrary: s)
  case (Cons m ms)
  obtain s1 x where r: "lifecycle_register_from_catalog (answers (mr_id m)) m s = (s1, x)"
    by (cases "lifecycle_register_from_catalog (answers (mr_id m)) m s")
  with Cons.prems obtain y where x: "x = Ok y" and s1: "register_all answers ms s1 = (s', Ok ())"
    by (cases x) (simp_all add: and_then_def)
  from r x have "lf_models s1 = insert_model m (lf_models s)"
    by (auto simp: lifecycle_register_from_catalog_def prepare_in_engine_def and_then_def call_engine_def Let_def
      split: if_splits option.splits)
  with Cons.IH[OF s1] show ?case by simp
qed simp

text \<open>After the records have been registered in order, an alias belongs to the last record that lists it.\<close>

lemma insert_model_lookup:
  "map_of (insert_model m ms) k = (if k = mr_id m then Some m else map_option (without_aliases (mr_aliases m)) (map_of ms k))"
  by (simp add: insert_model_def map_of_map[of "\<lambda>_. without_aliases (mr_aliases m)", simplified] map_of_map_values)

lemma hm_ok_insert_model: "hm_ok ms \<Longrightarrow> hm_ok (insert_model m ms)"
  unfolding insert_model_def by (rule hm_ok_put) (simp add: hm_ok_def comp_def split_def)

lemma registered_in_order:
  assumes "distinct (map mr_id ms)"
  shows "hm_ok (fold insert_model ms []) \<and>
    (\<forall>k n. map_of (fold insert_model ms []) k = Some n \<longrightarrow> mr_id n = k \<and> k \<in> mr_id ` set ms \<and>
      (x \<in> set (mr_aliases n) \<longleftrightarrow> (let l = filter (\<lambda>m. x \<in> set (mr_aliases m)) ms in l \<noteq> [] \<and> k = mr_id (last l)))) \<and>
    (\<forall>m\<in>set ms. \<exists>n. map_of (fold insert_model ms []) (mr_id m) = Some n)"
  using assms
proof (induction ms rule: rev_induct)
  case (snoc m ms)
  let ?f = "fold insert_model ms []" let ?l = "filter (\<lambda>m. x \<in> set (mr_aliases m)) ms"
  from snoc have new: "mr_id m \<notin> mr_id ` set ms" and d: "distinct (map mr_id ms)" by auto
  note IH = snoc.IH[OF d]
  have last: "last ?l \<in> set ms" if "?l \<noteq> []" using last_in_set[OF that] by simp
  have "mr_id n = k \<and> k \<in> mr_id ` set (ms @ [m]) \<and>
      (x \<in> set (mr_aliases n) \<longleftrightarrow> (let l = filter (\<lambda>m. x \<in> set (mr_aliases m)) (ms @ [m]) in l \<noteq> [] \<and> k = mr_id (last l)))"
    if k: "map_of (insert_model m ?f) k = Some n" for k n
  proof (cases "k = mr_id m")
    case True
    then have n: "n = m" using k by (simp add: insert_model_lookup)
    have "?l \<noteq> [] \<Longrightarrow> mr_id m \<noteq> mr_id (last ?l)" using last new by (metis image_eqI)
    then show ?thesis using True n by (auto simp: Let_def)
  next
    case False
    then obtain z where z: "map_of ?f k = Some z" "n = without_aliases (mr_aliases m) z"
      using k by (auto simp: insert_model_lookup)
    from IH z(1) have iz: "mr_id z = k" "k \<in> mr_id ` set ms" "x \<in> set (mr_aliases z) \<longleftrightarrow> ?l \<noteq> [] \<and> k = mr_id (last ?l)"
      unfolding Let_def by blast+
    have "x \<in> set (mr_aliases n) \<longleftrightarrow> x \<in> set (mr_aliases z) \<and> x \<notin> set (mr_aliases m)" by (auto simp: z(2) without_aliases_def)
    with iz False z(2) show ?thesis by (auto simp: without_aliases_def Let_def)
  qed
  moreover have "\<exists>n. map_of (insert_model m ?f) (mr_id y) = Some n" if "y \<in> set (ms @ [m])" for y
    using that IH by (auto simp: insert_model_lookup)
  ultimately show ?case using IH by (simp add: hm_ok_insert_model)
qed simp

section \<open>The rows of the catalog\<close>

text \<open>Every row is kept under its id and no two rows have the same path and revision.\<close>

definition catalog_ok :: "ModelCatalog \<Rightarrow> bool" where
  "catalog_ok c \<longleftrightarrow> hm_ok (ct_models c) \<and> hm_ok (ct_operations c) \<and> (\<forall>k m. map_of (ct_models c) k = Some m \<longrightarrow> mr_id m = k) \<and>
     (\<forall>j k m n. map_of (ct_models c) j = Some m \<longrightarrow> map_of (ct_models c) k = Some n \<longrightarrow>
        mr_path m = mr_path n \<longrightarrow> mr_revision m = mr_revision n \<longrightarrow> j = k)"

lemma path_revision_free_iff: "hm_ok ms \<Longrightarrow> path_revision_free m ms \<longleftrightarrow>
    (\<forall>k old. map_of ms k = Some old \<longrightarrow> mr_path old = mr_path m \<longrightarrow> mr_revision old = mr_revision m \<longrightarrow> k = mr_id m)"
  unfolding path_revision_free_def list_ex_iff by (auto simp: hm_get_in_iff)

lemma publish_model_cases:
  assumes "publish_model fault m c = (c', r)"
  shows "(\<exists>e. r = Err e \<and> c' = c) \<or> (r = Ok () \<and> c' = c\<lparr>ct_models := hm_put (mr_id m) m (ct_models c)\<rparr> \<and> mr_epoch m \<noteq> 0 \<and>
     path_revision_free m (ct_models c))"
  using assms by (auto simp: publish_model_def run_statement_def split: if_splits option.splits)

lemma publish_model_ok: "catalog_ok c \<Longrightarrow> catalog_ok (fst (publish_model fault m c))"
proof -
  assume ok: "catalog_ok c"
  obtain c' r where p: "publish_model fault m c = (c', r)" by (cases "publish_model fault m c")
  show ?thesis
  proof (cases "c' = c")
    case True
    with ok p show ?thesis by simp
  next
    case False
    with publish_model_cases[OF p] have c': "c' = c\<lparr>ct_models := hm_put (mr_id m) m (ct_models c)\<rparr>"
      and free: "path_revision_free m (ct_models c)" by blast+
    from ok have hm: "hm_ok (ct_models c)" by (simp add: catalog_ok_def)
    note free = free[unfolded path_revision_free_iff[OF hm]]
    have "j = k" if h: "((map_of (ct_models c))(mr_id m \<mapsto> m)) j = Some a" "((map_of (ct_models c))(mr_id m \<mapsto> m)) k = Some b"
      "mr_path a = mr_path b" "mr_revision a = mr_revision b" for j k a b
    proof (cases "j = mr_id m \<or> k = mr_id m")
      case True
      with h free show ?thesis by (auto split: if_splits)
    next
      case False
      with h ok show ?thesis unfolding catalog_ok_def by auto
    qed
    then have "\<forall>j k a b. map_of (ct_models c') j = Some a \<longrightarrow> map_of (ct_models c') k = Some b \<longrightarrow>
        mr_path a = mr_path b \<longrightarrow> mr_revision a = mr_revision b \<longrightarrow> j = k" unfolding c' by (simp del: fun_upd_apply)
    moreover have "\<forall>k n. map_of (ct_models c') k = Some n \<longrightarrow> mr_id n = k" using ok by (simp add: c' catalog_ok_def)
    moreover have "hm_ok (ct_models c') \<and> hm_ok (ct_operations c')" using ok by (simp add: c' catalog_ok_def)
    ultimately show ?thesis unfolding p fst_conv catalog_ok_def by blast
  qed
qed

lemma catalog_models_props:
  assumes "catalog_ok c"
  shows "m \<in> set (catalog_models c) \<longleftrightarrow> map_of (ct_models c) (mr_id m) = Some m"
    and "sorted (map mr_id (catalog_models c))" and "distinct (map mr_id (catalog_models c))"
proof -
  from assms have hm: "hm_ok (ct_models c)" and id: "\<And>k n. map_of (ct_models c) k = Some n \<Longrightarrow> mr_id n = k"
    by (simp_all add: catalog_ok_def)
  from hm id have i: "\<And>p. p \<in> set (ct_models c) \<Longrightarrow> mr_id (snd p) = fst p" by (auto simp: hm_get_in_iff)
  show "m \<in> set (catalog_models c) \<longleftrightarrow> map_of (ct_models c) (mr_id m) = Some m"
  proof
    assume "m \<in> set (catalog_models c)"
    then obtain k where "(k, m) \<in> set (ct_models c)" by (auto simp: catalog_models_def)
    with i[of "(k, m)"] show "map_of (ct_models c) (mr_id m) = Some m" by (simp add: hm_get_in_iff[OF hm])
  next
    assume "map_of (ct_models c) (mr_id m) = Some m"
    then have "(mr_id m, m) \<in> set (ct_models c)" by (simp add: hm_get_in_iff[OF hm])
    then show "m \<in> set (catalog_models c)" by (force simp: catalog_models_def)
  qed
  have e: "map mr_id (catalog_models c) = map fst (sort_key fst (ct_models c))"
    unfolding catalog_models_def map_map by (rule map_cong[OF refl]) (use i in simp)
  show "sorted (map mr_id (catalog_models c))" unfolding e by simp
  have "mset (map fst (sort_key fst (ct_models c))) = mset (map fst (ct_models c))" by simp
  then show "distinct (map mr_id (catalog_models c))"
    unfolding e using hm by (metis hm_ok_def mset_eq_imp_distinct_iff)
qed

text \<open>The ids of the rows that list an alias.\<close>

definition listing :: "string \<Rightarrow> ModelCatalog \<Rightarrow> string set" where
  "listing x c = {k. \<exists>m. map_of (ct_models c) k = Some m \<and> x \<in> set (mr_aliases m)}"

lemma sorted_last_Max: "sorted (map f l) \<Longrightarrow> l \<noteq> [] \<Longrightarrow> f (last l) = Max (f ` set l)"
  for f :: "'a \<Rightarrow> 'b :: linorder"
  by (cases l rule: rev_cases) (auto simp: sorted_append intro!: Max_eqI[symmetric])

lemma start_gives_alias_to_last:
  assumes "catalog_ok c" and "server_start answers c = (s, Ok ())" and "listing x c \<noteq> {}"
    and "map_of (ct_models c) x = None"
  shows "\<exists>n. lifecycle_model s x = Ok n \<and> mr_id n = Max (listing x c)"
proof -
  let ?ms = "catalog_models c" let ?l = "filter (\<lambda>m. x \<in> set (mr_aliases m)) ?ms"
  have o: "catalog_models (catalog_open c) = ?ms" by (simp add: catalog_models_def catalog_open_def)
  note cm = catalog_models_props[OF assms(1)]
  from assms(2) have ms: "lf_models s = fold insert_model ?ms []"
    using register_all_Ok[of answers ?ms lifecycle_new s] by (simp add: server_start_def o lifecycle_new_def)
  note reg = registered_in_order[OF cm(3), of x, folded ms]
  have set: "mr_id ` set ?l = listing x c"
  proof (intro set_eqI iffI)
    fix k assume "k \<in> mr_id ` set ?l"
    then show "k \<in> listing x c" using cm(1) by (auto simp: listing_def)
  next
    fix k assume "k \<in> listing x c"
    then obtain m where m: "map_of (ct_models c) k = Some m" "x \<in> set (mr_aliases m)" by (auto simp: listing_def)
    with assms(1) have "mr_id m = k" by (simp add: catalog_ok_def)
    with m cm(1)[of m] show "k \<in> mr_id ` set ?l" by (intro image_eqI[of _ _ m]) simp_all
  qed
  have ne: "?l \<noteq> []"
  proof
    assume e: "?l = []"
    have "mr_id ` set ?l = {}" unfolding e by simp
    with set assms(3) show False by (simp only: simp_thms)
  qed
  have "sorted (map mr_id ?l)" using cm(2) by (rule sorted_filter)
  from sorted_last_Max[OF this ne] have last: "mr_id (last ?l) = Max (listing x c)" by (simp only: set)
  have in_l: "last ?l \<in> set ?ms" using last_in_set[OF ne] by simp
  with reg obtain n where n: "map_of (lf_models s) (mr_id (last ?l)) = Some n" by blast
  with reg ne have xn: "x \<in> set (mr_aliases n)" unfolding Let_def by blast
  have none: "map_of (lf_models s) x = None"
  proof (rule ccontr)
    assume "map_of (lf_models s) x \<noteq> None"
    with reg have "x \<in> mr_id ` set ?ms" by blast
    with cm(1) assms(4) show False by auto
  qed
  from reg have hm: "hm_ok (lf_models s)" by blast
  have "\<exists>z. find (\<lambda>m. x \<in> set (mr_aliases m)) (hm_values (lf_models s)) = Some z"
  proof (rule ccontr)
    assume "\<nexists>z. find (\<lambda>m. x \<in> set (mr_aliases m)) (hm_values (lf_models s)) = Some z"
    then have "\<forall>z\<in>set (hm_values (lf_models s)). x \<notin> set (mr_aliases z)" by (auto simp: find_None_iff)
    with xn n show False using hm_values_iff[OF hm, of n] by blast
  qed
  then obtain z where z: "find (\<lambda>m. x \<in> set (mr_aliases m)) (hm_values (lf_models s)) = Some z" by blast
  then have "z \<in> set (hm_values (lf_models s))" "x \<in> set (mr_aliases z)" by (auto simp: find_Some_iff)
  then obtain k where "map_of (lf_models s) k = Some z" using hm_values_iff[OF hm, of z] by blast
  with reg \<open>x \<in> set (mr_aliases z)\<close> have "mr_id z = mr_id (last ?l)" unfolding Let_def by blast
  with none z last show ?thesis by (simp add: lifecycle_model_def)
qed

section \<open>Moving an alias\<close>

lemma alias_gives:
  assumes "lifecycle_reach s" and "catalogued_alias fault answers a x (s, c) = ((s', c'), Ok m)" and "map_of (lf_models s) x = None"
  shows "lifecycle_model s' x = Ok m" and "mr_id m = a" and "x \<in> set (mr_aliases m)" and "a \<noteq> x"
    and "c' = c\<lparr>ct_models := hm_put a m (ct_models c)\<rparr>" and "publish_model fault m c = (c', Ok ())"
proof -
  from assms(1) have inv: "names_ok (lf_models s)"
    unfolding lifecycle_reach_def using lifecycle_machine.reach_inv[of s] by (simp add: lifecycle_inv_def)
  then have hm: "hm_ok (lf_models s)" and id: "\<And>k n. map_of (lf_models s) k = Some n \<Longrightarrow> mr_id n = k" by (simp_all add: names_ok_def)
  from assms(2) obtain old where old: "map_of (lf_models s) a = Some old"
    by (auto simp: catalogued_alias_def split: option.splits)
  let ?m = "add_alias x (without_aliases [x] old)"
  let ?ms = "hm_put a ?m (map (\<lambda>(k, old). (k, without_aliases [x] old)) (lf_models s))"
  obtain d r where p: "publish_model fault ?m c = (d, r)" by (cases "publish_model fault ?m c")
  have r: "r = Ok ()" and m: "m = ?m" and s': "lf_models s' = ?ms" and c': "c' = d"
    using assms(2) publish_model_cases[OF p]
    by (auto simp: catalogued_alias_def old catalog_publish_def p lifecycle_alias_def catalog_answer_def Let_def)
  show idm: "mr_id m = a" using id[OF old] by (simp add: m add_alias_def without_aliases_def)
  show xm: "x \<in> set (mr_aliases m)" by (simp add: m add_alias_def sorted_aliases_def)
  show ax: "a \<noteq> x" using old assms(3) by auto
  show "publish_model fault m c = (c', Ok ())" using p r c' m by simp
  show "c' = c\<lparr>ct_models := hm_put a m (ct_models c)\<rparr>" using publish_model_cases[OF p] r c' m idm by auto
  have "hm_ok (map (\<lambda>(k, old). (k, without_aliases [x] old)) (lf_models s))"
    using hm by (simp add: hm_ok_def comp_def split_def)
  then have hms: "hm_ok ?ms" by simp
  have look: "map_of ?ms k = (if k = a then Some m else map_option (without_aliases [x]) (map_of (lf_models s) k))" for k
    by (simp add: m map_of_map_values)
  have only: "z = m" if "z \<in> set (hm_values ?ms)" "x \<in> set (mr_aliases z)" for z
  proof -
    from that(1) obtain k where "map_of ?ms k = Some z" using hm_values_iff[OF hms, of z] by blast
    then have k: "(if k = a then Some m else map_option (without_aliases [x]) (map_of (lf_models s) k)) = Some z"
      unfolding look .
    have "x \<notin> set (mr_aliases (without_aliases [x] y))" for y by (simp add: without_aliases_def)
    with k that(2) show ?thesis by (cases "k = a") auto
  qed
  have "m \<in> set (hm_values ?ms)" using hm_values_iff[OF hms, of m] look[of a] by auto
  with xm have "find (\<lambda>z. x \<in> set (mr_aliases z)) (hm_values ?ms) \<noteq> None" by (auto simp: find_None_iff)
  then obtain z where z: "find (\<lambda>z. x \<in> set (mr_aliases z)) (hm_values ?ms) = Some z" by blast
  then have "z \<in> set (hm_values ?ms)" "x \<in> set (mr_aliases z)" by (auto simp: find_Some_iff)
  then have "z = m" by (rule only)
  with z ax assms(3) show "lifecycle_model s' x = Ok m" unfolding lifecycle_model_def s' look by simp
qed

text \<open>C39: A restart decides anew to whom a moved alias belongs. The alias \<open>x\<close> is listed by some rows of the catalog, that of
  the model it is taken from among them, and is moved to a served model \<open>a\<close>. The running server then resolves it to
  \<open>a\<close>; but the catalog only gains the row of \<open>a\<close>, so that a server that starts from it resolves the alias to the
  model with the greatest id among all that list it: the move lasts exactly if no row that listed the alias before has a
  greater id than \<open>a\<close>, and is undone otherwise.\<close>

theorem alias_move_undone_by_restart:
  assumes "lifecycle_reach s" and "catalog_ok c" and "map_of (lf_models s) x = None" and "map_of (ct_models c) x = None"
    and "catalogued_alias fault answers a x (s, c) = ((s', c'), Ok m)"
    and "server_start starts c' = (s2, Ok ())"
  shows "lifecycle_model s' x = Ok m \<and> mr_id m = a \<and> listing x c' = insert a (listing x c) \<and>
    (\<exists>n. lifecycle_model s2 x = Ok n \<and> mr_id n = Max (insert a (listing x c)) \<and>
      (mr_id n = a \<longleftrightarrow> (\<forall>b\<in>listing x c. b \<le> a)))"
proof -
  note g = alias_gives[OF assms(1,5,3)]
  have l: "listing x c' = insert a (listing x c)" using g(3) by (auto simp: g(5) listing_def)
  have ok: "catalog_ok c'" using publish_model_ok[OF assms(2), of fault m] g(6) by simp
  have fin: "finite (listing x c)"
    by (rule finite_subset[OF _ finite_dom_map_of[of "ct_models c"]]) (auto simp: listing_def)
  have none: "map_of (ct_models c') x = None" using g(4) assms(4) by (simp add: g(5))
  from start_gives_alias_to_last[OF ok assms(6) _ none] l
  obtain n where n: "lifecycle_model s2 x = Ok n" "mr_id n = Max (insert a (listing x c))" by auto
  have "Max (insert a (listing x c)) = a \<longleftrightarrow> (\<forall>b\<in>listing x c. b \<le> a)"
    using fin by (auto simp: Max_eq_iff)
  with n g(1,2) l show ?thesis by auto
qed

text \<open>Two models are registered, the second one with an alias, which then is given to the first.\<close>

definition record_a0 :: ModelRecord where "record_a0 = (file_model ''a'' [])\<lparr>mr_epoch := 1\<rparr>"
definition record_a :: ModelRecord where "record_a = (file_model ''a'' [''x''])\<lparr>mr_epoch := 1\<rparr>"
definition record_b :: ModelRecord where "record_b = (file_model ''b'' [''x''])\<lparr>mr_epoch := 2\<rparr>"

lemmas lifecycle_run = lifecycle_register_def complete_record_def register_new_def prepare_in_engine_def all_well_def
  file_model_def lifecycle_new_def call_engine_def insert_model_def sorted_aliases_def checked_add_code Let_def

definition first_model :: "Lifecycle \<times> ModelCatalog" where
  "first_model = fst (catalogued_register None all_well (file_model ''a'' []) (lifecycle_new, empty_catalog))"

definition both_models :: "Lifecycle \<times> ModelCatalog" where
  "both_models = fst (catalogued_register None all_well (file_model ''b'' [''x'']) first_model)"

lemma first_model_eq:
  "first_model = (\<lparr>lf_models = [(''a'', record_a0)], lf_next_epoch = 2, lf_calls = [CallPrepare record_a0, CallCommit record_a0 None]\<rparr>,
      \<lparr>ct_models = [(''a'', record_a0)], ct_operations = []\<rparr>)"
  by (simp add: first_model_def catalogued_register_def lifecycle_run catalog_answer_def catalog_publish_def publish_model_def
      run_statement_def path_revision_free_def empty_catalog_def record_a0_def i64_max_def)

lemma both_models_eq:
  "both_models = (\<lparr>lf_models = [(''a'', record_a0), (''b'', record_b)], lf_next_epoch = 3,
      lf_calls = [CallPrepare record_a0, CallCommit record_a0 None, CallPrepare record_b, CallCommit record_b None]\<rparr>,
    \<lparr>ct_models = [(''a'', record_a0), (''b'', record_b)], ct_operations = []\<rparr>)"
  unfolding both_models_def first_model_eq
  by (simp add: catalogued_register_def lifecycle_run catalog_answer_def catalog_publish_def publish_model_def
      run_statement_def path_revision_free_def record_a0_def record_b_def without_aliases_def i64_max_def)

lemma catalogued_register_reach:
  assumes "lifecycle_reach s" "lf_next_epoch s < u64_max"
  shows "lifecycle_reach (fst (fst (catalogued_register fault a m (s, c))))"
proof -
  have "lifecycle_reach (fst (lifecycle_register a' m s))" for a'
    using assms unfolding lifecycle_reach_def by (blast intro: reach_step lstep_register)
  with assms(1) show ?thesis by (simp add: catalogued_register_def Let_def split: outcome.split prod.split) (metis fst_conv)
qed

lemma both_models_reach: "lifecycle_reach (fst both_models)"
proof -
  have 0: "lifecycle_reach lifecycle_new"
    unfolding lifecycle_reach_def by (rule reach_init) (simp add: lifecycle_init_def)
  have 1: "lifecycle_reach (fst first_model)"
    unfolding first_model_def using 0 by (rule catalogued_register_reach) (simp add: lifecycle_new_def u64_max_def)
  have "lf_next_epoch (fst first_model) < u64_max"
    by (simp add: first_model_eq u64_max_def)
  from catalogued_register_reach[OF 1 this] show ?thesis
    unfolding both_models_def by (metis prod.collapse)
qed

definition moved :: "Lifecycle \<times> ModelCatalog" where
  "moved = (\<lparr>lf_models = [(''a'', record_a), (''b'', without_aliases [''x''] record_b)], lf_next_epoch = 3,
      lf_calls = [CallPrepare record_a0, CallCommit record_a0 None, CallPrepare record_b, CallCommit record_b None]\<rparr>,
    \<lparr>ct_models = [(''a'', record_a), (''b'', record_b)], ct_operations = []\<rparr>)"

lemma moved_eq: "catalogued_alias None all_well ''a'' ''x'' both_models = (moved, Ok record_a)"
  by (simp add: both_models_eq catalogued_alias_def catalog_publish_def publish_model_def run_statement_def path_revision_free_def
    lifecycle_alias_def catalog_answer_def all_well_def add_alias_def without_aliases_def sorted_aliases_def
    record_a_def record_a0_def record_b_def file_model_def moved_def i64_max_def Let_def)

lemma moved_start: "snd (server_start (\<lambda>_. all_well) (snd moved)) = Ok ()"
proof -
  have "''a'' < (''b'' :: string)" by code_simp
  then have "catalog_models (catalog_open (snd moved)) = [record_a, record_b]"
    by (simp add: moved_def catalog_open_def catalog_models_def)
  then show ?thesis
    by (simp add: server_start_def lifecycle_register_from_catalog_def lifecycle_run record_a_def record_b_def and_then_def)
qed

theorem alias_move_undone_by_restart_witness:
  "lifecycle_model (fst moved) ''x'' = Ok record_a \<and>
    (\<exists>n. lifecycle_model (fst (server_start (\<lambda>_. all_well) (snd moved))) ''x'' = Ok n \<and> mr_id n = ''b'')"
proof -
  have lt: "''a'' < (''b'' :: string)" by code_simp
  have ok: "catalog_ok (snd both_models)"
    by (auto simp: both_models_eq catalog_ok_def record_a0_def record_b_def file_model_def hm_ok_def split: if_splits)
  have l: "listing ''x'' (snd both_models) = {''b''}"
    by (auto simp: listing_def both_models_eq record_a0_def record_b_def file_model_def split: if_splits)
  have n: "map_of (lf_models (fst both_models)) ''x'' = None" "map_of (ct_models (snd both_models)) ''x'' = None"
    by (simp_all add: both_models_eq)
  have move: "catalogued_alias None all_well ''a'' ''x'' (fst both_models, snd both_models) = ((fst moved, snd moved), Ok record_a)"
    using moved_eq by simp
  have start: "server_start (\<lambda>_. all_well) (snd moved) = (fst (server_start (\<lambda>_. all_well) (snd moved)), Ok ())"
    using moved_start by (metis prod.collapse)
  from alias_move_undone_by_restart[OF both_models_reach ok n move start] show ?thesis
    unfolding l using lt by (auto simp: max_def)
qed

section \<open>The catalog and the served models\<close>

text \<open>A row stands for the model that is served: it may list more aliases and agrees in everything else.\<close>

definition row_of :: "ModelRecord \<Rightarrow> ModelRecord \<Rightarrow> bool" where
  "row_of m row \<longleftrightarrow> row\<lparr>mr_aliases := mr_aliases m\<rparr> = m \<and> set (mr_aliases m) \<subseteq> set (mr_aliases row)"

definition catalog_agrees :: "Lifecycle \<times> ModelCatalog \<Rightarrow> bool" where
  "catalog_agrees sc \<longleftrightarrow> (case sc of (s, c) \<Rightarrow> catalog_ok c \<and> (\<forall>k. rel_option row_of (map_of (lf_models s) k) (map_of (ct_models c) k)))"

lemma row_of_refl [simp]: "row_of m m"
  by (simp add: row_of_def)

lemma row_of_without: "row_of m row \<Longrightarrow> row_of (without_aliases xs m) row"
  by (cases m; cases row) (auto simp: row_of_def without_aliases_def)

lemma row_of_id: "row_of m row \<Longrightarrow> mr_id m = mr_id row"
  by (cases m; cases row) (simp add: row_of_def)

lemma row_of_strip: "row_of m row \<Longrightarrow> m\<lparr>mr_aliases := []\<rparr> = row\<lparr>mr_aliases := []\<rparr>"
  by (cases m; cases row) (simp add: row_of_def)

lemma catalogued_put:
  assumes "catalog_agrees (s, c)" and "catalog_ok c'" and "map_of (ct_models c') = (map_of (ct_models c))(name \<mapsto> m)"
    and "map_of (lf_models s') = (\<lambda>k. if k = name then Some m else map_option (without_aliases xs) (map_of (lf_models s) k))"
  shows "catalog_agrees (s', c')"
proof -
  have "rel_option row_of (map_option (without_aliases xs) (map_of (lf_models s) k)) (map_of (ct_models c) k)" for k
    using assms(1) by (cases "map_of (lf_models s) k"; cases "map_of (ct_models c) k") (auto simp: catalog_agrees_def row_of_without dest: spec[of _ k])
  with assms(2) show ?thesis by (simp add: catalog_agrees_def assms(3,4))
qed

lemma catalogued_same:
  assumes "catalog_agrees (s, c)" "lf_models s' = lf_models s"
  shows "catalog_agrees (s', c)"
  using assms by (simp add: catalog_agrees_def)

lemma register_new_models:
  "lf_models (fst (register_new a m s)) = (if la_prepared a = None \<and> la_catalog a = None
     then insert_model (m\<lparr>mr_epoch := lf_next_epoch s\<rparr>) (lf_models s) else lf_models s)"
  by (simp add: register_new_def prepare_in_engine_def and_then_def call_engine_def Let_def split: option.split)

lemma register_catalogued:
  assumes c: "catalog_agrees (s, c)"
  shows "catalog_agrees (fst (catalogued_register fault a m (s, c)))"
proof (cases "complete_record a m")
  case (Ok n)
  let ?known = "case map_of (lf_models s) (mr_id n) of Some old \<Rightarrow> same_file old n | None \<Rightarrow> False"
  let ?m = "n\<lparr>mr_epoch := lf_next_epoch s\<rparr>"
  have keep: "lf_models (fst (lifecycle_register a' m s)) = lf_models s"
    if "?known \<or> la_prepared a' \<noteq> None" "complete_record a' m = Ok n" for a'
    using that by (cases "map_of (lf_models s) (mr_id n)"; cases "la_prepared a'")
      (simp_all add: lifecycle_register_def register_new_models prepare_in_engine_def and_then_def call_engine_def)
  have new: "lf_models (fst (lifecycle_register a' m s)) = (if la_prepared a' = None \<and> la_catalog a' = None
      then insert_model ?m (lf_models s) else lf_models s)" if "\<not> ?known" "complete_record a' m = Ok n" for a'
    using that by (cases "map_of (lf_models s) (mr_id n)") (simp_all add: lifecycle_register_def register_new_models)
  have size: "la_size (catalog_answer r a) = la_size a" for r :: "(CatalogError, unit) outcome" by (simp add: catalog_answer_def)
  have complete: "complete_record (catalog_answer r a) m = Ok n" for r :: "(CatalogError, unit) outcome"
    using Ok unfolding complete_record_def size .
  have prep: "la_prepared (catalog_answer r a) = la_prepared a" for r :: "(CatalogError, unit) outcome"
    by (simp add: catalog_answer_def)
  show ?thesis
  proof (cases "?known \<or> la_prepared a \<noteq> None")
    case True
    then have "lf_models (fst (lifecycle_register (catalog_answer (Ok ()) a) m s)) = lf_models s"
      by (intro keep complete) (simp only: prep)
    note same = catalogued_same[OF c this]
    have "fst (catalogued_register fault a m (s, c)) = (fst (lifecycle_register (catalog_answer (Ok ()) a) m s), c)"
      using True Ok by (simp add: catalogued_register_def Let_def split: prod.split)
    with same show ?thesis by simp
  next
    case False
    obtain c' r where p: "publish_model fault ?m c = (c', r)" by (cases "publish_model fault ?m c")
    have e: "fst (catalogued_register fault a m (s, c)) = (fst (lifecycle_register (catalog_answer r a) m s), c')"
      using False Ok p by (simp add: catalogued_register_def catalog_publish_def Let_def split: prod.split)
    from False have "lf_models (fst (lifecycle_register (catalog_answer r a) m s)) = (if la_prepared a = None \<and> la_catalog (catalog_answer r a) = None
      then insert_model ?m (lf_models s) else lf_models s)" using new[OF _ complete, of r] by (simp add: prep)
    with False have models: "lf_models (fst (lifecycle_register (catalog_answer r a) m s)) =
        (if la_catalog (catalog_answer r a) = None then insert_model ?m (lf_models s) else lf_models s)" by simp
    from publish_model_cases[OF p] show ?thesis
    proof (elim disjE exE conjE)
      fix x assume r: "r = Err x" and c': "c' = c"
      have "lf_models (fst (lifecycle_register (catalog_answer r a) m s)) = lf_models s"
        using models by (simp add: r catalog_answer_def)
      from catalogued_same[OF c this] show ?thesis unfolding e c' .
    next
      assume r: "r = Ok ()" and c': "c' = c\<lparr>ct_models := hm_put (mr_id ?m) ?m (ct_models c)\<rparr>"
      have "catalog_ok c'" using publish_model_ok[of c fault ?m] c p by (simp add: catalog_agrees_def)
      moreover have "lf_models (fst (lifecycle_register (catalog_answer r a) m s)) = insert_model ?m (lf_models s)"
        using models by (simp add: r catalog_answer_def)
      ultimately show ?thesis unfolding e
        by (intro catalogued_put[OF c, of c' "mr_id ?m" ?m _ "mr_aliases ?m"] ext) (simp_all add: c' insert_model_lookup)
    qed
  qed
qed (use c in \<open>simp_all add: catalogued_register_def\<close>)

lemma alias_catalogued:
  assumes c: "catalog_agrees (s, c)"
  shows "catalog_agrees (fst (catalogued_alias fault a name alias (s, c)))"
proof (cases "map_of (lf_models s) name")
  case (Some old)
  let ?m = "add_alias alias (without_aliases [alias] old)"
  obtain c' r where p: "publish_model fault ?m c = (c', r)" by (cases "publish_model fault ?m c")
  have e: "fst (catalogued_alias fault a name alias (s, c)) = (fst (lifecycle_alias True (catalog_answer r a) name alias s), c')"
    using Some p by (simp add: catalogued_alias_def catalog_publish_def split: prod.split)
  have "rel_option row_of (map_of (lf_models s) name) (map_of (ct_models c) name)" and ok: "catalog_ok c"
    using c by (simp_all add: catalog_agrees_def)
  with Some have id: "mr_id old = name" by (auto simp: option_rel_Some1 catalog_ok_def dest: row_of_id)
  then have idm: "mr_id ?m = name" by (simp add: add_alias_def without_aliases_def)
  from publish_model_cases[OF p] show ?thesis
  proof (elim disjE exE conjE)
    fix x assume r: "r = Err x" and c': "c' = c"
    have "lf_models (fst (lifecycle_alias True (catalog_answer r a) name alias s)) = lf_models s"
      by (simp add: lifecycle_alias_def r catalog_answer_def Let_def split: option.split)
    from catalogued_same[OF c this] show ?thesis unfolding e c' .
  next
    assume r: "r = Ok ()" and c': "c' = c\<lparr>ct_models := hm_put (mr_id ?m) ?m (ct_models c)\<rparr>"
    have "catalog_ok c'" using publish_model_ok[OF ok, of fault ?m] p by simp
    moreover have "lf_models (fst (lifecycle_alias True (catalog_answer r a) name alias s))
        = hm_put name ?m (map (\<lambda>(k, old). (k, without_aliases [alias] old)) (lf_models s))"
      using Some by (simp add: lifecycle_alias_def r catalog_answer_def Let_def)
    ultimately show ?thesis unfolding e
      by (intro catalogued_put[OF c, of c' name ?m _ "[alias]"] ext) (simp_all add: c' idm map_of_map_values)
  qed
qed (use c in \<open>simp add: catalogued_alias_def\<close>)

lemma remove_catalogued:
  assumes c: "catalog_agrees (s, c)"
  shows "catalog_agrees (fst (catalogued_remove fault a name (s, c)))"
proof (cases "map_of (lf_models s) name")
  case (Some old)
  show ?thesis
  proof (cases fault)
    case None
    have ok: "catalog_ok c" using c by (simp add: catalog_agrees_def)
    have "catalog_ok (c\<lparr>ct_models := hm_del name (ct_models c)\<rparr>)"
      unfolding catalog_ok_def
    proof (intro conjI allI impI)
      show "hm_ok (ct_models (c\<lparr>ct_models := hm_del name (ct_models c)\<rparr>))" "hm_ok (ct_operations (c\<lparr>ct_models := hm_del name (ct_models c)\<rparr>))"
        using ok by (simp_all add: catalog_ok_def)
      fix k m assume "map_of (ct_models (c\<lparr>ct_models := hm_del name (ct_models c)\<rparr>)) k = Some m"
      then have k: "map_of (ct_models c) k = Some m" by (simp split: if_splits)
      with ok show "mr_id m = k" by (simp add: catalog_ok_def)
      fix j n assume "map_of (ct_models (c\<lparr>ct_models := hm_del name (ct_models c)\<rparr>)) j = Some n"
      then have "map_of (ct_models c) j = Some n" by (simp split: if_splits)
      moreover assume "mr_path m = mr_path n" "mr_revision m = mr_revision n"
      ultimately show "k = j" using ok k unfolding catalog_ok_def by blast
    qed
    moreover have "rel_option row_of (map_of (lf_models s) k) (map_of (ct_models c) k)" for k using c by (simp add: catalog_agrees_def)
    ultimately show ?thesis using Some None
      by (simp add: catalog_agrees_def catalogued_remove_def catalog_remove_def lifecycle_remove_def catalog_answer_def call_engine_def)
  next
    case (Some e)
    with \<open>map_of (lf_models s) name = Some old\<close> c show ?thesis
      by (simp add: catalogued_remove_def catalog_remove_def lifecycle_remove_def catalog_answer_def)
  qed
qed (use c in \<open>simp add: catalogued_remove_def\<close>)

lemma operations_catalogued:
  assumes "catalog_agrees (s, c)" "ct_models c' = ct_models c" "hm_ok (ct_operations c')"
  shows "catalog_agrees (s, c')"
  using assms by (simp add: catalog_agrees_def catalog_ok_def)

lemma registered_rows:
  "distinct (map mr_id ms) \<Longrightarrow> rel_option row_of (map_of (fold insert_model ms []) k) (map_of (map (\<lambda>m. (mr_id m, m)) ms) k)"
proof (induction ms rule: rev_induct)
  case (snoc m ms)
  then have IH: "rel_option row_of (map_of (fold insert_model ms []) k) (map_of (map (\<lambda>m. (mr_id m, m)) ms) k)"
    and new: "mr_id m \<notin> mr_id ` set ms" by auto
  show ?case
  proof (cases "k = mr_id m")
    case True
    then have "map_of (map (\<lambda>m. (mr_id m, m)) ms) k = None" using new by (force simp: map_of_eq_None_iff)
    with True show ?thesis by (simp add: insert_model_lookup map_add_def)
  next
    case False
    with IH show ?thesis
      by (cases "map_of (fold insert_model ms []) k"; cases "map_of (map (\<lambda>m. (mr_id m, m)) ms) k")
        (auto simp: insert_model_lookup map_add_def row_of_without)
  qed
qed simp

lemma start_catalogued:
  assumes ok: "catalog_ok c" and "server_start answers c = (s, Ok ())"
  shows "catalog_agrees (s, catalog_open c)"
proof -
  let ?ms = "catalog_models c"
  note cm = catalog_models_props[OF ok]
  have o: "catalog_models (catalog_open c) = ?ms" and same: "ct_models (catalog_open c) = ct_models c"
    by (simp_all add: catalog_models_def catalog_open_def)
  have ms: "lf_models s = fold insert_model ?ms []"
    using register_all_Ok[of answers ?ms lifecycle_new s] assms(2) by (simp add: server_start_def o lifecycle_new_def)
  have "map_of (map (\<lambda>m. (mr_id m, m)) ?ms) k = map_of (ct_models c) k" for k
  proof -
    have "distinct (map fst (map (\<lambda>m. (mr_id m, m)) ?ms))" using cm(3) by (simp add: comp_def)
    then have "map_of (map (\<lambda>m. (mr_id m, m)) ?ms) k = Some n \<longleftrightarrow> map_of (ct_models c) k = Some n" for n
      using cm(1)[of n] ok by (auto simp: map_of_eq_Some_iff catalog_ok_def simp del: map_map)
    then show ?thesis by (metis not_Some_eq)
  qed
  then have "rel_option row_of (map_of (lf_models s) k) (map_of (ct_models c) k)" for k
    using registered_rows[OF cm(3), of k] by (simp add: ms)
  moreover have "catalog_ok (catalog_open c)"
    using ok by (simp add: catalog_ok_def same) (simp add: catalog_open_def hm_ok_def comp_def split_def)
  ultimately show ?thesis by (simp add: catalog_agrees_def same)
qed

lemma server_step_catalogued: "server_step sc sc' \<Longrightarrow> catalog_agrees sc \<Longrightarrow> catalog_agrees sc'"
proof (induction rule: server_step.induct)
  case (sstep_begin s c fault i model kind)
  then have "hm_ok (ct_operations c)" by (simp add: catalog_agrees_def catalog_ok_def)
  then show ?case by (intro operations_catalogued[OF sstep_begin])
    (simp_all add: begin_operation_def run_statement_def split: option.split)
next
  case (sstep_finish s c fault i status detail)
  then have "hm_ok (ct_operations c)" by (simp add: catalog_agrees_def catalog_ok_def)
  then show ?case by (intro operations_catalogued[OF sstep_finish])
    (simp_all add: finish_operation_def run_statement_def set_status_def and_then_def split: option.split)
next
  case (sstep_restart answers c s' s)
  then show ?case by (intro start_catalogued) (simp_all add: catalog_agrees_def)
next
  case (sstep_register sc fault a m)
  then show ?case by (cases sc) (simp add: register_catalogued)
next
  case (sstep_alias sc fault a name x)
  then show ?case by (cases sc) (simp add: alias_catalogued)
next
  case (sstep_remove sc fault a name)
  then show ?case by (cases sc) (simp add: remove_catalogued)
qed

lemma server_init_catalogued: "server_init sc \<Longrightarrow> catalog_agrees sc"
  by (simp add: server_init_def catalog_agrees_def empty_catalog_def lifecycle_new_def catalog_ok_def)

interpretation catalogued_server: safe_machine server_init server_step catalog_agrees
  by unfold_locales (fact server_init_catalogued, fact server_step_catalogued)

text \<open>C40: The catalog keeps what is served. After any registrations, aliases and removals that publish, with any answers and
  errors, any admin operations and any restarts: a model is served exactly if the catalog has a row under its id; the row
  agrees with the record in everything but the aliases, and lists at least the aliases that the model has. So a start
  from the catalog, when no preparation fails, serves the same models again, with the same epochs and files; only
  the aliases may differ.\<close>

theorem catalog_keeps_models:
  assumes "server_reach (s, c)"
  shows "(\<forall>k. rel_option (\<lambda>m row. row\<lparr>mr_aliases := mr_aliases m\<rparr> = m \<and> set (mr_aliases m) \<subseteq> set (mr_aliases row))
      (map_of (lf_models s) k) (map_of (ct_models c) k)) \<and>
    (\<forall>answers s2 k. server_start answers c = (s2, Ok ()) \<longrightarrow>
      map_option (\<lambda>m. m\<lparr>mr_aliases := []\<rparr>) (map_of (lf_models s2) k) = map_option (\<lambda>m. m\<lparr>mr_aliases := []\<rparr>) (map_of (lf_models s) k))"
proof (intro conjI allI impI)
  have "catalog_agrees (s, c)" using assms unfolding server_reach_def by (rule catalogued_server.reach_inv)
  then have ok: "catalog_ok c" and rows: "\<forall>k. rel_option row_of (map_of (lf_models s) k) (map_of (ct_models c) k)"
    by (simp_all add: catalog_agrees_def)
  from rows[unfolded row_of_def[abs_def]]
  show "rel_option (\<lambda>m row. row\<lparr>mr_aliases := mr_aliases m\<rparr> = m \<and> set (mr_aliases m) \<subseteq> set (mr_aliases row))
      (map_of (lf_models s) k) (map_of (ct_models c) k)" for k by (rule spec)
  fix answers s2 k assume "server_start answers c = (s2, Ok ())"
  from start_catalogued[OF ok this] have rows2: "\<forall>k. rel_option row_of (map_of (lf_models s2) k) (map_of (ct_models c) k)"
    by (simp add: catalog_agrees_def catalog_open_def)
  have strip: "map_option (\<lambda>m. m\<lparr>mr_aliases := []\<rparr>) x = map_option (\<lambda>m. m\<lparr>mr_aliases := []\<rparr>) y" if "rel_option row_of x y" for x y
    using that by (cases x; cases y) (auto dest: row_of_strip)
  show "map_option (\<lambda>m. m\<lparr>mr_aliases := []\<rparr>) (map_of (lf_models s2) k) = map_option (\<lambda>m. m\<lparr>mr_aliases := []\<rparr>) (map_of (lf_models s) k)"
    using strip[OF spec[OF rows, of k]] strip[OF spec[OF rows2, of k]] by simp
qed

lemma moved_reach: "server_reach moved"
proof -
  have 0: "server_reach (lifecycle_new, empty_catalog)"
    unfolding server_reach_def by (rule reach_init) (simp add: server_init_def)
  have step: "server_reach sc'" if "server_reach sc" "server_step sc sc'" for sc sc'
    using that unfolding server_reach_def by (rule reach_step)
  have "server_reach both_models"
    unfolding both_models_def first_model_def by (rule step[OF step[OF 0]]) (rule sstep_register)+
  from step[OF this sstep_alias[of both_models None all_well "''a''" "''x''"]] show ?thesis by (simp add: moved_eq)
qed

theorem catalog_keeps_models_witness:
  "map_of (ct_models (snd moved)) ''b'' = Some record_b \<and> map_of (lf_models (fst moved)) ''b'' = Some (record_b\<lparr>mr_aliases := []\<rparr>) \<and>
    map_option (\<lambda>m. m\<lparr>mr_aliases := []\<rparr>) (map_of (lf_models (fst (server_start (\<lambda>_. all_well) (snd moved)))) ''b'') = Some (record_b\<lparr>mr_aliases := []\<rparr>)"
proof -
  have r: "server_reach (fst moved, snd moved)" using moved_reach by simp
  have start: "server_start (\<lambda>_. all_well) (snd moved) = (fst (server_start (\<lambda>_. all_well) (snd moved)), Ok ())"
    using moved_start by (metis prod.collapse)
  have b: "map_of (lf_models (fst moved)) ''b'' = Some (record_b\<lparr>mr_aliases := []\<rparr>)"
    by (simp add: moved_def without_aliases_def record_b_def file_model_def)
  from catalog_keeps_models[OF r] start b have
    "map_option (\<lambda>m. m\<lparr>mr_aliases := []\<rparr>) (map_of (lf_models (fst (server_start (\<lambda>_. all_well) (snd moved)))) ''b'')
      = Some (record_b\<lparr>mr_aliases := []\<rparr>)" by (metis (no_types, lifting) ModelRecord.update_convs(5) ModelRecord.surjective option.map(2))
  with b show ?thesis by (simp add: moved_def)
qed

end
