(* ===== verification/Spec2Isabelle.thy ===== *)
theory Spec2Isabelle
  imports Context_Store_Props Physical_Manager_Props Fair_Policy_Props Scheduler_Props Residency_Props Mapped_Props Generation_Props Compaction_Props Admission_Props Response_Store_Props Inference_Props Lifecycle_Props Catalog_Props
begin

text \<open>
  A verification library of Cusco, an inference server for language models: an HTTP server in front of a
  scheduler, which runs the sessions of an engine quantum by quantum on the models that are loaded; the
  engine shares evaluated prefixes of token sequences between requests. All paths are below \<open>src/crates/\<close>.
  A definition has the name of what it models, suffixed or prefixed where that name is taken; the fields
  of a record carry a prefix of two letters.

  \<^bold>\<open>Parts, and the theories that model them.\<close>

  \<^item> \<open>Cusco_Prelude\<close>: the outcome of a call (\<open>Ok\<close>, \<open>Err\<close>, and \<open>Abort\<close> for a panic), \<open>and_then\<close> for the question
    mark operator, machine integers, hash maps as association lists, the contract of a hash map and of a
    machine with an invariant as locales, and reachability.
  \<^item> \<open>Token_Sequence\<close>, \<open>Context_Store\<close>, \<open>Context_Store_Inv\<close>, \<open>Context_Store_Props\<close> (\<open>context-store/src/lib.rs\<close>):
    persistent token sequences with their content address; contexts, evaluated prefixes with reference
    counts, the prepare, validate and commit protocol, and the index of prefixes. State: \<open>ContextStore\<close>.
    Shown: the evaluated prefix of a context is always a valid prefix of its tokens, reference counts are
    exact, the index finds the longest valid prefix, and the identity is the digest of the tokens.
  \<^item> \<open>Physical_Manager\<close>, \<open>Physical_Manager_Inv\<close>, \<open>Physical_Manager_Props\<close> (\<open>physical-manager/src/lib.rs\<close>):
    representations of prefixes in device, host and storage memory, with bindings, transitions, transfers,
    growth reservations, block tables and eviction. State: \<open>PhysicalManager\<close>. Shown: capacity, exact
    ownership, no panics, block tables, what commit, abort and eviction do.
  \<^item> \<open>Server_Types\<close>, \<open>Request_Control\<close> (\<open>server/src/lib.rs\<close>): errors, requests, session steps, and the control
    of a request, which leaves its running state once.
  \<^item> \<open>Fair_Policy\<close>, \<open>Fair_Policy_Props\<close>, \<open>Scheduler_Diagnostics\<close>, \<open>Scheduler\<close>, \<open>Scheduler_Client\<close>,
    \<open>Scheduler_Inv\<close>, \<open>Scheduler_System\<close>, \<open>Scheduler_Props\<close> (\<open>server/src/scheduler.rs\<close>): the deficit round robin
    policy, the diagnostic records, the scheduler thread with its slots and jobs, the client sessions, and
    all of them interleaved at their channel operations. State: \<open>Scheduler\<close>. Shown: what a selection
    serves and that no flow starves, one final message per session, one owner per quantum, exact counters, no
    panic of the thread, no stall.
  \<^item> \<open>Residency\<close>, \<open>Residency_System\<close>, \<open>Residency_Inv\<close>, \<open>Residency_Props\<close> (\<open>server/src/residency.rs\<close>, and the
    measured profiles of \<open>catalog.rs\<close>): which models are loaded within which budgets. State:
    \<open>ResidencyState\<close>; every critical section is a step. Shown: budgets, gauges, models in use stay loaded.
  \<^item> \<open>Lifecycle\<close>, \<open>Lifecycle_Props\<close> (\<open>server/src/lifecycle.rs\<close>): the table of models. Shown: names are
    unambiguous, and the engine holds exactly what the table serves.
  \<^item> \<open>Mapped_Executor\<close> (\<open>executor/src/lib.rs\<close>), \<open>Mapped_Engine\<close>, \<open>Mapped_Session\<close>, \<open>Mapped_Store\<close>, \<open>Mapped_System\<close>,
    \<open>Mapped_Inv\<close>, \<open>Mapped_Session_Inv\<close>, \<open>Mapped_Props\<close> (\<open>server/src/mapped.rs\<close>): the engine that evaluates
    requests on forked mappings, publishes prefixes block by block, spills and restores them. It calls the
    context store and the physical manager; its machine interleaves any sessions. State: \<open>MappedState\<close>. Shown: a
    session returns what a generation without any cache returns; sessions do not interfere; what is cached
    is what it is named after; both stores stay reachable states of their own machines; sessions end.
  \<^item> \<open>Rust_Text\<close>, \<open>Generation\<close>, \<open>Generation_Props\<close> (\<open>server/src/generation.rs\<close>): UTF-8 as the standard library
    reads it, and the frontier that streams text up to a stop sequence. Shown: it streams what a reference
    renders that looks at all bytes at once, and holds back little.
  \<^item> \<open>Compaction\<close>, \<open>Compaction_Props\<close> (\<open>server/src/context_strategy.rs\<close>): the window-tail strategy. Shown: it
    selects, keeps anchors, and stays within its budget but for these.
  \<^item> \<open>Admission\<close>, \<open>Admission_Inv\<close>, \<open>Admission_Props\<close> (\<open>server/src/lib.rs\<close>): admission with its queue, cancellation,
    configuration, and the gates. State: \<open>Inner\<close>, \<open>PrequeueGate\<close>; one step per critical section. Shown:
    accounts are exact and the limit is kept while no give-up is interrupted, and the run that breaks it.
  \<^item> \<open>Contexts\<close>, \<open>Context_Props\<close> (\<open>server/src/lib.rs\<close>): the contexts a client names, with their revisions, and the
    declarations of compactions. Shown: no update is lost, declarations are rationed.
  \<^item> \<open>Engine_Loop\<close>, \<open>Engine_Loop_Props\<close>, \<open>Inference\<close>, \<open>Inference_Props\<close> (\<open>server/src/lib.rs\<close>): the loop that drives
    a session, the deterministic engine, and one inference from its request to its commit. It calls the
    frontier, compaction, contexts and declarations, with any engine. Shown: an inference is its reference.
  \<^item> \<open>Prompt\<close>, \<open>Responses\<close>, \<open>Response_Store\<close>, \<open>Lineage\<close>, \<open>Lineage_Props\<close>, \<open>Response_Props\<close>,
    \<open>Response_Store_Props\<close> (\<open>server/src/prompt.rs\<close>, \<open>responses.rs\<close>, \<open>response_store.rs\<close>, \<open>context_updates.rs\<close>, and
    their callers in \<open>lib.rs\<close>): the chat template and what continues a prompt, response resources, their
    streamed projection, the store on disk with crashes and recovery, the replay of a lineage, and context
    updates. Shown: continuing a prompt is rendering the conversation, a stream is the response, lineages are
    linear, recovery is a round trip, updates commit once; and where a lineage or a store locks itself out.

  \<^bold>\<open>How the properties are stated.\<close> Each component is a machine: an initial predicate and an inductive step
  relation over its operations, with every answer the environment may give, and \<open>reach\<close>. The invariant of each
  machine is an instance of the locale \<open>safe_machine\<close>. A theorem whose text begins with C and a number is a
  property; one with hypotheses is followed by a witness, a concrete run in which they hold.

  \<^bold>\<open>Integers, bounds and fuel.\<close> \<open>usize\<close> and \<open>u64\<close> are natural numbers, and checked, saturating and wrapping
  operations are written out where the code has them; deficits are 64-bit integers that wrap. Machines end
  before a counter of identifiers, revisions or epochs is exhausted (2 to the power of 64 steps). Loops of the
  code are structural or come with a measure; where the code may not end, which only a session of an engine can
  cause, the loop is a partial function into an option (\<open>engine_loop\<close>). No definition has fuel.

  \<^bold>\<open>Parameters.\<close> SHA-256 (\<open>sha\<close>); the native engine (\<open>Backend\<close>, with the laws of the locale
  \<open>sequence_backend\<close>, which the deterministic backend of the native shim fulfils; and \<open>InferEngine\<close>, any engine);
  clocks, identifiers, threads, file operations, SQLite and JSON encoding, as answers of the environment.

  \<^bold>\<open>Not modelled.\<close> The HTTP surface of \<open>lib.rs\<close> (router, handlers but for the prompt of a Responses request,
  JSON types, OpenAI and Ollama adapters, authentication, debug logging): transport and serialisation by
  third-party crates around the operations above. \<open>structured.rs\<close> compiles schemas into a grammar text that
  only native code gives a meaning. \<open>vision.rs\<close> wraps image decoders, and no model accepts its images.
  \<open>config.rs\<close> and the SQL of \<open>catalog.rs\<close> are data. \<open>model-registry\<close> downloads and hashes files.
  \<open>executor-sys\<close> declares the native functions, and \<open>cli\<close> starts the server. Of \<open>executor/src/lib.rs\<close>, the
  checkpoints and the counts of raw handles. Channels of the asynchronous runtime appear as their operations.
\<close>

end
